(* ===== verification/Geo_Prelude.thy ===== *)
theory Geo_Prelude
  imports Complex_Main "HOL-Library.Word" "HOL-Library.Multiset"
begin

text \<open>
  Shared vocabulary of the development: the value model of the Go numeric types, the parts
  of Go's standard library every component uses (\<open>math.Round\<close>, \<open>strings.TrimSpace\<close>,
  reads of a missing map key), the first-minimum scan that several loops of the program
  perform, and the theorem collections the component theories add to.

  Value model.  A \<open>float64\<close> or \<open>float32\<close> is a real number: arithmetic is exact, and the
  values NaN and the infinities are not represented, so the code's \<open>math.IsNaN\<close> and
  \<open>math.IsInf\<close> tests are false throughout.  An \<open>int64\<close> identifier is an \<open>int\<close> (the code
  only compares identifiers).  Integers whose width matters (polyline deltas, access
  flags, name indices) are words.
\<close>

named_theorems geo_defs "definitions of the small helpers, for unfolding"
named_theorems inv_intros "preservation rules of the component invariants"

type_synonym float64 = real
type_synonym node_id = int

text \<open>\<open>math.MaxFloat64\<close>, the sentinel for "no distance seen yet".\<close>

definition maxFloat64 :: float64 where
  "maxFloat64 = 2 ^ 1024 - 2 ^ 971"

lemma maxFloat64_pos [simp]: "0 < maxFloat64"
proof -
  have "(2::real) ^ 971 < 2 ^ 1024" by (rule power_strict_increasing) simp_all
  then show ?thesis by (simp add: maxFloat64_def)
qed

lemma maxFloat64_ge: "2 ^ 1023 \<le> maxFloat64"
proof -
  have "(2::real) ^ 971 \<le> 2 ^ 1023" by (rule power_increasing) simp_all
  moreover have "(2::real) ^ 1024 = 2 ^ 1023 + 2 ^ 1023"
    by (simp only: mult_2 [symmetric] power_Suc [symmetric]) simp
  ultimately show ?thesis by (simp add: maxFloat64_def)
qed

text \<open>\<open>math.Round\<close> rounds half away from zero.\<close>

definition math_Round :: "float64 \<Rightarrow> int" where
  "math_Round x = (if 0 \<le> x then \<lfloor>x + 1/2\<rfloor> else - \<lfloor>- x + 1/2\<rfloor>)"

lemma math_Round_of_int [simp]: "math_Round (of_int n) = n"
proof -
  have "\<lfloor>of_int n + (1/2::real)\<rfloor> = n" and "\<lfloor>- of_int n + (1/2::real)\<rfloor> = - n"
    by (simp_all add: floor_eq_iff)
  then show ?thesis by (simp add: math_Round_def)
qed

lemma math_Round_bounds: "\<bar>of_int (math_Round x) - x\<bar> \<le> 1/2"
proof -
  have f: "of_int \<lfloor>y + 1/2\<rfloor> \<le> y + 1/2" "y + 1/2 < of_int \<lfloor>y + 1/2\<rfloor> + 1" for y :: real
    by linarith+
  show ?thesis
  proof (cases "0 \<le> x")
    case True
    then have "math_Round x = \<lfloor>x + 1/2\<rfloor>" by (simp add: math_Round_def)
    with f [of x] show ?thesis by linarith
  next
    case False
    then have "math_Round x = - \<lfloor>- x + 1/2\<rfloor>" by (simp add: math_Round_def)
    with f [of "- x"] show ?thesis by linarith
  qed
qed

lemma math_Round_neg: "math_Round (- x) = - math_Round x"
  by (cases "x = 0") (auto simp: math_Round_def)

text \<open>Reading a Go map at a missing key gives the zero value.\<close>

definition getz :: "('k \<Rightarrow> 'v::zero option) \<Rightarrow> 'k \<Rightarrow> 'v" where
  "getz m k = (case m k of None \<Rightarrow> 0 | Some v \<Rightarrow> v)"

lemma getz_upd [simp]: "getz (m(k \<mapsto> v)) j = (if j = k then v else getz m j)"
  by (simp add: getz_def)

lemma getz_Some [simp]: "m k = Some v \<Longrightarrow> getz m k = v"
  by (simp add: getz_def)

text \<open>
  The scan \<open>if d := f x; d < best then best, arg = d, x\<close> over a list, starting from
  a sentinel: the running minimum and the first element that attains it.
\<close>

fun scan_min :: "('a \<Rightarrow> float64) \<Rightarrow> float64 \<times> 'a option \<Rightarrow> 'a list \<Rightarrow> float64 \<times> 'a option" where
  "scan_min f acc [] = acc"
| "scan_min f (m, a) (x # xs) =
     (if f x < m then scan_min f (f x, Some x) xs else scan_min f (m, a) xs)"

lemma scan_min_le: "fst (scan_min f (m, a) xs) \<le> m"
  by (induction xs arbitrary: m a) (auto, meson less_imp_le order_trans)

lemma scan_min_lower: "x \<in> set xs \<Longrightarrow> fst (scan_min f (m, a) xs) \<le> f x"
proof (induction xs arbitrary: m a)
  case Nil
  then show ?case by simp
next
  case (Cons y ys)
  then show ?case
    using scan_min_le [of f "f y" "Some y" ys] scan_min_le [of f m a ys]
    by (cases "x = y") (auto simp: not_less intro: order_trans)
qed

lemma scan_min_result:
  "snd (scan_min f (m, a) xs) = a \<and> fst (scan_min f (m, a) xs) = m
   \<or> (\<exists>x\<in>set xs. snd (scan_min f (m, a) xs) = Some x \<and> fst (scan_min f (m, a) xs) = f x)"
proof (induction xs arbitrary: m a)
  case Nil
  then show ?case by simp
next
  case (Cons x xs)
  from Cons [of "f x" "Some x"] Cons [of m a] show ?case by auto
qed

lemma scan_min_Some:
  assumes "scan_min f (m, None) xs = (d, Some x)"
  shows "x \<in> set xs" "d = f x" "\<And>y. y \<in> set xs \<Longrightarrow> f x \<le> f y"
proof -
  from scan_min_result [of f m None xs] assms show "x \<in> set xs" "d = f x" by auto
  fix y assume "y \<in> set xs"
  from scan_min_lower [OF this, of f m None] assms \<open>d = f x\<close> show "f x \<le> f y" by simp
qed

lemma scan_min_None:
  assumes "scan_min f (m, None) xs = (d, None)" and "x \<in> set xs"
  shows "m \<le> f x"
proof -
  from scan_min_result [of f m None xs] assms(1) have "d = m" by auto
  with scan_min_lower [OF assms(2), of f m None] assms(1) show ?thesis by simp
qed

text \<open>The scan with a possibly missing best element: \<open>if best == nil || f x < f best\<close>.\<close>

definition min_step :: "('a \<Rightarrow> float64) \<Rightarrow> ('a \<times> float64) option \<Rightarrow> 'a \<Rightarrow> ('a \<times> float64) option" where
  "min_step f best x =
     (case best of None \<Rightarrow> Some (x, f x) | Some (b, t) \<Rightarrow> if f x < t then Some (x, f x) else best)"

lemma foldl_min_step:
  "foldl (min_step f) (Some (a, f a)) xs = Some (b, t) \<Longrightarrow>
   b \<in> insert a (set xs) \<and> t = f b \<and> (\<forall>x\<in>insert a (set xs). t \<le> f x)"
proof (induction xs arbitrary: a)
  case (Cons x xs)
  then show ?case
    by (cases "f x < f a") (force simp: min_step_def)+
qed simp

lemma foldl_min_step_Some: "\<exists>b t. foldl (min_step f) (Some (a, s)) xs = Some (b, t)"
  by (induction xs arbitrary: a s) (auto simp: min_step_def)

lemma foldl_min_step_None: "foldl (min_step f) None xs = None \<longleftrightarrow> xs = []"
proof (cases xs)
  case (Cons x ys)
  then show ?thesis using foldl_min_step_Some [of f x "f x" ys] by (auto simp: min_step_def)
qed simp

lemma foldl_min_step_best:
  assumes "foldl (min_step f) None xs = Some (b, t)"
  shows "b \<in> set xs" "t = f b" "\<And>x. x \<in> set xs \<Longrightarrow> t \<le> f x"
proof -
  from assms obtain y ys where xs: "xs = y # ys" by (cases xs) auto
  with assms have "foldl (min_step f) (Some (y, f y)) ys = Some (b, t)" by (simp add: min_step_def)
  from foldl_min_step [OF this] show "b \<in> set xs" "t = f b" "\<And>x. x \<in> set xs \<Longrightarrow> t \<le> f x"
    by (auto simp: xs)
qed

lemma foldl_if_filter: "foldl (\<lambda>a x. if P x then g a x else a) acc xs = foldl g acc (filter P xs)"
  by (induction xs arbitrary: acc) auto

text \<open>The same scan when only the best element is kept.\<close>

definition min_by :: "('a \<Rightarrow> float64) \<Rightarrow> 'a option \<Rightarrow> 'a \<Rightarrow> 'a option" where
  "min_by f best x = (case best of None \<Rightarrow> Some x | Some b \<Rightarrow> if f x < f b then Some x else best)"

lemma foldl_min_by:
  "foldl (min_by f) (map_option fst acc) xs = map_option fst (foldl (min_step f) acc xs)"
  if "\<forall>a t. acc = Some (a, t) \<longrightarrow> t = f a"
  using that
proof (induction xs arbitrary: acc)
  case (Cons x xs)
  have "min_by f (map_option fst acc) x = map_option fst (min_step f acc x)"
    using Cons.prems by (auto simp: min_by_def min_step_def split: option.splits)
  moreover have "\<forall>a t. min_step f acc x = Some (a, t) \<longrightarrow> t = f a"
    using Cons.prems by (auto simp: min_step_def split: option.splits if_splits)
  ultimately show ?case using Cons.IH [of "min_step f acc x"] by simp
qed simp

lemma foldl_min_by_None: "foldl (min_by f) None xs = None \<longleftrightarrow> xs = []"
  using foldl_min_by [of None f xs] foldl_min_step_None [of f xs] by simp

lemma foldl_min_by_best:
  assumes "foldl (min_by f) None xs = Some b"
  shows "b \<in> set xs" "\<And>x. x \<in> set xs \<Longrightarrow> f b \<le> f x"
proof -
  from assms foldl_min_by [of None f xs] obtain t where "foldl (min_step f) None xs = Some (b, t)"
    by (cases "foldl (min_step f) None xs") auto
  from foldl_min_step_best [OF this] show "b \<in> set xs" "\<And>x. x \<in> set xs \<Longrightarrow> f b \<le> f x" by auto
qed

text \<open>Byte strings: \<open>strings.TrimSpace\<close> and \<open>strings.ToLower\<close> on ASCII bytes.\<close>

definition is_space :: "char \<Rightarrow> bool" where
  "is_space c \<longleftrightarrow> c \<in> {CHR '' '', CHR 0x09, CHR 0x0A, CHR 0x0B, CHR 0x0C, CHR 0x0D}"

definition TrimSpace :: "string \<Rightarrow> string" where
  "TrimSpace s = rev (dropWhile is_space (rev (dropWhile is_space s)))"

definition lower_char :: "char \<Rightarrow> char" where
  "lower_char c = (if 65 \<le> (of_char c :: nat) \<and> (of_char c :: nat) \<le> 90
                   then char_of ((of_char c :: nat) + 32) else c)"

definition ToLower :: "string \<Rightarrow> string" where
  "ToLower s = map lower_char s"

lemma lower_char_idem [simp]: "lower_char (lower_char c) = lower_char c"
proof (cases "65 \<le> (of_char c :: nat) \<and> (of_char c :: nat) \<le> 90")
  case True
  then have "(of_char (char_of ((of_char c :: nat) + 32)) :: nat) = of_char c + 32" by simp
  with True show ?thesis by (simp add: lower_char_def)
qed (auto simp: lower_char_def)

lemma ToLower_idem [simp]: "ToLower (ToLower s) = ToLower s"
  by (simp add: ToLower_def comp_def)

lemma dropWhile_dropWhile_same [simp]: "dropWhile P (dropWhile P xs) = dropWhile P xs"
  by (induction xs) auto

lemma TrimSpace_Nil [simp]: "TrimSpace [] = []"
  by (simp add: TrimSpace_def)

end
