(* ===== verification/Highway.thy ===== *)
theory Highway
  imports Geo_Prelude
begin

text \<open>
  \<open>internal/routing/highway.go\<close>: the road classes, their OSM tag strings, the lookup
  table built by the package's \<open>init\<close>, and the class predicates; and the access flag
  bitmask of \<open>graph.go\<close>.  \<open>HighwayKind\<close> is a \<open>uint8\<close> in the code; only the 31 named
  constants are ever produced, so the model is an enumeration in the same order.
\<close>

datatype HighwayKind =
    HWUnknown | HWMotorway | HWMotorwayLink | HWTrunk | HWTrunkLink | HWPrimary
  | HWPrimaryLink | HWSecondary | HWSecondaryLink | HWTertiary | HWTertiaryLink
  | HWUnclassified | HWResidential | HWLivingStreet | HWService | HWTrack | HWFootway
  | HWPedestrian | HWPath | HWSteps | HWCorridor | HWCrossing | HWSidewalk | HWPlatform
  | HWRail | HWSubway | HWLightRail | HWNarrowGauge | HWTram | HWBusRoute | HWTransfer

text \<open>The array \<open>hwKindStr\<close>, in index order.\<close>

definition hwKindStr :: "(HighwayKind \<times> string) list" where
  "hwKindStr =
    [(HWUnknown, ''''), (HWMotorway, ''motorway''), (HWMotorwayLink, ''motorway_link''),
     (HWTrunk, ''trunk''), (HWTrunkLink, ''trunk_link''), (HWPrimary, ''primary''),
     (HWPrimaryLink, ''primary_link''), (HWSecondary, ''secondary''),
     (HWSecondaryLink, ''secondary_link''), (HWTertiary, ''tertiary''),
     (HWTertiaryLink, ''tertiary_link''), (HWUnclassified, ''unclassified''),
     (HWResidential, ''residential''), (HWLivingStreet, ''living_street''),
     (HWService, ''service''), (HWTrack, ''track''), (HWFootway, ''footway''),
     (HWPedestrian, ''pedestrian''), (HWPath, ''path''), (HWSteps, ''steps''),
     (HWCorridor, ''corridor''), (HWCrossing, ''crossing''), (HWSidewalk, ''sidewalk''),
     (HWPlatform, ''platform''), (HWRail, ''rail''), (HWSubway, ''subway''),
     (HWLightRail, ''light_rail''), (HWNarrowGauge, ''narrow_gauge''), (HWTram, ''tram''),
     (HWBusRoute, ''bus_route''), (HWTransfer, ''transfer'')]"

text \<open>The \<open>init\<close> function: one insertion per non-empty name.\<close>

definition parseHighwayKindMap :: "string \<Rightarrow> HighwayKind option" where
  "parseHighwayKindMap =
     foldl (\<lambda>m (k, s). if s \<noteq> '''' then m(s \<mapsto> k) else m) Map.empty hwKindStr"

definition ParseHighwayKind :: "string \<Rightarrow> HighwayKind" where
  "ParseHighwayKind s = (case parseHighwayKindMap s of Some k \<Rightarrow> k | None \<Rightarrow> HWUnknown)"

definition HighwayKind_String :: "HighwayKind \<Rightarrow> string" where
  "HighwayKind_String h = (case map_of hwKindStr h of Some s \<Rightarrow> s | None \<Rightarrow> '''')"

definition IsLink :: "HighwayKind \<Rightarrow> bool" where
  "IsLink h \<longleftrightarrow> h \<in> {HWMotorwayLink, HWTrunkLink, HWPrimaryLink, HWSecondaryLink, HWTertiaryLink}"

definition IsPedestrian :: "HighwayKind \<Rightarrow> bool" where
  "IsPedestrian h \<longleftrightarrow> h \<in> {HWFootway, HWPedestrian, HWPath, HWSteps, HWCorridor, HWCrossing,
     HWSidewalk, HWPlatform}"

definition BlocksWalking :: "HighwayKind \<Rightarrow> bool" where
  "BlocksWalking h \<longleftrightarrow> h \<in> {HWMotorway, HWMotorwayLink, HWTrunk, HWTrunkLink}"

definition AllowsPedestriansAgainstFlow :: "HighwayKind \<Rightarrow> bool" where
  "AllowsPedestriansAgainstFlow h \<longleftrightarrow> \<not> IsPedestrian h"

lemmas highway_class_defs [geo_defs] =
  IsLink_def IsPedestrian_def BlocksWalking_def AllowsPedestriansAgainstFlow_def

lemma hwKindStr_String: "(h, HighwayKind_String h) \<in> set hwKindStr"
  by (cases h) (simp_all add: HighwayKind_String_def hwKindStr_def)

lemma hwKindStr_distinct: "distinct (map snd hwKindStr)"
  by (simp add: hwKindStr_def)

lemma foldl_upd_map_of:
  "distinct (map snd xs) \<Longrightarrow>
   foldl (\<lambda>m (k, s). if s \<noteq> '''' then m(s \<mapsto> k) else m) m0 xs t =
   (if t \<noteq> '''' \<and> t \<in> snd ` set xs then map_of (map prod.swap xs) t else m0 t)"
proof (induction xs arbitrary: m0)
  case Nil
  then show ?case by simp
next
  case (Cons x xs)
  obtain k s where x: "x = (k, s)" by (cases x)
  show ?case using Cons by (auto simp: x)
qed

lemma parseHighwayKindMap_iff:
  "parseHighwayKindMap s = Some k \<longleftrightarrow> s \<noteq> '''' \<and> (k, s) \<in> set hwKindStr"
proof -
  have d: "distinct (map fst (map prod.swap hwKindStr))"
    using hwKindStr_distinct by (simp add: comp_def)
  have "map_of (map prod.swap hwKindStr) s = Some k \<longleftrightarrow> (s, k) \<in> set (map prod.swap hwKindStr)"
    by (rule map_of_eq_Some_iff [OF d])
  also have "\<dots> \<longleftrightarrow> (k, s) \<in> set hwKindStr" by force
  finally show ?thesis
    by (force simp: parseHighwayKindMap_def foldl_upd_map_of [OF hwKindStr_distinct])
qed

lemma HighwayKind_String_eq: "(h, s) \<in> set hwKindStr \<longleftrightarrow> s = HighwayKind_String h"
  by (cases h) (auto simp: HighwayKind_String_def hwKindStr_def)

section \<open>Access flags\<close>

type_synonym AccessFlags = "8 word"

unbundle bit_operations_syntax

definition FlagCar :: AccessFlags where "FlagCar = push_bit 0 1"
definition FlagMotorcycle :: AccessFlags where "FlagMotorcycle = push_bit 1 1"
definition FlagBus :: AccessFlags where "FlagBus = push_bit 2 1"
definition FlagFoot :: AccessFlags where "FlagFoot = push_bit 3 1"
definition FlagTrain :: AccessFlags where "FlagTrain = push_bit 4 1"
definition FlagTransit :: AccessFlags where "FlagTransit = push_bit 5 1"

lemmas flag_defs = FlagCar_def FlagMotorcycle_def FlagBus_def FlagFoot_def FlagTrain_def
  FlagTransit_def

definition Has :: "AccessFlags \<Rightarrow> AccessFlags \<Rightarrow> bool" where
  "Has f flag \<longleftrightarrow> f AND flag \<noteq> 0"

lemma Has_or: "Has (f OR g) flag \<longleftrightarrow> Has f flag \<or> Has g flag"
proof -
  have "(f OR g) AND flag = (f AND flag) OR (g AND flag)" by (rule bit.conj_disj_distrib2)
  then show ?thesis by (simp add: Has_def or_eq_0_iff)
qed

lemma Has_zero [simp]: "\<not> Has 0 flag"
  by (simp add: Has_def)

text \<open>
  Parsing inverts printing: every road class is recovered from its OSM tag, and the
  parser answers something else than the unknown class only for a string that is the tag of
  the class it answers.
\<close>

theorem ParseHighwayKind_String:
  "ParseHighwayKind (HighwayKind_String h) = h
   \<and> (ParseHighwayKind s = HWUnknown \<or> HighwayKind_String (ParseHighwayKind s) = s)"
proof
  show "ParseHighwayKind (HighwayKind_String h) = h"
  proof (cases "HighwayKind_String h = ''''")
    case True
    then have "h = HWUnknown" by (cases h) (simp_all add: HighwayKind_String_def hwKindStr_def)
    moreover have "parseHighwayKindMap '''' = None"
      using parseHighwayKindMap_iff [of "''''"] by (cases "parseHighwayKindMap ''''") auto
    ultimately show ?thesis using True by (simp add: ParseHighwayKind_def)
  next
    case False
    then have "parseHighwayKindMap (HighwayKind_String h) = Some h"
      by (simp add: parseHighwayKindMap_iff hwKindStr_String)
    then show ?thesis by (simp add: ParseHighwayKind_def)
  qed
next
  show "ParseHighwayKind s = HWUnknown \<or> HighwayKind_String (ParseHighwayKind s) = s"
    by (auto simp: ParseHighwayKind_def parseHighwayKindMap_iff HighwayKind_String_eq
        split: option.splits)
qed

end
