(* ===== verification/HeapQ.thy ===== *)
theory HeapQ
  imports Geo_Prelude
begin

text \<open>
  The priority queue of \<open>internal/routing/astar.go\<close>: a slice of items ordered by
  \<open>fCost\<close>, driven by \<open>container/heap\<close>.  The sift-up and sift-down loops of the standard
  library are modelled as they are, over an arbitrary comparison; the locale
  \<open>heap_order\<close> proves the binary-heap invariant for every strict weak order, and the
  locale \<open>min_queue\<close> states what the searches rely on.  Both are interpreted on
  \<open>priorityQueue\<close>.  The \<open>index\<close> field of an item is written by \<open>Push\<close> and \<open>Swap\<close> and
  never read, so it is left out of the item.
\<close>

section \<open>container/heap\<close>

definition swap :: "'a list \<Rightarrow> nat \<Rightarrow> nat \<Rightarrow> 'a list" where
  "swap xs i j = xs[i := xs ! j, j := xs ! i]"

abbreviation par :: "nat \<Rightarrow> nat" where
  "par i \<equiv> (i - 1) div 2"

function heap_up :: "('a \<Rightarrow> 'a \<Rightarrow> bool) \<Rightarrow> 'a list \<Rightarrow> nat \<Rightarrow> 'a list" where
  "heap_up lt xs j =
     (let i = (j - 1) div 2 in
      if i = j \<or> \<not> lt (xs ! j) (xs ! i) then xs else heap_up lt (swap xs i j) i)"
  by pat_completeness auto
termination
  by (relation "measure (\<lambda>(lt, xs, j). j)") auto

function heap_down :: "('a \<Rightarrow> 'a \<Rightarrow> bool) \<Rightarrow> 'a list \<Rightarrow> nat \<Rightarrow> nat \<Rightarrow> 'a list" where
  "heap_down lt xs i n =
     (let j1 = 2 * i + 1 in
      if j1 \<ge> n then xs
      else let j2 = j1 + 1; j = (if j2 < n \<and> lt (xs ! j2) (xs ! j1) then j2 else j1) in
           if \<not> lt (xs ! j) (xs ! i) then xs else heap_down lt (swap xs i j) j n)"
  by pat_completeness auto
termination
  by (relation "measure (\<lambda>(lt, xs, i, n). n - i)") (auto split: if_splits)

declare heap_up.simps [simp del] heap_down.simps [simp del]

definition heap_Push :: "('a \<Rightarrow> 'a \<Rightarrow> bool) \<Rightarrow> 'a list \<Rightarrow> 'a \<Rightarrow> 'a list" where
  "heap_Push lt xs x = heap_up lt (xs @ [x]) (length xs)"

definition heap_Pop :: "('a \<Rightarrow> 'a \<Rightarrow> bool) \<Rightarrow> 'a list \<Rightarrow> 'a \<times> 'a list" where
  "heap_Pop lt xs =
     (let n = length xs - 1; ys = heap_down lt (swap xs 0 n) 0 n in (ys ! n, take n ys))"

lemma length_swap [simp]: "length (swap xs i j) = length xs"
  by (simp add: swap_def)

lemma nth_swap:
  "i < length xs \<Longrightarrow> j < length xs \<Longrightarrow> k < length xs \<Longrightarrow>
   swap xs i j ! k = (if k = j then xs ! i else if k = i then xs ! j else xs ! k)"
  by (auto simp: swap_def nth_list_update)

lemma mset_swap: "i < length xs \<Longrightarrow> j < length xs \<Longrightarrow> mset (swap xs i j) = mset xs"
  by (simp add: swap_def mset_swap)

lemma heap_up_perm [simp]:
  "j < length xs \<Longrightarrow> mset (heap_up lt xs j) = mset xs \<and> length (heap_up lt xs j) = length xs"
proof (induction lt xs j rule: heap_up.induct)
  case (1 lt xs j)
  have "(j - 1) div 2 < length xs" using "1.prems" by linarith
  with 1 show ?case by (auto simp: heap_up.simps [of lt xs j] mset_swap Let_def)
qed

lemma heap_down_perm [simp]:
  "n \<le> length xs \<Longrightarrow> mset (heap_down lt xs i n) = mset xs
     \<and> length (heap_down lt xs i n) = length xs"
proof (induction lt xs i n rule: heap_down.induct)
  case (1 lt xs i n)
  then show ?case by (auto simp: heap_down.simps [of lt xs i n] mset_swap Let_def)
qed

lemma heap_down_frame:
  "n \<le> length xs \<Longrightarrow> n \<le> k \<Longrightarrow> k < length xs \<Longrightarrow> heap_down lt xs i n ! k = xs ! k"
proof (induction lt xs i n rule: heap_down.induct)
  case (1 lt xs i n)
  then show ?case by (auto simp: heap_down.simps [of lt xs i n] nth_swap Let_def)
qed

section \<open>The heap invariant for a strict weak order\<close>

locale heap_order =
  fixes lt :: "'a \<Rightarrow> 'a \<Rightarrow> bool"
  assumes asym: "lt x y \<Longrightarrow> \<not> lt y x"
    and negtrans: "lt x z \<Longrightarrow> lt x y \<or> lt y z"
begin

definition leq :: "'a \<Rightarrow> 'a \<Rightarrow> bool" where
  "leq x y \<longleftrightarrow> \<not> lt y x"

lemma leq_refl: "leq x x"
  using asym by (auto simp: leq_def)

lemma leq_trans: "leq x y \<Longrightarrow> leq y z \<Longrightarrow> leq x z"
  using negtrans by (auto simp: leq_def)

lemma less_leq: "lt x y \<Longrightarrow> leq x y"
  using asym by (auto simp: leq_def)

definition is_heap :: "'a list \<Rightarrow> nat \<Rightarrow> bool" where
  "is_heap xs n \<longleftrightarrow> (\<forall>i<n. 0 < i \<longrightarrow> leq (xs ! par i) (xs ! i))"

definition up_inv :: "'a list \<Rightarrow> nat \<Rightarrow> bool" where
  "up_inv xs j \<longleftrightarrow>
     (\<forall>i<length xs. 0 < i \<longrightarrow> i \<noteq> j \<longrightarrow> leq (xs ! par i) (xs ! i))
     \<and> (\<forall>i<length xs. 0 < i \<longrightarrow> par i = j \<longrightarrow> 0 < j \<longrightarrow> leq (xs ! par j) (xs ! i))"

lemma up_inv_step:
  assumes inv: "up_inv xs j" and j: "0 < j" "j < length xs" and l: "lt (xs ! j) (xs ! par j)"
  shows "up_inv (swap xs (par j) j) (par j)"
proof -
  let ?p = "par j" and ?ys = "swap xs (par j) j"
  have p: "?p < j" "?p < length xs" using j by linarith+
  note nth = nth_swap [OF p(2) j(2)]
  have jp: "leq (xs ! j) (xs ! ?p)" using l by (rule less_leq)
  have A: "leq (?ys ! par i) (?ys ! i)" if i: "i < length xs" "0 < i" "i \<noteq> ?p" for i
  proof -
    have pi: "par i < i" "par i < length xs" using i by linarith+
    consider "i = j" | "i \<noteq> j" "par i = j" | "i \<noteq> j" "par i = ?p" | "i \<noteq> j" "par i \<noteq> j" "par i \<noteq> ?p"
      by blast
    then show ?thesis
    proof cases
      case 1
      then show ?thesis using jp p nth [of ?p] nth [of j] j by simp
    next
      case 2
      with inv i j have "leq (xs ! ?p) (xs ! i)" by (simp add: up_inv_def)
      then show ?thesis using 2 i j nth [of i] nth [of j] by simp
    next
      case 3
      with inv i have "leq (xs ! ?p) (xs ! i)" by (auto simp: up_inv_def)
      with jp have "leq (xs ! j) (xs ! i)" by (rule leq_trans)
      then show ?thesis using 3 i p nth [of i] nth [of ?p] by simp
    next
      case 4
      with inv i have "leq (xs ! par i) (xs ! i)" by (simp add: up_inv_def)
      then show ?thesis using 4 i pi nth [of i] nth [of "par i"] by simp
    qed
  qed
  have B: "leq (?ys ! par ?p) (?ys ! i)" if i: "i < length xs" "0 < i" "par i = ?p" "0 < ?p" for i
  proof -
    have pp: "par ?p < ?p" "par ?p < length xs" using i(4) p by linarith+
    have 1: "leq (xs ! par ?p) (xs ! ?p)" using inv i(4) p by (simp add: up_inv_def)
    have "leq (xs ! par ?p) (?ys ! i)"
    proof (cases "i = j")
      case True
      then show ?thesis using 1 nth [of j] j by simp
    next
      case False
      with inv i have "leq (xs ! ?p) (xs ! i)" by (auto simp: up_inv_def)
      with 1 have "leq (xs ! par ?p) (xs ! i)" by (rule leq_trans)
      moreover have "i \<noteq> ?p" using i by linarith
      ultimately show ?thesis using False i nth [of i] by simp
    qed
    then show ?thesis using pp p nth [of "par ?p"] by simp
  qed
  show ?thesis using A B by (simp add: up_inv_def)
qed

lemma up_inv_done:
  assumes "up_inv xs j" and "j = 0 \<or> leq (xs ! par j) (xs ! j)"
  shows "is_heap xs (length xs)"
  using assms by (auto simp: up_inv_def is_heap_def)

lemma heap_up_heap:
  "l = lt \<Longrightarrow> up_inv xs j \<Longrightarrow> j < length xs \<Longrightarrow> is_heap (heap_up l xs j) (length xs)"
proof (induction l xs j rule: heap_up.induct)
  case (1 l xs j)
  note [simp] = \<open>l = lt\<close>
  show ?case
  proof (cases "par j = j \<or> \<not> lt (xs ! j) (xs ! par j)")
    case True
    have "j = 0 \<or> leq (xs ! par j) (xs ! j)"
      using True by (auto simp: leq_def)
    with 1 True show ?thesis
      using up_inv_done by (simp add: heap_up.simps [of lt xs j] Let_def)
  next
    case False
    then have "0 < j" by (cases j) auto
    with False 1 have "up_inv (swap xs (par j) j) (par j)" by (intro up_inv_step) auto
    with 1 False show ?thesis by (simp add: heap_up.simps [of lt xs j] Let_def)
  qed
qed

definition down_inv :: "'a list \<Rightarrow> nat \<Rightarrow> nat \<Rightarrow> bool" where
  "down_inv xs k n \<longleftrightarrow>
     (\<forall>i<n. 0 < i \<longrightarrow> par i \<noteq> k \<longrightarrow> leq (xs ! par i) (xs ! i))
     \<and> (\<forall>i<n. 0 < i \<longrightarrow> par i = k \<longrightarrow> 0 < k \<longrightarrow> leq (xs ! par k) (xs ! i))"

lemma down_inv_step:
  assumes inv: "down_inv xs k n" and n: "n \<le> length xs" and j: "j < n" "0 < j" "par j = k"
    and least: "\<And>i. i < n \<Longrightarrow> 0 < i \<Longrightarrow> par i = k \<Longrightarrow> leq (xs ! j) (xs ! i)"
    and l: "lt (xs ! j) (xs ! k)"
  shows "down_inv (swap xs k j) j n"
proof -
  let ?ys = "swap xs k j"
  have k: "k < j" "k < length xs" "j < length xs" using j n by linarith+
  note nth = nth_swap [OF k(2,3)]
  have A: "leq (?ys ! par i) (?ys ! i)" if i: "i < n" "0 < i" "par i \<noteq> j" for i
  proof -
    have pi: "par i < i" "par i < length xs" "i < length xs" using i n by linarith+
    consider "i = j" | "i \<noteq> j" "par i = k" | "i = k" | "i \<noteq> j" "par i \<noteq> k" "i \<noteq> k"
      by blast
    then show ?thesis
    proof cases
      case 1
      then show ?thesis using less_leq [OF l] j k nth [of k] nth [of j] by simp
    next
      case 2
      then show ?thesis using least [OF i(1,2)] i pi k nth [of i] nth [of k] by auto
    next
      case 3
      with inv i j have "leq (xs ! par k) (xs ! j)" by (simp add: down_inv_def)
      then show ?thesis using 3 pi k nth [of "par k"] nth [of k] by simp
    next
      case 4
      with inv i have "leq (xs ! par i) (xs ! i)" by (simp add: down_inv_def)
      then show ?thesis using 4 i pi nth [of i] nth [of "par i"] by simp
    qed
  qed
  have B: "leq (?ys ! par j) (?ys ! i)" if i: "i < n" "0 < i" "par i = j" for i
  proof -
    have "i \<noteq> j" "i \<noteq> k" "i < length xs" using i k j n by linarith+
    moreover have "leq (xs ! j) (xs ! i)" using inv i k by (auto simp: down_inv_def)
    ultimately show ?thesis using j k nth [of k] nth [of i] by simp
  qed
  show ?thesis using A B by (simp add: down_inv_def)
qed

lemma heap_down_heap:
  "l = lt \<Longrightarrow> down_inv xs i n \<Longrightarrow> n \<le> length xs \<Longrightarrow> is_heap (heap_down l xs i n) n"
proof (induction l xs i n rule: heap_down.induct)
  case (1 l xs i n)
  note [simp] = \<open>l = lt\<close>
  define j where "j = (if 2 * i + 1 + 1 < n \<and> l (xs ! (2 * i + 1 + 1)) (xs ! (2 * i + 1))
                       then 2 * i + 1 + 1 else 2 * i + 1)"
  have kids: "c = 2 * i + 1 \<or> c = 2 * i + 2" if "0 < c" "par c = i" for c
    using that by linarith
  show ?case
  proof (cases "2 * i + 1 \<ge> n")
    case True
    then have "is_heap xs n" using 1 kids by (fastforce simp: down_inv_def is_heap_def)
    with True show ?thesis by (simp add: heap_down.simps [of lt xs i n])
  next
    case False
    have jn: "j < n" "0 < j" "par j = i" using False by (auto simp: j_def)
    have least: "leq (xs ! j) (xs ! c)" if "c < n" "0 < c" "par c = i" for c
      using kids [OF that(2,3)] that(1) asym by (auto simp: j_def leq_def leq_refl)
    have eq: "heap_down lt xs i n =
        (if \<not> lt (xs ! j) (xs ! i) then xs else heap_down lt (swap xs i j) j n)"
      using False by (simp add: heap_down.simps [of lt xs i n] Let_def j_def)
    show ?thesis
    proof (cases "lt (xs ! j) (xs ! i)")
      case True
      have "down_inv (swap xs i j) j n"
        using 1 jn least True by (intro down_inv_step) auto
      with "1.IH" [OF refl False refl j_def] True "1.prems"
      have "is_heap (heap_down l (swap xs i j) j n) n" by simp
      with eq True show ?thesis by simp
    next
      case f: False
      then have ij: "leq (xs ! i) (xs ! j)" by (simp add: leq_def)
      have kid: "leq (xs ! i) (xs ! c)" if "c < n" "0 < c" "par c = i" for c
        by (rule leq_trans [OF ij least [OF that]])
      have "leq (xs ! par c) (xs ! c)" if "c < n" "0 < c" for c
        using "1.prems"(2) kid that by (cases "par c = i") (auto simp: down_inv_def)
      then have "is_heap xs n" by (simp add: is_heap_def)
      with eq f show ?thesis by simp
    qed
  qed
qed

lemma heap_root: "is_heap xs n \<Longrightarrow> i < n \<Longrightarrow> leq (xs ! 0) (xs ! i)"
proof (induction i rule: less_induct)
  case (less i)
  show ?case
  proof (cases "i = 0")
    case True
    then show ?thesis by (simp add: leq_refl)
  next
    case False
    then have "leq (xs ! 0) (xs ! par i)" using less by auto
    moreover have "leq (xs ! par i) (xs ! i)" using less False by (simp add: is_heap_def)
    ultimately show ?thesis by (rule leq_trans)
  qed
qed

definition heap_ok :: "'a list \<Rightarrow> bool" where
  "heap_ok xs \<longleftrightarrow> is_heap xs (length xs)"

lemma heap_ok_Nil: "heap_ok []"
  by (simp add: heap_ok_def is_heap_def)

lemma heap_ok_Push: "heap_ok xs \<Longrightarrow> heap_ok (heap_Push lt xs x)"
proof -
  assume h: "heap_ok xs"
  have "up_inv (xs @ [x]) (length xs)"
  proof -
    have "leq ((xs @ [x]) ! par i) ((xs @ [x]) ! i)" if "i < length xs" "0 < i" for i
    proof -
      have "par i < length xs" using that by linarith
      with that h show ?thesis by (simp add: nth_append heap_ok_def is_heap_def)
    qed
    moreover have "par i \<noteq> length xs" if "i < Suc (length xs)" "0 < i" for i
      using that by linarith
    ultimately show ?thesis by (auto simp: up_inv_def less_Suc_eq)
  qed
  then have "is_heap (heap_Push lt xs x) (length (xs @ [x]))"
    unfolding heap_Push_def by (intro heap_up_heap) auto
  moreover have "length (heap_Push lt xs x) = length (xs @ [x])"
    by (simp add: heap_Push_def)
  ultimately show ?thesis unfolding heap_ok_def by simp
qed

lemma mset_Push: "mset (heap_Push lt xs x) = add_mset x (mset xs)"
  by (simp add: heap_Push_def)

lemma Pop_spec:
  assumes h: "heap_ok xs" and ne: "xs \<noteq> []"
  shows "fst (heap_Pop lt xs) = xs ! 0"
    and "add_mset (fst (heap_Pop lt xs)) (mset (snd (heap_Pop lt xs))) = mset xs"
    and "heap_ok (snd (heap_Pop lt xs))"
proof -
  define n where "n = length xs - 1"
  have n: "n < length xs" "length xs = Suc n" "0 < length xs" using ne by (auto simp: n_def)
  define ys where "ys = heap_down lt (swap xs 0 n) 0 n"
  have pop: "heap_Pop lt xs = (ys ! n, take n ys)"
    by (simp add: heap_Pop_def ys_def n_def Let_def)
  have len: "length ys = Suc n" and ms: "mset ys = mset xs"
    using n by (auto simp: ys_def mset_swap)
  have last: "ys ! n = xs ! 0"
    unfolding ys_def using n by (subst heap_down_frame) (auto simp: nth_swap)
  show "fst (heap_Pop lt xs) = xs ! 0" using last pop by simp
  have "ys = take n ys @ [ys ! n]" using len by (simp add: take_Suc_conv_app_nth [symmetric])
  then have "mset ys = add_mset (ys ! n) (mset (take n ys))"
    by (metis mset_append mset_single_iff_right union_mset_add_mset_right add.right_neutral
        mset.simps(1) mset.simps(2))
  with ms pop show "add_mset (fst (heap_Pop lt xs)) (mset (snd (heap_Pop lt xs))) = mset xs"
    by simp
  have "down_inv (swap xs 0 n) 0 n"
  proof -
    have "leq (swap xs 0 n ! par i) (swap xs 0 n ! i)" if "i < n" "0 < i" "par i \<noteq> 0" for i
    proof -
      have "par i < n" "i < length xs" "par i < length xs" "i \<noteq> 0" using that n by linarith+
      moreover have "leq (xs ! par i) (xs ! i)"
        using h that n by (simp add: heap_ok_def is_heap_def)
      ultimately show ?thesis using n that by (simp add: nth_swap)
    qed
    then show ?thesis by (simp add: down_inv_def)
  qed
  then have "is_heap ys n" unfolding ys_def using n by (intro heap_down_heap) auto
  then have "is_heap (take n ys) n" unfolding is_heap_def by (auto simp: less_imp_diff_less)
  with pop len show "heap_ok (snd (heap_Pop lt xs))" by (simp add: heap_ok_def)
qed

lemma Pop_least:
  assumes "heap_ok xs" and "x \<in># mset xs"
  shows "leq (fst (heap_Pop lt xs)) x"
proof -
  have ne: "xs \<noteq> []" using assms(2) by auto
  from assms(2) obtain i where "i < length xs" "x = xs ! i"
    by (auto simp: in_set_conv_nth)
  with heap_root [of xs "length xs" i] assms(1) Pop_spec(1) [OF assms(1) ne] show ?thesis
    by (simp add: heap_ok_def)
qed

end

section \<open>The queue interface of the searches\<close>

primrec drain :: "('q \<Rightarrow> 'a \<times> 'q) \<Rightarrow> nat \<Rightarrow> 'q \<Rightarrow> 'a list" where
  "drain pop 0 q = []"
| "drain pop (Suc n) q = fst (pop q) # drain pop n (snd (pop q))"

locale min_queue =
  fixes push :: "'q \<Rightarrow> 'a \<Rightarrow> 'q"
    and pop :: "'q \<Rightarrow> 'a \<times> 'q"
    and items :: "'q \<Rightarrow> 'a multiset"
    and ok :: "'q \<Rightarrow> bool"
    and prio :: "'a \<Rightarrow> real"
  assumes ok_push: "ok q \<Longrightarrow> ok (push q x)"
    and items_push: "items (push q x) = add_mset x (items q)"
    and ok_pop: "ok q \<Longrightarrow> items q \<noteq> {#} \<Longrightarrow> ok (snd (pop q))"
    and items_pop: "ok q \<Longrightarrow> items q \<noteq> {#} \<Longrightarrow> items q = add_mset (fst (pop q)) (items (snd (pop q)))"
    and pop_least: "ok q \<Longrightarrow> x \<in># items q \<Longrightarrow> prio (fst (pop q)) \<le> prio x"
begin

lemma popped:
  assumes "ok q" and "items q \<noteq> {#}" and "pop q = (x, q')"
  shows "ok q'" "items q = add_mset x (items q')" "x \<in># items q"
    "\<And>y. y \<in># items q \<Longrightarrow> prio x \<le> prio y"
  using assms ok_pop items_pop pop_least by (force simp: union_single_eq_member)+

lemma drain_spec:
  "ok q \<Longrightarrow> size (items q) = n \<Longrightarrow>
     mset (drain pop n q) = items q \<and> sorted (map prio (drain pop n q))"
proof (induction n arbitrary: q)
  case 0
  then show ?case by simp
next
  case (Suc n)
  obtain x q' where p: "pop q = (x, q')" by fastforce
  have ne: "items q \<noteq> {#}" using Suc.prems by auto
  note q' = popped [OF Suc.prems(1) ne p]
  with Suc.prems have "size (items q') = n" by simp
  with Suc.IH [OF q'(1)] have IH: "mset (drain pop n q') = items q'"
    "sorted (map prio (drain pop n q'))" by auto
  have "prio x \<le> prio y" if "y \<in> set (drain pop n q')" for y
  proof -
    from that IH(1) have "y \<in># items q'" by (metis set_mset_mset)
    with q' show ?thesis by simp
  qed
  with p q' IH show ?case by simp
qed

end

section \<open>priorityQueue\<close>

record pqItem =
  pq_nodeID :: node_id
  pq_gCost :: float64
  pq_fCost :: float64

type_synonym priorityQueue = "pqItem list"

definition pq_Less :: "pqItem \<Rightarrow> pqItem \<Rightarrow> bool" where
  "pq_Less a b \<longleftrightarrow> pq_fCost a < pq_fCost b"

definition pq_Push :: "priorityQueue \<Rightarrow> pqItem \<Rightarrow> priorityQueue" where
  "pq_Push q x = heap_Push pq_Less q x"

definition pq_Pop :: "priorityQueue \<Rightarrow> pqItem \<times> priorityQueue" where
  "pq_Pop q = heap_Pop pq_Less q"

interpretation pq_heap: heap_order pq_Less
  by unfold_locales (auto simp: pq_Less_def)

abbreviation pq_ok :: "priorityQueue \<Rightarrow> bool" where
  "pq_ok \<equiv> pq_heap.heap_ok"

interpretation pq: min_queue pq_Push pq_Pop mset pq_ok pq_fCost
proof
  fix q :: priorityQueue and x
  show "pq_ok q \<Longrightarrow> pq_ok (pq_Push q x)"
    unfolding pq_Push_def by (rule pq_heap.heap_ok_Push)
  show "mset (pq_Push q x) = add_mset x (mset q)"
    unfolding pq_Push_def by (rule pq_heap.mset_Push)
  show "pq_ok q \<Longrightarrow> mset q \<noteq> {#} \<Longrightarrow> pq_ok (snd (pq_Pop q))"
    unfolding pq_Pop_def by (rule pq_heap.Pop_spec) auto
  show "pq_ok q \<Longrightarrow> mset q \<noteq> {#} \<Longrightarrow> mset q = add_mset (fst (pq_Pop q)) (mset (snd (pq_Pop q)))"
    unfolding pq_Pop_def using pq_heap.Pop_spec(2) [of q] by auto
  show "pq_ok q \<Longrightarrow> x \<in># mset q \<Longrightarrow> pq_fCost (fst (pq_Pop q)) \<le> pq_fCost x"
    unfolding pq_Pop_def using pq_heap.Pop_least [of q x]
    by (simp add: pq_heap.leq_def pq_Less_def not_less)
qed

lemmas pq_popped = pq.popped [simplified]

lemma set_pq_Push [simp]: "set (pq_Push q x) = insert x (set q)"
  using pq.items_push [of q x] by (metis set_mset_add_mset_insert set_mset_mset)

lemma length_pq_Push [simp]: "length (pq_Push q x) = Suc (length q)"
  using pq.items_push [of q x] by (metis size_add_mset size_mset)

lemma pq_ok_Nil [simp]: "pq_ok []"
  by (rule pq_heap.heap_ok_Nil)

lemma pq_popE:
  assumes "pq_ok q" and "q \<noteq> []" and "pq_Pop q = (x, q')"
  shows "pq_ok q'" "set q = insert x (set q')" "length q = Suc (length q')" "x \<in> set q"
    "\<And>y. y \<in> set q \<Longrightarrow> pq_fCost x \<le> pq_fCost y"
proof -
  note p = pq_popped [OF assms]
  show "pq_ok q'" by (rule p(1))
  show "set q = insert x (set q')" using p(2) by (metis set_mset_add_mset_insert set_mset_mset)
  show "length q = Suc (length q')" using p(2) by (metis size_add_mset size_mset)
  show "x \<in> set q" using p(3) by simp
  show "\<And>y. y \<in> set q \<Longrightarrow> pq_fCost x \<le> pq_fCost y" using p(4) by simp
qed

lemma pq_front:
  assumes "pq_ok q" and "q \<noteq> []" and "y \<in> set q"
  shows "pq_fCost (hd q) \<le> pq_fCost y"
proof -
  from assms(3) obtain i where "i < length q" "y = q ! i" by (auto simp: in_set_conv_nth)
  with pq_heap.heap_root [of q "length q" i] assms(1,2) show ?thesis
    by (simp add: pq_heap.heap_ok_def pq_heap.leq_def pq_Less_def not_less hd_conv_nth)
qed

text \<open>
  A queue filled by any sequence of pushes and then emptied returns exactly the pushed
  items, in non-decreasing order of \<open>fCost\<close>.
\<close>

theorem pq_drain_sorted:
  "mset (drain pq_Pop (length xs) (foldl pq_Push [] xs)) = mset xs
   \<and> sorted (map pq_fCost (drain pq_Pop (length xs) (foldl pq_Push [] xs)))"
proof -
  have fill: "pq_ok (foldl pq_Push q xs) \<and> mset (foldl pq_Push q xs) = mset q + mset xs"
    if "pq_ok q" for q
    using that by (induction xs arbitrary: q) (auto simp: pq.ok_push pq.items_push)
  from fill [of "[]"] pq.drain_spec [of "foldl pq_Push [] xs" "length xs"] show ?thesis by simp
qed

end
