(* ===== verification/GeoMath.thy ===== *)
theory GeoMath
  imports Geo_Prelude
begin

text \<open>
  \<open>internal/utils/geo.go\<close> and \<open>internal/utils/smoother.go\<close>: great-circle distance,
  bearing, cross-track distance, distance to a polyline, coordinate validation, decimal
  rounding and the exponential moving average of GPS positions.  The trigonometric
  functions are the real ones; \<open>math.Atan2\<close> is defined by quadrant.
\<close>

definition math_Atan2 :: "float64 \<Rightarrow> float64 \<Rightarrow> float64" where
  "math_Atan2 y x =
     (if 0 < x then arctan (y / x)
      else if x < 0 then (if 0 \<le> y then arctan (y / x) + pi else arctan (y / x) - pi)
      else if 0 < y then pi / 2 else if y < 0 then - (pi / 2) else 0)"

definition earthRadiusKm :: float64 where
  "earthRadiusKm = 6371"

definition toRad :: "float64 \<Rightarrow> float64" where
  "toRad deg = deg * pi / 180"

definition clamp :: "float64 \<Rightarrow> float64" where
  "clamp v = max (- 1) (min 1 v)"

definition Haversine :: "float64 \<Rightarrow> float64 \<Rightarrow> float64 \<Rightarrow> float64 \<Rightarrow> float64" where
  "Haversine lat1 lng1 lat2 lng2 =
     (let dLat = toRad (lat2 - lat1);
          dLng = toRad (lng2 - lng1);
          a = sin (dLat / 2) * sin (dLat / 2)
              + cos (toRad lat1) * cos (toRad lat2) * sin (dLng / 2) * sin (dLng / 2)
      in earthRadiusKm * 2 * math_Atan2 (sqrt a) (sqrt (1 - a)))"

definition BearingRad :: "float64 \<Rightarrow> float64 \<Rightarrow> float64 \<Rightarrow> float64 \<Rightarrow> float64" where
  "BearingRad lat1 lng1 lat2 lng2 =
     (let p1 = toRad lat1; p2 = toRad lat2; dl = toRad (lng2 - lng1);
          y = sin dl * cos p2;
          x = cos p1 * sin p2 - sin p1 * cos p2 * cos dl
      in math_Atan2 y x)"

definition CrossTrackDistance ::
  "float64 \<Rightarrow> float64 \<Rightarrow> float64 \<Rightarrow> float64 \<Rightarrow> float64 \<Rightarrow> float64 \<Rightarrow> float64 \<times> bool" where
  "CrossTrackDistance pLat pLng aLat aLng bLat bLng =
     (let dAP = Haversine aLat aLng pLat pLng;
          dAB = Haversine aLat aLng bLat bLng in
      if dAB = 0 then (dAP, False)
      else let tAP = BearingRad aLat aLng pLat pLng;
               tAB = BearingRad aLat aLng bLat bLng;
               sinXT = clamp (sin (dAP / earthRadiusKm) * sin (tAP - tAB));
               dXTRad = arcsin sinXT;
               dXT = \<bar>dXTRad\<bar> * earthRadiusKm;
               cosAT = clamp (cos (dAP / earthRadiusKm) / cos dXTRad);
               dAT = arccos cosAT * earthRadiusKm
           in (dXT, dAT \<ge> 0 \<and> dAT \<le> dAB))"

record PolyPoint =
  pp_Lat :: float64
  pp_Lng :: float64

text \<open>The body of the segment loop of \<open>MinDistanceToPolyline\<close>: the distance to one segment.\<close>

definition segment_distance :: "float64 \<Rightarrow> float64 \<Rightarrow> PolyPoint \<Rightarrow> PolyPoint \<Rightarrow> float64" where
  "segment_distance lat lng p q =
     (let (dXT, inside) = CrossTrackDistance lat lng (pp_Lat p) (pp_Lng p) (pp_Lat q) (pp_Lng q) in
      if inside then dXT
      else min (Haversine lat lng (pp_Lat p) (pp_Lng p)) (Haversine lat lng (pp_Lat q) (pp_Lng q)))"

fun min_over_segments :: "float64 \<Rightarrow> float64 \<Rightarrow> float64 \<Rightarrow> PolyPoint list \<Rightarrow> float64" where
  "min_over_segments lat lng m (p # q # ps) =
     (let d = segment_distance lat lng p q in
      min_over_segments lat lng (if d < m then d else m) (q # ps))"
| "min_over_segments lat lng m ps = m"

definition MinDistanceToPolyline :: "float64 \<Rightarrow> float64 \<Rightarrow> PolyPoint list \<Rightarrow> float64" where
  "MinDistanceToPolyline lat lng pts =
     (case pts of
        [] \<Rightarrow> maxFloat64
      | [p] \<Rightarrow> Haversine lat lng (pp_Lat p) (pp_Lng p)
      | _ \<Rightarrow> min_over_segments lat lng maxFloat64 pts)"

definition ValidCoords :: "float64 \<Rightarrow> float64 \<Rightarrow> bool" where
  "ValidCoords lat lng \<longleftrightarrow> lat \<ge> - 90 \<and> lat \<le> 90 \<and> lng \<ge> - 180 \<and> lng \<le> 180"

definition Round :: "float64 \<Rightarrow> nat \<Rightarrow> float64" where
  "Round v precision = (let ratio = 10 ^ precision in of_int (math_Round (v * ratio)) / ratio)"

definition SmoothGPS ::
  "float64 \<Rightarrow> float64 \<Rightarrow> float64 \<Rightarrow> float64 \<Rightarrow> float64 \<Rightarrow> float64 \<times> float64" where
  "SmoothGPS rawLat rawLng prevLat prevLng alpha =
     (if prevLat = 0 \<and> prevLng = 0 then (rawLat, rawLng)
      else (alpha * rawLat + (1 - alpha) * prevLat, alpha * rawLng + (1 - alpha) * prevLng))"

section \<open>The haversine term\<close>

definition hav :: "float64 \<Rightarrow> float64 \<Rightarrow> float64 \<Rightarrow> float64 \<Rightarrow> float64" where
  "hav lat1 lng1 lat2 lng2 =
     sin (toRad (lat2 - lat1) / 2) * sin (toRad (lat2 - lat1) / 2)
     + cos (toRad lat1) * cos (toRad lat2)
       * sin (toRad (lng2 - lng1) / 2) * sin (toRad (lng2 - lng1) / 2)"

lemma Haversine_hav:
  "Haversine lat1 lng1 lat2 lng2 =
     earthRadiusKm * 2 * math_Atan2 (sqrt (hav lat1 lng1 lat2 lng2))
                                    (sqrt (1 - hav lat1 lng1 lat2 lng2))"
  by (simp add: Haversine_def hav_def Let_def)

lemma sin_half_sq: "2 * (sin (x / 2) * sin (x / 2)) = 1 - cos (x :: real)"
proof -
  have "cos x = cos (2 * (x / 2))" by simp
  also have "\<dots> = 1 - 2 * (sin (x / 2))\<^sup>2" by (rule cos_double_sin)
  finally show ?thesis by (simp add: power2_eq_square)
qed

lemma toRad_diff: "toRad (x - y) = toRad x - toRad y"
  by (simp add: toRad_def algebra_simps diff_divide_distrib)

text \<open>
  Twice the haversine term is one minus the inner product of the two unit vectors, which
  lies between \<open>-1\<close> and \<open>1\<close>.
\<close>

lemma hav_inner:
  "2 * hav lat1 lng1 lat2 lng2 =
     1 - (sin (toRad lat1) * sin (toRad lat2)
          + cos (toRad lat1) * cos (toRad lat2) * cos (toRad lng2 - toRad lng1))"
proof -
  have "2 * hav lat1 lng1 lat2 lng2 =
      2 * (sin (toRad (lat2 - lat1) / 2) * sin (toRad (lat2 - lat1) / 2))
      + cos (toRad lat1) * cos (toRad lat2)
        * (2 * (sin (toRad (lng2 - lng1) / 2) * sin (toRad (lng2 - lng1) / 2)))"
    by (simp add: hav_def algebra_simps)
  also have "\<dots> = 1 - cos (toRad lat2 - toRad lat1)
      + cos (toRad lat1) * cos (toRad lat2) * (1 - cos (toRad lng2 - toRad lng1))"
    by (simp only: sin_half_sq toRad_diff)
  finally show ?thesis by (simp add: cos_diff algebra_simps)
qed

lemma inner_bound:
  fixes a b c d :: real
  assumes "a\<^sup>2 + b\<^sup>2 = 1" "c\<^sup>2 + d\<^sup>2 = 1" "\<bar>t\<bar> \<le> 1"
  shows "\<bar>a * c + b * d * t\<bar> \<le> 1"
proof -
  have "(a * c + b * d * t)\<^sup>2 + (a * d * t - b * c)\<^sup>2 = a\<^sup>2 * c\<^sup>2 + b\<^sup>2 * d\<^sup>2 * t\<^sup>2 + a\<^sup>2 * d\<^sup>2 * t\<^sup>2 + b\<^sup>2 * c\<^sup>2"
    by (simp add: power2_eq_square algebra_simps)
  also have "\<dots> = (a\<^sup>2 + b\<^sup>2) * (c\<^sup>2 + d\<^sup>2 * t\<^sup>2)" by (simp add: algebra_simps)
  also have "\<dots> \<le> c\<^sup>2 + d\<^sup>2 * 1"
  proof -
    have "t\<^sup>2 \<le> 1" using assms(3) by (simp add: abs_square_le_1)
    then have "d\<^sup>2 * t\<^sup>2 \<le> d\<^sup>2 * 1" by (intro mult_left_mono) auto
    then show ?thesis using assms(1) by simp
  qed
  also have "\<dots> = 1" using assms(2) by simp
  finally have "(a * c + b * d * t)\<^sup>2 + (a * d * t - b * c)\<^sup>2 \<le> 1" .
  moreover have "0 \<le> (a * d * t - b * c)\<^sup>2" by simp
  ultimately have "(a * c + b * d * t)\<^sup>2 \<le> 1" by linarith
  then show ?thesis by (simp add: abs_square_le_1)
qed

lemma hav_range: "0 \<le> hav lat1 lng1 lat2 lng2" "hav lat1 lng1 lat2 lng2 \<le> 1"
proof -
  have "\<bar>sin (toRad lat1) * sin (toRad lat2)
         + cos (toRad lat1) * cos (toRad lat2) * cos (toRad lng2 - toRad lng1)\<bar> \<le> 1"
    by (rule inner_bound) simp_all
  with hav_inner [of lat1 lng1 lat2 lng2] show "0 \<le> hav lat1 lng1 lat2 lng2"
    "hav lat1 lng1 lat2 lng2 \<le> 1" by linarith+
qed

lemma hav_sym: "hav lat1 lng1 lat2 lng2 = hav lat2 lng2 lat1 lng1"
proof -
  have "2 * hav lat1 lng1 lat2 lng2 = 2 * hav lat2 lng2 lat1 lng1"
    by (simp only: hav_inner cos_diff) (simp add: algebra_simps)
  then show ?thesis by simp
qed

lemma atan2_quarter: "0 \<le> y \<Longrightarrow> 0 \<le> x \<Longrightarrow> 0 \<le> math_Atan2 y x \<and> math_Atan2 y x \<le> pi / 2"
  using arctan_ubound [of "y / x"] by (auto simp: math_Atan2_def)

lemma Haversine_self [simp]: "Haversine lat lng lat lng = 0"
  by (simp add: Haversine_def toRad_def math_Atan2_def)

lemma Haversine_nonneg [simp]: "0 \<le> Haversine lat1 lng1 lat2 lng2"
  using atan2_quarter [of "sqrt (hav lat1 lng1 lat2 lng2)" "sqrt (1 - hav lat1 lng1 lat2 lng2)"]
    hav_range [of lat1 lng1 lat2 lng2]
  by (simp add: Haversine_hav earthRadiusKm_def)

lemma Haversine_le: "Haversine lat1 lng1 lat2 lng2 \<le> pi * earthRadiusKm"
  using atan2_quarter [of "sqrt (hav lat1 lng1 lat2 lng2)" "sqrt (1 - hav lat1 lng1 lat2 lng2)"]
    hav_range [of lat1 lng1 lat2 lng2]
  by (simp add: Haversine_hav earthRadiusKm_def)

lemma Haversine_sym: "Haversine lat1 lng1 lat2 lng2 = Haversine lat2 lng2 lat1 lng1"
  by (simp add: Haversine_hav hav_sym [of lat1])

lemma hav_zero: "0 < hav lat1 lng1 lat2 lng2 \<Longrightarrow> 0 < Haversine lat1 lng1 lat2 lng2"
proof -
  assume h: "0 < hav lat1 lng1 lat2 lng2"
  have "0 < math_Atan2 (sqrt (hav lat1 lng1 lat2 lng2)) (sqrt (1 - hav lat1 lng1 lat2 lng2))"
    using h hav_range [of lat1 lng1 lat2 lng2]
    by (cases "hav lat1 lng1 lat2 lng2 = 1") (auto simp: math_Atan2_def)
  then show ?thesis by (simp add: Haversine_hav earthRadiusKm_def)
qed

section \<open>The triangle inequality\<close>

definition inner :: "float64 \<Rightarrow> float64 \<Rightarrow> float64 \<Rightarrow> float64 \<Rightarrow> float64" where
  "inner lat1 lng1 lat2 lng2 =
     sin (toRad lat1) * sin (toRad lat2)
     + cos (toRad lat1) * cos (toRad lat2) * cos (toRad lng2 - toRad lng1)"

lemma hav_eq_inner: "hav lat1 lng1 lat2 lng2 = (1 - inner lat1 lng1 lat2 lng2) / 2"
  using hav_inner [of lat1 lng1 lat2 lng2] by (simp add: inner_def)

lemma inner_range: "\<bar>inner lat1 lng1 lat2 lng2\<bar> \<le> 1"
  unfolding inner_def by (rule inner_bound) simp_all

lemma atan2_sin_cos:
  assumes "0 \<le> t" "t \<le> pi / 2"
  shows "math_Atan2 (sin t) (cos t) = t"
proof (cases "t = pi / 2")
  case True
  then have "sin t = 1" "cos t = 0" by (simp_all add: True)
  with True show ?thesis by (simp add: math_Atan2_def)
next
  case False
  with assms have t: "- (pi / 2) < t" "t < pi / 2" by (auto simp: less_le)
  then have "0 < cos t" by (rule cos_gt_zero_pi)
  then show ?thesis using arctan_tan [OF t] by (simp add: math_Atan2_def tan_def)
qed

lemma Haversine_arccos:
  "Haversine lat1 lng1 lat2 lng2 = earthRadiusKm * arccos (inner lat1 lng1 lat2 lng2)"
proof -
  define c where "c = inner lat1 lng1 lat2 lng2"
  define t where "t = arccos c / 2"
  have c: "- 1 \<le> c" "c \<le> 1" using inner_range [of lat1 lng1 lat2 lng2] by (auto simp: c_def)
  have t: "0 \<le> t" "t \<le> pi / 2" using arccos_bounded [OF c] by (auto simp: t_def)
  have pos: "0 \<le> sin t" "0 \<le> cos t" using t by (auto intro!: sin_ge_zero cos_ge_zero)
  have c2: "cos (2 * t) = c" using c by (simp add: t_def cos_arccos)
  have h: "hav lat1 lng1 lat2 lng2 = (sin t)\<^sup>2"
    using c2 cos_double_sin [of t] by (simp add: hav_eq_inner c_def)
  have h': "1 - hav lat1 lng1 lat2 lng2 = (cos t)\<^sup>2"
    using h sin_cos_squared_add [of t] by linarith
  have "math_Atan2 (sqrt ((sin t)\<^sup>2)) (sqrt ((cos t)\<^sup>2)) = t"
    using pos atan2_sin_cos [OF t] by simp
  then show ?thesis unfolding Haversine_hav h' unfolding h by (simp add: t_def c_def)
qed

lemma gram_nonneg:
  fixes x1 x2 x3 y1 y2 y3 z1 z2 z3 :: real
  defines "a \<equiv> x1 * y1 + x2 * y2 + x3 * y3"
    and "b \<equiv> y1 * z1 + y2 * z2 + y3 * z3"
    and "c \<equiv> x1 * z1 + x2 * z2 + x3 * z3"
  assumes n: "x1\<^sup>2 + x2\<^sup>2 + x3\<^sup>2 = 1" "y1\<^sup>2 + y2\<^sup>2 + y3\<^sup>2 = 1" "z1\<^sup>2 + z2\<^sup>2 + z3\<^sup>2 = 1"
  shows "(a * b - c)\<^sup>2 \<le> (1 - a\<^sup>2) * (1 - b\<^sup>2)"
proof -
  define X Y Z where "X = x1\<^sup>2 + x2\<^sup>2 + x3\<^sup>2" and "Y = y1\<^sup>2 + y2\<^sup>2 + y3\<^sup>2" and "Z = z1\<^sup>2 + z2\<^sup>2 + z3\<^sup>2"
  define d where "d = x1 * (y2 * z3 - y3 * z2) - x2 * (y1 * z3 - y3 * z1) + x3 * (y1 * z2 - y2 * z1)"
  have "X * Y * Z + 2 * a * b * c - X * b\<^sup>2 - Y * c\<^sup>2 - Z * a\<^sup>2 = d\<^sup>2"
    by (simp add: a_def b_def c_def d_def X_def Y_def Z_def power2_eq_square algebra_simps)
  then have "0 \<le> X * Y * Z + 2 * a * b * c - X * b\<^sup>2 - Y * c\<^sup>2 - Z * a\<^sup>2" by simp
  with n have "0 \<le> 1 + 2 * a * b * c - b\<^sup>2 - c\<^sup>2 - a\<^sup>2" by (simp add: X_def Y_def Z_def)
  then show ?thesis by (simp add: power2_eq_square algebra_simps)
qed

lemma inner_coords:
  "inner lat1 lng1 lat2 lng2 =
     cos (toRad lat1) * cos (toRad lng1) * (cos (toRad lat2) * cos (toRad lng2))
     + cos (toRad lat1) * sin (toRad lng1) * (cos (toRad lat2) * sin (toRad lng2))
     + sin (toRad lat1) * sin (toRad lat2)"
  by (simp add: inner_def cos_diff algebra_simps)

lemma unit_coords: "(cos p * cos l)\<^sup>2 + (cos p * sin l)\<^sup>2 + (sin p)\<^sup>2 = (1 :: real)"
proof -
  have "(cos p * cos l)\<^sup>2 + (cos p * sin l)\<^sup>2 = (cos p)\<^sup>2 * ((sin l)\<^sup>2 + (cos l)\<^sup>2)"
    by (simp add: power_mult_distrib algebra_simps del: sin_cos_squared_add sin_cos_squared_add2)
  then show ?thesis by simp
qed

lemma arccos_triangle:
  fixes a b c :: real
  assumes r: "\<bar>a\<bar> \<le> 1" "\<bar>b\<bar> \<le> 1" "\<bar>c\<bar> \<le> 1" and g: "(a * b - c)\<^sup>2 \<le> (1 - a\<^sup>2) * (1 - b\<^sup>2)"
  shows "arccos c \<le> arccos a + arccos b"
proof (cases "pi \<le> arccos a + arccos b")
  case True
  moreover have "arccos c \<le> pi" using arccos_bounded [of c] r(3) by (simp add: abs_le_iff)
  ultimately show ?thesis by linarith
next
  case False
  have s: "0 \<le> 1 - a\<^sup>2" "0 \<le> 1 - b\<^sup>2" using r by (auto simp: abs_square_le_1)
  have "cos (arccos a + arccos b) = a * b - sqrt (1 - a\<^sup>2) * sqrt (1 - b\<^sup>2)"
    using r by (simp add: cos_add sin_arccos)
  moreover have "\<bar>a * b - c\<bar> \<le> sqrt (1 - a\<^sup>2) * sqrt (1 - b\<^sup>2)"
    using real_sqrt_le_mono [OF g] by (simp add: real_sqrt_mult)
  ultimately have "cos (arccos a + arccos b) \<le> c" by linarith
  then have "arccos c \<le> arccos (cos (arccos a + arccos b))"
    using r(3) by (intro arccos_le_arccos) auto
  also have "\<dots> = arccos a + arccos b"
    using False arccos_bounded [of a] arccos_bounded [of b] r by (intro arccos_cos) auto
  finally show ?thesis .
qed

lemma Haversine_triangle:
  "Haversine lat1 lng1 lat3 lng3
   \<le> Haversine lat1 lng1 lat2 lng2 + Haversine lat2 lng2 lat3 lng3"
proof -
  have "arccos (inner lat1 lng1 lat3 lng3)
        \<le> arccos (inner lat1 lng1 lat2 lng2) + arccos (inner lat2 lng2 lat3 lng3)"
    by (intro arccos_triangle inner_range, unfold inner_coords,
        rule gram_nonneg; simp only: unit_coords)
  then show ?thesis
    by (simp add: Haversine_arccos earthRadiusKm_def)
qed

lemma Haversine_meridian:
  assumes "lat1 \<le> lat2" "lat2 - lat1 \<le> 180"
  shows "Haversine lat1 lng lat2 lng = earthRadiusKm * toRad (lat2 - lat1)"
proof -
  have "inner lat1 lng lat2 lng = cos (toRad (lat2 - lat1))"
    by (simp add: inner_def toRad_diff cos_diff algebra_simps)
  moreover have "0 \<le> toRad (lat2 - lat1)" "toRad (lat2 - lat1) \<le> pi"
  proof -
    have "(lat2 - lat1) * pi \<le> 180 * pi" using assms by (intro mult_right_mono) auto
    then show "toRad (lat2 - lat1) \<le> pi" by (simp add: toRad_def)
    show "0 \<le> toRad (lat2 - lat1)" using assms by (simp add: toRad_def)
  qed
  ultimately show ?thesis by (simp add: Haversine_arccos arccos_cos)
qed
text \<open>
  \<open>Haversine\<close> is a distance on the sphere: non-negative, zero between a point and
  itself, symmetric, never more than half the circumference, and it satisfies the triangle
  inequality.
\<close>

theorem Haversine_metric:
  "0 \<le> Haversine lat1 lng1 lat2 lng2
   \<and> Haversine lat1 lng1 lat1 lng1 = 0
   \<and> Haversine lat1 lng1 lat2 lng2 = Haversine lat2 lng2 lat1 lng1
   \<and> Haversine lat1 lng1 lat2 lng2 \<le> pi * earthRadiusKm
   \<and> Haversine lat1 lng1 lat3 lng3
       \<le> Haversine lat1 lng1 lat2 lng2 + Haversine lat2 lng2 lat3 lng3"
  by (intro conjI Haversine_nonneg Haversine_self Haversine_sym Haversine_le Haversine_triangle)

section \<open>Distance to a polyline\<close>

lemma clamp_range: "- 1 \<le> clamp v" "clamp v \<le> 1"
  by (auto simp: clamp_def)

lemma segment_distance_range:
  "0 \<le> segment_distance lat lng p q \<and> segment_distance lat lng p q \<le> pi * earthRadiusKm"
proof -
  have "\<bar>arcsin (clamp v)\<bar> * earthRadiusKm \<le> pi * earthRadiusKm" for v
    using arcsin_bounded [OF clamp_range [of v]] pi_gt_zero
    by (intro mult_right_mono) (auto simp: earthRadiusKm_def)
  then show ?thesis
    using Haversine_le
    by (auto simp: segment_distance_def CrossTrackDistance_def Let_def earthRadiusKm_def min_def)
qed

fun segments :: "'a list \<Rightarrow> ('a \<times> 'a) list" where
  "segments (p # q # ps) = (p, q) # segments (q # ps)"
| "segments ps = []"

lemma segments_Nil_iff [simp]: "segments ps = [] \<longleftrightarrow> length ps < 2"
  by (cases ps rule: segments.cases) auto

lemma min_over_segments_foldl:
  "min_over_segments lat lng m ps =
     foldl min m (map (\<lambda>(p, q). segment_distance lat lng p q) (segments ps))"
  by (induction lat lng m ps rule: min_over_segments.induct) (auto simp: Let_def min_def)

lemma foldl_min: "foldl min m xs = Min (insert m (set xs))" for m :: "'a :: linorder"
proof (induction xs arbitrary: m)
  case Nil
  then show ?case by simp
next
  case (Cons x xs)
  have "Min (insert (min m x) (set xs)) = Min (insert m (set (x # xs)))"
    by (cases "set xs = {}") (simp_all add: min.assoc)
  with Cons show ?case by simp
qed

lemma sphere_lt_max: "pi * earthRadiusKm < maxFloat64"
proof -
  have "pi * earthRadiusKm \<le> 4 * 6371" using pi_less_4 by (simp add: earthRadiusKm_def)
  also have "\<dots> < 2 ^ 1023" by simp
  also have "\<dots> \<le> maxFloat64" by (rule maxFloat64_ge)
  finally show ?thesis .
qed

text \<open>
  For a route of at least two points, \<open>MinDistanceToPolyline\<close> is the minimum of the
  segment distances over the consecutive pairs of the route, and it lies between zero and
  half the circumference (so the sentinel never escapes).
\<close>

theorem MinDistanceToPolyline_min:
  assumes "2 \<le> length pts"
  shows "MinDistanceToPolyline lat lng pts =
           Min ((\<lambda>(p, q). segment_distance lat lng p q) ` set (segments pts))
         \<and> 0 \<le> MinDistanceToPolyline lat lng pts
         \<and> MinDistanceToPolyline lat lng pts \<le> pi * earthRadiusKm"
proof -
  let ?D = "(\<lambda>(p, q). segment_distance lat lng p q) ` set (segments pts)"
  have ne: "?D \<noteq> {}" "finite ?D" using assms by auto
  have range: "0 \<le> d \<and> d \<le> pi * earthRadiusKm" if "d \<in> ?D" for d
    using that segment_distance_range by auto
  have "MinDistanceToPolyline lat lng pts = min_over_segments lat lng maxFloat64 pts"
    using assms by (auto simp: MinDistanceToPolyline_def split: list.splits)
  also have "\<dots> = Min (insert maxFloat64 ?D)"
    by (simp add: min_over_segments_foldl foldl_min)
  also have "\<dots> = Min ?D"
  proof -
    have "Min ?D \<le> maxFloat64" using range [OF Min_in [OF ne(2,1)]] sphere_lt_max by linarith
    moreover have "Min (insert maxFloat64 ?D) = min maxFloat64 (Min ?D)"
      by (rule Min_insert [OF ne(2,1)])
    ultimately show ?thesis by (simp only: min.absorb2)
  qed
  finally show ?thesis using range [OF Min_in [OF ne(2,1)]] by simp
qed

theorem MinDistanceToPolyline_min_witness:
  "MinDistanceToPolyline 0 0 [\<lparr>pp_Lat = 0, pp_Lng = 0\<rparr>, \<lparr>pp_Lat = 0, pp_Lng = 0\<rparr>] = 0"
  using MinDistanceToPolyline_min
    [of "[\<lparr>pp_Lat = 0, pp_Lng = 0\<rparr>, \<lparr>pp_Lat = 0, pp_Lng = 0\<rparr>]" 0 0]
  by (simp add: segment_distance_def CrossTrackDistance_def)

section \<open>Rounding and smoothing\<close>

text \<open>
  Rounding to \<open>p\<close> decimals moves a value by at most half a unit of the last place, and
  rounding a rounded value changes nothing.
\<close>

theorem Round_error:
  "\<bar>Round v p - v\<bar> \<le> 1 / (2 * 10 ^ p) \<and> Round (Round v p) p = Round v p"
proof
  have "\<bar>Round v p - v\<bar> = \<bar>of_int (math_Round (v * 10 ^ p)) - v * 10 ^ p\<bar> / 10 ^ p"
  proof -
    have "Round v p - v = (of_int (math_Round (v * 10 ^ p)) - v * 10 ^ p) / 10 ^ p"
      by (simp add: Round_def Let_def diff_divide_distrib)
    then show ?thesis by (simp add: abs_divide)
  qed
  also have "\<dots> \<le> (1 / 2) / 10 ^ p"
    by (rule divide_right_mono [OF math_Round_bounds]) simp
  finally show "\<bar>Round v p - v\<bar> \<le> 1 / (2 * 10 ^ p)" by simp
  show "Round (Round v p) p = Round v p"
    by (simp add: Round_def Let_def)
qed

lemma SmoothGPS_same [simp]: "SmoothGPS a b a b alpha = (a, b)"
  by (simp add: SmoothGPS_def algebra_simps)

text \<open>
  With a weight between 0 and 1 the smoothed position is a convex combination of the
  raw and the previous one: smoothing valid coordinates gives valid coordinates, and a
  weight of 1 passes the observation through.
\<close>

theorem SmoothGPS_valid:
  assumes "0 \<le> alpha" "alpha \<le> 1" and "ValidCoords rawLat rawLng" "ValidCoords prevLat prevLng"
  shows "(case SmoothGPS rawLat rawLng prevLat prevLng alpha of (lat, lng) \<Rightarrow> ValidCoords lat lng)
         \<and> SmoothGPS rawLat rawLng prevLat prevLng 1 = (rawLat, rawLng)"
proof -
  have up: "alpha * x + (1 - alpha) * y \<le> b" if "x \<le> b" "y \<le> b" for x y b :: real
    using convex_bound_le [OF that, of alpha "1 - alpha"] assms by simp
  have lo: "b \<le> alpha * x + (1 - alpha) * y" if "b \<le> x" "b \<le> y" for x y b :: real
    using up [of "- x" "- b" "- y"] that by simp
  show ?thesis using assms(3,4) up lo
    by (auto simp: SmoothGPS_def ValidCoords_def)
qed

end
