(* ===== verification/RoadGraph.thy ===== *)
theory RoadGraph
  imports Highway GeoMath
begin

text \<open>
  \<open>internal/routing/graph.go\<close>: the in-memory road network.  Go maps are functions to
  \<open>option\<close>; a map of slices is a total function, since a missing key reads as the empty
  slice; the two maps the code compares with \<open>nil\<close> (\<open>RevAdj\<close>, \<open>edgePolylines\<close>) are
  optional.  The spatial grid keeps the nodes as they were added: only their identifier and
  coordinates are read through it.  \<open>AddEdge\<close> updates the flags of both endpoints in
  \<open>Nodes\<close>.  A callback \<open>edgeOK\<close> that may be \<open>nil\<close> is an optional predicate.  The
  iteration order of a Go map is a list argument.  The mutex around \<open>edgePolylines\<close> makes
  its accesses atomic and is not modelled.
\<close>

record node =
  n_ID :: node_id
  n_Lat :: float64
  n_Lng :: float64
  n_Flags :: AccessFlags

record edge =
  e_To :: node_id
  e_DistanceKm :: float64
  e_SpeedKmH :: float64
  e_TimeHours :: float64
  e_Kind :: HighwayKind
  e_Flags :: AccessFlags
  e_NameIdx :: "32 word"

record point =
  p_Lat :: float64
  p_Lng :: float64

type_synonym EdgeKey = "node_id \<times> node_id"
type_synonym cellKey = "int \<times> int"
type_synonym edge_pred = "(edge \<Rightarrow> bool) option"

record graph =
  Nodes :: "node_id \<Rightarrow> node option"
  Edges :: "node_id \<Rightarrow> edge list"
  RevAdj :: "(node_id \<Rightarrow> node_id list) option"
  grid :: "cellKey \<Rightarrow> node list option"
  namePool :: "string list"
  nameIndex :: "string \<Rightarrow> 32 word option"
  edgePolylines :: "(EdgeKey \<Rightarrow> point list option) option"

definition NewGraph :: graph where
  "NewGraph = \<lparr>Nodes = Map.empty, Edges = (\<lambda>_. []), RevAdj = Some (\<lambda>_. []), grid = Map.empty,
     namePool = [''''], nameIndex = Map.empty, edgePolylines = None\<rparr>"

section \<open>Street names\<close>

definition InternName :: "graph \<Rightarrow> string \<Rightarrow> 32 word \<times> graph" where
  "InternName g name =
     (if name = '''' then (0, g)
      else case nameIndex g name of
             Some idx \<Rightarrow> (idx, g)
           | None \<Rightarrow> (let idx = of_nat (length (namePool g)) in
                      (idx, g\<lparr>namePool := namePool g @ [name],
                              nameIndex := (nameIndex g)(name \<mapsto> idx)\<rparr>)))"

definition NameFor :: "graph \<Rightarrow> 32 word \<Rightarrow> string" where
  "NameFor g idx = (if unat idx < length (namePool g) then namePool g ! unat idx else '''')"

text \<open>\<open>SetEdgeName\<close> panics (\<open>None\<close>) on a negative index of an existing adjacency list.\<close>

definition SetEdgeName :: "graph \<Rightarrow> node_id \<Rightarrow> int \<Rightarrow> string \<Rightarrow> graph option" where
  "SetEdgeName g fromID edgeIdx name =
     (if edgeIdx < int (length (Edges g fromID)) \<and> Edges g fromID \<noteq> []
      then if edgeIdx < 0 then None
           else let (idx, g') = InternName g name;
                    es = Edges g' fromID
                in Some (g'\<lparr>Edges := (Edges g')(fromID := es[nat edgeIdx := (es ! nat edgeIdx)\<lparr>e_NameIdx := idx\<rparr>])\<rparr>)
      else Some g)"

section \<open>Building the graph\<close>

definition gridCellSizeDeg :: float64 where
  "gridCellSizeDeg = 0.02"

definition cellFor :: "float64 \<Rightarrow> float64 \<Rightarrow> cellKey" where
  "cellFor lat lng = (\<lfloor>lat / gridCellSizeDeg\<rfloor>, \<lfloor>lng / gridCellSizeDeg\<rfloor>)"

definition grid_at :: "graph \<Rightarrow> cellKey \<Rightarrow> node list" where
  "grid_at g k = (case grid g k of None \<Rightarrow> [] | Some ns \<Rightarrow> ns)"

definition AddNode :: "graph \<Rightarrow> node \<Rightarrow> graph" where
  "AddNode g n =
     (let k = cellFor (n_Lat n) (n_Lng n) in
      g\<lparr>Nodes := (Nodes g)(n_ID n \<mapsto> n), grid := (grid g)(k \<mapsto> grid_at g k @ [n])\<rparr>)"

definition or_flags :: "(node_id \<Rightarrow> node option) \<Rightarrow> node_id \<Rightarrow> AccessFlags \<Rightarrow> (node_id \<Rightarrow> node option)" where
  "or_flags ns v f = (case ns v of None \<Rightarrow> ns | Some n \<Rightarrow> ns(v \<mapsto> n\<lparr>n_Flags := n_Flags n OR f\<rparr>))"

definition AddEdge :: "graph \<Rightarrow> node_id \<Rightarrow> edge \<Rightarrow> graph" where
  "AddEdge g from e =
     g\<lparr>Edges := (Edges g)(from := Edges g from @ [e]),
       Nodes := or_flags (or_flags (Nodes g) from (e_Flags e)) (e_To e) (e_Flags e),
       RevAdj := (case RevAdj g of
                    None \<Rightarrow> None
                  | Some r \<Rightarrow> Some (r(e_To e := r (e_To e) @ [from])))\<rparr>"

section \<open>Snapping\<close>

definition passes :: "edge_pred \<Rightarrow> edge \<Rightarrow> bool" where
  "passes edgeOK e = (case edgeOK of None \<Rightarrow> True | Some f \<Rightarrow> f e)"

text \<open>The zero \<open>Edge\<close> carrying only flags, built by \<open>nodeRoutable\<close>.\<close>

definition synth_edge :: "AccessFlags \<Rightarrow> edge" where
  "synth_edge f = \<lparr>e_To = 0, e_DistanceKm = 0, e_SpeedKmH = 0, e_TimeHours = 0,
     e_Kind = HWUnknown, e_Flags = f, e_NameIdx = 0\<rparr>"

definition nodeRoutable :: "graph \<Rightarrow> node_id \<Rightarrow> edge_pred \<Rightarrow> bool" where
  "nodeRoutable g nid edgeOK =
     (case edgeOK of
        None \<Rightarrow> True
      | Some ok \<Rightarrow>
          (case Nodes g nid of
             None \<Rightarrow> False
           | Some n \<Rightarrow>
               if n_Flags n = 0 then False
               else let outgoing = Edges g nid in
                    if \<not> ok (synth_edge (n_Flags n)) \<and> outgoing = [] then False
                    else if list_ex ok outgoing then True
                    else outgoing = []))"

definition NearestNode :: "node_id list \<Rightarrow> graph \<Rightarrow> float64 \<Rightarrow> float64 \<Rightarrow> node option" where
  "NearestNode order g lat lng =
     snd (scan_min (\<lambda>n. Haversine lat lng (n_Lat n) (n_Lng n)) (maxFloat64, None)
            (List.map_filter (Nodes g) order))"

text \<open>The cells scanned around a centre, row by row, and the nodes found in them.\<close>

definition scanned :: "graph \<Rightarrow> cellKey \<Rightarrow> int \<Rightarrow> node list" where
  "scanned g center radius =
     concat (map (\<lambda>dLat. concat (map (\<lambda>dLng. grid_at g (fst center + dLat, snd center + dLng))
                                     [- radius..radius]))
                 [- radius..radius])"

definition scan_radius :: "float64 \<Rightarrow> int" where
  "scan_radius maxKm =
     (let radius = \<lceil>maxKm / (111 * gridCellSizeDeg)\<rceil> + 1 in if radius < 1 then 1 else radius)"

definition nearestNodeWithin ::
  "node_id list \<Rightarrow> graph \<Rightarrow> float64 \<Rightarrow> float64 \<Rightarrow> float64 \<Rightarrow> edge_pred \<Rightarrow> node option" where
  "nearestNodeWithin order g lat lng maxKm edgeOK =
     (if maxKm \<le> 0 then None
      else if grid g = Map.empty
      then (case NearestNode order g lat lng of
              None \<Rightarrow> None
            | Some n \<Rightarrow> if nodeRoutable g (n_ID n) edgeOK \<and> Haversine lat lng (n_Lat n) (n_Lng n) \<le> maxKm
                        then Some n else None)
      else (case scan_min (\<lambda>n. Haversine lat lng (n_Lat n) (n_Lng n)) (maxFloat64, None)
                   (filter (\<lambda>n. nodeRoutable g (n_ID n) edgeOK)
                      (scanned g (cellFor lat lng) (scan_radius maxKm))) of
              (minDist, None) \<Rightarrow> None
            | (minDist, Some nearest) \<Rightarrow> if minDist > maxKm then None else Some nearest))"

definition NearestNodeWithin :: "node_id list \<Rightarrow> graph \<Rightarrow> float64 \<Rightarrow> float64 \<Rightarrow> float64 \<Rightarrow> node option" where
  "NearestNodeWithin order g lat lng maxKm = nearestNodeWithin order g lat lng maxKm None"

definition NearestRoutableNodeWithin ::
  "node_id list \<Rightarrow> graph \<Rightarrow> float64 \<Rightarrow> float64 \<Rightarrow> float64 \<Rightarrow> edge_pred \<Rightarrow> node option" where
  "NearestRoutableNodeWithin order g lat lng maxKm edgeOK = nearestNodeWithin order g lat lng maxKm edgeOK"

section \<open>Edge geometry\<close>

definition SetEdgePolyline :: "graph \<Rightarrow> node_id \<Rightarrow> node_id \<Rightarrow> point list \<Rightarrow> graph" where
  "SetEdgePolyline g from to points =
     (let m = (case edgePolylines g of None \<Rightarrow> Map.empty | Some m \<Rightarrow> m) in
      g\<lparr>edgePolylines := Some (m((from, to) \<mapsto> points))\<rparr>)"

definition EdgePolyline :: "graph \<Rightarrow> node_id \<Rightarrow> node_id \<Rightarrow> point list option" where
  "EdgePolyline g from to = (case edgePolylines g of None \<Rightarrow> None | Some m \<Rightarrow> m (from, to))"

definition EdgePolylineCount :: "graph \<Rightarrow> nat" where
  "EdgePolylineCount g = (case edgePolylines g of None \<Rightarrow> 0 | Some m \<Rightarrow> card (dom m))"

lemma EdgePolyline_SetEdgePolyline:
  "EdgePolyline (SetEdgePolyline g from to ps) u v = (if (u, v) = (from, to) then Some ps else EdgePolyline g u v)"
  by (auto simp: EdgePolyline_def SetEdgePolyline_def Let_def split: option.splits)

section \<open>The graph invariant\<close>

definition pool_ok :: "graph \<Rightarrow> bool" where
  "pool_ok g \<longleftrightarrow> length (namePool g) < 2 ^ 32 \<and> namePool g \<noteq> [] \<and> namePool g ! 0 = ''''
     \<and> distinct (namePool g)
     \<and> (\<forall>s i. nameIndex g s = Some i \<longleftrightarrow>
              0 < unat i \<and> unat i < length (namePool g) \<and> namePool g ! unat i = s)"

definition keys_ok :: "graph \<Rightarrow> bool" where
  "keys_ok g \<longleftrightarrow> (\<forall>k n. Nodes g k = Some n \<longrightarrow> n_ID n = k)"

definition rev_ok :: "graph \<Rightarrow> bool" where
  "rev_ok g \<longleftrightarrow> (\<forall>r. RevAdj g = Some r \<longrightarrow>
     (\<forall>u v. count_list (r v) u = length (filter (\<lambda>e. e_To e = v) (Edges g u))))"

definition flags_ok :: "graph \<Rightarrow> bool" where
  "flags_ok g \<longleftrightarrow> (\<forall>u. \<forall>e\<in>set (Edges g u). \<forall>n. Nodes g u = Some n \<or> Nodes g (e_To e) = Some n \<longrightarrow>
     n_Flags n OR e_Flags e = n_Flags n)"

definition grid_ok :: "graph \<Rightarrow> bool" where
  "grid_ok g \<longleftrightarrow> (\<forall>k n. Nodes g k = Some n \<longrightarrow>
     (\<exists>m\<in>set (grid_at g (cellFor (n_Lat n) (n_Lng n))).
        n_ID m = k \<and> n_Lat m = n_Lat n \<and> n_Lng m = n_Lng n))"

definition graph_ok :: "graph \<Rightarrow> bool" where
  "graph_ok g \<longleftrightarrow> pool_ok g \<and> keys_ok g \<and> rev_ok g \<and> flags_ok g \<and> grid_ok g"

lemmas graph_inv_defs = pool_ok_def keys_ok_def rev_ok_def flags_ok_def grid_ok_def

lemma graph_ok_NewGraph: "graph_ok NewGraph"
  by (auto simp: graph_ok_def graph_inv_defs NewGraph_def)

lemma or_or_same [simp]: "(a OR b) OR b = a OR b" for a b :: "'a::semiring_bit_operations"
  by (simp add: or.assoc)

lemma or_absorb: "a OR b = a \<Longrightarrow> (a OR c) OR b = a OR c" for a b c :: "'a::semiring_bit_operations"
  by (metis or.assoc or.commute)

lemma or_flags_dom [simp]: "or_flags ns v f k = None \<longleftrightarrow> ns k = None"
  by (auto simp: or_flags_def split: option.splits)

lemma or_flags_Some:
  "or_flags ns v f k = Some n \<longleftrightarrow>
     (\<exists>m. ns k = Some m \<and> n = (if k = v then m\<lparr>n_Flags := n_Flags m OR f\<rparr> else m))"
  by (auto simp: or_flags_def split: option.splits)

lemma or_flags_apply:
  "or_flags ns v f k = map_option (\<lambda>m. if k = v then m\<lparr>n_Flags := n_Flags m OR f\<rparr> else m) (ns k)"
  by (cases "ns k") (auto simp: or_flags_def split: option.splits)

lemma AddEdge_simps [simp]:
  "Edges (AddEdge g from e) u = (if u = from then Edges g u @ [e] else Edges g u)"
  "namePool (AddEdge g from e) = namePool g"
  "nameIndex (AddEdge g from e) = nameIndex g"
  "grid (AddEdge g from e) = grid g"
  "grid_at (AddEdge g from e) k = grid_at g k"
  by (simp_all add: AddEdge_def grid_at_def)

lemma AddEdge_Nodes:
  "Nodes (AddEdge g from e) k = Some n \<longleftrightarrow>
     (\<exists>m. Nodes g k = Some m \<and>
          n = (if k = from \<or> k = e_To e then m\<lparr>n_Flags := n_Flags m OR e_Flags e\<rparr> else m))"
  by (cases "Nodes g k") (auto simp: AddEdge_def or_flags_apply)

lemma AddEdge_keeps: "graph_ok g \<Longrightarrow> graph_ok (AddEdge g from e)"
proof -
  assume g: "graph_ok g"
  have "flags_ok (AddEdge g from e)"
    unfolding flags_ok_def
  proof (intro allI ballI impI)
    fix u e' n
    assume e': "e' \<in> set (Edges (AddEdge g from e) u)"
      and n: "Nodes (AddEdge g from e) u = Some n \<or> Nodes (AddEdge g from e) (e_To e') = Some n"
    from n obtain k where k: "k = u \<or> k = e_To e'" "Nodes (AddEdge g from e) k = Some n" by auto
    from k(2) obtain m where m: "Nodes g k = Some m"
      "n = (if k = from \<or> k = e_To e then m\<lparr>n_Flags := n_Flags m OR e_Flags e\<rparr> else m)"
      by (auto simp: AddEdge_Nodes)
    show "n_Flags n OR e_Flags e' = n_Flags n"
    proof (cases "e' \<in> set (Edges g u)")
      case True
      with g k(1) m(1) have abs: "n_Flags m OR e_Flags e' = n_Flags m"
        by (auto simp: graph_ok_def flags_ok_def)
      then show ?thesis using m(2) or_absorb [OF abs, of "e_Flags e"] by (cases "k = from \<or> k = e_To e") (simp_all add: abs)
    next
      case False
      with e' have "e' = e" "u = from" by (auto split: if_splits)
      with k(1) m(2) show ?thesis by auto
    qed
  qed
  moreover have "rev_ok (AddEdge g from e)"
    using g by (auto simp: graph_ok_def rev_ok_def AddEdge_def split: option.splits)
  moreover have "grid_ok (AddEdge g from e)"
    using g by (force simp: graph_ok_def grid_ok_def AddEdge_Nodes)
  moreover have "keys_ok (AddEdge g from e)"
    using g by (simp add: graph_ok_def keys_ok_def AddEdge_Nodes) fastforce
  moreover have "pool_ok (AddEdge g from e)"
    using g by (simp add: graph_ok_def pool_ok_def)
  ultimately show ?thesis by (simp add: graph_ok_def)
qed

definition isolated :: "graph \<Rightarrow> node_id \<Rightarrow> bool" where
  "isolated g v \<longleftrightarrow> Edges g v = [] \<and> (\<forall>u. \<forall>e\<in>set (Edges g u). e_To e \<noteq> v)"

lemma AddNode_simps [simp]:
  "Edges (AddNode g n) = Edges g" "RevAdj (AddNode g n) = RevAdj g"
  "namePool (AddNode g n) = namePool g" "nameIndex (AddNode g n) = nameIndex g"
  "Nodes (AddNode g n) = (Nodes g)(n_ID n \<mapsto> n)"
  "grid_at (AddNode g n) k =
     (if k = cellFor (n_Lat n) (n_Lng n) then grid_at g k @ [n] else grid_at g k)"
  by (simp_all add: AddNode_def grid_at_def Let_def)

lemma AddNode_keeps: "graph_ok g \<Longrightarrow> isolated g (n_ID n) \<Longrightarrow> graph_ok (AddNode g n)"
proof -
  assume g: "graph_ok g" and i: "isolated g (n_ID n)"
  have "flags_ok (AddNode g n)"
    using g i by (fastforce simp: graph_ok_def flags_ok_def isolated_def)
  moreover have "grid_ok (AddNode g n)"
    using g by (fastforce simp: graph_ok_def grid_ok_def)
  ultimately show ?thesis
    using g by (auto simp: graph_ok_def pool_ok_def keys_ok_def rev_ok_def)
qed

lemma InternName_simps [simp]:
  "Nodes (snd (InternName g s)) = Nodes g" "Edges (snd (InternName g s)) = Edges g"
  "RevAdj (snd (InternName g s)) = RevAdj g" "grid (snd (InternName g s)) = grid g"
  "grid_at (snd (InternName g s)) k = grid_at g k"
  by (auto simp: InternName_def Let_def grid_at_def split: option.splits)

lemma unat_of_nat32: "n < 2 ^ 32 \<Longrightarrow> unat (of_nat n :: 32 word) = n"
  by (simp add: unat_of_nat take_bit_nat_eq_self)

lemma pool_okD:
  assumes "pool_ok g"
  shows "length (namePool g) < 2 ^ 32" "namePool g \<noteq> []" "namePool g ! 0 = ''''"
    "distinct (namePool g)"
    "nameIndex g s = Some i \<longleftrightarrow> 0 < unat i \<and> unat i < length (namePool g) \<and> namePool g ! unat i = s"
  using assms by (simp_all add: pool_ok_def)

lemma pool_ok_fresh:
  assumes ok: "pool_ok g" and s: "s \<noteq> ''''" "nameIndex g s = None"
  shows "s \<notin> set (namePool g)"
proof
  assume "s \<in> set (namePool g)"
  then obtain i where i: "i < length (namePool g)" "namePool g ! i = s"
    by (auto simp: in_set_conv_nth)
  with s pool_okD(3) [OF ok] have "0 < i" by (metis gr0I)
  moreover have "unat (of_nat i :: 32 word) = i"
    using i pool_okD(1) [OF ok] by (intro unat_of_nat32) linarith
  ultimately have "nameIndex g s = Some (of_nat i)"
    using pool_okD(5) [OF ok, of s "of_nat i"] i by simp
  with s show False by simp
qed

lemma InternName_keeps:
  assumes ok: "pool_ok g" and room: "length (namePool g) + 1 < 2 ^ 32"
  shows "pool_ok (snd (InternName g s))"
proof (cases "s = '''' \<or> nameIndex g s \<noteq> None")
  case True
  then show ?thesis using ok by (auto simp: InternName_def)
next
  case False
  let ?n = "length (namePool g)"
  note p = pool_okD [OF ok]
  have u: "unat (of_nat ?n :: 32 word) = ?n" using p(1) by (rule unat_of_nat32)
  have fresh: "s \<notin> set (namePool g)" using pool_ok_fresh [OF ok] False by auto
  have g': "namePool (snd (InternName g s)) = namePool g @ [s]"
    "nameIndex (snd (InternName g s)) = (nameIndex g)(s \<mapsto> of_nat ?n)"
    using False by (auto simp: InternName_def Let_def)
  have idx: "((nameIndex g)(s \<mapsto> of_nat ?n)) t = Some i \<longleftrightarrow>
        0 < unat i \<and> unat i < Suc ?n \<and> (namePool g @ [s]) ! unat i = t" for t and i :: "32 word"
  proof (cases "unat i = ?n")
    case True
    then have "i = of_nat ?n" using u by (simp add: word_unat_eq_iff)
    moreover have "nameIndex g t \<noteq> Some (of_nat ?n)" using p(5) [of t "of_nat ?n"] u by simp
    ultimately show ?thesis using u p(2) by (auto simp: nth_append)
  next
    case False
    then have ne: "i \<noteq> of_nat ?n" using u by auto
    have "t = s \<Longrightarrow> \<not> (unat i < ?n \<and> namePool g ! unat i = t)" using fresh by (auto simp: in_set_conv_nth)
    then show ?thesis using False ne p(5) [of t i] by (auto simp: nth_append less_Suc_eq)
  qed
  show ?thesis using p(1-4) room fresh idx by (simp add: pool_ok_def g' nth_append)
qed

lemma SetEdgeName_cases:
  assumes "SetEdgeName g from i name = Some g'"
  obtains "g' = g" | "0 \<le> i" "nat i < length (Edges g from)"
    "g' = (snd (InternName g name))\<lparr>Edges := (Edges g)(from :=
       (Edges g from)[nat i := (Edges g from ! nat i)\<lparr>e_NameIdx := fst (InternName g name)\<rparr>])\<rparr>"
proof (cases "i < int (length (Edges g from)) \<and> Edges g from \<noteq> []")
  case True
  with assms have "0 \<le> i" by (auto simp: SetEdgeName_def split: if_splits)
  moreover from this True have "nat i < length (Edges g from)" by linarith
  ultimately show thesis using True assms that(2) by (simp add: SetEdgeName_def split_beta Let_def)
next
  case False
  with assms have "g' = g" by (simp only: SetEdgeName_def if_False option.inject)
  then show thesis by (rule that(1))
qed

lemma filter_map_To: "length (filter (\<lambda>e. e_To e = v) es) = length (filter (\<lambda>x. x = v) (map e_To es))"
  by (induction es) auto

lemma SetEdgeName_keeps:
  assumes ok: "graph_ok g" and room: "length (namePool g) + 1 < 2 ^ 32"
    and g': "SetEdgeName g from i name = Some g'"
  shows "graph_ok g'"
  using g'
proof (cases rule: SetEdgeName_cases)
  case 1
  then show ?thesis using ok by simp
next
  case 2
  let ?es = "Edges g from"
  let ?e = "(?es ! nat i)\<lparr>e_NameIdx := fst (InternName g name)\<rparr>"
  have old: "?es ! nat i \<in> set ?es" using 2 by simp
  have edges: "Edges g' u = (if u = from then ?es[nat i := ?e] else Edges g u)" for u
    using 2 by simp
  have rest: "Nodes g' = Nodes g" "RevAdj g' = RevAdj g" "grid_at g' = grid_at g"
    using 2 by (auto simp: grid_at_def)
  have pool: "pool_ok g'"
    using InternName_keeps [of g name] ok room 2 by (simp add: graph_ok_def pool_ok_def)
  have from_old: "\<exists>d\<in>set (Edges g u). e_To d = e_To e \<and> e_Flags d = e_Flags e"
    if "e \<in> set (Edges g' u)" for u e
  proof (cases "u = from \<and> e = ?e")
    case True
    then show ?thesis using old by auto
  next
    case False
    with that have "e \<in> set (Edges g u)"
      using set_update_subset_insert [of ?es "nat i" ?e] by (auto simp: edges split: if_splits)
    then show ?thesis by auto
  qed
  have flags: "flags_ok g'"
    using ok from_old unfolding graph_ok_def flags_ok_def rest by metis
  have "map e_To (Edges g' u) = map e_To (Edges g u)" for u
    using 2(2) by (auto simp: edges map_update list_update_id [of _ "nat i"] intro: nth_equalityI simp: nth_list_update)
  then have cnt: "length (filter (\<lambda>e. e_To e = v) (Edges g' u)) = length (filter (\<lambda>e. e_To e = v) (Edges g u))" for u v
    using filter_map_To [of v "Edges g' u"] filter_map_To [of v "Edges g u"] by simp
  show ?thesis
    using ok pool flags cnt by (simp add: graph_ok_def rev_ok_def grid_ok_def keys_ok_def rest)
qed

lemma SetEdgePolyline_keeps: "graph_ok g \<Longrightarrow> graph_ok (SetEdgePolyline g u v ps)"
  by (simp add: graph_ok_def graph_inv_defs SetEdgePolyline_def Let_def grid_at_def)

text \<open>The graphs the loaders can build.\<close>

inductive built :: "graph \<Rightarrow> bool" where
  built_new: "built NewGraph"
| built_node: "built g \<Longrightarrow> isolated g (n_ID n) \<Longrightarrow> built (AddNode g n)"
| built_edge: "built g \<Longrightarrow> built (AddEdge g from e)"
| built_intern: "built g \<Longrightarrow> length (namePool g) + 1 < 2 ^ 32 \<Longrightarrow> built (snd (InternName g s))"
| built_name: "built g \<Longrightarrow> length (namePool g) + 1 < 2 ^ 32 \<Longrightarrow>
     SetEdgeName g from i s = Some g' \<Longrightarrow> built g'"
| built_poly: "built g \<Longrightarrow> built (SetEdgePolyline g u v ps)"

text \<open>
  C5. Every graph the program can build (nodes added while nothing refers to them, edges,
  names and edge geometry in any order, fewer than \<open>2^32 - 1\<close> names) satisfies the graph
  invariant: the name pool and its index agree, nodes are stored under their identifier,
  \<open>RevAdj\<close> lists each edge once, node flags cover the incident edges, and every node is in
  its grid cell.
\<close>

theorem built_graph_ok: "built g \<Longrightarrow> graph_ok g"
proof (induction rule: built.induct)
  case (built_intern g s)
  then show ?case
    using InternName_keeps [of g s] by (simp add: graph_ok_def keys_ok_def rev_ok_def flags_ok_def grid_ok_def)
qed (auto intro: graph_ok_NewGraph AddNode_keeps AddEdge_keeps SetEdgeName_keeps SetEdgePolyline_keeps)

text \<open>
  A name interned in the pool is read back by \<open>NameFor\<close>, interning it again changes
  nothing, and the indices handed out before keep their names.
\<close>

theorem InternName_roundtrip:
  assumes "pool_ok g" "length (namePool g) + 1 < 2 ^ 32"
  shows "NameFor (snd (InternName g s)) (fst (InternName g s)) = s
    \<and> InternName (snd (InternName g s)) s = InternName g s
    \<and> (\<forall>i. unat i < length (namePool g) \<longrightarrow> NameFor (snd (InternName g s)) i = NameFor g i)"
proof -
  note p = pool_okD [OF assms(1)]
  have u: "unat (of_nat (length (namePool g)) :: 32 word) = length (namePool g)"
    using p(1) by (rule unat_of_nat32)
  have "NameFor (snd (InternName g s)) (fst (InternName g s)) = s"
    using p u by (auto simp: InternName_def NameFor_def Let_def split: option.splits)
  moreover have "InternName (snd (InternName g s)) s = InternName g s"
    by (auto simp: InternName_def Let_def split: option.splits)
  moreover have "NameFor (snd (InternName g s)) i = NameFor g i" if "unat i < length (namePool g)" for i
    using that by (auto simp: InternName_def NameFor_def Let_def nth_append split: option.splits)
  ultimately show ?thesis by blast
qed

lemma nodeRoutable_iff:
  "nodeRoutable g v (Some ok) \<longleftrightarrow>
     (\<exists>n. Nodes g v = Some n \<and> n_Flags n \<noteq> 0
          \<and> ((\<exists>e\<in>set (Edges g v). ok e) \<or> Edges g v = [] \<and> ok (synth_edge (n_Flags n))))"
  by (auto simp: nodeRoutable_def Let_def list_ex_iff split: option.splits)


section \<open>Snapping finds the nearest routable node of the scanned window\<close>

lemma set_scanned:
  "n \<in> set (scanned g c r) \<longleftrightarrow>
     (\<exists>i j. \<bar>i\<bar> \<le> r \<and> \<bar>j\<bar> \<le> r \<and> n \<in> set (grid_at g (fst c + i, snd c + j)))"
  by (auto simp: scanned_def abs_le_iff) (metis abs_le_iff atLeastAtMost_iff minus_le_iff)+

lemma scanned_cell:
  "n \<in> set (grid_at g k) \<Longrightarrow> \<bar>fst k - fst c\<bar> \<le> r \<Longrightarrow> \<bar>snd k - snd c\<bar> \<le> r \<Longrightarrow> n \<in> set (scanned g c r)"
  unfolding set_scanned by (rule exI [of _ "fst k - fst c"], rule exI [of _ "snd k - snd c"]) simp

lemma floor_diff:
  fixes x y :: real
  assumes "\<bar>x - y\<bar> \<le> of_int k"
  shows "\<bar>\<lfloor>x\<rfloor> - \<lfloor>y\<rfloor>\<bar> \<le> k"
  using assms by linarith

lemma cellFor_diff:
  assumes "\<bar>lat1 - lat2\<bar> \<le> of_int r * gridCellSizeDeg" "\<bar>lng1 - lng2\<bar> \<le> of_int r * gridCellSizeDeg"
  shows "\<bar>fst (cellFor lat1 lng1) - fst (cellFor lat2 lng2)\<bar> \<le> r"
    "\<bar>snd (cellFor lat1 lng1) - snd (cellFor lat2 lng2)\<bar> \<le> r"
proof -
  have "\<bar>x / gridCellSizeDeg - y / gridCellSizeDeg\<bar> \<le> of_int r"
    if "\<bar>x - y\<bar> \<le> of_int r * gridCellSizeDeg" for x y :: real
  proof -
    have "\<bar>x * 50 - y * 50\<bar> = \<bar>x - y\<bar> * 50" by (simp only: left_diff_distrib [symmetric] abs_mult abs_numeral)
    then show ?thesis using that by (simp add: gridCellSizeDeg_def)
  qed
  then show "\<bar>fst (cellFor lat1 lng1) - fst (cellFor lat2 lng2)\<bar> \<le> r"
    "\<bar>snd (cellFor lat1 lng1) - snd (cellFor lat2 lng2)\<bar> \<le> r"
    using assms by (simp_all add: cellFor_def floor_diff)
qed

lemma arctan_lower: "0 \<le> x \<Longrightarrow> x - x ^ 3 / 3 \<le> arctan x" for x :: real
proof -
  assume x: "0 \<le> x"
  let ?f = "\<lambda>x. arctan x - x + x ^ 3 / 3 :: real"
  have "?f 0 \<le> ?f x"
  proof (rule DERIV_nonneg_imp_nondecreasing [OF x])
    fix t :: real
    have "DERIV ?f t :> inverse (1 + t\<^sup>2) - 1 + t\<^sup>2"
      by (auto intro!: derivative_eq_intros)
    moreover have "0 \<le> inverse (1 + t\<^sup>2) - 1 + t\<^sup>2"
    proof -
      have "0 < 1 + t\<^sup>2" by (simp add: add_pos_nonneg)
      then have "inverse (1 + t\<^sup>2) - 1 + t\<^sup>2 = t ^ 4 / (1 + t\<^sup>2)"
        by (simp add: field_simps power2_eq_square power4_eq_xxxx)
      then show ?thesis by simp
    qed
    ultimately show "\<exists>y. DERIV ?f t :> y \<and> 0 \<le> y" by blast
  qed
  then show ?thesis by simp
qed

lemma pi_lower: "3.14 < pi"
  using machin_Euler arctan_lower [of "1 / 7"] arctan_lower [of "3 / 79"] by (simp add: power3_eq_cube)

lemma cos_toRad_nonneg: "\<bar>lat\<bar> \<le> 90 \<Longrightarrow> 0 \<le> cos (toRad lat)"
proof -
  assume l: "\<bar>lat\<bar> \<le> 90"
  have "\<bar>lat\<bar> * pi \<le> 90 * pi" using l by (intro mult_right_mono) auto
  then have "\<bar>toRad lat\<bar> \<le> pi / 2" by (simp add: toRad_def abs_mult)
  then show ?thesis by (intro cos_ge_zero) auto
qed

lemma toRad_abs: "toRad \<bar>x\<bar> = \<bar>toRad x\<bar>"
  by (simp add: toRad_def abs_mult)

lemma Haversine_lat:
  assumes "\<bar>lat1\<bar> \<le> 90" "\<bar>lat2\<bar> \<le> 90"
  shows "earthRadiusKm * toRad \<bar>lat1 - lat2\<bar> \<le> Haversine lat1 lng1 lat2 lng2"
proof -
  have "cos (toRad lat1) * cos (toRad lat2) * cos (toRad lng2 - toRad lng1)
        \<le> cos (toRad lat1) * cos (toRad lat2) * 1"
    using assms by (intro mult_left_mono) (auto intro!: mult_nonneg_nonneg cos_toRad_nonneg)
  then have "inner lat1 lng1 lat2 lng2 \<le> cos (toRad (lat1 - lat2))"
    by (simp add: inner_def toRad_diff cos_diff)
  also have "\<dots> = cos (toRad \<bar>lat1 - lat2\<bar>)" by (simp add: toRad_abs)
  finally have "arccos (cos (toRad \<bar>lat1 - lat2\<bar>)) \<le> arccos (inner lat1 lng1 lat2 lng2)"
    using inner_range [of lat1 lng1 lat2 lng2] by (intro arccos_le_arccos) auto
  moreover have "0 \<le> toRad \<bar>lat1 - lat2\<bar>" "toRad \<bar>lat1 - lat2\<bar> \<le> pi"
  proof -
    have "\<bar>lat1 - lat2\<bar> * pi \<le> 180 * pi" using assms by (intro mult_right_mono) auto
    then show "toRad \<bar>lat1 - lat2\<bar> \<le> pi" by (simp add: toRad_def)
  qed (simp add: toRad_def)
  ultimately show ?thesis by (simp add: Haversine_arccos arccos_cos earthRadiusKm_def)
qed

lemma scan_radius_ge:
  assumes "0 < maxKm"
  shows "maxKm / (111 * gridCellSizeDeg) + 1 \<le> of_int (scan_radius maxKm)"
proof -
  have "0 \<le> maxKm / (111 * gridCellSizeDeg)" using assms by (simp add: gridCellSizeDeg_def)
  then have "scan_radius maxKm = \<lceil>maxKm / (111 * gridCellSizeDeg)\<rceil> + 1"
    by (simp add: scan_radius_def Let_def)
  then show ?thesis by linarith
qed

lemma lat_window:
  assumes "\<bar>lat1\<bar> \<le> 90" "\<bar>lat2\<bar> \<le> 90" and d: "Haversine lat1 lng1 lat2 lng2 \<le> maxKm" "0 < maxKm"
  shows "\<bar>lat1 - lat2\<bar> \<le> of_int (scan_radius maxKm) * gridCellSizeDeg"
proof -
  let ?d = "\<bar>lat1 - lat2\<bar>"
  have "?d * 111 \<le> ?d * (6371 * pi / 180)"
    using pi_lower by (intro mult_left_mono) auto
  also have "\<dots> = earthRadiusKm * toRad ?d" by (simp add: earthRadiusKm_def toRad_def)
  also have "\<dots> \<le> maxKm" by (rule order_trans [OF Haversine_lat [OF assms(1,2)] d(1)])
  finally have "?d \<le> maxKm / 111" by simp
  moreover have "maxKm / 111 + gridCellSizeDeg \<le> of_int (scan_radius maxKm) * gridCellSizeDeg"
    using scan_radius_ge [OF d(2)] by (simp add: gridCellSizeDeg_def field_simps)
  ultimately show ?thesis by (simp add: gridCellSizeDeg_def)
qed


text \<open>What a snap must return: a routable node of the scanned window, within the limit and nearest.\<close>

definition snap_spec :: "graph \<Rightarrow> float64 \<Rightarrow> float64 \<Rightarrow> float64 \<Rightarrow> edge_pred \<Rightarrow> node option \<Rightarrow> bool" where
  "snap_spec g lat lng maxKm ok r =
     (let W = {n \<in> set (scanned g (cellFor lat lng) (scan_radius maxKm)). nodeRoutable g (n_ID n) ok};
          d = (\<lambda>n. Haversine lat lng (n_Lat n) (n_Lng n)) in
      case r of
        None \<Rightarrow> \<forall>n\<in>W. maxKm < d n
      | Some n \<Rightarrow> n \<in> W \<and> d n \<le> maxKm \<and> (\<forall>m\<in>W. d n \<le> d m))"

lemma Haversine_lt_max: "Haversine a b c d < maxFloat64"
  using Haversine_le sphere_lt_max by (rule le_less_trans)

lemma nearestNodeWithin_snap:
  assumes "0 < maxKm" and "grid g \<noteq> Map.empty"
  shows "snap_spec g lat lng maxKm ok (nearestNodeWithin order g lat lng maxKm ok)"
proof -
  let ?d = "\<lambda>n. Haversine lat lng (n_Lat n) (n_Lng n)"
  let ?xs = "filter (\<lambda>n. nodeRoutable g (n_ID n) ok) (scanned g (cellFor lat lng) (scan_radius maxKm))"
  have eq: "nearestNodeWithin order g lat lng maxKm ok =
      (case scan_min ?d (maxFloat64, None) ?xs of
         (m, None) \<Rightarrow> None | (m, Some n) \<Rightarrow> if m > maxKm then None else Some n)"
    using assms by (simp add: nearestNodeWithin_def)
  obtain m r where sm: "scan_min ?d (maxFloat64, None) ?xs = (m, r)" by fastforce
  show ?thesis
  proof (cases r)
    case None
    from scan_min_None [OF sm [unfolded None]] Haversine_lt_max have "?xs = []"
      by (metis hd_in_set linorder_not_less)
    then have "n \<in> set (scanned g (cellFor lat lng) (scan_radius maxKm)) \<Longrightarrow> \<not> nodeRoutable g (n_ID n) ok" for n
      by (simp add: filter_empty_conv)
    then have "{n \<in> set (scanned g (cellFor lat lng) (scan_radius maxKm)). nodeRoutable g (n_ID n) ok} = {}"
      by blast
    then show ?thesis unfolding snap_spec_def Let_def eq sm None by (simp only: prod.case option.case) simp
  next
    case (Some n)
    note s = scan_min_Some [OF sm [unfolded Some]]
    show ?thesis
    proof (cases "m > maxKm")
      case True
      with s(2,3) have "maxKm < ?d x" if "x \<in> set ?xs" for x
        using that by (meson less_le_trans)
      with True show ?thesis by (simp add: eq sm Some snap_spec_def Let_def)
    next
      case False
      with s show ?thesis by (simp add: eq sm Some snap_spec_def Let_def)
    qed
  qed
qed

text \<open>
  C33. Snapping: if some routable node lies within \<open>maxKm\<close> of the query and inside the
  scanned longitudes, a node is returned, it is routable, within \<open>maxKm\<close>, and nearest among
  the routable nodes of the window; the window always covers the latitudes.
\<close>

theorem NearestRoutableNodeWithin_nearest:
  assumes "0 < maxKm" "grid g \<noteq> Map.empty" "graph_ok g" "\<bar>lat\<bar> \<le> 90"
    and n: "Nodes g v = Some n" "\<bar>n_Lat n\<bar> \<le> 90" "nodeRoutable g v ok"
    and near: "Haversine lat lng (n_Lat n) (n_Lng n) \<le> maxKm"
      "\<bar>lng - n_Lng n\<bar> \<le> of_int (scan_radius maxKm) * gridCellSizeDeg"
  shows "\<exists>r. NearestRoutableNodeWithin order g lat lng maxKm ok = Some r
          \<and> snap_spec g lat lng maxKm ok (Some r)
          \<and> Haversine lat lng (n_Lat r) (n_Lng r) \<le> Haversine lat lng (n_Lat n) (n_Lng n)"
proof -
  obtain m where m: "m \<in> set (grid_at g (cellFor (n_Lat n) (n_Lng n)))"
    "n_ID m = v" "n_Lat m = n_Lat n" "n_Lng m = n_Lng n"
    using assms(3) n(1) by (auto simp: graph_ok_def grid_ok_def)
  have lat: "\<bar>n_Lat n - lat\<bar> \<le> of_int (scan_radius maxKm) * gridCellSizeDeg"
    using lat_window [OF assms(4) n(2) near(1) assms(1)] by (simp add: abs_minus_commute)
  have "m \<in> set (scanned g (cellFor lat lng) (scan_radius maxKm))"
    by (rule scanned_cell [OF m(1) cellFor_diff]) (use lat near(2) in \<open>simp_all add: abs_minus_commute\<close>)
  then have W: "m \<in> {n \<in> set (scanned g (cellFor lat lng) (scan_radius maxKm)). nodeRoutable g (n_ID n) ok}"
    using m(2) n(3) by simp
  note spec = nearestNodeWithin_snap [OF assms(1,2), of lat lng ok order]
  show ?thesis
  proof (cases "nearestNodeWithin order g lat lng maxKm ok")
    case None
    with spec W near(1) m have False by (auto simp: snap_spec_def Let_def)
    then show ?thesis ..
  next
    case (Some r)
    with spec have "snap_spec g lat lng maxKm ok (Some r)" by simp
    moreover from this W have "Haversine lat lng (n_Lat r) (n_Lng r) \<le> Haversine lat lng (n_Lat m) (n_Lng m)"
      by (auto simp: snap_spec_def Let_def)
    ultimately show ?thesis using Some m by (simp add: NearestRoutableNodeWithin_def)
  qed
qed

lemma arctan_le: "0 \<le> y \<Longrightarrow> arctan y \<le> y" for y :: real
proof -
  assume y: "0 \<le> y"
  let ?f = "\<lambda>x. x - arctan x :: real"
  have "?f 0 \<le> ?f y"
  proof (rule DERIV_nonneg_imp_nondecreasing [OF y])
    fix t :: real
    have "DERIV ?f t :> 1 - inverse (1 + t\<^sup>2)" by (auto intro!: derivative_eq_intros)
    moreover have "0 \<le> 1 - inverse (1 + t\<^sup>2)" by (simp add: inverse_le_1_iff)
    ultimately show "\<exists>y. DERIV ?f t :> y \<and> 0 \<le> y" by blast
  qed
  then show ?thesis by simp
qed

lemma Haversine_small:
  assumes h: "hav lat1 lng1 lat2 lng2 = r\<^sup>2" and r: "0 \<le> r" "r \<le> b" and c: "c\<^sup>2 \<le> 1 - b\<^sup>2" "0 < c"
  shows "Haversine lat1 lng1 lat2 lng2 \<le> earthRadiusKm * (2 * (b / c))"
proof -
  have "r\<^sup>2 \<le> b\<^sup>2" using r by (intro power_mono) auto
  with c have q: "c\<^sup>2 \<le> 1 - r\<^sup>2" by linarith
  then have s: "c \<le> sqrt (1 - r\<^sup>2)" using c(2) by (simp add: real_le_rsqrt)
  then have sp: "0 < sqrt (1 - r\<^sup>2)" using c(2) by linarith
  then have "math_Atan2 r (sqrt (1 - r\<^sup>2)) = arctan (r / sqrt (1 - r\<^sup>2))"
    by (simp only: math_Atan2_def if_P)
  also have "\<dots> \<le> r / sqrt (1 - r\<^sup>2)" using r sp by (intro arctan_le divide_nonneg_pos)
  also have "\<dots> \<le> b / c" using r s c(2) by (intro frac_le) auto
  finally show ?thesis using r by (simp add: Haversine_hav h earthRadiusKm_def)
qed

lemma Haversine_parallel_60:
  assumes d: "0 < d" "d \<le> 1"
  shows "Haversine 60 a 60 (a + d) \<le> 80 * d"
proof -
  let ?x = "toRad d"
  have x: "0 < ?x" "?x \<le> d / 45" using d pi_less_4 by (simp_all add: toRad_def)
  have c: "cos (toRad 60) = 1 / 2" using cos_60 by (simp add: toRad_def)
  have h: "hav 60 a 60 (a + d) = (sin (?x / 2) / 2)\<^sup>2"
  proof -
    have "hav 60 a 60 (a + d) = cos (toRad 60) * cos (toRad 60) * sin (?x / 2) * sin (?x / 2)"
      by (simp add: hav_def toRad_def)
    then show ?thesis unfolding c by (simp add: power2_eq_square)
  qed
  have "0 \<le> sin (?x / 2)" "sin (?x / 2) \<le> ?x / 2"
    using x d pi_ge_two sin_x_le_x [of "?x / 2"] by (auto intro!: sin_ge_zero)
  then have r: "0 \<le> sin (?x / 2) / 2" "sin (?x / 2) / 2 \<le> d / 180" using x by linarith+
  have "(d / 180)\<^sup>2 \<le> (1 / 180)\<^sup>2" using d by (intro power_mono) auto
  then have "0.99\<^sup>2 \<le> 1 - (d / 180)\<^sup>2" by (simp add: power2_eq_square)
  then have "Haversine 60 a 60 (a + d) \<le> earthRadiusKm * (2 * (d / 180 / 0.99))"
    by (rule Haversine_small [OF h r]) simp
  also have "\<dots> \<le> 80 * d" using d by (simp add: earthRadiusKm_def)
  finally show ?thesis .
qed

text \<open>A node on the 60th parallel, 26 cells east of the zero meridian.\<close>

definition far_cell_node :: node where
  "far_cell_node = \<lparr>n_ID = 1, n_Lat = 60, n_Lng = 52 / 100, n_Flags = 0\<rparr>"

text \<open>
  The longitude window of the snap does not widen with the latitude: on the 60th parallel
  a node less than 50 km away is not found with a limit of 50 km.
\<close>

theorem snap_misses_at_high_latitude:
  "Haversine 60 0 (n_Lat far_cell_node) (n_Lng far_cell_node) < 50
   \<and> NearestNodeWithin order (AddNode NewGraph far_cell_node) 60 0 50 = None"
proof
  show "Haversine 60 0 (n_Lat far_cell_node) (n_Lng far_cell_node) < 50"
    using Haversine_parallel_60 [of "52 / 100" 0] by (simp add: far_cell_node_def)
next
  let ?g = "AddNode NewGraph far_cell_node"
  have cells: "cellFor 60 0 = (3000, 0)" "cellFor 60 (52 / 100) = (3000, 26)" "scan_radius 50 = 24"
    by (simp_all add: cellFor_def gridCellSizeDeg_def scan_radius_def floor_eq_iff ceiling_eq_iff Let_def)
  have at: "grid_at ?g k = (if k = (3000, 26) then [far_cell_node] else [])" for k
    using cells(2) by (simp add: far_cell_node_def) (simp add: grid_at_def NewGraph_def)
  have "set (scanned ?g (3000, 0) 24) = {}"
    by (rule equals0I) (auto simp: set_scanned at simp del: AddNode_simps)
  then have empty: "scanned ?g (cellFor 60 0) (scan_radius 50) = []"
    by (simp only: set_empty cells)
  have ne: "grid ?g \<noteq> Map.empty"
    by (simp add: AddNode_def Let_def)
  show "NearestNodeWithin order ?g 60 0 50 = None"
    using nearestNodeWithin_snap [OF _ ne, of 50 60 0 None order]
    by (cases "nearestNodeWithin order ?g 60 0 50 None")
       (simp_all add: NearestNodeWithin_def snap_spec_def empty Let_def)
qed


theorem NearestRoutableNodeWithin_nearest_witness:
  "\<exists>r. NearestRoutableNodeWithin [] (AddNode NewGraph far_cell_node) 60 (51 / 100) 50 None = Some r"
proof -
  let ?g = "AddNode NewGraph far_cell_node"
  have ok: "graph_ok ?g"
    by (rule AddNode_keeps [OF graph_ok_NewGraph]) (simp add: isolated_def NewGraph_def)
  have h: "Haversine 60 (51 / 100) 60 (52 / 100) \<le> 50"
    using Haversine_parallel_60 [of "1 / 100" "51 / 100"] by simp
  have ne: "grid ?g \<noteq> Map.empty"
    by (simp add: AddNode_def Let_def)
  have r: "scan_radius 50 = 24"
    by (simp add: gridCellSizeDeg_def scan_radius_def ceiling_eq_iff Let_def)
  from NearestRoutableNodeWithin_nearest [OF _ ne ok, of 50 60 1 far_cell_node None "51 / 100" "[]"] h
  show ?thesis by (auto simp: r far_cell_node_def nodeRoutable_def gridCellSizeDeg_def)
qed

theorem built_graph_ok_witness: "graph_ok (AddEdge (AddNode NewGraph far_cell_node) 1 (synth_edge 1))"
  by (rule built_graph_ok) (intro built_edge built_node built_new, simp add: isolated_def NewGraph_def)

end
