(* ===== verification/LabelSearch.thy ===== *)
theory LabelSearch
  imports RoadGraph HeapQ
begin

text \<open>
  What the searches of \<open>internal/routing\<close> share.  The unidirectional search and both sides
  of the bidirectional one keep the same maps and the same lazily cleaned queue
  (\<open>search\<close>), and differ in the arcs they follow.  A direction (\<open>dir\<close>) gives the root, the
  arcs, their cost and the heuristic; the invariants are stated for an arbitrary
  direction, and the locale \<open>label_search\<close> derives from one law on the relaxation step that
  the loop body keeps them and that closed nodes carry their best score.
\<close>

record search =
  timeScore :: "node_id \<Rightarrow> float64 option"
  distScore :: "node_id \<Rightarrow> float64 option"
  cameFrom :: "node_id \<Rightarrow> node_id option"
  cameFromEdge :: "node_id \<Rightarrow> edge option"
  closedNodes :: "node_id set"
  pqueue :: priorityQueue

definition improves :: "(node_id \<Rightarrow> float64 option) \<Rightarrow> node_id \<Rightarrow> float64 \<Rightarrow> bool" where
  "improves score v t \<longleftrightarrow> (case score v of None \<Rightarrow> True | Some prev \<Rightarrow> t < prev)"

definition stale :: "(node_id \<Rightarrow> float64 option) \<Rightarrow> pqItem \<Rightarrow> bool" where
  "stale score item = (case score (pq_nodeID item) of None \<Rightarrow> False | Some best \<Rightarrow> pq_gCost item > best)"

record dir =
  d_root :: node_id
  d_arc :: "node_id \<Rightarrow> node_id \<Rightarrow> edge \<Rightarrow> bool"
  d_time :: "edge \<Rightarrow> float64"
  d_h :: "node_id \<Rightarrow> float64"

type_synonym hops = "(node_id \<times> edge) list"

fun awalk :: "dir \<Rightarrow> node_id \<Rightarrow> hops \<Rightarrow> node_id \<Rightarrow> bool" where
  "awalk D u [] v \<longleftrightarrow> u = v"
| "awalk D u ((x, e) # ps) v \<longleftrightarrow> d_arc D u x e \<and> awalk D x ps v"

definition hops_time :: "dir \<Rightarrow> hops \<Rightarrow> float64" where
  "hops_time D ps = sum_list (map (\<lambda>p. d_time D (snd p)) ps)"

definition hops_km :: "hops \<Rightarrow> float64" where
  "hops_km ps = sum_list (map (\<lambda>p. e_DistanceKm (snd p)) ps)"

definition hops_ids :: "node_id \<Rightarrow> hops \<Rightarrow> node_id list" where
  "hops_ids u ps = u # map fst ps"

lemma hops_simps [simp]:
  "hops_time D [] = 0" "hops_time D (p # ps) = d_time D (snd p) + hops_time D ps"
  "hops_time D (ps @ qs) = hops_time D ps + hops_time D qs"
  "hops_km [] = 0" "hops_km (p # ps) = e_DistanceKm (snd p) + hops_km ps"
  "hops_km (ps @ qs) = hops_km ps + hops_km qs"
  "hops_ids u [] = [u]" "hops_ids u (ps @ [p]) = hops_ids u ps @ [fst p]"
  "hops_ids u (p # ps) = u # hops_ids (fst p) ps"
  by (simp_all add: hops_time_def hops_km_def hops_ids_def)

lemma awalk_append: "awalk D u (ps @ qs) v \<longleftrightarrow> (\<exists>x. awalk D u ps x \<and> awalk D x qs v)"
  by (induction D u ps v rule: awalk.induct) auto

lemma awalk_snoc: "awalk D u (ps @ [(x, e)]) v \<longleftrightarrow> (\<exists>y. awalk D u ps y \<and> d_arc D y x e \<and> v = x)"
  by (auto simp: awalk_append)

section \<open>Following cameFrom\<close>

inductive traces :: "dir \<Rightarrow> search \<Rightarrow> node_id \<Rightarrow> hops \<Rightarrow> bool" for D st where
  traces_root: "cameFrom st (d_root D) = None \<Longrightarrow> traces D st (d_root D) []"
| traces_step: "traces D st u ps \<Longrightarrow> u \<in> closedNodes st \<Longrightarrow> cameFrom st x = Some u \<Longrightarrow>
     cameFromEdge st x = Some e \<Longrightarrow> d_arc D u x e \<Longrightarrow> traces D st x (ps @ [(x, e)])"

lemma traces_walk: "traces D st v ps \<Longrightarrow> awalk D (d_root D) ps v"
  by (induction rule: traces.induct) (auto simp: awalk_snoc)

lemma traces_last: "traces D st v ps \<Longrightarrow> last (hops_ids (d_root D) ps) = v"
  by (cases rule: traces.cases) auto

lemma traces_unique: "traces D st v ps \<Longrightarrow> traces D st v qs \<Longrightarrow> ps = qs"
proof (induction arbitrary: qs rule: traces.induct)
  case traces_root
  from traces_root(2,1) show ?case by (cases rule: traces.cases) auto
next
  case (traces_step u ps x e)
  from \<open>traces D st x qs\<close> show ?case
  proof (cases rule: traces.cases)
    case (traces_step u' ps' e')
    then show ?thesis using traces_step.IH \<open>cameFrom st x = Some u\<close> \<open>cameFromEdge st x = Some e\<close>
      by auto
  qed (use \<open>cameFrom st x = Some u\<close> in auto)
qed

text \<open>Every node on a trace has its own trace, a prefix of it.\<close>

lemma traces_prefix:
  "traces D st v ps \<Longrightarrow> x \<in> set (hops_ids (d_root D) ps) \<Longrightarrow>
   \<exists>qs rs. ps = qs @ rs \<and> traces D st x qs \<and> (x \<noteq> v \<longrightarrow> rs \<noteq> [] \<and> x \<in> closedNodes st)"
proof (induction rule: traces.induct)
  case traces_root
  then show ?case by (auto intro: traces.traces_root)
next
  case (traces_step u ps y e)
  show ?case
  proof (cases "x = y")
    case True
    with traces_step.hyps show ?thesis
      by (intro exI [of _ "ps @ [(y, e)]"] exI [of _ "[]"]) (auto intro: traces.traces_step)
  next
    case False
    with traces_step.prems have "x \<in> set (hops_ids (d_root D) ps)" by simp
    from traces_step.IH [OF this] obtain qs rs where "ps = qs @ rs" "traces D st x qs"
      "x \<noteq> u \<longrightarrow> x \<in> closedNodes st" by auto
    with traces_step.hyps(2) show ?thesis
      by (intro exI [of _ qs] exI [of _ "rs @ [(y, e)]"]) auto
  qed
qed

lemma traces_distinct: "traces D st v ps \<Longrightarrow> distinct (hops_ids (d_root D) ps)"
proof (induction rule: traces.induct)
  case (traces_step u ps x e)
  have "x \<notin> set (hops_ids (d_root D) ps)"
  proof
    assume "x \<in> set (hops_ids (d_root D) ps)"
    from traces_prefix [OF traces_step.hyps(1) this]
    obtain qs rs where qs: "traces D st x qs" "ps = qs @ rs" by auto
    have "traces D st x (ps @ [(x, e)])" using traces_step by (intro traces.traces_step)
    from traces_unique [OF qs(1) this] qs(2) show False by simp
  qed
  with traces_step show ?case by simp
qed simp

lemma traces_cong:
  assumes "traces D st v ps" and "closedNodes st \<subseteq> closedNodes st'"
    and same: "\<And>x. x \<in> insert v (closedNodes st) \<Longrightarrow> cameFrom st' x = cameFrom st x \<and> cameFromEdge st' x = cameFromEdge st x"
  shows "traces D st' v ps"
  using assms(1) same
proof (induction rule: traces.induct)
  case traces_root
  then show ?case by (auto intro: traces.traces_root)
next
  case (traces_step u ps x e)
  have "traces D st' u ps" using traces_step.hyps(2) traces_step.prems by (intro traces_step.IH) auto
  then show ?case
    using traces_step.hyps traces_step.prems assms(2) by (auto intro: traces.traces_step)
qed

section \<open>The invariant of one side\<close>

definition tree_inv :: "dir \<Rightarrow> search \<Rightarrow> bool" where
  "tree_inv D st \<longleftrightarrow>
     (\<forall>v t. timeScore st v = Some t \<longrightarrow>
        (\<exists>ps. traces D st v ps \<and> t = hops_time D ps \<and> distScore st v = Some (hops_km ps)))
     \<and> timeScore st (d_root D) \<noteq> None
     \<and> (d_root D \<in> closedNodes st
         \<or> closedNodes st = {} \<and> (\<forall>v. timeScore st v \<noteq> None \<longrightarrow> v = d_root D))
     \<and> (\<forall>c\<in>closedNodes st. timeScore st c \<noteq> None)"

definition queue_inv :: "dir \<Rightarrow> search \<Rightarrow> bool" where
  "queue_inv D st \<longleftrightarrow> pq_ok (pqueue st)
     \<and> (\<forall>i\<in>set (pqueue st). \<exists>t. timeScore st (pq_nodeID i) = Some t \<and> t \<le> pq_gCost i
            \<and> pq_fCost i = pq_gCost i + d_h D (pq_nodeID i))
     \<and> (\<forall>i\<in>set (pqueue st). \<exists>ps. awalk D (d_root D) ps (pq_nodeID i)
            \<and> distinct (hops_ids (d_root D) ps) \<and> pq_gCost i = hops_time D ps)
     \<and> (\<forall>v t. timeScore st v = Some t \<longrightarrow> v \<in> closedNodes st \<or>
            (\<exists>i\<in>set (pqueue st). pq_nodeID i = v \<and> pq_gCost i = t))"

definition settled :: "dir \<Rightarrow> search \<Rightarrow> node_id \<Rightarrow> node_id \<Rightarrow> edge \<Rightarrow> bool" where
  "settled D st c x e \<longleftrightarrow> x \<in> closedNodes st \<or>
     (\<exists>t. timeScore st x = Some t \<and> t \<le> getz (timeScore st) c + d_time D e)"

definition frontier_inv :: "dir \<Rightarrow> search \<Rightarrow> bool" where
  "frontier_inv D st \<longleftrightarrow> (\<forall>c\<in>closedNodes st. \<forall>x e. d_arc D c x e \<longrightarrow> settled D st c x e)"

definition search_inv :: "dir \<Rightarrow> search \<Rightarrow> bool" where
  "search_inv D st \<longleftrightarrow> tree_inv D st \<and> queue_inv D st \<and> frontier_inv D st"

lemma tree_invE:
  assumes "tree_inv D st" "timeScore st v \<noteq> None"
  obtains ps where "traces D st v ps" "timeScore st v = Some (hops_time D ps)"
    "distScore st v = Some (hops_km ps)"
  using assms unfolding tree_inv_def by blast

text \<open>The update every relaxation makes when it finds a better score.\<close>

definition improved :: "dir \<Rightarrow> node_id \<Rightarrow> search \<Rightarrow> node_id \<Rightarrow> edge \<Rightarrow> search" where
  "improved D u st x e =
     st\<lparr>timeScore := (timeScore st)(x \<mapsto> getz (timeScore st) u + d_time D e),
        distScore := (distScore st)(x \<mapsto> getz (distScore st) u + e_DistanceKm e),
        cameFrom := (cameFrom st)(x \<mapsto> u),
        cameFromEdge := (cameFromEdge st)(x \<mapsto> e),
        pqueue := pq_Push (pqueue st)
          \<lparr>pq_nodeID = x, pq_gCost = getz (timeScore st) u + d_time D e,
           pq_fCost = getz (timeScore st) u + d_time D e + d_h D x\<rparr>\<rparr>"

lemma improved_simps [simp]:
  "timeScore (improved D u st x e) = (timeScore st)(x \<mapsto> getz (timeScore st) u + d_time D e)"
  "distScore (improved D u st x e) = (distScore st)(x \<mapsto> getz (distScore st) u + e_DistanceKm e)"
  "closedNodes (improved D u st x e) = closedNodes st"
  by (simp_all add: improved_def)

lemma improved_traces:
  assumes "traces D st v ps" "v \<noteq> x" "x \<notin> closedNodes st"
  shows "traces D (improved D u st x e) v ps"
  using assms by (intro traces_cong [OF assms(1)]) (auto simp: improved_def)

lemma improved_tree:
  assumes inv: "tree_inv D st" and u: "u \<in> closedNodes st" and e: "d_arc D u x e" "x \<notin> closedNodes st"
  shows "tree_inv D (improved D u st x e)"
proof -
  let ?st = "improved D u st x e"
  have "timeScore st u \<noteq> None" using inv u by (auto simp: tree_inv_def)
  then obtain ps where c: "traces D st u ps" "timeScore st u = Some (hops_time D ps)"
    "distScore st u = Some (hops_km ps)" by (rule tree_invE [OF inv])
  have root: "d_root D \<in> closedNodes st" using inv u by (auto simp: tree_inv_def)
  have new: "traces D ?st x (ps @ [(x, e)])"
  proof (rule traces_step)
    show "traces D ?st u ps" using c u e by (intro improved_traces) auto
  qed (use u e in \<open>auto simp: improved_def\<close>)
  have "\<exists>ps. traces D ?st v ps \<and> t = hops_time D ps \<and> distScore ?st v = Some (hops_km ps)"
    if v: "timeScore ?st v = Some t" for v t
  proof (cases "v = x")
    case True
    with v c new show ?thesis by (intro exI [of _ "ps @ [(x, e)]"]) auto
  next
    case False
    with v have "timeScore st v = Some t" by simp
    with inv obtain qs where "traces D st v qs" "t = hops_time D qs" "distScore st v = Some (hops_km qs)"
      unfolding tree_inv_def by blast
    moreover from this have "traces D ?st v qs" using False e by (intro improved_traces) auto
    ultimately show ?thesis using False by (intro exI [of _ qs]) simp
  qed
  with inv root show ?thesis by (auto simp: tree_inv_def)
qed

lemma improved_queue:
  assumes inv: "queue_inv D st" and tree: "tree_inv D st" and u: "u \<in> closedNodes st"
    and e: "d_arc D u x e" "x \<notin> closedNodes st"
    and better: "improves (timeScore st) x (getz (timeScore st) u + d_time D e)"
  shows "queue_inv D (improved D u st x e)"
proof -
  have "timeScore st u \<noteq> None" using tree u by (auto simp: tree_inv_def)
  then obtain ps where ps: "traces D st u ps" "timeScore st u = Some (hops_time D ps)"
    by (rule tree_invE [OF tree])
  have "x \<notin> set (hops_ids (d_root D) ps)"
    using traces_prefix [OF ps(1)] u e(2) by blast
  then have "\<exists>qs. awalk D (d_root D) qs x \<and> distinct (hops_ids (d_root D) qs)
      \<and> getz (timeScore st) u + d_time D e = hops_time D qs"
    using ps traces_walk [OF ps(1)] traces_distinct [OF ps(1)] e(1)
    by (intro exI [of _ "ps @ [(x, e)]"]) (auto simp: awalk_snoc)
  moreover have "pq_ok (pqueue st)" using inv by (simp add: queue_inv_def)
  moreover have "\<exists>t. timeScore (improved D u st x e) (pq_nodeID i) = Some t \<and> t \<le> pq_gCost i"
    if "i \<in> set (pqueue st)" for i
    using inv that better by (auto simp: queue_inv_def improves_def split: option.splits; fastforce)
  ultimately show ?thesis
    using inv by (simp add: queue_inv_def improved_def pq.ok_push) fastforce
qed

lemma improved_settled:
  assumes "settled D st c y d" and "c \<in> closedNodes st" and "x \<notin> closedNodes st"
    and "improves (timeScore st) x (getz (timeScore st) u + d_time D e)"
  shows "settled D (improved D u st x e) c y d"
  using assms by (auto simp: settled_def improves_def split: option.splits)

lemma pop_tree: "tree_inv D st \<Longrightarrow> tree_inv D (st\<lparr>pqueue := q\<rparr>)"
proof -
  have "traces D (st\<lparr>pqueue := q\<rparr>) v ps" if "traces D st v ps" for v ps
    using that by (rule traces_cong) auto
  then show "tree_inv D st \<Longrightarrow> tree_inv D (st\<lparr>pqueue := q\<rparr>)"
    unfolding tree_inv_def by simp blast
qed

lemma close_tree:
  assumes inv: "tree_inv D st" and t: "timeScore st u \<noteq> None" and s: "u = d_root D \<or> d_root D \<in> closedNodes st"
  shows "tree_inv D (st\<lparr>closedNodes := insert u (closedNodes st)\<rparr>)"
proof -
  have "traces D (st\<lparr>closedNodes := insert u (closedNodes st)\<rparr>) v ps" if "traces D st v ps" for v ps
    using that by (rule traces_cong) auto
  with assms show ?thesis unfolding tree_inv_def by simp blast
qed

lemma pop_skip:
  assumes inv: "search_inv D st" and p: "pq_Pop (pqueue st) = (item, rest)" "pqueue st \<noteq> []"
    and skip: "pq_nodeID item \<in> closedNodes st \<or> stale (timeScore st) item"
  shows "search_inv D (st\<lparr>pqueue := rest\<rparr>)"
proof -
  have q: "queue_inv D st" using inv by (simp add: search_inv_def)
  then have "pq_ok (pqueue st)" by (simp add: queue_inv_def)
  note pop = pq_popE [OF this p(2,1)]
  have "queue_inv D (st\<lparr>pqueue := rest\<rparr>)"
    using q pop(1,2) skip by (auto simp: queue_inv_def stale_def split: option.splits; fastforce)
  with inv pop_tree show ?thesis
    by (auto simp: search_inv_def frontier_inv_def settled_def)
qed

section \<open>Closed nodes have their best score\<close>

definition consistent :: "dir \<Rightarrow> node_id set \<Rightarrow> bool" where
  "consistent D V \<longleftrightarrow> (\<forall>u x e. d_arc D u x e \<and> u \<in> V \<longrightarrow> d_h D u \<le> d_time D e + d_h D x)"

definition best_closed :: "dir \<Rightarrow> search \<Rightarrow> bool" where
  "best_closed D st \<longleftrightarrow>
     (\<forall>c\<in>closedNodes st. \<forall>ps. awalk D (d_root D) ps c \<longrightarrow> getz (timeScore st) c \<le> hops_time D ps)"

text \<open>Every walk from the root leaves the closed nodes through an open one.\<close>

lemma exit_closed:
  assumes "awalk D u ps v" "u \<in> C" "v \<notin> C"
  shows "\<exists>ps1 c x e ps2. ps = ps1 @ (x, e) # ps2 \<and> awalk D u ps1 c \<and> c \<in> C
           \<and> d_arc D c x e \<and> x \<notin> C \<and> awalk D x ps2 v"
  using assms
proof (induction D u ps v rule: awalk.induct)
  case (2 D u x e ps v)
  show ?case
  proof (cases "x \<in> C")
    case False
    with 2 show ?thesis by (intro exI [of _ "[]"]) auto
  next
    case True
    with 2 obtain ps1 c y f ps2 where "ps = ps1 @ (y, f) # ps2" "awalk D x ps1 c" "c \<in> C"
      "d_arc D c y f" "y \<notin> C" "awalk D y ps2 v" by auto
    with 2 show ?thesis by (intro exI [of _ "(x, e) # ps1"]) auto
  qed
qed simp

lemma open_on_walk:
  assumes inv: "search_inv D st" and w: "awalk D (d_root D) ps v" and v: "v \<notin> closedNodes st"
  shows "\<exists>y t ps1 ps2. timeScore st y = Some t \<and> y \<notin> closedNodes st \<and> ps = ps1 @ ps2
           \<and> awalk D (d_root D) ps1 y \<and> awalk D y ps2 v
           \<and> (best_closed D st \<longrightarrow> t \<le> hops_time D ps1)"
proof (cases "d_root D \<in> closedNodes st")
  case False
  have tree: "tree_inv D st" using inv by (simp add: search_inv_def)
  then have "timeScore st (d_root D) \<noteq> None" by (simp add: tree_inv_def)
  then obtain qs where t: "traces D st (d_root D) qs" "timeScore st (d_root D) = Some (hops_time D qs)"
    by (rule tree_invE [OF tree])
  have "qs = []"
    using t(1) False tree by (cases rule: traces.cases) (auto simp: tree_inv_def)
  with t w False show ?thesis
    by (intro exI [of _ "d_root D"] exI [of _ "0::real"] exI [of _ "[]"] exI [of _ ps]) auto
next
  case True
  from exit_closed [OF w True v] obtain ps1 c x e ps2 where s: "ps = ps1 @ (x, e) # ps2"
    "awalk D (d_root D) ps1 c" "c \<in> closedNodes st" "d_arc D c x e" "x \<notin> closedNodes st"
    "awalk D x ps2 v" by blast
  from inv s have "settled D st c x e" by (auto simp: search_inv_def frontier_inv_def)
  with s obtain t where t: "timeScore st x = Some t" "t \<le> getz (timeScore st) c + d_time D e"
    by (auto simp: settled_def)
  have "t \<le> hops_time D (ps1 @ [(x, e)])" if "best_closed D st"
  proof -
    from that s have "getz (timeScore st) c \<le> hops_time D ps1" by (auto simp: best_closed_def)
    with t show ?thesis by simp
  qed
  with t s show ?thesis
    by (intro exI [of _ x] exI [of _ t] exI [of _ "ps1 @ [(x, e)]"] exI [of _ ps2]) (auto simp: awalk_snoc)
qed

section \<open>The relaxation interface\<close>

text \<open>
  A provider of relaxation steps: \<open>adj u\<close> lists the work items of a node (its edges, or
  its predecessors), an item covers some of the arcs that leave the node, and a step either
  changes nothing, and then every covered arc is settled, or makes the update for a
  cheapest covered arc.
\<close>

locale label_search =
  fixes D :: dir and V :: "node_id set"
    and adj :: "node_id \<Rightarrow> 'a list" and covers :: "'a \<Rightarrow> node_id \<Rightarrow> edge \<Rightarrow> bool"
    and step :: "node_id \<Rightarrow> search \<Rightarrow> 'a \<Rightarrow> search"
  assumes arc_V: "d_arc D u x e \<Longrightarrow> x \<in> V"
    and adj_complete: "d_arc D u x e \<Longrightarrow> \<exists>a\<in>set (adj u). covers a x e"
    and step_cases: "a \<in> set (adj u) \<Longrightarrow>
      step u st a = st \<and> (\<forall>x e. d_arc D u x e \<and> covers a x e \<longrightarrow> settled D st u x e)
      \<or> (\<exists>x e. d_arc D u x e \<and> x \<notin> closedNodes st
           \<and> improves (timeScore st) x (getz (timeScore st) u + d_time D e)
           \<and> step u st a = improved D u st x e
           \<and> (\<forall>x' e'. d_arc D u x' e' \<and> covers a x' e' \<longrightarrow> x' = x \<and> d_time D e \<le> d_time D e'))"
begin

lemma awalk_V: "awalk D u ps v \<Longrightarrow> u \<in> V \<Longrightarrow> v \<in> V"
proof (induction ps arbitrary: u)
  case (Cons p ps)
  then show ?case using arc_V by (cases p) auto
qed simp

lemma awalk_consistent:
  "consistent D V \<Longrightarrow> awalk D u ps v \<Longrightarrow> u \<in> V \<Longrightarrow> d_h D u \<le> hops_time D ps + d_h D v"
proof (induction ps arbitrary: u)
  case (Cons p ps)
  obtain x e where p: "p = (x, e)" by fastforce
  with Cons.prems have a: "d_arc D u x e" "awalk D x ps v" by auto
  with Cons.IH [of x] Cons.prems arc_V have "d_h D x \<le> hops_time D ps + d_h D v" by blast
  moreover have "d_h D u \<le> d_time D e + d_h D x" using a Cons.prems by (auto simp: consistent_def)
  ultimately show ?case by (simp add: p)
qed simp

text \<open>Relaxing the remaining items of a closed node settles its arcs.\<close>

definition expand_inv :: "node_id \<Rightarrow> 'a list \<Rightarrow> search \<Rightarrow> bool" where
  "expand_inv u todo st \<longleftrightarrow> tree_inv D st \<and> queue_inv D st \<and> u \<in> closedNodes st
     \<and> (\<forall>c\<in>closedNodes st. \<forall>x e. d_arc D c x e \<longrightarrow>
          settled D st c x e \<or> c = u \<and> (\<exists>a\<in>set todo. covers a x e))"

lemma step_expand_inv:
  assumes inv: "expand_inv u (a # todo) st" and a: "a \<in> set (adj u)"
  shows "expand_inv u todo (step u st a) \<and> closedNodes (step u st a) = closedNodes st
       \<and> (\<forall>c\<in>closedNodes st. timeScore (step u st a) c = timeScore st c)"
  using step_cases [OF a, of st]
proof (elim disjE exE conjE)
  assume same: "step u st a = st" and cov: "\<forall>x e. d_arc D u x e \<and> covers a x e \<longrightarrow> settled D st u x e"
  have "expand_inv u todo st" using inv cov unfolding expand_inv_def by simp blast
  then show ?thesis by (simp add: same)
next
  fix x e
  assume arc: "d_arc D u x e" and x: "x \<notin> closedNodes st"
    and better: "improves (timeScore st) x (getz (timeScore st) u + d_time D e)"
    and st: "step u st a = improved D u st x e"
    and cov: "\<forall>x' e'. d_arc D u x' e' \<and> covers a x' e' \<longrightarrow> x' = x \<and> d_time D e \<le> d_time D e'"
  let ?st = "improved D u st x e"
  have u: "u \<in> closedNodes st" using inv by (simp add: expand_inv_def)
  have "settled D ?st u x' e'" if "d_arc D u x' e'" "covers a x' e'" for x' e'
    using that cov u x by (auto simp: settled_def)
  moreover have "settled D ?st c y d" if "settled D st c y d" "c \<in> closedNodes st" for c y d
    by (rule improved_settled [OF that x better])
  ultimately have "expand_inv u todo ?st"
    using inv u improved_tree [OF _ u arc x] improved_queue [OF _ _ u arc x better]
    unfolding expand_inv_def improved_simps by (metis set_ConsD)
  moreover have "timeScore ?st c = timeScore st c" if "c \<in> closedNodes st" for c
    using that x by auto
  ultimately show ?thesis by (simp add: st)
qed

lemma foldl_step_inv:
  "expand_inv u todo st \<Longrightarrow> set todo \<subseteq> set (adj u) \<Longrightarrow>
   expand_inv u [] (foldl (step u) st todo) \<and> closedNodes (foldl (step u) st todo) = closedNodes st
   \<and> (\<forall>c\<in>closedNodes st. timeScore (foldl (step u) st todo) c = timeScore st c)"
proof (induction todo arbitrary: st)
  case (Cons a todo)
  from step_expand_inv [OF Cons.prems(1)] Cons.prems(2)
  have "expand_inv u todo (step u st a)" "closedNodes (step u st a) = closedNodes st"
    "\<forall>c\<in>closedNodes st. timeScore (step u st a) c = timeScore st c" by auto
  with Cons.IH [of "step u st a"] Cons.prems(2) show ?case by simp
qed simp

definition expand_node :: "node_id \<Rightarrow> search \<Rightarrow> search" where
  "expand_node u st = foldl (step u) (st\<lparr>closedNodes := insert u (closedNodes st)\<rparr>) (adj u)"

lemma expand_search_inv:
  assumes inv: "search_inv D st" and p: "pq_Pop (pqueue st) = (item, rest)" "pqueue st \<noteq> []"
    and fresh: "pq_nodeID item \<notin> closedNodes st" "\<not> stale (timeScore st) item"
  shows "search_inv D (expand_node (pq_nodeID item) (st\<lparr>pqueue := rest\<rparr>))"
    and "closedNodes (expand_node (pq_nodeID item) (st\<lparr>pqueue := rest\<rparr>)) = insert (pq_nodeID item) (closedNodes st)"
    and "\<forall>c\<in>insert (pq_nodeID item) (closedNodes st).
           timeScore (expand_node (pq_nodeID item) (st\<lparr>pqueue := rest\<rparr>)) c = timeScore st c"
proof -
  let ?cur = "pq_nodeID item"
  let ?st = "st\<lparr>pqueue := rest, closedNodes := insert ?cur (closedNodes st)\<rparr>"
  have q: "queue_inv D st" and t: "tree_inv D st" using inv by (simp_all add: search_inv_def)
  from q have "pq_ok (pqueue st)" by (simp add: queue_inv_def)
  note pop = pq_popE [OF this p(2,1)]
  have dom: "timeScore st ?cur \<noteq> None" using q pop(4) by (auto simp: queue_inv_def)
  have tree: "tree_inv D ?st"
    using close_tree [OF pop_tree [OF t, of rest], of ?cur] dom t by (auto simp: tree_inv_def)
  have queue: "queue_inv D ?st"
    using q pop(1,2) by (auto simp: queue_inv_def; fastforce)
  have "settled D ?st c x e \<or> c = ?cur \<and> (\<exists>a\<in>set (adj ?cur). covers a x e)"
    if "c \<in> insert ?cur (closedNodes st)" "d_arc D c x e" for c x e
    using that adj_complete inv by (cases "c = ?cur") (auto simp: search_inv_def frontier_inv_def settled_def)
  with tree queue have "expand_inv ?cur (adj ?cur) ?st" by (simp add: expand_inv_def)
  from foldl_step_inv [OF this]
  show "search_inv D (expand_node ?cur (st\<lparr>pqueue := rest\<rparr>))"
    "closedNodes (expand_node ?cur (st\<lparr>pqueue := rest\<rparr>)) = insert ?cur (closedNodes st)"
    "\<forall>c\<in>insert ?cur (closedNodes st). timeScore (expand_node ?cur (st\<lparr>pqueue := rest\<rparr>)) c = timeScore st c"
    by (auto simp: expand_node_def search_inv_def expand_inv_def frontier_inv_def)
qed

lemma pop_best:
  assumes inv: "search_inv D st" "best_closed D st" and con: "consistent D V"
    and p: "pq_Pop (pqueue st) = (item, rest)" "pqueue st \<noteq> []"
    and fresh: "pq_nodeID item \<notin> closedNodes st" "\<not> stale (timeScore st) item"
    and w: "awalk D (d_root D) ps (pq_nodeID item)" and root: "d_root D \<in> V"
  shows "getz (timeScore st) (pq_nodeID item) \<le> hops_time D ps"
proof -
  let ?cur = "pq_nodeID item"
  have q: "queue_inv D st" using inv by (simp add: search_inv_def)
  then have "pq_ok (pqueue st)" by (simp add: queue_inv_def)
  note pop = pq_popE [OF this p(2,1)]
  from q pop(4) obtain tc where tc: "timeScore st ?cur = Some tc" "tc \<le> pq_gCost item"
    "pq_fCost item = pq_gCost item + d_h D ?cur" by (auto simp: queue_inv_def)
  with fresh(2) have g: "pq_gCost item = tc" by (auto simp: stale_def)
  from open_on_walk [OF inv(1) w fresh(1)] inv(2)
  obtain y t ps1 ps2 where y: "timeScore st y = Some t" "y \<notin> closedNodes st" "ps = ps1 @ ps2"
    "awalk D (d_root D) ps1 y" "awalk D y ps2 ?cur" "t \<le> hops_time D ps1" by blast
  from y q obtain i where i: "i \<in> set (pqueue st)" "pq_nodeID i = y" "pq_gCost i = t"
    unfolding queue_inv_def by blast
  with q have fi: "pq_fCost i = t + d_h D y" by (auto simp: queue_inv_def)
  from awalk_consistent [OF con y(5) awalk_V [OF y(4) root]]
  have "d_h D y \<le> hops_time D ps2 + d_h D ?cur" .
  with pop(5) [OF i(1)] y(3,6) tc g fi show ?thesis by simp
qed

lemma expand_best:
  assumes "search_inv D st" "best_closed D st" "consistent D V"
    and "pq_Pop (pqueue st) = (item, rest)" "pqueue st \<noteq> []"
    and "pq_nodeID item \<notin> closedNodes st" "\<not> stale (timeScore st) item" and "d_root D \<in> V"
  shows "best_closed D (expand_node (pq_nodeID item) (st\<lparr>pqueue := rest\<rparr>))"
  using expand_search_inv [OF assms(1,4,5,6,7)] pop_best [OF assms(1-7) _ assms(8)] assms(2)
  by (auto simp: best_closed_def getz_def)

lemma tree_V: "tree_inv D st \<Longrightarrow> timeScore st v \<noteq> None \<Longrightarrow> d_root D \<in> V \<Longrightarrow> v \<in> V"
  by (metis tree_invE traces_walk awalk_V)

lemma expand_closes:
  assumes inv: "search_inv D st" and p: "pq_Pop (pqueue st) = (item, rest)" "pqueue st \<noteq> []"
    and fresh: "pq_nodeID item \<notin> closedNodes st" "\<not> stale (timeScore st) item"
    and V: "finite V" "d_root D \<in> V"
  shows "card (V - closedNodes (expand_node (pq_nodeID item) (st\<lparr>pqueue := rest\<rparr>))) < card (V - closedNodes st)"
proof -
  have q: "queue_inv D st" and t: "tree_inv D st" using inv by (simp_all add: search_inv_def)
  from q have "pq_ok (pqueue st)" by (simp add: queue_inv_def)
  from pq_popE(4) [OF this p(2,1)] q have "timeScore st (pq_nodeID item) \<noteq> None" by (auto simp: queue_inv_def)
  from tree_V [OF t this V(2)] have "pq_nodeID item \<in> V" .
  then have "V - insert (pq_nodeID item) (closedNodes st) \<subset> V - closedNodes st" using fresh by auto
  then show ?thesis
    unfolding expand_search_inv(2) [OF inv p fresh] using V by (intro psubset_card_mono) auto
qed

lemma exhausted:
  assumes "search_inv D st" "pqueue st = []" "awalk D (d_root D) ps v"
  shows "v \<in> closedNodes st"
proof (rule ccontr)
  assume "v \<notin> closedNodes st"
  from open_on_walk [OF assms(1,3) this] obtain y t where "timeScore st y = Some t" "y \<notin> closedNodes st" by blast
  with assms(1,2) show False by (auto simp: search_inv_def queue_inv_def)
qed

end

end
