(* ===== verification/AStar.thy ===== *)
theory AStar
  imports LabelSearch
begin

text \<open>
  \<open>internal/routing/astar.go\<close>: the unidirectional search.  The arguments of a search are
  one record.  A context is a function from the number of loop iterations at which it is
  polled (0 on entry, then every 4096th iteration) to the error it reports there, if any.
  The main loop and the walk along \<open>cameFrom\<close> are partial functions into \<open>option\<close>: the
  value \<open>None\<close> stands for not returning, and for a path through a nil node.  The theorems
  show that neither happens, that the result is a path of the graph with the sums the code
  reports, and that it is a fastest one when the heuristic is consistent.
\<close>

datatype ctx_error = Canceled | DeadlineExceeded

datatype route_error = ErrNoPath | ErrStartNotInGraph | ErrGoalNotInGraph | ErrCtx ctx_error

type_synonym ctx = "nat \<Rightarrow> ctx_error option"

record PathResult =
  pr_Nodes :: "node list"
  pr_Edges :: "edge list"
  pr_DistanceKm :: float64
  pr_TimeHours :: float64

record query =
  q_graph :: graph
  q_start :: node_id
  q_goal :: node_id
  q_edgeOK :: edge_pred
  q_speedFn :: "(edge \<Rightarrow> float64) option"
  q_heuristicSpeed :: float64
  q_blockedEdges :: "EdgeKey set"
  q_blockedNodes :: "node_id set"

section \<open>Costs and the heuristic\<close>

definition flatDistKm :: "float64 \<Rightarrow> float64 \<Rightarrow> float64 \<Rightarrow> float64 \<Rightarrow> float64 \<Rightarrow> float64" where
  "flatDistKm lat1 lng1 lat2 lng2 cosLat2 =
     (let kmPerDeg = 111.195;
          dlat = (lat2 - lat1) * kmPerDeg;
          dlng = (lng2 - lng1) * kmPerDeg * cosLat2
      in sqrt (dlat * dlat + dlng * dlng))"

definition heuristicHours ::
  "node \<Rightarrow> float64 \<Rightarrow> float64 \<Rightarrow> float64 \<Rightarrow> float64 \<Rightarrow> bool \<Rightarrow> float64" where
  "heuristicHours n goalLat goalLng goalCosLat heuristicSpeedKmH enabled =
     (if \<not> enabled then 0
      else flatDistKm (n_Lat n) (n_Lng n) goalLat goalLng goalCosLat / heuristicSpeedKmH)"

definition edgeTravelTimeHours :: "edge \<Rightarrow> (edge \<Rightarrow> float64) option \<Rightarrow> float64" where
  "edgeTravelTimeHours e speedFn =
     (if speedFn = None \<and> e_TimeHours e > 0 then e_TimeHours e
      else let speed = (case speedFn of None \<Rightarrow> e_SpeedKmH e | Some f \<Rightarrow> f e);
               speed = (if speed \<le> 0 then 40 else speed)
           in e_DistanceKm e / speed)"

text \<open>The heuristic towards a target node, as the code computes it once the target is known.\<close>

definition heuristic_to :: "float64 \<Rightarrow> node \<Rightarrow> node \<Rightarrow> float64" where
  "heuristic_to hspeed target n =
     (let useHeuristic = hspeed > 0;
          cosLat = (if useHeuristic then cos (n_Lat target * (pi / 180)) else 0)
      in heuristicHours n (n_Lat target) (n_Lng target) cosLat hspeed useHeuristic)"

section \<open>buildPath\<close>

definition zero_edge :: edge where
  "zero_edge = synth_edge 0"

partial_function (option) trace_back ::
  "(node_id \<Rightarrow> node_id option) \<Rightarrow> (node_id \<Rightarrow> edge option) \<Rightarrow> node_id \<Rightarrow> node_id list \<Rightarrow> edge list
   \<Rightarrow> (node_id list \<times> edge list) option" where
  "trace_back came cameEdge cur ids reverseEdges =
     (case came cur of
        None \<Rightarrow> Some (ids, reverseEdges)
      | Some prev \<Rightarrow>
          trace_back came cameEdge prev (ids @ [prev])
            (reverseEdges @ [case cameEdge cur of None \<Rightarrow> zero_edge | Some e \<Rightarrow> e]))"

definition buildPath ::
  "graph \<Rightarrow> (node_id \<Rightarrow> node_id option) \<Rightarrow> (node_id \<Rightarrow> edge option) \<Rightarrow> node_id \<Rightarrow> float64 \<Rightarrow> float64
   \<Rightarrow> PathResult option" where
  "buildPath g came cameEdge goalID distKm hours =
     (case trace_back came cameEdge goalID [goalID] [] of
        None \<Rightarrow> None
      | Some (ids, reverseEdges) \<Rightarrow>
          map_option (\<lambda>nodes. \<lparr>pr_Nodes = nodes, pr_Edges = rev reverseEdges,
                               pr_DistanceKm = distKm, pr_TimeHours = hours\<rparr>)
            (those (map (Nodes g) (rev ids))))"

section \<open>The search\<close>

definition relax :: "query \<Rightarrow> node \<Rightarrow> node_id \<Rightarrow> search \<Rightarrow> edge \<Rightarrow> search" where
  "relax Q goalNode cur st e =
     (if e_To e \<in> closedNodes st then st
      else if e_To e \<in> q_blockedNodes Q then st
      else if (cur, e_To e) \<in> q_blockedEdges Q then st
      else if \<not> passes (q_edgeOK Q) e then st
      else case Nodes (q_graph Q) (e_To e) of
             None \<Rightarrow> st
           | Some neighbor \<Rightarrow>
               let edgeTime = edgeTravelTimeHours e (q_speedFn Q);
                   tentTime = getz (timeScore st) cur + edgeTime
               in if improves (timeScore st) (e_To e) tentTime
                  then let h = heuristic_to (q_heuristicSpeed Q) goalNode neighbor
                       in st\<lparr>timeScore := (timeScore st)(e_To e \<mapsto> tentTime),
                            distScore := (distScore st)(e_To e \<mapsto> getz (distScore st) cur + e_DistanceKm e),
                            cameFrom := (cameFrom st)(e_To e \<mapsto> cur),
                            cameFromEdge := (cameFromEdge st)(e_To e \<mapsto> e),
                            pqueue := pq_Push (pqueue st)
                              \<lparr>pq_nodeID = e_To e, pq_gCost = tentTime, pq_fCost = tentTime + h\<rparr>\<rparr>
                  else st)"

definition expand :: "query \<Rightarrow> node \<Rightarrow> node_id \<Rightarrow> search \<Rightarrow> search" where
  "expand Q goalNode cur st =
     foldl (relax Q goalNode cur) (st\<lparr>closedNodes := insert cur (closedNodes st)\<rparr>) (Edges (q_graph Q) cur)"

definition polled :: "ctx \<Rightarrow> nat \<Rightarrow> ctx_error option" where
  "polled ctx iter = (if iter mod 4096 = 0 then ctx iter else None)"

partial_function (option) aStar_loop ::
  "ctx \<Rightarrow> query \<Rightarrow> node \<Rightarrow> nat \<Rightarrow> search \<Rightarrow> (route_error + PathResult) option" where
  "aStar_loop ctx Q goalNode iter st =
     (if pqueue st = [] then Some (Inl ErrNoPath)
      else case polled ctx (iter + 1) of
             Some err \<Rightarrow> Some (Inl (ErrCtx err))
           | None \<Rightarrow>
               let (item, rest) = pq_Pop (pqueue st);
                   cur = pq_nodeID item;
                   st = st\<lparr>pqueue := rest\<rparr>
               in if cur \<in> closedNodes st then aStar_loop ctx Q goalNode (iter + 1) st
                  else if stale (timeScore st) item then aStar_loop ctx Q goalNode (iter + 1) st
                  else if cur = q_goal Q
                  then map_option Inr
                         (buildPath (q_graph Q) (cameFrom st) (cameFromEdge st) (q_goal Q)
                            (getz (distScore st) (q_goal Q)) (getz (timeScore st) (q_goal Q)))
                  else aStar_loop ctx Q goalNode (iter + 1) (expand Q goalNode cur st))"

definition init_search :: "query \<Rightarrow> node \<Rightarrow> node \<Rightarrow> search" where
  "init_search Q startNode goalNode =
     \<lparr>timeScore = [q_start Q \<mapsto> 0], distScore = [q_start Q \<mapsto> 0],
      cameFrom = Map.empty, cameFromEdge = Map.empty, closedNodes = {},
      pqueue = pq_Push [] \<lparr>pq_nodeID = q_start Q, pq_gCost = 0,
        pq_fCost = heuristic_to (q_heuristicSpeed Q) goalNode startNode\<rparr>\<rparr>"

definition aStar :: "ctx \<Rightarrow> query \<Rightarrow> (route_error + PathResult) option" where
  "aStar ctx Q =
     (case ctx 0 of
        Some err \<Rightarrow> Some (Inl (ErrCtx err))
      | None \<Rightarrow>
          (case Nodes (q_graph Q) (q_start Q) of
             None \<Rightarrow> Some (Inl ErrStartNotInGraph)
           | Some startNode \<Rightarrow>
               (case Nodes (q_graph Q) (q_goal Q) of
                  None \<Rightarrow> Some (Inl ErrGoalNotInGraph)
                | Some goalNode \<Rightarrow>
                    if q_start Q = q_goal Q
                    then Some (Inr \<lparr>pr_Nodes = [startNode], pr_Edges = [], pr_DistanceKm = 0, pr_TimeHours = 0\<rparr>)
                    else aStar_loop ctx Q goalNode 0 (init_search Q startNode goalNode))))"

text \<open>The exported \<open>AStar\<close>: no deadline, no heuristic, nothing blocked.\<close>

definition plain_query ::
  "graph \<Rightarrow> node_id \<Rightarrow> node_id \<Rightarrow> edge_pred \<Rightarrow> (edge \<Rightarrow> float64) option \<Rightarrow> query" where
  "plain_query g startID goalID edgeOK speedFn =
     \<lparr>q_graph = g, q_start = startID, q_goal = goalID, q_edgeOK = edgeOK, q_speedFn = speedFn,
      q_heuristicSpeed = 0, q_blockedEdges = {}, q_blockedNodes = {}\<rparr>"

definition AStar ::
  "graph \<Rightarrow> node_id \<Rightarrow> node_id \<Rightarrow> edge_pred \<Rightarrow> (edge \<Rightarrow> float64) option \<Rightarrow> (route_error + PathResult) option" where
  "AStar g startID goalID edgeOK speedFn =
     aStar (\<lambda>_. None) (plain_query g startID goalID edgeOK speedFn)"

section \<open>Paths of a query\<close>

definition usable :: "query \<Rightarrow> node_id \<Rightarrow> edge \<Rightarrow> bool" where
  "usable Q u e \<longleftrightarrow> e \<in> set (Edges (q_graph Q) u) \<and> passes (q_edgeOK Q) e
     \<and> e_To e \<notin> q_blockedNodes Q \<and> (u, e_To e) \<notin> q_blockedEdges Q
     \<and> Nodes (q_graph Q) (e_To e) \<noteq> None"

fun walk :: "query \<Rightarrow> node_id \<Rightarrow> edge list \<Rightarrow> node_id \<Rightarrow> bool" where
  "walk Q u [] v \<longleftrightarrow> u = v"
| "walk Q u (e # es) v \<longleftrightarrow> usable Q u e \<and> walk Q (e_To e) es v"

abbreviation edge_time :: "query \<Rightarrow> edge \<Rightarrow> float64" where
  "edge_time Q e \<equiv> edgeTravelTimeHours e (q_speedFn Q)"

definition path_time :: "query \<Rightarrow> edge list \<Rightarrow> float64" where
  "path_time Q es = sum_list (map (edge_time Q) es)"

definition path_km :: "edge list \<Rightarrow> float64" where
  "path_km es = sum_list (map e_DistanceKm es)"

definition path_ids :: "node_id \<Rightarrow> edge list \<Rightarrow> node_id list" where
  "path_ids u es = u # map e_To es"

lemma path_simps [simp]:
  "path_time Q [] = 0" "path_time Q (e # es) = edge_time Q e + path_time Q es"
  "path_time Q (es @ fs) = path_time Q es + path_time Q fs"
  "path_km [] = 0" "path_km (e # es) = e_DistanceKm e + path_km es"
  "path_km (es @ fs) = path_km es + path_km fs"
  "path_ids u [] = [u]" "path_ids u (es @ [e]) = path_ids u es @ [e_To e]"
  by (simp_all add: path_time_def path_km_def path_ids_def)

lemma walk_append: "walk Q u (es @ fs) v \<longleftrightarrow> (\<exists>x. walk Q u es x \<and> walk Q x fs v)"
  by (induction es arbitrary: u) auto

lemma walk_snoc: "walk Q u (es @ [e]) v \<longleftrightarrow> (\<exists>x. walk Q u es x \<and> usable Q x e \<and> v = e_To e)"
  by (auto simp: walk_append)

text \<open>What a search may return: a usable path with its nodes and sums.\<close>

definition valid_path :: "query \<Rightarrow> PathResult \<Rightarrow> bool" where
  "valid_path Q p \<longleftrightarrow> walk Q (q_start Q) (pr_Edges p) (q_goal Q)
     \<and> map Some (pr_Nodes p) = map (Nodes (q_graph Q)) (path_ids (q_start Q) (pr_Edges p))
     \<and> pr_DistanceKm p = path_km (pr_Edges p) \<and> pr_TimeHours p = path_time Q (pr_Edges p)"

definition loopless :: "query \<Rightarrow> PathResult \<Rightarrow> bool" where
  "loopless Q p \<longleftrightarrow> distinct (path_ids (q_start Q) (pr_Edges p))"

definition path_ok :: "query \<Rightarrow> PathResult \<Rightarrow> bool" where
  "path_ok Q p \<longleftrightarrow> valid_path Q p \<and> loopless Q p"

lemmas path_ok_defs = path_ok_def valid_path_def loopless_def

definition fastest :: "query \<Rightarrow> PathResult \<Rightarrow> bool" where
  "fastest Q p \<longleftrightarrow> (\<forall>es. walk Q (q_start Q) es (q_goal Q) \<longrightarrow> pr_TimeHours p \<le> path_time Q es)"

definition reachable :: "query \<Rightarrow> bool" where
  "reachable Q \<longleftrightarrow> (\<exists>es. walk Q (q_start Q) es (q_goal Q))"

section \<open>The forward direction\<close>

definition hval :: "query \<Rightarrow> node \<Rightarrow> node_id \<Rightarrow> float64" where
  "hval Q target v = (case Nodes (q_graph Q) v of None \<Rightarrow> 0
                      | Some n \<Rightarrow> heuristic_to (q_heuristicSpeed Q) target n)"

definition fwd_dir :: "query \<Rightarrow> node \<Rightarrow> dir" where
  "fwd_dir Q goalNode = \<lparr>d_root = q_start Q, d_arc = (\<lambda>u x e. usable Q u e \<and> x = e_To e),
     d_time = edge_time Q, d_h = hval Q goalNode\<rparr>"

lemma fwd_dir_simps [simp]:
  "d_root (fwd_dir Q n) = q_start Q" "d_arc (fwd_dir Q n) u x e \<longleftrightarrow> usable Q u e \<and> x = e_To e"
  "d_time (fwd_dir Q n) = edge_time Q" "d_h (fwd_dir Q n) = hval Q n"
  by (simp_all add: fwd_dir_def)

abbreviation node_set :: "query \<Rightarrow> node_id set" where
  "node_set Q \<equiv> dom (Nodes (q_graph Q))"

interpretation forward: label_search "fwd_dir Q goalNode" "node_set Q" "\<lambda>u. Edges (q_graph Q) u"
  "\<lambda>a x e. a = e" "relax Q goalNode"
proof
  fix u x e st and a :: edge
  show "d_arc (fwd_dir Q goalNode) u x e \<Longrightarrow> x \<in> node_set Q"
    by (auto simp: usable_def)
  show "d_arc (fwd_dir Q goalNode) u x e \<Longrightarrow> \<exists>a\<in>set (Edges (q_graph Q) u). a = e"
    by (simp add: usable_def)
  assume a: "a \<in> set (Edges (q_graph Q) u)"
  let ?D = "fwd_dir Q goalNode"
  show "relax Q goalNode u st a = st \<and> (\<forall>x e. d_arc ?D u x e \<and> a = e \<longrightarrow> settled ?D st u x e)
      \<or> (\<exists>x e. d_arc ?D u x e \<and> x \<notin> closedNodes st
           \<and> improves (timeScore st) x (getz (timeScore st) u + d_time ?D e)
           \<and> relax Q goalNode u st a = improved ?D u st x e
           \<and> (\<forall>x' e'. d_arc ?D u x' e' \<and> a = e' \<longrightarrow> x' = x \<and> d_time ?D e \<le> d_time ?D e'))"
  proof (cases "usable Q u a \<and> e_To a \<notin> closedNodes st
      \<and> improves (timeScore st) (e_To a) (getz (timeScore st) u + edge_time Q a)")
    case True
    then have "relax Q goalNode u st a = improved ?D u st (e_To a) a"
      by (auto simp: relax_def usable_def improved_def hval_def Let_def)
    with True show ?thesis by auto
  next
    case False
    then have "relax Q goalNode u st a = st"
      using a by (auto simp: relax_def usable_def Let_def split: option.splits)
    moreover have "usable Q u a \<longrightarrow> settled ?D st u (e_To a) a"
      using False by (auto simp: settled_def improves_def split: option.splits)
    ultimately show ?thesis by auto
  qed
qed

lemma expand_eq: "expand Q goalNode u st = forward.expand_node Q goalNode u st"
  by (simp add: expand_def forward.expand_node_def)

text \<open>Walks of the forward direction are the walks of the query.\<close>

definition hops_of :: "edge list \<Rightarrow> hops" where
  "hops_of es = map (\<lambda>e. (e_To e, e)) es"

lemma hops_of_simps [simp]: "hops_of [] = []" "map snd (hops_of es) = es"
  by (simp_all add: hops_of_def comp_def)

lemma awalk_hops_of: "awalk (fwd_dir Q n) u (hops_of es) v \<longleftrightarrow> walk Q u es v"
  by (induction es arbitrary: u) (auto simp: hops_of_def)

lemma awalk_fwd:
  "awalk (fwd_dir Q n) u ps v \<Longrightarrow> ps = hops_of (map snd ps) \<and> walk Q u (map snd ps) v"
proof (induction ps arbitrary: u)
  case (Cons p ps)
  then show ?case by (cases p) (auto simp: hops_of_def)
qed simp

lemma hops_fwd:
  assumes "awalk (fwd_dir Q n) u ps v"
  shows "hops_time (fwd_dir Q n) ps = path_time Q (map snd ps)" "hops_km ps = path_km (map snd ps)"
    "hops_ids w ps = path_ids w (map snd ps)"
  using arg_cong [OF awalk_fwd [OF assms, THEN conjunct1], of "map fst"]
  by (simp_all add: hops_time_def hops_km_def hops_ids_def path_time_def path_km_def path_ids_def comp_def hops_of_def)

lemma time_hops_of [simp]: "hops_time (fwd_dir Q n) (hops_of es) = path_time Q es"
  by (simp add: hops_time_def path_time_def hops_of_def comp_def)

section \<open>buildPath reads the path back\<close>

lemma trace_back_traces:
  "traces D st v ps \<Longrightarrow>
   trace_back (cameFrom st) (cameFromEdge st) v ids redges =
     Some (ids @ tl (rev (hops_ids (d_root D) ps)), redges @ rev (map snd ps))"
proof (induction arbitrary: ids redges rule: traces.induct)
  case traces_root
  then show ?case by (simp add: trace_back.simps)
next
  case (traces_step u ps x e)
  have "rev (hops_ids (d_root D) ps) = u # tl (rev (hops_ids (d_root D) ps))"
    using traces_step.hyps(1) by (cases rule: traces.cases) (auto simp: hops_ids_def)
  then have "[u] @ tl (rev (hops_ids (d_root D) ps)) = rev (hops_ids (d_root D) ps)"
    by (simp only: append_Cons append_Nil)
  then show ?case using traces_step.hyps(3,4) traces_step.IH by (subst trace_back.simps) simp
qed

lemma walk_nodes:
  "walk Q u es v \<Longrightarrow> u \<in> node_set Q \<Longrightarrow> x \<in> set (path_ids u es) \<Longrightarrow> x \<in> node_set Q"
  by (induction es arbitrary: u) (auto simp: path_ids_def usable_def)

lemma those_map_Some: "(\<And>x. x \<in> set xs \<Longrightarrow> f x \<noteq> None) \<Longrightarrow> \<exists>ys. those (map f xs) = Some ys \<and> map Some ys = map f xs"
proof (induction xs)
  case (Cons x xs)
  then obtain ys where "those (map f xs) = Some ys" "map Some ys = map f xs" by auto
  moreover obtain y where "f x = Some y" using Cons.prems [of x] by auto
  ultimately show ?case by simp
qed simp

lemma buildPath_traces:
  assumes t: "traces (fwd_dir Q n) st v ps" and s: "q_start Q \<in> node_set Q"
  defines "es \<equiv> map snd ps"
  shows "\<exists>ns. buildPath (q_graph Q) (cameFrom st) (cameFromEdge st) v km hrs =
           Some \<lparr>pr_Nodes = ns, pr_Edges = es, pr_DistanceKm = km, pr_TimeHours = hrs\<rparr>
         \<and> map Some ns = map (Nodes (q_graph Q)) (path_ids (q_start Q) es)"
proof -
  note w = traces_walk [OF t, simplified]
  have es: "walk Q (q_start Q) es v" "hops_ids (q_start Q) ps = path_ids (q_start Q) es"
    unfolding es_def using awalk_fwd [OF w] hops_fwd [OF w] by auto
  have "v # tl (rev (hops_ids (q_start Q) ps)) = rev (hops_ids (q_start Q) ps)"
    using t by (cases rule: traces.cases) (auto simp: hops_ids_def)
  then have tb: "trace_back (cameFrom st) (cameFromEdge st) v [v] [] = Some (rev (path_ids (q_start Q) es), rev es)"
    using trace_back_traces [OF t, of "[v]" "[]"] by (simp add: es(2) es_def)
  have "Nodes (q_graph Q) x \<noteq> None" if "x \<in> set (path_ids (q_start Q) es)" for x
    using walk_nodes [OF es(1) s that] by auto
  then obtain ns where "those (map (Nodes (q_graph Q)) (path_ids (q_start Q) es)) = Some ns"
    "map Some ns = map (Nodes (q_graph Q)) (path_ids (q_start Q) es)"
    using those_map_Some [of "path_ids (q_start Q) es" "Nodes (q_graph Q)"] by blast
  then show ?thesis by (simp add: buildPath_def tb)
qed

section \<open>The loop\<close>

definition outcome :: "ctx \<Rightarrow> query \<Rightarrow> bool \<Rightarrow> route_error + PathResult \<Rightarrow> bool" where
  "outcome ctx Q con r \<longleftrightarrow>
     (case r of
        Inl ErrNoPath \<Rightarrow> \<not> reachable Q
      | Inl (ErrCtx err) \<Rightarrow> \<exists>i. polled ctx i = Some err
      | Inl ErrStartNotInGraph \<Rightarrow> q_start Q \<notin> node_set Q
      | Inl ErrGoalNotInGraph \<Rightarrow> q_goal Q \<notin> node_set Q
      | Inr p \<Rightarrow> path_ok Q p \<and> (con \<longrightarrow> fastest Q p))"

lemma outcome_Inr: "outcome ctx Q con (Inr p) \<Longrightarrow> path_ok Q p"
  by (simp add: outcome_def)

lemma outcome_mono: "outcome ctx Q a r \<Longrightarrow> (b \<Longrightarrow> a) \<Longrightarrow> outcome ctx Q b r"
  by (auto simp: outcome_def split: sum.splits route_error.splits)

lemma goal_found:
  assumes inv: "search_inv (fwd_dir Q n) st" and t: "timeScore st (q_goal Q) \<noteq> None"
    and s: "q_start Q \<in> node_set Q"
  shows "\<exists>p. buildPath (q_graph Q) (cameFrom st) (cameFromEdge st) (q_goal Q)
               (getz (distScore st) (q_goal Q)) (getz (timeScore st) (q_goal Q)) = Some p
           \<and> path_ok Q p \<and> pr_TimeHours p = getz (timeScore st) (q_goal Q)"
proof -
  have "tree_inv (fwd_dir Q n) st" using inv by (simp add: search_inv_def)
  then obtain ps where ps: "traces (fwd_dir Q n) st (q_goal Q) ps"
    "timeScore st (q_goal Q) = Some (hops_time (fwd_dir Q n) ps)"
    "distScore st (q_goal Q) = Some (hops_km ps)" by (rule tree_invE [OF _ t])
  note w = traces_walk [OF ps(1), simplified]
  from buildPath_traces [OF ps(1) s, of "path_km (map snd ps)" "path_time Q (map snd ps)"]
  show ?thesis using ps(2,3) awalk_fwd [OF w] hops_fwd [OF w] traces_distinct [OF ps(1)]
    by (auto simp: path_ok_defs)
qed

lemma aStar_loop_pop:
  assumes "pqueue st \<noteq> []" "polled ctx (iter + 1) = None" "pq_Pop (pqueue st) = (item, rest)"
  shows "aStar_loop ctx Q goalNode iter st =
    (if pq_nodeID item \<in> closedNodes st \<or> stale (timeScore st) item
     then aStar_loop ctx Q goalNode (iter + 1) (st\<lparr>pqueue := rest\<rparr>)
     else if pq_nodeID item = q_goal Q
     then map_option Inr
            (buildPath (q_graph Q) (cameFrom st) (cameFromEdge st) (q_goal Q)
               (getz (distScore st) (q_goal Q)) (getz (timeScore st) (q_goal Q)))
     else aStar_loop ctx Q goalNode (iter + 1) (expand Q goalNode (pq_nodeID item) (st\<lparr>pqueue := rest\<rparr>)))"
  using assms by (subst aStar_loop.simps) (simp add: Let_def)

text \<open>Every iteration closes a node or removes a queue entry.\<close>

definition open_measure :: "query \<Rightarrow> search \<Rightarrow> nat \<times> nat" where
  "open_measure Q st = (card (node_set Q - closedNodes st), length (pqueue st))"

lemma aStar_loop_outcome:
  assumes fin: "finite (node_set Q)" and s: "q_start Q \<in> node_set Q"
  shows "search_inv (fwd_dir Q goalNode) st \<Longrightarrow> q_goal Q \<notin> closedNodes st \<Longrightarrow>
    consistent (fwd_dir Q goalNode) (node_set Q) \<longrightarrow> best_closed (fwd_dir Q goalNode) st \<Longrightarrow>
    \<exists>r. aStar_loop ctx Q goalNode iter st = Some r \<and> outcome ctx Q (consistent (fwd_dir Q goalNode) (node_set Q)) r"
proof (induction "open_measure Q st" arbitrary: st iter rule: wf_induct_rule [OF wf_lex_prod [OF wf_less_than wf_less_than]])
  case 1
  note IH = "1.hyps" and inv = "1.prems"(1) and goal = "1.prems"(2) and best = "1.prems"(3)
  have root: "d_root (fwd_dir Q goalNode) \<in> node_set Q" using s by simp
  show ?case
  proof (cases "pqueue st = []")
    case True
    have "\<not> walk Q (q_start Q) es (q_goal Q)" for es
      using forward.exhausted [of Q goalNode st "hops_of es" "q_goal Q"] inv goal True
      by (auto simp: awalk_hops_of)
    with True show ?thesis by (subst aStar_loop.simps) (simp add: outcome_def reachable_def)
  next
    case ne: False
    show ?thesis
    proof (cases "polled ctx (iter + 1)")
      case (Some err)
      with ne show ?thesis by (subst aStar_loop.simps) (auto simp: outcome_def)
    next
      case None
      obtain item rest where p: "pq_Pop (pqueue st) = (item, rest)" by fastforce
      from inv have ok: "pq_ok (pqueue st)" by (simp add: search_inv_def queue_inv_def)
      note pop = pq_popE [OF ok ne p]
      let ?cur = "pq_nodeID item" and ?st = "st\<lparr>pqueue := rest\<rparr>"
      from inv pop(4) have dom: "timeScore st ?cur \<noteq> None" by (auto simp: search_inv_def queue_inv_def)
      show ?thesis
      proof (cases "?cur \<in> closedNodes st \<or> stale (timeScore st) item")
        case True
        have "\<exists>r. aStar_loop ctx Q goalNode (iter + 1) ?st = Some r \<and> outcome ctx Q (consistent (fwd_dir Q goalNode) (node_set Q)) r"
          using pop(3) best goal by (intro IH pop_skip [OF inv p ne True])
            (auto simp: open_measure_def best_closed_def)
        then show ?thesis using True by (simp add: aStar_loop_pop [OF ne None p])
      next
        case fresh: False
        show ?thesis
        proof (cases "?cur = q_goal Q")
          case True
          from goal_found [OF inv  _ s] dom True obtain r where r:
            "buildPath (q_graph Q) (cameFrom st) (cameFromEdge st) (q_goal Q)
               (getz (distScore st) (q_goal Q)) (getz (timeScore st) (q_goal Q)) = Some r"
            "path_ok Q r" "pr_TimeHours r = getz (timeScore st) (q_goal Q)" by auto
          have "fastest Q r" if con: "consistent (fwd_dir Q goalNode) (node_set Q)"
            unfolding fastest_def
          proof (intro allI impI)
            fix es assume "walk Q (q_start Q) es (q_goal Q)"
            then have "awalk (fwd_dir Q goalNode) (d_root (fwd_dir Q goalNode)) (hops_of es) ?cur" using True by (simp add: awalk_hops_of)
            from forward.pop_best [OF inv  _ con  p ne _ _ this ]
            show "pr_TimeHours r \<le> path_time Q es"
              using best con fresh True r(3) root by simp
          qed
          with r(1,2) True fresh show ?thesis
            by (auto simp: aStar_loop_pop [OF ne None p] outcome_def)
        next
          case False
          let ?ex = "expand Q goalNode ?cur ?st"
          from fresh have fr: "?cur \<notin> closedNodes st" "\<not> stale (timeScore st) item" by auto
          note ex = forward.expand_search_inv [OF inv  p ne fr, folded expand_eq]
          have "best_closed (fwd_dir Q goalNode) ?ex" if "consistent (fwd_dir Q goalNode) (node_set Q)"
            using forward.expand_best [OF inv  _ _ p ne fr] best that root
            by (simp add: expand_eq)
          moreover have "((open_measure Q ?ex), (open_measure Q st)) \<in> less_than <*lex*> less_than"
            using forward.expand_closes [OF inv  p ne fr fin] root
            by (simp add: open_measure_def expand_eq)
          ultimately have "\<exists>r. aStar_loop ctx Q goalNode (iter + 1) ?ex = Some r
              \<and> outcome ctx Q (consistent (fwd_dir Q goalNode) (node_set Q)) r"
            using ex(1,2) goal False by (intro IH) auto
          then show ?thesis using False fresh by (simp add: aStar_loop_pop [OF ne None p])
        qed
      qed
    qed
  qed
qed

lemma single_label_inv:
  assumes "d_root D = s" "d_h D s = h"
  shows "search_inv D \<lparr>timeScore = [s \<mapsto> 0], distScore = [s \<mapsto> 0], cameFrom = Map.empty,
    cameFromEdge = Map.empty, closedNodes = {},
    pqueue = pq_Push [] \<lparr>pq_nodeID = s, pq_gCost = 0, pq_fCost = h\<rparr>\<rparr>" (is "search_inv D ?st")
proof -
  have "traces D ?st (d_root D) []" by (rule traces_root) simp
  then have "tree_inv D ?st" using assms by (auto simp: tree_inv_def intro!: exI [of _ "[]"])
  moreover have "queue_inv D ?st"
    using assms by (auto simp: queue_inv_def pq.ok_push intro!: exI [of _ "[]"])
  ultimately show ?thesis by (simp add: search_inv_def frontier_inv_def)
qed

lemma init_search_inv:
  assumes "Nodes (q_graph Q) (q_start Q) = Some startNode"
  shows "search_inv (fwd_dir Q goalNode) (init_search Q startNode goalNode)"
  unfolding init_search_def by (rule single_label_inv) (use assms in \<open>simp_all add: hval_def\<close>)

lemma aStar_outcome:
  assumes fin: "finite (node_set Q)"
    and goal: "\<And>n. Nodes (q_graph Q) (q_goal Q) = Some n \<Longrightarrow> con \<longrightarrow> consistent (fwd_dir Q n) (node_set Q)"
  shows "\<exists>r. aStar ctx Q = Some r \<and> outcome ctx Q con r"
proof (cases "ctx 0")
  case (Some err)
  then have "polled ctx 0 = Some err" by (simp add: polled_def)
  with Some show ?thesis by (auto simp: aStar_def outcome_def)
next
  case None
  show ?thesis
  proof (cases "\<exists>a b. Nodes (q_graph Q) (q_start Q) = Some a \<and> Nodes (q_graph Q) (q_goal Q) = Some b \<and> q_start Q \<noteq> q_goal Q")
    case True
    then obtain a b where ab: "Nodes (q_graph Q) (q_start Q) = Some a" "Nodes (q_graph Q) (q_goal Q) = Some b"
      "q_start Q \<noteq> q_goal Q" by blast
    from aStar_loop_outcome [OF fin _ init_search_inv [OF ab(1), of b], of ctx 0] ab(1)
    obtain r where r: "aStar_loop ctx Q b 0 (init_search Q a b) = Some r"
      "outcome ctx Q (consistent (fwd_dir Q b) (node_set Q)) r"
      by (auto simp: best_closed_def init_search_def)
    from r(2) goal [OF ab(2)] have "outcome ctx Q con r" by (auto elim: outcome_mono)
    with r(1) ab None show ?thesis by (simp add: aStar_def)
  next
    case False
    have "con \<longrightarrow> 0 \<le> path_time Q es"
      if "walk Q (q_start Q) es (q_goal Q)" "q_start Q = q_goal Q" "Nodes (q_graph Q) (q_goal Q) = Some n" for es n
      using forward.awalk_consistent [of Q n "q_start Q" "hops_of es" "q_goal Q"] goal [OF that(3)] that
      by (auto simp: awalk_hops_of)
    with False None show ?thesis
      by (cases "Nodes (q_graph Q) (q_start Q)"; cases "Nodes (q_graph Q) (q_goal Q)")
         (auto simp: aStar_def outcome_def path_ok_defs fastest_def)
  qed
qed

section \<open>Nonnegative costs, and the flat heuristic\<close>

lemma edge_time_nonneg: "0 \<le> e_DistanceKm e \<Longrightarrow> 0 \<le> edgeTravelTimeHours e f"
  by (auto simp: edgeTravelTimeHours_def Let_def)

lemma consistent_zero:
  assumes "q_heuristicSpeed Q \<le> 0" and "\<And>u e. usable Q u e \<Longrightarrow> 0 \<le> e_DistanceKm e"
  shows "consistent (fwd_dir Q goalNode) V"
  using assms edge_time_nonneg
  by (auto simp: consistent_def hval_def heuristic_to_def heuristicHours_def Let_def split: option.splits)

lemma sqrt_sq_triangle:
  fixes a b c d :: real
  shows "sqrt ((a + c) * (a + c) + (b + d) * (b + d)) \<le> sqrt (a * a + b * b) + sqrt (c * c + d * d)"
  using real_sqrt_sum_squares_triangle_ineq [of a c b d] by (simp add: power2_eq_square)

lemma flatDistKm_triangle:
  "flatDistKm lat1 lng1 lat3 lng3 k \<le> flatDistKm lat1 lng1 lat2 lng2 k + flatDistKm lat2 lng2 lat3 lng3 k"
proof -
  define K :: real where "K = 111.195"
  have "(lat3 - lat1) * K = (lat2 - lat1) * K + (lat3 - lat2) * K"
    "(lng3 - lng1) * K * k = (lng2 - lng1) * K * k + (lng3 - lng2) * K * k"
    by (simp_all add: algebra_simps)
  then show ?thesis
    unfolding flatDistKm_def Let_def K_def [symmetric]
    using sqrt_sq_triangle [of "(lat2 - lat1) * K" "(lat3 - lat2) * K" "(lng2 - lng1) * K * k" "(lng3 - lng2) * K * k"]
    by simp
qed

text \<open>
  No usable edge covers flat-earth distance (measured with the cosine of the target's
  latitude) faster than the heuristic speed.
\<close>

definition speed_bounded :: "query \<Rightarrow> node \<Rightarrow> bool" where
  "speed_bounded Q target \<longleftrightarrow> 0 < q_heuristicSpeed Q \<and>
     (\<forall>u e a b. usable Q u e \<and> Nodes (q_graph Q) u = Some a \<and> Nodes (q_graph Q) (e_To e) = Some b \<longrightarrow>
        flatDistKm (n_Lat a) (n_Lng a) (n_Lat b) (n_Lng b) (cos (n_Lat target * (pi / 180)))
        \<le> q_heuristicSpeed Q * edge_time Q e)"

lemma consistent_flat:
  assumes "speed_bounded Q target"
  shows "consistent (fwd_dir Q target) (node_set Q)"
  unfolding consistent_def
proof (intro allI impI, elim conjE)
  fix u x e
  assume "d_arc (fwd_dir Q target) u x e" and "u \<in> node_set Q"
  then have e: "usable Q u e" "x = e_To e" and u: "u \<in> node_set Q" by auto
  from e(1) u obtain a b where ab: "Nodes (q_graph Q) u = Some a" "Nodes (q_graph Q) (e_To e) = Some b"
    by (auto simp: usable_def)
  let ?s = "q_heuristicSpeed Q" and ?c = "cos (n_Lat target * (pi / 180))"
  let ?f = "\<lambda>x y. flatDistKm (n_Lat x) (n_Lng x) (n_Lat y) (n_Lng y) ?c"
  have s: "0 < ?s" using assms by (simp add: speed_bounded_def)
  have "?f a b \<le> ?s * edge_time Q e" using assms e ab by (auto simp: speed_bounded_def)
  with flatDistKm_triangle [of "n_Lat a" "n_Lng a" "n_Lat target" "n_Lng target" ?c "n_Lat b" "n_Lng b"]
  have "?f a target \<le> ?s * edge_time Q e + ?f b target" by linarith
  then have "?f a target / ?s \<le> (?s * edge_time Q e + ?f b target) / ?s"
    using s by (intro divide_right_mono) auto
  then show "d_h (fwd_dir Q target) u \<le> d_time (fwd_dir Q target) e + d_h (fwd_dir Q target) x"
    using s ab e by (simp add: hval_def heuristic_to_def heuristicHours_def add_divide_distrib)
qed

text \<open>
  C1. The unidirectional search returns on every finite graph, whatever the profile,
  the heuristic and the blocked sets: the end-point errors and cancellations are the only
  errors besides \<open>ErrNoPath\<close>, which is returned only when no usable path exists, and a
  result is a usable path from start to goal that repeats no node, with its nodes and with
  the exact sums of its edges.  The path is a fastest one when no edge beats the heuristic
  speed.
\<close>

theorem aStar_correct:
  assumes "finite (node_set Q)"
  shows "\<exists>r. aStar ctx Q = Some r
           \<and> outcome ctx Q (\<forall>n. Nodes (q_graph Q) (q_goal Q) = Some n \<longrightarrow> speed_bounded Q n) r"
  using assms consistent_flat by (intro aStar_outcome) auto

text \<open>Two nodes a tenth of a degree apart, joined by one edge of 12 km at 60 km/h.\<close>

definition two_nodes :: graph where
  "two_nodes =
     AddEdge (AddNode (AddNode NewGraph \<lparr>n_ID = 1, n_Lat = 35, n_Lng = 51, n_Flags = 0\<rparr>)
                      \<lparr>n_ID = 2, n_Lat = 351 / 10, n_Lng = 51, n_Flags = 0\<rparr>)
       1 \<lparr>e_To = 2, e_DistanceKm = 12, e_SpeedKmH = 60, e_TimeHours = 1 / 5,
          e_Kind = HWPrimary, e_Flags = FlagCar, e_NameIdx = 0\<rparr>"

definition two_query :: query where
  "two_query = \<lparr>q_graph = two_nodes, q_start = 1, q_goal = 2, q_edgeOK = None, q_speedFn = None,
     q_heuristicSpeed = 130, q_blockedEdges = {}, q_blockedNodes = {}\<rparr>"

lemma two_nodes_simps [simp]:
  "Edges two_nodes u = (if u = 1 then [\<lparr>e_To = 2, e_DistanceKm = 12, e_SpeedKmH = 60, e_TimeHours = 1 / 5,
          e_Kind = HWPrimary, e_Flags = FlagCar, e_NameIdx = 0\<rparr>] else [])"
  "Nodes two_nodes v = (if v = 1 then Some \<lparr>n_ID = 1, n_Lat = 35, n_Lng = 51, n_Flags = FlagCar\<rparr>
     else if v = 2 then Some \<lparr>n_ID = 2, n_Lat = 351 / 10, n_Lng = 51, n_Flags = FlagCar\<rparr> else None)"
  by (auto simp: two_nodes_def AddEdge_def or_flags_def NewGraph_def)

lemma two_nodes_dom [simp]: "dom (Nodes two_nodes) = {1, 2}"
  by (auto simp: dom_def)

lemma two_query_simps [simp]:
  "q_graph two_query = two_nodes" "q_start two_query = 1" "q_goal two_query = 2"
  "q_edgeOK two_query = None" "q_speedFn two_query = None" "q_heuristicSpeed two_query = 130"
  "q_blockedEdges two_query = {}" "q_blockedNodes two_query = {}"
  by (simp_all add: two_query_def)

theorem aStar_correct_witness:
  "\<exists>p. aStar (\<lambda>_. None) two_query = Some (Inr p) \<and> path_ok two_query p \<and> fastest two_query p"
proof -
  have reach: "reachable two_query"
    by (auto simp: reachable_def usable_def passes_def intro!: exI [of _ "Edges two_nodes 1"])
  have fast: "speed_bounded two_query n" for n
    by (auto simp: speed_bounded_def usable_def flatDistKm_def edgeTravelTimeHours_def Let_def
        intro!: real_le_lsqrt)
  from aStar_correct [of two_query "\<lambda>_. None"] obtain r where r: "aStar (\<lambda>_. None) two_query = Some r"
    "outcome (\<lambda>_. None) two_query True r" using fast by (auto elim: outcome_mono)
  then show ?thesis using reach
    by (cases r) (auto simp: outcome_def polled_def split: route_error.splits if_splits)
qed

lemma AStar_exact_core:
  assumes "finite (dom (Nodes g))" and "\<And>u e. e \<in> set (Edges g u) \<Longrightarrow> 0 \<le> e_DistanceKm e"
    and "s \<in> dom (Nodes g)" "t \<in> dom (Nodes g)"
  shows "if reachable (plain_query g s t ok f)
         then (\<exists>p. AStar g s t ok f = Some (Inr p) \<and> path_ok (plain_query g s t ok f) p
                  \<and> fastest (plain_query g s t ok f) p)
         else AStar g s t ok f = Some (Inl ErrNoPath)"
proof -
  let ?Q = "plain_query g s t ok f"
  have "consistent (fwd_dir ?Q n) (node_set ?Q)" for n
    using assms(2) by (intro consistent_zero) (auto simp: plain_query_def usable_def)
  with aStar_outcome [of ?Q True "\<lambda>_. None"] assms(1)
  obtain r where r: "aStar (\<lambda>_. None) ?Q = Some r" "outcome (\<lambda>_. None) ?Q True r" by (auto simp: plain_query_def)
  have A: "AStar g s t ok f = Some r" using r(1) by (simp add: AStar_def)
  show ?thesis
  proof (cases r)
    case (Inl err)
    with r(2) assms(3,4) have "err = ErrNoPath \<and> \<not> reachable ?Q"
      by (auto simp: outcome_def polled_def plain_query_def split: route_error.splits if_splits)
    with A Inl show ?thesis by simp
  next
    case (Inr p)
    with r(2) have "path_ok ?Q p \<and> fastest ?Q p" by (simp add: outcome_def)
    moreover from this have "reachable ?Q" by (auto simp: path_ok_defs reachable_def)
    ultimately show ?thesis using A Inr by auto
  qed
qed

text \<open>
  The exported \<open>AStar\<close> is an exact shortest-time search: on a finite graph whose edges
  have no negative length it returns a fastest path, and it reports \<open>ErrNoPath\<close> exactly
  when the goal cannot be reached.
\<close>

theorem AStar_exact:
  assumes "finite (dom (Nodes g))" and "\<And>u e. e \<in> set (Edges g u) \<Longrightarrow> 0 \<le> e_DistanceKm e"
    and "s \<in> dom (Nodes g)" "t \<in> dom (Nodes g)"
  shows "if reachable (plain_query g s t ok f)
         then (\<exists>p. AStar g s t ok f = Some (Inr p) \<and> path_ok (plain_query g s t ok f) p
                  \<and> fastest (plain_query g s t ok f) p)
         else AStar g s t ok f = Some (Inl ErrNoPath)"
  using assms by (rule AStar_exact_core)

theorem AStar_exact_witness:
  "AStar two_nodes 2 1 None None = Some (Inl ErrNoPath)"
proof -
  let ?Q = "plain_query two_nodes 2 1 None None"
  have "\<not> reachable ?Q"
  proof
    assume "reachable ?Q"
    then obtain es where "walk ?Q 2 es 1" by (auto simp: reachable_def plain_query_def)
    then show False by (cases es) (auto simp: usable_def plain_query_def)
  qed
  with AStar_exact [of two_nodes 2 1 None None] show ?thesis
    by (auto split: if_splits)
qed

text \<open>
  The comment on the heuristic (it never overestimates) is not true of the flat-earth
  formula: scaled by the cosine of the goal's latitude it can exceed the great-circle
  distance.
\<close>

theorem flatDistKm_overestimates:
  "Haversine 60 0 0 180 < flatDistKm 60 0 0 180 (cos (0 * (pi / 180)))"
proof -
  have c: "cos (toRad 60) = 1 / 2" using cos_60 by (simp add: toRad_def)
  have "inner 60 0 0 180 = - (1 / 2)"
    using c by (simp add: inner_def toRad_def)
  then have "Haversine 60 0 0 180 = earthRadiusKm * (2 * pi / 3)"
    using arccos_cos [of "2 * pi / 3"] cos_120 by (simp add: Haversine_arccos)
  also have "\<dots> < 111.195 * 180"
    using pi_less_4 by (simp add: earthRadiusKm_def)
  also have "\<dots> = sqrt ((180 * 111.195) * (180 * 111.195))"
    by (simp only: real_sqrt_abs2) simp
  also have "\<dots> \<le> flatDistKm 60 0 0 180 (cos (0 * (pi / 180)))"
    unfolding flatDistKm_def Let_def by (rule real_sqrt_le_mono) simp
  finally show ?thesis .
qed
end
