(* ===== verification/BiAStar.thy ===== *)
theory BiAStar
  imports AStar
begin

text \<open>
  \<open>internal/routing/bidir.go\<close>: the bidirectional search.  Each side is a \<open>search\<close> record
  (the code's \<open>gF, dF, prevF, prevFEdge, closedF, pqF\<close> are the fields of \<open>fwd\<close>, and
  \<open>gB, dB, nextB, nextBEdge, closedB, pqB\<close> those of \<open>bwd\<close>).  The backward side is the second
  provider of the relaxation interface.  The theorems show what the search guarantees for
  every heuristic (it returns, the result is a usable path with its exact sums,
  \<open>ErrNoPath\<close> means unreachable), that the path is fastest when the heuristic is off, and,
  on a concrete graph, that with an admissible and consistent heuristic it need not be.
\<close>

record bidir =
  fwd :: search
  bwd :: search
  mu :: float64
  muDist :: float64
  meetingNode :: node_id

definition tryMeet :: "bidir \<Rightarrow> node_id \<Rightarrow> float64 \<Rightarrow> float64 \<Rightarrow> float64 \<Rightarrow> float64 \<Rightarrow> bidir" where
  "tryMeet b nid f w fwdDist bwdDist =
     (if f + w < mu b then b\<lparr>mu := f + w, muDist := fwdDist + bwdDist, meetingNode := nid\<rparr> else b)"

text \<open>The assignments of a successful relaxation, the same on both sides.\<close>

definition set_label :: "search \<Rightarrow> node_id \<Rightarrow> node_id \<Rightarrow> edge \<Rightarrow> float64 \<Rightarrow> float64 \<Rightarrow> search" where
  "set_label st cur x e tentTime h =
     st\<lparr>timeScore := (timeScore st)(x \<mapsto> tentTime),
        distScore := (distScore st)(x \<mapsto> getz (distScore st) cur + e_DistanceKm e),
        cameFrom := (cameFrom st)(x \<mapsto> cur),
        cameFromEdge := (cameFromEdge st)(x \<mapsto> e),
        pqueue := pq_Push (pqueue st) \<lparr>pq_nodeID = x, pq_gCost = tentTime, pq_fCost = tentTime + h\<rparr>\<rparr>"

section \<open>Forward step\<close>

definition meet_at :: "bidir \<Rightarrow> node_id \<Rightarrow> bidir" where
  "meet_at b x =
     (case (timeScore (fwd b) x, timeScore (bwd b) x) of
        (Some gf, Some gb) \<Rightarrow> tryMeet b x gf gb (getz (distScore (fwd b)) x) (getz (distScore (bwd b)) x)
      | _ \<Rightarrow> b)"

definition fwd_relax :: "query \<Rightarrow> node \<Rightarrow> node_id \<Rightarrow> bidir \<Rightarrow> edge \<Rightarrow> bidir" where
  "fwd_relax Q goalNode cur b e =
     (if e_To e \<in> closedNodes (fwd b) then b
      else if e_To e \<in> q_blockedNodes Q then b
      else if (cur, e_To e) \<in> q_blockedEdges Q then b
      else if \<not> passes (q_edgeOK Q) e then b
      else case Nodes (q_graph Q) (e_To e) of
             None \<Rightarrow> b
           | Some neighbor \<Rightarrow>
               let tentTime = getz (timeScore (fwd b)) cur + edgeTravelTimeHours e (q_speedFn Q)
               in if \<not> improves (timeScore (fwd b)) (e_To e) tentTime then b
                  else meet_at (b\<lparr>fwd := set_label (fwd b) cur (e_To e) e tentTime
                                   (heuristic_to (q_heuristicSpeed Q) goalNode neighbor)\<rparr>) (e_To e))"

definition fwd_step :: "query \<Rightarrow> node \<Rightarrow> bidir \<Rightarrow> bidir" where
  "fwd_step Q goalNode b =
     (let (item, rest) = pq_Pop (pqueue (fwd b));
          cur = pq_nodeID item;
          b = b\<lparr>fwd := (fwd b)\<lparr>pqueue := rest\<rparr>\<rparr>
      in if cur \<in> closedNodes (fwd b) then b
         else if stale (timeScore (fwd b)) item then b
         else let b = b\<lparr>fwd := (fwd b)\<lparr>closedNodes := insert cur (closedNodes (fwd b))\<rparr>\<rparr>;
                  b = (case timeScore (bwd b) cur of
                         None \<Rightarrow> b
                       | Some gb \<Rightarrow> tryMeet b cur (pq_gCost item) gb
                                     (getz (distScore (fwd b)) cur) (getz (distScore (bwd b)) cur))
              in foldl (fwd_relax Q goalNode cur) b (Edges (q_graph Q) cur))"

section \<open>Backward step\<close>

text \<open>The scan for the fastest usable edge from a predecessor to the current node.\<close>

definition best_edge :: "query \<Rightarrow> node_id \<Rightarrow> node_id \<Rightarrow> (edge \<times> float64) option" where
  "best_edge Q fromID cur =
     foldl (\<lambda>best e.
         if e_To e \<noteq> cur then best
         else if (fromID, cur) \<in> q_blockedEdges Q then best
         else if \<not> passes (q_edgeOK Q) e then best
         else let t = edgeTravelTimeHours e (q_speedFn Q)
              in case best of
                   None \<Rightarrow> Some (e, t)
                 | Some (b, bestTime) \<Rightarrow> if t < bestTime then Some (e, t) else best)
       None (Edges (q_graph Q) fromID)"

definition bwd_relax :: "query \<Rightarrow> node \<Rightarrow> node_id \<Rightarrow> bidir \<Rightarrow> node_id \<Rightarrow> bidir" where
  "bwd_relax Q startNode cur b fromID =
     (if fromID \<in> closedNodes (bwd b) then b
      else if fromID \<in> q_blockedNodes Q then b
      else case best_edge Q fromID cur of
             None \<Rightarrow> b
           | Some (e, bestTime) \<Rightarrow>
               (case Nodes (q_graph Q) fromID of
                  None \<Rightarrow> b
                | Some fromNode \<Rightarrow>
                    let tentTime = getz (timeScore (bwd b)) cur + bestTime
                    in if \<not> improves (timeScore (bwd b)) fromID tentTime then b
                       else meet_at (b\<lparr>bwd := set_label (bwd b) cur fromID e tentTime
                                        (heuristic_to (q_heuristicSpeed Q) startNode fromNode)\<rparr>) fromID))"

definition predecessors :: "query \<Rightarrow> node_id \<Rightarrow> node_id list" where
  "predecessors Q v = (case RevAdj (q_graph Q) of None \<Rightarrow> [] | Some r \<Rightarrow> r v)"

definition bwd_step :: "query \<Rightarrow> node \<Rightarrow> bidir \<Rightarrow> bidir" where
  "bwd_step Q startNode b =
     (let (item, rest) = pq_Pop (pqueue (bwd b));
          cur = pq_nodeID item;
          b = b\<lparr>bwd := (bwd b)\<lparr>pqueue := rest\<rparr>\<rparr>
      in if cur \<in> closedNodes (bwd b) then b
         else if stale (timeScore (bwd b)) item then b
         else let b = b\<lparr>bwd := (bwd b)\<lparr>closedNodes := insert cur (closedNodes (bwd b))\<rparr>\<rparr>;
                  b = (case timeScore (fwd b) cur of
                         None \<Rightarrow> b
                       | Some gf \<Rightarrow> tryMeet b cur gf (pq_gCost item)
                                     (getz (distScore (fwd b)) cur) (getz (distScore (bwd b)) cur))
              in foldl (bwd_relax Q startNode cur) b (predecessors Q cur))"

section \<open>The loop and the stitched path\<close>

definition top_g :: "priorityQueue \<Rightarrow> float64" where
  "top_g q = (case q of [] \<Rightarrow> maxFloat64 | item # _ \<Rightarrow> pq_gCost item)"

partial_function (option) bi_loop ::
  "ctx \<Rightarrow> query \<Rightarrow> node \<Rightarrow> node \<Rightarrow> nat \<Rightarrow> bidir \<Rightarrow> (ctx_error + bidir) option" where
  "bi_loop ctx Q startNode goalNode iter b =
     (if pqueue (fwd b) = [] \<and> pqueue (bwd b) = [] then Some (Inr b)
      else case polled ctx (iter + 1) of
             Some err \<Rightarrow> Some (Inl err)
           | None \<Rightarrow>
               let topF = top_g (pqueue (fwd b)); topB = top_g (pqueue (bwd b))
               in if topF + topB \<ge> mu b then Some (Inr b)
                  else if pqueue (fwd b) \<noteq> [] \<and> (pqueue (bwd b) = [] \<or> topF \<le> topB)
                  then bi_loop ctx Q startNode goalNode (iter + 1) (fwd_step Q goalNode b)
                  else bi_loop ctx Q startNode goalNode (iter + 1) (bwd_step Q startNode b))"

partial_function (option) fwd_segment ::
  "(node_id \<Rightarrow> node_id option) \<Rightarrow> (node_id \<Rightarrow> edge option) \<Rightarrow> node_id \<Rightarrow> node_id \<Rightarrow> node_id list \<Rightarrow> edge list
   \<Rightarrow> (node_id list \<times> edge list) option" where
  "fwd_segment prevF prevFEdge startID cur fwdIDs fwdEdges =
     (if cur = startID then Some (fwdIDs @ [cur], fwdEdges)
      else case prevF cur of
             None \<Rightarrow> Some (fwdIDs @ [cur], fwdEdges)
           | Some prev \<Rightarrow> fwd_segment prevF prevFEdge startID prev (fwdIDs @ [cur])
               (fwdEdges @ [case prevFEdge cur of None \<Rightarrow> zero_edge | Some e \<Rightarrow> e]))"

partial_function (option) bwd_segment ::
  "(node_id \<Rightarrow> node_id option) \<Rightarrow> (node_id \<Rightarrow> edge option) \<Rightarrow> node_id \<Rightarrow> node_id \<Rightarrow> node_id list \<Rightarrow> edge list
   \<Rightarrow> (node_id list \<times> edge list) option" where
  "bwd_segment nextB nextBEdge goalID cur bwdIDs bwdEdges =
     (if cur = goalID then Some (bwdIDs, bwdEdges)
      else case nextB cur of
             None \<Rightarrow> Some (bwdIDs, bwdEdges)
           | Some next \<Rightarrow> bwd_segment nextB nextBEdge goalID next (bwdIDs @ [next])
               (bwdEdges @ [case nextBEdge cur of None \<Rightarrow> zero_edge | Some e \<Rightarrow> e]))"

definition buildBidirPath ::
  "graph \<Rightarrow> search \<Rightarrow> search \<Rightarrow> node_id \<Rightarrow> node_id \<Rightarrow> node_id \<Rightarrow> float64 \<Rightarrow> float64 \<Rightarrow> PathResult option" where
  "buildBidirPath g sF sB startID goalID meeting distKm hours =
     (case fwd_segment (cameFrom sF) (cameFromEdge sF) startID meeting [] [] of
        None \<Rightarrow> None
      | Some (fwdIDs, fwdEdges) \<Rightarrow>
          (case bwd_segment (cameFrom sB) (cameFromEdge sB) goalID meeting [] [] of
             None \<Rightarrow> None
           | Some (bwdIDs, bwdEdges) \<Rightarrow>
               map_option (\<lambda>nodes. \<lparr>pr_Nodes = nodes, pr_Edges = rev fwdEdges @ bwdEdges,
                                    pr_DistanceKm = distKm, pr_TimeHours = hours\<rparr>)
                 (those (map (Nodes g) (rev fwdIDs @ bwdIDs)))))"

definition init_side :: "query \<Rightarrow> node_id \<Rightarrow> node \<Rightarrow> node \<Rightarrow> search" where
  "init_side Q rootID rootNode target =
     \<lparr>timeScore = [rootID \<mapsto> 0], distScore = [rootID \<mapsto> 0],
      cameFrom = Map.empty, cameFromEdge = Map.empty, closedNodes = {},
      pqueue = pq_Push [] \<lparr>pq_nodeID = rootID, pq_gCost = 0,
        pq_fCost = heuristic_to (q_heuristicSpeed Q) target rootNode\<rparr>\<rparr>"

definition init_bidir :: "query \<Rightarrow> node \<Rightarrow> node \<Rightarrow> bidir" where
  "init_bidir Q startNode goalNode =
     \<lparr>fwd = init_side Q (q_start Q) startNode goalNode, bwd = init_side Q (q_goal Q) goalNode startNode,
      mu = maxFloat64, muDist = 0, meetingNode = - 1\<rparr>"

definition bi_finish :: "query \<Rightarrow> bidir \<Rightarrow> (route_error + PathResult) option" where
  "bi_finish Q b =
     (if meetingNode b < 0 \<or> mu b = maxFloat64 then Some (Inl ErrNoPath)
      else map_option Inr (buildBidirPath (q_graph Q) (fwd b) (bwd b) (q_start Q) (q_goal Q)
                             (meetingNode b) (muDist b) (mu b)))"

definition biAStar :: "ctx \<Rightarrow> query \<Rightarrow> (route_error + PathResult) option" where
  "biAStar ctx Q =
     (case ctx 0 of
        Some err \<Rightarrow> Some (Inl (ErrCtx err))
      | None \<Rightarrow>
          if RevAdj (q_graph Q) = None then aStar ctx Q
          else case Nodes (q_graph Q) (q_start Q) of
                 None \<Rightarrow> Some (Inl ErrStartNotInGraph)
               | Some startNode \<Rightarrow>
                   (case Nodes (q_graph Q) (q_goal Q) of
                      None \<Rightarrow> Some (Inl ErrGoalNotInGraph)
                    | Some goalNode \<Rightarrow>
                        if q_start Q = q_goal Q
                        then Some (Inr \<lparr>pr_Nodes = [startNode], pr_Edges = [], pr_DistanceKm = 0, pr_TimeHours = 0\<rparr>)
                        else case bi_loop ctx Q startNode goalNode 0 (init_bidir Q startNode goalNode) of
                               None \<Rightarrow> None
                             | Some (Inl err) \<Rightarrow> Some (Inl (ErrCtx err))
                             | Some (Inr b) \<Rightarrow> bi_finish Q b))"

section \<open>The backward direction\<close>

definition back_arc :: "query \<Rightarrow> node_id \<Rightarrow> node_id \<Rightarrow> edge \<Rightarrow> bool" where
  "back_arc Q u x e \<longleftrightarrow> x \<in> set (predecessors Q u) \<and> e \<in> set (Edges (q_graph Q) x) \<and> e_To e = u
     \<and> passes (q_edgeOK Q) e \<and> x \<notin> q_blockedNodes Q \<and> (x, u) \<notin> q_blockedEdges Q \<and> x \<in> node_set Q"

definition bwd_dir :: "query \<Rightarrow> node \<Rightarrow> dir" where
  "bwd_dir Q startNode = \<lparr>d_root = q_goal Q, d_arc = back_arc Q, d_time = edge_time Q, d_h = hval Q startNode\<rparr>"

lemma bwd_dir_simps [simp]:
  "d_root (bwd_dir Q n) = q_goal Q" "d_arc (bwd_dir Q n) = back_arc Q"
  "d_time (bwd_dir Q n) = edge_time Q" "d_h (bwd_dir Q n) = hval Q n"
  by (simp_all add: bwd_dir_def)

lemma best_edge_filter:
  "best_edge Q x u = foldl (min_step (edge_time Q)) None
     (filter (\<lambda>e. e_To e = u \<and> (x, u) \<notin> q_blockedEdges Q \<and> passes (q_edgeOK Q) e) (Edges (q_graph Q) x))"
  unfolding best_edge_def foldl_if_filter [symmetric]
  by (rule foldl_cong) (auto simp: min_step_def Let_def)

lemma best_edge_cases:
  obtains (none) "best_edge Q x u = None" "\<And>e. \<not> back_arc Q u x e"
  | (some) e where "best_edge Q x u = Some (e, edge_time Q e)" "e \<in> set (Edges (q_graph Q) x)" "e_To e = u"
      "passes (q_edgeOK Q) e" "(x, u) \<notin> q_blockedEdges Q"
      "\<And>d. back_arc Q u x d \<Longrightarrow> edge_time Q e \<le> edge_time Q d"
proof (cases "best_edge Q x u")
  case None
  then have "\<not> back_arc Q u x e" for e
    by (auto simp: best_edge_filter foldl_min_step_None filter_empty_conv back_arc_def)
  with None show thesis by (rule none)
next
  case (Some r)
  obtain e t where r: "r = (e, t)" by fastforce
  note m = foldl_min_step_best [OF Some [unfolded best_edge_filter r]]
  show thesis
  proof (rule some)
    show "best_edge Q x u = Some (e, edge_time Q e)" using Some r m(2) by simp
    show "edge_time Q e \<le> edge_time Q d" if "back_arc Q u x d" for d
      using m(2) m(3) [of d] that by (auto simp: back_arc_def)
  qed (use m(1) in auto)
qed

definition back_relax :: "query \<Rightarrow> node \<Rightarrow> node_id \<Rightarrow> search \<Rightarrow> node_id \<Rightarrow> search" where
  "back_relax Q startNode cur st fromID =
     bwd (bwd_relax Q startNode cur \<lparr>fwd = st, bwd = st, mu = 0, muDist = 0, meetingNode = 0\<rparr> fromID)"

lemma tryMeet_sides [simp]: "fwd (tryMeet b x f w d d') = fwd b" "bwd (tryMeet b x f w d d') = bwd b"
  by (simp_all add: tryMeet_def)

lemma meet_at_sides [simp]: "fwd (meet_at b x) = fwd b" "bwd (meet_at b x) = bwd b"
  by (simp_all add: meet_at_def split: option.splits)

lemma bwd_relax_bwd: "bwd (bwd_relax Q n cur b x) = back_relax Q n cur (bwd b) x"
  by (simp add: back_relax_def bwd_relax_def Let_def split: option.splits)

lemma bwd_relax_fwd [simp]: "fwd (bwd_relax Q n cur b x) = fwd b"
  by (simp add: bwd_relax_def Let_def split: option.splits)

lemma fwd_relax_fwd: "fwd (fwd_relax Q n cur b e) = relax Q n cur (fwd b) e"
  by (simp add: fwd_relax_def relax_def set_label_def Let_def split: option.splits)

lemma fwd_relax_bwd [simp]: "bwd (fwd_relax Q n cur b e) = bwd b"
  by (simp add: fwd_relax_def Let_def split: option.splits)

interpretation backward: label_search "bwd_dir Q startNode" "node_set Q" "predecessors Q"
  "\<lambda>a x e. a = x" "back_relax Q startNode"
proof
  fix u x e st and a :: node_id
  let ?D = "bwd_dir Q startNode"
  show "d_arc ?D u x e \<Longrightarrow> x \<in> node_set Q" by (simp add: back_arc_def)
  show "d_arc ?D u x e \<Longrightarrow> \<exists>a\<in>set (predecessors Q u). a = x" by (simp add: back_arc_def)
  assume a: "a \<in> set (predecessors Q u)"
  show "back_relax Q startNode u st a = st \<and> (\<forall>x e. d_arc ?D u x e \<and> a = x \<longrightarrow> settled ?D st u x e)
      \<or> (\<exists>x e. d_arc ?D u x e \<and> x \<notin> closedNodes st
           \<and> improves (timeScore st) x (getz (timeScore st) u + d_time ?D e)
           \<and> back_relax Q startNode u st a = improved ?D u st x e
           \<and> (\<forall>x' e'. d_arc ?D u x' e' \<and> a = x' \<longrightarrow> x' = x \<and> d_time ?D e \<le> d_time ?D e'))"
  proof (cases rule: best_edge_cases [where Q = Q and x = a and u = u])
    case none
    then have "back_relax Q startNode u st a = st" by (simp add: back_relax_def bwd_relax_def)
    with none show ?thesis by auto
  next
    case (some e)
    show ?thesis
    proof (cases "a \<notin> closedNodes st \<and> a \<notin> q_blockedNodes Q \<and> a \<in> node_set Q
        \<and> improves (timeScore st) a (getz (timeScore st) u + edge_time Q e)")
      case True
      then have "back_relax Q startNode u st a = improved ?D u st a e"
        using some(1) by (auto simp: back_relax_def bwd_relax_def improved_def set_label_def hval_def Let_def)
      moreover have "back_arc Q u a e" using True some a by (simp add: back_arc_def)
      ultimately show ?thesis using True some(6) by auto
    next
      case False
      then have "back_relax Q startNode u st a = st"
        using some(1) by (auto simp: back_relax_def bwd_relax_def Let_def split: option.splits)
      moreover have "settled ?D st u a d" if "back_arc Q u a d" for d
        using False that some(6) [OF that]
        by (auto simp: settled_def improves_def back_arc_def split: option.splits)
      ultimately show ?thesis by auto
    qed
  qed
qed

lemma foldl_bwd_relax:
  "bwd (foldl (bwd_relax Q n cur) b xs) = foldl (back_relax Q n cur) (bwd b) xs \<and> fwd (foldl (bwd_relax Q n cur) b xs) = fwd b"
  by (induction xs arbitrary: b) (simp_all add: bwd_relax_bwd)

lemma foldl_fwd_relax:
  "fwd (foldl (fwd_relax Q n cur) b es) = foldl (relax Q n cur) (fwd b) es \<and> bwd (foldl (fwd_relax Q n cur) b es) = bwd b"
  by (induction es arbitrary: b) (simp_all add: fwd_relax_fwd)

text \<open>One step of one side: the other side is untouched, and the stepped side is popped and expanded.\<close>

lemma fwd_step_sides:
  assumes "pq_Pop (pqueue (fwd b)) = (item, rest)"
  shows "bwd (fwd_step Q n b) = bwd b"
    "fwd (fwd_step Q n b) =
       (if pq_nodeID item \<in> closedNodes (fwd b) \<or> stale (timeScore (fwd b)) item
        then (fwd b)\<lparr>pqueue := rest\<rparr>
        else forward.expand_node Q n (pq_nodeID item) ((fwd b)\<lparr>pqueue := rest\<rparr>))"
  by (simp_all add: fwd_step_def assms Let_def foldl_fwd_relax forward.expand_node_def split: option.splits)

lemma bwd_step_sides:
  assumes "pq_Pop (pqueue (bwd b)) = (item, rest)"
  shows "fwd (bwd_step Q n b) = fwd b"
    "bwd (bwd_step Q n b) =
       (if pq_nodeID item \<in> closedNodes (bwd b) \<or> stale (timeScore (bwd b)) item
        then (bwd b)\<lparr>pqueue := rest\<rparr>
        else backward.expand_node Q n (pq_nodeID item) ((bwd b)\<lparr>pqueue := rest\<rparr>))"
  by (simp_all add: bwd_step_def assms Let_def foldl_bwd_relax backward.expand_node_def split: option.splits)

section \<open>The meeting point\<close>

definition meet_inv :: "bidir \<Rightarrow> bool" where
  "meet_inv b \<longleftrightarrow>
     (\<forall>v t s. timeScore (fwd b) v = Some t \<and> timeScore (bwd b) v = Some s \<longrightarrow> mu b \<le> t + s)
     \<and> (mu b = maxFloat64 \<and> meetingNode b = - 1
        \<or> mu b < maxFloat64 \<and> (\<exists>t s d d'. timeScore (fwd b) (meetingNode b) = Some t
             \<and> timeScore (bwd b) (meetingNode b) = Some s \<and> mu b = t + s
             \<and> distScore (fwd b) (meetingNode b) = Some d \<and> distScore (bwd b) (meetingNode b) = Some d'
             \<and> muDist b = d + d'))"

definition dist_dom :: "search \<Rightarrow> bool" where
  "dist_dom st \<longleftrightarrow> (\<forall>v. timeScore st v \<noteq> None \<longrightarrow> distScore st v \<noteq> None)"

lemma tree_dist_dom: "tree_inv D st \<Longrightarrow> dist_dom st"
  unfolding dist_dom_def by (metis tree_invE option.distinct(1))

lemma tryMeet_same:
  assumes "meet_inv b" "timeScore (fwd b) x = Some f" "timeScore (bwd b) x = Some w"
  shows "tryMeet b x f w d d' = b"
  using assms by (force simp: meet_inv_def tryMeet_def)

lemma set_label_simps [simp]:
  "timeScore (set_label st u x e t h) = (timeScore st)(x \<mapsto> t)"
  "distScore (set_label st u x e t h) = (distScore st)(x \<mapsto> getz (distScore st) u + e_DistanceKm e)"
  by (simp_all add: set_label_def)

lemma meet_after_fwd:
  assumes inv: "meet_inv b" and better: "improves (timeScore (fwd b)) x t" and dd: "dist_dom (bwd b)"
  shows "meet_inv (meet_at (b\<lparr>fwd := set_label (fwd b) u x e t h\<rparr>) x)"
proof (cases "timeScore (bwd b) x")
  case None
  with inv show ?thesis by (auto simp: meet_inv_def meet_at_def)
next
  case (Some w)
  with dd obtain d' where d': "distScore (bwd b) x = Some d'" by (auto simp: dist_dom_def)
  show ?thesis
  proof (cases "t + w < mu b")
    case True
    have "\<And>v s s'. timeScore (fwd b) v = Some s \<and> timeScore (bwd b) v = Some s' \<Longrightarrow> t + w \<le> s + s'"
      using inv True by (fastforce simp: meet_inv_def)
    moreover have "mu b \<le> maxFloat64" using inv by (auto simp: meet_inv_def)
    ultimately show ?thesis using Some d' True by (auto simp: meet_inv_def meet_at_def tryMeet_def)
  next
    case False
    have "x \<noteq> meetingNode b \<or> mu b = maxFloat64"
      using inv better Some False by (auto simp: meet_inv_def improves_def)
    then show ?thesis using inv Some d' False by (auto simp: meet_inv_def meet_at_def tryMeet_def)
  qed
qed

lemma meet_after_bwd:
  assumes inv: "meet_inv b" and better: "improves (timeScore (bwd b)) x t" and dd: "dist_dom (fwd b)"
  shows "meet_inv (meet_at (b\<lparr>bwd := set_label (bwd b) u x e t h\<rparr>) x)"
proof (cases "timeScore (fwd b) x")
  case None
  with inv show ?thesis by (auto simp: meet_inv_def meet_at_def)
next
  case (Some w)
  with dd obtain d' where d': "distScore (fwd b) x = Some d'" by (auto simp: dist_dom_def)
  show ?thesis
  proof (cases "w + t < mu b")
    case True
    have "\<And>v s s'. timeScore (fwd b) v = Some s \<and> timeScore (bwd b) v = Some s' \<Longrightarrow> w + t \<le> s + s'"
      using inv True by (fastforce simp: meet_inv_def)
    moreover have "mu b \<le> maxFloat64" using inv by (auto simp: meet_inv_def)
    ultimately show ?thesis using Some d' True by (auto simp: meet_inv_def meet_at_def tryMeet_def)
  next
    case False
    have "x \<noteq> meetingNode b \<or> mu b = maxFloat64"
      using inv better Some False by (auto simp: meet_inv_def improves_def)
    then show ?thesis using inv Some d' False by (auto simp: meet_inv_def meet_at_def tryMeet_def)
  qed
qed

lemma fwd_relax_meet:
  assumes "meet_inv b" "dist_dom (bwd b)"
  shows "meet_inv (fwd_relax Q n cur b e)"
  using assms meet_after_fwd by (auto simp: fwd_relax_def Let_def split: option.splits)

lemma bwd_relax_meet:
  assumes "meet_inv b" "dist_dom (fwd b)"
  shows "meet_inv (bwd_relax Q n cur b x)"
  using assms meet_after_bwd by (auto simp: bwd_relax_def Let_def split: option.splits)

lemma foldl_fwd_meet:
  "meet_inv b \<Longrightarrow> dist_dom (bwd b) \<Longrightarrow> meet_inv (foldl (fwd_relax Q n cur) b es)"
  by (induction es arbitrary: b) (auto simp: fwd_relax_meet)

lemma foldl_bwd_meet:
  "meet_inv b \<Longrightarrow> dist_dom (fwd b) \<Longrightarrow> meet_inv (foldl (bwd_relax Q n cur) b xs)"
  by (induction xs arbitrary: b) (auto simp: bwd_relax_meet)

definition bi_inv :: "query \<Rightarrow> node \<Rightarrow> node \<Rightarrow> bidir \<Rightarrow> bool" where
  "bi_inv Q startNode goalNode b \<longleftrightarrow> search_inv (fwd_dir Q goalNode) (fwd b)
     \<and> search_inv (bwd_dir Q startNode) (bwd b) \<and> meet_inv b"

lemma meet_inv_side:
  "meet_inv b \<Longrightarrow> meet_inv (b\<lparr>fwd := (fwd b)\<lparr>pqueue := q, closedNodes := c\<rparr>\<rparr>)"
  "meet_inv b \<Longrightarrow> meet_inv (b\<lparr>bwd := (bwd b)\<lparr>pqueue := q, closedNodes := c\<rparr>\<rparr>)"
  "meet_inv b \<Longrightarrow> meet_inv (b\<lparr>fwd := (fwd b)\<lparr>pqueue := q\<rparr>\<rparr>)"
  "meet_inv b \<Longrightarrow> meet_inv (b\<lparr>bwd := (bwd b)\<lparr>pqueue := q\<rparr>\<rparr>)"
  by (simp_all add: meet_inv_def)

lemma popped_label:
  assumes "search_inv D st" "pq_Pop (pqueue st) = (item, rest)" "pqueue st \<noteq> []" "\<not> stale (timeScore st) item"
  shows "timeScore st (pq_nodeID item) = Some (pq_gCost item)"
proof -
  have q: "queue_inv D st" using assms by (simp add: search_inv_def)
  then have "pq_ok (pqueue st)" by (simp add: queue_inv_def)
  from pq_popE(4) [OF this assms(3,2)] q obtain t where "timeScore st (pq_nodeID item) = Some t" "t \<le> pq_gCost item"
    by (auto simp: queue_inv_def)
  with assms(4) show ?thesis by (auto simp: stale_def)
qed

lemma fwd_step_inv:
  assumes inv: "bi_inv Q s t b" and ne: "pqueue (fwd b) \<noteq> []"
  shows "bi_inv Q s t (fwd_step Q t b)"
proof -
  obtain item rest where p: "pq_Pop (pqueue (fwd b)) = (item, rest)" by fastforce
  have f: "search_inv (fwd_dir Q t) (fwd b)" and w: "search_inv (bwd_dir Q s) (bwd b)" and m: "meet_inv b"
    using inv by (simp_all add: bi_inv_def)
  have "search_inv (fwd_dir Q t) (fwd (fwd_step Q t b))"
    using pop_skip [OF f p ne] forward.expand_search_inv(1) [OF f p ne]
    by (simp add: fwd_step_sides [OF p])
  moreover have "meet_inv (fwd_step Q t b)"
  proof (cases "pq_nodeID item \<in> closedNodes (fwd b) \<or> stale (timeScore (fwd b)) item")
    case True
    then show ?thesis using meet_inv_side(3) [OF m] by (auto simp: fwd_step_def p Let_def)
  next
    case False
    let ?b = "b\<lparr>fwd := (fwd b)\<lparr>pqueue := rest, closedNodes := insert (pq_nodeID item) (closedNodes (fwd b))\<rparr>\<rparr>"
    have mb: "meet_inv ?b" by (rule meet_inv_side(1) [OF m])
    have lab: "timeScore (fwd b) (pq_nodeID item) = Some (pq_gCost item)"
      using popped_label [OF f p ne] False by auto
    have dd: "dist_dom (bwd b)" using w tree_dist_dom by (auto simp: search_inv_def)
    have "(case timeScore (bwd ?b) (pq_nodeID item) of None \<Rightarrow> ?b
           | Some gb \<Rightarrow> tryMeet ?b (pq_nodeID item) (pq_gCost item) gb d d') = ?b" for d d'
      using tryMeet_same [OF mb] lab by (simp split: option.splits)
    then have "fwd_step Q t b = foldl (fwd_relax Q t (pq_nodeID item)) ?b (Edges (q_graph Q) (pq_nodeID item))"
      using False by (simp add: fwd_step_def p Let_def)
    then show ?thesis using foldl_fwd_meet [OF mb] dd by simp
  qed
  ultimately show ?thesis using w by (simp add: bi_inv_def fwd_step_sides [OF p])
qed

lemma bwd_step_inv:
  assumes inv: "bi_inv Q s t b" and ne: "pqueue (bwd b) \<noteq> []"
  shows "bi_inv Q s t (bwd_step Q s b)"
proof -
  obtain item rest where p: "pq_Pop (pqueue (bwd b)) = (item, rest)" by fastforce
  have f: "search_inv (fwd_dir Q t) (fwd b)" and w: "search_inv (bwd_dir Q s) (bwd b)" and m: "meet_inv b"
    using inv by (simp_all add: bi_inv_def)
  have "search_inv (bwd_dir Q s) (bwd (bwd_step Q s b))"
    using pop_skip [OF w p ne] backward.expand_search_inv(1) [OF w p ne]
    by (simp add: bwd_step_sides [OF p])
  moreover have "meet_inv (bwd_step Q s b)"
  proof (cases "pq_nodeID item \<in> closedNodes (bwd b) \<or> stale (timeScore (bwd b)) item")
    case True
    then show ?thesis using meet_inv_side(4) [OF m] by (auto simp: bwd_step_def p Let_def)
  next
    case False
    let ?b = "b\<lparr>bwd := (bwd b)\<lparr>pqueue := rest, closedNodes := insert (pq_nodeID item) (closedNodes (bwd b))\<rparr>\<rparr>"
    have mb: "meet_inv ?b" by (rule meet_inv_side(2) [OF m])
    have lab: "timeScore (bwd b) (pq_nodeID item) = Some (pq_gCost item)"
      using popped_label [OF w p ne] False by auto
    have dd: "dist_dom (fwd b)" using f tree_dist_dom by (auto simp: search_inv_def)
    have "(case timeScore (fwd ?b) (pq_nodeID item) of None \<Rightarrow> ?b
           | Some gf \<Rightarrow> tryMeet ?b (pq_nodeID item) gf (pq_gCost item) d d') = ?b" for d d'
      using tryMeet_same [OF mb] lab by (simp split: option.splits)
    then have "bwd_step Q s b = foldl (bwd_relax Q s (pq_nodeID item)) ?b (predecessors Q (pq_nodeID item))"
      using False by (simp add: bwd_step_def p Let_def)
    then show ?thesis using foldl_bwd_meet [OF mb] dd by simp
  qed
  ultimately show ?thesis using f by (simp add: bi_inv_def bwd_step_sides [OF p])
qed


section \<open>The stitched path\<close>

lemma awalk_bwd:
  assumes "q_goal Q \<in> node_set Q" "q_goal Q \<notin> q_blockedNodes Q"
  shows "awalk (bwd_dir Q n) (q_goal Q) qs m \<Longrightarrow>
    walk Q m (rev (map snd qs)) (q_goal Q) \<and> path_ids m (rev (map snd qs)) = rev (hops_ids (q_goal Q) qs)
    \<and> m \<in> node_set Q \<and> m \<notin> q_blockedNodes Q"
proof (induction qs arbitrary: m rule: rev_induct)
  case Nil
  then show ?case using assms by (simp add: path_ids_def)
next
  case (snoc q qs)
  obtain x e where q: "q = (x, e)" by fastforce
  with snoc.prems obtain u where u: "awalk (bwd_dir Q n) (q_goal Q) qs u" "back_arc Q u x e" "m = x"
    by (auto simp: awalk_snoc)
  from snoc.IH [OF u(1)] u(2) have "usable Q x e" "e_To e = u" by (auto simp: usable_def back_arc_def)
  moreover have "path_ids x (e # es) = x # path_ids u es" if "e_To e = u" for es
    using that by (simp add: path_ids_def)
  ultimately show ?case using snoc.IH [OF u(1)] u(2,3) q by (auto simp: back_arc_def)
qed

lemma bwd_walk:
  assumes rev: "rev_ok (q_graph Q)" "RevAdj (q_graph Q) \<noteq> None"
  shows "walk Q u es v \<Longrightarrow> u \<in> node_set Q \<Longrightarrow> u \<notin> q_blockedNodes Q \<Longrightarrow>
    \<exists>qs. awalk (bwd_dir Q n) v qs u \<and> map snd qs = rev es"
proof (induction es arbitrary: u)
  case Nil
  then show ?case by (intro exI [of _ "[]"]) simp
next
  case (Cons e es)
  from Cons.prems have e: "usable Q u e" "walk Q (e_To e) es v" by simp_all
  then have "e_To e \<in> node_set Q" "e_To e \<notin> q_blockedNodes Q" by (auto simp: usable_def)
  from Cons.IH [OF e(2) this] obtain qs where qs: "awalk (bwd_dir Q n) v qs (e_To e)" "map snd qs = rev es" by blast
  obtain r where r: "RevAdj (q_graph Q) = Some r" using rev(2) by auto
  have "u \<in> set (r (e_To e))"
  proof -
    have "e \<in> set (filter (\<lambda>d. e_To d = e_To e) (Edges (q_graph Q) u))" using e(1) by (simp add: usable_def)
    then have "length (filter (\<lambda>d. e_To d = e_To e) (Edges (q_graph Q) u)) \<noteq> 0" by (metis length_0_conv list.set(1) empty_iff)
    with rev(1) r have "count_list (r (e_To e)) u \<noteq> 0" by (simp add: rev_ok_def)
    then show ?thesis by (meson count_notin)
  qed
  then have "back_arc Q (e_To e) u e"
    using e(1) Cons.prems r by (auto simp: back_arc_def usable_def predecessors_def)
  with qs show ?case by (intro exI [of _ "qs @ [(u, e)]"]) (auto simp: awalk_snoc)
qed

lemma walk_edge: "walk Q u es v \<Longrightarrow> e \<in> set es \<Longrightarrow> \<exists>x. usable Q x e"
  by (induction es arbitrary: u) auto

lemma traces_rootless: "traces D st v ps \<Longrightarrow> cameFrom st (d_root D) = None"
  by (induction rule: traces.induct) auto

lemma fwd_segment_traces:
  "traces D st v ps \<Longrightarrow> fwd_segment (cameFrom st) (cameFromEdge st) (d_root D) v ids es =
     Some (ids @ rev (hops_ids (d_root D) ps), es @ rev (map snd ps))"
proof (induction arbitrary: ids es rule: traces.induct)
  case traces_root
  then show ?case by (simp add: fwd_segment.simps)
next
  case (traces_step u ps x e)
  have "x \<noteq> d_root D" using traces_rootless [OF traces_step.hyps(1)] traces_step.hyps(3) by auto
  then show ?case using traces_step by (subst fwd_segment.simps) simp
qed

lemma bwd_segment_traces:
  "traces D st v ps \<Longrightarrow> bwd_segment (cameFrom st) (cameFromEdge st) (d_root D) v ids es =
     Some (ids @ tl (rev (hops_ids (d_root D) ps)), es @ rev (map snd ps))"
proof (induction arbitrary: ids es rule: traces.induct)
  case traces_root
  then show ?case by (simp add: bwd_segment.simps)
next
  case (traces_step u ps x e)
  have "x \<noteq> d_root D" using traces_rootless [OF traces_step.hyps(1)] traces_step.hyps(3) by auto
  moreover have "rev (hops_ids (d_root D) ps) = u # tl (rev (hops_ids (d_root D) ps))"
    using traces_step.hyps(1) by (cases rule: traces.cases) (auto simp: hops_ids_def)
  then have "[u] @ tl (rev (hops_ids (d_root D) ps)) = rev (hops_ids (d_root D) ps)"
    by (simp only: append_Cons append_Nil)
  ultimately show ?case using traces_step.hyps(3,4) traces_step.IH by (subst bwd_segment.simps) simp
qed

text \<open>Scores along a trace are the scores of its prefixes.\<close>

lemma trace_split:
  assumes tree: "tree_inv D st" and t: "traces D st v ps" and x: "x \<in> set (hops_ids (d_root D) ps)"
    and v: "timeScore st v \<noteq> None"
  shows "\<exists>qs rs. ps = qs @ rs \<and> timeScore st x = Some (hops_time D qs) \<and> (x \<noteq> v \<longrightarrow> rs \<noteq> [])"
proof -
  from traces_prefix [OF t x] obtain qs rs where q: "ps = qs @ rs" "traces D st x qs"
    "x \<noteq> v \<longrightarrow> rs \<noteq> [] \<and> x \<in> closedNodes st" by blast
  have "timeScore st x \<noteq> None" using q(3) v tree by (cases "x = v") (auto simp: tree_inv_def)
  then obtain qs' where "traces D st x qs'" "timeScore st x = Some (hops_time D qs')"
    by (rule tree_invE [OF tree])
  with traces_unique [OF q(2)] q show ?thesis by blast
qed

definition bi_ready :: "query \<Rightarrow> bool" where
  "bi_ready Q \<longleftrightarrow> q_start Q \<in> node_set Q \<and> q_goal Q \<in> node_set Q \<and> q_goal Q \<notin> q_blockedNodes Q"

lemma in_set_tlD: "x \<in> set (tl xs) \<Longrightarrow> x \<in> set xs"
  by (cases xs) auto

lemma meet_bound:
  "meet_inv b \<Longrightarrow> timeScore (fwd b) v = Some t \<Longrightarrow> timeScore (bwd b) v = Some s \<Longrightarrow> mu b \<le> t + s"
  unfolding meet_inv_def by blast

lemma bi_finish_valid:
  assumes inv: "bi_inv Q s t b" and ready: "bi_ready Q" and found: "\<not> (meetingNode b < 0 \<or> mu b = maxFloat64)"
  shows "\<exists>p. bi_finish Q b = Some (Inr p) \<and> valid_path Q p \<and> pr_TimeHours p = mu b
           \<and> ((\<forall>u e. usable Q u e \<longrightarrow> 0 < edge_time Q e) \<longrightarrow> loopless Q p)"
proof -
  let ?D = "fwd_dir Q t" and ?E = "bwd_dir Q s" and ?m = "meetingNode b"
  have tf: "tree_inv ?D (fwd b)" and tb: "tree_inv ?E (bwd b)" and m: "meet_inv b"
    using inv by (simp_all add: bi_inv_def search_inv_def)
  from m found obtain gf gb d d' where lab: "timeScore (fwd b) ?m = Some gf" "timeScore (bwd b) ?m = Some gb"
    "mu b = gf + gb" "distScore (fwd b) ?m = Some d" "distScore (bwd b) ?m = Some d'" "muDist b = d + d'"
    by (auto simp: meet_inv_def)
  from lab(1) obtain ps where ps: "traces ?D (fwd b) ?m ps" "timeScore (fwd b) ?m = Some (hops_time ?D ps)"
    "distScore (fwd b) ?m = Some (hops_km ps)" using tree_invE [OF tf, of ?m] by auto
  from lab(2) obtain qs where qs: "traces ?E (bwd b) ?m qs" "timeScore (bwd b) ?m = Some (hops_time ?E qs)"
    "distScore (bwd b) ?m = Some (hops_km qs)" using tree_invE [OF tb, of ?m] by auto
  note wf = traces_walk [OF ps(1), simplified] and wb = traces_walk [OF qs(1), simplified]
  define fs where "fs = map snd ps" define gs where "gs = rev (map snd qs)"
  have f: "walk Q (q_start Q) fs ?m" "hops_ids (q_start Q) ps = path_ids (q_start Q) fs"
    "hops_time ?D ps = path_time Q fs" "hops_km ps = path_km fs"
    using awalk_fwd [OF wf] hops_fwd [OF wf] by (simp_all add: fs_def)
  have g: "walk Q ?m gs (q_goal Q)" "path_ids ?m gs = rev (hops_ids (q_goal Q) qs)"
    using awalk_bwd [OF _ _ wb] ready by (simp_all add: gs_def bi_ready_def)
  have gt: "hops_time ?E qs = path_time Q gs" "hops_km qs = path_km gs"
    by (simp_all add: gs_def hops_time_def hops_km_def path_time_def path_km_def rev_map comp_def sum_list_rev flip: sum_list_rev [of "map _ qs"])
  have w: "walk Q (q_start Q) (fs @ gs) (q_goal Q)" using f(1) g(1) by (auto simp: walk_append)
  have ids: "path_ids (q_start Q) (fs @ gs) = path_ids (q_start Q) fs @ tl (rev (hops_ids (q_goal Q) qs))"
    unfolding g(2) [symmetric] by (simp add: path_ids_def)
  have segs: "fwd_segment (cameFrom (fwd b)) (cameFromEdge (fwd b)) (q_start Q) ?m [] [] = Some (rev (path_ids (q_start Q) fs), rev fs)"
    "bwd_segment (cameFrom (bwd b)) (cameFromEdge (bwd b)) (q_goal Q) ?m [] [] = Some (tl (rev (hops_ids (q_goal Q) qs)), gs)"
    using fwd_segment_traces [OF ps(1), of "[]" "[]"] bwd_segment_traces [OF qs(1), of "[]" "[]"] f(2)
    by (simp_all add: fs_def gs_def)
  have "Nodes (q_graph Q) x \<noteq> None" if "x \<in> set (path_ids (q_start Q) (fs @ gs))" for x
    using walk_nodes [OF w _ that] ready by (auto simp: bi_ready_def)
  then obtain ns where ns: "those (map (Nodes (q_graph Q)) (path_ids (q_start Q) (fs @ gs))) = Some ns"
    "map Some ns = map (Nodes (q_graph Q)) (path_ids (q_start Q) (fs @ gs))"
    using those_map_Some [of _ "Nodes (q_graph Q)"] by blast
  define p where "p = \<lparr>pr_Nodes = ns, pr_Edges = fs @ gs, pr_DistanceKm = muDist b, pr_TimeHours = mu b\<rparr>"
  have "bi_finish Q b = Some (Inr p)"
    using found segs ns(1) by (simp add: bi_finish_def buildBidirPath_def ids p_def del: map_append)
  moreover have "valid_path Q p"
    using w ns(2) lab ps qs f(3,4) gt by (simp add: valid_path_def p_def)
  moreover have "loopless Q p" if pos: "\<forall>u e. usable Q u e \<longrightarrow> 0 < edge_time Q e"
  proof -
    have df: "distinct (path_ids (q_start Q) fs)" and db: "distinct (hops_ids (q_goal Q) qs)"
      using traces_distinct [OF ps(1)] traces_distinct [OF qs(1)] f(2) by simp_all
    have "x = ?m" if x: "x \<in> set (path_ids (q_start Q) fs)" "x \<in> set (hops_ids (q_goal Q) qs)" for x
    proof (rule ccontr)
      assume "x \<noteq> ?m"
      have "x \<in> set (hops_ids (d_root ?D) ps)" "x \<in> set (hops_ids (d_root ?E) qs)" using x f(2) by simp_all
      from trace_split [OF tf ps(1) this(1)] trace_split [OF tb qs(1) this(2)] lab \<open>x \<noteq> ?m\<close>
      obtain ps1 ps2 qs1 qs2 where sp: "ps = ps1 @ ps2" "timeScore (fwd b) x = Some (hops_time ?D ps1)" "ps2 \<noteq> []"
        "qs = qs1 @ qs2" "timeScore (bwd b) x = Some (hops_time ?E qs1)" by auto
      have posw: "0 \<le> path_time Q es \<and> (es \<noteq> [] \<longrightarrow> 0 < path_time Q es)" if "walk Q u es v" for u es v
        using that pos by (induction es arbitrary: u) (auto, (fastforce intro: add_pos_nonneg less_imp_le)+)
      obtain y where y: "awalk ?D (q_start Q) ps1 y" "awalk ?D y ps2 ?m"
        using wf sp(1) by (auto simp: awalk_append)
      have "0 < hops_time ?D ps2"
        using posw awalk_fwd [OF y(2)] hops_fwd [OF y(2)] sp(3) by auto
      moreover have "0 \<le> hops_time ?E qs2"
      proof -
        have "0 \<le> edge_time Q (snd q)" if "q \<in> set qs" for q
        proof -
          have "snd q \<in> set gs" using that by (auto simp: gs_def)
          from walk_edge [OF g(1) this] show ?thesis using pos by (auto simp: less_imp_le)
        qed
        then show ?thesis using sp(4) by (force simp: hops_time_def intro!: sum_list_nonneg)
      qed
      moreover have "mu b \<le> hops_time ?D ps1 + hops_time ?E qs1"
        using m sp by (auto simp: meet_inv_def)
      ultimately show False using lab ps(2) qs(2) sp by simp
    qed
    moreover have "?m \<notin> set (tl (rev (hops_ids (q_goal Q) qs)))"
    proof -
      have "hd (rev (hops_ids (q_goal Q) qs)) = ?m" using g(2) by (simp add: path_ids_def flip: g(2))
      then show ?thesis using db by (metis distinct_rev distinct.simps(2) hd_Cons_tl g(2) path_ids_def list.distinct(1))
    qed
    ultimately have "x \<notin> set (tl (rev (hops_ids (q_goal Q) qs)))" if "x \<in> set (path_ids (q_start Q) fs)" for x
      using that in_set_tlD [of x "rev (hops_ids (q_goal Q) qs)"] by auto
    then show ?thesis
      using df db by (auto simp: loopless_def p_def ids distinct_tl)
  qed
  ultimately show ?thesis by (auto simp: p_def)
qed


section \<open>The loop\<close>

definition bi_best :: "query \<Rightarrow> node \<Rightarrow> node \<Rightarrow> bidir \<Rightarrow> bool" where
  "bi_best Q s t b \<longleftrightarrow> (consistent (fwd_dir Q t) (node_set Q) \<longrightarrow> best_closed (fwd_dir Q t) (fwd b))
     \<and> (consistent (bwd_dir Q s) (node_set Q) \<longrightarrow> best_closed (bwd_dir Q s) (bwd b))"

definition bi_measure :: "query \<Rightarrow> bidir \<Rightarrow> nat \<times> nat" where
  "bi_measure Q b = (card (node_set Q - closedNodes (fwd b)) + card (node_set Q - closedNodes (bwd b)),
     length (pqueue (fwd b)) + length (pqueue (bwd b)))"

lemma fwd_step_progress:
  assumes inv: "bi_inv Q s t b" and best: "bi_best Q s t b" and ne: "pqueue (fwd b) \<noteq> []"
    and fin: "finite (node_set Q)" and root: "q_start Q \<in> node_set Q"
  shows "bi_best Q s t (fwd_step Q t b)"
    and "(bi_measure Q (fwd_step Q t b), bi_measure Q b) \<in> less_than <*lex*> less_than"
proof -
  obtain item rest where p: "pq_Pop (pqueue (fwd b)) = (item, rest)" by fastforce
  have f: "search_inv (fwd_dir Q t) (fwd b)" using inv by (simp add: bi_inv_def)
  then have ok: "pq_ok (pqueue (fwd b))" by (simp add: search_inv_def queue_inv_def)
  note sides = fwd_step_sides [OF p, of Q t]
  show "bi_best Q s t (fwd_step Q t b)"
    using best forward.expand_best [OF f _ _ p ne] root
    by (auto simp: bi_best_def sides best_closed_def)
  show "(bi_measure Q (fwd_step Q t b), bi_measure Q b) \<in> less_than <*lex*> less_than"
    using forward.expand_closes [OF f p ne _ _ fin] root pq_popE(3) [OF ok ne p]
    by (auto simp: bi_measure_def sides)
qed

lemma bwd_step_progress:
  assumes inv: "bi_inv Q s t b" and best: "bi_best Q s t b" and ne: "pqueue (bwd b) \<noteq> []"
    and fin: "finite (node_set Q)" and root: "q_goal Q \<in> node_set Q"
  shows "bi_best Q s t (bwd_step Q s b)"
    and "(bi_measure Q (bwd_step Q s b), bi_measure Q b) \<in> less_than <*lex*> less_than"
proof -
  obtain item rest where p: "pq_Pop (pqueue (bwd b)) = (item, rest)" by fastforce
  have f: "search_inv (bwd_dir Q s) (bwd b)" using inv by (simp add: bi_inv_def)
  then have ok: "pq_ok (pqueue (bwd b))" by (simp add: search_inv_def queue_inv_def)
  note sides = bwd_step_sides [OF p, of Q s]
  show "bi_best Q s t (bwd_step Q s b)"
    using best backward.expand_best [OF f _ _ p ne] root
    by (auto simp: bi_best_def sides best_closed_def)
  show "(bi_measure Q (bwd_step Q s b), bi_measure Q b) \<in> less_than <*lex*> less_than"
    using backward.expand_closes [OF f p ne _ _ fin] root pq_popE(3) [OF ok ne p]
    by (auto simp: bi_measure_def sides)
qed

definition loop_done :: "query \<Rightarrow> node \<Rightarrow> node \<Rightarrow> bidir \<Rightarrow> bool" where
  "loop_done Q s t b \<longleftrightarrow> bi_inv Q s t b \<and> bi_best Q s t b
     \<and> mu b \<le> top_g (pqueue (fwd b)) + top_g (pqueue (bwd b))"

lemma mu_max: "meet_inv b \<Longrightarrow> mu b \<le> maxFloat64"
  by (auto simp: meet_inv_def)

lemma bi_loop_returns:
  assumes fin: "finite (node_set Q)" and ready: "bi_ready Q"
  shows "bi_inv Q s t b \<Longrightarrow> bi_best Q s t b \<Longrightarrow>
    \<exists>r. bi_loop ctx Q s t iter b = Some r
      \<and> (case r of Inl err \<Rightarrow> \<exists>i. polled ctx i = Some err | Inr b' \<Rightarrow> loop_done Q s t b')"
proof (induction "bi_measure Q b" arbitrary: b iter rule: wf_induct_rule [OF wf_lex_prod [OF wf_less_than wf_less_than]])
  case 1
  note IH = "1.hyps" and inv = "1.prems"(1) and best = "1.prems"(2)
  have roots: "q_start Q \<in> node_set Q" "q_goal Q \<in> node_set Q" using ready by (simp_all add: bi_ready_def)
  show ?case
  proof (cases "pqueue (fwd b) = [] \<and> pqueue (bwd b) = []")
    case True
    have "mu b \<le> maxFloat64 + maxFloat64"
      using mu_max [of b] inv maxFloat64_pos unfolding bi_inv_def by linarith
    with True inv best show ?thesis
      by (subst bi_loop.simps) (simp add: loop_done_def top_g_def)
  next
    case ne: False
    show ?thesis
    proof (cases "polled ctx (iter + 1)")
      case (Some err)
      with ne show ?thesis by (subst bi_loop.simps) auto
    next
      case None
      let ?f = "top_g (pqueue (fwd b))" and ?w = "top_g (pqueue (bwd b))"
      have eq: "bi_loop ctx Q s t iter b =
          (if ?f + ?w \<ge> mu b then Some (Inr b)
           else if pqueue (fwd b) \<noteq> [] \<and> (pqueue (bwd b) = [] \<or> ?f \<le> ?w)
           then bi_loop ctx Q s t (iter + 1) (fwd_step Q t b)
           else bi_loop ctx Q s t (iter + 1) (bwd_step Q s b))"
        using ne None by (subst bi_loop.simps) (simp add: Let_def)
      consider (stop) "?f + ?w \<ge> mu b"
        | (fwd) "\<not> ?f + ?w \<ge> mu b" "pqueue (fwd b) \<noteq> [] \<and> (pqueue (bwd b) = [] \<or> ?f \<le> ?w)"
        | (bwd) "\<not> ?f + ?w \<ge> mu b" "\<not> (pqueue (fwd b) \<noteq> [] \<and> (pqueue (bwd b) = [] \<or> ?f \<le> ?w))"
        by blast
      then show ?thesis
      proof cases
        case stop
        then show ?thesis using inv best by (simp add: eq loop_done_def)
      next
        case fwd
        then have q: "pqueue (bidir.fwd b) \<noteq> []" by simp
        from IH [OF fwd_step_progress(2) [OF inv best q fin roots(1)] fwd_step_inv [OF inv q]
            fwd_step_progress(1) [OF inv best q fin roots(1)], of "iter + 1"]
        show ?thesis unfolding eq using fwd by simp
      next
        case bwd
        then have q: "pqueue (bidir.bwd b) \<noteq> []" using ne by auto
        from IH [OF bwd_step_progress(2) [OF inv best q fin roots(2)] bwd_step_inv [OF inv q]
            bwd_step_progress(1) [OF inv best q fin roots(2)], of "iter + 1"]
        show ?thesis unfolding eq using bwd by auto
      qed
    qed
  qed
qed

lemma init_bidir_inv:
  assumes "Nodes (q_graph Q) (q_start Q) = Some s" "Nodes (q_graph Q) (q_goal Q) = Some t" "q_start Q \<noteq> q_goal Q"
  shows "bi_inv Q s t (init_bidir Q s t)" "bi_best Q s t (init_bidir Q s t)"
proof -
  have "search_inv (fwd_dir Q t) (init_side Q (q_start Q) s t)"
    unfolding init_side_def by (rule single_label_inv) (use assms in \<open>simp_all add: hval_def\<close>)
  moreover have "search_inv (bwd_dir Q s) (init_side Q (q_goal Q) t s)"
    unfolding init_side_def by (rule single_label_inv) (use assms in \<open>simp_all add: hval_def\<close>)
  moreover have "meet_inv (init_bidir Q s t)"
    using assms(3) by (auto simp: meet_inv_def init_bidir_def init_side_def)
  ultimately show "bi_inv Q s t (init_bidir Q s t)" by (simp add: bi_inv_def init_bidir_def)
  show "bi_best Q s t (init_bidir Q s t)"
    by (simp add: bi_best_def init_bidir_def init_side_def best_closed_def)
qed

text \<open>A reached root of the other side means that the sides have met.\<close>

lemma root_label:
  assumes "tree_inv D st" shows "timeScore st (d_root D) = Some 0"
proof -
  have "timeScore st (d_root D) \<noteq> None" using assms by (simp add: tree_inv_def)
  then obtain ps where ps: "traces D st (d_root D) ps" "timeScore st (d_root D) = Some (hops_time D ps)"
    by (rule tree_invE [OF assms])
  from traces_unique [OF ps(1) traces_root [OF traces_rootless [OF ps(1)]]] ps(2) show ?thesis by simp
qed

definition times_bounded :: "query \<Rightarrow> bool" where
  "times_bounded Q \<longleftrightarrow> (\<forall>u es v. walk Q u es v \<and> distinct (path_ids u es) \<longrightarrow> path_time Q es < maxFloat64 / 2)"

lemma closed_label:
  assumes "tree_inv D st" "v \<in> closedNodes st"
  obtains ps where "timeScore st v = Some (hops_time D ps)" "awalk D (d_root D) ps v" "distinct (hops_ids (d_root D) ps)"
proof -
  have "timeScore st v \<noteq> None" using assms by (auto simp: tree_inv_def)
  then obtain ps where "traces D st v ps" "timeScore st v = Some (hops_time D ps)" by (rule tree_invE [OF assms(1)])
  then show thesis using that traces_walk traces_distinct by blast
qed

lemma fwd_time_bounded:
  assumes "times_bounded Q" "awalk (fwd_dir Q t) (q_start Q) ps v" "distinct (hops_ids (q_start Q) ps)"
  shows "hops_time (fwd_dir Q t) ps < maxFloat64 / 2"
  using assms awalk_fwd [OF assms(2)] hops_fwd [OF assms(2)] by (auto simp: times_bounded_def)

lemma hops_time_rev: "hops_time (bwd_dir Q s) qs = path_time Q (rev (map snd qs))"
  by (simp add: hops_time_def path_time_def rev_map comp_def sum_list_rev flip: sum_list_rev [of "map _ qs"])

lemma bwd_time_bounded:
  assumes "times_bounded Q" "bi_ready Q" "awalk (bwd_dir Q s) (q_goal Q) qs v" "distinct (hops_ids (q_goal Q) qs)"
  shows "hops_time (bwd_dir Q s) qs < maxFloat64 / 2"
proof -
  from awalk_bwd [OF _ _ assms(3)] assms(2,4) have "walk Q v (rev (map snd qs)) (q_goal Q)"
    "distinct (path_ids v (rev (map snd qs)))" by (simp_all add: bi_ready_def)
  with assms(1) show ?thesis unfolding times_bounded_def hops_time_rev by blast
qed

lemma bi_complete:
  assumes fin: "loop_done Q s t b" and ready: "bi_ready Q" and start: "q_start Q \<notin> q_blockedNodes Q"
    and rev: "rev_ok (q_graph Q)" "RevAdj (q_graph Q) \<noteq> None" and tb: "times_bounded Q" and reach: "reachable Q"
  shows "mu b < maxFloat64"
proof (rule ccontr)
  assume "\<not> mu b < maxFloat64"
  let ?D = "fwd_dir Q t" and ?E = "bwd_dir Q s"
  have f: "search_inv ?D (fwd b)" and w: "search_inv ?E (bwd b)" and m: "meet_inv b"
    using fin by (simp_all add: loop_done_def bi_inv_def)
  have tree: "tree_inv ?D (fwd b)" "tree_inv ?E (bwd b)" using f w by (simp_all add: search_inv_def)
  have mu: "maxFloat64 \<le> top_g (pqueue (fwd b)) + top_g (pqueue (bwd b))" "maxFloat64 \<le> mu b"
    using fin \<open>\<not> mu b < maxFloat64\<close> by (simp_all add: loop_done_def)
  from reach obtain es where es: "walk Q (q_start Q) es (q_goal Q)" by (auto simp: reachable_def)
  show False
  proof (cases "pqueue (fwd b) = [] \<or> pqueue (bwd b) = []")
    case False
    have half: "top_g (pqueue st) < maxFloat64 / 2"
      if "queue_inv D st" and ne: "pqueue st \<noteq> []"
        and bd: "\<And>ps v. awalk D (d_root D) ps v \<Longrightarrow> distinct (hops_ids (d_root D) ps) \<Longrightarrow> hops_time D ps < maxFloat64 / 2"
      for D st
    proof -
      obtain i q where q: "pqueue st = i # q" using ne by (cases "pqueue st") auto
      then have "i \<in> set (pqueue st)" by simp
      with that(1) obtain ps where "awalk D (d_root D) ps (pq_nodeID i)" "distinct (hops_ids (d_root D) ps)"
        "pq_gCost i = hops_time D ps" unfolding queue_inv_def by blast
      with bd q show ?thesis by (simp add: top_g_def)
    qed
    have "top_g (pqueue (fwd b)) < maxFloat64 / 2"
      using False f fwd_time_bounded [OF tb] by (intro half [of ?D]) (auto simp: search_inv_def)
    moreover have "top_g (pqueue (bwd b)) < maxFloat64 / 2"
      using False w bwd_time_bounded [OF tb ready] by (intro half [of ?E]) (auto simp: search_inv_def)
    ultimately show False using mu(1) by linarith
  next
    case True
    then show False
    proof
      assume "pqueue (fwd b) = []"
      from forward.exhausted [OF f this, of "hops_of es" "q_goal Q"] es
      have "q_goal Q \<in> closedNodes (fwd b)" by (simp add: awalk_hops_of)
      then obtain ps where ps: "timeScore (fwd b) (q_goal Q) = Some (hops_time ?D ps)"
        "awalk ?D (d_root ?D) ps (q_goal Q)" "distinct (hops_ids (d_root ?D) ps)" by (rule closed_label [OF tree(1)])
      have "mu b \<le> hops_time ?D ps + 0"
        using meet_bound [OF m ps(1)] root_label [OF tree(2)] by simp
      moreover have "hops_time ?D ps < maxFloat64 / 2"
        using fwd_time_bounded [OF tb, of t ps "q_goal Q"] ps(2,3) by simp
      ultimately show False using mu(2) maxFloat64_pos by linarith
    next
      assume e: "pqueue (bwd b) = []"
      obtain qs where "awalk ?E (q_goal Q) qs (q_start Q)"
        using bwd_walk [OF rev es] start ready by (auto simp: bi_ready_def)
      with backward.exhausted [OF w e, of qs "q_start Q"]
      have "q_start Q \<in> closedNodes (bwd b)" by simp
      then obtain ps where ps: "timeScore (bwd b) (q_start Q) = Some (hops_time ?E ps)"
        "awalk ?E (d_root ?E) ps (q_start Q)" "distinct (hops_ids (d_root ?E) ps)" by (rule closed_label [OF tree(2)])
      have "mu b \<le> 0 + hops_time ?E ps"
        using meet_bound [OF m _ ps(1)] root_label [OF tree(1)] by simp
      moreover have "hops_time ?E ps < maxFloat64 / 2"
        using bwd_time_bounded [OF tb ready, of s ps "q_start Q"] ps(2,3) by simp
      ultimately show False using mu(2) maxFloat64_pos by linarith
    qed
  qed
qed

text \<open>Without a heuristic the front of a queue has the smallest score of the open nodes.\<close>

lemma top_open:
  assumes q: "queue_inv D st" and h: "\<And>v. d_h D v = 0" and y: "timeScore st y = Some t" "y \<notin> closedNodes st"
  shows "top_g (pqueue st) \<le> t"
proof -
  from q y obtain i where i: "i \<in> set (pqueue st)" "pq_nodeID i = y" "pq_gCost i = t" unfolding queue_inv_def by blast
  then have ne: "pqueue st \<noteq> []" by auto
  have f: "pq_fCost j = pq_gCost j" if "j \<in> set (pqueue st)" for j
    using q that h by (auto simp: queue_inv_def)
  have "pq_fCost (hd (pqueue st)) \<le> pq_fCost i" using q ne i(1) by (intro pq_front) (auto simp: queue_inv_def)
  with f i ne show ?thesis by (cases "pqueue st") (auto simp: top_g_def)
qed

lemma awalk_nonneg:
  "awalk D u ps v \<Longrightarrow> (\<And>u x e. d_arc D u x e \<Longrightarrow> 0 \<le> d_time D e) \<Longrightarrow> 0 \<le> hops_time D ps"
  by (induction D u ps v rule: awalk.induct) (auto intro: add_nonneg_nonneg)

lemma bi_fastest:
  assumes fin: "loop_done Q s t b" and ready: "bi_ready Q" and start: "q_start Q \<notin> q_blockedNodes Q"
    and rev: "rev_ok (q_graph Q)" "RevAdj (q_graph Q) \<noteq> None"
    and h: "q_heuristicSpeed Q \<le> 0" and pos: "\<And>u e. e \<in> set (Edges (q_graph Q) u) \<Longrightarrow> 0 \<le> edge_time Q e"
    and es: "walk Q (q_start Q) es (q_goal Q)"
  shows "mu b \<le> path_time Q es"
proof -
  let ?D = "fwd_dir Q t" and ?E = "bwd_dir Q s"
  have f: "search_inv ?D (fwd b)" and w: "search_inv ?E (bwd b)" and m: "meet_inv b"
    using fin by (simp_all add: loop_done_def bi_inv_def)
  have tree: "tree_inv ?D (fwd b)" "tree_inv ?E (bwd b)" using f w by (simp_all add: search_inv_def)
  have h0: "hval Q n v = 0" for n v
    using h by (simp add: hval_def heuristic_to_def heuristicHours_def Let_def split: option.splits)
  have "consistent ?D (node_set Q)" "consistent ?E (node_set Q)"
    using pos by (auto simp: consistent_def h0 usable_def back_arc_def)
  then have best: "best_closed ?D (fwd b)" "best_closed ?E (bwd b)"
    using fin by (simp_all add: loop_done_def bi_best_def)
  show ?thesis
  proof (cases "q_goal Q \<in> closedNodes (fwd b)")
    case True
    then obtain ps where ps: "timeScore (fwd b) (q_goal Q) = Some (hops_time ?D ps)" by (rule closed_label [OF tree(1)])
    have "mu b \<le> hops_time ?D ps + 0" using meet_bound [OF m ps] root_label [OF tree(2)] by simp
    also have "\<dots> \<le> path_time Q es"
      using best(1) True ps es by (fastforce simp: best_closed_def awalk_hops_of dest: bspec [of _ _ "q_goal Q"] spec [of _ "hops_of es"])
    finally show ?thesis .
  next
    case False
    have "awalk ?D (d_root ?D) (hops_of es) (q_goal Q)" using es by (simp add: awalk_hops_of)
    from open_on_walk [OF f this False] best(1) obtain y gy ps1 ps2 where y: "timeScore (fwd b) y = Some gy"
      "y \<notin> closedNodes (fwd b)" "hops_of es = ps1 @ ps2" "awalk ?D (d_root ?D) ps1 y" "awalk ?D y ps2 (q_goal Q)"
      "gy \<le> hops_time ?D ps1" by blast
    define fs where "fs = map snd ps2"
    have total: "path_time Q es = hops_time ?D ps1 + path_time Q fs"
      using time_hops_of [of Q t es] hops_fwd(1) [OF y(5)] by (simp add: y(3) fs_def)
    have wfs: "walk Q y fs (q_goal Q)" using awalk_fwd [OF y(5)] by (simp add: fs_def)
    have yV: "y \<in> node_set Q" "y \<notin> q_blockedNodes Q"
    proof -
      have "walk Q (q_start Q) (map snd ps1) y" using awalk_fwd y(4) by simp
      then show "y \<in> node_set Q" "y \<notin> q_blockedNodes Q"
        using ready start by (cases "map snd ps1" rule: rev_cases; auto simp: walk_snoc usable_def bi_ready_def)+
    qed
    from bwd_walk [OF rev wfs yV] obtain qs where qs: "awalk ?E (q_goal Q) qs y" "map snd qs = rev fs" by blast
    have tqs: "hops_time ?E qs = path_time Q fs" by (simp add: hops_time_rev qs(2))
    show ?thesis
    proof (cases "y \<in> closedNodes (bwd b)")
      case True
      then obtain rs where rs: "timeScore (bwd b) y = Some (hops_time ?E rs)" by (rule closed_label [OF tree(2)])
      have "hops_time ?E rs \<le> hops_time ?E qs"
        using best(2) True rs qs(1) by (force simp: best_closed_def)
      moreover have "mu b \<le> gy + hops_time ?E rs" by (rule meet_bound [OF m y(1) rs])
      ultimately show ?thesis using y(6) total tqs by linarith
    next
      case False
      have "awalk ?E (d_root ?E) qs y" using qs(1) by simp
      from open_on_walk [OF w this False] best(2) obtain z gz qs1 qs2 where z: "timeScore (bwd b) z = Some gz"
        "z \<notin> closedNodes (bwd b)" "qs = qs1 @ qs2" "awalk ?E z qs2 y" "gz \<le> hops_time ?E qs1" by blast
      have "0 \<le> hops_time ?E qs2"
        using z(4) pos by (intro awalk_nonneg [of ?E]) (auto simp: back_arc_def)
      moreover have "top_g (pqueue (fwd b)) \<le> gy"
        using f y by (intro top_open [of ?D]) (auto simp: search_inv_def h0)
      moreover have "top_g (pqueue (bwd b)) \<le> gz"
        using w z by (intro top_open [of ?E]) (auto simp: search_inv_def h0)
      moreover have "mu b \<le> top_g (pqueue (fwd b)) + top_g (pqueue (bwd b))"
        using fin by (simp add: loop_done_def)
      ultimately show ?thesis using y(6) z(3,5) total tqs by simp
    qed
  qed
qed

section \<open>What the search guarantees\<close>

definition search_ready :: "query \<Rightarrow> bool" where
  "search_ready Q \<longleftrightarrow> finite (node_set Q) \<and> rev_ok (q_graph Q)
     \<and> q_start Q \<notin> q_blockedNodes Q \<and> q_goal Q \<notin> q_blockedNodes Q
     \<and> (\<forall>v\<in>node_set Q. 0 \<le> v) \<and> times_bounded Q
     \<and> (\<forall>u. \<forall>e\<in>set (Edges (q_graph Q) u). 0 < edge_time Q e)"

lemma path_time_nonneg:
  "walk Q u es v \<Longrightarrow> (\<And>u e. e \<in> set (Edges (q_graph Q) u) \<Longrightarrow> 0 \<le> edge_time Q e) \<Longrightarrow> 0 \<le> path_time Q es"
  by (induction es arbitrary: u) (auto simp: usable_def intro!: add_nonneg_nonneg)

lemma biAStar_outcome:
  assumes ready: "search_ready Q"
  shows "\<exists>r. biAStar ctx Q = Some r \<and> outcome ctx Q (q_heuristicSpeed Q \<le> 0) r"
proof (cases "RevAdj (q_graph Q) = None")
  case True
  have "q_heuristicSpeed Q \<le> 0 \<longrightarrow> consistent (fwd_dir Q n) (node_set Q)" for n
    using ready
    by (auto simp: consistent_def hval_def heuristic_to_def heuristicHours_def Let_def search_ready_def usable_def less_imp_le
        split: option.splits)
  then obtain r where "aStar ctx Q = Some r" "outcome ctx Q (q_heuristicSpeed Q \<le> 0) r"
    using aStar_outcome [of Q "q_heuristicSpeed Q \<le> 0" ctx] ready by (auto simp: search_ready_def)
  moreover have "biAStar ctx Q = aStar ctx Q"
    using True by (simp add: biAStar_def aStar_def split: option.splits)
  ultimately show ?thesis by simp
next
  case rev: False
  show ?thesis
  proof (cases "ctx 0")
    case (Some err)
    then have "polled ctx 0 = Some err" by (simp add: polled_def)
    with Some show ?thesis by (auto simp: biAStar_def outcome_def)
  next
    case None
    show ?thesis
    proof (cases "\<exists>s t. Nodes (q_graph Q) (q_start Q) = Some s \<and> Nodes (q_graph Q) (q_goal Q) = Some t \<and> q_start Q \<noteq> q_goal Q")
      case True
      then obtain s t where st: "Nodes (q_graph Q) (q_start Q) = Some s" "Nodes (q_graph Q) (q_goal Q) = Some t"
        "q_start Q \<noteq> q_goal Q" by blast
      have bi: "bi_ready Q" using st ready by (auto simp: bi_ready_def search_ready_def)
      have fin: "finite (node_set Q)" using ready by (simp add: search_ready_def)
      from bi_loop_returns [OF fin bi init_bidir_inv [OF st], of ctx 0]
      obtain r where r: "bi_loop ctx Q s t 0 (init_bidir Q s t) = Some r"
        "case r of Inl err \<Rightarrow> \<exists>i. polled ctx i = Some err | Inr b' \<Rightarrow> loop_done Q s t b'" by blast
      have eq: "biAStar ctx Q = (case r of Inl err \<Rightarrow> Some (Inl (ErrCtx err)) | Inr b \<Rightarrow> bi_finish Q b)"
        using None rev st r(1) by (cases r) (auto simp: biAStar_def)
      show ?thesis
      proof (cases r)
        case (Inl err)
        with r eq show ?thesis by (auto simp: outcome_def)
      next
        case (Inr b)
        with r(2) have fin_b: "loop_done Q s t b" by simp
        then have inv: "bi_inv Q s t b" and m: "meet_inv b" by (simp_all add: loop_done_def bi_inv_def)
        show ?thesis
        proof (cases "meetingNode b < 0 \<or> mu b = maxFloat64")
          case True
          have "mu b = maxFloat64"
          proof (rule ccontr)
            assume "mu b \<noteq> maxFloat64"
            with m obtain g where "timeScore (fwd b) (meetingNode b) = Some g" by (auto simp: meet_inv_def)
            moreover have "tree_inv (fwd_dir Q t) (fwd b)" using inv by (simp add: bi_inv_def search_inv_def)
            ultimately have "meetingNode b \<in> node_set Q"
              using forward.tree_V [of Q t "fwd b" "meetingNode b"] st by auto
            with ready have "0 \<le> meetingNode b" by (simp only: search_ready_def)
            with True \<open>mu b \<noteq> maxFloat64\<close> show False by auto
          qed
          with bi_complete [OF fin_b bi] ready rev have "\<not> reachable Q" by (auto simp: search_ready_def)
          with True Inr eq show ?thesis by (simp add: bi_finish_def outcome_def)
        next
          case False
          from bi_finish_valid [OF inv bi this] obtain p where p: "bi_finish Q b = Some (Inr p)" "valid_path Q p"
            "pr_TimeHours p = mu b" "(\<forall>u e. usable Q u e \<longrightarrow> 0 < edge_time Q e) \<longrightarrow> loopless Q p" by blast
          have "path_ok Q p" using p ready by (auto simp: path_ok_def search_ready_def usable_def)
          moreover have "fastest Q p" if "q_heuristicSpeed Q \<le> 0"
            unfolding fastest_def p(3)
            using bi_fastest [OF fin_b bi _ _ _ that] ready rev by (auto simp: search_ready_def less_imp_le)
          ultimately show ?thesis using Inr eq p(1) by (simp add: outcome_def)
        qed
      qed
    next
      case False
      have "fastest Q \<lparr>pr_Nodes = ns, pr_Edges = [], pr_DistanceKm = 0, pr_TimeHours = 0\<rparr>" for ns
        using path_time_nonneg [of Q] ready by (auto simp: fastest_def search_ready_def less_imp_le)
      with False None rev show ?thesis
        by (cases "Nodes (q_graph Q) (q_start Q)"; cases "Nodes (q_graph Q) (q_goal Q)")
           (auto simp: biAStar_def outcome_def path_ok_defs)
    qed
  qed
qed

text \<open>
  C2. The bidirectional search returns on every ready query (a finite graph with its
  reverse adjacency, positive edge times, non-negative identifiers, free end points), for
  every heuristic speed: \<open>ErrNoPath\<close> means that no usable path exists, a result is a usable
  path without repetition, with its nodes and the exact sums of its edges, and with the
  heuristic off it is a fastest one.
\<close>

theorem biAStar_correct:
  assumes "search_ready Q"
  shows "\<exists>r. biAStar ctx Q = Some r \<and> outcome ctx Q (q_heuristicSpeed Q \<le> 0) r"
  by (rule biAStar_outcome [OF assms])

lemma two_query_ready: "search_ready two_query"
proof -
  have walks: "path_time two_query es \<le> 1 / 5" if "walk two_query u es v" for u es v
  proof (cases es)
    case (Cons e fs)
    with that have "u = 1 \<and> e_To e = 2 \<and> edge_time two_query e = 1 / 5 \<and> fs = []"
      by (cases fs) (auto simp: usable_def edgeTravelTimeHours_def split: if_splits)
    with Cons show ?thesis by simp
  qed simp
  have "(2::real) \<le> 2 ^ 1023" using power_increasing [of 1 1023 "2::real"] by simp
  with maxFloat64_ge have "1 / 5 < maxFloat64 / 2" by linarith
  with walks have "times_bounded two_query" by (fastforce simp: times_bounded_def intro: le_less_trans)
  moreover have "rev_ok two_nodes"
    by (auto simp: rev_ok_def two_nodes_def AddEdge_def NewGraph_def)
  ultimately show ?thesis by (auto simp: search_ready_def edgeTravelTimeHours_def)
qed

lemma two_query_found:
  assumes "biAStar (\<lambda>_. None) two_query = Some r" "outcome (\<lambda>_. None) two_query c r"
  shows "\<exists>p. r = Inr p \<and> path_ok two_query p"
proof -
  have "reachable two_query"
    by (auto simp: reachable_def usable_def passes_def intro!: exI [of _ "Edges two_nodes 1"])
  with assms(2) show ?thesis
    by (cases r) (auto simp: outcome_def polled_def split: route_error.splits if_splits)
qed

theorem biAStar_correct_witness:
  "\<exists>p. biAStar (\<lambda>_. None) two_query = Some (Inr p) \<and> path_ok two_query p"
  using biAStar_correct [OF two_query_ready, of "\<lambda>_. None"] two_query_found by metis

section \<open>A slower path under an admissible heuristic\<close>

text \<open>
  Seven nodes on one meridian, with the edge times equal to or above the heuristic's
  differences.  The front entries of the two queues are dead ends with small \<open>fCost\<close> and
  large \<open>gCost\<close>; their sum reaches the cost of the path through node 4 before the faster
  path through nodes 2 and 5 is seen.
\<close>

definition mk_node :: "node_id \<Rightarrow> float64 \<Rightarrow> node" where
  "mk_node i lat = \<lparr>n_ID = i, n_Lat = lat, n_Lng = 0, n_Flags = 0\<rparr>"

definition mk_edge :: "node_id \<Rightarrow> float64 \<Rightarrow> edge" where
  "mk_edge to t = \<lparr>e_To = to, e_DistanceKm = 111.195 * t, e_SpeedKmH = 111.195, e_TimeHours = t,
     e_Kind = HWPrimary, e_Flags = 0, e_NameIdx = 0\<rparr>"

definition meridian :: graph where
  "meridian =
     foldl (\<lambda>g (u, e). AddEdge g u e)
       (foldl AddNode NewGraph [mk_node 1 0, mk_node 2 1, mk_node 3 9, mk_node 4 5, mk_node 5 9, mk_node 6 1, mk_node 7 10])
       [(1, mk_edge 2 2), (1, mk_edge 3 9), (1, mk_edge 4 (15 / 2)), (2, mk_edge 5 8), (5, mk_edge 7 2),
        (6, mk_edge 7 9), (4, mk_edge 7 (15 / 2))]"

definition meridian_query :: query where
  "meridian_query = \<lparr>q_graph = meridian, q_start = 1, q_goal = 7, q_edgeOK = None, q_speedFn = None,
     q_heuristicSpeed = 111.195, q_blockedEdges = {}, q_blockedNodes = {}\<rparr>"

lemma meridian_Edges:
  "Edges meridian = (\<lambda>_. [])(1 := [mk_edge 2 2, mk_edge 3 9, mk_edge 4 (15 / 2)], 2 := [mk_edge 5 8],
     5 := [mk_edge 7 2], 6 := [mk_edge 7 9], 4 := [mk_edge 7 (15 / 2)])"
  by (auto simp: meridian_def NewGraph_def fun_eq_iff mk_edge_def)

lemma meridian_Nodes:
  "Nodes meridian = [1 \<mapsto> mk_node 1 0, 2 \<mapsto> mk_node 2 1, 3 \<mapsto> mk_node 3 9, 4 \<mapsto> mk_node 4 5, 5 \<mapsto> mk_node 5 9,
     6 \<mapsto> mk_node 6 1, 7 \<mapsto> mk_node 7 10]"
  by (auto simp: meridian_def NewGraph_def fun_eq_iff mk_edge_def AddEdge_def or_flags_def mk_node_def)

lemma meridian_RevAdj:
  "RevAdj meridian = Some ((\<lambda>_. [])(2 := [1], 3 := [1], 4 := [1], 5 := [2], 7 := [5, 6, 4]))"
  by (auto simp: meridian_def NewGraph_def fun_eq_iff mk_edge_def AddEdge_def)

lemma heuristic_meridian:
  "heuristic_to (22239 / 200) (mk_node i a) (mk_node j b) = \<bar>a - b\<bar>"
proof -
  have "flatDistKm b 0 a 0 k = \<bar>a - b\<bar> * 111.195" for k
  proof -
    define K :: real where "K = 111.195"
    have "(a - b) * K * ((a - b) * K) + (0 - 0) * K * k * ((0 - 0) * K * k) = ((a - b) * K)\<^sup>2"
      by (simp add: power2_eq_square)
    then have "flatDistKm b 0 a 0 k = \<bar>(a - b) * K\<bar>"
      unfolding flatDistKm_def Let_def K_def [symmetric] by (simp only: real_sqrt_abs)
    also have "\<dots> = \<bar>a - b\<bar> * K" using abs_of_pos [of K] by (simp add: abs_mult) (simp add: K_def)
    finally show ?thesis by (simp only: K_def)
  qed
  then show ?thesis by (simp add: heuristic_to_def heuristicHours_def mk_node_def)
qed

lemma mk_edge_simps [simp]:
  "e_To (mk_edge v t) = v" "e_DistanceKm (mk_edge v t) = 111.195 * t"
  "0 < t \<Longrightarrow> edgeTravelTimeHours (mk_edge v t) None = t" "passes None e"
  by (simp_all add: mk_edge_def edgeTravelTimeHours_def passes_def)

lemmas meridian_simps = meridian_Edges meridian_Nodes meridian_RevAdj meridian_query_def heuristic_meridian

lemma heap_eval:
  "pq_Push [] x = [x]"
  "pq_Push [a] x = (if pq_fCost x < pq_fCost a then [x, a] else [a, x])"
  "pq_Push [a, b] x = (if pq_fCost x < pq_fCost a then [x, b, a] else [a, b, x])"
  "pq_Pop [x] = (x, [])"
  by (simp_all add: pq_Push_def pq_Pop_def heap_Push_def heap_Pop_def heap_up.simps [of _ _ 0] heap_up.simps [of _ _ "Suc 0"] heap_up.simps [of _ _ "Suc (Suc 0)"]
    heap_down.simps [of _ _ 0 0] swap_def pq_Less_def Let_def)


lemma meridian_run:
  "biAStar (\<lambda>_. None) meridian_query = Some (Inr
     \<lparr>pr_Nodes = [mk_node 1 0, mk_node 4 5, mk_node 7 10], pr_Edges = [mk_edge 4 (15 / 2), mk_edge 7 (15 / 2)],
      pr_DistanceKm = 111.195 * 15, pr_TimeHours = 15\<rparr>)"
proof -
  have "(2::real) ^ 5 \<le> 2 ^ 1023" by (rule power_increasing) simp_all
  then have M: "\<not> maxFloat64 \<le> 9" "15 < maxFloat64" "maxFloat64 \<noteq> 15" "\<not> maxFloat64 \<le> 0" using maxFloat64_ge by auto
  show ?thesis
    by (simp add: biAStar_def bi_loop.simps [of _ _ _ _ 0] bi_loop.simps [of _ _ _ _ "Suc 0"]
      bi_loop.simps [of _ _ _ _ "Suc (Suc 0)"] M polled_def top_g_def
      fwd_step_def bwd_step_def init_bidir_def init_side_def meridian_simps heap_eval Let_def fwd_relax_def bwd_relax_def
      improves_def stale_def set_label_def meet_at_def tryMeet_def best_edge_def predecessors_def bi_finish_def
      buildBidirPath_def fwd_segment.simps [of _ _ 1] bwd_segment.simps [of _ _ 7])
qed

lemma meridian_speed_bounded:
  "speed_bounded meridian_query (mk_node i a)"
proof -
  have flat: "flatDistKm a 0 b 0 k = \<bar>b - a\<bar> * 111.195" for a b k
    using heuristic_meridian [of 1 b 1 a] by (simp add: flatDistKm_def heuristic_to_def heuristicHours_def mk_node_def Let_def)
  show ?thesis
    unfolding speed_bounded_def
    by (auto simp: meridian_simps usable_def flat mk_node_def split: if_splits)
qed

lemma meridian_walk:
  "walk meridian_query 1 [mk_edge 2 2, mk_edge 5 8, mk_edge 7 2] 7"
  by (simp add: usable_def meridian_simps)

text \<open>
  With an admissible and consistent heuristic (no edge is faster than the heuristic
  speed) the bidirectional search can return a path that is not fastest: it stops on the
  sum of the \<open>gCost\<close> of the two front entries, which are the smallest of their queues in
  \<open>fCost\<close> and not in \<open>gCost\<close>.
\<close>

theorem biAStar_not_fastest:
  "Nodes meridian 7 = Some (mk_node 7 10) \<and> speed_bounded meridian_query (mk_node 7 10)
   \<and> (\<exists>p. biAStar (\<lambda>_. None) meridian_query = Some (Inr p) \<and> pr_TimeHours p = 15
         \<and> (\<exists>es. walk meridian_query 1 es 7 \<and> path_time meridian_query es = 12))"
proof (intro conjI exI)
  show "Nodes meridian 7 = Some (mk_node 7 10)" by (simp add: meridian_Nodes)
  show "path_time meridian_query [mk_edge 2 2, mk_edge 5 8, mk_edge 7 2] = 12"
    by (simp add: meridian_query_def)
qed (rule meridian_speed_bounded meridian_run meridian_walk | simp)+

end
