(* ===== verification/GoStd.thy ===== *)
theory GoStd
  imports Geo_Prelude
begin

text \<open>
  Parts of Go's standard library that several components use: sorting a slice by a
  comparison and writing an integer in decimal.
\<close>

section \<open>sort.Slice\<close>

text \<open>
  \<open>sort.Slice\<close> rearranges its argument, and puts it in order when the comparison is a strict
  weak order; it is not stable, so nothing else is known of its result.  The models that
  use it take it as an argument with this law.  Insertion sort, which the library runs on
  short slices, satisfies it.
\<close>

definition strict_weak :: "('a \<Rightarrow> 'a \<Rightarrow> bool) \<Rightarrow> bool" where
  "strict_weak lt \<longleftrightarrow> (\<forall>x y. lt x y \<longrightarrow> \<not> lt y x) \<and> (\<forall>x y z. lt x z \<longrightarrow> lt x y \<or> lt y z)"

definition sort_law :: "(('a \<Rightarrow> 'a \<Rightarrow> bool) \<Rightarrow> 'a list \<Rightarrow> 'a list) \<Rightarrow> bool" where
  "sort_law srt \<longleftrightarrow> (\<forall>lt xs. mset (srt lt xs) = mset xs
     \<and> (strict_weak lt \<longrightarrow> sorted_wrt (\<lambda>x y. \<not> lt y x) (srt lt xs)))"

fun insert_before :: "('a \<Rightarrow> 'a \<Rightarrow> bool) \<Rightarrow> 'a \<Rightarrow> 'a list \<Rightarrow> 'a list" where
  "insert_before lt x [] = [x]"
| "insert_before lt x (y # ys) = (if lt y x then y # insert_before lt x ys else x # y # ys)"

definition insertion_sort :: "('a \<Rightarrow> 'a \<Rightarrow> bool) \<Rightarrow> 'a list \<Rightarrow> 'a list" where
  "insertion_sort lt xs = foldr (insert_before lt) xs []"

lemma mset_insert_before [simp]: "mset (insert_before lt x ys) = add_mset x (mset ys)"
  by (induction ys) auto

lemma insert_before_sorted:
  "strict_weak lt \<Longrightarrow> sorted_wrt (\<lambda>x y. \<not> lt y x) ys \<Longrightarrow> sorted_wrt (\<lambda>x y. \<not> lt y x) (insert_before lt x ys)"
proof (induction ys)
  case (Cons y ys)
  have set_ins: "set (insert_before lt x ys) = insert x (set ys)" by (metis mset_insert_before set_mset_add_mset_insert set_mset_mset)
  have "\<not> lt z x" if "\<not> lt y x" "z \<in> set ys" for z
  proof
    assume "lt z x"
    then have "lt z y \<or> lt y x" using Cons.prems(1) unfolding strict_weak_def by blast
    moreover have "\<not> lt z y" using Cons.prems(2) that(2) by auto
    ultimately show False using that(1) by blast
  qed
  moreover have "lt y x \<Longrightarrow> \<not> lt x y" using Cons.prems(1) unfolding strict_weak_def by blast
  ultimately show ?case
    using Cons.IH [OF Cons.prems(1)] Cons.prems(2) by (cases "lt y x") (auto simp: set_ins)
qed simp

lemma sort_law_insertion: "sort_law insertion_sort"
proof -
  have "mset (foldr (insert_before lt) xs []) = mset xs" for lt and xs :: "'a list"
    by (induction xs) auto
  moreover have "sorted_wrt (\<lambda>x y. \<not> lt y x) (foldr (insert_before lt) xs [])" if "strict_weak lt" for lt and xs :: "'a list"
    by (induction xs) (auto intro: insert_before_sorted [OF that])
  ultimately show ?thesis by (simp add: sort_law_def insertion_sort_def)
qed

lemma sort_law_set: "sort_law srt \<Longrightarrow> set (srt lt xs) = set xs"
  unfolding sort_law_def by (metis set_mset_mset)

lemma sort_law_length: "sort_law srt \<Longrightarrow> length (srt lt xs) = length xs"
  unfolding sort_law_def by (metis size_mset)

section \<open>Decimal text\<close>

text \<open>\<open>strconv.FormatInt(n, 10)\<close>, and reading it back.\<close>

definition digit_char :: "nat \<Rightarrow> char" where
  "digit_char d = char_of (48 + d)"

fun nat_text :: "nat \<Rightarrow> string" where
  "nat_text n = (if n < 10 then [digit_char n] else nat_text (n div 10) @ [digit_char (n mod 10)])"

declare nat_text.simps [simp del]

definition FormatInt :: "int \<Rightarrow> string" where
  "FormatInt n = (if n < 0 then CHR ''-'' # nat_text (nat (- n)) else nat_text (nat n))"

definition text_nat :: "string \<Rightarrow> nat" where
  "text_nat s = foldl (\<lambda>a c. 10 * a + (of_char c - 48)) 0 s"

definition is_digit :: "char \<Rightarrow> bool" where
  "is_digit c \<longleftrightarrow> 48 \<le> (of_char c :: nat) \<and> (of_char c :: nat) \<le> 57"

lemma of_digit_char: "d < 10 \<Longrightarrow> (of_char (digit_char d) :: nat) = 48 + d"
  by (simp add: digit_char_def)

lemma nat_text_digits: "list_all is_digit (nat_text n) \<and> nat_text n \<noteq> []"
proof (induction n rule: nat_text.induct)
  case (1 n)
  show ?case
  proof (cases "n < 10")
    case True
    then show ?thesis by (simp add: nat_text.simps is_digit_def of_digit_char)
  next
    case False
    with 1 show ?thesis by (simp add: nat_text.simps [of n] is_digit_def of_digit_char)
  qed
qed

lemma text_nat_text: "text_nat (nat_text n) = n"
proof (induction n rule: nat_text.induct)
  case (1 n)
  show ?case
  proof (cases "n < 10")
    case True
    then show ?thesis by (simp add: nat_text.simps text_nat_def of_digit_char)
  next
    case False
    with 1 show ?thesis by (simp add: nat_text.simps [of n] text_nat_def of_digit_char)
  qed
qed

lemma nat_text_inj: "nat_text m = nat_text n \<Longrightarrow> m = n"
  by (metis text_nat_text)

lemma digit_not: "is_digit c \<Longrightarrow> c \<noteq> CHR ''-'' \<and> c \<noteq> CHR '',''"
  by (auto simp: is_digit_def)

lemma FormatInt_inj: "FormatInt m = FormatInt n \<longleftrightarrow> m = n"
proof
  have minus: "nat_text k \<noteq> CHR ''-'' # s" for k s
    using nat_text_digits [of k] digit_not [of "CHR ''-''"] by auto
  assume "FormatInt m = FormatInt n"
  then show "m = n"
    using minus minus [symmetric] by (auto simp: FormatInt_def split: if_splits dest: nat_text_inj)
qed simp

lemma FormatInt_no_comma: "CHR '','' \<notin> set (FormatInt n) \<and> FormatInt n \<noteq> []"
proof -
  have "CHR '','' \<notin> set (nat_text k)" for k
    using nat_text_digits [of k] digit_not by (auto simp: list_all_iff)
  then show ?thesis using nat_text_digits by (auto simp: FormatInt_def)
qed

end
