(* ===== verification/Yen.thy ===== *)
theory Yen
  imports BiAStar GoStd
begin

text \<open>
  \<open>internal/routing/yen.go\<close>: up to k loopless paths.  The start, goal, profile and heuristic
  of a request are a \<open>query\<close>; a spur search is that query with another start and with
  blocked edges and nodes.  The context is indexed by the number of the search that polls
  it.  \<open>sort.Slice\<close> is an argument with the law \<open>sort_law\<close>: the comparison has a tolerance
  and is no weak order, so only the permutation is used.
\<close>

section \<open>Joining a root and a spur\<close>

definition edgeBetween :: "graph \<Rightarrow> node_id \<Rightarrow> node_id \<Rightarrow> edge_pred \<Rightarrow> edge option" where
  "edgeBetween g from to edgeOK =
     foldl (\<lambda>best e.
         if e_To e \<noteq> to then best
         else if \<not> passes edgeOK e then best
         else case best of
                None \<Rightarrow> Some e
              | Some b \<Rightarrow> if e_DistanceKm e < e_DistanceKm b then Some e else best)
       None (Edges g from)"

fun edges_along :: "query \<Rightarrow> node list \<Rightarrow> (edge list \<times> float64 \<times> float64) option" where
  "edges_along Q (a # b # ns) =
     (case edgeBetween (q_graph Q) (n_ID a) (n_ID b) (q_edgeOK Q) of
        None \<Rightarrow> None
      | Some e \<Rightarrow> map_option (\<lambda>(es, distKm, hours).
                       (e # es, e_DistanceKm e + distKm, edgeTravelTimeHours e (q_speedFn Q) + hours))
                     (edges_along Q (b # ns)))"
| "edges_along Q _ = Some ([], 0, 0)"

definition combineRootAndSpur :: "query \<Rightarrow> node list \<Rightarrow> node list \<Rightarrow> PathResult option" where
  "combineRootAndSpur Q rootNodes spurNodes =
     (if rootNodes = [] \<or> spurNodes = [] then None
      else let nodes = rootNodes @ tl spurNodes
           in map_option (\<lambda>(es, distKm, hours). \<lparr>pr_Nodes = nodes, pr_Edges = es,
                                pr_DistanceKm = distKm, pr_TimeHours = hours\<rparr>)
                (edges_along Q nodes))"

definition samePrefix :: "node list \<Rightarrow> node list \<Rightarrow> bool" where
  "samePrefix nodes prefix \<longleftrightarrow>
     (if length nodes < length prefix then False
      else list_all (\<lambda>i. n_ID (nodes ! i) = n_ID (prefix ! i)) [0..<length prefix])"

fun pathSignature :: "node list \<Rightarrow> string" where
  "pathSignature [] = ''''"
| "pathSignature [n] = FormatInt (n_ID n)"
| "pathSignature (n # m # ns) = FormatInt (n_ID n) @ '','' @ pathSignature (m # ns)"

section \<open>KFastestPaths\<close>

record yen =
  accepted :: "PathResult list"
  candidates :: "PathResult list"
  seen :: "string set"
  searches :: nat

definition spur_query :: "query \<Rightarrow> PathResult list \<Rightarrow> PathResult \<Rightarrow> nat \<Rightarrow> query" where
  "spur_query Q acc base spurIdx =
     (let rootNodes = take (spurIdx + 1) (pr_Nodes base) in
      Q\<lparr>q_start := n_ID (pr_Nodes base ! spurIdx),
        q_blockedEdges := {(n_ID (pr_Nodes p ! spurIdx), n_ID (pr_Nodes p ! (spurIdx + 1))) | p.
                             p \<in> set acc \<and> \<not> length (pr_Nodes p) \<le> spurIdx + 1
                             \<and> samePrefix (pr_Nodes p) rootNodes},
        q_blockedNodes := n_ID ` set (butlast rootNodes)\<rparr>)"

definition spur_at :: "(nat \<Rightarrow> ctx) \<Rightarrow> query \<Rightarrow> PathResult \<Rightarrow> yen \<Rightarrow> nat \<Rightarrow> yen option" where
  "spur_at ctxs Q base st spurIdx =
     map_option (\<lambda>r.
       let st' = st\<lparr>searches := searches st + 1\<rparr> in
       case r of
         Inl err \<Rightarrow> st'
       | Inr spur \<Rightarrow>
           (case combineRootAndSpur Q (take (spurIdx + 1) (pr_Nodes base)) (pr_Nodes spur) of
              None \<Rightarrow> st'
            | Some totalPath \<Rightarrow>
                let sig = pathSignature (pr_Nodes totalPath)
                in if sig \<in> seen st then st'
                   else st'\<lparr>seen := insert sig (seen st), candidates := candidates st @ [totalPath]\<rparr>))
     (biAStar (ctxs (searches st)) (spur_query Q (accepted st) base spurIdx))"

fun spur_scan :: "(nat \<Rightarrow> ctx) \<Rightarrow> query \<Rightarrow> PathResult \<Rightarrow> nat list \<Rightarrow> yen \<Rightarrow> yen option" where
  "spur_scan ctxs Q base [] st = Some st"
| "spur_scan ctxs Q base (i # is) st =
     (case spur_at ctxs Q base st i of None \<Rightarrow> None | Some st' \<Rightarrow> spur_scan ctxs Q base is st')"

definition spur_end :: "int \<Rightarrow> PathResult \<Rightarrow> nat" where
  "spur_end maxSpurNodes base =
     (let spurEnd = length (pr_Nodes base) - 1 in
      if maxSpurNodes > 0 \<and> int spurEnd > maxSpurNodes then nat maxSpurNodes else spurEnd)"

definition cand_less :: "PathResult \<Rightarrow> PathResult \<Rightarrow> bool" where
  "cand_less p q \<longleftrightarrow>
     (if \<bar>pr_TimeHours p - pr_TimeHours q\<bar> > 1 / 10 ^ 9 then pr_TimeHours p < pr_TimeHours q
      else pr_DistanceKm p < pr_DistanceKm q)"

type_synonym 'a sorter = "('a \<Rightarrow> 'a \<Rightarrow> bool) \<Rightarrow> 'a list \<Rightarrow> 'a list"

function yen_loop ::
  "PathResult sorter \<Rightarrow> (nat \<Rightarrow> ctx) \<Rightarrow> query \<Rightarrow> nat \<Rightarrow> int \<Rightarrow> yen \<Rightarrow> PathResult list option" where
  "yen_loop sortSlice ctxs Q k maxSpur st =
     (if length (accepted st) < k
      then let base = last (accepted st) in
           case spur_scan ctxs Q base [0..<spur_end maxSpur base] st of
             None \<Rightarrow> None
           | Some st' \<Rightarrow>
               if candidates st' = [] then Some (accepted st)
               else let sorted = sortSlice cand_less (candidates st')
                    in yen_loop sortSlice ctxs Q k maxSpur
                         (st'\<lparr>accepted := accepted st @ [hd sorted], candidates := tl sorted\<rparr>)
      else Some (accepted st))"
  by pat_completeness auto
termination
  by (relation "measure (\<lambda>(srt, ctxs, Q, k, maxSpur, st). k - length (accepted st))") auto

declare yen_loop.simps [simp del]

definition KFastestPaths ::
  "PathResult sorter \<Rightarrow> (nat \<Rightarrow> ctx) \<Rightarrow> query \<Rightarrow> int \<Rightarrow> int \<Rightarrow> (route_error + PathResult list) option" where
  "KFastestPaths sortSlice ctxs Q k maxSpur =
     (let k = (if k \<le> 0 then 1 else k) in
      case biAStar (ctxs 0) (Q\<lparr>q_blockedEdges := {}, q_blockedNodes := {}\<rparr>) of
        None \<Rightarrow> None
      | Some (Inl err) \<Rightarrow> Some (Inl err)
      | Some (Inr first) \<Rightarrow>
          if k = 1 \<or> length (pr_Nodes first) < 3 then Some (Inr [first])
          else map_option Inr
                 (yen_loop sortSlice ctxs Q (nat k) maxSpur
                    \<lparr>accepted = [first], candidates = [], seen = {pathSignature (pr_Nodes first)}, searches = 1\<rparr>))"

section \<open>Signatures identify the node sequence\<close>

lemma comma_split:
  "CHR '','' \<notin> set a \<Longrightarrow> CHR '','' \<notin> set b \<Longrightarrow> a @ CHR '','' # s = b @ CHR '','' # t \<Longrightarrow> a = b \<and> s = t"
proof (induction a arbitrary: b)
  case Nil
  then show ?case by (cases b) auto
next
  case (Cons x a)
  then show ?case by (cases b) auto
qed

lemma pathSignature_inj:
  "pathSignature ns = pathSignature ms \<Longrightarrow> map n_ID ns = map n_ID ms"
proof (induction ns arbitrary: ms rule: pathSignature.induct)
  case 1
  have "FormatInt k \<noteq> []" for k using FormatInt_no_comma by auto
  with 1 show ?case by (cases ms rule: pathSignature.cases) (auto dest: sym)
next
  case (2 n)
  have "CHR '','' \<notin> set (FormatInt (n_ID n))" "FormatInt (n_ID n) \<noteq> []" using FormatInt_no_comma by auto
  with 2 show ?case
    by (cases ms rule: pathSignature.cases) (auto simp: FormatInt_inj)
next
  case (3 n m ns)
  show ?case
  proof (cases ms rule: pathSignature.cases)
    case 1
    with "3.prems" show ?thesis by simp
  next
    case (2 k)
    have "CHR '','' \<notin> set (FormatInt (n_ID k))" using FormatInt_no_comma by auto
    with "3.prems" 2 show ?thesis by (metis append_Cons in_set_conv_decomp pathSignature.simps(2,3))
  next
    case (3 k l ks)
    with "3.prems" comma_split [of "FormatInt (n_ID n)" "FormatInt (n_ID k)"]
    have "FormatInt (n_ID n) = FormatInt (n_ID k)" "pathSignature (m # ns) = pathSignature (l # ks)"
      using FormatInt_no_comma by auto
    with "3.IH" [of "l # ks"] 3 show ?thesis by (simp add: FormatInt_inj)
  qed
qed


section \<open>Every produced path is a path of the request\<close>

lemma edgeBetween_filter:
  "edgeBetween g u v ok =
     foldl (min_by e_DistanceKm) None (filter (\<lambda>e. e_To e = v \<and> passes ok e) (Edges g u))"
  unfolding edgeBetween_def foldl_if_filter [symmetric]
  by (rule foldl_cong) (auto simp: min_by_def)

lemma edgeBetween_Some:
  "edgeBetween g u v ok = Some e \<Longrightarrow> e \<in> set (Edges g u) \<and> e_To e = v \<and> passes ok e"
  using foldl_min_by_best(1) by (fastforce simp: edgeBetween_filter)

definition unblocked :: "query \<Rightarrow> bool" where
  "unblocked Q \<longleftrightarrow> q_blockedEdges Q = {} \<and> q_blockedNodes Q = {}"

definition nodes_stored :: "query \<Rightarrow> node list \<Rightarrow> bool" where
  "nodes_stored Q ns \<longleftrightarrow> (\<forall>n\<in>set ns. Nodes (q_graph Q) (n_ID n) = Some n)"

lemma edges_along_walk:
  assumes "edges_along Q ns = Some (es, d, h)" "nodes_stored Q ns" "unblocked Q" "ns \<noteq> []"
  shows "walk Q (n_ID (hd ns)) es (n_ID (last ns)) \<and> path_ids (n_ID (hd ns)) es = map n_ID ns
    \<and> d = path_km es \<and> h = path_time Q es"
  using assms
proof (induction Q ns arbitrary: es d h rule: edges_along.induct)
  case (1 Q a b ns)
  from "1.prems"(1) obtain e es' d' h' where e: "edgeBetween (q_graph Q) (n_ID a) (n_ID b) (q_edgeOK Q) = Some e"
    "edges_along Q (b # ns) = Some (es', d', h')" "es = e # es'" "d = e_DistanceKm e + d'"
    "h = edge_time Q e + h'" by (auto split: option.splits)
  have "nodes_stored Q (b # ns)" using "1.prems"(2) by (simp add: nodes_stored_def)
  from "1.IH" [OF e(1,2) this "1.prems"(3)] have IH: "walk Q (n_ID b) es' (n_ID (last (b # ns)))"
    "path_ids (n_ID b) es' = map n_ID (b # ns)" "d' = path_km es'" "h' = path_time Q es'" by simp_all
  moreover have "usable Q (n_ID a) e"
    using edgeBetween_Some [OF e(1)] "1.prems"(2,3) by (auto simp: usable_def unblocked_def nodes_stored_def)
  ultimately show ?case using e edgeBetween_Some [OF e(1)] by (simp add: path_ids_def)
qed (auto simp: path_ids_def)

lemma valid_nodes:
  assumes "valid_path Q p" "keys_ok (q_graph Q)"
  shows "nodes_stored Q (pr_Nodes p)" "map n_ID (pr_Nodes p) = path_ids (q_start Q) (pr_Edges p)"
proof -
  have eq: "map Some (pr_Nodes p) = map (Nodes (q_graph Q)) (path_ids (q_start Q) (pr_Edges p))"
    using assms(1) by (simp add: valid_path_def)
  then have len: "length (pr_Nodes p) = length (path_ids (q_start Q) (pr_Edges p))" by (metis length_map)
  have at: "Nodes (q_graph Q) (path_ids (q_start Q) (pr_Edges p) ! i) = Some (pr_Nodes p ! i)"
    if "i < length (pr_Nodes p)" for i
    using arg_cong [OF eq, of "\<lambda>xs. xs ! i"] that len by simp
  with assms(2) have id: "n_ID (pr_Nodes p ! i) = path_ids (q_start Q) (pr_Edges p) ! i"
    if "i < length (pr_Nodes p)" for i
    using that by (auto simp: keys_ok_def)
  show "map n_ID (pr_Nodes p) = path_ids (q_start Q) (pr_Edges p)"
    using len id by (intro nth_equalityI) auto
  show "nodes_stored Q (pr_Nodes p)"
    using at id by (auto simp: nodes_stored_def in_set_conv_nth)
qed

lemma path_ids_ends: "walk Q u es v \<Longrightarrow> hd (path_ids u es) = u \<and> last (path_ids u es) = v"
  by (cases es rule: rev_cases) (auto simp: path_ids_def walk_snoc)

definition yen_ready :: "query \<Rightarrow> bool" where
  "yen_ready Q \<longleftrightarrow> search_ready Q \<and> keys_ok (q_graph Q) \<and> unblocked Q"

lemma spur_query_simps [simp]:
  "q_graph (spur_query Q acc base i) = q_graph Q" "q_goal (spur_query Q acc base i) = q_goal Q"
  "q_start (spur_query Q acc base i) = n_ID (pr_Nodes base ! i)"
  "q_edgeOK (spur_query Q acc base i) = q_edgeOK Q" "q_speedFn (spur_query Q acc base i) = q_speedFn Q"
  "q_blockedNodes (spur_query Q acc base i) = n_ID ` set (butlast (take (i + 1) (pr_Nodes base)))"
  by (simp_all add: spur_query_def Let_def)

lemma spur_walk:
  "unblocked Q \<Longrightarrow> walk (spur_query Q acc base i) u es v \<Longrightarrow> walk Q u es v"
  by (induction es arbitrary: u) (auto simp: usable_def unblocked_def)

lemma spur_ready:
  assumes ready: "yen_ready Q" and base: "path_ok Q base" and i: "i + 1 < length (pr_Nodes base)"
  shows "search_ready (spur_query Q acc base i)"
proof -
  let ?ids = "map n_ID (pr_Nodes base)"
  have v: "valid_path Q base" and k: "keys_ok (q_graph Q)" using base ready by (simp_all add: path_ok_def yen_ready_def)
  note ids = valid_nodes(2) [OF v k]
  have dist: "distinct ?ids" using base by (simp add: path_ok_def loopless_def ids)
  have root: "n_ID ` set (butlast (take (i + 1) (pr_Nodes base))) = set (take i ?ids)"
    using i by (simp add: butlast_take take_map)
  have notin: "?ids ! j \<notin> set (take i ?ids)" if "i \<le> j" "j < length ?ids" for j
    using that dist by (auto simp: in_set_conv_nth distinct_conv_nth)
  have "n_ID (pr_Nodes base ! i) \<notin> set (take i ?ids)" using notin [of i] i by simp
  moreover have "q_goal Q \<notin> set (take i ?ids)"
  proof -
    have "last ?ids = q_goal Q" using path_ids_ends [of Q "q_start Q" "pr_Edges base" "q_goal Q"] v ids by (simp add: valid_path_def)
    moreover have "pr_Nodes base \<noteq> []" using i by auto
    ultimately have "q_goal Q = ?ids ! (length ?ids - 1)" by (metis last_conv_nth map_is_Nil_conv)
    then show ?thesis using notin [of "length ?ids - 1"] i by simp
  qed
  moreover have "times_bounded (spur_query Q acc base i)"
    using ready spur_walk [of Q acc base i] unfolding yen_ready_def search_ready_def times_bounded_def path_time_def
    by (simp only: spur_query_simps) blast
  ultimately show ?thesis
    using ready unfolding yen_ready_def search_ready_def spur_query_simps root by blast
qed

lemma combine_ok:
  assumes ready: "yen_ready Q" and base: "path_ok Q base" and i: "i + 1 < length (pr_Nodes base)"
    and spur: "path_ok (spur_query Q acc base i) sp"
    and c: "combineRootAndSpur Q (take (i + 1) (pr_Nodes base)) (pr_Nodes sp) = Some p"
  shows "path_ok Q p"
proof -
  let ?Q = "spur_query Q acc base i" and ?root = "take (i + 1) (pr_Nodes base)"
  have k: "keys_ok (q_graph Q)" and u: "unblocked Q" using ready by (simp_all add: yen_ready_def)
  have vb: "valid_path Q base" and vs: "valid_path ?Q sp" using base spur by (simp_all add: path_ok_def)
  note b = valid_nodes [OF vb k] and s = valid_nodes [OF vs, simplified, OF k]
  define ns where "ns = ?root @ tl (pr_Nodes sp)"
  from c obtain es d h where es: "edges_along Q ns = Some (es, d, h)"
    "p = \<lparr>pr_Nodes = ns, pr_Edges = es, pr_DistanceKm = d, pr_TimeHours = h\<rparr>"
    by (auto simp: combineRootAndSpur_def ns_def Let_def split: if_splits)
  have stored: "nodes_stored Q ns"
    using b(1) s(1) by (auto simp: nodes_stored_def ns_def dest: in_set_takeD in_set_tlD)
  have ne: "ns \<noteq> []" using i by (auto simp: ns_def)
  from edges_along_walk [OF es(1) stored u ne] have w: "walk Q (n_ID (hd ns)) es (n_ID (last ns))"
    "path_ids (n_ID (hd ns)) es = map n_ID ns" "d = path_km es" "h = path_time Q es" by simp_all
  have hd: "n_ID (hd ns) = q_start Q"
  proof -
    have "n_ID (hd ns) = hd (map n_ID (pr_Nodes base))" using i by (cases "pr_Nodes base") (auto simp: ns_def)
    then show ?thesis by (simp add: b(2) path_ids_def)
  qed
  let ?sids = "path_ids (n_ID (pr_Nodes base ! i)) (pr_Edges sp)"
  have sids: "map n_ID (tl (pr_Nodes sp)) = tl ?sids" using s(2) by (simp add: map_tl)
  have ws: "walk ?Q (n_ID (pr_Nodes base ! i)) (pr_Edges sp) (q_goal Q)" using vs by (simp add: valid_path_def)
  have "pr_Edges sp \<noteq> []"
  proof
    assume "pr_Edges sp = []"
    then have "n_ID (pr_Nodes base ! i) = q_goal Q" using ws by simp
    moreover have "last (map n_ID (pr_Nodes base)) = q_goal Q"
      using path_ids_ends [of Q "q_start Q" "pr_Edges base" "q_goal Q"] vb b(2) by (simp add: valid_path_def)
    moreover have "distinct (map n_ID (pr_Nodes base))" using base by (simp add: path_ok_def loopless_def b(2))
    moreover have "pr_Nodes base \<noteq> []" using i by auto
    ultimately have "map n_ID (pr_Nodes base) ! i = map n_ID (pr_Nodes base) ! (length (pr_Nodes base) - 1)"
      and "distinct (map n_ID (pr_Nodes base))" using i by (simp_all add: last_conv_nth)
    then have "i = length (pr_Nodes base) - 1" using i by (subst (asm) nth_eq_iff_index_eq) auto
    then show False using i by simp
  qed
  then have tl_ne: "tl ?sids \<noteq> []" by (simp add: path_ids_def)
  have last: "n_ID (last ns) = q_goal Q"
  proof -
    have "tl (pr_Nodes sp) \<noteq> []" using tl_ne sids by auto
    then have "n_ID (last ns) = last (map n_ID (tl (pr_Nodes sp)))" by (simp add: ns_def last_map)
    also have "\<dots> = last ?sids" using tl_ne by (simp add: sids last_tl)
    finally show ?thesis using path_ids_ends [OF ws] by simp
  qed
  have "distinct (map n_ID ns)"
  proof -
    have root: "distinct (take (i + 1) (map n_ID (pr_Nodes base)))"
      using base by (simp add: path_ok_def loopless_def b(2))
    have spd: "distinct ?sids" using spur by (simp add: path_ok_def loopless_def)
    have "x \<notin> set (tl ?sids)" if x: "x \<in> set (take (i + 1) (map n_ID (pr_Nodes base)))" for x
    proof (cases "x = n_ID (pr_Nodes base ! i)")
      case True
      then show ?thesis using spd by (simp add: path_ids_def)
    next
      case False
      have "take (i + 1) (map n_ID (pr_Nodes base)) = take i (map n_ID (pr_Nodes base)) @ [n_ID (pr_Nodes base ! i)]"
        using i by (simp add: take_Suc_conv_app_nth)
      with x False have "x \<in> set (take i (map n_ID (pr_Nodes base)))" by simp
      then have "x \<in> q_blockedNodes ?Q" using i by (simp add: butlast_take take_map)
      moreover have "y \<notin> q_blockedNodes ?Q" if "y \<in> set (tl ?sids)" for y
      proof -
        from that obtain e where "e \<in> set (pr_Edges sp)" "y = e_To e" by (auto simp: path_ids_def)
        with walk_edge [OF ws] show ?thesis by (auto simp: usable_def simp del: spur_query_simps)
      qed
      ultimately show ?thesis by blast
    qed
    with root spd show ?thesis by (auto simp: ns_def sids take_map distinct_tl)
  qed
  moreover have "map Some ns = map (Nodes (q_graph Q)) (path_ids (q_start Q) es)"
  proof -
    have "map Some ns = map (Nodes (q_graph Q)) (map n_ID ns)" using stored by (simp add: nodes_stored_def)
    then show ?thesis using w(2) hd by simp
  qed
  ultimately show ?thesis using es(2) w hd last by (simp add: path_ok_def valid_path_def loopless_def)
qed

section \<open>The loop invariant\<close>

definition yen_inv :: "query \<Rightarrow> yen \<Rightarrow> bool" where
  "yen_inv Q st \<longleftrightarrow> accepted st \<noteq> []
     \<and> (\<forall>p\<in>set (accepted st @ candidates st). path_ok Q p)
     \<and> seen st = (pathSignature \<circ> pr_Nodes) ` set (accepted st @ candidates st)
     \<and> distinct (map (pathSignature \<circ> pr_Nodes) (accepted st @ candidates st))"

lemma spur_at_inv:
  assumes ready: "yen_ready Q" and inv: "yen_inv Q st" and base: "path_ok Q base"
    and i: "i + 1 < length (pr_Nodes base)"
  shows "\<exists>st'. spur_at ctxs Q base st i = Some st' \<and> yen_inv Q st' \<and> accepted st' = accepted st"
proof -
  from biAStar_outcome [OF spur_ready [OF ready base i, of "accepted st"], of "ctxs (searches st)"]
  obtain r where r: "biAStar (ctxs (searches st)) (spur_query Q (accepted st) base i) = Some r"
    "\<And>p. r = Inr p \<Longrightarrow> path_ok (spur_query Q (accepted st) base i) p"
    using outcome_Inr by blast
  show ?thesis
  proof (cases r)
    case (Inl err)
    with r(1) inv show ?thesis by (simp add: spur_at_def yen_inv_def Let_def)
  next
    case (Inr sp)
    show ?thesis
    proof (cases "combineRootAndSpur Q (take (i + 1) (pr_Nodes base)) (pr_Nodes sp)")
      case None
      with Inr r(1) inv show ?thesis by (simp add: spur_at_def yen_inv_def Let_def)
    next
      case (Some p)
      from combine_ok [OF ready base i r(2) [OF Inr] this] have "path_ok Q p" .
      with Some Inr r(1) inv show ?thesis by (auto simp: spur_at_def yen_inv_def Let_def)
    qed
  qed
qed

lemma spur_scan_inv:
  assumes ready: "yen_ready Q" and base: "path_ok Q base"
  shows "yen_inv Q st \<Longrightarrow> \<forall>i\<in>set is. i + 1 < length (pr_Nodes base) \<Longrightarrow>
    \<exists>st'. spur_scan ctxs Q base is st = Some st' \<and> yen_inv Q st' \<and> accepted st' = accepted st"
proof (induction "is" arbitrary: st)
  case (Cons i "is")
  from spur_at_inv [OF ready Cons.prems(1) base, of i ctxs] Cons.prems(2)
  obtain st' where "spur_at ctxs Q base st i = Some st'" "yen_inv Q st'" "accepted st' = accepted st" by auto
  with Cons.IH [of st'] Cons.prems(2) show ?case by simp
qed simp

definition yen_result :: "query \<Rightarrow> nat \<Rightarrow> PathResult list \<Rightarrow> bool" where
  "yen_result Q k ps \<longleftrightarrow> ps \<noteq> [] \<and> length ps \<le> k \<and> (\<forall>p\<in>set ps. path_ok Q p)
     \<and> distinct (map (\<lambda>p. map n_ID (pr_Nodes p)) ps)"

lemma distinct_signatures:
  "distinct (map (pathSignature \<circ> pr_Nodes) ps) \<Longrightarrow> distinct (map (\<lambda>p. map n_ID (pr_Nodes p)) ps)"
proof (induction ps)
  case (Cons p ps)
  have "map n_ID (pr_Nodes p) \<noteq> map n_ID (pr_Nodes q)" if "q \<in> set ps" for q
  proof
    assume "map n_ID (pr_Nodes p) = map n_ID (pr_Nodes q)"
    moreover have "pathSignature ns = pathSignature ms" if "map n_ID ns = map n_ID ms" for ns ms
      using that by (induction ns arbitrary: ms rule: pathSignature.induct) (auto split: list.splits)
    ultimately have "pathSignature (pr_Nodes p) = pathSignature (pr_Nodes q)" by blast
    with Cons.prems that show False by auto
  qed
  with Cons show ?case by auto
qed simp

lemma yen_loop_result:
  assumes ready: "yen_ready Q" and srt: "sort_law sortSlice"
  shows "yen_inv Q st \<Longrightarrow> length (accepted st) \<le> k \<Longrightarrow>
    \<exists>ps. yen_loop sortSlice ctxs Q k maxSpur st = Some ps \<and> yen_result Q k ps \<and> hd ps = hd (accepted st)"
proof (induction "k - length (accepted st)" arbitrary: st rule: less_induct)
  case less
  have acc: "yen_result Q k (accepted st)"
    using less.prems distinct_signatures by (auto simp: yen_result_def yen_inv_def)
  show ?case
  proof (cases "length (accepted st) < k")
    case False
    with acc show ?thesis by (simp add: yen_loop.simps)
  next
    case True
    let ?base = "last (accepted st)"
    have base: "path_ok Q ?base" using less.prems(1) by (auto simp: yen_inv_def)
    have "i + 1 < length (pr_Nodes ?base)" if "i < spur_end maxSpur ?base" for i
      using that by (auto simp: spur_end_def Let_def split: if_splits)
    then have idx: "\<forall>i\<in>set [0..<spur_end maxSpur ?base]. i + 1 < length (pr_Nodes ?base)" by simp
    from spur_scan_inv [OF ready base less.prems(1) idx]
    obtain st' where st': "spur_scan ctxs Q ?base [0..<spur_end maxSpur ?base] st = Some st'"
      "yen_inv Q st'" "accepted st' = accepted st" by blast
    show ?thesis
    proof (cases "candidates st' = []")
      case True
      with acc st' show ?thesis by (subst yen_loop.simps) (simp add: Let_def)
    next
      case False
      let ?s = "sortSlice cand_less (candidates st')"
      let ?st = "st'\<lparr>accepted := accepted st @ [hd ?s], candidates := tl ?s\<rparr>"
      have perm: "mset ?s = mset (candidates st')" and len: "?s \<noteq> []"
        using srt False sort_law_length [OF srt, of cand_less "candidates st'"] by (auto simp: sort_law_def)
      then have ht: "?s = hd ?s # tl ?s" by simp
      have m: "mset (accepted ?st @ candidates ?st) = mset (accepted st' @ candidates st')"
        using st'(3) perm ht by (simp add: union_commute)
      then have "set (accepted ?st @ candidates ?st) = set (accepted st' @ candidates st')" by (metis set_mset_mset)
      moreover have "mset (map (pathSignature \<circ> pr_Nodes) (accepted ?st @ candidates ?st))
          = mset (map (pathSignature \<circ> pr_Nodes) (accepted st' @ candidates st'))"
        by (simp only: mset_map m)
      then have "distinct (map (pathSignature \<circ> pr_Nodes) (accepted ?st @ candidates ?st))
          = distinct (map (pathSignature \<circ> pr_Nodes) (accepted st' @ candidates st'))"
        by (rule mset_eq_imp_distinct_iff)
      ultimately have "yen_inv Q ?st" using st'(2,3) unfolding yen_inv_def by simp
      moreover have "k - length (accepted ?st) < k - length (accepted st)" "length (accepted ?st) \<le> k"
        using True by simp_all
      ultimately obtain ps where "yen_loop sortSlice ctxs Q k maxSpur ?st = Some ps" "yen_result Q k ps" "hd ps = hd (accepted ?st)"
        using less.hyps [of ?st] by blast
      moreover have "hd (accepted ?st) = hd (accepted st)" using less.prems(1) by (simp add: yen_inv_def)
      ultimately show ?thesis using True st' False by (subst yen_loop.simps) (simp add: Let_def)
    qed
  qed
qed

lemma KFastestPaths_result:
  assumes ready: "yen_ready Q" and srt: "sort_law sortSlice"
  shows "\<exists>r. KFastestPaths sortSlice ctxs Q k maxSpur = Some r \<and>
    (case r of Inl err \<Rightarrow> biAStar (ctxs 0) Q = Some (Inl err)
     | Inr ps \<Rightarrow> biAStar (ctxs 0) Q = Some (Inr (hd ps)) \<and> yen_result Q (nat (max 1 k)) ps)"
proof -
  have Q: "Q\<lparr>q_blockedEdges := {}, q_blockedNodes := {}\<rparr> = Q" using ready by (simp add: yen_ready_def unblocked_def)
  from ready have "search_ready Q" by (simp add: yen_ready_def)
  from biAStar_outcome [OF this, of "ctxs 0"] obtain r where r: "biAStar (ctxs 0) Q = Some r"
    "outcome (ctxs 0) Q (q_heuristicSpeed Q \<le> 0) r" by blast
  show ?thesis
  proof (cases r)
    case (Inl err)
    with r(1) show ?thesis by (simp add: KFastestPaths_def Q)
  next
    case (Inr p)
    with r(2) have p: "path_ok Q p" by (simp add: outcome_def)
    let ?k = "if k \<le> 0 then 1 else k"
    let ?st = "\<lparr>accepted = [p], candidates = [], seen = {pathSignature (pr_Nodes p)}, searches = 1\<rparr>"
    have "yen_inv Q ?st" using p by (simp add: yen_inv_def)
    moreover have "length (accepted ?st) \<le> nat ?k" by (cases "k \<le> 0") simp_all
    ultimately obtain ps where ps: "yen_loop sortSlice ctxs Q (nat ?k) maxSpur ?st = Some ps"
      "yen_result Q (nat ?k) ps" "hd ps = p"
      using yen_loop_result [OF ready srt, of ?st "nat ?k" ctxs maxSpur] by (metis list.sel(1) yen.select_convs(1))
    have "yen_result Q (nat ?k) [p]" using p by (cases "k \<le> 0") (auto simp: yen_result_def)
    moreover have "nat ?k = nat (max 1 k)" by simp
    ultimately show ?thesis using Inr r(1) ps by (auto simp: KFastestPaths_def Q Let_def)
  qed
qed

text \<open>
  C3. \<open>KFastestPaths\<close> returns; its error is the error of the first search; otherwise the
  result has at least one and at most \<open>max 1 k\<close> paths, each a usable loopless path of the
  request with the exact sums of its edges, no two with the same node sequence, and the
  first of them is the result of the unrestricted bidirectional search.
\<close>

theorem KFastestPaths_paths:
  assumes ready: "yen_ready Q" and srt: "sort_law sortSlice"
  shows "\<exists>r. KFastestPaths sortSlice ctxs Q k maxSpur = Some r \<and>
    (case r of Inl err \<Rightarrow> biAStar (ctxs 0) Q = Some (Inl err)
     | Inr ps \<Rightarrow> biAStar (ctxs 0) Q = Some (Inr (hd ps)) \<and> yen_result Q (nat (max 1 k)) ps)"
  by (rule KFastestPaths_result [OF assms])

theorem KFastestPaths_paths_witness:
  "\<exists>ps. KFastestPaths insertion_sort (\<lambda>_ _. None) two_query 3 60 = Some (Inr ps) \<and> yen_result two_query 3 ps"
proof -
  have "keys_ok two_nodes" by (simp add: keys_ok_def)
  then have ready: "yen_ready two_query" using two_query_ready by (simp add: yen_ready_def unblocked_def)
  obtain p where p: "biAStar (\<lambda>_. None) two_query = Some (Inr p)"
    using biAStar_outcome [OF two_query_ready, of "\<lambda>_. None"] two_query_found by metis
  obtain r where r: "KFastestPaths insertion_sort (\<lambda>_ _. None) two_query 3 60 = Some r"
    "case r of Inl err \<Rightarrow> biAStar (\<lambda>_. None) two_query = Some (Inl err)
     | Inr ps \<Rightarrow> biAStar (\<lambda>_. None) two_query = Some (Inr (hd ps)) \<and> yen_result two_query (nat (max 1 3)) ps"
    using KFastestPaths_paths [OF ready sort_law_insertion, of "\<lambda>_ _. None" 3 60] by blast
  with p show ?thesis by (cases r) auto
qed

end
