(* ===== verification/Polyline.thy ===== *)
theory Polyline
  imports RoadGraph
begin

text \<open>
  The encoded polyline format.  There are two implementations: \<open>internal/routing/engine.go\<close>
  (a decoder that returns nil on malformed input) and \<open>internal/utils/polyline.go\<close> (one that
  panics on it, and \<open>CombinePolylines\<close>).  The integers are 64-bit words with Go's signed
  comparison and arithmetic shift; the bytes of a string are characters; the decoder's
  index is the rest of the string.  A nil slice is the empty list, a panic is \<open>None\<close>.
\<close>

type_synonym go_int = "64 word"

section \<open>Chunks\<close>

function encode_groups :: "go_int \<Rightarrow> string" where
  "encode_groups value =
     (if sint value \<ge> 0x20
      then char_of (unat ((0x20 OR (value AND 0x1f)) + 63)) # encode_groups (signed_drop_bit 5 value)
      else [char_of (unat (value + 63))])"
  by pat_completeness auto
termination
proof (relation "measure (\<lambda>v. nat (sint v))")
  fix v :: go_int
  assume "0x20 \<le> sint v"
  then have "sint (signed_drop_bit 5 v) < sint v" "0 < sint v"
    by (auto simp: sint_signed_drop_bit_eq drop_bit_int_def)
  then show "(signed_drop_bit 5 v, v) \<in> measure (\<lambda>v. nat (sint v))" by simp
qed simp

declare encode_groups.simps [simp del]

definition encodeChunk :: "go_int \<Rightarrow> string" where
  "encodeChunk value =
     (let value = push_bit 1 value;
          value = (if sint value < 0 then NOT value else value)
      in encode_groups value)"

text \<open>\<open>internal/routing\<close>: at most seven groups, then the chunk is rejected.\<close>

fun decode_groups :: "string \<Rightarrow> go_int \<Rightarrow> nat \<Rightarrow> (go_int \<times> string) option" where
  "decode_groups [] result shift = None"
| "decode_groups (c # cs) result shift =
     (let b = of_nat (of_char c) - 63;
          result = result OR push_bit shift (b AND 0x1f);
          shift = shift + 5
      in if sint b < 0x20 then Some (result, cs)
         else if shift > 30 then None
         else decode_groups cs result shift)"

definition decodeChunk :: "string \<Rightarrow> (go_int \<times> string) option" where
  "decodeChunk s =
     (case decode_groups s 0 0 of
        None \<Rightarrow> None
      | Some (result, rest) \<Rightarrow>
          if result AND 1 \<noteq> 0 then Some (NOT (signed_drop_bit 1 result), rest)
          else Some (signed_drop_bit 1 result, rest))"

text \<open>\<open>internal/utils\<close>: no limit on the groups; reading past the end panics.\<close>

fun utils_decode_groups :: "string \<Rightarrow> go_int \<Rightarrow> nat \<Rightarrow> (go_int \<times> string) option" where
  "utils_decode_groups [] result shift = None"
| "utils_decode_groups (c # cs) result shift =
     (let b = of_nat (of_char c) - 63;
          result = result OR push_bit shift (b AND 0x1f)
      in if sint b < 0x20 then Some (result, cs)
         else utils_decode_groups cs result (shift + 5))"

definition utils_decodeChunk :: "string \<Rightarrow> (go_int \<times> string) option" where
  "utils_decodeChunk s =
     (case utils_decode_groups s 0 0 of
        None \<Rightarrow> None
      | Some (result, rest) \<Rightarrow>
          let result = (if result AND 1 \<noteq> 0 then NOT result else result)
          in Some (signed_drop_bit 1 result, rest))"

section \<open>Polylines\<close>

definition to_e5 :: "float64 \<Rightarrow> go_int" where
  "to_e5 x = word_of_int (math_Round (x * 100000))"

definition from_e5 :: "go_int \<Rightarrow> float64" where
  "from_e5 w = of_int (sint w) / 100000"

fun encode_points :: "point list \<Rightarrow> go_int \<Rightarrow> go_int \<Rightarrow> string" where
  "encode_points [] prevLat prevLng = []"
| "encode_points (p # ps) prevLat prevLng =
     (let lat = to_e5 (p_Lat p); lng = to_e5 (p_Lng p)
      in encodeChunk (lat - prevLat) @ encodeChunk (lng - prevLng) @ encode_points ps lat lng)"

definition EncodePolyline :: "point list \<Rightarrow> string" where
  "EncodePolyline points = encode_points points 0 0"

lemma decode_groups_shorter:
  "decode_groups s result shift = Some (r, rest) \<Longrightarrow> length rest < length s"
  by (induction s result shift rule: decode_groups.induct) (auto simp: Let_def less_SucI split: if_splits)

lemma decodeChunk_shorter: "decodeChunk s = Some (r, rest) \<Longrightarrow> length rest < length s"
  using decode_groups_shorter [of s 0 0]
  by (auto simp: decodeChunk_def split: option.splits if_splits)

lemma utils_groups_shorter:
  "utils_decode_groups s result shift = Some (r, rest) \<Longrightarrow> length rest < length s"
  by (induction s result shift rule: utils_decode_groups.induct) (auto simp: Let_def less_SucI split: if_splits)

lemma utils_decodeChunk_shorter: "utils_decodeChunk s = Some (r, rest) \<Longrightarrow> length rest < length s"
  using utils_groups_shorter [of s 0 0]
  by (auto simp: utils_decodeChunk_def Let_def split: option.splits)

function decode_points :: "string \<Rightarrow> go_int \<Rightarrow> go_int \<Rightarrow> point list \<Rightarrow> point list" where
  "decode_points s lat lng points =
     (if s = [] then points
      else case decodeChunk s of
             None \<Rightarrow> []
           | Some (dLat, s1) \<Rightarrow>
               (case decodeChunk s1 of
                  None \<Rightarrow> []
                | Some (dLng, s2) \<Rightarrow>
                    decode_points s2 (lat + dLat) (lng + dLng)
                      (points @ [\<lparr>p_Lat = from_e5 (lat + dLat), p_Lng = from_e5 (lng + dLng)\<rparr>])))"
  by pat_completeness auto
termination
  by (relation "measure (\<lambda>(s, _). length s)") (auto dest!: decodeChunk_shorter)

declare decode_points.simps [simp del]

definition DecodePolyline :: "string \<Rightarrow> point list" where
  "DecodePolyline encoded = decode_points encoded 0 0 []"

function utils_decode_points :: "string \<Rightarrow> go_int \<Rightarrow> go_int \<Rightarrow> PolyPoint list \<Rightarrow> PolyPoint list option" where
  "utils_decode_points s lat lng pts =
     (if s = [] then Some pts
      else case utils_decodeChunk s of
             None \<Rightarrow> None
           | Some (dLat, s1) \<Rightarrow>
               (case utils_decodeChunk s1 of
                  None \<Rightarrow> None
                | Some (dLng, s2) \<Rightarrow>
                    utils_decode_points s2 (lat + dLat) (lng + dLng)
                      (pts @ [\<lparr>pp_Lat = from_e5 (lat + dLat), pp_Lng = from_e5 (lng + dLng)\<rparr>])))"
  by pat_completeness auto
termination
  by (relation "measure (\<lambda>(s, _). length s)") (auto dest!: utils_decodeChunk_shorter)

declare utils_decode_points.simps [simp del]

definition utils_DecodePolyline :: "string \<Rightarrow> PolyPoint list option" where
  "utils_DecodePolyline encoded =
     (if encoded = [] then Some [] else utils_decode_points encoded 0 0 [])"

fun utils_encode_points :: "PolyPoint list \<Rightarrow> go_int \<Rightarrow> go_int \<Rightarrow> string" where
  "utils_encode_points [] prevLat prevLng = []"
| "utils_encode_points (p # ps) prevLat prevLng =
     (let lat = to_e5 (pp_Lat p); lng = to_e5 (pp_Lng p)
      in encodeChunk (lat - prevLat) @ encodeChunk (lng - prevLng) @ utils_encode_points ps lat lng)"

definition utils_EncodePolyline :: "PolyPoint list \<Rightarrow> string" where
  "utils_EncodePolyline pts = utils_encode_points pts 0 0"

text \<open>\<open>CombinePolylines\<close>: the loop carries the leg index and the points so far.\<close>

fun combine_legs :: "nat \<Rightarrow> PolyPoint list \<Rightarrow> string list \<Rightarrow> PolyPoint list option" where
  "combine_legs i allPts [] = Some allPts"
| "combine_legs i allPts (enc # encs) =
     (case utils_DecodePolyline enc of
        None \<Rightarrow> None
      | Some pts \<Rightarrow>
          if pts = [] then combine_legs (i + 1) allPts encs
          else let pts = (if i > 0 \<and> allPts \<noteq> [] then tl pts else pts)
               in combine_legs (i + 1) (allPts @ pts) encs)"

definition CombinePolylines :: "string list \<Rightarrow> string option" where
  "CombinePolylines encodedLegs = map_option utils_EncodePolyline (combine_legs 0 [] encodedLegs)"

section \<open>Round trip\<close>

text \<open>The groups of a natural number, five bits at a time.\<close>

fun nat_groups :: "nat \<Rightarrow> string" where
  "nat_groups n = (if n < 32 then [char_of (n + 63)] else char_of (32 + n mod 32 + 63) # nat_groups (n div 32))"

declare nat_groups.simps [simp del]

lemma sint_of_int: "- (2 ^ 63) \<le> k \<Longrightarrow> k < 2 ^ 63 \<Longrightarrow> sint (of_int k :: go_int) = k"
  by (simp add: sint_sbintrunc' signed_take_bit_int_eq_self)

lemma sint_of_nat: "n < 2 ^ 63 \<Longrightarrow> sint (of_nat n :: go_int) = int n"
  using sint_of_int [of "int n"] by simp

lemma sint_inj: "sint (v :: go_int) = sint w \<Longrightarrow> v = w"
proof -
  have "(of_int (sint v) :: go_int) = v" "(of_int (sint w) :: go_int) = w" by simp_all
  then show "sint v = sint w \<Longrightarrow> v = w" by metis
qed

lemma sint_not: "sint (NOT w :: go_int) = - sint w - 1"
proof -
  have "NOT w = of_int (- sint w - 1)" by (simp add: not_eq_complement)
  moreover have "- (2 ^ 63) \<le> sint w" "sint w < 2 ^ 63" using sint_ge [of w] sint_lt [of w] by simp_all
  ultimately show ?thesis using sint_of_int [of "- sint w - 1"] by simp
qed

lemma unat_of_nat64: "n < 2 ^ 64 \<Longrightarrow> unat (of_nat n :: go_int) = n"
  by (simp add: unat_of_nat take_bit_nat_eq_self)

lemma drop_of_nat: "n < 2 ^ 63 \<Longrightarrow> signed_drop_bit k (of_nat n :: go_int) = of_nat (n div 2 ^ k)"
proof (rule sint_inj)
  assume n: "n < 2 ^ 63"
  have "n div 2 ^ k \<le> n" by simp
  with n have "n div 2 ^ k < 2 ^ 63" by (rule le_less_trans [rotated])
  then show "sint (signed_drop_bit k (of_nat n :: go_int)) = sint (of_nat (n div 2 ^ k) :: go_int)"
    using n by (simp add: sint_signed_drop_bit_eq sint_of_nat drop_bit_int_def of_nat_div)
qed

lemma and_31: "(w :: go_int) AND 31 = take_bit 5 w"
  by (simp add: take_bit_eq_mask mask_numeral)

lemma or_32: "m < 32 \<Longrightarrow> (32 OR of_nat m :: go_int) = of_nat (32 + m)"
proof -
  assume "m < 32"
  then have "m \<in> set [0..<32]" by simp
  then show ?thesis by (auto simp: upt_rec)
qed

lemma group_word:
  "(32 OR (of_nat n AND 31)) + 63 = (of_nat (32 + n mod 32 + 63) :: go_int)"
proof -
  have "(of_nat n AND 31 :: go_int) = of_nat (n mod 32)"
    by (simp add: and_31 take_bit_of_nat take_bit_nat_def)
  then show ?thesis using or_32 [of "n mod 32"] by simp
qed

lemma encode_groups_nat: "n < 2 ^ 63 \<Longrightarrow> encode_groups (of_nat n) = nat_groups n"
proof (induction n rule: nat_groups.induct)
  case (1 n)
  have s: "sint (of_nat n :: go_int) = int n" using "1.prems" by (rule sint_of_nat)
  show ?case
  proof (cases "n < 32")
    case True
    have "unat (of_nat n + 63 :: go_int) = n + 63"
      using True unat_of_nat64 [of "n + 63"] by simp
    then show ?thesis using True s by (simp add: encode_groups.simps [of "of_nat n"] nat_groups.simps)
  next
    case False
    have d: "signed_drop_bit 5 (of_nat n :: go_int) = of_nat (n div 32)"
      using drop_of_nat [OF "1.prems", of 5] by simp
    have "n div 32 < 2 ^ 63" using "1.prems" by (meson div_le_dividend le_less_trans)
    with "1.IH" False have IH: "encode_groups (of_nat (n div 32)) = nat_groups (n div 32)" by simp
    have "n mod 32 < 32" by simp
    moreover have "(2::nat) ^ 64 = 18446744073709551616" by simp
    ultimately have "32 + n mod 32 + 63 < 2 ^ 64" by linarith
    then have "unat (of_nat (32 + n mod 32 + 63) :: go_int) = 32 + n mod 32 + 63"
      by (rule unat_of_nat64)
    then show ?thesis
      using False s d IH by (simp add: encode_groups.simps [of "of_nat n"] nat_groups.simps [of n] group_word)
  qed
qed


text \<open>A group character decodes to its five bits, and to the continuation mark.\<close>

lemma group_char:
  assumes "k < 64"
  shows "of_nat (of_char (char_of (k + 63) :: char)) - 63 = (of_nat k :: go_int)"
    "sint (of_nat k :: go_int) = int k" "(of_nat k AND 31 :: go_int) = of_nat (k mod 32)"
proof -
  have "(of_char (char_of (k + 63) :: char) :: nat) = k + 63" using assms by simp
  then show "of_nat (of_char (char_of (k + 63) :: char)) - 63 = (of_nat k :: go_int)" by simp
  have "(2::nat) ^ 63 = 9223372036854775808" by simp
  then show "sint (of_nat k :: go_int) = int k" using assms by (intro sint_of_nat) linarith
  show "(of_nat k AND 31 :: go_int) = of_nat (k mod 32)" by (simp add: and_31 take_bit_of_nat take_bit_nat_def)
qed

lemma split_groups:
  "r OR push_bit s (of_nat n :: go_int) =
   (r OR push_bit s (of_nat (n mod 32))) OR push_bit (s + 5) (of_nat (n div 32))"
proof -
  have "of_nat n = (of_nat (n mod 32) OR push_bit 5 (of_nat (n div 32)) :: go_int)"
  proof -
    have "n = take_bit 5 n OR push_bit 5 (drop_bit 5 n)"
    proof (rule bit_eqI)
      fix m
      show "bit n m \<longleftrightarrow> bit (take_bit 5 n OR push_bit 5 (drop_bit 5 n)) m"
        by (cases "m < 5") (auto simp: bit_or_iff bit_take_bit_iff bit_push_bit_iff bit_drop_bit_eq)
    qed
    then have "of_nat n = (of_nat (take_bit 5 n OR push_bit 5 (drop_bit 5 n)) :: go_int)" by simp
    then show ?thesis by (simp add: of_nat_or_eq take_bit_nat_def drop_bit_nat_def push_bit_of_nat)
  qed
  then show ?thesis by (simp add: push_bit_or or.assoc add.commute)
qed

lemma decode_nat_groups:
  "n * 2 ^ s < 2 ^ 35 \<Longrightarrow> 5 dvd s \<Longrightarrow>
   decode_groups (nat_groups n @ rest) r s = Some (r OR push_bit s (of_nat n), rest)"
proof (induction n arbitrary: r s rule: nat_groups.induct)
  case (1 n)
  show ?case
  proof (cases "n < 32")
    case True
    then show ?thesis using group_char [of n] by (simp add: nat_groups.simps [of n] Let_def del: push_bit_and)
  next
    case False
    have "32 * 2 ^ s \<le> n * 2 ^ s" using False by (intro mult_right_mono) auto
    then have "32 * 2 ^ s < (2::nat) ^ 35" using "1.prems"(1) by (rule le_less_trans)
    moreover have "(2::nat) ^ (s + 5) = 32 * 2 ^ s" by (simp add: power_add)
    ultimately have "(2::nat) ^ (s + 5) < 2 ^ 35" by (simp only:)
    then have "s + 5 < 35" by (metis nat_power_less_imp_less zero_less_numeral)
    with "1.prems"(2) have s: "s + 5 \<le> 30" "5 dvd s + 5" by (auto elim!: dvdE)
    have "n div 32 * 2 ^ (s + 5) \<le> n * 2 ^ s"
      by (simp add: power_add mult.assoc [symmetric] mult_right_mono)
    with "1.prems"(1) have "n div 32 * 2 ^ (s + 5) < 2 ^ 35" by (rule le_less_trans [rotated])
    with "1.IH" False s(2) have IH: "decode_groups (nat_groups (n div 32) @ rest) r' (s + 5)
        = Some (r' OR push_bit (s + 5) (of_nat (n div 32)), rest)" for r' by blast
    have c: "32 + n mod 32 < 64" "(32 + n mod 32) mod 32 = n mod 32" by (simp_all add: mod_add_left_eq)
    have "\<not> sint (of_nat (32 + n mod 32) :: go_int) < 32" using group_char(2) [OF c(1)] by simp
    then show ?thesis
      using False s(1) group_char(1,3) [OF c(1)] c(2) IH split_groups [of r s n]
      by (simp add: nat_groups.simps [of n] Let_def add.assoc del: push_bit_and of_nat_add)
  qed
qed

lemma zigzag:
  assumes "\<bar>sint v\<bar> < 2 ^ 34"
  obtains n where "encodeChunk v = nat_groups n" "n < 2 ^ 35"
    "(if (of_nat n :: go_int) AND 1 \<noteq> 0 then NOT (signed_drop_bit 1 (of_nat n)) else signed_drop_bit 1 (of_nat n)) = v"
proof -
  let ?k = "sint v"
  have push: "sint (push_bit 1 v) = 2 * ?k"
  proof -
    have "push_bit 1 v = of_int (?k * 2)" by (simp add: push_bit_eq_mult)
    then show ?thesis using assms sint_of_int [of "?k * 2"] by simp
  qed
  define n where "n = nat (if ?k < 0 then - 2 * ?k - 1 else 2 * ?k)"
  have n: "int n = (if ?k < 0 then - 2 * ?k - 1 else 2 * ?k)" by (simp add: n_def)
  have bound: "n < 2 ^ 35" using n assms by (auto split: if_splits)
  then have bound63: "n < 2 ^ 63" by (rule less_le_trans) simp
  have "(if sint (push_bit 1 v) < 0 then NOT (push_bit 1 v) else push_bit 1 v) = of_nat n"
    by (rule sint_inj) (use push in \<open>simp add: sint_of_nat [OF bound63] sint_not n\<close>)
  then have enc: "encodeChunk v = nat_groups n"
    using encode_groups_nat [OF bound63] by (simp only: encodeChunk_def Let_def)
  have odd: "(of_nat n :: go_int) AND 1 \<noteq> 0 \<longleftrightarrow> ?k < 0"
  proof -
    have "(of_nat n :: go_int) AND 1 = take_bit 1 (of_nat n)" by (simp add: take_bit_eq_mask)
    also have "\<dots> = of_nat (n mod 2)" by (simp add: take_bit_of_nat take_bit_nat_def)
    finally have "(of_nat n :: go_int) AND 1 \<noteq> 0 \<longleftrightarrow> odd n" by (cases "even n") (simp_all add: odd_iff_mod_2_eq_one)
    also have "\<dots> \<longleftrightarrow> odd (int n)" by simp
    also have "\<dots> \<longleftrightarrow> ?k < 0" by (simp add: n)
    finally show ?thesis .
  qed
  have half: "sint (signed_drop_bit 1 (of_nat n :: go_int)) = int n div 2"
    using bound63 by (simp add: sint_signed_drop_bit_eq sint_of_nat drop_bit_int_def)
  have "(if ?k < 0 then NOT (signed_drop_bit 1 (of_nat n)) else signed_drop_bit 1 (of_nat n)) = v"
    by (rule sint_inj) (auto simp: sint_not half n simp del: One_nat_def)
  with enc bound odd show thesis by (intro that [of n]) simp_all
qed

lemma decode_encode_chunk:
  assumes "\<bar>sint v\<bar> < 2 ^ 34"
  shows "decodeChunk (encodeChunk v @ rest) = Some (v, rest)"
proof -
  obtain n where n: "encodeChunk v = nat_groups n" "n < 2 ^ 35"
    "(if (of_nat n :: go_int) AND 1 \<noteq> 0 then NOT (signed_drop_bit 1 (of_nat n)) else signed_drop_bit 1 (of_nat n)) = v"
    by (rule zigzag [OF assms])
  have "decode_groups (nat_groups n @ rest) 0 0 = Some (of_nat n, rest)"
    using decode_nat_groups [of n 0 rest 0] n(2) by simp
  with n(1,3) show ?thesis by (simp add: decodeChunk_def split: if_splits)
qed

text \<open>Where the bounded decoder succeeds the unbounded one agrees with it.\<close>

lemma utils_groups: "decode_groups s r k = Some x \<Longrightarrow> utils_decode_groups s r k = Some x"
  by (induction s r k rule: decode_groups.induct) (auto simp: Let_def split: if_splits)

lemma utils_chunk: "decodeChunk s = Some x \<Longrightarrow> utils_decodeChunk s = Some x"
proof -
  have "signed_drop_bit 1 (NOT w) = NOT (signed_drop_bit 1 w)" for w :: go_int
  proof (rule sint_inj)
    have "(- k - 1) div 2 = - (k div 2) - 1" for k :: int by presburger
    then show "sint (signed_drop_bit 1 (NOT w)) = sint (NOT (signed_drop_bit 1 w))"
      by (simp add: sint_not sint_signed_drop_bit_eq drop_bit_int_def)
  qed
  then show "decodeChunk s = Some x \<Longrightarrow> utils_decodeChunk s = Some x"
    using utils_groups [of s 0 0]
    by (auto simp: decodeChunk_def utils_decodeChunk_def Let_def split: option.splits if_splits)
qed

section \<open>Whole polylines\<close>

text \<open>A point whose coordinates are degrees.\<close>

definition degrees :: "point \<Rightarrow> bool" where
  "degrees p \<longleftrightarrow> \<bar>p_Lat p\<bar> \<le> 360 \<and> \<bar>p_Lng p\<bar> \<le> 360"

definition e5_point :: "point \<Rightarrow> point" where
  "e5_point p = \<lparr>p_Lat = of_int (math_Round (p_Lat p * 100000)) / 100000,
                 p_Lng = of_int (math_Round (p_Lng p * 100000)) / 100000\<rparr>"

lemma Round_small: "\<bar>x\<bar> \<le> 360 \<Longrightarrow> \<bar>math_Round (x * 100000)\<bar> \<le> 36000001"
  using math_Round_bounds [of "x * 100000"] by linarith

lemma sint_e5: "\<bar>x\<bar> \<le> 360 \<Longrightarrow> sint (to_e5 x) = math_Round (x * 100000)"
  using Round_small [of x] unfolding to_e5_def by (intro sint_of_int) auto

lemma from_to_e5: "\<bar>x\<bar> \<le> 360 \<Longrightarrow> from_e5 (to_e5 x) = of_int (math_Round (x * 100000)) / 100000"
  unfolding from_e5_def by (simp only: sint_e5)

lemma e5_degrees: "degrees p \<Longrightarrow> degrees (e5_point p)"
proof -
  have "\<bar>math_Round (x * 100000)\<bar> \<le> 36000000" if "\<bar>x\<bar> \<le> 360" for x
  proof -
    have "\<bar>of_int (math_Round (x * 100000))\<bar> < (36000001 :: real)"
      using math_Round_bounds [of "x * 100000"] that by linarith
    then show ?thesis by linarith
  qed
  then have "\<bar>of_int (math_Round (x * 100000))\<bar> \<le> (36000000 :: real)" if "\<bar>x\<bar> \<le> 360" for x
    using that by (simp flip: of_int_abs)
  then have "\<bar>of_int (math_Round (x * 100000)) / 100000\<bar> \<le> (360 :: real)" if "\<bar>x\<bar> \<le> 360" for x
    using that by (simp add: abs_le_iff)
  then show "degrees p \<Longrightarrow> degrees (e5_point p)" by (simp add: degrees_def e5_point_def)
qed

lemma e5_close: "\<bar>p_Lat (e5_point p) - p_Lat p\<bar> \<le> 1 / 200000 \<and> \<bar>p_Lng (e5_point p) - p_Lng p\<bar> \<le> 1 / 200000"
  using math_Round_bounds [of "p_Lat p * 100000"] math_Round_bounds [of "p_Lng p * 100000"]
  by (simp add: e5_point_def field_simps)

lemma sint_minus_small:
  "\<bar>sint v\<bar> \<le> 36000001 \<Longrightarrow> \<bar>sint w\<bar> \<le> 36000001 \<Longrightarrow> sint (v - w :: go_int) = sint v - sint w"
  using sint_of_int [of "sint v - sint w"] by simp

lemma decode_encode_points:
  assumes "list_all degrees ps" "\<bar>sint a\<bar> \<le> 36000001" "\<bar>sint b\<bar> \<le> 36000001"
  shows "decode_points (encode_points ps a b) a b acc = acc @ map e5_point ps"
  using assms
proof (induction ps arbitrary: a b acc)
  case Nil
  then show ?case by (simp add: decode_points.simps)
next
  case (Cons p ps)
  let ?x = "to_e5 (p_Lat p)" and ?y = "to_e5 (p_Lng p)"
  have d: "\<bar>p_Lat p\<bar> \<le> 360" "\<bar>p_Lng p\<bar> \<le> 360" using Cons.prems(1) by (simp_all add: degrees_def)
  have x: "\<bar>sint ?x\<bar> \<le> 36000001" "\<bar>sint ?y\<bar> \<le> 36000001"
    using Round_small [OF d(1)] Round_small [OF d(2)] by (simp_all add: sint_e5 d)
  have "\<bar>sint (?x - a)\<bar> < 2 ^ 34" "\<bar>sint (?y - b)\<bar> < 2 ^ 34"
    using x Cons.prems(2,3) by (simp_all add: sint_minus_small)
  note chunk = this [THEN decode_encode_chunk]
  have ne: "encodeChunk v \<noteq> []" for v
    by (simp add: encodeChunk_def encode_groups.simps Let_def)
  have "decode_points (encode_points (p # ps) a b) a b acc
      = decode_points (encode_points ps ?x ?y) ?x ?y (acc @ [e5_point p])"
    by (subst decode_points.simps) (simp add: Let_def chunk ne e5_point_def from_to_e5 d)
  also have "\<dots> = acc @ map e5_point (p # ps)"
    using Cons.IH [of ?x ?y] x Cons.prems(1) by simp
  finally show ?case .
qed

text \<open>The other implementation: the same encoder, and a decoder that agrees where this one accepts.\<close>

definition poly_point :: "point \<Rightarrow> PolyPoint" where
  "poly_point p = \<lparr>pp_Lat = p_Lat p, pp_Lng = p_Lng p\<rparr>"

lemma utils_encode_points: "utils_encode_points (map poly_point ps) a b = encode_points ps a b"
  by (induction ps arbitrary: a b) (simp_all add: poly_point_def Let_def)

lemma decode_points_acc: "decode_points s a b acc \<noteq> [] \<Longrightarrow> acc \<noteq> [] \<or> s \<noteq> []"
  by (auto simp: decode_points.simps)

lemma utils_decode_points:
  "decode_points s a b acc \<noteq> [] \<Longrightarrow>
   utils_decode_points s a b (map poly_point acc) = Some (map poly_point (decode_points s a b acc))"
proof (induction s a b acc rule: decode_points.induct)
  case (1 s a b acc)
  show ?case
  proof (cases "s = []")
    case True
    then show ?thesis by (simp add: decode_points.simps utils_decode_points.simps)
  next
    case False
    with "1.prems" obtain d1 s1 d2 s2 where
      s: "decodeChunk s = Some (d1, s1)" "decodeChunk s1 = Some (d2, s2)"
      by (auto simp: decode_points.simps [of s] split: option.splits prod.splits)
    let ?p = "\<lparr>p_Lat = from_e5 (a + d1), p_Lng = from_e5 (b + d2)\<rparr>"
    have step: "decode_points s a b acc = decode_points s2 (a + d1) (b + d2) (acc @ [?p])"
      using False s by (simp add: decode_points.simps [of s])
    have "utils_decode_points s2 (a + d1) (b + d2) (map poly_point (acc @ [?p]))
        = Some (map poly_point (decode_points s2 (a + d1) (b + d2) (acc @ [?p])))"
      using "1.IH" [OF False s(1) refl s(2) refl] "1.prems" step by simp
    moreover have "poly_point ?p = \<lparr>pp_Lat = from_e5 (a + d1), pp_Lng = from_e5 (b + d2)\<rparr>"
      by (simp add: poly_point_def)
    ultimately show ?thesis
      using False s [THEN utils_chunk] step by (simp add: utils_decode_points.simps [of s])
  qed
qed

lemma DecodePolyline_Encode: "list_all degrees ps \<Longrightarrow> DecodePolyline (EncodePolyline ps) = map e5_point ps"
  by (simp add: DecodePolyline_def EncodePolyline_def decode_encode_points)

lemma encode_Nil: "encode_points ps a b = [] \<longleftrightarrow> ps = []"
  by (cases ps) (simp_all add: Let_def encodeChunk_def encode_groups.simps)

lemma utils_EncodePolyline_eq: "utils_EncodePolyline (map poly_point ps) = EncodePolyline ps"
  by (simp add: utils_EncodePolyline_def EncodePolyline_def utils_encode_points)

lemma utils_DecodePolyline_eq:
  "DecodePolyline s \<noteq> [] \<Longrightarrow> utils_DecodePolyline s = Some (map poly_point (DecodePolyline s))"
  using utils_decode_points [of s 0 0 "[]"]
  by (auto simp: DecodePolyline_def utils_DecodePolyline_def decode_points.simps)

lemma utils_Decode_Encode:
  "list_all degrees ps \<Longrightarrow>
   utils_DecodePolyline (EncodePolyline ps) = Some (map (poly_point \<circ> e5_point) ps)"
  using utils_DecodePolyline_eq [of "EncodePolyline ps"] DecodePolyline_Encode [of ps]
  by (cases "ps = []") (simp_all add: utils_DecodePolyline_def EncodePolyline_def)

section \<open>Combining legs\<close>

text \<open>The points a list of legs is joined to: the first point of a later leg is dropped.\<close>

fun join_legs :: "point list \<Rightarrow> point list list \<Rightarrow> point list" where
  "join_legs acc [] = acc"
| "join_legs acc (l # ls) = join_legs (acc @ (if acc = [] then l else tl l)) ls"

lemma combine_legs_join:
  "list_all (list_all degrees) legs \<Longrightarrow> (i = 0 \<longrightarrow> acc = []) \<Longrightarrow>
   combine_legs i (map poly_point acc) (map EncodePolyline legs)
     = Some (map poly_point (join_legs acc (map (map e5_point) legs)))"
proof (induction legs arbitrary: i acc)
  case (Cons l ls)
  have d: "utils_DecodePolyline (EncodePolyline l) = Some (map poly_point (map e5_point l))"
    using Cons.prems(1) by (simp add: utils_Decode_Encode)
  show ?case
  proof (cases "l = []")
    case True
    then show ?thesis using Cons.IH [of "i + 1" acc] Cons.prems d by simp
  next
    case False
    let ?l = "if acc = [] then map e5_point l else tl (map e5_point l)"
    have "i > 0 \<and> acc \<noteq> [] \<longleftrightarrow> acc \<noteq> []" using Cons.prems(2) by auto
    then have "combine_legs i (map poly_point acc) (map EncodePolyline (l # ls))
        = combine_legs (i + 1) (map poly_point (acc @ ?l)) (map EncodePolyline ls)"
      using d False by (simp add: Let_def map_tl)
    also have "\<dots> = Some (map poly_point (join_legs (acc @ ?l) (map (map e5_point) ls)))"
      using Cons.IH [of "i + 1" "acc @ ?l"] Cons.prems(1) by simp
    finally show ?thesis by simp
  qed
qed simp

lemma e5_idem: "e5_point (e5_point p) = e5_point p"
  by (simp add: e5_point_def)


lemma join_degrees:
  "list_all degrees acc \<Longrightarrow> list_all (list_all degrees) ls \<Longrightarrow> list_all degrees (join_legs acc ls)"
proof (induction acc ls rule: join_legs.induct)
  case (2 acc l ls)
  then show ?case by (cases l) auto
qed simp

lemma e5_join:
  "map e5_point acc = acc \<Longrightarrow>
   map e5_point (join_legs acc (map (map e5_point) ls)) = join_legs acc (map (map e5_point) ls)"
proof (induction ls arbitrary: acc)
  case (Cons l ls)
  have "map e5_point (acc @ (if acc = [] then map e5_point l else tl (map e5_point l)))
      = acc @ (if acc = [] then map e5_point l else tl (map e5_point l))"
    using Cons.prems by (simp add: e5_idem map_tl comp_def)
  from Cons.IH [OF this] show ?case by simp
qed simp

lemma CombinePolylines_join:
  assumes "list_all (list_all degrees) legs"
  shows "CombinePolylines (map EncodePolyline legs)
      = Some (EncodePolyline (join_legs [] (map (map e5_point) legs)))"
    "DecodePolyline (EncodePolyline (join_legs [] (map (map e5_point) legs)))
      = join_legs [] (map (map e5_point) legs)"
proof -
  show "CombinePolylines (map EncodePolyline legs)
      = Some (EncodePolyline (join_legs [] (map (map e5_point) legs)))"
    using combine_legs_join [of legs 0 "[]"] assms
    by (simp add: CombinePolylines_def utils_EncodePolyline_eq)
  have "list_all (list_all degrees) (map (map e5_point) legs)"
    using assms by (auto simp: list_all_iff e5_degrees)
  then show "DecodePolyline (EncodePolyline (join_legs [] (map (map e5_point) legs)))
      = join_legs [] (map (map e5_point) legs)"
    by (simp add: DecodePolyline_Encode join_degrees e5_join)
qed

text \<open>C7. Decoding an encoded polyline gives the points back, each coordinate rounded to five decimals and so at most half a unit of the fifth decimal away; both packages' encoders write the same text and both decoders read it the same way.\<close>

theorem Polyline_roundtrip:
  assumes "list_all degrees ps"
  shows "DecodePolyline (EncodePolyline ps) = map e5_point ps
    \<and> utils_EncodePolyline (map poly_point ps) = EncodePolyline ps
    \<and> utils_DecodePolyline (EncodePolyline ps) = Some (map poly_point (map e5_point ps))
    \<and> (\<forall>p\<in>set ps. \<bar>p_Lat (e5_point p) - p_Lat p\<bar> \<le> 1 / 200000
        \<and> \<bar>p_Lng (e5_point p) - p_Lng p\<bar> \<le> 1 / 200000)"
  using assms by (simp add: DecodePolyline_Encode utils_EncodePolyline_eq utils_Decode_Encode e5_close del: le_divide_eq_numeral1)

lemma Polyline_roundtrip_witness:
  "DecodePolyline (EncodePolyline [\<lparr>p_Lat = 35.69, p_Lng = 51.39\<rparr>, \<lparr>p_Lat = -1, p_Lng = 2\<rparr>])
    = map e5_point [\<lparr>p_Lat = 35.69, p_Lng = 51.39\<rparr>, \<lparr>p_Lat = -1, p_Lng = 2\<rparr>]"
  using Polyline_roundtrip [of "[\<lparr>p_Lat = 35.69, p_Lng = 51.39\<rparr>, \<lparr>p_Lat = -1, p_Lng = 2\<rparr>]"]
  by (simp add: degrees_def)

text \<open>The two decoders: where the routing decoder returns points the other one returns the same points.\<close>

theorem decoders_agree:
  "DecodePolyline s \<noteq> [] \<Longrightarrow> utils_DecodePolyline s = Some (map poly_point (DecodePolyline s))"
  by (rule utils_DecodePolyline_eq)

text \<open>The two decoders differ on malformed text: on half a point one returns nil, the other indexes past the end of the string.\<close>

theorem utils_decoder_panics: "DecodePolyline ''?'' = [] \<and> utils_DecodePolyline ''?'' = None"
  by (simp add: DecodePolyline_def utils_DecodePolyline_def decode_points.simps utils_decode_points.simps
      decodeChunk_def utils_decodeChunk_def)

text \<open>\<open>CombinePolylines\<close> joins encoded legs into the encoding of one line: the legs' points in order, the first point of every leg after the first point dropped, with no rounding beyond that of the legs.\<close>

theorem CombinePolylines_joins:
  assumes "list_all (list_all degrees) legs"
  shows "\<exists>s. CombinePolylines (map EncodePolyline legs) = Some s
    \<and> DecodePolyline s = join_legs [] (map DecodePolyline (map EncodePolyline legs))"
proof -
  have "map DecodePolyline (map EncodePolyline legs) = map (map e5_point) legs"
    using assms by (induction legs) (simp_all add: DecodePolyline_Encode)
  with CombinePolylines_join [OF assms] show ?thesis by metis
qed

lemma CombinePolylines_joins_witness:
  "\<exists>s. CombinePolylines (map EncodePolyline [[\<lparr>p_Lat = 0, p_Lng = 0\<rparr>, \<lparr>p_Lat = 1, p_Lng = 1\<rparr>],
                                              [\<lparr>p_Lat = 1, p_Lng = 1\<rparr>, \<lparr>p_Lat = 2, p_Lng = 1\<rparr>]]) = Some s
    \<and> DecodePolyline s = join_legs [] (map DecodePolyline (map EncodePolyline
        [[\<lparr>p_Lat = 0, p_Lng = 0\<rparr>, \<lparr>p_Lat = 1, p_Lng = 1\<rparr>], [\<lparr>p_Lat = 1, p_Lng = 1\<rparr>, \<lparr>p_Lat = 2, p_Lng = 1\<rparr>]]))"
  by (rule CombinePolylines_joins) (simp add: degrees_def)

end
