(* ===== verification/Profiles.thy ===== *)
theory Profiles
  imports AStar
begin

text \<open>
  The transport modes of \<open>internal/routing/engine.go\<close>: the mode names, \<open>NormalizeMode\<close>, and
  the table of mode profiles with the speed functions it refers to.  A mode is a string, as
  in the code; the error of \<open>NormalizeMode\<close> carries the text it quotes.  Case folding and
  trimming are those of ASCII bytes.
\<close>

section \<open>Modes\<close>

type_synonym TransportMode = string

definition ModeCar :: TransportMode where "ModeCar = ''car''"
definition ModeMotorcycle :: TransportMode where "ModeMotorcycle = ''motorcycle''"
definition ModeBus :: TransportMode where "ModeBus = ''bus''"
definition ModeWalking :: TransportMode where "ModeWalking = ''walking''"
definition ModeAirplane :: TransportMode where "ModeAirplane = ''airplane''"
definition ModeTrain :: TransportMode where "ModeTrain = ''train''"
definition ModePublicTransport :: TransportMode where "ModePublicTransport = ''public_transport''"

lemmas mode_defs = ModeCar_def ModeMotorcycle_def ModeBus_def ModeWalking_def ModeAirplane_def
  ModeTrain_def ModePublicTransport_def

datatype mode_error = UnsupportedMode string

definition NormalizeMode :: "string \<Rightarrow> mode_error + TransportMode" where
  "NormalizeMode raw =
     (let mode = ToLower (TrimSpace raw) in
      if mode = [] then Inr ModeCar
      else if mode \<in> {ModeCar, ModeMotorcycle, ModeBus, ModeWalking, ModeAirplane, ModeTrain,
                      ModePublicTransport} then Inr mode
      else if mode \<in> {''walk'', ''pedestrian'', ''foot''} then Inr ModeWalking
      else if mode \<in> {''transit'', ''publictransport'', ''public-transport'', ''pt''} then Inr ModePublicTransport
      else if mode \<in> {''bike'', ''bicycle''} then Inl (UnsupportedMode raw)
      else Inl (UnsupportedMode raw))"

section \<open>Speeds\<close>

definition minSpeed :: "float64 \<Rightarrow> float64 \<Rightarrow> float64" where
  "minSpeed a b = (if a \<le> 0 then b else if b \<le> 0 then a else min a b)"

definition motorcycleSpeed :: "edge \<Rightarrow> float64" where
  "motorcycleSpeed e =
     (case e_Kind e of
        HWMotorway \<Rightarrow> 120 | HWMotorwayLink \<Rightarrow> 90 | HWTrunk \<Rightarrow> 100 | HWTrunkLink \<Rightarrow> 80
      | HWPrimary \<Rightarrow> 90 | HWPrimaryLink \<Rightarrow> 75 | HWSecondary \<Rightarrow> 70 | HWSecondaryLink \<Rightarrow> 60
      | HWTertiary \<Rightarrow> 60 | HWTertiaryLink \<Rightarrow> 50 | HWUnclassified \<Rightarrow> 50 | HWResidential \<Rightarrow> 40
      | HWLivingStreet \<Rightarrow> 25 | HWService \<Rightarrow> 25 | HWTrack \<Rightarrow> 25
      | _ \<Rightarrow> e_SpeedKmH e * 1.1)"

definition busSpeed :: "edge \<Rightarrow> float64" where
  "busSpeed e =
     (case e_Kind e of
        HWMotorway \<Rightarrow> minSpeed 90 (e_SpeedKmH e) | HWMotorwayLink \<Rightarrow> minSpeed 70 (e_SpeedKmH e)
      | HWTrunk \<Rightarrow> minSpeed 80 (e_SpeedKmH e) | HWTrunkLink \<Rightarrow> minSpeed 70 (e_SpeedKmH e)
      | HWPrimary \<Rightarrow> minSpeed 70 (e_SpeedKmH e) | HWPrimaryLink \<Rightarrow> minSpeed 60 (e_SpeedKmH e)
      | HWSecondary \<Rightarrow> minSpeed 55 (e_SpeedKmH e) | HWSecondaryLink \<Rightarrow> minSpeed 50 (e_SpeedKmH e)
      | HWTertiary \<Rightarrow> minSpeed 45 (e_SpeedKmH e) | HWTertiaryLink \<Rightarrow> minSpeed 40 (e_SpeedKmH e)
      | HWUnclassified \<Rightarrow> minSpeed 35 (e_SpeedKmH e) | HWResidential \<Rightarrow> minSpeed 25 (e_SpeedKmH e)
      | HWLivingStreet \<Rightarrow> minSpeed 15 (e_SpeedKmH e) | HWService \<Rightarrow> minSpeed 15 (e_SpeedKmH e)
      | HWTrack \<Rightarrow> minSpeed 15 (e_SpeedKmH e)
      | _ \<Rightarrow> e_SpeedKmH e * 0.8)"

definition trainSpeed :: "edge \<Rightarrow> float64" where
  "trainSpeed e =
     (case e_Kind e of
        HWRail \<Rightarrow> e_SpeedKmH e | HWSubway \<Rightarrow> 60 | HWLightRail \<Rightarrow> 50 | HWNarrowGauge \<Rightarrow> 40
      | HWTram \<Rightarrow> 30 | _ \<Rightarrow> e_SpeedKmH e)"

definition transitSpeed :: "edge \<Rightarrow> float64" where
  "transitSpeed e =
     (case e_Kind e of
        HWSubway \<Rightarrow> e_SpeedKmH e | HWBusRoute \<Rightarrow> e_SpeedKmH e | HWTransfer \<Rightarrow> e_SpeedKmH e
      | _ \<Rightarrow> e_SpeedKmH e)"

definition walkingAllowed :: "edge \<Rightarrow> bool" where
  "walkingAllowed e \<longleftrightarrow> Has (e_Flags e) FlagFoot \<and> \<not> BlocksWalking (e_Kind e)"

definition walkingSpeed :: "edge \<Rightarrow> float64" where
  "walkingSpeed e =
     (let k = e_Kind e in
      if k \<in> {HWFootway, HWPedestrian, HWPath, HWCorridor, HWCrossing, HWSidewalk, HWPlatform} then 5
      else if k = HWSteps then 3
      else if k = HWLivingStreet then 4
      else if k \<in> {HWResidential, HWService} then 2.2
      else if k = HWTrack then 2
      else if k = HWUnclassified then 1.8
      else if k \<in> {HWTertiary, HWTertiaryLink} then 1.5
      else if k \<in> {HWSecondary, HWSecondaryLink, HWPrimary, HWPrimaryLink} then 1.2
      else 2)"

section \<open>Profiles\<close>

record modeProfile =
  edgeAllowed :: "edge \<Rightarrow> bool"
  edgeSpeed :: "(edge \<Rightarrow> float64) option"
  fallbackSpeedKmH :: float64
  heuristicSpeedKmH :: float64

definition profiles :: "TransportMode \<Rightarrow> modeProfile option" where
  "profiles =
     [ModeCar \<mapsto> \<lparr>edgeAllowed = (\<lambda>e. Has (e_Flags e) FlagCar), edgeSpeed = None,
         fallbackSpeedKmH = 0, heuristicSpeedKmH = 130\<rparr>,
      ModeMotorcycle \<mapsto> \<lparr>edgeAllowed = (\<lambda>e. Has (e_Flags e) FlagMotorcycle),
         edgeSpeed = Some motorcycleSpeed, fallbackSpeedKmH = 60, heuristicSpeedKmH = 150\<rparr>,
      ModeBus \<mapsto> \<lparr>edgeAllowed = (\<lambda>e. e_Flags e AND (FlagBus OR FlagCar) \<noteq> 0),
         edgeSpeed = Some busSpeed, fallbackSpeedKmH = 65, heuristicSpeedKmH = 100\<rparr>,
      ModeWalking \<mapsto> \<lparr>edgeAllowed = walkingAllowed, edgeSpeed = Some walkingSpeed,
         fallbackSpeedKmH = 5, heuristicSpeedKmH = 6\<rparr>,
      ModeTrain \<mapsto> \<lparr>edgeAllowed = (\<lambda>e. Has (e_Flags e) FlagTrain), edgeSpeed = Some trainSpeed,
         fallbackSpeedKmH = 80, heuristicSpeedKmH = 200\<rparr>,
      ModePublicTransport \<mapsto> \<lparr>edgeAllowed = (\<lambda>e. Has (e_Flags e) FlagTransit),
         edgeSpeed = Some transitSpeed, fallbackSpeedKmH = 20, heuristicSpeedKmH = 40\<rparr>]"

definition profileSpeedFn :: "TransportMode \<Rightarrow> (edge \<Rightarrow> float64) option" where
  "profileSpeedFn mode = (case profiles mode of Some p \<Rightarrow> edgeSpeed p | None \<Rightarrow> None)"

lemmas speed_fns = motorcycleSpeed_def busSpeed_def trainSpeed_def transitSpeed_def walkingSpeed_def

lemma profiles_Some_cases:
  assumes "profiles m = Some p"
  obtains
    (car) "m = ModeCar" "edgeSpeed p = None" "heuristicSpeedKmH p = 130" "fallbackSpeedKmH p = 0"
  | (motorcycle) "m = ModeMotorcycle" "edgeSpeed p = Some motorcycleSpeed" "heuristicSpeedKmH p = 150" "fallbackSpeedKmH p = 60"
  | (bus) "m = ModeBus" "edgeSpeed p = Some busSpeed" "heuristicSpeedKmH p = 100" "fallbackSpeedKmH p = 65"
  | (walking) "m = ModeWalking" "edgeSpeed p = Some walkingSpeed" "heuristicSpeedKmH p = 6" "fallbackSpeedKmH p = 5"
  | (train) "m = ModeTrain" "edgeSpeed p = Some trainSpeed" "heuristicSpeedKmH p = 200" "fallbackSpeedKmH p = 80"
  | (transit) "m = ModePublicTransport" "edgeSpeed p = Some transitSpeed" "heuristicSpeedKmH p = 40" "fallbackSpeedKmH p = 20"
  using assms unfolding profiles_def by (auto split: if_splits)

lemma profiles_dom: "dom profiles = {ModeCar, ModeMotorcycle, ModeBus, ModeWalking, ModeTrain, ModePublicTransport}"
  by (auto simp: profiles_def dom_def)

lemma minSpeed_le: "0 < a \<Longrightarrow> minSpeed a b \<le> a"
  by (simp add: minSpeed_def)

lemma walkingSpeed_range: "0 < walkingSpeed e \<and> walkingSpeed e \<le> 5"
  by (simp add: walkingSpeed_def Let_def)

lemma motorcycleSpeed_le: "e_SpeedKmH e \<le> s \<Longrightarrow> motorcycleSpeed e \<le> max 120 (1.1 * s)"
  by (cases "e_Kind e") (simp_all add: motorcycleSpeed_def)

lemma busSpeed_le: "e_SpeedKmH e \<le> s \<Longrightarrow> busSpeed e \<le> max 90 (0.8 * s)"
proof -
  assume "e_SpeedKmH e \<le> s"
  moreover have "minSpeed a b \<le> max 90 (0.8 * s)" if "0 < a" "a \<le> 90" for a b
    using minSpeed_le [OF that(1), of b] that(2) by simp
  ultimately show ?thesis by (cases "e_Kind e") (simp_all add: busSpeed_def)
qed

lemma trainSpeed_le: "e_SpeedKmH e \<le> s \<Longrightarrow> trainSpeed e \<le> max 60 s"
  by (cases "e_Kind e") (simp_all add: trainSpeed_def)

lemma transitSpeed_eq: "transitSpeed e = e_SpeedKmH e"
  by (cases "e_Kind e") (simp_all add: transitSpeed_def)

text \<open>
  The speed limits under which a profile's heuristic speed bounds every speed the search
  uses: 120 km/h on roads, 200 on rails, 40 on the transit overlay.
\<close>

definition speed_limit :: "TransportMode \<Rightarrow> float64" where
  "speed_limit m = (if m = ModeTrain then 200 else if m = ModePublicTransport then 40 else 120)"

definition edge_within :: "TransportMode \<Rightarrow> edge \<Rightarrow> bool" where
  "edge_within m e \<longleftrightarrow> 0 \<le> e_DistanceKm e \<and> e_SpeedKmH e \<le> speed_limit m
     \<and> (e_TimeHours e > 0 \<longrightarrow> e_DistanceKm e \<le> speed_limit m * e_TimeHours e)"

lemma edge_time_bound:
  assumes p: "profiles m = Some p" and e: "edge_within m e"
  shows "e_DistanceKm e \<le> heuristicSpeedKmH p * edgeTravelTimeHours e (edgeSpeed p)"
proof -
  have d: "0 \<le> e_DistanceKm e" and s: "e_SpeedKmH e \<le> speed_limit m" using e by (simp_all add: edge_within_def)
  have by_speed: "e_DistanceKm e \<le> h * (e_DistanceKm e / s)" if "0 < s" "s \<le> h" for s h
    using mult_right_mono [OF that(2) d] that(1) by (simp add: field_simps)
  from p show ?thesis
  proof (cases rule: profiles_Some_cases)
    case car
    then have "speed_limit m = 120" by (simp add: speed_limit_def mode_defs)
    with car d s e show ?thesis
      using by_speed [of "e_SpeedKmH e" 130] by_speed [of 40 130]
      by (auto simp: edgeTravelTimeHours_def edge_within_def Let_def)
  next
    case motorcycle
    have "motorcycleSpeed e \<le> 150" using motorcycleSpeed_le [OF s] motorcycle by (simp add: speed_limit_def mode_defs)
    with motorcycle show ?thesis
      using by_speed [of "motorcycleSpeed e" 150] by_speed [of 40 150] by (simp add: edgeTravelTimeHours_def Let_def)
  next
    case bus
    have "busSpeed e \<le> 100" using busSpeed_le [OF s] bus by (simp add: speed_limit_def mode_defs)
    with bus show ?thesis
      using by_speed [of "busSpeed e" 100] by_speed [of 40 100] by (simp add: edgeTravelTimeHours_def Let_def)
  next
    case walking
    then show ?thesis using by_speed [of "walkingSpeed e" 6] walkingSpeed_range [of e]
      by (simp add: edgeTravelTimeHours_def Let_def)
  next
    case train
    have "trainSpeed e \<le> 200" using trainSpeed_le [OF s] train by (simp add: speed_limit_def mode_defs)
    with train show ?thesis
      using by_speed [of "trainSpeed e" 200] by_speed [of 40 200] by (simp add: edgeTravelTimeHours_def Let_def)
  next
    case transit
    have "transitSpeed e \<le> 40" using s transit by (simp add: transitSpeed_eq speed_limit_def mode_defs)
    with transit show ?thesis
      using by_speed [of "transitSpeed e" 40] by_speed [of 40 40] by (simp add: edgeTravelTimeHours_def Let_def)
  qed
qed

lemma NormalizeMode_known:
  "NormalizeMode raw = Inr m \<Longrightarrow> m \<in> insert ModeAirplane (dom profiles)"
  by (auto simp: NormalizeMode_def Let_def profiles_dom split: if_splits)

lemma NormalizeMode_fixed: "m \<in> insert ModeAirplane (dom profiles) \<Longrightarrow> NormalizeMode m = Inr m"
  by (auto simp: profiles_dom NormalizeMode_def TrimSpace_def ToLower_def lower_char_def is_space_def mode_defs)

text \<open>
  \<open>NormalizeMode\<close> answers a mode the engine can serve (one with a profile, or airplane),
  leaves every such mode as it is, takes the empty text to car, and rejects any other text
  with the text it was given.
\<close>

theorem NormalizeMode_modes:
  "(case NormalizeMode raw of
      Inr m \<Rightarrow> (m = ModeAirplane \<or> profiles m \<noteq> None) \<and> NormalizeMode m = Inr m
    | Inl (UnsupportedMode s) \<Rightarrow> s = raw)
   \<and> (TrimSpace raw = [] \<longrightarrow> NormalizeMode raw = Inr ModeCar)"
proof -
  have "profiles m \<noteq> None \<longleftrightarrow> m \<in> dom profiles" for m by auto
  then have "case NormalizeMode raw of
      Inr m \<Rightarrow> (m = ModeAirplane \<or> profiles m \<noteq> None) \<and> NormalizeMode m = Inr m
    | Inl (UnsupportedMode s) \<Rightarrow> s = raw"
  proof (cases "NormalizeMode raw")
    case (Inl err)
    then show ?thesis by (auto simp: NormalizeMode_def Let_def split: if_splits)
  next
    case (Inr m)
    then show ?thesis using NormalizeMode_known [OF Inr] NormalizeMode_fixed [of m] by auto
  qed
  moreover have "TrimSpace raw = [] \<Longrightarrow> NormalizeMode raw = Inr ModeCar"
    by (simp add: NormalizeMode_def ToLower_def)
  ultimately show ?thesis by blast
qed

theorem NormalizeMode_modes_witness: "NormalizeMode ''  '' = Inr ModeCar"
  using NormalizeMode_modes [of "''  ''"] by (simp add: TrimSpace_def is_space_def)

text \<open>
  In every mode, an edge whose speeds respect the limits of the data (120 km/h on roads,
  200 on rails, 40 on the transit overlay) takes at least its length divided by the
  profile's heuristic speed, whichever of the precomputed time, the class speed or the
  40 km/h default the search uses.
\<close>

theorem profile_heuristic_bounds:
  assumes "profiles m = Some p" "edge_within m e"
  shows "e_DistanceKm e / heuristicSpeedKmH p \<le> edgeTravelTimeHours e (edgeSpeed p)"
proof -
  have "0 < heuristicSpeedKmH p" using assms(1) by (cases rule: profiles_Some_cases) auto
  then show ?thesis
    using edge_time_bound [OF assms] by (simp add: divide_le_eq mult.commute)
qed

theorem profile_heuristic_bounds_witness:
  "12 / 150 \<le> edgeTravelTimeHours
     \<lparr>e_To = 2, e_DistanceKm = 12, e_SpeedKmH = 60, e_TimeHours = 1 / 5, e_Kind = HWTrack,
      e_Flags = FlagMotorcycle, e_NameIdx = 0\<rparr> (Some motorcycleSpeed)"
proof -
  have "profiles ModeMotorcycle = Some \<lparr>edgeAllowed = (\<lambda>e. Has (e_Flags e) FlagMotorcycle),
         edgeSpeed = Some motorcycleSpeed, fallbackSpeedKmH = 60, heuristicSpeedKmH = 150\<rparr>"
    by (simp add: profiles_def mode_defs)
  from profile_heuristic_bounds [OF this, of "\<lparr>e_To = 2, e_DistanceKm = 12, e_SpeedKmH = 60,
      e_TimeHours = 1 / 5, e_Kind = HWTrack, e_Flags = FlagMotorcycle, e_NameIdx = 0\<rparr>"]
  show ?thesis by (simp add: edge_within_def speed_limit_def mode_defs)
qed

end
