(* ===== verification/Instructions.thy ===== *)
theory Instructions
  imports Profiles GoStd
begin

text \<open>
  \<open>internal/routing/instructions.go\<close>: the turn-by-turn instructions of a path.  Indexing a
  slice out of range panics in Go, so every index the code does not guard is an \<open>option\<close>;
  the theorems show that no panic happens on a path with one node more than edges.  The
  Persian texts are their UTF-8 bytes.  \<open>%.1f\<close> is applied by the code to a number that is
  already a multiple of a tenth, \<open>%.0f\<close> to an integer.
\<close>

definition slot :: "'a list \<Rightarrow> nat \<Rightarrow> 'a option" where
  "slot xs i = (if i < length xs then Some (xs ! i) else None)"

record Instruction =
  in_Index :: nat
  in_Type :: string
  in_Modifier :: string
  in_Text :: string
  in_DistanceKm :: float64
  in_DurationMin :: float64
  in_Location :: point
  in_StreetName :: string

record maneuver =
  m_nodeIndex :: nat
  m_typ :: string
  m_modifier :: string
  m_street :: string

section \<open>Bearings and turns\<close>

definition bearingDegrees :: "float64 \<Rightarrow> float64 \<Rightarrow> float64 \<Rightarrow> float64 \<Rightarrow> float64" where
  "bearingDegrees lat1 lng1 lat2 lng2 =
     (let lat1r = lat1 * (pi / 180);
          lat2r = lat2 * (pi / 180);
          dLng = (lng2 - lng1) * (pi / 180);
          y = sin dLng * cos lat2r;
          x = cos lat1r * sin lat2r - sin lat1r * cos lat2r * cos dLng;
          b = math_Atan2 y x * (180 / pi)
      in if b < 0 then b + 360 else b)"

text \<open>\<open>math.Mod\<close> truncates the quotient towards zero.\<close>

definition math_Mod :: "float64 \<Rightarrow> float64 \<Rightarrow> float64" where
  "math_Mod x y = x - y * of_int (if 0 \<le> x / y then \<lfloor>x / y\<rfloor> else \<lceil>x / y\<rceil>)"

definition turnAngle :: "float64 \<Rightarrow> float64 \<Rightarrow> float64" where
  "turnAngle fromBearing toBearing = math_Mod (toBearing - fromBearing + 540) 360 - 180"

definition node_bearing :: "node \<Rightarrow> node \<Rightarrow> float64" where
  "node_bearing a b = bearingDegrees (n_Lat a) (n_Lng a) (n_Lat b) (n_Lng b)"

definition maneuverType :: "float64 \<Rightarrow> string \<times> string" where
  "maneuverType delta =
     (let a = \<bar>delta\<bar> in
      if a \<ge> 155 then (''uturn'', ''uturn'')
      else let side = (if delta < 0 then ''left'' else ''right'') in
        if a < 25 then (''continue'', ''straight'')
        else if a < 55 then (''turn'', ''slight_'' @ side)
        else if a < 125 then (''turn'', side)
        else (''turn'', ''sharp_'' @ side))"

section \<open>Streets and links\<close>

type_synonym name_fn = "(32 word \<Rightarrow> string) option"

definition streetName :: "PathResult \<Rightarrow> nat \<Rightarrow> name_fn \<Rightarrow> string" where
  "streetName path edgeIdx nameFn =
     (case nameFn of
        None \<Rightarrow> []
      | Some f \<Rightarrow> if edgeIdx \<ge> length (pr_Edges path) then []
                  else TrimSpace (f (e_NameIdx (pr_Edges path ! edgeIdx))))"

definition sameStreet :: "string \<Rightarrow> string \<Rightarrow> bool" where
  "sameStreet a b \<longleftrightarrow>
     (let a = TrimSpace (ToLower a); b = TrimSpace (ToLower b) in a \<noteq> [] \<and> a = b)"

definition isUnnamedLink :: "edge \<Rightarrow> bool" where
  "isUnnamedLink e \<longleftrightarrow> e_NameIdx e = 0 \<and> IsLink (e_Kind e)"

fun link_run :: "edge list \<Rightarrow> nat \<Rightarrow> float64 \<Rightarrow> nat \<times> float64" where
  "link_run [] endEdge distanceKm = (endEdge, distanceKm)"
| "link_run (e # es) endEdge distanceKm =
     (if isUnnamedLink e then link_run es (endEdge + 1) (distanceKm + e_DistanceKm e)
      else (endEdge, distanceKm))"

definition unnamedLinkChain :: "PathResult \<Rightarrow> nat \<Rightarrow> (nat \<times> float64 \<times> float64) option" where
  "unnamedLinkChain path startEdge =
     (let nodes = pr_Nodes path; edges = pr_Edges path in
      if startEdge \<ge> length edges \<or> startEdge + 1 \<ge> length nodes then Some (startEdge, 0, 0)
      else if \<not> isUnnamedLink (edges ! startEdge) then Some (startEdge, 0, 0)
      else let (endEdge, distanceKm) = link_run (drop startEdge edges) startEdge 0;
               endEdge = (if endEdge \<ge> length nodes then length nodes - 1 else endEdge)
           in if endEdge \<le> startEdge then Some (startEdge, 0, distanceKm)
              else if startEdge = 0 then None
              else case (slot nodes (startEdge - 1), slot nodes startEdge, slot nodes endEdge) of
                     (Some prev, Some enter, Some exit) \<Rightarrow>
                       (if endEdge + 1 \<ge> length nodes
                        then Some (endEdge, turnAngle (node_bearing prev enter) (node_bearing enter exit), distanceKm)
                        else map_option (\<lambda>after.
                               (endEdge, turnAngle (node_bearing prev enter) (node_bearing exit after), distanceKm))
                               (slot nodes (endEdge + 1)))
                   | _ \<Rightarrow> None)"

section \<open>The maneuvers of a path\<close>

definition link_maneuver :: "PathResult \<Rightarrow> name_fn \<Rightarrow> nat \<Rightarrow> nat \<times> float64 \<times> float64 \<Rightarrow> maneuver list" where
  "link_maneuver path nameFn i chain =
     (case chain of (linkEnd, linkDelta, linkDistance) \<Rightarrow>
        if \<bar>linkDelta\<bar> \<ge> 150
        then [\<lparr>m_nodeIndex = i, m_typ = ''uturn'', m_modifier = ''uturn'', m_street = streetName path linkEnd nameFn\<rparr>]
        else if linkDistance \<ge> 0.08 \<and> \<bar>linkDelta\<bar> \<ge> 55
        then (case maneuverType linkDelta of (t, m) \<Rightarrow>
                [\<lparr>m_nodeIndex = i, m_typ = t, m_modifier = m, m_street = streetName path linkEnd nameFn\<rparr>])
        else [])"

definition turn_maneuver :: "PathResult \<Rightarrow> name_fn \<Rightarrow> nat \<Rightarrow> float64 \<Rightarrow> maneuver list" where
  "turn_maneuver path nameFn i delta =
     (let prevStreet = streetName path (i - 1) nameFn;
          nextStreet = streetName path i nameFn
      in if \<bar>delta\<bar> < 25 \<and> sameStreet prevStreet nextStreet then []
         else case maneuverType delta of (t, m) \<Rightarrow>
                if t = ''continue'' \<and> sameStreet prevStreet nextStreet then []
                else [\<lparr>m_nodeIndex = i, m_typ = t, m_modifier = m, m_street = nextStreet\<rparr>])"

function maneuver_loop :: "PathResult \<Rightarrow> name_fn \<Rightarrow> nat \<Rightarrow> maneuver list \<Rightarrow> maneuver list option" where
  "maneuver_loop path nameFn i ms =
     (let nodes = pr_Nodes path in
      if i + 1 < length nodes
      then case (slot nodes (i - 1), slot nodes i, slot nodes (i + 1)) of
             (Some prev, Some cur, Some nxt) \<Rightarrow>
               (let delta = turnAngle (node_bearing prev cur) (node_bearing cur nxt) in
                case unnamedLinkChain path i of
                  None \<Rightarrow> None
                | Some chain \<Rightarrow>
                    if fst chain > i
                    then maneuver_loop path nameFn (fst chain) (ms @ link_maneuver path nameFn i chain)
                    else maneuver_loop path nameFn (i + 1) (ms @ turn_maneuver path nameFn i delta))
           | _ \<Rightarrow> None
      else Some ms)"
  by pat_completeness auto
termination
  by (relation "measure (\<lambda>(path, nameFn, i, ms). length (pr_Nodes path) - i)") auto

declare maneuver_loop.simps [simp del]

definition collapse_step :: "maneuver list \<Rightarrow> maneuver \<Rightarrow> maneuver list" where
  "collapse_step out m =
     (if m_typ m = ''continue'' \<and> out \<noteq> [] \<and> m_typ (last out) = ''continue'' then out else out @ [m])"

definition collapseContinues :: "maneuver list \<Rightarrow> maneuver list" where
  "collapseContinues ms = foldl collapse_step [] ms"

definition path_maneuvers :: "PathResult \<Rightarrow> name_fn \<Rightarrow> maneuver list option" where
  "path_maneuvers path nameFn =
     map_option (\<lambda>ms. collapseContinues
         (ms @ [\<lparr>m_nodeIndex = length (pr_Nodes path) - 1, m_typ = ''arrive'', m_modifier = ''straight'', m_street = []\<rparr>]))
       (maneuver_loop path nameFn 1
          [\<lparr>m_nodeIndex = 0, m_typ = ''depart'', m_modifier = ''straight'', m_street = streetName path 0 nameFn\<rparr>])"

section \<open>Texts\<close>

definition txt_to :: string where
  "txt_to =
     map char_of [32 :: nat, 216, 168, 217, 135, 32]"

definition txt_arrived :: string where
  "txt_arrived =
     map char_of [216 :: nat, 168, 217, 135, 32, 217, 133, 217, 130, 216, 181, 216, 175, 32,
     216, 177, 216, 179, 219, 140, 216, 175, 219, 140, 216, 175]"

definition txt_start :: string where
  "txt_start =
     map char_of [216 :: nat, 173, 216, 177, 218, 169, 216, 170, 32, 216, 177, 216, 167, 32,
     216, 180, 216, 177, 217, 136, 216, 185, 32, 218, 169, 217, 134, 219, 140, 216, 175]"

definition txt_straight :: string where
  "txt_straight =
     map char_of [217 :: nat, 133, 216, 179, 216, 170, 217, 130, 219, 140, 217, 133, 32, 216,
     167, 216, 175, 216, 167, 217, 133, 217, 135, 32, 216, 175, 217, 135, 219, 140, 216,
     175]"

definition txt_uturn :: string where
  "txt_uturn =
     map char_of [216 :: nat, 175, 217, 136, 216, 177, 32, 216, 168, 216, 178, 217, 134, 219,
     140, 216, 175]"

definition txt_continue :: string where
  "txt_continue =
     map char_of [216 :: nat, 167, 216, 175, 216, 167, 217, 133, 217, 135, 32, 216, 175, 217,
     135, 219, 140, 216, 175]"

definition txt_after :: string where
  "txt_after =
     map char_of [216 :: nat, 155, 32, 217, 190, 216, 179, 32, 216, 167, 216, 178, 32]"

definition txt_arriving :: string where
  "txt_arriving =
     map char_of [216 :: nat, 168, 217, 135, 32, 217, 133, 217, 130, 216, 181, 216, 175, 32,
     217, 133, 219, 140, 226, 128, 140, 216, 177, 216, 179, 219, 140, 216, 175]"

definition txt_metre :: string where
  "txt_metre =
     map char_of [32 :: nat, 217, 133, 216, 170, 216, 177]"

definition txt_km :: string where
  "txt_km =
     map char_of [32 :: nat, 218, 169, 219, 140, 217, 132, 217, 136, 217, 133, 216, 170, 216,
     177]"

definition txt_slight_left :: string where
  "txt_slight_left =
     map char_of [218 :: nat, 169, 217, 133, 219, 140, 32, 216, 168, 217, 135, 32, 218, 134,
     217, 190, 32, 216, 168, 217, 190, 219, 140, 218, 134, 219, 140, 216, 175]"

definition txt_left :: string where
  "txt_left =
     map char_of [216 :: nat, 168, 217, 135, 32, 218, 134, 217, 190, 32, 216, 168, 217, 190,
     219, 140, 218, 134, 219, 140, 216, 175]"

definition txt_sharp_left :: string where
  "txt_sharp_left =
     map char_of [216 :: nat, 170, 217, 134, 216, 175, 32, 216, 168, 217, 135, 32, 218, 134,
     217, 190, 32, 216, 168, 217, 190, 219, 140, 218, 134, 219, 140, 216, 175]"

definition txt_slight_right :: string where
  "txt_slight_right =
     map char_of [218 :: nat, 169, 217, 133, 219, 140, 32, 216, 168, 217, 135, 32, 216, 177,
     216, 167, 216, 179, 216, 170, 32, 216, 168, 217, 190, 219, 140, 218, 134, 219, 140,
     216, 175]"

definition txt_right :: string where
  "txt_right =
     map char_of [216 :: nat, 168, 217, 135, 32, 216, 177, 216, 167, 216, 179, 216, 170, 32,
     216, 168, 217, 190, 219, 140, 218, 134, 219, 140, 216, 175]"

definition txt_sharp_right :: string where
  "txt_sharp_right =
     map char_of [216 :: nat, 170, 217, 134, 216, 175, 32, 216, 168, 217, 135, 32, 216, 177,
     216, 167, 216, 179, 216, 170, 32, 216, 168, 217, 190, 219, 140, 218, 134, 219, 140,
     216, 175]"

definition persianTurn :: "string \<Rightarrow> string" where
  "persianTurn m =
     (if m = ''slight_left'' then txt_slight_left
      else if m = ''left'' then txt_left
      else if m = ''sharp_left'' then txt_sharp_left
      else if m = ''slight_right'' then txt_slight_right
      else if m = ''right'' then txt_right
      else if m = ''sharp_right'' then txt_sharp_right
      else txt_straight)"

definition format_tenths :: "float64 \<Rightarrow> string" where
  "format_tenths x =
     (let t = math_Round (x * 10); n = nat \<bar>t\<bar>
      in (if t < 0 then ''-'' else []) @ nat_text (n div 10) @ ''.'' @ [digit_char (n mod 10)])"

definition formatInstructionDistance :: "float64 \<Rightarrow> string" where
  "formatInstructionDistance distanceKm =
     (if distanceKm < 1
      then let meters = math_Round (distanceKm * 1000);
               meters = (if meters < 1 then 1 else meters)
           in FormatInt meters @ txt_metre
      else if distanceKm < 10 then format_tenths (Round distanceKm 1) @ txt_km
      else FormatInt (math_Round distanceKm) @ txt_km)"

definition street_target :: "string \<Rightarrow> string" where
  "street_target s = (if s \<noteq> [] then txt_to @ s else [])"

definition nextActionText :: "maneuver \<Rightarrow> string" where
  "nextActionText nxt =
     (if m_typ nxt = ''turn'' then persianTurn (m_modifier nxt) @ street_target (m_street nxt)
      else if m_typ nxt = ''uturn'' then txt_uturn @ street_target (m_street nxt)
      else if m_typ nxt = ''arrive'' then txt_arriving
      else [])"

definition leadInstructionText :: "string \<Rightarrow> float64 \<Rightarrow> maneuver \<Rightarrow> string" where
  "leadInstructionText prefix distanceKm nxt =
     (let nextAction = nextActionText nxt in
      if nextAction = [] then prefix
      else prefix @ txt_after @ formatInstructionDistance distanceKm @ '' '' @ nextAction)"

definition instructionText :: "string \<Rightarrow> string \<Rightarrow> string \<Rightarrow> float64 \<Rightarrow> maneuver \<Rightarrow> string" where
  "instructionText t m s distanceKm nxt =
     (if t = ''depart'' then leadInstructionText txt_start distanceKm nxt
      else if t = ''continue'' then leadInstructionText txt_straight distanceKm nxt
      else if t = ''uturn'' then txt_uturn @ street_target s
      else if t = ''turn'' then persianTurn m @ street_target s
      else if t = ''arrive'' then txt_arrived
      else txt_continue @ street_target s)"

section \<open>buildInstructions\<close>

definition zero_maneuver :: maneuver where
  "zero_maneuver = \<lparr>m_nodeIndex = 0, m_typ = [], m_modifier = [], m_street = []\<rparr>"

definition nextInstructionManeuver :: "maneuver list \<Rightarrow> nat \<Rightarrow> maneuver" where
  "nextInstructionManeuver ms i = (if i + 1 \<ge> length ms then zero_maneuver else ms ! (i + 1))"

definition nextManeuverNode :: "maneuver list \<Rightarrow> nat \<Rightarrow> nat" where
  "nextManeuverNode ms i =
     (if i + 1 \<ge> length ms then m_nodeIndex (ms ! i) else m_nodeIndex (ms ! (i + 1)))"

definition arrivalInstruction :: "nat \<Rightarrow> point \<Rightarrow> Instruction" where
  "arrivalInstruction idx p =
     \<lparr>in_Index = idx, in_Type = ''arrive'', in_Modifier = ''straight'', in_Text = txt_arrived,
      in_DistanceKm = 0, in_DurationMin = 0, in_Location = p, in_StreetName = []\<rparr>"

definition instructionLeg :: "PathResult \<Rightarrow> nat \<Rightarrow> nat \<Rightarrow> TransportMode \<Rightarrow> float64 \<Rightarrow> float64 \<times> float64" where
  "instructionLeg path fromNode toNode mode fallbackSpeed =
     (if toNode \<le> fromNode \<or> pr_Edges path = [] then (0, 0)
      else let toNode = (if toNode > length (pr_Edges path) then length (pr_Edges path) else toNode);
               speedFn = profileSpeedFn mode;
               (distance, hours) =
                 foldl (\<lambda>(d, h) e. (d + e_DistanceKm e, h + edgeTravelTimeHours e speedFn)) (0, 0)
                   (take (toNode - fromNode) (drop fromNode (pr_Edges path)));
               hours = (if hours = 0 \<and> distance > 0
                        then distance / (if fallbackSpeed \<le> 0 then 40 else fallbackSpeed) else hours)
           in (distance, hours * 60))"

definition instruction_at ::
  "PathResult \<Rightarrow> TransportMode \<Rightarrow> point \<Rightarrow> point \<Rightarrow> float64 \<Rightarrow> maneuver list \<Rightarrow> nat \<Rightarrow> Instruction option" where
  "instruction_at path mode start goal fallbackSpeed ms i =
     (let m = ms ! i in
      case slot (pr_Nodes path) (m_nodeIndex m) of
        None \<Rightarrow> None
      | Some node \<Rightarrow>
          let location = (if i = 0 then start else \<lparr>p_Lat = n_Lat node, p_Lng = n_Lng node\<rparr>);
              location = (if m_typ m = ''arrive'' then goal else location);
              (distanceKm, durationMin) =
                instructionLeg path (m_nodeIndex m) (nextManeuverNode ms i) mode fallbackSpeed;
              nxt = nextInstructionManeuver ms i
          in Some \<lparr>in_Index = i, in_Type = m_typ m, in_Modifier = m_modifier m,
                   in_Text = instructionText (m_typ m) (m_modifier m) (m_street m) distanceKm nxt,
                   in_DistanceKm = Round distanceKm 3, in_DurationMin = Round durationMin 2,
                   in_Location = location, in_StreetName = m_street m\<rparr>)"

definition buildInstructions ::
  "PathResult option \<Rightarrow> TransportMode \<Rightarrow> point \<Rightarrow> point \<Rightarrow> float64 \<Rightarrow> name_fn \<Rightarrow> Instruction list option" where
  "buildInstructions path mode start goal fallbackSpeed nameFn =
     (case path of
        None \<Rightarrow> Some [arrivalInstruction 0 goal]
      | Some path \<Rightarrow>
          if pr_Nodes path = [] then Some [arrivalInstruction 0 goal]
          else case path_maneuvers path nameFn of
                 None \<Rightarrow> None
               | Some ms \<Rightarrow> those (map (instruction_at path mode start goal fallbackSpeed ms) [0..<length ms]))"

section \<open>Turns\<close>

lemma atan2_range: "- pi < math_Atan2 y x \<and> math_Atan2 y x \<le> pi"
proof -
  have "y / x \<le> 0" if "x < 0" "0 \<le> y" using that by (simp add: divide_nonneg_neg)
  moreover have "0 < y / x" if "x < 0" "y < 0" using that by (simp add: divide_neg_neg)
  ultimately show ?thesis
    using arctan_bounded [of "y / x"] pi_gt_zero by (auto simp: math_Atan2_def simp del: zero_less_divide_iff divide_le_0_iff)
qed

lemma bearingDegrees_range: "0 \<le> bearingDegrees a b c d \<and> bearingDegrees a b c d < 360"
proof -
  have *: "- 180 < math_Atan2 y x * (180 / pi) \<and> math_Atan2 y x * (180 / pi) \<le> 180" for y x
    using atan2_range [of y x] pi_gt_zero by (simp add: field_simps)
  show ?thesis
    unfolding bearingDegrees_def Let_def
    using * [of "sin ((d - b) * (pi / 180)) * cos (c * (pi / 180))"] by (simp add: Let_def) (smt (verit) *)
qed

lemma turnAngle_eq:
  assumes "0 \<le> a" "a < 360" "0 \<le> b" "b < 360"
  shows "turnAngle a b = (if b - a < - 180 then b - a + 360 else if b - a < 180 then b - a else b - a - 360)"
proof -
  have "\<lfloor>(b - a + 540) / 360\<rfloor> = (if b - a < - 180 then 0 else if b - a < 180 then 1 else 2)"
    using assms by (auto simp: floor_eq_iff field_simps)
  moreover have "0 \<le> (b - a + 540) / 360" using assms by simp
  ultimately show ?thesis unfolding turnAngle_def math_Mod_def by simp
qed

section \<open>Maneuvers\<close>

definition path_shape :: "PathResult \<Rightarrow> bool" where
  "path_shape p \<longleftrightarrow> length (pr_Nodes p) = length (pr_Edges p) + 1"

lemma link_run_bounds: "k \<le> fst (link_run es k d) \<and> fst (link_run es k d) \<le> k + length es"
proof (induction es arbitrary: k d)
  case (Cons e es)
  from Cons [of "k + 1" "d + e_DistanceKm e"] show ?case by simp
qed simp

lemma unnamedLinkChain_ok:
  assumes "path_shape p" "1 \<le> i" "i + 1 < length (pr_Nodes p)"
  shows "\<exists>k dl ds. unnamedLinkChain p i = Some (k, dl, ds) \<and> i \<le> k \<and> k < length (pr_Nodes p)"
proof -
  obtain k d where run: "link_run (drop i (pr_Edges p)) i 0 = (k, d)" by force
  have "i \<le> k" "k \<le> length (pr_Edges p)"
    using link_run_bounds [of i "drop i (pr_Edges p)" 0] run assms by (auto simp: path_shape_def)
  then show ?thesis using assms run by (auto simp: unnamedLinkChain_def Let_def slot_def path_shape_def)
qed

definition mid_ok :: "PathResult \<Rightarrow> nat \<Rightarrow> maneuver list \<Rightarrow> bool" where
  "mid_ok p i ms \<longleftrightarrow> sorted_wrt (\<lambda>a b. m_nodeIndex a < m_nodeIndex b) ms
     \<and> (\<forall>m\<in>set ms. i \<le> m_nodeIndex m \<and> m_nodeIndex m + 1 < length (pr_Nodes p)
          \<and> m_typ m \<in> {''uturn'', ''turn'', ''continue''})"

lemma maneuverType_typ: "fst (maneuverType d) \<in> {''uturn'', ''turn'', ''continue''}"
  by (simp add: maneuverType_def Let_def)

lemma mid_ok_single:
  "i + 1 < length (pr_Nodes p) \<Longrightarrow> m_nodeIndex m = i \<Longrightarrow> m_typ m \<in> {''uturn'', ''turn'', ''continue''} \<Longrightarrow> mid_ok p i [m]"
  by (simp add: mid_ok_def)

definition all_at :: "nat \<Rightarrow> maneuver list \<Rightarrow> bool" where
  "all_at i ms \<longleftrightarrow> (\<forall>m\<in>set ms. m_nodeIndex m = i)"

lemma link_maneuver_ok:
  assumes "i + 1 < length (pr_Nodes p)"
  shows "mid_ok p i (link_maneuver p f i c) \<and> all_at i (link_maneuver p f i c)"
proof -
  obtain e dl ds where c: "c = (e, dl, ds)" by (cases c)
  obtain t m where t: "maneuverType dl = (t, m)" by force
  then have "t \<in> {''uturn'', ''turn'', ''continue''}" using maneuverType_typ [of dl] by simp
  moreover have "mid_ok p i []" by (simp add: mid_ok_def)
  ultimately show ?thesis
    using assms mid_ok_single [of i p] unfolding link_maneuver_def c t prod.case all_at_def by simp
qed

lemma turn_maneuver_ok:
  assumes "i + 1 < length (pr_Nodes p)"
  shows "mid_ok p i (turn_maneuver p f i d) \<and> all_at i (turn_maneuver p f i d)"
proof -
  obtain t m where t: "maneuverType d = (t, m)" by force
  then have "t \<in> {''uturn'', ''turn'', ''continue''}" using maneuverType_typ [of d] by simp
  moreover have "mid_ok p i []" by (simp add: mid_ok_def)
  ultimately show ?thesis
    using assms by (auto simp: turn_maneuver_def t all_at_def Let_def intro!: mid_ok_single)
qed

lemma mid_ok_append:
  assumes "mid_ok p i xs" "all_at i xs" "mid_ok p j ys" "i < j"
  shows "mid_ok p i (xs @ ys)"
proof -
  have "i < m_nodeIndex y" if "y \<in> set ys" for y
    using assms(3,4) that by (auto simp: mid_ok_def intro: less_le_trans)
  then show ?thesis using assms by (auto simp: mid_ok_def all_at_def sorted_wrt_append less_imp_le)
qed

lemma maneuver_loop_ok:
  assumes "path_shape p"
  shows "1 \<le> i \<Longrightarrow> \<exists>mid. maneuver_loop p f i ms = Some (ms @ mid) \<and> mid_ok p i mid"
proof (induction "length (pr_Nodes p) - i" arbitrary: i ms rule: less_induct)
  case less
  show ?case
  proof (cases "i + 1 < length (pr_Nodes p)")
    case False
    then show ?thesis by (simp add: maneuver_loop.simps [of p f i] mid_ok_def)
  next
    case True
    obtain k dl ds where c: "unnamedLinkChain p i = Some (k, dl, ds)" "i \<le> k" "k < length (pr_Nodes p)"
      using unnamedLinkChain_ok [OF assms less.prems True] by blast
    have step: "\<exists>mid. maneuver_loop p f j (ms @ xs) = Some (ms @ mid) \<and> mid_ok p i mid"
      if j: "i < j" and xs: "mid_ok p i xs \<and> all_at i xs" for j xs
    proof -
      have "length (pr_Nodes p) - j < length (pr_Nodes p) - i" "1 \<le> j" using j True by auto
      from less.hyps [OF this, of "ms @ xs"] obtain mid
        where "maneuver_loop p f j (ms @ xs) = Some ((ms @ xs) @ mid)" "mid_ok p j mid" by blast
      then show ?thesis using mid_ok_append [of p i xs j mid] xs j by auto
    qed
    define delta where "delta = turnAngle (node_bearing (pr_Nodes p ! (i - 1)) (pr_Nodes p ! i))
      (node_bearing (pr_Nodes p ! i) (pr_Nodes p ! (i + 1)))"
    have "maneuver_loop p f i ms = (if k > i then maneuver_loop p f k (ms @ link_maneuver p f i (k, dl, ds))
        else maneuver_loop p f (i + 1) (ms @ turn_maneuver p f i delta))"
      using True less_imp_diff_less [OF Suc_lessD [OF True [simplified]], of 1] c(1) less.prems
      by (simp add: maneuver_loop.simps [of p f i] slot_def Let_def delta_def)
    then show ?thesis
      using step [of k] step [of "i + 1"] link_maneuver_ok [OF True, of f "(k, dl, ds)"]
        turn_maneuver_ok [OF True, of f delta] by (cases "k > i") auto
  qed
qed

text \<open>Collapsing keeps a subsequence without two adjacent \<open>continue\<close>.\<close>

definition not_both_continue :: "maneuver \<Rightarrow> maneuver \<Rightarrow> bool" where
  "not_both_continue a b \<longleftrightarrow> \<not> (m_typ a = ''continue'' \<and> m_typ b = ''continue'')"

lemma collapse_foldl:
  "\<exists>ys. foldl collapse_step out xs = out @ ys \<and> set ys \<subseteq> set xs \<and> (sorted_wrt R xs \<longrightarrow> sorted_wrt R ys)"
proof (induction xs arbitrary: out)
  case (Cons x xs)
  from Cons [of "collapse_step out x"] obtain ys where
    ys: "foldl collapse_step (collapse_step out x) xs = collapse_step out x @ ys" "set ys \<subseteq> set xs"
    "sorted_wrt R xs \<longrightarrow> sorted_wrt R ys" by blast
  show ?case
  proof (cases "collapse_step out x = out")
    case True
    with ys show ?thesis by (intro exI [of _ ys]) auto
  next
    case False
    then have "collapse_step out x = out @ [x]" by (auto simp: collapse_step_def split: if_splits)
    with ys show ?thesis by (intro exI [of _ "x # ys"]) auto
  qed
qed simp

lemma collapse_no_double:
  "successively not_both_continue out \<Longrightarrow> successively not_both_continue (foldl collapse_step out xs)"
proof (induction xs arbitrary: out)
  case (Cons x xs)
  have "successively not_both_continue (collapse_step out x)"
    using Cons.prems by (auto simp: collapse_step_def successively_append_iff not_both_continue_def)
  with Cons.IH show ?case by simp
qed simp

definition maneuvers_ok :: "PathResult \<Rightarrow> maneuver list \<Rightarrow> bool" where
  "maneuvers_ok p ms \<longleftrightarrow> (\<exists>d mid a. ms = d # mid @ [a]
     \<and> m_typ d = ''depart'' \<and> m_nodeIndex d = 0
     \<and> m_typ a = ''arrive'' \<and> m_nodeIndex a = length (pr_Edges p)
     \<and> mid_ok p 1 mid) \<and> successively not_both_continue ms"

lemma path_maneuvers_ok:
  assumes "path_shape p"
  shows "\<exists>ms. path_maneuvers p f = Some ms \<and> maneuvers_ok p ms"
proof -
  let ?d = "\<lparr>m_nodeIndex = 0, m_typ = ''depart'', m_modifier = ''straight'', m_street = streetName p 0 f\<rparr>"
  let ?a = "\<lparr>m_nodeIndex = length (pr_Nodes p) - 1, m_typ = ''arrive'', m_modifier = ''straight'', m_street = []\<rparr>"
  obtain mid where mid: "maneuver_loop p f 1 [?d] = Some ([?d] @ mid)" "mid_ok p 1 mid"
    using maneuver_loop_ok [OF assms, of 1 f "[?d]"] by auto
  let ?R = "\<lambda>a b. m_nodeIndex a < m_nodeIndex b"
  have "foldl collapse_step [] (?d # mid) = foldl collapse_step [?d] mid" by (simp add: collapse_step_def)
  with collapse_foldl [of "[?d]" mid ?R] obtain ys where ys: "foldl collapse_step [] (?d # mid) = ?d # ys"
    "set ys \<subseteq> set mid" "sorted_wrt ?R mid \<longrightarrow> sorted_wrt ?R ys" by auto
  have col: "collapseContinues (?d # mid @ [?a]) = ?d # ys @ [?a]"
    using ys(1) by (simp add: collapseContinues_def) (simp add: collapse_step_def)
  have "mid_ok p 1 ys" using mid(2) ys by (auto simp: mid_ok_def)
  moreover have "successively not_both_continue (collapseContinues (?d # mid @ [?a]))"
    by (simp only: collapseContinues_def) (rule collapse_no_double, simp)
  ultimately have "maneuvers_ok p (collapseContinues (?d # mid @ [?a]))"
    using assms unfolding maneuvers_ok_def col path_shape_def by auto
  moreover have "path_maneuvers p f = Some (collapseContinues (?d # mid @ [?a]))"
    using mid(1) by (simp add: path_maneuvers_def)
  ultimately show ?thesis by blast
qed

lemma maneuvers_sorted:
  assumes "path_shape p" "maneuvers_ok p ms"
  shows "sorted (map m_nodeIndex ms)" "\<forall>m\<in>set ms. m_nodeIndex m < length (pr_Nodes p)"
    "m_nodeIndex (hd ms) = 0" "m_nodeIndex (last ms) = length (pr_Edges p)" "2 \<le> length ms"
    "m_typ (hd ms) = ''depart''" "m_typ (last ms) = ''arrive''" "\<forall>m\<in>set (butlast ms). m_typ m \<noteq> ''arrive''"
proof -
  obtain d mid a where ms: "ms = d # mid @ [a]" "m_typ d = ''depart''" "m_nodeIndex d = 0"
    "m_typ a = ''arrive''" "m_nodeIndex a = length (pr_Edges p)" "mid_ok p 1 mid"
    using assms(2) by (auto simp: maneuvers_ok_def)
  have "sorted (map m_nodeIndex mid)"
    using ms(6) by (auto simp: mid_ok_def sorted_wrt_map intro: sorted_wrt_mono_rel [rotated])
  moreover have "\<forall>m\<in>set mid. m_nodeIndex m < length (pr_Edges p)"
    using ms(6) assms(1) by (auto simp: mid_ok_def path_shape_def)
  ultimately show "sorted (map m_nodeIndex ms)" by (auto simp: ms sorted_append less_imp_le)
  show "\<forall>m\<in>set ms. m_nodeIndex m < length (pr_Nodes p)"
    using \<open>\<forall>m\<in>set mid. m_nodeIndex m < length (pr_Edges p)\<close> assms(1) by (auto simp: ms path_shape_def)
  show "\<forall>m\<in>set (butlast ms). m_typ m \<noteq> ''arrive''"
    using ms by (auto simp: mid_ok_def butlast_append)
  show "m_nodeIndex (hd ms) = 0" "m_nodeIndex (last ms) = length (pr_Edges p)" "2 \<le> length ms"
    "m_typ (hd ms) = ''depart''" "m_typ (last ms) = ''arrive''"
    using ms(2-5) by (simp_all add: ms(1))
qed


section \<open>Legs\<close>

definition stretch :: "edge list \<Rightarrow> nat \<Rightarrow> nat \<Rightarrow> edge list" where
  "stretch es i j = take (j - i) (drop i es)"

lemma leg_foldl:
  "fst (foldl (\<lambda>(d, h) e. (d + e_DistanceKm e, h + edgeTravelTimeHours e f)) (a, b) es) = a + path_km es"
  by (induction es arbitrary: a b) auto

lemma instructionLeg_km:
  assumes "i \<le> j" "j \<le> length (pr_Edges p)"
  shows "fst (instructionLeg p i j mode spd) = path_km (stretch (pr_Edges p) i j)"
  using assms leg_foldl [of "profileSpeedFn mode" 0 0 "take (j - i) (drop i (pr_Edges p))"]
  by (auto simp: instructionLeg_def stretch_def Let_def split: prod.splits)

lemma path_km_append: "path_km (xs @ ys) = path_km xs + path_km ys"
  by (induction xs) auto

lemma span_split: "i \<le> j \<Longrightarrow> j \<le> k \<Longrightarrow> stretch es i j @ stretch es j k = stretch es i k"
proof -
  assume "i \<le> j" "j \<le> k"
  then have "k - i = (j - i) + (k - j)" "drop j es = drop (j - i) (drop i es)" by simp_all
  then show ?thesis unfolding stretch_def by (metis take_add)
qed

lemma sum_spans:
  "sorted (k # ks) \<Longrightarrow>
   (\<Sum>(i, j)\<leftarrow>zip (k # ks) ks. path_km (stretch es i j)) = path_km (stretch es k (last (k # ks)))"
proof (induction ks arbitrary: k)
  case (Cons j ks)
  have "j \<le> last (j # ks)" using Cons.prems by (cases ks rule: rev_cases) (auto simp: sorted_append)
  with Cons span_split [of k j "last (j # ks)" es] show ?case
    by (simp flip: path_km_append)
qed (simp add: stretch_def)

text \<open>
  What \<open>buildInstructions\<close> promises of its result for a path and the request's end points:
  the node index \<open>ks ! i\<close> at which instruction \<open>i\<close> is given.
\<close>

definition instructions_ok :: "PathResult \<Rightarrow> point \<Rightarrow> point \<Rightarrow> nat list \<Rightarrow> Instruction list \<Rightarrow> bool" where
  "instructions_ok p start goal ks ins \<longleftrightarrow>
     length ks = length ins \<and> 2 \<le> length ins
     \<and> sorted ks \<and> hd ks = 0 \<and> last ks = length (pr_Edges p)
     \<and> map in_Index ins = [0..<length ins]
     \<and> in_Type (hd ins) = ''depart'' \<and> in_Location (hd ins) = start
     \<and> in_Type (last ins) = ''arrive'' \<and> in_Location (last ins) = goal
     \<and> (\<forall>x\<in>set (butlast ins). in_Type x \<noteq> ''arrive'')
     \<and> (\<forall>i. i + 1 < length ins \<longrightarrow>
          in_DistanceKm (ins ! i) = Round (path_km (stretch (pr_Edges p) (ks ! i) (ks ! (i + 1)))) 3
          \<and> \<not> (in_Type (ins ! i) = ''continue'' \<and> in_Type (ins ! (i + 1)) = ''continue''))"

lemma instruction_at_ok:
  assumes "path_shape p" "maneuvers_ok p ms" "i < length ms"
  shows "\<exists>x. instruction_at p mode start goal spd ms i = Some x \<and> in_Index x = i \<and> in_Type x = m_typ (ms ! i)
    \<and> (i = 0 \<longrightarrow> in_Location x = start) \<and> (i + 1 = length ms \<longrightarrow> in_Location x = goal)
    \<and> (i + 1 < length ms \<longrightarrow> in_DistanceKm x
         = Round (path_km (stretch (pr_Edges p) (m_nodeIndex (ms ! i)) (m_nodeIndex (ms ! (i + 1))))) 3)"
proof -
  note ok = maneuvers_sorted [OF assms(1,2)]
  have "m_nodeIndex (ms ! i) < length (pr_Nodes p)" using ok(2) assms(3) by simp
  then have node: "slot (pr_Nodes p) (m_nodeIndex (ms ! i)) = Some (pr_Nodes p ! m_nodeIndex (ms ! i))"
    by (simp add: slot_def)
  obtain d t where leg: "instructionLeg p (m_nodeIndex (ms ! i)) (nextManeuverNode ms i) mode spd = (d, t)" by force
  have first: "m_typ (ms ! i) \<noteq> ''arrive''" if "i = 0"
    using ok(5,6) that by (cases ms) auto
  have final: "m_typ (ms ! i) = ''arrive''" if "i + 1 = length ms"
  proof -
    have "ms \<noteq> []" "i = length ms - 1" using that by auto
    then show ?thesis using ok(7) by (simp add: last_conv_nth)
  qed
  have dist: "d = path_km (stretch (pr_Edges p) (m_nodeIndex (ms ! i)) (m_nodeIndex (ms ! (i + 1))))" if i: "i + 1 < length ms"
  proof -
    have "m_nodeIndex (ms ! i) \<le> m_nodeIndex (ms ! (i + 1))"
      using sorted_nth_mono [OF ok(1), of i "i + 1"] i by simp
    moreover have "m_nodeIndex (ms ! (i + 1)) \<le> length (pr_Edges p)"
      using ok(2) [rule_format, OF nth_mem [OF i]] assms(1) by (simp add: path_shape_def)
    ultimately show ?thesis
      using instructionLeg_km [of "m_nodeIndex (ms ! i)" "m_nodeIndex (ms ! (i + 1))" p mode spd] leg i
      by (simp add: nextManeuverNode_def)
  qed
  show ?thesis
    using first final dist by (auto simp: instruction_at_def Let_def node leg)
qed

lemma those_map_each: "(\<forall>x\<in>set xs. f x = Some (g x)) \<Longrightarrow> those (map f xs) = Some (map g xs)"
  by (induction xs) auto

lemma buildInstructions_ok:
  assumes shape: "path_shape p"
  shows "\<exists>ins ks. buildInstructions (Some p) mode start goal spd f = Some ins \<and> instructions_ok p start goal ks ins"
proof -
  obtain ms where ms: "path_maneuvers p f = Some ms" "maneuvers_ok p ms" using path_maneuvers_ok [OF shape] by blast
  note ok = maneuvers_sorted [OF shape ms(2)]
  have ne: "ms \<noteq> []" using ok(5) by auto
  let ?at = "instruction_at p mode start goal spd ms"
  define ins where "ins = map (\<lambda>i. the (?at i)) [0..<length ms]"
  have each: "?at i = Some (ins ! i) \<and> in_Index (ins ! i) = i \<and> in_Type (ins ! i) = m_typ (ms ! i)
    \<and> (i = 0 \<longrightarrow> in_Location (ins ! i) = start) \<and> (i + 1 = length ms \<longrightarrow> in_Location (ins ! i) = goal)
    \<and> (i + 1 < length ms \<longrightarrow> in_DistanceKm (ins ! i)
         = Round (path_km (stretch (pr_Edges p) (m_nodeIndex (ms ! i)) (m_nodeIndex (ms ! (i + 1))))) 3)"
    if "i < length ms" for i
    using instruction_at_ok [OF shape ms(2) that, of mode start goal spd] that by (auto simp: ins_def)
  have len: "length ins = length ms" by (simp add: ins_def)
  have "those (map ?at [0..<length ms]) = Some ins"
    unfolding ins_def
  proof (rule those_map_each, rule ballI)
    fix i
    assume "i \<in> set [0..<length ms]"
    then have "i < length ms" by simp
    from each [OF this] have "?at i = Some (ins ! i)" by (rule conjunct1)
    then show "?at i = Some (the (?at i))" by (metis option.sel)
  qed
  moreover have "pr_Nodes p \<noteq> []" using shape by (auto simp: path_shape_def)
  ultimately have built: "buildInstructions (Some p) mode start goal spd f = Some ins"
    using ms(1) by (simp add: buildInstructions_def)
  have ne': "ins \<noteq> []" using len ne by (metis length_0_conv)
  have hd: "hd ins = ins ! 0" "last ins = ins ! (length ms - 1)" "hd ms = ms ! 0" "last ms = ms ! (length ms - 1)"
    using ne ne' len by (simp_all add: hd_conv_nth last_conv_nth)
  have "map in_Index ins = [0..<length ins]" using each len by (intro nth_equalityI) auto
  moreover have "in_Type x \<noteq> ''arrive''" if "x \<in> set (butlast ins)" for x
  proof -
    from that obtain i where i: "i < length ins - 1" "x = ins ! i" by (auto simp: in_set_conv_nth nth_butlast)
    then have "ms ! i \<in> set (butlast ms)" using len by (auto simp: in_set_conv_nth nth_butlast)
    then show ?thesis using each [of i] ok(8) i len by auto
  qed
  moreover have "\<not> (in_Type (ins ! i) = ''continue'' \<and> in_Type (ins ! (i + 1)) = ''continue'')" if "i + 1 < length ins" for i
  proof -
    have "successively not_both_continue ms" using ms(2) by (simp add: maneuvers_ok_def)
    then have "not_both_continue (ms ! i) (ms ! (i + 1))" using that len by (simp add: successively_conv_nth)
    then show ?thesis using each [of i] each [of "i + 1"] that len by (simp add: not_both_continue_def)
  qed
  moreover have "hd (map m_nodeIndex ms) = 0" "last (map m_nodeIndex ms) = length (pr_Edges p)"
    using ok(3,4) ne by (simp_all add: hd_map last_map)
  moreover have "in_Type (hd ins) = ''depart''" "in_Location (hd ins) = start"
    using each [of 0] hd ok(5,6) ne by auto
  moreover have "in_Type (last ins) = ''arrive''" "in_Location (last ins) = goal"
    using each [of "length ms - 1"] hd ok(5,7) ne by auto
  moreover have "in_DistanceKm (ins ! i) = Round (path_km (stretch (pr_Edges p)
      (map m_nodeIndex ms ! i) (map m_nodeIndex ms ! (i + 1)))) 3" if "i + 1 < length ins" for i
    using each [of i] that len by simp
  ultimately have "instructions_ok p start goal (map m_nodeIndex ms) ins"
    using ok(1,5) len unfolding instructions_ok_def by simp
  with built show ?thesis by blast
qed

lemma Round3_close: "\<bar>Round x 3 - x\<bar> \<le> 1 / 2000"
proof -
  have "\<bar>Round x 3 - x\<bar> = \<bar>of_int (math_Round (x * 1000)) - x * 1000\<bar> / 1000"
    unfolding Round_def by (simp add: abs_if field_simps)
  then show ?thesis using math_Round_bounds [of "x * 1000"] by simp
qed

lemma instructions_total:
  assumes "instructions_ok p start goal ks ins"
  shows "\<bar>(\<Sum>x\<leftarrow>butlast ins. in_DistanceKm x) - path_km (pr_Edges p)\<bar> \<le> real (length ins - 1) * (1 / 2000)"
proof -
  have len: "length ks = length ins" "2 \<le> length ins" using assms by (auto simp: instructions_ok_def)
  then obtain k ks' where ks: "ks = k # ks'" by (cases ks) auto
  have zip: "(\<Sum>(i, j)\<leftarrow>zip ks ks'. path_km (stretch (pr_Edges p) i j)) = path_km (pr_Edges p)"
    using sum_spans [of k ks' "pr_Edges p"] assms by (auto simp: instructions_ok_def ks stretch_def)
  have l': "length (zip ks ks') = length ins - 1" "length (butlast ins) = length ins - 1" using len ks by auto
  have "\<bar>in_DistanceKm (butlast ins ! i) - (case zip ks ks' ! i of (a, b) \<Rightarrow> path_km (stretch (pr_Edges p) a b))\<bar> \<le> 1 / 2000"
    if "i < length ins - 1" for i
  proof -
    have "in_DistanceKm (butlast ins ! i) = Round (path_km (stretch (pr_Edges p) (ks ! i) (ks ! (i + 1)))) 3"
      using assms that by (simp add: instructions_ok_def nth_butlast)
    moreover have "zip ks ks' ! i = (ks ! i, ks ! (i + 1))" using that len ks by simp
    ultimately show ?thesis
      using Round3_close by simp
  qed
  note close = this
  have gen: "\<bar>(\<Sum>x\<leftarrow>xs. f x) - (\<Sum>y\<leftarrow>ys. g y)\<bar> \<le> real (length xs) * c"
    if "length xs = length ys" "\<forall>i<length xs. \<bar>f (xs ! i) - g (ys ! i)\<bar> \<le> c"
    for f :: "Instruction \<Rightarrow> real" and g :: "nat \<times> nat \<Rightarrow> real" and c xs ys
    using that
  proof (induction xs ys rule: list_induct2)
    case (Cons x xs y ys)
    have "\<bar>f x - g y\<bar> \<le> c" using Cons.prems by (auto dest: spec [of _ 0])
    moreover have "\<forall>i<length xs. \<bar>f (xs ! i) - g (ys ! i)\<bar> \<le> c" using Cons.prems by (auto dest: spec [of _ "Suc _"])
    ultimately show ?case using Cons.IH by (simp add: algebra_simps)
  qed simp
  have "\<forall>i<length (butlast ins). \<bar>in_DistanceKm (butlast ins ! i)
      - (case zip ks ks' ! i of (a, b) \<Rightarrow> path_km (stretch (pr_Edges p) a b))\<bar> \<le> 1 / 2000"
    using close l'(2) by metis
  from gen [OF _ this] l' zip show ?thesis by metis
qed

text \<open>
  C6. On a path with one node more than edges \<open>buildInstructions\<close> does not panic; its
  instructions are numbered from zero, the first departs at the start, the last and only
  the last arrives, at the goal, no two consecutive ones say to continue, each is given at
  a node further along the path, and the distance of each is the length of the stretch up
  to the next: together they add up to the length of the path, up to the rounding to metres.
\<close>

theorem buildInstructions_cover:
  assumes "path_shape p"
  shows "\<exists>ins ks. buildInstructions (Some p) mode start goal spd f = Some ins
    \<and> instructions_ok p start goal ks ins
    \<and> \<bar>(\<Sum>x\<leftarrow>butlast ins. in_DistanceKm x) - path_km (pr_Edges p)\<bar> \<le> real (length ins - 1) * (1 / 2000)"
  using buildInstructions_ok [OF assms, of mode start goal spd f] instructions_total by blast

theorem buildInstructions_cover_witness:
  "\<exists>ins. buildInstructions (Some \<lparr>pr_Nodes = [\<lparr>n_ID = 1, n_Lat = 35, n_Lng = 51, n_Flags = 1\<rparr>,
        \<lparr>n_ID = 2, n_Lat = 36, n_Lng = 51, n_Flags = 1\<rparr>], pr_Edges = [synth_edge 1],
        pr_DistanceKm = 0, pr_TimeHours = 0\<rparr>) ModeCar \<lparr>p_Lat = 35, p_Lng = 51\<rparr>
        \<lparr>p_Lat = 36, p_Lng = 51\<rparr> 40 None = Some ins \<and> in_Type (last ins) = ''arrive''"
proof -
  let ?p = "\<lparr>pr_Nodes = [\<lparr>n_ID = 1, n_Lat = 35, n_Lng = 51, n_Flags = 1\<rparr>,
        \<lparr>n_ID = 2, n_Lat = 36, n_Lng = 51, n_Flags = 1\<rparr>], pr_Edges = [synth_edge 1],
        pr_DistanceKm = 0, pr_TimeHours = 0\<rparr>"
  have "path_shape ?p" by (simp add: path_shape_def)
  from buildInstructions_cover [OF this] show ?thesis unfolding instructions_ok_def by blast
qed

text \<open>
  A turn angle between two bearings is their difference, turned by whole circles into
  the range from -180 up to 180 degrees.
\<close>

theorem turnAngle_signed:
  "\<exists>k :: int. turnAngle (node_bearing a b) (node_bearing c d)
      = node_bearing c d - node_bearing a b + 360 * of_int k
    \<and> - 180 \<le> turnAngle (node_bearing a b) (node_bearing c d)
    \<and> turnAngle (node_bearing a b) (node_bearing c d) < 180"
proof -
  let ?x = "node_bearing a b" and ?y = "node_bearing c d"
  have r: "0 \<le> ?x" "?x < 360" "0 \<le> ?y" "?y < 360"
    using bearingDegrees_range by (simp_all add: node_bearing_def)
  have "turnAngle ?x ?y = ?y - ?x + 360 * of_int (if ?y - ?x < - 180 then 1 else if ?y - ?x < 180 then 0 else - 1)
      \<and> - 180 \<le> turnAngle ?x ?y \<and> turnAngle ?x ?y < 180"
    using r by (simp add: turnAngle_eq [OF r])
  then show ?thesis by blast
qed

end
