(* ===== verification/Engine.thy ===== *)
theory Engine
  imports Instructions Yen Polyline
begin

text \<open>
  The route builders of \<open>internal/routing/engine.go\<close>.  The polls of the request's context
  are a record: the error on entry of \<open>graphRoutesCtx\<close>, the context seen by each search of
  \<open>KFastestPaths\<close>, and the error after the routes are built.  A nil slice of routes is the
  empty list.  The result \<open>None\<close> stands for a panic or for not returning; the theorems show
  that neither happens.  The iteration order of the node map, which only matters for a graph
  with an empty grid, is an argument.
\<close>

record Route =
  r_Distance :: float64
  r_Duration :: float64
  r_Points :: "point list"
  r_Polyline :: string
  r_Instructions :: "Instruction list"

record Engine =
  eng_graph :: "graph option"
  eng_railGraph :: "graph option"
  eng_transitGraph :: "graph option"
  avgSpeedKmH :: float64
  yenSpurCap :: int

record polls =
  entry_err :: "ctx_error option"
  search_ctx :: "nat \<Rightarrow> ctx"
  exit_err :: "ctx_error option"

definition background :: polls where
  "background = \<lparr>entry_err = None, search_ctx = (\<lambda>_ _. None), exit_err = None\<rparr>"

definition NewEngineWithGraph :: "float64 \<Rightarrow> graph option \<Rightarrow> int \<Rightarrow> Engine" where
  "NewEngineWithGraph avg g spurCap =
     \<lparr>eng_graph = g, eng_railGraph = None, eng_transitGraph = None, avgSpeedKmH = avg, yenSpurCap = spurCap\<rparr>"

definition SetRailGraph :: "Engine \<Rightarrow> graph option \<Rightarrow> Engine" where
  "SetRailGraph e g = e\<lparr>eng_railGraph := g\<rparr>"

definition SetTransitGraph :: "Engine \<Rightarrow> graph option \<Rightarrow> Engine" where
  "SetTransitGraph e g = e\<lparr>eng_transitGraph := g\<rparr>"

definition fallbackSpeed :: "Engine \<Rightarrow> TransportMode \<Rightarrow> float64" where
  "fallbackSpeed E mode =
     (let engineDefault = (if avgSpeedKmH E > 0 then avgSpeedKmH E else 40) in
      case profiles mode of
        None \<Rightarrow> engineDefault
      | Some p \<Rightarrow> if fallbackSpeedKmH p > 0 then fallbackSpeedKmH p else engineDefault)"

section \<open>Straight lines and flights\<close>

definition haversineRoute :: "Engine \<Rightarrow> point \<Rightarrow> point \<Rightarrow> TransportMode \<Rightarrow> Route" where
  "haversineRoute E start goal mode =
     (let dist = Haversine (p_Lat start) (p_Lng start) (p_Lat goal) (p_Lng goal);
          duration = dist / fallbackSpeed E mode * 60;
          points = [start, goal]
      in \<lparr>r_Distance = Round dist 3, r_Duration = Round duration 2, r_Points = points,
          r_Polyline = EncodePolyline points, r_Instructions = []\<rparr>)"

text \<open>The latitude, in radians, reached from the middle by distance \<open>d\<close> in a bearing.\<close>

definition dest_lat :: "float64 \<Rightarrow> float64 \<Rightarrow> float64 \<Rightarrow> float64" where
  "dest_lat midLatR d perp = arcsin (sin midLatR * cos d + cos midLatR * sin d * cos perp)"

definition flight_control :: "point \<Rightarrow> point \<Rightarrow> point" where
  "flight_control start goal =
     (let r = pi / 180;
          midLat = (p_Lat start + p_Lat goal) / 2;
          midLng = (p_Lng start + p_Lng goal) / 2;
          lat1r = p_Lat start * r;
          lat2r = p_Lat goal * r;
          dLng = (p_Lng goal - p_Lng start) * r;
          y = sin dLng * cos lat2r;
          x = cos lat1r * sin lat2r - sin lat1r * cos lat2r * cos dLng;
          bearing = math_Atan2 y x;
          dist = Haversine (p_Lat start) (p_Lng start) (p_Lat goal) (p_Lng goal);
          d = dist * 0.25 / earthRadiusKm;
          midLatR = midLat * r;
          midLngR = midLng * r;
          perp1 = bearing - pi / 2;
          perp2 = bearing + pi / 2;
          perp = (if \<bar>dest_lat midLatR d perp2 / r\<bar> > \<bar>dest_lat midLatR d perp1 / r\<bar> then perp2 else perp1);
          ctrlLatR = arcsin (sin midLatR * cos d + cos midLatR * sin d * cos perp);
          ctrlLngR = midLngR + math_Atan2 (sin perp * sin d * cos midLatR) (cos d - sin midLatR * sin ctrlLatR)
      in \<lparr>p_Lat = ctrlLatR / r, p_Lng = ctrlLngR / r\<rparr>)"

definition bezier :: "point \<Rightarrow> point \<Rightarrow> point \<Rightarrow> float64 \<Rightarrow> point" where
  "bezier start ctrl goal t =
     (let s = 1 - t in
      \<lparr>p_Lat = s * s * p_Lat start + 2 * s * t * p_Lat ctrl + t * t * p_Lat goal,
       p_Lng = s * s * p_Lng start + 2 * s * t * p_Lng ctrl + t * t * p_Lng goal\<rparr>)"

definition flightArc :: "point \<Rightarrow> point \<Rightarrow> nat \<Rightarrow> point list" where
  "flightArc start goal n =
     start # map (\<lambda>i. bezier start (flight_control start goal) goal (of_nat i / of_nat (n + 1))) [1..<n + 1]
       @ [goal]"

definition airplaneRoute :: "point \<Rightarrow> point \<Rightarrow> Route" where
  "airplaneRoute start goal =
     (let dist = Haversine (p_Lat start) (p_Lng start) (p_Lat goal) (p_Lng goal);
          duration = dist / 800 * 60 + 30;
          points = flightArc start goal 50
      in \<lparr>r_Distance = Round dist 3, r_Duration = Round duration 2, r_Points = points,
          r_Polyline = EncodePolyline points, r_Instructions = []\<rparr>)"

section \<open>From a path to a route\<close>

definition same_place :: "point \<Rightarrow> point \<Rightarrow> bool" where
  "same_place a b \<longleftrightarrow> \<bar>p_Lat a - p_Lat b\<bar> < 1 / 10 ^ 7 \<and> \<bar>p_Lng a - p_Lng b\<bar> < 1 / 10 ^ 7"

definition appendPoint :: "point list \<Rightarrow> point \<Rightarrow> point list" where
  "appendPoint points p =
     (if points = [] then [p] else if same_place (last points) p then points else points @ [p])"

definition node_point :: "node \<Rightarrow> point" where
  "node_point n = \<lparr>p_Lat = n_Lat n, p_Lng = n_Lng n\<rparr>"

definition pathToRouteWithNameResolver ::
  "Engine \<Rightarrow> PathResult \<Rightarrow> point \<Rightarrow> point \<Rightarrow> TransportMode \<Rightarrow> (32 word \<Rightarrow> string) \<Rightarrow> Route option" where
  "pathToRouteWithNameResolver E path start goal mode nameFor =
     (let points = appendPoint (foldl appendPoint (appendPoint [] start) (map node_point (pr_Nodes path))) goal;
          snapDistance =
            (if pr_Nodes path \<noteq> []
             then Haversine (p_Lat start) (p_Lng start) (n_Lat (hd (pr_Nodes path))) (n_Lng (hd (pr_Nodes path)))
                + Haversine (p_Lat goal) (p_Lng goal) (n_Lat (last (pr_Nodes path))) (n_Lng (last (pr_Nodes path)))
             else 0);
          distance = pr_DistanceKm path + snapDistance;
          duration = pr_TimeHours path * 60;
          duration = (if snapDistance > 0 then duration + snapDistance / fallbackSpeed E mode * 60 else duration);
          duration = (if duration = 0 \<and> distance > 0 then distance / fallbackSpeed E mode * 60 else duration)
      in map_option (\<lambda>ins. \<lparr>r_Distance = Round distance 3, r_Duration = Round duration 2, r_Points = points,
                            r_Polyline = EncodePolyline points, r_Instructions = ins\<rparr>)
           (buildInstructions (Some path) mode start goal (fallbackSpeed E mode) (Some nameFor)))"

definition pathToRoute ::
  "Engine \<Rightarrow> graph \<Rightarrow> PathResult \<Rightarrow> point \<Rightarrow> point \<Rightarrow> TransportMode \<Rightarrow> Route option" where
  "pathToRoute E g path start goal mode = pathToRouteWithNameResolver E path start goal mode (NameFor g)"

section \<open>Routes on the graph\<close>

definition snapThresholdKm :: float64 where "snapThresholdKm = 0.3"
definition snapFallbackKm :: float64 where "snapFallbackKm = 2"
definition longRouteAltsThresholdKm :: float64 where "longRouteAltsThresholdKm = 50"

definition snap :: "node_id list \<Rightarrow> graph \<Rightarrow> point \<Rightarrow> modeProfile \<Rightarrow> node option" where
  "snap order g q p =
     (case NearestRoutableNodeWithin order g (p_Lat q) (p_Lng q) snapThresholdKm (Some (edgeAllowed p)) of
        Some n \<Rightarrow> Some n
      | None \<Rightarrow> NearestRoutableNodeWithin order g (p_Lat q) (p_Lng q) snapFallbackKm (Some (edgeAllowed p)))"

definition profile_query :: "graph \<Rightarrow> node_id \<Rightarrow> node_id \<Rightarrow> modeProfile \<Rightarrow> query" where
  "profile_query g s t p =
     \<lparr>q_graph = g, q_start = s, q_goal = t, q_edgeOK = Some (edgeAllowed p), q_speedFn = edgeSpeed p,
      q_heuristicSpeed = heuristicSpeedKmH p, q_blockedEdges = {}, q_blockedNodes = {}\<rparr>"

definition effective_k :: "point \<Rightarrow> point \<Rightarrow> int \<Rightarrow> int" where
  "effective_k start goal k =
     (if k > 1 \<and> Haversine (p_Lat start) (p_Lng start) (p_Lat goal) (p_Lng goal) > longRouteAltsThresholdKm
      then 1 else k)"

definition graphRoutesCtx ::
  "PathResult sorter \<Rightarrow> node_id list \<Rightarrow> polls \<Rightarrow> Engine \<Rightarrow> graph \<Rightarrow> point \<Rightarrow> point \<Rightarrow> TransportMode \<Rightarrow> int
   \<Rightarrow> Route list option" where
  "graphRoutesCtx sortSlice order ctx E g start goal mode k =
     (if entry_err ctx \<noteq> None then Some []
      else case profiles mode of
        None \<Rightarrow> Some []
      | Some p \<Rightarrow>
          (case (snap order g start p, snap order g goal p) of
             (Some startNode, Some endNode) \<Rightarrow>
               (case KFastestPaths sortSlice (search_ctx ctx) (profile_query g (n_ID startNode) (n_ID endNode) p)
                       (effective_k start goal k) (yenSpurCap E) of
                  None \<Rightarrow> None
                | Some (Inl err) \<Rightarrow> Some []
                | Some (Inr paths) \<Rightarrow> those (map (\<lambda>path. pathToRoute E g path start goal mode) paths))
           | _ \<Rightarrow> Some []))"

definition CalculateAlternativesCtx ::
  "PathResult sorter \<Rightarrow> node_id list \<Rightarrow> polls \<Rightarrow> Engine \<Rightarrow> point \<Rightarrow> point \<Rightarrow> TransportMode \<Rightarrow> int
   \<Rightarrow> Route list option" where
  "CalculateAlternativesCtx sortSlice order ctx E start goal mode k =
     (let mode = (if mode = [] then ModeCar else mode);
          k = (if k \<le> 0 then 1 else k)
      in if mode = ModeAirplane then Some [airplaneRoute start goal]
         else case eng_graph E of
           Some g \<Rightarrow>
             (case graphRoutesCtx sortSlice order ctx E g start goal mode k of
                None \<Rightarrow> None
              | Some routes \<Rightarrow> if exit_err ctx \<noteq> None then Some []
                               else if routes \<noteq> [] then Some routes else Some [])
         | None \<Rightarrow> Some [haversineRoute E start goal mode])"

definition CalculateAlternatives ::
  "PathResult sorter \<Rightarrow> node_id list \<Rightarrow> Engine \<Rightarrow> point \<Rightarrow> point \<Rightarrow> TransportMode \<Rightarrow> int \<Rightarrow> Route list option" where
  "CalculateAlternatives sortSlice order E start goal mode k =
     CalculateAlternativesCtx sortSlice order background E start goal mode k"

text \<open>The answer of \<open>Calculate\<close>: \<open>Some None\<close> is a nil route.\<close>

definition Calculate ::
  "PathResult sorter \<Rightarrow> node_id list \<Rightarrow> Engine \<Rightarrow> point \<Rightarrow> point \<Rightarrow> TransportMode \<Rightarrow> Route option option" where
  "Calculate sortSlice order E start goal mode =
     (case CalculateAlternatives sortSlice order E start goal mode 1 of
        None \<Rightarrow> None
      | Some routes \<Rightarrow>
          if routes = [] then (if eng_graph E \<noteq> None then Some None
                               else Some (Some (haversineRoute E start goal ModeCar)))
          else Some (Some (hd routes)))"

section \<open>Speeds and points\<close>

lemma fallbackSpeed_pos: "0 < fallbackSpeed E mode"
  by (auto simp: fallbackSpeed_def Let_def split: option.splits)

text \<open>
  A line of points as \<open>appendPoint\<close> builds it: it starts at the first point given, no point
  is repeated next to itself, and every point given lies within 1e-7 degrees of one kept.
\<close>

lemma same_place_refl [simp]: "same_place p p"
  by (simp add: same_place_def)

lemma foldl_appendPoint:
  assumes "acc \<noteq> []" "successively (\<lambda>a b. \<not> same_place a b) acc"
  shows "hd (foldl appendPoint acc ps) = hd acc \<and> foldl appendPoint acc ps \<noteq> []
    \<and> successively (\<lambda>a b. \<not> same_place a b) (foldl appendPoint acc ps)
    \<and> set acc \<subseteq> set (foldl appendPoint acc ps) \<and> set (foldl appendPoint acc ps) \<subseteq> set acc \<union> set ps
    \<and> (\<forall>p\<in>set ps. \<exists>q\<in>set (foldl appendPoint acc ps). same_place q p)
    \<and> (ps \<noteq> [] \<longrightarrow> same_place (last (foldl appendPoint acc ps)) (last ps))"
  using assms
proof (induction ps rule: rev_induct)
  case (snoc p ps)
  let ?xs = "foldl appendPoint acc ps"
  from snoc have xs: "hd ?xs = hd acc" "?xs \<noteq> []" "successively (\<lambda>a b. \<not> same_place a b) ?xs"
    "set acc \<subseteq> set ?xs" "set ?xs \<subseteq> set acc \<union> set ps" "\<forall>p\<in>set ps. \<exists>q\<in>set ?xs. same_place q p" by blast+
  show ?case
  proof (cases "same_place (last ?xs) p")
    case True
    then have "foldl appendPoint acc (ps @ [p]) = ?xs" using xs(2) by (simp add: appendPoint_def)
    then show ?thesis using xs True last_in_set [OF xs(2)] by (simp only: set_append Un_iff last_snoc) auto
  next
    case False
    then have eq: "foldl appendPoint acc (ps @ [p]) = ?xs @ [p]" using xs(2) by (simp add: appendPoint_def)
    have "successively (\<lambda>a b. \<not> same_place a b) (?xs @ [p])"
      using xs(2,3) False by (simp add: successively_append_iff)
    then show ?thesis using xs unfolding eq by auto
  qed
qed simp

definition line_ok :: "point \<Rightarrow> point list \<Rightarrow> point \<Rightarrow> point list \<Rightarrow> bool" where
  "line_ok start via goal ps \<longleftrightarrow> ps \<noteq> [] \<and> hd ps = start \<and> same_place (last ps) goal
     \<and> successively (\<lambda>a b. \<not> same_place a b) ps \<and> set ps \<subseteq> {start, goal} \<union> set via
     \<and> (\<forall>p\<in>set via. \<exists>q\<in>set ps. same_place q p)"

lemma route_line: "line_ok start via goal (appendPoint (foldl appendPoint (appendPoint [] start) via) goal)"
proof -
  have eq: "appendPoint (foldl appendPoint (appendPoint [] start) via) goal = foldl appendPoint [start] (via @ [goal])"
    by (simp add: appendPoint_def)
  show ?thesis
    using foldl_appendPoint [of "[start]" "via @ [goal]"] unfolding eq line_ok_def by auto
qed

section \<open>Routes\<close>

definition snap_km :: "point \<Rightarrow> point \<Rightarrow> PathResult \<Rightarrow> float64" where
  "snap_km start goal path =
     Haversine (p_Lat start) (p_Lng start) (n_Lat (hd (pr_Nodes path))) (n_Lng (hd (pr_Nodes path)))
     + Haversine (p_Lat goal) (p_Lng goal) (n_Lat (last (pr_Nodes path))) (n_Lng (last (pr_Nodes path)))"

text \<open>What a route built from a path of the graph promises.\<close>

definition route_ok :: "Engine \<Rightarrow> query \<Rightarrow> point \<Rightarrow> point \<Rightarrow> TransportMode \<Rightarrow> PathResult \<Rightarrow> Route \<Rightarrow> bool" where
  "route_ok E Q start goal mode path r \<longleftrightarrow>
     path_ok Q path
     \<and> line_ok start (map node_point (pr_Nodes path)) goal (r_Points r)
     \<and> r_Polyline r = EncodePolyline (r_Points r)
     \<and> r_Distance r = Round (path_km (pr_Edges path) + snap_km start goal path) 3
     \<and> (0 < path_time Q (pr_Edges path) \<longrightarrow>
          r_Duration r = Round ((path_time Q (pr_Edges path) + snap_km start goal path / fallbackSpeed E mode) * 60) 2)
     \<and> (\<exists>ks. instructions_ok path start goal ks (r_Instructions r))"

lemma valid_path_shape:
  assumes "valid_path Q p"
  shows "path_shape p" "pr_Nodes p \<noteq> []"
proof -
  have "map Some (pr_Nodes p) = map (Nodes (q_graph Q)) (path_ids (q_start Q) (pr_Edges p))"
    using assms by (simp add: valid_path_def)
  then have "length (pr_Nodes p) = length (path_ids (q_start Q) (pr_Edges p))" by (metis length_map)
  then show "path_shape p" "pr_Nodes p \<noteq> []" by (auto simp: path_shape_def path_ids_def)
qed

lemma pathToRoute_ok:
  assumes "path_ok Q path"
  shows "\<exists>r. pathToRouteWithNameResolver E path start goal mode f = Some r \<and> route_ok E Q start goal mode path r"
proof -
  have v: "valid_path Q path" using assms by (simp add: path_ok_def)
  note sh = valid_path_shape [OF v]
  obtain ins ks where ins: "buildInstructions (Some path) mode start goal (fallbackSpeed E mode) (Some f) = Some ins"
    "instructions_ok path start goal ks ins"
    using buildInstructions_ok [OF sh(1)] by metis
  let ?s = "snap_km start goal path" and ?T = "path_time Q (pr_Edges path)"
  have s0: "0 \<le> ?s" by (simp add: snap_km_def)
  define dur where "dur = (let d = (if ?s > 0 then ?T * 60 + ?s / fallbackSpeed E mode * 60 else ?T * 60) in
      if d = 0 \<and> path_km (pr_Edges path) + ?s > 0 then (path_km (pr_Edges path) + ?s) / fallbackSpeed E mode * 60 else d)"
  have dur: "dur = (?T + ?s / fallbackSpeed E mode) * 60" if "0 < ?T"
  proof -
    have "0 \<le> ?s / fallbackSpeed E mode" using s0 fallbackSpeed_pos [of E mode] by simp
    then have "0 < ?T * 60 + ?s / fallbackSpeed E mode * 60"
      using that by (intro add_pos_nonneg mult_pos_pos mult_nonneg_nonneg) simp_all
    then show ?thesis using that s0 unfolding dur_def Let_def by (simp add: algebra_simps)
  qed
  let ?ps = "appendPoint (foldl appendPoint (appendPoint [] start) (map node_point (pr_Nodes path))) goal"
  let ?r = "\<lparr>r_Distance = Round (path_km (pr_Edges path) + ?s) 3, r_Duration = Round dur 2, r_Points = ?ps,
      r_Polyline = EncodePolyline ?ps, r_Instructions = ins\<rparr>"
  have "pathToRouteWithNameResolver E path start goal mode f = Some ?r"
    using sh(2) ins(1) v
    by (simp add: pathToRouteWithNameResolver_def Let_def valid_path_def snap_km_def dur_def)
  moreover have "route_ok E Q start goal mode path ?r"
    using assms route_line [of start "map node_point (pr_Nodes path)" goal] ins(2) dur
    by (auto simp: route_ok_def)
  ultimately show ?thesis by blast
qed

section \<open>Snapping and searching\<close>

text \<open>A graph a profile can be searched on, for every pair of end points.\<close>

definition route_ready :: "graph \<Rightarrow> modeProfile \<Rightarrow> bool" where
  "route_ready g p \<longleftrightarrow> (\<forall>s t. yen_ready (profile_query g s t p)) \<and> grid g \<noteq> Map.empty"

lemma profile_query_simps [simp]:
  "q_graph (profile_query g s t p) = g" "q_start (profile_query g s t p) = s" "q_goal (profile_query g s t p) = t"
  "q_edgeOK (profile_query g s t p) = Some (edgeAllowed p)" "q_speedFn (profile_query g s t p) = edgeSpeed p"
  "q_heuristicSpeed (profile_query g s t p) = heuristicSpeedKmH p"
  by (simp_all add: profile_query_def)

text \<open>The node a request point is snapped to, by the rule of the two radii.\<close>

definition snapped :: "graph \<Rightarrow> point \<Rightarrow> modeProfile \<Rightarrow> node \<Rightarrow> bool" where
  "snapped g q p n \<longleftrightarrow> snap_spec g (p_Lat q) (p_Lng q) snapThresholdKm (Some (edgeAllowed p)) (Some n)
     \<or> snap_spec g (p_Lat q) (p_Lng q) snapThresholdKm (Some (edgeAllowed p)) None
       \<and> snap_spec g (p_Lat q) (p_Lng q) snapFallbackKm (Some (edgeAllowed p)) (Some n)"

definition unsnappable :: "graph \<Rightarrow> point \<Rightarrow> modeProfile \<Rightarrow> bool" where
  "unsnappable g q p \<longleftrightarrow> snap_spec g (p_Lat q) (p_Lng q) snapFallbackKm (Some (edgeAllowed p)) None"

lemma snap_result:
  assumes "grid g \<noteq> Map.empty"
  shows "case snap order g q p of None \<Rightarrow> unsnappable g q p | Some n \<Rightarrow> snapped g q p n"
proof -
  have s: "snap_spec g (p_Lat q) (p_Lng q) r (Some (edgeAllowed p))
      (NearestRoutableNodeWithin order g (p_Lat q) (p_Lng q) r (Some (edgeAllowed p)))" if "0 < r" for r
    using nearestNodeWithin_snap [OF that assms] by (simp add: NearestRoutableNodeWithin_def)
  have "0 < snapThresholdKm" "0 < snapFallbackKm" by (simp_all add: snapThresholdKm_def snapFallbackKm_def)
  note s [OF this(1)] s [OF this(2)]
  then show ?thesis
    by (cases "NearestRoutableNodeWithin order g (p_Lat q) (p_Lng q) snapThresholdKm (Some (edgeAllowed p))";
        cases "NearestRoutableNodeWithin order g (p_Lat q) (p_Lng q) snapFallbackKm (Some (edgeAllowed p))")
       (simp_all add: snap_def snapped_def unsnappable_def)
qed

text \<open>What the routes of a request are, when there are any.\<close>

definition routes_ok ::
  "Engine \<Rightarrow> graph \<Rightarrow> modeProfile \<Rightarrow> point \<Rightarrow> point \<Rightarrow> TransportMode \<Rightarrow> int \<Rightarrow> Route list \<Rightarrow> bool" where
  "routes_ok E g p start goal mode k rs \<longleftrightarrow>
     (\<exists>s t paths. snapped g start p s \<and> snapped g goal p t
        \<and> yen_result (profile_query g (n_ID s) (n_ID t) p) (nat (max 1 (effective_k start goal k))) paths
        \<and> list_all2 (route_ok E (profile_query g (n_ID s) (n_ID t) p) start goal mode) paths rs)"

lemma those_list_all2:
  "\<forall>x\<in>set xs. \<exists>y. f x = Some y \<and> P x y \<Longrightarrow> \<exists>ys. those (map f xs) = Some ys \<and> list_all2 P xs ys"
  by (induction xs) auto

lemma graphRoutesCtx_ok:
  assumes "profiles mode = Some p" "route_ready g p" "sort_law sortSlice"
  shows "\<exists>rs. graphRoutesCtx sortSlice order ctx E g start goal mode k = Some rs
    \<and> (rs = [] \<or> routes_ok E g p start goal mode k rs)
    \<and> (rs = [] \<longrightarrow> entry_err ctx \<noteq> None \<or> unsnappable g start p \<or> unsnappable g goal p
        \<or> (\<exists>s t err. snapped g start p s \<and> snapped g goal p t
             \<and> biAStar (search_ctx ctx 0) (profile_query g (n_ID s) (n_ID t) p) = Some (Inl err)))"
proof (cases "entry_err ctx = None")
  case True
  have g: "grid g \<noteq> Map.empty" using assms(2) by (simp add: route_ready_def)
  show ?thesis
  proof (cases "snap order g start p"; cases "snap order g goal p")
    fix s t
    assume s: "snap order g start p = Some s" and t: "snap order g goal p = Some t"
    then have st: "snapped g start p s" "snapped g goal p t"
      using snap_result [OF g, of start p order] snap_result [OF g, of goal p order] by simp_all
    let ?Q = "profile_query g (n_ID s) (n_ID t) p" and ?k = "effective_k start goal k"
    have "yen_ready ?Q" using assms(2) by (simp add: route_ready_def)
    then obtain r where r: "KFastestPaths sortSlice (search_ctx ctx) ?Q ?k (yenSpurCap E) = Some r"
      "case r of Inl err \<Rightarrow> biAStar (search_ctx ctx 0) ?Q = Some (Inl err)
       | Inr ps \<Rightarrow> biAStar (search_ctx ctx 0) ?Q = Some (Inr (hd ps)) \<and> yen_result ?Q (nat (max 1 ?k)) ps"
      using KFastestPaths_result [OF _ assms(3), of ?Q "search_ctx ctx" ?k "yenSpurCap E"] by blast
    show ?thesis
    proof (cases r)
      case (Inl err)
      then have "graphRoutesCtx sortSlice order ctx E g start goal mode k = Some []"
        using True assms(1) s t r(1) by (simp add: graphRoutesCtx_def del: profile_query_simps)
      moreover have "biAStar (search_ctx ctx 0) ?Q = Some (Inl err)" using r(2) by (simp only: Inl sum.case)
      with st have "\<exists>s t err. snapped g start p s \<and> snapped g goal p t
          \<and> biAStar (search_ctx ctx 0) (profile_query g (n_ID s) (n_ID t) p) = Some (Inl err)" by metis
      ultimately show ?thesis by simp
    next
      case (Inr ps)
      have "\<forall>x\<in>set ps. \<exists>y. pathToRoute E g x start goal mode = Some y \<and> route_ok E ?Q start goal mode x y"
        using r(2) Inr pathToRoute_ok by (auto simp: pathToRoute_def yen_result_def)
      from those_list_all2 [OF this] obtain rs where
        rs: "those (map (\<lambda>x. pathToRoute E g x start goal mode) ps) = Some rs" "list_all2 (route_ok E ?Q start goal mode) ps rs"
        by blast
      have yr: "yen_result ?Q (nat (max 1 ?k)) ps" using r(2) Inr by simp
      then have "ps \<noteq> []" by (simp add: yen_result_def)
      with rs(2) have "rs \<noteq> []" by auto
      moreover have "routes_ok E g p start goal mode k rs"
        unfolding routes_ok_def using st yr rs(2) by blast
      moreover have "graphRoutesCtx sortSlice order ctx E g start goal mode k = Some rs"
        using True assms(1) s t r(1) Inr rs(1) by (simp add: graphRoutesCtx_def)
      ultimately show ?thesis by blast
    qed
  qed (use snap_result [OF g, of start p order] snap_result [OF g, of goal p order] True assms(1) in
        \<open>auto simp: graphRoutesCtx_def\<close>)
qed (simp add: graphRoutesCtx_def)

lemma routes_ok_length:
  "routes_ok E g p start goal mode k rs \<Longrightarrow> length rs \<le> nat (max 1 k)"
  by (auto simp: routes_ok_def yen_result_def effective_k_def dest!: list_all2_lengthD split: if_splits)


section \<open>The engine's answers\<close>

definition served_mode :: "TransportMode \<Rightarrow> TransportMode" where
  "served_mode mode = (if mode = [] then ModeCar else mode)"

text \<open>Why there may be no route: the context, a request point without a node, or a search without a path.\<close>

definition no_route :: "polls \<Rightarrow> graph \<Rightarrow> modeProfile \<Rightarrow> point \<Rightarrow> point \<Rightarrow> bool" where
  "no_route ctx g p start goal \<longleftrightarrow>
     entry_err ctx \<noteq> None \<or> exit_err ctx \<noteq> None \<or> unsnappable g start p \<or> unsnappable g goal p
     \<or> (\<exists>s t err. snapped g start p s \<and> snapped g goal p t
          \<and> biAStar (search_ctx ctx 0) (profile_query g (n_ID s) (n_ID t) p) = Some (Inl err))"

lemma CalculateAlternativesCtx_graph:
  assumes "eng_graph E = Some g" "profiles (served_mode mode) = Some p" "route_ready g p" "sort_law sortSlice"
  shows "\<exists>rs. CalculateAlternativesCtx sortSlice order ctx E start goal mode k = Some rs
    \<and> length rs \<le> nat (max 1 k)
    \<and> (exit_err ctx \<noteq> None \<longrightarrow> rs = [])
    \<and> (rs = [] \<longrightarrow> no_route ctx g p start goal)
    \<and> (rs \<noteq> [] \<longrightarrow> routes_ok E g p start goal (served_mode mode) (max 1 k) rs)"
proof -
  let ?k = "if k \<le> 0 then 1 else k"
  have k: "?k = max 1 k" by simp
  have air: "served_mode mode \<noteq> ModeAirplane"
  proof
    assume "served_mode mode = ModeAirplane"
    with assms(2) show False by (simp add: profiles_def mode_defs split: if_splits)
  qed
  obtain rs where rs: "graphRoutesCtx sortSlice order ctx E g start goal (served_mode mode) ?k = Some rs"
    "rs = [] \<or> routes_ok E g p start goal (served_mode mode) ?k rs"
    "rs = [] \<longrightarrow> entry_err ctx \<noteq> None \<or> unsnappable g start p \<or> unsnappable g goal p
        \<or> (\<exists>s t err. snapped g start p s \<and> snapped g goal p t
             \<and> biAStar (search_ctx ctx 0) (profile_query g (n_ID s) (n_ID t) p) = Some (Inl err))"
    using graphRoutesCtx_ok [OF assms(2-4), of order ctx E start goal ?k] by blast
  have len: "length rs \<le> nat (max 1 k)"
  proof (cases "rs = []")
    case False
    with rs(2) have "length rs \<le> nat (max 1 ?k)" using routes_ok_length by blast
    then show ?thesis by (simp split: if_splits)
  qed simp
  have eq: "CalculateAlternativesCtx sortSlice order ctx E start goal mode k
      = (if exit_err ctx \<noteq> None then Some [] else Some rs)"
    using air rs(1) assms(1) by (simp add: CalculateAlternativesCtx_def Let_def served_mode_def [symmetric])
  show ?thesis
  proof (cases "exit_err ctx = None")
    case True
    have "rs \<noteq> [] \<longrightarrow> routes_ok E g p start goal (served_mode mode) (max 1 k) rs" using rs(2) unfolding k by blast
    moreover have "rs = [] \<longrightarrow> no_route ctx g p start goal" using rs(3) unfolding no_route_def by blast
    ultimately show ?thesis using eq len True by (intro exI [of _ rs]) simp
  next
    case False
    then show ?thesis using eq by (simp add: no_route_def)
  qed
qed

text \<open>
  C4. With a road graph the engine returns, for every mode with a profile, at most
  \<open>max 1 k\<close> routes and never a straight line: each route is built from a path found between
  the nodes the request's points snap to (loopless, with the exact sums), starts at the
  requested start, ends at the requested end, repeats no point, keeps every node of the path,
  and its instructions cover the path.  No route is returned when the context has ended; an
  empty answer means that the context ended, that a point has no node to snap to, or that the
  first search found no path.
\<close>

theorem CalculateAlternativesCtx_routes:
  assumes "eng_graph E = Some g" "profiles (served_mode mode) = Some p" "route_ready g p" "sort_law sortSlice"
  shows "\<exists>rs. CalculateAlternativesCtx sortSlice order ctx E start goal mode k = Some rs
    \<and> length rs \<le> nat (max 1 k)
    \<and> (exit_err ctx \<noteq> None \<longrightarrow> rs = [])
    \<and> (rs = [] \<longrightarrow> no_route ctx g p start goal)
    \<and> (rs \<noteq> [] \<longrightarrow> routes_ok E g p start goal (served_mode mode) (max 1 k) rs)"
  by (rule CalculateAlternativesCtx_graph [OF assms])

text \<open>The car profile on the graph of two nodes is such a case.\<close>

definition car_profile :: modeProfile where
  "car_profile = \<lparr>edgeAllowed = (\<lambda>e. Has (e_Flags e) FlagCar), edgeSpeed = None,
     fallbackSpeedKmH = 0, heuristicSpeedKmH = 130\<rparr>"

lemma car_profile: "profiles ModeCar = Some car_profile"
  by (simp add: profiles_def car_profile_def mode_defs)

lemma two_nodes_ready_gen:
  assumes "\<And>e. e \<in> set (Edges two_nodes 1) \<Longrightarrow> edgeTravelTimeHours e (edgeSpeed p) = 1 / 5"
  shows "route_ready two_nodes p"
proof -
  have walks: "path_time (profile_query two_nodes s t p) es < maxFloat64 / 2"
    if w: "walk (profile_query two_nodes s t p) u es v" for s t u es v
  proof -
    have "length es \<le> 1"
      using w by (cases es; cases "tl es") (auto simp: usable_def split: if_splits)
    moreover have "\<forall>e\<in>set es. edgeTravelTimeHours e (edgeSpeed p) = 1 / 5"
    proof
      fix e assume "e \<in> set es"
      with walk_edge [OF w] obtain x where "usable (profile_query two_nodes s t p) x e" by blast
      then show "edgeTravelTimeHours e (edgeSpeed p) = 1 / 5"
        using assms by (auto simp: usable_def split: if_splits)
    qed
    ultimately have "path_time (profile_query two_nodes s t p) es \<le> 1 / 5"
      by (cases es) (auto simp: path_time_def)
    also have "\<dots> < maxFloat64 / 2"
    proof -
      have "(1::real) \<le> 2 ^ 1023" by simp
      with maxFloat64_ge show ?thesis by linarith
    qed
    finally show ?thesis .
  qed
  have "rev_ok two_nodes" by (auto simp: two_nodes_def rev_ok_def AddEdge_def NewGraph_def)
  moreover have "keys_ok two_nodes" by (simp add: keys_ok_def)
  moreover have "grid two_nodes (cellFor 35 51) \<noteq> None"
    by (simp add: two_nodes_def AddEdge_def AddNode_def NewGraph_def Let_def)
  then have "grid two_nodes \<noteq> Map.empty" by metis
  ultimately show ?thesis
    using walks assms
    by (auto simp: route_ready_def yen_ready_def search_ready_def times_bounded_def unblocked_def profile_query_def)
qed

lemma two_nodes_ready: "route_ready two_nodes car_profile"
  by (rule two_nodes_ready_gen) (auto simp: edgeTravelTimeHours_def car_profile_def)

theorem CalculateAlternativesCtx_routes_witness:
  "\<exists>rs. CalculateAlternativesCtx insertion_sort [] background (NewEngineWithGraph 40 (Some two_nodes) 60)
       \<lparr>p_Lat = 35, p_Lng = 51\<rparr> \<lparr>p_Lat = 351 / 10, p_Lng = 51\<rparr> ModeCar 3 = Some rs \<and> length rs \<le> 3"
proof -
  have "eng_graph (NewEngineWithGraph 40 (Some two_nodes) 60) = Some two_nodes" by (simp add: NewEngineWithGraph_def)
  moreover have "profiles (served_mode ModeCar) = Some car_profile"
    using car_profile by (simp add: served_mode_def mode_defs)
  from CalculateAlternativesCtx_routes [OF calculation this two_nodes_ready sort_law_insertion,
      of "[]" background "\<lparr>p_Lat = 35, p_Lng = 51\<rparr>" "\<lparr>p_Lat = 351 / 10, p_Lng = 51\<rparr>" 3]
  show ?thesis by auto
qed

section \<open>Flight arcs\<close>

lemma spherical_range: "\<bar>sin m * cos d + cos m * sin d * cos p\<bar> \<le> (1 :: real)"
proof -
  have le: "\<bar>cos m * sin d * cos p\<bar> \<le> \<bar>cos m * sin d\<bar>"
    using mult_left_mono [OF abs_cos_le_one [of p], of "\<bar>cos m * sin d\<bar>"] by (simp add: abs_mult)
  have "2 * \<bar>x * y\<bar> \<le> x\<^sup>2 + y\<^sup>2" for x y :: real
    using zero_le_power2 [of "\<bar>x\<bar> - \<bar>y\<bar>"] by (simp add: power2_diff abs_mult)
  note sq = this
  have "2 * \<bar>sin m * cos d\<bar> + 2 * \<bar>cos m * sin d\<bar> \<le> ((sin m)\<^sup>2 + (cos d)\<^sup>2) + ((cos m)\<^sup>2 + (sin d)\<^sup>2)"
    by (rule add_mono [OF sq sq])
  moreover have "(sin m)\<^sup>2 + (cos m)\<^sup>2 = 1" "(sin d)\<^sup>2 + (cos d)\<^sup>2 = 1" by simp_all
  ultimately have "\<bar>sin m * cos d\<bar> + \<bar>cos m * sin d\<bar> \<le> 1" by linarith
  with le show ?thesis
    using abs_triangle_ineq [of "sin m * cos d" "cos m * sin d * cos p"] by linarith
qed

lemma flight_control_lat: "\<bar>p_Lat (flight_control start goal)\<bar> \<le> 90"
proof -
  have "\<bar>arcsin (sin m * cos d + cos m * sin d * cos p)\<bar> \<le> pi / 2" for m d p
  proof -
    have "- 1 \<le> sin m * cos d + cos m * sin d * cos p" "sin m * cos d + cos m * sin d * cos p \<le> 1"
      using spherical_range [of m d p] by (simp_all add: abs_le_iff)
    from arcsin_bounded [OF this] show ?thesis by linarith
  qed
  moreover have "\<bar>x / (pi / 180)\<bar> \<le> 90" if "\<bar>x\<bar> \<le> pi / 2" for x
  proof -
    have "x \<le> pi / 2" "- x \<le> pi / 2" using that by linarith+
    then show ?thesis using pi_gt_zero by (simp add: abs_le_iff field_simps)
  qed
  ultimately have "\<bar>arcsin (sin m * cos d + cos m * sin d * cos p) / (pi / 180)\<bar> \<le> 90" for m d p
    by blast
  then show ?thesis by (simp only: flight_control_def Let_def point.simps)
qed

lemma bezier_lat:
  assumes "0 \<le> t" "t \<le> 1" "\<bar>p_Lat a\<bar> \<le> 90" "\<bar>p_Lat c\<bar> \<le> 90" "\<bar>p_Lat b\<bar> \<le> 90"
  shows "\<bar>p_Lat (bezier a c b t)\<bar> \<le> 90"
proof -
  let ?s = "1 - t"
  have w: "0 \<le> ?s * ?s" "0 \<le> 2 * ?s * t" "0 \<le> t * t" using assms(1,2) by simp_all
  have "\<bar>w * x\<bar> \<le> w * 90" if "0 \<le> w" "\<bar>x\<bar> \<le> 90" for w x :: real
    using mult_left_mono [OF that(2,1)] that(1) by (simp add: abs_mult)
  note this [OF w(1) assms(3)] this [OF w(2) assms(4)] this [OF w(3) assms(5)]
  moreover have "?s * ?s * 90 + 2 * ?s * t * 90 + t * t * 90 = 90" by (simp add: algebra_simps)
  ultimately show ?thesis unfolding bezier_def Let_def point.simps by linarith
qed

text \<open>
  A flight is drawn with n + 2 points from the start to the end of the request; every
  point of the arc keeps a valid latitude, whatever the end points and however far the
  control point is lifted.
\<close>

theorem flightArc_valid:
  assumes "\<bar>p_Lat start\<bar> \<le> 90" "\<bar>p_Lat goal\<bar> \<le> 90"
  shows "length (flightArc start goal n) = n + 2
    \<and> hd (flightArc start goal n) = start \<and> last (flightArc start goal n) = goal
    \<and> (\<forall>p\<in>set (flightArc start goal n). \<bar>p_Lat p\<bar> \<le> 90)"
proof -
  have "\<bar>p_Lat (bezier start (flight_control start goal) goal (of_nat i / of_nat (n + 1)))\<bar> \<le> 90"
    if "i < n + 1" for i
    using that assms flight_control_lat by (intro bezier_lat) simp_all
  then show ?thesis using assms by (auto simp: flightArc_def)
qed

theorem flightArc_valid_witness:
  "length (r_Points (airplaneRoute \<lparr>p_Lat = 35.7, p_Lng = 51.4\<rparr> \<lparr>p_Lat = 32.6, p_Lng = 51.7\<rparr>)) = 52"
  using flightArc_valid [of "\<lparr>p_Lat = 35.7, p_Lng = 51.4\<rparr>" "\<lparr>p_Lat = 32.6, p_Lng = 51.7\<rparr>" 50]
  by (simp add: airplaneRoute_def Let_def)

end
