(* ===== verification/Multimodal.thy ===== *)
theory Multimodal
  imports Engine
begin

text \<open>
  \<open>internal/routing/multimodal.go\<close> and \<open>transit_geom.go\<close>: journeys that combine walking
  with trains or with the bus and metro overlay, and the lazily filled cache of the overlay's
  edge geometry.  The worker pool that fills the cache is a step relation over the jobs in
  the channel, the jobs being looked up, the polylines about to be stored, the idle workers
  and the transit graph; a worker sees an arbitrary context at every poll.  A nil slice of
  legs is the empty list; \<open>None\<close> stands for a panic or for not returning.
\<close>

record MultiModalLeg =
  leg_Mode :: TransportMode
  leg_Route :: Route

definition railSnapKm :: float64 where "railSnapKm = 50"
definition transitSnapKm :: float64 where "transitSnapKm = 5"
definition transitBoardingPenaltyMin :: float64 where "transitBoardingPenaltyMin = 3"
definition transitSnapKmForGeom :: float64 where "transitSnapKmForGeom = 0.5"

section \<open>Walking and rail legs\<close>

definition computeWalkLeg ::
  "PathResult sorter \<Rightarrow> node_id list \<Rightarrow> polls \<Rightarrow> Engine \<Rightarrow> point \<Rightarrow> point \<Rightarrow> Route option" where
  "computeWalkLeg sortSlice order ctx E start goal =
     (case eng_graph E of
        None \<Rightarrow> Some (haversineRoute E start goal ModeWalking)
      | Some g \<Rightarrow>
          map_option (\<lambda>routes. if routes \<noteq> [] then hd routes else haversineRoute E start goal ModeWalking)
            (graphRoutesCtx sortSlice order ctx E g start goal ModeWalking 1))"

definition computeRailLeg ::
  "PathResult sorter \<Rightarrow> (nat \<Rightarrow> ctx) \<Rightarrow> Engine \<Rightarrow> graph \<Rightarrow> modeProfile \<Rightarrow> node \<Rightarrow> node \<Rightarrow> Route option" where
  "computeRailLeg sortSlice ctxs E rail p from to =
     (case KFastestPaths sortSlice ctxs (profile_query rail (n_ID from) (n_ID to) p) 1 (yenSpurCap E) of
        None \<Rightarrow> None
      | Some (Inr (path # _)) \<Rightarrow>
          pathToRouteWithNameResolver E path (node_point from) (node_point to) ModeTrain (NameFor rail)
      | Some _ \<Rightarrow> Some (haversineRoute E (node_point from) (node_point to) ModeTrain))"

text \<open>The contexts a journey's calls see.\<close>

record journey_ctx =
  rail_ctx :: "nat \<Rightarrow> ctx"
  walk1_ctx :: polls
  walk2_ctx :: polls

definition ComputeTrainRoute ::
  "PathResult sorter \<Rightarrow> node_id list \<Rightarrow> journey_ctx \<Rightarrow> Engine \<Rightarrow> point \<Rightarrow> point \<Rightarrow> MultiModalLeg list option" where
  "ComputeTrainRoute sortSlice order ctx E start goal =
     (case (eng_railGraph E, profiles ModeTrain) of
        (Some rail, Some p) \<Rightarrow>
          (case (NearestRoutableNodeWithin order rail (p_Lat start) (p_Lng start) railSnapKm (Some (edgeAllowed p)),
                 NearestRoutableNodeWithin order rail (p_Lat goal) (p_Lng goal) railSnapKm (Some (edgeAllowed p))) of
             (Some originStation, Some destStation) \<Rightarrow>
               if n_ID originStation = n_ID destStation then Some []
               else (case computeRailLeg sortSlice (rail_ctx ctx) E rail p originStation destStation of
                       None \<Rightarrow> None
                     | Some trainRoute \<Rightarrow>
                         (case computeWalkLeg sortSlice order (walk1_ctx ctx) E start (node_point originStation) of
                            None \<Rightarrow> None
                          | Some walkRoute1 \<Rightarrow>
                              (case computeWalkLeg sortSlice order (walk2_ctx ctx) E (node_point destStation) goal of
                                 None \<Rightarrow> None
                               | Some walkRoute2 \<Rightarrow>
                                   Some [\<lparr>leg_Mode = ModeWalking, leg_Route = walkRoute1\<rparr>,
                                         \<lparr>leg_Mode = ModeTrain, leg_Route = trainRoute\<rparr>,
                                         \<lparr>leg_Mode = ModeWalking, leg_Route = walkRoute2\<rparr>])))
           | _ \<Rightarrow> Some [])
      | _ \<Rightarrow> Some [])"

section \<open>Edge geometry\<close>

record transitGeomJob =
  j_from :: node
  j_to :: node
  j_kind :: HighwayKind

definition graphAndProfileFor ::
  "HighwayKind \<Rightarrow> graph option \<Rightarrow> graph option \<Rightarrow> (graph \<times> modeProfile) option" where
  "graphAndProfileFor kind road rail =
     (case kind of
        HWBusRoute \<Rightarrow> (case (road, profiles ModeBus) of (Some g, Some p) \<Rightarrow> Some (g, p) | _ \<Rightarrow> None)
      | HWSubway \<Rightarrow> (case (rail, profiles ModeTrain) of (Some g, Some p) \<Rightarrow> Some (g, p) | _ \<Rightarrow> None)
      | HWLightRail \<Rightarrow> (case (rail, profiles ModeTrain) of (Some g, Some p) \<Rightarrow> Some (g, p) | _ \<Rightarrow> None)
      | HWTram \<Rightarrow> (case (rail, profiles ModeTrain) of (Some g, Some p) \<Rightarrow> Some (g, p) | _ \<Rightarrow> None)
      | _ \<Rightarrow> None)"

text \<open>The result \<open>Some []\<close> is nil; \<open>None\<close> is a search that does not return.\<close>

definition computeUnderlyingPolyline ::
  "node_id list \<Rightarrow> ctx \<Rightarrow> transitGeomJob \<Rightarrow> graph option \<Rightarrow> graph option \<Rightarrow> point list option" where
  "computeUnderlyingPolyline order ctx j road rail =
     (case graphAndProfileFor (j_kind j) road rail of
        None \<Rightarrow> Some []
      | Some (g, prof) \<Rightarrow>
          (case (NearestRoutableNodeWithin order g (n_Lat (j_from j)) (n_Lng (j_from j)) transitSnapKmForGeom (Some (edgeAllowed prof)),
                 NearestRoutableNodeWithin order g (n_Lat (j_to j)) (n_Lng (j_to j)) transitSnapKmForGeom (Some (edgeAllowed prof))) of
             (Some startNode, Some endNode) \<Rightarrow>
               if n_ID startNode = n_ID endNode then Some []
               else (case aStar ctx (profile_query g (n_ID startNode) (n_ID endNode) prof) of
                       None \<Rightarrow> None
                     | Some (Inl err) \<Rightarrow> Some []
                     | Some (Inr path) \<Rightarrow>
                         if pr_Nodes path = [] then Some []
                         else let poly = foldl appendPoint [node_point (j_from j)] (map node_point (pr_Nodes path));
                                  poly = appendPoint poly (node_point (j_to j))
                              in if length poly < 2 then Some [] else Some poly)
           | _ \<Rightarrow> Some []))"

definition ensureEdgePolyline ::
  "node_id list \<Rightarrow> ctx \<Rightarrow> graph option \<Rightarrow> graph option \<Rightarrow> transitGeomJob \<Rightarrow> graph \<Rightarrow> graph option" where
  "ensureEdgePolyline order ctx road rail j g =
     (if j_kind j = HWTransfer then Some g
      else if EdgePolyline g (n_ID (j_from j)) (n_ID (j_to j)) \<noteq> None then Some g
      else map_option (\<lambda>poly. if length poly < 2 then g
                              else SetEdgePolyline g (n_ID (j_from j)) (n_ID (j_to j)) poly)
             (computeUnderlyingPolyline order ctx j road rail))"

section \<open>Warming the cache\<close>

text \<open>The jobs of \<open>warmTransitPolylines\<close>: the edges that are not transfers and not yet cached.\<close>

fun pending_jobs :: "graph \<Rightarrow> node list \<Rightarrow> edge list \<Rightarrow> transitGeomJob list option" where
  "pending_jobs g (a # b # ns) (e # es) =
     map_option (\<lambda>js. if e_Kind e = HWTransfer \<or> EdgePolyline g (n_ID a) (n_ID b) \<noteq> None then js
                      else \<lparr>j_from = a, j_to = b, j_kind = e_Kind e\<rparr> # js)
       (pending_jobs g (b # ns) es)"
| "pending_jobs g ns [] = Some []"
| "pending_jobs g ns (e # es) =
     (if list_all (\<lambda>e. e_Kind e = HWTransfer) (e # es) then Some [] else None)"

record pool =
  channel :: "transitGeomJob list"
  looking :: "transitGeomJob list"
  storing :: "(transitGeomJob \<times> point list) list"
  idle :: nat
  transit :: graph

definition start_pool :: "graph \<Rightarrow> transitGeomJob list \<Rightarrow> pool" where
  "start_pool g js = \<lparr>channel = js, looking = [], storing = [], idle = min 4 (length js), transit = g\<rparr>"

inductive pool_step :: "node_id list \<Rightarrow> graph option \<Rightarrow> graph option \<Rightarrow> pool \<Rightarrow> pool \<Rightarrow> bool"
  for order road rail where
  receive: "channel s = j # js \<Longrightarrow> 0 < idle s \<Longrightarrow>
     pool_step order road rail s (s\<lparr>channel := js, looking := j # looking s, idle := idle s - 1\<rparr>)"
| cancelled: "channel s = j # js \<Longrightarrow> 0 < idle s \<Longrightarrow>
     pool_step order road rail s (s\<lparr>channel := js, idle := idle s - 1\<rparr>)"
| cached: "j \<in> set (looking s) \<Longrightarrow> EdgePolyline (transit s) (n_ID (j_from j)) (n_ID (j_to j)) \<noteq> None \<Longrightarrow>
     pool_step order road rail s (s\<lparr>looking := remove1 j (looking s), idle := idle s + 1\<rparr>)"
| computed: "j \<in> set (looking s) \<Longrightarrow> EdgePolyline (transit s) (n_ID (j_from j)) (n_ID (j_to j)) = None \<Longrightarrow>
     computeUnderlyingPolyline order ctx j road rail = Some poly \<Longrightarrow> 2 \<le> length poly \<Longrightarrow>
     pool_step order road rail s (s\<lparr>looking := remove1 j (looking s), storing := (j, poly) # storing s\<rparr>)"
| unavailable: "j \<in> set (looking s) \<Longrightarrow> EdgePolyline (transit s) (n_ID (j_from j)) (n_ID (j_to j)) = None \<Longrightarrow>
     computeUnderlyingPolyline order ctx j road rail = Some poly \<Longrightarrow> length poly < 2 \<Longrightarrow>
     pool_step order road rail s (s\<lparr>looking := remove1 j (looking s), idle := idle s + 1\<rparr>)"
| stored: "(j, poly) \<in> set (storing s) \<Longrightarrow>
     pool_step order road rail s (s\<lparr>storing := remove1 (j, poly) (storing s), idle := idle s + 1,
       transit := SetEdgePolyline (transit s) (n_ID (j_from j)) (n_ID (j_to j)) poly\<rparr>)"

text \<open>The pool has ended: no work in progress, and the channel is drained or every worker has left.\<close>

definition pool_done :: "pool \<Rightarrow> bool" where
  "pool_done s \<longleftrightarrow> looking s = [] \<and> storing s = [] \<and> (channel s = [] \<or> idle s = 0)"

section \<open>Transit legs\<close>

definition edgeMode :: "HighwayKind \<Rightarrow> TransportMode" where
  "edgeMode kind =
     (if kind \<in> {HWSubway, HWLightRail, HWTram} then ModeTrain
      else if kind = HWBusRoute then ModeBus
      else if kind = HWTransfer then ModeWalking
      else ModePublicTransport)"

definition transitInstructionType :: "HighwayKind \<Rightarrow> bool \<Rightarrow> string" where
  "transitInstructionType kind first =
     (if kind = HWTransfer then ''walk_transfer''
      else if kind = HWBusRoute then (if first then ''board_bus'' else ''continue_bus'')
      else if kind \<in> {HWSubway, HWLightRail, HWTram} then (if first then ''board_metro'' else ''continue_metro'')
      else ''continue'')"

definition transitInstructionText :: "HighwayKind \<Rightarrow> string \<Rightarrow> bool \<Rightarrow> string" where
  "transitInstructionText kind lineName first =
     (if kind = HWTransfer then ''Walk to next stop''
      else if kind = HWBusRoute then (if first then ''Board '' @ lineName else ''Stay on '' @ lineName)
      else if kind \<in> {HWSubway, HWLightRail, HWTram}
      then (if first then ''Board '' @ lineName else ''Stay on '' @ lineName)
      else lineName)"

text \<open>The points of a segment: cached geometry where it has two points or more, else the next stop.\<close>

fun segment_points :: "graph \<Rightarrow> point list \<Rightarrow> node list \<Rightarrow> edge list \<Rightarrow> point list option" where
  "segment_points g pts (a # b # ns) (e # es) =
     (let pts' = (case EdgePolyline g (n_ID a) (n_ID b) of
                    Some poly \<Rightarrow> if length poly \<ge> 2 then foldl appendPoint pts (tl poly)
                                 else appendPoint pts (node_point b)
                  | None \<Rightarrow> appendPoint pts (node_point b))
      in segment_points g pts' (b # ns) es)"
| "segment_points g pts ns [] = Some pts"
| "segment_points g pts ns (e # es) = None"

definition transit_instruction :: "string \<Rightarrow> node \<Rightarrow> edge \<Rightarrow> nat \<Rightarrow> Instruction" where
  "transit_instruction lineName from ed i =
     \<lparr>in_Index = i, in_Type = transitInstructionType (e_Kind ed) (i = 0), in_Modifier = [],
      in_Text = transitInstructionText (e_Kind ed) lineName (i = 0),
      in_DistanceKm = Round (e_DistanceKm ed) 3, in_DurationMin = Round (e_TimeHours ed * 60) 2,
      in_Location = node_point from, in_StreetName = lineName\<rparr>"

text \<open>The leg of one segment: \<open>Some None\<close> is a nil leg.\<close>

definition buildTransitSegmentLeg ::
  "graph \<Rightarrow> node list \<Rightarrow> edge list \<Rightarrow> MultiModalLeg option option" where
  "buildTransitSegmentLeg g nodes edges =
     (if length nodes < 2 \<or> edges = [] then Some None
      else map_option (\<lambda>points.
             let totalKm = sum_list (map e_DistanceKm edges);
                 totalHours = sum_list (map e_TimeHours edges);
                 mode = edgeMode (e_Kind (hd edges));
                 durationMin = (if mode \<noteq> ModeWalking then totalHours * 60 + transitBoardingPenaltyMin
                                else totalHours * 60);
                 lineName = NameFor g (e_NameIdx (hd edges));
                 instructions = map (\<lambda>i. transit_instruction lineName (nodes ! i) (edges ! i) i) [0..<length edges]
             in Some \<lparr>leg_Mode = mode,
                      leg_Route = \<lparr>r_Distance = Round totalKm 3, r_Duration = Round durationMin 2,
                                   r_Points = points, r_Polyline = EncodePolyline points,
                                   r_Instructions = instructions\<rparr>\<rparr>)
             (segment_points g (appendPoint [] (node_point (hd nodes))) nodes edges))"

definition slice :: "'a list \<Rightarrow> nat \<Rightarrow> nat \<Rightarrow> 'a list option" where
  "slice xs i j = (if i \<le> j \<and> j \<le> length xs then Some (take (j - i) (drop i xs)) else None)"

definition break_here :: "edge list \<Rightarrow> nat \<Rightarrow> nat \<Rightarrow> bool" where
  "break_here edges segStart i \<longleftrightarrow>
     i = length edges \<or> e_NameIdx (edges ! i) \<noteq> e_NameIdx (edges ! segStart)
     \<or> edgeMode (e_Kind (edges ! i)) \<noteq> edgeMode (e_Kind (edges ! segStart))"

function split_loop ::
  "graph \<Rightarrow> PathResult \<Rightarrow> nat \<Rightarrow> nat \<Rightarrow> MultiModalLeg option list \<Rightarrow> MultiModalLeg option list option" where
  "split_loop g path i segStart legs =
     (if i \<le> length (pr_Edges path)
      then if \<not> break_here (pr_Edges path) segStart i then split_loop g path (i + 1) segStart legs
           else (case (slice (pr_Edges path) segStart i, slice (pr_Nodes path) segStart (i + 1)) of
                   (Some segEdges, Some segNodes) \<Rightarrow>
                     (case buildTransitSegmentLeg g segNodes segEdges of
                        None \<Rightarrow> None
                      | Some leg \<Rightarrow> split_loop g path (i + 1) i (legs @ [leg]))
                 | _ \<Rightarrow> None)
      else Some legs)"
  by pat_completeness auto
termination
  by (relation "measure (\<lambda>(g, path, i, segStart, legs). Suc (length (pr_Edges path)) - i)") auto

declare split_loop.simps [simp del]

definition splitTransitLegs :: "graph \<Rightarrow> PathResult \<Rightarrow> MultiModalLeg option list option" where
  "splitTransitLegs g path =
     (if pr_Edges path = [] \<or> pr_Nodes path = [] then Some [] else split_loop g path 1 0 [])"

text \<open>
  \<open>ComputeTransitRoute\<close>: \<open>warm\<close> gives the transit graph after the cache has been warmed for
  the path.
\<close>

definition walk_leg :: "Route \<Rightarrow> MultiModalLeg option list" where
  "walk_leg r = (if r_Distance r > 0 then [Some \<lparr>leg_Mode = ModeWalking, leg_Route = r\<rparr>] else [])"

definition ComputeTransitRoute ::
  "PathResult sorter \<Rightarrow> node_id list \<Rightarrow> journey_ctx \<Rightarrow> (graph \<Rightarrow> PathResult \<Rightarrow> graph option) \<Rightarrow> Engine \<Rightarrow> point \<Rightarrow> point
   \<Rightarrow> MultiModalLeg option list option" where
  "ComputeTransitRoute sortSlice order ctx warm E start goal =
     (case (eng_transitGraph E, profiles ModePublicTransport) of
        (Some g, Some p) \<Rightarrow>
          (case (NearestRoutableNodeWithin order g (p_Lat start) (p_Lng start) transitSnapKm (Some (edgeAllowed p)),
                 NearestRoutableNodeWithin order g (p_Lat goal) (p_Lng goal) transitSnapKm (Some (edgeAllowed p))) of
             (Some originStop, Some destStop) \<Rightarrow>
               if n_ID originStop = n_ID destStop then Some []
               else (case AStar g (n_ID originStop) (n_ID destStop) (Some (edgeAllowed p)) (edgeSpeed p) of
                       None \<Rightarrow> None
                     | Some (Inl err) \<Rightarrow> Some []
                     | Some (Inr path) \<Rightarrow>
                         if pr_Edges path = [] then Some []
                         else (case (computeWalkLeg sortSlice order (walk1_ctx ctx) E start (node_point originStop),
                                     warm g path) of
                                 (Some walk1, Some g') \<Rightarrow>
                                   (case (splitTransitLegs g' path,
                                          computeWalkLeg sortSlice order (walk2_ctx ctx) E (node_point destStop) goal) of
                                      (Some segs, Some walk2) \<Rightarrow> Some (walk_leg walk1 @ segs @ walk_leg walk2)
                                    | _ \<Rightarrow> None)
                               | _ \<Rightarrow> None))
           | _ \<Rightarrow> Some [])
      | _ \<Rightarrow> Some [])"

section \<open>The pool keeps the cache sound\<close>

abbreviation job_key :: "transitGeomJob \<Rightarrow> EdgeKey" where
  "job_key j \<equiv> (n_ID (j_from j), n_ID (j_to j))"

definition cached_at :: "graph \<Rightarrow> EdgeKey \<Rightarrow> point list option" where
  "cached_at g k = EdgePolyline g (fst k) (snd k)"

lemma cached_at_Set [simp]:
  "cached_at (SetEdgePolyline g u v ps) k = (if k = (u, v) then Some ps else cached_at g k)"
  by (cases k) (simp add: cached_at_def EdgePolyline_SetEdgePolyline)

text \<open>The geometry of an edge: it leads from the one stop to the other.\<close>

definition geometry_ok :: "transitGeomJob \<Rightarrow> point list \<Rightarrow> bool" where
  "geometry_ok j poly \<longleftrightarrow> 2 \<le> length poly
     \<and> (\<exists>via. line_ok (node_point (j_from j)) via (node_point (j_to j)) poly)"

lemma computeUnderlyingPolyline_ok:
  assumes "computeUnderlyingPolyline order ctx j road rail = Some poly"
  shows "poly = [] \<or> geometry_ok j poly"
proof (cases "poly = []")
  case False
  then obtain via where "poly = appendPoint (foldl appendPoint [node_point (j_from j)] via) (node_point (j_to j))"
    "2 \<le> length poly"
    using assms
    by (auto simp: computeUnderlyingPolyline_def Let_def split: option.splits prod.splits sum.splits if_splits)
  then show ?thesis
    using route_line [of "node_point (j_from j)" via "node_point (j_to j)"]
    by (auto simp: geometry_ok_def appendPoint_def)
qed simp

definition pool_inv :: "graph \<Rightarrow> transitGeomJob list \<Rightarrow> pool \<Rightarrow> bool" where
  "pool_inv g js s \<longleftrightarrow>
     (transit s)\<lparr>edgePolylines := None\<rparr> = g\<lparr>edgePolylines := None\<rparr>
     \<and> (\<forall>k p. cached_at g k = Some p \<longrightarrow> cached_at (transit s) k = Some p)
     \<and> (\<forall>k p. cached_at (transit s) k = Some p \<longrightarrow>
          cached_at g k = Some p \<or> (\<exists>j\<in>set js. job_key j = k \<and> geometry_ok j p))
     \<and> set (channel s) \<subseteq> set js \<and> set (looking s) \<subseteq> set js
     \<and> (\<forall>(j, p)\<in>set (storing s). j \<in> set js \<and> geometry_ok j p \<and> cached_at g (job_key j) = None)
     \<and> idle s + length (looking s) + length (storing s) \<le> min 4 (length js)"

inductive_cases pool_stepE: "pool_step order road rail s t"

lemma EdgePolyline_cached: "EdgePolyline g u v = cached_at g (u, v)"
  by (simp add: cached_at_def)

lemma pool_inv_start: "pool_inv g js (start_pool g js)"
  by (simp add: pool_inv_def start_pool_def)

lemma pool_inv_step:
  assumes step: "pool_step order road rail s t" and inv: "pool_inv g js s"
  shows "pool_inv g js t"
  using step
proof (cases rule: pool_step.cases)
  case (receive j js')
  then show ?thesis using inv by (auto simp: pool_inv_def)
next
  case (cancelled j js')
  then show ?thesis using inv by (auto simp: pool_inv_def)
next
  case (cached j)
  have "length (looking s) \<ge> 1" using cached by (cases "looking s") auto
  then show ?thesis
    using inv cached set_remove1_subset [of j "looking s"] by (auto simp: pool_inv_def length_remove1)
next
  case (computed j ctx poly)
  have len: "length (looking s) \<ge> 1" using computed by (cases "looking s") auto
  have "geometry_ok j poly" using computeUnderlyingPolyline_ok [OF computed(4)] computed(5) by auto
  moreover have "cached_at g (job_key j) = None"
    using computed(3) inv unfolding pool_inv_def EdgePolyline_cached by (metis not_None_eq)
  ultimately show ?thesis
    using inv computed len set_remove1_subset [of j "looking s"] by (auto simp: pool_inv_def length_remove1)
next
  case (unavailable j ctx poly)
  have "length (looking s) \<ge> 1" using unavailable by (cases "looking s") auto
  then show ?thesis
    using inv unavailable set_remove1_subset [of j "looking s"] by (auto simp: pool_inv_def length_remove1)
next
  case (stored j poly)
  have len: "length (storing s) \<ge> 1" using stored by (cases "storing s") auto
  have j: "j \<in> set js" "geometry_ok j poly" "cached_at g (job_key j) = None"
    using inv stored by (auto simp: pool_inv_def)
  have "(SetEdgePolyline (transit s) u v poly)\<lparr>edgePolylines := None\<rparr> = (transit s)\<lparr>edgePolylines := None\<rparr>" for u v
    by (simp add: SetEdgePolyline_def Let_def)
  then show ?thesis
    using inv j len set_remove1_subset [of "(j, poly)" "storing s"] unfolding stored(1)
    by (auto simp: pool_inv_def length_remove1 stored(2))
qed

lemma pool_inv_reachable:
  "(pool_step order road rail)\<^sup>*\<^sup>* (start_pool g js) s \<Longrightarrow> pool_inv g js s"
  by (induction rule: rtranclp_induct) (auto intro: pool_inv_start pool_inv_step)

text \<open>Every step uses up work, and while work is left a step can be made.\<close>

definition pool_work :: "pool \<Rightarrow> nat" where
  "pool_work s = 3 * length (channel s) + 2 * length (looking s) + length (storing s)"

lemma remove1_shorter: "x \<in> set xs \<Longrightarrow> Suc (length (remove1 x xs)) = length xs"
  using length_pos_if_in_set [of x xs] by (simp add: length_remove1)

lemma pool_step_work: "pool_step order road rail s t \<Longrightarrow> pool_work t < pool_work s"
  by (cases rule: pool_step.cases, assumption) (auto simp: pool_work_def dest!: remove1_shorter)

definition geometry_returns :: "node_id list \<Rightarrow> graph option \<Rightarrow> graph option \<Rightarrow> bool" where
  "geometry_returns order road rail \<longleftrightarrow> (\<forall>ctx j. computeUnderlyingPolyline order ctx j road rail \<noteq> None)"

lemma geometry_returns_finite:
  assumes "\<And>g. road = Some g \<Longrightarrow> finite (dom (Nodes g))" "\<And>g. rail = Some g \<Longrightarrow> finite (dom (Nodes g))"
  shows "geometry_returns order road rail"
proof -
  have fin: "finite (dom (Nodes g))" if "graphAndProfileFor k road rail = Some (g, p)" for k g p
    using that assms by (cases k) (auto simp: graphAndProfileFor_def split: option.splits)
  have "aStar ctx (profile_query g u v p) \<noteq> None" if "finite (dom (Nodes g))" for ctx g u v p
  proof -
    have "\<exists>r. aStar ctx (profile_query g u v p) = Some r \<and> outcome ctx (profile_query g u v p) False r"
      by (rule aStar_outcome) (use that in auto)
    then show ?thesis by auto
  qed
  then have "\<exists>r. aStar ctx (profile_query g u v p) = Some r" if "graphAndProfileFor k road rail = Some (g, p)" for ctx k g u v p
    using fin [OF that] by blast
  then show ?thesis
    unfolding geometry_returns_def computeUnderlyingPolyline_def Let_def
    by (auto split: option.splits sum.splits) (metis option.distinct(1))
qed

lemma pool_progress:
  assumes "geometry_returns order road rail" "\<not> pool_done s"
  shows "\<exists>t. pool_step order road rail s t"
proof -
  consider (chan) j js where "channel s = j # js" "0 < idle s"
    | (look) j where "j \<in> set (looking s)" | (stor) j p where "(j, p) \<in> set (storing s)"
    using assms(2) by (cases "channel s"; cases "looking s"; cases "storing s") (auto simp: pool_done_def)
  then show ?thesis
  proof cases
    case chan
    then show ?thesis by (blast intro: pool_step.receive)
  next
    case stor
    then show ?thesis by (blast intro: pool_step.stored)
  next
    case look
    obtain poly where "computeUnderlyingPolyline order (\<lambda>_. None) j road rail = Some poly"
      using assms(1) by (auto simp: geometry_returns_def)
    then show ?thesis
      using look by (cases "EdgePolyline (transit s) (n_ID (j_from j)) (n_ID (j_to j)) = None"; cases "2 \<le> length poly")
        (meson not_le pool_step.cached pool_step.computed pool_step.unavailable)+
  qed
qed

lemma pool_ends:
  assumes "geometry_returns order road rail"
  shows "\<exists>t. (pool_step order road rail)\<^sup>*\<^sup>* s t \<and> pool_done t"
proof (induction s rule: measure_induct_rule [where f = pool_work])
  case (less s)
  show ?case
  proof (cases "pool_done s")
    case False
    then obtain s' where "pool_step order road rail s s'" using pool_progress [OF assms] by blast
    with less [OF pool_step_work, of order road rail s'] show ?thesis
      by (meson converse_rtranclp_into_rtranclp)
  qed blast
qed

text \<open>
  C8. However the workers are scheduled and whenever the context is cancelled, warming the
  cache changes nothing of the transit graph but the cache, keeps every cached polyline, adds
  only polylines that lead from the one stop of a pending edge to the other, and never has
  more than four workers.
\<close>

theorem warm_pool_safe:
  assumes "(pool_step order road rail)\<^sup>*\<^sup>* (start_pool g js) s"
  shows "(transit s)\<lparr>edgePolylines := None\<rparr> = g\<lparr>edgePolylines := None\<rparr>
    \<and> (\<forall>u v p. EdgePolyline g u v = Some p \<longrightarrow> EdgePolyline (transit s) u v = Some p)
    \<and> (\<forall>u v p. EdgePolyline (transit s) u v = Some p \<and> EdgePolyline g u v \<noteq> Some p \<longrightarrow>
         (\<exists>j\<in>set js. job_key j = (u, v) \<and> geometry_ok j p))
    \<and> idle s + length (looking s) + length (storing s) \<le> 4"
proof -
  note inv = pool_inv_reachable [OF assms, unfolded pool_inv_def]
  show ?thesis
    unfolding EdgePolyline_cached
  proof (intro conjI allI impI)
    fix u v p
    assume "cached_at (transit s) (u, v) = Some p \<and> cached_at g (u, v) \<noteq> Some p"
    then show "\<exists>j\<in>set js. job_key j = (u, v) \<and> geometry_ok j p" using inv by blast
  qed (use inv in auto)
qed

text \<open>C34. The pool cannot run forever, and from every state of a run it can come to its end.\<close>

theorem warm_pool_ends:
  assumes "\<And>g. road = Some g \<Longrightarrow> finite (dom (Nodes g))" "\<And>g. rail = Some g \<Longrightarrow> finite (dom (Nodes g))"
  shows "wfp (\<lambda>t s. pool_step order road rail s t)
    \<and> (\<exists>t. (pool_step order road rail)\<^sup>*\<^sup>* s t \<and> pool_done t)"
proof
  show "wfp (\<lambda>t s. pool_step order road rail s t)"
    by (rule wfp_if_convertible_to_nat [where f = pool_work]) (rule pool_step_work)
  show "\<exists>t. (pool_step order road rail)\<^sup>*\<^sup>* s t \<and> pool_done t"
    by (rule pool_ends [OF geometry_returns_finite [OF assms]])
qed

text \<open>A pool of one job whose context is cancelled before the worker starts.\<close>

definition one_job :: transitGeomJob where
  "one_job = \<lparr>j_from = \<lparr>n_ID = 1, n_Lat = 35, n_Lng = 51, n_Flags = 0\<rparr>,
              j_to = \<lparr>n_ID = 2, n_Lat = 36, n_Lng = 51, n_Flags = 0\<rparr>, j_kind = HWBusRoute\<rparr>"

theorem warm_pool_safe_witness:
  "idle (start_pool NewGraph [one_job]) + length (looking (start_pool NewGraph [one_job])) \<le> 4"
  using warm_pool_safe [OF rtranclp.rtrancl_refl [of "pool_step [] None None" "start_pool NewGraph [one_job]"]] by simp

theorem warm_pool_ends_witness:
  "\<exists>t. (pool_step [] (Some two_nodes) None)\<^sup>*\<^sup>* (start_pool NewGraph [one_job]) t \<and> pool_done t"
proof -
  have "finite (dom (Nodes g))" if "Some two_nodes = Some g" for g using that by auto
  then show ?thesis using warm_pool_ends [of "Some two_nodes" None "[]" "start_pool NewGraph [one_job]"] by simp
qed


section \<open>Splitting a journey into legs\<close>

definition same_line :: "edge \<Rightarrow> edge \<Rightarrow> bool" where
  "same_line a e \<longleftrightarrow> e_NameIdx e = e_NameIdx a \<and> edgeMode (e_Kind e) = edgeMode (e_Kind a)"

text \<open>The reference: maximal runs of edges of one line, and the nodes each run goes through.\<close>

function line_groups :: "edge list \<Rightarrow> edge list list" where
  "line_groups [] = []"
| "line_groups (e # es) = (e # takeWhile (same_line e) es) # line_groups (dropWhile (same_line e) es)"
  by pat_completeness auto
termination
  by (relation "measure length") (auto simp: length_dropWhile_le le_imp_less_Suc)

fun stops_of :: "node list \<Rightarrow> edge list list \<Rightarrow> (node list \<times> edge list) list" where
  "stops_of ns [] = []"
| "stops_of ns (seg # segs) = (take (length seg + 1) ns, seg) # stops_of (drop (length seg) ns) segs"

lemma concat_line_groups: "concat (line_groups es) = es"
  by (induction es rule: line_groups.induct) auto

lemma line_groups_homogeneous:
  "seg \<in> set (line_groups es) \<Longrightarrow> seg \<noteq> [] \<and> (\<forall>e\<in>set seg. same_line (hd seg) e)"
proof (induction es rule: line_groups.induct)
  case (2 e es)
  have "same_line e e" by (simp add: same_line_def)
  moreover have "\<forall>x\<in>set (takeWhile (same_line e) es). same_line e x" using set_takeWhileD by fast
  ultimately show ?case using 2 by auto
qed simp

definition build_leg :: "graph \<Rightarrow> node list \<times> edge list \<Rightarrow> MultiModalLeg option option" where
  "build_leg g = (\<lambda>(ns, es). buildTransitSegmentLeg g ns es)"

lemma segment_points_Some:
  "length ns = length es + 1 \<Longrightarrow> segment_points g pts ns es \<noteq> None"
proof (induction es arbitrary: ns pts)
  case (Cons e es)
  then obtain a b ns' where ns: "ns = a # b # ns'" by (cases ns; cases "tl ns") auto
  from Cons show ?case by (simp add: ns Let_def)
qed simp

lemma buildTransitSegmentLeg_Some:
  "es \<noteq> [] \<Longrightarrow> length ns = length es + 1 \<Longrightarrow> \<exists>leg. buildTransitSegmentLeg g ns es = Some (Some leg)"
  using segment_points_Some [of ns es g "appendPoint [] (node_point (hd ns))"]
  by (cases es) (auto simp: buildTransitSegmentLeg_def Let_def)

text \<open>The loop scans one run and then starts the next.\<close>

lemma split_scan:
  assumes "\<forall>k. i \<le> k \<and> k < j \<longrightarrow> \<not> break_here (pr_Edges path) st k" "i \<le> j" "j \<le> length (pr_Edges path)"
  shows "split_loop g path i st legs = split_loop g path j st legs"
  using assms
proof (induction "j - i" arbitrary: i)
  case (Suc n)
  then have "i < j" "\<not> break_here (pr_Edges path) st i" by auto
  then have "split_loop g path i st legs = split_loop g path (i + 1) st legs"
    using Suc.prems by (simp add: split_loop.simps [of g path i])
  also have "\<dots> = split_loop g path j st legs" using Suc by auto
  finally show ?case .
qed simp

lemma split_loop_groups:
  assumes shape: "path_shape path" and st: "st < length (pr_Edges path)"
  shows "split_loop g path (st + 1) st legs
    = map_option ((@) legs) (those (map (build_leg g) (stops_of (drop st (pr_Nodes path)) (line_groups (drop st (pr_Edges path))))))"
  using st
proof (induction "length (pr_Edges path) - st" arbitrary: st legs rule: less_induct)
  case less
  let ?E = "pr_Edges path" and ?N = "pr_Nodes path"
  let ?e = "?E ! st" and ?es = "drop (st + 1) ?E"
  have ds: "drop st ?E = ?e # ?es" using less.prems by (simp add: Cons_nth_drop_Suc)
  define k where "k = length (takeWhile (same_line ?e) ?es)"
  define j where "j = st + 1 + k"
  have kl: "k \<le> length ?es" unfolding k_def by (rule length_takeWhile_le)
  then have j: "st + 1 \<le> j" "j \<le> length ?E" using less.prems by (auto simp: j_def)
  have run: "\<not> break_here ?E st i" if "st + 1 \<le> i" "i < j" for i
  proof -
    have "i - (st + 1) < k" using that by (auto simp: j_def)
    then have "same_line ?e (?es ! (i - (st + 1)))"
      unfolding k_def by (metis nth_mem set_takeWhileD takeWhile_nth)
    then show ?thesis using that j by (auto simp: break_here_def same_line_def)
  qed
  have stop: "break_here ?E st j"
  proof (cases "j = length ?E")
    case False
    then have "k < length ?es" using j by (auto simp: j_def)
    then have "\<not> same_line ?e (?es ! k)" unfolding k_def by (rule nth_length_takeWhile)
    moreover have "?es ! k = ?E ! j" using j False by (simp add: j_def)
    ultimately show ?thesis by (auto simp: break_here_def same_line_def)
  qed (simp add: break_here_def)
  have seg: "take (j - st) (drop st ?E) = ?e # takeWhile (same_line ?e) ?es"
    unfolding ds j_def using takeWhile_eq_take [of "same_line ?e" ?es] by (simp add: k_def)
  have rest: "drop j ?E = dropWhile (same_line ?e) ?es"
    unfolding j_def using dropWhile_eq_drop [of "same_line ?e" ?es] by (simp add: k_def add.commute)
  have len: "length (?e # takeWhile (same_line ?e) ?es) = j - st" by (simp add: k_def j_def)
  have slices: "slice ?E st j = Some (?e # takeWhile (same_line ?e) ?es)"
    "slice ?N st (j + 1) = Some (take (j - st + 1) (drop st ?N))"
    using j shape seg by (auto simp: slice_def path_shape_def Suc_diff_le)
  let ?seg = "(take (j - st + 1) (drop st ?N), ?e # takeWhile (same_line ?e) ?es)"
  obtain leg where leg: "build_leg g ?seg = Some (Some leg)"
  proof -
    have "length (take (j - st + 1) (drop st ?N)) = length (?e # takeWhile (same_line ?e) ?es) + 1"
      using len j shape by (simp add: path_shape_def)
    from buildTransitSegmentLeg_Some [OF _ this, of g] obtain leg
      where "buildTransitSegmentLeg g (take (j - st + 1) (drop st ?N)) (?e # takeWhile (same_line ?e) ?es) = Some (Some leg)"
      by blast
    then show thesis by (intro that [of leg]) (simp only: build_leg_def prod.case)
  qed
  have step: "split_loop g path (st + 1) st legs = split_loop g path (j + 1) j (legs @ [Some leg])"
    using split_scan [of "st + 1" j path st g legs] run j stop slices leg
    by (auto simp: split_loop.simps [of g path j] build_leg_def)
  have groups: "stops_of (drop st ?N) (line_groups (drop st ?E))
      = ?seg # stops_of (drop j ?N) (line_groups (drop j ?E))"
    using len j unfolding ds rest by (simp add: add.commute)
  show ?case
  proof (cases "j < length ?E")
    case True
    have "length ?E - j < length ?E - st" using True j by simp
    from less.hyps [OF this True, of "legs @ [Some leg]"] show ?thesis
      unfolding step groups using leg
      by (cases "those (map (build_leg g) (stops_of (drop j ?N) (line_groups (drop j ?E))))") simp_all
  next
    case False
    then have "j = length ?E" using j by simp
    then show ?thesis unfolding step groups using leg by (simp add: split_loop.simps)
  qed
qed

lemma those_build:
  assumes "length ns = length (concat segs) + 1" "\<forall>seg\<in>set segs. seg \<noteq> []"
  shows "\<exists>legs. those (map (build_leg g) (stops_of ns segs)) = Some (map Some legs)
    \<and> list_all2 (\<lambda>x leg. build_leg g x = Some (Some leg)) (stops_of ns segs) legs"
  using assms
proof (induction ns segs rule: stops_of.induct)
  case (2 ns seg segs)
  then obtain legs where legs: "those (map (build_leg g) (stops_of (drop (length seg) ns) segs)) = Some (map Some legs)"
    "list_all2 (\<lambda>x leg. build_leg g x = Some (Some leg)) (stops_of (drop (length seg) ns) segs) legs" by auto
  have "length (take (length seg + 1) ns) = length seg + 1" using "2.prems" by simp
  then obtain leg where "build_leg g (take (length seg + 1) ns, seg) = Some (Some leg)"
    using buildTransitSegmentLeg_Some [of seg "take (length seg + 1) ns" g] "2.prems" by (auto simp: build_leg_def)
  with legs show ?case by (intro exI [of _ "leg # legs"]) simp
qed simp

lemma splitTransitLegs_result:
  assumes "path_shape path"
  shows "\<exists>legs. splitTransitLegs g path = Some (map Some legs)
    \<and> list_all2 (\<lambda>x leg. build_leg g x = Some (Some leg)) (stops_of (pr_Nodes path) (line_groups (pr_Edges path))) legs"
proof (cases "pr_Edges path = []")
  case False
  have "length (pr_Nodes path) = length (concat (line_groups (pr_Edges path))) + 1"
    using assms by (simp add: concat_line_groups path_shape_def)
  from those_build [OF this, of g] line_groups_homogeneous obtain legs where
    "those (map (build_leg g) (stops_of (pr_Nodes path) (line_groups (pr_Edges path)))) = Some (map Some legs)"
    "list_all2 (\<lambda>x leg. build_leg g x = Some (Some leg)) (stops_of (pr_Nodes path) (line_groups (pr_Edges path))) legs"
    by blast
  moreover have "splitTransitLegs g path = split_loop g path (0 + 1) 0 []"
    using False assms by (auto simp: splitTransitLegs_def path_shape_def)
  ultimately show ?thesis
    using split_loop_groups [OF assms, of 0 g "[]"] False by auto
qed (simp add: splitTransitLegs_def)

text \<open>What the leg of one run is.\<close>

definition run_leg :: "graph \<Rightarrow> node list \<times> edge list \<Rightarrow> MultiModalLeg \<Rightarrow> bool" where
  "run_leg g run leg \<longleftrightarrow>
     (case run of (ns, es) \<Rightarrow>
        leg_Mode leg = edgeMode (e_Kind (hd es))
        \<and> r_Distance (leg_Route leg) = Round (path_km es) 3
        \<and> r_Duration (leg_Route leg) = Round (sum_list (map e_TimeHours es) * 60
             + (if leg_Mode leg = ModeWalking then 0 else transitBoardingPenaltyMin)) 2
        \<and> r_Points (leg_Route leg) \<noteq> [] \<and> hd (r_Points (leg_Route leg)) = node_point (hd ns)
        \<and> length (r_Instructions (leg_Route leg)) = length es
        \<and> (\<forall>x\<in>set (r_Instructions (leg_Route leg)). in_StreetName x = NameFor g (e_NameIdx (hd es))))"

lemma hd_appendPoint: "ps \<noteq> [] \<Longrightarrow> hd (appendPoint ps p) = hd ps \<and> appendPoint ps p \<noteq> []"
  by (simp add: appendPoint_def)

lemma hd_foldl_appendPoint: "ps \<noteq> [] \<Longrightarrow> hd (foldl appendPoint ps qs) = hd ps \<and> foldl appendPoint ps qs \<noteq> []"
  by (induction qs arbitrary: ps) (simp_all add: hd_appendPoint)

lemma segment_points_hd:
  "segment_points g pts ns es = Some r \<Longrightarrow> pts \<noteq> [] \<Longrightarrow> r \<noteq> [] \<and> hd r = hd pts"
proof (induction g pts ns es rule: segment_points.induct)
  case (1 g pts a b ns e es)
  let ?pts = "case EdgePolyline g (n_ID a) (n_ID b) of
      Some poly \<Rightarrow> if length poly \<ge> 2 then foldl appendPoint pts (tl poly) else appendPoint pts (node_point b)
    | None \<Rightarrow> appendPoint pts (node_point b)"
  have "hd ?pts = hd pts \<and> ?pts \<noteq> []"
    using "1.prems"(2) by (auto simp: hd_appendPoint hd_foldl_appendPoint split: option.splits)
  with 1 show ?case by (simp add: Let_def)
qed auto

lemma build_leg_run: "build_leg g run = Some (Some leg) \<Longrightarrow> run_leg g run leg"
proof -
  assume b: "build_leg g run = Some (Some leg)"
  obtain ns es where run: "run = (ns, es)" by (cases run)
  from b obtain pts where pts: "segment_points g (appendPoint [] (node_point (hd ns))) ns es = Some pts"
    by (auto simp: build_leg_def run buildTransitSegmentLeg_def split: if_splits)
  have "pts \<noteq> [] \<and> hd pts = node_point (hd ns)"
    using segment_points_hd [OF pts] by (simp add: appendPoint_def)
  with b pts show ?thesis
    by (auto simp: build_leg_def run buildTransitSegmentLeg_def run_leg_def Let_def path_km_def
        transit_instruction_def split: if_splits)
qed

text \<open>
  C9. \<open>splitTransitLegs\<close> is the grouping of the path's edges into maximal runs of one line and
  mode: no index is out of range and no leg is nil; leg by leg, the mode is that of the run,
  the distance and time are the sums over the run (with the boarding penalty on every leg that
  is not walked), the points begin at the run's first stop, and there is one instruction per
  edge naming the line.  The runs put together are the path.
\<close>

theorem splitTransitLegs_groups:
  assumes "path_shape path"
  shows "\<exists>legs. splitTransitLegs g path = Some (map Some legs)
    \<and> list_all2 (run_leg g) (stops_of (pr_Nodes path) (line_groups (pr_Edges path))) legs
    \<and> concat (line_groups (pr_Edges path)) = pr_Edges path
    \<and> (\<forall>seg\<in>set (line_groups (pr_Edges path)). seg \<noteq> [] \<and> (\<forall>e\<in>set seg. same_line (hd seg) e))"
proof -
  obtain legs where legs: "splitTransitLegs g path = Some (map Some legs)"
    "list_all2 (\<lambda>x leg. build_leg g x = Some (Some leg)) (stops_of (pr_Nodes path) (line_groups (pr_Edges path))) legs"
    using splitTransitLegs_result [OF assms] by blast
  from legs(2) have "list_all2 (run_leg g) (stops_of (pr_Nodes path) (line_groups (pr_Edges path))) legs"
    by (rule list_all2_mono) (rule build_leg_run)
  with legs(1) show ?thesis using concat_line_groups line_groups_homogeneous by blast
qed

theorem splitTransitLegs_groups_witness:
  "\<exists>legs. splitTransitLegs NewGraph \<lparr>pr_Nodes = [j_from one_job, j_to one_job], pr_Edges = [synth_edge 1],
      pr_DistanceKm = 0, pr_TimeHours = 0\<rparr> = Some (map Some legs)"
proof -
  have "path_shape \<lparr>pr_Nodes = [j_from one_job, j_to one_job], pr_Edges = [synth_edge 1],
      pr_DistanceKm = 0, pr_TimeHours = 0\<rparr>" by (simp add: path_shape_def)
  from splitTransitLegs_groups [OF this] show ?thesis by blast
qed


section \<open>Train journeys\<close>

definition joins :: "point \<Rightarrow> point \<Rightarrow> Route \<Rightarrow> bool" where
  "joins a b r \<longleftrightarrow> r_Points r \<noteq> [] \<and> hd (r_Points r) = a \<and> same_place (last (r_Points r)) b
     \<and> r_Polyline r = EncodePolyline (r_Points r)"

lemma joins_haversine: "joins a b (haversineRoute E a b mode)"
  by (simp add: joins_def haversineRoute_def Let_def)

lemma joins_route_ok: "route_ok E Q a b mode path r \<Longrightarrow> joins a b r"
  by (auto simp: route_ok_def joins_def line_ok_def)

lemma walking_profile: "\<exists>p. profiles ModeWalking = Some p"
  by (simp add: profiles_def mode_defs)

definition walk_ready :: "Engine \<Rightarrow> bool" where
  "walk_ready E \<longleftrightarrow> (\<forall>g p. eng_graph E = Some g \<and> profiles ModeWalking = Some p \<longrightarrow> route_ready g p)"

lemma computeWalkLeg_joins:
  assumes "walk_ready E" "sort_law sortSlice"
  shows "\<exists>r. computeWalkLeg sortSlice order ctx E start goal = Some r \<and> joins start goal r"
proof (cases "eng_graph E")
  case None
  then show ?thesis by (simp add: computeWalkLeg_def joins_haversine)
next
  case (Some g)
  obtain p where p: "profiles ModeWalking = Some p" using walking_profile by blast
  have "route_ready g p" using assms(1) Some p by (simp add: walk_ready_def)
  from graphRoutesCtx_ok [OF p this assms(2), of order ctx E start goal 1] obtain rs where
    rs: "graphRoutesCtx sortSlice order ctx E g start goal ModeWalking 1 = Some rs"
    "rs = [] \<or> routes_ok E g p start goal ModeWalking 1 rs" by blast
  show ?thesis
  proof (cases rs)
    case Nil
    then show ?thesis using Some rs(1) by (simp add: computeWalkLeg_def joins_haversine)
  next
    case (Cons r rs')
    with rs(2) have "routes_ok E g p start goal ModeWalking 1 (r # rs')" by simp
    then obtain Q path where "route_ok E Q start goal ModeWalking path r"
      by (auto simp: routes_ok_def list_all2_Cons2)
    then show ?thesis using Some rs(1) Cons joins_route_ok by (simp add: computeWalkLeg_def)
  qed
qed

lemma computeRailLeg_joins:
  assumes "route_ready rail p" "sort_law sortSlice"
  shows "\<exists>r. computeRailLeg sortSlice ctxs E rail p s t = Some r \<and> joins (node_point s) (node_point t) r"
proof -
  let ?Q = "profile_query rail (n_ID s) (n_ID t) p"
  have "yen_ready ?Q" using assms(1) by (simp add: route_ready_def)
  from KFastestPaths_result [OF this assms(2), of ctxs 1 "yenSpurCap E"] obtain r where
    r: "KFastestPaths sortSlice ctxs ?Q 1 (yenSpurCap E) = Some r"
    "case r of Inl err \<Rightarrow> biAStar (ctxs 0) ?Q = Some (Inl err)
     | Inr ps \<Rightarrow> biAStar (ctxs 0) ?Q = Some (Inr (hd ps)) \<and> yen_result ?Q (nat (max 1 1)) ps" by blast
  show ?thesis
  proof (cases r)
    case (Inl err)
    then show ?thesis using r(1) by (simp add: computeRailLeg_def joins_haversine)
  next
    case (Inr ps)
    with r(2) obtain path ps' where ps: "ps = path # ps'" "path_ok ?Q path"
      by (cases ps) (auto simp: yen_result_def)
    obtain rt where "pathToRouteWithNameResolver E path (node_point s) (node_point t) ModeTrain (NameFor rail) = Some rt"
      "route_ok E ?Q (node_point s) (node_point t) ModeTrain path rt"
      using pathToRoute_ok [OF ps(2)] by blast
    then show ?thesis using r(1) Inr ps(1) joins_route_ok by (simp add: computeRailLeg_def)
  qed
qed

text \<open>Between stations that no rail path joins the ride is a straight line.\<close>

lemma computeRailLeg_no_path:
  assumes "route_ready rail p" "sort_law sortSlice" "\<nexists>path. path_ok (profile_query rail (n_ID s) (n_ID t) p) path"
  shows "computeRailLeg sortSlice ctxs E rail p s t = Some (haversineRoute E (node_point s) (node_point t) ModeTrain)"
proof -
  let ?Q = "profile_query rail (n_ID s) (n_ID t) p"
  have "yen_ready ?Q" using assms(1) by (simp add: route_ready_def)
  from KFastestPaths_result [OF this assms(2), of ctxs 1 "yenSpurCap E"] obtain r where
    r: "KFastestPaths sortSlice ctxs ?Q 1 (yenSpurCap E) = Some r"
    "case r of Inl err \<Rightarrow> biAStar (ctxs 0) ?Q = Some (Inl err)
     | Inr ps \<Rightarrow> biAStar (ctxs 0) ?Q = Some (Inr (hd ps)) \<and> yen_result ?Q (nat (max 1 1)) ps" by blast
  have "\<exists>err. r = Inl err"
    using r(2) assms(3) by (cases r) (auto simp: yen_result_def dest!: hd_in_set)
  with r(1) show ?thesis by (auto simp: computeRailLeg_def)
qed

definition train_journey :: "point \<Rightarrow> point \<Rightarrow> node \<Rightarrow> node \<Rightarrow> MultiModalLeg list \<Rightarrow> bool" where
  "train_journey start goal s t legs \<longleftrightarrow>
     (\<exists>r1 r2 r3. legs = [\<lparr>leg_Mode = ModeWalking, leg_Route = r1\<rparr>, \<lparr>leg_Mode = ModeTrain, leg_Route = r2\<rparr>,
          \<lparr>leg_Mode = ModeWalking, leg_Route = r3\<rparr>]
        \<and> joins start (node_point s) r1 \<and> joins (node_point s) (node_point t) r2 \<and> joins (node_point t) goal r3)"

definition station :: "graph \<Rightarrow> modeProfile \<Rightarrow> point \<Rightarrow> node option \<Rightarrow> bool" where
  "station rail p q r \<longleftrightarrow> snap_spec rail (p_Lat q) (p_Lng q) railSnapKm (Some (edgeAllowed p)) r"

text \<open>
  C10. With a rail graph a train journey is empty exactly when an end point has no station
  within 50 km or both have the same one; otherwise it walks to the nearest station, rides to
  the station nearest the goal and walks on, each leg starting where the one before it ends,
  whatever the searches answer.  When no rail path joins the two stations the journey is
  not empty either: the ride is the straight-line estimate at the speed of a train.
\<close>

theorem ComputeTrainRoute_journey:
  assumes "eng_railGraph E = Some rail" "profiles ModeTrain = Some p" "route_ready rail p" "walk_ready E"
    and "sort_law sortSlice"
  shows "\<exists>legs os ot. ComputeTrainRoute sortSlice order ctx E start goal = Some legs
    \<and> station rail p start os \<and> station rail p goal ot
    \<and> (case (os, ot) of
         (Some s, Some t) \<Rightarrow>
           if n_ID s = n_ID t then legs = []
           else train_journey start goal s t legs
             \<and> ((\<nexists>path. path_ok (profile_query rail (n_ID s) (n_ID t) p) path)
                 \<longrightarrow> leg_Route (legs ! 1) = haversineRoute E (node_point s) (node_point t) ModeTrain)
       | _ \<Rightarrow> legs = [])"
proof -
  let ?near = "\<lambda>q. NearestRoutableNodeWithin order rail (p_Lat q) (p_Lng q) railSnapKm (Some (edgeAllowed p))"
  have st: "station rail p q (?near q)" for q
    using nearestNodeWithin_snap [of railSnapKm rail] assms(3)
    by (simp add: station_def NearestRoutableNodeWithin_def railSnapKm_def route_ready_def)
  show ?thesis
  proof (cases "?near start"; cases "?near goal")
    fix s t
    assume s: "?near start = Some s" and t: "?near goal = Some t"
    obtain r2 where r2: "computeRailLeg sortSlice (rail_ctx ctx) E rail p s t = Some r2" "joins (node_point s) (node_point t) r2"
      using computeRailLeg_joins [OF assms(3,5)] by blast
    obtain r1 where r1: "computeWalkLeg sortSlice order (walk1_ctx ctx) E start (node_point s) = Some r1" "joins start (node_point s) r1"
      using computeWalkLeg_joins [OF assms(4,5)] by blast
    obtain r3 where r3: "computeWalkLeg sortSlice order (walk2_ctx ctx) E (node_point t) goal = Some r3" "joins (node_point t) goal r3"
      using computeWalkLeg_joins [OF assms(4,5)] by blast
    show ?thesis
    proof (cases "n_ID s = n_ID t")
      case True
      then show ?thesis
        using assms(1,2) s t st [of start] st [of goal] by (intro exI [of _ "[]"] exI [of _ "Some s"] exI [of _ "Some t"])
          (simp add: ComputeTrainRoute_def)
    next
      case False
      let ?legs = "[\<lparr>leg_Mode = ModeWalking, leg_Route = r1\<rparr>, \<lparr>leg_Mode = ModeTrain, leg_Route = r2\<rparr>,
          \<lparr>leg_Mode = ModeWalking, leg_Route = r3\<rparr>]"
      have "train_journey start goal s t ?legs" using r1 r2 r3 by (auto simp: train_journey_def)
      moreover have "r2 = haversineRoute E (node_point s) (node_point t) ModeTrain"
        if "\<nexists>path. path_ok (profile_query rail (n_ID s) (n_ID t) p) path"
        using computeRailLeg_no_path [OF assms(3,5) that] r2(1) by simp
      ultimately show ?thesis
        using False assms(1,2) s t st [of start] st [of goal] r1(1) r2(1) r3(1)
        by (intro exI [of _ ?legs] exI [of _ "Some s"] exI [of _ "Some t"]) (simp add: ComputeTrainRoute_def)
    qed
  qed (use assms(1,2) st [of start] st [of goal] in
        \<open>intro exI [of _ "[]"] exI [of _ "?near start"] exI [of _ "?near goal"], simp add: ComputeTrainRoute_def\<close>)+
qed

definition train_profile :: modeProfile where
  "train_profile = \<lparr>edgeAllowed = (\<lambda>e. Has (e_Flags e) FlagTrain), edgeSpeed = Some trainSpeed,
     fallbackSpeedKmH = 80, heuristicSpeedKmH = 200\<rparr>"

text \<open>A track of one direction: trains run from 2 to 1, a degree further south, and not back.\<close>

definition one_track :: graph where
  "one_track =
     AddEdge (AddNode (AddNode NewGraph \<lparr>n_ID = 1, n_Lat = 35, n_Lng = 51, n_Flags = 0\<rparr>)
                      \<lparr>n_ID = 2, n_Lat = 36, n_Lng = 51, n_Flags = 0\<rparr>)
       2 \<lparr>e_To = 1, e_DistanceKm = 120, e_SpeedKmH = 120, e_TimeHours = 1, e_Kind = HWRail, e_Flags = FlagTrain, e_NameIdx = 0\<rparr>"

lemma one_track_simps [simp]:
  "Edges one_track u = (if u = 2 then [\<lparr>e_To = 1, e_DistanceKm = 120, e_SpeedKmH = 120, e_TimeHours = 1,
          e_Kind = HWRail, e_Flags = FlagTrain, e_NameIdx = 0\<rparr>] else [])"
  "Nodes one_track v = (if v = 1 then Some \<lparr>n_ID = 1, n_Lat = 35, n_Lng = 51, n_Flags = FlagTrain\<rparr>
     else if v = 2 then Some \<lparr>n_ID = 2, n_Lat = 36, n_Lng = 51, n_Flags = FlagTrain\<rparr> else None)"
  by (auto simp: one_track_def AddEdge_def or_flags_def NewGraph_def)

lemma one_track_ready: "route_ready one_track train_profile"
proof -
  have time: "edgeTravelTimeHours e (edgeSpeed train_profile) = 1" if "e \<in> set (Edges one_track u)" for e u
    using that by (auto simp: edgeTravelTimeHours_def train_profile_def trainSpeed_def split: if_splits)
  have walks: "path_time (profile_query one_track s t train_profile) es < maxFloat64 / 2"
    if w: "walk (profile_query one_track s t train_profile) u es v" for s t u es v
  proof -
    have "length es \<le> 1"
      using w by (cases es; cases "tl es") (auto simp: usable_def split: if_splits)
    moreover have "\<forall>e\<in>set es. edgeTravelTimeHours e (edgeSpeed train_profile) = 1"
    proof
      fix e assume "e \<in> set es"
      with walk_edge [OF w] obtain x where "usable (profile_query one_track s t train_profile) x e" by blast
      then show "edgeTravelTimeHours e (edgeSpeed train_profile) = 1" using time [of e x] by (simp add: usable_def)
    qed
    ultimately have "path_time (profile_query one_track s t train_profile) es \<le> 1"
      by (cases es) (auto simp: path_time_def)
    also have "\<dots> < maxFloat64 / 2"
    proof -
      have "(4::real) \<le> 2 ^ 1023" by simp
      with maxFloat64_ge show ?thesis by linarith
    qed
    finally show ?thesis .
  qed
  have "rev_ok one_track" by (auto simp: one_track_def rev_ok_def AddEdge_def NewGraph_def)
  moreover have "keys_ok one_track" by (simp add: keys_ok_def)
  moreover have "finite (dom (Nodes one_track))" by (rule finite_subset [of _ "{1, 2}"]) (auto simp: dom_def)
  moreover have "grid one_track (cellFor 35 51) \<noteq> None"
    by (simp add: one_track_def AddEdge_def AddNode_def NewGraph_def Let_def)
  then have "grid one_track \<noteq> Map.empty" by metis
  moreover have "0 < edgeTravelTimeHours e (edgeSpeed train_profile)" if "e \<in> set (Edges one_track u)" for e u
    using time [OF that] by simp
  moreover have "0 \<le> v" if "v \<in> dom (Nodes one_track)" for v using that by (auto simp: dom_def split: if_splits)
  ultimately show ?thesis
    using walks
    by (auto simp: route_ready_def yen_ready_def search_ready_def times_bounded_def unblocked_def profile_query_def
        simp del: one_track_simps)
qed

lemma one_track_cells: "cellFor 35 51 = (1750, 2550)" "cellFor 36 51 = (1800, 2550)" "scan_radius railSnapKm = 24"
  by (simp_all add: cellFor_def gridCellSizeDeg_def scan_radius_def railSnapKm_def floor_eq_iff ceiling_eq_iff Let_def)

lemma one_track_grid:
  "grid_at one_track k = (if k = (1750, 2550) then [\<lparr>n_ID = 1, n_Lat = 35, n_Lng = 51, n_Flags = 0\<rparr>]
     else if k = (1800, 2550) then [\<lparr>n_ID = 2, n_Lat = 36, n_Lng = 51, n_Flags = 0\<rparr>] else [])"
  by (simp add: one_track_def AddEdge_def AddNode_def NewGraph_def grid_at_def Let_def one_track_cells)

lemma one_track_routable: "nodeRoutable one_track 1 (Some (edgeAllowed train_profile))" "nodeRoutable one_track 2 (Some (edgeAllowed train_profile))"
  by (simp_all add: nodeRoutable_def train_profile_def synth_edge_def Has_def flag_defs)

lemma one_track_station:
  assumes "station one_track train_profile \<lparr>p_Lat = lat, p_Lng = 51\<rparr> r" "lat = 35 \<and> i = 1 \<or> lat = 36 \<and> i = 2"
  shows "r = Some \<lparr>n_ID = i, n_Lat = lat, n_Lng = 51, n_Flags = 0\<rparr>"
proof -
  let ?n = "\<lparr>n_ID = i, n_Lat = lat, n_Lng = 51, n_Flags = 0\<rparr>"
  have only: "m = ?n" if m: "m \<in> set (scanned one_track (cellFor lat 51) 24)" for m
  proof -
    from m obtain di dj where d: "\<bar>di\<bar> \<le> 24" "m \<in> set (grid_at one_track (fst (cellFor lat 51) + di, snd (cellFor lat 51) + dj))"
      unfolding set_scanned by blast
    from assms(2) show ?thesis
    proof
      assume c: "lat = 35 \<and> i = 1"
      with d have "\<bar>di\<bar> \<le> 24" "m \<in> set (grid_at one_track (1750 + di, 2550 + dj))" by (simp_all add: one_track_cells)
      with c show ?thesis unfolding one_track_grid by (simp split: if_split_asm)
    next
      assume c: "lat = 36 \<and> i = 2"
      with d have "\<bar>di\<bar> \<le> 24" "m \<in> set (grid_at one_track (1800 + di, 2550 + dj))" by (simp_all add: one_track_cells)
      with c show ?thesis unfolding one_track_grid by (simp split: if_split_asm)
    qed
  qed
  have "?n \<in> set (grid_at one_track (cellFor lat 51))" using assms(2) by (auto simp: one_track_grid one_track_cells)
  then have "?n \<in> set (scanned one_track (cellFor lat 51) 24)" by (rule scanned_cell) simp_all
  moreover have "nodeRoutable one_track i (Some (edgeAllowed train_profile))" using assms(2) one_track_routable by auto
  ultimately have here: "?n \<in> {n \<in> set (scanned one_track (cellFor lat 51) 24). nodeRoutable one_track (n_ID n) (Some (edgeAllowed train_profile))}"
    by simp
  have spec: "snap_spec one_track lat 51 railSnapKm (Some (edgeAllowed train_profile)) r"
    using assms(1) by (simp add: station_def)
  show ?thesis
  proof (cases r)
    case None
    with spec have "\<forall>n\<in>{n \<in> set (scanned one_track (cellFor lat 51) 24). nodeRoutable one_track (n_ID n) (Some (edgeAllowed train_profile))}.
        railSnapKm < Haversine lat 51 (n_Lat n) (n_Lng n)"
      unfolding snap_spec_def one_track_cells(3) Let_def by (simp only: option.case)
    from bspec [OF this here] have "railSnapKm < Haversine lat 51 (n_Lat ?n) (n_Lng ?n)" .
    then show ?thesis by (simp add: railSnapKm_def)
  next
    case (Some m)
    with spec have "m \<in> set (scanned one_track (cellFor lat 51) 24)"
      unfolding snap_spec_def one_track_cells(3) Let_def by simp
    with Some only show ?thesis by simp
  qed
qed

theorem ComputeTrainRoute_journey_witness:
  "\<exists>legs. ComputeTrainRoute insertion_sort [] \<lparr>rail_ctx = (\<lambda>_ _. None), walk1_ctx = background, walk2_ctx = background\<rparr>
      (SetRailGraph (NewEngineWithGraph 40 None 60) (Some one_track)) \<lparr>p_Lat = 35, p_Lng = 51\<rparr> \<lparr>p_Lat = 36, p_Lng = 51\<rparr> = Some legs
    \<and> length legs = 3 \<and> leg_Route (legs ! 1) = haversineRoute (SetRailGraph (NewEngineWithGraph 40 None 60) (Some one_track))
        \<lparr>p_Lat = 35, p_Lng = 51\<rparr> \<lparr>p_Lat = 36, p_Lng = 51\<rparr> ModeTrain"
proof -
  let ?E = "SetRailGraph (NewEngineWithGraph 40 None 60) (Some one_track)"
  have E: "eng_railGraph ?E = Some one_track" "walk_ready ?E"
    by (simp_all add: SetRailGraph_def NewEngineWithGraph_def walk_ready_def)
  have p: "profiles ModeTrain = Some train_profile" by (simp add: profiles_def train_profile_def mode_defs)
  have no_path: "\<nexists>path. path_ok (profile_query one_track 1 2 train_profile) path"
  proof
    assume "\<exists>path. path_ok (profile_query one_track 1 2 train_profile) path"
    then obtain es where "walk (profile_query one_track 1 2 train_profile) 1 es 2" by (auto simp: path_ok_defs)
    then show False by (cases es) (auto simp: usable_def)
  qed
  from ComputeTrainRoute_journey [OF E(1) p one_track_ready E(2) sort_law_insertion, of "[]"
      "\<lparr>rail_ctx = (\<lambda>_ _. None), walk1_ctx = background, walk2_ctx = background\<rparr>"
      "\<lparr>p_Lat = 35, p_Lng = 51\<rparr>" "\<lparr>p_Lat = 36, p_Lng = 51\<rparr>"] obtain legs os ot where
    r: "ComputeTrainRoute insertion_sort [] \<lparr>rail_ctx = (\<lambda>_ _. None), walk1_ctx = background, walk2_ctx = background\<rparr>
      ?E \<lparr>p_Lat = 35, p_Lng = 51\<rparr> \<lparr>p_Lat = 36, p_Lng = 51\<rparr> = Some legs"
    and st: "station one_track train_profile \<lparr>p_Lat = 35, p_Lng = 51\<rparr> os" "station one_track train_profile \<lparr>p_Lat = 36, p_Lng = 51\<rparr> ot"
    and legs: "case (os, ot) of (Some s, Some t) \<Rightarrow>
           if n_ID s = n_ID t then legs = []
           else train_journey \<lparr>p_Lat = 35, p_Lng = 51\<rparr> \<lparr>p_Lat = 36, p_Lng = 51\<rparr> s t legs
             \<and> ((\<nexists>path. path_ok (profile_query one_track (n_ID s) (n_ID t) train_profile) path)
                 \<longrightarrow> leg_Route (legs ! 1) = haversineRoute ?E (node_point s) (node_point t) ModeTrain)
       | _ \<Rightarrow> legs = []" by blast
  have "os = Some \<lparr>n_ID = 1, n_Lat = 35, n_Lng = 51, n_Flags = 0\<rparr>" "ot = Some \<lparr>n_ID = 2, n_Lat = 36, n_Lng = 51, n_Flags = 0\<rparr>"
    using one_track_station [OF st(1)] one_track_station [OF st(2)] by simp_all
  with legs no_path have "train_journey \<lparr>p_Lat = 35, p_Lng = 51\<rparr> \<lparr>p_Lat = 36, p_Lng = 51\<rparr>
        \<lparr>n_ID = 1, n_Lat = 35, n_Lng = 51, n_Flags = 0\<rparr> \<lparr>n_ID = 2, n_Lat = 36, n_Lng = 51, n_Flags = 0\<rparr> legs"
      "leg_Route (legs ! 1) = haversineRoute ?E \<lparr>p_Lat = 35, p_Lng = 51\<rparr> \<lparr>p_Lat = 36, p_Lng = 51\<rparr> ModeTrain"
    by (simp_all add: node_point_def)
  with r show ?thesis by (auto simp: train_journey_def)
qed

end
