(* ===== verification/GoText.thy ===== *)
theory GoText
  imports GoStd
begin

text \<open>
  Text functions of Go's standard library used by the route services: \<open>strings.Contains\<close>,
  \<open>strings.ReplaceAll\<close> of one byte, \<open>strconv.Quote\<close>, and \<open>fmt\<close>'s \<open>%.<p>f\<close>, which rounds the
  exact value to \<open>p\<close> decimals, ties to even.  The lemmas show that \<open>%.<p>f\<close> determines the
  sign and the rounded value, which makes it usable inside a cache key.
\<close>

section \<open>Strings\<close>

fun has_prefix :: "string \<Rightarrow> string \<Rightarrow> bool" where
  "has_prefix [] s = True"
| "has_prefix (c # p) [] = False"
| "has_prefix (c # p) (d # s) = (c = d \<and> has_prefix p s)"

fun Contains :: "string \<Rightarrow> string \<Rightarrow> bool" where
  "Contains [] sub = (sub = [])"
| "Contains (c # s) sub = (has_prefix sub (c # s) \<or> Contains s sub)"

lemma has_prefix_iff: "has_prefix p s \<longleftrightarrow> (\<exists>t. s = p @ t)"
  by (induction p s rule: has_prefix.induct) auto

lemma Contains_iff: "Contains s sub \<longleftrightarrow> (\<exists>a b. s = a @ sub @ b)"
proof (induction s)
  case (Cons c s)
  have "(\<exists>a b. c # s = a @ sub @ b) \<longleftrightarrow> (\<exists>b. c # s = sub @ b) \<or> (\<exists>a b. s = a @ sub @ b)"
    by (metis append_Cons append_Nil list.inject neq_Nil_conv)
  with Cons.IH show ?case by (simp add: has_prefix_iff)
qed auto

definition replace_byte :: "char \<Rightarrow> char \<Rightarrow> string \<Rightarrow> string" where
  "replace_byte a b s = map (\<lambda>c. if c = a then b else c) s"

text \<open>
  \<open>%q\<close> of a string: printable ASCII is kept, the quote and the backslash are escaped, control
  characters get their escape.  Bytes of valid multi-byte characters are kept.
\<close>

definition hex_digit :: "nat \<Rightarrow> char" where
  "hex_digit d = char_of (if d < 10 then 48 + d else 87 + d)"

definition quote_char :: "char \<Rightarrow> string" where
  "quote_char c =
     (let n = (of_char c :: nat) in
      if n = 34 \<or> n = 92 then [CHR 0x5C, c]
      else if n = 7 then [CHR 0x5C, CHR ''a''] else if n = 8 then [CHR 0x5C, CHR ''b'']
      else if n = 9 then [CHR 0x5C, CHR ''t''] else if n = 10 then [CHR 0x5C, CHR ''n'']
      else if n = 11 then [CHR 0x5C, CHR ''v''] else if n = 12 then [CHR 0x5C, CHR ''f'']
      else if n = 13 then [CHR 0x5C, CHR ''r'']
      else if n < 32 \<or> n = 127 then [CHR 0x5C, CHR ''x'', hex_digit (n div 16), hex_digit (n mod 16)]
      else [c])"

definition Quote :: "string \<Rightarrow> string" where
  "Quote s = [CHR 0x22] @ concat (map quote_char s) @ [CHR 0x22]"

section \<open>Fixed-point numbers\<close>

definition round_even :: "float64 \<Rightarrow> int" where
  "round_even y =
     (let f = \<lfloor>y\<rfloor>; r = y - of_int f in
      if r < 1 / 2 then f else if r > 1 / 2 then f + 1 else if even f then f else f + 1)"

definition pad_zeros :: "nat \<Rightarrow> string \<Rightarrow> string" where
  "pad_zeros p s = replicate (p - length s) (CHR ''0'') @ s"

text \<open>The number of units of the last decimal that \<open>%.<p>f\<close> prints.\<close>

definition fixed_units :: "nat \<Rightarrow> float64 \<Rightarrow> nat" where
  "fixed_units p x = nat (round_even (\<bar>x\<bar> * 10 ^ p))"

definition FormatFixed :: "nat \<Rightarrow> float64 \<Rightarrow> string" where
  "FormatFixed p x =
     (let n = fixed_units p x in
      (if x < 0 then ''-'' else []) @ nat_text (n div 10 ^ p)
      @ (if p = 0 then [] else CHR ''.'' # pad_zeros p (nat_text (n mod 10 ^ p))))"

lemma round_even_bounds: "\<bar>of_int (round_even y) - y\<bar> \<le> 1 / 2"
proof -
  have "of_int \<lfloor>y\<rfloor> \<le> y" "y < of_int \<lfloor>y\<rfloor> + 1" by linarith+
  then show ?thesis by (auto simp: round_even_def Let_def abs_le_iff)
qed

lemma round_even_of_int [simp]: "round_even (of_int n) = n"
  by (simp add: round_even_def)

lemma round_even_nonneg: "0 \<le> y \<Longrightarrow> 0 \<le> round_even y"
  by (simp add: round_even_def Let_def)

lemma fixed_units_bounds: "\<bar>of_nat (fixed_units p x) - \<bar>x\<bar> * 10 ^ p\<bar> \<le> 1 / 2"
  using round_even_bounds [of "\<bar>x\<bar> * 10 ^ p"] round_even_nonneg [of "\<bar>x\<bar> * 10 ^ p"]
  by (simp add: fixed_units_def)

lemma text_nat_zeros: "text_nat (replicate k (CHR ''0'') @ s) = text_nat s"
proof -
  have "foldl (\<lambda>a c. 10 * a + (of_char c - 48)) 0 (replicate k (CHR ''0'')) = (0 :: nat)"
    by (induction k) simp_all
  then show ?thesis by (simp add: text_nat_def)
qed

lemma pad_zeros_inj: "pad_zeros p (nat_text a) = pad_zeros p (nat_text b) \<Longrightarrow> a = b"
  by (metis pad_zeros_def text_nat_text text_nat_zeros)

lemma nat_text_no: "\<not> is_digit c \<Longrightarrow> c \<notin> set (nat_text n)"
  using nat_text_digits [of n] by (auto simp: list_all_iff)

lemma is_digit_signs [simp]:
  "\<not> is_digit (CHR ''-'')" "\<not> is_digit (CHR ''.'')" "\<not> is_digit (CHR '':'')" "is_digit (CHR ''0'')"
  by (simp_all add: is_digit_def)

lemma append_sep_inj:
  assumes "a @ c # u = b @ c # v" and "c \<notin> set a" and "c \<notin> set b"
  shows "a = b \<and> u = v"
  using assms by (induction a arbitrary: b) (auto simp: Cons_eq_append_conv append_eq_Cons_conv)

lemma FormatFixed_inj:
  assumes "FormatFixed p x = FormatFixed p y"
  shows "fixed_units p x = fixed_units p y \<and> (x < 0 \<longleftrightarrow> y < 0)"
proof -
  let ?b = "\<lambda>x. nat_text (fixed_units p x div 10 ^ p)
    @ (if p = 0 then [] else CHR ''.'' # pad_zeros p (nat_text (fixed_units p x mod 10 ^ p)))"
  have nom: "?b z \<noteq> CHR ''-'' # s" for z s
    using nat_text_digits [of "fixed_units p z div 10 ^ p"] by (cases "nat_text (fixed_units p z div 10 ^ p)") auto
  have eq: "(if x < 0 then CHR ''-'' # ?b x else ?b x) = (if y < 0 then CHR ''-'' # ?b y else ?b y)"
    using assms by (simp add: FormatFixed_def Let_def split: if_splits)
  have sign: "x < 0 \<longleftrightarrow> y < 0" using eq nom nom [symmetric] by (auto split: if_splits)
  with eq have b: "?b x = ?b y" by (auto split: if_splits)
  have "fixed_units p x = fixed_units p y"
  proof (cases "p = 0")
    case True
    with b show ?thesis by (simp add: nat_text_inj)
  next
    case False
    with b have "nat_text (fixed_units p x div 10 ^ p) @ CHR ''.'' # pad_zeros p (nat_text (fixed_units p x mod 10 ^ p))
        = nat_text (fixed_units p y div 10 ^ p) @ CHR ''.'' # pad_zeros p (nat_text (fixed_units p y mod 10 ^ p))"
      by simp
    from append_sep_inj [OF this] have "fixed_units p x div 10 ^ p = fixed_units p y div 10 ^ p"
        and "fixed_units p x mod 10 ^ p = fixed_units p y mod 10 ^ p"
      by (auto simp: nat_text_no dest: nat_text_inj pad_zeros_inj)
    then show ?thesis by (metis div_mult_mod_eq)
  qed
  with sign show ?thesis by blast
qed

lemma FormatFixed_no_colon: "CHR '':'' \<notin> set (FormatFixed p x)"
  by (auto simp: FormatFixed_def Let_def pad_zeros_def nat_text_no)

text \<open>Two numbers printed alike differ by at most one unit of the last decimal.\<close>

lemma FormatFixed_close:
  assumes "FormatFixed p x = FormatFixed p y"
  shows "\<bar>x - y\<bar> \<le> 1 / 10 ^ p"
proof -
  have u: "fixed_units p x = fixed_units p y" and s: "x < 0 \<longleftrightarrow> y < 0"
    using FormatFixed_inj [OF assms] by auto
  have "\<bar>\<bar>x\<bar> * 10 ^ p - \<bar>y\<bar> * 10 ^ p\<bar> \<le> 1"
    using fixed_units_bounds [of p x] fixed_units_bounds [of p y] u by linarith
  moreover have "\<bar>\<bar>x\<bar> * 10 ^ p - \<bar>y\<bar> * 10 ^ p\<bar> = \<bar>x - y\<bar> * 10 ^ p"
  proof -
    have "\<bar>\<bar>x\<bar> - \<bar>y\<bar>\<bar> = \<bar>x - y\<bar>" using s by linarith
    then show ?thesis by (simp add: abs_mult left_diff_distrib [symmetric])
  qed
  ultimately show ?thesis by (simp add: field_simps)
qed

lemma FormatFixed_eq: "fixed_units p x = fixed_units p y \<Longrightarrow> (x < 0 \<longleftrightarrow> y < 0) \<Longrightarrow> FormatFixed p x = FormatFixed p y"
  by (simp add: FormatFixed_def)

end
