(* ===== verification/RouteModel.thy ===== *)
theory RouteModel
  imports Multimodal GoText
begin

text \<open>
  The API model of \<open>internal/route\<close> (\<open>model.go\<close>), the routing errors and their HTTP form
  (\<open>errors.go\<close>, \<open>mapServiceError\<close> of \<open>http_helpers.go\<close>, \<open>classifyRouteError\<close> of
  \<open>backend.go\<close>) and the builders that turn routes and journeys into responses
  (\<open>buildRouteResponse\<close>, \<open>buildMultiModalResponse\<close>, \<open>routeInstructions\<close> of \<open>service.go\<close>).

  A Go error is its text together with the one sentinel error it wraps, if any, which is
  all that \<open>errors.Is\<close> can see of it.  A nil slice and an empty slice are both the empty list.
\<close>

section \<open>Requests and responses\<close>

record RouteRequest =
  rq_TripID :: int
  rq_Start :: point
  rq_End :: point
  rq_Mode :: string
  rq_VehicleType :: string
  rq_Alternatives :: int

record RouteInstruction =
  ri_Index :: nat
  ri_Type :: string
  ri_Modifier :: string
  ri_Text :: string
  ri_DistanceKm :: float64
  ri_DurationMin :: float64
  ri_Location :: point
  ri_StreetName :: string

record RouteLeg =
  rl_Mode :: string
  rl_DistanceKm :: float64
  rl_DurationMin :: float64
  rl_Polyline :: string
  rl_Instructions :: "RouteInstruction list"

record RouteOption =
  ro_ID :: nat
  ro_Mode :: string
  ro_IsPrimary :: bool
  ro_DistanceKm :: float64
  ro_DurationMin :: float64
  ro_Polyline :: string
  ro_Instructions :: "RouteInstruction list"

record RouteResponse =
  rr_Distance :: float64
  rr_Duration :: float64
  rr_Polyline :: string
  rr_Mode :: string
  rr_Primary :: RouteOption
  rr_Routes :: "RouteOption list"
  rr_Legs :: "RouteLeg list"

definition zero_option :: RouteOption where
  "zero_option = \<lparr>ro_ID = 0, ro_Mode = [], ro_IsPrimary = False, ro_DistanceKm = 0, ro_DurationMin = 0,
     ro_Polyline = [], ro_Instructions = []\<rparr>"

section \<open>Errors\<close>

datatype cause = ErrRoutingOverloaded | ErrRoutingTimeout | ErrRouteNotFound | ErrRoutingBackendUnavailable
  | ContextErr ctx_error

definition sentinels :: "cause set" where
  "sentinels = {ErrRoutingOverloaded, ErrRoutingTimeout, ErrRouteNotFound, ErrRoutingBackendUnavailable}"

fun cause_text :: "cause \<Rightarrow> string" where
  "cause_text ErrRoutingOverloaded = ''routing overloaded''"
| "cause_text ErrRoutingTimeout = ''routing backend timeout''"
| "cause_text ErrRouteNotFound = ''route not found''"
| "cause_text ErrRoutingBackendUnavailable = ''routing backend unavailable''"
| "cause_text (ContextErr Canceled) = ''context canceled''"
| "cause_text (ContextErr DeadlineExceeded) = ''context deadline exceeded''"

record go_error =
  wraps :: "cause option"
  err_text :: string

definition errors_Is :: "go_error \<Rightarrow> cause \<Rightarrow> bool" where
  "errors_Is e c \<longleftrightarrow> wraps e = Some c"

definition bare :: "cause \<Rightarrow> go_error" where
  "bare c = \<lparr>wraps = Some c, err_text = cause_text c\<rparr>"

text \<open>\<open>fmt.Errorf("%w: " + text, c)\<close>.\<close>

definition wrapf :: "cause \<Rightarrow> string \<Rightarrow> go_error" where
  "wrapf c t = \<lparr>wraps = Some c, err_text = cause_text c @ '': '' @ t\<rparr>"

definition plain :: "string \<Rightarrow> go_error" where
  "plain t = \<lparr>wraps = None, err_text = t\<rparr>"

definition classifyRouteError :: "go_error option \<Rightarrow> string" where
  "classifyRouteError err =
     (case err of
        None \<Rightarrow> ''success''
      | Some e \<Rightarrow>
          if errors_Is e ErrRoutingOverloaded then ''overloaded''
          else if errors_Is e ErrRoutingTimeout then ''timeout''
          else if errors_Is e ErrRouteNotFound then ''not_found''
          else if errors_Is e ErrRoutingBackendUnavailable then ''unavailable''
          else ''error'')"

definition mapServiceError :: "go_error \<Rightarrow> nat \<times> string \<times> string" where
  "mapServiceError e =
     (if errors_Is e ErrRoutingOverloaded
      then (503, ''ROUTING_OVERLOADED'', ''routing engine is busy; please retry in a moment'')
      else if errors_Is e ErrRoutingTimeout
      then (504, ''ROUTING_TIMEOUT'', ''routing backend timed out; please retry in a moment'')
      else if errors_Is e ErrRouteNotFound
      then (404, ''ROUTE_NOT_FOUND'', ''no route found between the given coordinates'')
      else if errors_Is e ErrRoutingBackendUnavailable
      then (503, ''ROUTING_BACKEND_UNAVAILABLE'', ''routing backend is unavailable'')
      else (500, ''INTERNAL_ERROR'', ''internal error; please retry''))"

definition classified :: "go_error \<Rightarrow> bool" where
  "classified e \<longleftrightarrow> (\<exists>c\<in>sentinels. errors_Is e c)"

lemma errors_Is_simps [simp]:
  "errors_Is (wrapf c t) d = (c = d)" "errors_Is (bare c) d = (c = d)" "\<not> errors_Is (plain t) d"
  by (simp_all add: errors_Is_def wrapf_def bare_def plain_def)

lemma classified_wrapf [simp]: "classified (wrapf c t) = (c \<in> sentinels)" "classified (bare c) = (c \<in> sentinels)"
  by (auto simp: classified_def)

lemma sentinels_simps [simp]: "ErrRoutingOverloaded \<in> sentinels" "ErrRoutingTimeout \<in> sentinels"
  "ErrRouteNotFound \<in> sentinels" "ErrRoutingBackendUnavailable \<in> sentinels" "ContextErr e \<notin> sentinels"
  by (simp_all add: sentinels_def)

lemma classified_cases:
  assumes "classified e"
  obtains "errors_Is e ErrRoutingOverloaded" | "errors_Is e ErrRoutingTimeout"
    | "errors_Is e ErrRouteNotFound" | "errors_Is e ErrRoutingBackendUnavailable"
  using assms by (auto simp: classified_def sentinels_def)

text \<open>A classified error never becomes an internal server error, and keeps its metric label.\<close>

lemma classified_status: "classified e \<Longrightarrow> fst (mapServiceError e) \<in> {404, 503, 504}"
  by (erule classified_cases) (auto simp: mapServiceError_def errors_Is_def)

lemma classified_label: "classified e \<Longrightarrow> classifyRouteError (Some e) \<in> {''overloaded'', ''timeout'', ''not_found'', ''unavailable''}"
  by (erule classified_cases) (auto simp: classifyRouteError_def errors_Is_def)

section \<open>Building responses\<close>

definition route_instruction :: "Instruction \<Rightarrow> RouteInstruction" where
  "route_instruction i =
     \<lparr>ri_Index = in_Index i, ri_Type = in_Type i, ri_Modifier = in_Modifier i, ri_Text = in_Text i,
      ri_DistanceKm = in_DistanceKm i, ri_DurationMin = in_DurationMin i, ri_Location = in_Location i,
      ri_StreetName = in_StreetName i\<rparr>"

definition routeInstructions :: "Instruction list \<Rightarrow> RouteInstruction list" where
  "routeInstructions ins = (if ins = [] then [] else map route_instruction ins)"

definition route_option :: "TransportMode \<Rightarrow> nat \<times> Route \<Rightarrow> RouteOption" where
  "route_option mode = (\<lambda>(i, r). \<lparr>ro_ID = i + 1, ro_Mode = mode, ro_IsPrimary = (i = 0),
     ro_DistanceKm = r_Distance r, ro_DurationMin = r_Duration r, ro_Polyline = r_Polyline r,
     ro_Instructions = routeInstructions (r_Instructions r)\<rparr>)"

definition buildRouteResponse :: "TransportMode \<Rightarrow> Route list \<Rightarrow> RouteResponse" where
  "buildRouteResponse mode routes =
     (let opts = map (route_option mode) (zip [0..<length routes] routes);
          resp = \<lparr>rr_Distance = 0, rr_Duration = 0, rr_Polyline = [], rr_Mode = mode,
                  rr_Primary = zero_option, rr_Routes = opts, rr_Legs = []\<rparr>
      in case opts of
           [] \<Rightarrow> resp
         | opt # _ \<Rightarrow> resp\<lparr>rr_Primary := opt, rr_Distance := ro_DistanceKm opt,
                          rr_Duration := ro_DurationMin opt, rr_Polyline := ro_Polyline opt\<rparr>)"

definition route_leg :: "MultiModalLeg \<Rightarrow> RouteLeg" where
  "route_leg l =
     \<lparr>rl_Mode = leg_Mode l, rl_DistanceKm = r_Distance (leg_Route l), rl_DurationMin = r_Duration (leg_Route l),
      rl_Polyline = r_Polyline (leg_Route l), rl_Instructions = routeInstructions (r_Instructions (leg_Route l))\<rparr>"

text \<open>A nil leg makes the loop of \<open>buildMultiModalResponse\<close> panic; no leg has a nil route.\<close>

definition buildMultiModalResponse :: "TransportMode \<Rightarrow> MultiModalLeg option list \<Rightarrow> RouteResponse option" where
  "buildMultiModalResponse topMode legs =
     map_option (\<lambda>ls.
       let totalDist = foldl (\<lambda>t l. t + r_Distance (leg_Route l)) 0 ls;
           totalDur = foldl (\<lambda>t l. t + r_Duration (leg_Route l)) 0 ls;
           combined = EncodePolyline (concat (map (\<lambda>l. DecodePolyline (r_Polyline (leg_Route l))) ls))
       in \<lparr>rr_Distance = totalDist, rr_Duration = totalDur, rr_Polyline = combined, rr_Mode = topMode,
           rr_Primary = \<lparr>ro_ID = 1, ro_Mode = topMode, ro_IsPrimary = True, ro_DistanceKm = totalDist,
                         ro_DurationMin = totalDur, ro_Polyline = combined, ro_Instructions = []\<rparr>,
           rr_Routes = [], rr_Legs = map route_leg ls\<rparr>)
     (those legs)"

definition buildMultiModalTrainResponse :: "MultiModalLeg option list \<Rightarrow> RouteResponse option" where
  "buildMultiModalTrainResponse legs = buildMultiModalResponse ModeTrain legs"

definition buildMultiModalTransitResponse :: "MultiModalLeg option list \<Rightarrow> RouteResponse option" where
  "buildMultiModalTransitResponse legs = buildMultiModalResponse ModePublicTransport legs"

section \<open>What every response promises\<close>

text \<open>
  The backward-compatible fields repeat the primary option; a response either lists its
  options, numbered from 1 with the first one primary, or has legs whose distances and
  durations add up to its own.
\<close>

definition response_ok :: "TransportMode \<Rightarrow> RouteResponse \<Rightarrow> bool" where
  "response_ok mode r \<longleftrightarrow>
     rr_Mode r = mode \<and> ro_Mode (rr_Primary r) = mode \<and> ro_ID (rr_Primary r) = 1 \<and> ro_IsPrimary (rr_Primary r)
     \<and> rr_Distance r = ro_DistanceKm (rr_Primary r) \<and> rr_Duration r = ro_DurationMin (rr_Primary r)
     \<and> rr_Polyline r = ro_Polyline (rr_Primary r)
     \<and> (if rr_Legs r = [] then rr_Routes r \<noteq> [] \<and> hd (rr_Routes r) = rr_Primary r
          \<and> map ro_ID (rr_Routes r) = [1..<length (rr_Routes r) + 1]
          \<and> list_all (\<lambda>o'. ro_Mode o' = mode \<and> ro_IsPrimary o' = (ro_ID o' = 1)) (rr_Routes r)
        else rr_Routes r = [] \<and> rr_Distance r = sum_list (map rl_DistanceKm (rr_Legs r))
          \<and> rr_Duration r = sum_list (map rl_DurationMin (rr_Legs r)))"

lemma foldl_plus_map: "foldl (\<lambda>t x. t + f x) a xs = a + sum_list (map f xs)" for a :: real
  by (induction xs arbitrary: a) simp_all

lemma those_length: "those xs = Some ys \<Longrightarrow> length ys = length xs"
  by (induction xs arbitrary: ys) (auto split: option.splits)

lemma buildRouteResponse_ok:
  assumes "routes \<noteq> []"
  shows "response_ok mode (buildRouteResponse mode routes)"
proof -
  let ?opts = "map (route_option mode) (zip [0..<length routes] routes)"
  obtain r rs where r: "routes = r # rs" using assms by (cases routes) auto
  have hd: "?opts = route_option mode (0, r) # tl ?opts"
    by (simp add: r upt_conv_Cons del: upt_Suc)
  have ids: "map ro_ID ?opts = [1..<length ?opts + 1]"
  proof (rule nth_equalityI)
    fix i assume "i < length (map ro_ID ?opts)"
    then show "map ro_ID ?opts ! i = [1..<length ?opts + 1] ! i"
      by (simp add: route_option_def del: upt_Suc)
  qed (simp del: upt_Suc)
  have each: "list_all (\<lambda>o'. ro_Mode o' = mode \<and> ro_IsPrimary o' = (ro_ID o' = 1)) ?opts"
    by (auto simp: list_all_iff route_option_def)
  have resp: "buildRouteResponse mode routes =
      \<lparr>rr_Distance = r_Distance r, rr_Duration = r_Duration r, rr_Polyline = r_Polyline r, rr_Mode = mode,
       rr_Primary = route_option mode (0, r), rr_Routes = ?opts, rr_Legs = []\<rparr>"
    unfolding buildRouteResponse_def Let_def by (subst (2) hd) (simp add: route_option_def)
  have "?opts \<noteq> []" and "List.hd ?opts = route_option mode (0, r)"
    using hd by (metis list.distinct(1), metis list.sel(1))
  with ids each show ?thesis
    unfolding response_ok_def resp by (simp add: route_option_def del: upt_Suc)
qed

lemma buildMultiModalResponse_ok:
  assumes "buildMultiModalResponse mode legs = Some r" and "legs \<noteq> []"
  shows "response_ok mode r \<and> length (rr_Legs r) = length legs"
proof -
  obtain ls where ls: "those legs = Some ls" using assms(1) by (auto simp: buildMultiModalResponse_def)
  then have "ls \<noteq> []" using assms(2) those_length by fastforce
  with assms(1) ls show ?thesis
    by (auto simp: buildMultiModalResponse_def Let_def response_ok_def foldl_plus_map route_leg_def comp_def
        dest: those_length)
qed

lemma buildMultiModalResponse_returns: "None \<notin> set legs \<Longrightarrow> buildMultiModalResponse mode legs \<noteq> None"
proof -
  assume "None \<notin> set legs"
  moreover have "None \<notin> set legs \<Longrightarrow> those legs \<noteq> None"
  proof (induction legs)
    case (Cons a legs)
    then show ?case by (cases a) auto
  qed simp
  ultimately show ?thesis by (simp add: buildMultiModalResponse_def)
qed

end
