(* ===== verification/OsrmClient.thy ===== *)
theory OsrmClient
  imports RouteModel
begin

text \<open>
  \<open>internal/route/osrm_client.go\<close>: the client of an OSRM server.  The HTTP exchange is a
  parameter, a function from the request's URL to what \<open>net/http\<close> and \<open>encoding/json\<close>
  give back; everything from the URL to the Persian instruction texts is modelled.  A Go
  string is its bytes, so the Persian constants are their UTF-8 encodings.
\<close>

section \<open>OSRM's reply\<close>

record osrmManeuver =
  mv_Type :: string
  mv_Modifier :: string
  mv_Location :: "float64 \<times> float64"

record osrmStep =
  st_Distance :: float64
  st_Duration :: float64
  st_Name :: string
  st_Maneuver :: osrmManeuver

record osrmRoute =
  or_Distance :: float64
  or_Duration :: float64
  or_Geometry :: string
  or_Legs :: "osrmStep list list"

record osrmResponse =
  os_Code :: string
  os_Routes :: "osrmRoute list"

text \<open>
  What one HTTP exchange can give: a request that cannot be built, a failed exchange (with
  the context error it wraps, if any), a status, a body that does not decode, or a reply.
\<close>

datatype http_reply =
    BadRequest string
  | Failed "ctx_error option" string
  | Status nat
  | Garbled string
  | Reply osrmResponse

section \<open>Persian texts\<close>

definition utf8 :: "nat list \<Rightarrow> string" where
  "utf8 bs = map char_of bs"

definition fa_to :: string where
  "fa_to = utf8 [
    32, 216, 168, 217, 135, 32]"

definition fa_start :: string where
  "fa_start = utf8 [
    216, 173, 216, 177, 218, 169, 216, 170, 32, 216, 177, 216, 167, 32, 216, 180, 216, 177, 217,
    136, 216, 185, 32, 218, 169, 217, 134, 219, 140, 216, 175]"

definition fa_arrived :: string where
  "fa_arrived = utf8 [
    216, 168, 217, 135, 32, 217, 133, 217, 130, 216, 181, 216, 175, 32, 216, 177, 216, 179, 219,
    140, 216, 175, 219, 140, 216, 175]"

definition fa_straight :: string where
  "fa_straight = utf8 [
    217, 133, 216, 179, 216, 170, 217, 130, 219, 140, 217, 133, 32, 216, 167, 216, 175, 216, 167,
    217, 133, 217, 135, 32, 216, 175, 217, 135, 219, 140, 216, 175]"

definition fa_fork_right :: string where
  "fa_fork_right = utf8 [
    216, 175, 216, 177, 32, 216, 175, 217, 136, 216, 177, 216, 167, 217, 135, 219, 140, 32, 216,
    168, 217, 135, 32, 216, 177, 216, 167, 216, 179, 216, 170, 32, 216, 168, 216, 177, 217, 136,
    219, 140, 216, 175]"

definition fa_fork_left :: string where
  "fa_fork_left = utf8 [
    216, 175, 216, 177, 32, 216, 175, 217, 136, 216, 177, 216, 167, 217, 135, 219, 140, 32, 216,
    168, 217, 135, 32, 218, 134, 217, 190, 32, 216, 168, 216, 177, 217, 136, 219, 140, 216, 175]"

definition fa_merge :: string where
  "fa_merge = utf8 [
    217, 136, 216, 167, 216, 177, 216, 175, 32, 216, 172, 216, 167, 216, 175, 217, 135, 32, 216,
    180, 217, 136, 219, 140, 216, 175]"

definition fa_on_ramp :: string where
  "fa_on_ramp = utf8 [
    216, 168, 217, 135, 32, 216, 162, 216, 178, 216, 167, 216, 175, 216, 177, 216, 167, 217, 135,
    32, 217, 136, 216, 167, 216, 177, 216, 175, 32, 216, 180, 217, 136, 219, 140, 216, 175]"

definition fa_off_ramp :: string where
  "fa_off_ramp = utf8 [
    216, 167, 216, 178, 32, 216, 162, 216, 178, 216, 167, 216, 175, 216, 177, 216, 167, 217, 135,
    32, 216, 174, 216, 167, 216, 177, 216, 172, 32, 216, 180, 217, 136, 219, 140, 216, 175]"

definition fa_roundabout :: string where
  "fa_roundabout = utf8 [
    217, 136, 216, 167, 216, 177, 216, 175, 32, 217, 133, 219, 140, 216, 175, 216, 167, 217, 134,
    32, 216, 180, 217, 136, 219, 140, 216, 175]"

definition fa_exit_roundabout :: string where
  "fa_exit_roundabout = utf8 [
    216, 167, 216, 178, 32, 217, 133, 219, 140, 216, 175, 216, 167, 217, 134, 32, 216, 174, 216,
    167, 216, 177, 216, 172, 32, 216, 180, 217, 136, 219, 140, 216, 175]"

definition fa_use_lane :: string where
  "fa_use_lane = utf8 [
    217, 133, 216, 179, 219, 140, 216, 177, 32, 216, 181, 216, 173, 219, 140, 216, 173, 32, 216,
    177, 216, 167, 32, 216, 167, 217, 134, 216, 170, 216, 174, 216, 167, 216, 168, 32, 218, 169,
    217, 134, 219, 140, 216, 175]"

definition fa_uturn :: string where
  "fa_uturn = utf8 [
    216, 175, 217, 136, 216, 177, 32, 216, 168, 216, 178, 217, 134, 219, 140, 216, 175]"

definition fa_on :: string where
  "fa_on = utf8 [
    216, 167, 216, 175, 216, 167, 217, 133, 217, 135, 32, 216, 175, 217, 135, 219, 140, 216, 175]"

definition fa_arriving :: string where
  "fa_arriving = utf8 [
    216, 168, 217, 135, 32, 217, 133, 217, 130, 216, 181, 216, 175, 32, 217, 133, 219, 140, 226,
    128, 140, 216, 177, 216, 179, 219, 140, 216, 175]"

definition fa_slight_left :: string where
  "fa_slight_left = utf8 [
    218, 169, 217, 133, 219, 140, 32, 216, 168, 217, 135, 32, 218, 134, 217, 190, 32, 216, 168,
    217, 190, 219, 140, 218, 134, 219, 140, 216, 175]"

definition fa_left :: string where
  "fa_left = utf8 [
    216, 168, 217, 135, 32, 218, 134, 217, 190, 32, 216, 168, 217, 190, 219, 140, 218, 134, 219,
    140, 216, 175]"

definition fa_sharp_left :: string where
  "fa_sharp_left = utf8 [
    216, 170, 217, 134, 216, 175, 32, 216, 168, 217, 135, 32, 218, 134, 217, 190, 32, 216, 168,
    217, 190, 219, 140, 218, 134, 219, 140, 216, 175]"

definition fa_slight_right :: string where
  "fa_slight_right = utf8 [
    218, 169, 217, 133, 219, 140, 32, 216, 168, 217, 135, 32, 216, 177, 216, 167, 216, 179, 216,
    170, 32, 216, 168, 217, 190, 219, 140, 218, 134, 219, 140, 216, 175]"

definition fa_right :: string where
  "fa_right = utf8 [
    216, 168, 217, 135, 32, 216, 177, 216, 167, 216, 179, 216, 170, 32, 216, 168, 217, 190, 219,
    140, 218, 134, 219, 140, 216, 175]"

definition fa_sharp_right :: string where
  "fa_sharp_right = utf8 [
    216, 170, 217, 134, 216, 175, 32, 216, 168, 217, 135, 32, 216, 177, 216, 167, 216, 179, 216,
    170, 32, 216, 168, 217, 190, 219, 140, 218, 134, 219, 140, 216, 175]"

definition fa_after :: string where
  "fa_after = utf8 [
    216, 155, 32, 217, 190, 216, 179, 32, 216, 167, 216, 178, 32]"

definition fa_metre :: string where
  "fa_metre = utf8 [
    32, 217, 133, 216, 170, 216, 177]"

definition fa_km :: string where
  "fa_km = utf8 [
    32, 218, 169, 219, 140, 217, 132, 217, 136, 217, 133, 216, 170, 216, 177]"

lemmas fa_defs = utf8_def fa_to_def fa_start_def fa_arrived_def fa_straight_def fa_fork_right_def fa_fork_left_def fa_merge_def fa_on_ramp_def fa_off_ramp_def fa_roundabout_def fa_exit_roundabout_def fa_use_lane_def fa_uturn_def fa_on_def fa_arriving_def fa_slight_left_def fa_left_def fa_sharp_left_def fa_slight_right_def fa_right_def fa_sharp_right_def fa_after_def fa_metre_def fa_km_def

definition destination :: "string \<Rightarrow> string" where
  "destination street = (if street \<noteq> [] then fa_to @ street else [])"

definition persianTurn :: "string \<Rightarrow> string" where
  "persianTurn modifier =
     (if modifier \<in> {''slight_left'', ''slight left''} then fa_slight_left
      else if modifier = ''left'' then fa_left
      else if modifier \<in> {''sharp_left'', ''sharp left''} then fa_sharp_left
      else if modifier \<in> {''slight_right'', ''slight right''} then fa_slight_right
      else if modifier = ''right'' then fa_right
      else if modifier \<in> {''sharp_right'', ''sharp right''} then fa_sharp_right
      else if modifier = ''uturn'' then fa_uturn
      else fa_straight)"

definition nextActionText :: "string \<Rightarrow> string \<Rightarrow> string \<Rightarrow> string" where
  "nextActionText typ' modifier name =
     (if typ' \<in> {''turn'', ''end of road''} then persianTurn modifier @ destination name
      else if typ' = ''arrive'' then fa_arriving
      else if typ' \<in> {''roundabout'', ''rotary''} then fa_roundabout @ destination name
      else if typ' = ''fork''
      then (if Contains modifier ''right'' then fa_fork_right @ destination name
            else fa_fork_left @ destination name)
      else [])"

definition fmtDist :: "float64 \<Rightarrow> string" where
  "fmtDist distKm =
     (if distKm < 1
      then let m = math_Round (distKm * 1000); m = (if m < 1 then 1 else m) in FormatInt m @ fa_metre
      else if distKm < 10 then FormatFixed 1 (Round distKm 1) @ fa_km
      else FormatFixed 0 (of_int (math_Round distKm)) @ fa_km)"

definition leadText :: "string \<Rightarrow> float64 \<Rightarrow> string \<Rightarrow> string \<Rightarrow> string \<Rightarrow> string" where
  "leadText prefix distKm nextTyp nextMod nextName =
     (let action = nextActionText nextTyp nextMod nextName in
      if action = [] then prefix
      else prefix @ fa_after @ fmtDist distKm @ '' '' @ action)"

definition stepText ::
  "string \<Rightarrow> string \<Rightarrow> string \<Rightarrow> float64 \<Rightarrow> string \<Rightarrow> string \<Rightarrow> string \<Rightarrow> string" where
  "stepText typ' modifier street distKm nextTyp nextMod nextName =
     (let dest = destination street in
      if typ' = ''depart'' then leadText fa_start distKm nextTyp nextMod nextName
      else if typ' = ''arrive'' then fa_arrived
      else if typ' \<in> {''continue'', ''new name''} then leadText fa_straight distKm nextTyp nextMod nextName
      else if typ' \<in> {''turn'', ''end of road''} then persianTurn modifier @ dest
      else if typ' = ''fork''
      then (if Contains modifier ''right'' then fa_fork_right @ dest
            else if Contains modifier ''left'' then fa_fork_left @ dest
            else fa_straight @ dest)
      else if typ' = ''merge'' then fa_merge @ dest
      else if typ' = ''on ramp'' then fa_on_ramp @ dest
      else if typ' = ''off ramp'' then fa_off_ramp @ dest
      else if typ' \<in> {''roundabout'', ''rotary''} then fa_roundabout @ dest
      else if typ' \<in> {''exit roundabout'', ''exit rotary''} then fa_exit_roundabout @ dest
      else if typ' = ''use lane'' then fa_use_lane @ dest
      else if modifier = ''uturn'' then fa_uturn @ dest
      else fa_on @ dest)"

section \<open>From steps to instructions\<close>

definition normalizeModifier :: "string \<Rightarrow> string" where
  "normalizeModifier m = replace_byte (CHR '' '') (CHR ''_'') (TrimSpace m)"

definition osmHighwayClasses :: "string set" where
  "osmHighwayClasses =
     {''motorway'', ''motorway_link'', ''trunk'', ''trunk_link'', ''primary'', ''primary_link'',
      ''secondary'', ''secondary_link'', ''tertiary'', ''tertiary_link'', ''unclassified'', ''residential'',
      ''service'', ''living_street'', ''footway'', ''pedestrian'', ''path'', ''steps'', ''track'', ''cycleway''}"

definition cleanStreetName :: "string \<Rightarrow> string" where
  "cleanStreetName name = (let name = TrimSpace name in if name \<in> osmHighwayClasses then [] else name)"

definition convertStep :: "nat \<Rightarrow> osrmStep \<Rightarrow> osrmStep option \<Rightarrow> RouteInstruction" where
  "convertStep idx step next_step =
     (let typ' = mv_Type (st_Maneuver step);
          md = normalizeModifier (mv_Modifier (st_Maneuver step));
          name = cleanStreetName (st_Name step);
          distKm = st_Distance step / 1000;
          durMin = st_Duration step / 60;
          (nextTyp, nextMod, nextName) =
            (case next_step of
               None \<Rightarrow> ([], [], [])
             | Some ns \<Rightarrow> (mv_Type (st_Maneuver ns), normalizeModifier (mv_Modifier (st_Maneuver ns)),
                           cleanStreetName (st_Name ns)))
      in \<lparr>ri_Index = idx, ri_Type = typ', ri_Modifier = md,
          ri_Text = stepText typ' md name distKm nextTyp nextMod nextName,
          ri_DistanceKm = Round distKm 3, ri_DurationMin = Round durMin 2,
          ri_Location = \<lparr>p_Lat = snd (mv_Location (st_Maneuver step)), p_Lng = fst (mv_Location (st_Maneuver step))\<rparr>,
          ri_StreetName = name\<rparr>)"

text \<open>The two nested loops, with the index that runs across the legs.\<close>

fun convert_leg :: "nat \<Rightarrow> RouteInstruction list \<Rightarrow> osrmStep list \<Rightarrow> nat \<times> RouteInstruction list" where
  "convert_leg idx out [] = (idx, out)"
| "convert_leg idx out (step # steps) =
     convert_leg (idx + 1)
       (out @ [convertStep idx step (case steps of [] \<Rightarrow> None | ns # _ \<Rightarrow> Some ns)]) steps"

definition convertSteps :: "osrmStep list list \<Rightarrow> RouteInstruction list" where
  "convertSteps legs = snd (foldl (\<lambda>(idx, out) leg. convert_leg idx out leg) (0, []) legs)"

definition convertRoute :: "TransportMode \<Rightarrow> osrmRoute \<Rightarrow> RouteResponse" where
  "convertRoute mode r =
     (let distKm = Round (or_Distance r / 1000) 3;
          durMin = Round (or_Duration r / 60) 2;
          primary = \<lparr>ro_ID = 1, ro_Mode = mode, ro_IsPrimary = True, ro_DistanceKm = distKm,
                     ro_DurationMin = durMin, ro_Polyline = or_Geometry r,
                     ro_Instructions = convertSteps (or_Legs r)\<rparr>
      in \<lparr>rr_Distance = distKm, rr_Duration = durMin, rr_Polyline = or_Geometry r, rr_Mode = mode,
          rr_Primary = primary, rr_Routes = [primary], rr_Legs = []\<rparr>)"

section \<open>The request\<close>

definition osrmProfile :: "TransportMode \<Rightarrow> string option" where
  "osrmProfile mode =
     (if mode \<in> {ModeCar, ModeMotorcycle, ModeBus} then Some ''driving''
      else if mode = ModeWalking then Some ''foot''
      else None)"

definition NewOSRMClient :: "string \<Rightarrow> string" where
  "NewOSRMClient baseURL = rev (dropWhile (\<lambda>c. c = CHR ''/'') (rev baseURL))"

definition osrm_url :: "string \<Rightarrow> string \<Rightarrow> point \<Rightarrow> point \<Rightarrow> string" where
  "osrm_url base profile start goal =
     base @ ''/route/v1/'' @ profile @ ''/''
     @ FormatFixed 6 (p_Lng start) @ '','' @ FormatFixed 6 (p_Lat start) @ '';''
     @ FormatFixed 6 (p_Lng goal) @ '','' @ FormatFixed 6 (p_Lat goal)
     @ ''?overview=full&geometries=polyline&steps=true&alternatives=false''"

definition client_Route ::
  "(string \<Rightarrow> http_reply) \<Rightarrow> string \<Rightarrow> TransportMode \<Rightarrow> point \<Rightarrow> point \<Rightarrow> go_error + RouteResponse" where
  "client_Route http base mode start goal =
     (case osrmProfile mode of
        None \<Rightarrow> Inl (plain (''osrm: mode '' @ Quote mode @ '' is not supported; use internal engine for this mode''))
      | Some profile \<Rightarrow>
          (case http (osrm_url base profile start goal) of
             BadRequest t \<Rightarrow> Inl (plain (''osrm: build request: '' @ t))
           | Failed c t \<Rightarrow> Inl \<lparr>wraps = map_option ContextErr c, err_text = ''osrm: request failed: '' @ t\<rparr>
           | Status n \<Rightarrow> Inl (plain (''osrm: HTTP '' @ FormatInt (int n)))
           | Garbled t \<Rightarrow> Inl (plain (''osrm: decode response: '' @ t))
           | Reply parsed \<Rightarrow>
               if os_Code parsed \<noteq> ''Ok'' then Inl (plain (''osrm: routing code '' @ Quote (os_Code parsed)))
               else (case os_Routes parsed of
                       [] \<Rightarrow> Inl (plain ''osrm: no routes in response'')
                     | r # _ \<Rightarrow> Inr (convertRoute mode r))))"

section \<open>The conversion step by step\<close>

text \<open>Each step with the next step of its own leg, and the numbering across the legs.\<close>

definition with_next :: "osrmStep list \<Rightarrow> (osrmStep \<times> osrmStep option) list" where
  "with_next leg = (if leg = [] then [] else zip leg (map Some (tl leg) @ [None]))"

definition numbered :: "nat \<Rightarrow> (osrmStep \<times> osrmStep option) list \<Rightarrow> RouteInstruction list" where
  "numbered idx xs = map (\<lambda>(i, s, n). convertStep i s n) (zip [idx..<idx + length xs] xs)"

lemma with_next_Cons: "with_next (s # leg) = (s, case leg of [] \<Rightarrow> None | n # _ \<Rightarrow> Some n) # with_next leg"
  by (cases leg) (simp_all add: with_next_def)

lemma length_with_next [simp]: "length (with_next leg) = length leg"
  by (simp add: with_next_def)

lemma numbered_Nil [simp]: "numbered idx [] = []"
  by (simp add: numbered_def)

lemma numbered_Cons: "numbered idx ((s, n) # xs) = convertStep idx s n # numbered (Suc idx) xs"
  by (simp add: numbered_def upt_conv_Cons del: upt_Suc)

lemma numbered_append: "numbered idx (xs @ ys) = numbered idx xs @ numbered (idx + length xs) ys"
proof (induction xs arbitrary: idx)
  case (Cons x xs)
  obtain s n where "x = (s, n)" by fastforce
  with Cons show ?case by (simp add: numbered_Cons)
qed simp

lemma convert_leg_eq: "convert_leg idx out leg = (idx + length leg, out @ numbered idx (with_next leg))"
proof (induction leg arbitrary: idx out)
  case Nil
  show ?case by (simp add: with_next_def)
next
  case (Cons s leg)
  then show ?case by (simp add: with_next_Cons numbered_Cons)
qed

lemma convert_legs_eq:
  "foldl (\<lambda>(idx, out) leg. convert_leg idx out leg) (idx, out) legs
     = (idx + length (concat legs), out @ numbered idx (concat (map with_next legs)))"
  by (induction legs arbitrary: idx out) (simp_all add: convert_leg_eq numbered_append add.assoc)

lemma convertSteps_numbered: "convertSteps legs = numbered 0 (concat (map with_next legs))"
  by (simp add: convertSteps_def convert_legs_eq)

lemma map_index_numbered: "map ri_Index (numbered idx xs) = [idx..<idx + length xs]"
proof (rule nth_equalityI)
  fix i assume "i < length (map ri_Index (numbered idx xs))"
  then show "map ri_Index (numbered idx xs) ! i = [idx..<idx + length xs] ! i"
    by (simp add: numbered_def convertStep_def Let_def split_beta del: upt_Suc)
qed (simp add: numbered_def)

lemma length_concat_with_next: "length (concat (map with_next legs)) = length (concat legs)"
  by (induction legs) simp_all

lemma fst_with_next: "map fst (with_next leg) = leg"
  by (induction leg) (simp_all add: with_next_Cons, simp add: with_next_def)

lemma map_numbered: "(\<And>i s n. f (convertStep i s n) = g s) \<Longrightarrow> map f (numbered idx xs) = map (g \<circ> fst) xs"
proof (induction xs arbitrary: idx)
  case (Cons x xs)
  obtain s n where "x = (s, n)" by fastforce
  with Cons show ?case by (simp add: numbered_Cons)
qed simp

lemma map_convertSteps: "(\<And>i s n. f (convertStep i s n) = g s) \<Longrightarrow> map f (convertSteps legs) = map g (concat legs)"
  by (simp add: convertSteps_numbered map_numbered map_concat comp_def)
    (metis (no_types, lifting) fst_with_next list.map_comp map_eq_conv comp_def)

text \<open>
  \<open>convertSteps\<close> makes one instruction of every step of every leg, in order, numbered
  consecutively from 0 across the legs; a step's text may announce the next step of its own
  leg only; type, distance, duration and place are those of the step, with OSRM's
  longitude-latitude pair swapped.
\<close>

theorem convertSteps_steps:
  "convertSteps legs = numbered 0 (concat (map with_next legs))
   \<and> map ri_Index (convertSteps legs) = [0..<length (concat legs)]
   \<and> map ri_Type (convertSteps legs) = map (mv_Type \<circ> st_Maneuver) (concat legs)
   \<and> map ri_DistanceKm (convertSteps legs) = map (\<lambda>s. Round (st_Distance s / 1000) 3) (concat legs)
   \<and> map ri_DurationMin (convertSteps legs) = map (\<lambda>s. Round (st_Duration s / 60) 2) (concat legs)
   \<and> map (\<lambda>i. (p_Lng (ri_Location i), p_Lat (ri_Location i))) (convertSteps legs)
       = map (mv_Location \<circ> st_Maneuver) (concat legs)"
proof -
  have "map ri_Type (convertSteps legs) = map (mv_Type \<circ> st_Maneuver) (concat legs)"
    by (rule map_convertSteps) (simp add: convertStep_def Let_def split_beta)
  moreover have "map ri_DistanceKm (convertSteps legs) = map (\<lambda>s. Round (st_Distance s / 1000) 3) (concat legs)"
    by (rule map_convertSteps) (simp add: convertStep_def Let_def split_beta)
  moreover have "map ri_DurationMin (convertSteps legs) = map (\<lambda>s. Round (st_Duration s / 60) 2) (concat legs)"
    by (rule map_convertSteps) (simp add: convertStep_def Let_def split_beta)
  moreover have "map (\<lambda>i. (p_Lng (ri_Location i), p_Lat (ri_Location i))) (convertSteps legs)
      = map (mv_Location \<circ> st_Maneuver) (concat legs)"
    by (rule map_convertSteps) (simp add: convertStep_def Let_def split_beta)
  moreover have "map ri_Index (convertSteps legs) = [0..<length (concat legs)]"
    by (simp only: convertSteps_numbered map_index_numbered length_concat_with_next add_0)
  ultimately show ?thesis using convertSteps_numbered by blast
qed

lemma convertRoute_ok: "response_ok mode (convertRoute mode r)"
  by (simp add: response_ok_def convertRoute_def Let_def)

lemma client_Route_ok: "client_Route http base mode start goal = Inr r \<Longrightarrow> response_ok mode r"
  by (auto simp: client_Route_def convertRoute_ok split: option.splits http_reply.splits if_splits list.splits)

section \<open>What is announced is what comes\<close>

lemma fa_fork_differ: "fa_fork_left \<noteq> fa_straight" "fa_straight \<noteq> fa_fork_left"
  by (simp_all add: fa_defs)

text \<open>
  The text that announces a manoeuvre ("after X metres, ...") is the text of the
  manoeuvre itself, for turns, road ends, roundabouts and rotaries; for a fork exactly when
  its modifier says right or left.  A fork straight on is announced as a fork to the left,
  while its own text says to go straight on.
\<close>

theorem announcement_agrees:
  "(typ' \<in> {''turn'', ''end of road'', ''roundabout'', ''rotary''}
      \<longrightarrow> nextActionText typ' modifier name = stepText typ' modifier name d t2 m2 n2)
   \<and> (nextActionText ''fork'' modifier name = stepText ''fork'' modifier name d t2 m2 n2
      \<longleftrightarrow> Contains modifier ''right'' \<or> Contains modifier ''left'')"
  by (auto simp: nextActionText_def stepText_def Let_def fa_fork_differ)

theorem announcement_agrees_witness:
  "nextActionText ''turn'' ''left'' [] = stepText ''turn'' ''left'' [] 1 [] [] []
   \<and> nextActionText ''fork'' ''straight'' [] \<noteq> stepText ''fork'' ''straight'' [] 1 [] [] []"
  using announcement_agrees [of "''turn''" "''left''" "[]" 1 "[]" "[]" "[]"]
    announcement_agrees [of "''turn''" "''straight''" "[]" 1 "[]" "[]" "[]"] by simp

end
