(* ===== verification/Slots.thy ===== *)
theory Slots
  imports Geo_Prelude
begin

text \<open>
  A counting semaphore made of a buffered channel, as \<open>LimitedBackend\<close>
  (\<open>internal/route/backend.go\<close>), \<open>RouteService.CalculateWithMeta\<close>
  (\<open>internal/route/service.go\<close>) and the leg workers of \<open>multi_service.go\<close> use it: a caller
  sends into the channel, gives up on a timer or on its context, and receives from the
  channel when its work is over, also when the work panics (\<open>defer\<close>).  Callers are numbers;
  one step of the relation is one step of one caller.
\<close>

datatype caller = Absent | Queued | Working | Served | Overloaded | Cancelled

record slots =
  capacity :: nat
  in_channel :: nat
  caller_of :: "nat \<Rightarrow> caller"

definition make_slots :: "nat \<Rightarrow> slots" where
  "make_slots n = \<lparr>capacity = n, in_channel = 0, caller_of = (\<lambda>_. Absent)\<rparr>"

definition goes :: "nat \<Rightarrow> caller \<Rightarrow> slots \<Rightarrow> slots" where
  "goes i c s = s\<lparr>caller_of := (caller_of s)(i := c)\<rparr>"

inductive slot_step :: "slots \<Rightarrow> slots \<Rightarrow> bool" where
  arrive: "caller_of s i = Absent \<Longrightarrow> slot_step s (goes i Queued s)"
| send: "caller_of s i = Queued \<Longrightarrow> in_channel s < capacity s
    \<Longrightarrow> slot_step s (goes i Working s\<lparr>in_channel := in_channel s + 1\<rparr>)"
| timer: "caller_of s i = Queued \<Longrightarrow> slot_step s (goes i Overloaded s)"
| done_ctx: "caller_of s i = Queued \<Longrightarrow> slot_step s (goes i Cancelled s)"
| receive: "caller_of s i = Working \<Longrightarrow> in_channel s > 0
    \<Longrightarrow> slot_step s (goes i Served s\<lparr>in_channel := in_channel s - 1\<rparr>)"

abbreviation workers :: "slots \<Rightarrow> nat set" where
  "workers s \<equiv> {i. caller_of s i = Working}"

definition slots_ok :: "nat \<Rightarrow> slots \<Rightarrow> bool" where
  "slots_ok n s \<longleftrightarrow> capacity s = n \<and> finite (workers s) \<and> in_channel s = card (workers s) \<and> in_channel s \<le> n"

lemma workers_goes: "workers (goes i c s) = (if c = Working then insert i (workers s) else workers s - {i})"
  by (auto simp: goes_def)

lemma goes_simps [simp]: "capacity (goes i c s) = capacity s" "in_channel (goes i c s) = in_channel s"
  "caller_of (goes i c s) j = (if j = i then c else caller_of s j)"
  by (simp_all add: goes_def)

lemma slots_ok_goes:
  assumes "slots_ok n s" and "caller_of s i \<noteq> Working" and "c \<noteq> Working"
  shows "slots_ok n (goes i c s)"
proof -
  have "workers (goes i c s) = workers s" unfolding workers_goes using assms(2,3) by auto
  with assms(1) show ?thesis unfolding slots_ok_def by simp
qed

lemma slots_ok_step: "slot_step s t \<Longrightarrow> slots_ok n s \<Longrightarrow> slots_ok n t"
proof (induction rule: slot_step.induct)
  case (send s i)
  have "workers (goes i Working s\<lparr>in_channel := in_channel s + 1\<rparr>) = insert i (workers s)"
    by (auto simp: goes_def)
  moreover from send have "card (insert i (workers s)) = card (workers s) + 1"
    by (simp add: slots_ok_def)
  ultimately show ?case using send by (simp add: slots_ok_def)
next
  case (receive s i)
  have w: "workers (goes i Served s\<lparr>in_channel := in_channel s - 1\<rparr>) = workers s - {i}"
    by (auto simp: goes_def)
  from receive have c: "card (workers s - {i}) = in_channel s - 1" and f: "finite (workers s - {i})"
    and n: "in_channel s \<le> n" "capacity s = n"
    by (simp_all add: slots_ok_def)
  show ?case unfolding slots_ok_def w using c f n by simp
qed (simp_all add: slots_ok_goes)

lemma slots_ok_reachable: "slot_step\<^sup>*\<^sup>* (make_slots n) s \<Longrightarrow> slots_ok n s"
proof (induction rule: rtranclp_induct)
  case base
  show ?case by (simp add: slots_ok_def make_slots_def)
next
  case (step s t)
  then show ?case by (blast intro: slots_ok_step)
qed

text \<open>
  At every moment of every interleaving at most as many callers work as the channel has
  slots, and the channel holds exactly one token per working caller: no slot is ever lost,
  so a queued caller can start at once unless all the slots are really in use, and a
  working caller can always give its slot back.
\<close>

theorem slots_bounded:
  assumes "slot_step\<^sup>*\<^sup>* (make_slots n) s"
  shows "card (workers s) \<le> n \<and> in_channel s = card (workers s)
    \<and> (\<forall>i. caller_of s i = Queued \<longrightarrow> card (workers s) < n \<longrightarrow> (\<exists>t. slot_step s t \<and> caller_of t i = Working))
    \<and> (\<forall>i. caller_of s i = Working \<longrightarrow> (\<exists>t. slot_step s t \<and> caller_of t i = Served \<and> in_channel t + 1 = in_channel s))"
proof -
  have ok: "slots_ok n s" by (rule slots_ok_reachable [OF assms])
  have start: "\<exists>t. slot_step s t \<and> caller_of t i = Working" if "caller_of s i = Queued" "card (workers s) < n" for i
    using slot_step.send [of s i] that ok
    by (intro exI [of _ "goes i Working s\<lparr>in_channel := in_channel s + 1\<rparr>"]) (simp add: slots_ok_def)
  have stop: "\<exists>t. slot_step s t \<and> caller_of t i = Served \<and> in_channel t + 1 = in_channel s"
    if w: "caller_of s i = Working" for i
  proof -
    have "i \<in> workers s" using w by simp
    then have "in_channel s > 0" using ok card_gt_0_iff [of "workers s"] by (auto simp: slots_ok_def)
    with slot_step.receive [OF w] show ?thesis
      by (intro exI [of _ "goes i Served s\<lparr>in_channel := in_channel s - 1\<rparr>"]) simp
  qed
  show ?thesis using ok start stop by (simp add: slots_ok_def)
qed

theorem slots_bounded_witness:
  "card (workers (goes 7 Working (goes 7 Queued (make_slots 1))\<lparr>in_channel := 1\<rparr>)) \<le> 1"
proof -
  have "slot_step (make_slots 1) (goes 7 Queued (make_slots 1))"
    by (rule slot_step.arrive) (simp add: make_slots_def)
  moreover have "slot_step (goes 7 Queued (make_slots 1)) (goes 7 Working (goes 7 Queued (make_slots 1))\<lparr>in_channel := 1\<rparr>)"
    using slot_step.send [of "goes 7 Queued (make_slots 1)" 7] by (simp add: make_slots_def)
  ultimately have "slot_step\<^sup>*\<^sup>* (make_slots 1) (goes 7 Working (goes 7 Queued (make_slots 1))\<lparr>in_channel := 1\<rparr>)"
    by (meson rtranclp.rtrancl_into_rtrancl rtranclp.rtrancl_refl)
  from slots_bounded [OF this] show ?thesis by blast
qed

end
