(* ===== verification/RouteBackend.thy ===== *)
theory RouteBackend
  imports OsrmClient Slots
begin

text \<open>
  \<open>internal/route/backend.go\<close>: the routing backends.  A backend is a tree: the in-process
  engine or an OSRM server at the leaves, the concurrency limit and the fallback above them.
  The state that a call changes is the engine of an internal backend, loaded on first use;
  the metrics a call records are a list.

  What a call cannot decide itself is its environment: the contexts' states at the polls,
  the iteration order of the node map, the sort, the outcome of a lazy load, the OSRM
  server, and how the wait for a worker slot ends.  Each backend of the tree has its own
  environment, found by its path from the root.  \<open>None\<close> stands for a panic or for not
  returning.
\<close>

section \<open>The in-process engine\<close>

record InternalBackend =
  ib_engine :: "Engine option"
  ib_avgSpeedKmH :: float64
  ib_graphEnabled :: bool
  ib_lazyLoad :: bool
  ib_hasLoader :: bool

definition NewInternalBackendWithConfig :: "Engine option \<Rightarrow> float64 \<Rightarrow> bool \<Rightarrow> bool \<Rightarrow> bool \<Rightarrow> InternalBackend" where
  "NewInternalBackendWithConfig engine avg enabled lazy loader =
     \<lparr>ib_engine = engine, ib_avgSpeedKmH = (if avg \<le> 0 then 40 else avg), ib_graphEnabled = enabled,
      ib_lazyLoad = lazy, ib_hasLoader = loader\<rparr>"

definition NewInternalBackend :: "Engine option \<Rightarrow> InternalBackend" where
  "NewInternalBackend engine = NewInternalBackendWithConfig engine 40 True False False"

definition HasGraph :: "Engine \<Rightarrow> bool" where "HasGraph e \<longleftrightarrow> eng_graph e \<noteq> None"
definition HasRailGraph :: "Engine \<Rightarrow> bool" where "HasRailGraph e \<longleftrightarrow> eng_railGraph e \<noteq> None"
definition HasTransitGraph :: "Engine \<Rightarrow> bool" where "HasTransitGraph e \<longleftrightarrow> eng_transitGraph e \<noteq> None"

definition internal_ready :: "InternalBackend \<Rightarrow> TransportMode \<Rightarrow> bool" where
  "internal_ready b mode =
     (if mode = ModeAirplane then True
      else case ib_engine b of
             None \<Rightarrow> False
           | Some e \<Rightarrow>
               if mode = ModeTrain then HasRailGraph e
               else if mode = ModePublicTransport then HasTransitGraph e
               else HasGraph e)"

text \<open>
  The result of one call of the loader, the context's error after a failed load, the polls of
  the computation, and the context's error read when no route came back.
\<close>

record internal_env =
  env_sort :: "PathResult sorter"
  env_order :: "node_id list"
  env_polls :: polls
  env_journey :: journey_ctx
  env_warm :: "graph \<Rightarrow> PathResult \<Rightarrow> graph option"
  env_load :: "string + Engine option"
  env_load_ctx :: "ctx_error option"
  env_ctx_err :: "ctx_error option"

text \<open>\<open>engine != nil && engine.HasX()\<close>.\<close>

definition having :: "(Engine \<Rightarrow> bool) \<Rightarrow> Engine option \<Rightarrow> Engine option" where
  "having P eng = (case eng of Some e \<Rightarrow> if P e then Some e else None | None \<Rightarrow> None)"

definition no_rail :: go_error where
  "no_rail = wrapf ErrRoutingBackendUnavailable ''rail graph is not loaded (set RAIL_GRAPH_ENABLED=true)''"

definition no_transit :: go_error where
  "no_transit = wrapf ErrRoutingBackendUnavailable
     ''transit graph is not loaded (run osm2transit to import bus/metro data)''"

text \<open>
  The part of \<open>engineFor\<close> before the lazy load, with the engine read once under the lock;
  \<open>None\<close> means that the engine has to be loaded.
\<close>

definition engine_fast :: "InternalBackend \<Rightarrow> TransportMode \<Rightarrow> (go_error + Engine) option" where
  "engine_fast b mode =
     (if mode = ModeAirplane
      then Some (Inr (case ib_engine b of Some e \<Rightarrow> e | None \<Rightarrow> NewEngineWithGraph (ib_avgSpeedKmH b) None 0))
      else if mode = ModeTrain
      then Some (case having HasRailGraph (ib_engine b) of Some e \<Rightarrow> Inr e | None \<Rightarrow> Inl no_rail)
      else if mode = ModePublicTransport
      then Some (case having HasTransitGraph (ib_engine b) of Some e \<Rightarrow> Inr e | None \<Rightarrow> Inl no_transit)
      else case having HasGraph (ib_engine b) of
             Some e \<Rightarrow> Some (Inr e)
           | None \<Rightarrow>
               if \<not> ib_graphEnabled b
               then Some (Inl (wrapf ErrRoutingBackendUnavailable ''internal road graph is disabled''))
               else if \<not> ib_lazyLoad b \<or> \<not> ib_hasLoader b
               then Some (Inl (wrapf ErrRoutingBackendUnavailable ''internal road graph is not loaded''))
               else None)"

text \<open>The part under the second lock: check again, load, and keep the loaded engine.\<close>

definition engine_locked :: "internal_env \<Rightarrow> InternalBackend \<Rightarrow> (go_error + Engine) \<times> InternalBackend" where
  "engine_locked env b =
     (case having HasGraph (ib_engine b) of
        Some e \<Rightarrow> (Inr e, b)
      | None \<Rightarrow>
          (case env_load env of
             Inl t \<Rightarrow>
               (Inl (if env_load_ctx env = Some DeadlineExceeded
                     then wrapf ErrRoutingTimeout (''internal graph lazy load timed out: '' @ t)
                     else wrapf ErrRoutingBackendUnavailable (''internal graph lazy load failed: '' @ t)), b)
           | Inr loaded \<Rightarrow>
               (case having HasGraph loaded of
                  None \<Rightarrow> (Inl (wrapf ErrRoutingBackendUnavailable ''internal graph lazy load returned no graph''), b)
                | Some e \<Rightarrow> (Inr e, b\<lparr>ib_engine := Some e\<rparr>))))"

definition engineFor :: "internal_env \<Rightarrow> InternalBackend \<Rightarrow> TransportMode \<Rightarrow> (go_error + Engine) \<times> InternalBackend" where
  "engineFor env b mode =
     (case engine_fast b mode of
        Some r \<Rightarrow> (r, b)
      | None \<Rightarrow> engine_locked env b)"

definition classifyInternalRouteError :: "internal_env \<Rightarrow> go_error" where
  "classifyInternalRouteError env =
     (case env_ctx_err env of
        Some DeadlineExceeded \<Rightarrow> wrapf ErrRoutingTimeout ''internal route search deadline exceeded''
      | Some e \<Rightarrow> wrapf ErrRoutingTimeout (''internal route search cancelled: '' @ cause_text (ContextErr e))
      | None \<Rightarrow> wrapf ErrRouteNotFound ''internal engine returned no route'')"

record RouteComputeResult =
  rc_Response :: RouteResponse
  rc_Backend :: string

datatype metric = BackendTotal string string | OverloadTotal string | QueueWait | WorkersInc | WorkersDec

definition recordBackendAttempt :: "string \<Rightarrow> go_error option \<Rightarrow> metric" where
  "recordBackendAttempt name err = BackendTotal name (classifyRouteError err)"

type_synonym answer = "go_error + RouteComputeResult"

text \<open>What the engine answers once it is chosen.\<close>

definition no_rail_route :: go_error where
  "no_rail_route = wrapf ErrRouteNotFound ''no rail route found between the two points''"

definition no_transit_route :: go_error where
  "no_transit_route = wrapf ErrRouteNotFound ''no public transport route found between the two points''"

definition internal_result :: "RouteResponse \<Rightarrow> answer" where
  "internal_result r = Inr \<lparr>rc_Response = r, rc_Backend = ''internal''\<rparr>"

definition engine_answer ::
  "internal_env \<Rightarrow> Engine \<Rightarrow> TransportMode \<Rightarrow> int \<Rightarrow> point \<Rightarrow> point \<Rightarrow> answer option" where
  "engine_answer env e mode alternatives start goal =
     (if mode = ModeTrain
      then (case ComputeTrainRoute (env_sort env) (env_order env) (env_journey env) e start goal of
              None \<Rightarrow> None
            | Some [] \<Rightarrow> Some (Inl no_rail_route)
            | Some legs \<Rightarrow> map_option internal_result (buildMultiModalTrainResponse (map Some legs)))
      else if mode = ModePublicTransport
      then (case ComputeTransitRoute (env_sort env) (env_order env) (env_journey env) (env_warm env) e start goal of
              None \<Rightarrow> None
            | Some [] \<Rightarrow> Some (Inl no_transit_route)
            | Some legs \<Rightarrow> map_option internal_result (buildMultiModalTransitResponse legs))
      else (case CalculateAlternativesCtx (env_sort env) (env_order env) (env_polls env) e start goal mode alternatives of
              None \<Rightarrow> None
            | Some [] \<Rightarrow> Some (Inl (classifyInternalRouteError env))
            | Some routes \<Rightarrow> Some (internal_result (buildRouteResponse mode routes))))"

definition answer_error :: "answer \<Rightarrow> go_error option" where
  "answer_error a = (case a of Inl e \<Rightarrow> Some e | Inr _ \<Rightarrow> None)"

definition internal_compute ::
  "internal_env \<Rightarrow> InternalBackend \<Rightarrow> TransportMode \<Rightarrow> int \<Rightarrow> point \<Rightarrow> point
   \<Rightarrow> (answer \<times> InternalBackend \<times> metric list) option" where
  "internal_compute env b mode alternatives start goal =
     (case engineFor env b mode of
        (Inl err, b') \<Rightarrow> Some (Inl err, b', [recordBackendAttempt ''internal'' (Some err)])
      | (Inr e, b') \<Rightarrow>
          map_option (\<lambda>a. (a, b', [recordBackendAttempt ''internal'' (answer_error a)]))
            (engine_answer env e mode alternatives start goal))"

section \<open>The OSRM server\<close>

definition classifyOSRMError :: "go_error \<Rightarrow> go_error" where
  "classifyOSRMError err =
     (let msg = ToLower (err_text err) in
      if errors_Is err (ContextErr DeadlineExceeded) \<or> Contains msg ''deadline exceeded''
         \<or> Contains msg ''client.timeout'' \<or> Contains msg ''timeout''
      then wrapf ErrRoutingTimeout (err_text err)
      else if Contains msg ''noroute'' \<or> Contains msg ''no route'' \<or> Contains msg ''no routes''
      then wrapf ErrRouteNotFound (err_text err)
      else wrapf ErrRoutingBackendUnavailable (err_text err))"

definition osrm_compute ::
  "(string \<Rightarrow> http_reply) \<Rightarrow> string \<Rightarrow> TransportMode \<Rightarrow> point \<Rightarrow> point \<Rightarrow> answer \<times> metric list" where
  "osrm_compute http base mode start goal =
     (case client_Route http base mode start goal of
        Inl err \<Rightarrow> (Inl (classifyOSRMError err), [recordBackendAttempt ''osrm'' (Some (classifyOSRMError err))])
      | Inr resp \<Rightarrow> (Inr \<lparr>rc_Response = resp, rc_Backend = ''osrm''\<rparr>, [recordBackendAttempt ''osrm'' None]))"

section \<open>Backends as trees\<close>

text \<open>\<open>Limited b n slots timeout\<close>: \<open>slots\<close> is \<open>None\<close> for the nil channel of an unlimited backend.\<close>

datatype backend =
    Internal InternalBackend
  | OSRM string
  | Limited backend string "nat option" int
  | Fallback backend backend

fun BackendName :: "backend \<Rightarrow> string" where
  "BackendName (Internal b) = ''internal''"
| "BackendName (OSRM base) = ''osrm''"
| "BackendName (Limited b name slots timeout) = BackendName b"
| "BackendName (Fallback primary secondary) = BackendName primary"

definition NewLimitedBackend :: "backend \<Rightarrow> int \<Rightarrow> int \<Rightarrow> string \<Rightarrow> backend" where
  "NewLimitedBackend b maxInFlight queueTimeout name =
     Limited b (if name = [] then BackendName b else name)
       (if maxInFlight > 0 then Some (nat maxInFlight) else None)
       (if queueTimeout \<le> 0 then 1000000000 else queueTimeout)"

definition NewFallbackBackend :: "backend \<Rightarrow> backend \<Rightarrow> backend" where
  "NewFallbackBackend primary secondary = Fallback primary secondary"

text \<open>
  \<open>CanServeModeWithoutLoad\<close>; \<open>None\<close> for the backends that do not implement \<open>modeReadiness\<close>.
\<close>

fun CanServeModeWithoutLoad :: "backend \<Rightarrow> TransportMode \<Rightarrow> bool option" where
  "CanServeModeWithoutLoad (Internal b) mode = Some (internal_ready b mode)"
| "CanServeModeWithoutLoad (OSRM base) mode = None"
| "CanServeModeWithoutLoad (Limited b name slots timeout) mode =
     Some (case CanServeModeWithoutLoad b mode of Some r \<Rightarrow> r | None \<Rightarrow> True)"
| "CanServeModeWithoutLoad (Fallback primary secondary) mode = None"

datatype wait = Slot | SlotTimer | SlotDone ctx_error

record call_env =
  ce_internal :: internal_env
  ce_http :: "string \<Rightarrow> http_reply"
  ce_wait :: wait

datatype side = First | Second

type_synonym envs = "side list \<Rightarrow> call_env"

definition below :: "side \<Rightarrow> envs \<Rightarrow> envs" where
  "below d env = (\<lambda>path. env (d # path))"

definition final_error :: "go_error \<Rightarrow> go_error \<Rightarrow> go_error" where
  "final_error err fallbackErr =
     (if errors_Is fallbackErr ErrRoutingTimeout \<or> errors_Is fallbackErr ErrRoutingOverloaded
         \<or> errors_Is fallbackErr ErrRouteNotFound \<or> errors_Is fallbackErr ErrRoutingBackendUnavailable
      then fallbackErr
      else wrapf ErrRoutingBackendUnavailable
             (''primary error: '' @ err_text err @ ''; fallback error: '' @ err_text fallbackErr))"

fun ComputeRouteResult ::
  "envs \<Rightarrow> backend \<Rightarrow> TransportMode \<Rightarrow> int \<Rightarrow> point \<Rightarrow> point \<Rightarrow> (answer \<times> backend \<times> metric list) option" where
  "ComputeRouteResult env (Internal b) mode alternatives start goal =
     map_option (\<lambda>(a, b', ms). (a, Internal b', ms))
       (internal_compute (ce_internal (env [])) b mode alternatives start goal)"
| "ComputeRouteResult env (OSRM base) mode alternatives start goal =
     (case osrm_compute (ce_http (env [])) base mode start goal of (a, ms) \<Rightarrow> Some (a, OSRM base, ms))"
| "ComputeRouteResult env (Limited b name slots timeout) mode alternatives start goal =
     (if slots = None \<or> name = ''internal'' \<and> mode = ModeAirplane
      then map_option (\<lambda>(a, b', ms). (a, Limited b' name slots timeout, ms))
             (ComputeRouteResult (below First env) b mode alternatives start goal)
      else case ce_wait (env []) of
             SlotTimer \<Rightarrow>
               Some (Inl (wrapf ErrRoutingOverloaded (name @ '' worker slots are full'')),
                     Limited b name slots timeout, [OverloadTotal name])
           | SlotDone e \<Rightarrow>
               Some (Inl (wrapf ErrRoutingTimeout
                       (''cancelled waiting for '' @ name @ '' worker slot: '' @ cause_text (ContextErr e))),
                     Limited b name slots timeout, [])
           | Slot \<Rightarrow>
               map_option (\<lambda>(a, b', ms). (a, Limited b' name slots timeout,
                   if name = ''internal'' then [QueueWait, WorkersInc] @ ms @ [WorkersDec] else ms))
                 (ComputeRouteResult (below First env) b mode alternatives start goal))"
| "ComputeRouteResult env (Fallback primary secondary) mode alternatives start goal =
     (case ComputeRouteResult (below First env) primary mode alternatives start goal of
        None \<Rightarrow> None
      | Some (Inr r, primary', ms) \<Rightarrow> Some (Inr r, Fallback primary' secondary, ms)
      | Some (Inl err, primary', ms) \<Rightarrow>
          if CanServeModeWithoutLoad secondary mode = Some False
          then Some (Inl (wrapf ErrRoutingBackendUnavailable
                 (''primary '' @ BackendName primary @ '' failed and secondary '' @ BackendName secondary
                  @ '' is not loaded: '' @ err_text err)), Fallback primary' secondary, ms)
          else (case ComputeRouteResult (below Second env) secondary mode alternatives start goal of
                  None \<Rightarrow> None
                | Some (Inr r, secondary', ms') \<Rightarrow> Some (Inr r, Fallback primary' secondary', ms @ ms')
                | Some (Inl fallbackErr, secondary', ms') \<Rightarrow>
                    Some (Inl (final_error err fallbackErr), Fallback primary' secondary', ms @ ms')))"

definition ComputeRoute ::
  "envs \<Rightarrow> backend \<Rightarrow> TransportMode \<Rightarrow> int \<Rightarrow> point \<Rightarrow> point
   \<Rightarrow> ((go_error + RouteResponse) \<times> backend \<times> metric list) option" where
  "ComputeRoute env b mode alternatives start goal =
     map_option (\<lambda>(a, b', ms). (map_sum id rc_Response a, b', ms))
       (ComputeRouteResult env b mode alternatives start goal)"

section \<open>The interface the service relies on\<close>

text \<open>
  What \<open>RouteService\<close> needs of a backend: an error is always one of the four routing errors,
  and a response is well formed for the mode and names the backend that made it.
\<close>

locale route_backend =
  fixes compute :: "'e \<Rightarrow> 'b \<Rightarrow> TransportMode \<Rightarrow> int \<Rightarrow> point \<Rightarrow> point \<Rightarrow> (answer \<times> 'b \<times> metric list) option"
    and name_of :: "'b \<Rightarrow> string"
  assumes classified_error: "compute e b m k p q = Some (Inl err, b', ms) \<Longrightarrow> classified err"
    and response: "compute e b m k p q = Some (Inr r, b', ms) \<Longrightarrow> response_ok m (rc_Response r)"
    and same_name: "compute e b m k p q = Some (a, b', ms) \<Longrightarrow> name_of b' = name_of b"

section \<open>One load for all callers\<close>

text \<open>
  Callers of \<open>engineFor\<close> for a road mode, interleaved at its two critical sections: a caller
  reads the engine, and if there is no graph it takes the lock, checks again and loads.
  \<open>ld_loads\<close> records the engines that were loaded and kept.
\<close>

datatype asking = Fresh | AtLock | Got Engine | Refused go_error

definition answered :: "go_error + Engine \<Rightarrow> asking" where
  "answered r = (case r of Inl e \<Rightarrow> Refused e | Inr e \<Rightarrow> Got e)"

record loading =
  ld_backend :: InternalBackend
  ld_asking :: "nat \<Rightarrow> asking"
  ld_loads :: "Engine list"

definition first_call :: "InternalBackend \<Rightarrow> loading" where
  "first_call b = \<lparr>ld_backend = b, ld_asking = (\<lambda>_. Fresh), ld_loads = []\<rparr>"

inductive load_step :: "TransportMode \<Rightarrow> loading \<Rightarrow> loading \<Rightarrow> bool" for mode where
  read_engine: "ld_asking s i = Fresh \<Longrightarrow> engine_fast (ld_backend s) mode = Some r
    \<Longrightarrow> load_step mode s (s\<lparr>ld_asking := (ld_asking s)(i := answered r)\<rparr>)"
| go_slow: "ld_asking s i = Fresh \<Longrightarrow> engine_fast (ld_backend s) mode = None
    \<Longrightarrow> load_step mode s (s\<lparr>ld_asking := (ld_asking s)(i := AtLock)\<rparr>)"
| under_lock: "ld_asking s i = AtLock \<Longrightarrow> engine_locked env (ld_backend s) = (r, b')
    \<Longrightarrow> load_step mode s \<lparr>ld_backend = b', ld_asking = (ld_asking s)(i := answered r),
          ld_loads = ld_loads s @ (case (having HasGraph (ib_engine (ld_backend s)), r) of (None, Inr e) \<Rightarrow> [e] | _ \<Rightarrow> [])\<rparr>"

definition load_inv :: "loading \<Rightarrow> bool" where
  "load_inv s \<longleftrightarrow>
     (\<forall>i e. ld_asking s i = Got e \<longrightarrow> having HasGraph (ib_engine (ld_backend s)) = Some e)
     \<and> (ld_loads s \<noteq> [] \<longrightarrow> (\<exists>e. ld_loads s = [e] \<and> having HasGraph (ib_engine (ld_backend s)) = Some e))"

lemma having_simps [simp]: "having P None = None" "having P (Some e) = (if P e then Some e else None)"
  by (simp_all add: having_def)

lemma having_Some [simp]: "having P eng = Some e \<longleftrightarrow> eng = Some e \<and> P e"
  by (auto simp: having_def split: option.splits if_splits)

lemma answered_Got [simp]: "answered r = Got e \<longleftrightarrow> r = Inr e"
  by (auto simp: answered_def split: sum.splits)

lemma engine_fast_road:
  assumes "mode \<notin> {ModeAirplane, ModeTrain, ModePublicTransport}" and "engine_fast b mode = Some (Inr e)"
  shows "having HasGraph (ib_engine b) = Some e"
  using assms by (cases "having HasGraph (ib_engine b)") (auto simp: engine_fast_def split: if_splits)

lemma engine_locked_Inr:
  assumes "engine_locked env b = (r, b')"
  shows "(case having HasGraph (ib_engine b) of
            Some e \<Rightarrow> r = Inr e \<and> b' = b
          | None \<Rightarrow> (case r of Inl _ \<Rightarrow> b' = b | Inr e \<Rightarrow> HasGraph e \<and> b' = b\<lparr>ib_engine := Some e\<rparr> \<and> env_load env = Inr (Some e)))"
  using assms
  by (cases "having HasGraph (ib_engine b)"; cases "env_load env";
      cases "having HasGraph (projr (env_load env))") (auto simp: engine_locked_def)

lemma load_inv_step:
  assumes "load_step mode s t" and "load_inv s" and "mode \<notin> {ModeAirplane, ModeTrain, ModePublicTransport}"
  shows "load_inv t"
  using assms
proof (induction rule: load_step.induct)
  case (read_engine s i r)
  then show ?case using engine_fast_road [OF read_engine(4), of "ld_backend s"] by (auto simp: load_inv_def)
next
  case (go_slow s i)
  then show ?case by (auto simp: load_inv_def)
next
  case (under_lock s i env r b')
  show ?case
  proof (cases "having HasGraph (ib_engine (ld_backend s))")
    case (Some e)
    with engine_locked_Inr [OF under_lock(2)] under_lock(3) show ?thesis
      by (auto simp: load_inv_def)
  next
    case None
    then have none: "ld_loads s = []" "\<And>i e. ld_asking s i \<noteq> Got e"
      using under_lock(3) by (auto simp: load_inv_def)
    show ?thesis
    proof (cases r)
      case (Inl err)
      with None none engine_locked_Inr [OF under_lock(2)] show ?thesis by (auto simp: load_inv_def answered_def)
    next
      case (Inr e)
      with None none engine_locked_Inr [OF under_lock(2)] show ?thesis by (auto simp: load_inv_def)
    qed
  qed
qed

text \<open>
  C15. However many callers ask for a road engine at once, at most one load is kept, and all
  callers that are given an engine are given the same one, which has a graph and stays the
  backend's engine.
\<close>

theorem lazy_load_once:
  assumes "(load_step mode)\<^sup>*\<^sup>* (first_call b) s" and "mode \<notin> {ModeAirplane, ModeTrain, ModePublicTransport}"
  shows "length (ld_loads s) \<le> 1
    \<and> (\<forall>i e. ld_asking s i = Got e \<longrightarrow> ib_engine (ld_backend s) = Some e \<and> HasGraph e)
    \<and> (\<forall>e\<in>set (ld_loads s). ib_engine (ld_backend s) = Some e)"
proof -
  from assms(1) have "load_inv s"
  proof (induction rule: rtranclp_induct)
    case base
    show ?case by (simp add: load_inv_def first_call_def)
  next
    case (step s t)
    then show ?case using load_inv_step assms(2) by blast
  qed
  then show ?thesis unfolding load_inv_def by (cases "ld_loads s") auto
qed

section \<open>Errors and responses of a backend tree\<close>

lemma engineFor_error: "engineFor env b mode = (Inl err, b') \<Longrightarrow> classified err"
  by (auto simp: engineFor_def engine_fast_def engine_locked_def no_rail_def no_transit_def
      split: option.splits if_splits sum.splits)

lemma engine_answer_error: "engine_answer env e mode k start goal = Some (Inl err) \<Longrightarrow> classified err"
  by (auto simp: engine_answer_def internal_result_def no_rail_route_def no_transit_route_def
      classifyInternalRouteError_def split: if_splits option.splits list.splits ctx_error.splits)

lemma engine_answer_response:
  assumes "engine_answer env e mode k start goal = Some (Inr r)"
  shows "response_ok mode (rc_Response r) \<and> rc_Backend r = ''internal''"
proof -
  have mm: "response_ok mode resp" if "buildMultiModalResponse mode (l # ls) = Some resp" for mode l ls resp
    using buildMultiModalResponse_ok [OF that] by simp
  show ?thesis using assms
    by (auto simp: engine_answer_def internal_result_def buildRouteResponse_ok mm
        buildMultiModalTrainResponse_def buildMultiModalTransitResponse_def
        split: if_splits option.splits list.splits)
qed

lemma internal_compute_laws:
  assumes "internal_compute env b mode k start goal = Some (a, b', ms)"
  shows "case a of Inl err \<Rightarrow> classified err | Inr r \<Rightarrow> response_ok mode (rc_Response r) \<and> rc_Backend r = ''internal''"
  using assms engine_answer_error engine_answer_response engineFor_error
  by (auto simp: internal_compute_def split: prod.splits sum.splits)

lemma classifyOSRMError_classified: "classified (classifyOSRMError err)"
  by (simp add: classifyOSRMError_def Let_def)

lemma osrm_compute_laws:
  assumes "osrm_compute http base mode start goal = (a, ms)"
  shows "case a of Inl err \<Rightarrow> classified err | Inr r \<Rightarrow> response_ok mode (rc_Response r) \<and> rc_Backend r = ''osrm''"
  using assms client_Route_ok by (auto simp: osrm_compute_def classifyOSRMError_classified split: sum.splits)

lemma final_error_classified: "classified (final_error err fallbackErr)"
  by (auto simp: final_error_def classified_def sentinels_def)

fun leaf_names :: "backend \<Rightarrow> string set" where
  "leaf_names (Internal b) = {''internal''}"
| "leaf_names (OSRM base) = {''osrm''}"
| "leaf_names (Limited b name slots timeout) = leaf_names b"
| "leaf_names (Fallback primary secondary) = leaf_names primary \<union> leaf_names secondary"

definition good_answer :: "backend \<Rightarrow> TransportMode \<Rightarrow> answer \<Rightarrow> bool" where
  "good_answer b mode a \<longleftrightarrow>
     (case a of
        Inl err \<Rightarrow> classified err
      | Inr r \<Rightarrow> response_ok mode (rc_Response r) \<and> rc_Backend r \<in> leaf_names b)"

lemma backend_laws:
  "ComputeRouteResult env b mode k start goal = Some (a, b', ms)
     \<Longrightarrow> good_answer b mode a \<and> BackendName b' = BackendName b \<and> leaf_names b' = leaf_names b"
proof (induction b arbitrary: env a b' ms)
  case (Internal b)
  then obtain c where c: "internal_compute (ce_internal (env [])) b mode k start goal = Some (a, c, ms)" "b' = Internal c"
    by auto
  from internal_compute_laws [OF c(1)] c(2) show ?case by (auto simp: good_answer_def split: sum.splits)
next
  case (OSRM base)
  obtain a' ms' where o: "osrm_compute (ce_http (env [])) base mode start goal = (a', ms')" by fastforce
  with OSRM have "a' = a" "b' = OSRM base" by auto
  with osrm_compute_laws [OF o] show ?case by (auto simp: good_answer_def split: sum.splits)
next
  case (Limited b name slots timeout)
  have cases': "(\<exists>c ms'. ComputeRouteResult (below First env) b mode k start goal = Some (a, c, ms')
        \<and> b' = Limited c name slots timeout)
      \<or> b' = Limited b name slots timeout \<and> (\<exists>err. a = Inl err \<and> classified err)"
  proof (cases "slots = None \<or> name = ''internal'' \<and> mode = ModeAirplane \<or> ce_wait (env []) = Slot")
    case True
    with Limited.prems show ?thesis by (auto split: if_splits)
  next
    case False
    with Limited.prems show ?thesis by (cases "ce_wait (env [])") (simp_all split: if_splits, auto)
  qed
  show ?case
  proof (cases "\<exists>c ms'. ComputeRouteResult (below First env) b mode k start goal = Some (a, c, ms')
      \<and> b' = Limited c name slots timeout")
    case True
    then obtain c ms' where c: "ComputeRouteResult (below First env) b mode k start goal = Some (a, c, ms')"
      "b' = Limited c name slots timeout" by blast
    from Limited.IH [OF c(1)] c(2) show ?thesis by (auto simp: good_answer_def split: sum.splits)
  next
    case False
    with cases' have "b' = Limited b name slots timeout" and "\<exists>err. a = Inl err \<and> classified err"
      by blast+
    then show ?thesis by (auto simp: good_answer_def)
  qed
next
  case (Fallback primary secondary)
  from Fallback.prems obtain a1 p1 m1 where p: "ComputeRouteResult (below First env) primary mode k start goal = Some (a1, p1, m1)"
    by (auto split: option.splits)
  note ih1 = Fallback.IH(1) [OF p]
  show ?case
  proof (cases a1)
    case (Inr r)
    with Fallback.prems p have "a = a1" "b' = Fallback p1 secondary" by simp_all
    with ih1 show ?thesis by (auto simp: good_answer_def split: sum.splits)
  next
    case (Inl err)
    show ?thesis
    proof (cases "CanServeModeWithoutLoad secondary mode = Some False")
      case True
      with Fallback.prems p Inl have "b' = Fallback p1 secondary" "\<exists>e. a = Inl e \<and> classified e" by auto
      with ih1 show ?thesis by (auto simp: good_answer_def)
    next
      case False
      with Fallback.prems p Inl obtain a2 s2 m2 where
        q: "ComputeRouteResult (below Second env) secondary mode k start goal = Some (a2, s2, m2)"
        by (auto split: option.splits)
      from Fallback.prems p q Inl False have "b' = Fallback p1 s2"
        "a = (case a2 of Inl e2 \<Rightarrow> Inl (final_error err e2) | Inr r \<Rightarrow> Inr r)"
        by (auto split: sum.splits)
      with ih1 Fallback.IH(2) [OF q] final_error_classified show ?thesis
        by (auto simp: good_answer_def split: sum.splits)
    qed
  qed
qed

interpretation tree: route_backend ComputeRouteResult BackendName
proof
  fix e b m k p q err r a b' ms
  show "ComputeRouteResult e b m k p q = Some (Inl err, b', ms) \<Longrightarrow> classified err"
    using backend_laws by (fastforce simp: good_answer_def)
  show "ComputeRouteResult e b m k p q = Some (Inr r, b', ms) \<Longrightarrow> response_ok m (rc_Response r)"
    using backend_laws by (fastforce simp: good_answer_def)
  show "ComputeRouteResult e b m k p q = Some (a, b', ms) \<Longrightarrow> BackendName b' = BackendName b"
    using backend_laws by blast
qed

section \<open>Every call is answered\<close>

text \<open>
  Engines whose searches cannot run away: road and rail graphs whose profiles are searchable,
  a finite transit graph.
\<close>

definition engine_ready :: "Engine \<Rightarrow> bool" where
  "engine_ready e \<longleftrightarrow>
     (\<forall>g mode p. eng_graph e = Some g \<and> profiles mode = Some p \<longrightarrow> route_ready g p)
     \<and> (\<forall>g p. eng_railGraph e = Some g \<and> profiles ModeTrain = Some p \<longrightarrow> route_ready g p)
     \<and> (\<forall>g. eng_transitGraph e = Some g \<longrightarrow> finite (dom (Nodes g)))"

definition env_ready :: "internal_env \<Rightarrow> bool" where
  "env_ready env \<longleftrightarrow> sort_law (env_sort env) \<and> (\<forall>g path. env_warm env g path \<noteq> None)
     \<and> (\<forall>e. env_load env = Inr (Some e) \<longrightarrow> engine_ready e)"

fun tree_ready :: "envs \<Rightarrow> backend \<Rightarrow> bool" where
  "tree_ready env (Internal b) \<longleftrightarrow> env_ready (ce_internal (env [])) \<and> (\<forall>e. ib_engine b = Some e \<longrightarrow> engine_ready e)"
| "tree_ready env (OSRM base) \<longleftrightarrow> True"
| "tree_ready env (Limited b name slots timeout) \<longleftrightarrow> tree_ready (below First env) b"
| "tree_ready env (Fallback primary secondary) \<longleftrightarrow>
     tree_ready (below First env) primary \<and> tree_ready (below Second env) secondary"

lemma walk_ready_engine: "engine_ready e \<Longrightarrow> walk_ready e"
  by (auto simp: engine_ready_def walk_ready_def)

lemma alternatives_return:
  assumes "engine_ready e" "sort_law srt"
  shows "\<exists>rs. CalculateAlternativesCtx srt order ctx e start goal mode k = Some rs"
proof (cases "eng_graph e")
  case None
  then show ?thesis by (simp add: CalculateAlternativesCtx_def Let_def)
next
  case (Some g)
  show ?thesis
  proof (cases "profiles (served_mode mode)")
    case None
    then have "graphRoutesCtx srt order ctx e g start goal (served_mode mode) k' = Some []" for k'
      by (simp add: graphRoutesCtx_def)
    then show ?thesis using Some
      by (simp add: CalculateAlternativesCtx_def Let_def served_mode_def [symmetric])
  next
    case (Some p)
    with assms(1) \<open>eng_graph e = Some g\<close> have "route_ready g p" by (auto simp: engine_ready_def)
    from CalculateAlternativesCtx_graph [OF \<open>eng_graph e = Some g\<close> Some this assms(2)] show ?thesis by blast
  qed
qed

lemma train_returns:
  assumes "engine_ready e" "sort_law srt"
  shows "\<exists>legs. ComputeTrainRoute srt order ctx e start goal = Some legs"
proof (cases "eng_railGraph e"; cases "profiles ModeTrain")
  fix rail p assume r: "eng_railGraph e = Some rail" "profiles ModeTrain = Some p"
  then have "route_ready rail p" using assms(1) by (auto simp: engine_ready_def)
  note rail = computeRailLeg_joins [OF this assms(2)]
  note walk = computeWalkLeg_joins [OF walk_ready_engine [OF assms(1)] assms(2)]
  have "computeRailLeg srt (rail_ctx ctx) e rail p s t \<noteq> None" for s t
    using rail [of "rail_ctx ctx" e s t] by force
  moreover have "computeWalkLeg srt order c e a b \<noteq> None" for c a b using walk [of order c a b] by force
  ultimately have "ComputeTrainRoute srt order ctx e start goal \<noteq> None"
    unfolding ComputeTrainRoute_def r by (simp del: not_None_eq split: option.split)
  then show ?thesis by blast
qed (simp_all add: ComputeTrainRoute_def)

lemma AStar_returns:
  assumes "finite (dom (Nodes g))"
  shows "\<exists>r. AStar g s t ok f = Some r \<and> (\<forall>p. r = Inr p \<longrightarrow> path_shape p)"
proof -
  from aStar_outcome [of "plain_query g s t ok f" False "\<lambda>_. None"] assms obtain r where
    r: "aStar (\<lambda>_. None) (plain_query g s t ok f) = Some r" "outcome (\<lambda>_. None) (plain_query g s t ok f) False r"
    by (auto simp: plain_query_def)
  have "path_shape p" if "r = Inr p" for p
    using r(2) that valid_path_shape(1) outcome_Inr path_ok_def by blast
  with r(1) show ?thesis by (auto simp: AStar_def)
qed

lemma transit_returns:
  assumes "engine_ready e" "sort_law srt" "\<And>g path. warm g path \<noteq> None"
  shows "\<exists>legs. ComputeTransitRoute srt order ctx warm e start goal = Some legs \<and> None \<notin> set legs"
proof (cases "eng_transitGraph e"; cases "profiles ModePublicTransport")
  fix g p assume g: "eng_transitGraph e = Some g" "profiles ModePublicTransport = Some p"
  then have fin: "finite (dom (Nodes g))" using assms(1) by (auto simp: engine_ready_def)
  have walk: "\<exists>r. computeWalkLeg srt order c e a b = Some r" for c a b
    using computeWalkLeg_joins [OF walk_ready_engine [OF assms(1)] assms(2)] by blast
  let ?near = "\<lambda>q. NearestRoutableNodeWithin order g (p_Lat q) (p_Lng q) transitSnapKm (Some (edgeAllowed p))"
  show ?thesis
  proof (cases "?near start"; cases "?near goal")
    fix s t assume st: "?near start = Some s" "?near goal = Some t"
    obtain r where r: "AStar g (n_ID s) (n_ID t) (Some (edgeAllowed p)) (edgeSpeed p) = Some r"
      "\<forall>path. r = Inr path \<longrightarrow> path_shape path" using AStar_returns [OF fin] by blast
    show ?thesis
    proof (cases r)
      case (Inl err)
      then show ?thesis by (simp add: ComputeTransitRoute_def g st r(1))
    next
      case (Inr path)
      obtain g' where g': "warm g path = Some g'" using assms(3) by blast
      obtain legs where legs: "splitTransitLegs g' path = Some (map Some legs)"
        using splitTransitLegs_result r(2) Inr by blast
      obtain w1 where w1: "computeWalkLeg srt order (walk1_ctx ctx) e start (node_point s) = Some w1" using walk by blast
      obtain w2 where w2: "computeWalkLeg srt order (walk2_ctx ctx) e (node_point t) goal = Some w2" using walk by blast
      show ?thesis using Inr by (simp add: ComputeTransitRoute_def g st r(1) g' legs w1 w2 walk_leg_def)
    qed
  qed (simp_all add: ComputeTransitRoute_def g)
qed (simp_all add: ComputeTransitRoute_def)

lemma engine_answer_returns:
  assumes "engine_ready e" "env_ready env"
  shows "engine_answer env e mode k start goal \<noteq> None"
proof -
  have srt: "sort_law (env_sort env)" and warm: "\<And>g path. env_warm env g path \<noteq> None"
    using assms(2) by (auto simp: env_ready_def)
  obtain rs where rs: "CalculateAlternativesCtx (env_sort env) (env_order env) (env_polls env) e start goal mode k = Some rs"
    using alternatives_return [OF assms(1) srt] by blast
  obtain ls where ls: "ComputeTrainRoute (env_sort env) (env_order env) (env_journey env) e start goal = Some ls"
    using train_returns [OF assms(1) srt] by blast
  obtain ts where ts: "ComputeTransitRoute (env_sort env) (env_order env) (env_journey env) (env_warm env) e start goal = Some ts"
    "None \<notin> set ts" using transit_returns [OF assms(1) srt, of "env_warm env"] warm by blast
  have "buildMultiModalResponse m (map Some l) \<noteq> None" for m l
    by (rule buildMultiModalResponse_returns) auto
  moreover have "buildMultiModalResponse m ts \<noteq> None" for m by (rule buildMultiModalResponse_returns [OF ts(2)])
  ultimately show ?thesis
    unfolding engine_answer_def rs ls ts(1) buildMultiModalTrainResponse_def buildMultiModalTransitResponse_def
    by (cases ls; cases ts; cases rs) (simp_all del: not_None_eq list.map add: list.map(1))
qed

lemma engineFor_ready:
  assumes "engineFor env b mode = (Inr e, b')" and "env_ready env" and "\<forall>e. ib_engine b = Some e \<longrightarrow> engine_ready e"
  shows "engine_ready e"
proof (cases "engine_fast b mode")
  case None
  with assms(1) have "engine_locked env b = (Inr e, b')" by (simp add: engineFor_def)
  from engine_locked_Inr [OF this] assms(2,3) show ?thesis
    by (auto simp: env_ready_def split: option.splits)
next
  case (Some r)
  with assms(1) have "engine_fast b mode = Some (Inr e)" by (simp add: engineFor_def)
  with assms(3) show ?thesis
    by (auto simp: engine_fast_def engine_ready_def NewEngineWithGraph_def split: if_splits option.splits)
qed

lemma tree_returns: "tree_ready env b \<Longrightarrow> \<exists>x. ComputeRouteResult env b mode k start goal = Some x"
proof (induction b arbitrary: env)
  case (Internal b)
  have "internal_compute (ce_internal (env [])) b mode k start goal \<noteq> None"
  proof (cases "engineFor (ce_internal (env [])) b mode")
    case (Pair r b')
    then show ?thesis
      using engineFor_ready [of "ce_internal (env [])" b mode _ b'] engine_answer_returns Internal
      by (cases r) (auto simp: internal_compute_def)
  qed
  then show ?case by auto
next
  case (Limited b name slots timeout)
  then obtain x where "ComputeRouteResult (below First env) b mode k start goal = Some x" by fastforce
  then show ?case by (cases x) (auto split: wait.splits)
next
  case (Fallback primary secondary)
  then obtain x y where "ComputeRouteResult (below First env) primary mode k start goal = Some x"
    "ComputeRouteResult (below Second env) secondary mode k start goal = Some y" by fastforce
  moreover obtain a p ms where "x = (a, p, ms)" by (cases x)
  moreover obtain a2 s ms2 where "y = (a2, s, ms2)" by (cases y)
  ultimately show ?case by (cases a; cases a2) auto
qed (simp add: split_beta)

text \<open>
  C12. Every call of every backend built from the internal engine, OSRM, limits and fallbacks
  is answered, whatever the contexts, the loader, the OSRM server and the waits for slots do:
  with a response that is well formed for the mode and names a leaf backend of the tree as
  its maker, or with one of the four routing errors, so that the HTTP status is 404, 503 or
  504, never 500.
\<close>

theorem ComputeRouteResult_answers:
  assumes "tree_ready env b"
  shows "\<exists>a b' ms. ComputeRouteResult env b mode k start goal = Some (a, b', ms) \<and> BackendName b' = BackendName b
    \<and> (case a of
         Inl err \<Rightarrow> classified err \<and> fst (mapServiceError err) \<in> {404, 503, 504}
       | Inr r \<Rightarrow> response_ok mode (rc_Response r) \<and> rc_Backend r \<in> leaf_names b)"
proof -
  obtain a b' ms where c: "ComputeRouteResult env b mode k start goal = Some (a, b', ms)"
    using tree_returns [OF assms] by (metis prod_cases3)
  from backend_laws [OF c] have "good_answer b mode a" "BackendName b' = BackendName b" by auto
  then show ?thesis using c classified_status
    by (intro exI [of _ a] exI [of _ b'] exI [of _ ms]) (auto simp: good_answer_def split: sum.splits)
qed

section \<open>Examples\<close>

definition rail_engine :: Engine where
  "rail_engine = SetRailGraph (NewEngineWithGraph 40 None 60) (Some two_nodes)"

definition road_engine :: Engine where
  "road_engine = NewEngineWithGraph 40 (Some two_nodes) 60"

definition quiet_env :: internal_env where
  "quiet_env = \<lparr>env_sort = insertion_sort, env_order = [], env_polls = background,
     env_journey = \<lparr>rail_ctx = (\<lambda>_ _. None), walk1_ctx = background, walk2_ctx = background\<rparr>,
     env_warm = (\<lambda>g _. Some g), env_load = Inr (Some rail_engine), env_load_ctx = None, env_ctx_err = None\<rparr>"

definition quiet_envs :: envs where
  "quiet_envs = (\<lambda>_. \<lparr>ce_internal = quiet_env, ce_http = (\<lambda>_. Status 400), ce_wait = Slot\<rparr>)"

text \<open>\<open>buildRouteBackend\<close> of \<open>cmd/server/main.go\<close>; the engine and the loader are in \<open>b\<close>.\<close>

definition buildRouteBackend :: "string \<Rightarrow> string \<Rightarrow> int \<Rightarrow> int \<Rightarrow> int \<Rightarrow> InternalBackend \<Rightarrow> backend" where
  "buildRouteBackend routingBackend osrmBaseURL osrmMaxInFlight internalMaxInFlight queueTimeoutMs b =
     (let queueTimeout = queueTimeoutMs * 1000000;
          internalLimited = NewLimitedBackend (Internal b) internalMaxInFlight queueTimeout ''internal'' in
      if ToLower routingBackend = ''osrm'' \<and> osrmBaseURL \<noteq> []
      then NewFallbackBackend
             (NewLimitedBackend (OSRM (NewOSRMClient osrmBaseURL)) osrmMaxInFlight queueTimeout ''osrm'')
             internalLimited
      else internalLimited)"

definition server_backend :: "InternalBackend \<Rightarrow> backend" where
  "server_backend b = buildRouteBackend ''OSRM'' ''http://osrm:5000/'' 8 2 1000 b"

lemma rail_engine_ready: "engine_ready rail_engine"
proof -
  have p: "profiles ModeTrain = Some train_profile" by (simp add: profiles_def train_profile_def mode_defs)
  have "route_ready two_nodes train_profile"
    by (rule two_nodes_ready_gen) (auto simp: edgeTravelTimeHours_def train_profile_def trainSpeed_def)
  with p show ?thesis by (simp add: engine_ready_def rail_engine_def SetRailGraph_def NewEngineWithGraph_def)
qed

lemma server_tree_ready: "tree_ready quiet_envs (server_backend (NewInternalBackend (Some rail_engine)))"
  using rail_engine_ready sort_law_insertion
  by (simp add: server_backend_def buildRouteBackend_def Let_def NewFallbackBackend_def NewLimitedBackend_def NewInternalBackend_def
      NewInternalBackendWithConfig_def quiet_envs_def below_def env_ready_def quiet_env_def)

theorem ComputeRouteResult_answers_witness:
  "\<exists>a b' ms. ComputeRouteResult quiet_envs (server_backend (NewInternalBackend (Some rail_engine))) ModeTrain 1
     \<lparr>p_Lat = 35, p_Lng = 51\<rparr> \<lparr>p_Lat = 36, p_Lng = 51\<rparr> = Some (a, b', ms)"
  using ComputeRouteResult_answers [OF server_tree_ready] by blast

definition lazy_backend :: InternalBackend where
  "lazy_backend = NewInternalBackendWithConfig None 40 True True True"

theorem lazy_load_once_witness:
  "\<exists>s. (load_step ModeCar)\<^sup>*\<^sup>* (first_call lazy_backend) s \<and> ld_loads s = [road_engine]
     \<and> ib_engine (ld_backend s) = Some road_engine"
proof -
  let ?env = "quiet_env\<lparr>env_load := Inr (Some road_engine)\<rparr>"
  let ?s1 = "first_call lazy_backend\<lparr>ld_asking := (ld_asking (first_call lazy_backend))(1 := AtLock)\<rparr>"
  have slow: "engine_fast lazy_backend ModeCar = None"
    by (simp add: engine_fast_def lazy_backend_def NewInternalBackendWithConfig_def mode_defs)
  have 1: "load_step ModeCar (first_call lazy_backend) ?s1"
    by (rule load_step.go_slow) (simp_all add: slow first_call_def)
  have g: "HasGraph road_engine" by (simp add: road_engine_def HasGraph_def NewEngineWithGraph_def)
  have l: "engine_locked ?env (ld_backend ?s1) = (Inr road_engine, lazy_backend\<lparr>ib_engine := Some road_engine\<rparr>)"
    using g by (simp add: engine_locked_def first_call_def lazy_backend_def NewInternalBackendWithConfig_def)
  have "ld_asking ?s1 1 = AtLock" by simp
  from load_step.under_lock [OF this l] obtain s2 where s2: "load_step ModeCar ?s1 s2" "ld_loads s2 = [road_engine]"
    by (force simp: first_call_def lazy_backend_def NewInternalBackendWithConfig_def)
  have "(load_step ModeCar)\<^sup>*\<^sup>* (first_call lazy_backend) s2"
    using 1 s2(1) by (meson rtranclp.rtrancl_into_rtrancl rtranclp.rtrancl_refl)
  moreover from lazy_load_once [OF this] s2(2) have "ib_engine (ld_backend s2) = Some road_engine"
    by (simp add: mode_defs)
  ultimately show ?thesis using s2(2) by blast
qed

end
