(* ===== verification/Cache.thy ===== *)
theory Cache
  imports RouteModel
begin

text \<open>
  \<open>internal/cache/keys.go\<close> and the JSON helpers of \<open>internal/cache/redis.go\<close>: the keys under
  which the services keep their data in Redis, and the values they keep.  Redis itself is a
  parameter: a record of its operations on an abstract state, with the laws a theorem needs
  as named hypotheses.  \<open>json.Marshal\<close> followed by \<open>json.Unmarshal\<close> gives a route response
  back without its \<open>Routes\<close> field, which is tagged \<open>json:"-"\<close>.
\<close>

section \<open>Keys\<close>

definition routeCacheVersion :: string where
  "routeCacheVersion = ''v15-prod-routing-cache-precision''"

definition TripLocationKey :: "int \<Rightarrow> string" where
  "TripLocationKey t = ''trip:'' @ FormatInt t @ '':location''"

definition TripLastUpdateKey :: "int \<Rightarrow> string" where
  "TripLastUpdateKey t = ''trip:'' @ FormatInt t @ '':last_update''"

definition TripRouteKey :: "int \<Rightarrow> string" where
  "TripRouteKey t = ''trip:'' @ FormatInt t @ '':route''"

definition DriverLocationKey :: "string \<Rightarrow> string" where
  "DriverLocationKey d = ''driver:'' @ d @ '':location''"

definition RateLimitKey :: "int \<Rightarrow> string" where
  "RateLimitKey t = ''rl:trip:'' @ FormatInt t"

definition NormalizeRoutePrecision :: "int \<Rightarrow> int" where
  "NormalizeRoutePrecision p = (if p < 0 then 0 else if p > 6 then 6 else p)"

definition or_default :: "string \<Rightarrow> string \<Rightarrow> string" where
  "or_default d s = (if s = [] then d else s)"

definition RouteKeyWithPrecision :: "string \<Rightarrow> string \<Rightarrow> int \<Rightarrow> int \<Rightarrow> point \<Rightarrow> point \<Rightarrow> string" where
  "RouteKeyWithPrecision backend mode alternatives precision start goal =
     (let p = nat (NormalizeRoutePrecision precision) in
      ''route:'' @ routeCacheVersion @ '':'' @ or_default ''internal'' backend @ '':'' @ or_default ''car'' mode
      @ '':'' @ FormatInt (if alternatives \<le> 0 then 1 else alternatives)
      @ '':'' @ FormatFixed p (p_Lat start) @ '':'' @ FormatFixed p (p_Lng start)
      @ '':'' @ FormatFixed p (p_Lat goal) @ '':'' @ FormatFixed p (p_Lng goal))"

definition RouteKey :: "string \<Rightarrow> string \<Rightarrow> int \<Rightarrow> point \<Rightarrow> point \<Rightarrow> string" where
  "RouteKey backend mode alternatives start goal = RouteKeyWithPrecision backend mode alternatives 6 start goal"

section \<open>Which requests share a key\<close>

text \<open>What a coordinate printed with \<open>p\<close> decimals keeps of it.\<close>

definition cell :: "nat \<Rightarrow> point \<Rightarrow> (nat \<times> bool) \<times> (nat \<times> bool)" where
  "cell p q = ((fixed_units p (p_Lat q), p_Lat q < 0), (fixed_units p (p_Lng q), p_Lng q < 0))"

lemma FormatInt_no_colon: "CHR '':'' \<notin> set (FormatInt n)"
  by (auto simp: FormatInt_def nat_text_no)

lemma FormatFixed_iff: "FormatFixed p x = FormatFixed p y \<longleftrightarrow> fixed_units p x = fixed_units p y \<and> (x < 0 \<longleftrightarrow> y < 0)"
  using FormatFixed_inj FormatFixed_eq by blast

lemma colon_split:
  assumes "CHR '':'' \<notin> set a" and "CHR '':'' \<notin> set b"
  shows "a @ CHR '':'' # u = b @ CHR '':'' # v \<longleftrightarrow> a = b \<and> u = v"
  using append_sep_inj [OF _ assms] by blast

lemma RouteKey_iff:
  assumes "CHR '':'' \<notin> set b1 \<union> set m1 \<union> set b2 \<union> set m2"
  shows "RouteKeyWithPrecision b1 m1 a1 p s1 g1 = RouteKeyWithPrecision b2 m2 a2 p s2 g2
    \<longleftrightarrow> or_default ''internal'' b1 = or_default ''internal'' b2 \<and> or_default ''car'' m1 = or_default ''car'' m2
      \<and> max 1 a1 = max 1 a2
      \<and> cell (nat (NormalizeRoutePrecision p)) s1 = cell (nat (NormalizeRoutePrecision p)) s2
      \<and> cell (nat (NormalizeRoutePrecision p)) g1 = cell (nat (NormalizeRoutePrecision p)) g2"
proof -
  have m: "(if a \<le> 0 then 1 else a) = max 1 a" for a :: int by auto
  have nc: "CHR '':'' \<notin> set (or_default ''internal'' b1)" "CHR '':'' \<notin> set (or_default ''internal'' b2)"
    "CHR '':'' \<notin> set (or_default ''car'' m1)" "CHR '':'' \<notin> set (or_default ''car'' m2)"
    using assms by (simp_all add: or_default_def)
  show ?thesis
    unfolding RouteKeyWithPrecision_def Let_def m
    by (simp add: colon_split nc FormatInt_no_colon FormatFixed_no_colon FormatInt_inj FormatFixed_iff cell_def)
qed

lemma cell_close: "cell p a = cell p b \<Longrightarrow> \<bar>p_Lat a - p_Lat b\<bar> \<le> 1 / 10 ^ p \<and> \<bar>p_Lng a - p_Lng b\<bar> \<le> 1 / 10 ^ p"
  using FormatFixed_close [of p "p_Lat a" "p_Lat b"] FormatFixed_close [of p "p_Lng a" "p_Lng b"]
  by (simp add: cell_def FormatFixed_iff)

text \<open>
  Two requests share a route key exactly when they agree on the backend, the mode, the
  number of alternatives (after the defaults) and on every coordinate rounded to the
  configured number of decimals; so a cached route is only ever reused for end points
  within one unit of the last decimal.
\<close>

theorem RouteKey_collision:
  fixes p :: int
  assumes "CHR '':'' \<notin> set b1 \<union> set m1 \<union> set b2 \<union> set m2"
  defines "d \<equiv> nat (NormalizeRoutePrecision p)"
  shows "(RouteKeyWithPrecision b1 m1 a1 p s1 g1 = RouteKeyWithPrecision b2 m2 a2 p s2 g2
      \<longleftrightarrow> or_default ''internal'' b1 = or_default ''internal'' b2 \<and> or_default ''car'' m1 = or_default ''car'' m2
        \<and> max 1 a1 = max 1 a2 \<and> cell d s1 = cell d s2 \<and> cell d g1 = cell d g2)
    \<and> (RouteKeyWithPrecision b1 m1 a1 p s1 g1 = RouteKeyWithPrecision b2 m2 a2 p s2 g2
      \<longrightarrow> \<bar>p_Lat s1 - p_Lat s2\<bar> \<le> 1 / 10 ^ d \<and> \<bar>p_Lng s1 - p_Lng s2\<bar> \<le> 1 / 10 ^ d
        \<and> \<bar>p_Lat g1 - p_Lat g2\<bar> \<le> 1 / 10 ^ d \<and> \<bar>p_Lng g1 - p_Lng g2\<bar> \<le> 1 / 10 ^ d)"
  using RouteKey_iff [OF assms(1), of a1 p s1 g1 a2 s2 g2] cell_close [of d s1 s2] cell_close [of d g1 g2]
  unfolding d_def by blast

theorem RouteKey_collision_witness:
  "RouteKeyWithPrecision ''osrm'' ''car'' 0 5 \<lparr>p_Lat = 35, p_Lng = 51\<rparr> \<lparr>p_Lat = 36, p_Lng = 52\<rparr>
     \<noteq> RouteKeyWithPrecision ''internal'' ''car'' 0 5 \<lparr>p_Lat = 35, p_Lng = 51\<rparr> \<lparr>p_Lat = 36, p_Lng = 52\<rparr>"
  using RouteKey_collision [of "''osrm''" "''car''" "''internal''" "''car''" 0 5 "\<lparr>p_Lat = 35, p_Lng = 51\<rparr>"
      "\<lparr>p_Lat = 36, p_Lng = 52\<rparr>" 0 "\<lparr>p_Lat = 35, p_Lng = 51\<rparr>" "\<lparr>p_Lat = 36, p_Lng = 52\<rparr>"]
  by (simp add: or_default_def)

section \<open>The keys of the services do not meet\<close>

lemma trip_keys_inj [simp]:
  "TripLocationKey a = TripLocationKey b \<longleftrightarrow> a = b" "TripRouteKey a = TripRouteKey b \<longleftrightarrow> a = b"
  "TripLastUpdateKey a = TripLastUpdateKey b \<longleftrightarrow> a = b" "RateLimitKey a = RateLimitKey b \<longleftrightarrow> a = b"
  by (simp_all add: TripLocationKey_def TripRouteKey_def TripLastUpdateKey_def RateLimitKey_def FormatInt_inj)

lemma trip_keys_disjoint [simp]:
  "TripLocationKey a \<noteq> TripRouteKey b" "TripRouteKey b \<noteq> TripLocationKey a"
  "TripLocationKey a \<noteq> TripLastUpdateKey b" "TripLastUpdateKey b \<noteq> TripLocationKey a"
  "TripRouteKey a \<noteq> TripLastUpdateKey b" "TripLastUpdateKey b \<noteq> TripRouteKey a"
  "RateLimitKey a \<noteq> TripRouteKey b" "TripRouteKey b \<noteq> RateLimitKey a"
  "RateLimitKey a \<noteq> TripLocationKey b" "TripLocationKey b \<noteq> RateLimitKey a"
  "RateLimitKey a \<noteq> TripLastUpdateKey b" "TripLastUpdateKey b \<noteq> RateLimitKey a"
  by (simp_all add: TripLocationKey_def TripRouteKey_def TripLastUpdateKey_def RateLimitKey_def colon_split
      FormatInt_no_colon)

lemma route_trip_disjoint [simp]:
  "RouteKeyWithPrecision b m n p s g \<noteq> TripRouteKey t" "TripRouteKey t \<noteq> RouteKeyWithPrecision b m n p s g"
  by (simp_all add: TripRouteKey_def RouteKeyWithPrecision_def Let_def)

section \<open>Values and operations\<close>

record LocationState =
  ls_TripID :: int
  ls_Lat :: float64
  ls_Lng :: float64
  ls_SpeedKmH :: float64
  ls_Timestamp :: int
  ls_DeviationKm :: float64

datatype redis_value = VRoute RouteResponse | VLocation LocationState | VInt int

definition json_route :: "RouteResponse \<Rightarrow> RouteResponse" where
  "json_route r = r\<lparr>rr_Routes := []\<rparr>"

text \<open>
  The commands the services send, on an abstract server state: a read gives nothing when the
  key is missing, expired or the server fails; a failed write leaves the state alone.
  \<open>SETNX\<close> answers \<open>None\<close> when the command fails.
\<close>

record 's redis =
  rd_get :: "'s \<Rightarrow> string \<Rightarrow> redis_value option"
  rd_set :: "'s \<Rightarrow> string \<Rightarrow> redis_value \<Rightarrow> 's"
  rd_setnx :: "'s \<Rightarrow> string \<Rightarrow> int \<Rightarrow> bool option \<times> 's"

text \<open>Redis answers a read with the last value written under that key (before it expires).\<close>

definition redis_ok :: "'s redis \<Rightarrow> bool" where
  "redis_ok rd \<longleftrightarrow> (\<forall>st k v. rd_get rd (rd_set rd st k v) = (rd_get rd st)(k \<mapsto> v))
     \<and> (\<forall>st k w k'. k' \<noteq> k \<longrightarrow> rd_get rd (snd (rd_setnx rd st k w)) k' = rd_get rd st k')"

lemma redis_get_set: "redis_ok rd \<Longrightarrow> rd_get rd (rd_set rd st k v) k' = (if k' = k then Some v else rd_get rd st k')"
  by (simp add: redis_ok_def)

text \<open>A server that keeps everything in memory, for examples.\<close>

definition map_redis :: "(string \<Rightarrow> redis_value option) redis" where
  "map_redis = \<lparr>rd_get = (\<lambda>m. m), rd_set = (\<lambda>m k v. m(k \<mapsto> v)),
     rd_setnx = (\<lambda>m k w. if m k = None then (Some True, m(k \<mapsto> VInt 1)) else (Some False, m))\<rparr>"

lemma map_redis_ok: "redis_ok map_redis"
  by (simp add: redis_ok_def map_redis_def)

definition SetRoute :: "'s redis \<Rightarrow> 's \<Rightarrow> string \<Rightarrow> RouteResponse \<Rightarrow> 's" where
  "SetRoute rd st key r = rd_set rd st key (VRoute (json_route r))"

definition GetRoute :: "'s redis \<Rightarrow> 's \<Rightarrow> string \<Rightarrow> RouteResponse option" where
  "GetRoute rd st key = (case rd_get rd st key of Some (VRoute r) \<Rightarrow> Some r | _ \<Rightarrow> None)"

definition SetTripRoute :: "'s redis \<Rightarrow> 's \<Rightarrow> int \<Rightarrow> RouteResponse \<Rightarrow> 's" where
  "SetTripRoute rd st t r = rd_set rd st (TripRouteKey t) (VRoute (json_route r))"

definition GetTripRoute :: "'s redis \<Rightarrow> 's \<Rightarrow> int \<Rightarrow> RouteResponse option" where
  "GetTripRoute rd st t = GetRoute rd st (TripRouteKey t)"

definition SetLocation :: "'s redis \<Rightarrow> 's \<Rightarrow> int \<Rightarrow> LocationState \<Rightarrow> 's" where
  "SetLocation rd st t l = rd_set rd st (TripLocationKey t) (VLocation l)"

definition GetLocation :: "'s redis \<Rightarrow> 's \<Rightarrow> int \<Rightarrow> LocationState option" where
  "GetLocation rd st t = (case rd_get rd st (TripLocationKey t) of Some (VLocation l) \<Rightarrow> Some l | _ \<Rightarrow> None)"

definition SetLastUpdate :: "'s redis \<Rightarrow> 's \<Rightarrow> int \<Rightarrow> int \<Rightarrow> 's" where
  "SetLastUpdate rd st t ts = rd_set rd st (TripLastUpdateKey t) (VInt ts)"

definition GetLastUpdate :: "'s redis \<Rightarrow> 's \<Rightarrow> int \<Rightarrow> int" where
  "GetLastUpdate rd st t = (case rd_get rd st (TripLastUpdateKey t) of Some (VInt n) \<Rightarrow> n | _ \<Rightarrow> 0)"

definition AcquireRateLimit :: "'s redis \<Rightarrow> 's \<Rightarrow> int \<Rightarrow> int \<Rightarrow> bool option \<times> 's" where
  "AcquireRateLimit rd st t windowMs = rd_setnx rd st (RateLimitKey t) windowMs"

lemmas redis_ops = SetRoute_def GetRoute_def SetTripRoute_def GetTripRoute_def SetLocation_def GetLocation_def
  SetLastUpdate_def GetLastUpdate_def AcquireRateLimit_def

end
