(* ===== verification/RouteService.thy ===== *)
theory RouteService
  imports RouteBackend Cache
begin

text \<open>
  \<open>RouteService\<close> of \<open>internal/route/service.go\<close>: cache lookup, the total concurrency limit,
  \<open>singleflight\<close>, the backend call, and the effects that follow.  One call is one function
  on the service's state: the backend, the Redis state and the list of effects started in
  the background.  \<open>singleflight\<close> is third-party: a call either runs its own computation or is
  given the value of another call in flight for the same key, which is part of its
  environment.  The service is written against the backend interface, and its lemmas are
  proved from that interface's laws.
\<close>

section \<open>Requests\<close>

definition defaultRouteAlternatives :: int where "defaultRouteAlternatives = 1"
definition maxRouteAlternatives :: int where "maxRouteAlternatives = 3"

definition routeMode :: "RouteRequest \<Rightarrow> string" where
  "routeMode req = (if rq_VehicleType req \<noteq> [] then rq_VehicleType req else rq_Mode req)"

definition normalizeAlternatives :: "int \<Rightarrow> int option \<Rightarrow> int" where
  "normalizeAlternatives n maxAllowed =
     (let mx = (case maxAllowed of Some a \<Rightarrow> if a > 0 then a else maxRouteAlternatives | None \<Rightarrow> maxRouteAlternatives);
          mx = (if mx > maxRouteAlternatives then maxRouteAlternatives else mx)
      in if n \<le> 0 then defaultRouteAlternatives else if n > mx then mx else n)"

definition mode_error_text :: "mode_error \<Rightarrow> string" where
  "mode_error_text e = (case e of UnsupportedMode raw \<Rightarrow>
     ''unsupported routing mode '' @ Quote raw
     @ ''; supported modes: car, motorcycle, bus, walking, train, public_transport'')"

section \<open>The service\<close>

datatype effect =
    Persist RouteRequest RouteResponse
  | PublishRouteCalculated int RouteResponse
  | CacheTotal string
  | Backend metric

record ('b, 's) service =
  sv_backend :: 'b
  sv_redis :: "'s option"
  sv_bus :: bool
  sv_repo :: bool
  sv_sem :: "nat option"
  sv_semTimeout :: int
  sv_routeTimeout :: int
  sv_cachePrecision :: int
  sv_maxAlternatives :: int
  sv_effects :: "effect list"

text \<open>\<open>NewRouteService\<close>; times are in milliseconds.\<close>

definition NewRouteService ::
  "'b \<Rightarrow> 's option \<Rightarrow> bool \<Rightarrow> bool \<Rightarrow> int \<Rightarrow> int \<Rightarrow> int \<Rightarrow> int \<Rightarrow> int \<Rightarrow> ('b, 's) service" where
  "NewRouteService backend redis bus repo maxInFlight queueTimeoutMs routeTimeoutMs precision maxAlt =
     \<lparr>sv_backend = backend, sv_redis = redis, sv_bus = bus, sv_repo = repo,
      sv_sem = (if maxInFlight > 0 then Some (nat maxInFlight) else None),
      sv_semTimeout = (if queueTimeoutMs \<le> 0 then 1000 else queueTimeoutMs),
      sv_routeTimeout = routeTimeoutMs,
      sv_cachePrecision = (if precision \<le> 0 then 5 else NormalizeRoutePrecision precision),
      sv_maxAlternatives =
        (let m = (if maxAlt \<le> 0 then defaultRouteAlternatives else maxAlt)
         in if m > maxRouteAlternatives then maxRouteAlternatives else m),
      sv_effects = []\<rparr>"

record RouteMeta =
  mt_Backend :: string
  mt_CacheHit :: bool
  mt_Mode :: string
  mt_Alternatives :: int

text \<open>
  What a call meets: the backend's environment, how its wait for a slot ends, and the value
  of another call's flight when it joins one.
\<close>

record 'e service_env =
  sc_env :: 'e
  sc_wait :: wait
  sc_flight :: "answer option"

type_synonym ('e, 'b) computes =
  "'e \<Rightarrow> 'b \<Rightarrow> TransportMode \<Rightarrow> int \<Rightarrow> point \<Rightarrow> point \<Rightarrow> (answer \<times> 'b \<times> metric list) option"

definition effects :: "effect list \<Rightarrow> ('b, 's) service \<Rightarrow> ('b, 's) service" where
  "effects es sv = sv\<lparr>sv_effects := sv_effects sv @ es\<rparr>"

definition persistRoute :: "RouteRequest \<Rightarrow> RouteResponse \<Rightarrow> ('b, 's) service \<Rightarrow> ('b, 's) service" where
  "persistRoute req resp sv = (if sv_repo sv then effects [Persist req resp] sv else sv)"

definition publishRouteCalculated :: "int \<Rightarrow> RouteResponse \<Rightarrow> ('b, 's) service \<Rightarrow> ('b, 's) service" where
  "publishRouteCalculated tripID resp sv =
     (if tripID \<le> 0 \<or> \<not> sv_bus sv then sv else effects [PublishRouteCalculated tripID resp] sv)"

definition keep_trip_route :: "'s redis \<Rightarrow> RouteRequest \<Rightarrow> RouteResponse \<Rightarrow> ('b, 's) service \<Rightarrow> ('b, 's) service" where
  "keep_trip_route rd req resp sv =
     (case sv_redis sv of
        Some st \<Rightarrow> if rq_TripID req > 0 then sv\<lparr>sv_redis := Some (SetTripRoute rd st (rq_TripID req) resp)\<rparr> else sv
      | None \<Rightarrow> sv)"

definition request_key :: "string \<Rightarrow> ('b, 's) service \<Rightarrow> RouteRequest \<Rightarrow> TransportMode \<Rightarrow> string" where
  "request_key name sv req mode =
     RouteKeyWithPrecision name mode (normalizeAlternatives (rq_Alternatives req) (Some (sv_maxAlternatives sv)))
       (sv_cachePrecision sv) (rq_Start req) (rq_End req)"

definition cached_route :: "'s redis \<Rightarrow> ('b, 's) service \<Rightarrow> string \<Rightarrow> RouteResponse option" where
  "cached_route rd sv key =
     (case sv_redis sv of
        None \<Rightarrow> None
      | Some st \<Rightarrow> (case GetRoute rd st key of Some r \<Rightarrow> if rr_Distance r > 0 then Some r else None | None \<Rightarrow> None))"

text \<open>The function given to \<open>group.Do\<close>: compute, and put a success into the cache.\<close>

definition run_flight ::
  "('e, 'b) computes \<Rightarrow> 's redis \<Rightarrow> 'e \<Rightarrow> ('b, 's) service \<Rightarrow> string \<Rightarrow> TransportMode \<Rightarrow> int \<Rightarrow> RouteRequest
   \<Rightarrow> (answer \<times> ('b, 's) service) option" where
  "run_flight compute rd e sv key mode alternatives req =
     (case compute e (sv_backend sv) mode alternatives (rq_Start req) (rq_End req) of
        None \<Rightarrow> None
      | Some (a, b', ms) \<Rightarrow>
          let sv' = effects (map Backend ms) (sv\<lparr>sv_backend := b'\<rparr>) in
          Some (a, case (a, sv_redis sv) of
                     (Inr r, Some st) \<Rightarrow> sv'\<lparr>sv_redis := Some (SetRoute rd st key (rc_Response r))\<rparr>
                   | _ \<Rightarrow> sv'))"

definition CalculateWithMeta ::
  "('e, 'b) computes \<Rightarrow> ('b \<Rightarrow> string) \<Rightarrow> 's redis \<Rightarrow> 'e service_env \<Rightarrow> ('b, 's) service \<Rightarrow> RouteRequest
   \<Rightarrow> ((go_error + RouteResponse) \<times> RouteMeta \<times> ('b, 's) service) option" where
  "CalculateWithMeta compute name_of rd env sv req =
     (let name = name_of (sv_backend sv);
          meta = \<lparr>mt_Backend = name, mt_CacheHit = False, mt_Mode = [], mt_Alternatives = 0\<rparr> in
      case NormalizeMode (routeMode req) of
        Inl err \<Rightarrow> Some (Inl (plain (mode_error_text err)), meta, sv)
      | Inr mode \<Rightarrow>
          let alternatives = normalizeAlternatives (rq_Alternatives req) (Some (sv_maxAlternatives sv));
              meta = meta\<lparr>mt_Mode := mode, mt_Alternatives := alternatives\<rparr>;
              key = request_key name sv req mode in
          case cached_route rd sv key of
            Some cached \<Rightarrow>
              let sv1 = effects [CacheTotal ''hit'', Backend (BackendTotal ''cache'' ''success'')] sv in
              Some (Inr cached, meta\<lparr>mt_Backend := ''cache'', mt_CacheHit := True\<rparr>,
                    persistRoute req cached (keep_trip_route rd req cached sv1))
          | None \<Rightarrow>
              let sv1 = (if sv_redis sv = None then sv else effects [CacheTotal ''miss''] sv) in
              if sv_sem sv \<noteq> None \<and> sc_wait env = SlotTimer
              then Some (Inl (bare ErrRoutingOverloaded), meta, effects [Backend (OverloadTotal ''total'')] sv1)
              else if sv_sem sv \<noteq> None \<and> sc_wait env \<noteq> Slot
              then Some (Inl (wrapf ErrRoutingTimeout (''request cancelled while waiting for total routing slot: ''
                     @ (case sc_wait env of SlotDone e \<Rightarrow> cause_text (ContextErr e) | _ \<Rightarrow> []))), meta, sv1)
              else case (case sc_flight env of
                           Some a \<Rightarrow> Some (a, sv1)
                         | None \<Rightarrow> run_flight compute rd (sc_env env) sv1 key mode alternatives req) of
                     None \<Rightarrow> None
                   | Some (Inl err, sv2) \<Rightarrow> Some (Inl err, meta, sv2)
                   | Some (Inr r, sv2) \<Rightarrow>
                       let resp = rc_Response r;
                           meta = (if rc_Backend r \<noteq> [] then meta\<lparr>mt_Backend := rc_Backend r\<rparr> else meta)
                       in Some (Inr resp, meta,
                            publishRouteCalculated (rq_TripID req) resp
                              (persistRoute req resp (keep_trip_route rd req resp sv2))))"

definition service_Calculate ::
  "('e, 'b) computes \<Rightarrow> ('b \<Rightarrow> string) \<Rightarrow> 's redis \<Rightarrow> 'e service_env \<Rightarrow> ('b, 's) service \<Rightarrow> RouteRequest
   \<Rightarrow> ((go_error + RouteResponse) \<times> ('b, 's) service) option" where
  "service_Calculate compute name_of rd env sv req =
     map_option (\<lambda>(a, meta, sv'). (a, sv')) (CalculateWithMeta compute name_of rd env sv req)"

section \<open>What the cache holds\<close>

definition request_modes :: "TransportMode set" where
  "request_modes = insert ModeAirplane (dom profiles)"

text \<open>
  Every route found under a key of this service has the key's mode, and no list of options:
  the list does not survive JSON.
\<close>

definition cache_inv :: "('b \<Rightarrow> string) \<Rightarrow> 's redis \<Rightarrow> ('b, 's) service \<Rightarrow> bool" where
  "cache_inv name_of rd sv \<longleftrightarrow>
     CHR '':'' \<notin> set (name_of (sv_backend sv))
     \<and> (\<forall>st mode k p q r. sv_redis sv = Some st \<longrightarrow> mode \<in> request_modes
          \<longrightarrow> GetRoute rd st (RouteKeyWithPrecision (name_of (sv_backend sv)) mode k (sv_cachePrecision sv) p q) = Some r
          \<longrightarrow> rr_Mode r = mode \<and> rr_Routes r = [])"

lemma request_modes_text: "m \<in> request_modes \<Longrightarrow> CHR '':'' \<notin> set m \<and> or_default ''car'' m = m"
  by (auto simp: request_modes_def profiles_dom mode_defs or_default_def)

lemma effects_simps [simp]: "sv_backend (effects es sv) = sv_backend sv" "sv_redis (effects es sv) = sv_redis sv"
  "sv_cachePrecision (effects es sv) = sv_cachePrecision sv" "sv_sem (effects es sv) = sv_sem sv"
  "sv_maxAlternatives (effects es sv) = sv_maxAlternatives sv" "sv_bus (effects es sv) = sv_bus sv"
  "sv_repo (effects es sv) = sv_repo sv"
  by (simp_all add: effects_def)

lemma persist_simps [simp]:
  "sv_backend (persistRoute q r sv) = sv_backend sv" "sv_redis (persistRoute q r sv) = sv_redis sv"
  "sv_cachePrecision (persistRoute q r sv) = sv_cachePrecision sv"
  "sv_maxAlternatives (persistRoute q r sv) = sv_maxAlternatives sv"
  "sv_backend (publishRouteCalculated t r sv) = sv_backend sv" "sv_redis (publishRouteCalculated t r sv) = sv_redis sv"
  "sv_cachePrecision (publishRouteCalculated t r sv) = sv_cachePrecision sv"
  "sv_maxAlternatives (publishRouteCalculated t r sv) = sv_maxAlternatives sv"
  by (simp_all add: persistRoute_def publishRouteCalculated_def)

lemma keep_simps [simp]: "sv_backend (keep_trip_route rd q r sv) = sv_backend sv"
  "sv_cachePrecision (keep_trip_route rd q r sv) = sv_cachePrecision sv"
  "sv_maxAlternatives (keep_trip_route rd q r sv) = sv_maxAlternatives sv"
  by (simp_all add: keep_trip_route_def split: option.splits)

lemma cache_inv_cong: "sv_backend sv' = sv_backend sv \<Longrightarrow> sv_redis sv' = sv_redis sv
    \<Longrightarrow> sv_cachePrecision sv' = sv_cachePrecision sv \<Longrightarrow> cache_inv name_of rd sv' = cache_inv name_of rd sv"
  by (simp add: cache_inv_def)

lemma cache_inv_effects [simp]:
  "cache_inv name_of rd (effects es sv) = cache_inv name_of rd sv"
  "cache_inv name_of rd (persistRoute q r sv) = cache_inv name_of rd sv"
  "cache_inv name_of rd (publishRouteCalculated t r sv) = cache_inv name_of rd sv"
  by (rule cache_inv_cong; simp)+

lemma GetRoute_set: "redis_ok rd \<Longrightarrow> GetRoute rd (rd_set rd st k v) k'
    = (if k' = k then (case v of VRoute r \<Rightarrow> Some r | _ \<Rightarrow> None) else GetRoute rd st k')"
  by (simp add: GetRoute_def redis_get_set split: redis_value.splits)

lemma cache_inv_keep: "redis_ok rd \<Longrightarrow> cache_inv name_of rd sv \<Longrightarrow> cache_inv name_of rd (keep_trip_route rd q r sv)"
  by (cases "sv_redis sv") (auto simp: cache_inv_def keep_trip_route_def SetTripRoute_def GetRoute_set)

lemma cache_inv_set:
  assumes "redis_ok rd" "cache_inv name_of rd sv" "sv_redis sv = Some st" "mode \<in> request_modes" "rr_Mode r = mode"
  shows "cache_inv name_of rd (sv\<lparr>sv_redis := Some (SetRoute rd st
    (RouteKeyWithPrecision (name_of (sv_backend sv)) mode k (sv_cachePrecision sv) p q) r)\<rparr>)"
proof -
  let ?n = "name_of (sv_backend sv)" and ?pr = "sv_cachePrecision sv"
  have same: "mode = m" if "m \<in> request_modes"
    "RouteKeyWithPrecision ?n m k' ?pr p' q' = RouteKeyWithPrecision ?n mode k ?pr p q" for m k' p' q'
    using that(2) RouteKey_iff [of ?n m ?n mode k' ?pr p' q' k p q] request_modes_text [OF that(1)]
      request_modes_text [OF assms(4)] assms(2) by (simp add: cache_inv_def)
  show ?thesis
    using assms same by (auto simp: cache_inv_def SetRoute_def GetRoute_set json_route_def)
qed

section \<open>One call, from the backend's laws\<close>

definition flight_ok :: "TransportMode \<Rightarrow> answer \<Rightarrow> bool" where
  "flight_ok mode a \<longleftrightarrow> (case a of Inl err \<Rightarrow> classified err | Inr r \<Rightarrow> response_ok mode (rc_Response r))"

text \<open>What a caller gets for a request with mode \<open>mode\<close>.\<close>

definition reply_ok :: "TransportMode \<Rightarrow> RouteMeta \<Rightarrow> go_error + RouteResponse \<Rightarrow> bool" where
  "reply_ok mode meta x \<longleftrightarrow> mt_Mode meta = mode
     \<and> (case x of
          Inl err \<Rightarrow> classified err \<and> fst (mapServiceError err) \<in> {404, 503, 504} \<and> \<not> mt_CacheHit meta
        | Inr r \<Rightarrow> rr_Mode r = mode \<and> (if mt_CacheHit meta then rr_Routes r = [] \<and> 0 < rr_Distance r else response_ok mode r))"

lemma reply_ok_Inl: "reply_ok mode meta (Inl err) \<longleftrightarrow> mt_Mode meta = mode \<and> classified err \<and> \<not> mt_CacheHit meta"
  using classified_status [of err] by (auto simp: reply_ok_def)

lemma NormalizeMode_request: "NormalizeMode raw = Inr mode \<Longrightarrow> mode \<in> request_modes"
  using NormalizeMode_known by (simp add: request_modes_def)

lemma cached_route_Some:
  "cached_route rd sv key = Some r \<Longrightarrow> \<exists>st. sv_redis sv = Some st \<and> GetRoute rd st key = Some r \<and> 0 < rr_Distance r"
  by (auto simp: cached_route_def split: option.splits if_splits)

text \<open>The branches of a call with a valid mode.\<close>

lemma CalculateWithMeta_hit:
  assumes "NormalizeMode (routeMode req) = Inr mode"
    and "cached_route rd sv (request_key (name_of (sv_backend sv)) sv req mode) = Some cached"
  shows "CalculateWithMeta compute name_of rd env sv req = Some (Inr cached,
      \<lparr>mt_Backend = ''cache'', mt_CacheHit = True, mt_Mode = mode,
       mt_Alternatives = normalizeAlternatives (rq_Alternatives req) (Some (sv_maxAlternatives sv))\<rparr>,
      persistRoute req cached (keep_trip_route rd req cached
        (effects [CacheTotal ''hit'', Backend (BackendTotal ''cache'' ''success'')] sv)))"
  using assms by (simp add: CalculateWithMeta_def Let_def)

context route_backend
begin

lemma run_flight_ok:
  assumes "run_flight compute rd e sv key mode k req = Some (a, sv')" and "redis_ok rd" "cache_inv name_of rd sv"
    and "mode \<in> request_modes" "key = request_key (name_of (sv_backend sv)) sv req mode"
  shows "flight_ok mode a \<and> cache_inv name_of rd sv' \<and> name_of (sv_backend sv') = name_of (sv_backend sv)"
proof -
  obtain b' ms where c: "compute e (sv_backend sv) mode k (rq_Start req) (rq_End req) = Some (a, b', ms)"
    using assms(1) by (auto simp: run_flight_def Let_def split: option.splits prod.splits)
  have n: "name_of b' = name_of (sv_backend sv)" by (rule same_name [OF c])
  let ?sv = "effects (map Backend ms) (sv\<lparr>sv_backend := b'\<rparr>)"
  have inv: "cache_inv name_of rd ?sv" using assms(3) n by (simp add: cache_inv_def)
  show ?thesis
  proof (cases a)
    case (Inl err)
    with assms(1) c classified_error inv n show ?thesis
      by (auto simp: run_flight_def flight_ok_def Let_def)
  next
    case (Inr r)
    have ok: "response_ok mode (rc_Response r)" using response c Inr by blast
    show ?thesis
    proof (cases "sv_redis sv")
      case None
      with assms(1) c Inr ok inv n show ?thesis by (auto simp: run_flight_def flight_ok_def Let_def)
    next
      case (Some st)
      have "rr_Mode (rc_Response r) = mode" using ok by (simp add: response_ok_def)
      from cache_inv_set [OF assms(2) inv _ assms(4) this, of st] Some n assms(5)
      have "cache_inv name_of rd (?sv\<lparr>sv_redis := Some (SetRoute rd st key (rc_Response r))\<rparr>)"
        by (simp add: request_key_def)
      with assms(1) c Inr Some ok n show ?thesis by (auto simp: run_flight_def flight_ok_def Let_def)
    qed
  qed
qed

lemma CalculateWithMeta_ok:
  assumes call: "CalculateWithMeta compute name_of rd env sv req = Some (x, meta, sv')"
    and rd: "redis_ok rd" and inv: "cache_inv name_of rd sv" and mode: "NormalizeMode (routeMode req) = Inr mode"
    and flight: "\<And>a. sc_flight env = Some a \<Longrightarrow> flight_ok mode a"
  shows "reply_ok mode meta x \<and> cache_inv name_of rd sv' \<and> name_of (sv_backend sv') = name_of (sv_backend sv)"
proof (cases "cached_route rd sv (request_key (name_of (sv_backend sv)) sv req mode)")
  case (Some cached)
  from cached_route_Some [OF Some] NormalizeMode_request [OF mode] inv
  have "rr_Mode cached = mode \<and> rr_Routes cached = [] \<and> 0 < rr_Distance cached"
    unfolding cache_inv_def request_key_def by blast
  moreover have "cache_inv name_of rd (persistRoute req cached (keep_trip_route rd req cached
      (effects [CacheTotal ''hit'', Backend (BackendTotal ''cache'' ''success'')] sv)))"
    using inv by (simp add: cache_inv_keep [OF rd])
  ultimately show ?thesis
    using call CalculateWithMeta_hit [of req mode rd sv name_of cached compute env, OF mode Some] by (auto simp: reply_ok_def)
next
  case None
  let ?key = "request_key (name_of (sv_backend sv)) sv req mode"
  let ?k = "normalizeAlternatives (rq_Alternatives req) (Some (sv_maxAlternatives sv))"
  let ?sv1 = "if sv_redis sv = None then sv else effects [CacheTotal ''miss''] sv"
  have inv1: "cache_inv name_of rd ?sv1" using inv by (simp add: cache_inv_def)
  have key1: "?key = request_key (name_of (sv_backend ?sv1)) ?sv1 req mode" by (simp add: request_key_def)
  show ?thesis
  proof (cases "sv_sem sv \<noteq> None \<and> sc_wait env \<noteq> Slot")
    case True
    with call mode None inv1 show ?thesis
      by (cases "sc_wait env"; cases "sv_redis sv") (auto simp: CalculateWithMeta_def Let_def reply_ok_Inl)
  next
    case False
    let ?run = "case sc_flight env of Some a \<Rightarrow> Some (a, ?sv1) | None \<Rightarrow> run_flight compute rd (sc_env env) ?sv1 ?key mode ?k req"
    from False call mode None obtain a sv2 where run: "?run = Some (a, sv2)"
      by (auto simp: CalculateWithMeta_def Let_def split: option.splits if_splits)
    have a: "flight_ok mode a \<and> cache_inv name_of rd sv2 \<and> name_of (sv_backend sv2) = name_of (sv_backend sv)"
    proof (cases "sc_flight env")
      case None
      with run have "run_flight compute rd (sc_env env) ?sv1 ?key mode ?k req = Some (a, sv2)" by simp
      from run_flight_ok [OF this rd inv1 NormalizeMode_request [OF mode] key1] show ?thesis by auto
    next
      case (Some a')
      with run have "a' = a" "sv2 = ?sv1" by simp_all
      with Some flight [of a] inv1 show ?thesis by auto
    qed
    show ?thesis
    proof (cases a)
      case (Inl err)
      with False call mode None run have "x = Inl err" "sv' = sv2" "mt_Mode meta = mode \<and> \<not> mt_CacheHit meta"
        by (auto simp: CalculateWithMeta_def Let_def)
      with a Inl show ?thesis by (auto simp: reply_ok_Inl flight_ok_def)
    next
      case (Inr r)
      with False call mode None run have x: "x = Inr (rc_Response r)" "mt_Mode meta = mode \<and> \<not> mt_CacheHit meta"
        "sv' = publishRouteCalculated (rq_TripID req) (rc_Response r)
           (persistRoute req (rc_Response r) (keep_trip_route rd req (rc_Response r) sv2))"
        by (cases "rc_Backend r = []"; auto simp: CalculateWithMeta_def Let_def)+
      have "cache_inv name_of rd sv'" unfolding x(3) using a by (simp add: cache_inv_keep [OF rd])
      with a x Inr show ?thesis by (auto simp: reply_ok_def flight_ok_def response_ok_def)
    qed
  qed
qed

text \<open>A request with a usable result leaves its route in the cache, for every request with its key.\<close>

lemma CalculateWithMeta_fills:
  assumes call: "CalculateWithMeta compute name_of rd env sv req = Some (Inr resp, meta, sv')"
    and rd: "redis_ok rd" and inv: "cache_inv name_of rd sv" and mode: "NormalizeMode (routeMode req) = Inr mode"
    and own: "sc_flight env = None" and redis: "sv_redis sv \<noteq> None" and dist: "0 < rr_Distance resp"
  shows "cached_route rd sv' (request_key (name_of (sv_backend sv)) sv req mode) = Some (json_route resp)"
proof (cases "cached_route rd sv (request_key (name_of (sv_backend sv)) sv req mode)")
  case (Some cached)
  from cached_route_Some [OF Some] NormalizeMode_request [OF mode] inv
  have "rr_Routes cached = []" unfolding cache_inv_def request_key_def by blast
  moreover have "cached = resp" and sv': "sv' = persistRoute req cached (keep_trip_route rd req cached
      (effects [CacheTotal ''hit'', Backend (BackendTotal ''cache'' ''success'')] sv))"
    using call CalculateWithMeta_hit [of req mode rd sv name_of cached compute env, OF mode Some] by auto
  moreover have "GetRoute rd (the (sv_redis sv')) (request_key (name_of (sv_backend sv)) sv req mode) = Some cached"
    "sv_redis sv' \<noteq> None"
    using cached_route_Some [OF Some]
    by (auto simp: sv' keep_trip_route_def SetTripRoute_def GetRoute_set [OF rd] request_key_def)
  ultimately show ?thesis using dist by (auto simp: cached_route_def json_route_def)
next
  case None
  let ?key = "request_key (name_of (sv_backend sv)) sv req mode"
  obtain st where st: "sv_redis sv = Some st" using redis by blast
  let ?sv1 = "effects [CacheTotal ''miss''] sv"
  let ?k = "normalizeAlternatives (rq_Alternatives req) (Some (sv_maxAlternatives sv))"
  from call mode None own st obtain r sv2 where
    run: "run_flight compute rd (sc_env env) ?sv1 ?key mode ?k req = Some (Inr r, sv2)"
    and x: "resp = rc_Response r" "sv' = publishRouteCalculated (rq_TripID req) (rc_Response r)
           (persistRoute req (rc_Response r) (keep_trip_route rd req (rc_Response r) sv2))"
    by (auto simp: CalculateWithMeta_def Let_def split: option.splits if_splits sum.splits)
  have "sv_redis sv2 = Some (SetRoute rd st ?key resp)"
    using run st x(1) by (auto simp: run_flight_def Let_def split: option.splits prod.splits)
  then show ?thesis using dist
    by (auto simp: x(2) cached_route_def keep_trip_route_def SetRoute_def SetTripRoute_def GetRoute_set [OF rd]
        request_key_def json_route_def x(1) [symmetric])
qed

end

section \<open>The service on the backend tree\<close>

lemma service_replies:
  assumes "redis_ok rd" and "cache_inv BackendName rd sv" and "NormalizeMode (routeMode req) = Inr mode"
    and "tree_ready (sc_env env) (sv_backend sv)"
    and "\<And>a. sc_flight env = Some a \<Longrightarrow> flight_ok mode a"
  shows "\<exists>x meta sv'. CalculateWithMeta ComputeRouteResult BackendName rd env sv req = Some (x, meta, sv')
    \<and> reply_ok mode meta x \<and> cache_inv BackendName rd sv'"
proof -
  have "CalculateWithMeta ComputeRouteResult BackendName rd env sv req \<noteq> None"
  proof -
    have run: "\<exists>y. run_flight ComputeRouteResult rd (sc_env env) s key mode k req = Some y" if "sv_backend s = sv_backend sv" for s key k
      using tree_returns [OF assms(4), of mode k "rq_Start req" "rq_End req"] that
      by (auto simp: run_flight_def Let_def split_beta)
    obtain y1 where y1: "run_flight ComputeRouteResult rd (sc_env env) (effects [CacheTotal ''miss''] sv)
        (request_key (BackendName (sv_backend sv)) sv req mode) mode
        (normalizeAlternatives (rq_Alternatives req) (Some (sv_maxAlternatives sv))) req = Some y1"
      using run [OF effects_simps(1)] by blast
    obtain y2 where y2: "run_flight ComputeRouteResult rd (sc_env env) sv
        (request_key (BackendName (sv_backend sv)) sv req mode) mode
        (normalizeAlternatives (rq_Alternatives req) (Some (sv_maxAlternatives sv))) req = Some y2"
      using run [OF refl] by blast
    show ?thesis using assms(3) y1 y2
      by (auto simp: CalculateWithMeta_def Let_def split_beta split: option.split sum.split)
  qed
  then obtain x meta sv' where c: "CalculateWithMeta ComputeRouteResult BackendName rd env sv req = Some (x, meta, sv')"
    by (metis not_None_eq prod_cases3)
  from tree.CalculateWithMeta_ok [OF c assms(1,2,3,5)] c show ?thesis by blast
qed

text \<open>
  C13. On any backend built from the internal engine, OSRM, limits and fallbacks, and whatever
  was cached before, a request with a valid mode is answered: with a route of the requested
  mode, from the cache or freshly made and then well formed, or with a routing error whose
  status is 404, 503 or 504.  The cache stays sound: whatever the service finds under a key
  of a mode is a route of that mode.
\<close>

theorem CalculateWithMeta_reply:
  assumes "redis_ok rd" and "cache_inv BackendName rd sv" and "NormalizeMode (routeMode req) = Inr mode"
    and "tree_ready (sc_env env) (sv_backend sv)"
    and "\<And>a. sc_flight env = Some a \<Longrightarrow> flight_ok mode a"
  shows "\<exists>x meta sv'. CalculateWithMeta ComputeRouteResult BackendName rd env sv req = Some (x, meta, sv')
    \<and> reply_ok mode meta x \<and> cache_inv BackendName rd sv'"
  by (rule service_replies [OF assms])

text \<open>
  C14. Round trip through the cache: once a request has been answered with a route of positive
  length, every later request with the same key is answered from the cache with that same
  route (less the list of options, which JSON drops), whatever the backend, the slots and
  other flights would have done, and without touching the backend.
\<close>

theorem CalculateWithMeta_cached:
  assumes "CalculateWithMeta ComputeRouteResult BackendName rd env sv req = Some (Inr resp, meta, sv')"
    and "redis_ok rd" and "cache_inv BackendName rd sv" and "NormalizeMode (routeMode req) = Inr mode"
    and "sc_flight env = None" and "sv_redis sv \<noteq> None" and "0 < rr_Distance resp"
    and "NormalizeMode (routeMode req2) = Inr mode"
    and "request_key (BackendName (sv_backend sv')) sv' req2 mode = request_key (BackendName (sv_backend sv)) sv req mode"
  shows "\<exists>meta2 sv2. CalculateWithMeta ComputeRouteResult BackendName rd env2 sv' req2 = Some (Inr (json_route resp), meta2, sv2)
    \<and> mt_CacheHit meta2 \<and> mt_Backend meta2 = ''cache'' \<and> sv_backend sv2 = sv_backend sv'"
proof -
  have "cached_route rd sv' (request_key (BackendName (sv_backend sv')) sv' req2 mode) = Some (json_route resp)"
    using tree.CalculateWithMeta_fills [OF assms(1-7)] assms(9) by simp
  from CalculateWithMeta_hit [of req2 mode rd sv' BackendName "json_route resp" ComputeRouteResult env2, OF assms(8) this]
  show ?thesis by simp
qed

section \<open>An example\<close>

definition example_service :: "(backend, string \<Rightarrow> redis_value option) service" where
  "example_service = NewRouteService (server_backend (NewInternalBackend (Some rail_engine))) (Some Map.empty) True True
     4 0 0 5 3"

definition example_request :: RouteRequest where
  "example_request = \<lparr>rq_TripID = 7, rq_Start = \<lparr>p_Lat = 35, p_Lng = 51\<rparr>, rq_End = \<lparr>p_Lat = 36, p_Lng = 51\<rparr>,
     rq_Mode = ''airplane'', rq_VehicleType = [], rq_Alternatives = 1\<rparr>"

definition example_env :: "envs service_env" where
  "example_env = \<lparr>sc_env = quiet_envs, sc_wait = Slot, sc_flight = None\<rparr>"

lemma example_inv: "cache_inv BackendName map_redis example_service"
  by (simp add: cache_inv_def example_service_def NewRouteService_def GetRoute_def map_redis_def server_backend_def
      buildRouteBackend_def NewFallbackBackend_def NewLimitedBackend_def Let_def)

lemma example_mode: "NormalizeMode (routeMode example_request) = Inr ModeAirplane"
  by (simp add: example_request_def routeMode_def NormalizeMode_def TrimSpace_def ToLower_def lower_char_def
      is_space_def mode_defs)

theorem CalculateWithMeta_reply_witness:
  "\<exists>x meta sv'. CalculateWithMeta ComputeRouteResult BackendName map_redis example_env example_service example_request
     = Some (x, meta, sv')"
proof -
  have "tree_ready (sc_env example_env) (sv_backend example_service)"
    using server_tree_ready by (simp add: example_env_def example_service_def NewRouteService_def)
  from CalculateWithMeta_reply [OF map_redis_ok example_inv example_mode this] show ?thesis
    by (force simp: example_env_def)
qed

text \<open>A car request that OSRM answers, asked twice.\<close>

definition osrm_reply :: osrmResponse where
  "osrm_reply = \<lparr>os_Code = ''Ok'', os_Routes = [\<lparr>or_Distance = 12000, or_Duration = 900, or_Geometry = ''_p~iF~ps'', or_Legs = []\<rparr>]\<rparr>"

definition osrm_env :: "envs service_env" where
  "osrm_env = example_env\<lparr>sc_env := (\<lambda>_. \<lparr>ce_internal = quiet_env, ce_http = (\<lambda>_. Reply osrm_reply), ce_wait = Slot\<rparr>)\<rparr>"

definition car_request :: RouteRequest where
  "car_request = example_request\<lparr>rq_Mode := ''car''\<rparr>"

lemma osrm_client_answer:
  "client_Route (\<lambda>_. Reply osrm_reply) base ModeCar p q
     = Inr (convertRoute ModeCar \<lparr>or_Distance = 12000, or_Duration = 900, or_Geometry = ''_p~iF~ps'', or_Legs = []\<rparr>)"
  by (simp add: client_Route_def osrmProfile_def osrm_reply_def)

lemma lower_osrm: "ToLower ''OSRM'' = ''osrm''" "ModeCar \<noteq> ModeAirplane"
  by (code_simp, simp add: mode_defs)

lemma osrm_compute_answer:
  "ComputeRouteResult (sc_env osrm_env) (sv_backend example_service) ModeCar k p q =
     Some (Inr \<lparr>rc_Response = convertRoute ModeCar \<lparr>or_Distance = 12000, or_Duration = 900, or_Geometry = ''_p~iF~ps'', or_Legs = []\<rparr>,
                rc_Backend = ''osrm''\<rparr>, sv_backend example_service, [BackendTotal ''osrm'' ''success''])"
  by (simp add: osrm_env_def example_service_def NewRouteService_def server_backend_def buildRouteBackend_def Let_def
      NewFallbackBackend_def NewLimitedBackend_def osrm_compute_def osrm_client_answer below_def
      recordBackendAttempt_def classifyRouteError_def lower_osrm)

lemma car_request_mode: "NormalizeMode (routeMode car_request) = Inr ModeCar"
  by (simp add: car_request_def example_request_def routeMode_def NormalizeMode_def TrimSpace_def ToLower_def
      lower_char_def is_space_def mode_defs)

theorem CalculateWithMeta_cached_witness:
  "\<exists>resp meta sv' meta2 sv2.
     CalculateWithMeta ComputeRouteResult BackendName map_redis osrm_env example_service car_request = Some (Inr resp, meta, sv')
     \<and> rr_Distance resp = 12
     \<and> CalculateWithMeta ComputeRouteResult BackendName map_redis example_env sv' car_request = Some (Inr (json_route resp), meta2, sv2)
     \<and> mt_CacheHit meta2"
proof -
  let ?r = "convertRoute ModeCar \<lparr>or_Distance = 12000, or_Duration = 900, or_Geometry = ''_p~iF~ps'', or_Legs = []\<rparr>"
  have dist: "rr_Distance ?r = 12" using math_Round_of_int [of 12000] by (simp add: convertRoute_def Let_def Round_def)
  have miss: "cached_route map_redis example_service key = None" for key
    by (simp add: cached_route_def example_service_def NewRouteService_def GetRoute_def map_redis_def)
  have flight: "sc_flight osrm_env = None" "sc_wait osrm_env = Slot" "sv_redis example_service \<noteq> None"
    by (simp_all add: osrm_env_def example_env_def example_service_def NewRouteService_def)
  obtain meta sv' where c: "CalculateWithMeta ComputeRouteResult BackendName map_redis osrm_env example_service car_request
      = Some (Inr ?r, meta, sv')" and b: "sv_backend sv' = sv_backend example_service"
      "sv_cachePrecision sv' = sv_cachePrecision example_service" "sv_maxAlternatives sv' = sv_maxAlternatives example_service"
    using flight by (auto simp: CalculateWithMeta_def car_request_mode miss run_flight_def osrm_compute_answer Let_def)
  have key: "request_key (BackendName (sv_backend sv')) sv' car_request ModeCar
      = request_key (BackendName (sv_backend example_service)) example_service car_request ModeCar"
    by (simp add: request_key_def b)
  from CalculateWithMeta_cached [OF c map_redis_ok example_inv car_request_mode flight(1,3) _ car_request_mode key, of example_env]
  show ?thesis using c dist by (metis zero_less_numeral)
qed

end
