(* ===== verification/Auth.thy ===== *)
theory Auth
  imports GoText
begin

text \<open>
  \<open>internal/middleware/auth.go\<close>, \<open>apikey.go\<close> and \<open>internal/route/authz.go\<close>: who may call
  the service and who may write to a trip.  A request is its path and headers (a missing
  header reads as the empty text).  The JWT library is a parameter that parses a raw token
  into its algorithm, its claims and the test of its signature and times under a secret; the
  trip repository is a parameter too.
\<close>

section \<open>Requests and tokens\<close>

record http_request =
  ht_Path :: string
  ht_APIKey :: string
  ht_Authorization :: string
  ht_Protocol :: string

datatype claim = CFloat float64 | CInt int | CNumber "int option" | CText string | CNone

record jwt_token =
  jt_Alg :: string
  jt_HMAC :: bool
  jt_Valid :: "string \<Rightarrow> bool"
  jt_Claims :: "string \<Rightarrow> claim"

type_synonym jwt_parser = "string \<Rightarrow> jwt_token option"

record AuthOptions =
  ao_APIKey :: string
  ao_JWTSecret :: string
  ao_JWTAlgorithm :: string

text \<open>The keys that \<open>Auth\<close> sets on the gin context.\<close>

datatype auth_method = AuthJWT | AuthAPIKey

record auth_context =
  auth_method :: "auth_method option"
  auth_user_id :: "int option"

definition no_auth :: auth_context where
  "no_auth = \<lparr>auth_method = None, auth_user_id = None\<rparr>"

section \<open>Parsing\<close>

text \<open>\<open>strconv.ParseInt(s, 10, 64)\<close>: an optional sign, digits, and the range of \<open>int64\<close>.\<close>

definition ParseInt :: "string \<Rightarrow> int option" where
  "ParseInt s =
     (let (neg, ds) = (case s of c # r \<Rightarrow> if c = CHR ''-'' then (True, r) else if c = CHR ''+'' then (False, r) else (False, s)
                               | [] \<Rightarrow> (False, [])) in
      if ds = [] \<or> \<not> list_all is_digit ds then None
      else let n = (if neg then - int (text_nat ds) else int (text_nat ds)) in
           if - (2 ^ 63) \<le> n \<and> n < 2 ^ 63 then Some n else None)"

definition jwtClaimInt64 :: "claim \<Rightarrow> int \<times> bool" where
  "jwtClaimInt64 v =
     (case v of
        CFloat x \<Rightarrow> (if x \<ge> 0 then \<lfloor>x\<rfloor> else \<lceil>x\<rceil>, x > 0)
      | CInt x \<Rightarrow> (x, x > 0)
      | CNumber n \<Rightarrow> (case n of Some i \<Rightarrow> (i, i > 0) | None \<Rightarrow> (0, False))
      | CText s \<Rightarrow> (case ParseInt (TrimSpace s) of Some i \<Rightarrow> (i, i > 0) | None \<Rightarrow> (0, False))
      | CNone \<Rightarrow> (0, False))"

definition validateJWT :: "jwt_parser \<Rightarrow> string \<Rightarrow> string \<Rightarrow> string \<Rightarrow> int option" where
  "validateJWT parse raw secret algorithm =
     (case parse raw of
        None \<Rightarrow> None
      | Some token \<Rightarrow>
          if jt_Alg token \<noteq> algorithm then None
          else if \<not> jt_HMAC token then None
          else if \<not> jt_Valid token secret then None
          else let (userID, ok) = jwtClaimInt64 (jt_Claims token ''user_id'');
                   (userID, ok) = (if ok then (userID, ok) else jwtClaimInt64 (jt_Claims token ''sub''))
               in if \<not> ok \<or> userID \<le> 0 then None else Some userID)"

fun Split :: "char \<Rightarrow> string \<Rightarrow> string list" where
  "Split c [] = [[]]"
| "Split c (d # s) = (if d = c then [] # Split c s else (case Split c s of p # ps \<Rightarrow> (d # p) # ps | [] \<Rightarrow> [[d]]))"

fun bearer_part :: "string list \<Rightarrow> string" where
  "bearer_part (p # q # ps) = (if ToLower (TrimSpace p) = ''bearer'' then TrimSpace q else bearer_part (q # ps))"
| "bearer_part ps = []"

definition websocketSubprotocolBearer :: "string \<Rightarrow> string" where
  "websocketSubprotocolBearer raw = bearer_part (Split (CHR '','') raw)"

definition bearerToken :: "http_request \<Rightarrow> string" where
  "bearerToken req =
     (let auth = TrimSpace (ht_Authorization req) in
      if has_prefix ''bearer '' (ToLower auth) then TrimSpace (drop 7 auth)
      else websocketSubprotocolBearer (ht_Protocol req))"

definition upper_char :: "char \<Rightarrow> char" where
  "upper_char c = (let n = (of_char c :: nat) in if 97 \<le> n \<and> n \<le> 122 then char_of (n - 32) else c)"

definition ToUpper :: "string \<Rightarrow> string" where
  "ToUpper s = map upper_char s"

section \<open>Authentication\<close>

definition public_path :: "string \<Rightarrow> bool" where
  "public_path path \<longleftrightarrow> path = ''/health'' \<or> has_prefix ''/ws/'' path"

definition SetAuthenticatedAPIKey :: "auth_context \<Rightarrow> auth_context" where
  "SetAuthenticatedAPIKey c = c\<lparr>auth_method := Some AuthAPIKey\<rparr>"

definition SetAuthenticatedJWT :: "auth_context \<Rightarrow> int \<Rightarrow> auth_context" where
  "SetAuthenticatedJWT c userID = c\<lparr>auth_method := Some AuthJWT, auth_user_id := Some userID\<rparr>"

definition jwt_algorithm :: "AuthOptions \<Rightarrow> string" where
  "jwt_algorithm opts = (let a = ToUpper (TrimSpace (ao_JWTAlgorithm opts)) in if a = [] then ''HS256'' else a)"

text \<open>\<open>Auth\<close>: the context the next handler runs with, or \<open>None\<close> for the 401 reply.\<close>

definition Auth :: "jwt_parser \<Rightarrow> AuthOptions \<Rightarrow> http_request \<Rightarrow> auth_context option" where
  "Auth parse opts req =
     (let expected = TrimSpace (ao_APIKey opts); secret = TrimSpace (ao_JWTSecret opts) in
      if public_path (ht_Path req) then Some no_auth
      else if expected \<noteq> [] \<and> ht_APIKey req = expected then Some (SetAuthenticatedAPIKey no_auth)
      else if secret \<noteq> []
      then (let token = bearerToken req in
            case validateJWT parse token secret (jwt_algorithm opts) of
              Some userID \<Rightarrow> if token \<noteq> [] then Some (SetAuthenticatedJWT no_auth userID) else None
            | None \<Rightarrow> None)
      else None)"

definition APIKeyAuth :: "string \<Rightarrow> http_request \<Rightarrow> auth_context option" where
  "APIKeyAuth expected req = (if ht_APIKey req = expected then Some no_auth else None)"

definition AuthenticatedUserID :: "auth_context \<Rightarrow> int option" where
  "AuthenticatedUserID c = (case auth_user_id c of Some i \<Rightarrow> if i > 0 then Some i else None | None \<Rightarrow> None)"

definition AuthenticatedWithAPIKey :: "auth_context \<Rightarrow> bool" where
  "AuthenticatedWithAPIKey c \<longleftrightarrow> auth_method c = Some AuthAPIKey"

section \<open>Writing to a trip\<close>

type_synonym http_failure = "nat \<times> string \<times> string"

text \<open>The repository answers \<open>None\<close> when its query fails; no repository at all is \<open>None\<close> too.\<close>

type_synonym trip_owners = "(int \<Rightarrow> int \<Rightarrow> bool option) option"

definition authorizeTripWrite :: "auth_context \<Rightarrow> trip_owners \<Rightarrow> int \<Rightarrow> http_failure option" where
  "authorizeTripWrite c authz tripID =
     (if tripID \<le> 0 \<or> AuthenticatedWithAPIKey c then None
      else case AuthenticatedUserID c of
        None \<Rightarrow> Some (401, ''UNAUTHORIZED'', ''authenticated user is required'')
      | Some userID \<Rightarrow>
          (case authz of
             None \<Rightarrow> Some (503, ''AUTHORIZATION_UNAVAILABLE'', ''trip authorization is not configured'')
           | Some owns \<Rightarrow>
               (case owns userID tripID of
                  None \<Rightarrow> Some (500, ''INTERNAL_ERROR'', ''internal error; please retry'')
                | Some allowed \<Rightarrow> if \<not> allowed then Some (403, ''FORBIDDEN'', ''trip access denied'') else None)))"

section \<open>Who gets through\<close>

text \<open>A token that the configured secret and algorithm accept, and the user it names.\<close>

definition accepted :: "jwt_parser \<Rightarrow> AuthOptions \<Rightarrow> string \<Rightarrow> int \<Rightarrow> bool" where
  "accepted parse opts raw userID \<longleftrightarrow>
     (\<exists>token. parse raw = Some token \<and> jt_Alg token = jwt_algorithm opts \<and> jt_HMAC token
        \<and> jt_Valid token (TrimSpace (ao_JWTSecret opts)) \<and> 0 < userID
        \<and> (jwtClaimInt64 (jt_Claims token ''user_id'') = (userID, True)
           \<or> \<not> snd (jwtClaimInt64 (jt_Claims token ''user_id''))
             \<and> jwtClaimInt64 (jt_Claims token ''sub'') = (userID, True)))"

lemma validateJWT_accepted:
  "validateJWT parse raw (TrimSpace (ao_JWTSecret opts)) (jwt_algorithm opts) = Some userID \<longleftrightarrow> accepted parse opts raw userID"
  by (auto simp: validateJWT_def accepted_def Let_def split: option.splits if_splits prod.splits)

lemma Auth_cases:
  assumes "Auth parse opts req = Some c" and "\<not> public_path (ht_Path req)"
  shows "(c = SetAuthenticatedAPIKey no_auth \<and> TrimSpace (ao_APIKey opts) \<noteq> [] \<and> ht_APIKey req = TrimSpace (ao_APIKey opts))
    \<or> (\<exists>userID. c = SetAuthenticatedJWT no_auth userID \<and> TrimSpace (ao_JWTSecret opts) \<noteq> []
        \<and> bearerToken req \<noteq> [] \<and> accepted parse opts (bearerToken req) userID)"
  using assms by (auto simp: Auth_def Let_def validateJWT_accepted split: if_splits option.splits)

text \<open>
  C16. Behind \<open>Auth\<close>, on any path but the public ones, a handler writes to a trip only for a
  caller that sent the configured API key, or that sent a token the configured secret and
  algorithm accept and whose positive user id the repository names as an owner of the trip.
  With neither a key nor a secret configured nobody gets through.
\<close>

theorem trip_write_authorized:
  assumes "Auth parse opts req = Some c" and "\<not> public_path (ht_Path req)"
    and "authorizeTripWrite c authz tripID = None" and "0 < tripID"
  shows "TrimSpace (ao_APIKey opts) \<noteq> [] \<and> ht_APIKey req = TrimSpace (ao_APIKey opts)
    \<or> TrimSpace (ao_JWTSecret opts) \<noteq> []
      \<and> (\<exists>userID owns. accepted parse opts (bearerToken req) userID \<and> authz = Some owns \<and> owns userID tripID = Some True)"
  using Auth_cases [OF assms(1,2)]
proof
  assume "\<exists>userID. c = SetAuthenticatedJWT no_auth userID \<and> TrimSpace (ao_JWTSecret opts) \<noteq> []
        \<and> bearerToken req \<noteq> [] \<and> accepted parse opts (bearerToken req) userID"
  then obtain userID where u: "c = SetAuthenticatedJWT no_auth userID" "TrimSpace (ao_JWTSecret opts) \<noteq> []"
    "accepted parse opts (bearerToken req) userID" by blast
  then have "0 < userID" by (auto simp: accepted_def)
  with assms(3,4) u(1) have "\<exists>owns. authz = Some owns \<and> owns userID tripID = Some True"
    by (auto simp: authorizeTripWrite_def SetAuthenticatedJWT_def no_auth_def AuthenticatedUserID_def
        AuthenticatedWithAPIKey_def split: option.splits if_splits)
  with u show ?thesis by blast
qed blast

definition example_token :: jwt_token where
  "example_token = \<lparr>jt_Alg = ''HS256'', jt_HMAC = True, jt_Valid = (\<lambda>s. s = ''k''),
     jt_Claims = (\<lambda>n. if n = ''sub'' then CText ''7'' else CNone)\<rparr>"

definition example_opts :: AuthOptions where
  "example_opts = \<lparr>ao_APIKey = [], ao_JWTSecret = ''k'', ao_JWTAlgorithm = []\<rparr>"

definition example_http :: http_request where
  "example_http = \<lparr>ht_Path = ''/route'', ht_APIKey = [], ht_Authorization = ''Bearer t'', ht_Protocol = []\<rparr>"

theorem trip_write_authorized_witness:
  "accepted (\<lambda>raw. if raw = ''t'' then Some example_token else None) example_opts ''t'' 7
   \<and> (\<exists>owns. Some (\<lambda>u t. Some (u = 7 \<and> t = 9)) = Some owns \<and> owns 7 (9 :: int) = Some True)"
proof -
  let ?parse = "\<lambda>raw. if raw = ''t'' then Some example_token else None"
  let ?authz = "Some (\<lambda>(u :: int) (t :: int). Some (u = 7 \<and> t = 9))"
  have bearer: "bearerToken example_http = ''t''" by code_simp
  have a: "Auth ?parse example_opts example_http = Some (SetAuthenticatedJWT no_auth 7)"
  proof -
    have "validateJWT ?parse ''t'' ''k'' ''HS256'' = Some 7" by code_simp
    moreover have "ht_Path example_http = ''/route''" by (simp add: example_http_def)
    ultimately show ?thesis by (simp add: Auth_def bearer example_opts_def public_path_def
        jwt_algorithm_def ToUpper_def TrimSpace_def is_space_def Let_def)
  qed
  have p: "\<not> public_path (ht_Path example_http)" by (simp add: public_path_def example_http_def)
  have w: "authorizeTripWrite (SetAuthenticatedJWT no_auth 7) ?authz 9 = None" by code_simp
  from trip_write_authorized [OF a p w] have "\<exists>userID. accepted ?parse example_opts ''t'' userID \<and> userID = 7"
    by (simp add: example_opts_def TrimSpace_def bearer)
  then show ?thesis by blast
qed

end
