(* ===== verification/RouteApi.thy ===== *)
theory RouteApi
  imports RouteService Auth
begin

text \<open>
  The two route endpoints: \<open>MultiRouteService\<close> (\<open>internal/route/multi_service.go\<close>), which
  orders waypoints greedily and routes the legs concurrently, and the handlers of
  \<open>handler.go\<close> and \<open>multi_handler.go\<close> from the decoded body to the HTTP reply.  The legs run
  in an arbitrary order, given as a schedule; each leg's call of the service is one step.
  \<open>%v\<close> of a coordinate in an error text is a parameter.
\<close>

section \<open>Waypoints\<close>

record Waypoint =
  wp_Lat :: float64
  wp_Lng :: float64
  wp_Label :: string

record MultiRouteRequest =
  mq_Waypoints :: "Waypoint list"
  mq_Mode :: string
  mq_TripID :: int

record MultiRouteLeg =
  ml_From :: Waypoint
  ml_To :: Waypoint
  ml_DistanceKm :: float64
  ml_DurationMin :: float64

record MultiRouteResponse =
  mr_TotalDistanceKm :: float64
  mr_TotalDurationMin :: float64
  mr_Polyline :: string
  mr_Mode :: string
  mr_Legs :: "MultiRouteLeg list"

definition maxWaypoints :: nat where "maxWaypoints = 50"
definition minWaypoints :: nat where "minWaypoints = 2"

definition wp_dist :: "Waypoint \<Rightarrow> Waypoint \<Rightarrow> float64" where
  "wp_dist a b = Haversine (wp_Lat a) (wp_Lng a) (wp_Lat b) (wp_Lng b)"

definition labelOf :: "Waypoint \<Rightarrow> string" where
  "labelOf wp = (if wp_Label wp \<noteq> [] then wp_Label wp
     else ''('' @ FormatFixed 4 (wp_Lat wp) @ '','' @ FormatFixed 4 (wp_Lng wp) @ '')'')"

section \<open>Nearest neighbour order\<close>

text \<open>The scan for the nearest remaining waypoint: index \<open>i\<close> of the head, best index and distance so far.\<close>

fun nearest_scan :: "Waypoint \<Rightarrow> Waypoint list \<Rightarrow> nat \<Rightarrow> nat \<Rightarrow> float64 \<Rightarrow> nat" where
  "nearest_scan current [] i bestIdx bestDist = bestIdx"
| "nearest_scan current (w # ws) i bestIdx bestDist =
     (let dist = wp_dist current w in
      if dist < bestDist then nearest_scan current ws (i + 1) i dist
      else nearest_scan current ws (i + 1) bestIdx bestDist)"

definition nearest_idx :: "Waypoint \<Rightarrow> Waypoint list \<Rightarrow> nat" where
  "nearest_idx current remaining = nearest_scan current (tl remaining) 1 0 (wp_dist current (hd remaining))"

lemma nearest_scan_spec:
  assumes "bestIdx < length pre" "bestDist = wp_dist c (pre ! bestIdx)" "\<forall>w\<in>set pre. bestDist \<le> wp_dist c w"
  shows "nearest_scan c ws (length pre) bestIdx bestDist < length (pre @ ws)
    \<and> (\<forall>w\<in>set (pre @ ws). wp_dist c ((pre @ ws) ! nearest_scan c ws (length pre) bestIdx bestDist) \<le> wp_dist c w)"
  using assms
proof (induction ws arbitrary: pre bestIdx bestDist)
  case Nil
  then show ?case by auto
next
  case (Cons w ws)
  show ?case
  proof (cases "wp_dist c w < bestDist")
    case True
    with Cons.prems have "\<forall>x\<in>set (pre @ [w]). wp_dist c w \<le> wp_dist c x" by fastforce
    with Cons.IH [of "length pre" "pre @ [w]" "wp_dist c w"] True show ?thesis by (simp add: Let_def)
  next
    case False
    with Cons.prems Cons.IH [of bestIdx "pre @ [w]" bestDist] show ?thesis
      by (auto simp: Let_def nth_append)
  qed
qed

lemma nearest_idx_spec:
  fixes ws :: "Waypoint list"
  assumes "ws \<noteq> []"
  shows "nearest_idx c ws < length ws" "\<forall>w\<in>set ws. wp_dist c (ws ! nearest_idx c ws) \<le> wp_dist c w"
proof -
  obtain w ws' where "ws = w # ws'" using assms by (cases ws) auto
  with nearest_scan_spec [of 0 "[w]" "wp_dist c w" c ws']
  show "nearest_idx c ws < length ws" "\<forall>w\<in>set ws. wp_dist c (ws ! nearest_idx c ws) \<le> wp_dist c w"
    by (simp_all add: nearest_idx_def)
qed

lemma remove_nth_shorter: "i < length xs \<Longrightarrow> length (take i xs @ drop (i + 1) xs) < length xs"
  by simp

function order_loop :: "Waypoint \<Rightarrow> Waypoint list \<Rightarrow> Waypoint list \<Rightarrow> Waypoint list" where
  "order_loop current remaining ordered =
     (if remaining = [] then ordered
      else let bestIdx = nearest_idx current remaining; next_wp = remaining ! bestIdx
           in order_loop next_wp (take bestIdx remaining @ drop (bestIdx + 1) remaining) (ordered @ [next_wp]))"
  by pat_completeness auto
termination
  by (relation "measure (\<lambda>(c, r, o'). length r)")
    (simp, simp only: in_measure prod.case, rule remove_nth_shorter, rule nearest_idx_spec(1))

declare order_loop.simps [simp del]

definition orderWaypointsNearestNeighbor :: "Waypoint list \<Rightarrow> Waypoint list" where
  "orderWaypointsNearestNeighbor waypoints =
     (if length waypoints \<le> 1 then waypoints
      else order_loop (hd waypoints) (tl waypoints) [hd waypoints])"

text \<open>Every stop is followed by a nearest one among those that come after it.\<close>

fun greedy :: "Waypoint list \<Rightarrow> bool" where
  "greedy (a # b # ws) = ((\<forall>c\<in>set ws. wp_dist a b \<le> wp_dist a c) \<and> greedy (b # ws))"
| "greedy ws = True"

lemma order_loop_spec:
  "\<exists>rest. order_loop c ws out = out @ rest \<and> mset rest = mset ws \<and> greedy (c # rest)"
proof (induction c ws out rule: order_loop.induct)
  case (1 c ws out)
  show ?case
  proof (cases "ws = []")
    case True
    then show ?thesis by (simp add: order_loop.simps)
  next
    case False
    let ?i = "nearest_idx c ws"
    let ?n = "ws ! ?i" and ?ws = "take ?i ws @ drop (?i + 1) ws"
    from 1 [OF False refl refl] obtain rest where rest: "order_loop ?n ?ws (out @ [?n]) = (out @ [?n]) @ rest"
      "mset rest = mset ?ws" "greedy (?n # rest)" by blast
    have ws: "mset ws = add_mset ?n (mset ?ws)"
      using id_take_nth_drop [OF nearest_idx_spec(1) [OF False, of c]]
      by (metis Suc_eq_plus1 mset.simps(2) mset_append union_mset_add_mset_right)
    have "\<forall>w\<in>set rest. wp_dist c ?n \<le> wp_dist c w"
    proof
      fix w assume "w \<in> set rest"
      then have "w \<in># mset ws" using rest(2) ws by (metis insert_iff set_mset_add_mset_insert set_mset_mset)
      then show "wp_dist c ?n \<le> wp_dist c w" using nearest_idx_spec(2) [OF False] by simp
    qed
    then have "greedy (c # ?n # rest)" using rest(3) by simp
    moreover have "order_loop c ws out = out @ ?n # rest"
      using False rest(1) by (simp add: order_loop.simps [of c ws out] Let_def)
    ultimately show ?thesis using rest(2) ws by (intro exI [of _ "?n # rest"]) simp
  qed
qed

lemma orderWaypoints_mset: "mset (orderWaypointsNearestNeighbor ws) = mset ws"
proof (cases "length ws \<le> 1")
  case False
  then obtain w ws' where "ws = w # ws'" by (cases ws) auto
  with False order_loop_spec [of w ws' "[w]"] show ?thesis
    by (auto simp: orderWaypointsNearestNeighbor_def)
qed (simp add: orderWaypointsNearestNeighbor_def)

text \<open>
  \<open>orderWaypointsNearestNeighbor\<close> visits every waypoint exactly once, starts where the
  request starts, and always goes on to a waypoint that is nearest among those not yet
  visited.
\<close>

theorem orderWaypoints_greedy:
  "mset (orderWaypointsNearestNeighbor ws) = mset ws \<and> greedy (orderWaypointsNearestNeighbor ws)
   \<and> take 1 (orderWaypointsNearestNeighbor ws) = take 1 ws"
proof (cases "length ws \<le> 1")
  case True
  then have "greedy ws" by (cases ws; cases "tl ws") auto
  with True show ?thesis by (simp add: orderWaypointsNearestNeighbor_def)
next
  case False
  then obtain w ws' where "ws = w # ws'" by (cases ws) auto
  with False order_loop_spec [of w ws' "[w]"] show ?thesis
    by (auto simp: orderWaypointsNearestNeighbor_def)
qed

section \<open>The legs\<close>

record legResult =
  lr_from :: Waypoint
  lr_to :: Waypoint
  lr_resp :: "RouteResponse option"
  lr_err :: "go_error option"

text \<open>A leg's goroutine: the context ends while it waits for one of the four slots, or it calls the service.\<close>

record 'e leg_env =
  le_cancel :: "ctx_error option"
  le_call :: "'e service_env"

definition leg_request :: "MultiRouteRequest \<Rightarrow> Waypoint \<Rightarrow> Waypoint \<Rightarrow> RouteRequest" where
  "leg_request req a b = \<lparr>rq_TripID = mq_TripID req, rq_Start = \<lparr>p_Lat = wp_Lat a, p_Lng = wp_Lng a\<rparr>,
     rq_End = \<lparr>p_Lat = wp_Lat b, p_Lng = wp_Lng b\<rparr>, rq_Mode = mq_Mode req, rq_VehicleType = [], rq_Alternatives = 0\<rparr>"

definition run_leg_call ::
  "('e, 'b) computes \<Rightarrow> ('b \<Rightarrow> string) \<Rightarrow> 's redis \<Rightarrow> 'e leg_env \<Rightarrow> MultiRouteRequest \<Rightarrow> Waypoint \<Rightarrow> Waypoint
   \<Rightarrow> ('b, 's) service \<Rightarrow> (legResult \<times> ('b, 's) service) option" where
  "run_leg_call compute name_of rd env req a b sv =
     (case le_cancel env of
        Some e \<Rightarrow> Some (\<lparr>lr_from = a, lr_to = b, lr_resp = None, lr_err = Some (bare (ContextErr e))\<rparr>, sv)
      | None \<Rightarrow>
          map_option (\<lambda>(x, sv'). (case x of
              Inl err \<Rightarrow> \<lparr>lr_from = a, lr_to = b, lr_resp = None, lr_err = Some err\<rparr>
            | Inr r \<Rightarrow> \<lparr>lr_from = a, lr_to = b, lr_resp = Some r, lr_err = None\<rparr>, sv'))
            (service_Calculate compute name_of rd (le_call env) sv (leg_request req a b)))"

fun run_legs ::
  "('e, 'b) computes \<Rightarrow> ('b \<Rightarrow> string) \<Rightarrow> 's redis \<Rightarrow> (nat \<Rightarrow> 'e leg_env) \<Rightarrow> MultiRouteRequest \<Rightarrow> Waypoint list
   \<Rightarrow> nat list \<Rightarrow> legResult list \<times> ('b, 's) service \<Rightarrow> (legResult list \<times> ('b, 's) service) option" where
  "run_legs compute name_of rd envs' req ordered [] st = Some st"
| "run_legs compute name_of rd envs' req ordered (i # is') (legs, sv) =
     (case run_leg_call compute name_of rd (envs' i) req (ordered ! i) (ordered ! (i + 1)) sv of
        None \<Rightarrow> None
      | Some (l, sv') \<Rightarrow> run_legs compute name_of rd envs' req ordered is' (legs[i := l], sv'))"

definition zero_leg :: legResult where
  "zero_leg = \<lparr>lr_from = \<lparr>wp_Lat = 0, wp_Lng = 0, wp_Label = []\<rparr>, lr_to = \<lparr>wp_Lat = 0, wp_Lng = 0, wp_Label = []\<rparr>,
     lr_resp = None, lr_err = None\<rparr>"

definition nat_fmt :: "nat \<Rightarrow> string" where
  "nat_fmt n = FormatInt (int n)"

definition leg_error :: "Waypoint list \<Rightarrow> nat \<Rightarrow> go_error \<Rightarrow> go_error" where
  "leg_error ordered i e = \<lparr>wraps = wraps e, err_text = ''leg '' @ nat_fmt i @ ''->'' @ nat_fmt (i + 1) @ '' (''
     @ labelOf (ordered ! i) @ '' -> '' @ labelOf (ordered ! (i + 1)) @ ''): '' @ err_text e\<rparr>"

text \<open>The check for errors, in the order of the legs.\<close>

fun first_leg_error :: "Waypoint list \<Rightarrow> nat \<Rightarrow> legResult list \<Rightarrow> go_error option" where
  "first_leg_error ordered i [] = None"
| "first_leg_error ordered i (l # ls) =
     (case lr_err l of
        Some e \<Rightarrow> Some (leg_error ordered i e)
      | None \<Rightarrow>
          if lr_resp l = None
          then Some (plain (''leg '' @ nat_fmt i @ utf8 [226, 134, 146] @ nat_fmt (i + 1) @ '': no route found''))
          else first_leg_error ordered (i + 1) ls)"

definition out_leg :: "legResult \<Rightarrow> MultiRouteLeg" where
  "out_leg l = \<lparr>ml_From = lr_from l, ml_To = lr_to l, ml_DistanceKm = rr_Distance (the (lr_resp l)),
     ml_DurationMin = rr_Duration (the (lr_resp l))\<rparr>"

definition stitch :: "MultiRouteRequest \<Rightarrow> legResult list \<Rightarrow> MultiRouteResponse option" where
  "stitch req legs =
     map_option (\<lambda>poly.
       \<lparr>mr_TotalDistanceKm = foldl (\<lambda>t l. t + rr_Distance (the (lr_resp l))) 0 legs,
        mr_TotalDurationMin = foldl (\<lambda>t l. t + rr_Duration (the (lr_resp l))) 0 legs,
        mr_Polyline = poly, mr_Mode = mq_Mode req, mr_Legs = map out_leg legs\<rparr>)
     (CombinePolylines (map (\<lambda>l. rr_Polyline (the (lr_resp l))) legs))"

fun bad_waypoint :: "nat \<Rightarrow> Waypoint list \<Rightarrow> (nat \<times> Waypoint) option" where
  "bad_waypoint i [] = None"
| "bad_waypoint i (w # ws) = (if \<not> ValidCoords (wp_Lat w) (wp_Lng w) then Some (i, w) else bad_waypoint (i + 1) ws)"

definition multi_Compute ::
  "(float64 \<Rightarrow> string) \<Rightarrow> ('e, 'b) computes \<Rightarrow> ('b \<Rightarrow> string) \<Rightarrow> 's redis \<Rightarrow> (nat \<Rightarrow> 'e leg_env) \<Rightarrow> nat list
   \<Rightarrow> ('b, 's) service \<Rightarrow> MultiRouteRequest \<Rightarrow> ((go_error + MultiRouteResponse) \<times> ('b, 's) service) option" where
  "multi_Compute fmt_v compute name_of rd envs' schedule sv req =
     (let wps = mq_Waypoints req in
      if length wps < minWaypoints
      then Some (Inl (plain (''at least '' @ nat_fmt minWaypoints @ '' waypoints required'')), sv)
      else if length wps > maxWaypoints
      then Some (Inl (plain (''too many waypoints: max '' @ nat_fmt maxWaypoints)), sv)
      else case bad_waypoint 0 wps of
        Some (i, wp) \<Rightarrow>
          Some (Inl (plain (''waypoint['' @ nat_fmt i @ ''] has invalid coordinates (lat='' @ fmt_v (wp_Lat wp)
                 @ '' lng='' @ fmt_v (wp_Lng wp) @ '')'')), sv)
      | None \<Rightarrow>
          let ordered = orderWaypointsNearestNeighbor wps in
          case run_legs compute name_of rd envs' req ordered schedule
                 (replicate (length ordered - 1) zero_leg, sv) of
            None \<Rightarrow> None
          | Some (legs, sv') \<Rightarrow>
              (case first_leg_error ordered 0 legs of
                 Some e \<Rightarrow> Some (Inl e, sv')
               | None \<Rightarrow> map_option (\<lambda>r. (Inr r, sv')) (stitch req legs)))"

text \<open>What the goroutine of leg \<open>i\<close> leaves in its slot of the slice.\<close>

definition leg_done :: "Waypoint list \<Rightarrow> nat \<Rightarrow> legResult \<Rightarrow> bool" where
  "leg_done ordered i l \<longleftrightarrow> lr_from l = ordered ! i \<and> lr_to l = ordered ! (i + 1) \<and> (lr_err l = None \<longleftrightarrow> lr_resp l \<noteq> None)"

lemma run_leg_call_done: "run_leg_call compute name_of rd env req (ordered ! i) (ordered ! (i + 1)) sv = Some (l, sv')
    \<Longrightarrow> leg_done ordered i l"
proof -
  assume c: "run_leg_call compute name_of rd env req (ordered ! i) (ordered ! (i + 1)) sv = Some (l, sv')"
  show "leg_done ordered i l"
  proof (cases "le_cancel env")
    case None
    with c obtain x where "l = (case x of
        Inl err \<Rightarrow> \<lparr>lr_from = ordered ! i, lr_to = ordered ! Suc i, lr_resp = None, lr_err = Some err\<rparr>
      | Inr r \<Rightarrow> \<lparr>lr_from = ordered ! i, lr_to = ordered ! Suc i, lr_resp = Some r, lr_err = None\<rparr>)"
      by (auto simp: run_leg_call_def)
    then show ?thesis by (cases x) (simp_all add: leg_done_def)
  next
    case (Some e)
    with c show ?thesis by (auto simp: run_leg_call_def leg_done_def)
  qed
qed

lemma run_legs_done:
  assumes "run_legs compute name_of rd envs' req ordered is' (legs, sv) = Some (legs', sv')" "set is' \<subseteq> {..<length legs}"
  shows "length legs' = length legs \<and> (\<forall>i<length legs. if i \<in> set is' then leg_done ordered i (legs' ! i) else legs' ! i = legs ! i)"
  using assms
proof (induction is' arbitrary: legs sv)
  case (Cons i is')
  then obtain l sv1 where l: "run_leg_call compute name_of rd (envs' i) req (ordered ! i) (ordered ! (i + 1)) sv = Some (l, sv1)"
    and rest: "run_legs compute name_of rd envs' req ordered is' (legs[i := l], sv1) = Some (legs', sv')"
    by (auto split: option.splits)
  have "length legs' = length legs \<and> (\<forall>j<length legs. if j \<in> set is' then leg_done ordered j (legs' ! j) else legs' ! j = legs[i := l] ! j)"
    using Cons.IH [OF rest] Cons.prems(2) by simp
  then show ?case using run_leg_call_done [OF l] Cons.prems(2) by (auto simp: nth_list_update split: if_splits)
qed simp

lemma first_leg_error_spec:
  assumes "\<forall>j<length legs. leg_done ordered (i + j) (legs ! j)"
  shows "case first_leg_error ordered i legs of
      None \<Rightarrow> \<forall>l\<in>set legs. lr_err l = None \<and> lr_resp l \<noteq> None
    | Some e \<Rightarrow> \<exists>j<length legs. \<exists>e'. lr_err (legs ! j) = Some e' \<and> e = leg_error ordered (i + j) e' \<and> (\<forall>k<j. lr_err (legs ! k) = None)"
  using assms
proof (induction legs arbitrary: i)
  case (Cons l legs)
  have l: "leg_done ordered i l" using Cons.prems by force
  have "\<forall>j<length legs. leg_done ordered (Suc i + j) (legs ! j)" using Cons.prems by force
  note ih = Cons.IH [OF this]
  show ?case
  proof (cases "lr_err l")
    case (Some e)
    then show ?thesis by (intro exI [of _ 0] exI [of _ e] | simp)+
  next
    case None
    with l have r: "lr_resp l \<noteq> None" by (simp add: leg_done_def)
    show ?thesis
    proof (cases "first_leg_error ordered (Suc i) legs")
      case None
      with ih r \<open>lr_err l = None\<close> show ?thesis by auto
    next
      case (Some e)
      with ih obtain j e' where j: "j < length legs" "lr_err (legs ! j) = Some e'" "e = leg_error ordered (Suc i + j) e'"
        "\<forall>k<j. lr_err (legs ! k) = None" by auto
      then have "\<forall>k<Suc j. lr_err ((l # legs) ! k) = None" using \<open>lr_err l = None\<close> by (auto simp: less_Suc_eq_0_disj)
      with j Some r \<open>lr_err l = None\<close> show ?thesis by (auto intro!: exI [of _ "Suc j"])
    qed
  qed
qed simp

lemma bad_waypoint_None: "list_all (\<lambda>w. ValidCoords (wp_Lat w) (wp_Lng w)) ws \<Longrightarrow> bad_waypoint i ws = None"
  by (induction ws arbitrary: i) simp_all

lemma stitch_returns:
  assumes "\<forall>l\<in>set legs. \<exists>r ps. lr_resp l = Some r \<and> list_all degrees ps \<and> rr_Polyline r = EncodePolyline ps"
  shows "\<exists>r. stitch req legs = Some r \<and> mr_Legs r = map out_leg legs \<and> mr_Mode r = mq_Mode req
    \<and> mr_TotalDistanceKm r = sum_list (map ml_DistanceKm (mr_Legs r))
    \<and> mr_TotalDurationMin r = sum_list (map ml_DurationMin (mr_Legs r))
    \<and> DecodePolyline (mr_Polyline r) = join_legs [] (map (\<lambda>l. DecodePolyline (rr_Polyline (the (lr_resp l)))) legs)"
proof -
  have "\<exists>pss. map (\<lambda>l. rr_Polyline (the (lr_resp l))) legs = map EncodePolyline pss \<and> list_all (list_all degrees) pss"
    using assms
  proof (induction legs)
    case (Cons l legs)
    then obtain pss where "map (\<lambda>l. rr_Polyline (the (lr_resp l))) legs = map EncodePolyline pss" "list_all (list_all degrees) pss"
      by auto
    moreover obtain r ps where "lr_resp l = Some r" "list_all degrees ps" "rr_Polyline r = EncodePolyline ps"
      using Cons.prems by auto
    ultimately show ?case by (intro exI [of _ "ps # pss"]) simp
  qed simp
  then obtain pss where pss: "map (\<lambda>l. rr_Polyline (the (lr_resp l))) legs = map EncodePolyline pss" "list_all (list_all degrees) pss"
    by blast
  have "map DecodePolyline (map EncodePolyline pss) = map (map e5_point) pss"
    using pss(2) by (induction pss) (simp_all add: DecodePolyline_Encode)
  with pss(1) have dec: "map (\<lambda>l. DecodePolyline (rr_Polyline (the (lr_resp l)))) legs = map (map e5_point) pss"
    by (metis (no_types, lifting) list.map_comp comp_def map_eq_conv)
  show ?thesis
    unfolding stitch_def pss(1) CombinePolylines_join(1) [OF pss(2)] dec
    by (simp add: CombinePolylines_join(2) [OF pss(2)] foldl_plus_map comp_def out_leg_def)
qed

text \<open>
  A multi-waypoint request, whatever the order in which its legs finish: if a leg failed,
  the first failed leg in the order of the journey is reported, with the cause of its error;
  otherwise the legs join consecutive waypoints of the nearest-neighbour order, the totals
  are the sums of the legs, and the polyline is the legs' lines joined.
\<close>

theorem multi_Compute_legs:
  fixes req :: MultiRouteRequest
  defines "wps \<equiv> mq_Waypoints req"
  defines "ordered \<equiv> orderWaypointsNearestNeighbor wps"
  assumes len: "2 \<le> length wps" "length wps \<le> 50" and valid: "list_all (\<lambda>w. ValidCoords (wp_Lat w) (wp_Lng w)) wps"
    and schedule: "set schedule = {..<length wps - 1}"
    and run: "run_legs compute name_of rd envs' req ordered schedule (replicate (length ordered - 1) zero_leg, sv) = Some (legs, sv')"
    and lines: "\<And>l r. l \<in> set legs \<Longrightarrow> lr_resp l = Some r \<Longrightarrow> \<exists>ps. list_all degrees ps \<and> rr_Polyline r = EncodePolyline ps"
  shows "\<exists>x. multi_Compute fmt_v compute name_of rd envs' schedule sv req = Some (x, sv')
    \<and> (case x of
         Inl e \<Rightarrow> \<exists>i<length legs. \<exists>e'. lr_err (legs ! i) = Some e' \<and> e = leg_error ordered i e'
                    \<and> (\<forall>j<i. lr_err (legs ! j) = None)
       | Inr r \<Rightarrow> (\<forall>l\<in>set legs. lr_err l = None) \<and> mr_Mode r = mq_Mode req
           \<and> map ml_From (mr_Legs r) = butlast ordered \<and> map ml_To (mr_Legs r) = tl ordered
           \<and> mr_TotalDistanceKm r = sum_list (map ml_DistanceKm (mr_Legs r))
           \<and> mr_TotalDurationMin r = sum_list (map ml_DurationMin (mr_Legs r))
           \<and> DecodePolyline (mr_Polyline r) = join_legs [] (map (\<lambda>l. DecodePolyline (rr_Polyline (the (lr_resp l)))) legs))"
proof -
  have lo: "length ordered = length wps"
    using orderWaypoints_mset [of wps] unfolding ordered_def by (metis size_mset)
  have "set schedule \<subseteq> {..<length (replicate (length ordered - 1) zero_leg)}" using schedule lo by simp
  from run_legs_done [OF run this] schedule lo have ll: "length legs = length ordered - 1"
    and legs: "\<forall>i<length legs. leg_done ordered i (legs ! i)" by auto
  have eq: "multi_Compute fmt_v compute name_of rd envs' schedule sv req
      = (case first_leg_error ordered 0 legs of Some e \<Rightarrow> Some (Inl e, sv') | None \<Rightarrow> map_option (\<lambda>r. (Inr r, sv')) (stitch req legs))"
    using len bad_waypoint_None [OF valid, of 0] run
    by (simp add: multi_Compute_def Let_def minWaypoints_def maxWaypoints_def wps_def [symmetric] ordered_def [symmetric])
  note fe = first_leg_error_spec [of legs ordered 0, simplified, OF legs]
  show ?thesis
  proof (cases "first_leg_error ordered 0 legs")
    case (Some e)
    with fe eq show ?thesis by auto
  next
    case None
    with fe have ok: "\<forall>l\<in>set legs. lr_err l = None \<and> lr_resp l \<noteq> None" by simp
    with lines have "\<forall>l\<in>set legs. \<exists>r ps. lr_resp l = Some r \<and> list_all degrees ps \<and> rr_Polyline r = EncodePolyline ps" by blast
    from stitch_returns [OF this, of req] obtain r where r: "stitch req legs = Some r" "mr_Legs r = map out_leg legs"
      "mr_Mode r = mq_Mode req" "mr_TotalDistanceKm r = sum_list (map ml_DistanceKm (mr_Legs r))"
      "mr_TotalDurationMin r = sum_list (map ml_DurationMin (mr_Legs r))"
      "DecodePolyline (mr_Polyline r) = join_legs [] (map (\<lambda>l. DecodePolyline (rr_Polyline (the (lr_resp l)))) legs)" by blast
    have "map ml_From (mr_Legs r) = butlast ordered"
      by (rule nth_equalityI) (use legs ll r(2) in \<open>auto simp: out_leg_def leg_done_def nth_butlast\<close>)
    moreover have "map ml_To (mr_Legs r) = tl ordered"
      by (rule nth_equalityI) (use legs ll r(2) in \<open>auto simp: out_leg_def leg_done_def nth_tl\<close>)
    ultimately show ?thesis using eq None r ok by simp
  qed
qed

definition two_stops :: MultiRouteRequest where
  "two_stops = \<lparr>mq_Waypoints = [\<lparr>wp_Lat = 35, wp_Lng = 51, wp_Label = ''A''\<rparr>, \<lparr>wp_Lat = 36, wp_Lng = 51, wp_Label = ''B''\<rparr>],
     mq_Mode = ''car'', mq_TripID = 0\<rparr>"

theorem multi_Compute_legs_witness:
  "\<exists>e. multi_Compute (\<lambda>_. []) ComputeRouteResult BackendName map_redis
     (\<lambda>_. \<lparr>le_cancel = Some Canceled, le_call = example_env\<rparr>) [0] example_service two_stops = Some (Inl e, example_service)
     \<and> errors_Is e (ContextErr Canceled)"
proof -
  let ?env = "\<lambda>_. \<lparr>le_cancel = Some Canceled, le_call = example_env\<rparr>"
  let ?o = "orderWaypointsNearestNeighbor (mq_Waypoints two_stops)"
  have lo: "length ?o = 2" using orderWaypoints_mset [of "mq_Waypoints two_stops"]
    by (metis size_mset two_stops_def MultiRouteRequest.select_convs(1) length_Cons list.size(3) numeral_2_eq_2)
  let ?l = "\<lparr>lr_from = ?o ! 0, lr_to = ?o ! 1, lr_resp = None, lr_err = Some (bare (ContextErr Canceled))\<rparr>"
  have run: "run_legs ComputeRouteResult BackendName map_redis ?env two_stops ?o [0] (replicate (length ?o - 1) zero_leg, example_service)
      = Some ([?l], example_service)"
    by (simp add: run_leg_call_def lo)
  have w: "2 \<le> length (mq_Waypoints two_stops)" "length (mq_Waypoints two_stops) \<le> 50"
    "list_all (\<lambda>w. ValidCoords (wp_Lat w) (wp_Lng w)) (mq_Waypoints two_stops)"
    "set [0] = {..<length (mq_Waypoints two_stops) - 1}"
    by (auto simp: two_stops_def ValidCoords_def)
  from multi_Compute_legs [OF w run, of "\<lambda>_. []"] obtain x where
    x: "multi_Compute (\<lambda>_. []) ComputeRouteResult BackendName map_redis ?env [0] example_service two_stops = Some (x, example_service)"
    "case x of Inl e \<Rightarrow> \<exists>i<length [?l]. \<exists>e'. lr_err ([?l] ! i) = Some e' \<and> e = leg_error ?o i e' \<and> (\<forall>j<i. lr_err ([?l] ! j) = None)
     | Inr r \<Rightarrow> (\<forall>l\<in>set [?l]. lr_err l = None)" by (fastforce split: sum.splits)
  then show ?thesis by (cases x) (auto simp: leg_error_def errors_Is_def bare_def)
qed

section \<open>The endpoints\<close>

datatype 'a reply = Sent 'a | Failed http_failure

definition ValidationFail :: "string \<Rightarrow> http_failure" where
  "ValidationFail msg = (422, ''VALIDATION_ERROR'', msg)"

definition coords_failure :: http_failure where
  "coords_failure = ValidationFail ''coordinates out of valid range (-90 <= lat <= 90, -180 <= lng <= 180)''"

definition validateCoords :: "point \<Rightarrow> http_failure option" where
  "validateCoords p = (if \<not> ValidCoords (p_Lat p) (p_Lng p) then Some coords_failure else None)"

datatype route_metric = RouteCalcTotal | RouteTimeoutTotal string | RouteOverloadTotal string

definition recordRouteErrorMetric :: "RouteMeta \<Rightarrow> go_error \<Rightarrow> route_metric list" where
  "recordRouteErrorMetric meta err =
     (let backend = (if mt_Backend meta = [] then ''unknown'' else mt_Backend meta) in
      (if errors_Is err ErrRoutingTimeout then [RouteTimeoutTotal backend] else [])
      @ (if errors_Is err ErrRoutingOverloaded then [RouteOverloadTotal backend] else []))"

text \<open>
  \<open>RouteHandler.Calculate\<close>: the body is the decoded request or the decoder's message; the
  answer is the reply, the metrics, and the service afterwards.
\<close>

definition route_handler ::
  "('e, 'b) computes \<Rightarrow> ('b \<Rightarrow> string) \<Rightarrow> 's redis \<Rightarrow> 'e service_env \<Rightarrow> auth_context \<Rightarrow> trip_owners \<Rightarrow> string + RouteRequest
   \<Rightarrow> ('b, 's) service \<Rightarrow> (RouteResponse reply \<times> route_metric list \<times> ('b, 's) service) option" where
  "route_handler compute name_of rd env c authz body sv =
     (case body of
        Inl msg \<Rightarrow> Some (Failed (400, ''INVALID_JSON'', msg), [], sv)
      | Inr req \<Rightarrow>
          (case validateCoords (rq_Start req) of
             Some f \<Rightarrow> Some (Failed f, [], sv)
           | None \<Rightarrow>
          (case validateCoords (rq_End req) of
             Some f \<Rightarrow> Some (Failed f, [], sv)
           | None \<Rightarrow>
          (case NormalizeMode (if rq_VehicleType req \<noteq> [] then rq_VehicleType req else rq_Mode req) of
             Inl e \<Rightarrow> Some (Failed (ValidationFail (mode_error_text e)), [], sv)
           | Inr m \<Rightarrow>
          (case authorizeTripWrite c authz (rq_TripID req) of
             Some f \<Rightarrow> Some (Failed f, [], sv)
           | None \<Rightarrow>
               map_option (\<lambda>(x, meta, sv'). (case x of
                   Inl err \<Rightarrow> (Failed (mapServiceError err), recordRouteErrorMetric meta err, sv')
                 | Inr r \<Rightarrow> (Sent r, [RouteCalcTotal], sv')))
                 (CalculateWithMeta compute name_of rd env sv req))))))"

definition isValidLat :: "float64 \<Rightarrow> bool" where "isValidLat lat \<longleftrightarrow> lat \<ge> - 90 \<and> lat \<le> 90"
definition isValidLng :: "float64 \<Rightarrow> bool" where "isValidLng lng \<longleftrightarrow> lng \<ge> - 180 \<and> lng \<le> 180"

fun bad_handler_waypoint :: "nat \<Rightarrow> Waypoint list \<Rightarrow> (nat \<times> Waypoint) option" where
  "bad_handler_waypoint i [] = None"
| "bad_handler_waypoint i (w # ws) =
     (if \<not> isValidLat (wp_Lat w) \<or> \<not> isValidLng (wp_Lng w) then Some (i, w) else bad_handler_waypoint (i + 1) ws)"

definition multi_handler ::
  "(float64 \<Rightarrow> string) \<Rightarrow> ('e, 'b) computes \<Rightarrow> ('b \<Rightarrow> string) \<Rightarrow> 's redis \<Rightarrow> (nat \<Rightarrow> 'e leg_env) \<Rightarrow> nat list \<Rightarrow> auth_context
   \<Rightarrow> trip_owners \<Rightarrow> string + MultiRouteRequest \<Rightarrow> ('b, 's) service \<Rightarrow> (MultiRouteResponse reply \<times> ('b, 's) service) option" where
  "multi_handler fmt_v compute name_of rd envs' schedule c authz body sv =
     (case body of
        Inl msg \<Rightarrow> Some (Failed (400, ''INVALID_JSON'', msg), sv)
      | Inr req \<Rightarrow>
          if length (mq_Waypoints req) < 2 then Some (Failed (ValidationFail ''waypoints: at least 2 required''), sv)
          else if length (mq_Waypoints req) > 50 then Some (Failed (ValidationFail ''waypoints: maximum 50 allowed''), sv)
          else case bad_handler_waypoint 0 (mq_Waypoints req) of
            Some (i, wp) \<Rightarrow>
              Some (Failed (ValidationFail (''waypoints['' @ nat_fmt i @ '']: coordinates out of range (lat='' @ fmt_v (wp_Lat wp)
                @ '' lng='' @ fmt_v (wp_Lng wp) @ '')'')), sv)
          | None \<Rightarrow>
              (case NormalizeMode (mq_Mode req) of
                 Inl e \<Rightarrow> Some (Failed (ValidationFail (mode_error_text e)), sv)
               | Inr m \<Rightarrow>
                   (case authorizeTripWrite c authz (mq_TripID req) of
                      Some f \<Rightarrow> Some (Failed f, sv)
                    | None \<Rightarrow>
                        map_option (\<lambda>(x, sv'). (case x of Inl err \<Rightarrow> Failed (mapServiceError err) | Inr r \<Rightarrow> Sent r, sv'))
                          (multi_Compute fmt_v compute name_of rd envs' schedule sv req))))"

text \<open>What a well-behaved route endpoint promises about one request.\<close>

definition admitted :: "auth_context \<Rightarrow> trip_owners \<Rightarrow> RouteRequest \<Rightarrow> TransportMode \<Rightarrow> bool" where
  "admitted c authz req mode \<longleftrightarrow> ValidCoords (p_Lat (rq_Start req)) (p_Lng (rq_Start req))
     \<and> ValidCoords (p_Lat (rq_End req)) (p_Lng (rq_End req)) \<and> NormalizeMode (routeMode req) = Inr mode
     \<and> authorizeTripWrite c authz (rq_TripID req) = None"

definition authz_works :: "trip_owners \<Rightarrow> bool" where
  "authz_works authz \<longleftrightarrow> (\<forall>owns u t. authz = Some owns \<longrightarrow> owns u t \<noteq> None)"

lemma authorizeTripWrite_status:
  "authorizeTripWrite c authz t = Some f \<Longrightarrow> authz_works authz \<Longrightarrow> fst f \<in> {401, 403, 503}"
  by (auto simp: authorizeTripWrite_def authz_works_def simp del: not_None_eq split: if_splits option.splits)

lemma route_handler_refused:
  assumes "\<forall>mode. \<not> admitted c authz req mode" and "authz_works authz"
  shows "\<exists>f. route_handler compute name_of rd env c authz (Inr req) sv = Some (Failed f, [], sv) \<and> fst f \<in> {401, 403, 422, 503}"
  using assms authorizeTripWrite_status
  by (fastforce simp: route_handler_def admitted_def validateCoords_def coords_failure_def ValidationFail_def routeMode_def
      split: option.split sum.split)

text \<open>
  C11. \<open>POST /route\<close>: a request with invalid coordinates, an unknown mode or no right to its
  trip is refused with 401, 403, 422 or 503 and changes nothing; every other request gets a
  route of the requested mode or one of the statuses 404, 503 and 504.  The reply is never
  500 as long as the trip repository answers, and the route cache stays sound.
\<close>

theorem route_handler_replies:
  assumes "redis_ok rd" and "cache_inv BackendName rd sv" and "tree_ready (sc_env env) (sv_backend sv)"
    and "sc_flight env = None" and "authz_works authz"
  shows "\<exists>reply ms sv'. route_handler ComputeRouteResult BackendName rd env c authz (Inr req) sv = Some (reply, ms, sv')
    \<and> cache_inv BackendName rd sv'
    \<and> (case reply of
         Sent r \<Rightarrow> \<exists>mode. admitted c authz req mode \<and> rr_Mode r = mode \<and> ms = [RouteCalcTotal]
       | Failed f \<Rightarrow> if \<exists>mode. admitted c authz req mode then fst f \<in> {404, 503, 504}
                      else fst f \<in> {401, 403, 422, 503} \<and> sv' = sv)"
proof (cases "\<exists>mode. admitted c authz req mode")
  case False
  with route_handler_refused [of c authz req ComputeRouteResult BackendName rd env sv] assms(2,5) show ?thesis by auto
next
  case True
  then obtain mode where adm: "admitted c authz req mode" by blast
  then have mode: "NormalizeMode (routeMode req) = Inr mode" by (simp add: admitted_def)
  obtain x meta sv' where call: "CalculateWithMeta ComputeRouteResult BackendName rd env sv req = Some (x, meta, sv')"
    "reply_ok mode meta x" "cache_inv BackendName rd sv'"
    using service_replies [OF assms(1,2) mode assms(3)] assms(4) by auto
  have "route_handler ComputeRouteResult BackendName rd env c authz (Inr req) sv =
      Some (case x of Inl err \<Rightarrow> (Failed (mapServiceError err), recordRouteErrorMetric meta err, sv')
        | Inr r \<Rightarrow> (Sent r, [RouteCalcTotal], sv'))"
    using adm call(1) by (simp add: route_handler_def admitted_def validateCoords_def routeMode_def)
  with call(2,3) adm True show ?thesis by (cases x) (auto simp: reply_ok_def)
qed

theorem route_handler_replies_witness:
  "\<exists>f ms. route_handler ComputeRouteResult BackendName map_redis example_env no_auth None
     (Inr (example_request\<lparr>rq_Start := \<lparr>p_Lat = 91, p_Lng = 0\<rparr>\<rparr>)) example_service = Some (Failed f, ms, example_service) \<and> fst f \<in> {401, 403, 422, 503}"
proof -
  let ?req = "example_request\<lparr>rq_Start := \<lparr>p_Lat = 91, p_Lng = 0\<rparr>\<rparr>"
  have ready: "tree_ready (sc_env example_env) (sv_backend example_service)"
    using server_tree_ready by (simp add: example_env_def example_service_def NewRouteService_def)
  have no: "\<nexists>mode. admitted no_auth None ?req mode" by (simp add: admitted_def ValidCoords_def)
  have "sc_flight example_env = None" "authz_works None" by (simp_all add: example_env_def authz_works_def)
  from route_handler_replies [OF map_redis_ok example_inv ready this, of no_auth ?req] obtain reply ms sv' where
    "route_handler ComputeRouteResult BackendName map_redis example_env no_auth None (Inr ?req) example_service = Some (reply, ms, sv')"
    "case reply of
         Sent r \<Rightarrow> \<exists>mode. admitted no_auth None ?req mode \<and> rr_Mode r = mode \<and> ms = [RouteCalcTotal]
       | Failed f \<Rightarrow> if \<exists>mode. admitted no_auth None ?req mode then fst f \<in> {404, 503, 504}
                      else fst f \<in> {401, 403, 422, 503} \<and> sv' = example_service" by blast
  moreover have "Ex (admitted no_auth None ?req) = False" using no by blast
  ultimately show ?thesis by (cases reply) auto
qed

end
