(* ===== verification/GpsService.thy ===== *)
theory GpsService
  imports RouteApi
begin

text \<open>
  \<open>internal/gps\<close>: the live position of a trip.  An update is rate limited, smoothed against
  the previous position, given a speed and a distance from the planned route; writing the new
  state and publishing it happen later, in a goroutine of their own.  So the model is a step
  relation: a request computes a state and leaves a job, and any waiting job may be carried
  out at any time.  Time stamps are unbounded integers.
\<close>

section \<open>One update\<close>

record GPSUpdate =
  gu_TripID :: int
  gu_Lat :: float64
  gu_Lng :: float64
  gu_Timestamp :: int

definition smoothingAlpha :: float64 where "smoothingAlpha = 0.75"

record GPSConfig =
  gc_rateLimitMs :: int
  gc_deviationKm :: float64

datatype gps_error = ErrRateLimited | RateLimitCheck

definition computeDeviation :: "'s redis \<Rightarrow> 's \<Rightarrow> int \<Rightarrow> float64 \<Rightarrow> float64 \<Rightarrow> float64" where
  "computeDeviation rd st tripID lat lng =
     (case GetTripRoute rd st tripID of
        None \<Rightarrow> 0
      | Some routeResp \<Rightarrow>
          if rr_Polyline routeResp = [] then 0
          else let rawPts = DecodePolyline (rr_Polyline routeResp) in
               if length rawPts < 2 then 0
               else MinDistanceToPolyline lat lng (map (\<lambda>p. \<lparr>pp_Lat = p_Lat p, pp_Lng = p_Lng p\<rparr>) rawPts))"

text \<open>The speed between two positions, to a tenth of a kilometre per hour.\<close>

definition update_speed :: "LocationState option \<Rightarrow> int \<Rightarrow> float64 \<Rightarrow> float64 \<Rightarrow> float64" where
  "update_speed prev ts lat lng =
     (case prev of
        Some p \<Rightarrow>
          if ls_Timestamp p > 0
          then let dt = of_int (ts - ls_Timestamp p) / 3600 in
               if dt > 0
               then of_int (math_Round (Haversine (ls_Lat p) (ls_Lng p) lat lng / dt * 10)) / 10
               else 0
          else 0
      | None \<Rightarrow> 0)"

definition update_state :: "'s redis \<Rightarrow> 's \<Rightarrow> GPSUpdate \<Rightarrow> LocationState \<times> float64" where
  "update_state rd st u =
     (let prev = GetLocation rd st (gu_TripID u);
          (lat, lng) = (case prev of
             Some p \<Rightarrow> SmoothGPS (gu_Lat u) (gu_Lng u) (ls_Lat p) (ls_Lng p) smoothingAlpha
           | None \<Rightarrow> (gu_Lat u, gu_Lng u));
          deviation = computeDeviation rd st (gu_TripID u) lat lng
      in (\<lparr>ls_TripID = gu_TripID u, ls_Lat = lat, ls_Lng = lng,
           ls_SpeedKmH = update_speed prev (gu_Timestamp u) lat lng, ls_Timestamp = gu_Timestamp u,
           ls_DeviationKm = of_int (math_Round (deviation * 1000)) / 1000\<rparr>, deviation))"

text \<open>
  \<open>ProcessUpdate\<close>: the answer, the Redis state after the rate limit, and the job for
  \<open>persistAndPublish\<close>.  The reads all see the state after the rate limit.
\<close>

definition ProcessUpdate ::
  "'s redis \<Rightarrow> GPSConfig \<Rightarrow> 's \<Rightarrow> GPSUpdate \<Rightarrow> (gps_error + LocationState) \<times> 's \<times> (LocationState \<times> float64) option" where
  "ProcessUpdate rd cfg st u =
     (case AcquireRateLimit rd st (gu_TripID u) (gc_rateLimitMs cfg) of
        (None, st1) \<Rightarrow> (Inl RateLimitCheck, st1, None)
      | (Some ok, st1) \<Rightarrow>
          if \<not> ok then (Inl ErrRateLimited, st1, None)
          else let (state, deviation) = update_state rd st1 u in (Inr state, st1, Some (state, deviation)))"

datatype gps_event = LocationUpdated LocationState | DeviationDetected LocationState

definition persistAndPublish :: "'s redis \<Rightarrow> GPSConfig \<Rightarrow> LocationState \<times> float64 \<Rightarrow> 's \<Rightarrow> 's \<times> gps_event list" where
  "persistAndPublish rd cfg job st =
     (case job of (state, deviation) \<Rightarrow>
        (SetLastUpdate rd (SetLocation rd st (ls_TripID state) state) (ls_TripID state) (ls_Timestamp state),
         [LocationUpdated state] @ (if deviation > gc_deviationKm cfg then [DeviationDetected state] else [])))"

definition gps_GetLocation :: "'s redis \<Rightarrow> 's \<Rightarrow> int \<Rightarrow> LocationState option" where
  "gps_GetLocation rd st tripID = GetLocation rd st tripID"

section \<open>The endpoint\<close>

definition gps_mapServiceError :: "gps_error \<Rightarrow> http_failure" where
  "gps_mapServiceError e =
     (case e of
        ErrRateLimited \<Rightarrow> (429, ''RATE_LIMITED'', ''update received too soon; please slow down'')
      | RateLimitCheck \<Rightarrow> (500, ''INTERNAL_ERROR'', ''internal error; please retry''))"

definition gps_authorize :: "bool \<Rightarrow> auth_context \<Rightarrow> trip_owners \<Rightarrow> int \<Rightarrow> http_failure option" where
  "gps_authorize requireAuth c authz tripID =
     (if \<not> requireAuth then None
      else if AuthenticatedWithAPIKey c then None
      else case AuthenticatedUserID c of
        None \<Rightarrow> Some (401, ''UNAUTHORIZED'', ''authenticated user is required'')
      | Some userID \<Rightarrow>
          (case authz of
             None \<Rightarrow> Some (503, ''AUTHORIZATION_UNAVAILABLE'', ''trip authorization is not configured'')
           | Some allowed \<Rightarrow>
               (case allowed userID tripID of
                  None \<Rightarrow> Some (500, ''INTERNAL_ERROR'', ''internal error; please retry'')
                | Some ok \<Rightarrow> if \<not> ok then Some (403, ''FORBIDDEN'', ''trip access denied'') else None)))"

text \<open>\<open>GPSHandler.Update\<close> for a decoded body with a trip.\<close>

definition gps_update_handler ::
  "'s redis \<Rightarrow> GPSConfig \<Rightarrow> bool \<Rightarrow> auth_context \<Rightarrow> trip_owners \<Rightarrow> 's \<Rightarrow> GPSUpdate
   \<Rightarrow> LocationState reply \<times> 's \<times> (LocationState \<times> float64) option" where
  "gps_update_handler rd cfg requireAuth c authz st u =
     (if \<not> ValidCoords (gu_Lat u) (gu_Lng u) then (Failed coords_failure, st, None)
      else if gu_Timestamp u \<le> 0
      then (Failed (ValidationFail ''timestamp must be a positive Unix epoch (seconds)''), st, None)
      else case gps_authorize requireAuth c authz (gu_TripID u) of
        Some f \<Rightarrow> (Failed f, st, None)
      | None \<Rightarrow>
          (case ProcessUpdate rd cfg st u of
             (Inl e, st1, job) \<Rightarrow> (Failed (gps_mapServiceError e), st1, job)
           | (Inr state, st1, job) \<Rightarrow> (Sent state, st1, job)))"

text \<open>\<open>GPSHandler.GetLocation\<close>; \<open>authz\<close> is \<open>UserCanAccessTrip\<close> here.\<close>

definition gps_location_handler ::
  "'s redis \<Rightarrow> bool \<Rightarrow> auth_context \<Rightarrow> trip_owners \<Rightarrow> 's \<Rightarrow> string \<Rightarrow> LocationState reply" where
  "gps_location_handler rd requireAuth c authz st param =
     (case ParseInt param of
        None \<Rightarrow> Failed (400, ''INVALID_TRIP_ID'', ''trip id must be a positive integer'')
      | Some tripID \<Rightarrow>
          if tripID \<le> 0 then Failed (400, ''INVALID_TRIP_ID'', ''trip id must be a positive integer'')
          else case gps_authorize requireAuth c authz tripID of
            Some f \<Rightarrow> Failed f
          | None \<Rightarrow>
              (case gps_GetLocation rd st tripID of
                 None \<Rightarrow> Failed (404, ''NOT_FOUND'', ''no location found for this trip'')
               | Some l \<Rightarrow> Sent l))"

section \<open>Requests and jobs interleaved\<close>

record 's gps_world =
  gw_redis :: 's
  gw_jobs :: "(LocationState \<times> float64) list"
  gw_events :: "gps_event list"
  gw_replies :: "LocationState list"

inductive gps_step :: "'s redis \<Rightarrow> GPSConfig \<Rightarrow> bool \<Rightarrow> 's gps_world \<Rightarrow> 's gps_world \<Rightarrow> bool" for rd cfg requireAuth where
  request: "gps_update_handler rd cfg requireAuth c authz (gw_redis w) u = (reply, st1, job) \<Longrightarrow> 0 < gu_TripID u
    \<Longrightarrow> gps_step rd cfg requireAuth w (w\<lparr>gw_redis := st1,
          gw_jobs := gw_jobs w @ (case job of Some j \<Rightarrow> [j] | None \<Rightarrow> []),
          gw_replies := gw_replies w @ (case reply of Sent l \<Rightarrow> [l] | Failed f \<Rightarrow> [])\<rparr>)"
| job: "i < length (gw_jobs w) \<Longrightarrow> persistAndPublish rd cfg (gw_jobs w ! i) (gw_redis w) = (st1, evs)
    \<Longrightarrow> gps_step rd cfg requireAuth w (w\<lparr>gw_redis := st1,
          gw_jobs := take i (gw_jobs w) @ drop (i + 1) (gw_jobs w), gw_events := gw_events w @ evs\<rparr>)"
| route: "gps_step rd cfg requireAuth w (w\<lparr>gw_redis := SetTripRoute rd (gw_redis w) t r\<rparr>)"

text \<open>A position that can be shown on a map: on earth, not moving backwards, at a distance from its route.\<close>

definition location_ok :: "LocationState \<Rightarrow> bool" where
  "location_ok l \<longleftrightarrow> 0 < ls_TripID l \<and> ValidCoords (ls_Lat l) (ls_Lng l) \<and> 0 \<le> ls_SpeedKmH l
     \<and> 0 \<le> ls_DeviationKm l \<and> 0 < ls_Timestamp l"

definition stored_ok :: "'s redis \<Rightarrow> 's \<Rightarrow> bool" where
  "stored_ok rd st \<longleftrightarrow> (\<forall>t l. GetLocation rd st t = Some l \<longrightarrow> location_ok l \<and> ls_TripID l = t)"

definition event_ok :: "GPSConfig \<Rightarrow> gps_event \<Rightarrow> bool" where
  "event_ok cfg e \<longleftrightarrow>
     (case e of LocationUpdated l \<Rightarrow> location_ok l
      | DeviationDetected l \<Rightarrow> location_ok l \<and> ls_DeviationKm l \<ge> gc_deviationKm cfg - 1 / 2000)"

definition job_ok :: "LocationState \<times> float64 \<Rightarrow> bool" where
  "job_ok j \<longleftrightarrow> location_ok (fst j) \<and> ls_DeviationKm (fst j) = of_int (math_Round (snd j * 1000)) / 1000"

definition gps_inv :: "'s redis \<Rightarrow> GPSConfig \<Rightarrow> 's gps_world \<Rightarrow> bool" where
  "gps_inv rd cfg w \<longleftrightarrow> stored_ok rd (gw_redis w) \<and> list_all job_ok (gw_jobs w)
     \<and> list_all (event_ok cfg) (gw_events w) \<and> list_all location_ok (gw_replies w)"

lemma math_Round_nonneg: "0 \<le> x \<Longrightarrow> 0 \<le> math_Round x"
  by (simp add: math_Round_def)

lemma segment_nonneg: "0 \<le> segment_distance lat lng p q"
  by (auto simp: segment_distance_def CrossTrackDistance_def Let_def Haversine_nonneg earthRadiusKm_def split: prod.splits)

lemma min_over_nonneg: "0 \<le> m \<Longrightarrow> 0 \<le> min_over_segments lat lng m ps"
  by (induction lat lng m ps rule: min_over_segments.induct) (auto simp: Let_def segment_nonneg)

lemma computeDeviation_nonneg: "0 \<le> computeDeviation rd st t lat lng"
  by (auto simp: computeDeviation_def MinDistanceToPolyline_def Let_def min_over_nonneg [OF segment_nonneg]
      min_over_nonneg [OF less_imp_le [OF maxFloat64_pos]] split: option.splits list.splits)

lemma update_speed_nonneg: "0 \<le> update_speed prev ts lat lng"
  by (auto simp: update_speed_def Let_def Haversine_nonneg intro!: math_Round_nonneg split: option.splits)

lemma update_state_ok:
  assumes "stored_ok rd st" "ValidCoords (gu_Lat u) (gu_Lng u)" "0 < gu_TripID u" "0 < gu_Timestamp u"
  shows "job_ok (update_state rd st u) \<and> ls_TripID (fst (update_state rd st u)) = gu_TripID u"
proof -
  let ?prev = "GetLocation rd st (gu_TripID u)"
  let ?pos = "case ?prev of Some p \<Rightarrow> SmoothGPS (gu_Lat u) (gu_Lng u) (ls_Lat p) (ls_Lng p) smoothingAlpha
       | None \<Rightarrow> (gu_Lat u, gu_Lng u)"
  have pos: "ValidCoords (fst ?pos) (snd ?pos)"
  proof (cases ?prev)
    case (Some p)
    then have "ValidCoords (ls_Lat p) (ls_Lng p)" using assms(1) by (auto simp: stored_ok_def location_ok_def)
    then show ?thesis using SmoothGPS_valid [of smoothingAlpha "gu_Lat u" "gu_Lng u" "ls_Lat p" "ls_Lng p"] assms(2) Some
      by (auto simp: smoothingAlpha_def split: prod.splits)
  qed (use assms(2) in simp)
  obtain lat lng where ll: "?pos = (lat, lng)" by fastforce
  then show ?thesis
    using pos assms(3,4) computeDeviation_nonneg [of rd st "gu_TripID u" lat lng] update_speed_nonneg
    by (simp add: update_state_def Let_def job_ok_def location_ok_def math_Round_nonneg)
qed

lemma GetLocation_setnx:
  assumes "redis_ok rd" "rd_setnx rd st (RateLimitKey t) w = (ok, st1)"
  shows "GetLocation rd st1 t' = GetLocation rd st t'"
proof -
  have "rd_get rd (snd (rd_setnx rd st (RateLimitKey t) w)) (TripLocationKey t') = rd_get rd st (TripLocationKey t')"
    using assms(1) trip_keys_disjoint(10) unfolding redis_ok_def by blast
  with assms(2) show ?thesis by (simp add: GetLocation_def)
qed

lemma gps_update_handler_ok:
  assumes rd: "redis_ok rd" and st: "stored_ok rd st" and pos: "0 < gu_TripID u"
    and h: "gps_update_handler rd cfg requireAuth c authz st u = (reply, st1, job)"
  shows "stored_ok rd st1 \<and> (\<forall>j. job = Some j \<longrightarrow> job_ok j) \<and> (\<forall>l. reply = Sent l \<longrightarrow> location_ok l)"
proof (cases "ValidCoords (gu_Lat u) (gu_Lng u) \<and> 0 < gu_Timestamp u \<and> gps_authorize requireAuth c authz (gu_TripID u) = None")
  case False
  with h st show ?thesis by (auto simp: gps_update_handler_def not_less split: option.splits if_splits)
next
  case True
  obtain ok st2 where a: "AcquireRateLimit rd st (gu_TripID u) (gc_rateLimitMs cfg) = (ok, st2)" by fastforce
  have st2: "stored_ok rd st2"
    using GetLocation_setnx [OF rd] a st by (simp add: stored_ok_def AcquireRateLimit_def)
  have "job_ok (update_state rd st2 u)" using update_state_ok [OF st2 _ pos] True by blast
  with h True a st2 show ?thesis
    by (auto simp: gps_update_handler_def ProcessUpdate_def Let_def job_ok_def split: option.splits if_splits prod.splits)
qed

lemma stored_ok_persist:
  assumes "redis_ok rd" "stored_ok rd st" "location_ok l"
  shows "stored_ok rd (SetLastUpdate rd (SetLocation rd st (ls_TripID l) l) (ls_TripID l) ts)"
  using assms by (auto simp: stored_ok_def GetLocation_def SetLastUpdate_def SetLocation_def redis_get_set split: if_splits)

lemma stored_ok_route: "redis_ok rd \<Longrightarrow> stored_ok rd st \<Longrightarrow> stored_ok rd (SetTripRoute rd st t r)"
  by (simp add: stored_ok_def GetLocation_def SetTripRoute_def redis_get_set)

lemma deviation_event:
  assumes "job_ok (l, dev)" "dev > gc_deviationKm cfg"
  shows "event_ok cfg (DeviationDetected l)"
proof -
  have "\<bar>of_int (math_Round (dev * 1000)) - dev * 1000\<bar> \<le> 1 / 2" by (rule math_Round_bounds)
  then have "dev * 1000 - 1 / 2 \<le> of_int (math_Round (dev * 1000))" by linarith
  then have "(dev * 1000 - 1 / 2) / 1000 \<le> of_int (math_Round (dev * 1000)) / 1000" by (rule divide_right_mono) simp
  then have "of_int (math_Round (dev * 1000)) / 1000 \<ge> dev - 1 / 2000" by (simp add: diff_divide_distrib)
  with assms show ?thesis by (simp add: event_ok_def job_ok_def)
qed

lemma gps_inv_step: "gps_step rd cfg requireAuth w w' \<Longrightarrow> redis_ok rd \<Longrightarrow> gps_inv rd cfg w \<Longrightarrow> gps_inv rd cfg w'"
proof (induction rule: gps_step.induct)
  case (request c authz w u reply st1 job)
  have "stored_ok rd st1 \<and> (\<forall>j. job = Some j \<longrightarrow> job_ok j) \<and> (\<forall>l. reply = Sent l \<longrightarrow> location_ok l)"
    using gps_update_handler_ok [OF request(3) _ request(2,1)] request(4) by (simp add: gps_inv_def)
  with request(4) show ?case by (auto simp: gps_inv_def split: option.splits reply.splits)
next
  case (job i w st1 evs)
  obtain l dev where j: "gw_jobs w ! i = (l, dev)" by fastforce
  have "job_ok (l, dev)" using job(1,4) j by (auto simp: gps_inv_def list_all_length)
  moreover from this have "location_ok l" by (simp add: job_ok_def)
  ultimately have "stored_ok rd st1 \<and> list_all (event_ok cfg) evs"
    using job(2,4) j stored_ok_persist [OF job(3)] deviation_event
    by (auto simp: persistAndPublish_def gps_inv_def event_ok_def [of cfg "LocationUpdated l"])
  moreover have "list_all job_ok (take i (gw_jobs w) @ drop (i + 1) (gw_jobs w))"
    using job(4) by (auto simp: gps_inv_def list_all_iff dest: in_set_takeD in_set_dropD)
  ultimately show ?case using job(4) by (simp add: gps_inv_def)
next
  case (route w t r)
  then show ?case by (simp add: gps_inv_def stored_ok_route)
qed

text \<open>
  C35. Whatever the requests, their senders, and the order in which the background writes are
  carried out: every position ever stored, published or sent back is a valid coordinate of
  the trip it is stored under, with a speed and a deviation that are not negative; and a
  deviation event is only published for a trip that is off its route by at least the
  threshold (less the half metre of rounding).
\<close>

theorem gps_positions_valid:
  assumes "(gps_step rd cfg requireAuth)\<^sup>*\<^sup>* \<lparr>gw_redis = st, gw_jobs = [], gw_events = [], gw_replies = []\<rparr> w"
    and "redis_ok rd" and "stored_ok rd st"
  shows "stored_ok rd (gw_redis w) \<and> list_all location_ok (gw_replies w) \<and> list_all (event_ok cfg) (gw_events w)"
proof -
  from assms(1) have "gps_inv rd cfg w"
  proof (induction rule: rtranclp_induct)
    case base
    show ?case using assms(3) by (simp add: gps_inv_def)
  next
    case (step w w')
    then show ?case using gps_inv_step assms(2) by blast
  qed
  then show ?thesis by (simp add: gps_inv_def)
qed

definition example_update :: GPSUpdate where
  "example_update = \<lparr>gu_TripID = 7, gu_Lat = 35, gu_Lng = 51, gu_Timestamp = 1000\<rparr>"

definition example_gps :: GPSConfig where
  "example_gps = \<lparr>gc_rateLimitMs = 1000, gc_deviationKm = 1 / 2\<rparr>"

theorem gps_positions_valid_witness:
  "\<exists>w l. (gps_step map_redis example_gps False)\<^sup>*\<^sup>* \<lparr>gw_redis = Map.empty, gw_jobs = [], gw_events = [], gw_replies = []\<rparr> w
     \<and> gw_replies w = [l] \<and> location_ok l"
proof -
  let ?w0 = "\<lparr>gw_redis = Map.empty, gw_jobs = [], gw_events = [], gw_replies = []\<rparr>"
  obtain l st1 job where h: "gps_update_handler map_redis example_gps False no_auth None Map.empty example_update = (Sent l, st1, job)"
    by (simp add: gps_update_handler_def gps_authorize_def example_update_def ValidCoords_def ProcessUpdate_def
        AcquireRateLimit_def map_redis_def update_state_def GetLocation_def Let_def)
  have t: "0 < gu_TripID example_update" by (simp add: example_update_def)
  have h': "gps_update_handler map_redis example_gps False no_auth None (gw_redis ?w0) example_update = (Sent l, st1, job)"
    using h by simp
  from gps_step.request [OF h' t] obtain w where
    w: "gps_step map_redis example_gps False ?w0 w" "gw_replies w = [l]" by fastforce
  have run: "(gps_step map_redis example_gps False)\<^sup>*\<^sup>* ?w0 w" using w(1) by (rule r_into_rtranclp)
  have "stored_ok map_redis Map.empty" by (simp add: stored_ok_def GetLocation_def map_redis_def)
  from gps_positions_valid [OF run map_redis_ok this] w(2) have "location_ok l" by simp
  with run w(2) show ?thesis by blast
qed

text \<open>
  The average of a longitude just east and one just west of the antimeridian is on the other
  side of the earth: two positions on the same spot are smoothed to a point 90 degrees away.
\<close>

lemma SmoothGPS_antimeridian: "SmoothGPS 0 (- 180) 0 180 smoothingAlpha = (0, - 90)"
  by (simp add: SmoothGPS_def smoothingAlpha_def)

end
