(* ===== verification/WsHub.thy ===== *)
theory WsHub
  imports Auth
begin

text \<open>
  \<open>internal/ws\<close>: the hub that forwards the events of a trip to the WebSocket clients of this
  process.  The hub's maps change under its lock, one operation at a time; registering,
  tearing down a client, taking the targets of a broadcast, sending to one target and writing
  one frame are the steps of the goroutines, in any order.  Clients are numbers; a client's
  \<open>send\<close> channel is the number of frames it holds.  Sending on a closed channel panics, which
  is recorded in the world.
\<close>

section \<open>The hub\<close>

record hub =
  hb_clients :: "string \<Rightarrow> nat set option"
  hb_closers :: "string set"
  hb_live :: "string \<Rightarrow> nat"

text \<open>\<open>hb_live t\<close> counts the Redis subscriptions that are open for trip \<open>t\<close>.\<close>

definition NewHub :: hub where
  "NewHub = \<lparr>hb_clients = Map.empty, hb_closers = {}, hb_live = (\<lambda>_. 0)\<rparr>"

definition startSubscription :: "string \<Rightarrow> hub \<Rightarrow> hub" where
  "startSubscription tripID h =
     (case ParseInt tripID of
        None \<Rightarrow> h
      | Some tid \<Rightarrow> h\<lparr>hb_closers := insert tripID (hb_closers h), hb_live := (hb_live h)(tripID := hb_live h tripID + 1)\<rparr>)"

definition Register :: "string \<Rightarrow> nat \<Rightarrow> hub \<Rightarrow> hub" where
  "Register tripID c h =
     (let h1 = (if hb_clients h tripID = None
                then startSubscription tripID (h\<lparr>hb_clients := (hb_clients h)(tripID \<mapsto> {})\<rparr>) else h)
      in h1\<lparr>hb_clients := (hb_clients h1)(tripID \<mapsto> insert c (the (hb_clients h1 tripID)))\<rparr>)"

definition close_subscription :: "string \<Rightarrow> hub \<Rightarrow> hub" where
  "close_subscription tripID h =
     (if tripID \<in> hb_closers h
      then h\<lparr>hb_closers := hb_closers h - {tripID}, hb_live := (hb_live h)(tripID := hb_live h tripID - 1)\<rparr> else h)"

definition Unregister :: "string \<Rightarrow> nat \<Rightarrow> hub \<Rightarrow> hub" where
  "Unregister tripID c h =
     (case hb_clients h tripID of
        None \<Rightarrow> h
      | Some grp \<Rightarrow>
          let grp = grp - {c}; h1 = h\<lparr>hb_clients := (hb_clients h)(tripID \<mapsto> grp)\<rparr> in
          if grp = {} then (close_subscription tripID h1)\<lparr>hb_clients := (hb_clients h)(tripID := None)\<rparr> else h1)"

section \<open>Clients, broadcasts and pumps\<close>

datatype phase = Fresh | Joined | Serving | Leaving | Closed

definition joined :: "phase \<Rightarrow> bool" where
  "joined p \<longleftrightarrow> p = Joined \<or> p = Serving"

record client =
  cl_tripID :: string
  cl_buffered :: nat
  cl_phase :: phase

definition sendCapacity :: nat where "sendCapacity = 256"

record ws_world =
  ww_hub :: hub
  ww_conns :: "nat \<Rightarrow> client option"
  ww_casts :: "nat list list"
  ww_panic :: bool

definition ws_start :: ws_world where
  "ws_start = \<lparr>ww_hub = NewHub, ww_conns = Map.empty, ww_casts = [], ww_panic = False\<rparr>"

text \<open>
  One non-blocking send, as in \<open>broadcastLocal\<close> and \<open>SendJSON\<close>: panic on a closed channel, drop the frame when the channel is full.\<close>

definition try_send :: "nat \<Rightarrow> ws_world \<Rightarrow> ws_world" where
  "try_send i w =
     (case ww_conns w i of
        None \<Rightarrow> w
      | Some c \<Rightarrow>
          if cl_phase c = Closed then w\<lparr>ww_panic := True\<rparr>
          else if cl_buffered c < sendCapacity
          then w\<lparr>ww_conns := (ww_conns w)(i \<mapsto> c\<lparr>cl_buffered := cl_buffered c + 1\<rparr>)\<rparr>
          else w)"

inductive ws_step :: "ws_world \<Rightarrow> ws_world \<Rightarrow> bool" where
  new_client: "ww_conns w i = None \<Longrightarrow> ws_step w
     (w\<lparr>ww_conns := (ww_conns w)(i \<mapsto> \<lparr>cl_tripID = tripID, cl_buffered = 0, cl_phase = Fresh\<rparr>)\<rparr>)"
| register: "ww_conns w i = Some c \<Longrightarrow> cl_phase c = Fresh \<Longrightarrow> ws_step w
     (w\<lparr>ww_hub := Register (cl_tripID c) i (ww_hub w), ww_conns := (ww_conns w)(i \<mapsto> c\<lparr>cl_phase := Joined\<rparr>)\<rparr>)"
| greet: "ww_conns (try_send i w) i = Some c \<Longrightarrow> cl_phase c = Joined \<Longrightarrow> ws_step w
     ((try_send i w)\<lparr>ww_conns := (ww_conns (try_send i w))(i \<mapsto> c\<lparr>cl_phase := Serving\<rparr>)\<rparr>)"
| unregister: "ww_conns w i = Some c \<Longrightarrow> cl_phase c = Serving \<Longrightarrow> ws_step w
     (w\<lparr>ww_hub := Unregister (cl_tripID c) i (ww_hub w), ww_conns := (ww_conns w)(i \<mapsto> c\<lparr>cl_phase := Leaving\<rparr>)\<rparr>)"
| close_send: "ww_conns w i = Some c \<Longrightarrow> cl_phase c = Leaving \<Longrightarrow> ws_step w
     (w\<lparr>ww_conns := (ww_conns w)(i \<mapsto> c\<lparr>cl_phase := Closed\<rparr>)\<rparr>)"
| broadcast: "hb_clients (ww_hub w) tripID = Some grp \<Longrightarrow> distinct targets \<Longrightarrow> set targets = grp \<Longrightarrow> ws_step w
     (w\<lparr>ww_casts := targets # ww_casts w\<rparr>)"
| deliver: "ww_casts w = before @ (i # targets) # after \<Longrightarrow> ws_step w
     ((try_send i w)\<lparr>ww_casts := before @ targets # after\<rparr>)"
| write_frame: "ww_conns w i = Some c \<Longrightarrow> cl_buffered c > 0 \<Longrightarrow> ws_step w
     (w\<lparr>ww_conns := (ww_conns w)(i \<mapsto> c\<lparr>cl_buffered := cl_buffered c - 1\<rparr>)\<rparr>)"

section \<open>One subscription per trip\<close>

definition members :: "(nat \<Rightarrow> client option) \<Rightarrow> string \<Rightarrow> nat set" where
  "members conns t = {i. \<exists>c. conns i = Some c \<and> joined (cl_phase c) \<and> cl_tripID c = t}"

definition hub_ok :: "hub \<Rightarrow> (string \<Rightarrow> nat set) \<Rightarrow> bool" where
  "hub_ok h mem \<longleftrightarrow>
     (\<forall>t. hb_clients h t = (if mem t = {} then None else Some (mem t))
        \<and> (t \<in> hb_closers h \<longleftrightarrow> mem t \<noteq> {} \<and> ParseInt t \<noteq> None)
        \<and> hb_live h t = (if mem t \<noteq> {} \<and> ParseInt t \<noteq> None then 1 else 0))"

definition ws_inv :: "ws_world \<Rightarrow> bool" where
  "ws_inv w \<longleftrightarrow> hub_ok (ww_hub w) (members (ww_conns w))
     \<and> (\<forall>i c. ww_conns w i = Some c \<longrightarrow> cl_buffered c \<le> sendCapacity)"

lemma hub_ok_Register:
  assumes "hub_ok h mem" "i \<notin> mem t"
  shows "hub_ok (Register t i h) (mem(t := insert i (mem t)))"
  using assms by (auto simp: hub_ok_def Register_def startSubscription_def Let_def split: option.splits)

lemma hub_ok_Unregister:
  assumes "hub_ok h mem" "i \<in> mem t"
  shows "hub_ok (Unregister t i h) (mem(t := mem t - {i}))"
proof -
  have g: "hb_clients h t = Some (mem t)" using assms by (auto simp: hub_ok_def)
  show ?thesis
  proof (cases "mem t - {i} = {}")
    case True
    with assms g show ?thesis
      unfolding hub_ok_def Unregister_def close_subscription_def by (auto simp: Let_def)
  next
    case False
    with assms g show ?thesis unfolding hub_ok_def Unregister_def by (auto simp: Let_def)
  qed
qed

lemma members_upd:
  "members (conns(i \<mapsto> c)) t = (if joined (cl_phase c) \<and> cl_tripID c = t then insert i (members conns t) else members conns t - {i})"
  by (auto simp: members_def split: if_splits)

lemma members_same:
  assumes "conns i = Some c" "joined (cl_phase c') \<longleftrightarrow> joined (cl_phase c)" "cl_tripID c' = cl_tripID c"
  shows "members (conns(i \<mapsto> c')) = members conns"
proof
  fix t show "members (conns(i \<mapsto> c')) t = members conns t"
    using assms by (auto simp: members_def split: if_splits)
qed

lemma try_send_members: "members (ww_conns (try_send i w)) = members (ww_conns w)"
  by (cases "ww_conns w i") (auto simp: try_send_def intro!: members_same)

lemma try_send_simps [simp]: "ww_hub (try_send i w) = ww_hub w" "ww_casts (try_send i w) = ww_casts w"
  by (auto simp: try_send_def split: option.splits)

lemma try_send_bounded:
  assumes "ws_inv w"
  shows "\<forall>j c. ww_conns (try_send i w) j = Some c \<longrightarrow> cl_buffered c \<le> sendCapacity"
  using assms by (auto simp: try_send_def ws_inv_def split: option.splits if_splits)

lemma ws_inv_step: "ws_step w w' \<Longrightarrow> ws_inv w \<Longrightarrow> ws_inv w'"
proof (induction rule: ws_step.induct)
  case (new_client w i tripID)
  have "members ((ww_conns w)(i \<mapsto> \<lparr>cl_tripID = tripID, cl_buffered = 0, cl_phase = Fresh\<rparr>)) = members (ww_conns w)"
    using new_client(1) by (auto simp: members_def joined_def fun_eq_iff)
  with new_client(2) show ?case by (simp add: ws_inv_def)
next
  case (register w i c)
  have n: "i \<notin> members (ww_conns w) t" for t using register(1,2) by (auto simp: members_def joined_def)
  have "members ((ww_conns w)(i \<mapsto> c\<lparr>cl_phase := Joined\<rparr>)) =
      (members (ww_conns w))(cl_tripID c := insert i (members (ww_conns w) (cl_tripID c)))"
    using n by (auto simp: members_upd joined_def fun_eq_iff)
  with hub_ok_Register [where mem = "members (ww_conns w)", OF _ n] register show ?case by (auto simp: ws_inv_def)
next
  case (greet i w c)
  have "members ((ww_conns (try_send i w))(i \<mapsto> c\<lparr>cl_phase := Serving\<rparr>)) = members (ww_conns (try_send i w))"
    using greet(1,2) by (intro members_same) (auto simp: joined_def)
  moreover have "\<forall>j d. ww_conns (try_send i w) j = Some d \<longrightarrow> cl_buffered d \<le> sendCapacity"
    using greet(3) by (rule try_send_bounded)
  ultimately show ?case using greet by (auto simp: ws_inv_def try_send_members)
next
  case (unregister w i c)
  have n: "i \<in> members (ww_conns w) (cl_tripID c)" using unregister(1,2) by (auto simp: members_def joined_def)
  have other: "i \<notin> members (ww_conns w) t" if "t \<noteq> cl_tripID c" for t using unregister(1) that by (auto simp: members_def)
  have "members ((ww_conns w)(i \<mapsto> c\<lparr>cl_phase := Leaving\<rparr>)) =
      (members (ww_conns w))(cl_tripID c := members (ww_conns w) (cl_tripID c) - {i})"
    using other by (auto simp: members_upd joined_def fun_eq_iff)
  with hub_ok_Unregister [where mem = "members (ww_conns w)", OF _ n] unregister show ?case by (auto simp: ws_inv_def)
next
  case (close_send w i c)
  have "members ((ww_conns w)(i \<mapsto> c\<lparr>cl_phase := Closed\<rparr>)) = members (ww_conns w)"
    using close_send(1,2) by (intro members_same) (auto simp: joined_def)
  with close_send show ?case by (auto simp: ws_inv_def)
next
  case (deliver w before i targets after)
  have "\<forall>j c. ww_conns (try_send i w) j = Some c \<longrightarrow> cl_buffered c \<le> sendCapacity"
    using deliver(2) by (rule try_send_bounded)
  with deliver(2) show ?case by (simp add: ws_inv_def try_send_members)
next
  case (write_frame w i c)
  have "members ((ww_conns w)(i \<mapsto> c\<lparr>cl_buffered := cl_buffered c - 1\<rparr>)) = members (ww_conns w)"
    using write_frame(1) by (intro members_same) auto
  with write_frame show ?case by (fastforce simp: ws_inv_def)
qed (simp add: ws_inv_def)

text \<open>
  C36. In every interleaving of clients coming and going, broadcasts and writes: the hub's
  group of a trip is exactly the set of its registered clients, there is one Redis
  subscription for every trip that has any (and a numeric id), none for the others, so none
  is leaked or opened twice, and no client ever holds more than 256 frames.
\<close>

theorem hub_subscriptions:
  assumes "ws_step\<^sup>*\<^sup>* ws_start w"
  shows "\<forall>t. hb_clients (ww_hub w) t = (if members (ww_conns w) t = {} then None else Some (members (ww_conns w) t))
    \<and> hb_live (ww_hub w) t = (if members (ww_conns w) t \<noteq> {} \<and> ParseInt t \<noteq> None then 1 else 0)
    \<and> (\<forall>i c. ww_conns w i = Some c \<longrightarrow> cl_buffered c \<le> sendCapacity)"
proof -
  from assms have "ws_inv w"
  proof (induction rule: rtranclp_induct)
    case base
    show ?case by (simp add: ws_inv_def ws_start_def hub_ok_def NewHub_def members_def)
  next
    case (step w w')
    then show ?case using ws_inv_step by blast
  qed
  then show ?thesis by (simp add: ws_inv_def hub_ok_def)
qed

section \<open>A client that leaves during a broadcast\<close>

definition one_client :: "phase \<Rightarrow> nat \<Rightarrow> (nat \<Rightarrow> client option)" where
  "one_client p n = [1 \<mapsto> \<lparr>cl_tripID = ''7'', cl_buffered = n, cl_phase = p\<rparr>]"

lemma parse_7: "ParseInt ''7'' = Some 7"
  by code_simp

abbreviation run_state :: "hub \<Rightarrow> phase \<Rightarrow> nat \<Rightarrow> nat list list \<Rightarrow> ws_world" where
  "run_state h p n casts \<equiv> \<lparr>ww_hub = h, ww_conns = one_client p n, ww_casts = casts, ww_panic = False\<rparr>"

text \<open>The run: one client registers and is greeted.\<close>

lemma run_to_serving:
  "ws_step\<^sup>*\<^sup>* ws_start (run_state (Register ''7'' 1 NewHub) Serving 1 [])"
proof -
  have 1: "ws_step ws_start (run_state NewHub Fresh 0 [])"
    using ws_step.new_client [of ws_start 1 "''7''"] by (simp add: ws_start_def one_client_def)
  have 2: "ws_step (run_state NewHub Fresh 0 []) (run_state (Register ''7'' 1 NewHub) Joined 0 [])"
    using ws_step.register [of "run_state NewHub Fresh 0 []" 1] by (simp add: one_client_def)
  have 3: "ws_step (run_state (Register ''7'' 1 NewHub) Joined 0 []) (run_state (Register ''7'' 1 NewHub) Serving 1 [])"
    using ws_step.greet [of 1 "run_state (Register ''7'' 1 NewHub) Joined 0 []"]
    by (simp add: one_client_def try_send_def sendCapacity_def)
  from 1 2 3 show ?thesis by (meson rtranclp.rtrancl_into_rtrancl rtranclp.rtrancl_refl)
qed

theorem hub_subscriptions_witness: "hb_live (Register ''7'' 1 NewHub) ''7'' = 1"
proof -
  have "members (one_client Serving 1) ''7'' = {1}" by (auto simp: members_def joined_def one_client_def)
  with hub_subscriptions [OF run_to_serving] show ?thesis
    by (metis insert_not_empty option.distinct(1) parse_7 ws_world.select_convs(1,2))
qed

text \<open>
  A broadcast can panic: it takes its targets under the lock but sends to them after
  releasing it, and a client that is torn down in between has closed its channel.
\<close>

theorem broadcast_can_panic: "\<exists>w. ws_step\<^sup>*\<^sup>* ws_start w \<and> ww_panic w"
proof -
  let ?h = "Register ''7'' 1 NewHub" and ?h' = "Unregister ''7'' 1 (Register ''7'' 1 NewHub)"
  let ?w = "run_state ?h' Closed 1 [[1]]"
  have clients: "hb_clients ?h ''7'' = Some {1}"
    by (simp add: Register_def NewHub_def startSubscription_def parse_7 Let_def)
  have 4: "ws_step (run_state ?h Serving 1 []) (run_state ?h Serving 1 [[1]])"
    using ws_step.broadcast [of "run_state ?h Serving 1 []" "''7''" "{1}" "[1]"] clients by simp
  have 5: "ws_step (run_state ?h Serving 1 [[1]]) (run_state ?h' Leaving 1 [[1]])"
    using ws_step.unregister [of "run_state ?h Serving 1 [[1]]" 1] by (simp add: one_client_def)
  have 6: "ws_step (run_state ?h' Leaving 1 [[1]]) ?w"
    using ws_step.close_send [of "run_state ?h' Leaving 1 [[1]]" 1] by (simp add: one_client_def)
  have 7: "ws_step ?w ((try_send 1 ?w)\<lparr>ww_casts := [[]]\<rparr>)"
    using ws_step.deliver [of ?w "[]" 1 "[]" "[]"] by simp
  have "ww_panic ((try_send 1 ?w)\<lparr>ww_casts := [[]]\<rparr>)"
    by (simp add: try_send_def one_client_def)
  moreover have "ws_step\<^sup>*\<^sup>* ws_start ((try_send 1 ?w)\<lparr>ww_casts := [[]]\<rparr>)"
    using run_to_serving 4 5 6 7 by (meson rtranclp.rtrancl_into_rtrancl)
  ultimately show ?thesis by blast
qed

end
