(* ===== verification/GraphLoader.thy ===== *)
theory GraphLoader
  imports GoText AStar
begin

text \<open>
  \<open>internal/storage/road_graph.go\<close> and \<open>road_tables.go\<close>: building the routing graphs from the
  segment tables.  The database is a parameter: for a table it gives the error of the query,
  or the rows (each read, or refused by \<open>Scan\<close>) and the error met at the end of the
  iteration.  Its tables hold all rows; the condition of the query is part of the model.
\<close>

section \<open>Table names\<close>

definition roadRegionName :: "string \<Rightarrow> bool" where
  "roadRegionName s =
     (case s of [] \<Rightarrow> False
      | c # r \<Rightarrow> (97 \<le> (of_char c :: nat) \<and> (of_char c :: nat) \<le> 122)
                 \<and> list_all (\<lambda>d. (97 \<le> (of_char d :: nat) \<and> (of_char d :: nat) \<le> 122) \<or> is_digit d \<or> d = CHR ''_'') r)"

definition TrimPrefix :: "string \<Rightarrow> string \<Rightarrow> string" where
  "TrimPrefix p s = (if has_prefix p s then drop (length p) s else s)"

definition RoadSegmentsTableName :: "string \<Rightarrow> string + string" where
  "RoadSegmentsTableName region =
     (let region = ToLower (TrimSpace region) in
      if region = [] then Inr ''road_segments''
      else let region = TrimPrefix ''road_segments_'' region in
           if \<not> roadRegionName region
           then Inl (''invalid road region '' @ Quote region @ ''; use a slug like isfahan or tehran'')
           else Inr (''road_segments_'' @ region))"

definition quoteIdent :: "string \<Rightarrow> string" where
  "quoteIdent name =
     [CHR 0x22] @ concat (map (\<lambda>c. if c = CHR 0x22 then [CHR 0x22, CHR 0x22] else [c]) name) @ [CHR 0x22]"

fun region_tables :: "string list \<Rightarrow> string + string list" where
  "region_tables [] = Inr []"
| "region_tables (region # regions) =
     (let region = TrimSpace region in
      if region = [] then region_tables regions
      else case RoadSegmentsTableName region of
             Inl e \<Rightarrow> Inl e
           | Inr table \<Rightarrow> (case region_tables regions of Inl e \<Rightarrow> Inl e | Inr ts \<Rightarrow> Inr (table # ts)))"

definition roadGraphTables :: "string list \<Rightarrow> string + string list" where
  "roadGraphTables regions =
     (if regions = [] then Inr [''road_segments'']
      else case region_tables regions of
             Inl e \<Rightarrow> Inl e
           | Inr tables \<Rightarrow> Inr (if tables = [] then [''road_segments''] else tables))"

section \<open>Rows\<close>

record segment =
  sg_fromID :: node_id
  sg_toID :: node_id
  sg_fromLat :: float64
  sg_fromLng :: float64
  sg_toLat :: float64
  sg_toLng :: float64
  sg_distanceKm :: float64
  sg_speedKmH :: float64
  sg_type :: string
  sg_name :: string
  sg_bidirectional :: bool
  sg_car :: bool
  sg_motorcycle :: bool
  sg_bus :: bool
  sg_foot :: bool

type_synonym 'r rows = "(string + 'r) list \<times> string option"
type_synonym 'r query_result = "string + 'r rows"
type_synonym segment_db = "string \<Rightarrow> segment query_result"

fun scan_rows :: "string \<Rightarrow> ('r \<Rightarrow> 's \<Rightarrow> 's) \<Rightarrow> (string + 'r) list \<Rightarrow> 's \<Rightarrow> string + 's" where
  "scan_rows what f [] st = Inr st"
| "scan_rows what f (Inl e # rs) st = Inl (what @ e)"
| "scan_rows what f (Inr r # rs) st = scan_rows what f rs (f r st)"

definition run_query ::
  "string \<Rightarrow> string \<Rightarrow> string \<Rightarrow> ('r \<Rightarrow> 's \<Rightarrow> 's) \<Rightarrow> 'r query_result \<Rightarrow> 's \<Rightarrow> string + 's" where
  "run_query load scan iterate f q st =
     (case q of
        Inl e \<Rightarrow> Inl (load @ e)
      | Inr (rows, err) \<Rightarrow>
          (case scan_rows scan f rows st of
             Inl e \<Rightarrow> Inl e
           | Inr st' \<Rightarrow> (case err of Some e \<Rightarrow> Inl (iterate @ e) | None \<Rightarrow> Inr st')))"

text \<open>\<open>WHERE distance_km > 0\<close>.\<close>

definition where_positive :: "segment query_result \<Rightarrow> segment query_result" where
  "where_positive q =
     (case q of
        Inl e \<Rightarrow> Inl e
      | Inr (rows, err) \<Rightarrow>
          Inr (filter (\<lambda>r. case r of Inl _ \<Rightarrow> True | Inr s \<Rightarrow> sg_distanceKm s > 0) rows, err))"

section \<open>Building the graph\<close>

record load_state =
  lg_graph :: graph
  lg_seen :: "node_id set"
  lg_count :: nat

definition see_node :: "node_id \<Rightarrow> float64 \<Rightarrow> float64 \<Rightarrow> load_state \<Rightarrow> load_state" where
  "see_node i lat lng st =
     (if i \<in> lg_seen st then st
      else st\<lparr>lg_graph := AddNode (lg_graph st) \<lparr>n_ID = i, n_Lat = lat, n_Lng = lng, n_Flags = 0\<rparr>,
              lg_seen := insert i (lg_seen st)\<rparr>)"

definition addRoadGraphEdges :: "graph \<Rightarrow> node_id \<Rightarrow> node_id \<Rightarrow> edge \<Rightarrow> bool \<Rightarrow> graph \<times> nat" where
  "addRoadGraphEdges g fromID toID e bidirectional =
     (let g1 = AddEdge g fromID e in
      if bidirectional then (AddEdge g1 toID (e\<lparr>e_To := fromID\<rparr>), 2)
      else if Has (e_Flags e) FlagFoot \<and> AllowsPedestriansAgainstFlow (e_Kind e)
      then (AddEdge g1 toID (e\<lparr>e_To := fromID, e_Flags := FlagFoot\<rparr>), 2)
      else (g1, 1))"

definition segment_flags :: "segment \<Rightarrow> AccessFlags" where
  "segment_flags s =
     (let f = 0;
          f = (if sg_car s then f OR FlagCar else f);
          f = (if sg_motorcycle s then f OR FlagMotorcycle else f);
          f = (if sg_bus s then f OR FlagBus else f)
      in if sg_foot s then f OR FlagFoot else f)"

text \<open>One row, with the speed assumed where the table has none and the access flags.\<close>

definition add_segment :: "float64 \<Rightarrow> AccessFlags \<Rightarrow> segment \<Rightarrow> load_state \<Rightarrow> load_state" where
  "add_segment defaultKmH flags s st =
     (let speedKmH = (if sg_speedKmH s \<le> 0 then defaultKmH else sg_speedKmH s);
          st = see_node (sg_fromID s) (sg_fromLat s) (sg_fromLng s) st;
          st = see_node (sg_toID s) (sg_toLat s) (sg_toLng s) st;
          (idx, g) = InternName (lg_graph st) (sg_name s);
          e = \<lparr>e_To = sg_toID s, e_DistanceKm = sg_distanceKm s, e_SpeedKmH = speedKmH,
               e_TimeHours = sg_distanceKm s / speedKmH, e_Kind = ParseHighwayKind (sg_type s),
               e_Flags = flags, e_NameIdx = idx\<rparr>;
          (g, n) = addRoadGraphEdges g (sg_fromID s) (sg_toID s) e (sg_bidirectional s)
      in st\<lparr>lg_graph := g, lg_count := lg_count st + n\<rparr>)"

definition road_row :: "segment \<Rightarrow> load_state \<Rightarrow> load_state" where
  "road_row s = add_segment 40 (segment_flags s) s"

definition rail_row :: "segment \<Rightarrow> load_state \<Rightarrow> load_state" where
  "rail_row s = add_segment 80 FlagTrain s"

definition load_start :: load_state where
  "load_start = \<lparr>lg_graph = NewGraph, lg_seen = {}, lg_count = 0\<rparr>"

definition loadRoadGraphTable :: "segment_db \<Rightarrow> load_state \<Rightarrow> string \<Rightarrow> string + load_state" where
  "loadRoadGraphTable db st table =
     run_query (''load '' @ table @ '': '') ''scan road segment: '' (''iterate '' @ table @ '': '')
       road_row (where_positive (db table)) st"

fun load_tables :: "segment_db \<Rightarrow> string list \<Rightarrow> load_state \<Rightarrow> string + load_state" where
  "load_tables db [] st = Inr st"
| "load_tables db (table # tables) st =
     (case loadRoadGraphTable db st table of Inl e \<Rightarrow> Inl e | Inr st' \<Rightarrow> load_tables db tables st')"

text \<open>A \<open>nil\<close> database is \<open>None\<close>.\<close>

definition LoadRoadGraphRegions :: "segment_db option \<Rightarrow> string list \<Rightarrow> string + graph" where
  "LoadRoadGraphRegions p regions =
     (case p of
        None \<Rightarrow> Inl ''postgres disabled''
      | Some db \<Rightarrow>
          (case roadGraphTables regions of
             Inl e \<Rightarrow> Inl e
           | Inr tables \<Rightarrow>
               (case load_tables db tables load_start of
                  Inl e \<Rightarrow> Inl e
                | Inr st \<Rightarrow> if lg_count st = 0 then Inl ''selected road segment tables are empty'' else Inr (lg_graph st))))"

definition LoadRoadGraph :: "segment_db option \<Rightarrow> string + graph" where
  "LoadRoadGraph p = LoadRoadGraphRegions p []"

definition LoadRailGraph :: "segment_db option \<Rightarrow> string + graph" where
  "LoadRailGraph p =
     (case p of
        None \<Rightarrow> Inl ''postgres disabled''
      | Some db \<Rightarrow>
          (case run_query ''load rail_segments: '' ''scan rail segment: '' ''iterate rail_segments: ''
                  rail_row (where_positive (db ''rail_segments'')) load_start of
             Inl e \<Rightarrow> Inl e
           | Inr st \<Rightarrow> if lg_count st = 0 then Inl ''rail_segments table is empty'' else Inr (lg_graph st)))"

section \<open>What the loaders keep\<close>

text \<open>An edge with its name instead of the index, and the edges out of a node.\<close>

record arc =
  a_To :: node_id
  a_DistanceKm :: float64
  a_SpeedKmH :: float64
  a_TimeHours :: float64
  a_Kind :: HighwayKind
  a_Flags :: AccessFlags
  a_Name :: string

definition arc_of :: "graph \<Rightarrow> edge \<Rightarrow> arc" where
  "arc_of g e = \<lparr>a_To = e_To e, a_DistanceKm = e_DistanceKm e, a_SpeedKmH = e_SpeedKmH e, a_TimeHours = e_TimeHours e,
     a_Kind = e_Kind e, a_Flags = e_Flags e, a_Name = NameFor g (e_NameIdx e)\<rparr>"

definition arcs :: "graph \<Rightarrow> node_id \<Rightarrow> arc list" where
  "arcs g u = map (arc_of g) (Edges g u)"

definition load_ok :: "graph \<Rightarrow> bool" where
  "load_ok g \<longleftrightarrow> graph_ok g \<and> (\<forall>u. \<forall>e\<in>set (Edges g u).
     u \<in> dom (Nodes g) \<and> e_To e \<in> dom (Nodes g) \<and> unat (e_NameIdx e) < length (namePool g))"

lemma load_ok_graph: "load_ok g \<Longrightarrow> graph_ok g"
  by (simp add: load_ok_def)

lemma load_okD:
  assumes "load_ok g" "e \<in> set (Edges g u)"
  shows "u \<in> dom (Nodes g)" "e_To e \<in> dom (Nodes g)" "unat (e_NameIdx e) < length (namePool g)"
  using assms unfolding load_ok_def by blast+

lemma load_ok_New: "load_ok NewGraph" and arcs_New: "arcs NewGraph u = []"
  by (simp_all add: load_ok_def graph_ok_NewGraph arcs_def) (simp_all add: NewGraph_def)

lemma NameFor_simps [simp]: "NameFor (AddNode g n) = NameFor g" "NameFor (AddEdge g u e) = NameFor g"
  by (simp_all add: NameFor_def fun_eq_iff)

lemma arc_of_simps [simp]: "arc_of (AddNode g n) = arc_of g" "arc_of (AddEdge g u e) = arc_of g"
  by (simp_all add: arc_of_def fun_eq_iff)

lemma AddNode_load:
  assumes "load_ok g" "n_ID n \<notin> dom (Nodes g)"
  shows "load_ok (AddNode g n)" "arcs (AddNode g n) = arcs g"
proof -
  have "isolated g (n_ID n)"
    unfolding isolated_def using load_okD(1,2) [OF assms(1)] assms(2) by (metis list.set_intros(1) neq_Nil_conv)
  with assms show "load_ok (AddNode g n)" by (auto simp: load_ok_def AddNode_keeps)
  show "arcs (AddNode g n) = arcs g" by (simp add: arcs_def fun_eq_iff)
qed

lemma AddEdge_dom [simp]: "dom (Nodes (AddEdge g u e)) = dom (Nodes g)"
  by (simp add: AddEdge_def dom_def)

lemma AddEdge_load:
  assumes "load_ok g" "u \<in> dom (Nodes g)" "e_To e \<in> dom (Nodes g)" "unat (e_NameIdx e) < length (namePool g)"
  shows "load_ok (AddEdge g u e)"
    and "arcs (AddEdge g u e) v = arcs g v @ (if v = u then [arc_of g e] else [])"
proof -
  show "load_ok (AddEdge g u e)"
    using assms unfolding load_ok_def by (auto simp: AddEdge_keeps simp del: domIff)
  show "arcs (AddEdge g u e) v = arcs g v @ (if v = u then [arc_of g e] else [])" by (simp add: arcs_def)
qed

lemma InternName_pool: "length (namePool g) \<le> length (namePool (snd (InternName g s)))"
    "length (namePool (snd (InternName g s))) \<le> length (namePool g) + 1"
  by (auto simp: InternName_def Let_def split: option.splits)

lemma InternName_index:
  assumes "pool_ok g" "length (namePool g) + 1 < 2 ^ 32"
  shows "unat (fst (InternName g s)) < length (namePool (snd (InternName g s)))"
proof -
  have u: "unat (of_nat (length (namePool g)) :: 32 word) = length (namePool g)"
    using assms by (intro unat_of_nat32) simp
  then show ?thesis using pool_okD(2,5) [OF assms(1)]
    by (auto simp: InternName_def Let_def split: option.splits)
qed

lemma NameFor_old: "unat i < length (namePool g) \<Longrightarrow> NameFor (snd (InternName g s)) i = NameFor g i"
  by (auto simp: InternName_def NameFor_def Let_def nth_append split: option.splits)

lemma NameFor_new:
  assumes "pool_ok g" "length (namePool g) + 1 < 2 ^ 32"
  shows "NameFor (snd (InternName g s)) (fst (InternName g s)) = s"
proof -
  have "unat (of_nat (length (namePool g)) :: 32 word) = length (namePool g)"
    using assms by (intro unat_of_nat32) simp
  then show ?thesis using pool_okD [OF assms(1)]
    by (auto simp: InternName_def NameFor_def Let_def split: option.splits)
qed

lemma InternName_load:
  assumes "load_ok g" "length (namePool g) + 1 < 2 ^ 32"
  shows "load_ok (snd (InternName g s))" "arcs (snd (InternName g s)) = arcs g"
proof -
  have "graph_ok (snd (InternName g s))"
    using assms InternName_keeps [of g s] by (auto simp: load_ok_def graph_ok_def keys_ok_def rev_ok_def flags_ok_def grid_ok_def)
  with assms(1) InternName_pool(1) [of g s] show "load_ok (snd (InternName g s))"
    by (fastforce simp: load_ok_def)
  show "arcs (snd (InternName g s)) = arcs g"
    using assms(1) by (auto simp: arcs_def arc_of_def load_ok_def NameFor_old)
qed

section \<open>What a table of segments means\<close>

definition segment_arcs :: "float64 \<Rightarrow> (segment \<Rightarrow> AccessFlags) \<Rightarrow> node_id \<Rightarrow> segment \<Rightarrow> arc list" where
  "segment_arcs defaultKmH flags u s =
     (let speed = (if sg_speedKmH s \<le> 0 then defaultKmH else sg_speedKmH s);
          a = \<lparr>a_To = sg_toID s, a_DistanceKm = sg_distanceKm s, a_SpeedKmH = speed,
               a_TimeHours = sg_distanceKm s / speed, a_Kind = ParseHighwayKind (sg_type s),
               a_Flags = flags s, a_Name = sg_name s\<rparr>;
          back = a\<lparr>a_To := sg_fromID s\<rparr>
      in (if sg_fromID s = u then [a] else [])
         @ (if sg_toID s \<noteq> u then []
            else if sg_bidirectional s then [back]
            else if Has (flags s) FlagFoot \<and> \<not> IsPedestrian (ParseHighwayKind (sg_type s))
            then [back\<lparr>a_Flags := FlagFoot\<rparr>] else []))"

definition mentions :: "segment list \<Rightarrow> (node_id \<times> float64 \<times> float64) list" where
  "mentions segs =
     concat (map (\<lambda>s. [(sg_fromID s, sg_fromLat s, sg_fromLng s), (sg_toID s, sg_toLat s, sg_toLng s)]) segs)"

definition coords :: "graph \<Rightarrow> node_id \<Rightarrow> (float64 \<times> float64) option" where
  "coords g k = map_option (\<lambda>n. (n_Lat n, n_Lng n)) (Nodes g k)"

definition loaded :: "float64 \<Rightarrow> (segment \<Rightarrow> AccessFlags) \<Rightarrow> segment list \<Rightarrow> load_state \<Rightarrow> bool" where
  "loaded d fl segs st \<longleftrightarrow> load_ok (lg_graph st) \<and> lg_seen st = dom (Nodes (lg_graph st))
     \<and> length (namePool (lg_graph st)) \<le> length segs + 1
     \<and> arcs (lg_graph st) = (\<lambda>u. concat (map (segment_arcs d fl u) segs))
     \<and> coords (lg_graph st) = map_of (mentions segs)
     \<and> length segs \<le> lg_count st \<and> (segs = [] \<longrightarrow> lg_count st = 0)"

lemma loaded_start: "loaded d fl [] load_start"
  by (simp add: loaded_def load_start_def load_ok_New arcs_New fun_eq_iff coords_def mentions_def)
    (simp add: NewGraph_def)

lemma coords_simps [simp]:
  "coords (AddEdge g u e) = coords g" "coords (snd (InternName g s)) = coords g"
  "coords (AddNode g n) = (coords g)(n_ID n \<mapsto> (n_Lat n, n_Lng n))"
  by (auto simp: coords_def AddEdge_def or_flags_apply fun_eq_iff option.map_comp comp_def intro!: option.map_cong)

lemma coords_dom: "coords g k = None \<longleftrightarrow> k \<notin> dom (Nodes g)"
  by (auto simp: coords_def)

definition place :: "(node_id \<Rightarrow> (float64 \<times> float64) option) \<Rightarrow> node_id \<Rightarrow> float64 \<times> float64 \<Rightarrow> node_id \<Rightarrow> (float64 \<times> float64) option" where
  "place m i p = (if m i = None then m(i \<mapsto> p) else m)"

lemma see_node:
  fixes st :: load_state and i :: node_id and lat lng :: float64
  assumes ok: "load_ok (lg_graph st)" and seen: "lg_seen st = dom (Nodes (lg_graph st))"
  defines "st' \<equiv> see_node i lat lng st"
  shows "load_ok (lg_graph st')" "lg_seen st' = dom (Nodes (lg_graph st'))"
    "dom (Nodes (lg_graph st')) = insert i (dom (Nodes (lg_graph st)))"
    "namePool (lg_graph st') = namePool (lg_graph st)" "arcs (lg_graph st') = arcs (lg_graph st)"
    "coords (lg_graph st') = place (coords (lg_graph st)) i (lat, lng)" "lg_count st' = lg_count st"
proof -
  have "load_ok (lg_graph st') \<and> lg_seen st' = dom (Nodes (lg_graph st'))
    \<and> dom (Nodes (lg_graph st')) = insert i (dom (Nodes (lg_graph st)))
    \<and> namePool (lg_graph st') = namePool (lg_graph st) \<and> arcs (lg_graph st') = arcs (lg_graph st)
    \<and> coords (lg_graph st') = place (coords (lg_graph st)) i (lat, lng) \<and> lg_count st' = lg_count st"
  proof (cases "i \<in> lg_seen st")
    case True
    then have "coords (lg_graph st) i \<noteq> None" by (simp add: coords_dom seen)
    with True ok seen show ?thesis by (auto simp: st'_def see_node_def place_def)
  next
    case False
    then have "coords (lg_graph st) i = None" "i \<notin> dom (Nodes (lg_graph st))" by (simp_all add: coords_dom seen)
    with False ok seen AddNode_load [of "lg_graph st" "\<lparr>n_ID = i, n_Lat = lat, n_Lng = lng, n_Flags = 0\<rparr>"] show ?thesis
      by (auto simp: st'_def see_node_def place_def)
  qed
  then show "load_ok (lg_graph st')" "lg_seen st' = dom (Nodes (lg_graph st'))"
    "dom (Nodes (lg_graph st')) = insert i (dom (Nodes (lg_graph st)))"
    "namePool (lg_graph st') = namePool (lg_graph st)" "arcs (lg_graph st') = arcs (lg_graph st)"
    "coords (lg_graph st') = place (coords (lg_graph st)) i (lat, lng)" "lg_count st' = lg_count st"
    by blast+
qed

lemma map_of_mention: "map_of (xs @ [(i, p)]) = place (map_of xs) i p"
  by (auto simp: place_def fun_eq_iff map_add_def split: option.splits)

lemma addRoadGraphEdges_load:
  assumes "load_ok g" "u \<in> dom (Nodes g)" "v \<in> dom (Nodes g)" "e_To e = v" "unat (e_NameIdx e) < length (namePool g)"
    and r: "addRoadGraphEdges g u v e bi = (g', n)"
  shows "load_ok g'" "dom (Nodes g') = dom (Nodes g)" "namePool g' = namePool g" "coords g' = coords g" "1 \<le> n"
    "arcs g' w = arcs g w @ (if u = w then [arc_of g e] else [])
       @ (if v \<noteq> w then [] else if bi then [(arc_of g e)\<lparr>a_To := u\<rparr>]
          else if Has (e_Flags e) FlagFoot \<and> \<not> IsPedestrian (e_Kind e) then [(arc_of g e)\<lparr>a_To := u, a_Flags := FlagFoot\<rparr>] else [])"
proof -
  note fwd = AddEdge_load [OF assms(1,2), of e]
  have ok: "load_ok (AddEdge g u e)" using fwd assms by simp
  have rev: "load_ok (AddEdge (AddEdge g u e) v b)" if "e_To b = u" "e_NameIdx b = e_NameIdx e" for b
    using AddEdge_load(1) [OF ok] that assms by simp
  have cases: "g' = AddEdge g u e \<and> n = 1
      \<or> (\<exists>b. g' = AddEdge (AddEdge g u e) v b \<and> n = 2 \<and> e_To b = u \<and> e_NameIdx b = e_NameIdx e)"
    using r by (auto simp: addRoadGraphEdges_def Let_def split: if_splits)
  show "load_ok g'" "dom (Nodes g') = dom (Nodes g)" "namePool g' = namePool g" "coords g' = coords g" "1 \<le> n"
    using cases ok rev by (elim disjE exE conjE; simp)+
  show "arcs g' w = arcs g w @ (if u = w then [arc_of g e] else [])
       @ (if v \<noteq> w then [] else if bi then [(arc_of g e)\<lparr>a_To := u\<rparr>]
          else if Has (e_Flags e) FlagFoot \<and> \<not> IsPedestrian (e_Kind e) then [(arc_of g e)\<lparr>a_To := u, a_Flags := FlagFoot\<rparr>] else [])"
    using r by (auto simp: addRoadGraphEdges_def Let_def arcs_def arc_of_def AllowsPedestriansAgainstFlow_def split: if_splits)
qed

lemma add_segment_loaded:
  assumes st: "loaded d fl segs st" and room: "length segs + 2 < 2 ^ 32"
  shows "loaded d fl (segs @ [s]) (add_segment d (fl s) s st)"
proof -
  define speed where "speed = (if sg_speedKmH s \<le> 0 then d else sg_speedKmH s)"
  define s1 where "s1 = see_node (sg_fromID s) (sg_fromLat s) (sg_fromLng s) st"
  define s2 where "s2 = see_node (sg_toID s) (sg_toLat s) (sg_toLng s) s1"
  define idx where "idx = fst (InternName (lg_graph s2) (sg_name s))"
  define g where "g = snd (InternName (lg_graph s2) (sg_name s))"
  define e where "e = \<lparr>e_To = sg_toID s, e_DistanceKm = sg_distanceKm s, e_SpeedKmH = speed,
    e_TimeHours = sg_distanceKm s / speed, e_Kind = ParseHighwayKind (sg_type s), e_Flags = fl s, e_NameIdx = idx\<rparr>"
  obtain g' n where r: "addRoadGraphEdges g (sg_fromID s) (sg_toID s) e (sg_bidirectional s) = (g', n)" by fastforce
  have add: "add_segment d (fl s) s st = s2\<lparr>lg_graph := g', lg_count := lg_count s2 + n\<rparr>"
    using r by (simp add: add_segment_def Let_def split_beta s1_def s2_def idx_def g_def e_def speed_def)
  from st have ok: "load_ok (lg_graph st)" "lg_seen st = dom (Nodes (lg_graph st))" by (simp_all add: loaded_def)
  note n1 = see_node [OF ok, of "sg_fromID s" "sg_fromLat s" "sg_fromLng s", folded s1_def]
  note n2 = see_node [OF n1(1,2), of "sg_toID s" "sg_toLat s" "sg_toLng s", folded s2_def]
  have small: "length (namePool (lg_graph s2)) + 1 < 2 ^ 32" using st room by (simp add: loaded_def n1(4) n2(4))
  have pool: "pool_ok (lg_graph s2)" using n2(1) by (simp add: load_ok_def graph_ok_def)
  note i = InternName_load [OF n2(1) small, of "sg_name s", folded g_def]
  have g_nodes: "Nodes g = Nodes (lg_graph s2)" by (simp add: g_def)
  have idx: "unat (e_NameIdx e) < length (namePool g)" "NameFor g (e_NameIdx e) = sg_name s"
    using InternName_index [OF pool small, of "sg_name s"] NameFor_new [OF pool small, of "sg_name s"]
    by (simp_all add: e_def idx_def g_def)
  have ends: "sg_fromID s \<in> dom (Nodes g)" "sg_toID s \<in> dom (Nodes g)"
    unfolding g_nodes n2(3) n1(3) by blast+
  have to: "e_To e = sg_toID s" by (simp add: e_def)
  note a = addRoadGraphEdges_load [OF i(1) ends to idx(1) r]
  have arcs': "arcs g' u = arcs (lg_graph st) u @ segment_arcs d fl u s" for u
    unfolding a(6) i(2) n1(5) n2(5) segment_arcs_def arc_of_def idx(2)
    by (simp add: e_def speed_def Let_def)
  have coords': "coords g' = map_of (mentions segs @ [(sg_fromID s, sg_fromLat s, sg_fromLng s)] @ [(sg_toID s, sg_toLat s, sg_toLng s)])"
    using st unfolding append_assoc [symmetric] map_of_mention by (simp add: a(4) g_def n1(6) n2(6) loaded_def)
  have "length (namePool g) \<le> length segs + 2"
    using st InternName_pool(2) [of "lg_graph s2" "sg_name s"] by (simp add: loaded_def n1(4) n2(4) g_def)
  then show ?thesis
    using st a(1,2,3,5) n2(2) n1(7) n2(7) g_nodes arcs' coords'
    by (simp add: loaded_def add fun_eq_iff mentions_def)
qed

definition good_rows :: "(string + 'r) list \<Rightarrow> 'r list" where
  "good_rows rs = List.map_filter (\<lambda>r. case r of Inl _ \<Rightarrow> None | Inr x \<Rightarrow> Some x) rs"

lemma good_rows_simps [simp]:
  "good_rows [] = []" "good_rows (Inl e # rs) = good_rows rs" "good_rows (Inr r # rs) = r # good_rows rs"
  by (simp_all add: good_rows_def List.map_filter_simps)

lemma scan_rows_loaded:
  assumes "scan_rows what (\<lambda>s. add_segment d (fl s) s) rs st = Inr st'" "loaded d fl segs st"
    "length segs + length (good_rows rs) + 1 < 2 ^ 32"
  shows "loaded d fl (segs @ good_rows rs) st'"
  using assms
proof (induction what "\<lambda>s. add_segment d (fl s) s" rs st arbitrary: segs rule: scan_rows.induct)
  case (3 what r rs st)
  have "loaded d fl (segs @ [r]) (add_segment d (fl r) r st)"
    using 3 by (intro add_segment_loaded) auto
  with 3 have "loaded d fl ((segs @ [r]) @ good_rows rs) st'" by (intro 3(1)) auto
  then show ?case by simp
qed auto

text \<open>The rows of a table that the query selects.\<close>

definition table_segments :: "segment_db \<Rightarrow> string \<Rightarrow> segment list" where
  "table_segments db table = (case where_positive (db table) of Inl _ \<Rightarrow> [] | Inr (rows, _) \<Rightarrow> good_rows rows)"

lemma run_query_loaded:
  assumes "run_query lo sc it (\<lambda>s. add_segment d (fl s) s) (where_positive (db table)) st = Inr st'" "loaded d fl segs st"
    "length segs + length (table_segments db table) + 1 < 2 ^ 32"
  shows "loaded d fl (segs @ table_segments db table) st'"
  using assms by (auto simp: run_query_def table_segments_def split: sum.splits prod.splits option.splits
      intro!: scan_rows_loaded)

lemma load_tables_loaded:
  assumes "load_tables db tables st = Inr st'" "loaded 40 segment_flags segs st"
    "length segs + length (concat (map (table_segments db) tables)) + 1 < 2 ^ 32"
  shows "loaded 40 segment_flags (segs @ concat (map (table_segments db) tables)) st'"
  using assms
proof (induction tables arbitrary: segs st)
  case (Cons table tables)
  from Cons.prems(1) obtain s1 where s1: "loadRoadGraphTable db st table = Inr s1" "load_tables db tables s1 = Inr st'"
    by (auto split: sum.splits)
  have "loaded 40 segment_flags (segs @ table_segments db table) s1"
    using s1(1) Cons.prems(2,3) unfolding loadRoadGraphTable_def road_row_def by (intro run_query_loaded) auto
  from Cons.IH [OF s1(2) this] Cons.prems(3) show ?case by simp
qed simp

lemma segments_positive: "s \<in> set (table_segments db table) \<Longrightarrow> sg_distanceKm s > 0"
proof -
  have "s \<in> set (good_rows (filter (\<lambda>r. case r of Inl _ \<Rightarrow> True | Inr s \<Rightarrow> sg_distanceKm s > 0) rs)) \<Longrightarrow> sg_distanceKm s > 0" for rs :: "(string + segment) list"
    by (induction rs) (auto split: sum.splits if_splits)
  then show "s \<in> set (table_segments db table) \<Longrightarrow> sg_distanceKm s > 0"
    by (auto simp: table_segments_def where_positive_def split: sum.splits prod.splits)
qed

lemma LoadRoadGraphRegions_loaded:
  assumes "LoadRoadGraphRegions (Some db) regions = Inr g" "roadGraphTables regions = Inr tables"
    and "length (concat (map (table_segments db) tables)) + 1 < 2 ^ 32"
  shows "load_ok g" "concat (map (table_segments db) tables) \<noteq> []"
    "arcs g = (\<lambda>u. concat (map (segment_arcs 40 segment_flags u) (concat (map (table_segments db) tables))))"
    "coords g = map_of (mentions (concat (map (table_segments db) tables)))"
proof -
  from assms(1,2) obtain st where st: "load_tables db tables load_start = Inr st" "lg_count st \<noteq> 0" "g = lg_graph st"
    by (auto simp: LoadRoadGraphRegions_def split: sum.splits if_splits)
  have "loaded 40 segment_flags ([] @ concat (map (table_segments db) tables)) st"
    using st(1) loaded_start by (rule load_tables_loaded) (use assms(3) in simp)
  then show "load_ok g" "concat (map (table_segments db) tables) \<noteq> []"
    "arcs g = (\<lambda>u. concat (map (segment_arcs 40 segment_flags u) (concat (map (table_segments db) tables))))"
    "coords g = map_of (mentions (concat (map (table_segments db) tables)))"
    using st by (auto simp: loaded_def simp del: concat_eq_Nil_conv)
qed

text \<open>
  C17. The road graph is the tables: if loading the regions succeeds (with fewer than
  \<open>2^32 - 1\<close> rows) the graph satisfies the graph invariant, its nodes are the end points the
  rows mention, each where it was first mentioned, and the edges out of every node are, in
  row order, those its rows stand for: the row's own direction, its reverse if it is
  bidirectional, and a reverse for pedestrians only on a one-way row that is not a
  pedestrian way; with the row's length, speed (40 km/h if it has none), time, class, access
  and name.
\<close>

theorem LoadRoadGraphRegions_graph:
  assumes "LoadRoadGraphRegions (Some db) regions = Inr g" "roadGraphTables regions = Inr tables"
    and "length (concat (map (table_segments db) tables)) + 1 < 2 ^ 32"
  shows "graph_ok g
    \<and> coords g = map_of (mentions (concat (map (table_segments db) tables)))
    \<and> arcs g = (\<lambda>u. concat (map (segment_arcs 40 segment_flags u) (concat (map (table_segments db) tables))))"
  using LoadRoadGraphRegions_loaded [OF assms] load_ok_graph by blast

lemma FlagHas [simp]:
  "Has (segment_flags s) FlagCar = sg_car s" "Has (segment_flags s) FlagMotorcycle = sg_motorcycle s"
  "Has (segment_flags s) FlagBus = sg_bus s" "Has (segment_flags s) FlagFoot = sg_foot s"
  "Has FlagFoot FlagFoot" "\<not> Has FlagFoot FlagCar" "\<not> Has FlagFoot FlagMotorcycle" "\<not> Has FlagFoot FlagBus"
  by (auto simp: Has_def segment_flags_def flag_defs Let_def)

text \<open>Passing from \<open>u\<close> to \<open>v\<close> along a row in its direction, or against it where \<open>against\<close> holds.\<close>

definition way :: "segment list \<Rightarrow> (segment \<Rightarrow> bool) \<Rightarrow> (segment \<Rightarrow> bool) \<Rightarrow> node_id \<Rightarrow> node_id \<Rightarrow> bool" where
  "way segs allowed against u v \<longleftrightarrow> (\<exists>s\<in>set segs. allowed s
     \<and> (sg_fromID s = u \<and> sg_toID s = v \<or> against s \<and> sg_fromID s = v \<and> sg_toID s = u))"

definition passable :: "graph \<Rightarrow> AccessFlags \<Rightarrow> node_id \<Rightarrow> node_id \<Rightarrow> bool" where
  "passable g f u v \<longleftrightarrow> (\<exists>e\<in>set (Edges g u). e_To e = v \<and> Has (e_Flags e) f)"

lemma passable_arcs: "passable g f u v \<longleftrightarrow> (\<exists>a\<in>set (arcs g u). a_To a = v \<and> Has (a_Flags a) f)"
  by (auto simp: passable_def arcs_def arc_of_def)

definition opens :: "(segment \<Rightarrow> AccessFlags) \<Rightarrow> AccessFlags \<Rightarrow> node_id \<Rightarrow> node_id \<Rightarrow> segment \<Rightarrow> bool" where
  "opens fl f u v s \<longleftrightarrow>
     Has (fl s) f \<and> (sg_fromID s = u \<and> sg_toID s = v \<or> sg_bidirectional s \<and> sg_fromID s = v \<and> sg_toID s = u)
     \<or> Has FlagFoot f \<and> Has (fl s) FlagFoot \<and> \<not> sg_bidirectional s \<and> \<not> IsPedestrian (ParseHighwayKind (sg_type s))
       \<and> sg_fromID s = v \<and> sg_toID s = u"

lemma segment_opens: "(\<exists>a\<in>set (segment_arcs d fl u s). a_To a = v \<and> Has (a_Flags a) f) \<longleftrightarrow> opens fl f u v s"
  unfolding segment_arcs_def opens_def Let_def
  by (cases "sg_fromID s = u"; cases "sg_toID s = u"; cases "sg_bidirectional s"; cases "Has (fl s) FlagFoot";
      cases "IsPedestrian (ParseHighwayKind (sg_type s))"; simp; blast?)

lemma passable_segments:
  assumes "arcs g = (\<lambda>u. concat (map (segment_arcs d fl u) segs))"
  shows "passable g f u v \<longleftrightarrow> (\<exists>s\<in>set segs. opens fl f u v s)"
  unfolding passable_arcs assms using segment_opens [of d fl u _ v f] by (simp add: Bex_def) blast

text \<open>
  C18. One-way streets: in a loaded road graph a car, motorcycle or bus can pass from one node
  to another exactly along a row open to it, in the row's direction or against it on a
  bidirectional row; a pedestrian also against every one-way row that is open to pedestrians
  and is not a pedestrian way.
\<close>

theorem road_access:
  assumes "LoadRoadGraphRegions (Some db) regions = Inr g" "roadGraphTables regions = Inr tables"
    and "length (concat (map (table_segments db) tables)) + 1 < 2 ^ 32"
  defines "segs \<equiv> concat (map (table_segments db) tables)"
  shows "(passable g FlagCar u v \<longleftrightarrow> way segs sg_car sg_bidirectional u v)
    \<and> (passable g FlagMotorcycle u v \<longleftrightarrow> way segs sg_motorcycle sg_bidirectional u v)
    \<and> (passable g FlagBus u v \<longleftrightarrow> way segs sg_bus sg_bidirectional u v)
    \<and> (passable g FlagFoot u v \<longleftrightarrow>
      way segs sg_foot (\<lambda>s. sg_bidirectional s \<or> \<not> IsPedestrian (ParseHighwayKind (sg_type s))) u v)"
  using LoadRoadGraphRegions_loaded(3) [OF assms(1-3), folded segs_def]
  by (auto simp: passable_segments opens_def way_def)

lemma loaded_edges:
  assumes "arcs g = (\<lambda>u. concat (map (segment_arcs d fl u) segs))" "0 < d" "\<And>s. s \<in> set segs \<Longrightarrow> 0 < sg_distanceKm s"
    and "e \<in> set (Edges g u)"
  shows "0 < e_DistanceKm e \<and> 0 < e_SpeedKmH e \<and> e_TimeHours e = e_DistanceKm e / e_SpeedKmH e"
proof -
  have "arc_of g e \<in> set (arcs g u)" using assms(4) by (simp add: arcs_def)
  with assms(1) obtain s where s: "s \<in> set segs" "arc_of g e \<in> set (segment_arcs d fl u s)" by auto
  then show ?thesis using assms(2,3) by (auto simp: segment_arcs_def arc_of_def Let_def split: if_splits)
qed

text \<open>
  What is loaded can be searched: the edges of a loaded road graph have a positive length,
  speed and time, its nodes are finite, and so the exported search answers with a fastest
  path between any two nodes the rows mention, or \<open>ErrNoPath\<close> when there is none.
\<close>

theorem loaded_search:
  assumes "LoadRoadGraphRegions (Some db) regions = Inr g" "roadGraphTables regions = Inr tables"
    and "length (concat (map (table_segments db) tables)) + 1 < 2 ^ 32"
    and "s \<in> fst ` set (mentions (concat (map (table_segments db) tables)))"
    and "t \<in> fst ` set (mentions (concat (map (table_segments db) tables)))"
  shows "(\<forall>u. \<forall>e\<in>set (Edges g u). 0 < e_DistanceKm e \<and> 0 < e_SpeedKmH e \<and> e_TimeHours e = e_DistanceKm e / e_SpeedKmH e)
    \<and> (if reachable (plain_query g s t ok f)
       then (\<exists>p. AStar g s t ok f = Some (Inr p) \<and> path_ok (plain_query g s t ok f) p \<and> fastest (plain_query g s t ok f) p)
       else AStar g s t ok f = Some (Inl ErrNoPath))"
proof -
  let ?segs = "concat (map (table_segments db) tables)"
  note l = LoadRoadGraphRegions_loaded [OF assms(1-3)]
  have pos: "0 < sg_distanceKm s" if "s \<in> set ?segs" for s
    using that segments_positive by fastforce
  have edges: "0 < e_DistanceKm e \<and> 0 < e_SpeedKmH e \<and> e_TimeHours e = e_DistanceKm e / e_SpeedKmH e"
    if "e \<in> set (Edges g u)" for u e
    using loaded_edges [OF l(3) _ pos that] by simp
  have dom: "dom (Nodes g) = fst ` set (mentions ?segs)"
  proof -
    have "dom (Nodes g) = dom (coords g)" by (auto simp: coords_def)
    then show ?thesis unfolding l(4) by (simp add: dom_map_of_conv_image_fst)
  qed
  have "if reachable (plain_query g s t ok f)
       then (\<exists>p. AStar g s t ok f = Some (Inr p) \<and> path_ok (plain_query g s t ok f) p \<and> fastest (plain_query g s t ok f) p)
       else AStar g s t ok f = Some (Inl ErrNoPath)"
    using assms(4,5) edges by (intro AStar_exact_core) (auto simp: dom less_imp_le)
  with edges show ?thesis by blast
qed

text \<open>One row of a one-way street of the region Tehran, and what loading it gives.\<close>

definition example_row :: segment where
  "example_row = \<lparr>sg_fromID = 1, sg_toID = 2, sg_fromLat = 35, sg_fromLng = 51, sg_toLat = 35, sg_toLng = 52,
     sg_distanceKm = 20, sg_speedKmH = 0, sg_type = ''residential'', sg_name = ''Azadi'', sg_bidirectional = False,
     sg_car = True, sg_motorcycle = False, sg_bus = False, sg_foot = True\<rparr>"

definition example_db :: segment_db where
  "example_db table = (if table = ''road_segments_tehran'' then Inr ([Inr example_row], None) else Inl ''no such table'')"

lemma example_tables: "roadGraphTables ['' Tehran''] = Inr [''road_segments_tehran'']"
  by code_simp

lemma example_segments: "concat (map (table_segments example_db) [''road_segments_tehran'']) = [example_row]"
  by (simp add: table_segments_def where_positive_def example_db_def) (simp add: example_row_def)

lemma example_load: "\<exists>g. LoadRoadGraphRegions (Some example_db) ['' Tehran''] = Inr g"
proof -
  have "lg_count (road_row example_row load_start) \<noteq> 0"
    by (simp add: road_row_def add_segment_def Let_def split_beta addRoadGraphEdges_def)
  then show ?thesis
    by (simp add: LoadRoadGraphRegions_def example_tables loadRoadGraphTable_def run_query_def where_positive_def example_db_def)
      (simp add: example_row_def)
qed

theorem LoadRoadGraphRegions_graph_witness:
  "\<exists>g. LoadRoadGraphRegions (Some example_db) ['' Tehran''] = Inr g \<and> graph_ok g \<and> coords g 2 = Some (35, 52)"
proof -
  obtain g where g: "LoadRoadGraphRegions (Some example_db) ['' Tehran''] = Inr g" using example_load by blast
  have "graph_ok g \<and> coords g = map_of (mentions [example_row])"
    using LoadRoadGraphRegions_graph [OF g example_tables] by (simp only: example_segments) simp
  with g show ?thesis by (auto simp: mentions_def example_row_def)
qed

theorem road_access_witness:
  "\<exists>g. LoadRoadGraphRegions (Some example_db) ['' Tehran''] = Inr g
     \<and> passable g FlagCar 1 2 \<and> \<not> passable g FlagCar 2 1 \<and> passable g FlagFoot 2 1"
proof -
  obtain g where g: "LoadRoadGraphRegions (Some example_db) ['' Tehran''] = Inr g" using example_load by blast
  have kind: "ParseHighwayKind ''residential'' = HWResidential" by code_simp
  have small: "length (concat (map (table_segments example_db) [''road_segments_tehran''])) + 1 < 2 ^ 32"
    by (simp only: example_segments) simp
  note a = road_access [OF g example_tables small, unfolded example_segments]
  have "passable g FlagCar 1 2" "\<not> passable g FlagCar 2 1" "passable g FlagFoot 2 1"
    using a [of 1 2] a [of 2 1] unfolding way_def by (simp_all add: example_row_def kind IsPedestrian_def)
  with g show ?thesis by blast
qed

theorem loaded_search_witness:
  "\<exists>g. LoadRoadGraphRegions (Some example_db) ['' Tehran''] = Inr g
     \<and> (AStar g 1 2 None None = Some (Inl ErrNoPath) \<or> (\<exists>p. AStar g 1 2 None None = Some (Inr p)))"
proof -
  obtain g where g: "LoadRoadGraphRegions (Some example_db) ['' Tehran''] = Inr g" using example_load by blast
  have "1 \<in> fst ` set (mentions [example_row])" "2 \<in> fst ` set (mentions [example_row])"
    by (simp_all add: mentions_def example_row_def)
  with loaded_search [OF g example_tables, of 1 2 None None, unfolded example_segments]
  have "if reachable (plain_query g 1 2 None None) then (\<exists>p. AStar g 1 2 None None = Some (Inr p))
        else AStar g 1 2 None None = Some (Inl ErrNoPath)" by (auto split: if_splits)
  with g show ?thesis by (auto split: if_splits)
qed

section \<open>Quoted identifiers\<close>

text \<open>Reading a quoted SQL identifier: a doubled quote stands for one, a single quote ends it.\<close>

fun ident_body :: "string \<Rightarrow> (string \<times> string) option" where
  "ident_body [] = None"
| "ident_body (c # s) =
     (if c \<noteq> CHR 0x22 then map_option (\<lambda>(i, r). (c # i, r)) (ident_body s)
      else case s of
             [] \<Rightarrow> Some ([], [])
           | d # t \<Rightarrow> if d = CHR 0x22 then map_option (\<lambda>(i, r). (CHR 0x22 # i, r)) (ident_body t) else Some ([], s))"

definition sql_ident :: "string \<Rightarrow> (string \<times> string) option" where
  "sql_ident s = (case s of [] \<Rightarrow> None | c # t \<Rightarrow> if c = CHR 0x22 then ident_body t else None)"

text \<open>
  Whatever the name, \<open>quoteIdent\<close> makes it a single identifier: SQL reads back exactly
  the name, and what follows the identifier is left as it is, so a name cannot end the
  identifier and be read as SQL.
\<close>

theorem quoteIdent_roundtrip:
  assumes "\<not> has_prefix [CHR 0x22] rest"
  shows "sql_ident (quoteIdent name @ rest) = Some (name, rest)"
proof -
  have stop: "ident_body (CHR 0x22 # rest) = Some ([], rest)"
    using assms by (cases rest) auto
  have "ident_body (concat (map (\<lambda>c. if c = CHR 0x22 then [CHR 0x22, CHR 0x22] else [c]) name) @ CHR 0x22 # rest) = Some (name, rest)"
    by (induction name) (simp_all add: stop del: ident_body.simps(2), simp_all add: ident_body.simps(2))
  then show ?thesis by (simp add: sql_ident_def quoteIdent_def)
qed

theorem quoteIdent_roundtrip_witness:
  "sql_ident (quoteIdent [CHR 0x22, CHR '';''] @ '' WHERE'') = Some ([CHR 0x22, CHR '';''], '' WHERE'')"
  by (rule quoteIdent_roundtrip) simp

end
