(* ===== verification/TransitLoader.thy ===== *)
theory TransitLoader
  imports GraphLoader Engine
begin

text \<open>
  \<open>internal/storage/transit_graph.go\<close>: the public-transport graph from the tables of stops,
  stations and lines, and \<open>newRoutingEngine\<close> of \<open>cmd/server/main.go\<close>, which loads the three
  graphs into an engine.  The four queries are parameters; the rows of a line table come in
  the order of the query.  The stops are kept in Go maps, so the pairing of stops for
  transfers runs in an arbitrary order, the last argument.
\<close>

section \<open>Stops\<close>

definition transitBusSpeedKmH :: float64 where "transitBusSpeedKmH = 20"
definition transitMetroSpeedKmH :: float64 where "transitMetroSpeedKmH = 40"
definition transitTransferSpeedKmH :: float64 where "transitTransferSpeedKmH = 5"
definition transitTransferMaxKm :: float64 where "transitTransferMaxKm = 0.30"
definition transitDistanceFactor :: float64 where "transitDistanceFactor = 1.20"
definition metroStationIDOffset :: int where "metroStationIDOffset = 1000000000000"

record transitStop =
  ts_id :: int
  ts_osm :: int
  ts_lat :: float64
  ts_lng :: float64
  ts_city :: string
  ts_name :: string

type_synonym stop_map = "int \<Rightarrow> transitStop option"

definition stop_node :: "transitStop \<Rightarrow> node" where
  "stop_node s = \<lparr>n_ID = ts_id s, n_Lat = ts_lat s, n_Lng = ts_lng s, n_Flags = 0\<rparr>"

definition bus_stop_row :: "transitStop \<Rightarrow> graph \<times> stop_map \<Rightarrow> graph \<times> stop_map" where
  "bus_stop_row s st = (case st of (g, out) \<Rightarrow> (AddNode g (stop_node s), out(ts_id s \<mapsto> s)))"

definition loadBusStops :: "transitStop query_result \<Rightarrow> graph \<Rightarrow> string + graph \<times> stop_map" where
  "loadBusStops q g = run_query ''load bus_stops: '' ''scan bus_stop: '' [] bus_stop_row q (g, Map.empty)"

definition metro_station_row :: "transitStop \<Rightarrow> graph \<times> stop_map \<Rightarrow> graph \<times> stop_map" where
  "metro_station_row r st =
     (case st of (g, out) \<Rightarrow>
        let s = r\<lparr>ts_id := ts_id r + metroStationIDOffset\<rparr> in (AddNode g (stop_node s), out(ts_id r \<mapsto> s)))"

definition loadMetroStations :: "transitStop query_result \<Rightarrow> graph \<Rightarrow> string + graph \<times> stop_map" where
  "loadMetroStations q g =
     run_query ''load metro_stations: '' ''scan metro_station: '' [] metro_station_row q (g, Map.empty)"

section \<open>Lines\<close>

record line_row =
  lr_line :: int
  lr_stop :: int
  lr_ref :: string
  lr_name :: string

definition line_label :: "string \<Rightarrow> string \<Rightarrow> string \<Rightarrow> string" where
  "line_label kind ref name =
     (if ref \<noteq> [] \<and> name \<noteq> [] then kind @ '' '' @ ref @ '' '' @ [CHR 0xE2, CHR 0x80, CHR 0x94] @ '' '' @ name
      else if ref \<noteq> [] then kind @ '' '' @ ref
      else if name \<noteq> [] then kind @ '' '' @ name
      else kind)"

definition busLineLabel :: "string \<Rightarrow> string \<Rightarrow> string" where
  "busLineLabel = line_label ''Bus''"

definition metroLineLabel :: "string \<Rightarrow> string \<Rightarrow> string" where
  "metroLineLabel = line_label ''Metro''"

text \<open>Intern a name and add an edge that carries it.\<close>

definition add_named_edge :: "graph \<Rightarrow> node_id \<Rightarrow> edge \<Rightarrow> string \<Rightarrow> graph" where
  "add_named_edge g u e name = (let (idx, g) = InternName g name in AddEdge g u (e\<lparr>e_NameIdx := idx\<rparr>))"

definition transit_edge :: "node_id \<Rightarrow> float64 \<Rightarrow> float64 \<Rightarrow> HighwayKind \<Rightarrow> edge" where
  "transit_edge to d speedKmH kind =
     \<lparr>e_To = to, e_DistanceKm = d, e_SpeedKmH = speedKmH, e_TimeHours = d / speedKmH,
      e_Kind = kind, e_Flags = FlagTransit, e_NameIdx = 0\<rparr>"

definition addTransitEdge :: "graph \<Rightarrow> transitStop \<Rightarrow> transitStop \<Rightarrow> HighwayKind \<Rightarrow> float64 \<Rightarrow> string \<Rightarrow> graph" where
  "addTransitEdge g from to kind speedKmH label =
     (let dist = Haversine (ts_lat from) (ts_lng from) (ts_lat to) (ts_lng to) * transitDistanceFactor in
      if dist < 0.01 then g
      else add_named_edge g (ts_id from) (transit_edge (ts_id to) dist speedKmH kind) label)"

record line_state =
  ln_graph :: graph
  ln_curLine :: int
  ln_prev :: "transitStop option"
  ln_label :: string
  ln_edges :: nat

definition line_row_step ::
  "HighwayKind \<Rightarrow> float64 \<Rightarrow> (string \<Rightarrow> string \<Rightarrow> string) \<Rightarrow> stop_map \<Rightarrow> line_row \<Rightarrow> line_state \<Rightarrow> line_state" where
  "line_row_step kind speedKmH label_of stops r st =
     (case stops (lr_stop r) of
        None \<Rightarrow> st
      | Some stop \<Rightarrow>
          let st = (if lr_line r \<noteq> ln_curLine st
                    then st\<lparr>ln_curLine := lr_line r, ln_prev := None, ln_label := label_of (lr_ref r) (lr_name r)\<rparr> else st);
              st = (case ln_prev st of
                      None \<Rightarrow> st
                    | Some p \<Rightarrow> st\<lparr>ln_graph := addTransitEdge (ln_graph st) p stop kind speedKmH (ln_label st),
                                   ln_edges := ln_edges st + 1\<rparr>)
          in st\<lparr>ln_prev := Some stop\<rparr>)"

definition line_start :: "graph \<Rightarrow> line_state" where
  "line_start g = \<lparr>ln_graph = g, ln_curLine = -1, ln_prev = None, ln_label = [], ln_edges = 0\<rparr>"

definition loadBusLineEdges :: "line_row query_result \<Rightarrow> graph \<Rightarrow> stop_map \<Rightarrow> string + line_state" where
  "loadBusLineEdges q g stops =
     run_query ''load bus_line_stops: '' ''scan bus_line_stops: '' []
       (line_row_step HWBusRoute transitBusSpeedKmH busLineLabel stops) q (line_start g)"

definition loadMetroLineEdges :: "line_row query_result \<Rightarrow> graph \<Rightarrow> stop_map \<Rightarrow> string + line_state" where
  "loadMetroLineEdges q g stations =
     run_query ''load metro_line_stations: '' ''scan metro_line_stations: '' []
       (line_row_step HWSubway transitMetroSpeedKmH metroLineLabel stations) q (line_start g)"

section \<open>Transfers\<close>

definition transfer_km :: "transitStop \<Rightarrow> transitStop \<Rightarrow> float64" where
  "transfer_km a b = Haversine (ts_lat a) (ts_lng a) (ts_lat b) (ts_lng b)"

definition transfer_pair :: "32 word \<Rightarrow> transitStop \<Rightarrow> graph \<times> nat \<Rightarrow> transitStop \<Rightarrow> graph \<times> nat" where
  "transfer_pair label a st b =
     (case st of (g, n) \<Rightarrow>
        if ts_city a \<noteq> ts_city b then (g, n)
        else let d = transfer_km a b in
             if d > transitTransferMaxKm \<or> d < 0.005 then (g, n)
             else let ab = (transit_edge (ts_id b) d transitTransferSpeedKmH HWTransfer)\<lparr>e_NameIdx := label\<rparr>;
                      g = AddEdge g (ts_id a) ab
                  in (AddEdge g (ts_id b) (ab\<lparr>e_To := ts_id a\<rparr>), n + 2))"

fun transfer_pairs :: "32 word \<Rightarrow> transitStop list \<Rightarrow> graph \<times> nat \<Rightarrow> graph \<times> nat" where
  "transfer_pairs label [] st = st"
| "transfer_pairs label (a # all) st = transfer_pairs label all (foldl (transfer_pair label a) st all)"

definition buildTransferEdges :: "graph \<Rightarrow> transitStop list \<Rightarrow> transitStop list \<Rightarrow> graph \<times> nat" where
  "buildTransferEdges g busStops metroStations =
     (let (label, g) = InternName g ''transfer'' in transfer_pairs label (busStops @ metroStations) (g, 0))"

section \<open>The loader\<close>

record transit_db =
  td_bus_stops :: "transitStop query_result"
  td_metro_stations :: "transitStop query_result"
  td_bus_lines :: "line_row query_result"
  td_metro_lines :: "line_row query_result"

text \<open>
  The result is the graph, if any, and the error, if any: an empty graph is returned together
  with an error.  \<open>order\<close> lists the values of a map in the order of the iteration.
\<close>

definition LoadTransitGraph :: "(stop_map \<Rightarrow> transitStop list) \<Rightarrow> transit_db option \<Rightarrow> graph option \<times> string option" where
  "LoadTransitGraph order p =
     (case p of
        None \<Rightarrow> (None, Some ''postgres disabled'')
      | Some db \<Rightarrow>
     (case loadBusStops (td_bus_stops db) NewGraph of
        Inl e \<Rightarrow> (None, Some e)
      | Inr (g, busStops) \<Rightarrow>
     (case loadMetroStations (td_metro_stations db) g of
        Inl e \<Rightarrow> (None, Some e)
      | Inr (g, metroStations) \<Rightarrow>
     (case loadBusLineEdges (td_bus_lines db) g busStops of
        Inl e \<Rightarrow> (None, Some e)
      | Inr bus \<Rightarrow>
     (case loadMetroLineEdges (td_metro_lines db) (ln_graph bus) metroStations of
        Inl e \<Rightarrow> (None, Some e)
      | Inr metro \<Rightarrow>
          let (g, _) = buildTransferEdges (ln_graph metro) (order busStops) (order metroStations) in
          if Nodes g = Map.empty
          then (Some g, Some ''transit graph is empty (no bus/metro stops imported)'')
          else if ln_edges bus + ln_edges metro = 0
          then (Some g, Some ''transit graph has stops but no line edges'')
          else (Some g, None))))))"

section \<open>What the lines and transfers mean\<close>

definition ride_arc :: "HighwayKind \<Rightarrow> float64 \<Rightarrow> transitStop \<times> transitStop \<times> string \<Rightarrow> node_id \<times> arc" where
  "ride_arc kind speed h =
     (case h of (a, b, label) \<Rightarrow>
        let dist = transfer_km a b * transitDistanceFactor in
        (ts_id a, \<lparr>a_To = ts_id b, a_DistanceKm = dist, a_SpeedKmH = speed, a_TimeHours = dist / speed,
                   a_Kind = kind, a_Flags = FlagTransit, a_Name = label\<rparr>))"

definition ride_long :: "transitStop \<times> transitStop \<times> string \<Rightarrow> bool" where
  "ride_long h = (case h of (a, b, label) \<Rightarrow> \<not> transfer_km a b * transitDistanceFactor < 0.01)"

definition transfer_arc :: "transitStop \<Rightarrow> transitStop \<Rightarrow> node_id \<times> arc" where
  "transfer_arc a b =
     (ts_id a, \<lparr>a_To = ts_id b, a_DistanceKm = transfer_km a b, a_SpeedKmH = transitTransferSpeedKmH,
        a_TimeHours = transfer_km a b / transitTransferSpeedKmH, a_Kind = HWTransfer, a_Flags = FlagTransit,
        a_Name = ''transfer''\<rparr>)"

definition walkable :: "transitStop \<Rightarrow> transitStop \<Rightarrow> bool" where
  "walkable a b \<longleftrightarrow> ts_city a = ts_city b \<and> transfer_km a b \<le> transitTransferMaxKm \<and> \<not> transfer_km a b < 0.005"

text \<open>The hops of a line table: neighbouring known stops of one line.\<close>

fun hops_from :: "(string \<Rightarrow> string \<Rightarrow> string) \<Rightarrow> int \<times> transitStop \<Rightarrow> string \<Rightarrow> (line_row \<times> transitStop) list
    \<Rightarrow> (transitStop \<times> transitStop \<times> string) list" where
  "hops_from lab prev label [] = []"
| "hops_from lab prev label ((r, s) # rs) =
     (if lr_line r = fst prev then (snd prev, s, label) # hops_from lab (fst prev, s) label rs
      else hops_from lab (lr_line r, s) (lab (lr_ref r) (lr_name r)) rs)"

definition known_stops :: "stop_map \<Rightarrow> line_row list \<Rightarrow> (line_row \<times> transitStop) list" where
  "known_stops stops rs = List.map_filter (\<lambda>r. map_option (\<lambda>s. (r, s)) (stops (lr_stop r))) rs"

definition hops :: "(string \<Rightarrow> string \<Rightarrow> string) \<Rightarrow> stop_map \<Rightarrow> line_row list \<Rightarrow> (transitStop \<times> transitStop \<times> string) list" where
  "hops lab stops rs =
     (case known_stops stops rs of
        [] \<Rightarrow> []
      | (r, s) # ks \<Rightarrow> hops_from lab (lr_line r, s) (lab (lr_ref r) (lr_name r)) ks)"

text \<open>The arcs of a list of hops, or of transfers, that leave a node.\<close>

definition arcs_from :: "node_id \<Rightarrow> (node_id \<times> arc) list \<Rightarrow> arc list" where
  "arcs_from u xs = map snd (filter (\<lambda>x. fst x = u) xs)"

lemma arcs_from_simps [simp]:
  "arcs_from u [] = []" "arcs_from u (x # xs) = (if fst x = u then [snd x] else []) @ arcs_from u xs"
  "arcs_from u (xs @ ys) = arcs_from u xs @ arcs_from u ys"
  by (simp_all add: arcs_from_def)

lemma set_arcs_from: "set (arcs_from u xs) = {a. (u, a) \<in> set xs}"
  by (force simp: arcs_from_def)

section \<open>Stops are loaded\<close>

definition bus_map :: "transitStop list \<Rightarrow> stop_map" where
  "bus_map ss = map_of (map (\<lambda>s. (ts_id s, s)) ss)"

definition metro_map :: "transitStop list \<Rightarrow> stop_map" where
  "metro_map ss = map_of (map (\<lambda>s. (ts_id s, s\<lparr>ts_id := ts_id s + metroStationIDOffset\<rparr>)) ss)"

lemma stop_node_simps [simp]: "n_ID (stop_node s) = ts_id s"
  by (simp add: stop_node_def)

definition no_edges :: "graph \<Rightarrow> bool" where
  "no_edges g \<longleftrightarrow> load_ok g \<and> arcs g = (\<lambda>u. []) \<and> namePool g = [[]]"

lemma AddNode_no_edges:
  "no_edges g \<Longrightarrow> n_ID n \<notin> dom (Nodes g) \<Longrightarrow> no_edges (AddNode g n)"
  using AddNode_load [of g n] by (simp add: no_edges_def)

lemma map_of_snoc_new: "k \<notin> fst ` set xs \<Longrightarrow> map_of (xs @ [(k, v)]) = (map_of xs)(k \<mapsto> v)"
proof -
  assume "k \<notin> fst ` set xs"
  then have "map_of xs k = None" by (simp add: map_of_eq_None_iff)
  then show "map_of (xs @ [(k, v)]) = (map_of xs)(k \<mapsto> v)" by (auto simp: map_add_def fun_eq_iff split: option.splits)
qed

lemma bus_stop_row_apply: "bus_stop_row s (g, out) = (AddNode g (stop_node s), out(ts_id s \<mapsto> s))"
  and metro_station_row_apply: "metro_station_row s (g, out) =
    (AddNode g (stop_node (s\<lparr>ts_id := ts_id s + metroStationIDOffset\<rparr>)),
     out(ts_id s \<mapsto> s\<lparr>ts_id := ts_id s + metroStationIDOffset\<rparr>))"
  by (simp_all add: bus_stop_row_def metro_station_row_def Let_def)

lemma scan_bus_stops:
  assumes "scan_rows what bus_stop_row rs (g, bus_map done0) = Inr (g', m)"
    and "distinct (map ts_id (done0 @ good_rows rs))" "no_edges g" "dom (Nodes g) = ts_id ` set done0"
  shows "m = bus_map (done0 @ good_rows rs) \<and> no_edges g' \<and> dom (Nodes g') = ts_id ` set (done0 @ good_rows rs)"
  using assms
proof (induction rs arbitrary: done0 g)
  case (Cons r rs)
  then obtain s where r: "r = Inr s" by (cases r) auto
  have new: "ts_id s \<notin> dom (Nodes g)" "ts_id s \<notin> ts_id ` set done0" using Cons.prems(2,4) r by auto
  have m: "(bus_map done0)(ts_id s \<mapsto> s) = bus_map (done0 @ [s])"
    unfolding bus_map_def map_append list.map using new(2) by (intro map_of_snoc_new [symmetric]) (auto simp: image_image)
  have "m = bus_map ((done0 @ [s]) @ good_rows rs) \<and> no_edges g' \<and> dom (Nodes g') = ts_id ` set ((done0 @ [s]) @ good_rows rs)"
  proof (rule Cons.IH)
    show "scan_rows what bus_stop_row rs (AddNode g (stop_node s), bus_map (done0 @ [s])) = Inr (g', m)"
      using Cons.prems(1) m by (simp add: r bus_stop_row_apply)
    show "no_edges (AddNode g (stop_node s))" using Cons.prems(3) new(1) by (intro AddNode_no_edges) simp_all
    show "dom (Nodes (AddNode g (stop_node s))) = ts_id ` set (done0 @ [s])" using Cons.prems(4) by simp
  qed (use Cons.prems(2) r in auto)
  then show ?case by (simp add: r)
qed simp

lemma scan_metro_stations:
  assumes "scan_rows what metro_station_row rs (g, metro_map done0) = Inr (g', m)"
    and "distinct (map ts_id (done0 @ good_rows rs))" "no_edges g"
    and "dom (Nodes g) = B \<union> (\<lambda>s. ts_id s + metroStationIDOffset) ` set done0"
    and "B \<inter> (\<lambda>s. ts_id s + metroStationIDOffset) ` set (done0 @ good_rows rs) = {}"
  shows "m = metro_map (done0 @ good_rows rs) \<and> no_edges g'
    \<and> dom (Nodes g') = B \<union> (\<lambda>s. ts_id s + metroStationIDOffset) ` set (done0 @ good_rows rs)"
  using assms
proof (induction rs arbitrary: done0 g)
  case (Cons r rs)
  then obtain s where r: "r = Inr s" by (cases r) auto
  let ?s = "s\<lparr>ts_id := ts_id s + metroStationIDOffset\<rparr>"
  have new: "ts_id s + metroStationIDOffset \<notin> dom (Nodes g)" "ts_id s \<notin> ts_id ` set done0"
    using Cons.prems(2,4,5) r by auto
  have m: "(metro_map done0)(ts_id s \<mapsto> ?s) = metro_map (done0 @ [s])"
    unfolding metro_map_def map_append list.map using new(2) by (intro map_of_snoc_new [symmetric]) (auto simp: image_image)
  have "m = metro_map ((done0 @ [s]) @ good_rows rs) \<and> no_edges g'
     \<and> dom (Nodes g') = B \<union> (\<lambda>s. ts_id s + metroStationIDOffset) ` set ((done0 @ [s]) @ good_rows rs)"
  proof (rule Cons.IH)
    show "scan_rows what metro_station_row rs (AddNode g (stop_node ?s), metro_map (done0 @ [s])) = Inr (g', m)"
      using Cons.prems(1) m by (simp add: r metro_station_row_apply)
    show "no_edges (AddNode g (stop_node ?s))" using Cons.prems(3) new(1) by (intro AddNode_no_edges) simp_all
    show "dom (Nodes (AddNode g (stop_node ?s))) = B \<union> (\<lambda>s. ts_id s + metroStationIDOffset) ` set (done0 @ [s])"
      using Cons.prems(4) by simp
  qed (use Cons.prems(2,5) r in auto)
  then show ?case by (simp add: r)
qed simp

section \<open>Edges are added\<close>

lemma add_named_edge_load:
  fixes g :: graph and u :: node_id and e :: edge and name :: string
  assumes "load_ok g" "u \<in> dom (Nodes g)" "e_To e \<in> dom (Nodes g)" "length (namePool g) + 1 < 2 ^ 32"
  defines "g' \<equiv> add_named_edge g u e name"
  shows "load_ok g'" "dom (Nodes g') = dom (Nodes g)" "length (namePool g') \<le> length (namePool g) + 1"
    "arcs g' w = arcs g w @ arcs_from w [(u, (arc_of g e)\<lparr>a_Name := name\<rparr>)]"
proof -
  define h where "h = snd (InternName g name)"
  define f where "f = e\<lparr>e_NameIdx := fst (InternName g name)\<rparr>"
  have g': "g' = AddEdge h u f" by (simp add: g'_def add_named_edge_def split_beta Let_def h_def f_def)
  have pool: "pool_ok g" using assms(1) by (simp add: load_ok_def graph_ok_def)
  note i = InternName_load [OF assms(1,4), of name, folded h_def]
  have nodes: "Nodes h = Nodes g" by (simp add: h_def)
  have idx: "unat (e_NameIdx f) < length (namePool h)" "NameFor h (e_NameIdx f) = name"
    using InternName_index [OF pool assms(4)] NameFor_new [OF pool assms(4)] by (simp_all add: f_def h_def)
  have f_to: "e_To f = e_To e" by (simp add: f_def)
  note a = AddEdge_load [OF i(1) _ _ idx(1), of u, unfolded nodes f_to, OF assms(2,3)]
  show "load_ok g'" using a(1) by (simp add: g')
  show "dom (Nodes g') = dom (Nodes g)" by (simp add: g' nodes)
  show "length (namePool g') \<le> length (namePool g) + 1"
    using InternName_pool(2) [of g name] by (simp add: g' h_def)
  have "arc_of h f = (arc_of g e)\<lparr>a_Name := name\<rparr>" using idx(2) by (simp add: arc_of_def f_def)
  then show "arcs g' w = arcs g w @ arcs_from w [(u, (arc_of g e)\<lparr>a_Name := name\<rparr>)]"
    unfolding g' a(2) i(2) by simp
qed

lemma addTransitEdge_load:
  fixes g :: graph and a b :: transitStop and kind :: HighwayKind and speed :: float64 and label :: string
  assumes "load_ok g" "ts_id a \<in> dom (Nodes g)" "ts_id b \<in> dom (Nodes g)" "length (namePool g) + 1 < 2 ^ 32"
  defines "g' \<equiv> addTransitEdge g a b kind speed label"
  shows "load_ok g'" "dom (Nodes g') = dom (Nodes g)" "length (namePool g') \<le> length (namePool g) + 1"
    "arcs g' w = arcs g w @ arcs_from w (map (ride_arc kind speed) (filter ride_long [(a, b, label)]))"
proof -
  let ?e = "transit_edge (ts_id b) (transfer_km a b * transitDistanceFactor) speed kind"
  have to: "e_To ?e \<in> dom (Nodes g)" using assms(3) by (simp add: transit_edge_def)
  note l = add_named_edge_load [OF assms(1,2) to assms(4), of label]
  have g': "g' = (if ride_long (a, b, label) then add_named_edge g (ts_id a) ?e label else g)"
    by (simp add: g'_def addTransitEdge_def ride_long_def transfer_km_def Let_def)
  show "load_ok g'" "dom (Nodes g') = dom (Nodes g)" "length (namePool g') \<le> length (namePool g) + 1"
    using l(1-3) assms(1) unfolding g' by (cases "ride_long (a, b, label)"; simp)+
  have "(ts_id a, (arc_of g ?e)\<lparr>a_Name := label\<rparr>) = ride_arc kind speed (a, b, label)"
    by (simp add: arc_of_def transit_edge_def ride_arc_def Let_def)
  then show "arcs g' w = arcs g w @ arcs_from w (map (ride_arc kind speed) (filter ride_long [(a, b, label)]))"
    unfolding g' using l(4) [of w] by (cases "ride_long (a, b, label)"; simp)
qed

definition stops_in :: "stop_map \<Rightarrow> graph \<Rightarrow> bool" where
  "stops_in stops g \<longleftrightarrow> (\<forall>s\<in>ran stops. ts_id s \<in> dom (Nodes g))"

lemma known_stops_simps [simp]:
  "known_stops stops [] = []"
  "known_stops stops (r # rs) = (case stops (lr_stop r) of None \<Rightarrow> known_stops stops rs | Some s \<Rightarrow> (r, s) # known_stops stops rs)"
  by (simp_all add: known_stops_def List.map_filter_simps split: option.split)

lemma scan_lines_prev:
  assumes "scan_rows what (line_row_step kind speed lab stops) rs st = Inr st'"
    and "load_ok (ln_graph st)" "stops_in stops (ln_graph st)" "ln_prev st = Some p" "p \<in> ran stops"
    and "length (namePool (ln_graph st)) + length (good_rows rs) + 1 < 2 ^ 32"
  shows "load_ok (ln_graph st') \<and> dom (Nodes (ln_graph st')) = dom (Nodes (ln_graph st))
    \<and> length (namePool (ln_graph st')) \<le> length (namePool (ln_graph st)) + length (good_rows rs)
    \<and> arcs (ln_graph st') w = arcs (ln_graph st) w @ arcs_from w (map (ride_arc kind speed)
         (filter ride_long (hops_from lab (ln_curLine st, p) (ln_label st) (known_stops stops (good_rows rs)))))"
  using assms
proof (induction rs arbitrary: st p)
  case (Cons x rs)
  then obtain r where x: "x = Inr r" by (cases x) auto
  show ?case
  proof (cases "stops (lr_stop r)")
    case None
    then have "line_row_step kind speed lab stops r st = st" by (simp add: line_row_step_def)
    then have "scan_rows what (line_row_step kind speed lab stops) rs st = Inr st'" using Cons.prems(1) x by simp
    from Cons.IH [OF this Cons.prems(2-5)] Cons.prems(6) None show ?thesis by (simp add: x)
  next
    case (Some s)
    have s_in: "s \<in> ran stops" using Some by (auto simp: ran_def)
    let ?st1 = "line_row_step kind speed lab stops r st"
    let ?ks = "known_stops stops (good_rows rs)"
    have ks: "known_stops stops (good_rows (x # rs)) = (r, s) # ?ks" by (simp add: x Some)
    have step: "scan_rows what (line_row_step kind speed lab stops) rs ?st1 = Inr st'" using Cons.prems(1) x by simp
    show ?thesis
    proof (cases "lr_line r = ln_curLine st")
      case True
      then have st1: "?st1 = st\<lparr>ln_graph := addTransitEdge (ln_graph st) p s kind speed (ln_label st),
          ln_edges := ln_edges st + 1, ln_prev := Some s\<rparr>"
        using Cons.prems(4) by (simp add: line_row_step_def Some Let_def)
      have ids: "ts_id p \<in> dom (Nodes (ln_graph st))" "ts_id s \<in> dom (Nodes (ln_graph st))"
        using Cons.prems(3,5) s_in unfolding stops_in_def by blast+
      have room: "length (namePool (ln_graph st)) + 1 < 2 ^ 32" using Cons.prems(6) by (simp add: x)
      note a = addTransitEdge_load [OF Cons.prems(2) ids room, of kind speed "ln_label st"]
      have "load_ok (ln_graph ?st1)" "stops_in stops (ln_graph ?st1)" using Cons.prems(3) a(1,2) by (simp_all add: st1 stops_in_def)
      moreover have "length (namePool (ln_graph ?st1)) + length (good_rows rs) + 1 < 2 ^ 32"
        using Cons.prems(6) a(3) by (simp add: st1 x)
      ultimately have "load_ok (ln_graph st') \<and> dom (Nodes (ln_graph st')) = dom (Nodes (ln_graph ?st1))
          \<and> length (namePool (ln_graph st')) \<le> length (namePool (ln_graph ?st1)) + length (good_rows rs)
          \<and> arcs (ln_graph st') w = arcs (ln_graph ?st1) w @ arcs_from w (map (ride_arc kind speed)
             (filter ride_long (hops_from lab (ln_curLine ?st1, s) (ln_label ?st1) ?ks)))"
        by (intro Cons.IH [OF step _ _ _ s_in]) (simp_all add: st1)
      then show ?thesis
        using a(2,3) a(4) [of w] True unfolding ks by (simp add: st1 x)
    next
      case False
      then have st1: "?st1 = st\<lparr>ln_curLine := lr_line r, ln_label := lab (lr_ref r) (lr_name r), ln_prev := Some s\<rparr>"
        by (simp add: line_row_step_def Some Let_def)
      have "load_ok (ln_graph st') \<and> dom (Nodes (ln_graph st')) = dom (Nodes (ln_graph ?st1))
          \<and> length (namePool (ln_graph st')) \<le> length (namePool (ln_graph ?st1)) + length (good_rows rs)
          \<and> arcs (ln_graph st') w = arcs (ln_graph ?st1) w @ arcs_from w (map (ride_arc kind speed)
             (filter ride_long (hops_from lab (ln_curLine ?st1, s) (ln_label ?st1) ?ks)))"
        using Cons.prems by (intro Cons.IH [OF step _ _ _ s_in]) (simp_all add: st1 x)
      then show ?thesis using False unfolding ks by (simp add: st1 x)
    qed
  qed
qed auto

lemma scan_lines:
  assumes "scan_rows what (line_row_step kind speed lab stops) rs (line_start g) = Inr st'"
    and "load_ok g" "stops_in stops g" "\<forall>r\<in>set (good_rows rs). lr_line r \<noteq> -1"
    and "length (namePool g) + length (good_rows rs) + 1 < 2 ^ 32"
  shows "load_ok (ln_graph st') \<and> dom (Nodes (ln_graph st')) = dom (Nodes g)
    \<and> length (namePool (ln_graph st')) \<le> length (namePool g) + length (good_rows rs)
    \<and> arcs (ln_graph st') w = arcs g w @ arcs_from w (map (ride_arc kind speed) (filter ride_long (hops lab stops (good_rows rs))))"
  using assms
proof (induction rs)
  case Nil
  then show ?case by (auto simp: hops_def line_start_def)
next
  case (Cons x rs)
  then obtain r where x: "x = Inr r" by (cases x) auto
  show ?case
  proof (cases "stops (lr_stop r)")
    case None
    then have "line_row_step kind speed lab stops r (line_start g) = line_start g" by (simp add: line_row_step_def)
    then have "scan_rows what (line_row_step kind speed lab stops) rs (line_start g) = Inr st'" using Cons.prems(1) x by simp
    from Cons.IH [OF this Cons.prems(2,3)] Cons.prems(4,5) None show ?thesis by (simp add: x hops_def)
  next
    case (Some s)
    have s_in: "s \<in> ran stops" using Some by (auto simp: ran_def)
    let ?st1 = "line_row_step kind speed lab stops r (line_start g)"
    have st1: "?st1 = (line_start g)\<lparr>ln_curLine := lr_line r, ln_label := lab (lr_ref r) (lr_name r), ln_prev := Some s\<rparr>"
      using Cons.prems(4) by (simp add: line_row_step_def Some Let_def line_start_def x)
    have step: "scan_rows what (line_row_step kind speed lab stops) rs ?st1 = Inr st'" using Cons.prems(1) x by simp
    have g1: "ln_graph ?st1 = g" unfolding st1 by (simp add: line_start_def)
    show ?thesis
      using scan_lines_prev [OF step _ _ _ s_in, of w] Cons.prems(2,3,5)
      by (simp add: g1) (simp add: st1 hops_def x Some)
  qed
qed

section \<open>Transfers are symmetric\<close>

lemma transfer_km_sym: "transfer_km a b = transfer_km b a"
  unfolding transfer_km_def by (rule Haversine_sym)

lemma walkable_sym: "walkable a b \<Longrightarrow> walkable b a"
  by (simp add: walkable_def transfer_km_sym)

lemma walkable_irrefl [simp]: "\<not> walkable a a"
  by (simp add: walkable_def transfer_km_def)

definition transfer_ready :: "32 word \<Rightarrow> graph \<Rightarrow> bool" where
  "transfer_ready label g \<longleftrightarrow> load_ok g \<and> unat label < length (namePool g) \<and> NameFor g label = ''transfer''"

lemma transfer_pair_load:
  assumes ready: "transfer_ready label g" and ids: "ts_id a \<in> dom (Nodes g)" "ts_id b \<in> dom (Nodes g)"
    and r: "transfer_pair label a (g, n) b = (g', n')"
  shows "transfer_ready label g'" "dom (Nodes g') = dom (Nodes g)"
    "arcs g' w = arcs g w @ (if walkable a b then arcs_from w [transfer_arc a b, transfer_arc b a] else [])"
proof -
  have ok: "load_ok g" and idx: "unat label < length (namePool g)" and name: "NameFor g label = ''transfer''"
    using ready by (simp_all add: transfer_ready_def)
  define ab where "ab = (transit_edge (ts_id b) (transfer_km a b) transitTransferSpeedKmH HWTransfer)\<lparr>e_NameIdx := label\<rparr>"
  define ba where "ba = ab\<lparr>e_To := ts_id a\<rparr>"
  define g1 where "g1 = AddEdge g (ts_id a) ab"
  have g': "g' = (if walkable a b then AddEdge g1 (ts_id b) ba else g)"
    using r by (auto simp: transfer_pair_def walkable_def Let_def g1_def ab_def ba_def split: if_splits)
  have e: "e_To ab = ts_id b" "e_NameIdx ab = label" "e_To ba = ts_id a" "e_NameIdx ba = label"
    by (simp_all add: ab_def ba_def transit_edge_def)
  note one = AddEdge_load [OF ok ids(1), of ab, unfolded e, OF ids(2) idx, folded g1_def]
  have ids1: "ts_id b \<in> dom (Nodes g1)" "e_To ba \<in> dom (Nodes g1)" "unat (e_NameIdx ba) < length (namePool g1)"
    using ids idx unfolding g1_def AddEdge_dom e by simp_all
  note two = AddEdge_load [OF one(1) ids1]
  show "transfer_ready label g'" using two(1) ready unfolding g' transfer_ready_def by (simp add: g1_def)
  show "dom (Nodes g') = dom (Nodes g)" unfolding g' by (simp add: g1_def)
  have "arc_of g ab = snd (transfer_arc a b)" "arc_of g1 ba = snd (transfer_arc b a)"
    by (simp_all add: g1_def arc_of_def transfer_arc_def ab_def ba_def transit_edge_def name transfer_km_sym)
  moreover have "fst (transfer_arc a b) = ts_id a" "fst (transfer_arc b a) = ts_id b" by (simp_all add: transfer_arc_def)
  ultimately show "arcs g' w = arcs g w @ (if walkable a b then arcs_from w [transfer_arc a b, transfer_arc b a] else [])"
    unfolding g' using one(2) [of w] two(2) [of w] by auto
qed

definition transfers :: "transitStop set \<Rightarrow> (node_id \<times> arc) set" where
  "transfers S = {transfer_arc a b | a b. a \<in> S \<and> b \<in> S \<and> walkable a b}"

lemma transfers_insert:
  "transfers (insert a S) = transfers S \<union> {y. \<exists>b\<in>S. walkable a b \<and> (y = transfer_arc a b \<or> y = transfer_arc b a)}"
proof (intro equalityI subsetI)
  fix y assume "y \<in> transfers (insert a S)"
  then obtain u v where y: "y = transfer_arc u v" "u \<in> insert a S" "v \<in> insert a S" "walkable u v" by (auto simp: transfers_def)
  then show "y \<in> transfers S \<union> {y. \<exists>b\<in>S. walkable a b \<and> (y = transfer_arc a b \<or> y = transfer_arc b a)}"
    unfolding transfers_def using walkable_sym [of u v] by (cases "u = a"; cases "v = a"; auto)
next
  fix y assume "y \<in> transfers S \<union> {y. \<exists>b\<in>S. walkable a b \<and> (y = transfer_arc a b \<or> y = transfer_arc b a)}"
  then show "y \<in> transfers (insert a S)" unfolding transfers_def by (blast dest: walkable_sym)
qed

lemma foldl_transfer:
  assumes "transfer_ready label g" "ts_id a \<in> dom (Nodes g)" "\<forall>b\<in>set bs. ts_id b \<in> dom (Nodes g)"
    and "foldl (transfer_pair label a) (g, n) bs = (g', n')"
  shows "transfer_ready label g' \<and> dom (Nodes g') = dom (Nodes g)
    \<and> set (arcs g' w) = set (arcs g w) \<union> {x. \<exists>b\<in>set bs. walkable a b \<and> ((w, x) = transfer_arc a b \<or> (w, x) = transfer_arc b a)}"
  using assms
proof (induction bs arbitrary: g n)
  case (Cons b bs)
  obtain g1 n1 where r: "transfer_pair label a (g, n) b = (g1, n1)" by fastforce
  note p = transfer_pair_load [OF Cons.prems(1,2) _ r]
  have ih: "transfer_ready label g' \<and> dom (Nodes g') = dom (Nodes g1)
      \<and> set (arcs g' w) = set (arcs g1 w) \<union> {x. \<exists>b\<in>set bs. walkable a b \<and> ((w, x) = transfer_arc a b \<or> (w, x) = transfer_arc b a)}"
    using Cons.prems p r by (intro Cons.IH) (auto simp del: domIff)
  have b: "ts_id b \<in> dom (Nodes g)" using Cons.prems(3) by simp
  have "set (arcs g1 w) = set (arcs g w) \<union> {x. walkable a b \<and> ((w, x) = transfer_arc a b \<or> (w, x) = transfer_arc b a)}"
    unfolding p(3) [OF b] by (auto simp: transfer_arc_def)
  with ih p(2) [OF b] show ?case by auto
qed auto

lemma transfer_pairs_load:
  assumes "transfer_ready label g" "\<forall>s\<in>set all. ts_id s \<in> dom (Nodes g)" "transfer_pairs label all (g, n) = (g', n')"
  shows "transfer_ready label g' \<and> dom (Nodes g') = dom (Nodes g)
    \<and> set (arcs g' w) = set (arcs g w) \<union> {x. (w, x) \<in> transfers (set all)}"
  using assms
proof (induction all arbitrary: g n)
  case (Cons a all)
  obtain g1 n1 where r: "foldl (transfer_pair label a) (g, n) all = (g1, n1)" by fastforce
  have f: "transfer_ready label g1 \<and> dom (Nodes g1) = dom (Nodes g)
    \<and> set (arcs g1 w) = set (arcs g w) \<union> {x. \<exists>b\<in>set all. walkable a b \<and> ((w, x) = transfer_arc a b \<or> (w, x) = transfer_arc b a)}"
    using Cons.prems(2) by (intro foldl_transfer [OF Cons.prems(1) _ _ r]) auto
  have "transfer_ready label g' \<and> dom (Nodes g') = dom (Nodes g1)
    \<and> set (arcs g' w) = set (arcs g1 w) \<union> {x. (w, x) \<in> transfers (set all)}"
    using Cons.prems f r by (intro Cons.IH) auto
  with f show ?case by (auto simp: transfers_insert)
qed (auto simp: transfers_def)

section \<open>The whole network\<close>

definition rows_of :: "'r query_result \<Rightarrow> 'r list" where
  "rows_of q = (case q of Inl _ \<Rightarrow> [] | Inr (rows, _) \<Rightarrow> good_rows rows)"

lemma run_query_rows:
  assumes "run_query lo sc it f q st = Inr st'"
  shows "\<exists>rows. rows_of q = good_rows rows \<and> scan_rows sc f rows st = Inr st'"
  using assms by (auto simp: run_query_def rows_of_def split: sum.splits prod.splits option.splits)

text \<open>The edges the tables stand for, whatever the order in which the stops are paired.\<close>

definition transit_network :: "transit_db \<Rightarrow> (node_id \<times> arc) set" where
  "transit_network db =
     (let bus = bus_map (rows_of (td_bus_stops db)); metro = metro_map (rows_of (td_metro_stations db)) in
      ride_arc HWBusRoute transitBusSpeedKmH ` set (filter ride_long (hops busLineLabel bus (rows_of (td_bus_lines db))))
      \<union> ride_arc HWSubway transitMetroSpeedKmH ` set (filter ride_long (hops metroLineLabel metro (rows_of (td_metro_lines db))))
      \<union> transfers (ran bus \<union> ran metro))"

text \<open>
  Identifiers are primary keys, so they are different and positive; bus stops stay below the
  offset of the stations; there are fewer than \<open>2^32\<close> names.
\<close>

definition transit_db_ok :: "transit_db \<Rightarrow> bool" where
  "transit_db_ok db \<longleftrightarrow> distinct (map ts_id (rows_of (td_bus_stops db))) \<and> distinct (map ts_id (rows_of (td_metro_stations db)))
     \<and> (\<forall>s\<in>set (rows_of (td_bus_stops db)). ts_id s < metroStationIDOffset)
     \<and> (\<forall>s\<in>set (rows_of (td_metro_stations db)). 0 < ts_id s)
     \<and> (\<forall>r\<in>set (rows_of (td_bus_lines db)) \<union> set (rows_of (td_metro_lines db)). 0 < lr_line r)
     \<and> length (rows_of (td_bus_lines db)) + length (rows_of (td_metro_lines db)) + 3 < 2 ^ 32"

lemma ran_bus_map: "ran (bus_map ss) \<subseteq> set ss"
  unfolding bus_map_def by (auto simp: ran_def dest!: map_of_SomeD)

lemma ran_metro_map: "ran (metro_map ss) \<subseteq> (\<lambda>s. s\<lparr>ts_id := ts_id s + metroStationIDOffset\<rparr>) ` set ss"
  unfolding metro_map_def by (auto simp: ran_def dest!: map_of_SomeD)

lemma transfer_label:
  assumes "load_ok g" "length (namePool g) + 1 < 2 ^ 32"
  shows "transfer_ready (fst (InternName g ''transfer'')) (snd (InternName g ''transfer''))"
  using InternName_load(1) [OF assms] InternName_index NameFor_new assms
  by (simp add: transfer_ready_def load_ok_def graph_ok_def)

lemma LoadTransitGraph_steps:
  assumes "LoadTransitGraph order (Some db) = (Some g, err)"
  obtains g1 bus g2 metro lb lm n where
    "loadBusStops (td_bus_stops db) NewGraph = Inr (g1, bus)"
    "loadMetroStations (td_metro_stations db) g1 = Inr (g2, metro)"
    "loadBusLineEdges (td_bus_lines db) g2 bus = Inr lb"
    "loadMetroLineEdges (td_metro_lines db) (ln_graph lb) metro = Inr lm"
    "buildTransferEdges (ln_graph lm) (order bus) (order metro) = (g, n)"
  using assms by (auto simp: LoadTransitGraph_def Let_def split: sum.splits prod.splits if_splits)

text \<open>The stops and stations that the queries leave in the maps and in the graph.\<close>

lemma transit_stops_loaded:
  assumes ok: "transit_db_ok db"
    and s: "loadBusStops (td_bus_stops db) NewGraph = Inr (g1, bus)" "loadMetroStations (td_metro_stations db) g1 = Inr (g2, metro)"
  shows "bus = bus_map (rows_of (td_bus_stops db))" "metro = metro_map (rows_of (td_metro_stations db))" "no_edges g2"
    "dom (Nodes g2) = ts_id ` set (rows_of (td_bus_stops db)) \<union> (\<lambda>s. ts_id s + metroStationIDOffset) ` set (rows_of (td_metro_stations db))"
proof -
  let ?B = "rows_of (td_bus_stops db)" and ?M = "rows_of (td_metro_stations db)"
  note ok' = ok [unfolded transit_db_ok_def]
  have new: "no_edges NewGraph" "dom (Nodes NewGraph) = ts_id ` set []" "bus_map [] = Map.empty" "metro_map [] = Map.empty"
    by (simp_all add: no_edges_def load_ok_New arcs_New fun_eq_iff bus_map_def metro_map_def) (simp_all add: NewGraph_def)
  from run_query_rows [OF s(1) [unfolded loadBusStops_def]] obtain rb where rb: "?B = good_rows rb"
    "scan_rows ''scan bus_stop: '' bus_stop_row rb (NewGraph, bus_map []) = Inr (g1, bus)" unfolding new(3) by blast
  have b: "bus = bus_map ?B \<and> no_edges g1 \<and> dom (Nodes g1) = ts_id ` set ?B"
    using scan_bus_stops [OF rb(2) _ new(1,2)] ok' unfolding rb(1) by simp
  from run_query_rows [OF s(2) [unfolded loadMetroStations_def]] obtain rm where rm: "?M = good_rows rm"
    "scan_rows ''scan metro_station: '' metro_station_row rm (g1, metro_map []) = Inr (g2, metro)" unfolding new(4) by blast
  have disj: "ts_id ` set ?B \<inter> (\<lambda>s. ts_id s + metroStationIDOffset) ` set ?M = {}" using ok' by fastforce
  have m: "metro = metro_map ?M \<and> no_edges g2
      \<and> dom (Nodes g2) = ts_id ` set ?B \<union> (\<lambda>s. ts_id s + metroStationIDOffset) ` set ?M"
    using scan_metro_stations [OF rm(2), of "ts_id ` set ?B"] b ok' disj unfolding rm(1) by simp
  from b m show "bus = bus_map ?B" "metro = metro_map ?M" "no_edges g2"
    "dom (Nodes g2) = ts_id ` set ?B \<union> (\<lambda>s. ts_id s + metroStationIDOffset) ` set ?M" by simp_all
qed

lemma transit_network_loaded:
  assumes load: "LoadTransitGraph order (Some db) = (Some g, err)" and ok: "transit_db_ok db"
    and "set (order (bus_map (rows_of (td_bus_stops db)))) = ran (bus_map (rows_of (td_bus_stops db)))"
    and "set (order (metro_map (rows_of (td_metro_stations db)))) = ran (metro_map (rows_of (td_metro_stations db)))"
  shows "graph_ok g
    \<and> dom (Nodes g) = ts_id ` set (rows_of (td_bus_stops db)) \<union> (\<lambda>s. ts_id s + metroStationIDOffset) ` set (rows_of (td_metro_stations db))
    \<and> set (arcs g u) = {a. (u, a) \<in> transit_network db}"
proof -
  let ?B = "rows_of (td_bus_stops db)" and ?M = "rows_of (td_metro_stations db)"
  let ?LB = "rows_of (td_bus_lines db)" and ?LM = "rows_of (td_metro_lines db)"
  obtain g1 bus g2 metro lb lm n where s:
    "loadBusStops (td_bus_stops db) NewGraph = Inr (g1, bus)" "loadMetroStations (td_metro_stations db) g1 = Inr (g2, metro)"
    "loadBusLineEdges (td_bus_lines db) g2 bus = Inr lb" "loadMetroLineEdges (td_metro_lines db) (ln_graph lb) metro = Inr lm"
    "buildTransferEdges (ln_graph lm) (order bus) (order metro) = (g, n)"
    using LoadTransitGraph_steps [OF load] by metis
  note ok' = ok [unfolded transit_db_ok_def]
  note l = transit_stops_loaded [OF ok s(1,2)]
  have g2: "load_ok g2" "arcs g2 = (\<lambda>u. [])" "length (namePool g2) = 1" using l(3) by (simp_all add: no_edges_def)
  have in2: "stops_in bus g2" "stops_in metro g2"
    using l ran_bus_map [of ?B] ran_metro_map [of ?M] unfolding stops_in_def by fastforce+
  from run_query_rows [OF s(3) [unfolded loadBusLineEdges_def]] obtain lr where lr: "?LB = good_rows lr"
    "scan_rows ''scan bus_line_stops: '' (line_row_step HWBusRoute transitBusSpeedKmH busLineLabel bus) lr (line_start g2) = Inr lb" by blast
  have ne: "lr_line r \<noteq> -1" if "r \<in> set ?LB \<union> set ?LM" for r
  proof -
    have "0 < lr_line r" using ok' that by blast
    then show ?thesis by simp
  qed
  have lines: "\<forall>r\<in>set (good_rows lr). lr_line r \<noteq> -1" "\<forall>r\<in>set ?LM. lr_line r \<noteq> -1"
    using ne unfolding lr(1) by blast+
  have L: "load_ok (ln_graph lb)" "dom (Nodes (ln_graph lb)) = dom (Nodes g2)" "length (namePool (ln_graph lb)) \<le> 1 + length ?LB"
      "arcs (ln_graph lb) u = arcs_from u (map (ride_arc HWBusRoute transitBusSpeedKmH) (filter ride_long (hops busLineLabel bus ?LB)))" for u
    using scan_lines [OF lr(2) g2(1) in2(1) lines(1), of u] g2(2,3) ok' unfolding lr(1) by simp_all
  from run_query_rows [OF s(4) [unfolded loadMetroLineEdges_def]] obtain mr where mr: "?LM = good_rows mr"
    "scan_rows ''scan metro_line_stations: '' (line_row_step HWSubway transitMetroSpeedKmH metroLineLabel metro) mr (line_start (ln_graph lb)) = Inr lm" by blast
  have in3: "stops_in metro (ln_graph lb)" using in2(2) L(2) by (simp add: stops_in_def)
  have K: "load_ok (ln_graph lm)" "dom (Nodes (ln_graph lm)) = dom (Nodes g2)"
      "length (namePool (ln_graph lm)) \<le> 1 + length ?LB + length ?LM"
      "arcs (ln_graph lm) u = arcs (ln_graph lb) u @ arcs_from u (map (ride_arc HWSubway transitMetroSpeedKmH) (filter ride_long (hops metroLineLabel metro ?LM)))" for u
    using scan_lines [OF mr(2) L(1) in3 lines(2) [unfolded mr(1)], of u] ok' L(2,3) unfolding mr(1) by simp_all
  have room: "length (namePool (ln_graph lm)) + 1 < 2 ^ 32" using K(3) ok' by linarith
  note label = transfer_label [OF K(1) room]
  have all: "set (order bus @ order metro) = ran bus \<union> ran metro" using assms(3,4) l(1,2) by simp
  have ids: "\<forall>x\<in>set (order bus @ order metro). ts_id x \<in> dom (Nodes (snd (InternName (ln_graph lm) ''transfer'')))"
    using in2 K(2) unfolding all stops_in_def by auto
  have t: "transfer_pairs (fst (InternName (ln_graph lm) ''transfer'')) (order bus @ order metro)
      (snd (InternName (ln_graph lm) ''transfer''), 0) = (g, n)"
    using s(5) by (simp add: buildTransferEdges_def split_beta)
  note T = transfer_pairs_load [OF label ids t]
  have "arcs (snd (InternName (ln_graph lm) ''transfer'')) = arcs (ln_graph lm)" using InternName_load(2) [OF K(1) room] .
  with T [of u] K(4) [of u] L(4) [of u] all have "set (arcs g u) = {a. (u, a) \<in> transit_network db}"
    using l(1,2) by (auto simp: transit_network_def Let_def set_arcs_from)
  moreover have "graph_ok g" using T load_ok_graph by (auto simp: transfer_ready_def)
  moreover have "dom (Nodes g) = dom (Nodes g2)" using T K(2) by simp
  ultimately show ?thesis using l(4) by simp
qed

text \<open>
  C19. The public-transport graph is the network of its tables: when it is built (even when it
  is then reported as empty) it satisfies the graph invariant, its nodes are the stops and,
  offset, the stations, and the edges out of a node are exactly the rides to the next stop of
  a line (20 km/h by bus, 40 km/h by metro, a fifth longer than the straight line, none
  shorter than ten metres), carrying the line's name, and the walks between two stops of one
  city five to three hundred metres apart, both ways, whatever the order in which Go walks
  through the maps of stops.
\<close>

theorem LoadTransitGraph_network:
  assumes load: "LoadTransitGraph order (Some db) = (Some g, err)" and ok: "transit_db_ok db"
    and "set (order (bus_map (rows_of (td_bus_stops db)))) = ran (bus_map (rows_of (td_bus_stops db)))"
    and "set (order (metro_map (rows_of (td_metro_stations db)))) = ran (metro_map (rows_of (td_metro_stations db)))"
  shows "graph_ok g
    \<and> dom (Nodes g) = ts_id ` set (rows_of (td_bus_stops db)) \<union> (\<lambda>s. ts_id s + metroStationIDOffset) ` set (rows_of (td_metro_stations db))
    \<and> set (arcs g u) = {a. (u, a) \<in> transit_network db}"
  using assms by (rule transit_network_loaded)

text \<open>A line of two stops, a kilometre apart.\<close>

definition stop_at :: "int \<Rightarrow> float64 \<Rightarrow> transitStop" where
  "stop_at i lat = \<lparr>ts_id = i, ts_osm = i, ts_lat = lat, ts_lng = 0, ts_city = ''tehran'', ts_name = []\<rparr>"

definition example_transit :: transit_db where
  "example_transit =
     \<lparr>td_bus_stops = Inr ([Inr (stop_at 1 0), Inr (stop_at 2 (9 / 1000))], None),
      td_metro_stations = Inr ([], None),
      td_bus_lines = Inr ([Inr \<lparr>lr_line = 5, lr_stop = 1, lr_ref = ''8'', lr_name = []\<rparr>,
                           Inr \<lparr>lr_line = 5, lr_stop = 2, lr_ref = ''8'', lr_name = []\<rparr>], None),
      td_metro_lines = Inr ([], None)\<rparr>"

definition example_order :: "stop_map \<Rightarrow> transitStop list" where
  "example_order m = List.map_filter m [2, 1]"

lemma example_transit_ok: "transit_db_ok example_transit"
  by (simp add: transit_db_ok_def example_transit_def rows_of_def stop_at_def metroStationIDOffset_def)

lemma example_transit_load: "\<exists>g err. LoadTransitGraph example_order (Some example_transit) = (Some g, err)"
  by (simp add: LoadTransitGraph_def example_transit_def loadBusStops_def loadMetroStations_def run_query_def
        bus_stop_row_apply loadBusLineEdges_def loadMetroLineEdges_def line_row_step_def line_start_def stop_at_def Let_def split_beta)

theorem LoadTransitGraph_network_witness:
  "\<exists>g err. LoadTransitGraph example_order (Some example_transit) = (Some g, err) \<and> graph_ok g \<and> dom (Nodes g) = {1, 2}
     \<and> set (arcs g 1) = {a. (1, a) \<in> transit_network example_transit}"
proof -
  obtain g err where g: "LoadTransitGraph example_order (Some example_transit) = (Some g, err)"
    using example_transit_load by blast
  have rows: "rows_of (td_bus_stops example_transit) = [stop_at 1 0, stop_at 2 (9 / 1000)]"
    "rows_of (td_metro_stations example_transit) = []"
    by (simp_all add: example_transit_def rows_of_def)
  have orders: "set (example_order (bus_map (rows_of (td_bus_stops example_transit)))) = ran (bus_map (rows_of (td_bus_stops example_transit)))"
    "set (example_order (metro_map (rows_of (td_metro_stations example_transit)))) = ran (metro_map (rows_of (td_metro_stations example_transit)))"
    unfolding rows by (simp_all add: example_order_def bus_map_def metro_map_def stop_at_def List.map_filter_simps insert_commute)
  from LoadTransitGraph_network [OF g example_transit_ok orders, of 1] g show ?thesis
    unfolding rows by (auto simp: stop_at_def)
qed

section \<open>The engine\<close>

record postgres =
  pg_segments :: segment_db
  pg_transit :: transit_db

text \<open>
  Failing to load the railways or the public transport leaves the engine without that graph;
  failing to load the roads fails.
\<close>

definition newRoutingEngine ::
  "(stop_map \<Rightarrow> transitStop list) \<Rightarrow> float64 \<Rightarrow> string list \<Rightarrow> int \<Rightarrow> postgres option \<Rightarrow> string + Engine" where
  "newRoutingEngine order avgSpeed regions spurCap pg =
     (case pg of
        None \<Rightarrow> Inl ''POSTGRES_DSN is required: PostGIS road graph unavailable''
      | Some p \<Rightarrow>
          (case LoadRoadGraphRegions (Some (pg_segments p)) regions of
             Inl e \<Rightarrow> Inl e
           | Inr roadGraph \<Rightarrow>
               let engine = NewEngineWithGraph avgSpeed (Some roadGraph) spurCap;
                   engine = (case LoadRailGraph (Some (pg_segments p)) of
                               Inl e \<Rightarrow> engine | Inr railGraph \<Rightarrow> SetRailGraph engine (Some railGraph));
                   engine = (case LoadTransitGraph order (Some (pg_transit p)) of
                               (g, Some e) \<Rightarrow> engine | (g, None) \<Rightarrow> SetTransitGraph engine g)
               in Inr engine))"

definition shouldLoadInternalGraphAtStartup :: "bool \<Rightarrow> bool \<Rightarrow> string \<Rightarrow> bool" where
  "shouldLoadInternalGraphAtStartup graphEnabled lazyLoad routingBackend =
     (if \<not> graphEnabled then False
      else if ToLower routingBackend = ''osrm'' then False
      else \<not> lazyLoad)"

lemma LoadRailGraph_loaded:
  assumes "LoadRailGraph (Some db) = Inr g" "length (table_segments db ''rail_segments'') + 1 < 2 ^ 32"
  shows "load_ok g" "arcs g = (\<lambda>u. concat (map (segment_arcs 80 (\<lambda>_. FlagTrain) u) (table_segments db ''rail_segments'')))"
proof -
  from assms(1) obtain st where st: "run_query ''load rail_segments: '' ''scan rail segment: '' ''iterate rail_segments: ''
      rail_row (where_positive (db ''rail_segments'')) load_start = Inr st" "g = lg_graph st"
    by (auto simp: LoadRailGraph_def split: sum.splits if_splits)
  have "loaded 80 (\<lambda>_. FlagTrain) ([] @ table_segments db ''rail_segments'') st"
    using st(1) assms(2) unfolding rail_row_def by (intro run_query_loaded [OF _ loaded_start]) simp_all
  then show "load_ok g" "arcs g = (\<lambda>u. concat (map (segment_arcs 80 (\<lambda>_. FlagTrain) u) (table_segments db ''rail_segments'')))"
    using st(2) by (simp_all add: loaded_def)
qed

section \<open>When a graph is there\<close>

text \<open>The query ran to its end and every row could be read.\<close>

definition delivered :: "'r query_result \<Rightarrow> bool" where
  "delivered q \<longleftrightarrow> (case q of Inl _ \<Rightarrow> False | Inr (rows, err) \<Rightarrow> err = None \<and> (\<forall>r\<in>set rows. \<not> isl r))"

lemma scan_rows_delivered: "(\<exists>st'. scan_rows what f rows st = Inr st') \<longleftrightarrow> (\<forall>r\<in>set rows. \<not> isl r)"
proof (induction rows arbitrary: st)
  case (Cons x rows)
  then show ?case by (cases x) simp_all
qed simp

lemma run_query_delivered: "(\<exists>st'. run_query lo sc it f q st = Inr st') \<longleftrightarrow> delivered q"
proof (cases q)
  case (Inr q')
  obtain rows err where q': "q' = (rows, err)" by (cases q')
  show ?thesis
  proof (cases "scan_rows sc f rows st")
    case (Inl e)
    then have "\<not> (\<forall>r\<in>set rows. \<not> isl r)" using scan_rows_delivered [of sc f rows st] by simp
    then show ?thesis by (simp add: run_query_def delivered_def Inr q' Inl)
  next
    case (Inr st')
    then have "\<forall>r\<in>set rows. \<not> isl r" using scan_rows_delivered [of sc f rows st] by simp
    then show ?thesis using Inr by (auto simp: run_query_def delivered_def \<open>q = Inr q'\<close> q' split: option.splits)
  qed
qed (simp add: run_query_def delivered_def)

lemma LoadRailGraph_installed:
  assumes "length (table_segments db ''rail_segments'') + 1 < 2 ^ 32"
  shows "(\<exists>g. LoadRailGraph (Some db) = Inr g) \<longleftrightarrow>
    delivered (where_positive (db ''rail_segments'')) \<and> table_segments db ''rail_segments'' \<noteq> []"
proof (cases "run_query ''load rail_segments: '' ''scan rail segment: '' ''iterate rail_segments: ''
      rail_row (where_positive (db ''rail_segments'')) load_start")
  case (Inl e)
  then have "\<not> delivered (where_positive (db ''rail_segments''))"
    using run_query_delivered [of "''load rail_segments: ''" "''scan rail segment: ''" "''iterate rail_segments: ''"
        rail_row "where_positive (db ''rail_segments'')" load_start] by simp
  then show ?thesis by (simp add: LoadRailGraph_def Inl)
next
  case (Inr st)
  then have "delivered (where_positive (db ''rail_segments''))"
    using run_query_delivered [of "''load rail_segments: ''" "''scan rail segment: ''" "''iterate rail_segments: ''"
        rail_row "where_positive (db ''rail_segments'')" load_start] by simp
  moreover have "loaded 80 (\<lambda>_. FlagTrain) ([] @ table_segments db ''rail_segments'') st"
    using Inr assms unfolding rail_row_def by (intro run_query_loaded [OF _ loaded_start]) simp_all
  then have "lg_count st = 0 \<longleftrightarrow> table_segments db ''rail_segments'' = []" by (auto simp: loaded_def)
  ultimately show ?thesis by (simp add: LoadRailGraph_def Inr)
qed

text \<open>The counter of a line table counts its hops.\<close>

lemma line_count_prev:
  assumes "scan_rows what (line_row_step kind speed lab stops) rs st = Inr st'" "ln_prev st = Some p"
  shows "ln_edges st' = ln_edges st + length (hops_from lab (ln_curLine st, p) (ln_label st) (known_stops stops (good_rows rs)))"
  using assms
proof (induction rs arbitrary: st p)
  case (Cons x rs)
  then obtain r where x: "x = Inr r" by (cases x) auto
  let ?st1 = "line_row_step kind speed lab stops r st"
  have step: "scan_rows what (line_row_step kind speed lab stops) rs ?st1 = Inr st'" using Cons.prems(1) x by simp
  show ?case
  proof (cases "stops (lr_stop r)")
    case None
    then have "?st1 = st" by (simp add: line_row_step_def)
    with Cons.IH [of st p] step Cons.prems(2) None show ?thesis by (simp add: x)
  next
    case (Some s)
    then have "ln_prev ?st1 = Some s" by (simp add: line_row_step_def Let_def)
    from Cons.IH [OF step this] Cons.prems(2) Some show ?thesis by (auto simp: x line_row_step_def Let_def)
  qed
qed simp

lemma line_count:
  assumes "scan_rows what (line_row_step kind speed lab stops) rs (line_start g) = Inr st'" "\<forall>r\<in>set (good_rows rs). lr_line r \<noteq> -1"
  shows "ln_edges st' = length (hops lab stops (good_rows rs))"
  using assms
proof (induction rs)
  case (Cons x rs)
  then obtain r where x: "x = Inr r" by (cases x) auto
  let ?st1 = "line_row_step kind speed lab stops r (line_start g)"
  have step: "scan_rows what (line_row_step kind speed lab stops) rs ?st1 = Inr st'" using Cons.prems(1) x by simp
  show ?case
  proof (cases "stops (lr_stop r)")
    case None
    then have "?st1 = line_start g" by (simp add: line_row_step_def)
    with Cons.IH step Cons.prems(2) None show ?thesis by (simp add: x hops_def)
  next
    case (Some s)
    then have st1: "?st1 = (line_start g)\<lparr>ln_curLine := lr_line r, ln_label := lab (lr_ref r) (lr_name r), ln_prev := Some s\<rparr>"
      using Cons.prems(2) by (simp add: line_row_step_def Let_def line_start_def x)
    then have "ln_prev ?st1 = Some s" by simp
    from line_count_prev [OF step this] show ?thesis by (simp add: x Some hops_def st1) (simp add: line_start_def)
  qed
qed (auto simp: hops_def line_start_def)

text \<open>The lines of the tables have a hop, a pair of neighbouring known stops.\<close>

definition some_hop :: "transit_db \<Rightarrow> bool" where
  "some_hop db \<longleftrightarrow> hops busLineLabel (bus_map (rows_of (td_bus_stops db))) (rows_of (td_bus_lines db)) \<noteq> []
     \<or> hops metroLineLabel (metro_map (rows_of (td_metro_stations db))) (rows_of (td_metro_lines db)) \<noteq> []"

definition transit_delivered :: "transit_db \<Rightarrow> bool" where
  "transit_delivered db \<longleftrightarrow> delivered (td_bus_stops db) \<and> delivered (td_metro_stations db)
     \<and> delivered (td_bus_lines db) \<and> delivered (td_metro_lines db)"

lemma no_stops_no_hops: "hops lab Map.empty rs = []"
proof -
  have "known_stops Map.empty rs = []" by (induction rs) simp_all
  then show ?thesis by (simp add: hops_def)
qed

lemma some_hop_stops: "some_hop db \<Longrightarrow> rows_of (td_bus_stops db) \<noteq> [] \<or> rows_of (td_metro_stations db) \<noteq> []"
  by (auto simp: some_hop_def bus_map_def metro_map_def no_stops_no_hops)

lemma transit_hops_counted:
  assumes ok: "transit_db_ok db"
    and s: "loadBusStops (td_bus_stops db) NewGraph = Inr (g1, bus)" "loadMetroStations (td_metro_stations db) g1 = Inr (g2, metro)"
      "loadBusLineEdges (td_bus_lines db) g2 bus = Inr lb" "loadMetroLineEdges (td_metro_lines db) (ln_graph lb) metro = Inr lm"
  shows "some_hop db \<longleftrightarrow> ln_edges lb + ln_edges lm \<noteq> 0"
proof -
  note l = transit_stops_loaded [OF ok s(1,2)]
  have ne: "lr_line r \<noteq> -1" if "r \<in> set (rows_of (td_bus_lines db)) \<union> set (rows_of (td_metro_lines db))" for r
  proof -
    have "0 < lr_line r" using ok that unfolding transit_db_ok_def by blast
    then show ?thesis by simp
  qed
  from run_query_rows [OF s(3) [unfolded loadBusLineEdges_def]] ne
  have "ln_edges lb = length (hops busLineLabel bus (rows_of (td_bus_lines db)))" using line_count by fastforce
  moreover from run_query_rows [OF s(4) [unfolded loadMetroLineEdges_def]] ne
  have "ln_edges lm = length (hops metroLineLabel metro (rows_of (td_metro_lines db)))" using line_count by fastforce
  ultimately show ?thesis by (simp add: some_hop_def l(1,2))
qed

lemma LoadTransitGraph_installed:
  assumes ok: "transit_db_ok db"
    and orders: "set (order (bus_map (rows_of (td_bus_stops db)))) = ran (bus_map (rows_of (td_bus_stops db)))"
      "set (order (metro_map (rows_of (td_metro_stations db)))) = ran (metro_map (rows_of (td_metro_stations db)))"
  shows "(\<exists>g. LoadTransitGraph order (Some db) = (Some g, None)) \<longleftrightarrow> transit_delivered db \<and> some_hop db"
proof
  assume "\<exists>g. LoadTransitGraph order (Some db) = (Some g, None)"
  then obtain g where g: "LoadTransitGraph order (Some db) = (Some g, None)" by blast
  then obtain g1 bus g2 metro lb lm n where s:
    "loadBusStops (td_bus_stops db) NewGraph = Inr (g1, bus)" "loadMetroStations (td_metro_stations db) g1 = Inr (g2, metro)"
    "loadBusLineEdges (td_bus_lines db) g2 bus = Inr lb" "loadMetroLineEdges (td_metro_lines db) (ln_graph lb) metro = Inr lm"
    "buildTransferEdges (ln_graph lm) (order bus) (order metro) = (g, n)"
    using LoadTransitGraph_steps by metis
  have "transit_delivered db"
    using s(1-4) unfolding transit_delivered_def loadBusStops_def loadMetroStations_def loadBusLineEdges_def loadMetroLineEdges_def
    by (metis run_query_delivered)
  moreover have "ln_edges lb + ln_edges lm \<noteq> 0" using g s by (auto simp: LoadTransitGraph_def Let_def split: if_splits)
  then have "some_hop db" by (simp only: transit_hops_counted [OF ok s(1-4)] not_False_eq_True simp_thms)
  ultimately show "transit_delivered db \<and> some_hop db" by simp
next
  assume d: "transit_delivered db \<and> some_hop db"
  obtain g1 bus where s1: "loadBusStops (td_bus_stops db) NewGraph = Inr (g1, bus)"
    using d run_query_delivered unfolding transit_delivered_def loadBusStops_def by (metis prod.exhaust)
  obtain g2 metro where s2: "loadMetroStations (td_metro_stations db) g1 = Inr (g2, metro)"
    using d run_query_delivered unfolding transit_delivered_def loadMetroStations_def by (metis prod.exhaust)
  obtain lb where s3: "loadBusLineEdges (td_bus_lines db) g2 bus = Inr lb"
    using d run_query_delivered unfolding transit_delivered_def loadBusLineEdges_def by metis
  obtain lm where s4: "loadMetroLineEdges (td_metro_lines db) (ln_graph lb) metro = Inr lm"
    using d run_query_delivered unfolding transit_delivered_def loadMetroLineEdges_def by metis
  obtain g n where s5: "buildTransferEdges (ln_graph lm) (order bus) (order metro) = (g, n)" by fastforce
  have "\<exists>err. LoadTransitGraph order (Some db) = (Some g, err)"
    by (simp add: LoadTransitGraph_def s1 s2 s3 s4 s5)
  then obtain err where load: "LoadTransitGraph order (Some db) = (Some g, err)" ..
  have "dom (Nodes g) \<noteq> {}"
    using transit_network_loaded [OF load ok orders] some_hop_stops [of db] d by auto
  then have "Nodes g \<noteq> Map.empty" by auto
  moreover have "ln_edges lb + ln_edges lm \<noteq> 0" using transit_hops_counted [OF ok s1 s2 s3 s4] d by simp
  ultimately have "LoadTransitGraph order (Some db) = (Some g, None)"
    by (simp add: LoadTransitGraph_def s1 s2 s3 s4 s5)
  then show "\<exists>g. LoadTransitGraph order (Some db) = (Some g, None)" ..
qed

text \<open>
  C37. The engine that the server starts with has the graphs of the tables.  It always has a road
  graph, whose edges are exactly those of the rows of the road tables, so that cars pass where
  the rows let them.  It has a rail graph exactly if the rail table could be read to its end
  and holds a segment of positive length, and the edges of that graph are exactly those of
  its rows, for trains only.  It has a transit graph exactly if the four transit tables could
  be read and some line has two known stops in a row, and that graph is the network of the
  tables.  Each of them satisfies the graph invariant.
\<close>

theorem newRoutingEngine_graphs:
  assumes "newRoutingEngine order avgSpeed regions spurCap (Some pg) = Inr E" "roadGraphTables regions = Inr tables"
    and "length (concat (map (table_segments (pg_segments pg)) tables)) + 1 < 2 ^ 32"
    and "length (table_segments (pg_segments pg) ''rail_segments'') + 1 < 2 ^ 32"
    and "transit_db_ok (pg_transit pg)"
    and "set (order (bus_map (rows_of (td_bus_stops (pg_transit pg))))) = ran (bus_map (rows_of (td_bus_stops (pg_transit pg))))"
    and "set (order (metro_map (rows_of (td_metro_stations (pg_transit pg))))) = ran (metro_map (rows_of (td_metro_stations (pg_transit pg))))"
  shows "(\<exists>g. eng_graph E = Some g \<and> graph_ok g
        \<and> (\<forall>u. arcs g u = concat (map (segment_arcs 40 segment_flags u) (concat (map (table_segments (pg_segments pg)) tables))))
        \<and> (\<forall>u v. passable g FlagCar u v \<longleftrightarrow> way (concat (map (table_segments (pg_segments pg)) tables)) sg_car sg_bidirectional u v))
    \<and> (eng_railGraph E \<noteq> None \<longleftrightarrow>
        delivered (where_positive (pg_segments pg ''rail_segments'')) \<and> table_segments (pg_segments pg) ''rail_segments'' \<noteq> [])
    \<and> (\<forall>g. eng_railGraph E = Some g \<longrightarrow> graph_ok g \<and> (\<forall>u. \<forall>e\<in>set (Edges g u). e_Flags e = FlagTrain)
        \<and> (\<forall>u. arcs g u = concat (map (segment_arcs 80 (\<lambda>_. FlagTrain) u) (table_segments (pg_segments pg) ''rail_segments''))))
    \<and> (eng_transitGraph E \<noteq> None \<longleftrightarrow> transit_delivered (pg_transit pg) \<and> some_hop (pg_transit pg))
    \<and> (\<forall>g. eng_transitGraph E = Some g \<longrightarrow> graph_ok g \<and> (\<forall>u. set (arcs g u) = {a. (u, a) \<in> transit_network (pg_transit pg)}))"
proof -
  let ?db = "pg_segments pg"
  obtain road where road: "LoadRoadGraphRegions (Some ?db) regions = Inr road"
    using assms(1) by (auto simp: newRoutingEngine_def split: sum.splits)
  have E: "eng_graph E = Some road"
    "eng_railGraph E = (case LoadRailGraph (Some ?db) of Inl e \<Rightarrow> None | Inr g \<Rightarrow> Some g)"
    "eng_transitGraph E = (case LoadTransitGraph order (Some (pg_transit pg)) of (g, Some e) \<Rightarrow> None | (g, None) \<Rightarrow> g)"
    using assms(1) road by (auto simp: newRoutingEngine_def Let_def NewEngineWithGraph_def SetRailGraph_def SetTransitGraph_def
        split: sum.splits prod.splits option.splits)
  note r = LoadRoadGraphRegions_loaded [OF road assms(2,3)]
  have "passable road FlagCar u v \<longleftrightarrow> way (concat (map (table_segments ?db) tables)) sg_car sg_bidirectional u v" for u v
    using passable_segments [OF r(3)] by (auto simp: opens_def way_def)
  then have 1: "\<exists>g. eng_graph E = Some g \<and> graph_ok g
      \<and> (\<forall>u. arcs g u = concat (map (segment_arcs 40 segment_flags u) (concat (map (table_segments ?db) tables))))
      \<and> (\<forall>u v. passable g FlagCar u v \<longleftrightarrow> way (concat (map (table_segments ?db) tables)) sg_car sg_bidirectional u v)"
    using E(1) load_ok_graph [OF r(1)] fun_cong [OF r(3)] by blast
  have 2: "graph_ok g \<and> (\<forall>u. \<forall>e\<in>set (Edges g u). e_Flags e = FlagTrain)
      \<and> (\<forall>u. arcs g u = concat (map (segment_arcs 80 (\<lambda>_. FlagTrain) u) (table_segments ?db ''rail_segments'')))"
    if "eng_railGraph E = Some g" for g
  proof -
    have g: "LoadRailGraph (Some ?db) = Inr g" using that E(2) by (simp split: sum.splits)
    note l = LoadRailGraph_loaded [OF g assms(4)]
    have no_foot: "\<not> Has FlagTrain FlagFoot" by (simp add: Has_def flag_defs)
    have "a_Flags a = FlagTrain" if "a \<in> set (segment_arcs 80 (\<lambda>_. FlagTrain) u s)" for a u s
      using that no_foot by (auto simp: segment_arcs_def Let_def split: if_splits)
    then have "\<forall>a\<in>set (arcs g u). a_Flags a = FlagTrain" for u by (auto simp: l(2))
    then have "\<forall>e\<in>set (Edges g u). e_Flags e = FlagTrain" for u by (auto simp: arcs_def arc_of_def)
    then show ?thesis using load_ok_graph [OF l(1)] fun_cong [OF l(2)] by blast
  qed
  have 3: "graph_ok g \<and> (\<forall>u. set (arcs g u) = {a. (u, a) \<in> transit_network (pg_transit pg)})" if "eng_transitGraph E = Some g" for g
  proof -
    have "LoadTransitGraph order (Some (pg_transit pg)) = (Some g, None)"
      using that E(3) by (auto split: prod.splits option.splits)
    from transit_network_loaded [OF this assms(5-7)] show ?thesis by blast
  qed
  have 4: "eng_railGraph E \<noteq> None \<longleftrightarrow> delivered (where_positive (?db ''rail_segments'')) \<and> table_segments ?db ''rail_segments'' \<noteq> []"
    unfolding E(2) LoadRailGraph_installed [OF assms(4), symmetric] by (auto split: sum.split)
  have 5: "eng_transitGraph E \<noteq> None \<longleftrightarrow> transit_delivered (pg_transit pg) \<and> some_hop (pg_transit pg)"
    unfolding E(3) LoadTransitGraph_installed [OF assms(5-7), symmetric] by (auto split: prod.splits option.splits)
  from 1 2 3 4 5 show ?thesis by blast
qed

text \<open>The road of before, a railway from 7 to 8 and a bus line of two stops.\<close>

definition example_rail :: segment where
  "example_rail = example_row\<lparr>sg_fromID := 7, sg_toID := 8, sg_type := ''rail'', sg_bidirectional := True\<rparr>"

definition example_pg :: postgres where
  "example_pg = \<lparr>pg_segments = example_db(''rail_segments'' := Inr ([Inr example_rail], None)), pg_transit = example_transit\<rparr>"

lemma example_pg_segments:
  "concat (map (table_segments (pg_segments example_pg)) [''road_segments_tehran'']) = [example_row]"
  "table_segments (pg_segments example_pg) ''rail_segments'' = [example_rail]"
  by (simp_all add: example_pg_def table_segments_def where_positive_def example_db_def) (simp_all add: example_rail_def example_row_def)

lemma example_pg_load: "\<exists>g. LoadRoadGraphRegions (Some (pg_segments example_pg)) ['' Tehran''] = Inr g"
proof -
  have "lg_count (road_row example_row load_start) \<noteq> 0"
    by (simp add: road_row_def add_segment_def Let_def split_beta addRoadGraphEdges_def)
  then show ?thesis
    by (simp add: LoadRoadGraphRegions_def example_tables loadRoadGraphTable_def run_query_def where_positive_def example_pg_def example_db_def)
      (simp add: example_row_def)
qed

lemma example_hop: "some_hop example_transit"
  by (simp add: some_hop_def example_transit_def rows_of_def bus_map_def stop_at_def hops_def)

theorem newRoutingEngine_graphs_witness:
  "\<exists>E g r. newRoutingEngine example_order 40 ['' Tehran''] 60 (Some example_pg) = Inr E
     \<and> eng_graph E = Some g \<and> passable g FlagCar 1 2 \<and> \<not> passable g FlagCar 2 1
     \<and> eng_railGraph E = Some r \<and> arcs r 8 = segment_arcs 80 (\<lambda>_. FlagTrain) 8 example_rail \<and> arcs r 8 \<noteq> []
     \<and> eng_transitGraph E \<noteq> None"
proof -
  obtain E where E: "newRoutingEngine example_order 40 ['' Tehran''] 60 (Some example_pg) = Inr E"
    using example_pg_load by (auto simp: newRoutingEngine_def Let_def)
  have small: "length (concat (map (table_segments (pg_segments example_pg)) [''road_segments_tehran''])) + 1 < 2 ^ 32"
    unfolding example_pg_segments by simp
  have rail: "length (table_segments (pg_segments example_pg) ''rail_segments'') + 1 < 2 ^ 32"
    unfolding example_pg_segments by simp
  have tr: "pg_transit example_pg = example_transit" by (simp add: example_pg_def)
  have ok: "transit_db_ok (pg_transit example_pg)" using example_transit_ok by (simp add: tr)
  have orders:
    "set (example_order (bus_map (rows_of (td_bus_stops (pg_transit example_pg))))) = ran (bus_map (rows_of (td_bus_stops (pg_transit example_pg))))"
    "set (example_order (metro_map (rows_of (td_metro_stations (pg_transit example_pg))))) = ran (metro_map (rows_of (td_metro_stations (pg_transit example_pg))))"
    by (simp_all add: example_pg_def example_transit_def rows_of_def example_order_def bus_map_def metro_map_def stop_at_def
        List.map_filter_simps insert_commute)
  note graphs = newRoutingEngine_graphs [OF E example_tables small rail ok orders]
  from graphs obtain g where
    g: "eng_graph E = Some g" "\<forall>u v. passable g FlagCar u v \<longleftrightarrow>
      way (concat (map (table_segments (pg_segments example_pg)) [''road_segments_tehran''])) sg_car sg_bidirectional u v" by blast
  have way: "passable g FlagCar 1 2" "\<not> passable g FlagCar 2 1"
    using g(2) unfolding example_pg_segments by (simp_all add: way_def example_row_def)
  have "delivered (where_positive (pg_segments example_pg ''rail_segments''))"
    by (simp add: delivered_def where_positive_def example_pg_def)
  moreover have "table_segments (pg_segments example_pg) ''rail_segments'' \<noteq> []" by (simp add: example_pg_segments(2))
  ultimately obtain r where r: "eng_railGraph E = Some r" using graphs by auto
  have "arcs r 8 = concat (map (segment_arcs 80 (\<lambda>_. FlagTrain) 8) (table_segments (pg_segments example_pg) ''rail_segments''))"
    using graphs r by blast
  then have arcs: "arcs r 8 = segment_arcs 80 (\<lambda>_. FlagTrain) 8 example_rail" unfolding example_pg_segments(2) by simp
  then have backward: "arcs r 8 \<noteq> []" by (simp add: segment_arcs_def example_rail_def Let_def)
  have "transit_delivered (pg_transit example_pg)"
    by (simp add: transit_delivered_def delivered_def example_pg_def example_transit_def)
  then have "eng_transitGraph E \<noteq> None" using graphs example_hop unfolding tr by blast
  with E g(1) way r arcs backward show ?thesis by blast
qed

end
