(* ===== verification/OsmImport.thy ===== *)
theory OsmImport
  imports GraphLoader
begin

text \<open>
  \<open>cmd/osm2postgis/main.go\<close>: OpenStreetMap ways become rows of the road segment tables.  A way
  is classified by its tags (road class, direction, speed, access), cut into the segments
  between neighbouring nodes, and written in batches through a staging table.  Decoding XML or
  PBF is a parameter: its result is the list of nodes and ways.  A tag set is a map; reading a
  missing tag gives the empty text.  What the database answers to each batch is a parameter.
\<close>

type_synonym tag_map = "string \<Rightarrow> string option"

definition tag :: "tag_map \<Rightarrow> string \<Rightarrow> string" where
  "tag tags k = (case tags k of None \<Rightarrow> [] | Some v \<Rightarrow> v)"

definition tagsMap :: "(string \<times> string) list \<Rightarrow> tag_map" where
  "tagsMap tags = foldl (\<lambda>m (k, v). m(k \<mapsto> v)) Map.empty tags"

section \<open>Numbers in tags\<close>

text \<open>The regular expression \<open>^\s*([0-9]+(?:\.[0-9]+)?)\<close> and what \<open>ParseFloat\<close> makes of its group.\<close>

definition re_space :: "char \<Rightarrow> bool" where
  "re_space c \<longleftrightarrow> c \<in> {CHR '' '', CHR 0x09, CHR 0x0A, CHR 0x0C, CHR 0x0D}"

definition leadingNumber :: "string \<Rightarrow> (string \<times> string) option" where
  "leadingNumber s =
     (let s = dropWhile re_space s; ds = takeWhile is_digit s; r = dropWhile is_digit s in
      if ds = [] then None
      else case r of
             c # t \<Rightarrow> if c = CHR ''.'' then Some (ds, takeWhile is_digit t) else Some (ds, [])
           | [] \<Rightarrow> Some (ds, []))"

definition ParseFloat :: "string \<times> string \<Rightarrow> float64 option" where
  "ParseFloat n =
     (case n of (ds, fs) \<Rightarrow>
        let v = of_nat (text_nat ds) + of_nat (text_nat fs) / 10 ^ length fs in
        if v \<ge> 2 ^ 1024 - 2 ^ 970 then None else Some v)"

definition maxspeed :: "tag_map \<Rightarrow> float64 option" where
  "maxspeed tags =
     (case tags ''maxspeed'' of
        None \<Rightarrow> None
      | Some ms \<Rightarrow>
          (case leadingNumber ms of
             None \<Rightarrow> None
           | Some n \<Rightarrow> (case ParseFloat n of None \<Rightarrow> None | Some v \<Rightarrow> if v > 0 then Some v else None)))"

section \<open>Classifying a way\<close>

definition highwaySpeed :: "(string \<times> float64) list" where
  "highwaySpeed =
    [(''motorway'', 110), (''motorway_link'', 80), (''trunk'', 90), (''trunk_link'', 70),
     (''primary'', 80), (''primary_link'', 60), (''secondary'', 60), (''secondary_link'', 50),
     (''tertiary'', 50), (''tertiary_link'', 40), (''unclassified'', 40), (''residential'', 30),
     (''living_street'', 20), (''service'', 20), (''track'', 15), (''pedestrian'', 5),
     (''footway'', 5), (''path'', 5), (''steps'', 3), (''corridor'', 5), (''platform'', 5),
     (''sidewalk'', 5), (''crossing'', 5)]"

definition routable :: "string \<Rightarrow> bool" where
  "routable highway \<longleftrightarrow> map_of highwaySpeed highway \<noteq> None"

definition isOneway :: "tag_map \<Rightarrow> bool" where
  "isOneway tags =
     (let oneway = ToLower (TrimSpace (tag tags ''oneway'')) in
      oneway = ''yes'' \<or> oneway = ''1'' \<or> oneway = ''true'' \<or> tag tags ''junction'' = ''roundabout'')"

definition reverseIDs :: "node_id list \<Rightarrow> node_id list" where
  "reverseIDs ids = rev ids"

definition speedForWay :: "tag_map \<Rightarrow> string \<Rightarrow> float64" where
  "speedForWay tags highway =
     (case maxspeed tags of
        Some v \<Rightarrow> v
      | None \<Rightarrow> (case map_of highwaySpeed highway of Some s \<Rightarrow> s | None \<Rightarrow> 40))"

record access =
  ac_car :: bool
  ac_motorcycle :: bool
  ac_bus :: bool
  ac_foot :: bool

definition isNo :: "string \<Rightarrow> bool" where
  "isNo v \<longleftrightarrow> ToLower (TrimSpace v) \<in> {''no'', ''private'', ''customers''}"

definition isYes :: "string \<Rightarrow> bool" where
  "isYes v \<longleftrightarrow> ToLower (TrimSpace v) \<in> {''yes'', ''designated'', ''permissive'', ''destination''}"

definition pedestrianOnly :: "string \<Rightarrow> bool" where
  "pedestrianOnly highway \<longleftrightarrow> highway \<in> {''footway'', ''pedestrian'', ''path'', ''steps'', ''corridor'',
     ''platform'', ''sidewalk'', ''crossing''}"

definition accessForWay :: "tag_map \<Rightarrow> string \<Rightarrow> access" where
  "accessForWay tags highway =
     (let f = \<lparr>ac_car = \<not> pedestrianOnly highway, ac_motorcycle = \<not> pedestrianOnly highway,
               ac_bus = highway \<in> {''motorway'', ''motorway_link'', ''trunk'', ''trunk_link'', ''primary'', ''primary_link'',
                 ''secondary'', ''secondary_link'', ''tertiary'', ''tertiary_link'', ''unclassified'', ''residential'',
                 ''living_street'', ''service''},
               ac_foot = highway \<notin> {''motorway'', ''motorway_link'', ''trunk'', ''trunk_link''}\<rparr>;
          f = (if isNo (tag tags ''access'') then \<lparr>ac_car = False, ac_motorcycle = False, ac_bus = False, ac_foot = False\<rparr> else f);
          f = (if isNo (tag tags ''vehicle'') then f\<lparr>ac_car := False, ac_motorcycle := False, ac_bus := False\<rparr> else f);
          f = (if isNo (tag tags ''motor_vehicle'') then f\<lparr>ac_car := False, ac_motorcycle := False, ac_bus := False\<rparr> else f);
          f = (if isYes (tag tags ''motor_vehicle'') then f\<lparr>ac_car := True, ac_motorcycle := True\<rparr> else f);
          f = (if isNo (tag tags ''motorcar'') then f\<lparr>ac_car := False\<rparr> else f);
          f = (if isNo (tag tags ''motorcycle'') then f\<lparr>ac_motorcycle := False\<rparr> else f);
          f = (if isNo (tag tags ''bus'') then f\<lparr>ac_bus := False\<rparr> else f);
          f = (if isYes (tag tags ''bus'') then f\<lparr>ac_bus := True\<rparr> else f);
          f = (if isNo (tag tags ''foot'') \<or> isNo (tag tags ''sidewalk'') then f\<lparr>ac_foot := False\<rparr> else f);
          f = (if isYes (tag tags ''foot'') \<or> isYes (tag tags ''sidewalk'') then f\<lparr>ac_foot := True\<rparr> else f)
      in f)"

record wayCandidate =
  wc_id :: int
  wc_refs :: "node_id list"
  wc_highway :: string
  wc_name :: string
  wc_speedKmH :: float64
  wc_bidirectional :: bool
  wc_access :: access

definition candidateFromWay :: "int \<Rightarrow> node_id list \<Rightarrow> tag_map \<Rightarrow> wayCandidate option" where
  "candidateFromWay wid refs tags =
     (let highway = tag tags ''highway'' in
      if \<not> routable highway \<or> length refs < 2 then None
      else let (bidirectional, refs) =
                 (if isOneway tags then (False, refs)
                  else if TrimSpace (tag tags ''oneway'') = ''-1'' then (False, reverseIDs refs)
                  else (True, refs));
               a = accessForWay tags highway
           in if \<not> ac_car a \<and> \<not> ac_motorcycle a \<and> \<not> ac_bus a \<and> \<not> ac_foot a then None
              else Some \<lparr>wc_id = wid, wc_refs = refs, wc_highway = highway, wc_name = tag tags ''name'',
                         wc_speedKmH = speedForWay tags highway, wc_bidirectional = bidirectional, wc_access = a\<rparr>)"

definition railwaySpeed :: "(string \<times> float64) list" where
  "railwaySpeed = [(''rail'', 120), (''subway'', 60), (''light_rail'', 50), (''narrow_gauge'', 40), (''tram'', 30), (''monorail'', 60)]"

record railCandidate =
  rc_id :: int
  rc_refs :: "node_id list"
  rc_railway :: string
  rc_name :: string
  rc_speedKmH :: float64
  rc_bidirectional :: bool

definition railCandidateFromWay :: "int \<Rightarrow> node_id list \<Rightarrow> tag_map \<Rightarrow> railCandidate option" where
  "railCandidateFromWay wid refs tags =
     (let railway = tag tags ''railway'' in
      case map_of railwaySpeed railway of
        None \<Rightarrow> None
      | Some dflt \<Rightarrow>
          if length refs < 2 then None
          else let (bidirectional, refs) =
                     (if TrimSpace (tag tags ''oneway'') = ''-1'' then (False, reverseIDs refs)
                      else if isOneway tags then (False, refs)
                      else (True, refs));
                   name = (if tag tags ''name'' = [] then tag tags ''ref'' else tag tags ''name'')
               in Some \<lparr>rc_id = wid, rc_refs = refs, rc_railway = railway, rc_name = name,
                        rc_speedKmH = (case maxspeed tags of Some v \<Rightarrow> v | None \<Rightarrow> dflt), rc_bidirectional = bidirectional\<rparr>)"

section \<open>Cutting ways into segments\<close>

record geoPoint =
  gp_Lat :: float64
  gp_Lon :: float64

record roadSegment = segment +
  sg_osmWayID :: int

record stageRow = roadSegment +
  sg_geomWKT :: string
  sg_importRegion :: string

definition osm_haversine :: "float64 \<Rightarrow> float64 \<Rightarrow> float64 \<Rightarrow> float64 \<Rightarrow> float64" where
  "osm_haversine lat1 lng1 lat2 lng2 =
     (let dLat = (lat2 - lat1) * pi / 180;
          dLng = (lng2 - lng1) * pi / 180;
          a = sin (dLat / 2) * sin (dLat / 2)
              + cos (lat1 * pi / 180) * cos (lat2 * pi / 180) * sin (dLng / 2) * sin (dLng / 2)
      in 6371 * 2 * math_Atan2 (sqrt a) (sqrt (1 - a)))"

definition roundF :: "float64 \<Rightarrow> nat \<Rightarrow> float64" where
  "roundF v prec = (let p = 10 ^ prec in of_int (math_Round (v * p)) / p)"

definition inBBox :: "float64 \<Rightarrow> float64 \<Rightarrow> float64 \<times> float64 \<times> float64 \<times> float64 \<Rightarrow> bool" where
  "inBBox lat lng b = (case b of (b0, b1, b2, b3) \<Rightarrow> lat \<ge> b0 \<and> lng \<ge> b1 \<and> lat \<le> b2 \<and> lng \<le> b3)"

type_synonym node_points = "node_id \<Rightarrow> geoPoint option"

definition hop_segment :: "node_points \<Rightarrow> wayCandidate \<Rightarrow> node_id \<Rightarrow> node_id \<Rightarrow> roadSegment option" where
  "hop_segment nodeByID c fromID toID =
     (case (nodeByID fromID, nodeByID toID) of
        (Some p, Some q) \<Rightarrow>
          let d = osm_haversine (gp_Lat p) (gp_Lon p) (gp_Lat q) (gp_Lon q) in
          if d < 0.001 then None
          else Some \<lparr>sg_fromID = fromID, sg_toID = toID, sg_fromLat = gp_Lat p, sg_fromLng = gp_Lon p,
                     sg_toLat = gp_Lat q, sg_toLng = gp_Lon q, sg_distanceKm = roundF d 4, sg_speedKmH = wc_speedKmH c,
                     sg_type = wc_highway c, sg_name = wc_name c, sg_bidirectional = wc_bidirectional c,
                     sg_car = ac_car (wc_access c), sg_motorcycle = ac_motorcycle (wc_access c),
                     sg_bus = ac_bus (wc_access c), sg_foot = ac_foot (wc_access c), sg_osmWayID = wc_id c\<rparr>
      | _ \<Rightarrow> None)"

fun way_segments :: "node_points \<Rightarrow> wayCandidate \<Rightarrow> node_id list \<Rightarrow> roadSegment list" where
  "way_segments nodeByID c (u # v # refs) =
     (case hop_segment nodeByID c u v of None \<Rightarrow> [] | Some s \<Rightarrow> [s]) @ way_segments nodeByID c (v # refs)"
| "way_segments nodeByID c refs = []"

definition roadSegmentRow :: "string \<Rightarrow> roadSegment \<Rightarrow> stageRow" where
  "roadSegmentRow region s =
     roadSegment.extend s \<lparr>sg_geomWKT = ''SRID=4326;LINESTRING('' @ FormatFixed 7 (sg_fromLng s) @ '' '' @ FormatFixed 7 (sg_fromLat s)
        @ '','' @ FormatFixed 7 (sg_toLng s) @ '' '' @ FormatFixed 7 (sg_toLat s) @ '')'', sg_importRegion = region\<rparr>"

section \<open>Writing in batches\<close>

datatype flush_outcome =
    CopyError string
  | CopyCount nat
  | InsertError string
  | TruncateError string
  | FlushOk

record importer =
  im_rows :: "stageRow list"
  im_total :: nat
  im_stage :: "stageRow list"
  im_table :: "stageRow list"
  im_flushes :: nat

text \<open>
  \<open>CopyCount n\<close>: the copy reports \<open>n\<close> rows, another number than was sent.  The table takes
  what is in the staging table, which is emptied afterwards.
\<close>

definition Flush :: "(nat \<Rightarrow> flush_outcome) \<Rightarrow> importer \<Rightarrow> string option \<times> importer" where
  "Flush out im =
     (if im_rows im = [] then (None, im)
      else let im' = im\<lparr>im_flushes := im_flushes im + 1\<rparr>; staged = im_stage im @ im_rows im in
           case out (im_flushes im) of
             CopyError e \<Rightarrow> (Some (''copy stage: '' @ e), im')
           | CopyCount n \<Rightarrow>
               (Some (''copy stage: copied '' @ FormatInt (int n) @ '' rows, expected '' @ FormatInt (int (length (im_rows im)))),
                im'\<lparr>im_stage := im_stage im @ take n (im_rows im)\<rparr>)
           | InsertError e \<Rightarrow> (Some (''insert road segments: '' @ e), im'\<lparr>im_stage := staged\<rparr>)
           | TruncateError e \<Rightarrow>
               (Some (''truncate stage: '' @ e), im'\<lparr>im_stage := staged, im_table := im_table im @ staged\<rparr>)
           | FlushOk \<Rightarrow>
               (None, im'\<lparr>im_stage := [], im_table := im_table im @ staged,
                          im_total := im_total im + length (im_rows im), im_rows := []\<rparr>))"

definition importer_Add :: "(nat \<Rightarrow> flush_outcome) \<Rightarrow> int \<Rightarrow> string \<Rightarrow> roadSegment \<Rightarrow> importer \<Rightarrow> string option \<times> importer" where
  "importer_Add out batchSize region s im =
     (let im = im\<lparr>im_rows := im_rows im @ [roadSegmentRow region s]\<rparr> in
      if int (length (im_rows im)) < batchSize then (None, im) else Flush out im)"

definition newRoadSegmentImporter :: "stageRow list \<Rightarrow> importer" where
  "newRoadSegmentImporter table = \<lparr>im_rows = [], im_total = 0, im_stage = [], im_table = table, im_flushes = 0\<rparr>"

text \<open>The loops of \<open>importCandidateSegments\<close> over the segments of all ways, up to an error.\<close>

fun add_all :: "(nat \<Rightarrow> flush_outcome) \<Rightarrow> int \<Rightarrow> string \<Rightarrow> roadSegment list \<Rightarrow> importer \<Rightarrow> string option \<times> importer" where
  "add_all out batchSize region [] im = (None, im)"
| "add_all out batchSize region (s # ss) im =
     (case importer_Add out batchSize region s im of
        (Some e, im') \<Rightarrow> (Some e, im')
      | (None, im') \<Rightarrow> add_all out batchSize region ss im')"

definition candidate_segments :: "wayCandidate list \<Rightarrow> node_points \<Rightarrow> roadSegment list" where
  "candidate_segments cs nodeByID = concat (map (\<lambda>c. way_segments nodeByID c (wc_refs c)) cs)"

text \<open>The result: the number of rows counted, the error, if any, and the table.\<close>

definition importCandidateSegments ::
  "(nat \<Rightarrow> flush_outcome) \<Rightarrow> stageRow list \<Rightarrow> wayCandidate list \<Rightarrow> node_points \<Rightarrow> string \<Rightarrow> int \<Rightarrow> nat \<times> string option \<times> stageRow list" where
  "importCandidateSegments out table cs nodeByID region batchSize =
     (case add_all out batchSize region (candidate_segments cs nodeByID) (newRoadSegmentImporter table) of
        (Some e, im) \<Rightarrow> (im_total im, Some e, im_table im)
      | (None, im) \<Rightarrow> (case Flush out im of (e, im') \<Rightarrow> (im_total im', e, im_table im')))"

section \<open>The two file formats\<close>

record osmNode =
  on_ID :: node_id
  on_Lat :: float64
  on_Lon :: float64

record osmWay =
  ow_ID :: int
  ow_Refs :: "node_id list"
  ow_Tags :: "(string \<times> string) list"

type_synonym bbox = "(float64 \<times> float64 \<times> float64 \<times> float64) option"

definition in_box :: "bbox \<Rightarrow> osmNode \<Rightarrow> bool" where
  "in_box b n = (case b of None \<Rightarrow> True | Some box \<Rightarrow> inBBox (on_Lat n) (on_Lon n) box)"

definition node_map :: "(osmNode \<Rightarrow> bool) \<Rightarrow> osmNode list \<Rightarrow> node_points" where
  "node_map keep ns =
     foldl (\<lambda>m n. if keep n then m(on_ID n \<mapsto> \<lparr>gp_Lat = on_Lat n, gp_Lon = on_Lon n\<rparr>) else m) Map.empty ns"

definition importSegmentsXML ::
  "(nat \<Rightarrow> flush_outcome) \<Rightarrow> stageRow list \<Rightarrow> string + (osmNode list \<times> osmWay list) \<Rightarrow> bbox \<Rightarrow> string \<Rightarrow> int \<Rightarrow> nat \<times> string option \<times> stageRow list" where
  "importSegmentsXML out table document b region batchSize =
     (case document of
        Inl e \<Rightarrow> (0, Some e, table)
      | Inr (nodes, ways) \<Rightarrow>
          importCandidateSegments out table
            (List.map_filter (\<lambda>w. candidateFromWay (ow_ID w) (ow_Refs w) (tagsMap (ow_Tags w))) ways)
            (node_map (in_box b) nodes) region batchSize)"

text \<open>A PBF file is read twice, each time value by value; other values are ignored.\<close>

datatype pbf_value = PNode osmNode | PWay int "node_id list" tag_map | POther

fun pbf_candidates :: "pbf_value list \<Rightarrow> wayCandidate list" where
  "pbf_candidates [] = []"
| "pbf_candidates (PWay wid refs tags # vs) =
     (case candidateFromWay wid refs tags of None \<Rightarrow> pbf_candidates vs | Some c \<Rightarrow> c # pbf_candidates vs)"
| "pbf_candidates (PNode n # vs) = pbf_candidates vs"
| "pbf_candidates (POther # vs) = pbf_candidates vs"

definition requiredNodes :: "wayCandidate list \<Rightarrow> node_id set" where
  "requiredNodes cs = \<Union> (set ` wc_refs ` set cs)"

fun pbf_nodes :: "pbf_value list \<Rightarrow> osmNode list" where
  "pbf_nodes [] = []"
| "pbf_nodes (PNode n # vs) = n # pbf_nodes vs"
| "pbf_nodes (PWay wid refs tags # vs) = pbf_nodes vs"
| "pbf_nodes (POther # vs) = pbf_nodes vs"

definition importSegmentsPBF ::
  "(nat \<Rightarrow> flush_outcome) \<Rightarrow> stageRow list \<Rightarrow> string + pbf_value list \<Rightarrow> string + pbf_value list \<Rightarrow> bbox \<Rightarrow> string \<Rightarrow> int
   \<Rightarrow> nat \<times> string option \<times> stageRow list" where
  "importSegmentsPBF out table scan1 scan2 b region batchSize =
     (case scan1 of
        Inl e \<Rightarrow> (0, Some e, table)
      | Inr vs1 \<Rightarrow>
          let cs = pbf_candidates vs1; required = requiredNodes cs in
          case scan2 of
            Inl e \<Rightarrow> (0, Some e, table)
          | Inr vs2 \<Rightarrow>
              importCandidateSegments out table cs
                (node_map (\<lambda>n. on_ID n \<in> required \<and> in_box b n) (pbf_nodes vs2)) region batchSize)"

section \<open>Segments\<close>

lemma osm_haversine: "osm_haversine = Haversine"
  by (simp add: osm_haversine_def Haversine_def toRad_def earthRadiusKm_def Let_def fun_eq_iff)

lemma roundF_4_positive: "\<not> d < 0.001 \<Longrightarrow> 0 < roundF d 4"
proof -
  assume "\<not> d < 0.001"
  then have d: "10 \<le> d * 10 ^ 4" by simp
  then have "10 \<le> math_Round (d * 10 ^ 4)" by (simp add: math_Round_def le_floor_iff)
  then show ?thesis by (simp add: roundF_def)
qed

lemma hop_positive: "hop_segment m c u v = Some s \<Longrightarrow> 0 < sg_distanceKm s"
  using roundF_4_positive by (auto simp: hop_segment_def Let_def split: option.splits if_splits)

lemma way_segments_hops:
  "set (way_segments m c refs) = {s. \<exists>i. Suc i < length refs \<and> hop_segment m c (refs ! i) (refs ! Suc i) = Some s}"
proof (induction m c refs rule: way_segments.induct)
  case (1 m c u v refs)
  have "(\<exists>i. Suc i < length (u # v # refs) \<and> hop_segment m c ((u # v # refs) ! i) ((u # v # refs) ! Suc i) = Some s)
      \<longleftrightarrow> hop_segment m c u v = Some s \<or> (\<exists>i. Suc i < length (v # refs) \<and> hop_segment m c ((v # refs) ! i) ((v # refs) ! Suc i) = Some s)" for s
    by (metis (no_types, lifting) Suc_less_eq length_Cons nth_Cons_0 nth_Cons_Suc old.nat.exhaust zero_less_Suc)
  with 1 show ?case by (auto split: option.splits)
qed auto

section \<open>Batches are transparent\<close>

definition import_ok :: "stageRow list \<Rightarrow> stageRow list \<Rightarrow> importer \<Rightarrow> bool" where
  "import_ok table sent im \<longleftrightarrow> im_stage im = [] \<and> im_total im \<le> length sent
     \<and> im_table im = table @ take (im_total im) sent \<and> im_rows im = drop (im_total im) sent"

text \<open>How an import may leave the table: with a prefix of the rows, counted or not.\<close>

definition stopped_ok :: "stageRow list \<Rightarrow> stageRow list \<Rightarrow> importer \<Rightarrow> bool" where
  "stopped_ok table rows im \<longleftrightarrow> (\<exists>k\<ge>im_total im. k \<le> length rows \<and> im_table im = table @ take k rows)"

lemma import_ok_stopped: "import_ok table sent im \<Longrightarrow> stopped_ok table sent im"
  by (auto simp: import_ok_def stopped_ok_def)

lemma stopped_ok_append: "stopped_ok table sent im \<Longrightarrow> stopped_ok table (sent @ extra) im"
  unfolding stopped_ok_def by (metis diff_is_0_eq' append_Nil2 length_append take_append take0 trans_le_add1)

lemma stopped_all: "im_table im = table @ sent \<Longrightarrow> im_total im \<le> length sent \<Longrightarrow> stopped_ok table sent im"
  unfolding stopped_ok_def by (intro exI [of _ "length sent"]) simp

lemma stopped_counted:
  "im_table im = table @ take (im_total im) sent \<Longrightarrow> im_total im \<le> length sent \<Longrightarrow> stopped_ok table sent im"
  unfolding stopped_ok_def by (intro exI [of _ "im_total im"]) simp

lemma Flush_ok:
  assumes "import_ok table sent im" "Flush out im = (e, im')"
  shows "case e of None \<Rightarrow> import_ok table sent im' \<and> im_rows im' = [] | Some _ \<Rightarrow> stopped_ok table sent im'"
proof -
  have "take (im_total im) sent @ drop (im_total im) sent = sent" by simp
  then have all: "im_table im @ im_stage im @ im_rows im = table @ take (length sent) sent"
    using assms(1) by (simp add: import_ok_def)
  show ?thesis
    using assms all
    by (auto simp: Flush_def import_ok_def Let_def split: if_splits flush_outcome.splits)
      ((rule stopped_counted; simp; fail) | (rule stopped_all; simp; fail))+
qed

lemma importer_Add_ok:
  assumes "import_ok table sent im" "importer_Add out b region s im = (e, im')"
  shows "case e of None \<Rightarrow> import_ok table (sent @ [roadSegmentRow region s]) im'
    | Some _ \<Rightarrow> stopped_ok table (sent @ [roadSegmentRow region s]) im'"
proof -
  have "import_ok table (sent @ [roadSegmentRow region s]) (im\<lparr>im_rows := im_rows im @ [roadSegmentRow region s]\<rparr>)"
    using assms(1) by (simp add: import_ok_def)
  with assms(2) Flush_ok [of table "sent @ [roadSegmentRow region s]" "im\<lparr>im_rows := im_rows im @ [roadSegmentRow region s]\<rparr>" out e im']
  show ?thesis by (auto simp: importer_Add_def Let_def split: if_splits option.splits)
qed

lemma add_all_ok:
  assumes "import_ok table sent im" "add_all out b region ss im = (e, im')"
  shows "case e of None \<Rightarrow> import_ok table (sent @ map (roadSegmentRow region) ss) im'
    | Some _ \<Rightarrow> stopped_ok table (sent @ map (roadSegmentRow region) ss) im'"
  using assms
proof (induction ss arbitrary: sent im)
  case (Cons s ss)
  obtain e1 im1 where a: "importer_Add out b region s im = (e1, im1)" by fastforce
  note ok = importer_Add_ok [OF Cons.prems(1) a]
  show ?case
  proof (cases e1)
    case None
    with ok have "import_ok table (sent @ [roadSegmentRow region s]) im1" by simp
    from Cons.IH [OF this] Cons.prems(2) a None show ?thesis by (cases e) simp_all
  next
    case (Some x)
    with ok have "stopped_ok table (sent @ [roadSegmentRow region s]) im1" by simp
    from stopped_ok_append [OF this, of "map (roadSegmentRow region) ss"] Cons.prems(2) a Some show ?thesis by auto
  qed
qed auto

lemma import_batches:
  assumes "importCandidateSegments out table cs nodeByID region batchSize = (n, e, table')"
  shows "\<exists>k\<ge>n. k \<le> length (candidate_segments cs nodeByID)
    \<and> table' = table @ map (roadSegmentRow region) (take k (candidate_segments cs nodeByID))
    \<and> (e = None \<longrightarrow> n = length (candidate_segments cs nodeByID))"
proof -
  let ?ss = "candidate_segments cs nodeByID"
  let ?rows = "map (roadSegmentRow region) ?ss"
  obtain e1 im1 where a: "add_all out batchSize region ?ss (newRoadSegmentImporter table) = (e1, im1)" by fastforce
  have "import_ok table [] (newRoadSegmentImporter table)" by (simp add: import_ok_def newRoadSegmentImporter_def)
  from add_all_ok [OF this a] have ok: "case e1 of None \<Rightarrow> import_ok table ?rows im1 | Some _ \<Rightarrow> stopped_ok table ?rows im1"
    by (cases e1) simp_all
  show ?thesis
  proof (cases e1)
    case (Some x)
    then show ?thesis using assms a ok by (auto simp: importCandidateSegments_def stopped_ok_def take_map)
  next
    case None
    obtain e2 im2 where f: "Flush out im1 = (e2, im2)" by fastforce
    have im1: "import_ok table ?rows im1" using ok None by simp
    have r: "n = im_total im2" "e = e2" "table' = im_table im2"
      using assms a None f by (auto simp: importCandidateSegments_def)
    show ?thesis
    proof (cases e2)
      case (Some x)
      with Flush_ok [OF im1 f] r show ?thesis by (auto simp: stopped_ok_def take_map)
    next
      case e2: None
      with Flush_ok [OF im1 f] have "import_ok table ?rows im2" "im_rows im2 = []" by simp_all
      then have "im_total im2 = length ?ss" "im_table im2 = table @ ?rows" by (auto simp: import_ok_def)
      with r e2 show ?thesis by auto
    qed
  qed
qed

text \<open>
  Writing in batches is transparent and stops cleanly: whatever the batch size and
  whatever the database answers to each batch, an import without error has added exactly the
  rows of all segments, in order, and counted them; an import that stops with an error has
  added the rows of the first segments up to some batch boundary, none twice, none out of
  order, and has counted no more than it added.
\<close>

theorem importCandidateSegments_batches:
  assumes "importCandidateSegments out table cs nodeByID region batchSize = (n, e, table')"
  shows "\<exists>k\<ge>n. k \<le> length (candidate_segments cs nodeByID)
    \<and> table' = table @ map (roadSegmentRow region) (take k (candidate_segments cs nodeByID))
    \<and> (e = None \<longrightarrow> n = length (candidate_segments cs nodeByID))"
  using assms by (rule import_batches)

section \<open>Both formats give the same import\<close>

fun pbf_ways :: "pbf_value list \<Rightarrow> (int \<times> node_id list \<times> tag_map) list" where
  "pbf_ways [] = []"
| "pbf_ways (PWay wid refs tags # vs) = (wid, refs, tags) # pbf_ways vs"
| "pbf_ways (PNode n # vs) = pbf_ways vs"
| "pbf_ways (POther # vs) = pbf_ways vs"

lemma pbf_candidates_ways: "pbf_candidates vs = List.map_filter (\<lambda>(wid, refs, tags). candidateFromWay wid refs tags) (pbf_ways vs)"
  by (induction vs rule: pbf_ways.induct) (simp_all add: List.map_filter_simps split: option.split)

lemma node_map_restrict:
  "node_map (\<lambda>n. on_ID n \<in> R \<and> P n) ns i = (if i \<in> R then node_map P ns i else None)"
proof -
  have gen: "foldl (\<lambda>m n. if on_ID n \<in> R \<and> P n then m(on_ID n \<mapsto> \<lparr>gp_Lat = on_Lat n, gp_Lon = on_Lon n\<rparr>) else m) a ns i =
      (if i \<in> R then foldl (\<lambda>m n. if P n then m(on_ID n \<mapsto> \<lparr>gp_Lat = on_Lat n, gp_Lon = on_Lon n\<rparr>) else m) b ns i else None)"
    if "\<forall>j. a j = (if j \<in> R then b j else None)" for a b :: node_points
    using that
  proof (induction ns arbitrary: a b)
    case (Cons n ns)
    let ?p = "\<lparr>gp_Lat = on_Lat n, gp_Lon = on_Lon n\<rparr>"
    have "\<forall>j. (if on_ID n \<in> R \<and> P n then a(on_ID n \<mapsto> ?p) else a) j =
        (if j \<in> R then (if P n then b(on_ID n \<mapsto> ?p) else b) j else None)"
      using Cons.prems by auto
    from Cons.IH [OF this] show ?case by (simp only: foldl_Cons)
  qed simp
  show ?thesis unfolding node_map_def by (rule gen) simp
qed

lemma way_segments_cong: "\<forall>i\<in>set refs. m i = m' i \<Longrightarrow> way_segments m c refs = way_segments m' c refs"
  by (induction m c refs rule: way_segments.induct) (simp_all add: hop_segment_def)

lemma requiredNodes_mem: "c \<in> set cs \<Longrightarrow> i \<in> set (wc_refs c) \<Longrightarrow> i \<in> requiredNodes cs"
  by (auto simp: requiredNodes_def)

lemma candidate_segments_required:
  "candidate_segments cs (node_map (\<lambda>n. on_ID n \<in> requiredNodes cs \<and> P n) ns) = candidate_segments cs (node_map P ns)"
  unfolding candidate_segments_def
  by (intro arg_cong [where f = concat] map_cong way_segments_cong ballI)
    (auto simp: node_map_restrict requiredNodes_mem)

text \<open>
  The XML and the PBF import of the same data (the same nodes in the same order, the same
  ways with the same tags) do the same: the PBF import keeps only the nodes that some way
  needs, which changes no segment.
\<close>

theorem importSegmentsPBF_XML:
  assumes "nodes = pbf_nodes vs" "map (\<lambda>w. (ow_ID w, ow_Refs w, tagsMap (ow_Tags w))) ways = pbf_ways vs"
  shows "importSegmentsPBF out table (Inr vs) (Inr vs) b region batchSize
    = importSegmentsXML out table (Inr (nodes, ways)) b region batchSize"
proof -
  have "List.map_filter (\<lambda>w. candidateFromWay (ow_ID w) (ow_Refs w) (tagsMap (ow_Tags w))) ways
      = List.map_filter (\<lambda>(wid, refs, tags). candidateFromWay wid refs tags) (map (\<lambda>w. (ow_ID w, ow_Refs w, tagsMap (ow_Tags w))) ways)"
    by (simp add: List.map_filter_def filter_map comp_def)
  then have cs: "List.map_filter (\<lambda>w. candidateFromWay (ow_ID w) (ow_Refs w) (tagsMap (ow_Tags w))) ways = pbf_candidates vs"
    unfolding pbf_candidates_ways assms(2) .
  show ?thesis
    unfolding importSegmentsPBF_def importSegmentsXML_def
    by (simp add: assms(1) cs Let_def importCandidateSegments_def candidate_segments_required)
qed

section \<open>What a candidate is\<close>

lemma routable_iff: "routable h \<longleftrightarrow> h \<in> set (map fst highwaySpeed)"
  by (simp add: routable_def map_of_eq_None_iff)

lemma classes_known:
  "\<forall>h\<in>set (map fst highwaySpeed). ParseHighwayKind h \<noteq> HWUnknown \<and> HighwayKind_String (ParseHighwayKind h) = h
     \<and> (pedestrianOnly h \<longleftrightarrow> IsPedestrian (ParseHighwayKind h))"
  by code_simp

lemma maxspeed_positive: "maxspeed tags = Some v \<Longrightarrow> 0 < v"
  by (auto simp: maxspeed_def split: option.splits if_splits)

lemma highwaySpeed_positive: "\<forall>(h, s)\<in>set highwaySpeed. 0 < s"
  by (simp add: highwaySpeed_def)

lemma speedForWay_positive: "0 < speedForWay tags highway"
  using maxspeed_positive [of tags] highwaySpeed_positive
  by (auto simp: speedForWay_def split: option.splits dest: map_of_SomeD)

text \<open>
  What the importer makes of a way: a way it accepts has at least two nodes, keeps them in
  their order unless it is a one-way against it (\<open>oneway=-1\<close>, then reversed), has a positive
  speed, some kind of access, and a road class that the routing engine knows by the same name
  and takes for a pedestrian way exactly when the importer does.
\<close>

theorem candidateFromWay_classified:
  assumes "candidateFromWay wid refs tags = Some c"
  shows "2 \<le> length (wc_refs c) \<and> 0 < wc_speedKmH c
    \<and> wc_refs c = (if TrimSpace (tag tags ''oneway'') = ''-1'' \<and> \<not> isOneway tags then rev refs else refs)
    \<and> (wc_bidirectional c \<longleftrightarrow> \<not> isOneway tags \<and> TrimSpace (tag tags ''oneway'') \<noteq> ''-1'')
    \<and> (ac_car (wc_access c) \<or> ac_motorcycle (wc_access c) \<or> ac_bus (wc_access c) \<or> ac_foot (wc_access c))
    \<and> HighwayKind_String (ParseHighwayKind (wc_highway c)) = wc_highway c \<and> ParseHighwayKind (wc_highway c) \<noteq> HWUnknown
    \<and> (pedestrianOnly (wc_highway c) \<longleftrightarrow> IsPedestrian (ParseHighwayKind (wc_highway c)))"
proof -
  have "routable (tag tags ''highway'')" using assms by (auto simp: candidateFromWay_def Let_def split: if_splits)
  then have known: "ParseHighwayKind (tag tags ''highway'') \<noteq> HWUnknown \<and> HighwayKind_String (ParseHighwayKind (tag tags ''highway'')) = tag tags ''highway''
     \<and> (pedestrianOnly (tag tags ''highway'') \<longleftrightarrow> IsPedestrian (ParseHighwayKind (tag tags ''highway'')))"
    using classes_known unfolding routable_iff by blast
  have "wc_highway c = tag tags ''highway''" using assms by (auto simp: candidateFromWay_def Let_def split: if_splits)
  with known show ?thesis
    using assms speedForWay_positive by (auto simp: candidateFromWay_def Let_def reverseIDs_def split: if_splits)
qed

definition example_tags :: "(string \<times> string) list" where
  "example_tags = [(''highway'', ''residential''), (''maxspeed'', '' 50 km/h''), (''oneway'', ''-1''), (''name'', ''Azadi'')]"

lemma example_tag_values:
  "tag (tagsMap example_tags) ''highway'' = ''residential''" "tag (tagsMap example_tags) ''name'' = ''Azadi''"
  "tag (tagsMap example_tags) ''oneway'' = ''-1''" "tagsMap example_tags ''maxspeed'' = Some '' 50 km/h''"
  by (simp_all add: tag_def tagsMap_def example_tags_def)

lemma example_access:
  "accessForWay (tagsMap example_tags) ''residential'' = \<lparr>ac_car = True, ac_motorcycle = True, ac_bus = True, ac_foot = True\<rparr>"
  by code_simp

lemma example_candidate:
  "candidateFromWay 9 [1, 2] (tagsMap example_tags) = Some \<lparr>wc_id = 9, wc_refs = [2, 1], wc_highway = ''residential'',
     wc_name = ''Azadi'', wc_speedKmH = 50, wc_bidirectional = False,
     wc_access = \<lparr>ac_car = True, ac_motorcycle = True, ac_bus = True, ac_foot = True\<rparr>\<rparr>"
proof -
  have "leadingNumber '' 50 km/h'' = Some (''50'', [])" "text_nat ''50'' = 50" "text_nat [] = 0" by code_simp+
  then have "maxspeed (tagsMap example_tags) = Some 50"
    by (simp add: maxspeed_def example_tag_values ParseFloat_def)
  then have speed: "speedForWay (tagsMap example_tags) ''residential'' = 50" by (simp add: speedForWay_def)
  have "\<not> isOneway (tagsMap example_tags)" "TrimSpace ''-1'' = ''-1''" by code_simp+
  moreover have "routable ''residential''" by (simp add: routable_def highwaySpeed_def)
  ultimately show ?thesis
    by (simp add: candidateFromWay_def Let_def example_tag_values speed example_access reverseIDs_def)
qed

theorem candidateFromWay_classified_witness:
  "\<exists>c. candidateFromWay 9 [1, 2] (tagsMap example_tags) = Some c \<and> wc_refs c = [2, 1] \<and> ParseHighwayKind (wc_highway c) \<noteq> HWUnknown"
  using candidateFromWay_classified [OF example_candidate] example_candidate by auto

section \<open>From the map to the graph\<close>

text \<open>A hop of a way that becomes a segment: both nodes are known and at least a metre apart.\<close>

definition hop :: "node_points \<Rightarrow> wayCandidate \<Rightarrow> node_id \<Rightarrow> node_id \<Rightarrow> bool" where
  "hop m c u v \<longleftrightarrow> (\<exists>i. Suc i < length (wc_refs c) \<and> wc_refs c ! i = u \<and> wc_refs c ! Suc i = v)
     \<and> (\<exists>p q. m u = Some p \<and> m v = Some q \<and> \<not> Haversine (gp_Lat p) (gp_Lon p) (gp_Lat q) (gp_Lon q) < 0.001)"

lemma hop_segment_iff:
  "(\<exists>s. hop_segment m c u v = Some s) \<longleftrightarrow>
     (\<exists>p q. m u = Some p \<and> m v = Some q \<and> \<not> Haversine (gp_Lat p) (gp_Lon p) (gp_Lat q) (gp_Lon q) < 0.001)"
  by (auto simp: hop_segment_def osm_haversine Let_def split: option.splits)

lemma hop_segment_fields:
  assumes "hop_segment m c u v = Some s"
  shows "sg_fromID s = u" "sg_toID s = v" "sg_car s = ac_car (wc_access c)" "sg_bidirectional s = wc_bidirectional c"
  using assms by (auto simp: hop_segment_def Let_def split: option.splits if_splits)

lemma candidate_segments_hop:
  "(\<exists>s\<in>set (candidate_segments cs m). sg_car s \<and> (sg_fromID s = u \<and> sg_toID s = v \<or> sg_bidirectional s \<and> sg_fromID s = v \<and> sg_toID s = u))
   \<longleftrightarrow> (\<exists>c\<in>set cs. ac_car (wc_access c) \<and> (hop m c u v \<or> wc_bidirectional c \<and> hop m c v u))"
  (is "?L \<longleftrightarrow> ?R")
proof -
  have seg: "s \<in> set (candidate_segments cs m) \<longleftrightarrow>
      (\<exists>c\<in>set cs. \<exists>i. Suc i < length (wc_refs c) \<and> hop_segment m c (wc_refs c ! i) (wc_refs c ! Suc i) = Some s)" for s
    by (auto simp: candidate_segments_def way_segments_hops)
  have hop: "hop m c a b \<longleftrightarrow> (\<exists>i s. Suc i < length (wc_refs c) \<and> wc_refs c ! i = a \<and> wc_refs c ! Suc i = b \<and> hop_segment m c a b = Some s)" for c a b
    unfolding hop_def hop_segment_iff [of m c, symmetric] by blast
  show ?thesis
  proof
    assume ?L
    then obtain s where s: "s \<in> set (candidate_segments cs m)" "sg_car s"
      "sg_fromID s = u \<and> sg_toID s = v \<or> sg_bidirectional s \<and> sg_fromID s = v \<and> sg_toID s = u" by blast
    from s(1) obtain c i where c: "c \<in> set cs" "Suc i < length (wc_refs c)"
      "hop_segment m c (wc_refs c ! i) (wc_refs c ! Suc i) = Some s" unfolding seg by blast
    note f = hop_segment_fields [OF c(3)]
    have "hop m c (sg_fromID s) (sg_toID s)" unfolding hop using c f by auto
    with s(2,3) c(1) f(3,4) show ?R by auto
  next
    assume ?R
    then obtain c a b where c: "c \<in> set cs" "ac_car (wc_access c)" "hop m c a b"
      "a = u \<and> b = v \<or> wc_bidirectional c \<and> a = v \<and> b = u" by blast
    from c(3) obtain i s where s: "Suc i < length (wc_refs c)" "wc_refs c ! i = a" "wc_refs c ! Suc i = b" "hop_segment m c a b = Some s"
      unfolding hop by blast
    have "s \<in> set (candidate_segments cs m)" unfolding seg using c(1) s by blast
    with c(2,4) hop_segment_fields [OF s(4)] show ?L by auto
  qed
qed

lemma truncate_row:
  "sg_fromID (segment.truncate (roadSegmentRow region s)) = sg_fromID s" "sg_toID (segment.truncate (roadSegmentRow region s)) = sg_toID s"
  "sg_car (segment.truncate (roadSegmentRow region s)) = sg_car s"
  "sg_bidirectional (segment.truncate (roadSegmentRow region s)) = sg_bidirectional s"
  "sg_distanceKm (segment.truncate (roadSegmentRow region s)) = sg_distanceKm s"
  by (simp_all add: roadSegmentRow_def segment.truncate_def roadSegment.extend_def)

lemma candidate_segments_positive: "s \<in> set (candidate_segments cs m) \<Longrightarrow> 0 < sg_distanceKm s"
  by (auto simp: candidate_segments_def way_segments_hops dest: hop_positive)

lemma set_map_filter_Some: "set (List.map_filter f xs) = {y. \<exists>x\<in>set xs. f x = Some y}"
  by (induction xs) (auto simp: List.map_filter_simps split: option.splits)

lemma where_positive_all:
  assumes "db t = Inr (map Inr rows, None)" "\<forall>s\<in>set rows. 0 < sg_distanceKm s"
  shows "table_segments db t = rows"
proof -
  have "good_rows (filter (\<lambda>r. case r of Inl _ \<Rightarrow> True | Inr s \<Rightarrow> sg_distanceKm s > 0) (map Inr rows)) = rows"
    using assms(2) by (induction rows) simp_all
  then show ?thesis by (simp add: table_segments_def where_positive_def assms(1))
qed

text \<open>
  C20. From the map to the graph: if an import into an empty table ends without error and the
  graph is then loaded from that table, whose rows the query returns in any order, a car can
  pass from one node to the next exactly if some way of the map that the importer accepts is
  open to cars and has the two nodes as neighbours, in its direction or in both if it is
  bidirectional, both nodes lie in the bounding box, and they are at least a metre apart.
\<close>

theorem import_to_graph:
  assumes "importSegmentsXML out [] (Inr (nodes, ways)) b region batchSize = (n, None, table)"
    and "db t = Inr (map Inr rows, None)" "mset rows = mset (map segment.truncate table)" "length rows + 1 < 2 ^ 32"
    and "roadGraphTables regions = Inr [t]" "LoadRoadGraphRegions (Some db) regions = Inr g"
  shows "passable g FlagCar u v \<longleftrightarrow>
    (\<exists>w\<in>set ways. \<exists>c. candidateFromWay (ow_ID w) (ow_Refs w) (tagsMap (ow_Tags w)) = Some c \<and> ac_car (wc_access c)
       \<and> (hop (node_map (in_box b) nodes) c u v \<or> wc_bidirectional c \<and> hop (node_map (in_box b) nodes) c v u))"
proof -
  let ?m = "node_map (in_box b) nodes"
  let ?cs = "List.map_filter (\<lambda>w. candidateFromWay (ow_ID w) (ow_Refs w) (tagsMap (ow_Tags w))) ways"
  have "importCandidateSegments out [] ?cs ?m region batchSize = (n, None, table)"
    using assms(1) by (simp add: importSegmentsXML_def)
  from import_batches [OF this] have table: "table = map (roadSegmentRow region) (candidate_segments ?cs ?m)" by auto
  have set_rows: "set rows = (\<lambda>s. segment.truncate (roadSegmentRow region s)) ` set (candidate_segments ?cs ?m)"
    using arg_cong [OF assms(3), of set_mset] by (simp add: table image_image)
  have "\<forall>s\<in>set rows. 0 < sg_distanceKm s" unfolding set_rows using candidate_segments_positive by (auto simp: truncate_row)
  then have segs: "concat (map (table_segments db) [t]) = rows" using where_positive_all [of db t rows] assms(2) by simp
  note l = LoadRoadGraphRegions_loaded(3) [OF assms(6,5), unfolded segs, OF assms(4)]
  have "passable g FlagCar u v \<longleftrightarrow> (\<exists>s\<in>set rows. sg_car s \<and>
      (sg_fromID s = u \<and> sg_toID s = v \<or> sg_bidirectional s \<and> sg_fromID s = v \<and> sg_toID s = u))"
    using passable_segments [OF l] by (auto simp: opens_def)
  also have "\<dots> \<longleftrightarrow> (\<exists>s\<in>set (candidate_segments ?cs ?m). sg_car s \<and>
      (sg_fromID s = u \<and> sg_toID s = v \<or> sg_bidirectional s \<and> sg_fromID s = v \<and> sg_toID s = u))"
    unfolding set_rows by (simp add: truncate_row)
  also have "\<dots> \<longleftrightarrow> (\<exists>c\<in>set ?cs. ac_car (wc_access c) \<and> (hop ?m c u v \<or> wc_bidirectional c \<and> hop ?m c v u))"
    by (rule candidate_segments_hop)
  also have "\<dots> \<longleftrightarrow> (\<exists>w\<in>set ways. \<exists>c. candidateFromWay (ow_ID w) (ow_Refs w) (tagsMap (ow_Tags w)) = Some c \<and> ac_car (wc_access c)
       \<and> (hop ?m c u v \<or> wc_bidirectional c \<and> hop ?m c v u))"
    unfolding set_map_filter_Some by blast
  finally show ?thesis .
qed

text \<open>Two nodes on a meridian and the one-way street against their order.\<close>

definition example_nodes :: "osmNode list" where
  "example_nodes = [\<lparr>on_ID = 1, on_Lat = 0, on_Lon = 51\<rparr>, \<lparr>on_ID = 2, on_Lat = 1, on_Lon = 51\<rparr>]"

definition example_way :: osmWay where
  "example_way = \<lparr>ow_ID = 9, ow_Refs = [1, 2], ow_Tags = example_tags\<rparr>"

definition example_import :: "nat \<times> string option \<times> stageRow list" where
  "example_import = importSegmentsXML (\<lambda>_. FlushOk) [] (Inr (example_nodes, [example_way])) None ''tehran'' 20000"

lemma example_distance: "\<not> Haversine 1 51 0 51 < 0.001"
proof -
  have "Haversine 1 51 0 51 = Haversine 0 51 1 51" by (rule Haversine_sym)
  also have "\<dots> = 6371 * (pi / 180)" by (simp add: Haversine_meridian toRad_def earthRadiusKm_def)
  finally show ?thesis using pi_gt_zero pi_ge_two by simp
qed

lemma example_imported: "\<exists>s. example_import = (1, None, [roadSegmentRow ''tehran'' s]) \<and> sg_fromID s = 2 \<and> sg_toID s = 1 \<and> 0 < sg_distanceKm s"
proof -
  let ?c = "\<lparr>wc_id = 9, wc_refs = [2, 1], wc_highway = ''residential'', wc_name = ''Azadi'', wc_speedKmH = 50, wc_bidirectional = False,
     wc_access = \<lparr>ac_car = True, ac_motorcycle = True, ac_bus = True, ac_foot = True\<rparr>\<rparr>"
  let ?m = "node_map (in_box None) example_nodes"
  have m: "?m 1 = Some \<lparr>gp_Lat = 0, gp_Lon = 51\<rparr>" "?m 2 = Some \<lparr>gp_Lat = 1, gp_Lon = 51\<rparr>"
    by (simp_all add: node_map_def in_box_def example_nodes_def)
  obtain s where s: "hop_segment ?m ?c 2 1 = Some s" using hop_segment_iff [of ?m ?c 2 1] m example_distance by auto
  have cs: "List.map_filter (\<lambda>w. candidateFromWay (ow_ID w) (ow_Refs w) (tagsMap (ow_Tags w))) [example_way] = [?c]"
    by (simp add: List.map_filter_simps example_way_def example_candidate)
  have seg: "candidate_segments [?c] ?m = [s]" using s by (simp add: candidate_segments_def)
  then have pos: "0 < sg_distanceKm s" using candidate_segments_positive [of s "[?c]" ?m] by simp
  have "example_import = importCandidateSegments (\<lambda>_. FlushOk) [] [?c] ?m ''tehran'' 20000"
    unfolding example_import_def importSegmentsXML_def sum.case prod.case cs ..
  also have "\<dots> = (1, None, [roadSegmentRow ''tehran'' s])"
    by (simp add: importCandidateSegments_def seg importer_Add_def newRoadSegmentImporter_def Flush_def Let_def)
  finally show ?thesis using hop_segment_fields [OF s] pos by blast
qed

theorem importCandidateSegments_batches_witness:
  "\<exists>n table. importCandidateSegments (\<lambda>_. InsertError ''disk full'') [] [] (\<lambda>_. None) ''tehran'' 5 = (n, None, table) \<and> n = 0 \<and> table = []"
proof -
  have e: "importCandidateSegments (\<lambda>_. InsertError ''disk full'') [] [] (\<lambda>_. None) ''tehran'' 5 = (0, None, [])"
    by (simp add: importCandidateSegments_def candidate_segments_def newRoadSegmentImporter_def Flush_def)
  from importCandidateSegments_batches [OF e] e show ?thesis by auto
qed

theorem importSegmentsPBF_XML_witness:
  "importSegmentsPBF (\<lambda>_. FlushOk) [] (Inr (map PNode example_nodes @ [PWay 9 [1, 2] (tagsMap example_tags)]))
      (Inr (map PNode example_nodes @ [PWay 9 [1, 2] (tagsMap example_tags)])) None ''tehran'' 20000 = example_import"
  unfolding example_import_def by (rule importSegmentsPBF_XML) (simp_all add: example_nodes_def example_way_def)

theorem import_to_graph_witness:
  "\<exists>g db. LoadRoadGraphRegions (Some db) [] = Inr g \<and> passable g FlagCar 2 1 \<and> \<not> passable g FlagCar 1 2"
proof -
  obtain s where s: "example_import = (1, None, [roadSegmentRow ''tehran'' s])" "sg_fromID s = 2" "sg_toID s = 1" "0 < sg_distanceKm s"
    using example_imported by blast
  define rows where "rows = [segment.truncate (roadSegmentRow ''tehran'' s)]"
  define db :: segment_db where "db = (\<lambda>_. Inr (map Inr rows, None))"
  have s_in: "sg_distanceKm (segment.truncate (roadSegmentRow ''tehran'' s)) > 0"
    using s(4) by (simp add: truncate_row)
  have "\<exists>g. LoadRoadGraphRegions (Some db) [] = Inr g"
  proof -
    have "lg_count (road_row r load_start) \<noteq> 0" for r
      by (simp add: road_row_def add_segment_def Let_def split_beta addRoadGraphEdges_def)
    then show ?thesis using s_in
      by (simp add: LoadRoadGraphRegions_def roadGraphTables_def loadRoadGraphTable_def run_query_def where_positive_def db_def rows_def)
  qed
  then obtain g where g: "LoadRoadGraphRegions (Some db) [] = Inr g" by blast
  have imp: "importSegmentsXML (\<lambda>_. FlushOk) [] (Inr (example_nodes, [example_way])) None ''tehran'' 20000 = (1, None, [roadSegmentRow ''tehran'' s])"
    using s(1) by (simp add: example_import_def)
  have q: "db ''road_segments'' = Inr (map Inr rows, None)" by (simp add: db_def)
  have p: "passable g FlagCar u v \<longleftrightarrow>
    (\<exists>w\<in>set [example_way]. \<exists>c. candidateFromWay (ow_ID w) (ow_Refs w) (tagsMap (ow_Tags w)) = Some c \<and> ac_car (wc_access c)
       \<and> (hop (node_map (in_box None) example_nodes) c u v \<or> wc_bidirectional c \<and> hop (node_map (in_box None) example_nodes) c v u))" for u v
    by (rule import_to_graph [OF imp q _ _ _ g]) (simp_all add: rows_def roadGraphTables_def)
  have "passable g FlagCar 2 1" "\<not> passable g FlagCar 1 2"
    unfolding p using example_distance
    by (auto simp: example_way_def example_candidate hop_def node_map_def in_box_def example_nodes_def less_Suc_eq)
  with g show ?thesis by blast
qed

end
