(* ===== verification/DriverPresence.thy ===== *)
theory DriverPresence
  imports GpsService
begin

text \<open>
  Live positions of users: \<open>internal/cache/driver_location.go\<close> and \<open>geo.go\<close>,
  \<open>internal/service/driver.go\<close>, \<open>internal/handler/driver.go\<close>, and the branch of
  \<open>GPSHandler.Update\<close> for an update without a trip.  A position is kept twice in Redis: as a
  member of a geo index, which never expires, and as a hash of its own, which does.  Redis is
  a parameter; the repository of the Laravel database too.
\<close>

section \<open>Redis commands\<close>

datatype field_value = FText string | FFloat float64 | FInt int

datatype redis_cmd =
    GeoAdd string string float64 float64
  | HSet string "(string \<times> field_value) list"
  | Expire string int
  | XAdd string int "(string \<times> field_value) list"
  | ZRem string string
  | Del string

record geo_hit =
  gh_Name :: string
  gh_Lat :: float64
  gh_Lng :: float64
  gh_Dist :: float64

text \<open>
  \<open>gr_exec\<close> runs a pipeline and gives the first error; \<open>gr_hgetall\<close> and \<open>gr_geosearch\<close> read.
  A number is sent as text that reads back as the same number; other text is read by
  \<open>strconv.ParseFloat\<close>.
\<close>

record 's geo_redis =
  gr_exec :: "'s \<Rightarrow> redis_cmd list \<Rightarrow> string option \<times> 's"
  gr_hgetall :: "'s \<Rightarrow> string \<Rightarrow> string + (string \<Rightarrow> field_value option)"
  gr_geosearch :: "'s \<Rightarrow> string \<Rightarrow> float64 \<Rightarrow> float64 \<Rightarrow> float64 \<Rightarrow> int \<Rightarrow> string + geo_hit list"
  gr_ParseFloat :: "string \<Rightarrow> float64 option"

definition driverLocationTTL :: int where "driverLocationTTL = 120000"

record DriverLocationState =
  dl_ID :: string
  dl_Lat :: float64
  dl_Lng :: float64
  dl_TimestampMs :: int
  dl_DistanceKm :: float64

definition set_location_cmds :: "string \<Rightarrow> string \<Rightarrow> DriverLocationState \<Rightarrow> redis_cmd list" where
  "set_location_cmds geoKey streamKey s =
     [GeoAdd geoKey (dl_ID s) (dl_Lng s) (dl_Lat s),
      HSet (DriverLocationKey (dl_ID s))
        [(''id'', FText (dl_ID s)), (''driver_id'', FText (dl_ID s)), (''lat'', FFloat (dl_Lat s)),
         (''lng'', FFloat (dl_Lng s)), (''timestamp_ms'', FInt (dl_TimestampMs s))],
      Expire (DriverLocationKey (dl_ID s)) driverLocationTTL]
     @ (if streamKey \<noteq> []
        then [XAdd streamKey 10000
                [(''driver_id'', FText (dl_ID s)), (''lat'', FFloat (dl_Lat s)), (''lng'', FFloat (dl_Lng s)),
                 (''timestamp_ms'', FInt (dl_TimestampMs s))]]
        else [])"

definition SetDriverLocation :: "'s geo_redis \<Rightarrow> 's \<Rightarrow> string \<Rightarrow> string \<Rightarrow> DriverLocationState \<Rightarrow> string option \<times> 's" where
  "SetDriverLocation gr st geoKey streamKey s = gr_exec gr st (set_location_cmds geoKey streamKey s)"

definition RemoveDriverLocation :: "'s geo_redis \<Rightarrow> 's \<Rightarrow> string \<Rightarrow> string \<Rightarrow> string option \<times> 's" where
  "RemoveDriverLocation gr st geoKey driverID = gr_exec gr st [ZRem geoKey driverID, Del (DriverLocationKey driverID)]"

definition field_float :: "'s geo_redis \<Rightarrow> field_value option \<Rightarrow> float64 option" where
  "field_float gr v =
     (case v of
        None \<Rightarrow> gr_ParseFloat gr []
      | Some (FText s) \<Rightarrow> gr_ParseFloat gr s
      | Some (FFloat x) \<Rightarrow> Some x
      | Some (FInt n) \<Rightarrow> Some (of_int n))"

text \<open>A time stamp that is no integer reads as zero.\<close>

definition field_int :: "field_value option \<Rightarrow> int" where
  "field_int v =
     (case v of
        Some (FInt n) \<Rightarrow> n
      | Some (FText s) \<Rightarrow> (case ParseInt s of Some n \<Rightarrow> n | None \<Rightarrow> 0)
      | _ \<Rightarrow> 0)"

definition state_of_hash :: "'s geo_redis \<Rightarrow> string \<Rightarrow> (string \<Rightarrow> field_value option) \<Rightarrow> DriverLocationState option" where
  "state_of_hash gr driverID vals =
     (if vals = Map.empty then None
      else case field_float gr (vals ''lat'') of
        None \<Rightarrow> None
      | Some lat \<Rightarrow>
          (case field_float gr (vals ''lng'') of
             None \<Rightarrow> None
           | Some lng \<Rightarrow> Some \<lparr>dl_ID = driverID, dl_Lat = lat, dl_Lng = lng,
               dl_TimestampMs = field_int (vals ''timestamp_ms''), dl_DistanceKm = 0\<rparr>))"

definition getDriverLocationState :: "'s geo_redis \<Rightarrow> 's \<Rightarrow> string \<Rightarrow> DriverLocationState option" where
  "getDriverLocationState gr st driverID =
     (case gr_hgetall gr st (DriverLocationKey driverID) of
        Inl e \<Rightarrow> None
      | Inr vals \<Rightarrow> state_of_hash gr driverID vals)"

definition GetDriverLocation :: "'s geo_redis \<Rightarrow> 's \<Rightarrow> string \<Rightarrow> DriverLocationState option" where
  "GetDriverLocation gr st driverID = getDriverLocationState gr st driverID"

definition FindNearbyGeoMembers ::
  "'s geo_redis option \<Rightarrow> 's \<Rightarrow> string \<Rightarrow> float64 \<Rightarrow> float64 \<Rightarrow> float64 \<Rightarrow> int \<Rightarrow> string + geo_hit list" where
  "FindNearbyGeoMembers redis st key lat lng radiusKm limit =
     (case redis of
        None \<Rightarrow> Inl ''redis is not configured''
      | Some gr \<Rightarrow>
          if TrimSpace key = [] then Inl ''redis geo key is required''
          else gr_geosearch gr st (TrimSpace key) lat lng radiusKm limit)"

text \<open>A member whose hash is gone is dropped from the index on the way.\<close>

fun nearby_states :: "'s geo_redis \<Rightarrow> string \<Rightarrow> geo_hit list \<Rightarrow> 's \<Rightarrow> DriverLocationState list \<times> 's" where
  "nearby_states gr geoKey [] st = ([], st)"
| "nearby_states gr geoKey (m # ms) st =
     (case getDriverLocationState gr st (gh_Name m) of
        None \<Rightarrow> nearby_states gr geoKey ms (snd (gr_exec gr st [ZRem geoKey (gh_Name m)]))
      | Some s \<Rightarrow>
          (case nearby_states gr geoKey ms st of
             (ss, st') \<Rightarrow> (s\<lparr>dl_DistanceKm := gh_Dist m\<rparr> # ss, st')))"

definition FindNearbyDrivers ::
  "'s geo_redis \<Rightarrow> 's \<Rightarrow> string \<Rightarrow> float64 \<Rightarrow> float64 \<Rightarrow> float64 \<Rightarrow> int \<Rightarrow> (string + DriverLocationState list) \<times> 's" where
  "FindNearbyDrivers gr st geoKey lat lng radiusKm limit =
     (case FindNearbyGeoMembers (Some gr) st geoKey lat lng radiusKm limit of
        Inl e \<Rightarrow> (Inl e, st)
      | Inr ms \<Rightarrow> (case nearby_states gr geoKey ms st of (ss, st') \<Rightarrow> (Inr ss, st')))"

section \<open>The driver service\<close>

definition defaultDriverSearchRadiusKm :: float64 where "defaultDriverSearchRadiusKm = 20"
definition defaultShipmentRadiusKm :: float64 where "defaultShipmentRadiusKm = 2"
definition defaultShipmentLimit :: int where "defaultShipmentLimit = 100"
definition maxShipmentLimit :: int where "maxShipmentLimit = 500"
definition maxNearbySearchRadiusKm :: float64 where "maxNearbySearchRadiusKm = 50"

record DriverLatestTrip =
  lt_TripID :: int
  lt_Destination :: string
  lt_VehicleTypeID :: int
  lt_VehicleTypeImage :: string

record DriverActiveJob =
  aj_Destination :: string
  aj_TripID :: int
  aj_VehicleTypeID :: int
  aj_VehicleTypeImage :: string
  aj_HasShipping :: bool
  aj_LatestTrip :: "DriverLatestTrip option"

record DriverLocation =
  do_ID :: string
  do_DriverID :: int
  do_Lat :: float64
  do_Lng :: float64
  do_TimestampMs :: int
  do_DistanceKm :: float64
  do_Active :: "DriverActiveJob option"

record driver_repo =
  sr_jobs :: "int list \<Rightarrow> string + (int \<Rightarrow> DriverActiveJob option)"
  sr_trips :: "int list \<Rightarrow> string + (int \<Rightarrow> DriverLatestTrip option)"
  sr_visible :: "int list \<Rightarrow> string + int set"

record 's driver_service =
  ds_redis :: "'s geo_redis option"
  ds_shippings :: "driver_repo option"
  ds_geoKey :: string
  ds_streamKey :: string
  ds_defaultRadiusKm :: float64
  ds_defaultLimit :: int

definition clamp_default :: "int \<Rightarrow> int" where
  "clamp_default limit =
     (let limit = (if limit \<le> 0 then defaultShipmentLimit else limit) in
      if limit > maxShipmentLimit then maxShipmentLimit else limit)"

definition NewDriverService ::
  "'s geo_redis option \<Rightarrow> string \<Rightarrow> string \<Rightarrow> float64 \<Rightarrow> int \<Rightarrow> driver_repo option \<Rightarrow> 's driver_service" where
  "NewDriverService redis geoKey streamKey defaultRadiusKm defaultLimit shippings =
     \<lparr>ds_redis = redis, ds_shippings = shippings, ds_geoKey = TrimSpace geoKey, ds_streamKey = TrimSpace streamKey,
      ds_defaultRadiusKm = (if defaultRadiusKm \<le> 0 then defaultDriverSearchRadiusKm else defaultRadiusKm),
      ds_defaultLimit = clamp_default defaultLimit\<rparr>"

datatype driver_error = ErrDriverLocationDisabled | ErrDriverIDRequired | ErrDriverLocationNotFound | RedisFailed string

record DriverLocationRequest =
  dq_DriverID :: string
  dq_Lat :: float64
  dq_Lng :: float64
  dq_TimestampMs :: int

text \<open>The service has a usable Redis when it has a client and a key for the geo index.\<close>

definition usable :: "'s driver_service \<Rightarrow> 's geo_redis option" where
  "usable svc = (if ds_geoKey svc = [] then None else ds_redis svc)"

definition zero_location :: DriverLocation where
  "zero_location = \<lparr>do_ID = [], do_DriverID = 0, do_Lat = 0, do_Lng = 0, do_TimestampMs = 0, do_DistanceKm = 0, do_Active = None\<rparr>"

definition UpdateLocation ::
  "'s driver_service \<Rightarrow> int \<Rightarrow> 's \<Rightarrow> DriverLocationRequest \<Rightarrow> (driver_error + int \<times> DriverLocation) \<times> 's" where
  "UpdateLocation svc now st req =
     (case usable svc of
        None \<Rightarrow> (Inl ErrDriverLocationDisabled, st)
      | Some gr \<Rightarrow>
          let driverID = TrimSpace (dq_DriverID req) in
          if driverID = [] then (Inl ErrDriverIDRequired, st)
          else let ts = (if dq_TimestampMs req \<le> 0 then now else dq_TimestampMs req);
                   s = \<lparr>dl_ID = driverID, dl_Lat = dq_Lat req, dl_Lng = dq_Lng req, dl_TimestampMs = ts, dl_DistanceKm = 0\<rparr>
               in case SetDriverLocation gr st (ds_geoKey svc) (ds_streamKey svc) s of
                    (Some e, st') \<Rightarrow> (Inl (RedisFailed e), st')
                  | (None, st') \<Rightarrow>
                      (Inr (now, zero_location\<lparr>do_ID := dl_ID s, do_Lat := dl_Lat s, do_Lng := dl_Lng s,
                                   do_TimestampMs := dl_TimestampMs s\<rparr>), st'))"

definition RemoveLocation :: "'s driver_service \<Rightarrow> 's \<Rightarrow> string \<Rightarrow> driver_error option \<times> 's" where
  "RemoveLocation svc st driverID =
     (case usable svc of
        None \<Rightarrow> (Some ErrDriverLocationDisabled, st)
      | Some gr \<Rightarrow>
          let driverID = TrimSpace driverID in
          if driverID = [] then (Some ErrDriverIDRequired, st)
          else case RemoveDriverLocation gr st (ds_geoKey svc) driverID of
                 (e, st') \<Rightarrow> (map_option RedisFailed e, st'))"

definition UpdatePresence ::
  "'s driver_service \<Rightarrow> int \<Rightarrow> 's \<Rightarrow> string \<Rightarrow> float64 \<Rightarrow> float64 \<Rightarrow> int \<Rightarrow> (driver_error + int \<times> DriverLocation) \<times> 's" where
  "UpdatePresence svc now st userID lat lng timestampMs =
     UpdateLocation svc now st \<lparr>dq_DriverID = userID, dq_Lat = lat, dq_Lng = lng, dq_TimestampMs = timestampMs\<rparr>"

definition parseDriverUserID :: "string \<Rightarrow> int option" where
  "parseDriverUserID raw =
     (let raw = TrimSpace raw in
      if raw = [] then None
      else case ParseInt raw of None \<Rightarrow> None | Some n \<Rightarrow> if n \<le> 0 then None else Some n)"

definition location_of_state :: "DriverLocationState \<Rightarrow> DriverLocation" where
  "location_of_state s =
     \<lparr>do_ID = dl_ID s, do_DriverID = (case parseDriverUserID (dl_ID s) of Some i \<Rightarrow> i | None \<Rightarrow> 0),
      do_Lat = dl_Lat s, do_Lng = dl_Lng s, do_TimestampMs = dl_TimestampMs s, do_DistanceKm = dl_DistanceKm s, do_Active = None\<rparr>"

definition GetPresence :: "'s driver_service \<Rightarrow> 's \<Rightarrow> string \<Rightarrow> driver_error + DriverLocation" where
  "GetPresence svc st userID =
     (case ds_redis svc of
        None \<Rightarrow> Inl ErrDriverLocationDisabled
      | Some gr \<Rightarrow>
          let userID = TrimSpace userID in
          if userID = [] then Inl ErrDriverIDRequired
          else case GetDriverLocation gr st userID of
                 None \<Rightarrow> Inl ErrDriverLocationNotFound
               | Some s \<Rightarrow> Inr (location_of_state s\<lparr>do_DistanceKm := 0\<rparr>))"

text \<open>The ids of the users among the drivers, each once, in the order of their first member.\<close>

definition user_ids :: "DriverLocation list \<Rightarrow> int list" where
  "user_ids drivers = rev (remdups (rev (filter (\<lambda>i. 0 < i) (map do_DriverID drivers))))"

definition filterVisibleOnMap :: "driver_repo option \<Rightarrow> DriverLocation list \<Rightarrow> int \<Rightarrow> DriverLocation list" where
  "filterVisibleOnMap shippings drivers limit =
     (if drivers = [] then drivers
      else case shippings of
        None \<Rightarrow> []
      | Some repo \<Rightarrow>
          let userIDs = user_ids drivers in
          if userIDs = [] then []
          else case sr_visible repo userIDs of
                 Inl e \<Rightarrow> []
               | Inr visible \<Rightarrow>
                   let out = filter (\<lambda>d. 0 < do_DriverID d \<and> do_DriverID d \<in> visible) drivers
                   in if limit > 0 then take (nat limit) out else out)"

definition trip_job :: "DriverLatestTrip \<Rightarrow> DriverActiveJob" where
  "trip_job trip =
     \<lparr>aj_Destination = lt_Destination trip, aj_TripID = lt_TripID trip, aj_VehicleTypeID = lt_VehicleTypeID trip,
      aj_VehicleTypeImage = lt_VehicleTypeImage trip, aj_HasShipping = False, aj_LatestTrip = Some trip\<rparr>"

definition attachActiveShippings :: "driver_repo option \<Rightarrow> DriverLocation list \<Rightarrow> DriverLocation list" where
  "attachActiveShippings shippings drivers =
     (case shippings of
        None \<Rightarrow> drivers
      | Some repo \<Rightarrow>
          let userIDs = user_ids drivers in
          if userIDs = [] then drivers
          else case sr_jobs repo userIDs of
                 Inl e \<Rightarrow> drivers
               | Inr byUser \<Rightarrow>
                   let noShippingIDs = filter (\<lambda>i. byUser i = None) userIDs;
                       latestTrips = (if noShippingIDs = [] then Map.empty
                                      else case sr_trips repo noShippingIDs of Inl e \<Rightarrow> Map.empty | Inr m \<Rightarrow> m)
                   in map (\<lambda>d. if do_DriverID d \<le> 0 then d
                               else case byUser (do_DriverID d) of
                                      Some job \<Rightarrow> d\<lparr>do_Active := Some (job\<lparr>aj_HasShipping := True\<rparr>)\<rparr>
                                    | None \<Rightarrow>
                                        (case latestTrips (do_DriverID d) of
                                           Some trip \<Rightarrow> d\<lparr>do_Active := Some (trip_job trip)\<rparr>
                                         | None \<Rightarrow> d)) drivers)"

record NearbyDriverResponse =
  nd_Timestamp :: int
  nd_Lat :: float64
  nd_Lng :: float64
  nd_RadiusKm :: float64
  nd_Limit :: int
  nd_Count :: int
  nd_Drivers :: "DriverLocation list"

definition search_radius :: "float64 \<Rightarrow> float64 \<Rightarrow> float64" where
  "search_radius dflt radiusKm =
     (let r = (if radiusKm \<le> 0 then dflt else radiusKm) in if r > maxNearbySearchRadiusKm then maxNearbySearchRadiusKm else r)"

definition search_limit :: "int \<Rightarrow> int \<Rightarrow> int" where
  "search_limit dflt limit =
     (let l = (if limit \<le> 0 then dflt else limit) in if l > maxShipmentLimit then maxShipmentLimit else l)"

definition candidate_limit :: "int \<Rightarrow> int" where
  "candidate_limit limit = (if limit * 3 > maxShipmentLimit then maxShipmentLimit else limit * 3)"

definition excluded :: "int \<Rightarrow> DriverLocationState \<Rightarrow> bool" where
  "excluded excludeUserID s \<longleftrightarrow> excludeUserID > 0 \<and> parseDriverUserID (dl_ID s) = Some excludeUserID"

definition SearchNearby ::
  "'s driver_service \<Rightarrow> int \<Rightarrow> 's \<Rightarrow> float64 \<Rightarrow> float64 \<Rightarrow> float64 \<Rightarrow> int \<Rightarrow> int
   \<Rightarrow> (driver_error + NearbyDriverResponse) \<times> 's" where
  "SearchNearby svc now st lat lng radiusKm limit excludeUserID =
     (case usable svc of
        None \<Rightarrow> (Inl ErrDriverLocationDisabled, st)
      | Some gr \<Rightarrow>
          let radiusKm = search_radius (ds_defaultRadiusKm svc) radiusKm;
              limit = search_limit (ds_defaultLimit svc) limit
          in case FindNearbyDrivers gr st (ds_geoKey svc) lat lng radiusKm (candidate_limit limit) of
               (Inl e, st') \<Rightarrow> (Inl (RedisFailed e), st')
             | (Inr states, st') \<Rightarrow>
                 let drivers = map location_of_state (filter (\<lambda>s. \<not> excluded excludeUserID s) states);
                     drivers = filterVisibleOnMap (ds_shippings svc) drivers limit;
                     drivers = attachActiveShippings (ds_shippings svc) drivers
                 in (Inr \<lparr>nd_Timestamp = now, nd_Lat = lat, nd_Lng = lng, nd_RadiusKm = radiusKm, nd_Limit = limit,
                          nd_Count = int (length drivers), nd_Drivers = drivers\<rparr>, st'))"

section \<open>The endpoints\<close>

definition driver_mapServiceError :: "driver_error \<Rightarrow> http_failure" where
  "driver_mapServiceError e =
     (case e of
        ErrDriverIDRequired \<Rightarrow> (422, ''VALIDATION_ERROR'', ''driver_id is required'')
      | ErrDriverLocationDisabled \<Rightarrow> (503, ''DRIVER_LOCATION_DISABLED'', ''driver location service is not configured'')
      | ErrDriverLocationNotFound \<Rightarrow> (404, ''NOT_FOUND'', ''no live location found for this user'')
      | RedisFailed _ \<Rightarrow> (500, ''INTERNAL_ERROR'', ''internal error; please retry''))"

definition disabled_failure :: http_failure where
  "disabled_failure = (503, ''DRIVER_LOCATION_DISABLED'', ''driver location service is not configured'')"

definition le_sign :: string where "le_sign = [CHR 0xE2, CHR 0x89, CHR 0xA4]"

definition driver_coords_failure :: http_failure where
  "driver_coords_failure = ValidationFail
     (''coordinates out of valid range (-90 '' @ le_sign @ '' lat '' @ le_sign @ '' 90, -180 '' @ le_sign @ '' lng '' @ le_sign @ '' 180)'')"

definition resolveAuthenticatedDriverID :: "auth_context \<Rightarrow> string \<Rightarrow> http_failure + string" where
  "resolveAuthenticatedDriverID c bodyDriverID =
     (if AuthenticatedWithAPIKey c
      then (let i = TrimSpace bodyDriverID in
            if i = [] then Inl (400, ''DRIVER_ID_REQUIRED'', ''driver_id is required for API-key clients'') else Inr i)
      else case AuthenticatedUserID c of
        None \<Rightarrow> Inl (401, ''UNAUTHORIZED'', ''authenticated user is required'')
      | Some userID \<Rightarrow> Inr (FormatInt userID))"

text \<open>
  The id in a body may be a JSON string or a number; \<open>unquote\<close> is \<open>json.Unmarshal\<close> into a string.
\<close>

definition StringID_UnmarshalJSON :: "(string \<Rightarrow> string + string) \<Rightarrow> string \<Rightarrow> string + string" where
  "StringID_UnmarshalJSON unquote data =
     (let raw = TrimSpace data in
      if raw = [] \<or> raw = ''null'' then Inr []
      else if take 1 raw = [CHR 0x22]
      then (case unquote data of Inl e \<Rightarrow> Inl e | Inr v \<Rightarrow> Inr (TrimSpace v))
      else Inr raw)"

text \<open>The body is the decoder's error, if any, and the request as far as it was filled.\<close>

type_synonym location_body = "string option \<times> DriverLocationRequest"

definition driver_UpdateLocation ::
  "'s driver_service option \<Rightarrow> int \<Rightarrow> auth_context \<Rightarrow> location_body \<Rightarrow> 's \<Rightarrow> (int \<times> DriverLocation) reply \<times> 's" where
  "driver_UpdateLocation svc now c body st =
     (case svc of
        None \<Rightarrow> (Failed disabled_failure, st)
      | Some svc \<Rightarrow>
          (case body of
             (Some msg, req) \<Rightarrow> (Failed (400, ''INVALID_JSON'', msg), st)
           | (None, req) \<Rightarrow>
               if \<not> ValidCoords (dq_Lat req) (dq_Lng req) then (Failed driver_coords_failure, st)
               else case resolveAuthenticatedDriverID c (dq_DriverID req) of
                 Inl f \<Rightarrow> (Failed f, st)
               | Inr driverID \<Rightarrow>
                   (case UpdateLocation svc now st (req\<lparr>dq_DriverID := driverID\<rparr>) of
                      (Inl e, st') \<Rightarrow> (Failed (driver_mapServiceError e), st')
                    | (Inr r, st') \<Rightarrow> (Sent r, st'))))"

definition driver_GoOffline ::
  "'s driver_service option \<Rightarrow> auth_context \<Rightarrow> location_body \<Rightarrow> 's \<Rightarrow> string reply \<times> 's" where
  "driver_GoOffline svc c body st =
     (case svc of
        None \<Rightarrow> (Failed disabled_failure, st)
      | Some svc \<Rightarrow>
          (case resolveAuthenticatedDriverID c (dq_DriverID (snd body)) of
             Inl f \<Rightarrow> (Failed f, st)
           | Inr driverID \<Rightarrow>
               (case RemoveLocation svc st driverID of
                  (Some e, st') \<Rightarrow> (Failed (driver_mapServiceError e), st')
                | (None, st') \<Rightarrow> (Sent driverID, st'))))"

definition authorizeUserLocationRead :: "auth_context \<Rightarrow> trip_owners \<Rightarrow> int \<Rightarrow> http_failure option" where
  "authorizeUserLocationRead c userACL targetID =
     (if AuthenticatedWithAPIKey c then None
      else case AuthenticatedUserID c of
        None \<Rightarrow> Some (401, ''UNAUTHORIZED'', ''authenticated user is required'')
      | Some viewerID \<Rightarrow>
          if viewerID = targetID then None
          else case userACL of
            None \<Rightarrow> Some (503, ''AUTHORIZATION_UNAVAILABLE'', ''user location authorization is not configured'')
          | Some share \<Rightarrow>
              (case share viewerID targetID of
                 None \<Rightarrow> Some (500, ''INTERNAL_ERROR'', ''internal error; please retry'')
               | Some allowed \<Rightarrow> if \<not> allowed then Some (403, ''FORBIDDEN'', ''user location access denied'') else None))"

definition driver_GetUserLocation ::
  "'s driver_service option \<Rightarrow> auth_context \<Rightarrow> trip_owners \<Rightarrow> string \<Rightarrow> 's \<Rightarrow> DriverLocation reply" where
  "driver_GetUserLocation svc c userACL param st =
     (case svc of
        None \<Rightarrow> Failed disabled_failure
      | Some svc \<Rightarrow>
          (case ParseInt (TrimSpace param) of
             None \<Rightarrow> Failed (400, ''INVALID_USER_ID'', ''user id must be a positive integer'')
           | Some targetID \<Rightarrow>
               if targetID \<le> 0 then Failed (400, ''INVALID_USER_ID'', ''user id must be a positive integer'')
               else case authorizeUserLocationRead c userACL targetID of
                 Some f \<Rightarrow> Failed f
               | None \<Rightarrow>
                   (case GetPresence svc st (FormatInt targetID) of
                      Inl e \<Rightarrow> Failed (driver_mapServiceError e)
                    | Inr l \<Rightarrow> Sent l)))"

text \<open>
  \<open>GPSHandler.Update\<close> as a whole: without a trip it updates the position of the caller, with
  one it goes on as in the theory of trips.  Seconds become milliseconds in 64 bits.
\<close>

definition resolvePresenceUserID :: "auth_context \<Rightarrow> http_failure + string" where
  "resolvePresenceUserID c =
     (if AuthenticatedWithAPIKey c
      then Inl (ValidationFail ''trip_id is required for API-key clients; JWT Bearer clients omit trip_id to update user presence'')
      else case AuthenticatedUserID c of
        None \<Rightarrow> Inl (401, ''UNAUTHORIZED'', ''authenticated user is required'')
      | Some userID \<Rightarrow> Inr (FormatInt userID))"

definition gps_updatePresence ::
  "'s driver_service option \<Rightarrow> int \<Rightarrow> auth_context \<Rightarrow> GPSUpdate \<Rightarrow> 's \<Rightarrow> (int \<times> DriverLocation) reply \<times> 's" where
  "gps_updatePresence presence now c u st =
     (case presence of
        None \<Rightarrow> (Failed (503, ''PRESENCE_DISABLED'', ''user location updates are not configured''), st)
      | Some svc \<Rightarrow>
          (case resolvePresenceUserID c of
             Inl f \<Rightarrow> (Failed f, st)
           | Inr userID \<Rightarrow>
               let timestampMs = (if gu_Timestamp u > 0 then sint (word_of_int (gu_Timestamp u * 1000) :: 64 word) else 0) in
               (case UpdatePresence svc now st userID (gu_Lat u) (gu_Lng u) timestampMs of
                  (Inl e, st') \<Rightarrow> (Failed (500, ''INTERNAL_ERROR'', ''failed to update user location''), st')
                | (Inr r, st') \<Rightarrow> (Sent r, st'))))"

datatype gps_answer = GpsTrip LocationState | GpsPresence int DriverLocation | GpsFailed http_failure

text \<open>The body decoded or the decoder's message; the two services keep separate keys.\<close>

definition gps_Update ::
  "'s redis \<Rightarrow> GPSConfig \<Rightarrow> bool \<Rightarrow> trip_owners \<Rightarrow> 'p driver_service option \<Rightarrow> int \<Rightarrow> auth_context \<Rightarrow> string + GPSUpdate
   \<Rightarrow> 's \<Rightarrow> 'p \<Rightarrow> gps_answer \<times> 's \<times> 'p \<times> (LocationState \<times> float64) option" where
  "gps_Update rd cfg requireAuth authz presence now c body st pst =
     (case body of
        Inl msg \<Rightarrow> (GpsFailed (400, ''INVALID_JSON'', msg), st, pst, None)
      | Inr u \<Rightarrow>
          if \<not> ValidCoords (gu_Lat u) (gu_Lng u) then (GpsFailed coords_failure, st, pst, None)
          else if gu_TripID u \<le> 0
          then (case gps_updatePresence presence now c u pst of
                  (Failed f, pst') \<Rightarrow> (GpsFailed f, st, pst', None)
                | (Sent (t, l), pst') \<Rightarrow> (GpsPresence t l, st, pst', None))
          else case gps_update_handler rd cfg requireAuth c authz st u of
                 (Failed f, st', job) \<Rightarrow> (GpsFailed f, st', pst, job)
               | (Sent l, st', job) \<Rightarrow> (GpsTrip l, st', pst, job))"

section \<open>What is relied on of Redis\<close>

text \<open>
  The part of the server's state the service uses: the members of each geo index and the hash
  at each key.  A pipeline without an error has run all its commands in order; one that
  failed has run some of them (Redis refuses a position beyond 85 degrees of latitude and still
  runs the others).  A search finds members, each once, the nearest first, within the radius
  and no more than asked for.
\<close>

record geo_view =
  gv_members :: "string \<Rightarrow> string list"
  gv_hash :: "string \<Rightarrow> string \<Rightarrow> field_value option"

definition put_fields :: "(string \<times> field_value) list \<Rightarrow> (string \<Rightarrow> field_value option) \<Rightarrow> (string \<Rightarrow> field_value option)" where
  "put_fields fs m = foldl (\<lambda>m (f, v). m(f \<mapsto> v)) m fs"

fun apply_cmd :: "redis_cmd \<Rightarrow> geo_view \<Rightarrow> geo_view" where
  "apply_cmd (GeoAdd k n x y) v = v\<lparr>gv_members := (gv_members v)(k := List.insert n (gv_members v k))\<rparr>"
| "apply_cmd (HSet k fs) v = v\<lparr>gv_hash := (gv_hash v)(k := put_fields fs (gv_hash v k))\<rparr>"
| "apply_cmd (Expire k t) v = v"
| "apply_cmd (XAdd k n fs) v = v"
| "apply_cmd (ZRem k n) v = v\<lparr>gv_members := (gv_members v)(k := removeAll n (gv_members v k))\<rparr>"
| "apply_cmd (Del k) v = v\<lparr>gv_members := (gv_members v)(k := []), gv_hash := (gv_hash v)(k := Map.empty)\<rparr>"

definition exec_ok :: "'s geo_redis \<Rightarrow> ('s \<Rightarrow> geo_view) \<Rightarrow> bool" where
  "exec_ok gr view \<longleftrightarrow>
     (\<forall>s cs e s'. gr_exec gr s cs = (e, s') \<longrightarrow>
        (\<exists>I. view s' = fold apply_cmd (nths cs I) (view s) \<and> (e = None \<longrightarrow> {..<length cs} \<subseteq> I)))"

definition hgetall_ok :: "'s geo_redis \<Rightarrow> ('s \<Rightarrow> geo_view) \<Rightarrow> bool" where
  "hgetall_ok gr view \<longleftrightarrow> (\<forall>s k m. gr_hgetall gr s k = Inr m \<longrightarrow> m = gv_hash (view s) k)"

definition hits_ok :: "string list \<Rightarrow> float64 \<Rightarrow> int \<Rightarrow> geo_hit list \<Rightarrow> bool" where
  "hits_ok ns radius n hits \<longleftrightarrow>
     distinct (map gh_Name hits) \<and> set (map gh_Name hits) \<subseteq> set ns \<and> int (length hits) \<le> n
     \<and> sorted (map gh_Dist hits) \<and> (\<forall>h\<in>set hits. 0 \<le> gh_Dist h \<and> gh_Dist h \<le> radius)"

definition geosearch_ok :: "'s geo_redis \<Rightarrow> ('s \<Rightarrow> geo_view) \<Rightarrow> bool" where
  "geosearch_ok gr view \<longleftrightarrow>
     (\<forall>s k lat lng r n hits. 0 < n \<longrightarrow> gr_geosearch gr s k lat lng r n = Inr hits \<longrightarrow> hits_ok (gv_members (view s) k) r n hits)"

definition geo_ok :: "'s geo_redis \<Rightarrow> ('s \<Rightarrow> geo_view) \<Rightarrow> bool" where
  "geo_ok gr view \<longleftrightarrow> exec_ok gr view \<and> hgetall_ok gr view \<and> geosearch_ok gr view"

lemma exec_view:
  assumes "geo_ok gr view" "gr_exec gr s cs = (e, s')"
  obtains I where "view s' = fold apply_cmd (nths cs I) (view s)"
  using assms unfolding geo_ok_def exec_ok_def by blast

lemma exec_view_all:
  assumes "geo_ok gr view" "gr_exec gr s cs = (None, s')"
  shows "view s' = fold apply_cmd cs (view s)"
proof -
  obtain I where "view s' = fold apply_cmd (nths cs I) (view s)" "{..<length cs} \<subseteq> I"
    using assms unfolding geo_ok_def exec_ok_def by blast
  then show ?thesis by (simp add: nths_all subset_iff)
qed

lemma hgetall_view: "geo_ok gr view \<Longrightarrow> gr_hgetall gr s k = Inr m \<Longrightarrow> m = gv_hash (view s) k"
  unfolding geo_ok_def hgetall_ok_def by blast

lemma geosearch_hits:
  "geo_ok gr view \<Longrightarrow> gr_geosearch gr s k lat lng r n = Inr hits \<Longrightarrow> 0 < n \<Longrightarrow> hits_ok (gv_members (view s) k) r n hits"
  unfolding geo_ok_def geosearch_ok_def by blast

text \<open>What a sequence of commands leaves alone.\<close>

fun spares_member :: "string \<Rightarrow> string \<Rightarrow> redis_cmd \<Rightarrow> bool" where
  "spares_member g d (GeoAdd k n x y) \<longleftrightarrow> k \<noteq> g \<or> n \<noteq> d"
| "spares_member g d (ZRem k n) \<longleftrightarrow> k \<noteq> g \<or> n \<noteq> d"
| "spares_member g d (Del k) \<longleftrightarrow> k \<noteq> g"
| "spares_member g d c \<longleftrightarrow> True"

fun spares_hash :: "string \<Rightarrow> redis_cmd \<Rightarrow> bool" where
  "spares_hash h (HSet k fs) \<longleftrightarrow> k \<noteq> h"
| "spares_hash h (Del k) \<longleftrightarrow> k \<noteq> h"
| "spares_hash h c \<longleftrightarrow> True"

lemma fold_spares_member:
  "list_all (spares_member g d) cs \<Longrightarrow> d \<in> set (gv_members (fold apply_cmd cs v) g) \<longleftrightarrow> d \<in> set (gv_members v g)"
proof (induction cs arbitrary: v)
  case (Cons c cs)
  then show ?case by (cases c) auto
qed simp

lemma fold_spares_hash:
  "list_all (spares_hash h) cs \<Longrightarrow> gv_hash (fold apply_cmd cs v) h = gv_hash v h"
proof (induction cs arbitrary: v)
  case (Cons c cs)
  then show ?case by (cases c) auto
qed simp

lemma list_all_nths: "list_all P xs \<Longrightarrow> list_all P (nths xs I)"
  by (auto simp: list_all_iff dest: in_set_nthsD)

lemma exec_spares:
  assumes "geo_ok gr view" "gr_exec gr s cs = (e, s')"
  shows "list_all (spares_member g d) cs \<Longrightarrow> d \<in> set (gv_members (view s') g) \<longleftrightarrow> d \<in> set (gv_members (view s) g)"
    and "list_all (spares_hash h) cs \<Longrightarrow> gv_hash (view s') h = gv_hash (view s) h"
  using exec_view [OF assms] fold_spares_member [OF list_all_nths] fold_spares_hash [OF list_all_nths] by metis+

lemma DriverLocationKey_inj [simp]: "DriverLocationKey a = DriverLocationKey b \<longleftrightarrow> a = b"
  by (simp add: DriverLocationKey_def)

text \<open>The geo index has a key of its own.\<close>

definition own_key :: "string \<Rightarrow> bool" where
  "own_key g \<longleftrightarrow> (\<forall>d. g \<noteq> DriverLocationKey d)"

section \<open>What a search shows\<close>

lemma getDriverLocationState_view:
  assumes "geo_ok gr view" "getDriverLocationState gr st d = Some s"
  shows "state_of_hash gr d (gv_hash (view st) (DriverLocationKey d)) = Some s \<and> dl_ID s = d \<and> dl_DistanceKm s = 0"
proof -
  obtain m where m: "gr_hgetall gr st (DriverLocationKey d) = Inr m" "state_of_hash gr d m = Some s"
    using assms(2) by (auto simp: getDriverLocationState_def split: sum.splits)
  have "dl_ID s = d \<and> dl_DistanceKm s = 0"
    using m(2) by (auto simp: state_of_hash_def split: if_splits option.splits)
  with m hgetall_view [OF assms(1) m(1)] show ?thesis by simp
qed

lemma zrem_hash:
  assumes "geo_ok gr view"
  shows "gv_hash (view (snd (gr_exec gr st [ZRem g n]))) h = gv_hash (view st) h"
  by (rule exec_spares(2) [OF assms]) (auto simp: prod_eq_iff)

text \<open>A driver the search found: its place and its live position.\<close>

definition found_at :: "'s geo_redis \<Rightarrow> geo_view \<Rightarrow> geo_hit \<Rightarrow> DriverLocationState \<Rightarrow> bool" where
  "found_at gr v m s \<longleftrightarrow> dl_ID s = gh_Name m \<and> dl_DistanceKm s = gh_Dist m
     \<and> state_of_hash gr (gh_Name m) (gv_hash v (DriverLocationKey (gh_Name m))) = Some (s\<lparr>dl_DistanceKm := 0\<rparr>)"

lemma found_at_hash: "gv_hash v = gv_hash v' \<Longrightarrow> found_at gr v = found_at gr v'"
  by (rule ext)+ (simp add: found_at_def)

lemma nearby_states_found:
  assumes "geo_ok gr view" "nearby_states gr g ms st = (ss, st')"
  shows "\<forall>s\<in>set ss. \<exists>m\<in>set ms. found_at gr (view st) m s"
  using assms(2)
proof (induction ms arbitrary: st ss)
  case (Cons m ms)
  show ?case
  proof (cases "getDriverLocationState gr st (gh_Name m)")
    case None
    let ?st = "snd (gr_exec gr st [ZRem g (gh_Name m)])"
    have "gv_hash (view ?st) = gv_hash (view st)" using zrem_hash [OF assms(1)] by blast
    moreover have "\<forall>s\<in>set ss. \<exists>m\<in>set ms. found_at gr (view ?st) m s" using Cons None by simp
    ultimately show ?thesis using found_at_hash [of "view ?st" "view st" gr] by auto
  next
    case (Some s)
    then obtain ts where ts: "nearby_states gr g ms st = (ts, st')" "ss = s\<lparr>dl_DistanceKm := gh_Dist m\<rparr> # ts"
      using Cons.prems by (auto split: prod.splits)
    have "found_at gr (view st) m (s\<lparr>dl_DistanceKm := gh_Dist m\<rparr>)"
      using getDriverLocationState_view [OF assms(1) Some] by (auto simp: found_at_def)
    with ts Cons.IH [OF ts(1)] show ?thesis by auto
  qed
qed simp

lemma getDriverLocationState_id: "getDriverLocationState gr st d = Some s \<Longrightarrow> dl_ID s = d"
  by (auto simp: getDriverLocationState_def state_of_hash_def split: sum.splits if_splits option.splits)

lemma nearby_states_order:
  assumes "nearby_states gr g ms st = (ss, st')"
  shows "set (map dl_ID ss) \<subseteq> set (map gh_Name ms) \<and> set (map dl_DistanceKm ss) \<subseteq> set (map gh_Dist ms)
    \<and> length ss \<le> length ms
    \<and> (distinct (map gh_Name ms) \<longrightarrow> distinct (map dl_ID ss)) \<and> (sorted (map gh_Dist ms) \<longrightarrow> sorted (map dl_DistanceKm ss))"
  using assms(1)
proof (induction ms arbitrary: st ss)
  case (Cons m ms)
  show ?case
  proof (cases "getDriverLocationState gr st (gh_Name m)")
    case None
    with Cons.prems Cons.IH [of "snd (gr_exec gr st [ZRem g (gh_Name m)])" ss] show ?thesis by auto
  next
    case (Some s)
    then obtain ts where ts: "nearby_states gr g ms st = (ts, st')" "ss = s\<lparr>dl_DistanceKm := gh_Dist m\<rparr> # ts"
      using Cons.prems by (auto split: prod.splits)
    note ih = Cons.IH [OF ts(1)]
    have "distinct (map gh_Name (m # ms)) \<longrightarrow> distinct (map dl_ID ss)"
      using ih ts(2) getDriverLocationState_id [OF Some] by auto
    moreover have "sorted (map gh_Dist (m # ms)) \<longrightarrow> sorted (map dl_DistanceKm ss)"
      using ih ts(2) by auto
    ultimately show ?thesis using ih ts(2) getDriverLocationState_id [OF Some] by auto
  qed
qed simp

lemma nearby_states_order':
  assumes "nearby_states gr g ms st = (ss, st')"
  shows "length ss \<le> length ms" "distinct (map gh_Name ms) \<Longrightarrow> distinct (map dl_ID ss)"
    "sorted (map gh_Dist ms) \<Longrightarrow> sorted (map dl_DistanceKm ss)"
  using nearby_states_order [OF assms] by blast+

definition core :: "DriverLocation \<Rightarrow> DriverLocation" where
  "core d = d\<lparr>do_Active := None\<rparr>"

lemma attach_core: "map core (attachActiveShippings sh ds) = map core ds"
  by (auto simp: attachActiveShippings_def core_def Let_def split: option.splits sum.splits)

lemma core_fields [simp]:
  "do_ID (core d) = do_ID d" "do_DriverID (core d) = do_DriverID d" "do_Lat (core d) = do_Lat d"
  "do_Lng (core d) = do_Lng d" "do_TimestampMs (core d) = do_TimestampMs d" "do_DistanceKm (core d) = do_DistanceKm d"
  by (simp_all add: core_def)

lemma attach_field_map: "(\<And>d. f (core d) = f d) \<Longrightarrow> map f (attachActiveShippings sh ds) = map f ds"
proof -
  assume "\<And>d. f (core d) = f d"
  then have "f \<circ> core = f" by auto
  with arg_cong [OF attach_core, of "map f" sh ds] show ?thesis by simp
qed

lemma filterVisible_cases:
  obtains (none) "filterVisibleOnMap sh ds limit = []"
  | (some) repo visible where "sh = Some repo" "sr_visible repo (user_ids ds) = Inr visible"
      "filterVisibleOnMap sh ds limit =
         (if limit > 0 then take (nat limit) (filter (\<lambda>d. 0 < do_DriverID d \<and> do_DriverID d \<in> visible) ds)
          else filter (\<lambda>d. 0 < do_DriverID d \<and> do_DriverID d \<in> visible) ds)"
  unfolding filterVisibleOnMap_def Let_def
  by (cases "ds = []"; cases sh; cases "user_ids ds = []"; cases "sr_visible (the sh) (user_ids ds)") simp_all

lemma filterVisible_spec:
  assumes "d \<in> set (filterVisibleOnMap sh ds limit)"
  shows "d \<in> set ds \<and> 0 < do_DriverID d
    \<and> (\<exists>repo ids visible. sh = Some repo \<and> do_DriverID d \<in> set ids \<and> sr_visible repo ids = Inr visible \<and> do_DriverID d \<in> visible)"
proof (cases rule: filterVisible_cases [of sh ds limit])
  case none
  with assms show ?thesis by simp
next
  case (some repo visible)
  then have "d \<in> set ds \<and> 0 < do_DriverID d \<and> do_DriverID d \<in> visible"
    using assms by (auto dest: in_set_takeD split: if_splits)
  moreover from this have "do_DriverID d \<in> set (user_ids ds)" by (auto simp: user_ids_def)
  ultimately show ?thesis using some(1,2) by blast
qed

lemma distinct_map_take_filter: "distinct (map f xs) \<Longrightarrow> distinct (map f (take n (filter P xs))) \<and> distinct (map f (filter P xs))"
  by (simp add: distinct_map_filter take_map [symmetric])

lemma sorted_map_take_filter: "sorted (map f xs) \<Longrightarrow> sorted (map f (take n (filter P xs))) \<and> sorted (map f (filter P xs))"
  for f :: "'a \<Rightarrow> 'b::linorder"
  by (simp add: sorted_filter take_map [symmetric] sorted_wrt_take)

lemma filterVisible_order:
  fixes g :: "DriverLocation \<Rightarrow> float64"
  shows "(distinct (map f ds) \<longrightarrow> distinct (map f (filterVisibleOnMap sh ds limit)))
   \<and> (sorted (map g ds) \<longrightarrow> sorted (map g (filterVisibleOnMap sh ds limit)))
   \<and> (0 < limit \<longrightarrow> int (length (filterVisibleOnMap sh ds limit)) \<le> limit)"
proof (cases rule: filterVisible_cases [of sh ds limit])
  case (some repo visible)
  have "0 < limit \<Longrightarrow> int (min a (nat limit)) \<le> limit" for a by linarith
  with some show ?thesis using distinct_map_take_filter [of f ds] sorted_map_take_filter [of g ds] by simp
qed simp

lemma clamp_default_bounds: "1 \<le> clamp_default n \<and> clamp_default n \<le> 500"
  by (simp add: clamp_default_def Let_def defaultShipmentLimit_def maxShipmentLimit_def)

lemma search_limit_bounds: "1 \<le> default_limit \<Longrightarrow> 1 \<le> search_limit default_limit n \<and> search_limit default_limit n \<le> 500"
  by (simp add: search_limit_def Let_def maxShipmentLimit_def)

lemma search_radius_bounds: "0 < default_radius \<Longrightarrow> 0 < search_radius default_radius r \<and> search_radius default_radius r \<le> 50"
  by (simp add: search_radius_def Let_def maxNearbySearchRadiusKm_def)

lemma FindNearbyDrivers_found:
  assumes "geo_ok gr view" "0 < n" "FindNearbyDrivers gr st g lat lng r n = (Inr ss, st')" "TrimSpace g = g"
  shows "distinct (map dl_ID ss) \<and> sorted (map dl_DistanceKm ss) \<and> int (length ss) \<le> n"
    and "s \<in> set ss \<Longrightarrow> dl_ID s \<in> set (gv_members (view st) g) \<and> 0 \<le> dl_DistanceKm s \<and> dl_DistanceKm s \<le> r
      \<and> state_of_hash gr (dl_ID s) (gv_hash (view st) (DriverLocationKey (dl_ID s))) = Some (s\<lparr>dl_DistanceKm := 0\<rparr>)"
proof -
  obtain ms where ms: "gr_geosearch gr st g lat lng r n = Inr ms" "nearby_states gr g ms st = (ss, st')"
    using assms(3,4) by (auto simp: FindNearbyDrivers_def FindNearbyGeoMembers_def split: if_splits sum.splits prod.splits)
  have hits: "hits_ok (gv_members (view st) g) r n ms" by (rule geosearch_hits [OF assms(1) ms(1) assms(2)])
  show "distinct (map dl_ID ss) \<and> sorted (map dl_DistanceKm ss) \<and> int (length ss) \<le> n"
    using nearby_states_order' [OF ms(2)] hits unfolding hits_ok_def by linarith
  assume "s \<in> set ss"
  then obtain m where "m \<in> set ms" "found_at gr (view st) m s" using nearby_states_found [OF assms(1) ms(2)] by blast
  with hits show "dl_ID s \<in> set (gv_members (view st) g) \<and> 0 \<le> dl_DistanceKm s \<and> dl_DistanceKm s \<le> r
      \<and> state_of_hash gr (dl_ID s) (gv_hash (view st) (DriverLocationKey (dl_ID s))) = Some (s\<lparr>dl_DistanceKm := 0\<rparr>)"
    by (auto simp: hits_ok_def found_at_def)
qed

text \<open>A driver that may be shown: a visible user other than the searcher, live, and within reach.\<close>

definition may_show :: "'s geo_redis \<Rightarrow> geo_view \<Rightarrow> string \<Rightarrow> driver_repo option \<Rightarrow> int \<Rightarrow> float64 \<Rightarrow> DriverLocation \<Rightarrow> bool" where
  "may_show gr v g sh excludeUserID r d \<longleftrightarrow>
     0 < do_DriverID d \<and> do_DriverID d \<noteq> excludeUserID \<and> parseDriverUserID (do_ID d) = Some (do_DriverID d)
     \<and> 0 \<le> do_DistanceKm d \<and> do_DistanceKm d \<le> r
     \<and> (\<exists>repo ids visible. sh = Some repo \<and> do_DriverID d \<in> set ids \<and> sr_visible repo ids = Inr visible \<and> do_DriverID d \<in> visible)
     \<and> do_ID d \<in> set (gv_members v g)
     \<and> state_of_hash gr (do_ID d) (gv_hash v (DriverLocationKey (do_ID d)))
         = Some \<lparr>dl_ID = do_ID d, dl_Lat = do_Lat d, dl_Lng = do_Lng d, dl_TimestampMs = do_TimestampMs d, dl_DistanceKm = 0\<rparr>"

lemma may_show_core: "may_show gr v g sh e r (core d) \<longleftrightarrow> may_show gr v g sh e r d"
  by (simp add: may_show_def)

lemma attach_all: "(\<And>d. P (core d) \<longleftrightarrow> P d) \<Longrightarrow> \<forall>d\<in>set ds. P d \<Longrightarrow> \<forall>d\<in>set (attachActiveShippings sh ds). P d"
  by (metis (no_types, lifting) attach_core image_iff image_set)

lemma location_of_state_fields [simp]:
  "do_ID (location_of_state s) = dl_ID s" "do_DistanceKm (location_of_state s) = dl_DistanceKm s"
  "do_Lat (location_of_state s) = dl_Lat s" "do_Lng (location_of_state s) = dl_Lng s"
  "do_TimestampMs (location_of_state s) = dl_TimestampMs s"
  "do_DriverID (location_of_state s) = (case parseDriverUserID (dl_ID s) of Some i \<Rightarrow> i | None \<Rightarrow> 0)"
  by (simp_all add: location_of_state_def)

lemma nearby_may_show:
  assumes "geo_ok gr view" "0 < n" "FindNearbyDrivers gr st g lat lng r n = (Inr ss, st')" "TrimSpace g = g"
    and "d \<in> set (filterVisibleOnMap sh (map location_of_state (filter (\<lambda>s. \<not> excluded e s) ss)) limit)"
  shows "may_show gr (view st) g sh e r d"
proof -
  note vis = filterVisible_spec [OF assms(5)]
  then obtain s where s: "s \<in> set ss" "\<not> excluded e s" "d = location_of_state s" by auto
  note f = FindNearbyDrivers_found(2) [OF assms(1-4) s(1)]
  obtain i where i: "parseDriverUserID (dl_ID s) = Some i" "0 < i" using vis s(3) by (auto split: option.splits)
  have "i \<noteq> e" using s(2) i by (auto simp: excluded_def)
  with vis f s(3) i show ?thesis by (auto simp: may_show_def)
qed

lemma TrimSpace_idem [simp]: "TrimSpace (TrimSpace s) = TrimSpace s"
proof -
  let ?a = "dropWhile is_space s"
  let ?t = "rev (dropWhile is_space (rev ?a))"
  obtain ws where a: "?a = ?t @ ws"
    using takeWhile_dropWhile_id [of is_space "rev ?a"] by (metis rev_append rev_rev_ident)
  have "dropWhile is_space ?t = ?t"
  proof (cases ?t)
    case (Cons c t)
    then have "?a = c # t @ ws" using a by simp
    then have "\<not> is_space c" using hd_dropWhile [of is_space s] by force
    with Cons show ?thesis by simp
  next
    case Nil
    then show ?thesis by (simp only: dropWhile.simps)
  qed
  then show ?thesis by (simp add: TrimSpace_def)
qed

lemma usable_New: "usable (NewDriverService (Some gr) gk sk R0 L0 sh) = (if TrimSpace gk = [] then None else Some gr)"
  by (simp add: usable_def NewDriverService_def)

lemma SearchNearby_shape:
  assumes "SearchNearby (NewDriverService (Some gr) gk sk R0 L0 sh) now st lat lng radiusKm limit e = (Inr r, st')"
  obtains ss where "FindNearbyDrivers gr st (TrimSpace gk) lat lng (nd_RadiusKm r) (candidate_limit (nd_Limit r)) = (Inr ss, st')"
    "nd_Drivers r = attachActiveShippings sh
       (filterVisibleOnMap sh (map location_of_state (filter (\<lambda>s. \<not> excluded e s) ss)) (nd_Limit r))"
    "nd_Count r = int (length (nd_Drivers r))" "1 \<le> nd_Limit r \<and> nd_Limit r \<le> 500" "0 < nd_RadiusKm r \<and> nd_RadiusKm r \<le> 50"
proof -
  let ?svc = "NewDriverService (Some gr) gk sk R0 L0 sh"
  have f: "ds_geoKey ?svc = TrimSpace gk" "ds_shippings ?svc = sh" "0 < ds_defaultRadiusKm ?svc" "1 \<le> ds_defaultLimit ?svc"
    using clamp_default_bounds [of L0] by (simp_all add: NewDriverService_def defaultDriverSearchRadiusKm_def)
  note b = search_limit_bounds [OF f(4), of limit] search_radius_bounds [OF f(3), of radiusKm]
  from assms b show thesis
    by (auto simp: SearchNearby_def usable_New f Let_def split: if_splits prod.splits sum.splits intro: that)
qed

text \<open>
  C21. Who a sender sees on the map.  Every driver in the answer is a user whose profile the
  database has just declared visible, is not the sender, has not left or gone silent (its
  hash was there when the search ran, and the position shown is the one in it), and is within
  the radius; nobody is shown twice, the nearest come first, and there are no more of them
  than the limit, itself between 1 and 500, within a radius of at most 50 km.
\<close>

theorem SearchNearby_safe:
  assumes "geo_ok gr view"
    and "SearchNearby (NewDriverService (Some gr) gk sk R0 L0 sh) now st lat lng radiusKm limit e = (Inr r, st')"
  shows "(\<forall>d\<in>set (nd_Drivers r). may_show gr (view st) (TrimSpace gk) sh e (nd_RadiusKm r) d)
    \<and> distinct (map do_ID (nd_Drivers r)) \<and> sorted (map do_DistanceKm (nd_Drivers r))
    \<and> nd_Count r = int (length (nd_Drivers r)) \<and> nd_Count r \<le> nd_Limit r
    \<and> 1 \<le> nd_Limit r \<and> nd_Limit r \<le> 500 \<and> 0 < nd_RadiusKm r \<and> nd_RadiusKm r \<le> 50"
proof -
  from assms(2) obtain ss where
    found: "FindNearbyDrivers gr st (TrimSpace gk) lat lng (nd_RadiusKm r) (candidate_limit (nd_Limit r)) = (Inr ss, st')"
    and drivers: "nd_Drivers r = attachActiveShippings sh
       (filterVisibleOnMap sh (map location_of_state (filter (\<lambda>s. \<not> excluded e s) ss)) (nd_Limit r))"
    and b: "nd_Count r = int (length (nd_Drivers r))" "1 \<le> nd_Limit r \<and> nd_Limit r \<le> 500" "0 < nd_RadiusKm r \<and> nd_RadiusKm r \<le> 50"
    by (rule SearchNearby_shape) blast
  have n: "0 < candidate_limit (nd_Limit r)" using b(2) by (simp add: candidate_limit_def maxShipmentLimit_def)
  let ?ls = "map location_of_state (filter (\<lambda>s. \<not> excluded e s) ss)"
  note f = FindNearbyDrivers_found(1) [OF assms(1) n found TrimSpace_idem]
  have "distinct (map do_ID ?ls)" "sorted (map do_DistanceKm ?ls)"
    using f distinct_map_take_filter [of dl_ID ss] sorted_map_take_filter [of dl_DistanceKm ss] by (simp_all add: comp_def)
  then have order: "distinct (map do_ID (nd_Drivers r))" "sorted (map do_DistanceKm (nd_Drivers r))"
    using filterVisible_order [of do_ID ?ls sh "nd_Limit r" do_DistanceKm] unfolding drivers
    by (simp_all add: attach_field_map)
  have len: "int (length (nd_Drivers r)) \<le> nd_Limit r"
    using filterVisible_order [of do_ID ?ls sh "nd_Limit r" do_DistanceKm] b(2) arg_cong [OF attach_core, of length sh]
    unfolding drivers by simp
  have "\<forall>d\<in>set (nd_Drivers r). may_show gr (view st) (TrimSpace gk) sh e (nd_RadiusKm r) d"
    unfolding drivers
    by (rule attach_all [where P = "may_show gr (view st) (TrimSpace gk) sh e (nd_RadiusKm r)", OF may_show_core]) (use nearby_may_show [OF assms(1) n found TrimSpace_idem] in blast)
  with order len b show ?thesis by simp
qed

section \<open>Whose position a request touches\<close>

lemma digit_not_space: "is_digit c \<Longrightarrow> \<not> is_space c"
  by (auto simp: is_digit_def is_space_def)

lemma FormatInt_no_space: "\<forall>c\<in>set (FormatInt n). \<not> is_space c"
proof -
  have "\<forall>c\<in>set (nat_text k). \<not> is_space c" for k
    using nat_text_digits [of k] digit_not_space by (auto simp: list_all_iff)
  then show ?thesis by (auto simp: FormatInt_def is_space_def)
qed

lemma dropWhile_none: "\<forall>c\<in>set s. \<not> P c \<Longrightarrow> dropWhile P s = s"
  by (cases s) auto

lemma TrimSpace_FormatInt [simp]: "TrimSpace (FormatInt n) = FormatInt n"
  using FormatInt_no_space [of n] by (simp add: TrimSpace_def dropWhile_none)

lemma FormatInt_not_Nil [simp]: "FormatInt n \<noteq> []"
  using FormatInt_no_comma by blast

lemma own_key_sym: "own_key g \<Longrightarrow> g \<noteq> DriverLocationKey d \<and> DriverLocationKey d \<noteq> g"
  unfolding own_key_def by metis

lemma set_location_spares:
  assumes "own_key g" "dl_ID s \<noteq> d"
  shows "list_all (spares_member g d) (set_location_cmds g sk s)" "list_all (spares_hash (DriverLocationKey d)) (set_location_cmds g sk s)"
  using assms by (auto simp: set_location_cmds_def own_key_def)

text \<open>Everything the index and the hashes hold about one id.\<close>

definition same_presence :: "string \<Rightarrow> string \<Rightarrow> geo_view \<Rightarrow> geo_view \<Rightarrow> bool" where
  "same_presence g d v v' \<longleftrightarrow> (d \<in> set (gv_members v' g) \<longleftrightarrow> d \<in> set (gv_members v g))
     \<and> gv_hash v' (DriverLocationKey d) = gv_hash v (DriverLocationKey d)"

lemma same_presence_refl [simp]: "same_presence g d v v"
  by (simp add: same_presence_def)

lemma exec_same_presence:
  assumes "geo_ok gr view" "gr_exec gr s cs = (e, s')" "list_all (spares_member g d) cs"
    "list_all (spares_hash (DriverLocationKey d)) cs"
  shows "same_presence g d (view s) (view s')"
  using exec_spares [OF assms(1,2)] assms(3,4) by (simp add: same_presence_def)

lemma UpdateLocation_same:
  assumes "geo_ok gr view" "usable svc = Some gr" "own_key (ds_geoKey svc)" "UpdateLocation svc now st req = (x, st')"
    "TrimSpace (dq_DriverID req) \<noteq> d"
  shows "same_presence (ds_geoKey svc) d (view st) (view st')"
proof -
  consider "st' = st" | s e where "gr_exec gr st (set_location_cmds (ds_geoKey svc) (ds_streamKey svc) s) = (e, st')" "dl_ID s \<noteq> d"
    using assms(2,4,5) by (auto simp: UpdateLocation_def SetDriverLocation_def Let_def split: if_splits prod.splits option.splits)
  then show ?thesis
    by cases (use exec_same_presence [OF assms(1) _ set_location_spares [OF assms(3)]] in auto)
qed

lemma RemoveLocation_same:
  assumes "geo_ok gr view" "usable svc = Some gr" "own_key (ds_geoKey svc)" "RemoveLocation svc st i = (x, st')"
    "TrimSpace i \<noteq> d"
  shows "same_presence (ds_geoKey svc) d (view st) (view st')"
proof (cases "TrimSpace i = []")
  case True
  with assms(2,4) show ?thesis by (simp add: RemoveLocation_def)
next
  case False
  then obtain e where "gr_exec gr st [ZRem (ds_geoKey svc) (TrimSpace i), Del (DriverLocationKey (TrimSpace i))] = (e, st')"
    using assms(2,4) by (auto simp: RemoveLocation_def RemoveDriverLocation_def Let_def split: prod.splits)
  then show ?thesis
    by (rule exec_same_presence [OF assms(1)]) (use assms(3,5) own_key_sym in auto)
qed

lemma snd_case_keep: "snd (case p of (Inl e, s) \<Rightarrow> (f e, s) | (Inr r, s) \<Rightarrow> (h r, s)) = snd p"
  by (cases p; cases "fst p") auto

text \<open>
  A user with a token can only ever move or remove themselves: whatever id the body of the
  request names, and whether or not Redis fails on the way, the entry of every other id in
  the index and its hash are as before; a request without a user changes nobody's.
\<close>

theorem presence_own_only:
  assumes "geo_ok gr view" "usable svc = Some gr" "own_key (ds_geoKey svc)"
    and "\<not> AuthenticatedWithAPIKey c" "AuthenticatedUserID c \<noteq> Some u"
    and "st' \<in> {snd (driver_UpdateLocation (Some svc) now c body st), snd (driver_GoOffline (Some svc) c body st),
               snd (gps_updatePresence (Some svc) now c update st)}"
  shows "same_presence (ds_geoKey svc) (FormatInt u) (view st) (view st')"
proof (cases "AuthenticatedUserID c")
  case None
  then have "st' = st"
    using assms(4,6) by (auto simp: driver_UpdateLocation_def driver_GoOffline_def gps_updatePresence_def
        resolveAuthenticatedDriverID_def resolvePresenceUserID_def split: prod.splits option.splits)
  then show ?thesis by simp
next
  case (Some i)
  have ids: "resolveAuthenticatedDriverID c x = Inr (FormatInt i)" "resolvePresenceUserID c = Inr (FormatInt i)" for x
    using Some assms(4) by (simp_all add: resolveAuthenticatedDriverID_def resolvePresenceUserID_def)
  have ne: "TrimSpace (FormatInt i) \<noteq> FormatInt u" using Some assms(5) by (simp add: FormatInt_inj)
  have upd: "same_presence (ds_geoKey svc) (FormatInt u) (view st) (view (snd (UpdateLocation svc now st (req\<lparr>dq_DriverID := FormatInt i\<rparr>))))" for req
    using UpdateLocation_same [OF assms(1-3) surjective_pairing] ne by simp
  have rem: "same_presence (ds_geoKey svc) (FormatInt u) (view st) (view (snd (RemoveLocation svc st (FormatInt i))))"
    using RemoveLocation_same [OF assms(1-3) surjective_pairing ne] .
  have a: "snd (driver_UpdateLocation (Some svc) now c body st)
      \<in> {st, snd (UpdateLocation svc now st ((snd body)\<lparr>dq_DriverID := FormatInt i\<rparr>))}"
    by (cases body; cases "fst body"; cases "UpdateLocation svc now st ((snd body)\<lparr>dq_DriverID := FormatInt i\<rparr>)";
        cases "fst (UpdateLocation svc now st ((snd body)\<lparr>dq_DriverID := FormatInt i\<rparr>))")
      (simp_all add: driver_UpdateLocation_def ids)
  have b: "snd (driver_GoOffline (Some svc) c body st) \<in> {st, snd (RemoveLocation svc st (FormatInt i))}"
    by (cases "RemoveLocation svc st (FormatInt i)"; cases "fst (RemoveLocation svc st (FormatInt i))")
      (simp_all add: driver_GoOffline_def ids)
  have c: "\<exists>t. snd (gps_updatePresence (Some svc) now c update st)
      = snd (UpdateLocation svc now st \<lparr>dq_DriverID = FormatInt i, dq_Lat = gu_Lat update, dq_Lng = gu_Lng update, dq_TimestampMs = t\<rparr>)"
    unfolding gps_updatePresence_def ids Let_def UpdatePresence_def option.case sum.case
    by (rule exI, rule snd_case_keep)
  have upd': "same_presence (ds_geoKey svc) (FormatInt u) (view st)
      (view (snd (UpdateLocation svc now st \<lparr>dq_DriverID = FormatInt i, dq_Lat = x, dq_Lng = y, dq_TimestampMs = t\<rparr>)))" for x y t
    using upd [of "\<lparr>dq_DriverID = [], dq_Lat = x, dq_Lng = y, dq_TimestampMs = t\<rparr>"] by simp
  from assms(6) a b c upd [of "snd body"] upd' rem show ?thesis by (elim insertE emptyE exE) auto
qed

section \<open>Reading a position\<close>

lemma GetPresence_view:
  assumes "geo_ok gr view" "ds_redis svc = Some gr" "GetPresence svc st i = Inr l" "TrimSpace i = d"
  shows "do_ID l = d \<and> do_Active l = None \<and> do_DriverID l = (case parseDriverUserID d of Some n \<Rightarrow> n | None \<Rightarrow> 0)
    \<and> state_of_hash gr d (gv_hash (view st) (DriverLocationKey d))
        = Some \<lparr>dl_ID = d, dl_Lat = do_Lat l, dl_Lng = do_Lng l, dl_TimestampMs = do_TimestampMs l, dl_DistanceKm = 0\<rparr>"
proof -
  obtain s where s: "getDriverLocationState gr st d = Some s" "l = location_of_state s\<lparr>do_DistanceKm := 0\<rparr>"
    using assms(2-4) by (auto simp: GetPresence_def GetDriverLocation_def Let_def split: if_splits option.splits)
  from getDriverLocationState_view [OF assms(1) s(1)] s(2) show ?thesis
    by (auto simp: location_of_state_def)
qed

lemma put_location_fields:
  "put_fields [(''id'', FText a), (''driver_id'', FText a), (''lat'', FFloat x), (''lng'', FFloat y), (''timestamp_ms'', FInt t)] m ''lat'' = Some (FFloat x)"
  "put_fields [(''id'', FText a), (''driver_id'', FText a), (''lat'', FFloat x), (''lng'', FFloat y), (''timestamp_ms'', FInt t)] m ''lng'' = Some (FFloat y)"
  "put_fields [(''id'', FText a), (''driver_id'', FText a), (''lat'', FFloat x), (''lng'', FFloat y), (''timestamp_ms'', FInt t)] m ''timestamp_ms'' = Some (FInt t)"
  by (simp_all add: put_fields_def)

lemma set_location_view:
  assumes "geo_ok gr view" "own_key g" "gr_exec gr st (set_location_cmds g sk s) = (None, st')"
  shows "dl_ID s \<in> set (gv_members (view st') g)
    \<and> state_of_hash gr (dl_ID s) (gv_hash (view st') (DriverLocationKey (dl_ID s))) = Some (s\<lparr>dl_DistanceKm := 0\<rparr>)"
proof -
  let ?fs = "[(''id'', FText (dl_ID s)), (''driver_id'', FText (dl_ID s)), (''lat'', FFloat (dl_Lat s)), (''lng'', FFloat (dl_Lng s)), (''timestamp_ms'', FInt (dl_TimestampMs s))]"
  have v: "view st' = fold apply_cmd (set_location_cmds g sk s) (view st)" by (rule exec_view_all [OF assms(1,3)])
  have h: "gv_hash (view st') (DriverLocationKey (dl_ID s)) = put_fields ?fs (gv_hash (view st) (DriverLocationKey (dl_ID s)))"
    unfolding v set_location_cmds_def by simp
  have m: "dl_ID s \<in> set (gv_members (view st') g)"
    unfolding v set_location_cmds_def by simp
  have ne: "put_fields ?fs m \<noteq> Map.empty" for m
    using put_location_fields(1) [of "dl_ID s" "dl_Lat s" "dl_Lng s" "dl_TimestampMs s" m] by (metis option.distinct(1))
  show ?thesis using m ne unfolding h
    by (simp add: state_of_hash_def put_location_fields field_float_def field_int_def)
qed

text \<open>
  What was reported is what is read: after an update that succeeded, the user is in the
  index, and as long as Redis answers, \<open>GetPresence\<close> gives the position of the update, under
  the trimmed id, with its time (the time of the update if it had none).
\<close>

theorem presence_roundtrip:
  assumes "geo_ok gr view" "usable svc = Some gr" "own_key (ds_geoKey svc)"
    and "UpdateLocation svc now st req = (Inr r, st')"
    and "gr_hgetall gr st' (DriverLocationKey (TrimSpace (dq_DriverID req))) = Inr m"
  shows "TrimSpace (dq_DriverID req) \<in> set (gv_members (view st') (ds_geoKey svc))
    \<and> (\<exists>l. GetPresence svc st' (dq_DriverID req) = Inr l \<and> do_ID l = TrimSpace (dq_DriverID req)
         \<and> do_Lat l = dq_Lat req \<and> do_Lng l = dq_Lng req
         \<and> do_TimestampMs l = (if dq_TimestampMs req \<le> 0 then now else dq_TimestampMs req))"
proof -
  let ?d = "TrimSpace (dq_DriverID req)"
  let ?s = "\<lparr>dl_ID = ?d, dl_Lat = dq_Lat req, dl_Lng = dq_Lng req,
      dl_TimestampMs = (if dq_TimestampMs req \<le> 0 then now else dq_TimestampMs req), dl_DistanceKm = 0\<rparr>"
  have d: "?d \<noteq> []" and ex: "gr_exec gr st (set_location_cmds (ds_geoKey svc) (ds_streamKey svc) ?s) = (None, st')"
    using assms(2,4) by (auto simp: UpdateLocation_def SetDriverLocation_def Let_def split: if_splits prod.splits option.splits)
  note v = set_location_view [OF assms(1,3) ex, simplified]
  have red: "ds_redis svc = Some gr" using assms(2) by (auto simp: usable_def split: if_splits)
  have "getDriverLocationState gr st' ?d = Some ?s"
    using v assms(5) hgetall_view [OF assms(1,5)] by (simp add: getDriverLocationState_def)
  then have "GetPresence svc st' (dq_DriverID req) = Inr (location_of_state ?s\<lparr>do_DistanceKm := 0\<rparr>)"
    using d red by (simp add: GetPresence_def GetDriverLocation_def)
  with v show ?thesis by (simp add: location_of_state_def)
qed

text \<open>
  Who may read the position of a user: if \<open>GET /gps/user/:id/location\<close> sends one, the id is a
  positive number, the position is the one this user last reported, and the caller has the API
  key, is that user, or the database says the two share an active shipping.
\<close>

theorem user_location_private:
  assumes "geo_ok gr view" "usable svc = Some gr"
    and "driver_GetUserLocation (Some svc) c userACL param st = Sent l"
  shows "\<exists>target>0. ParseInt (TrimSpace param) = Some target \<and> do_ID l = FormatInt target
    \<and> (AuthenticatedWithAPIKey c \<or> AuthenticatedUserID c = Some target
       \<or> (\<exists>share viewer. userACL = Some share \<and> AuthenticatedUserID c = Some viewer \<and> share viewer target = Some True))
    \<and> state_of_hash gr (FormatInt target) (gv_hash (view st) (DriverLocationKey (FormatInt target)))
        = Some \<lparr>dl_ID = FormatInt target, dl_Lat = do_Lat l, dl_Lng = do_Lng l, dl_TimestampMs = do_TimestampMs l, dl_DistanceKm = 0\<rparr>"
proof -
  obtain target where t: "ParseInt (TrimSpace param) = Some target" "0 < target"
      "authorizeUserLocationRead c userACL target = None" "GetPresence svc st (FormatInt target) = Inr l"
    using assms(3) by (auto simp: driver_GetUserLocation_def not_le split: option.splits if_splits sum.splits)
  have red: "ds_redis svc = Some gr" using assms(2) by (auto simp: usable_def split: if_splits)
  have "AuthenticatedWithAPIKey c \<or> AuthenticatedUserID c = Some target
       \<or> (\<exists>share viewer. userACL = Some share \<and> AuthenticatedUserID c = Some viewer \<and> share viewer target = Some True)"
    using t(3) by (auto simp: authorizeUserLocationRead_def split: if_splits option.splits)
  with t GetPresence_view [OF assms(1) red t(4) TrimSpace_FormatInt] show ?thesis by auto
qed

section \<open>Leaving the map, and searches that run meanwhile\<close>

text \<open>
  Requests and searches interleaved: a search has found its members and works through them, one
  read and perhaps one removal after the other, while others write.  \<open>D\<close> are the ids that may
  report a position, \<open>R\<close> those that may leave.  A hash may expire at any time.
\<close>

record 's presence_world =
  pw_st :: 's
  pw_searches :: "(geo_hit list \<times> string option) list"

inductive presence_step ::
  "'s geo_redis \<Rightarrow> ('s \<Rightarrow> geo_view) \<Rightarrow> 's driver_service \<Rightarrow> string set \<Rightarrow> string set \<Rightarrow> 's presence_world \<Rightarrow> 's presence_world \<Rightarrow> bool"
  for gr view svc D R where
  report: "TrimSpace (dq_DriverID req) \<in> D \<Longrightarrow> UpdateLocation svc now (pw_st w) req = (x, st')
    \<Longrightarrow> presence_step gr view svc D R w (w\<lparr>pw_st := st'\<rparr>)"
| leave: "TrimSpace i \<in> R \<Longrightarrow> RemoveLocation svc (pw_st w) i = (x, st')
    \<Longrightarrow> presence_step gr view svc D R w (w\<lparr>pw_st := st'\<rparr>)"
| search: "FindNearbyGeoMembers (Some gr) (pw_st w) (ds_geoKey svc) lat lng r n = Inr ms
    \<Longrightarrow> presence_step gr view svc D R w (w\<lparr>pw_searches := pw_searches w @ [(ms, None)]\<rparr>)"
| found: "j < length (pw_searches w) \<Longrightarrow> pw_searches w ! j = (m # ms, None)
    \<Longrightarrow> getDriverLocationState gr (pw_st w) (gh_Name m) = Some s
    \<Longrightarrow> presence_step gr view svc D R w (w\<lparr>pw_searches := (pw_searches w)[j := (ms, None)]\<rparr>)"
| gone: "j < length (pw_searches w) \<Longrightarrow> pw_searches w ! j = (m # ms, None)
    \<Longrightarrow> getDriverLocationState gr (pw_st w) (gh_Name m) = None
    \<Longrightarrow> presence_step gr view svc D R w (w\<lparr>pw_searches := (pw_searches w)[j := (ms, Some (gh_Name m))]\<rparr>)"
| drop: "j < length (pw_searches w) \<Longrightarrow> pw_searches w ! j = (ms, Some n)
    \<Longrightarrow> gr_exec gr (pw_st w) [ZRem (ds_geoKey svc) n] = (x, st')
    \<Longrightarrow> presence_step gr view svc D R w (w\<lparr>pw_st := st', pw_searches := (pw_searches w)[j := (ms, None)]\<rparr>)"
| expire: "view st' = (view (pw_st w))\<lparr>gv_hash := (gv_hash (view (pw_st w)))(k := Map.empty)\<rparr>
    \<Longrightarrow> presence_step gr view svc D R w (w\<lparr>pw_st := st'\<rparr>)"

text \<open>The loop of \<open>FindNearbyDrivers\<close> is a run of these steps with nobody else about.\<close>

lemma nearby_states_run:
  assumes "nearby_states gr (ds_geoKey svc) ms st = (ss, st')"
  shows "(presence_step gr view svc D R)\<^sup>*\<^sup>* \<lparr>pw_st = st, pw_searches = [(ms, None)]\<rparr> \<lparr>pw_st = st', pw_searches = [([], None)]\<rparr>"
  using assms
proof (induction ms arbitrary: st ss)
  case (Cons m ms)
  let ?w = "\<lparr>pw_st = st, pw_searches = [(m # ms, None)]\<rparr>"
  show ?case
  proof (cases "getDriverLocationState gr st (gh_Name m)")
    case None
    obtain e st2 where ex: "gr_exec gr st [ZRem (ds_geoKey svc) (gh_Name m)] = (e, st2)" by fastforce
    have "presence_step gr view svc D R ?w \<lparr>pw_st = st, pw_searches = [(ms, Some (gh_Name m))]\<rparr>"
      using presence_step.gone [of 0 ?w m ms gr view svc D R] None by simp
    moreover have "presence_step gr view svc D R \<lparr>pw_st = st, pw_searches = [(ms, Some (gh_Name m))]\<rparr>
        \<lparr>pw_st = st2, pw_searches = [(ms, None)]\<rparr>"
      using presence_step.drop [of 0 "\<lparr>pw_st = st, pw_searches = [(ms, Some (gh_Name m))]\<rparr>" ms "gh_Name m" gr svc e st2 view D R] ex
      by simp
    moreover have "(presence_step gr view svc D R)\<^sup>*\<^sup>* \<lparr>pw_st = st2, pw_searches = [(ms, None)]\<rparr>
        \<lparr>pw_st = st', pw_searches = [([], None)]\<rparr>"
      using Cons None ex by simp
    ultimately show ?thesis by (meson converse_rtranclp_into_rtranclp)
  next
    case (Some s)
    then obtain ts where "nearby_states gr (ds_geoKey svc) ms st = (ts, st')" using Cons.prems by (auto split: prod.splits)
    moreover have "presence_step gr view svc D R ?w \<lparr>pw_st = st, pw_searches = [(ms, None)]\<rparr>"
      using presence_step.found [of 0 ?w m ms gr s view svc D R] Some by simp
    ultimately show ?thesis using Cons.IH by (meson converse_rtranclp_into_rtranclp)
  qed
qed simp

definition absent :: "string \<Rightarrow> string \<Rightarrow> geo_view \<Rightarrow> bool" where
  "absent g d v \<longleftrightarrow> d \<notin> set (gv_members v g) \<and> gv_hash v (DriverLocationKey d) = Map.empty"

lemma absent_same: "absent g d v \<Longrightarrow> same_presence g d v v' \<Longrightarrow> absent g d v'"
  by (simp add: absent_def same_presence_def)

lemma fold_absent:
  "list_all (\<lambda>c. \<forall>x y fs. c \<noteq> GeoAdd g d x y \<and> c \<noteq> HSet (DriverLocationKey d) fs) cs \<Longrightarrow> absent g d v
    \<Longrightarrow> absent g d (fold apply_cmd cs v)"
proof (induction cs arbitrary: v)
  case (Cons c cs)
  have "absent g d (apply_cmd c v)" using Cons.prems by (cases c) (auto simp: absent_def)
  with Cons show ?case by simp
qed simp

lemma exec_absent:
  assumes "geo_ok gr view" "gr_exec gr s cs = (e, s')" "absent g d (view s)"
    and "list_all (\<lambda>c. \<forall>x y fs. c \<noteq> GeoAdd g d x y \<and> c \<noteq> HSet (DriverLocationKey d) fs) cs"
  shows "absent g d (view s')"
  using exec_view [OF assms(1,2)] fold_absent [OF list_all_nths [OF assms(4)] assms(3)] by metis

lemma RemoveLocation_absent:
  assumes "geo_ok gr view" "usable svc = Some gr" "RemoveLocation svc st i = (x, st')" "absent (ds_geoKey svc) d (view st)"
  shows "absent (ds_geoKey svc) d (view st')"
proof (cases "TrimSpace i = []")
  case True
  with assms(2-4) show ?thesis by (simp add: RemoveLocation_def)
next
  case False
  then obtain e where "gr_exec gr st [ZRem (ds_geoKey svc) (TrimSpace i), Del (DriverLocationKey (TrimSpace i))] = (e, st')"
    using assms(2,3) by (auto simp: RemoveLocation_def RemoveDriverLocation_def Let_def split: prod.splits)
  from exec_absent [OF assms(1) this assms(4)] show ?thesis by simp
qed

lemma presence_step_absent:
  assumes "presence_step gr view svc D R w w'" "geo_ok gr view" "usable svc = Some gr" "own_key (ds_geoKey svc)" "d \<notin> D"
    "absent (ds_geoKey svc) d (view (pw_st w))"
  shows "absent (ds_geoKey svc) d (view (pw_st w'))"
  using assms
proof (induction rule: presence_step.induct)
  case (report req now w x st')
  then have "TrimSpace (dq_DriverID req) \<noteq> d" by auto
  from absent_same [OF report(7) UpdateLocation_same [OF report(3-5,2) this]] show ?case by simp
next
  case (leave i w x st')
  from RemoveLocation_absent [OF leave(3,4,2,7)] show ?case by simp
next
  case (drop j w ms n x st')
  from exec_absent [OF drop(4,3) drop(8)] show ?case by simp
next
  case (expire st' w k)
  then show ?case by (auto simp: absent_def)
qed simp_all

lemma not_member_hidden:
  assumes "geo_ok gr view" "svc = NewDriverService (Some gr) gk sk R0 L0 sh" "d \<notin> set (gv_members (view st) (TrimSpace gk))"
    and "SearchNearby svc now st lat lng r n e = (Inr resp, st')"
  shows "d \<notin> do_ID ` set (nd_Drivers resp)"
proof -
  obtain ss where f: "FindNearbyDrivers gr st (TrimSpace gk) lat lng (nd_RadiusKm resp) (candidate_limit (nd_Limit resp)) = (Inr ss, st')"
    and drivers: "nd_Drivers resp = attachActiveShippings sh
       (filterVisibleOnMap sh (map location_of_state (filter (\<lambda>s. \<not> excluded e s) ss)) (nd_Limit resp))"
    and l: "1 \<le> nd_Limit resp \<and> nd_Limit resp \<le> 500"
    using assms(4) unfolding assms(2) by (rule SearchNearby_shape) blast
  have n: "0 < candidate_limit (nd_Limit resp)" using l by (simp add: candidate_limit_def maxShipmentLimit_def)
  have "dl_ID s \<noteq> d" if "s \<in> set ss" for s
    using FindNearbyDrivers_found(2) [OF assms(1) n f TrimSpace_idem that] assms(3) by auto
  then have "\<forall>x\<in>set (filterVisibleOnMap sh (map location_of_state (filter (\<lambda>s. \<not> excluded e s) ss)) (nd_Limit resp)). do_ID x \<noteq> d"
    using filterVisible_spec by fastforce
  then have "\<forall>x\<in>set (nd_Drivers resp). do_ID x \<noteq> d"
    unfolding drivers by (intro attach_all [where P = "\<lambda>x. do_ID x \<noteq> d"]) simp_all
  then show "d \<notin> do_ID ` set (nd_Drivers resp)" by auto
qed

lemma absent_no_presence:
  assumes "geo_ok gr view" "ds_redis svc = Some gr" "absent g d (view st)" "TrimSpace i = d" "d \<noteq> []"
  shows "GetPresence svc st i = Inl ErrDriverLocationNotFound"
proof -
  have "getDriverLocationState gr st d = None"
    using getDriverLocationState_view [OF assms(1), of st d] assms(3)
    by (cases "getDriverLocationState gr st d") (auto simp: absent_def state_of_hash_def)
  then show ?thesis using assms(2,4,5) by (simp add: GetPresence_def GetDriverLocation_def)
qed

text \<open>
  C22. Leaving the map works at once and for good: once a removal has succeeded, then whatever
  happens afterwards, short of a new report by the same id (others report and leave, searches
  begun earlier or later go through their members and drop stale ones, hashes expire), this id
  has no position to read and no search finds it.
\<close>

theorem offline_hides:
  assumes "geo_ok gr view" "svc = NewDriverService (Some gr) gk sk R0 L0 sh" "own_key (TrimSpace gk)" "TrimSpace gk \<noteq> []"
    and "RemoveLocation svc st i = (None, st1)"
    and "(presence_step gr view svc {d. d \<noteq> TrimSpace i} UNIV)\<^sup>*\<^sup>* \<lparr>pw_st = st1, pw_searches = ts\<rparr> w"
  shows "GetPresence svc (pw_st w) i = Inl ErrDriverLocationNotFound
    \<and> (\<forall>now lat lng r n e resp st'. SearchNearby svc now (pw_st w) lat lng r n e = (Inr resp, st')
         \<longrightarrow> TrimSpace i \<notin> do_ID ` set (nd_Drivers resp))"
proof -
  have us: "usable svc = Some gr" "ds_geoKey svc = TrimSpace gk" using assms(4) unfolding assms(2) usable_New by (simp_all add: NewDriverService_def)
  have i: "TrimSpace i \<noteq> []" and ex: "gr_exec gr st [ZRem (TrimSpace gk) (TrimSpace i), Del (DriverLocationKey (TrimSpace i))] = (None, st1)"
    using assms(5) us by (auto simp: RemoveLocation_def RemoveDriverLocation_def Let_def split: if_splits prod.splits)
  have "absent (TrimSpace gk) (TrimSpace i) (view st1)"
    using exec_view_all [OF assms(1) ex] by (simp add: absent_def)
  with assms(6) have "absent (ds_geoKey svc) (TrimSpace i) (view (pw_st w))"
  proof (induction rule: rtranclp_induct)
    case base
    then show ?case using us by simp
  next
    case (step w w')
    then show ?case using presence_step_absent [OF step(2) assms(1) us(1)] us(2) assms(3) by simp
  qed
  then have a: "absent (TrimSpace gk) (TrimSpace i) (view (pw_st w))" using us by simp
  then have m: "TrimSpace i \<notin> set (gv_members (view (pw_st w)) (TrimSpace gk))" by (simp add: absent_def)
  have red: "ds_redis svc = Some gr" by (simp add: assms(2) NewDriverService_def)
  from absent_no_presence [OF assms(1) red a refl i] not_member_hidden [OF assms(1,2) m] show ?thesis by blast
qed

text \<open>A server that keeps everything in memory, for examples; all members are at the centre.\<close>

definition mem_geo :: "geo_view geo_redis" where
  "mem_geo = \<lparr>gr_exec = (\<lambda>s cs. (None, fold apply_cmd cs s)), gr_hgetall = (\<lambda>s k. Inr (gv_hash s k)),
     gr_geosearch = (\<lambda>s k lat lng r n.
        Inr (if r < 0 then [] else take (nat n) (map (\<lambda>m. \<lparr>gh_Name = m, gh_Lat = lat, gh_Lng = lng, gh_Dist = 0\<rparr>) (remdups (gv_members s k))))),
     gr_ParseFloat = (\<lambda>s. None)\<rparr>"

lemma mem_geo_ok: "geo_ok mem_geo (\<lambda>s. s)"
proof -
  have e: "exec_ok mem_geo (\<lambda>s. s)"
    unfolding exec_ok_def
  proof (intro allI impI)
    fix s cs e s'
    assume "gr_exec mem_geo s cs = (e, s')"
    then have "s' = fold apply_cmd (nths cs UNIV) s" by (auto simp: mem_geo_def nths_all)
    then show "\<exists>I. s' = fold apply_cmd (nths cs I) s \<and> (e = None \<longrightarrow> {..<length cs} \<subseteq> I)" by blast
  qed
  have "hits_ok ns r n (if r < 0 then [] else take (nat n) (map (\<lambda>m. \<lparr>gh_Name = m, gh_Lat = lat, gh_Lng = lng, gh_Dist = 0\<rparr>) (remdups ns)))"
    if "0 < n" for ns r n lat lng
    using that by (auto simp: hits_ok_def take_map comp_def distinct_take map_replicate_const dest: in_set_takeD)
  then have "geosearch_ok mem_geo (\<lambda>s. s)" by (auto simp: geosearch_ok_def mem_geo_def)
  moreover have "hgetall_ok mem_geo (\<lambda>s. s)" by (simp add: hgetall_ok_def mem_geo_def)
  ultimately show ?thesis using e by (simp add: geo_ok_def)
qed

definition example_repo :: driver_repo where
  "example_repo = \<lparr>sr_jobs = (\<lambda>ids. Inr Map.empty), sr_trips = (\<lambda>ids. Inl ''down''), sr_visible = (\<lambda>ids. Inr {7, 8})\<rparr>"

definition example_svc :: "geo_view driver_service" where
  "example_svc = NewDriverService (Some mem_geo) '' drivers:geo'' [] 0 0 (Some example_repo)"

definition empty_geo :: geo_view where
  "empty_geo = \<lparr>gv_members = (\<lambda>_. []), gv_hash = (\<lambda>_. Map.empty)\<rparr>"

definition report_of :: "string \<Rightarrow> DriverLocationRequest" where
  "report_of d = \<lparr>dq_DriverID = d, dq_Lat = 35, dq_Lng = 51, dq_TimestampMs = 9\<rparr>"

lemma example_svc_fields:
  "usable example_svc = Some mem_geo" "ds_redis example_svc = Some mem_geo" "ds_geoKey example_svc = ''drivers:geo''" "ds_streamKey example_svc = []"
  "own_key ''drivers:geo''"
  by (simp_all add: example_svc_def usable_def NewDriverService_def TrimSpace_def is_space_def own_key_def DriverLocationKey_def)

definition example_state :: geo_view where
  "example_state = snd (UpdateLocation example_svc 5 empty_geo (report_of ''7''))"

lemma trim_7 [simp]: "TrimSpace ''7'' = ''7''"
  by (simp add: TrimSpace_def is_space_def)

lemma parse_seven [simp]: "ParseInt ''7'' = Some 7"
  by (simp add: ParseInt_def is_digit_def text_nat_def Let_def)

lemma example_report:
  "UpdateLocation example_svc 5 s (report_of ''7'') =
     (Inr (5, zero_location\<lparr>do_ID := ''7'', do_Lat := 35, do_Lng := 51, do_TimestampMs := 9\<rparr>),
      fold apply_cmd (set_location_cmds ''drivers:geo'' [] \<lparr>dl_ID = ''7'', dl_Lat = 35, dl_Lng = 51, dl_TimestampMs = 9, dl_DistanceKm = 0\<rparr>) s)"
  by (simp add: UpdateLocation_def example_svc_fields report_of_def SetDriverLocation_def mem_geo_def Let_def)

lemma example_members: "gv_members example_state = (\<lambda>_. [])(''drivers:geo'' := [''7''])"
  by (simp add: example_state_def example_report set_location_cmds_def empty_geo_def)

lemma report_live:
  assumes "UpdateLocation example_svc 5 s (report_of ''7'') = (x, s')"
  shows "getDriverLocationState mem_geo s' ''7'' = Some \<lparr>dl_ID = ''7'', dl_Lat = 35, dl_Lng = 51, dl_TimestampMs = 9, dl_DistanceKm = 0\<rparr>"
proof -
  let ?s = "\<lparr>dl_ID = ''7'', dl_Lat = 35, dl_Lng = 51, dl_TimestampMs = 9, dl_DistanceKm = 0\<rparr>"
  have "gr_exec mem_geo s (set_location_cmds ''drivers:geo'' [] ?s) = (None, s')"
    using assms by (simp add: example_report mem_geo_def)
  from set_location_view [OF mem_geo_ok example_svc_fields(5) this] show ?thesis
    by (simp add: getDriverLocationState_def mem_geo_def)
qed

lemma example_live: "getDriverLocationState mem_geo example_state ''7'' = Some \<lparr>dl_ID = ''7'', dl_Lat = 35, dl_Lng = 51, dl_TimestampMs = 9, dl_DistanceKm = 0\<rparr>"
  unfolding example_state_def by (rule report_live [OF surjective_pairing])

theorem SearchNearby_safe_witness:
  "\<exists>r st'. SearchNearby example_svc 6 example_state 35 51 0 0 9 = (Inr r, st') \<and> map do_DriverID (nd_Drivers r) = [7]
     \<and> do_DistanceKm (hd (nd_Drivers r)) \<le> nd_RadiusKm r"
proof -
  have f: "FindNearbyDrivers mem_geo example_state ''drivers:geo'' 35 51 20 300 =
      (Inr [\<lparr>dl_ID = ''7'', dl_Lat = 35, dl_Lng = 51, dl_TimestampMs = 9, dl_DistanceKm = 0\<rparr>], example_state)"
  proof -
    have "gr_geosearch mem_geo example_state ''drivers:geo'' 35 51 20 300 = Inr [\<lparr>gh_Name = ''7'', gh_Lat = 35, gh_Lng = 51, gh_Dist = 0\<rparr>]"
      by (simp add: mem_geo_def example_members)
    moreover have "TrimSpace ''drivers:geo'' = ''drivers:geo''" by (simp add: TrimSpace_def is_space_def)
    ultimately show ?thesis by (simp add: FindNearbyDrivers_def FindNearbyGeoMembers_def example_live)
  qed
  have k: "ds_defaultRadiusKm example_svc = 20" "ds_defaultLimit example_svc = 100" "ds_shippings example_svc = Some example_repo"
    by (simp_all add: example_svc_def NewDriverService_def clamp_default_def Let_def defaultDriverSearchRadiusKm_def
        defaultShipmentLimit_def maxShipmentLimit_def)
  have l: "search_radius 20 0 = 20" "search_limit 100 0 = 100" "candidate_limit 100 = 300"
    by (simp_all add: search_radius_def search_limit_def candidate_limit_def maxNearbySearchRadiusKm_def maxShipmentLimit_def)
  obtain r st' where r: "SearchNearby example_svc 6 example_state 35 51 0 0 9 = (Inr r, st')" "map do_DriverID (nd_Drivers r) = [7]"
    by (simp add: SearchNearby_def example_svc_fields k l f excluded_def parseDriverUserID_def location_of_state_def
        filterVisibleOnMap_def user_ids_def example_repo_def attachActiveShippings_def)
  from SearchNearby_safe [OF mem_geo_ok r(1) [unfolded example_svc_def]]
  have "\<forall>d\<in>set (nd_Drivers r). do_DistanceKm d \<le> nd_RadiusKm r" by (simp add: may_show_def)
  moreover have "hd (nd_Drivers r) \<in> set (nd_Drivers r)" using r(2) by (cases "nd_Drivers r") auto
  ultimately have "do_DistanceKm (hd (nd_Drivers r)) \<le> nd_RadiusKm r" by blast
  with r show ?thesis by (intro exI [of _ r] exI [of _ st']) simp
qed

definition as_user :: "int \<Rightarrow> auth_context" where
  "as_user i = \<lparr>auth_method = Some AuthJWT, auth_user_id = Some i\<rparr>"

theorem presence_own_only_witness:
  "same_presence ''drivers:geo'' (FormatInt 7) example_state
     (snd (driver_GoOffline (Some example_svc) (as_user 8) (None, report_of ''7'') example_state))"
  using presence_own_only [OF mem_geo_ok example_svc_fields(1), of "as_user 8" 7
      "snd (driver_GoOffline (Some example_svc) (as_user 8) (None, report_of ''7'') example_state)" 0 "(None, report_of ''7'')" example_state example_update]
  by (simp add: example_svc_fields as_user_def AuthenticatedWithAPIKey_def AuthenticatedUserID_def)

theorem presence_roundtrip_witness: "\<exists>l. GetPresence example_svc example_state ''7'' = Inr l \<and> do_Lat l = 35 \<and> do_Lng l = 51"
proof -
  obtain r where u: "UpdateLocation example_svc 5 empty_geo (report_of ''7'') = (Inr r, example_state)"
    unfolding example_state_def by (simp add: example_report)
  have h: "gr_hgetall mem_geo example_state (DriverLocationKey (TrimSpace (dq_DriverID (report_of ''7''))))
      = Inr (gv_hash example_state (DriverLocationKey ''7''))"
    by (simp add: mem_geo_def report_of_def)
  have "own_key (ds_geoKey example_svc)" by (simp add: example_svc_fields)
  from presence_roundtrip [OF mem_geo_ok example_svc_fields(1) this u h] show ?thesis by (auto simp: report_of_def)
qed

theorem user_location_private_witness:
  "\<exists>l. driver_GetUserLocation (Some example_svc) (as_user 8) (Some (\<lambda>v t. Some True)) ''7'' example_state = Sent l \<and> do_ID l = ''7''"
proof -
  have seven: "FormatInt 7 = ''7''" by code_simp
  obtain l where l: "driver_GetUserLocation (Some example_svc) (as_user 8) (Some (\<lambda>v t. Some True)) ''7'' example_state = Sent l"
    by (simp add: driver_GetUserLocation_def authorizeUserLocationRead_def as_user_def AuthenticatedWithAPIKey_def
        AuthenticatedUserID_def seven GetPresence_def example_svc_fields GetDriverLocation_def example_live)
  from user_location_private [OF mem_geo_ok example_svc_fields(1) l] l show ?thesis by (auto simp: seven)
qed

theorem offline_hides_witness:
  "\<exists>st1 w. RemoveLocation example_svc example_state ''7'' = (None, st1)
     \<and> (presence_step mem_geo (\<lambda>s. s) example_svc {d. d \<noteq> ''7''} UNIV)\<^sup>*\<^sup>* \<lparr>pw_st = st1, pw_searches = []\<rparr> w
     \<and> pw_st w \<noteq> st1 \<and> GetPresence example_svc (pw_st w) ''7'' = Inl ErrDriverLocationNotFound"
proof -
  let ?D = "{d. d \<noteq> ''7''}"
  have eight: "TrimSpace ''8'' = ''8''" by (simp add: TrimSpace_def is_space_def)
  obtain st1 where st1: "RemoveLocation example_svc example_state ''7'' = (None, st1)" "gv_members st1 ''drivers:geo'' = []"
    by (simp add: RemoveLocation_def example_svc_fields RemoveDriverLocation_def mem_geo_def Let_def example_members DriverLocationKey_def)
  obtain x st2 where up: "UpdateLocation example_svc 5 st1 (report_of ''8'') = (x, st2)" "gv_members st2 ''drivers:geo'' = [''8'']"
    using st1(2) by (simp add: UpdateLocation_def example_svc_fields report_of_def eight SetDriverLocation_def mem_geo_def Let_def
        set_location_cmds_def)
  have "presence_step mem_geo (\<lambda>s. s) example_svc ?D UNIV \<lparr>pw_st = st1, pw_searches = []\<rparr> (\<lparr>pw_st = st1, pw_searches = []\<rparr>\<lparr>pw_st := st2\<rparr>)"
    by (rule presence_step.report [where req = "report_of ''8''" and now = 5 and x = x]) (use up(1) eight in \<open>simp_all add: report_of_def\<close>)
  then have run: "(presence_step mem_geo (\<lambda>s. s) example_svc ?D UNIV)\<^sup>*\<^sup>* \<lparr>pw_st = st1, pw_searches = []\<rparr> \<lparr>pw_st = st2, pw_searches = []\<rparr>"
    by (simp add: r_into_rtranclp)
  have k: "own_key (TrimSpace '' drivers:geo'')" "TrimSpace '' drivers:geo'' \<noteq> []"
    using example_svc_fields(3,5) by (simp_all add: example_svc_def NewDriverService_def)
  have run': "(presence_step mem_geo (\<lambda>s. s) example_svc {d. d \<noteq> TrimSpace ''7''} UNIV)\<^sup>*\<^sup>* \<lparr>pw_st = st1, pw_searches = []\<rparr> \<lparr>pw_st = st2, pw_searches = []\<rparr>"
    using run by simp
  have "st2 \<noteq> st1" using st1(2) up(2) by auto
  with offline_hides [OF mem_geo_ok example_svc_def k st1(1) run'] st1(1) run show ?thesis
    by (intro exI [of _ st1] exI [of _ "\<lparr>pw_st = st2, pw_searches = []\<rparr>"]) simp
qed

text \<open>
  A search can make a live user disappear.  The removal of a stale member is not one step
  with the read that found it stale, so a report that comes in between is undone: from an
  empty server, with nobody leaving the map, a user can end up with a live position that can be
  read under its id while no search finds it, until the next report.
\<close>

theorem selfheal_race:
  "\<exists>w. (presence_step mem_geo (\<lambda>s. s) example_svc UNIV {})\<^sup>*\<^sup>* \<lparr>pw_st = empty_geo, pw_searches = []\<rparr> w
     \<and> (\<exists>l. GetPresence example_svc (pw_st w) ''7'' = Inr l \<and> do_Lat l = 35)
     \<and> (\<forall>now lat lng r n e. case SearchNearby example_svc now (pw_st w) lat lng r n e of
          (Inr resp, st') \<Rightarrow> ''7'' \<notin> do_ID ` set (nd_Drivers resp) | _ \<Rightarrow> True)"
proof -
  let ?step = "presence_step mem_geo (\<lambda>s. s) example_svc UNIV {}" and ?g = "''drivers:geo''"
  let ?hit = "\<lparr>gh_Name = ''7'', gh_Lat = 35, gh_Lng = 51, gh_Dist = 0\<rparr>"
  let ?key = "DriverLocationKey ''7''"
  define s1 where "s1 = example_state"
  define s2 where "s2 = s1\<lparr>gv_hash := (gv_hash s1)(?key := Map.empty)\<rparr>"
  define s3 where "s3 = snd (UpdateLocation example_svc 5 s2 (report_of ''7''))"
  define s4 where "s4 = apply_cmd (ZRem ?g ''7'') s3"
  have m1: "gv_members s2 ?g = [''7'']" by (simp add: s2_def s1_def example_members)
  have gk: "TrimSpace ?g = ?g" by (simp add: TrimSpace_def is_space_def)
  have a: "?step \<lparr>pw_st = empty_geo, pw_searches = []\<rparr> \<lparr>pw_st = s1, pw_searches = []\<rparr>"
    using presence_step.report [of "report_of ''7''" UNIV example_svc 5 "\<lparr>pw_st = empty_geo, pw_searches = []\<rparr>"
        _ s1 mem_geo "\<lambda>s. s" "{}"] by (simp add: s1_def example_state_def example_report)
  have b: "?step \<lparr>pw_st = s1, pw_searches = []\<rparr> \<lparr>pw_st = s2, pw_searches = []\<rparr>"
    using presence_step.expire [of "\<lambda>s. s" s2 "\<lparr>pw_st = s1, pw_searches = []\<rparr>" ?key] by (simp add: s2_def)
  have c: "?step \<lparr>pw_st = s2, pw_searches = []\<rparr> \<lparr>pw_st = s2, pw_searches = [([?hit], None)]\<rparr>"
    using presence_step.search [of mem_geo "\<lparr>pw_st = s2, pw_searches = []\<rparr>" example_svc 35 51 20 300 "[?hit]"]
    by (simp add: FindNearbyGeoMembers_def example_svc_fields gk mem_geo_def m1)
  have stale: "getDriverLocationState mem_geo s2 ''7'' = None"
    by (simp add: getDriverLocationState_def mem_geo_def s2_def state_of_hash_def)
  have d: "?step \<lparr>pw_st = s2, pw_searches = [([?hit], None)]\<rparr> \<lparr>pw_st = s2, pw_searches = [([], Some ''7'')]\<rparr>"
    using presence_step.gone [of 0 "\<lparr>pw_st = s2, pw_searches = [([?hit], None)]\<rparr>" ?hit "[]" mem_geo] stale by simp
  have e: "?step \<lparr>pw_st = s2, pw_searches = [([], Some ''7'')]\<rparr> \<lparr>pw_st = s3, pw_searches = [([], Some ''7'')]\<rparr>"
    using presence_step.report [of "report_of ''7''" UNIV example_svc 5 "\<lparr>pw_st = s2, pw_searches = [([], Some ''7'')]\<rparr>"
        _ s3 mem_geo "\<lambda>s. s" "{}"] by (simp add: s3_def example_report)
  have f: "?step \<lparr>pw_st = s3, pw_searches = [([], Some ''7'')]\<rparr> \<lparr>pw_st = s4, pw_searches = [([], None)]\<rparr>"
    using presence_step.drop [of 0 "\<lparr>pw_st = s3, pw_searches = [([], Some ''7'')]\<rparr>" "[]" "''7''" mem_geo example_svc _ s4]
    by (simp add: mem_geo_def s4_def example_svc_fields)
  from a b c d e f have run: "?step\<^sup>*\<^sup>* \<lparr>pw_st = empty_geo, pw_searches = []\<rparr> \<lparr>pw_st = s4, pw_searches = [([], None)]\<rparr>"
    by (meson rtranclp.rtrancl_into_rtrancl rtranclp.rtrancl_refl)
  have "getDriverLocationState mem_geo s3 ''7'' = Some \<lparr>dl_ID = ''7'', dl_Lat = 35, dl_Lng = 51, dl_TimestampMs = 9, dl_DistanceKm = 0\<rparr>"
    unfolding s3_def by (rule report_live [OF surjective_pairing])
  then have live: "getDriverLocationState mem_geo s4 ''7'' = Some \<lparr>dl_ID = ''7'', dl_Lat = 35, dl_Lng = 51, dl_TimestampMs = 9, dl_DistanceKm = 0\<rparr>"
    by (simp add: s4_def getDriverLocationState_def mem_geo_def)
  have p: "\<exists>l. GetPresence example_svc s4 ''7'' = Inr l \<and> do_Lat l = 35"
    by (simp add: GetPresence_def example_svc_fields GetDriverLocation_def live location_of_state_def Let_def)
  have gone: "''7'' \<notin> set (gv_members s4 (TrimSpace '' drivers:geo''))"
    using example_svc_fields(3) by (simp add: s4_def example_svc_def NewDriverService_def)
  note hid = not_member_hidden [OF mem_geo_ok example_svc_def gone]
  have h: "case SearchNearby example_svc now s4 lat lng r n e of
          (Inr resp, st') \<Rightarrow> ''7'' \<notin> do_ID ` set (nd_Drivers resp) | _ \<Rightarrow> True" for now lat lng r n e
    using hid [of now lat lng r n e] by (auto split: prod.split sum.split)
  show ?thesis
    by (rule exI [of _ "\<lparr>pw_st = s4, pw_searches = [([], None)]\<rparr>"]) (use run p h in simp)
qed

end
