(* ===== verification/ShipmentSvc.thy ===== *)
theory ShipmentSvc
  imports DriverPresence
begin

text \<open>
  \<open>internal/service/shipment.go\<close>: the shipments near a passenger.  The rows come from a table of
  another application, as maps from column names to values of any type; the service reads
  ids out of them in whatever form the database driver delivered, adds fields to them and hides
  the shipments that somebody else is delivering.  The repository is a parameter.
\<close>

section \<open>Values of any type\<close>

datatype int_kind = KInt64 | KInt32 | KInt | KUint64 | KUint32

text \<open>
  \<open>ANumber\<close> is a \<open>json.Number\<close>: what its text reads as, an \<open>int64\<close> and a float, if it does.
  \<open>AOther\<close> stands for values of types the service does not look into.  A float of 32 bits is
  marked by \<open>True\<close>.
\<close>

datatype any =
    ANil
  | AInt int_kind int
  | AFloat bool float64
  | ABool bool
  | ANumber "int option" "float64 option"
  | AText string
  | ABytes string
  | AStrings "string list"
  | AInts int_kind "int list"
  | AFloats bool "float64 list"
  | AList "any list"
  | AVehicles "(int \<times> string \<times> string) list"
  | AMap "string \<Rightarrow> any option"
  | AOther string

type_synonym row = "string \<Rightarrow> any option"

definition column :: "row \<Rightarrow> string \<Rightarrow> any" where
  "column r k = (case r k of None \<Rightarrow> ANil | Some v \<Rightarrow> v)"

text \<open>The conversion to \<open>int64\<close>: unsigned values of 64 bits wrap, floats are cut off.\<close>

definition to_int64 :: "int_kind \<Rightarrow> int \<Rightarrow> int" where
  "to_int64 k n = (if k = KUint64 then sint (word_of_int n :: 64 word) else n)"

definition trunc :: "float64 \<Rightarrow> int" where
  "trunc x = (if x \<ge> 0 then \<lfloor>x\<rfloor> else \<lceil>x\<rceil>)"

definition number_int64 :: "int option \<Rightarrow> float64 option \<Rightarrow> int option" where
  "number_int64 n f = (case n of Some i \<Rightarrow> Some i | None \<Rightarrow> map_option trunc f)"

fun toInt64 :: "any \<Rightarrow> int option" where
  "toInt64 (AInt k n) = Some (to_int64 k n)"
| "toInt64 (AFloat narrow x) = (if narrow then None else Some (trunc x))"
| "toInt64 (ANumber n f) = number_int64 n f"
| "toInt64 (AText s) = ParseInt s"
| "toInt64 (ABytes s) = ParseInt s"
| "toInt64 _ = None"

fun rowFloat64_value :: "(string \<Rightarrow> float64 option) \<Rightarrow> any \<Rightarrow> float64" where
  "rowFloat64_value parse (AFloat narrow x) = x"
| "rowFloat64_value parse (AInt k n) = (if k = KInt64 \<or> k = KInt32 \<or> k = KInt then of_int n else 0)"
| "rowFloat64_value parse (AText s) = (case parse s of Some f \<Rightarrow> f | None \<Rightarrow> 0)"
| "rowFloat64_value parse _ = 0"

definition rowFloat64 :: "(string \<Rightarrow> float64 option) \<Rightarrow> row \<Rightarrow> string \<Rightarrow> float64" where
  "rowFloat64 parse r k = (case r k of None \<Rightarrow> 0 | Some v \<Rightarrow> rowFloat64_value parse v)"

section \<open>The vehicles a shipment allows\<close>

text \<open>\<open>strings.Trim(s, cutset)\<close>, and each id once, in the order of first occurrence.\<close>

definition Trim :: "string \<Rightarrow> char set \<Rightarrow> string" where
  "Trim s chars = rev (dropWhile (\<lambda>c. c \<in> chars) (rev (dropWhile (\<lambda>c. c \<in> chars) s)))"

fun dedupe_from :: "int set \<Rightarrow> int list \<Rightarrow> int list" where
  "dedupe_from S [] = []"
| "dedupe_from S (i # ids) = (if i \<in> S then dedupe_from S ids else i # dedupe_from (insert i S) ids)"

definition dedupeInt64s :: "int list \<Rightarrow> int list" where
  "dedupeInt64s ids = dedupe_from {} ids"

definition quotes :: "char set" where "quotes = {CHR 0x22, CHR 0x27}"

definition parseCommaSeparatedInt64s :: "string \<Rightarrow> int list" where
  "parseCommaSeparatedInt64s raw =
     dedupeInt64s (List.map_filter
       (\<lambda>part. let p = TrimSpace (Trim part (quotes \<union> set ''{}[]'')) in
               if p = [] \<or> ToLower p = ''null'' then None else ParseInt p) (Split (CHR '','') raw))"

text \<open>\<open>json.Unmarshal\<close> of an array, into integers and into anything.\<close>

record json_arrays =
  js_ints :: "string \<Rightarrow> int list option"
  js_any :: "string \<Rightarrow> any list option"

definition parseJSONInt64Slice :: "json_arrays \<Rightarrow> string \<Rightarrow> int list option" where
  "parseJSONInt64Slice js raw =
     (case js_ints js raw of
        Some ids \<Rightarrow> Some (dedupeInt64s ids)
      | None \<Rightarrow> map_option (\<lambda>items. dedupeInt64s (List.map_filter toInt64 items)) (js_any js raw))"

definition shipmentAllowedVehicleIDsFromString :: "json_arrays \<Rightarrow> string \<Rightarrow> int list" where
  "shipmentAllowedVehicleIDsFromString js raw =
     (let raw = TrimSpace raw in
      if raw = [] \<or> ToLower raw = ''null'' then []
      else case (if has_prefix ''['' raw then parseJSONInt64Slice js raw else None) of
        Some ids \<Rightarrow> ids
      | None \<Rightarrow>
          let raw = (if has_prefix ''{'' raw \<and> last raw = CHR ''}'' then TrimSpace (butlast (tl raw)) else raw) in
          if CHR '','' \<in> set raw then parseCommaSeparatedInt64s raw
          else case ParseInt (Trim raw quotes) of Some i \<Rightarrow> [i] | None \<Rightarrow> [])"

fun shipmentAllowedVehicleIDs :: "json_arrays \<Rightarrow> any \<Rightarrow> int list" where
  "shipmentAllowedVehicleIDs js ANil = []"
| "shipmentAllowedVehicleIDs js (AInts k ns) = map (to_int64 k) ns"
| "shipmentAllowedVehicleIDs js (AFloats narrow xs) = map trunc xs"
| "shipmentAllowedVehicleIDs js (AList items) = List.map_filter toInt64 items"
| "shipmentAllowedVehicleIDs js (ABytes s) = shipmentAllowedVehicleIDsFromString js s"
| "shipmentAllowedVehicleIDs js (AText s) = shipmentAllowedVehicleIDsFromString js s"
| "shipmentAllowedVehicleIDs js (ANumber n f) = (case number_int64 n f of Some i \<Rightarrow> [i] | None \<Rightarrow> [])"
| "shipmentAllowedVehicleIDs js v = (case toInt64 v of Some i \<Rightarrow> [i] | None \<Rightarrow> [])"

definition vehicleTypeSet :: "int list \<Rightarrow> int set" where
  "vehicleTypeSet ids = set ids"

definition hasAnyVehicleType :: "int list \<Rightarrow> int set \<Rightarrow> bool" where
  "hasAnyVehicleType allowedIDs want = list_ex (\<lambda>i. i \<in> want) allowedIDs"

record vehicleTypeInfo =
  vi_Label :: string
  vi_Title :: string

record VehicleType =
  vt_ID :: any
  vt_Label :: string
  vt_Title :: string

type_synonym vehicle_types = "int \<Rightarrow> vehicleTypeInfo option"

definition vehicleTypeMap :: "VehicleType list \<Rightarrow> vehicle_types" where
  "vehicleTypeMap types =
     foldl (\<lambda>m vt. case toInt64 (vt_ID vt) of
        None \<Rightarrow> m
      | Some i \<Rightarrow>
          let label = TrimSpace (vt_Label vt); title = TrimSpace (vt_Title vt) in
          if label = [] \<and> title = [] then m else m(i \<mapsto> \<lparr>vi_Label = label, vi_Title = title\<rparr>)) Map.empty types"

definition shipment_vehicle :: "vehicle_types \<Rightarrow> int \<Rightarrow> int \<times> string \<times> string" where
  "shipment_vehicle vts i =
     (let info = (case vts i of None \<Rightarrow> \<lparr>vi_Label = [], vi_Title = []\<rparr> | Some v \<Rightarrow> v) in
      (i, if vi_Label info = [] then FormatInt i else vi_Label info, vi_Title info))"

definition buildShipmentVehicles :: "int list \<Rightarrow> vehicle_types \<Rightarrow> (int \<times> string \<times> string) list" where
  "buildShipmentVehicles allowedIDs vts = map (shipment_vehicle vts) (dedupe_from {} allowedIDs)"

section \<open>Pictures and films\<close>

text \<open>\<open>fmt.Sprint\<close> of a value; \<open>print\<close> is what it makes of floats and composite values.\<close>

fun Sprint :: "(any \<Rightarrow> string) \<Rightarrow> any \<Rightarrow> string" where
  "Sprint print ANil = ''<nil>''"
| "Sprint print (AText s) = s"
| "Sprint print (AInt k n) = FormatInt n"
| "Sprint print (ABool b) = (if b then ''true'' else ''false'')"
| "Sprint print v = print v"

fun mediaPaths :: "(any \<Rightarrow> string) \<Rightarrow> any \<Rightarrow> string list" where
  "mediaPaths print (AStrings ss) = ss"
| "mediaPaths print (AList items) =
     filter (\<lambda>s. s \<noteq> [] \<and> s \<noteq> ''<nil>'') (map (\<lambda>v. TrimSpace (Sprint print v)) items)"
| "mediaPaths print _ = []"

definition has_suffix :: "string \<Rightarrow> string \<Rightarrow> bool" where
  "has_suffix suf s \<longleftrightarrow> has_prefix (rev suf) (rev s)"

definition isVideoPath :: "string \<Rightarrow> bool" where
  "isVideoPath path = list_ex (\<lambda>suf. has_suffix suf (ToLower path)) [''.mp4'', ''.mov'', ''.webm'', ''.mkv'', ''.avi'', ''.m4v'']"

definition splitShipmentMedia :: "(any \<Rightarrow> string) \<Rightarrow> row \<Rightarrow> row" where
  "splitShipmentMedia print r =
     (let paths = filter (\<lambda>p. p \<noteq> []) (map TrimSpace (mediaPaths print (column r ''images''))) in
      r(''images'' \<mapsto> AStrings (filter (\<lambda>p. \<not> isVideoPath p) paths), ''videos'' \<mapsto> AStrings (filter isVideoPath paths)))"

section \<open>The service\<close>

text \<open>
  The repository, with the interfaces it may or may not have besides the search, and the cache
  of vehicle types with the time it was filled; times are milliseconds.  The vehicles of a user are
  passed on as they are.
\<close>

record 'v shipment_repo =
  rp_find :: "float64 \<Rightarrow> float64 \<Rightarrow> float64 \<Rightarrow> int \<Rightarrow> int \<Rightarrow> string + row list"
  rp_shippings :: "(int list \<Rightarrow> string + (int \<Rightarrow> row option)) option"
  rp_types :: "(string + VehicleType list) option"
  rp_vehicles :: "(int \<Rightarrow> string + 'v list) option"

record vt_cache =
  vc_data :: vehicle_types
  vc_loaded :: "int option"

record 'v shipment_service =
  sp_repo :: "'v shipment_repo option"
  sp_defaultRadiusKm :: float64
  sp_defaultLimit :: int

definition NewShipmentService :: "'v shipment_repo option \<Rightarrow> float64 \<Rightarrow> int \<Rightarrow> 'v shipment_service" where
  "NewShipmentService repo defaultRadiusKm defaultLimit =
     \<lparr>sp_repo = repo,
      sp_defaultRadiusKm = (if defaultRadiusKm \<le> 0 then defaultShipmentRadiusKm else defaultRadiusKm),
      sp_defaultLimit = clamp_default defaultLimit\<rparr>"

definition vehicleCacheTTL :: int where "vehicleCacheTTL = 120000"

definition cachedVehicleTypes :: "'v shipment_repo \<Rightarrow> int \<Rightarrow> vt_cache \<Rightarrow> vehicle_types \<times> vt_cache" where
  "cachedVehicleTypes repo now c =
     (case rp_types repo of
        None \<Rightarrow> (Map.empty, c)
      | Some answer \<Rightarrow>
          if (case vc_loaded c of None \<Rightarrow> False | Some t \<Rightarrow> now - t < vehicleCacheTTL) then (vc_data c, c)
          else (case answer of
                  Inl e \<Rightarrow> (vc_data c, c)
                | Inr types \<Rightarrow> (vehicleTypeMap types, \<lparr>vc_data = vehicleTypeMap types, vc_loaded = Some now\<rparr>)))"

definition row_ids :: "row list \<Rightarrow> int list" where
  "row_ids rows = dedupe_from {} (filter (\<lambda>i. 0 < i) (List.map_filter (\<lambda>r. toInt64 (column r ''id'')) rows))"

definition attach_shipping :: "(int \<Rightarrow> row option) \<Rightarrow> row \<Rightarrow> row" where
  "attach_shipping byShipment r =
     r(''shipping'' \<mapsto> (case toInt64 (column r ''id'') of
        None \<Rightarrow> ANil
      | Some i \<Rightarrow> (case byShipment i of Some s \<Rightarrow> AMap s | None \<Rightarrow> ANil)))"

definition attachShippings :: "'v shipment_repo \<Rightarrow> row list \<Rightarrow> row list" where
  "attachShippings repo rows =
     (case rp_shippings repo of
        None \<Rightarrow> rows
      | Some load \<Rightarrow>
          if row_ids rows = [] then rows
          else case load (row_ids rows) of
                 Inl e \<Rightarrow> rows
               | Inr byShipment \<Rightarrow> map (attach_shipping byShipment) rows)"

text \<open>A row that is kept, and what becomes of it; \<open>None\<close> if another passenger delivers it.\<close>

definition visible_row :: "int \<Rightarrow> row \<Rightarrow> row option" where
  "visible_row userID r =
     (case column r ''shipping'' of
        AMap shipping \<Rightarrow>
          (case toInt64 (column shipping ''passenger_user_id'') of
             None \<Rightarrow> None
           | Some passengerID \<Rightarrow>
               if userID > 0 \<and> passengerID = userID
               then let r = r(''can_resume_navigation'' \<mapsto> ABool True) in
                    (case toInt64 (column shipping ''id'') of
                       Some i \<Rightarrow> if i > 0 then Some (r(''shipping_id'' \<mapsto> AInt KInt64 i)) else Some r
                     | None \<Rightarrow> Some r)
               else None)
      | _ \<Rightarrow> Some (r(''can_resume_navigation'' \<mapsto> ABool False)))"

definition loadUserVehicles :: "'v shipment_repo \<Rightarrow> int \<Rightarrow> 'v list" where
  "loadUserVehicles repo userID =
     (if userID \<le> 0 then []
      else case rp_vehicles repo of
        None \<Rightarrow> []
      | Some load \<Rightarrow> (case load userID of Inl e \<Rightarrow> [] | Inr vs \<Rightarrow> vs))"

record NearbyShipmentRequest =
  nr_Type :: string
  nr_Lat :: float64
  nr_Lng :: float64
  nr_RadiusKm :: float64
  nr_Limit :: int
  nr_Filter :: "int list"

record 'v NearbyShipmentResponse =
  np_Timestamp :: int
  np_Lat :: float64
  np_Lng :: float64
  np_RadiusKm :: float64
  np_Limit :: int
  np_Count :: int
  np_Shipments :: "row list"
  np_UserVehicles :: "'v list"

datatype shipment_error = ErrShipmentSearchDisabled | ShipmentQuery string

definition wanted :: "json_arrays \<Rightarrow> int list \<Rightarrow> row \<Rightarrow> bool" where
  "wanted js want r \<longleftrightarrow>
     want = [] \<or> hasAnyVehicleType (shipmentAllowedVehicleIDs js (column r ''vehicle_allowed'')) (vehicleTypeSet want)"

definition enrich :: "json_arrays \<Rightarrow> (any \<Rightarrow> string) \<Rightarrow> vehicle_types \<Rightarrow> row \<Rightarrow> row" where
  "enrich js print vts r =
     splitShipmentMedia print
       (r(''vehicles'' \<mapsto> AVehicles (buildShipmentVehicles (shipmentAllowedVehicleIDs js (column r ''vehicle_allowed'')) vts)))"

definition shipment_SearchNearby ::
  "json_arrays \<Rightarrow> (any \<Rightarrow> string) \<Rightarrow> 'v shipment_service \<Rightarrow> int \<Rightarrow> NearbyShipmentRequest \<Rightarrow> int \<Rightarrow> vt_cache
   \<Rightarrow> (shipment_error + 'v NearbyShipmentResponse) \<times> vt_cache" where
  "shipment_SearchNearby js print svc now req userID c =
     (case sp_repo svc of
        None \<Rightarrow> (Inl ErrShipmentSearchDisabled, c)
      | Some repo \<Rightarrow>
          let radiusKm = search_radius (sp_defaultRadiusKm svc) (nr_RadiusKm req);
              limit = search_limit (sp_defaultLimit svc) (nr_Limit req)
          in case rp_find repo (nr_Lat req) (nr_Lng req) radiusKm limit userID of
               Inl e \<Rightarrow> (Inl (ShipmentQuery e), c)
             | Inr rows \<Rightarrow>
                 let (vts, c) = (if rows = [] then (Map.empty, c) else cachedVehicleTypes repo now c);
                     out = map (enrich js print vts) (filter (wanted js (nr_Filter req)) rows);
                     out = List.map_filter (visible_row userID) (attachShippings repo out)
                 in (Inr \<lparr>np_Timestamp = now, np_Lat = nr_Lat req, np_Lng = nr_Lng req, np_RadiusKm = radiusKm, np_Limit = limit,
                          np_Count = int (length out), np_Shipments = out, np_UserVehicles = loadUserVehicles repo userID\<rparr>, c))"

section \<open>Ids in the text of a column\<close>

lemma dedupe_from_spec: "set (dedupe_from S ids) = set ids - S \<and> distinct (dedupe_from S ids)"
  by (induction S ids rule: dedupe_from.induct) auto

lemma dedupe_distinct: "distinct ids \<Longrightarrow> set ids \<inter> S = {} \<Longrightarrow> dedupe_from S ids = ids"
  by (induction S ids rule: dedupe_from.induct) auto

lemma Split_no_sep: "c \<notin> set s \<Longrightarrow> Split c s = [s]"
  by (induction s) auto

lemma Split_sep: "c \<notin> set s \<Longrightarrow> Split c (s @ c # t) = s # Split c t"
  by (induction s) auto

fun comma_join :: "string list \<Rightarrow> string" where
  "comma_join [] = []"
| "comma_join [s] = s"
| "comma_join (s # t # ss) = s @ CHR '','' # comma_join (t # ss)"

lemma Split_comma_join: "ss \<noteq> [] \<Longrightarrow> \<forall>s\<in>set ss. CHR '','' \<notin> set s \<Longrightarrow> Split (CHR '','') (comma_join ss) = ss"
  by (induction ss rule: comma_join.induct) (simp_all add: Split_no_sep Split_sep)

definition is_int64 :: "int \<Rightarrow> bool" where
  "is_int64 n \<longleftrightarrow> - (2 ^ 63) \<le> n \<and> n < 2 ^ 63"

lemma nat_text_no_sign: "nat_text k \<noteq> CHR ''-'' # t \<and> nat_text k \<noteq> CHR ''+'' # t"
  using nat_text_digits [of k] by (auto simp: is_digit_def)

lemma ParseInt_FormatInt: "is_int64 n \<Longrightarrow> ParseInt (FormatInt n) = Some n"
proof -
  assume r: "is_int64 n"
  show ?thesis
  proof (cases "n < 0")
    case True
    then show ?thesis
      using r nat_text_digits [of "nat (- n)"] by (simp add: FormatInt_def ParseInt_def text_nat_text is_int64_def)
  next
    case False
    obtain c t where ct: "nat_text (nat n) = c # t" using nat_text_digits [of "nat n"] by (cases "nat_text (nat n)") auto
    then have "c \<noteq> CHR ''-''" "c \<noteq> CHR ''+''" using nat_text_no_sign [of "nat n"] by auto
    with ct show ?thesis
      using r False nat_text_digits [of "nat n"] text_nat_text [of "nat n"]
      by (simp add: FormatInt_def ParseInt_def is_int64_def)
  qed
qed

text \<open>The characters of a printed integer.\<close>

lemma FormatInt_chars: "c \<in> set (FormatInt n) \<Longrightarrow> is_digit c \<or> c = CHR ''-''"
  using nat_text_digits by (auto simp: FormatInt_def list_all_iff split: if_splits)

lemma Trim_none: "\<forall>c\<in>set s. c \<notin> chars \<Longrightarrow> Trim s chars = s"
  by (simp add: Trim_def dropWhile_none)

lemma FormatInt_cut: "\<forall>c\<in>set (FormatInt n). c \<notin> quotes \<union> set ''{}[],'' \<union> set ''n''"
  using FormatInt_chars by (fastforce simp: quotes_def is_digit_def)

lemma FormatInt_not_null: "ToLower (FormatInt n) \<noteq> ''null''"
proof
  assume null: "ToLower (FormatInt n) = ''null''"
  then obtain c t where c: "FormatInt n = c # t" "lower_char c = CHR ''n''" by (cases "FormatInt n") (auto simp: ToLower_def)
  then have "is_digit c \<or> c = CHR ''-''" using FormatInt_chars [of c n] by simp
  with c(2) show False by (auto simp: lower_char_def is_digit_def split: if_splits)
qed

lemma parse_part:
  assumes "is_int64 n"
  shows "(let p = TrimSpace (Trim (FormatInt n) (quotes \<union> set ''{}[]'')) in if p = [] \<or> ToLower p = ''null'' then None else ParseInt p) = Some n"
proof -
  have "Trim (FormatInt n) (quotes \<union> set ''{}[]'') = FormatInt n"
    by (rule Trim_none) (use FormatInt_cut [of n] in auto)
  then show ?thesis using FormatInt_not_null [of n] ParseInt_FormatInt [OF assms] by (simp add: Let_def)
qed

lemma map_filter_all: "(\<And>x. x \<in> set xs \<Longrightarrow> f x = Some (g x)) \<Longrightarrow> List.map_filter f xs = map g xs"
  by (induction xs) (simp_all add: List.map_filter_simps)

lemma parse_comma_ids:
  assumes "ids \<noteq> []" "\<forall>i\<in>set ids. is_int64 i"
  shows "parseCommaSeparatedInt64s (comma_join (map FormatInt ids)) = dedupeInt64s ids"
proof -
  have sp: "Split (CHR '','') (comma_join (map FormatInt ids)) = map FormatInt ids"
    by (rule Split_comma_join) (use assms(1) FormatInt_no_comma in auto)
  have "List.map_filter
       (\<lambda>part. let p = TrimSpace (Trim part (quotes \<union> set ''{}[]'')) in if p = [] \<or> ToLower p = ''null'' then None else ParseInt p)
       (map FormatInt ids) = ids"
    using assms(2) parse_part by (induction ids) (simp_all add: List.map_filter_simps)
  then show ?thesis unfolding parseCommaSeparatedInt64s_def sp by simp
qed

lemma comma_join_chars: "set (comma_join ss) \<subseteq> insert (CHR '','') (\<Union> (set ` set ss))"
  by (induction ss rule: comma_join.induct) auto

lemma comma_join_Cons: "ss \<noteq> [] \<Longrightarrow> comma_join (s # ss) = s @ CHR '','' # comma_join ss"
  by (cases ss) auto

lemma TrimSpace_none: "\<forall>c\<in>set s. \<not> is_space c \<Longrightarrow> TrimSpace s = s"
  by (simp add: TrimSpace_def dropWhile_none)

lemma joined_chars:
  assumes "c \<in> set (comma_join (map FormatInt ids))"
  shows "is_digit c \<or> c = CHR ''-'' \<or> c = CHR '',''"
  using assms comma_join_chars [of "map FormatInt ids"] FormatInt_chars by fastforce

lemma joined_no_space: "\<forall>c\<in>set (comma_join (map FormatInt ids)). \<not> is_space c"
  using joined_chars by (fastforce simp: is_digit_def is_space_def)

lemma parse_joined:
  assumes "ids \<noteq> []" "\<forall>i\<in>set ids. is_int64 i"
  defines "raw \<equiv> comma_join (map FormatInt ids)"
  shows "(if CHR '','' \<in> set raw then parseCommaSeparatedInt64s raw
      else case ParseInt (Trim raw quotes) of Some i \<Rightarrow> [i] | None \<Rightarrow> []) = dedupeInt64s ids"
proof (cases "CHR '','' \<in> set raw")
  case True
  then show ?thesis using parse_comma_ids [OF assms(1,2)] by (simp add: raw_def)
next
  case False
  have "tl ids = []"
  proof (rule ccontr)
    assume "tl ids \<noteq> []"
    then obtain i j t where "ids = i # j # t" by (cases ids; cases "tl ids") auto
    with False show False by (simp add: raw_def)
  qed
  then obtain i where ids: "ids = [i]" using assms(1) by (cases ids) auto
  then have raw: "raw = FormatInt i" by (simp add: raw_def)
  have "Trim raw quotes = raw" unfolding raw by (rule Trim_none) (use FormatInt_cut [of i] in auto)
  then show ?thesis using False ids assms(2) ParseInt_FormatInt [of i] raw by (simp add: dedupeInt64s_def)
qed

text \<open>
  A list of ids printed as an array of the database (\<open>{1,2,3}\<close>), or with commas only, is read
  back as the same ids, each once, whatever the JSON decoder says of it.
\<close>

theorem vehicle_ids_roundtrip:
  assumes "ids \<noteq> []" "\<forall>i\<in>set ids. is_int64 i"
  shows "shipmentAllowedVehicleIDsFromString js (''{'' @ comma_join (map FormatInt ids) @ ''}'') = dedupeInt64s ids
    \<and> shipmentAllowedVehicleIDsFromString js (comma_join (map FormatInt ids)) = dedupeInt64s ids"
proof -
  let ?raw = "comma_join (map FormatInt ids)"
  obtain c t where ct: "?raw = c # t"
    using assms(1) FormatInt_no_comma by (cases ids; cases "tl ids"; cases ?raw) (auto simp: comma_join_Cons)
  have c: "is_digit c \<or> c = CHR ''-'' \<or> c = CHR '',''" using joined_chars [of c ids] ct by simp
  then have head: "c \<noteq> CHR ''{''" "c \<noteq> CHR ''[''" "lower_char c \<noteq> CHR ''n''"
    by (auto simp: is_digit_def lower_char_def)
  have t1: "TrimSpace (''{'' @ ?raw @ ''}'') = ''{'' @ ?raw @ ''}''"
    by (rule TrimSpace_none) (use joined_no_space [of ids] in \<open>auto simp: is_space_def\<close>)
  have t2: "TrimSpace ?raw = ?raw" by (rule TrimSpace_none [OF joined_no_space])
  have "shipmentAllowedVehicleIDsFromString js (''{'' @ ?raw @ ''}'')
      = (if CHR '','' \<in> set ?raw then parseCommaSeparatedInt64s ?raw
         else case ParseInt (Trim ?raw quotes) of Some i \<Rightarrow> [i] | None \<Rightarrow> [])"
    unfolding shipmentAllowedVehicleIDsFromString_def t1 Let_def
    using t2 by (simp add: ToLower_def lower_char_def butlast_append)
  moreover have "shipmentAllowedVehicleIDsFromString js ?raw
      = (if CHR '','' \<in> set ?raw then parseCommaSeparatedInt64s ?raw
         else case ParseInt (Trim ?raw quotes) of Some i \<Rightarrow> [i] | None \<Rightarrow> [])"
    unfolding shipmentAllowedVehicleIDsFromString_def t2 Let_def
    using head by (simp add: ct ToLower_def)
  ultimately show ?thesis using parse_joined [OF assms] by simp
qed

section \<open>Which shipments a passenger sees\<close>

text \<open>
  The database answers for the shipments asked about: \<open>table\<close> is the active shipping of each, if
  it has one.
\<close>

definition answers :: "(int list \<Rightarrow> string + (int \<Rightarrow> row option)) \<Rightarrow> (int \<Rightarrow> row option) \<Rightarrow> bool" where
  "answers load table \<longleftrightarrow> (\<forall>ids. load ids = Inr (\<lambda>i. if i \<in> set ids then table i else None))"

definition shipping_of :: "(int \<Rightarrow> row option) \<Rightarrow> row \<Rightarrow> row option" where
  "shipping_of table r = (case toInt64 (column r ''id'') of None \<Rightarrow> None | Some i \<Rightarrow> if 0 < i then table i else None)"

definition delivers :: "int \<Rightarrow> row \<Rightarrow> bool" where
  "delivers userID shipping \<longleftrightarrow> 0 < userID \<and> toInt64 (column shipping ''passenger_user_id'') = Some userID"

definition free_or_own :: "(int \<Rightarrow> row option) \<Rightarrow> int \<Rightarrow> row \<Rightarrow> bool" where
  "free_or_own table userID r \<longleftrightarrow> (case shipping_of table r of None \<Rightarrow> True | Some s \<Rightarrow> delivers userID s)"

definition added_columns :: "string set" where
  "added_columns = {''vehicles'', ''images'', ''videos'', ''shipping'', ''can_resume_navigation'', ''shipping_id''}"

definition vehicles_shown :: "json_arrays \<Rightarrow> row \<Rightarrow> row \<Rightarrow> bool" where
  "vehicles_shown js r s \<longleftrightarrow> (\<exists>vs. s ''vehicles'' = Some (AVehicles vs) \<and> distinct (map fst vs)
     \<and> set (map fst vs) = set (shipmentAllowedVehicleIDs js (column r ''vehicle_allowed''))
     \<and> (\<forall>(i, label, title)\<in>set vs. label \<noteq> []))"

definition media_shown :: "(any \<Rightarrow> string) \<Rightarrow> row \<Rightarrow> row \<Rightarrow> bool" where
  "media_shown print r s \<longleftrightarrow> (\<exists>images videos. s ''images'' = Some (AStrings images) \<and> s ''videos'' = Some (AStrings videos)
     \<and> (\<forall>p\<in>set images. \<not> isVideoPath p) \<and> (\<forall>p\<in>set videos. isVideoPath p)
     \<and> mset images + mset videos = mset (filter (\<lambda>p. p \<noteq> []) (map TrimSpace (mediaPaths print (column r ''images'')))))"

definition shown :: "json_arrays \<Rightarrow> (any \<Rightarrow> string) \<Rightarrow> (int \<Rightarrow> row option) \<Rightarrow> row \<Rightarrow> row \<Rightarrow> bool" where
  "shown js print table r s \<longleftrightarrow> (\<forall>k. k \<notin> added_columns \<longrightarrow> s k = r k) \<and> vehicles_shown js r s \<and> media_shown print r s
     \<and> s ''can_resume_navigation'' = Some (ABool (shipping_of table r \<noteq> None))"

lemma enrich_shown:
  "(\<forall>k. k \<notin> added_columns \<longrightarrow> enrich js print vts r k = r k) \<and> vehicles_shown js r (enrich js print vts r)
    \<and> media_shown print r (enrich js print vts r) \<and> enrich js print vts r ''shipping'' = r ''shipping''"
proof -
  have m: "mset (filter (\<lambda>p. \<not> isVideoPath p) ps) + mset (filter isVideoPath ps) = mset ps" for ps
    by (simp add: mset_filter multiset_partition [symmetric] add.commute)
  have v: "shipment_vehicle vts i = (j, label, title) \<Longrightarrow> j = i \<and> label \<noteq> []" for i j label title
    by (auto simp: shipment_vehicle_def Let_def split: if_splits)
  have f: "fst (shipment_vehicle vts i) = i" for i by (simp add: shipment_vehicle_def Let_def)
  have "vehicles_shown js r (enrich js print vts r)"
    using dedupe_from_spec [of "{}" "shipmentAllowedVehicleIDs js (column r ''vehicle_allowed'')"] v
    by (auto simp: vehicles_shown_def enrich_def splitShipmentMedia_def Let_def buildShipmentVehicles_def comp_def f image_image)
  moreover have "media_shown print r (enrich js print vts r)"
    using m [of "filter (\<lambda>p. p \<noteq> []) (map TrimSpace (mediaPaths print (column r ''images'')))"]
    by (simp add: media_shown_def enrich_def splitShipmentMedia_def Let_def column_def)
  ultimately show ?thesis by (simp add: added_columns_def enrich_def splitShipmentMedia_def Let_def)
qed

lemma row_ids_iff: "i \<in> set (row_ids rows) \<longleftrightarrow> 0 < i \<and> (\<exists>r\<in>set rows. toInt64 (column r ''id'') = Some i)"
proof -
  have "set (List.map_filter f xs) = {y. \<exists>x\<in>set xs. f x = Some y}" for f :: "row \<Rightarrow> int option" and xs
    by (induction xs) (auto simp: List.map_filter_simps split: option.splits)
  then show ?thesis by (auto simp: row_ids_def dedupe_from_spec)
qed

lemma attach_map:
  assumes "rp_shippings repo = Some load" "answers load table" "\<forall>r\<in>set rows. r ''shipping'' = None"
  obtains att where "attachShippings repo rows = map att rows"
    "\<And>r. r \<in> set rows \<Longrightarrow> column (att r) ''shipping'' = (case shipping_of table r of None \<Rightarrow> ANil | Some s \<Rightarrow> AMap s)"
    "\<And>r k. k \<noteq> ''shipping'' \<Longrightarrow> att r k = r k"
proof (cases "row_ids rows = []")
  case True
  then have "shipping_of table r = None" if "r \<in> set rows" for r
    using row_ids_iff [of _ rows] that by (auto simp: shipping_of_def split: option.split)
  then show ?thesis
    using assms True by (intro that [of "\<lambda>r. r"]) (auto simp: attachShippings_def column_def)
next
  case False
  let ?by = "\<lambda>i. if i \<in> set (row_ids rows) then table i else None"
  have "attachShippings repo rows = map (attach_shipping ?by) rows"
    using assms(1,2) False by (simp add: attachShippings_def answers_def)
  moreover have "column (attach_shipping ?by r) ''shipping'' = (case shipping_of table r of None \<Rightarrow> ANil | Some s \<Rightarrow> AMap s)"
    if "r \<in> set rows" for r
    using row_ids_iff [of _ rows] that
    by (auto simp: attach_shipping_def shipping_of_def column_def split: option.splits if_splits)
  ultimately show ?thesis by (rule that) (simp_all add: attach_shipping_def)
qed

lemma map_filter_map: "List.map_filter f (map g xs) = List.map_filter (f \<circ> g) xs"
  by (induction xs) (simp_all add: List.map_filter_simps split: option.split)

lemma list_all2_map_filter:
  "(\<And>x. x \<in> set xs \<Longrightarrow> case f x of None \<Rightarrow> \<not> P x | Some y \<Rightarrow> P x \<and> R x y) \<Longrightarrow> list_all2 R (filter P xs) (List.map_filter f xs)"
proof (induction xs)
  case (Cons x xs)
  have "list_all2 R (filter P xs) (List.map_filter f xs)" using Cons by simp
  with Cons.prems [of x] show ?case by (simp add: List.map_filter_simps split: option.splits)
qed (simp add: List.map_filter_simps)

lemma visible_row_shown:
  assumes "\<forall>k. k \<notin> added_columns \<longrightarrow> s k = r k" "vehicles_shown js r s" "media_shown print r s"
    and "column s ''shipping'' = (case shipping_of table r of None \<Rightarrow> ANil | Some sh \<Rightarrow> AMap sh)"
  shows "case visible_row userID s of None \<Rightarrow> \<not> free_or_own table userID r | Some t \<Rightarrow> free_or_own table userID r \<and> shown js print table r t"
proof -
  have keep: "shown js print table r t"
    if "t ''can_resume_navigation'' = Some (ABool (shipping_of table r \<noteq> None))"
      "\<And>k. k \<notin> {''can_resume_navigation'', ''shipping_id''} \<Longrightarrow> t k = s k" for t
    using that assms(1-3) by (simp add: shown_def added_columns_def vehicles_shown_def media_shown_def)
  show ?thesis
  proof (cases "shipping_of table r")
    case None
    then show ?thesis using assms(4) keep by (simp add: visible_row_def free_or_own_def)
  next
    case (Some sh)
    show ?thesis
    proof (cases "delivers userID sh")
      case True
      then show ?thesis using assms(4) Some keep
        by (auto simp: visible_row_def free_or_own_def delivers_def Let_def split: option.split)
    next
      case False
      then show ?thesis using assms(4) Some
        by (auto simp: visible_row_def free_or_own_def delivers_def Let_def split: option.split)
    qed
  qed
qed

lemma SearchNearby_rows:
  assumes "shipment_SearchNearby js print svc now req userID c = (Inr resp, c')" "sp_repo svc = Some repo"
  obtains rows vts where
    "rp_find repo (nr_Lat req) (nr_Lng req) (np_RadiusKm resp) (np_Limit resp) userID = Inr rows"
    "np_Shipments resp = List.map_filter (visible_row userID)
       (attachShippings repo (map (enrich js print vts) (filter (wanted js (nr_Filter req)) rows)))"
    "np_Count resp = int (length (np_Shipments resp))"
    "np_RadiusKm resp = search_radius (sp_defaultRadiusKm svc) (nr_RadiusKm req)"
    "np_Limit resp = search_limit (sp_defaultLimit svc) (nr_Limit req)"
  using assms by (auto simp: shipment_SearchNearby_def Let_def split: sum.splits prod.splits intro: that)

text \<open>
  Which shipments a passenger sees, as long as the database answers.  They are exactly the
  shipments found near the passenger that allow one of the wanted vehicles (any, if none is
  named) and have no active shipping or one the passenger delivers, in the order found.  A
  shown row keeps the columns of the table and says truthfully whether it can be resumed; its
  vehicles are the allowed ones, each once, with a label; its media are the paths that were
  there, films and pictures apart.
\<close>

theorem nearby_shipments:
  assumes "shipment_SearchNearby js print svc now req userID c = (Inr resp, c')"
    and "sp_repo svc = Some repo" "rp_shippings repo = Some load" "answers load table"
    and "rp_find repo (nr_Lat req) (nr_Lng req) (np_RadiusKm resp) (np_Limit resp) userID = Inr rows"
    and "\<forall>r\<in>set rows. r ''shipping'' = None"
  shows "list_all2 (shown js print table)
      (filter (\<lambda>r. wanted js (nr_Filter req) r \<and> free_or_own table userID r) rows) (np_Shipments resp)
    \<and> np_Count resp = int (length (np_Shipments resp))"
proof -
  obtain vts where ships: "np_Shipments resp = List.map_filter (visible_row userID)
       (attachShippings repo (map (enrich js print vts) (filter (wanted js (nr_Filter req)) rows)))"
    and count: "np_Count resp = int (length (np_Shipments resp))"
    using SearchNearby_rows [OF assms(1,2)] assms(5) by (metis Inr_inject)
  let ?rows = "filter (wanted js (nr_Filter req)) rows" and ?en = "enrich js print vts"
  have none: "\<forall>r\<in>set (map ?en ?rows). r ''shipping'' = None" using assms(6) enrich_shown by simp
  obtain att where att: "attachShippings repo (map ?en ?rows) = map att (map ?en ?rows)"
      "\<And>r. r \<in> set (map ?en ?rows) \<Longrightarrow> column (att r) ''shipping'' = (case shipping_of table r of None \<Rightarrow> ANil | Some s \<Rightarrow> AMap s)"
      "\<And>r k. k \<noteq> ''shipping'' \<Longrightarrow> att r k = r k"
    using attach_map [OF assms(3,4) none] by blast
  have same: "shipping_of table (?en r) = shipping_of table r" for r
    using enrich_shown [of js print vts r] by (simp add: shipping_of_def column_def added_columns_def)
  have "list_all2 (shown js print table) (filter (free_or_own table userID) ?rows)
      (List.map_filter (\<lambda>r. visible_row userID (att (?en r))) ?rows)"
  proof (rule list_all2_map_filter)
    fix r assume r: "r \<in> set ?rows"
    note e = enrich_shown [of js print vts r]
    have "\<forall>k. k \<notin> added_columns \<longrightarrow> att (?en r) k = r k" using e att(3) by (simp add: added_columns_def)
    moreover have "vehicles_shown js r (att (?en r))" "media_shown print r (att (?en r))"
      using e att(3) by (simp_all add: vehicles_shown_def media_shown_def)
    moreover have "column (att (?en r)) ''shipping'' = (case shipping_of table r of None \<Rightarrow> ANil | Some sh \<Rightarrow> AMap sh)"
      using att(2) [of "?en r"] r same by simp
    ultimately show "case visible_row userID (att (?en r)) of None \<Rightarrow> \<not> free_or_own table userID r
        | Some t \<Rightarrow> free_or_own table userID r \<and> shown js print table r t"
      by (rule visible_row_shown)
  qed
  then show ?thesis using count unfolding ships att(1) by (simp add: map_filter_map comp_def conj_commute)
qed

text \<open>
  If the database does not answer for the shippings, nothing is hidden: every wanted
  shipment near the passenger is shown, those that others deliver included, and all of them
  as not resumable.
\<close>

theorem shipments_fail_open:
  assumes "shipment_SearchNearby js print svc now req userID c = (Inr resp, c')"
    and "sp_repo svc = Some repo" "rp_shippings repo = Some (\<lambda>ids. Inl e)"
    and "rp_find repo (nr_Lat req) (nr_Lng req) (np_RadiusKm resp) (np_Limit resp) userID = Inr rows"
    and "\<forall>r\<in>set rows. r ''shipping'' = None"
  shows "map (\<lambda>s. s ''id'') (np_Shipments resp) = map (\<lambda>r. r ''id'') (filter (wanted js (nr_Filter req)) rows)
    \<and> (\<forall>s\<in>set (np_Shipments resp). s ''can_resume_navigation'' = Some (ABool False))"
proof -
  obtain vts where ships: "np_Shipments resp = List.map_filter (visible_row userID)
       (attachShippings repo (map (enrich js print vts) (filter (wanted js (nr_Filter req)) rows)))"
    using SearchNearby_rows [OF assms(1,2)] assms(4) by (metis Inr_inject)
  have a: "attachShippings repo rs = rs" for rs by (simp add: attachShippings_def assms(3))
  have v: "visible_row userID (enrich js print vts r) = Some ((enrich js print vts r)(''can_resume_navigation'' \<mapsto> ABool False))"
    if "r \<in> set rows" for r
    using bspec [OF assms(5) that] enrich_shown [of js print vts r] by (simp add: visible_row_def column_def)
  have "np_Shipments resp = map (\<lambda>r. (enrich js print vts r)(''can_resume_navigation'' \<mapsto> ABool False)) (filter (wanted js (nr_Filter req)) rows)"
    unfolding ships a by (subst map_filter_all [where g = "\<lambda>s. s(''can_resume_navigation'' \<mapsto> ABool False)"]) (use v in auto)
  then show ?thesis using enrich_shown [of js print vts] by (simp add: added_columns_def)
qed

section \<open>The cache of vehicle types\<close>

definition empty_cache :: vt_cache where
  "empty_cache = \<lparr>vc_data = Map.empty, vc_loaded = None\<rparr>"

text \<open>The cache after calls at given times, each with what the database would answer then.\<close>

definition vt_run :: "'v shipment_repo \<Rightarrow> (int \<times> (string + VehicleType list)) list \<Rightarrow> vt_cache" where
  "vt_run repo hist = foldl (\<lambda>c (now, answer). snd (cachedVehicleTypes (repo\<lparr>rp_types := Some answer\<rparr>) now c)) empty_cache hist"

definition loaded_from :: "(int \<times> (string + VehicleType list)) list \<Rightarrow> vt_cache \<Rightarrow> bool" where
  "loaded_from hist c \<longleftrightarrow> (case vc_loaded c of
       None \<Rightarrow> vc_data c = Map.empty
     | Some t \<Rightarrow> \<exists>types. (t, Inr types) \<in> set hist \<and> vc_data c = vehicleTypeMap types)"

lemma loaded_from_step:
  "loaded_from hist c \<Longrightarrow> loaded_from (hist @ [(now, answer)]) (snd (cachedVehicleTypes (repo\<lparr>rp_types := Some answer\<rparr>) now c))"
  by (auto simp: loaded_from_def cachedVehicleTypes_def split: option.splits sum.splits)

lemma vt_run_loaded: "loaded_from hist (vt_run repo hist)"
proof (induction hist rule: rev_induct)
  case Nil
  show ?case by (simp add: vt_run_def loaded_from_def empty_cache_def)
next
  case (snoc x hist)
  obtain now answer where "x = (now, answer)" by fastforce
  with loaded_from_step [OF snoc] show ?case by (simp add: vt_run_def)
qed

text \<open>
  The names of the vehicle types a passenger sees are never out of date by more than two
  minutes unless the database fails: after any calls before, a call gives what the database
  answers now, or what it answered less than two minutes ago; only if it fails now the call
  gives an older answer, or nothing if there never was one.
\<close>

theorem vehicle_types_fresh:
  assumes "cachedVehicleTypes (repo\<lparr>rp_types := Some answer\<rparr>) now (vt_run repo hist) = (vts, c')"
  shows "(\<exists>types. answer = Inr types \<and> vts = vehicleTypeMap types)
    \<or> (\<exists>t types. (t, Inr types) \<in> set hist \<and> now - t < 120000 \<and> vts = vehicleTypeMap types)
    \<or> (\<exists>e. answer = Inl e \<and> (vts = Map.empty \<or> (\<exists>t types. (t, Inr types) \<in> set hist \<and> vts = vehicleTypeMap types)))"
  using assms vt_run_loaded [of hist repo]
  by (auto simp: cachedVehicleTypes_def loaded_from_def vehicleCacheTTL_def split: option.splits sum.splits if_splits) metis+

section \<open>Examples\<close>

definition example_row :: "int \<Rightarrow> row" where
  "example_row i = [''id'' \<mapsto> AInt KInt64 i, ''vehicle_allowed'' \<mapsto> AText ''{3,4}'']"

definition example_shipping :: row where
  "example_shipping = [''id'' \<mapsto> AInt KInt64 70, ''passenger_user_id'' \<mapsto> AInt KInt64 5]"

definition example_table :: "int \<Rightarrow> row option" where
  "example_table = [2 \<mapsto> example_shipping]"

definition shipments_with :: "(int list \<Rightarrow> string + (int \<Rightarrow> row option)) \<Rightarrow> unit shipment_service" where
  "shipments_with load = NewShipmentService (Some \<lparr>rp_find = (\<lambda>_ _ _ _ _. Inr [example_row 1, example_row 2]),
     rp_shippings = Some load, rp_types = None, rp_vehicles = None\<rparr>) 0 0"

definition example_search :: NearbyShipmentRequest where
  "example_search = \<lparr>nr_Type = [], nr_Lat = 35, nr_Lng = 51, nr_RadiusKm = 0, nr_Limit = 0, nr_Filter = []\<rparr>"

definition no_json :: json_arrays where
  "no_json = \<lparr>js_ints = (\<lambda>_. None), js_any = (\<lambda>_. None)\<rparr>"

lemma shipments_with_repo:
  "sp_repo (shipments_with load) = Some \<lparr>rp_find = (\<lambda>_ _ _ _ _. Inr [example_row 1, example_row 2]),
     rp_shippings = Some load, rp_types = None, rp_vehicles = None\<rparr>"
  by (simp add: shipments_with_def NewShipmentService_def)

lemma example_answer:
  "\<exists>resp c'. shipment_SearchNearby no_json (\<lambda>_. []) (shipments_with load) 9 example_search u empty_cache = (Inr resp, c')"
  by (simp add: shipment_SearchNearby_def shipments_with_repo Let_def cachedVehicleTypes_def)

definition table_load :: "int list \<Rightarrow> string + (int \<Rightarrow> row option)" where
  "table_load ids = Inr (\<lambda>i. if i \<in> set ids then example_table i else None)"

theorem nearby_shipments_witness:
  "\<exists>resp c'. shipment_SearchNearby no_json (\<lambda>_. []) (shipments_with table_load) 9 example_search 6 empty_cache = (Inr resp, c')
     \<and> np_Count resp = 1"
proof -
  obtain resp c' where r: "shipment_SearchNearby no_json (\<lambda>_. []) (shipments_with table_load) 9 example_search 6 empty_cache = (Inr resp, c')"
    using example_answer by blast
  have ans: "answers table_load example_table" by (simp add: answers_def table_load_def)
  have rows: "\<forall>r\<in>set [example_row 1, example_row 2]. r ''shipping'' = None" by (simp add: example_row_def)
  have "list_all2 (shown no_json (\<lambda>_. []) example_table)
      (filter (\<lambda>r. wanted no_json (nr_Filter example_search) r \<and> free_or_own example_table 6 r) [example_row 1, example_row 2]) (np_Shipments resp)
    \<and> np_Count resp = int (length (np_Shipments resp))"
    by (rule nearby_shipments [OF r shipments_with_repo _ ans _ rows]) simp_all
  moreover have "filter (\<lambda>r. wanted no_json (nr_Filter example_search) r \<and> free_or_own example_table 6 r) [example_row 1, example_row 2] = [example_row 1]"
    by (simp add: wanted_def example_search_def free_or_own_def shipping_of_def column_def example_row_def to_int64_def
        example_table_def delivers_def example_shipping_def)
  ultimately have "np_Count resp = 1" by (auto dest: list_all2_lengthD)
  with r show ?thesis by blast
qed

theorem shipments_fail_open_witness:
  "\<exists>resp c'. shipment_SearchNearby no_json (\<lambda>_. []) (shipments_with (\<lambda>_. Inl ''down'')) 9 example_search 6 empty_cache = (Inr resp, c')
     \<and> map (\<lambda>s. s ''id'') (np_Shipments resp) = [Some (AInt KInt64 1), Some (AInt KInt64 2)]"
proof -
  obtain resp c' where r: "shipment_SearchNearby no_json (\<lambda>_. []) (shipments_with (\<lambda>_. Inl ''down'')) 9 example_search 6 empty_cache = (Inr resp, c')"
    using example_answer by blast
  have rows: "\<forall>r\<in>set [example_row 1, example_row 2]. r ''shipping'' = None" by (simp add: example_row_def)
  have "map (\<lambda>s. s ''id'') (np_Shipments resp)
      = map (\<lambda>r. r ''id'') (filter (wanted no_json (nr_Filter example_search)) [example_row 1, example_row 2])"
    using shipments_fail_open [OF r shipments_with_repo _ _ rows, where e = "''down''"] by simp
  with r show ?thesis by (simp add: wanted_def example_search_def example_row_def)
qed

theorem vehicle_ids_roundtrip_witness: "shipmentAllowedVehicleIDsFromString no_json (comma_join (map FormatInt [3, 4, 3])) = [3, 4]"
  using vehicle_ids_roundtrip [of "[3, 4, 3]" no_json] by (simp add: is_int64_def dedupeInt64s_def)

theorem vehicle_types_fresh_witness:
  "fst (cachedVehicleTypes ((the (sp_repo (shipments_with table_load)))\<lparr>rp_types := Some (Inl ''down'')\<rparr>) 5
      (vt_run (the (sp_repo (shipments_with table_load))) [])) = Map.empty"
proof -
  obtain vts c' where r: "cachedVehicleTypes ((the (sp_repo (shipments_with table_load)))\<lparr>rp_types := Some (Inl ''down'')\<rparr>) 5
      (vt_run (the (sp_repo (shipments_with table_load))) []) = (vts, c')" by fastforce
  from vehicle_types_fresh [OF r] r show ?thesis by simp
qed

end
