(* ===== verification/WsNearby.thy ===== *)
theory WsNearby
  imports ShipmentSvc
begin

text \<open>
  The socket for nearby searches: \<open>internal/middleware/wsauth.go\<close> (who may connect),
  \<open>internal/wsnearby\<close> (connection and message limits, messages, sessions) and
  \<open>internal/handler/shipment_ws.go\<close>, which serves one connection.  Times of the message limiter
  are seconds.  The JSON decoder is a parameter; sessions with their pumps are a step relation.
\<close>

section \<open>Who may connect\<close>

record ws_request =
  wr_APIKey :: string
  wr_Authorization :: string
  wr_Protocol :: string
  wr_TokenParam :: string
  wr_TLS :: bool
  wr_ForwardedProto :: string

record WSAuthOptions =
  wo_RequireAuth :: bool
  wo_APIKey :: string
  wo_JWTSecret :: string
  wo_JWTAlgorithm :: string

record WSAuthResult =
  wa_UserID :: int
  wa_Method :: "auth_method option"

definition no_result :: WSAuthResult where
  "no_result = \<lparr>wa_UserID = 0, wa_Method = None\<rparr>"

definition wsBearerToken :: "ws_request \<Rightarrow> string" where
  "wsBearerToken r =
     (let auth = TrimSpace (wr_Authorization r) in
      if has_prefix ''bearer '' (ToLower auth) then TrimSpace (drop 7 auth)
      else let token = websocketSubprotocolBearer (wr_Protocol r) in
           if token \<noteq> [] then token else TrimSpace (wr_TokenParam r))"

definition tryWSJWTIdentity :: "jwt_parser \<Rightarrow> ws_request \<Rightarrow> WSAuthOptions \<Rightarrow> WSAuthResult option" where
  "tryWSJWTIdentity parse r opts =
     (let token = wsBearerToken r in
      if token = [] then None
      else let secret = TrimSpace (wo_JWTSecret opts) in
           if secret = [] then None
           else let alg = ToUpper (TrimSpace (wo_JWTAlgorithm opts)); alg = (if alg = [] then ''HS256'' else alg) in
                case validateJWT parse token secret alg of
                  None \<Rightarrow> None
                | Some userID \<Rightarrow> if userID \<le> 0 then None else Some \<lparr>wa_UserID = userID, wa_Method = Some AuthJWT\<rparr>)"

definition AuthenticateWebSocketUpgrade :: "jwt_parser \<Rightarrow> ws_request \<Rightarrow> WSAuthOptions \<Rightarrow> WSAuthResult option" where
  "AuthenticateWebSocketUpgrade parse r opts =
     (if \<not> wo_RequireAuth opts
      then (case tryWSJWTIdentity parse r opts of Some a \<Rightarrow> Some a | None \<Rightarrow> Some no_result)
      else let key = TrimSpace (wo_APIKey opts); token = wsBearerToken r in
           if key \<noteq> [] \<and> wr_APIKey r \<noteq> [] \<and> wr_APIKey r = key then Some \<lparr>wa_UserID = 0, wa_Method = Some AuthAPIKey\<rparr>
           else if token = [] then None
           else if key \<noteq> [] \<and> token = key then Some \<lparr>wa_UserID = 0, wa_Method = Some AuthAPIKey\<rparr>
           else tryWSJWTIdentity parse r opts)"

definition RequestIsSecure :: "ws_request \<Rightarrow> bool" where
  "RequestIsSecure r \<longleftrightarrow> wr_TLS r \<or> ToLower (TrimSpace (wr_ForwardedProto r)) \<in> {''https'', ''wss''}"

section \<open>Limits\<close>

record ConnLimiter =
  cl_perIP :: "string \<Rightarrow> int"
  cl_global :: int
  cl_maxIP :: int
  cl_maxGlob :: int

text \<open>An address without an entry in the map reads as zero, and an entry that reaches zero is deleted.\<close>

definition NewConnLimiter :: "int \<Rightarrow> int \<Rightarrow> ConnLimiter" where
  "NewConnLimiter maxPerIP maxGlobal =
     \<lparr>cl_perIP = (\<lambda>_. 0), cl_global = 0, cl_maxIP = (if maxPerIP \<le> 0 then 10 else maxPerIP),
      cl_maxGlob = (if maxGlobal \<le> 0 then 2000 else maxGlobal)\<rparr>"

definition cl_Acquire :: "string \<Rightarrow> ConnLimiter \<Rightarrow> bool \<times> ConnLimiter" where
  "cl_Acquire ip l =
     (if cl_global l \<ge> cl_maxGlob l then (False, l)
      else if cl_perIP l ip \<ge> cl_maxIP l then (False, l)
      else (True, l\<lparr>cl_perIP := (cl_perIP l)(ip := cl_perIP l ip + 1), cl_global := cl_global l + 1\<rparr>))"

definition cl_Release :: "string \<Rightarrow> ConnLimiter \<Rightarrow> ConnLimiter" where
  "cl_Release ip l =
     (let l = (if cl_perIP l ip > 0 then l\<lparr>cl_perIP := (cl_perIP l)(ip := cl_perIP l ip - 1)\<rparr> else l) in
      if cl_global l > 0 then l\<lparr>cl_global := cl_global l - 1\<rparr> else l)"

record MessageLimiter =
  ml_rate :: float64
  ml_burst :: float64
  ml_tokens :: float64
  ml_last :: float64

definition NewMessageLimiter :: "float64 \<Rightarrow> int \<Rightarrow> float64 \<Rightarrow> MessageLimiter" where
  "NewMessageLimiter perSec burst now =
     (let perSec = (if perSec \<le> 0 then 2 else perSec); burst = (if burst \<le> 0 then 5 else burst) in
      \<lparr>ml_rate = perSec, ml_burst = of_int burst, ml_tokens = of_int burst, ml_last = now\<rparr>)"

definition Allow :: "float64 \<Rightarrow> MessageLimiter \<Rightarrow> bool \<times> MessageLimiter" where
  "Allow now m =
     (let elapsed = now - ml_last m;
          tokens = ml_tokens m + elapsed * ml_rate m;
          tokens = (if tokens > ml_burst m then ml_burst m else tokens);
          m = m\<lparr>ml_last := now, ml_tokens := tokens\<rparr>
      in if tokens < 1 then (False, m) else (True, m\<lparr>ml_tokens := tokens - 1\<rparr>))"

section \<open>Messages\<close>

definition MsgSubscribeLocation :: string where "MsgSubscribeLocation = ''SUBSCRIBE_LOCATION''"
definition MsgPing :: string where "MsgPing = ''PING''"
definition MsgPong :: string where "MsgPong = ''PONG''"

record SubscribeData =
  sd_Lat :: float64
  sd_Lng :: float64
  sd_Role :: string
  sd_RadiusKm :: float64
  sd_Limit :: int
  sd_Filter :: "int list"

text \<open>The decoder: an envelope (its type and its raw data), the payload, and a flat request.\<close>

record ws_json =
  wj_env :: "string \<Rightarrow> (string \<times> string) option"
  wj_data :: "string \<Rightarrow> SubscribeData option"
  wj_req :: "string \<Rightarrow> NearbyShipmentRequest option"

definition nearbyRequestType :: "string \<Rightarrow> string" where
  "nearbyRequestType raw =
     (let t = ToLower (TrimSpace raw) in
      if t \<in> {[], ''passenger'', ''shipment.nearby''} then ''passenger'' else if t = ''sender'' then ''sender'' else [])"

definition validateNearbyRequest :: "NearbyShipmentRequest \<Rightarrow> string option" where
  "validateNearbyRequest req =
     (if \<not> ValidCoords (nr_Lat req) (nr_Lng req)
      then Some ''coordinates out of valid range (-90 <= lat <= 90, -180 <= lng <= 180)''
      else if nr_RadiusKm req < 0 then Some ''radius_km must be positive''
      else if nr_Limit req < 0 then Some ''limit must be positive''
      else if nearbyRequestType (nr_Type req) = [] then Some ''unsupported nearby request type''
      else None)"

definition tryLegacyNearbyRequest :: "ws_json \<Rightarrow> string \<Rightarrow> NearbyShipmentRequest option" where
  "tryLegacyNearbyRequest js raw =
     (case wj_req js raw of
        None \<Rightarrow> None
      | Some req \<Rightarrow> if validateNearbyRequest req = None then Some req else None)"

definition subscribeDataToRequest :: "SubscribeData \<Rightarrow> string + NearbyShipmentRequest" where
  "subscribeDataToRequest d =
     (let role = ToLower (TrimSpace (sd_Role d)) in
      if role \<in> {[], ''passenger'', ''shipment.nearby'', ''sender''}
      then (let req = \<lparr>nr_Type = (if role = ''sender'' then ''sender'' else ''passenger''), nr_Lat = sd_Lat d, nr_Lng = sd_Lng d,
                       nr_RadiusKm = sd_RadiusKm d, nr_Limit = sd_Limit d, nr_Filter = sd_Filter d\<rparr>
            in case validateNearbyRequest req of Some e \<Rightarrow> Inl e | None \<Rightarrow> Inr req)
      else Inl (''unsupported role '' @ Quote (sd_Role d)))"

datatype inbound = Ping | Subscribe NearbyShipmentRequest | Legacy NearbyShipmentRequest

definition ParseInbound :: "ws_json \<Rightarrow> string \<Rightarrow> bool \<Rightarrow> string + inbound" where
  "ParseInbound js raw allowLegacy =
     (let raw = TrimSpace raw in
      if raw = [] then Inl ''empty message''
      else case wj_env js raw of
        None \<Rightarrow>
          (case (if allowLegacy then tryLegacyNearbyRequest js raw else None) of
             Some req \<Rightarrow> Inr (Legacy req)
           | None \<Rightarrow> Inl ''message must be valid JSON'')
      | Some (typ, data) \<Rightarrow>
          let msgType = ToUpper (TrimSpace typ) in
          if msgType = MsgPing then Inr Ping
          else if msgType = MsgSubscribeLocation
          then (if data = [] then Inl ''SUBSCRIBE_LOCATION requires data''
                else case wj_data js data of
                  None \<Rightarrow> Inl ''SUBSCRIBE_LOCATION data is invalid''
                | Some d \<Rightarrow>
                    (case subscribeDataToRequest d of
                       Inl e \<Rightarrow> Inl e
                     | Inr req \<Rightarrow> Inr (Subscribe req)))
          else case (if allowLegacy then tryLegacyNearbyRequest js raw else None) of
                 Some req \<Rightarrow> Inr (Legacy req)
               | None \<Rightarrow> Inl (''unsupported message type '' @ Quote typ))"

text \<open>
  The request in the query of the upgrade.  \<open>num\<close> and \<open>int_of\<close> are \<open>strconv.ParseFloat\<close> and
  \<open>strconv.Atoi\<close>; \<open>encode\<close> is \<open>json.Marshal\<close> of the request, which then goes through \<open>ParseInbound\<close>.
\<close>

record ws_query =
  wq_lat :: string
  wq_lng :: string
  wq_type :: string
  wq_radius :: string
  wq_limit :: string

definition shipmentRequestFromQuery ::
  "ws_json \<Rightarrow> (string \<Rightarrow> float64 option) \<Rightarrow> (NearbyShipmentRequest \<Rightarrow> string) \<Rightarrow> ws_query \<Rightarrow> string + NearbyShipmentRequest option" where
  "shipmentRequestFromQuery js num encode q =
     (if wq_lat q = [] \<and> wq_lng q = [] then Inr None
      else if wq_lat q = [] \<or> wq_lng q = [] then Inl ''both lat and lng query parameters are required''
      else case num (wq_lat q) of
        None \<Rightarrow> Inl ''lat query parameter is invalid''
      | Some lat \<Rightarrow>
          (case num (wq_lng q) of
             None \<Rightarrow> Inl ''lng query parameter is invalid''
           | Some lng \<Rightarrow>
               (case (if wq_radius q = [] then Some 0 else num (wq_radius q)) of
                  None \<Rightarrow> Inl ''radius_km query parameter is invalid''
                | Some radius \<Rightarrow>
                    (case (if wq_limit q = [] then Some 0 else ParseInt (wq_limit q)) of
                       None \<Rightarrow> Inl ''limit query parameter is invalid''
                     | Some limit \<Rightarrow>
                         let req = \<lparr>nr_Type = wq_type q, nr_Lat = lat, nr_Lng = lng, nr_RadiusKm = radius, nr_Limit = limit, nr_Filter = []\<rparr> in
                         (case ParseInbound js (encode req) True of
                            Inl e \<Rightarrow> Inl e
                          | Inr (Subscribe r) \<Rightarrow> Inr (Some r)
                          | Inr (Legacy r) \<Rightarrow> Inr (Some r)
                          | Inr Ping \<Rightarrow> Inr (Some \<lparr>nr_Type = [], nr_Lat = 0, nr_Lng = 0, nr_RadiusKm = 0, nr_Limit = 0, nr_Filter = []\<rparr>))))))"

section \<open>Answering a request\<close>

datatype 'v outbound =
    Connected
  | Pong
  | WsError string string
  | Drivers NearbyDriverResponse
  | Shipments "'v NearbyShipmentResponse"

text \<open>
  What the services answer, as functions of the request and the user; both are closures over
  the state they work on.  A service that is not configured is \<open>None\<close>.
\<close>

record 'v nearby_services =
  ns_shipments :: "(NearbyShipmentRequest \<Rightarrow> int \<Rightarrow> shipment_error + 'v NearbyShipmentResponse) option"
  ns_drivers :: "(NearbyShipmentRequest \<Rightarrow> int \<Rightarrow> driver_error + NearbyDriverResponse) option"

definition shipment_disabled_text :: string where
  "shipment_disabled_text = ''shipment search database is not configured; set SHIPMENT_DB_DSN, SHIPMENT_DB_DRIVER, SHIPMENT_TABLE, SHIPMENT_ORIGIN_LOCATION_COLUMN''"

definition driver_disabled_text :: string where
  "driver_disabled_text = ''driver location redis is not configured''"

definition ws_process :: "'v nearby_services \<Rightarrow> int \<Rightarrow> NearbyShipmentRequest \<Rightarrow> 'v outbound" where
  "ws_process svcs userID req =
     (if nearbyRequestType (nr_Type req) = ''sender''
      then (case ns_drivers svcs of
              None \<Rightarrow> WsError ''DRIVER_LOCATION_DISABLED'' driver_disabled_text
            | Some search \<Rightarrow>
                (case search req userID of
                   Inl ErrDriverLocationDisabled \<Rightarrow> WsError ''DRIVER_LOCATION_DISABLED'' driver_disabled_text
                 | Inl _ \<Rightarrow> WsError ''DRIVER_SEARCH_FAILED'' ''driver search failed''
                 | Inr r \<Rightarrow> Drivers r))
      else if nearbyRequestType (nr_Type req) = [] then WsError ''VALIDATION_ERROR'' ''unsupported nearby request type''
      else case ns_shipments svcs of
              None \<Rightarrow> WsError ''SHIPMENT_SEARCH_DISABLED'' shipment_disabled_text
            | Some search \<Rightarrow>
                (case search req userID of
                   Inl ErrShipmentSearchDisabled \<Rightarrow> WsError ''SHIPMENT_SEARCH_DISABLED'' shipment_disabled_text
                 | Inl _ \<Rightarrow> WsError ''SHIPMENT_SEARCH_FAILED'' ''shipment search failed''
                 | Inr r \<Rightarrow> Shipments r))"

record Config =
  cf_RequireTLS :: bool
  cf_AllowLegacy :: bool
  cf_MaxPayloadBytes :: int
  cf_MessagesPerSec :: float64
  cf_MessageBurst :: int

text \<open>
  The loop that serves a connection, for the messages read from it with the time each arrives:
  what it sends, as long as no write fails, up to the end of the input or the message after
  which the connection is closed.
\<close>

fun ws_serve :: "ws_json \<Rightarrow> Config \<Rightarrow> 'v nearby_services \<Rightarrow> int \<Rightarrow> MessageLimiter \<Rightarrow> (float64 \<times> string) list \<Rightarrow> 'v outbound list" where
  "ws_serve js cfg svcs userID m [] = []"
| "ws_serve js cfg svcs userID m ((now, message) # rest) =
     (if int (length message) > cf_MaxPayloadBytes cfg then [WsError ''PAYLOAD_TOO_LARGE'' ''message exceeds maximum size'']
      else case Allow now m of
        (False, m') \<Rightarrow> [WsError ''RATE_LIMITED'' ''too many messages; connection will close'']
      | (True, m') \<Rightarrow>
          (case ParseInbound js message (cf_AllowLegacy cfg) of
             Inl e \<Rightarrow> WsError ''VALIDATION_ERROR'' e
           | Inr Ping \<Rightarrow> Pong
           | Inr (Subscribe req) \<Rightarrow> ws_process svcs userID req
           | Inr (Legacy req) \<Rightarrow> ws_process svcs userID req) # ws_serve js cfg svcs userID m' rest)"

text \<open>\<open>HandleNearby\<close>: an HTTP failure, or the messages of the connection; then the limiter.\<close>

datatype ws_setup = Rejected http_failure | Accepted WSAuthResult

definition ws_admit ::
  "jwt_parser \<Rightarrow> Config \<Rightarrow> WSAuthOptions \<Rightarrow> bool \<Rightarrow> string \<Rightarrow> ws_request \<Rightarrow> ConnLimiter \<Rightarrow> ws_setup \<times> ConnLimiter" where
  "ws_admit parse cfg auth configured ip r l =
     (if \<not> configured then (Rejected (503, ''SHIPMENT_SEARCH_DISABLED'', shipment_disabled_text), l)
      else if cf_RequireTLS cfg \<and> \<not> RequestIsSecure r
      then (Rejected (403, ''INSECURE_TRANSPORT'', ''secure WebSocket (WSS) is required''), l)
      else case AuthenticateWebSocketUpgrade parse r auth of
        None \<Rightarrow> (Rejected (401, ''UNAUTHORIZED'', ''valid token is required''), l)
      | Some a \<Rightarrow>
          (case cl_Acquire ip l of
             (False, l') \<Rightarrow> (Rejected (429, ''TOO_MANY_CONNECTIONS'', ''connection limit exceeded for this client''), l')
           | (True, l') \<Rightarrow> (Accepted a, l')))"

definition ws_connection ::
  "ws_json \<Rightarrow> (string \<Rightarrow> float64 option) \<Rightarrow> (NearbyShipmentRequest \<Rightarrow> string) \<Rightarrow> Config \<Rightarrow> 'v nearby_services \<Rightarrow> int \<Rightarrow> float64
   \<Rightarrow> ws_query \<Rightarrow> (float64 \<times> string) list \<Rightarrow> 'v outbound list" where
  "ws_connection js num encode cfg svcs userID now q messages =
     [Connected]
     @ (case shipmentRequestFromQuery js num encode q of
          Inl e \<Rightarrow> [WsError ''VALIDATION_ERROR'' e]
        | Inr None \<Rightarrow> []
        | Inr (Some req) \<Rightarrow> [ws_process svcs userID req])
     @ ws_serve js cfg svcs userID (NewMessageLimiter (cf_MessagesPerSec cfg) (cf_MessageBurst cfg) now) messages"

section \<open>The socket of a trip\<close>

text \<open>
  \<open>internal/handler/ws.go\<close>: the origins that may connect, and who may follow a trip.  A URL is
  what \<open>url.Parse\<close> makes of a text: its scheme and host, or nothing.
\<close>

type_synonym url_parser = "string \<Rightarrow> (string \<times> string) option"

definition EqualFold :: "string \<Rightarrow> string \<Rightarrow> bool" where
  "EqualFold a b \<longleftrightarrow> ToLower a = ToLower b"

definition TrimRight_slash :: "string \<Rightarrow> string" where
  "TrimRight_slash s = rev (dropWhile (\<lambda>c. c = CHR ''/'') (rev s))"

definition configured_origins :: "string list \<Rightarrow> string list" where
  "configured_origins origins = (if origins = [] then [''*''] else origins)"

definition originHostMatches :: "url_parser \<Rightarrow> string \<Rightarrow> string \<Rightarrow> bool" where
  "originHostMatches url origin allowed =
     (case url origin of
        None \<Rightarrow> False
      | Some (scheme, host) \<Rightarrow>
          if host = [] then False
          else case url allowed of
            Some (scheme', host') \<Rightarrow>
              if host' \<noteq> [] then EqualFold host host' \<and> EqualFold scheme scheme' else EqualFold host allowed
          | None \<Rightarrow> EqualFold host allowed)"

definition websocketAllowsAnyOrigin :: "string list \<Rightarrow> bool" where
  "websocketAllowsAnyOrigin origins \<longleftrightarrow> list_ex (\<lambda>a. TrimSpace a = ''*'') origins"

definition checkWebSocketOrigin :: "url_parser \<Rightarrow> string list \<Rightarrow> string \<Rightarrow> bool" where
  "checkWebSocketOrigin url origins header =
     (let origin = TrimRight_slash (TrimSpace header) in
      (origin = [] \<and> websocketAllowsAnyOrigin origins)
      \<or> list_ex (\<lambda>a. let allowed = TrimRight_slash (TrimSpace a) in
           allowed = ''*'' \<or> EqualFold origin allowed \<or> originHostMatches url origin allowed) origins)"

definition upgrade_context :: "WSAuthResult \<Rightarrow> auth_context" where
  "upgrade_context a =
     (case wa_Method a of
        Some AuthJWT \<Rightarrow> if wa_UserID a > 0 then SetAuthenticatedJWT no_auth (wa_UserID a) else no_auth
      | Some AuthAPIKey \<Rightarrow> SetAuthenticatedAPIKey no_auth
      | None \<Rightarrow> no_auth)"

text \<open>\<open>HandleConnection\<close> up to the upgrade; \<open>authorizeTripRead\<close> is the one of the GPS endpoints, word for word.\<close>

definition ws_trip_admit ::
  "jwt_parser \<Rightarrow> WSAuthOptions \<Rightarrow> bool \<Rightarrow> trip_owners \<Rightarrow> string \<Rightarrow> ws_request \<Rightarrow> http_failure option" where
  "ws_trip_admit parse auth requireAuth authz tripID r =
     (if tripID = [] then Some (400, ''INVALID_TRIP_ID'', ''trip id is required'')
      else case ParseInt tripID of
        None \<Rightarrow> Some (400, ''INVALID_TRIP_ID'', ''trip id must be a positive integer'')
      | Some trip \<Rightarrow>
          if trip \<le> 0 then Some (400, ''INVALID_TRIP_ID'', ''trip id must be a positive integer'')
          else case AuthenticateWebSocketUpgrade parse r (auth\<lparr>wo_RequireAuth := requireAuth\<rparr>) of
            None \<Rightarrow> Some (401, ''UNAUTHORIZED'', ''invalid or missing credentials'')
          | Some a \<Rightarrow> gps_authorize requireAuth (upgrade_context a) authz trip)"

section \<open>Who gets a connection\<close>

definition rest_options :: "WSAuthOptions \<Rightarrow> AuthOptions" where
  "rest_options o1 = \<lparr>ao_APIKey = wo_APIKey o1, ao_JWTSecret = wo_JWTSecret o1, ao_JWTAlgorithm = wo_JWTAlgorithm o1\<rparr>"

text \<open>The caller sent the API key, in its own header or as the token.\<close>

definition sent_key :: "ws_request \<Rightarrow> WSAuthOptions \<Rightarrow> bool" where
  "sent_key r opts \<longleftrightarrow> TrimSpace (wo_APIKey opts) \<noteq> [] \<and> (wr_APIKey r = TrimSpace (wo_APIKey opts) \<or> wsBearerToken r = TrimSpace (wo_APIKey opts))"

definition sent_token :: "jwt_parser \<Rightarrow> ws_request \<Rightarrow> WSAuthOptions \<Rightarrow> int \<Rightarrow> bool" where
  "sent_token parse r opts userID \<longleftrightarrow> TrimSpace (wo_JWTSecret opts) \<noteq> [] \<and> wsBearerToken r \<noteq> []
     \<and> accepted parse (rest_options opts) (wsBearerToken r) userID"

lemma tryWSJWTIdentity_sent:
  assumes "tryWSJWTIdentity parse r opts = Some a"
  shows "wa_Method a = Some AuthJWT \<and> 0 < wa_UserID a \<and> sent_token parse r opts (wa_UserID a)"
proof -
  have alg: "(let alg = ToUpper (TrimSpace (wo_JWTAlgorithm opts)) in if alg = [] then ''HS256'' else alg) = jwt_algorithm (rest_options opts)"
    by (simp add: jwt_algorithm_def rest_options_def)
  have sec: "TrimSpace (wo_JWTSecret opts) = TrimSpace (ao_JWTSecret (rest_options opts))" by (simp add: rest_options_def)
  from assms obtain u where u: "validateJWT parse (wsBearerToken r) (TrimSpace (wo_JWTSecret opts)) (jwt_algorithm (rest_options opts)) = Some u"
      "0 < u" "a = \<lparr>wa_UserID = u, wa_Method = Some AuthJWT\<rparr>" "wsBearerToken r \<noteq> []" "TrimSpace (wo_JWTSecret opts) \<noteq> []"
    unfolding alg [symmetric] by (auto simp: tryWSJWTIdentity_def Let_def split: if_splits option.splits)
  from u(1) have "accepted parse (rest_options opts) (wsBearerToken r) u" unfolding sec by (simp add: validateJWT_accepted)
  with u show ?thesis by (simp add: sent_token_def)
qed

lemma AuthenticateWebSocketUpgrade_cases:
  assumes "AuthenticateWebSocketUpgrade parse r opts = Some a"
  obtains (jwt) "wa_Method a = Some AuthJWT" "0 < wa_UserID a" "sent_token parse r opts (wa_UserID a)"
  | (key) "wa_Method a = Some AuthAPIKey" "wa_UserID a = 0" "sent_key r opts"
  | (anonymous) "a = no_result" "\<not> wo_RequireAuth opts"
proof -
  consider "tryWSJWTIdentity parse r opts = Some a" | "wa_Method a = Some AuthAPIKey" "wa_UserID a = 0" "sent_key r opts"
    | "a = no_result" "\<not> wo_RequireAuth opts"
    using assms by (auto simp: AuthenticateWebSocketUpgrade_def Let_def sent_key_def split: if_splits option.splits)
  then show ?thesis by cases (use tryWSJWTIdentity_sent that in blast)+
qed

text \<open>
  C23. Who is let in.  A socket for nearby searches is opened only for a secure request, if that
  is required, and, if authentication is required, only for a caller that sent the API key or
  a token that the configured secret and algorithm accept; it acts for a user only if the
  token names that user.  A socket for a trip is opened, if authentication is required, only
  with the API key or for a user of a token who may access the trip.
\<close>

theorem sockets_authorized:
  "(ws_admit parse cfg auth configured ip r l = (Accepted a, l')
      \<longrightarrow> (cf_RequireTLS cfg \<longrightarrow> RequestIsSecure r)
        \<and> (wo_RequireAuth auth \<longrightarrow> sent_key r auth \<or> sent_token parse r auth (wa_UserID a))
        \<and> (wa_UserID a \<noteq> 0 \<longrightarrow> 0 < wa_UserID a \<and> sent_token parse r auth (wa_UserID a)))
   \<and> (ws_trip_admit parse auth True authz tripID r = None
      \<longrightarrow> (\<exists>trip>0. ParseInt tripID = Some trip
        \<and> (sent_key r auth \<or> (\<exists>u may. sent_token parse r auth u \<and> authz = Some may \<and> may u trip = Some True))))"
proof (intro conjI impI)
  assume "ws_admit parse cfg auth configured ip r l = (Accepted a, l')"
  then have s: "cf_RequireTLS cfg \<longrightarrow> RequestIsSecure r" and a: "AuthenticateWebSocketUpgrade parse r auth = Some a"
    by (auto simp: ws_admit_def split: if_splits option.splits prod.splits bool.splits)
  show "cf_RequireTLS cfg \<Longrightarrow> RequestIsSecure r" using s by blast
  show "wo_RequireAuth auth \<Longrightarrow> sent_key r auth \<or> sent_token parse r auth (wa_UserID a)"
    using a by (cases rule: AuthenticateWebSocketUpgrade_cases) auto
  show "wa_UserID a \<noteq> 0 \<Longrightarrow> 0 < wa_UserID a" "wa_UserID a \<noteq> 0 \<Longrightarrow> sent_token parse r auth (wa_UserID a)"
    using a by (cases rule: AuthenticateWebSocketUpgrade_cases; simp add: no_result_def)+
next
  let ?opts = "auth\<lparr>wo_RequireAuth := True\<rparr>"
  assume "ws_trip_admit parse auth True authz tripID r = None"
  then obtain trip a where t: "ParseInt tripID = Some trip" "0 < trip" "AuthenticateWebSocketUpgrade parse r ?opts = Some a"
      "gps_authorize True (upgrade_context a) authz trip = None"
    by (auto simp: ws_trip_admit_def not_le split: if_splits option.splits)
  have o1: "sent_key r ?opts = sent_key r auth" "sent_token parse r ?opts u = sent_token parse r auth u" for u
    by (simp_all add: sent_key_def sent_token_def rest_options_def)
  from t(3) have "sent_key r auth \<or> (\<exists>u may. sent_token parse r auth u \<and> authz = Some may \<and> may u trip = Some True)"
  proof (cases rule: AuthenticateWebSocketUpgrade_cases)
    case jwt
    then have "\<exists>may. authz = Some may \<and> may (wa_UserID a) trip = Some True"
      using t(4) by (auto simp: gps_authorize_def upgrade_context_def AuthenticatedWithAPIKey_def AuthenticatedUserID_def
          SetAuthenticatedJWT_def no_auth_def split: option.splits if_splits)
    with jwt(3) o1 show ?thesis by blast
  next
    case key
    with o1 show ?thesis by blast
  qed simp
  with t(1,2) show "\<exists>trip>0. ParseInt tripID = Some trip
        \<and> (sent_key r auth \<or> (\<exists>u may. sent_token parse r auth u \<and> authz = Some may \<and> may u trip = Some True))" by blast
qed

section \<open>How much a connection may ask\<close>

lemma Allow_tokens:
  assumes "Allow now m = (ok, m')" "0 \<le> ml_rate m" "ml_last m \<le> now" "0 \<le> ml_tokens m" "0 \<le> ml_burst m"
  shows "ml_rate m' = ml_rate m \<and> ml_burst m' = ml_burst m \<and> ml_last m' = now \<and> 0 \<le> ml_tokens m'
    \<and> (if ok then 1 else 0) + ml_tokens m' \<le> ml_tokens m + (now - ml_last m) * ml_rate m"
proof -
  have "0 \<le> (now - ml_last m) * ml_rate m" using assms(2,3) by simp
  then show ?thesis using assms(1,4,5) by (auto simp: Allow_def Let_def split: if_splits)
qed

lemma ws_serve_bound:
  assumes "sorted (ml_last m # map fst ms)" "0 \<le> ml_rate m" "0 \<le> ml_tokens m" "0 \<le> ml_burst m" "\<forall>t\<in>set (ml_last m # map fst ms). t \<le> T"
  shows "real (length (ws_serve js cfg svcs userID m ms)) \<le> ml_tokens m + (T - ml_last m) * ml_rate m + 1"
  using assms
proof (induction ms arbitrary: m)
  case Nil
  then show ?case by simp
next
  case (Cons x ms)
  obtain now message where x: "x = (now, message)" by fastforce
  obtain ok m' where a: "Allow now m = (ok, m')" by fastforce
  have le: "ml_last m \<le> now" "now \<le> T" using Cons.prems(1,5) x by auto
  note t = Allow_tokens [OF a Cons.prems(2) le(1) Cons.prems(3,4)]
  have "0 \<le> (T - ml_last m) * ml_rate m" using Cons.prems(2) le by simp
  moreover have "real (length (ws_serve js cfg svcs userID m' ms)) \<le> ml_tokens m' + (T - now) * ml_rate m + 1" if ok
    using Cons.IH [of m'] Cons.prems t x by auto
  moreover have "(T - ml_last m) * ml_rate m = (T - now) * ml_rate m + (now - ml_last m) * ml_rate m"
    by (simp add: algebra_simps)
  ultimately show ?case using t Cons.prems(3) a x by (cases ok) auto
qed

text \<open>
  The load one connection can cause is bounded by its age: however many messages a client
  sends, and whatever they say, up to time \<open>T\<close> it is sent at most the greeting, an answer to
  the query of the upgrade, the burst, the rate times the age, and one error more; every
  search of the services is one of these answers.
\<close>

theorem connection_load_bounded:
  assumes "sorted (now # map fst messages)" "\<forall>t\<in>set (now # map fst messages). t \<le> T"
  shows "real (length (ws_connection js num encode cfg svcs userID now q messages))
    \<le> 3 + (if cf_MessageBurst cfg \<le> 0 then 5 else real_of_int (cf_MessageBurst cfg))
      + (T - now) * (if cf_MessagesPerSec cfg \<le> 0 then 2 else cf_MessagesPerSec cfg)"
proof -
  let ?m = "NewMessageLimiter (cf_MessagesPerSec cfg) (cf_MessageBurst cfg) now"
  have m: "ml_last ?m = now" "ml_rate ?m = (if cf_MessagesPerSec cfg \<le> 0 then 2 else cf_MessagesPerSec cfg)"
    "ml_tokens ?m = (if cf_MessageBurst cfg \<le> 0 then 5 else real_of_int (cf_MessageBurst cfg))" "ml_burst ?m = ml_tokens ?m"
    by (simp_all add: NewMessageLimiter_def Let_def)
  have "real (length (ws_serve js cfg svcs userID ?m messages)) \<le> ml_tokens ?m + (T - ml_last ?m) * ml_rate ?m + 1"
    by (rule ws_serve_bound) (use assms in \<open>simp_all only: m, auto\<close>)
  moreover have "length (case shipmentRequestFromQuery js num encode q of Inl e \<Rightarrow> [WsError ''VALIDATION_ERROR'' e]
        | Inr None \<Rightarrow> [] | Inr (Some req) \<Rightarrow> [ws_process svcs userID req]) \<le> 1"
    by (simp split: sum.split option.split)
  ultimately show ?thesis unfolding ws_connection_def m by simp
qed

section \<open>What reaches the services\<close>

definition valid_request :: "NearbyShipmentRequest \<Rightarrow> bool" where
  "valid_request req \<longleftrightarrow> ValidCoords (nr_Lat req) (nr_Lng req) \<and> 0 \<le> nr_RadiusKm req \<and> 0 \<le> nr_Limit req
     \<and> nearbyRequestType (nr_Type req) \<in> {''passenger'', ''sender''}"

lemma validate_valid: "validateNearbyRequest req = None \<longleftrightarrow> valid_request req"
  by (auto simp: validateNearbyRequest_def valid_request_def nearbyRequestType_def Let_def)

lemma ParseInbound_valid:
  "ParseInbound js raw legacy = Inr (Subscribe req) \<Longrightarrow> valid_request req"
  "ParseInbound js raw legacy = Inr (Legacy req) \<Longrightarrow> valid_request req \<and> legacy"
  unfolding validate_valid [symmetric]
  by (auto simp: ParseInbound_def subscribeDataToRequest_def tryLegacyNearbyRequest_def Let_def
      split: if_splits option.splits sum.splits)

lemma ws_serve_answers:
  assumes "out \<in> set (ws_serve js cfg svcs userID m ms)"
  shows "(\<exists>code msg. out = WsError code msg) \<or> out = Pong
    \<or> (\<exists>req t message. (t, message) \<in> set ms \<and> int (length message) \<le> cf_MaxPayloadBytes cfg \<and> valid_request req
        \<and> ParseInbound js message (cf_AllowLegacy cfg) \<in> {Inr (Subscribe req), Inr (Legacy req)}
        \<and> out = ws_process svcs userID req)"
  using assms
proof (induction ms arbitrary: m)
  case (Cons x ms)
  obtain now message where x: "x = (now, message)" by fastforce
  show ?case
  proof (cases "int (length message) > cf_MaxPayloadBytes cfg")
    case True
    with Cons.prems x show ?thesis by simp
  next
    case False
    obtain ok m' where a: "Allow now m = (ok, m')" by fastforce
    show ?thesis
    proof (cases "ok \<and> out \<in> set (ws_serve js cfg svcs userID m' ms)")
      case True
      have "set ms \<subseteq> set (x # ms)" by auto
      with Cons.IH [of m'] True show ?thesis by blast
    next
      case other: False
      then have "out \<in> {WsError ''RATE_LIMITED'' ''too many messages; connection will close'', case ParseInbound js message (cf_AllowLegacy cfg) of
             Inl e \<Rightarrow> WsError ''VALIDATION_ERROR'' e
           | Inr Ping \<Rightarrow> Pong
           | Inr (Subscribe req) \<Rightarrow> ws_process svcs userID req
           | Inr (Legacy req) \<Rightarrow> ws_process svcs userID req}"
        using Cons.prems False x a by (cases ok) auto
      then consider "\<exists>code msg. out = WsError code msg" | "out = Pong"
        | req where "ParseInbound js message (cf_AllowLegacy cfg) \<in> {Inr (Subscribe req), Inr (Legacy req)}" "out = ws_process svcs userID req"
        by (auto split: sum.splits inbound.splits)
      then show ?thesis
      proof cases
        case (3 req)
        then have "valid_request req" using ParseInbound_valid [of js message "cf_AllowLegacy cfg"] by auto
        moreover have "(now, message) \<in> set (x # ms)" "int (length message) \<le> cf_MaxPayloadBytes cfg" using x False by simp_all
        ultimately show ?thesis using 3 by blast
      qed blast+
    qed
  qed
qed simp

text \<open>
  What a message can make the services do.  Every answer of the loop is an error, a pong, or
  the answer to a message that was not too long and whose request has a position on earth, a
  radius and a limit that are not negative, and a role the service knows; a result of the
  driver search comes only from a request with the role of a sender, a result of the shipment
  search only from one with the role of a passenger, and both searches were made for the user
  of the connection.
\<close>

theorem answers_validated:
  assumes "out \<in> set (ws_serve js cfg svcs userID m messages)"
  shows "case out of
      Connected \<Rightarrow> False
    | Drivers r \<Rightarrow> \<exists>req search. ns_drivers svcs = Some search \<and> search req userID = Inr r
        \<and> valid_request req \<and> nearbyRequestType (nr_Type req) = ''sender''
    | Shipments r \<Rightarrow> \<exists>req search. ns_shipments svcs = Some search \<and> search req userID = Inr r
        \<and> valid_request req \<and> nearbyRequestType (nr_Type req) = ''passenger''
    | _ \<Rightarrow> True"
proof -
  consider code msg where "out = WsError code msg" | "out = Pong" | req where "valid_request req" "out = ws_process svcs userID req"
    using ws_serve_answers [OF assms] by blast
  then show ?thesis
  proof cases
    case (3 req)
    then show ?thesis
      by (auto simp: ws_process_def valid_request_def split: option.splits sum.splits driver_error.splits shipment_error.splits)
  qed simp_all
qed

text \<open>
  The request of the query is checked by encoding it and parsing it like a message, with the type of
  the query as the type of the envelope.  A query of type \<open>ping\<close> is then taken for a ping, and
  the search that follows is not for the position asked for.
\<close>

definition flat_json :: "ws_json \<Rightarrow> (NearbyShipmentRequest \<Rightarrow> string) \<Rightarrow> NearbyShipmentRequest \<Rightarrow> bool" where
  "flat_json js encode req \<longleftrightarrow> TrimSpace (encode req) = encode req \<and> encode req \<noteq> []
     \<and> wj_env js (encode req) = Some (nr_Type req, []) \<and> wj_req js (encode req) = Some req"

text \<open>
  The query of the upgrade: with the types the service knows it is searched for as asked,
  if it is valid; but with the type \<open>ping\<close>, in any case, the passengers' search is made for the
  position 0, 0, whatever position the query names, even one that is not on earth.
\<close>

theorem query_ping_wrong_place:
  assumes "flat_json js encode \<lparr>nr_Type = wq_type q, nr_Lat = lat, nr_Lng = lng, nr_RadiusKm = 0, nr_Limit = 0, nr_Filter = []\<rparr>"
    and "wq_lat q \<noteq> []" "wq_lng q \<noteq> []" "num (wq_lat q) = Some lat" "num (wq_lng q) = Some lng"
    and "wq_radius q = []" "wq_limit q = []"
  shows "(ToUpper (TrimSpace (wq_type q)) = ''PING'' \<longrightarrow>
      shipmentRequestFromQuery js num encode q
        = Inr (Some \<lparr>nr_Type = [], nr_Lat = 0, nr_Lng = 0, nr_RadiusKm = 0, nr_Limit = 0, nr_Filter = []\<rparr>))
    \<and> (wq_type q \<in> {[], ''passenger'', ''sender''} \<and> ValidCoords lat lng \<longrightarrow>
      shipmentRequestFromQuery js num encode q
        = Inr (Some \<lparr>nr_Type = wq_type q, nr_Lat = lat, nr_Lng = lng, nr_RadiusKm = 0, nr_Limit = 0, nr_Filter = []\<rparr>))"
proof -
  let ?req = "\<lparr>nr_Type = wq_type q, nr_Lat = lat, nr_Lng = lng, nr_RadiusKm = 0, nr_Limit = 0, nr_Filter = []\<rparr>"
  have enc: "TrimSpace (encode ?req) = encode ?req" "encode ?req \<noteq> []" "wj_env js (encode ?req) = Some (wq_type q, [])"
    "wj_req js (encode ?req) = Some ?req"
    using assms(1) by (simp_all add: flat_json_def)
  have p: "ParseInbound js (encode ?req) True = Inr Ping" if "ToUpper (TrimSpace (wq_type q)) = ''PING''"
    using that enc by (simp add: ParseInbound_def MsgPing_def)
  have types: "ToUpper (TrimSpace t) \<notin> {MsgPing, MsgSubscribeLocation} \<and> nearbyRequestType t \<noteq> []"
    if "t \<in> {[], ''passenger'', ''sender''}" for t
    using that by (elim insertE emptyE) (simp_all add: TrimSpace_def is_space_def ToUpper_def upper_char_def Let_def MsgPing_def
        MsgSubscribeLocation_def nearbyRequestType_def ToLower_def lower_char_def)
  have l: "ParseInbound js (encode ?req) True = Inr (Legacy ?req)" if "wq_type q \<in> {[], ''passenger'', ''sender''}" "ValidCoords lat lng"
    using types [OF that(1)] that(2) enc
    by (simp add: ParseInbound_def Let_def tryLegacyNearbyRequest_def validateNearbyRequest_def)
  show ?thesis using assms(2-7) p l by (simp add: shipmentRequestFromQuery_def Let_def)
qed

section \<open>Connections, their slots and their pumps\<close>

text \<open>
  \<open>HandleNearby\<close> and the pumps of its session, interleaved.  A connection holds a slot until
  \<open>release\<close> runs for the first time, at the close of the session or at the end of the handler;
  the send channel has 32 places, a full one closes the session, and a send to the closed
  channel panics, which ends the handler with its deferred calls.
\<close>

datatype handler_state = Running | Ended | Panicked

record ws_conn =
  wc_ip :: string
  wc_released :: bool
  wc_open :: "bool option"
  wc_queue :: nat
  wc_handler :: handler_state

record ws_conns =
  wd_limiter :: ConnLimiter
  wd_conns :: "nat \<Rightarrow> ws_conn option"

definition sendBuffer :: nat where "sendBuffer = 32"

definition ws_release :: "nat \<Rightarrow> ws_conns \<Rightarrow> ws_conns" where
  "ws_release i w =
     (case wd_conns w i of
        None \<Rightarrow> w
      | Some c \<Rightarrow>
          if wc_released c then w
          else w\<lparr>wd_limiter := cl_Release (wc_ip c) (wd_limiter w), wd_conns := (wd_conns w)(i \<mapsto> c\<lparr>wc_released := True\<rparr>)\<rparr>)"

definition set_conn :: "nat \<Rightarrow> (ws_conn \<Rightarrow> ws_conn) \<Rightarrow> ws_conns \<Rightarrow> ws_conns" where
  "set_conn i f w = w\<lparr>wd_conns := (wd_conns w)(i := map_option f (wd_conns w i))\<rparr>"

text \<open>\<open>Session.Close\<close>: once, and only if there is a session.\<close>

definition session_Close :: "nat \<Rightarrow> ws_conns \<Rightarrow> ws_conns" where
  "session_Close i w =
     (case wd_conns w i of
        None \<Rightarrow> w
      | Some c \<Rightarrow> if wc_open c = Some True then set_conn i (\<lambda>c. c\<lparr>wc_open := Some False\<rparr>) (ws_release i w) else w)"

text \<open>The deferred calls of the handler.\<close>

definition handler_end :: "handler_state \<Rightarrow> nat \<Rightarrow> ws_conns \<Rightarrow> ws_conns" where
  "handler_end h i w = set_conn i (\<lambda>c. c\<lparr>wc_handler := h\<rparr>) (ws_release i (session_Close i w))"

definition session_Write :: "nat \<Rightarrow> ws_conn \<Rightarrow> ws_conns \<Rightarrow> ws_conns" where
  "session_Write i c w =
     (if wc_open c = Some False then handler_end Panicked i w
      else if wc_queue c < sendBuffer then set_conn i (\<lambda>c. c\<lparr>wc_queue := wc_queue c + 1\<rparr>) w
      else session_Close i w)"

definition ws_begin :: "int \<Rightarrow> int \<Rightarrow> ws_conns" where
  "ws_begin maxPerIP maxGlobal = \<lparr>wd_limiter = NewConnLimiter maxPerIP maxGlobal, wd_conns = Map.empty\<rparr>"

inductive conn_step :: "ws_conns \<Rightarrow> ws_conns \<Rightarrow> bool" where
  admit: "wd_conns w i = None \<Longrightarrow> cl_Acquire ip (wd_limiter w) = (True, l)
    \<Longrightarrow> conn_step w (w\<lparr>wd_limiter := l,
          wd_conns := (wd_conns w)(i \<mapsto> \<lparr>wc_ip = ip, wc_released = False, wc_open = None, wc_queue = 0, wc_handler = Running\<rparr>)\<rparr>)"
| upgrade: "wd_conns w i = Some c \<Longrightarrow> wc_handler c = Running \<Longrightarrow> wc_open c = None
    \<Longrightarrow> conn_step w (set_conn i (\<lambda>c. c\<lparr>wc_open := Some True\<rparr>) w)"
| send: "wd_conns w i = Some c \<Longrightarrow> wc_handler c = Running \<Longrightarrow> wc_open c \<noteq> None
    \<Longrightarrow> conn_step w (session_Write i c w)"
| finish: "wd_conns w i = Some c \<Longrightarrow> wc_handler c = Running \<Longrightarrow> conn_step w (handler_end Ended i w)"
| pump: "wd_conns w i = Some c \<Longrightarrow> wc_open c \<noteq> None \<Longrightarrow> 0 < wc_queue c
    \<Longrightarrow> conn_step w (set_conn i (\<lambda>c. c\<lparr>wc_queue := wc_queue c - 1\<rparr>) w)"
| pump_close: "wd_conns w i = Some c \<Longrightarrow> wc_open c \<noteq> None \<Longrightarrow> conn_step w (session_Close i w)"

definition holders :: "ws_conns \<Rightarrow> nat set" where
  "holders w = {i. \<exists>c. wd_conns w i = Some c \<and> \<not> wc_released c}"

definition holders_of :: "ws_conns \<Rightarrow> string \<Rightarrow> nat set" where
  "holders_of w ip = {i. \<exists>c. wd_conns w i = Some c \<and> \<not> wc_released c \<and> wc_ip c = ip}"

definition conn_ok :: "ws_conn \<Rightarrow> bool" where
  "conn_ok c \<longleftrightarrow> wc_queue c \<le> sendBuffer \<and> (wc_open c = Some False \<longrightarrow> wc_released c)
     \<and> (wc_handler c \<noteq> Running \<longrightarrow> wc_released c \<and> wc_open c \<noteq> Some True)"

definition slots_counted :: "ws_conns \<Rightarrow> bool" where
  "slots_counted w \<longleftrightarrow> finite (holders w) \<and> cl_global (wd_limiter w) = int (card (holders w))
     \<and> (\<forall>ip. cl_perIP (wd_limiter w) ip = int (card (holders_of w ip)))"

lemma holders_of_subset: "holders_of w ip \<subseteq> holders w"
  by (auto simp: holders_of_def holders_def)

lemma set_conn_apply [simp]: "wd_conns (set_conn i f w) j = (if j = i then map_option f (wd_conns w i) else wd_conns w j)"
  by (simp add: set_conn_def)

lemma set_conn_limiter [simp]: "wd_limiter (set_conn i f w) = wd_limiter w"
  by (simp add: set_conn_def)

lemma set_conn_counted:
  assumes "\<And>c. wc_released (f c) = wc_released c \<and> wc_ip (f c) = wc_ip c"
  shows "slots_counted (set_conn i f w) \<longleftrightarrow> slots_counted w"
proof -
  have "holders (set_conn i f w) = holders w" using assms by (auto simp: holders_def split: if_splits)
  moreover have "holders_of (set_conn i f w) = holders_of w" using assms by (fastforce simp: holders_of_def split: if_splits)
  ultimately show ?thesis by (simp add: slots_counted_def)
qed

lemma ws_release_counted:
  assumes "slots_counted w"
  shows "slots_counted (ws_release i w)"
proof (cases "i \<in> holders w")
  case False
  then have "ws_release i w = w" by (auto simp: ws_release_def holders_def split: option.splits)
  with assms show ?thesis by simp
next
  case True
  then obtain c where c: "wd_conns w i = Some c" "\<not> wc_released c" by (auto simp: holders_def)
  let ?w = "ws_release i w"
  have w: "?w = w\<lparr>wd_limiter := cl_Release (wc_ip c) (wd_limiter w), wd_conns := (wd_conns w)(i \<mapsto> c\<lparr>wc_released := True\<rparr>)\<rparr>"
    using c by (simp add: ws_release_def)
  have h: "holders ?w = holders w - {i}" unfolding w by (auto simp: holders_def)
  have ho: "holders_of ?w ip = (if ip = wc_ip c then holders_of w ip - {i} else holders_of w ip)" for ip
    unfolding w using c by (auto simp: holders_of_def)
  have io: "i \<in> holders_of w (wc_ip c)" using c by (simp add: holders_of_def)
  have fin: "finite (holders w)" "\<And>ip. finite (holders_of w ip)"
    using assms finite_subset [OF holders_of_subset] by (auto simp: slots_counted_def)
  have pos: "card (holders w) > 0" "card (holders_of w (wc_ip c)) > 0"
    using fin True io by (auto simp: card_gt_0_iff)
  have count: "cl_global (wd_limiter w) = int (card (holders w))" "\<And>ip. cl_perIP (wd_limiter w) ip = int (card (holders_of w ip))"
    using assms by (simp_all add: slots_counted_def)
  have g: "cl_global (wd_limiter ?w) = int (card (holders w - {i}))"
    unfolding w using pos True fin count by (simp add: cl_Release_def Let_def card_Diff_singleton of_nat_diff)
  have p: "cl_perIP (wd_limiter ?w) ip = int (card (holders_of ?w ip))" for ip
    unfolding ho using pos(2) io fin(2) count unfolding w by (simp add: cl_Release_def Let_def card_Diff_singleton of_nat_diff)
  show ?thesis using fin g p by (simp add: slots_counted_def h)
qed

lemma cl_Release_max: "cl_maxIP (cl_Release ip l) = cl_maxIP l \<and> cl_maxGlob (cl_Release ip l) = cl_maxGlob l"
  by (simp add: cl_Release_def Let_def)

lemma ws_release_conns:
  "wd_conns (ws_release i w) j = (if j = i then map_option (\<lambda>c. c\<lparr>wc_released := True\<rparr>) (wd_conns w i) else wd_conns w j)"
  by (auto simp: ws_release_def split: option.split)

definition limits_kept :: "ws_conns \<Rightarrow> bool" where
  "limits_kept w \<longleftrightarrow> cl_global (wd_limiter w) \<le> cl_maxGlob (wd_limiter w) \<and> (\<forall>ip. cl_perIP (wd_limiter w) ip \<le> cl_maxIP (wd_limiter w))
     \<and> 0 < cl_maxIP (wd_limiter w) \<and> 0 < cl_maxGlob (wd_limiter w)"

definition conns_inv :: "ws_conns \<Rightarrow> bool" where
  "conns_inv w \<longleftrightarrow> slots_counted w \<and> limits_kept w \<and> (\<forall>i c. wd_conns w i = Some c \<longrightarrow> conn_ok c)"

lemma limits_release: "limits_kept w \<Longrightarrow> limits_kept (ws_release i w)"
proof -
  assume k: "limits_kept w"
  have "cl_perIP (cl_Release a l) ip \<le> max 0 (cl_perIP l ip) \<and> cl_global (cl_Release a l) \<le> max 0 (cl_global l)" for a l ip
    by (simp add: cl_Release_def Let_def)
  moreover have "cl_perIP (cl_Release a l) ip \<le> cl_perIP l ip \<and> cl_global (cl_Release a l) \<le> cl_global l" for a l ip
    by (simp add: cl_Release_def Let_def)
  ultimately show ?thesis
    using k cl_Release_max by (auto simp: limits_kept_def ws_release_def split: option.split) (meson order_trans)+
qed

lemma conns_inv_ok: "conns_inv w \<Longrightarrow> wd_conns w i = Some c \<Longrightarrow> conn_ok c"
  by (simp add: conns_inv_def)

text \<open>What closing, ending and releasing leave of the invariant, one connection at a time.\<close>

lemma set_conn_inv:
  assumes "conns_inv w" "\<And>c. wc_released (f c) = wc_released c \<and> wc_ip (f c) = wc_ip c"
    "\<And>c. wd_conns w i = Some c \<Longrightarrow> conn_ok (f c)"
  shows "conns_inv (set_conn i f w)"
  using assms set_conn_counted [OF assms(2), of i w] by (auto simp: conns_inv_def limits_kept_def)

lemma ws_release_inv: "conns_inv w \<Longrightarrow> conns_inv (ws_release i w)"
  using ws_release_counted limits_release by (auto simp: conns_inv_def ws_release_conns conn_ok_def split: if_splits)

lemma session_Close_inv: "conns_inv w \<Longrightarrow> conns_inv (session_Close i w)"
proof -
  assume inv: "conns_inv w"
  have "conns_inv (set_conn i (\<lambda>c. c\<lparr>wc_open := Some False\<rparr>) (ws_release i w))" if "wd_conns w i = Some c" "wc_open c = Some True" for c
  proof (rule set_conn_inv [OF ws_release_inv [OF inv]])
    fix d assume d: "wd_conns (ws_release i w) i = Some d"
    with that have "d = c\<lparr>wc_released := True\<rparr>" by (simp add: ws_release_conns)
    with conns_inv_ok [OF inv that(1)] show "conn_ok (d\<lparr>wc_open := Some False\<rparr>)" by (auto simp: conn_ok_def)
  qed simp
  with inv show ?thesis by (simp add: session_Close_def split: option.split)
qed

lemma session_Close_conn:
  "wd_conns w i = Some c \<Longrightarrow> \<exists>c'. wd_conns (session_Close i w) i = Some c' \<and> wc_queue c' = wc_queue c \<and> wc_open c' \<noteq> Some True"
  by (auto simp: session_Close_def ws_release_conns)

lemma handler_end_inv: "conns_inv w \<Longrightarrow> conns_inv (handler_end h i w)"
  unfolding handler_end_def
proof (rule set_conn_inv)
  assume inv: "conns_inv w"
  then have inv': "conns_inv (ws_release i (session_Close i w))" by (intro ws_release_inv session_Close_inv)
  then show "conns_inv (ws_release i (session_Close i w))" .
  fix c assume c: "wd_conns (ws_release i (session_Close i w)) i = Some c"
  then obtain c0 where c0: "wd_conns (session_Close i w) i = Some c0" "c = c0\<lparr>wc_released := True\<rparr>" by (auto simp: ws_release_conns)
  then obtain d where "wd_conns w i = Some d" by (cases "wd_conns w i") (auto simp: session_Close_def)
  then have "wc_open c \<noteq> Some True" using session_Close_conn [of w i d] c0 by auto
  with conns_inv_ok [OF inv' c] c0(2) show "conn_ok (c\<lparr>wc_handler := h\<rparr>)" by (auto simp: conn_ok_def)
qed simp

lemma conns_inv_step: "conn_step w w' \<Longrightarrow> conns_inv w \<Longrightarrow> conns_inv w'"
proof (induction rule: conn_step.induct)
  case (admit w i ip l)
  let ?c = "\<lparr>wc_ip = ip, wc_released = False, wc_open = None, wc_queue = 0, wc_handler = Running\<rparr>"
  let ?w = "w\<lparr>wd_limiter := l, wd_conns := (wd_conns w)(i \<mapsto> ?c)\<rparr>"
  have l: "l = (wd_limiter w)\<lparr>cl_perIP := (cl_perIP (wd_limiter w))(ip := cl_perIP (wd_limiter w) ip + 1), cl_global := cl_global (wd_limiter w) + 1\<rparr>"
    and room: "cl_global (wd_limiter w) < cl_maxGlob (wd_limiter w)" "cl_perIP (wd_limiter w) ip < cl_maxIP (wd_limiter w)"
    using admit(2) by (auto simp: cl_Acquire_def split: if_splits)
  have h: "holders ?w = insert i (holders w)" "i \<notin> holders w" using admit(1) by (auto simp: holders_def)
  have ho: "holders_of ?w a = (if a = ip then insert i (holders_of w a) else holders_of w a)" "i \<notin> holders_of w a" for a
    using admit(1) by (auto simp: holders_of_def)
  have fin: "finite (holders w)" "\<And>ip. finite (holders_of w ip)"
    using admit(3) finite_subset [OF holders_of_subset] by (auto simp: conns_inv_def slots_counted_def)
  have "slots_counted ?w"
    using admit(3) fin h ho by (simp add: slots_counted_def conns_inv_def l)
  moreover have "limits_kept ?w" using admit(3) room by (auto simp: conns_inv_def limits_kept_def l)
  ultimately show ?case using admit(3) by (auto simp: conns_inv_def conn_ok_def)
next
  case (upgrade w i c)
  show ?case
    by (rule set_conn_inv [OF upgrade(4)]) (use conns_inv_ok [OF upgrade(4,1)] upgrade(1,2) in \<open>auto simp: conn_ok_def\<close>)
next
  case (send w i c)
  have "conns_inv (set_conn i (\<lambda>c. c\<lparr>wc_queue := wc_queue c + 1\<rparr>) w)" if "wc_queue c < sendBuffer"
    by (rule set_conn_inv [OF send(4)]) (use conns_inv_ok [OF send(4,1)] send(1) that in \<open>auto simp: conn_ok_def\<close>)
  then show ?case using handler_end_inv [OF send(4)] session_Close_inv [OF send(4)] by (simp add: session_Write_def)
next
  case (finish w i c)
  then show ?case by (intro handler_end_inv)
next
  case (pump w i c)
  show ?case
    by (rule set_conn_inv [OF pump(4)]) (use conns_inv_ok [OF pump(4,1)] pump(1) in \<open>auto simp: conn_ok_def\<close>)
next
  case (pump_close w i c)
  then show ?case by (intro session_Close_inv)
qed

lemma conns_inv_begin: "conns_inv (ws_begin a b)"
  by (simp add: conns_inv_def slots_counted_def limits_kept_def ws_begin_def NewConnLimiter_def holders_def holders_of_def)

lemma conns_inv_reachable: "conn_step\<^sup>*\<^sup>* (ws_begin a b) w \<Longrightarrow> conns_inv w"
  by (induction rule: rtranclp_induct) (use conns_inv_begin conns_inv_step in blast)+

lemma limiter_sizes:
  assumes "conn_step\<^sup>*\<^sup>* (ws_begin a b) w"
  shows "cl_maxIP (wd_limiter w) = (if a \<le> 0 then 10 else a) \<and> cl_maxGlob (wd_limiter w) = (if b \<le> 0 then 2000 else b)"
  using assms
proof (induction rule: rtranclp_induct)
  case base
  show ?case by (simp add: ws_begin_def NewConnLimiter_def)
next
  case (step w w')
  have r: "cl_maxIP (wd_limiter (ws_release i v)) = cl_maxIP (wd_limiter v)
      \<and> cl_maxGlob (wd_limiter (ws_release i v)) = cl_maxGlob (wd_limiter v)" for i v
    using cl_Release_max by (simp add: ws_release_def split: option.split)
  then have c: "cl_maxIP (wd_limiter (session_Close i v)) = cl_maxIP (wd_limiter v)
      \<and> cl_maxGlob (wd_limiter (session_Close i v)) = cl_maxGlob (wd_limiter v)" for i v
    by (simp add: session_Close_def split: option.split)
  from step(2,3) show ?case
    by (cases rule: conn_step.cases) (auto simp: handler_end_def session_Write_def r c cl_Acquire_def split: if_splits)
qed

text \<open>
  C24. Slots are neither lost nor given back twice.  However connections are admitted, upgraded,
  written to, closed by their pumps and ended, panics included: the limiter counts exactly the
  connections that still hold a slot, in all and for each address; these are never more than
  the configured maxima (10 and 2000 if none is given); a handler that has ended, in whatever
  way, holds none and its session is closed; and no send channel holds more than 32 messages.
\<close>

theorem connection_slots:
  assumes "conn_step\<^sup>*\<^sup>* (ws_begin maxPerIP maxGlobal) w"
  shows "finite (holders w) \<and> cl_global (wd_limiter w) = int (card (holders w))
    \<and> int (card (holders w)) \<le> (if maxGlobal \<le> 0 then 2000 else maxGlobal)
    \<and> (\<forall>ip. cl_perIP (wd_limiter w) ip = int (card (holders_of w ip))
         \<and> int (card (holders_of w ip)) \<le> (if maxPerIP \<le> 0 then 10 else maxPerIP))
    \<and> (\<forall>i c. wd_conns w i = Some c \<longrightarrow> wc_queue c \<le> 32
         \<and> (wc_handler c \<noteq> Running \<longrightarrow> i \<notin> holders w \<and> wc_open c \<noteq> Some True))"
proof -
  have inv: "conns_inv w" by (rule conns_inv_reachable [OF assms])
  note sizes = limiter_sizes [OF assms]
  have "\<forall>i c. wd_conns w i = Some c \<longrightarrow> conn_ok c" using inv by (simp add: conns_inv_def)
  moreover have "slots_counted w" "limits_kept w" using inv by (simp_all add: conns_inv_def)
  ultimately show ?thesis
    using sizes by (simp add: slots_counted_def limits_kept_def conn_ok_def sendBuffer_def holders_def)
qed

text \<open>
  A client that disconnects while its request is being answered makes the server panic: the
  write pump fails and closes the session, and the handler sends the answer to the closed
  channel.
\<close>

theorem session_can_panic:
  "\<exists>w c. conn_step\<^sup>*\<^sup>* (ws_begin 1 1) w \<and> wd_conns w 7 = Some c \<and> wc_handler c = Panicked"
proof -
  let ?c = "\<lparr>wc_ip = ''10.0.0.1'', wc_released = False, wc_open = None, wc_queue = 0, wc_handler = Running\<rparr>"
  let ?w0 = "ws_begin 1 1"
  obtain l where l: "cl_Acquire ''10.0.0.1'' (wd_limiter ?w0) = (True, l)" by (simp add: ws_begin_def NewConnLimiter_def cl_Acquire_def)
  define w1 where "w1 = ?w0\<lparr>wd_limiter := l, wd_conns := (wd_conns ?w0)(7 \<mapsto> ?c)\<rparr>"
  define w2 where "w2 = set_conn 7 (\<lambda>c. c\<lparr>wc_open := Some True\<rparr>) w1"
  define w3 where "w3 = session_Close 7 w2"
  have a: "conn_step ?w0 w1" unfolding w1_def by (rule conn_step.admit [OF _ l]) (simp add: ws_begin_def)
  have c1: "wd_conns w1 7 = Some ?c" by (simp add: w1_def)
  have b: "conn_step w1 w2" unfolding w2_def by (rule conn_step.upgrade [OF c1]) simp_all
  have c2: "wd_conns w2 7 = Some (?c\<lparr>wc_open := Some True\<rparr>)" by (simp add: w2_def c1)
  have c: "conn_step w2 w3" unfolding w3_def by (rule conn_step.pump_close [OF c2]) simp
  have c3: "wd_conns w3 7 = Some (?c\<lparr>wc_open := Some False, wc_released := True\<rparr>)"
    by (simp add: w3_def session_Close_def c2 ws_release_conns)
  have d: "conn_step w3 (handler_end Panicked 7 w3)"
    using conn_step.send [OF c3] by (simp add: session_Write_def)
  have "wd_conns (handler_end Panicked 7 w3) 7 = Some (?c\<lparr>wc_open := Some False, wc_released := True, wc_handler := Panicked\<rparr>)"
    by (simp add: handler_end_def session_Close_def c3 ws_release_conns)
  moreover have "conn_step\<^sup>*\<^sup>* ?w0 (handler_end Panicked 7 w3)"
    using a b c d by (meson rtranclp.rtrancl_into_rtrancl rtranclp.rtrancl_refl)
  ultimately show ?thesis
    by (intro exI [of _ "handler_end Panicked 7 w3"] exI [of _ "?c\<lparr>wc_open := Some False, wc_released := True, wc_handler := Panicked\<rparr>"]) simp
qed

section \<open>Examples\<close>

definition example_ws :: ws_request where
  "example_ws = \<lparr>wr_APIKey = [], wr_Authorization = ''Bearer t'', wr_Protocol = [], wr_TokenParam = [], wr_TLS = True, wr_ForwardedProto = []\<rparr>"

definition example_wsauth :: WSAuthOptions where
  "example_wsauth = \<lparr>wo_RequireAuth = True, wo_APIKey = [], wo_JWTSecret = ''k'', wo_JWTAlgorithm = []\<rparr>"

definition example_parser :: jwt_parser where
  "example_parser raw = (if raw = ''t'' then Some example_token else None)"

definition example_cfg :: Config where
  "example_cfg = \<lparr>cf_RequireTLS = True, cf_AllowLegacy = True, cf_MaxPayloadBytes = 4096, cf_MessagesPerSec = 2, cf_MessageBurst = 5\<rparr>"

lemma example_identity: "AuthenticateWebSocketUpgrade example_parser example_ws example_wsauth = Some \<lparr>wa_UserID = 7, wa_Method = Some AuthJWT\<rparr>"
  by code_simp

theorem sockets_authorized_witness: "sent_token example_parser example_ws example_wsauth 7"
proof -
  have secure: "RequestIsSecure example_ws" by (simp add: RequestIsSecure_def example_ws_def)
  have "ws_admit example_parser example_cfg example_wsauth True ''10.0.0.1'' example_ws (NewConnLimiter 10 2000)
      = (Accepted \<lparr>wa_UserID = 7, wa_Method = Some AuthJWT\<rparr>, snd (cl_Acquire ''10.0.0.1'' (NewConnLimiter 10 2000)))"
    by (simp add: ws_admit_def example_identity secure cl_Acquire_def NewConnLimiter_def)
  from sockets_authorized [THEN conjunct1, rule_format, OF this] show ?thesis by simp
qed

definition no_messages :: ws_json where
  "no_messages = \<lparr>wj_env = (\<lambda>s. if s = ''ping'' then Some (''ping'', []) else None), wj_data = (\<lambda>_. None), wj_req = (\<lambda>_. None)\<rparr>"

definition no_services :: "unit nearby_services" where
  "no_services = \<lparr>ns_shipments = None, ns_drivers = None\<rparr>"

definition no_query :: ws_query where
  "no_query = \<lparr>wq_lat = [], wq_lng = [], wq_type = [], wq_radius = [], wq_limit = []\<rparr>"

theorem connection_load_bounded_witness:
  "real (length (ws_connection no_messages (\<lambda>_. None) (\<lambda>_. []) example_cfg no_services 0 10 no_query [(11, ''ping''), (12, ''x'')])) \<le> 12"
proof -
  have "sorted ((10 :: float64) # map fst [(11, ''ping''), (12, ''x'')])" by simp
  from connection_load_bounded [OF this, of 12 no_messages "\<lambda>_. None" "\<lambda>_. []" example_cfg no_services 0 no_query]
  show ?thesis by (simp add: example_cfg_def)
qed

theorem answers_validated_witness:
  "set (ws_serve no_messages example_cfg no_services 0 (NewMessageLimiter 2 5 10) [(11, ''ping'')]) = {Pong}
    \<and> Connected \<notin> set (ws_serve no_messages example_cfg no_services 0 (NewMessageLimiter 2 5 10) [(11, ''ping'')])"
proof -
  have trim: "TrimSpace ''ping'' = ''ping''" by (simp add: TrimSpace_def is_space_def)
  have up: "ToUpper ''ping'' = ''PING''" by code_simp
  have "ws_serve no_messages example_cfg no_services 0 (NewMessageLimiter 2 5 10) [(11, ''ping'')] = [Pong]"
    by (simp add: example_cfg_def NewMessageLimiter_def Allow_def ParseInbound_def no_messages_def trim up MsgPing_def)
  moreover have "Connected \<notin> set (ws_serve no_messages example_cfg no_services 0 (NewMessageLimiter 2 5 10) [(11, ''ping'')])"
  proof
    assume "Connected \<in> set (ws_serve no_messages example_cfg no_services 0 (NewMessageLimiter 2 5 10) [(11, ''ping'')])"
    from answers_validated [OF this] show False by (simp only: outbound.case)
  qed
  ultimately show ?thesis by simp
qed

theorem connection_slots_witness: "\<exists>w. conn_step\<^sup>*\<^sup>* (ws_begin 1 1) w \<and> holders w \<noteq> {} \<and> cl_global (wd_limiter w) \<le> 1"
proof -
  obtain l where l: "cl_Acquire ''10.0.0.1'' (wd_limiter (ws_begin 1 1)) = (True, l)"
    by (simp add: ws_begin_def NewConnLimiter_def cl_Acquire_def)
  have "wd_conns (ws_begin 1 1) 7 = None" by (simp add: ws_begin_def)
  from conn_step.admit [OF this l] obtain w where w: "conn_step (ws_begin 1 1) w" "7 \<in> holders w"
    by (fastforce simp: holders_def)
  then have run: "conn_step\<^sup>*\<^sup>* (ws_begin 1 1) w" by simp
  from connection_slots [OF run] have "cl_global (wd_limiter w) \<le> 1" by simp
  with run w(2) show ?thesis by blast
qed

definition ping_query :: ws_query where
  "ping_query = \<lparr>wq_lat = ''35'', wq_lng = ''51'', wq_type = ''ping'', wq_radius = [], wq_limit = []\<rparr>"

definition ping_request :: NearbyShipmentRequest where
  "ping_request = \<lparr>nr_Type = ''ping'', nr_Lat = 35, nr_Lng = 51, nr_RadiusKm = 0, nr_Limit = 0, nr_Filter = []\<rparr>"

definition ping_json :: ws_json where
  "ping_json = \<lparr>wj_env = (\<lambda>_. Some (''ping'', [])), wj_data = (\<lambda>_. None), wj_req = (\<lambda>_. Some ping_request)\<rparr>"

theorem query_ping_wrong_place_witness:
  "\<exists>req. shipmentRequestFromQuery ping_json (\<lambda>s. Some (if s = ''35'' then 35 else 51)) (\<lambda>_. ''{}'') ping_query = Inr (Some req)
     \<and> nr_Lat req = 0 \<and> nr_Lng req = 0"
proof -
  have up: "ToUpper (TrimSpace ''ping'') = ''PING''" by code_simp
  have "flat_json ping_json (\<lambda>_. ''{}'') \<lparr>nr_Type = wq_type ping_query, nr_Lat = 35, nr_Lng = 51, nr_RadiusKm = 0, nr_Limit = 0, nr_Filter = []\<rparr>"
    by (simp add: flat_json_def ping_json_def ping_query_def ping_request_def TrimSpace_def is_space_def)
  from query_ping_wrong_place [OF this, of "\<lambda>s. Some (if s = ''35'' then 35 else 51)"] up
  show ?thesis by (simp add: ping_query_def)
qed

end
