(* ===== verification/TransitImport.thy ===== *)
theory TransitImport
  imports OsmImport TransitLoader "HOL-Library.Product_Lexorder"
begin

text \<open>
  \<open>cmd/osm2transit/main.go\<close>: bus stops, metro stations and the lines of the supported cities go
  from an OpenStreetMap export into the tables that \<open>TransitLoader\<close> reads.  Decoding the PBF is
  a parameter (its result is the list of values of each pass, or an error); so is the order in
  which Go walks through a map.  The statements are translated from their SQL: a table is a
  list of numbered rows with its sequence, a conflict updates the row in place and returns its
  number.  Which statement the database refuses, and with what, is a parameter.
\<close>

section \<open>Cities and tags\<close>

record cityBBox =
  cb_name :: string
  cb_latMin :: float64
  cb_lngMin :: float64
  cb_latMax :: float64
  cb_lngMax :: float64

definition supportedCities :: "cityBBox list" where
  "supportedCities =
    [\<lparr>cb_name = ''tehran'', cb_latMin = 35.55, cb_lngMin = 51.10, cb_latMax = 35.85, cb_lngMax = 51.65\<rparr>,
     \<lparr>cb_name = ''mashhad'', cb_latMin = 36.20, cb_lngMin = 59.35, cb_latMax = 36.45, cb_lngMax = 59.80\<rparr>,
     \<lparr>cb_name = ''isfahan'', cb_latMin = 32.55, cb_lngMin = 51.55, cb_latMax = 32.80, cb_lngMax = 51.85\<rparr>,
     \<lparr>cb_name = ''shiraz'', cb_latMin = 29.50, cb_lngMin = 52.40, cb_latMax = 29.80, cb_lngMax = 52.75\<rparr>,
     \<lparr>cb_name = ''tabriz'', cb_latMin = 38.00, cb_lngMin = 46.15, cb_latMax = 38.18, cb_lngMax = 46.45\<rparr>]"

definition in_city :: "float64 \<Rightarrow> float64 \<Rightarrow> cityBBox \<Rightarrow> bool" where
  "in_city lat lng c \<longleftrightarrow> lat \<ge> cb_latMin c \<and> lat \<le> cb_latMax c \<and> lng \<ge> cb_lngMin c \<and> lng \<le> cb_lngMax c"

definition cityFor :: "float64 \<Rightarrow> float64 \<Rightarrow> string" where
  "cityFor lat lng = (case find (in_city lat lng) supportedCities of Some c \<Rightarrow> cb_name c | None \<Rightarrow> [])"

record stopNode =
  st_osmID :: int
  st_name :: string
  st_nameEn :: string
  st_city :: string
  st_lat :: float64
  st_lng :: float64

record routeRelation =
  rr_osmID :: int
  rr_ref :: string
  rr_name :: string
  rr_operator :: string
  rr_color :: string
  rr_city :: string
  rr_stops :: "int list"

definition isTrue :: "string \<Rightarrow> bool" where
  "isTrue v \<longleftrightarrow> ToLower (TrimSpace v) \<in> {''yes'', ''designated'', ''permissive'', ''1'', ''true''}"

fun firstNonEmpty :: "string list \<Rightarrow> string" where
  "firstNonEmpty [] = []"
| "firstNonEmpty (v # vs) = (if TrimSpace v \<noteq> [] then v else firstNonEmpty vs)"

definition isBusStop :: "tag_map \<Rightarrow> bool" where
  "isBusStop tags \<longleftrightarrow>
     tag tags ''highway'' = ''bus_stop''
     \<or> (tag tags ''public_transport'' = ''platform'' \<and> isTrue (tag tags ''bus''))
     \<or> (tag tags ''public_transport'' = ''stop_position'' \<and> isTrue (tag tags ''bus''))"

definition isMetroStation :: "tag_map \<Rightarrow> bool" where
  "isMetroStation tags \<longleftrightarrow>
     tag tags ''railway'' = ''subway_entrance''
     \<or> (tag tags ''railway'' \<in> {''station'', ''halt'', ''stop''}
        \<and> (isTrue (tag tags ''subway'') \<or> tag tags ''station'' = ''subway''
           \<or> isTrue (tag tags ''light_rail'') \<or> tag tags ''station'' = ''light_rail''))
     \<or> (tag tags ''public_transport'' = ''station''
        \<and> (isTrue (tag tags ''subway'') \<or> isTrue (tag tags ''light_rail'')))"

section \<open>Reading the file\<close>

datatype member_kind = NodeType | WayType | RelationType

record osm_member =
  mb_ID :: int
  mb_Type :: member_kind

datatype osm_value =
    VNode int float64 float64 tag_map
  | VWay
  | VRelation int tag_map "osm_member list"

type_synonym stop_nodes = "int \<Rightarrow> stopNode option"

definition stop_of_node :: "int \<Rightarrow> float64 \<Rightarrow> float64 \<Rightarrow> tag_map \<Rightarrow> stopNode" where
  "stop_of_node i lat lng tags =
     \<lparr>st_osmID = i, st_name = firstNonEmpty [tag tags ''name:fa'', tag tags ''name''],
      st_nameEn = firstNonEmpty [tag tags ''name:en'', tag tags ''int_name''],
      st_city = cityFor lat lng, st_lat = lat, st_lng = lng\<rparr>"

fun extract_stop :: "osm_value \<Rightarrow> stop_nodes \<times> stop_nodes \<Rightarrow> stop_nodes \<times> stop_nodes" where
  "extract_stop (VNode i lat lng tags) (bus, metro) =
     (if cityFor lat lng = [] then (bus, metro)
      else if isBusStop tags then (bus(i \<mapsto> stop_of_node i lat lng tags), metro)
      else if isMetroStation tags then (bus, metro(i \<mapsto> stop_of_node i lat lng tags))
      else (bus, metro))"
| "extract_stop VWay st = st"
| "extract_stop (VRelation i tags ms) st = st"

definition extractStops :: "string + osm_value list \<Rightarrow> string + stop_nodes \<times> stop_nodes" where
  "extractStops scan =
     (case scan of Inl e \<Rightarrow> Inl e | Inr vs \<Rightarrow> Inr (fold extract_stop vs (Map.empty, Map.empty)))"

text \<open>The loop of \<open>orderedStops\<close>: the stops taken, the city, the last stop.\<close>

fun ordered_from :: "stop_nodes \<Rightarrow> osm_member list \<Rightarrow> string \<Rightarrow> int \<Rightarrow> int list \<times> string" where
  "ordered_from lookup [] city lastID = ([], city)"
| "ordered_from lookup (m # ms) city lastID =
     (if mb_Type m \<noteq> NodeType then ordered_from lookup ms city lastID
      else case lookup (mb_ID m) of
        None \<Rightarrow> ordered_from lookup ms city lastID
      | Some stop \<Rightarrow>
          if city \<noteq> [] \<and> st_city stop \<noteq> city then ordered_from lookup ms city lastID
          else let city = (if city = [] then st_city stop else city) in
            if mb_ID m = lastID then ordered_from lookup ms city lastID
            else case ordered_from lookup ms city (mb_ID m) of (ids, c) \<Rightarrow> (mb_ID m # ids, c))"

definition orderedStops :: "osm_member list \<Rightarrow> stop_nodes \<Rightarrow> int list \<times> string" where
  "orderedStops members lookup = ordered_from lookup members [] 0"

definition relation_of :: "int \<Rightarrow> tag_map \<Rightarrow> osm_member list \<Rightarrow> stop_nodes \<Rightarrow> routeRelation option" where
  "relation_of i tags members lookup =
     (case orderedStops members lookup of (stops, city) \<Rightarrow>
        if length stops < 2 \<or> city = [] then None
        else Some \<lparr>rr_osmID = i, rr_ref = TrimSpace (tag tags ''ref''),
                   rr_name = TrimSpace (firstNonEmpty [tag tags ''name:fa'', tag tags ''name'']),
                   rr_operator = TrimSpace (tag tags ''operator''),
                   rr_color = TrimSpace (firstNonEmpty [tag tags ''colour'', tag tags ''color'']),
                   rr_city = city, rr_stops = stops\<rparr>)"

fun extract_route :: "stop_nodes \<Rightarrow> stop_nodes \<Rightarrow> osm_value \<Rightarrow> routeRelation list \<times> routeRelation list \<Rightarrow> routeRelation list \<times> routeRelation list" where
  "extract_route busStops metroStations (VRelation i tags members) (bus, metro) =
     (if tag tags ''type'' \<noteq> ''route'' then (bus, metro)
      else if tag tags ''route'' = ''bus'' then
        (case relation_of i tags members busStops of None \<Rightarrow> (bus, metro) | Some r \<Rightarrow> (bus @ [r], metro))
      else if tag tags ''route'' \<in> {''subway'', ''light_rail''} then
        (case relation_of i tags members metroStations of None \<Rightarrow> (bus, metro) | Some r \<Rightarrow> (bus, metro @ [r]))
      else (bus, metro))"
| "extract_route busStops metroStations VWay st = st"
| "extract_route busStops metroStations (VNode i lat lng tags) st = st"

definition extractRoutes ::
  "string + osm_value list \<Rightarrow> stop_nodes \<Rightarrow> stop_nodes \<Rightarrow> string + routeRelation list \<times> routeRelation list" where
  "extractRoutes scan busStops metroStations =
     (case scan of Inl e \<Rightarrow> Inl e | Inr vs \<Rightarrow> Inr (fold (extract_route busStops metroStations) vs ([], [])))"

section \<open>The tables\<close>

record 'r seq_table =
  tb_rows :: "(int \<times> 'r) list"
  tb_next :: int

record stop_row = stopNode +
  sr_geom :: string

record line_entry =
  le_osm :: int
  le_ref :: string
  le_name :: string
  le_city :: string
  le_color :: string

record bus_line_entry = line_entry +
  le_operator :: string

type_synonym links = "(int \<times> int \<times> int) list"

record transit_tables =
  tt_bus_stops :: "stop_row seq_table"
  tt_metro_stations :: "stop_row seq_table"
  tt_bus_lines :: "bus_line_entry seq_table"
  tt_metro_lines :: "line_entry seq_table"
  tt_bus_line_stops :: links
  tt_metro_line_stations :: links

text \<open>\<open>INSERT \<dots> ON CONFLICT (key) DO UPDATE \<dots> RETURNING id\<close>.\<close>

definition upsert :: "('r \<Rightarrow> int) \<Rightarrow> 'r \<Rightarrow> 'r seq_table \<Rightarrow> int \<times> 'r seq_table" where
  "upsert key r t =
     (case find (\<lambda>(i, x). key x = key r) (tb_rows t) of
        None \<Rightarrow> (tb_next t, \<lparr>tb_rows = tb_rows t @ [(tb_next t, r)], tb_next = tb_next t + 1\<rparr>)
      | Some (i, _) \<Rightarrow>
          (i, \<lparr>tb_rows = map (\<lambda>(j, x). if j = i then (j, r) else (j, x)) (tb_rows t), tb_next = tb_next t + 1\<rparr>))"

definition delete_links :: "int \<Rightarrow> links \<Rightarrow> links" where
  "delete_links line ls = filter (\<lambda>(l, s, p). l \<noteq> line) ls"

definition insert_link :: "int \<Rightarrow> int \<Rightarrow> int \<Rightarrow> links \<Rightarrow> links" where
  "insert_link line stop sq ls =
     (if \<exists>x\<in>set ls. fst x = line \<and> fst (snd x) = sq
      then map (\<lambda>(l, s, p). if l = line \<and> s = sq then (l, s, stop) else (l, s, p)) ls
      else ls @ [(line, sq, stop)])"

definition empty_tables :: transit_tables where
  "empty_tables =
     \<lparr>tt_bus_stops = \<lparr>tb_rows = [], tb_next = 1\<rparr>, tt_metro_stations = \<lparr>tb_rows = [], tb_next = 1\<rparr>,
      tt_bus_lines = \<lparr>tb_rows = [], tb_next = 1\<rparr>, tt_metro_lines = \<lparr>tb_rows = [], tb_next = 1\<rparr>,
      tt_bus_line_stops = [], tt_metro_line_stations = []\<rparr>"

section \<open>Writing\<close>

text \<open>A statement of the transaction: the database refuses it, or it changes the tables.\<close>

type_synonym tx_state = "nat \<times> transit_tables"

definition statement ::
  "(nat \<Rightarrow> string option) \<Rightarrow> string \<Rightarrow> (transit_tables \<Rightarrow> 'a \<times> transit_tables) \<Rightarrow> tx_state \<Rightarrow> string + 'a \<times> tx_state" where
  "statement refused what f st =
     (case st of (n, t) \<Rightarrow>
        (case refused n of
           Some e \<Rightarrow> Inl (what @ e)
         | None \<Rightarrow> (case f t of (a, t') \<Rightarrow> Inr (a, (n + 1, t')))))"

definition stop_entry :: "stopNode \<Rightarrow> stop_row" where
  "stop_entry s = stopNode.extend s
     \<lparr>sr_geom = ''SRID=4326;POINT('' @ FormatFixed 7 (st_lng s) @ '' '' @ FormatFixed 7 (st_lat s) @ '')''\<rparr>"

definition put_bus_stop :: "stopNode \<Rightarrow> transit_tables \<Rightarrow> int \<times> transit_tables" where
  "put_bus_stop s t = (case upsert st_osmID (stop_entry s) (tt_bus_stops t) of (i, b) \<Rightarrow> (i, t\<lparr>tt_bus_stops := b\<rparr>))"

definition put_metro_station :: "stopNode \<Rightarrow> transit_tables \<Rightarrow> int \<times> transit_tables" where
  "put_metro_station s t =
     (case upsert st_osmID (stop_entry s) (tt_metro_stations t) of (i, b) \<Rightarrow> (i, t\<lparr>tt_metro_stations := b\<rparr>))"

fun insert_stops ::
  "(nat \<Rightarrow> string option) \<Rightarrow> string \<Rightarrow> (stopNode \<Rightarrow> transit_tables \<Rightarrow> int \<times> transit_tables) \<Rightarrow> stopNode list
   \<Rightarrow> (int \<Rightarrow> int option) \<Rightarrow> tx_state \<Rightarrow> string + (int \<Rightarrow> int option) \<times> tx_state" where
  "insert_stops refused what put [] out st = Inr (out, st)"
| "insert_stops refused what put (s # ss) out st =
     (case statement refused (what @ '' '' @ FormatInt (st_osmID s) @ '': '') (put s) st of
        Inl e \<Rightarrow> Inl e
      | Inr (i, st) \<Rightarrow> insert_stops refused what put ss (out(st_osmID s \<mapsto> i)) st)"

definition insertBusStops ::
  "(nat \<Rightarrow> string option) \<Rightarrow> stopNode list \<Rightarrow> tx_state \<Rightarrow> string + (int \<Rightarrow> int option) \<times> tx_state" where
  "insertBusStops refused stops = insert_stops refused ''insert bus_stop'' put_bus_stop stops Map.empty"

definition insertMetroStations ::
  "(nat \<Rightarrow> string option) \<Rightarrow> stopNode list \<Rightarrow> tx_state \<Rightarrow> string + (int \<Rightarrow> int option) \<times> tx_state" where
  "insertMetroStations refused stations =
     insert_stops refused ''insert metro_station'' put_metro_station stations Map.empty"

text \<open>The three statements that write the lines of one kind.\<close>

record line_writer =
  lw_table :: string
  lw_link :: string
  lw_line :: "routeRelation \<Rightarrow> transit_tables \<Rightarrow> int \<times> transit_tables"
  lw_delete :: "int \<Rightarrow> transit_tables \<Rightarrow> transit_tables"
  lw_insert :: "int \<Rightarrow> int \<Rightarrow> int \<Rightarrow> transit_tables \<Rightarrow> transit_tables"

definition line_cols :: "routeRelation \<Rightarrow> line_entry" where
  "line_cols r = \<lparr>le_osm = rr_osmID r, le_ref = rr_ref r, le_name = rr_name r, le_city = rr_city r, le_color = rr_color r\<rparr>"

definition bus_line_cols :: "routeRelation \<Rightarrow> bus_line_entry" where
  "bus_line_cols r = line_entry.extend (line_cols r) \<lparr>le_operator = rr_operator r\<rparr>"

definition bus_writer :: line_writer where
  "bus_writer =
     \<lparr>lw_table = ''bus_line'', lw_link = ''bus_line_stops'',
      lw_line = \<lambda>r t. (case upsert le_osm (bus_line_cols r) (tt_bus_lines t) of (i, b) \<Rightarrow> (i, t\<lparr>tt_bus_lines := b\<rparr>)),
      lw_delete = \<lambda>line t. t\<lparr>tt_bus_line_stops := delete_links line (tt_bus_line_stops t)\<rparr>,
      lw_insert = \<lambda>line stop sq t. t\<lparr>tt_bus_line_stops := insert_link line stop sq (tt_bus_line_stops t)\<rparr>\<rparr>"

definition metro_writer :: line_writer where
  "metro_writer =
     \<lparr>lw_table = ''metro_line'', lw_link = ''metro_line_stations'',
      lw_line = \<lambda>r t. (case upsert le_osm (line_cols r) (tt_metro_lines t) of (i, b) \<Rightarrow> (i, t\<lparr>tt_metro_lines := b\<rparr>)),
      lw_delete = \<lambda>line t. t\<lparr>tt_metro_line_stations := delete_links line (tt_metro_line_stations t)\<rparr>,
      lw_insert = \<lambda>line stop sq t. t\<lparr>tt_metro_line_stations := insert_link line stop sq (tt_metro_line_stations t)\<rparr>\<rparr>"

fun insert_links ::
  "(nat \<Rightarrow> string option) \<Rightarrow> line_writer \<Rightarrow> (int \<Rightarrow> int option) \<Rightarrow> int \<Rightarrow> int list \<Rightarrow> int \<Rightarrow> tx_state \<Rightarrow> string + int \<times> tx_state" where
  "insert_links refused w ids line [] sq st = Inr (sq, st)"
| "insert_links refused w ids line (osmStopID # stops) sq st =
     (case ids osmStopID of
        None \<Rightarrow> insert_links refused w ids line stops sq st
      | Some stopID \<Rightarrow>
          (case statement refused (''insert '' @ lw_link w @ '' line='' @ FormatInt line @ '' seq='' @ FormatInt sq @ '': '')
                  (\<lambda>t. ((), lw_insert w line stopID sq t)) st of
             Inl e \<Rightarrow> Inl e
           | Inr (_, st) \<Rightarrow> insert_links refused w ids line stops (sq + 1) st))"

text \<open>The result: the numbers of lines and of links.\<close>

fun insert_routes ::
  "(nat \<Rightarrow> string option) \<Rightarrow> line_writer \<Rightarrow> (int \<Rightarrow> int option) \<Rightarrow> routeRelation list \<Rightarrow> int \<times> int \<Rightarrow> tx_state
   \<Rightarrow> string + (int \<times> int) \<times> tx_state" where
  "insert_routes refused w ids [] counts st = Inr (counts, st)"
| "insert_routes refused w ids (r # rs) counts st =
     (case statement refused (''insert '' @ lw_table w @ '' '' @ FormatInt (rr_osmID r) @ '': '') (lw_line w r) st of
        Inl e \<Rightarrow> Inl e
      | Inr (line, st) \<Rightarrow>
     (case statement refused (''delete '' @ lw_link w @ '' for line '' @ FormatInt line @ '': '')
             (\<lambda>t. ((), lw_delete w line t)) st of
        Inl e \<Rightarrow> Inl e
      | Inr (_, st) \<Rightarrow>
     (case insert_links refused w ids line (rr_stops r) 0 st of
        Inl e \<Rightarrow> Inl e
      | Inr (sq, st) \<Rightarrow> insert_routes refused w ids rs (fst counts + 1, snd counts + sq) st)))"

definition insertBusRoutes ::
  "(nat \<Rightarrow> string option) \<Rightarrow> routeRelation list \<Rightarrow> (int \<Rightarrow> int option) \<Rightarrow> tx_state \<Rightarrow> string + (int \<times> int) \<times> tx_state" where
  "insertBusRoutes refused routes stopIDs = insert_routes refused bus_writer stopIDs routes (0, 0)"

definition insertMetroRoutes ::
  "(nat \<Rightarrow> string option) \<Rightarrow> routeRelation list \<Rightarrow> (int \<Rightarrow> int option) \<Rightarrow> tx_state \<Rightarrow> string + (int \<times> int) \<times> tx_state" where
  "insertMetroRoutes refused routes stationIDs = insert_routes refused metro_writer stationIDs routes (0, 0)"

record import_env =
  ie_acquire :: "string option"
  ie_begin :: "string option"
  ie_refused :: "nat \<Rightarrow> string option"
  ie_commit :: "string option"

definition tx_body ::
  "(nat \<Rightarrow> string option) \<Rightarrow> bool \<Rightarrow> stopNode list \<Rightarrow> stopNode list \<Rightarrow> routeRelation list \<Rightarrow> routeRelation list
   \<Rightarrow> tx_state \<Rightarrow> string + unit \<times> tx_state" where
  "tx_body refused trunc busStops metroStations busRoutes metroRoutes st =
     (case (if trunc then statement refused ''truncate: '' (\<lambda>t. ((), empty_tables)) st else Inr ((), st)) of
        Inl e \<Rightarrow> Inl e
      | Inr (_, st) \<Rightarrow>
     (case insertBusStops refused busStops st of
        Inl e \<Rightarrow> Inl e
      | Inr (busStopIDs, st) \<Rightarrow>
     (case insertMetroStations refused metroStations st of
        Inl e \<Rightarrow> Inl e
      | Inr (metroStationIDs, st) \<Rightarrow>
     (case insertBusRoutes refused busRoutes busStopIDs st of
        Inl e \<Rightarrow> Inl e
      | Inr (_, st) \<Rightarrow>
     (case insertMetroRoutes refused metroRoutes metroStationIDs st of
        Inl e \<Rightarrow> Inl e
      | Inr (_, st) \<Rightarrow> Inr ((), st))))))"

text \<open>
  The error, if any, and the tables as other sessions see them afterwards: an error rolls the
  transaction back.
\<close>

definition writeAll ::
  "import_env \<Rightarrow> bool \<Rightarrow> stopNode list \<Rightarrow> stopNode list \<Rightarrow> routeRelation list \<Rightarrow> routeRelation list
   \<Rightarrow> transit_tables \<Rightarrow> string option \<times> transit_tables" where
  "writeAll env trunc busStops metroStations busRoutes metroRoutes tables =
     (case ie_acquire env of Some e \<Rightarrow> (Some e, tables) | None \<Rightarrow>
     (case ie_begin env of Some e \<Rightarrow> (Some e, tables) | None \<Rightarrow>
     (case tx_body (ie_refused env) trunc busStops metroStations busRoutes metroRoutes (0, tables) of
        Inl e \<Rightarrow> (Some e, tables)
      | Inr (_, (_, tables')) \<Rightarrow>
          (case ie_commit env of Some e \<Rightarrow> (Some e, tables) | None \<Rightarrow> (None, tables')))))"

text \<open>\<open>main\<close> between opening the database and \<open>ANALYZE\<close>.\<close>

definition import_transit ::
  "import_env \<Rightarrow> (stop_nodes \<Rightarrow> stopNode list) \<Rightarrow> string + osm_value list \<Rightarrow> string + osm_value list \<Rightarrow> bool
   \<Rightarrow> transit_tables \<Rightarrow> string option \<times> transit_tables" where
  "import_transit env order pass1 pass2 trunc tables =
     (case extractStops pass1 of
        Inl e \<Rightarrow> (Some (''extract stops: '' @ e), tables)
      | Inr (busStops, metroStations) \<Rightarrow>
     (case extractRoutes pass2 busStops metroStations of
        Inl e \<Rightarrow> (Some (''extract routes: '' @ e), tables)
      | Inr (busRoutes, metroRoutes) \<Rightarrow>
     (case writeAll env trunc (order busStops) (order metroStations) busRoutes metroRoutes tables of
        (Some e, t) \<Rightarrow> (Some (''write: '' @ e), t)
      | (None, t) \<Rightarrow> (None, t))))"

section \<open>What the server reads\<close>

text \<open>The \<open>SELECT\<close>s of \<open>transit_graph.go\<close> on these tables.\<close>

definition select_stops :: "stop_row seq_table \<Rightarrow> transitStop list" where
  "select_stops t = map (\<lambda>(i, s). \<lparr>ts_id = i, ts_osm = st_osmID s, ts_lat = st_lat s, ts_lng = st_lng s,
     ts_city = st_city s, ts_name = st_name s\<rparr>) (tb_rows t)"

definition select_lines :: "'r line_entry_scheme seq_table \<Rightarrow> links \<Rightarrow> line_row list" where
  "select_lines lines ls =
     List.map_filter (\<lambda>(l, s, p). map_option (\<lambda>e. \<lparr>lr_line = l, lr_stop = p, lr_ref = le_ref e, lr_name = le_name e\<rparr>)
         (map_of (tb_rows lines) l))
       (sort_key (\<lambda>(l, s, p). (l, s)) ls)"

definition read_tables :: "transit_tables \<Rightarrow> transit_db" where
  "read_tables t =
     \<lparr>td_bus_stops = Inr (map Inr (select_stops (tt_bus_stops t)), None),
      td_metro_stations = Inr (map Inr (select_stops (tt_metro_stations t)), None),
      td_bus_lines = Inr (map Inr (select_lines (tt_bus_lines t) (tt_bus_line_stops t)), None),
      td_metro_lines = Inr (map Inr (select_lines (tt_metro_lines t) (tt_metro_line_stations t)), None)\<rparr>"

section \<open>The stops of a relation\<close>

definition known_ids :: "stop_nodes \<Rightarrow> osm_member list \<Rightarrow> int list" where
  "known_ids lookup members =
     filter (\<lambda>i. lookup i \<noteq> None) (map mb_ID (filter (\<lambda>m. mb_Type m = NodeType) members))"

definition stops_wf :: "stop_nodes \<Rightarrow> bool" where
  "stops_wf m \<longleftrightarrow> (\<forall>i s. m i = Some s \<longrightarrow> st_osmID s = i \<and> st_city s \<noteq> [])"

definition city_of :: "stop_nodes \<Rightarrow> int \<Rightarrow> string" where
  "city_of lookup i = (case lookup i of Some s \<Rightarrow> st_city s | None \<Rightarrow> [])"

lemma known_ids_simps [simp]:
  "known_ids lookup [] = []"
  "known_ids lookup (m # ms) =
     (if mb_Type m = NodeType \<and> lookup (mb_ID m) \<noteq> None then mb_ID m # known_ids lookup ms else known_ids lookup ms)"
  by (simp_all add: known_ids_def)

lemma remdups_adj_tl: "remdups_adj (x # xs) = x # tl (remdups_adj (x # xs))"
  by (metis list.collapse remdups_adj_Cons_alt hd_remdups_adj list.sel(1) list.distinct(1) remdups_adj_Nil_iff)

lemma ordered_from_in_city:
  assumes "city \<noteq> []" "stops_wf lookup"
  shows "ordered_from lookup ms city lst =
    (tl (remdups_adj (lst # filter (\<lambda>i. city_of lookup i = city) (known_ids lookup ms))), city)"
  using assms
proof (induction lookup ms city lst rule: ordered_from.induct)
  case (2 lookup m ms city lst)
  show ?case
  proof (cases "mb_Type m = NodeType \<and> lookup (mb_ID m) \<noteq> None")
    case True
    then obtain s where s: "lookup (mb_ID m) = Some s" by blast
    have c: "city_of lookup (mb_ID m) = st_city s" by (simp add: city_of_def s)
    have "remdups_adj (mb_ID m # zs) = mb_ID m # tl (remdups_adj (mb_ID m # zs))" for zs by (rule remdups_adj_tl)
    with True 2 c s show ?thesis by (auto split: prod.splits)
  qed (use 2 in \<open>auto split: option.splits\<close>)
qed simp

lemma ordered_from_start:
  assumes "stops_wf lookup" "lookup 0 = None"
  shows "ordered_from lookup ms [] 0 =
    (case known_ids lookup ms of
       [] \<Rightarrow> ([], [])
     | i # is \<Rightarrow> (remdups_adj (filter (\<lambda>j. city_of lookup j = city_of lookup i) (i # is)), city_of lookup i))"
  using assms
proof (induction ms)
  case (Cons m ms)
  show ?case
  proof (cases "mb_Type m = NodeType \<and> lookup (mb_ID m) \<noteq> None")
    case True
    then obtain s where s: "lookup (mb_ID m) = Some s" by blast
    then have c: "city_of lookup (mb_ID m) = st_city s" "st_city s \<noteq> []" "mb_ID m \<noteq> 0"
      using Cons.prems by (auto simp: city_of_def stops_wf_def)
    have "remdups_adj (mb_ID m # zs) = mb_ID m # tl (remdups_adj (mb_ID m # zs))" for zs by (rule remdups_adj_tl)
    with True c s show ?thesis
      by (simp add: ordered_from_in_city [OF c(2) Cons.prems(1)])
  next
    case False
    with Cons show ?thesis by (auto split: option.splits)
  qed
qed simp

lemma remdups_adj_no_repeat: "Suc k < length (remdups_adj xs) \<Longrightarrow> remdups_adj xs ! k \<noteq> remdups_adj xs ! Suc k"
  using distinct_adj_conv_nth distinct_adj_remdups_adj by blast

section \<open>Numbered rows\<close>

fun numbered :: "int \<Rightarrow> 'a list \<Rightarrow> (int \<times> 'a) list" where
  "numbered k [] = []"
| "numbered k (x # xs) = (k, x) # numbered (k + 1) xs"

lemma numbered_map: "numbered k (map f xs) = map (\<lambda>(i, x). (i, f x)) (numbered k xs)"
  by (induction xs arbitrary: k) auto

lemma numbered_snd [simp]: "map snd (numbered k xs) = xs" "snd ` set (numbered k xs) = set xs"
  by (induction xs arbitrary: k) auto

lemma numbered_fst_ge: "(i, x) \<in> set (numbered k xs) \<Longrightarrow> k \<le> i \<and> i < k + int (length xs)"
  by (induction xs arbitrary: k) force+

lemma numbered_distinct: "distinct (map fst (numbered k xs))"
proof (induction xs arbitrary: k)
  case (Cons x xs)
  have "k \<notin> fst ` set (numbered (k + 1) xs)" using numbered_fst_ge [of _ _ "k + 1" xs] by force
  with Cons show ?case by simp
qed simp

lemma upsert_new:
  "key r \<notin> key ` snd ` set (tb_rows t)
   \<Longrightarrow> upsert key r t = (tb_next t, \<lparr>tb_rows = tb_rows t @ [(tb_next t, r)], tb_next = tb_next t + 1\<rparr>)"
  unfolding upsert_def by (subst find_None_iff [THEN iffD2]) (auto simp: image_iff)

definition add_rows :: "'r list \<Rightarrow> 'r seq_table \<Rightarrow> 'r seq_table" where
  "add_rows rs t = \<lparr>tb_rows = tb_rows t @ numbered (tb_next t) rs, tb_next = tb_next t + int (length rs)\<rparr>"

lemma add_rows_simps [simp]:
  "add_rows [] t = t" "add_rows rs (add_rows [r] t) = add_rows (r # rs) t"
  "tb_rows (add_rows rs t) = tb_rows t @ numbered (tb_next t) rs" "tb_next (add_rows rs t) = tb_next t + int (length rs)"
  by (simp_all add: add_rows_def)

lemma upsert_new_row: "key r \<notin> key ` snd ` set (tb_rows t) \<Longrightarrow> upsert key r t = (tb_next t, add_rows [r] t)"
  by (simp add: upsert_new add_rows_def)

lemma statement_Inr:
  "statement refused what f (n, t) = Inr (a, st') \<longleftrightarrow> refused n = None \<and> fst (f t) = a \<and> st' = (n + 1, snd (f t))"
  by (auto simp: statement_def split: option.splits prod.splits)

lemma numbered_fst_osm: "map fst (map (\<lambda>(k, s). (st_osmID s, k)) (numbered k ss)) = map st_osmID ss"
  by (induction ss arbitrary: k) auto

lemma stop_entry_osm [simp]: "st_osmID (stop_entry s) = st_osmID s"
  by (simp add: stop_entry_def stopNode.defs)

section \<open>Writing the stops\<close>

text \<open>The two tables of stops and their statement.\<close>

locale stop_table =
  fixes table :: "transit_tables \<Rightarrow> stop_row seq_table"
    and replace :: "stop_row seq_table \<Rightarrow> transit_tables \<Rightarrow> transit_tables"
    and put :: "stopNode \<Rightarrow> transit_tables \<Rightarrow> int \<times> transit_tables"
  assumes put: "put s t = (case upsert st_osmID (stop_entry s) (table t) of (i, b) \<Rightarrow> (i, replace b t))"
    and table_replace: "table (replace b t) = b"
    and replace_replace: "replace b (replace b' t) = replace b t"
    and replace_table: "replace (table t) t = t"
begin

lemma insert_stops_new:
  assumes "insert_stops refused what put ss out (n, t) = Inr (out', (n', t'))"
    and "distinct (map st_osmID ss)" "\<forall>s\<in>set ss. st_osmID s \<notin> st_osmID ` snd ` set (tb_rows (table t))"
  shows "t' = replace (add_rows (map stop_entry ss) (table t)) t
    \<and> (\<forall>i. out' i = (case map_of (map (\<lambda>(k, s). (st_osmID s, k)) (numbered (tb_next (table t)) ss)) i of Some k \<Rightarrow> Some k | None \<Rightarrow> out i))"
  using assms
proof (induction ss arbitrary: out n t)
  case (Cons s ss)
  let ?b = "add_rows [stop_entry s] (table t)"
  have new: "put s t = (tb_next (table t), replace ?b t)"
    using Cons.prems(3) by (simp add: put upsert_new_row)
  from Cons.prems(1) new have rest: "insert_stops refused what put ss (out(st_osmID s \<mapsto> tb_next (table t))) (n + 1, replace ?b t) = Inr (out', (n', t'))"
    by (auto simp: statement_def split: option.splits)
  have fresh: "\<forall>x\<in>set ss. st_osmID x \<notin> st_osmID ` snd ` set (tb_rows (table (replace ?b t)))"
    using Cons.prems(2,3) by (simp add: table_replace) (metis image_eqI)
  from Cons.IH [OF rest _ fresh] Cons.prems(2) have
    t': "t' = replace (add_rows (map stop_entry (s # ss)) (table t)) t" and
    o: "\<And>i. out' i = (case map_of (map (\<lambda>(k, s). (st_osmID s, k)) (numbered (tb_next (table t) + 1) ss)) i of Some k \<Rightarrow> Some k
      | None \<Rightarrow> (out(st_osmID s \<mapsto> tb_next (table t))) i)"
    by (simp_all add: table_replace replace_replace)
  have "fst ` set (map (\<lambda>(k, s). (st_osmID s, k)) (numbered (tb_next (table t) + 1) ss)) = st_osmID ` set ss"
    unfolding image_set numbered_fst_osm by simp
  then have "map_of (map (\<lambda>(k, s). (st_osmID s, k)) (numbered (tb_next (table t) + 1) ss)) (st_osmID s) = None"
    using Cons.prems(2) by (simp add: map_of_eq_None_iff)
  with t' o show ?case by (auto split: option.splits)
qed (simp add: replace_table)

end

interpretation bus_stops: stop_table tt_bus_stops "\<lambda>b t. t\<lparr>tt_bus_stops := b\<rparr>" put_bus_stop
  by unfold_locales (simp_all add: put_bus_stop_def)

interpretation metro_stations: stop_table tt_metro_stations "\<lambda>b t. t\<lparr>tt_metro_stations := b\<rparr>" put_metro_station
  by unfold_locales (simp_all add: put_metro_station_def)

section \<open>Writing the lines\<close>

definition line_links :: "(int \<Rightarrow> int option) \<Rightarrow> int \<Rightarrow> int \<Rightarrow> int list \<Rightarrow> links" where
  "line_links ids line sq stops = map (\<lambda>(s, p). (line, s, p)) (numbered sq (List.map_filter ids stops))"

fun all_links :: "(int \<Rightarrow> int option) \<Rightarrow> int \<Rightarrow> routeRelation list \<Rightarrow> links" where
  "all_links ids k [] = []"
| "all_links ids k (r # rs) = line_links ids k 0 (rr_stops r) @ all_links ids (k + 1) rs"

lemma line_links_simps [simp]:
  "line_links ids line sq [] = []"
  "line_links ids line sq (i # is) =
     (case ids i of None \<Rightarrow> line_links ids line sq is | Some p \<Rightarrow> (line, sq, p) # line_links ids line (sq + 1) is)"
  by (auto simp: line_links_def List.map_filter_simps split: option.splits)

lemma line_links_line: "x \<in> set (line_links ids line sq stops) \<Longrightarrow> fst x = line \<and> sq \<le> fst (snd x)"
  by (induction stops arbitrary: sq) (force split: option.splits)+

lemma insert_link_new:
  "\<forall>x\<in>set ls. \<not> (fst x = line \<and> fst (snd x) = sq) \<Longrightarrow> insert_link line stop sq ls = ls @ [(line, sq, stop)]"
  by (auto simp: insert_link_def)

lemma delete_links_none: "\<forall>x\<in>set ls. fst x \<noteq> line \<Longrightarrow> delete_links line ls = ls"
  by (auto simp: delete_links_def filter_id_conv)

lemma delete_links_line: "x \<in> set (delete_links line ls) \<Longrightarrow> fst x \<noteq> line"
  by (auto simp: delete_links_def)

text \<open>The tables of lines and links of one kind, and their three statements.\<close>

locale line_tables =
  fixes w :: line_writer
    and lines :: "transit_tables \<Rightarrow> 'r seq_table"
    and set_lines :: "'r seq_table \<Rightarrow> transit_tables \<Rightarrow> transit_tables"
    and links :: "transit_tables \<Rightarrow> links"
    and set_links :: "links \<Rightarrow> transit_tables \<Rightarrow> transit_tables"
    and cols :: "routeRelation \<Rightarrow> 'r"
    and key :: "'r \<Rightarrow> int"
  assumes line: "lw_line w r t = (case upsert key (cols r) (lines t) of (i, b) \<Rightarrow> (i, set_lines b t))"
    and delete: "lw_delete w l t = set_links (delete_links l (links t)) t"
    and link: "lw_insert w l p s t = set_links (insert_link l p s (links t)) t"
    and key_cols: "key (cols r) = rr_osmID r"
    and get_set: "lines (set_lines b t) = b" "links (set_links x t) = x"
      "lines (set_links x t) = lines t" "links (set_lines b t) = links t"
    and set_set: "set_lines b (set_lines b' t) = set_lines b t" "set_links x (set_links x' t) = set_links x t"
      "set_lines b (set_links x t) = set_links x (set_lines b t)"
    and set_get: "set_lines (lines t) t = t" "set_links (links t) t = t"
begin

lemma insert_links_new:
  assumes "insert_links refused w ids l stops sq (n, t) = Inr (sq', (n', t'))"
    and "\<forall>x\<in>set (links t). fst x = l \<longrightarrow> fst (snd x) < sq"
  shows "t' = set_links (links t @ line_links ids l sq stops) t"
  using assms
proof (induction stops arbitrary: sq n t)
  case (Cons i stops)
  show ?case
  proof (cases "ids i")
    case None
    with Cons show ?thesis by simp
  next
    case (Some p)
    let ?t = "set_links (links t @ [(l, sq, p)]) t"
    have new: "lw_insert w l p sq t = ?t"
      using Cons.prems(2) by (subst link, subst insert_link_new) auto
    from Cons.prems(1) Some new have "insert_links refused w ids l stops (sq + 1) (n + 1, ?t) = Inr (sq', (n', t'))"
      by (simp add: statement_def split: option.splits)
    moreover have "\<forall>x\<in>set (links ?t). fst x = l \<longrightarrow> fst (snd x) < sq + 1"
      using Cons.prems(2) by (fastforce simp: get_set)
    ultimately have "t' = set_links (links ?t @ line_links ids l (sq + 1) stops) ?t" by (rule Cons.IH)
    with Some show ?thesis by (simp add: get_set set_set)
  qed
qed (simp add: set_get)

lemma insert_routes_new:
  assumes "insert_routes refused w ids rs counts (n, t) = Inr (counts', (n', t'))"
    and "distinct (map rr_osmID rs)" "\<forall>r\<in>set rs. rr_osmID r \<notin> key ` snd ` set (tb_rows (lines t))"
    and "\<forall>x\<in>set (links t). fst x < tb_next (lines t)"
  shows "t' = set_links (links t @ all_links ids (tb_next (lines t)) rs) (set_lines (add_rows (map cols rs) (lines t)) t)"
  using assms
proof (induction rs arbitrary: counts n t)
  case (Cons r rs)
  let ?l = "tb_next (lines t)"
  let ?t1 = "set_lines (add_rows [cols r] (lines t)) t"
  have new: "lw_line w r t = (?l, ?t1)"
    using Cons.prems(3) by (simp add: line upsert_new_row key_cols)
  have del: "lw_delete w ?l ?t1 = ?t1"
  proof -
    have "delete_links ?l (links ?t1) = links ?t1"
      using Cons.prems(4) by (intro delete_links_none) (auto simp: get_set)
    then show ?thesis by (simp add: delete set_get)
  qed
  obtain sq n2 t2 where s: "insert_links refused w ids ?l (rr_stops r) 0 (n + 1 + 1, ?t1) = Inr (sq, (n2, t2))"
    and rest: "insert_routes refused w ids rs (fst counts + 1, snd counts + sq) (n2, t2) = Inr (counts', (n', t'))"
    using Cons.prems(1) new del by (auto simp: statement_def split: option.splits sum.splits)
  have "\<forall>x\<in>set (links ?t1). fst x = ?l \<longrightarrow> fst (snd x) < 0" using Cons.prems(4) by (auto simp: get_set)
  note t2 = insert_links_new [OF s this]
  have fresh: "\<forall>x\<in>set rs. rr_osmID x \<notin> key ` snd ` set (tb_rows (lines t2))"
    using Cons.prems(2,3) by (simp add: t2 get_set key_cols) (metis image_eqI)
  have below: "\<forall>x\<in>set (links t2). fst x < tb_next (lines t2)"
    using Cons.prems(4) line_links_line by (fastforce simp: t2 get_set)
  from Cons.IH [OF rest _ fresh below] Cons.prems(2)
  show ?case by (simp add: t2 get_set set_set)
qed (simp add: set_get)

end

interpretation bus_lines: line_tables bus_writer tt_bus_lines "\<lambda>b t. t\<lparr>tt_bus_lines := b\<rparr>"
    tt_bus_line_stops "\<lambda>x t. t\<lparr>tt_bus_line_stops := x\<rparr>" bus_line_cols le_osm
  by unfold_locales (simp_all add: bus_writer_def bus_line_cols_def line_cols_def line_entry.defs)

interpretation metro_lines: line_tables metro_writer tt_metro_lines "\<lambda>b t. t\<lparr>tt_metro_lines := b\<rparr>"
    tt_metro_line_stations "\<lambda>x t. t\<lparr>tt_metro_line_stations := x\<rparr>" line_cols le_osm
  by unfold_locales (simp_all add: metro_writer_def line_cols_def)

section \<open>Importing again\<close>

text \<open>A table with its primary key, its unique key and its sequence.\<close>

definition table_wf :: "('r \<Rightarrow> int) \<Rightarrow> 'r seq_table \<Rightarrow> bool" where
  "table_wf key t \<longleftrightarrow> distinct (map fst (tb_rows t)) \<and> distinct (map (key \<circ> snd) (tb_rows t))
     \<and> (\<forall>x\<in>set (tb_rows t). fst x < tb_next t)"

lemma map_of_replace:
  "map_of (map (\<lambda>(j, x). if j = i then (j, r) else (j, x)) rows) j =
    (if j = i then map_option (\<lambda>x. r) (map_of rows j) else map_of rows j)"
  by (induction rows) auto

lemma upsert_wf:
  assumes wf: "table_wf key t" and up: "upsert key r t = (l, t')"
  shows "table_wf key t' \<and> map_of (tb_rows t') l = Some r
    \<and> (\<forall>j e. map_of (tb_rows t) j = Some e \<and> key e \<noteq> key r \<longrightarrow> map_of (tb_rows t') j = Some e \<and> j \<noteq> l)"
proof (cases "find (\<lambda>(i, x). key x = key r) (tb_rows t)")
  case None
  then have new: "key r \<notin> key ` snd ` set (tb_rows t)" by (force simp: find_None_iff)
  then have t': "l = tb_next t" "tb_rows t' = tb_rows t @ [(tb_next t, r)]" "tb_next t' = tb_next t + 1"
    using up by (auto simp: upsert_new)
  have fresh: "tb_next t \<notin> fst ` set (tb_rows t)" using wf by (fastforce simp: table_wf_def)
  then have "map_of (tb_rows t) (tb_next t) = None" by (simp add: map_of_eq_None_iff)
  moreover have "table_wf key t'" using wf new fresh by (force simp: table_wf_def t' image_comp)
  ultimately show ?thesis using fresh by (auto simp: t' map_add_def split: option.splits)
next
  case (Some p)
  obtain i x where p: "p = (i, x)" by (cases p)
  with Some have x: "(i, x) \<in> set (tb_rows t)" "key x = key r" by (auto simp: find_Some_iff) (metis nth_mem)
  have t': "l = i" "tb_rows t' = map (\<lambda>(j, x). if j = i then (j, r) else (j, x)) (tb_rows t)" "tb_next t' = tb_next t + 1"
    using up Some by (auto simp: upsert_def p)
  have d: "distinct (map fst (tb_rows t))" using wf by (simp add: table_wf_def)
  have mx: "map_of (tb_rows t) i = Some x" using d x(1) by (rule map_of_is_SomeI)
  have same: "map fst (tb_rows t') = map fst (tb_rows t)" by (simp add: t' split_beta)
  have keys: "map (key \<circ> snd) (tb_rows t') = map (key \<circ> snd) (tb_rows t)"
    unfolding t' map_map
  proof (rule map_cong [OF refl])
    fix y assume y: "y \<in> set (tb_rows t)"
    have "snd y = x" if "fst y = i" by (metis (no_types) map_of_is_SomeI [OF d] mx option.inject prod.collapse that y)
    with x(2) show "(key \<circ> snd \<circ> (\<lambda>(j, x). if j = i then (j, r) else (j, x))) y = (key \<circ> snd) y" by (cases y) auto
  qed
  have "fst y < tb_next t'" if "y \<in> set (tb_rows t')" for y
  proof -
    have "fst y \<in> fst ` set (tb_rows t)" using that same by (metis image_eqI image_set)
    then show ?thesis using wf by (auto simp: table_wf_def t')
  qed
  then have "table_wf key t'" using wf same keys by (simp add: table_wf_def)
  moreover have "j \<noteq> i" if "map_of (tb_rows t) j = Some e" "key e \<noteq> key r" for j e using that mx x(2) by auto
  ultimately show ?thesis using mx by (simp add: t' map_of_replace)
qed

context stop_table begin

lemma insert_stops_again:
  assumes "insert_stops refused what put ss out (n, t) = Inr (out', (n', t'))"
    and "distinct (map st_osmID ss)" "table_wf st_osmID (table t)"
  shows "(\<exists>b. t' = replace b t) \<and> table_wf st_osmID (table t')
    \<and> (\<forall>s\<in>set ss. \<exists>k. out' (st_osmID s) = Some k \<and> map_of (tb_rows (table t')) k = Some (stop_entry s))
    \<and> (\<forall>i. i \<notin> st_osmID ` set ss \<longrightarrow> out' i = out i)
    \<and> (\<forall>j e. map_of (tb_rows (table t)) j = Some e \<and> st_osmID e \<notin> st_osmID ` set ss \<longrightarrow> map_of (tb_rows (table t')) j = Some e)"
  using assms
proof (induction ss arbitrary: out n t)
  case Nil
  then show ?case using replace_table by (metis (no_types, lifting) empty_iff empty_set insert_stops.simps(1) old.prod.inject sum.inject(2))
next
  case (Cons s ss)
  obtain k b where up: "upsert st_osmID (stop_entry s) (table t) = (k, b)" by fastforce
  note w = upsert_wf [OF Cons.prems(3) up]
  have new: "put s t = (k, replace b t)" by (simp add: put up)
  from Cons.prems(1) new have rest: "insert_stops refused what put ss (out(st_osmID s \<mapsto> k)) (n + 1, replace b t) = Inr (out', (n', t'))"
    by (auto simp: statement_def split: option.splits)
  have s: "st_osmID s \<notin> st_osmID ` set ss" "distinct (map st_osmID ss)" using Cons.prems(2) by auto
  have wf: "table_wf st_osmID (table (replace b t))" using w by (simp add: table_replace)
  note ih = Cons.IH [OF rest s(2) wf, unfolded table_replace replace_replace]
  have "map_of (tb_rows (table t')) k = Some (stop_entry s)" using ih w s(1) by simp
  moreover have "out' (st_osmID s) = Some k" using ih s(1) by simp
  moreover have "map_of (tb_rows (table t')) j = Some e"
    if "map_of (tb_rows (table t)) j = Some e" "st_osmID e \<notin> st_osmID ` set (s # ss)" for j e
    using that w ih by simp
  ultimately show ?case using ih by simp
qed

end

definition links_of :: "int \<Rightarrow> links \<Rightarrow> links" where
  "links_of l ls = filter (\<lambda>x. fst x = l) ls"

lemma links_of_simps [simp]:
  "links_of l (xs @ ys) = links_of l xs @ links_of l ys"
  "links_of l (delete_links l ls) = []" "l \<noteq> m \<Longrightarrow> links_of l (delete_links m ls) = links_of l ls"
  "links_of l (line_links ids m sq stops) = (if l = m then line_links ids m sq stops else [])"
  by (auto simp: links_of_def delete_links_def filter_empty_conv filter_id_conv dest: line_links_line intro: filter_cong)

context line_tables begin

lemma insert_routes_again:
  assumes "insert_routes refused w ids rs counts (n, t) = Inr (counts', (n', t'))"
    and "distinct (map rr_osmID rs)" "table_wf key (lines t)"
  shows "(\<exists>b x. t' = set_links x (set_lines b t)) \<and> table_wf key (lines t')
    \<and> (\<forall>r\<in>set rs. \<exists>l. map_of (tb_rows (lines t')) l = Some (cols r) \<and> links_of l (links t') = line_links ids l 0 (rr_stops r))
    \<and> (\<forall>j e. map_of (tb_rows (lines t)) j = Some e \<and> key e \<notin> rr_osmID ` set rs
         \<longrightarrow> map_of (tb_rows (lines t')) j = Some e \<and> links_of j (links t') = links_of j (links t))"
  using assms
proof (induction rs arbitrary: counts n t)
  case Nil
  then have "t' = set_links (links t) (set_lines (lines t) t)" by (simp add: set_get get_set)
  with Nil show ?case by auto
next
  case (Cons r rs)
  obtain l b where up: "upsert key (cols r) (lines t) = (l, b)" by fastforce
  note u = upsert_wf [OF Cons.prems(3) up]
  let ?t1 = "set_links (delete_links l (links t)) (set_lines b t)"
  have new: "lw_line w r t = (l, set_lines b t)" by (simp add: line up)
  have del: "lw_delete w l (set_lines b t) = ?t1" by (simp add: delete get_set)
  obtain sq n2 t2 where s: "insert_links refused w ids l (rr_stops r) 0 (n + 1 + 1, ?t1) = Inr (sq, (n2, t2))"
    and rest: "insert_routes refused w ids rs (fst counts + 1, snd counts + sq) (n2, t2) = Inr (counts', (n', t'))"
    using Cons.prems(1) new del by (auto simp: statement_def split: option.splits sum.splits)
  have "\<forall>x\<in>set (links ?t1). fst x = l \<longrightarrow> fst (snd x) < 0" using delete_links_line by (fastforce simp: get_set)
  from insert_links_new [OF s this]
  have t2: "t2 = set_links (delete_links l (links t) @ line_links ids l 0 (rr_stops r)) (set_lines b t)"
    by (simp add: get_set set_set)
  have l2: "lines t2 = b" "links t2 = delete_links l (links t) @ line_links ids l 0 (rr_stops r)" by (simp_all add: t2 get_set)
  have r: "rr_osmID r \<notin> rr_osmID ` set rs" "distinct (map rr_osmID rs)" using Cons.prems(2) by auto
  have wf2: "table_wf key (lines t2)" using u by (simp add: l2)
  note ih = Cons.IH [OF rest r(2) wf2, unfolded l2]
  have here: "map_of (tb_rows (lines t')) l = Some (cols r) \<and> links_of l (links t') = line_links ids l 0 (rr_stops r)"
  proof -
    have "map_of (tb_rows b) l = Some (cols r) \<and> key (cols r) \<notin> rr_osmID ` set rs" using u r(1) by (simp add: key_cols)
    with ih have "map_of (tb_rows (lines t')) l = Some (cols r)
        \<and> links_of l (links t') = links_of l (delete_links l (links t) @ line_links ids l 0 (rr_stops r))" by blast
    then show ?thesis by simp
  qed
  moreover have "map_of (tb_rows (lines t')) j = Some e \<and> links_of j (links t') = links_of j (links t)"
    if e: "map_of (tb_rows (lines t)) j = Some e" "key e \<notin> rr_osmID ` set (r # rs)" for j e
  proof -
    have "map_of (tb_rows b) j = Some e" "j \<noteq> l" using e u by (auto simp: key_cols)
    moreover have "key e \<notin> rr_osmID ` set rs" using e(2) by simp
    ultimately have "map_of (tb_rows (lines t')) j = Some e
        \<and> links_of j (links t') = links_of j (delete_links l (links t) @ line_links ids l 0 (rr_stops r))" using ih by blast
    with \<open>j \<noteq> l\<close> show ?thesis by simp
  qed
  moreover have "\<exists>b x. t' = set_links x (set_lines b t)" using ih by (metis set_set t2)
  ultimately show ?case using ih by auto
qed

end

section \<open>Reading the lines back\<close>

lemma line_links_sorted: "sorted (map (\<lambda>(l, s, p). (l, s)) (line_links ids l sq stops))"
proof (induction stops arbitrary: sq)
  case (Cons i stops)
  have "\<forall>x\<in>set (line_links ids l (sq + 1) stops). (l, sq) \<le> (case x of (l, s, p) \<Rightarrow> (l, s))"
    by (auto dest!: line_links_line)
  with Cons.IH show ?case by (simp split: option.split)
qed simp

lemma all_links_from: "x \<in> set (all_links ids k rs) \<Longrightarrow> k \<le> fst x \<and> fst x < k + int (length rs)"
proof (induction rs arbitrary: k)
  case (Cons r rs)
  then consider "x \<in> set (line_links ids k 0 (rr_stops r))" | "x \<in> set (all_links ids (k + 1) rs)" by auto
  then show ?case
  proof cases
    case 1
    with line_links_line have "fst x = k" by blast
    then show ?thesis by simp
  next
    case 2
    with Cons.IH [of "k + 1"] show ?thesis by simp
  qed
qed simp

lemma all_links_sorted: "sorted (map (\<lambda>(l, s, p). (l, s)) (all_links ids k rs))"
proof (induction rs arbitrary: k)
  case (Cons r rs)
  have "\<forall>x\<in>set (line_links ids k 0 (rr_stops r)). \<forall>y\<in>set (all_links ids (k + 1) rs).
      (case x of (l, s, p) \<Rightarrow> (l, s)) \<le> (case y of (l, s, p) \<Rightarrow> (l, s))"
    by (auto dest!: line_links_line all_links_from)
  with Cons line_links_sorted show ?case by (simp add: sorted_append)
qed simp

definition line_rows :: "(int \<Rightarrow> int option) \<Rightarrow> int \<Rightarrow> routeRelation \<Rightarrow> line_row list" where
  "line_rows ids l r = map (\<lambda>p. \<lparr>lr_line = l, lr_stop = p, lr_ref = rr_ref r, lr_name = rr_name r\<rparr>) (List.map_filter ids (rr_stops r))"

fun all_rows :: "(int \<Rightarrow> int option) \<Rightarrow> int \<Rightarrow> routeRelation list \<Rightarrow> line_row list" where
  "all_rows ids k [] = []"
| "all_rows ids k (r # rs) = line_rows ids k r @ all_rows ids (k + 1) rs"

lemma map_filter_append [simp]: "List.map_filter f (xs @ ys) = List.map_filter f xs @ List.map_filter f ys"
  by (simp add: List.map_filter_def)

lemma map_of_numbered: "(l, x) \<in> set (numbered k xs) \<Longrightarrow> map_of (numbered k xs) l = Some x"
  by (simp add: numbered_distinct)

lemma map_of_numbered_map: "(l, x) \<in> set (numbered k xs) \<Longrightarrow> map_of (numbered k (map f xs)) l = Some (f x)"
  by (rule map_of_numbered) (force simp: numbered_map)

lemma select_lines_rows:
  assumes "\<forall>(l, r)\<in>set (numbered k rs). \<exists>e. map_of (tb_rows lines) l = Some e \<and> le_ref e = rr_ref r \<and> le_name e = rr_name r"
  shows "select_lines lines (all_links ids k rs) = all_rows ids k rs"
proof -
  let ?f = "\<lambda>(l, s, p). map_option (\<lambda>e. \<lparr>lr_line = l, lr_stop = p, lr_ref = le_ref e, lr_name = le_name e\<rparr>) (map_of (tb_rows lines) l)"
  have one: "List.map_filter ?f (line_links ids l sq stops) = map (\<lambda>p. \<lparr>lr_line = l, lr_stop = p, lr_ref = le_ref e, lr_name = le_name e\<rparr>) (List.map_filter ids stops)"
    if "map_of (tb_rows lines) l = Some e" for l sq stops e
    using that by (induction stops arbitrary: sq) (auto simp: List.map_filter_simps split: option.splits)
  have "List.map_filter ?f (all_links ids k rs) = all_rows ids k rs"
    using assms by (induction rs arbitrary: k) (auto simp: one line_rows_def List.map_filter_simps)
  then show ?thesis by (simp add: select_lines_def sort_key_id_if_sorted [OF all_links_sorted])
qed

section \<open>The rides of the lines\<close>

definition line_rides :: "(string \<Rightarrow> string \<Rightarrow> string) \<Rightarrow> (int \<Rightarrow> transitStop) \<Rightarrow> routeRelation \<Rightarrow> (transitStop \<times> transitStop \<times> string) list" where
  "line_rides lab board r =
     map (\<lambda>(a, b). (board a, board b, lab (rr_ref r) (rr_name r))) (zip (rr_stops r) (tl (rr_stops r)))"

lemma hops_from_line:
  "hops_from lab (l, board a) label (map (\<lambda>i. (\<lparr>lr_line = l, lr_stop = f i, lr_ref = x, lr_name = y\<rparr>, board i)) is @ rest) =
    map (\<lambda>(a, b). (board a, board b, label)) (zip (a # is) is) @ hops_from lab (l, board (last (a # is))) label rest"
  by (induction "is" arbitrary: a) auto

definition boarded :: "(int \<Rightarrow> int option) \<Rightarrow> stop_map \<Rightarrow> (int \<Rightarrow> transitStop) \<Rightarrow> routeRelation \<Rightarrow> bool" where
  "boarded ids stops board r \<longleftrightarrow> (\<forall>i\<in>set (rr_stops r). \<exists>p. ids i = Some p \<and> stops p = Some (board i))"

lemma known_line_rows:
  assumes "boarded ids stops board r"
  shows "known_stops stops (line_rows ids l r @ rest) =
    map (\<lambda>i. (\<lparr>lr_line = l, lr_stop = the (ids i), lr_ref = rr_ref r, lr_name = rr_name r\<rparr>, board i)) (rr_stops r) @ known_stops stops rest"
proof -
  have "known_stops stops (map (\<lambda>p. \<lparr>lr_line = l, lr_stop = p, lr_ref = rr_ref r, lr_name = rr_name r\<rparr>) (List.map_filter ids is) @ rest)
      = map (\<lambda>i. (\<lparr>lr_line = l, lr_stop = the (ids i), lr_ref = rr_ref r, lr_name = rr_name r\<rparr>, board i)) is @ known_stops stops rest"
    if "\<forall>i\<in>set is. \<exists>p. ids i = Some p \<and> stops p = Some (board i)" for "is"
    using that by (induction "is") (auto simp: List.map_filter_simps)
  with assms show ?thesis by (simp add: boarded_def line_rows_def)
qed

lemma hops_from_rows:
  assumes "\<forall>r\<in>set rs. boarded ids stops board r" "fst prev < k"
  shows "hops_from lab prev label (known_stops stops (all_rows ids k rs)) = concat (map (line_rides lab board) rs)"
  using assms
proof (induction rs arbitrary: k prev label)
  case (Cons r rs)
  have known: "known_stops stops (all_rows ids k (r # rs)) =
    map (\<lambda>i. (\<lparr>lr_line = k, lr_stop = the (ids i), lr_ref = rr_ref r, lr_name = rr_name r\<rparr>, board i)) (rr_stops r)
      @ known_stops stops (all_rows ids (k + 1) rs)"
    using Cons.prems(1) by (simp add: known_line_rows)
  show ?case
  proof (cases "rr_stops r")
    case Nil
    with Cons.IH [of prev "k + 1" label] Cons.prems known show ?thesis by (simp add: line_rides_def)
  next
    case stops: (Cons a rest)
    have "hops_from lab (k, board (last (a # rest))) (lab (rr_ref r) (rr_name r)) (known_stops stops (all_rows ids (k + 1) rs))
        = concat (map (line_rides lab board) rs)"
      using Cons.IH Cons.prems by simp
    with Cons.prems known stops show ?thesis
      by (simp add: hops_from_line [of lab k board a _ "\<lambda>i. the (ids i)"] line_rides_def [of lab board r])
  qed
qed simp

lemma hops_all_rows:
  assumes "\<forall>r\<in>set rs. boarded ids stops board r"
  shows "hops lab stops (all_rows ids k rs) = concat (map (line_rides lab board) rs)"
  using assms
proof (induction rs arbitrary: k)
  case (Cons r rs)
  have known: "known_stops stops (all_rows ids k (r # rs)) =
    map (\<lambda>i. (\<lparr>lr_line = k, lr_stop = the (ids i), lr_ref = rr_ref r, lr_name = rr_name r\<rparr>, board i)) (rr_stops r)
      @ known_stops stops (all_rows ids (k + 1) rs)"
    using Cons.prems by (simp add: known_line_rows)
  show ?case
  proof (cases "rr_stops r")
    case Nil
    with Cons.IH [of "k + 1"] Cons.prems known show ?thesis by (simp add: line_rides_def hops_def)
  next
    case stops: (Cons a rest)
    have "hops_from lab (k, board (last (a # rest))) (lab (rr_ref r) (rr_name r)) (known_stops stops (all_rows ids (k + 1) rs))
        = concat (map (line_rides lab board) rs)"
      using Cons.prems by (intro hops_from_rows) simp_all
    with known stops show ?thesis
      by (simp add: hops_def hops_from_line [of lab k board a _ "\<lambda>i. the (ids i)"] line_rides_def [of lab board r])
  qed
qed (simp add: hops_def)

section \<open>What is extracted\<close>

lemma extract_stop_wf:
  assumes "stops_wf b" "stops_wf m" "finite (dom b)" "finite (dom m)" "fold extract_stop vs (b, m) = (b', m')"
  shows "stops_wf b' \<and> stops_wf m' \<and> finite (dom b') \<and> finite (dom m')"
  using assms
proof (induction vs arbitrary: b m)
  case (Cons v vs)
  have one: "stops_wf (c(i \<mapsto> stop_of_node i lat lng tags))" if "stops_wf c" "cityFor lat lng \<noteq> []" for c i lat lng tags
    using that by (auto simp: stops_wf_def stop_of_node_def)
  obtain b1 m1 where v: "extract_stop v (b, m) = (b1, m1)" by fastforce
  have "stops_wf b1 \<and> stops_wf m1 \<and> finite (dom b1) \<and> finite (dom m1)"
    using v Cons.prems(1-4) one by (cases v) (simp_all split: if_split_asm, safe, simp_all)
  with Cons.IH [of b1 m1] Cons.prems(5) v show ?case by simp
qed simp

lemma extractStops_wf:
  assumes "extractStops scan = Inr (b, m)"
  shows "stops_wf b" "stops_wf m" "finite (dom b)" "finite (dom m)"
proof -
  obtain vs where "fold extract_stop vs (Map.empty, Map.empty) = (b, m)"
    using assms by (auto simp: extractStops_def split: sum.splits)
  from extract_stop_wf [OF _ _ _ _ this] show "stops_wf b" "stops_wf m" "finite (dom b)" "finite (dom m)"
    by (simp_all add: stops_wf_def)
qed

lemma ordered_from_dom: "set (fst (ordered_from lookup ms city lst)) \<subseteq> dom lookup"
proof (induction ms arbitrary: city lst)
  case (Cons m ms)
  have "set (case ordered_from lookup ms c l of (ids, d) \<Rightarrow> ids) \<subseteq> dom lookup" for c l
    using Cons.IH [of c l] by (simp add: split_beta)
  with Cons.IH show ?case by (cases "lookup (mb_ID m)") (simp_all add: Let_def split_beta dom_def)
qed simp

lemma relation_of_stops: "relation_of i tags ms lookup = Some r \<Longrightarrow> set (rr_stops r) \<subseteq> dom lookup \<and> 2 \<le> length (rr_stops r)"
  using ordered_from_dom [of lookup ms "[]" 0]
  by (auto simp: relation_of_def orderedStops_def split: prod.splits if_splits)

lemma extractRoutes_stops:
  assumes "extractRoutes scan busStops metroStations = Inr (br, mr)"
  shows "\<forall>r\<in>set br. set (rr_stops r) \<subseteq> dom busStops" "\<forall>r\<in>set mr. set (rr_stops r) \<subseteq> dom metroStations"
proof -
  let ?P = "\<lambda>(br, mr). (\<forall>r\<in>set br. set (rr_stops r) \<subseteq> dom busStops) \<and> (\<forall>r\<in>set mr. set (rr_stops r) \<subseteq> dom metroStations)"
  have "?P st \<Longrightarrow> ?P (extract_route busStops metroStations v st)" for v st
    by (cases v; cases st) (auto split: option.splits dest!: relation_of_stops)
  then have inv: "?P st \<Longrightarrow> ?P (fold (extract_route busStops metroStations) vs st)" for vs st
    by (induction vs arbitrary: st) simp_all
  obtain vs where vs: "fold (extract_route busStops metroStations) vs ([], []) = (br, mr)"
    using assms by (auto simp: extractRoutes_def split: sum.splits)
  have "?P (br, mr)" using inv [of "([], [])" vs] unfolding vs by simp
  then show "\<forall>r\<in>set br. set (rr_stops r) \<subseteq> dom busStops" "\<forall>r\<in>set mr. set (rr_stops r) \<subseteq> dom metroStations"
    by simp_all
qed

section \<open>What is written\<close>

definition stop_ids :: "stopNode list \<Rightarrow> int \<Rightarrow> int option" where
  "stop_ids ss = map_of (map (\<lambda>(k, s). (st_osmID s, k)) (numbered 1 ss))"

definition fresh_table :: "'r list \<Rightarrow> 'r seq_table" where
  "fresh_table rs = add_rows rs \<lparr>tb_rows = [], tb_next = 1\<rparr>"

definition imported_tables :: "stopNode list \<Rightarrow> stopNode list \<Rightarrow> routeRelation list \<Rightarrow> routeRelation list \<Rightarrow> transit_tables" where
  "imported_tables bs ms br mr =
     \<lparr>tt_bus_stops = fresh_table (map stop_entry bs), tt_metro_stations = fresh_table (map stop_entry ms),
      tt_bus_lines = fresh_table (map bus_line_cols br), tt_metro_lines = fresh_table (map line_cols mr),
      tt_bus_line_stops = all_links (stop_ids bs) 1 br, tt_metro_line_stations = all_links (stop_ids ms) 1 mr\<rparr>"

lemma tb_rows_fresh [simp]: "tb_rows (fresh_table rs) = numbered 1 rs"
  by (simp add: fresh_table_def)

lemma writeAll_truncated:
  assumes "writeAll env True bs ms br mr tables = (None, t')"
    and "distinct (map st_osmID bs)" "distinct (map st_osmID ms)" "distinct (map rr_osmID br)" "distinct (map rr_osmID mr)"
  shows "t' = imported_tables bs ms br mr"
proof -
  obtain n1 t1 n2 t2 n3 t3 n4 idsB idsM cB cM where
    s1: "insert_stops (ie_refused env) ''insert bus_stop'' put_bus_stop bs Map.empty (1, empty_tables) = Inr (idsB, (n1, t1))" and
    s2: "insert_stops (ie_refused env) ''insert metro_station'' put_metro_station ms Map.empty (n1, t1) = Inr (idsM, (n2, t2))" and
    s3: "insert_routes (ie_refused env) bus_writer idsB br (0, 0) (n2, t2) = Inr (cB, (n3, t3))" and
    s4: "insert_routes (ie_refused env) metro_writer idsM mr (0, 0) (n3, t3) = Inr (cM, (n4, t'))"
    using assms(1)
    by (fastforce simp: writeAll_def tx_body_def statement_def insertBusStops_def insertMetroStations_def
        insertBusRoutes_def insertMetroRoutes_def split: option.splits sum.splits prod.splits)
  have 1: "t1 = empty_tables\<lparr>tt_bus_stops := fresh_table (map stop_entry bs)\<rparr>" "idsB = stop_ids bs"
    using bus_stops.insert_stops_new [OF s1 assms(2)]
    by (simp_all add: empty_tables_def fresh_table_def stop_ids_def fun_eq_iff split: option.splits)
  have 2: "t2 = t1\<lparr>tt_metro_stations := fresh_table (map stop_entry ms)\<rparr>" "idsM = stop_ids ms"
    using metro_stations.insert_stops_new [OF s2 assms(3)]
    by (simp_all add: 1 empty_tables_def fresh_table_def stop_ids_def fun_eq_iff split: option.splits)
  have 3: "t3 = t2\<lparr>tt_bus_lines := fresh_table (map bus_line_cols br), tt_bus_line_stops := all_links (stop_ids bs) 1 br\<rparr>"
    using bus_lines.insert_routes_new [OF s3 assms(4)] by (simp add: 1 2 empty_tables_def fresh_table_def)
  show ?thesis
    using metro_lines.insert_routes_new [OF s4 assms(5)] by (simp add: 1 2 3 empty_tables_def fresh_table_def imported_tables_def)
qed

text \<open>The line of a relation in the tables, with its stops.\<close>

definition line_written :: "('r \<Rightarrow> bool) \<Rightarrow> 'r seq_table \<Rightarrow> links \<Rightarrow> (int \<Rightarrow> int option) \<Rightarrow> int list \<Rightarrow> bool" where
  "line_written is_line lines ls ids stops \<longleftrightarrow>
     (\<exists>l e. map_of (tb_rows lines) l = Some e \<and> is_line e \<and> links_of l ls = line_links ids l 0 stops)"

definition stops_written :: "stop_row seq_table \<Rightarrow> (int \<Rightarrow> int option) \<Rightarrow> stopNode list \<Rightarrow> bool" where
  "stops_written t ids ss \<longleftrightarrow> (\<forall>s\<in>set ss. \<exists>k. ids (st_osmID s) = Some k \<and> map_of (tb_rows t) k = Some (stop_entry s))"

definition tables_wf :: "transit_tables \<Rightarrow> bool" where
  "tables_wf t \<longleftrightarrow> table_wf st_osmID (tt_bus_stops t) \<and> table_wf st_osmID (tt_metro_stations t)
     \<and> table_wf le_osm (tt_bus_lines t) \<and> table_wf le_osm (tt_metro_lines t)"

lemma tables_wf_empty: "tables_wf empty_tables"
  by (simp add: tables_wf_def table_wf_def empty_tables_def)

lemma writeAll_again:
  assumes "writeAll env trunc bs ms br mr tables = (None, t')" and "tables_wf tables"
    and "distinct (map st_osmID bs)" "distinct (map st_osmID ms)" "distinct (map rr_osmID br)" "distinct (map rr_osmID mr)"
  shows "tables_wf t' \<and> (\<exists>ids. stops_written (tt_bus_stops t') ids bs
      \<and> (\<forall>r\<in>set br. line_written (\<lambda>e. e = bus_line_cols r) (tt_bus_lines t') (tt_bus_line_stops t') ids (rr_stops r)))
    \<and> (\<exists>ids. stops_written (tt_metro_stations t') ids ms
      \<and> (\<forall>r\<in>set mr. line_written (\<lambda>e. e = line_cols r) (tt_metro_lines t') (tt_metro_line_stations t') ids (rr_stops r)))"
proof -
  obtain n0 t0 n1 t1 n2 t2 n3 t3 n4 idsB idsM cB cM where
    s0: "t0 = (if trunc then empty_tables else tables)" and
    s1: "insert_stops (ie_refused env) ''insert bus_stop'' put_bus_stop bs Map.empty (n0, t0) = Inr (idsB, (n1, t1))" and
    s2: "insert_stops (ie_refused env) ''insert metro_station'' put_metro_station ms Map.empty (n1, t1) = Inr (idsM, (n2, t2))" and
    s3: "insert_routes (ie_refused env) bus_writer idsB br (0, 0) (n2, t2) = Inr (cB, (n3, t3))" and
    s4: "insert_routes (ie_refused env) metro_writer idsM mr (0, 0) (n3, t3) = Inr (cM, (n4, t'))"
    using assms(1)
    by (fastforce simp: writeAll_def tx_body_def statement_def insertBusStops_def insertMetroStations_def
        insertBusRoutes_def insertMetroRoutes_def split: option.splits sum.splits prod.splits if_splits)
  have wf0: "tables_wf t0" using s0 assms(2) tables_wf_empty by simp
  note w0 = wf0 [unfolded tables_wf_def]
  have 1: "\<exists>b. t1 = t0\<lparr>tt_bus_stops := b\<rparr>" "table_wf st_osmID (tt_bus_stops t1)" "stops_written (tt_bus_stops t1) idsB bs"
    using bus_stops.insert_stops_again [OF s1 assms(3)] w0 by (simp_all add: stops_written_def)
  have w1: "table_wf st_osmID (tt_metro_stations t1)" "table_wf le_osm (tt_bus_lines t1)" "table_wf le_osm (tt_metro_lines t1)"
    using 1(1) w0 by auto
  have 2: "\<exists>b. t2 = t1\<lparr>tt_metro_stations := b\<rparr>" "table_wf st_osmID (tt_metro_stations t2)" "stops_written (tt_metro_stations t2) idsM ms"
    using metro_stations.insert_stops_again [OF s2 assms(4) w1(1)] by (simp_all add: stops_written_def)
  have w2: "table_wf le_osm (tt_bus_lines t2)" "table_wf le_osm (tt_metro_lines t2)" "tt_bus_stops t2 = tt_bus_stops t1"
    using 2(1) w1 by auto
  have 3: "\<exists>b x. t3 = t2\<lparr>tt_bus_lines := b, tt_bus_line_stops := x\<rparr>" "table_wf le_osm (tt_bus_lines t3)"
    "\<forall>r\<in>set br. line_written (\<lambda>e. e = bus_line_cols r) (tt_bus_lines t3) (tt_bus_line_stops t3) idsB (rr_stops r)"
    using bus_lines.insert_routes_again [OF s3 assms(5) w2(1)] by (simp_all add: line_written_def)
  have w3: "table_wf le_osm (tt_metro_lines t3)" "tt_bus_stops t3 = tt_bus_stops t1" "tt_metro_stations t3 = tt_metro_stations t2"
    using 3(1) w2 by auto
  have 4: "\<exists>b x. t' = t3\<lparr>tt_metro_lines := b, tt_metro_line_stations := x\<rparr>" "table_wf le_osm (tt_metro_lines t')"
    "\<forall>r\<in>set mr. line_written (\<lambda>e. e = line_cols r) (tt_metro_lines t') (tt_metro_line_stations t') idsM (rr_stops r)"
    using metro_lines.insert_routes_again [OF s4 assms(6) w3(1)] by (simp_all add: line_written_def)
  have eqs: "tt_bus_stops t' = tt_bus_stops t1" "tt_metro_stations t' = tt_metro_stations t2" "tt_bus_lines t' = tt_bus_lines t3"
    "tt_bus_line_stops t' = tt_bus_line_stops t3"
    using 4(1) w3 by auto
  show ?thesis
    unfolding tables_wf_def eqs using 1(2,3) 2(2,3) 3(2,3) 4(2,3) by blast
qed

section \<open>From the file to the network\<close>

definition station_at :: "int \<Rightarrow> 'a stopNode_scheme \<Rightarrow> transitStop" where
  "station_at k s = \<lparr>ts_id = k, ts_osm = st_osmID s, ts_lat = st_lat s, ts_lng = st_lng s, ts_city = st_city s, ts_name = st_name s\<rparr>"

text \<open>The rides and walks of a file, for a numbering of its stops.\<close>

definition file_network ::
  "(int \<Rightarrow> int) \<Rightarrow> (int \<Rightarrow> int) \<Rightarrow> stop_nodes \<Rightarrow> stop_nodes \<Rightarrow> routeRelation list \<Rightarrow> routeRelation list \<Rightarrow> (node_id \<times> arc) set" where
  "file_network nb nm bs ms br mr =
     (let bus = \<lambda>i. station_at (nb i) (the (bs i)); metro = \<lambda>i. station_at (nm i + metroStationIDOffset) (the (ms i)) in
      ride_arc HWBusRoute transitBusSpeedKmH ` set (filter ride_long (concat (map (line_rides busLineLabel bus) br)))
      \<union> ride_arc HWSubway transitMetroSpeedKmH ` set (filter ride_long (concat (map (line_rides metroLineLabel metro) mr)))
      \<union> transfers (bus ` dom bs \<union> metro ` dom ms))"

text \<open>A list of the values of a map of stops, in any order.\<close>

definition values_of :: "stopNode list \<Rightarrow> stop_nodes \<Rightarrow> bool" where
  "values_of ss m \<longleftrightarrow> distinct ss \<and> set ss = ran m"

lemma values_of_distinct: "values_of ss m \<Longrightarrow> stops_wf m \<Longrightarrow> distinct (map st_osmID ss)"
  unfolding values_of_def distinct_map by (auto simp: inj_on_def ran_def stops_wf_def)

lemma select_stops_fresh: "select_stops (fresh_table (map stop_entry ss)) = map (\<lambda>(k, s). station_at k s) (numbered 1 ss)"
  by (auto simp: select_stops_def numbered_map station_at_def stop_entry_def stopNode.defs)

lemma stop_ids_iff:
  assumes "values_of ss m" "stops_wf m"
  shows "stop_ids ss i = Some k \<longleftrightarrow> (\<exists>s. m i = Some s \<and> (k, s) \<in> set (numbered 1 ss))"
proof -
  have d: "distinct (map fst (map (\<lambda>(k, s). (st_osmID s, k)) (numbered 1 ss)))"
    using values_of_distinct [OF assms] by (simp only: numbered_fst_osm)
  have "stop_ids ss i = Some k \<longleftrightarrow> (\<exists>s. st_osmID s = i \<and> (k, s) \<in> set (numbered 1 ss))"
    unfolding stop_ids_def using map_of_eq_Some_iff [OF d, of i k] by force
  also have "\<dots> \<longleftrightarrow> (\<exists>s. m i = Some s \<and> (k, s) \<in> set (numbered 1 ss))"
  proof -
    have "m (st_osmID s) = Some s" if "(k, s) \<in> set (numbered 1 ss)" for s
    proof -
      have "s \<in> ran m" using that assms(1) by (metis image_eqI numbered_snd(2) snd_conv values_of_def)
      with assms(2) show ?thesis by (auto simp: ran_def stops_wf_def)
    qed
    moreover have "m i = Some s \<Longrightarrow> st_osmID s = i" for s using assms(2) by (simp add: stops_wf_def)
    ultimately show ?thesis by blast
  qed
  finally show ?thesis .
qed

lemma stop_ids_total:
  assumes "values_of ss m" "stops_wf m" "m i = Some s"
  shows "\<exists>k. stop_ids ss i = Some k \<and> (k, s) \<in> set (numbered 1 ss)"
proof -
  have "s \<in> snd ` set (numbered 1 ss)" using assms(1,3) by (simp add: values_of_def ranI)
  then show ?thesis using assms stop_ids_iff by (metis (no_types, lifting) image_iff prod.collapse)
qed

lemma stop_ids_inj:
  assumes "values_of ss m" "stops_wf m"
  shows "inj_on (the \<circ> stop_ids ss) (dom m)"
proof (rule inj_onI)
  fix i j assume "i \<in> dom m" "j \<in> dom m" and e: "(the \<circ> stop_ids ss) i = (the \<circ> stop_ids ss) j"
  then obtain s s' where s: "m i = Some s" "m j = Some s'" by blast
  with stop_ids_total [OF assms] e have "\<exists>k. (k, s) \<in> set (numbered 1 ss) \<and> (k, s') \<in> set (numbered 1 ss)"
    by (metis comp_apply option.sel)
  then have "s = s'" using map_of_numbered by (metis option.inject)
  with s assms(2) show "i = j" by (metis stops_wf_def)
qed

lemma numbered_bus_map: "bus_map (map (\<lambda>(k, s). station_at k s) (numbered j ss)) k = map_option (station_at k) (map_of (numbered j ss) k)"
  by (induction ss arbitrary: j) (auto simp: bus_map_def station_at_def)

lemma numbered_metro_map:
  "metro_map (map (\<lambda>(k, s). station_at k s) (numbered j ss)) k =
    map_option (station_at (k + metroStationIDOffset)) (map_of (numbered j ss) k)"
  by (induction ss arbitrary: j) (auto simp: metro_map_def station_at_def)

lemma ran_numbered:
  assumes "values_of ss m" "stops_wf m" "\<And>k. f k = map_option (station_at (k + d)) (map_of (numbered 1 ss) k)"
  shows "ran f = (\<lambda>i. station_at ((the \<circ> stop_ids ss) i + d) (the (m i))) ` dom m" (is "_ = ?R")
proof
  show "ran f \<subseteq> ?R"
  proof
    fix x assume "x \<in> ran f"
    then obtain k s where ks: "map_of (numbered 1 ss) k = Some s" "x = station_at (k + d) s"
      by (auto simp: ran_def assms(3))
    then have n: "(k, s) \<in> set (numbered 1 ss)" by (simp add: map_of_SomeD)
    then have "s \<in> ran m" using assms(1) by (metis image_eqI numbered_snd(2) snd_conv values_of_def)
    then obtain i where i: "m i = Some s" by (auto simp: ran_def)
    then have "stop_ids ss i = Some k" using n stop_ids_iff [OF assms(1,2)] by blast
    with i ks(2) show "x \<in> ?R" by (intro image_eqI [of _ _ i]) auto
  qed
  show "?R \<subseteq> ran f"
  proof
    fix x assume "x \<in> ?R"
    then obtain i s where i: "m i = Some s" and x: "x = station_at ((the \<circ> stop_ids ss) i + d) s" by auto
    from stop_ids_total [OF assms(1,2) i] obtain k where k: "stop_ids ss i = Some k" "(k, s) \<in> set (numbered 1 ss)" by blast
    then have "f k = Some x" using map_of_numbered [OF k(2)] x by (simp add: assms(3))
    then show "x \<in> ran f" by (rule ranI)
  qed
qed

lemma boarded_stops:
  assumes "values_of ss m" "stops_wf m" "set (rr_stops r) \<subseteq> dom m"
    and "\<And>k. f k = map_option (station_at (k + d)) (map_of (numbered 1 ss) k)"
  shows "boarded (stop_ids ss) f (\<lambda>i. station_at ((the \<circ> stop_ids ss) i + d) (the (m i))) r"
  unfolding boarded_def
proof
  fix i assume "i \<in> set (rr_stops r)"
  with assms(3) obtain s where i: "m i = Some s" by blast
  from stop_ids_total [OF assms(1,2) i] obtain k where k: "stop_ids ss i = Some k" "(k, s) \<in> set (numbered 1 ss)" by blast
  then show "\<exists>p. stop_ids ss i = Some p \<and> f p = Some (station_at ((the \<circ> stop_ids ss) i + d) (the (m i)))"
    using map_of_numbered [OF k(2)] i by (simp add: assms(4))
qed

lemma read_imported:
  "rows_of (td_bus_stops (read_tables (imported_tables bs ms br mr))) = map (\<lambda>(k, s). station_at k s) (numbered 1 bs)"
  "rows_of (td_metro_stations (read_tables (imported_tables bs ms br mr))) = map (\<lambda>(k, s). station_at k s) (numbered 1 ms)"
  "rows_of (td_bus_lines (read_tables (imported_tables bs ms br mr))) = all_rows (stop_ids bs) 1 br"
  "rows_of (td_metro_lines (read_tables (imported_tables bs ms br mr))) = all_rows (stop_ids ms) 1 mr"
proof -
  have [simp]: "good_rows (map Inr xs) = xs" for xs :: "'b list" by (induction xs) simp_all
  have bus: "\<forall>(l, r)\<in>set (numbered 1 br). \<exists>e. map_of (tb_rows (fresh_table (map bus_line_cols br))) l = Some e
      \<and> le_ref e = rr_ref r \<and> le_name e = rr_name r"
    using map_of_numbered_map by (fastforce simp: bus_line_cols_def line_cols_def line_entry.defs)
  have metro: "\<forall>(l, r)\<in>set (numbered 1 mr). \<exists>e. map_of (tb_rows (fresh_table (map line_cols mr))) l = Some e
      \<and> le_ref e = rr_ref r \<and> le_name e = rr_name r"
    using map_of_numbered_map by (fastforce simp: line_cols_def)
  show "rows_of (td_bus_stops (read_tables (imported_tables bs ms br mr))) = map (\<lambda>(k, s). station_at k s) (numbered 1 bs)"
    "rows_of (td_metro_stations (read_tables (imported_tables bs ms br mr))) = map (\<lambda>(k, s). station_at k s) (numbered 1 ms)"
    "rows_of (td_bus_lines (read_tables (imported_tables bs ms br mr))) = all_rows (stop_ids bs) 1 br"
    "rows_of (td_metro_lines (read_tables (imported_tables bs ms br mr))) = all_rows (stop_ids ms) 1 mr"
    using select_lines_rows [OF bus] select_lines_rows [OF metro]
    by (simp_all add: read_tables_def rows_of_def imported_tables_def select_stops_fresh del: map_map)
qed

lemma bus_map_imported:
  "bus_map (rows_of (td_bus_stops (read_tables (imported_tables bs ms br mr)))) k = map_option (station_at (k + 0)) (map_of (numbered 1 bs) k)"
  "metro_map (rows_of (td_metro_stations (read_tables (imported_tables bs ms br mr)))) k =
     map_option (station_at (k + metroStationIDOffset)) (map_of (numbered 1 ms) k)"
  by (simp_all add: read_imported numbered_bus_map numbered_metro_map)

lemma imported_network:
  assumes "values_of bs busStops" "values_of ms metroStations" "stops_wf busStops" "stops_wf metroStations"
    and "\<forall>r\<in>set br. set (rr_stops r) \<subseteq> dom busStops" "\<forall>r\<in>set mr. set (rr_stops r) \<subseteq> dom metroStations"
  shows "transit_network (read_tables (imported_tables bs ms br mr))
    = file_network (the \<circ> stop_ids bs) (the \<circ> stop_ids ms) busStops metroStations br mr"
proof -
  let ?db = "read_tables (imported_tables bs ms br mr)"
  note bus = bus_map_imported(1) [of bs ms br mr] and metro = bus_map_imported(2) [of bs ms br mr]
  have b: "\<forall>r\<in>set br. boarded (stop_ids bs) (bus_map (rows_of (td_bus_stops ?db)))
      (\<lambda>i. station_at ((the \<circ> stop_ids bs) i) (the (busStops i))) r"
    using boarded_stops [OF assms(1,3) _ bus] assms(5) by simp
  have m: "\<forall>r\<in>set mr. boarded (stop_ids ms) (metro_map (rows_of (td_metro_stations ?db)))
      (\<lambda>i. station_at ((the \<circ> stop_ids ms) i + metroStationIDOffset) (the (metroStations i))) r"
    using boarded_stops [OF assms(2,4) _ metro] assms(6) by simp
  have rides: "hops busLineLabel (bus_map (rows_of (td_bus_stops ?db))) (rows_of (td_bus_lines ?db)) =
      concat (map (line_rides busLineLabel (\<lambda>i. station_at ((the \<circ> stop_ids bs) i) (the (busStops i)))) br)"
    "hops metroLineLabel (metro_map (rows_of (td_metro_stations ?db))) (rows_of (td_metro_lines ?db)) =
      concat (map (line_rides metroLineLabel (\<lambda>i. station_at ((the \<circ> stop_ids ms) i + metroStationIDOffset) (the (metroStations i)))) mr)"
    using hops_all_rows [OF b] hops_all_rows [OF m] by (simp_all only: read_imported(3,4))
  have rans: "ran (bus_map (rows_of (td_bus_stops ?db))) = (\<lambda>i. station_at ((the \<circ> stop_ids bs) i) (the (busStops i))) ` dom busStops"
    "ran (metro_map (rows_of (td_metro_stations ?db)))
      = (\<lambda>i. station_at ((the \<circ> stop_ids ms) i + metroStationIDOffset) (the (metroStations i))) ` dom metroStations"
    using ran_numbered [OF assms(1,3) bus] ran_numbered [OF assms(2,4) metro] by simp_all
  show ?thesis unfolding transit_network_def file_network_def Let_def rides rans ..
qed

lemma length_all_rows:
  "length (all_rows ids k rs) \<le> sum_list (map (length \<circ> rr_stops) rs)"
proof (induction rs arbitrary: k)
  case (Cons r rs)
  have "length (line_rows ids k r) \<le> length (rr_stops r)" by (simp add: line_rows_def List.map_filter_def)
  with Cons [of "k + 1"] show ?case by simp
qed simp

lemma all_rows_line: "r \<in> set (all_rows ids k rs) \<Longrightarrow> k \<le> lr_line r"
proof (induction rs arbitrary: k)
  case (Cons x rs)
  then consider "r \<in> set (line_rows ids k x)" | "r \<in> set (all_rows ids (k + 1) rs)" by auto
  then show ?case
  proof cases
    case 1
    then have "lr_line r = k" by (auto simp: line_rows_def)
    then show ?thesis by simp
  next
    case 2
    with Cons.IH [of "k + 1"] show ?thesis by simp
  qed
qed simp

text \<open>What the tables can hold: fewer bus stops than the offset of the stations, fewer names than \<open>2^32\<close>.\<close>

definition file_fits :: "stop_nodes \<Rightarrow> routeRelation list \<Rightarrow> routeRelation list \<Rightarrow> bool" where
  "file_fits busStops br mr \<longleftrightarrow> int (card (dom busStops)) < metroStationIDOffset
     \<and> sum_list (map (length \<circ> rr_stops) br) + sum_list (map (length \<circ> rr_stops) mr) + 3 < 2 ^ 32"

lemma values_of_length:
  assumes "values_of ss m" "stops_wf m"
  shows "length ss = card (dom m)"
proof -
  have "inj_on st_osmID (ran m)" using assms(2) by (auto simp: inj_on_def ran_def stops_wf_def)
  moreover have "st_osmID ` ran m = dom m" using assms(2) by (auto simp: ran_def stops_wf_def)
  ultimately have "card (ran m) = card (dom m)" by (metis card_image)
  with assms(1) show ?thesis by (metis distinct_card values_of_def)
qed

lemma imported_ok:
  assumes "values_of bs busStops" "stops_wf busStops" "file_fits busStops br mr"
  shows "transit_db_ok (read_tables (imported_tables bs ms br mr))"
proof -
  have ids: "map ts_id (map (\<lambda>(k, s). station_at k s) (numbered j ss)) = map fst (numbered j ss)" for j and ss :: "stopNode list"
    by (simp add: station_at_def split_beta)
  have pos: "s \<in> set (map (\<lambda>(k, s). station_at k s) (numbered 1 ss)) \<Longrightarrow> 0 < ts_id s \<and> ts_id s \<le> int (length ss)" for s ss
    using numbered_fst_ge [of _ _ 1 ss] by (fastforce simp: station_at_def)
  have "int (length bs) < metroStationIDOffset" using values_of_length [OF assms(1,2)] assms(3) by (simp add: file_fits_def)
  moreover have "0 < lr_line r" if "r \<in> set (all_rows i 1 rs)" for r i rs using all_rows_line [OF that] by simp
  moreover have "length (all_rows (stop_ids bs) 1 br) + length (all_rows (stop_ids ms) 1 mr) + 3 < 2 ^ 32"
    using length_all_rows [of "stop_ids bs" 1 br] length_all_rows [of "stop_ids ms" 1 mr] assms(3) by (simp add: file_fits_def)
  moreover have "ts_id s < metroStationIDOffset" if "s \<in> set (map (\<lambda>(k, s). station_at k s) (numbered 1 bs))" for s
    using pos [OF that] calculation(1) by simp
  moreover have "0 < ts_id s" if "s \<in> set (map (\<lambda>(k, s). station_at k s) (numbered 1 ms))" for s
    using pos [OF that] by simp
  ultimately show ?thesis
    unfolding transit_db_ok_def read_imported ids by (intro conjI ballI numbered_distinct) blast+
qed

lemma scan_good: "scan_rows what f (map Inr xs) st = Inr (fold f xs st)"
  by (induction xs arbitrary: st) simp_all

lemma read_tables_load: "\<exists>g err. LoadTransitGraph order (Some (read_tables t)) = (Some g, err)"
  by (auto simp: LoadTransitGraph_def read_tables_def loadBusStops_def loadMetroStations_def loadBusLineEdges_def
      loadMetroLineEdges_def run_query_def scan_good Let_def split: prod.splits simp del: map_map)

lemma import_transit_done:
  assumes "extractStops pass1 = Inr (busStops, metroStations)" "extractRoutes pass2 busStops metroStations = Inr (br, mr)"
    and "import_transit env order pass1 pass2 True tables = (None, t')"
    and "values_of (order busStops) busStops" "values_of (order metroStations) metroStations"
    and "distinct (map rr_osmID br)" "distinct (map rr_osmID mr)"
  shows "t' = imported_tables (order busStops) (order metroStations) br mr"
proof -
  have "writeAll env True (order busStops) (order metroStations) br mr tables = (None, t')"
    using assms(1-3) by (auto simp: import_transit_def split: prod.splits option.splits)
  then show ?thesis
    using assms(4-7) extractStops_wf [OF assms(1)] by (intro writeAll_truncated values_of_distinct)
qed

text \<open>
  C25. From the map to the network: after a successful import that empties the tables first, the
  server builds a public-transport graph whose edges are exactly those of the file: for every
  bus or metro relation a ride between consecutive stops of the relation, at the stops'
  places and with the line's label (rides of less than ten metres are left out), and the walks
  between nearby stops of a city.  The stops are numbered without collisions, bus stops below
  the numbers of the stations, whatever the order in which Go walks through its maps.
\<close>

theorem import_transit_network:
  assumes "extractStops pass1 = Inr (busStops, metroStations)" "extractRoutes pass2 busStops metroStations = Inr (br, mr)"
    and "import_transit env order pass1 pass2 True tables = (None, t')"
    and "values_of (order busStops) busStops" "values_of (order metroStations) metroStations"
    and "distinct (map rr_osmID br)" "distinct (map rr_osmID mr)" "file_fits busStops br mr"
    and "set (order' (bus_map (rows_of (td_bus_stops (read_tables t'))))) = ran (bus_map (rows_of (td_bus_stops (read_tables t'))))"
    and "set (order' (metro_map (rows_of (td_metro_stations (read_tables t'))))) = ran (metro_map (rows_of (td_metro_stations (read_tables t'))))"
  shows "\<exists>nb nm g err. LoadTransitGraph order' (Some (read_tables t')) = (Some g, err) \<and> graph_ok g
    \<and> inj_on nb (dom busStops) \<and> inj_on nm (dom metroStations)
    \<and> (\<forall>i\<in>dom busStops. 0 < nb i \<and> nb i < metroStationIDOffset) \<and> (\<forall>i\<in>dom metroStations. 0 < nm i)
    \<and> (\<forall>u. set (arcs g u) = {a. (u, a) \<in> file_network nb nm busStops metroStations br mr})"
proof -
  note wf = extractStops_wf [OF assms(1)] and stops = extractRoutes_stops [OF assms(2)]
  note t' = import_transit_done [OF assms(1-7)]
  obtain g err where g: "LoadTransitGraph order' (Some (read_tables t')) = (Some g, err)" using read_tables_load by blast
  have ok: "transit_db_ok (read_tables t')" unfolding t' by (rule imported_ok [OF assms(4) wf(1) assms(8)])
  have net: "transit_network (read_tables t')
      = file_network (the \<circ> stop_ids (order busStops)) (the \<circ> stop_ids (order metroStations)) busStops metroStations br mr"
    unfolding t' by (rule imported_network [OF assms(4,5) wf(1,2) stops])
  have ids: "\<forall>i\<in>dom m. 0 < (the \<circ> stop_ids ss) i \<and> (the \<circ> stop_ids ss) i \<le> int (length ss)"
    if "values_of ss m" "stops_wf m" for ss m
    using stop_ids_total [OF that] numbered_fst_ge [of _ _ 1 ss] by fastforce
  have len: "int (length (order busStops)) < metroStationIDOffset"
    using values_of_length [OF assms(4) wf(1)] assms(8) by (simp add: file_fits_def)
  have below: "\<forall>i\<in>dom busStops. 0 < (the \<circ> stop_ids (order busStops)) i \<and> (the \<circ> stop_ids (order busStops)) i < metroStationIDOffset"
    using ids [OF assms(4) wf(1)] len order_le_less_trans by blast
  show ?thesis
    using g below ids [OF assms(5) wf(2)] stop_ids_inj [OF assms(4) wf(1)] stop_ids_inj [OF assms(5) wf(2)]
      transit_network_loaded [OF g ok assms(9,10)] unfolding net by blast
qed

text \<open>Two bus stops of Tehran a kilometre apart and the line that joins them.\<close>

definition example_file :: "osm_value list" where
  "example_file =
     [VNode 11 35.7 51.3 [''highway'' \<mapsto> ''bus_stop''], VNode 12 35.709 51.3 [''highway'' \<mapsto> ''bus_stop''], VWay,
      VRelation 7 [''type'' \<mapsto> ''route'', ''route'' \<mapsto> ''bus'', ''ref'' \<mapsto> ''8'']
        [\<lparr>mb_ID = 11, mb_Type = NodeType\<rparr>, \<lparr>mb_ID = 50, mb_Type = WayType\<rparr>, \<lparr>mb_ID = 12, mb_Type = NodeType\<rparr>]]"

definition example_stop :: "int \<Rightarrow> float64 \<Rightarrow> stopNode" where
  "example_stop i lat = \<lparr>st_osmID = i, st_name = [], st_nameEn = [], st_city = ''tehran'', st_lat = lat, st_lng = 51.3\<rparr>"

definition example_route :: routeRelation where
  "example_route = \<lparr>rr_osmID = 7, rr_ref = ''8'', rr_name = [], rr_operator = [], rr_color = [], rr_city = ''tehran'', rr_stops = [11, 12]\<rparr>"

definition quiet_env :: import_env where
  "quiet_env = \<lparr>ie_acquire = None, ie_begin = None, ie_refused = \<lambda>n. None, ie_commit = None\<rparr>"

definition stop_order :: "stop_nodes \<Rightarrow> stopNode list" where
  "stop_order m = List.map_filter m [12, 11]"

definition example_stops :: stop_nodes where
  "example_stops = [11 \<mapsto> example_stop 11 35.7, 12 \<mapsto> example_stop 12 35.709]"

lemma example_extract: "extractStops (Inr example_file) = Inr (example_stops, Map.empty)"
  by (simp add: extractStops_def example_file_def cityFor_def supportedCities_def in_city_def isBusStop_def tag_def
      stop_of_node_def example_stops_def example_stop_def)

lemma example_routes:
  "extractRoutes (Inr example_file) example_stops Map.empty = Inr ([example_route], [])"
  by (simp add: extractRoutes_def example_file_def tag_def relation_of_def orderedStops_def example_stops_def example_stop_def example_route_def
      TrimSpace_def is_space_def)

lemma example_orders:
  "stop_order example_stops = [example_stop 12 35.709, example_stop 11 35.7]" "stop_order Map.empty = []"
  by (simp_all add: stop_order_def example_stops_def List.map_filter_simps)

lemma example_import: "\<exists>t. import_transit quiet_env stop_order (Inr example_file) (Inr example_file) True empty_tables = (None, t)"
  unfolding import_transit_def example_extract sum.case prod.case example_routes example_orders
  by (simp add: writeAll_def tx_body_def statement_def quiet_env_def
      insertBusStops_def insertMetroStations_def insertBusRoutes_def insertMetroRoutes_def
      example_route_def example_stop_def split_beta)

definition stop_map_order :: "stop_map \<Rightarrow> transitStop list" where
  "stop_map_order m = List.map_filter m [1, 2]"

theorem import_transit_network_witness:
  "\<exists>t nb nm g err. import_transit quiet_env stop_order (Inr example_file) (Inr example_file) True empty_tables = (None, t)
     \<and> LoadTransitGraph stop_map_order (Some (read_tables t)) = (Some g, err)
     \<and> inj_on nb (dom example_stops)
     \<and> (\<forall>u. set (arcs g u) = {a. (u, a) \<in> file_network nb nm example_stops Map.empty [example_route] []})"
proof -
  obtain t where t: "import_transit quiet_env stop_order (Inr example_file) (Inr example_file) True empty_tables = (None, t)"
    using example_import by blast
  have vals: "values_of (stop_order example_stops) example_stops" "values_of (stop_order Map.empty) Map.empty"
    by (auto simp: values_of_def stop_order_def example_stops_def example_stop_def List.map_filter_simps)
  have wf: "distinct (map rr_osmID [example_route])" "distinct (map rr_osmID ([] :: routeRelation list))"
    "file_fits example_stops [example_route] []"
    by (simp_all add: file_fits_def example_stops_def example_route_def metroStationIDOffset_def)
  have done': "t = imported_tables (stop_order example_stops) (stop_order Map.empty) [example_route] []"
    by (rule import_transit_done [OF example_extract example_routes t vals wf(1,2)])
  have orders: "set (stop_map_order (bus_map (rows_of (td_bus_stops (read_tables t))))) = ran (bus_map (rows_of (td_bus_stops (read_tables t))))"
    "set (stop_map_order (metro_map (rows_of (td_metro_stations (read_tables t))))) = ran (metro_map (rows_of (td_metro_stations (read_tables t))))"
    unfolding done' read_imported example_orders
    by (simp_all add: stop_map_order_def bus_map_def metro_map_def station_at_def List.map_filter_simps insert_commute)
  from import_transit_network [OF example_extract example_routes t vals wf orders] t show ?thesis by blast
qed

text \<open>
  The stops of a relation: \<open>orderedStops\<close> keeps, in the order of the members, the nodes that
  are known stops of the city of the first known stop, and drops a stop that repeats the one
  before it.
\<close>

theorem orderedStops_spec:
  assumes "stops_wf lookup" "lookup 0 = None"
  shows "orderedStops members lookup =
    (case known_ids lookup members of
       [] \<Rightarrow> ([], [])
     | i # is \<Rightarrow> (remdups_adj (filter (\<lambda>j. city_of lookup j = city_of lookup i) (i # is)), city_of lookup i))"
  unfolding orderedStops_def using assms by (rule ordered_from_start)

theorem orderedStops_spec_witness:
  "orderedStops [\<lparr>mb_ID = 12, mb_Type = NodeType\<rparr>, \<lparr>mb_ID = 12, mb_Type = NodeType\<rparr>, \<lparr>mb_ID = 11, mb_Type = NodeType\<rparr>] example_stops
    = ([12, 11], ''tehran'')"
  using orderedStops_spec [of example_stops "[\<lparr>mb_ID = 12, mb_Type = NodeType\<rparr>, \<lparr>mb_ID = 12, mb_Type = NodeType\<rparr>, \<lparr>mb_ID = 11, mb_Type = NodeType\<rparr>]"]
  by (simp add: stops_wf_def city_of_def example_stops_def example_stop_def)

text \<open>
  Importing again leaves nothing stale: after a successful write, with or without emptying
  the tables first, the tables are well formed again, every stop of the file is in its table
  under one number, and every line of the file is in its table with exactly the stops of the
  relation, numbered from zero; the stops it had before are gone.
\<close>

theorem reimport_lines:
  assumes "writeAll env trunc bs ms br mr tables = (None, t')" and "tables_wf tables"
    and "distinct (map st_osmID bs)" "distinct (map st_osmID ms)" "distinct (map rr_osmID br)" "distinct (map rr_osmID mr)"
  shows "tables_wf t' \<and> (\<exists>ids. stops_written (tt_bus_stops t') ids bs
      \<and> (\<forall>r\<in>set br. line_written (\<lambda>e. e = bus_line_cols r) (tt_bus_lines t') (tt_bus_line_stops t') ids (rr_stops r)))
    \<and> (\<exists>ids. stops_written (tt_metro_stations t') ids ms
      \<and> (\<forall>r\<in>set mr. line_written (\<lambda>e. e = line_cols r) (tt_metro_lines t') (tt_metro_line_stations t') ids (rr_stops r)))"
  using assms by (rule writeAll_again)

text \<open>A line of three stops is written over one of which the third stop is gone.\<close>

definition longer_route :: routeRelation where
  "longer_route = example_route\<lparr>rr_stops := [11, 12, 11]\<rparr>"

definition before_tables :: transit_tables where
  "before_tables = snd (writeAll quiet_env True [example_stop 11 35.7, example_stop 12 35.709] [] [longer_route] [] empty_tables)"

lemma before_done:
  "writeAll quiet_env True [example_stop 11 35.7, example_stop 12 35.709] [] [longer_route] [] empty_tables = (None, before_tables)"
  unfolding before_tables_def
  by (simp add: writeAll_def tx_body_def statement_def quiet_env_def insertBusStops_def insertMetroStations_def
      insertBusRoutes_def insertMetroRoutes_def longer_route_def example_route_def example_stop_def split_beta)

lemma before_wf: "tables_wf before_tables"
  using writeAll_again [OF before_done tables_wf_empty] by (simp add: example_stop_def)

theorem reimport_lines_witness:
  "\<exists>t ids. writeAll quiet_env False [example_stop 12 35.709, example_stop 11 35.7] [] [example_route] [] before_tables = (None, t)
     \<and> tables_wf t \<and> line_written (\<lambda>e. e = bus_line_cols example_route) (tt_bus_lines t) (tt_bus_line_stops t) ids [11, 12]"
proof -
  obtain t where t: "writeAll quiet_env False [example_stop 12 35.709, example_stop 11 35.7] [] [example_route] [] before_tables = (None, t)"
    by (simp add: writeAll_def tx_body_def statement_def quiet_env_def insertBusStops_def insertMetroStations_def
      insertBusRoutes_def insertMetroRoutes_def example_route_def example_stop_def split_beta)
  from reimport_lines [OF t before_wf] t show ?thesis by (auto simp: example_stop_def example_route_def)
qed

end
