(* ===== verification/ShipmentSql.thy ===== *)
theory ShipmentSql
  imports ShipmentSvc
begin

text \<open>
  The helpers of the repositories of \<open>internal/storage\<close> that read the external database of the
  shipments: the names the configuration gives (\<open>NewShipmentDB\<close>), which become part of SQL text,
  placeholders, the access queries whose text repeats a placeholder, the values a driver
  delivers, and addresses of media.  Opening the database is a parameter, an error or none.
\<close>

section \<open>Names\<close>

datatype dialect = MySQL | Postgres

definition normalizeShipmentDriver :: "string \<Rightarrow> string + string \<times> dialect" where
  "normalizeShipmentDriver raw =
     (let r = ToLower (TrimSpace raw) in
      if r = [] \<or> r = ''mysql'' \<or> r = ''mariadb'' then Inr (''mysql'', MySQL)
      else if r = ''postgres'' \<or> r = ''postgresql'' \<or> r = ''pgx'' then Inr (''pgx'', Postgres)
      else Inl (''unsupported shipment db driver '' @ Quote raw))"

definition validateShipmentDriverDSN :: "dialect \<Rightarrow> string \<Rightarrow> string option" where
  "validateShipmentDriverDSN dialect dsn =
     (let lower = ToLower (TrimSpace dsn) in
      case dialect of
        MySQL \<Rightarrow>
          if Contains lower ''sslmode='' \<or> has_prefix ''host='' lower
          then Some ''SHIPMENT_DB_DRIVER is mysql but DSN looks like PostgreSQL; set SHIPMENT_DB_DRIVER=postgres'' else None
      | Postgres \<Rightarrow>
          if Contains lower ''@tcp('' then Some ''SHIPMENT_DB_DRIVER is postgres but DSN looks like MySQL; set SHIPMENT_DB_DRIVER=mysql''
          else None)"

text \<open>The pattern \<open>^[A-Za-z_][A-Za-z0-9_]*$\<close>.\<close>

definition ident_start :: "char \<Rightarrow> bool" where
  "ident_start c \<longleftrightarrow> (let n = (of_char c :: nat) in (65 \<le> n \<and> n \<le> 90) \<or> (97 \<le> n \<and> n \<le> 122) \<or> n = 95)"

definition ident_char :: "char \<Rightarrow> bool" where
  "ident_char c \<longleftrightarrow> ident_start c \<or> is_digit c"

definition identifierPattern :: "string \<Rightarrow> bool" where
  "identifierPattern s = (case s of [] \<Rightarrow> False | c # r \<Rightarrow> ident_start c \<and> list_all ident_char r)"

definition quote_mark :: "dialect \<Rightarrow> char" where
  "quote_mark d = (case d of Postgres \<Rightarrow> CHR 0x22 | MySQL \<Rightarrow> CHR 0x60)"

definition quoted :: "dialect \<Rightarrow> string \<Rightarrow> string" where
  "quoted d ident = quote_mark d # ident @ [quote_mark d]"

definition quoteIdentifier :: "dialect \<Rightarrow> string \<Rightarrow> string + string" where
  "quoteIdentifier d ident =
     (let ident = TrimSpace ident in
      if \<not> identifierPattern ident then Inl (''invalid identifier '' @ Quote ident) else Inr (quoted d ident))"

fun quote_parts :: "dialect \<Rightarrow> string list \<Rightarrow> string + string list" where
  "quote_parts d [] = Inr []"
| "quote_parts d (part # parts) =
     (case quoteIdentifier d part of
        Inl e \<Rightarrow> Inl e
      | Inr q \<Rightarrow> (case quote_parts d parts of Inl e \<Rightarrow> Inl e | Inr qs \<Rightarrow> Inr (q # qs)))"

fun join_with :: "string \<Rightarrow> string list \<Rightarrow> string" where
  "join_with sep [] = []"
| "join_with sep [s] = s"
| "join_with sep (s # t # ss) = s @ sep @ join_with sep (t # ss)"

definition quoteQualifiedIdentifier :: "dialect \<Rightarrow> string \<Rightarrow> string + string" where
  "quoteQualifiedIdentifier d ident =
     (case quote_parts d (Split (CHR ''.'') (TrimSpace ident)) of
        Inl e \<Rightarrow> Inl e
      | Inr parts \<Rightarrow> Inr (join_with ''.'' parts))"

definition quotedTable :: "dialect \<Rightarrow> string \<Rightarrow> string" where
  "quotedTable d table =
     (case quoteQualifiedIdentifier d table of Inr q \<Rightarrow> q | Inl e \<Rightarrow> [CHR 0x22] @ table @ [CHR 0x22])"

section \<open>The configured database\<close>

record ShipmentDBConfig =
  sc_Driver :: string
  sc_DSN :: string
  sc_Table :: string
  sc_LocationColumn :: string
  sc_EndLocationColumn :: string
  sc_LatColumn :: string
  sc_LngColumn :: string
  sc_VehicleAllowedColumn :: string
  sc_VehicleBoxSizesTable :: string
  sc_VehicleIDColumn :: string
  sc_VehicleWeightColumn :: string
  sc_VehicleTypesTable :: string
  sc_VehicleTypeLabelColumn :: string
  sc_VehicleTypeTitleColumn :: string
  sc_ContentTypesTable :: string
  sc_ContentTypeIDColumn :: string
  sc_ContentTypeImageColumn :: string
  sc_ShipmentImagesTable :: string
  sc_ShipmentImageShipmentIDColumn :: string
  sc_ShipmentImageColumn :: string
  sc_MediaPublicBaseURL :: string

record ShipmentDB =
  sd_dialect :: dialect
  sd_table :: string
  sd_idColumn :: string
  sd_vehicleAllowedCol :: string
  sd_visibleOnMapCol :: string
  sd_shipmentCodeCol :: string
  sd_shippingTypeIDCol :: string
  sd_locationColumn :: string
  sd_endLocationColumn :: string
  sd_latColumn :: string
  sd_lngColumn :: string
  sd_vehicleBoxSizesTable :: string
  sd_vehicleIDColumn :: string
  sd_vehicleWeightColumn :: string
  sd_vehicleTypesTable :: string
  sd_vehicleTypeLabelColumn :: string
  sd_vehicleTypeTitleColumn :: string
  sd_contentJoin :: string
  sd_contentImageSelect :: string
  sd_shipmentImagesSelect :: string
  sd_packageDetailSelect :: string
  sd_packageDetailJoins :: string
  sd_mediaPublicBaseURL :: string

definition nl :: string where "nl = [CHR 0x0A]"

definition buildShipmentImagesSelect :: "dialect \<Rightarrow> string \<Rightarrow> string \<Rightarrow> string \<Rightarrow> string \<Rightarrow> string \<Rightarrow> string" where
  "buildShipmentImagesSelect d table shipmentIDColumn imageColumn imageIDColumn shipmentIDSelectColumn =
     (case d of
        Postgres \<Rightarrow> '','' @ nl @ ''    (SELECT COALESCE(json_agg(si.'' @ imageColumn @ '' ORDER BY si.'' @ imageIDColumn
          @ '') FILTER (WHERE si.'' @ imageColumn @ '' IS NOT NULL), '' @ [CHR 0x27] @ ''[]'' @ [CHR 0x27] @ ''::json) FROM ''
          @ table @ '' AS si WHERE si.'' @ shipmentIDColumn @ '' = s.'' @ shipmentIDSelectColumn @ '') AS images''
      | MySQL \<Rightarrow> '','' @ nl @ ''    (SELECT COALESCE(JSON_ARRAYAGG(si.'' @ imageColumn @ ''), JSON_ARRAY()) FROM ''
          @ table @ '' AS si WHERE si.'' @ shipmentIDColumn @ '' = s.'' @ shipmentIDSelectColumn @ '') AS images'')"

definition empty_text :: string where "empty_text = [CHR 0x27, CHR 0x27]"

definition content_select :: "string \<Rightarrow> string \<Rightarrow> string" where
  "content_select title img = '','' @ nl @ ''    '' @ title @ '' AS content_type_title,'' @ nl @ ''    '' @ img @ '' AS content_image''"

definition content_join :: "dialect \<Rightarrow> string \<Rightarrow> string \<Rightarrow> string" where
  "content_join d table fk = ''LEFT JOIN '' @ table @ '' AS ct ON ct.'' @ quoted d ''id'' @ '' = s.'' @ fk"

definition coalesced :: "string \<Rightarrow> string" where
  "coalesced col = ''COALESCE(ct.'' @ col @ '', '' @ empty_text @ '')''"

text \<open>Columns of the package: Postgres quotes their names, the other text does not.\<close>

definition detail_name :: "dialect \<Rightarrow> string \<Rightarrow> string" where
  "detail_name d col = (case d of Postgres \<Rightarrow> quoted d col | MySQL \<Rightarrow> col)"

definition plain_detail :: "dialect \<Rightarrow> string \<Rightarrow> string" where
  "plain_detail d col = '','' @ nl @ ''    s.'' @ detail_name d col @ '' AS '' @ col"

definition text_detail :: "dialect \<Rightarrow> string \<Rightarrow> string \<Rightarrow> string \<Rightarrow> string" where
  "text_detail d alias col name = '','' @ nl @ ''    COALESCE('' @ alias @ ''.'' @ detail_name d col @ '', '' @ empty_text @ '') AS '' @ name"

definition detail_join :: "dialect \<Rightarrow> string \<Rightarrow> string \<Rightarrow> string \<Rightarrow> string" where
  "detail_join d table alias fk = ''LEFT JOIN '' @ quotedTable d table @ '' AS '' @ alias @ '' ON '' @ alias @ ''.'' @ detail_name d ''id''
     @ '' = s.'' @ detail_name d fk"

definition buildNearbyPackageDetailSQL :: "dialect \<Rightarrow> string \<times> string" where
  "buildNearbyPackageDetailSQL d =
     (plain_detail d ''content_type_id'' @ plain_detail d ''package_type_id''
      @ text_detail d ''pt'' ''title'' ''package_type_title'' @ text_detail d ''st'' ''title'' ''shipping_type_title''
      @ plain_detail d ''shipping_priority_id''
      @ text_detail d ''sp'' ''title'' ''shipping_priority_title'' @ text_detail d ''sp'' ''label'' ''shipping_priority_label''
      @ concat (map (plain_detail d) [''package_weight'', ''package_height'', ''package_width'', ''package_length'', ''package_value'',
          ''has_insurance'', ''is_fragile'', ''is_liquid'', ''is_battery''])
      @ text_detail d ''s'' ''description'' ''description'',
      join_with nl [detail_join d ''package_types'' ''pt'' ''package_type_id'', detail_join d ''shipping_types'' ''st'' ''shipping_type_id'',
        detail_join d ''shipping_priorities'' ''sp'' ''shipping_priority_id''])"

definition default_name :: "string \<Rightarrow> string \<Rightarrow> string" where
  "default_name dflt name = (if name = [] then dflt else name)"

text \<open>Go on with the value, or return the error behind its prefix.\<close>

definition check :: "string \<Rightarrow> string + 'a \<Rightarrow> ('a \<Rightarrow> string + 'b) \<Rightarrow> string + 'b" where
  "check what r k = (case r of Inl e \<Rightarrow> Inl (what @ e) | Inr x \<Rightarrow> k x)"

definition optional :: "string \<Rightarrow> string + 'a \<Rightarrow> 'a \<Rightarrow> string + 'a" where
  "optional name r dflt = (if TrimSpace name = [] then Inr dflt else r)"

definition location_columns :: "dialect \<Rightarrow> ShipmentDBConfig \<Rightarrow> string + string \<times> string \<times> string \<times> string" where
  "location_columns d cfg =
     (if TrimSpace (sc_LocationColumn cfg) \<noteq> [] then
        check ''shipment location column: '' (quoteIdentifier d (sc_LocationColumn cfg)) (\<lambda>locationColumn.
        check [] (optional (sc_EndLocationColumn cfg)
            (check ''shipment end location column: '' (quoteIdentifier d (sc_EndLocationColumn cfg)) Inr) []) (\<lambda>endLocationColumn.
        Inr (locationColumn, endLocationColumn, [], [])))
      else
        check ''shipment lat column: '' (quoteIdentifier d (sc_LatColumn cfg)) (\<lambda>latColumn.
        check ''shipment lng column: '' (quoteIdentifier d (sc_LngColumn cfg)) (\<lambda>lngColumn.
        Inr ([], [], latColumn, lngColumn))))"

definition box_columns :: "dialect \<Rightarrow> ShipmentDBConfig \<Rightarrow> string + string \<times> string \<times> string" where
  "box_columns d cfg =
     optional (sc_VehicleBoxSizesTable cfg)
       (check ''vehicle_box_sizes table: '' (quoteQualifiedIdentifier d (sc_VehicleBoxSizesTable cfg)) (\<lambda>table.
        check ''vehicle_id column: '' (quoteIdentifier d (default_name ''vehicle_id'' (sc_VehicleIDColumn cfg))) (\<lambda>vid.
        check ''vehicle_weight column: '' (quoteIdentifier d (default_name ''max_weight'' (sc_VehicleWeightColumn cfg))) (\<lambda>vw.
        Inr (table, vid, vw)))))
       ([], [], [])"

definition content_sql :: "dialect \<Rightarrow> ShipmentDBConfig \<Rightarrow> string + string \<times> string" where
  "content_sql d cfg =
     optional (sc_ContentTypesTable cfg)
       (check ''content_types table: '' (quoteQualifiedIdentifier d (sc_ContentTypesTable cfg)) (\<lambda>ctTable.
        check ''content_type_id column: '' (quoteIdentifier d (default_name ''content_type_id'' (sc_ContentTypeIDColumn cfg))) (\<lambda>ctIDFK.
        check ''content_types image column: '' (quoteIdentifier d (default_name ''image'' (sc_ContentTypeImageColumn cfg))) (\<lambda>ctImg.
        check ''content_types title column: '' (quoteIdentifier d ''title'') (\<lambda>ctTitle.
        Inr (content_join d ctTable ctIDFK, content_select (coalesced ctTitle) (coalesced ctImg)))))))
       ([], content_select empty_text empty_text)"

definition images_sql :: "dialect \<Rightarrow> ShipmentDBConfig \<Rightarrow> string + string" where
  "images_sql d cfg =
     optional (sc_ShipmentImagesTable cfg)
       (check ''shipment_images table: '' (quoteQualifiedIdentifier d (sc_ShipmentImagesTable cfg)) (\<lambda>imgTable.
        check ''shipment_images shipment_id column: ''
          (quoteIdentifier d (default_name ''shipment_id'' (sc_ShipmentImageShipmentIDColumn cfg))) (\<lambda>imgShipmentID.
        check ''shipment_images image column: '' (quoteIdentifier d (default_name ''image'' (sc_ShipmentImageColumn cfg))) (\<lambda>img.
        check ''shipment_images id column: '' (quoteIdentifier d ''id'') (\<lambda>imgID.
        check ''shipment id column: '' (quoteIdentifier d ''id'') (\<lambda>shipmentIDCol.
        Inr (buildShipmentImagesSelect d imgTable imgShipmentID img imgID shipmentIDCol)))))))
       []"

definition NewShipmentDB :: "string option \<Rightarrow> ShipmentDBConfig \<Rightarrow> string + ShipmentDB option" where
  "NewShipmentDB opened cfg =
     (if TrimSpace (sc_DSN cfg) = [] then Inr None
      else
      check [] (normalizeShipmentDriver (sc_Driver cfg)) (\<lambda>(driverName, d).
      case validateShipmentDriverDSN d (sc_DSN cfg) of Some e \<Rightarrow> Inl e | None \<Rightarrow>
      check ''shipment table: '' (quoteQualifiedIdentifier d (sc_Table cfg)) (\<lambda>table.
      check [] (location_columns d cfg) (\<lambda>(locationColumn, endLocationColumn, latColumn, lngColumn).
      check ''vehicle_types table: '' (quoteQualifiedIdentifier d (default_name ''vehicle_types'' (sc_VehicleTypesTable cfg))) (\<lambda>vtTable.
      check ''vehicle_types label column: '' (quoteIdentifier d (default_name ''label'' (sc_VehicleTypeLabelColumn cfg))) (\<lambda>vtLabel.
      check ''vehicle_types title column: '' (quoteIdentifier d (default_name ''title'' (sc_VehicleTypeTitleColumn cfg))) (\<lambda>vtTitle.
      check [] (box_columns d cfg) (\<lambda>(boxTable, vehicleIDColumn, vehicleWeightColumn).
      check [] (content_sql d cfg) (\<lambda>(contentJoin, contentImageSelect).
      check [] (images_sql d cfg) (\<lambda>shipmentImagesSelect.
      case opened of Some e \<Rightarrow> Inl (''shipment db: '' @ e) | None \<Rightarrow>
      check ''shipment id column: '' (quoteIdentifier d ''id'') (\<lambda>idColumn.
      check [] (optional (sc_VehicleAllowedColumn cfg)
          (check ''shipment vehicle_allowed column: '' (quoteIdentifier d (sc_VehicleAllowedColumn cfg)) Inr) []) (\<lambda>vehicleAllowedCol.
      check ''shipment visible_on_map column: '' (quoteIdentifier d ''visible_on_map'') (\<lambda>visibleOnMapCol.
      check ''shipment shipment_code column: '' (quoteIdentifier d ''shipment_code'') (\<lambda>shipmentCodeCol.
      check ''shipment shipping_type_id column: '' (quoteIdentifier d ''shipping_type_id'') (\<lambda>shippingTypeIDCol.
      Inr (Some
        \<lparr>sd_dialect = d, sd_table = table, sd_idColumn = idColumn, sd_vehicleAllowedCol = vehicleAllowedCol,
         sd_visibleOnMapCol = visibleOnMapCol, sd_shipmentCodeCol = shipmentCodeCol, sd_shippingTypeIDCol = shippingTypeIDCol,
         sd_locationColumn = locationColumn, sd_endLocationColumn = endLocationColumn, sd_latColumn = latColumn, sd_lngColumn = lngColumn,
         sd_vehicleBoxSizesTable = boxTable, sd_vehicleIDColumn = vehicleIDColumn, sd_vehicleWeightColumn = vehicleWeightColumn,
         sd_vehicleTypesTable = vtTable, sd_vehicleTypeLabelColumn = vtLabel, sd_vehicleTypeTitleColumn = vtTitle,
         sd_contentJoin = contentJoin, sd_contentImageSelect = contentImageSelect, sd_shipmentImagesSelect = shipmentImagesSelect,
         sd_packageDetailSelect = fst (buildNearbyPackageDetailSQL d), sd_packageDetailJoins = snd (buildNearbyPackageDetailSQL d),
         sd_mediaPublicBaseURL = TrimSpace (sc_MediaPublicBaseURL cfg)\<rparr>))))))))))))))))"

section \<open>Placeholders\<close>

record placeholderArgs =
  pa_dialect :: dialect
  pa_values :: "any list"

definition newPlaceholderArgs :: "dialect \<Rightarrow> placeholderArgs" where
  "newPlaceholderArgs d = \<lparr>pa_dialect = d, pa_values = []\<rparr>"

definition pa_Add :: "any \<Rightarrow> placeholderArgs \<Rightarrow> string \<times> placeholderArgs" where
  "pa_Add v p =
     (let p = p\<lparr>pa_values := pa_values p @ [v]\<rparr> in
      (case pa_dialect p of Postgres \<Rightarrow> ''$'' @ nat_text (length (pa_values p)) | MySQL \<Rightarrow> ''?'', p))"

text \<open>One after the other, as the loops over ids do.\<close>

fun add_args :: "any list \<Rightarrow> placeholderArgs \<Rightarrow> string list \<times> placeholderArgs" where
  "add_args [] p = ([], p)"
| "add_args (v # vs) p = (case pa_Add v p of (s, p) \<Rightarrow> (case add_args vs p of (ss, p) \<Rightarrow> (s # ss, p)))"

definition UserOwnsTrip_sql :: "dialect \<Rightarrow> int \<Rightarrow> int \<Rightarrow> string \<times> any list" where
  "UserOwnsTrip_sql d userID tripID =
     (let (a1, p) = pa_Add (AInt KInt64 tripID) (newPlaceholderArgs d); (a2, p) = pa_Add (AInt KInt64 userID) p in
      (''SELECT 1 FROM '' @ quotedTable d ''trips'' @ '' WHERE '' @ quoted d ''id'' @ '' = '' @ a1 @ '' AND ''
         @ quoted d ''user_id'' @ '' = '' @ a2 @ '' LIMIT 1'', pa_values p))"

definition UserCanAccessTrip_sql :: "ShipmentDB \<Rightarrow> int \<Rightarrow> int \<Rightarrow> string \<times> any list" where
  "UserCanAccessTrip_sql s userID tripID =
     (let d = sd_dialect s;
          (ownerTrip, p) = pa_Add (AInt KInt64 tripID) (newPlaceholderArgs d); (ownerUser, p) = pa_Add (AInt KInt64 userID) p;
          (linkedTrip, p) = pa_Add (AInt KInt64 tripID) p; (linkedUser, p) = pa_Add (AInt KInt64 userID) p;
          idCol = quoted d ''id''; userIDCol = quoted d ''user_id'' in
      (nl @ ''SELECT 1'' @ nl @ ''WHERE EXISTS ('' @ nl
       @ ''    SELECT 1 FROM '' @ quotedTable d ''trips'' @ '' AS t'' @ nl
       @ ''    WHERE t.'' @ idCol @ '' = '' @ ownerTrip @ '' AND t.'' @ userIDCol @ '' = '' @ ownerUser @ nl
       @ '') OR EXISTS ('' @ nl @ ''    SELECT 1'' @ nl
       @ ''    FROM '' @ quotedTable d ''shippings'' @ '' AS sh'' @ nl
       @ ''    JOIN '' @ sd_table s @ '' AS sp ON sp.'' @ idCol @ '' = sh.'' @ quoted d ''shipment_id'' @ nl
       @ ''    WHERE sh.'' @ quoted d ''trip_id'' @ '' = '' @ linkedTrip @ nl
       @ ''      AND (sp.'' @ userIDCol @ '' = '' @ linkedUser @ '' OR sp.'' @ quoted d ''receiver_id'' @ '' = '' @ linkedUser @ '')'' @ nl
       @ '')'' @ nl @ ''LIMIT 1'', pa_values p))"

definition UsersShareActiveShipping_sql :: "ShipmentDB \<Rightarrow> int \<Rightarrow> int \<Rightarrow> string \<times> any list" where
  "UsersShareActiveShipping_sql s viewerID targetID =
     (let d = sd_dialect s;
          (targetTrip, p) = pa_Add (AInt KInt64 targetID) (newPlaceholderArgs d); (viewerShipment, p) = pa_Add (AInt KInt64 viewerID) p;
          (viewerTrip, p) = pa_Add (AInt KInt64 viewerID) p; (targetShipment, p) = pa_Add (AInt KInt64 targetID) p;
          idCol = quoted d ''id''; userIDCol = quoted d ''user_id''; receiverIDCol = quoted d ''receiver_id'' in
      (nl @ ''SELECT 1'' @ nl @ ''WHERE EXISTS ('' @ nl @ ''    SELECT 1'' @ nl
       @ ''    FROM '' @ quotedTable d ''shippings'' @ '' AS sh'' @ nl
       @ ''    JOIN '' @ quotedTable d ''trips'' @ '' AS t  ON t.'' @ idCol @ ''  = sh.'' @ quoted d ''trip_id'' @ nl
       @ ''    JOIN '' @ sd_table s @ '' AS sp ON sp.'' @ idCol @ '' = sh.'' @ quoted d ''shipment_id'' @ nl
       @ ''    WHERE (t.'' @ userIDCol @ '' = '' @ targetTrip @ ''  AND (sp.'' @ userIDCol @ '' = '' @ viewerShipment
       @ '' OR sp.'' @ receiverIDCol @ '' = '' @ viewerShipment @ ''))'' @ nl
       @ ''       OR (t.'' @ userIDCol @ '' = '' @ viewerTrip @ '' AND (sp.'' @ userIDCol @ '' = '' @ targetShipment
       @ '' OR sp.'' @ receiverIDCol @ '' = '' @ targetShipment @ ''))'' @ nl
       @ '')'' @ nl @ ''LIMIT 1'', pa_values p))"

text \<open>
  \<open>QueryRowContext\<close> with \<open>Scan\<close>: against MySQL, \<open>database/sql\<close> refuses a statement whose markers are
  not as many as the arguments; otherwise the database answers.
\<close>

definition ExistsQuery :: "dialect \<Rightarrow> string \<times> any list \<Rightarrow> string + bool \<Rightarrow> string + bool" where
  "ExistsQuery d q answer =
     (case q of (text, args) \<Rightarrow>
        let want = count_list text (CHR ''?'') in
        if d = MySQL \<and> want \<noteq> length args
        then Inl (''sql: expected '' @ nat_text want @ '' arguments, got '' @ nat_text (length args))
        else answer)"

section \<open>Names are quoted\<close>

definition quoted_ident :: "dialect \<Rightarrow> string \<Rightarrow> bool" where
  "quoted_ident d s \<longleftrightarrow> (\<exists>i. identifierPattern i \<and> s = quoted d i)"

definition quoted_table :: "dialect \<Rightarrow> string \<Rightarrow> bool" where
  "quoted_table d s \<longleftrightarrow> (\<exists>names. names \<noteq> [] \<and> list_all identifierPattern names \<and> s = join_with ''.'' (map (quoted d) names))"

lemma check_Inr: "check what r k = Inr y \<longleftrightarrow> (\<exists>x. r = Inr x \<and> k x = Inr y)"
  by (simp add: check_def split: sum.splits)

lemma refused_Inr: "(case x of None \<Rightarrow> y | Some e \<Rightarrow> Inl (f e)) = Inr z \<longleftrightarrow> x = None \<and> y = Inr z"
  by (cases x) auto

lemma checkE:
  assumes "check what r k = Inr y" obtains x where "r = Inr x" "k x = Inr y"
  using assms by (auto simp: check_Inr)

lemma optional_Inr: "optional name r dflt = Inr y \<longleftrightarrow> (if TrimSpace name = [] then y = dflt else r = Inr y)"
  by (auto simp: optional_def)

lemma quoteIdentifier_Inr: "quoteIdentifier d i = Inr q \<Longrightarrow> quoted_ident d q"
  by (auto simp: quoteIdentifier_def quoted_ident_def Let_def split: if_splits)

lemma quote_parts_Inr:
  "quote_parts d ps = Inr qs \<Longrightarrow> length qs = length ps \<and> (\<exists>names. list_all identifierPattern names \<and> qs = map (quoted d) names)"
proof (induction ps arbitrary: qs)
  case (Cons p ps)
  then obtain q qs' where q: "quoteIdentifier d p = Inr q" "quote_parts d ps = Inr qs'" "qs = q # qs'"
    by (auto split: sum.splits)
  from Cons.IH [OF q(2)] quoteIdentifier_Inr [OF q(1)] obtain names i where
    "length qs' = length ps" "list_all identifierPattern names" "qs' = map (quoted d) names" "identifierPattern i" "q = quoted d i"
    unfolding quoted_ident_def by blast
  with q(3) show ?case by (intro conjI exI [of _ "i # names"]) simp_all
qed simp

lemma Split_ne: "Split c s \<noteq> []"
  by (induction s) (auto split: list.splits)

lemma quoteQualifiedIdentifier_Inr:
  assumes "quoteQualifiedIdentifier d i = Inr q"
  shows "quoted_table d q"
proof -
  obtain qs where qs: "quote_parts d (Split (CHR ''.'') (TrimSpace i)) = Inr qs" "q = join_with ''.'' qs"
    using assms by (auto simp: quoteQualifiedIdentifier_def split: sum.splits)
  from quote_parts_Inr [OF qs(1)] obtain names where n: "list_all identifierPattern names" "qs = map (quoted d) names" "qs \<noteq> []"
    using Split_ne by fastforce
  then show ?thesis unfolding quoted_table_def qs(2) by (intro exI [of _ names]) auto
qed

text \<open>A name of the configuration, or nothing.\<close>

definition maybe :: "(string \<Rightarrow> bool) \<Rightarrow> string \<Rightarrow> bool" where
  "maybe ok s \<longleftrightarrow> s = [] \<or> ok s"

definition names_quoted :: "ShipmentDB \<Rightarrow> bool" where
  "names_quoted s \<longleftrightarrow> (let d = sd_dialect s; col = quoted_ident d; tab = quoted_table d in
     tab (sd_table s) \<and> list_all col [sd_idColumn s, sd_visibleOnMapCol s, sd_shipmentCodeCol s, sd_shippingTypeIDCol s,
        sd_vehicleTypeLabelColumn s, sd_vehicleTypeTitleColumn s]
     \<and> list_all (maybe col) [sd_vehicleAllowedCol s, sd_locationColumn s, sd_endLocationColumn s, sd_latColumn s, sd_lngColumn s,
        sd_vehicleIDColumn s, sd_vehicleWeightColumn s]
     \<and> (sd_locationColumn s = [] \<longrightarrow> col (sd_latColumn s) \<and> col (sd_lngColumn s))
     \<and> tab (sd_vehicleTypesTable s) \<and> maybe tab (sd_vehicleBoxSizesTable s)
     \<and> (sd_contentJoin s = [] \<or> (\<exists>t c. tab t \<and> col c \<and> sd_contentJoin s = content_join d t c))
     \<and> (\<exists>x y. (x = empty_text \<or> (\<exists>c. col c \<and> x = coalesced c))
          \<and> (y = empty_text \<or> (\<exists>c. col c \<and> y = coalesced c))
          \<and> sd_contentImageSelect s = content_select x y)
     \<and> (sd_shipmentImagesSelect s = [] \<or> (\<exists>t a b c e. tab t \<and> list_all col [a, b, c, e]
          \<and> sd_shipmentImagesSelect s = buildShipmentImagesSelect d t a b c e))
     \<and> (sd_packageDetailSelect s, sd_packageDetailJoins s) = buildNearbyPackageDetailSQL d)"

lemma location_columns_quoted:
  "location_columns d cfg = Inr (l, e, a, b) \<Longrightarrow> list_all (maybe (quoted_ident d)) [l, e, a, b]
    \<and> (l = [] \<longrightarrow> quoted_ident d a \<and> quoted_ident d b)"
  by (auto simp: location_columns_def check_Inr optional_Inr maybe_def quoted_ident_def quoted_def
      split: if_splits dest!: quoteIdentifier_Inr)

lemma box_columns_quoted:
  "box_columns d cfg = Inr (t, a, b) \<Longrightarrow> maybe (quoted_table d) t \<and> maybe (quoted_ident d) a \<and> maybe (quoted_ident d) b"
  by (auto simp: box_columns_def check_Inr optional_Inr maybe_def split: if_splits
      dest: quoteIdentifier_Inr quoteQualifiedIdentifier_Inr)

lemma content_sql_quoted:
  assumes "content_sql d cfg = Inr (j, sel)"
  shows "(j = [] \<or> (\<exists>t c. quoted_table d t \<and> quoted_ident d c \<and> j = content_join d t c))
     \<and> (\<exists>x y. (x = empty_text \<or> (\<exists>c. quoted_ident d c \<and> x = coalesced c))
          \<and> (y = empty_text \<or> (\<exists>c. quoted_ident d c \<and> y = coalesced c))
          \<and> sel = content_select x y)"
proof (cases "TrimSpace (sc_ContentTypesTable cfg) = []")
  case True
  with assms have "j = [] \<and> sel = content_select empty_text empty_text"
    by (simp only: content_sql_def optional_Inr if_True prod.inject)
  then show ?thesis by blast
next
  case False
  from assms [unfolded content_sql_def optional_Inr if_not_P [OF False]] show ?thesis
  proof (elim checkE)
    fix t fk img ti
    assume q: "quoteQualifiedIdentifier d (sc_ContentTypesTable cfg) = Inr t"
      "quoteIdentifier d (default_name ''content_type_id'' (sc_ContentTypeIDColumn cfg)) = Inr fk"
      "quoteIdentifier d (default_name ''image'' (sc_ContentTypeImageColumn cfg)) = Inr img"
      "quoteIdentifier d ''title'' = Inr ti"
      and "Inr (content_join d t fk, content_select (coalesced ti) (coalesced img)) = (Inr (j, sel) :: string + string \<times> string)"
    then have "j = content_join d t fk" "sel = content_select (coalesced ti) (coalesced img)" by (simp_all only: sum.inject prod.inject)
    moreover have "quoted_table d t" "quoted_ident d fk" "quoted_ident d img" "quoted_ident d ti"
      using quoteQualifiedIdentifier_Inr q(1) quoteIdentifier_Inr q(2-4) by blast+
    ultimately show ?thesis by blast
  qed
qed

lemma images_sql_quoted:
  assumes "images_sql d cfg = Inr s"
  shows "s = [] \<or> (\<exists>t a b c e. quoted_table d t \<and> list_all (quoted_ident d) [a, b, c, e]
     \<and> s = buildShipmentImagesSelect d t a b c e)"
proof (cases "TrimSpace (sc_ShipmentImagesTable cfg) = []")
  case True
  with assms have "s = []" by (simp only: images_sql_def optional_Inr if_True)
  then show ?thesis by blast
next
  case False
  with assms obtain t a b c e where q: "quoteQualifiedIdentifier d (sc_ShipmentImagesTable cfg) = Inr t"
    "quoteIdentifier d (default_name ''shipment_id'' (sc_ShipmentImageShipmentIDColumn cfg)) = Inr a"
    "quoteIdentifier d (default_name ''image'' (sc_ShipmentImageColumn cfg)) = Inr b"
    "quoteIdentifier d ''id'' = Inr c" "quoteIdentifier d ''id'' = Inr e" and s: "s = buildShipmentImagesSelect d t a b c e"
    unfolding images_sql_def optional_Inr check_Inr if_not_P [OF False] sum.inject by metis
  have "list_all (quoted_ident d) [a, b, c, e]" using quoteIdentifier_Inr q(2-5) by simp
  with quoteQualifiedIdentifier_Inr [OF q(1)] s show ?thesis by blast
qed

lemma maybe_quoteIdentifier:
  "optional name (check what (quoteIdentifier d c) Inr) [] = Inr q \<Longrightarrow> maybe (quoted_ident d) q"
  by (auto simp: optional_Inr check_Inr maybe_def split: if_splits dest: quoteIdentifier_Inr)

lemma NewShipmentDB_quoted:
  assumes "NewShipmentDB opened cfg = Inr (Some db)"
  shows "names_quoted db"
proof -
  have ne: "TrimSpace (sc_DSN cfg) \<noteq> []"
  proof
    assume "TrimSpace (sc_DSN cfg) = []"
    with assms show False by (simp add: NewShipmentDB_def)
  qed
  from assms obtain d table l e la lo vt vl vT bt bi bw j sel im idc va vis code stc where
    q: "quoteQualifiedIdentifier d (sc_Table cfg) = Inr table" "location_columns d cfg = Inr (l, e, la, lo)"
      "quoteQualifiedIdentifier d (default_name ''vehicle_types'' (sc_VehicleTypesTable cfg)) = Inr vt"
      "quoteIdentifier d (default_name ''label'' (sc_VehicleTypeLabelColumn cfg)) = Inr vl"
      "quoteIdentifier d (default_name ''title'' (sc_VehicleTypeTitleColumn cfg)) = Inr vT"
      "box_columns d cfg = Inr (bt, bi, bw)" "content_sql d cfg = Inr (j, sel)" "images_sql d cfg = Inr im"
      "quoteIdentifier d ''id'' = Inr idc"
      "optional (sc_VehicleAllowedColumn cfg) (check ''shipment vehicle_allowed column: '' (quoteIdentifier d (sc_VehicleAllowedColumn cfg)) Inr) [] = Inr va"
      "quoteIdentifier d ''visible_on_map'' = Inr vis" "quoteIdentifier d ''shipment_code'' = Inr code"
      "quoteIdentifier d ''shipping_type_id'' = Inr stc"
    and db: "db = \<lparr>sd_dialect = d, sd_table = table, sd_idColumn = idc, sd_vehicleAllowedCol = va,
         sd_visibleOnMapCol = vis, sd_shipmentCodeCol = code, sd_shippingTypeIDCol = stc,
         sd_locationColumn = l, sd_endLocationColumn = e, sd_latColumn = la, sd_lngColumn = lo,
         sd_vehicleBoxSizesTable = bt, sd_vehicleIDColumn = bi, sd_vehicleWeightColumn = bw,
         sd_vehicleTypesTable = vt, sd_vehicleTypeLabelColumn = vl, sd_vehicleTypeTitleColumn = vT,
         sd_contentJoin = j, sd_contentImageSelect = sel, sd_shipmentImagesSelect = im,
         sd_packageDetailSelect = fst (buildNearbyPackageDetailSQL d), sd_packageDetailJoins = snd (buildNearbyPackageDetailSQL d),
         sd_mediaPublicBaseURL = TrimSpace (sc_MediaPublicBaseURL cfg)\<rparr>"
    unfolding NewShipmentDB_def if_not_P [OF ne] check_Inr split_paired_Ex prod.case refused_Inr sum.inject option.inject
    by (elim exE conjE) (rule that; (assumption | rule sym))
  have cols: "quoted_ident d vl" "quoted_ident d vT" "quoted_ident d idc" "quoted_ident d vis" "quoted_ident d code" "quoted_ident d stc"
    using q(4,5,9,11-13) by (blast dest: quoteIdentifier_Inr)+
  have tabs: "quoted_table d table" "quoted_table d vt" using q(1,3) by (blast dest: quoteQualifiedIdentifier_Inr)+
  note parts = location_columns_quoted [OF q(2)] box_columns_quoted [OF q(6)] content_sql_quoted [OF q(7)] images_sql_quoted [OF q(8)]
    maybe_quoteIdentifier [OF q(10)]
  show ?thesis
    unfolding db names_quoted_def Let_def ShipmentDB.simps list_all_iff
    using cols tabs parts(1,2,5) parts(3,4) by (intro conjI) (simp_all only: list.set ball_simps list.pred_inject list_all_iff simp_thms prod.collapse, blast+)
qed

text \<open>
  C38. Only names get into SQL: when the configuration is accepted, every table and column name
  that the queries splice into their text, whichever part of the configuration it came from,
  is a sequence of letters, digits and underscores between quote marks (a table possibly with
  a schema), so no configured name can end a quotation or carry a placeholder.
\<close>

theorem NewShipmentDB_names:
  assumes "NewShipmentDB opened cfg = Inr (Some db)"
  shows "names_quoted db"
  using assms by (rule NewShipmentDB_quoted)

definition example_cfg :: ShipmentDBConfig where
  "example_cfg =
     \<lparr>sc_Driver = ''MySQL'', sc_DSN = ''u:p@tcp(db)/app'', sc_Table = ''app.shipments'', sc_LocationColumn = [], sc_EndLocationColumn = [],
      sc_LatColumn = ''lat'', sc_LngColumn = ''lng'', sc_VehicleAllowedColumn = [], sc_VehicleBoxSizesTable = [],
      sc_VehicleIDColumn = [], sc_VehicleWeightColumn = [], sc_VehicleTypesTable = [], sc_VehicleTypeLabelColumn = [],
      sc_VehicleTypeTitleColumn = [], sc_ContentTypesTable = ''content_types'', sc_ContentTypeIDColumn = [],
      sc_ContentTypeImageColumn = [], sc_ShipmentImagesTable = ''shipment_images'', sc_ShipmentImageShipmentIDColumn = [],
      sc_ShipmentImageColumn = [], sc_MediaPublicBaseURL = ''http://host''\<rparr>"

lemma example_db: "\<exists>db. NewShipmentDB None example_cfg = Inr (Some db) \<and> sd_dialect db = MySQL"
proof -
  have "case NewShipmentDB None example_cfg of Inr (Some db) \<Rightarrow> sd_dialect db = MySQL | _ \<Rightarrow> False" by code_simp
  then show ?thesis by (simp split: sum.splits option.splits)
qed

theorem NewShipmentDB_names_witness:
  "\<exists>db. NewShipmentDB None example_cfg = Inr (Some db) \<and> names_quoted db"
  using example_db NewShipmentDB_names by blast

section \<open>Markers\<close>

lemma ident_no_marker: "identifierPattern i \<Longrightarrow> CHR ''?'' \<notin> set i"
  by (auto simp: identifierPattern_def ident_start_def ident_char_def is_digit_def Let_def list_all_iff split: list.splits)

lemma table_no_marker:
  assumes "quoted_table d s"
  shows "count_list s (CHR ''?'') = 0"
proof -
  have q: "identifierPattern i \<Longrightarrow> CHR ''?'' \<notin> set (quoted d i)" for i
    using ident_no_marker by (auto simp: quoted_def quote_mark_def split: dialect.splits)
  have "list_all identifierPattern names \<Longrightarrow> CHR ''?'' \<notin> set (join_with ''.'' (map (quoted d) names))" for names
  proof (induction names rule: induct_list012)
    case (3 x y zs)
    then show ?case using q by simp
  qed (use q in simp_all)
  with assms show ?thesis by (auto simp: quoted_table_def count_list_0_iff)
qed

lemma quotedTable_fixed:
  "quotedTable d ''trips'' = quoted d ''trips''" "quotedTable d ''shippings'' = quoted d ''shippings''"
  by (cases d; code_simp)+

text \<open>
  Against MySQL the two read access checks cannot run: their text uses a marker twice that
  was added once, which only numbered placeholders allow, so the driver refuses them with an
  error whatever the database holds; the check for owners is fine.
\<close>

theorem mysql_access_refused:
  assumes "NewShipmentDB opened cfg = Inr (Some s)" and "sd_dialect s = MySQL"
  shows "ExistsQuery MySQL (UserCanAccessTrip_sql s userID tripID) answer = Inl ''sql: expected 5 arguments, got 4''
    \<and> ExistsQuery MySQL (UsersShareActiveShipping_sql s viewerID targetID) answer = Inl ''sql: expected 6 arguments, got 4''
    \<and> ExistsQuery MySQL (UserOwnsTrip_sql MySQL userID tripID) answer = answer"
proof -
  have "quoted_table (sd_dialect s) (sd_table s)"
    using NewShipmentDB_quoted [OF assms(1)] unfolding names_quoted_def Let_def by (rule conjunct1)
  then have t: "count_list (sd_table s) (CHR ''?'') = 0" by (rule table_no_marker)
  have numbers: "nat_text (Suc (Suc (Suc (Suc 0)))) = ''4''" "nat_text (Suc (Suc (Suc (Suc (Suc 0))))) = ''5''"
    "nat_text (Suc (Suc (Suc (Suc (Suc (Suc 0)))))) = ''6''" by code_simp+
  note defs = ExistsQuery_def pa_Add_def newPlaceholderArgs_def Let_def assms(2) quotedTable_fixed quoted_def quote_mark_def nl_def t numbers
  show ?thesis
    by (intro conjI) (simp_all add: UserCanAccessTrip_sql_def UsersShareActiveShipping_sql_def UserOwnsTrip_sql_def defs)
qed

theorem mysql_access_refused_witness:
  "\<exists>s. NewShipmentDB None example_cfg = Inr (Some s)
     \<and> ExistsQuery MySQL (UserCanAccessTrip_sql s 7 9) (Inr True) = Inl ''sql: expected 5 arguments, got 4''"
  using example_db mysql_access_refused by blast

section \<open>Media addresses\<close>

definition TrimRight :: "char \<Rightarrow> string \<Rightarrow> string" where
  "TrimRight c s = rev (dropWhile (\<lambda>d. d = c) (rev s))"

definition TrimLeft :: "char \<Rightarrow> string \<Rightarrow> string" where
  "TrimLeft c s = dropWhile (\<lambda>d. d = c) s"

definition TrimPrefix :: "string \<Rightarrow> string \<Rightarrow> string" where
  "TrimPrefix p s = (if has_prefix p s then drop (length p) s else s)"

fun string_Index :: "string \<Rightarrow> string \<Rightarrow> nat option" where
  "string_Index [] sub = (if sub = [] then Some 0 else None)"
| "string_Index (c # s) sub = (if has_prefix sub (c # s) then Some 0 else map_option Suc (string_Index s sub))"

definition absolute_url :: "string \<Rightarrow> bool" where
  "absolute_url path \<longleftrightarrow> has_prefix ''http://'' (ToLower path) \<or> has_prefix ''https://'' (ToLower path) \<or> has_prefix ''data:'' (ToLower path)"

definition ResolvePublicMediaURL :: "string \<Rightarrow> string \<Rightarrow> string" where
  "ResolvePublicMediaURL base path =
     (let path = TrimSpace path in
      if path = [] then []
      else if absolute_url path then path
      else let base = TrimRight (CHR ''/'') (TrimSpace base) in
      if has_prefix ''/'' path then
        if base = [] then path
        else case string_Index base ''://'' of
            None \<Rightarrow> path
          | Some i \<Rightarrow> (case string_Index (drop (i + 3) base) ''/'' of
                          Some slash \<Rightarrow> take (i + 3 + slash) base @ path
                        | None \<Rightarrow> base @ path)
      else if base = [] then path
      else let path = TrimPrefix ''storage/'' (TrimLeft (CHR ''/'') path) in
        if has_suffix ''/storage'' base then base @ ''/'' @ path else base @ ''/storage/'' @ path)"

section \<open>Values of the driver\<close>

text \<open>What a driver scans into \<open>any\<close>; a time carries its text in RFC 3339.\<close>

datatype sql_value = SNull | SBytes string | SText string | STime string | SInt int | SFloat float64 | SBool bool

text \<open>\<open>ParseFloat\<close>, the two ways in which an array is decoded, and printing are parameters.\<close>

record sql_text =
  xt_float :: "string \<Rightarrow> float64 option"
  xt_strings :: "string \<Rightarrow> string list option"
  xt_any :: "string \<Rightarrow> any list option"
  xt_print :: "any \<Rightarrow> string"

definition normalizeJSONStringArray :: "sql_text \<Rightarrow> string \<Rightarrow> string list" where
  "normalizeJSONStringArray x raw =
     (let raw = TrimSpace raw in
      if raw = [] \<or> ToLower raw = ''null'' then []
      else case xt_strings x raw of
        Some values \<Rightarrow> values
      | None \<Rightarrow> (case xt_any x raw of
          None \<Rightarrow> []
        | Some vs \<Rightarrow> filter (\<lambda>s. s \<noteq> []) (map (\<lambda>v. TrimSpace (Sprint (xt_print x) v)) (filter (\<lambda>v. v \<noteq> ANil) vs))))"

definition float_columns :: "string list" where
  "float_columns = [''distance_km'', ''start_lat'', ''start_lng'', ''end_lat'', ''end_lng'', ''package_weight'',
     ''package_height'', ''package_width'', ''package_length'', ''package_value'']"

fun normalizeSQLValue :: "sql_text \<Rightarrow> string \<Rightarrow> sql_value \<Rightarrow> any" where
  "normalizeSQLValue x col SNull = ANil"
| "normalizeSQLValue x col (SBytes s) =
     (if col = ''images'' then AStrings (normalizeJSONStringArray x s)
      else case (if col \<in> set float_columns then xt_float x s else None) of
             Some f \<Rightarrow> AFloat False f
           | None \<Rightarrow> AText s)"
| "normalizeSQLValue x col (SText s) = (if col = ''images'' then AStrings (normalizeJSONStringArray x s) else AText s)"
| "normalizeSQLValue x col (STime s) = AText s"
| "normalizeSQLValue x col (SInt i) = AInt KInt64 i"
| "normalizeSQLValue x col (SFloat f) = AFloat False f"
| "normalizeSQLValue x col (SBool b) = ABool b"

text \<open>A result: the columns, and per row its values or an error; then the error of the iteration.\<close>

type_synonym sql_result = "string list \<times> (string + sql_value list) list \<times> string option"

definition scan_item :: "sql_text \<Rightarrow> string list \<Rightarrow> sql_value list \<Rightarrow> row" where
  "scan_item x columns values = foldl (\<lambda>item (col, v). item(col \<mapsto> normalizeSQLValue x col v)) Map.empty (zip columns values)"

fun scan_items :: "sql_text \<Rightarrow> string list \<Rightarrow> (string + sql_value list) list \<Rightarrow> string + row list" where
  "scan_items x columns [] = Inr []"
| "scan_items x columns (Inl e # rs) = Inl e"
| "scan_items x columns (Inr vs # rs) =
     (case scan_items x columns rs of Inl e \<Rightarrow> Inl e | Inr items \<Rightarrow> Inr (scan_item x columns vs # items))"

definition scanShipmentRows :: "sql_text \<Rightarrow> sql_result \<Rightarrow> string + row list" where
  "scanShipmentRows x r =
     (case r of (columns, rows, err) \<Rightarrow>
        (case scan_items x columns rows of
           Inl e \<Rightarrow> Inl e
         | Inr items \<Rightarrow> (case err of Some e \<Rightarrow> Inl e | None \<Rightarrow> Inr items)))"

text \<open>\<open>ParseInt\<close> with the error ignored: a number out of range gives the nearest, anything else 0.\<close>

definition int_text :: "string \<Rightarrow> int" where
  "int_text s =
     (let (neg, ds) = (case s of c # r \<Rightarrow> if c = CHR ''-'' then (True, r) else if c = CHR ''+'' then (False, r) else (False, s)
                               | [] \<Rightarrow> (False, [])) in
      if ds = [] \<or> \<not> list_all is_digit ds then 0
      else let n = int (text_nat ds) in
           if neg then max (- (2 ^ 63)) (- n) else min (2 ^ 63 - 1) n)"

fun anyToInt64 :: "any \<Rightarrow> int" where
  "anyToInt64 (AInt k n) = (if k = KInt64 \<or> k = KInt32 \<or> k = KInt then n else 0)"
| "anyToInt64 (AFloat narrow x) = (if narrow then 0 else trunc x)"
| "anyToInt64 (ABytes s) = int_text s"
| "anyToInt64 (AText s) = int_text (TrimSpace s)"
| "anyToInt64 _ = 0"

fun anyToFloat64 :: "sql_text \<Rightarrow> any \<Rightarrow> float64" where
  "anyToFloat64 x (AFloat narrow f) = f"
| "anyToFloat64 x (AInt k n) = (if k = KInt64 \<or> k = KInt32 \<or> k = KInt then of_int n else 0)"
| "anyToFloat64 x (ABytes s) = (case xt_float x s of Some f \<Rightarrow> f | None \<Rightarrow> 0)"
| "anyToFloat64 x (AText s) = (case xt_float x s of Some f \<Rightarrow> f | None \<Rightarrow> 0)"
| "anyToFloat64 x _ = 0"

fun anyToString :: "sql_text \<Rightarrow> any \<Rightarrow> string" where
  "anyToString x ANil = []"
| "anyToString x (AText s) = s"
| "anyToString x (ABytes s) = s"
| "anyToString x v = Sprint (xt_print x) v"

definition truth_text :: "string \<Rightarrow> bool" where
  "truth_text s \<longleftrightarrow> TrimSpace (ToLower s) \<in> {''t'', ''true'', ''1''}"

fun anyToBool :: "any \<Rightarrow> bool" where
  "anyToBool (ABool b) = b"
| "anyToBool (AInt k n) = ((k = KInt64 \<or> k = KInt32 \<or> k = KInt) \<and> n \<noteq> 0)"
| "anyToBool (AFloat narrow x) = (\<not> narrow \<and> x \<noteq> 0)"
| "anyToBool (ABytes s) = truth_text s"
| "anyToBool (AText s) = truth_text s"
| "anyToBool _ = False"

definition locationObject :: "sql_text \<Rightarrow> any \<Rightarrow> any \<Rightarrow> any" where
  "locationObject x lat lng =
     AMap [''lat'' \<mapsto> AFloat False (anyToFloat64 x lat), ''lng'' \<mapsto> AFloat False (anyToFloat64 x lng)]"

definition resolve_item :: "sql_text \<Rightarrow> string \<Rightarrow> row \<Rightarrow> row" where
  "resolve_item x base item =
     (let item = (case item ''content_image'' of
                    None \<Rightarrow> item
                  | Some raw \<Rightarrow> item(''content_image'' \<mapsto> AText (ResolvePublicMediaURL base (anyToString x raw)))) in
      case item ''images'' of
        Some (AStrings paths) \<Rightarrow> item(''images'' \<mapsto> AStrings (map (ResolvePublicMediaURL base) paths))
      | _ \<Rightarrow> item)"

definition resolveNearbyMediaURLs :: "sql_text \<Rightarrow> string \<Rightarrow> row list \<Rightarrow> row list" where
  "resolveNearbyMediaURLs x base items = map (resolve_item x base) items"

end

