(* ===== verification/ShipmentDb.thy ===== *)
theory ShipmentDb
  imports ShipmentSql "HOL-Library.Product_Lexorder"
begin

text \<open>
  What the queries of \<open>internal/storage/shipment_repository.go\<close>, \<open>shipping_repository.go\<close>,
  \<open>profile_repository.go\<close>, \<open>trip_repository.go\<close> and \<open>user_vehicle_repository.go\<close> compute, translated
  from their SQL over tables that are lists of rows, for both dialects where they differ.  A column
  that may be \<open>NULL\<close> is an option, a comparison with \<open>NULL\<close> is not true, and labels are compared in
  upper case.  Columns that a query only hands on (also those that subselects and left joins of
  titles add) are functions of the row.  The distance of PostGIS and the clock are parameters, and
  so is a failure of the database.
\<close>

section \<open>Tables\<close>

record trip_row =
  tp_id :: int
  tp_user :: "int option"
  tp_vehicle_type :: "int option"
  tp_end_city :: "int option"
  tp_end_address :: "string option"
  tp_cols :: "string \<Rightarrow> sql_value"

record status_row =
  ss_id :: int
  ss_label :: "string option"
  ss_title :: "string option"

record shipping_row =
  sh_id :: int
  sh_trip :: "int option"
  sh_shipment :: "int option"
  sh_status :: "int option"
  sh_cols :: "string \<Rightarrow> sql_value"

record ask_row =
  sa_trip :: "int option"
  sa_shipment :: "int option"
  sa_status :: "int option"

record shipment_row =
  sm_id :: int
  sm_user :: "int option"
  sm_receiver :: "int option"
  sm_visible :: "bool option"
  sm_status :: "int option"
  sm_release :: "int option"
  sm_location :: "(float64 \<times> float64) option"
  sm_end_location :: "(float64 \<times> float64) option"
  sm_lat :: "float64 option"
  sm_lng :: "float64 option"
  sm_end_city :: "int option"
  sm_end_address :: "string option"
  sm_cols :: "string \<Rightarrow> sql_value"

record profile_row =
  pf_user :: "int option"
  pf_visible :: "bool option"

record city_row =
  cy_id :: int
  cy_title :: "string option"

record vehicle_type_row =
  vr_id :: int
  vr_label :: "string option"
  vr_title :: "string option"
  vr_image :: "string option"

record box_size_row =
  bx_vehicle :: "int option"
  bx_weight :: "float64 option"

record vehicle_row =
  vh_id :: int
  vh_user :: "int option"
  vh_default :: bool
  vh_cols :: "string \<Rightarrow> sql_value"

record laravel_db =
  lv_trips :: "trip_row list"
  lv_shippings :: "shipping_row list"
  lv_shipping_statuses :: "status_row list"
  lv_shipments :: "shipment_row list"
  lv_shipment_statuses :: "status_row list"
  lv_asks :: "ask_row list"
  lv_ask_statuses :: "status_row list"
  lv_profiles :: "profile_row list"
  lv_cities :: "city_row list"
  lv_vehicle_types :: "vehicle_type_row list"
  lv_box_sizes :: "box_size_row list"
  lv_vehicles :: "vehicle_row list"

definition sql_eq :: "'a option \<Rightarrow> 'a option \<Rightarrow> bool" where
  "sql_eq a b \<longleftrightarrow> a \<noteq> None \<and> a = b"

definition sql_ne :: "'a option \<Rightarrow> 'a option \<Rightarrow> bool" where
  "sql_ne a b \<longleftrightarrow> a \<noteq> None \<and> b \<noteq> None \<and> a \<noteq> b"

definition sql_in :: "int option \<Rightarrow> int list \<Rightarrow> bool" where
  "sql_in a ids = (case a of None \<Rightarrow> False | Some i \<Rightarrow> i \<in> set ids)"

definition label_in :: "string option \<Rightarrow> string list \<Rightarrow> bool" where
  "label_in l labels = (case l of None \<Rightarrow> False | Some s \<Rightarrow> ToUpper s \<in> set labels)"

definition label_not_in :: "string option \<Rightarrow> string list \<Rightarrow> bool" where
  "label_not_in l labels = (case l of None \<Rightarrow> False | Some s \<Rightarrow> ToUpper s \<notin> set labels)"

definition left_join :: "('b \<Rightarrow> bool) \<Rightarrow> 'b list \<Rightarrow> 'b option list" where
  "left_join on rows = (let ms = filter on rows in if ms = [] then [None] else map Some ms)"

definition sql_int :: "int option \<Rightarrow> sql_value" where
  "sql_int n = (case n of None \<Rightarrow> SNull | Some i \<Rightarrow> SInt i)"

definition coalesce_text :: "string option \<Rightarrow> sql_value" where
  "coalesce_text s = (case s of None \<Rightarrow> SText [] | Some t \<Rightarrow> SText t)"

definition excludedShippingStatusLabels :: "string list" where
  "excludedShippingStatusLabels = [''CANCELED'', ''CANCELLED'', ''DELIVERED'']"

text \<open>Every operation of the repository first looks whether it is configured, and hands an error of the query on.\<close>

definition with_db :: "ShipmentDB option \<Rightarrow> (ShipmentDB \<Rightarrow> string + 'a) \<Rightarrow> string + 'a" where
  "with_db s k = (case s of None \<Rightarrow> Inl ''shipment db is not configured'' | Some s \<Rightarrow> k s)"

definition query_rows :: "string \<Rightarrow> string option \<Rightarrow> sql_text \<Rightarrow> string list \<Rightarrow> ('r \<Rightarrow> string \<Rightarrow> sql_value) \<Rightarrow> 'r list \<Rightarrow> string + row list" where
  "query_rows what failed x columns val rows =
     (case failed of
        Some e \<Rightarrow> Inl (what @ e)
      | None \<Rightarrow> scanShipmentRows x (columns, map (\<lambda>r. Inr (map (val r) columns)) rows, None))"

section \<open>Who may follow whom\<close>

definition UserOwnsTrip :: "ShipmentDB option \<Rightarrow> string option \<Rightarrow> laravel_db \<Rightarrow> int \<Rightarrow> int \<Rightarrow> string + bool" where
  "UserOwnsTrip s failed db userID tripID =
     with_db s (\<lambda>s. ExistsQuery (sd_dialect s) (UserOwnsTrip_sql (sd_dialect s) userID tripID)
       (case failed of Some e \<Rightarrow> Inl e
        | None \<Rightarrow> Inr (\<exists>t\<in>set (lv_trips db). tp_id t = tripID \<and> sql_eq (tp_user t) (Some userID))))"

definition party_of :: "int \<Rightarrow> shipment_row \<Rightarrow> bool" where
  "party_of userID sp \<longleftrightarrow> sql_eq (sm_user sp) (Some userID) \<or> sql_eq (sm_receiver sp) (Some userID)"

definition on_trip :: "laravel_db \<Rightarrow> int \<Rightarrow> int \<Rightarrow> bool" where
  "on_trip db userID tripID \<longleftrightarrow>
     (\<exists>sh\<in>set (lv_shippings db). \<exists>sp\<in>set (lv_shipments db). sql_eq (Some (sm_id sp)) (sh_shipment sh)
        \<and> sql_eq (sh_trip sh) (Some tripID) \<and> party_of userID sp)"

definition UserCanAccessTrip :: "ShipmentDB option \<Rightarrow> string option \<Rightarrow> laravel_db \<Rightarrow> int \<Rightarrow> int \<Rightarrow> string + bool" where
  "UserCanAccessTrip s failed db userID tripID =
     with_db s (\<lambda>s. ExistsQuery (sd_dialect s) (UserCanAccessTrip_sql s userID tripID)
       (case failed of Some e \<Rightarrow> Inl e
        | None \<Rightarrow> Inr ((\<exists>t\<in>set (lv_trips db). tp_id t = tripID \<and> sql_eq (tp_user t) (Some userID)) \<or> on_trip db userID tripID)))"

text \<open>One user drives a trip that carries a shipment of which the other is sender or receiver.\<close>

definition carries_for :: "laravel_db \<Rightarrow> int \<Rightarrow> int \<Rightarrow> bool" where
  "carries_for db carrier other \<longleftrightarrow>
     (\<exists>sh\<in>set (lv_shippings db). \<exists>t\<in>set (lv_trips db). \<exists>sp\<in>set (lv_shipments db).
        sql_eq (Some (tp_id t)) (sh_trip sh) \<and> sql_eq (Some (sm_id sp)) (sh_shipment sh)
        \<and> sql_eq (tp_user t) (Some carrier) \<and> party_of other sp)"

definition UsersShareActiveShipping :: "ShipmentDB option \<Rightarrow> string option \<Rightarrow> laravel_db \<Rightarrow> int \<Rightarrow> int \<Rightarrow> string + bool" where
  "UsersShareActiveShipping s failed db viewerID targetID =
     with_db s (\<lambda>s.
       if viewerID \<le> 0 \<or> targetID \<le> 0 then Inr False
       else if viewerID = targetID then Inr True
       else ExistsQuery (sd_dialect s) (UsersShareActiveShipping_sql s viewerID targetID)
         (case failed of Some e \<Rightarrow> Inl e
          | None \<Rightarrow> Inr (carries_for db targetID viewerID \<or> carries_for db viewerID targetID)))"

section \<open>The latest of each group\<close>

text \<open>\<open>SELECT DISTINCT ON (key)\<close>: the first row of each key.\<close>

fun distinct_on :: "('r \<Rightarrow> int) \<Rightarrow> 'r list \<Rightarrow> 'r list" where
  "distinct_on key [] = []"
| "distinct_on key (r # rs) = r # filter (\<lambda>q. key q \<noteq> key r) (distinct_on key rs)"

text \<open>
  Postgres sorts by the key and then by the id, downwards, and takes the first row of each key; for
  MySQL the id is compared with the greatest id that a second select finds for the key.
\<close>

definition latest :: "dialect \<Rightarrow> ('r \<Rightarrow> int) \<Rightarrow> ('r \<Rightarrow> int) \<Rightarrow> (int \<Rightarrow> int list) \<Rightarrow> 'r list \<Rightarrow> 'r list" where
  "latest d key num ids_of rows =
     (case d of
        Postgres \<Rightarrow> distinct_on key (sort_key (\<lambda>r. (key r, - num r)) rows)
      | MySQL \<Rightarrow> filter (\<lambda>r. ids_of (key r) \<noteq> [] \<and> num r = Max (set (ids_of (key r)))) rows)"

section \<open>The active shipping of a shipment\<close>

text \<open>A shipping with its status (\<open>JOIN\<close>), of those that are not over; and with its trip.\<close>

definition active_statuses :: "laravel_db \<Rightarrow> (shipping_row \<times> status_row) list" where
  "active_statuses db =
     [(sh, ss). sh \<leftarrow> lv_shippings db, ss \<leftarrow> lv_shipping_statuses db, sql_eq (Some (ss_id ss)) (sh_status sh),
                label_not_in (ss_label ss) excludedShippingStatusLabels]"

type_synonym active_row = "shipping_row \<times> status_row \<times> trip_row"

definition active_shippings :: "laravel_db \<Rightarrow> active_row list" where
  "active_shippings db =
     [(sh, ss, t). (sh, ss) \<leftarrow> active_statuses db, t \<leftarrow> lv_trips db, sql_eq (Some (tp_id t)) (sh_trip sh)]"

definition plain_columns :: "string list" where
  "plain_columns = [''shipping_code'', ''payment_type'', ''currency'', ''absolute_amount'', ''suggested_amount'', ''insurance_amount'',
     ''commission_amount'', ''tax_amount'', ''commission_percent'', ''insurance_percent'', ''tax_percent'', ''last_status_description'']"

definition shipping_columns :: "string list" where
  "shipping_columns = [''id'', ''trip_id'', ''shipment_id'', ''passenger_user_id'', ''last_status_id'', ''last_status_title'', ''last_status_label'']
     @ plain_columns"

definition shipping_value :: "active_row \<Rightarrow> string \<Rightarrow> sql_value" where
  "shipping_value r col =
     (case r of (sh, ss, t) \<Rightarrow>
        if col = ''id'' then SInt (sh_id sh) else if col = ''trip_id'' then sql_int (sh_trip sh)
        else if col = ''shipment_id'' then sql_int (sh_shipment sh) else if col = ''passenger_user_id'' then sql_int (tp_user t)
        else if col = ''last_status_id'' then sql_int (sh_status sh) else if col = ''last_status_title'' then coalesce_text (ss_title ss)
        else if col = ''last_status_label'' then coalesce_text (ss_label ss) else sh_cols sh col)"

definition shipping_key :: "active_row \<Rightarrow> int" where
  "shipping_key r = (case r of (sh, ss, t) \<Rightarrow> the (sh_shipment sh))"

definition shipping_num :: "active_row \<Rightarrow> int" where
  "shipping_num r = (case r of (sh, ss, t) \<Rightarrow> sh_id sh)"

definition latest_shippings :: "dialect \<Rightarrow> laravel_db \<Rightarrow> int list \<Rightarrow> active_row list" where
  "latest_shippings d db ids =
     latest d shipping_key shipping_num
       (\<lambda>i. [sh_id sh. (sh, ss) \<leftarrow> active_statuses db, sql_eq (sh_shipment sh) (Some i)])
       (filter (\<lambda>(sh, ss, t). sql_in (sh_shipment sh) ids) (active_shippings db))"

text \<open>The items, each under the id its column holds.\<close>

definition by_id :: "string \<Rightarrow> row list \<Rightarrow> int \<Rightarrow> row option" where
  "by_id col items = foldl (\<lambda>out item. let i = anyToInt64 (column item col) in if i \<le> 0 then out else out(i \<mapsto> item)) Map.empty items"

definition LoadShippingsByShipmentIDs ::
  "sql_text \<Rightarrow> ShipmentDB option \<Rightarrow> string option \<Rightarrow> laravel_db \<Rightarrow> int list \<Rightarrow> string + (int \<Rightarrow> row option)" where
  "LoadShippingsByShipmentIDs x s failed db ids =
     with_db s (\<lambda>s.
       if ids = [] then Inr Map.empty
       else case query_rows ''shippings by shipment_ids: '' failed x shipping_columns shipping_value (latest_shippings (sd_dialect s) db ids) of
         Inl e \<Rightarrow> Inl e
       | Inr items \<Rightarrow> Inr (by_id ''shipment_id'' items))"

section \<open>Both dialects find the latest\<close>

text \<open>What the tables promise: primary keys, and that a shipping has a trip and a trip a user.\<close>

definition keys_ok :: "laravel_db \<Rightarrow> bool" where
  "keys_ok db \<longleftrightarrow> distinct (map sh_id (lv_shippings db)) \<and> distinct (map ss_id (lv_shipping_statuses db))
     \<and> distinct (map tp_id (lv_trips db)) \<and> distinct (map sm_id (lv_shipments db))
     \<and> (\<forall>sh\<in>set (lv_shippings db). \<exists>t\<in>set (lv_trips db). sh_trip sh = Some (tp_id t))
     \<and> (\<forall>t\<in>set (lv_trips db). tp_user t \<noteq> None)"

lemma distinct_on_sub: "set (distinct_on key rows) \<subseteq> set rows"
  by (induction rows) auto

lemma distinct_on_keys: "key ` set (distinct_on key rows) = key ` set rows"
proof (induction rows)
  case (Cons a rows)
  have "key ` {q \<in> S. key q \<noteq> key a} = key ` S - {key a}" for S by auto
  with Cons show ?case by auto
qed simp

lemma distinct_on_inj: "distinct (map key (distinct_on key rows))"
  by (induction rows) (auto simp: distinct_map inj_on_def)

lemma distinct_on_first:
  "sorted_wrt R rows \<Longrightarrow> r \<in> set (distinct_on key rows) \<Longrightarrow> q \<in> set rows \<Longrightarrow> key q = key r \<Longrightarrow> q = r \<or> R r q"
proof (induction rows)
  case (Cons a rows)
  then show ?case using distinct_on_sub [of key rows] by (cases "r = a") auto
qed simp

text \<open>The rows that no row of their key exceeds.\<close>

definition greatest :: "('r \<Rightarrow> int) \<Rightarrow> ('r \<Rightarrow> int) \<Rightarrow> 'r list \<Rightarrow> 'r set" where
  "greatest key num rows = {r \<in> set rows. \<forall>q\<in>set rows. key q = key r \<longrightarrow> num q \<le> num r}"

lemma latest_greatest:
  assumes "inj_on num (set rows)"
    and "\<And>r. r \<in> set rows \<Longrightarrow> set (ids_of (key r)) = num ` {q \<in> set rows. key q = key r}"
  shows "set (latest d key num ids_of rows) = greatest key num rows"
proof (cases d)
  case MySQL
  have "ids_of (key r) \<noteq> [] \<and> num r = Max (set (ids_of (key r))) \<longleftrightarrow> (\<forall>q\<in>set rows. key q = key r \<longrightarrow> num q \<le> num r)"
    if r: "r \<in> set rows" for r
  proof -
    have m: "num r \<in> set (ids_of (key r))" using assms(2) [OF r] r by auto
    then have "ids_of (key r) \<noteq> []" by auto
    moreover have "num r = Max (set (ids_of (key r))) \<longleftrightarrow> (\<forall>n\<in>set (ids_of (key r)). n \<le> num r)"
      using m by (metis List.finite_set Max_eqI Max_ge)
    ultimately show ?thesis using assms(2) [OF r] by auto
  qed
  then show ?thesis by (auto simp: MySQL latest_def greatest_def)
next
  case Postgres
  let ?f = "\<lambda>r. (key r, - num r)"
  let ?rows = "sort_key ?f rows"
  have sorted: "sorted_wrt (\<lambda>r q. ?f r \<le> ?f q) ?rows"
    using sorted_sort_key [of ?f rows] by (simp add: sorted_map)
  have l: "latest d key num ids_of rows = distinct_on key ?rows" by (simp add: Postgres latest_def)
  have g: "num q \<le> num r" if "r \<in> set (distinct_on key ?rows)" "q \<in> set rows" "key q = key r" for r q
    using distinct_on_first [OF sorted that(1), of q] that(2,3) by auto
  show ?thesis unfolding l
  proof (intro set_eqI iffI)
    fix r assume r: "r \<in> set (distinct_on key ?rows)"
    then have "r \<in> set rows" using distinct_on_sub [of key ?rows] by auto
    with g [OF r] show "r \<in> greatest key num rows" by (simp add: greatest_def)
  next
    fix r assume r: "r \<in> greatest key num rows"
    then have "key r \<in> key ` set (distinct_on key ?rows)" unfolding distinct_on_keys by (auto simp: greatest_def)
    then obtain q where q: "q \<in> set (distinct_on key ?rows)" "key q = key r" by auto
    then have qr: "q \<in> set rows" using distinct_on_sub [of key ?rows] by auto
    have "num q = num r" using g [OF q(1), of r] r q(2) qr by (auto simp: greatest_def intro: antisym)
    with assms(1) qr r have "q = r" by (auto simp: greatest_def dest: inj_onD)
    with q show "r \<in> set (distinct_on key ?rows)" by simp
  qed
qed

lemma greatest_unique:
  assumes "inj_on num (set rows)" "r \<in> greatest key num rows" "q \<in> greatest key num rows" "key q = key r"
  shows "q = r"
proof -
  have "num q \<le> num r" "num r \<le> num q" "q \<in> set rows" "r \<in> set rows" using assms(2-4) by (auto simp: greatest_def)
  with assms(1) show ?thesis by (auto dest: inj_onD)
qed

lemma greatest_ex:
  assumes "r \<in> set rows"
  obtains q where "q \<in> greatest key num rows" "key q = key r"
proof -
  let ?S = "num ` {q \<in> set rows. key q = key r}"
  have fin: "finite ?S" and ne: "?S \<noteq> {}" using assms by auto
  from Max_in [OF fin ne] obtain q where q: "q \<in> set rows" "key q = key r" "num q = Max ?S" by auto
  then have "q \<in> greatest key num rows" using fin by (auto simp: greatest_def)
  from this q(2) show ?thesis by (rule that)
qed

lemma active_statuses_set:
  "(sh, ss) \<in> set (active_statuses db) \<longleftrightarrow> sh \<in> set (lv_shippings db) \<and> ss \<in> set (lv_shipping_statuses db)
     \<and> sh_status sh = Some (ss_id ss) \<and> label_not_in (ss_label ss) excludedShippingStatusLabels"
  by (auto simp: active_statuses_def sql_eq_def)

lemma active_shippings_set:
  "(sh, ss, t) \<in> set (active_shippings db) \<longleftrightarrow> (sh, ss) \<in> set (active_statuses db) \<and> t \<in> set (lv_trips db) \<and> sh_trip sh = Some (tp_id t)"
  by (force simp: active_shippings_def sql_eq_def)

lemma distinct_map_eq: "distinct (map f xs) \<Longrightarrow> x \<in> set xs \<Longrightarrow> y \<in> set xs \<Longrightarrow> f x = f y \<Longrightarrow> x = y"
  by (simp add: distinct_map inj_on_def)

lemma active_num_inj:
  assumes "keys_ok db"
  shows "inj_on shipping_num (set (active_shippings db))"
proof (rule inj_onI)
  fix p q assume p: "p \<in> set (active_shippings db)" and q: "q \<in> set (active_shippings db)" and n: "shipping_num p = shipping_num q"
  obtain sh ss t sh' ss' t' where e: "p = (sh, ss, t)" "q = (sh', ss', t')" by (metis prod_cases3)
  note k = assms [unfolded keys_ok_def] and s = p [unfolded e active_shippings_set active_statuses_set]
    q [unfolded e active_shippings_set active_statuses_set]
  have "sh = sh'" using k s n by (auto simp: e shipping_num_def intro: distinct_map_eq)
  moreover from this have "ss = ss'" "t = t'" using k s by (auto intro: distinct_map_eq)
  ultimately show "p = q" by (simp add: e)
qed

text \<open>The rows that \<open>ids\<close> asks for, and the one with the greatest id for a shipment.\<close>

definition asked :: "laravel_db \<Rightarrow> int list \<Rightarrow> active_row list" where
  "asked db ids = filter (\<lambda>(sh, ss, t). sql_in (sh_shipment sh) ids) (active_shippings db)"

lemma asked_set: "(sh, ss, t) \<in> set (asked db ids) \<longleftrightarrow> (sh, ss, t) \<in> set (active_shippings db) \<and> (\<exists>i\<in>set ids. sh_shipment sh = Some i)"
  by (auto simp: asked_def sql_in_def split: option.splits)

lemma latest_shippings_greatest:
  assumes "keys_ok db"
  shows "set (latest_shippings d db ids) = greatest shipping_key shipping_num (asked db ids)"
  unfolding latest_shippings_def asked_def [symmetric]
proof (rule latest_greatest)
  show "inj_on shipping_num (set (asked db ids))"
    using active_num_inj [OF assms] by (rule inj_on_subset) (auto simp: asked_def)
next
  fix r assume r: "r \<in> set (asked db ids)"
  then obtain sh ss t i where e: "r = (sh, ss, t)" "sh_shipment sh = Some i" "i \<in> set ids"
    by (metis asked_set prod_cases3)
  then have k: "shipping_key r = i" by (simp add: shipping_key_def)
  show "set [sh_id sh. (sh, ss) \<leftarrow> active_statuses db, sql_eq (sh_shipment sh) (Some (shipping_key r))]
      = shipping_num ` {q \<in> set (asked db ids). shipping_key q = shipping_key r}" (is "?L = ?R")
  proof (intro set_eqI iffI)
    fix n assume "n \<in> ?L"
    then obtain sh' ss' where a: "(sh', ss') \<in> set (active_statuses db)" "sh_shipment sh' = Some i" "n = sh_id sh'"
      by (auto simp: k sql_eq_def)
    obtain t' where "t' \<in> set (lv_trips db)" "sh_trip sh' = Some (tp_id t')"
      using assms a(1) by (auto simp: keys_ok_def active_statuses_set)
    with a e have "(sh', ss', t') \<in> set (asked db ids)" by (auto simp: asked_set active_shippings_set)
    moreover have "shipping_num (sh', ss', t') = n" "shipping_key (sh', ss', t') = shipping_key r"
      using a k by (simp_all add: shipping_num_def shipping_key_def [of "(sh', ss', t')"])
    ultimately show "n \<in> ?R" by blast
  next
    fix n assume "n \<in> ?R"
    then obtain sh' ss' t' where "(sh', ss', t') \<in> set (asked db ids)" "the (sh_shipment sh') = i" "n = sh_id sh'"
      unfolding k by (auto simp: shipping_num_def shipping_key_def)
    then show "n \<in> ?L" by (force simp: k asked_set active_shippings_set sql_eq_def)
  qed
qed

text \<open>An item has the columns of its row.\<close>

lemma scan_item_cols:
  "scan_item x cols (map f cols) = (\<lambda>k. if k \<in> set cols then Some (normalizeSQLValue x k (f k)) else None)"
proof -
  have "foldl (\<lambda>item (col, v). item(col \<mapsto> normalizeSQLValue x col v)) m (zip cols (map f cols))
      = (\<lambda>k. if k \<in> set cols then Some (normalizeSQLValue x k (f k)) else m k)" for m
    by (induction cols arbitrary: m) (auto simp: fun_eq_iff)
  then show ?thesis by (simp add: scan_item_def fun_eq_iff)
qed

definition item_of :: "sql_text \<Rightarrow> string list \<Rightarrow> (string \<Rightarrow> sql_value) \<Rightarrow> row" where
  "item_of x cols f = (\<lambda>k. if k \<in> set cols then Some (normalizeSQLValue x k (f k)) else None)"

lemma query_rows_ok: "query_rows what None x cols val rows = Inr (map (\<lambda>r. item_of x cols (val r)) rows)"
proof -
  have "scan_items x cols (map (\<lambda>r. Inr (map (val r) cols)) rows) = Inr (map (\<lambda>r. item_of x cols (val r)) rows)"
    by (induction rows) (auto simp: scan_item_cols item_of_def)
  then show ?thesis by (simp add: query_rows_def scanShipmentRows_def)
qed

lemma by_id_spec:
  assumes "\<And>p q. p \<in> set items \<Longrightarrow> q \<in> set items \<Longrightarrow> anyToInt64 (column p col) = anyToInt64 (column q col) \<Longrightarrow> p = q"
  shows "by_id col items i = Some r \<longleftrightarrow> 0 < i \<and> r \<in> set items \<and> anyToInt64 (column r col) = i"
proof -
  let ?g = "\<lambda>out item. let i = anyToInt64 (column item col) in if i \<le> 0 then out else out(i \<mapsto> item)"
  have "(\<forall>p\<in>set items. \<forall>q\<in>set items. anyToInt64 (column p col) = anyToInt64 (column q col) \<longrightarrow> p = q)
     \<Longrightarrow> foldl ?g Map.empty items i = Some r \<longleftrightarrow> 0 < i \<and> r \<in> set items \<and> anyToInt64 (column r col) = i"
  proof (induction items rule: rev_induct)
    case (snoc y ys)
    then have IH: "foldl ?g Map.empty ys i = Some r \<longleftrightarrow> 0 < i \<and> r \<in> set ys \<and> anyToInt64 (column r col) = i" by auto
    show ?case using IH snoc.prems by (auto simp: Let_def)
  qed simp
  then show ?thesis unfolding by_id_def using assms by blast
qed

definition is_latest :: "laravel_db \<Rightarrow> int \<Rightarrow> active_row \<Rightarrow> bool" where
  "is_latest db i r \<longleftrightarrow> sh_shipment (fst r) = Some i
     \<and> (\<forall>q\<in>set (active_shippings db). sh_shipment (fst q) = Some i \<longrightarrow> sh_id (fst q) \<le> sh_id (fst r))"

definition active_item :: "sql_text \<Rightarrow> laravel_db \<Rightarrow> int \<Rightarrow> row option" where
  "active_item x db i =
     (if i \<le> 0 then None
      else map_option (\<lambda>r. item_of x shipping_columns (shipping_value r)) (find (is_latest db i) (active_shippings db)))"

lemma greatest_latest:
  assumes "i \<in> set ids"
  shows "r \<in> greatest shipping_key shipping_num (asked db ids) \<and> shipping_key r = i
    \<longleftrightarrow> r \<in> set (active_shippings db) \<and> is_latest db i r"
proof -
  have a: "q \<in> set (asked db ids) \<and> shipping_key q = i \<longleftrightarrow> q \<in> set (active_shippings db) \<and> sh_shipment (fst q) = Some i" for q
    using assms by (cases q) (auto simp: asked_set shipping_key_def)
  have n: "shipping_num q = sh_id (fst q)" for q by (cases q) (simp add: shipping_num_def)
  show ?thesis unfolding greatest_def is_latest_def n mem_Collect_eq using a by metis
qed

lemma shipment_id_item:
  "r \<in> set (asked db ids) \<Longrightarrow> anyToInt64 (column (item_of x shipping_columns (shipping_value r)) ''shipment_id'') = shipping_key r"
  by (cases r) (auto simp: asked_set item_of_def column_def shipping_columns_def shipping_value_def sql_int_def shipping_key_def)

lemma LoadShippings_answers:
  assumes "keys_ok db"
  shows "answers (LoadShippingsByShipmentIDs x (Some s) None db) (active_item x db)"
  unfolding answers_def
proof (intro allI)
  fix ids
  show "LoadShippingsByShipmentIDs x (Some s) None db ids = Inr (\<lambda>i. if i \<in> set ids then active_item x db i else None)"
  proof (cases "ids = []")
    case False
    let ?item = "\<lambda>r. item_of x shipping_columns (shipping_value r)"
    let ?rows = "latest_shippings (sd_dialect s) db ids"
    let ?G = "greatest shipping_key shipping_num (asked db ids)"
    note G = latest_shippings_greatest [OF assms, of "sd_dialect s" ids]
    have sub: "?G \<subseteq> set (asked db ids)" by (auto simp: greatest_def)
    have inj: "inj_on shipping_num (set (asked db ids))"
      using active_num_inj [OF assms] by (rule inj_on_subset) (auto simp: asked_def)
    have key: "r \<in> ?G \<Longrightarrow> anyToInt64 (column (?item r) ''shipment_id'') = shipping_key r" for r
      using shipment_id_item sub by blast
    have found: "by_id ''shipment_id'' (map ?item ?rows) i = Some y \<longleftrightarrow> 0 < i \<and> (\<exists>r\<in>?G. y = ?item r \<and> shipping_key r = i)" for i y
    proof (subst by_id_spec)
      show "p = q" if pq: "p \<in> set (map ?item ?rows)" "q \<in> set (map ?item ?rows)"
          "anyToInt64 (column p ''shipment_id'') = anyToInt64 (column q ''shipment_id'')" for p q
      proof -
        obtain r r' where r: "r \<in> ?G" "p = ?item r" "r' \<in> ?G" "q = ?item r'" using pq(1,2) G by auto
        with pq(3) key have "shipping_key r' = shipping_key r" by metis
        with greatest_unique [OF inj r(1,3)] r(2,4) show ?thesis by simp
      qed
      show "0 < i \<and> y \<in> set (map ?item ?rows) \<and> anyToInt64 (column y ''shipment_id'') = i
          \<longleftrightarrow> 0 < i \<and> (\<exists>r\<in>?G. y = ?item r \<and> shipping_key r = i)"
        unfolding list.set_map G using key by auto
    qed
    have act: "active_item x db i = Some y \<longleftrightarrow> 0 < i \<and> (\<exists>r\<in>?G. y = ?item r \<and> shipping_key r = i)" if i: "i \<in> set ids" for i y
    proof -
      have f: "find (is_latest db i) (active_shippings db) = Some r \<longleftrightarrow> r \<in> set (active_shippings db) \<and> is_latest db i r" for r
      proof
        assume "find (is_latest db i) (active_shippings db) = Some r"
        then show "r \<in> set (active_shippings db) \<and> is_latest db i r" by (auto simp: find_Some_iff)
      next
        assume r: "r \<in> set (active_shippings db) \<and> is_latest db i r"
        then obtain q where q: "find (is_latest db i) (active_shippings db) = Some q"
          unfolding find_None_iff not_None_eq [symmetric] by (metis find_None_iff not_None_eq)
        then have "q \<in> set (active_shippings db) \<and> is_latest db i q" by (auto simp: find_Some_iff)
        with r greatest_latest [OF i] greatest_unique [OF inj] have "q = r" by metis
        with q show "find (is_latest db i) (active_shippings db) = Some r" by simp
      qed
      have "active_item x db i = Some y \<longleftrightarrow> 0 < i \<and> (\<exists>r. find (is_latest db i) (active_shippings db) = Some r \<and> y = ?item r)"
        unfolding active_item_def map_option_eq_Some by auto
      then show ?thesis unfolding f greatest_latest [OF i, symmetric] by blast
    qed
    have out: "by_id ''shipment_id'' (map ?item ?rows) i = None" if "i \<notin> set ids" for i
    proof (rule ccontr)
      assume "by_id ''shipment_id'' (map ?item ?rows) i \<noteq> None"
      then obtain r where "r \<in> set (asked db ids)" "shipping_key r = i" using found sub by blast
      with that show False by (cases r) (auto simp: asked_set shipping_key_def)
    qed
    have "by_id ''shipment_id'' (map ?item ?rows) = (\<lambda>i. if i \<in> set ids then active_item x db i else None)"
    proof
      fix i show "by_id ''shipment_id'' (map ?item ?rows) i = (if i \<in> set ids then active_item x db i else None)"
        using found [of i] act [of i] out [of i] by (cases "i \<in> set ids") (simp_all, metis option.exhaust)
    qed
    with False show ?thesis by (simp add: LoadShippingsByShipmentIDs_def with_db_def query_rows_ok)
  qed (simp add: LoadShippingsByShipmentIDs_def with_db_def)
qed

section \<open>Shipments near a passenger\<close>

text \<open>The clock of the database and the distance of PostGIS between two points, in metres.\<close>

record nearby_env =
  ne_now :: int
  ne_distance :: "float64 \<Rightarrow> float64 \<Rightarrow> float64 \<Rightarrow> float64 \<Rightarrow> float64"

definition eligible_labels :: "string list" where
  "eligible_labels = [''ACCEPTED'', ''SHIPPING_ASK_PENDING'', ''SHIPPING_PENDING_PAYMENT'', ''SHIPPING_WAITING'',
     ''SHIPPING_PICKEDUP'', ''SHIPPING_MOVING'']"

definition map_eligible :: "laravel_db \<Rightarrow> shipment_row \<Rightarrow> bool" where
  "map_eligible db sp \<longleftrightarrow>
     (\<exists>nss\<in>set (lv_shipment_statuses db). sql_eq (Some (ss_id nss)) (sm_status sp) \<and> label_in (ss_label nss) eligible_labels)"

definition own_shipping :: "laravel_db \<Rightarrow> int \<Rightarrow> shipment_row \<Rightarrow> bool" where
  "own_shipping db passenger sp \<longleftrightarrow>
     (\<exists>(osh, oss, ot)\<in>set (active_shippings db). sql_eq (sh_shipment osh) (Some (sm_id sp)) \<and> sql_eq (tp_user ot) (Some passenger))"

definition nearbyStatusEligibilityFilter :: "laravel_db \<Rightarrow> int \<Rightarrow> shipment_row \<Rightarrow> bool" where
  "nearbyStatusEligibilityFilter db passenger sp =
     (if passenger \<le> 0 then map_eligible db sp else map_eligible db sp \<or> own_shipping db passenger sp)"

definition passengerFilter :: "int \<Rightarrow> trip_row \<Rightarrow> bool" where
  "passengerFilter passenger t \<longleftrightarrow> passenger \<le> 0 \<or> sql_ne (tp_user t) (Some passenger)"

definition activeShippingExists :: "laravel_db \<Rightarrow> int \<Rightarrow> shipment_row \<Rightarrow> bool" where
  "activeShippingExists db passenger sp \<longleftrightarrow>
     (\<exists>(sh, ss, t)\<in>set (active_shippings db). sql_eq (sh_shipment sh) (Some (sm_id sp)) \<and> passengerFilter passenger t)"

definition acceptedShippingAskExists :: "laravel_db \<Rightarrow> int \<Rightarrow> shipment_row \<Rightarrow> bool" where
  "acceptedShippingAskExists db passenger sp \<longleftrightarrow>
     (\<exists>sa\<in>set (lv_asks db). \<exists>sas\<in>set (lv_ask_statuses db). \<exists>t\<in>set (lv_trips db).
        sql_eq (Some (ss_id sas)) (sa_status sa) \<and> sql_eq (Some (tp_id t)) (sa_trip sa)
        \<and> sql_eq (sa_shipment sa) (Some (sm_id sp)) \<and> label_in (ss_label sas) [''ACCEPTED''] \<and> passengerFilter passenger t)"

definition nearbyOwnCreatedExcludeFilter :: "int \<Rightarrow> shipment_row \<Rightarrow> bool" where
  "nearbyOwnCreatedExcludeFilter passenger sp \<longleftrightarrow> passenger \<le> 0 \<or> sql_ne (sm_user sp) (Some passenger)"

definition nearbyMapExcludeFilters :: "laravel_db \<Rightarrow> int \<Rightarrow> shipment_row \<Rightarrow> bool" where
  "nearbyMapExcludeFilters db passenger sp \<longleftrightarrow>
     \<not> activeShippingExists db passenger sp \<and> \<not> acceptedShippingAskExists db passenger sp
     \<and> nearbyOwnCreatedExcludeFilter passenger sp"

definition nearbyMapVisibilityFilter :: "shipment_row \<Rightarrow> bool" where
  "nearbyMapVisibilityFilter sp \<longleftrightarrow> sm_visible sp = Some True"

definition nearbyReleaseTimeFilter :: "int \<Rightarrow> shipment_row \<Rightarrow> bool" where
  "nearbyReleaseTimeFilter now sp = (case sm_release sp of None \<Rightarrow> True | Some t \<Rightarrow> t \<le> now)"

definition nearby_filters :: "nearby_env \<Rightarrow> laravel_db \<Rightarrow> int \<Rightarrow> shipment_row \<Rightarrow> bool" where
  "nearby_filters env db passenger sp \<longleftrightarrow> nearbyStatusEligibilityFilter db passenger sp \<and> nearbyMapVisibilityFilter sp
     \<and> nearbyMapExcludeFilters db passenger sp \<and> nearbyReleaseTimeFilter (ne_now env) sp"

text \<open>A row found: the shipment, where it starts, and how far that is in kilometres.\<close>

type_synonym nearby_row = "shipment_row \<times> float64 \<times> float64 \<times> float64"

definition distance_km :: "nearby_row \<Rightarrow> float64" where
  "distance_km r = (case r of (sp, la, lo, d) \<Rightarrow> d)"

definition nearest_first :: "int \<Rightarrow> nearby_row list \<Rightarrow> nearby_row list" where
  "nearest_first limit rows = take (nat limit) (sort_key distance_km rows)"

definition postgis_row :: "nearby_env \<Rightarrow> float64 \<Rightarrow> float64 \<Rightarrow> float64 \<Rightarrow> shipment_row \<Rightarrow> nearby_row option" where
  "postgis_row env lat lng radiusKm sp =
     (case sm_location sp of
        None \<Rightarrow> None
      | Some (la, lo) \<Rightarrow>
          if ne_distance env la lo lat lng \<le> radiusKm * 1000 then Some (sp, la, lo, ne_distance env la lo lat lng / 1000) else None)"

definition buildNearbyQueryPostGIS ::
  "nearby_env \<Rightarrow> laravel_db \<Rightarrow> float64 \<Rightarrow> float64 \<Rightarrow> float64 \<Rightarrow> int \<Rightarrow> int \<Rightarrow> nearby_row list" where
  "buildNearbyQueryPostGIS env db lat lng radiusKm limit passenger =
     nearest_first limit (List.map_filter (postgis_row env lat lng radiusKm) (filter (nearby_filters env db passenger) (lv_shipments db)))"

definition shipmentEarthRadiusKm :: float64 where "shipmentEarthRadiusKm = 6371"

definition sql_radians :: "float64 \<Rightarrow> float64" where
  "sql_radians x = x * pi / 180"

definition distanceExpr :: "float64 \<Rightarrow> float64 \<Rightarrow> float64 \<Rightarrow> float64 \<Rightarrow> float64" where
  "distanceExpr la lo lat lng =
     shipmentEarthRadiusKm * 2 * arcsin (min 1 (sqrt ((sin (sql_radians ((la - lat) / 2)))\<^sup>2
       + cos (sql_radians lat) * cos (sql_radians la) * (sin (sql_radians ((lo - lng) / 2)))\<^sup>2)))"

definition shipmentBoundingBox :: "float64 \<Rightarrow> float64 \<Rightarrow> float64 \<Rightarrow> float64 \<times> float64 \<times> float64 \<times> float64" where
  "shipmentBoundingBox lat lng radiusKm =
     (let latDelta = radiusKm / 111.32; cosLat = cos (lat * pi / 180);
          lngDelta = (if \<bar>cosLat\<bar> > 0.000001 then radiusKm / (111.32 * \<bar>cosLat\<bar>) else 180)
      in (max (- 90) (lat - latDelta), min 90 (lat + latDelta), max (- 180) (lng - lngDelta), min 180 (lng + lngDelta)))"

definition in_box :: "float64 \<times> float64 \<times> float64 \<times> float64 \<Rightarrow> float64 \<Rightarrow> float64 \<Rightarrow> bool" where
  "in_box b la lo = (case b of (minLat, maxLat, minLng, maxLng) \<Rightarrow> minLat \<le> la \<and> la \<le> maxLat \<and> minLng \<le> lo \<and> lo \<le> maxLng)"

definition haversine_row :: "float64 \<Rightarrow> float64 \<Rightarrow> float64 \<Rightarrow> shipment_row \<Rightarrow> nearby_row option" where
  "haversine_row lat lng radiusKm sp =
     (case (sm_lat sp, sm_lng sp) of
        (Some la, Some lo) \<Rightarrow>
          if in_box (shipmentBoundingBox lat lng radiusKm) la lo \<and> distanceExpr la lo lat lng \<le> radiusKm
          then Some (sp, la, lo, distanceExpr la lo lat lng) else None
      | _ \<Rightarrow> None)"

definition buildNearbyQueryHaversine ::
  "nearby_env \<Rightarrow> laravel_db \<Rightarrow> float64 \<Rightarrow> float64 \<Rightarrow> float64 \<Rightarrow> int \<Rightarrow> int \<Rightarrow> nearby_row list" where
  "buildNearbyQueryHaversine env db lat lng radiusKm limit passenger =
     nearest_first limit (List.map_filter (haversine_row lat lng radiusKm) (filter (nearby_filters env db passenger) (lv_shipments db)))"

definition buildNearbyQuery ::
  "ShipmentDB \<Rightarrow> nearby_env \<Rightarrow> laravel_db \<Rightarrow> float64 \<Rightarrow> float64 \<Rightarrow> float64 \<Rightarrow> int \<Rightarrow> int \<Rightarrow> nearby_row list" where
  "buildNearbyQuery s env db lat lng radiusKm limit passenger =
     (if sd_locationColumn s \<noteq> [] then buildNearbyQueryPostGIS env db lat lng radiusKm limit passenger
      else buildNearbyQueryHaversine env db lat lng radiusKm limit passenger)"

definition detail_columns :: "string list" where
  "detail_columns = [''content_type_id'', ''package_type_id'', ''package_type_title'', ''shipping_type_title'', ''shipping_priority_id'',
     ''shipping_priority_title'', ''shipping_priority_label'', ''package_weight'', ''package_height'', ''package_width'', ''package_length'',
     ''package_value'', ''has_insurance'', ''is_fragile'', ''is_liquid'', ''is_battery'', ''description'']"

definition nearby_columns :: "ShipmentDB \<Rightarrow> string list" where
  "nearby_columns s =
     [''id'', ''vehicle_allowed'', ''visible_on_map'', ''shipment_code'', ''shipping_type_id'', ''start_lat'', ''start_lng'']
     @ (if sd_locationColumn s \<noteq> [] \<and> sd_endLocationColumn s \<noteq> [] then [''end_lat'', ''end_lng''] else [])
     @ [''distance_km'', ''content_type_title'', ''content_image''] @ detail_columns
     @ (if sd_shipmentImagesSelect s = [] then [] else [''images''])"

text \<open>A boolean column as the driver delivers it: MySQL has only small integers.\<close>

definition sql_bool :: "ShipmentDB \<Rightarrow> bool \<Rightarrow> sql_value" where
  "sql_bool s b = (if sd_dialect s = MySQL then SInt (if b then 1 else 0) else SBool b)"

definition nearby_value :: "ShipmentDB \<Rightarrow> nearby_row \<Rightarrow> string \<Rightarrow> sql_value" where
  "nearby_value s r col =
     (case r of (sp, la, lo, d) \<Rightarrow>
        if col = ''id'' then SInt (sm_id sp)
        else if col = ''vehicle_allowed'' then (if TrimSpace (sd_vehicleAllowedCol s) = [] then SNull else sm_cols sp col)
        else if col = ''visible_on_map''
        then (case sm_visible sp of None \<Rightarrow> SNull
              | Some b \<Rightarrow> sql_bool s b)
        else if col = ''start_lat'' then SFloat la else if col = ''start_lng'' then SFloat lo
        else if col = ''end_lat'' then (case sm_end_location sp of None \<Rightarrow> SNull | Some (a, b) \<Rightarrow> SFloat a)
        else if col = ''end_lng'' then (case sm_end_location sp of None \<Rightarrow> SNull | Some (a, b) \<Rightarrow> SFloat b)
        else if col = ''distance_km'' then SFloat d else sm_cols sp col)"

definition FindNearbyShipments ::
  "sql_text \<Rightarrow> ShipmentDB option \<Rightarrow> string option \<Rightarrow> nearby_env \<Rightarrow> laravel_db
   \<Rightarrow> float64 \<Rightarrow> float64 \<Rightarrow> float64 \<Rightarrow> int \<Rightarrow> int \<Rightarrow> string + row list" where
  "FindNearbyShipments x s failed env db lat lng radiusKm limit passenger =
     with_db s (\<lambda>s.
       if radiusKm \<le> 0 then Inl ''radius_km must be positive''
       else if limit \<le> 0 then Inl ''limit must be positive''
       else case query_rows ''shipment db: nearby query: '' failed x (nearby_columns s) (nearby_value s)
              (buildNearbyQuery s env db lat lng radiusKm limit passenger) of
         Inl e \<Rightarrow> Inl e
       | Inr items \<Rightarrow> Inr (resolveNearbyMediaURLs x (sd_mediaPublicBaseURL s) items))"

section \<open>Vehicles\<close>

definition vehicle_type_columns :: "string list" where
  "vehicle_type_columns = [''id'', ''label'', ''title'']"

definition vehicle_type_value :: "vehicle_type_row \<Rightarrow> string \<Rightarrow> sql_value" where
  "vehicle_type_value r col =
     (if col = ''id'' then SInt (vr_id r) else if col = ''label'' then coalesce_text (vr_label r) else coalesce_text (vr_title r))"

definition text_or_empty :: "sql_text \<Rightarrow> any \<Rightarrow> string" where
  "text_or_empty x v = (if v = ANil then [] else Sprint (xt_print x) v)"

definition vehicle_type_of :: "sql_text \<Rightarrow> vehicle_type_row \<Rightarrow> VehicleType" where
  "vehicle_type_of x r =
     \<lparr>vt_ID = normalizeSQLValue x ''id'' (vehicle_type_value r ''id''),
      vt_Label = text_or_empty x (normalizeSQLValue x ''vehicle_type_label'' (vehicle_type_value r ''label'')),
      vt_Title = text_or_empty x (normalizeSQLValue x ''vehicle_type_title'' (vehicle_type_value r ''title''))\<rparr>"

definition LoadVehicleTypes :: "sql_text \<Rightarrow> ShipmentDB option \<Rightarrow> string option \<Rightarrow> laravel_db \<Rightarrow> string + VehicleType list" where
  "LoadVehicleTypes x s failed db =
     (case s of None \<Rightarrow> Inr []
      | Some s \<Rightarrow>
          if sd_vehicleTypesTable s = [] then Inr []
          else case failed of Some e \<Rightarrow> Inl (''vehicle_types query: '' @ e)
          | None \<Rightarrow> Inr (map (vehicle_type_of x) (sort_key vr_id (lv_vehicle_types db))))"

record VehicleBoxSize =
  vb_ID :: any
  vb_MaxWeight :: float64
  vb_Title :: string

definition box_rows :: "laravel_db \<Rightarrow> (box_size_row \<times> float64 \<times> vehicle_type_row option) list" where
  "box_rows db = [(b, w, vt). b \<leftarrow> lv_box_sizes db, w \<leftarrow> (case bx_weight b of None \<Rightarrow> [] | Some w \<Rightarrow> [w]),
                    vt \<leftarrow> left_join (\<lambda>v. sql_eq (Some (vr_id v)) (bx_vehicle b)) (lv_vehicle_types db)]"

definition LoadVehicleBoxSizes :: "sql_text \<Rightarrow> ShipmentDB option \<Rightarrow> string option \<Rightarrow> laravel_db \<Rightarrow> string + VehicleBoxSize list" where
  "LoadVehicleBoxSizes x s failed db =
     (case s of None \<Rightarrow> Inr []
      | Some s \<Rightarrow>
          if sd_vehicleBoxSizesTable s = [] then Inr []
          else case failed of Some e \<Rightarrow> Inl (''vehicle_box_sizes query: '' @ e)
          | None \<Rightarrow> Inr (map (\<lambda>(b, w, vt). \<lparr>vb_ID = normalizeSQLValue x ''vehicle_id'' (sql_int (bx_vehicle b)), vb_MaxWeight = w,
                                  vb_Title = (case vt of Some v \<Rightarrow> (case vr_title v of Some t \<Rightarrow> t | None \<Rightarrow> []) | None \<Rightarrow> [])\<rparr>)
                (filter (\<lambda>(b, w, vt). w > 0) (sort_key (\<lambda>(b, w, vt). w) (box_rows db)))))"

record UserVehicle =
  uv_ID :: int
  uv_UserID :: int
  uv_VehicleTypeID :: int
  uv_VehicleTypeTitle :: string
  uv_Title :: string
  uv_VIN :: string
  uv_Color :: string
  uv_Plaque1 :: string
  uv_PlaqueAlphabet :: string
  uv_Plaque2 :: string
  uv_Plaque3 :: string
  uv_MotorPlaque1 :: string
  uv_MotorPlaque2 :: string
  uv_CardImage :: string
  uv_IsDefault :: bool
  uv_Status :: string
  uv_StatusDescription :: string

definition user_vehicle_columns :: "string list" where
  "user_vehicle_columns = [''id'', ''user_id'', ''vehicle_type_id'', ''vehicle_type_title'', ''title'', ''vin'', ''color'', ''plaque1'',
     ''plaque_alphabet'', ''plaque2'', ''plaque3'', ''motor_plaque1'', ''motor_plaque2'', ''card_image'', ''is_default'', ''status'',
     ''status_description'']"

definition user_vehicle_value :: "ShipmentDB \<Rightarrow> vehicle_row \<Rightarrow> string \<Rightarrow> sql_value" where
  "user_vehicle_value s r col =
     (if col = ''id'' then SInt (vh_id r) else if col = ''user_id'' then sql_int (vh_user r)
      else if col = ''is_default'' then sql_bool s (vh_default r) else vh_cols r col)"

definition trimmed_column :: "sql_text \<Rightarrow> row \<Rightarrow> string \<Rightarrow> string" where
  "trimmed_column x item col = TrimSpace (anyToString x (column item col))"

definition user_vehicle_of :: "sql_text \<Rightarrow> ShipmentDB \<Rightarrow> row \<Rightarrow> UserVehicle" where
  "user_vehicle_of x s item =
     \<lparr>uv_ID = anyToInt64 (column item ''id''), uv_UserID = anyToInt64 (column item ''user_id''),
      uv_VehicleTypeID = anyToInt64 (column item ''vehicle_type_id''), uv_VehicleTypeTitle = trimmed_column x item ''vehicle_type_title'',
      uv_Title = trimmed_column x item ''title'', uv_VIN = trimmed_column x item ''vin'', uv_Color = trimmed_column x item ''color'',
      uv_Plaque1 = trimmed_column x item ''plaque1'', uv_PlaqueAlphabet = trimmed_column x item ''plaque_alphabet'',
      uv_Plaque2 = trimmed_column x item ''plaque2'', uv_Plaque3 = trimmed_column x item ''plaque3'',
      uv_MotorPlaque1 = trimmed_column x item ''motor_plaque1'', uv_MotorPlaque2 = trimmed_column x item ''motor_plaque2'',
      uv_CardImage = ResolvePublicMediaURL (sd_mediaPublicBaseURL s) (anyToString x (column item ''card_image'')),
      uv_IsDefault = anyToBool (column item ''is_default''), uv_Status = trimmed_column x item ''status'',
      uv_StatusDescription = trimmed_column x item ''status_description''\<rparr>"

definition LoadUserVehiclesByUserID ::
  "sql_text \<Rightarrow> ShipmentDB option \<Rightarrow> string option \<Rightarrow> laravel_db \<Rightarrow> int \<Rightarrow> string + UserVehicle list" where
  "LoadUserVehiclesByUserID x s failed db userID =
     with_db s (\<lambda>s.
       if userID \<le> 0 then Inr []
       else case query_rows ''user vehicles by user_id: '' failed x user_vehicle_columns (user_vehicle_value s)
              (sort_key (\<lambda>r. (if vh_default r then 0 else (1::int), - vh_id r))
                (filter (\<lambda>r. sql_eq (vh_user r) (Some userID)) (lv_vehicles db))) of
         Inl e \<Rightarrow> Inl e
       | Inr items \<Rightarrow> Inr (map (user_vehicle_of x s) items))"

section \<open>What drivers are doing\<close>

text \<open>\<open>COALESCE(NULLIF(TRIM(title), ''), NULLIF(TRIM(address), ''), '')\<close>; \<open>TRIM\<close> takes blanks off.\<close>

definition sql_trim :: "string \<Rightarrow> string" where
  "sql_trim s = TrimRight (CHR '' '') (TrimLeft (CHR '' '') s)"

definition not_blank :: "string option \<Rightarrow> string option" where
  "not_blank s = (case s of None \<Rightarrow> None | Some t \<Rightarrow> if sql_trim t = [] then None else Some (sql_trim t))"

definition destination_text :: "city_row option \<Rightarrow> string option \<Rightarrow> string" where
  "destination_text city addr =
     (case not_blank (case city of None \<Rightarrow> None | Some c \<Rightarrow> cy_title c) of
        Some t \<Rightarrow> t
      | None \<Rightarrow> (case not_blank addr of Some t \<Rightarrow> t | None \<Rightarrow> []))"

type_synonym job_row = "active_row \<times> shipment_row \<times> city_row option \<times> vehicle_type_row option"

definition job_rows :: "laravel_db \<Rightarrow> job_row list" where
  "job_rows db =
     [((sh, ss, t), sm, ci, vt). (sh, ss, t) \<leftarrow> active_shippings db,
        sm \<leftarrow> lv_shipments db, sql_eq (Some (sm_id sm)) (sh_shipment sh),
        ci \<leftarrow> left_join (\<lambda>c. sql_eq (Some (cy_id c)) (sm_end_city sm)) (lv_cities db),
        vt \<leftarrow> left_join (\<lambda>v. sql_eq (Some (vr_id v)) (tp_vehicle_type t)) (lv_vehicle_types db)]"

definition job_columns :: "string list" where
  "job_columns = [''user_id'', ''trip_id'', ''vehicle_type_id'', ''vehicle_type_image'', ''destination'']"

definition image_value :: "vehicle_type_row option \<Rightarrow> sql_value" where
  "image_value vt = coalesce_text (case vt of None \<Rightarrow> None | Some v \<Rightarrow> vr_image v)"

definition job_value :: "job_row \<Rightarrow> string \<Rightarrow> sql_value" where
  "job_value r col =
     (case r of ((sh, ss, t), sm, ci, vt) \<Rightarrow>
        if col = ''user_id'' then sql_int (tp_user t) else if col = ''trip_id'' then sql_int (sh_trip sh)
        else if col = ''vehicle_type_id'' then sql_int (tp_vehicle_type t) else if col = ''vehicle_type_image'' then image_value vt
        else SText (destination_text ci (sm_end_address sm)))"

definition latest_jobs :: "dialect \<Rightarrow> laravel_db \<Rightarrow> int list \<Rightarrow> job_row list" where
  "latest_jobs d db ids =
     latest d (\<lambda>((sh, ss, t), _). the (tp_user t)) (\<lambda>((sh, ss, t), _). sh_id sh)
       (\<lambda>u. [sh_id sh. (sh, ss, t) \<leftarrow> active_shippings db, sql_eq (tp_user t) (Some u)])
       (filter (\<lambda>((sh, ss, t), _). sql_in (tp_user t) ids) (job_rows db))"

definition FindLatestActiveShippingDestinationsByUserIDs ::
  "sql_text \<Rightarrow> ShipmentDB option \<Rightarrow> string option \<Rightarrow> laravel_db \<Rightarrow> int list \<Rightarrow> string + (int \<Rightarrow> DriverActiveJob option)" where
  "FindLatestActiveShippingDestinationsByUserIDs x s failed db ids =
     with_db s (\<lambda>s.
       if ids = [] then Inr Map.empty
       else case query_rows ''active shipping destinations by user_ids: '' failed x job_columns job_value (latest_jobs (sd_dialect s) db ids) of
         Inl e \<Rightarrow> Inl e
       | Inr items \<Rightarrow> Inr (foldl (\<lambda>out item.
           let userID = anyToInt64 (column item ''user_id''); tripID = anyToInt64 (column item ''trip_id'');
               name = trimmed_column x item ''destination'' in
           if userID \<le> 0 \<or> tripID \<le> 0 \<or> name = [] then out
           else out(userID \<mapsto> \<lparr>aj_Destination = name, aj_TripID = tripID, aj_VehicleTypeID = anyToInt64 (column item ''vehicle_type_id''),
               aj_VehicleTypeImage = ResolvePublicMediaURL (sd_mediaPublicBaseURL s) (anyToString x (column item ''vehicle_type_image'')),
               aj_HasShipping = False, aj_LatestTrip = None\<rparr>)) Map.empty items))"

type_synonym trip_end = "trip_row \<times> city_row option \<times> vehicle_type_row option"

definition trip_ends :: "laravel_db \<Rightarrow> trip_end list" where
  "trip_ends db =
     [(t, ci, vt). t \<leftarrow> lv_trips db,
        ci \<leftarrow> left_join (\<lambda>c. sql_eq (Some (cy_id c)) (tp_end_city t)) (lv_cities db),
        vt \<leftarrow> left_join (\<lambda>v. sql_eq (Some (vr_id v)) (tp_vehicle_type t)) (lv_vehicle_types db)]"

definition trip_value :: "trip_end \<Rightarrow> string \<Rightarrow> sql_value" where
  "trip_value r col =
     (case r of (t, ci, vt) \<Rightarrow>
        if col = ''user_id'' then sql_int (tp_user t) else if col = ''trip_id'' then SInt (tp_id t)
        else if col = ''vehicle_type_id'' then sql_int (tp_vehicle_type t) else if col = ''vehicle_type_image'' then image_value vt
        else SText (destination_text ci (tp_end_address t)))"

definition latest_trips :: "dialect \<Rightarrow> laravel_db \<Rightarrow> int list \<Rightarrow> trip_end list" where
  "latest_trips d db ids =
     latest d (\<lambda>(t, _). the (tp_user t)) (\<lambda>(t, _). tp_id t)
       (\<lambda>u. [tp_id t. t \<leftarrow> lv_trips db, sql_eq (tp_user t) (Some u)])
       (filter (\<lambda>(t, _). sql_in (tp_user t) ids) (trip_ends db))"

definition FindLatestTripDestinationsByUserIDs ::
  "sql_text \<Rightarrow> ShipmentDB option \<Rightarrow> string option \<Rightarrow> laravel_db \<Rightarrow> int list \<Rightarrow> string + (int \<Rightarrow> DriverLatestTrip option)" where
  "FindLatestTripDestinationsByUserIDs x s failed db ids =
     with_db s (\<lambda>s.
       if ids = [] then Inr Map.empty
       else case query_rows ''latest trip destinations by user_ids: '' failed x job_columns trip_value (latest_trips (sd_dialect s) db ids) of
         Inl e \<Rightarrow> Inl e
       | Inr items \<Rightarrow> Inr (foldl (\<lambda>out item.
           let userID = anyToInt64 (column item ''user_id''); tripID = anyToInt64 (column item ''trip_id'') in
           if userID \<le> 0 \<or> tripID \<le> 0 then out
           else out(userID \<mapsto> \<lparr>lt_TripID = tripID, lt_Destination = trimmed_column x item ''destination'',
               lt_VehicleTypeID = anyToInt64 (column item ''vehicle_type_id''),
               lt_VehicleTypeImage = ResolvePublicMediaURL (sd_mediaPublicBaseURL s) (anyToString x (column item ''vehicle_type_image''))\<rparr>))
           Map.empty items))"

definition profile_value :: "profile_row \<Rightarrow> string \<Rightarrow> sql_value" where
  "profile_value r col = sql_int (pf_user r)"

definition FindVisibleOnMapUserIDs :: "sql_text \<Rightarrow> ShipmentDB option \<Rightarrow> string option \<Rightarrow> laravel_db \<Rightarrow> int list \<Rightarrow> string + int set" where
  "FindVisibleOnMapUserIDs x s failed db ids =
     with_db s (\<lambda>s.
       if ids = [] then Inr {}
       else case query_rows ''visible_on_map profiles by user_ids: '' failed x [''user_id''] profile_value
              (filter (\<lambda>p. sql_in (pf_user p) ids \<and> pf_visible p = Some True) (lv_profiles db)) of
         Inl e \<Rightarrow> Inl e
       | Inr items \<Rightarrow> Inr (set (filter (\<lambda>u. 0 < u) (map (\<lambda>item. anyToInt64 (column item ''user_id'')) items))))"

section \<open>The repository of the services\<close>

text \<open>The queries of a request see one state of the database, which may fail for each of them.\<close>

definition shipment_repo_of :: "sql_text \<Rightarrow> ShipmentDB \<Rightarrow> nearby_env \<Rightarrow> laravel_db \<Rightarrow> UserVehicle shipment_repo" where
  "shipment_repo_of x s env db =
     \<lparr>rp_find = FindNearbyShipments x (Some s) None env db, rp_shippings = Some (LoadShippingsByShipmentIDs x (Some s) None db),
      rp_types = Some (LoadVehicleTypes x (Some s) None db), rp_vehicles = Some (LoadUserVehiclesByUserID x (Some s) None db)\<rparr>"

definition driver_repo_of :: "sql_text \<Rightarrow> ShipmentDB \<Rightarrow> laravel_db \<Rightarrow> driver_repo" where
  "driver_repo_of x s db =
     \<lparr>sr_jobs = FindLatestActiveShippingDestinationsByUserIDs x (Some s) None db,
      sr_trips = FindLatestTripDestinationsByUserIDs x (Some s) None db,
      sr_visible = FindVisibleOnMapUserIDs x (Some s) None db\<rparr>"

section \<open>What a passenger sees\<close>

definition near_row :: "ShipmentDB \<Rightarrow> nearby_env \<Rightarrow> float64 \<Rightarrow> float64 \<Rightarrow> float64 \<Rightarrow> shipment_row \<Rightarrow> nearby_row option" where
  "near_row s env lat lng radiusKm sp =
     (if sd_locationColumn s \<noteq> [] then postgis_row env lat lng radiusKm sp else haversine_row lat lng radiusKm sp)"

definition nearby_item :: "sql_text \<Rightarrow> ShipmentDB \<Rightarrow> nearby_row \<Rightarrow> row" where
  "nearby_item x s r = resolve_item x (sd_mediaPublicBaseURL s) (item_of x (nearby_columns s) (nearby_value s r))"

text \<open>A user carries the shipment, or has been accepted as its carrier.\<close>

definition claimed_by :: "laravel_db \<Rightarrow> shipment_row \<Rightarrow> int \<Rightarrow> bool" where
  "claimed_by db sp u \<longleftrightarrow> (\<exists>(sh, ss, t)\<in>set (active_shippings db). sh_shipment sh = Some (sm_id sp) \<and> tp_user t = Some u)"

definition accepted_by :: "laravel_db \<Rightarrow> shipment_row \<Rightarrow> int \<Rightarrow> bool" where
  "accepted_by db sp u \<longleftrightarrow>
     (\<exists>sa\<in>set (lv_asks db). \<exists>sas\<in>set (lv_ask_statuses db). \<exists>t\<in>set (lv_trips db).
        sa_status sa = Some (ss_id sas) \<and> sa_trip sa = Some (tp_id t) \<and> sa_shipment sa = Some (sm_id sp)
        \<and> label_in (ss_label sas) [''ACCEPTED''] \<and> tp_user t = Some u)"

definition on_map_for :: "laravel_db \<Rightarrow> int \<Rightarrow> int \<Rightarrow> shipment_row \<Rightarrow> bool" where
  "on_map_for db now u sp \<longleftrightarrow> sm_visible sp = Some True \<and> (\<forall>t. sm_release sp = Some t \<longrightarrow> t \<le> now)
     \<and> (\<forall>v. claimed_by db sp v \<or> accepted_by db sp v \<longrightarrow> 0 < u \<and> v = u)
     \<and> (0 < u \<longrightarrow> (\<exists>v. sm_user sp = Some v \<and> v \<noteq> u))
     \<and> (map_eligible db sp \<or> 0 < u \<and> claimed_by db sp u)"

lemma active_trip:
  "(sh, ss, t) \<in> set (active_shippings db) \<Longrightarrow> t \<in> set (lv_trips db)"
  by (simp add: active_shippings_set)

lemma passengerFilter_user: "tp_user t = Some v \<Longrightarrow> passengerFilter u t \<longleftrightarrow> \<not> (0 < u \<and> v = u)"
  by (auto simp: passengerFilter_def sql_ne_def)

lemma activeShippingExists_iff:
  assumes "keys_ok db"
  shows "activeShippingExists db u sp \<longleftrightarrow> (\<exists>v. claimed_by db sp v \<and> \<not> (0 < u \<and> v = u))"
proof
  assume "activeShippingExists db u sp"
  then obtain sh ss t where a: "(sh, ss, t) \<in> set (active_shippings db)" "sh_shipment sh = Some (sm_id sp)" "passengerFilter u t"
    by (auto simp: activeShippingExists_def sql_eq_def)
  moreover obtain v where "tp_user t = Some v" using assms active_trip [OF a(1)] by (auto simp: keys_ok_def)
  ultimately show "\<exists>v. claimed_by db sp v \<and> \<not> (0 < u \<and> v = u)" using passengerFilter_user by (fastforce simp: claimed_by_def)
next
  assume "\<exists>v. claimed_by db sp v \<and> \<not> (0 < u \<and> v = u)"
  then show "activeShippingExists db u sp" using passengerFilter_user
    by (fastforce simp: claimed_by_def activeShippingExists_def sql_eq_def)
qed

lemma acceptedShippingAskExists_iff:
  assumes "keys_ok db"
  shows "acceptedShippingAskExists db u sp \<longleftrightarrow> (\<exists>v. accepted_by db sp v \<and> \<not> (0 < u \<and> v = u))"
proof
  assume "acceptedShippingAskExists db u sp"
  then obtain sa sas t where a: "sa \<in> set (lv_asks db)" "sas \<in> set (lv_ask_statuses db)" "t \<in> set (lv_trips db)"
      "sa_status sa = Some (ss_id sas)" "sa_trip sa = Some (tp_id t)" "sa_shipment sa = Some (sm_id sp)"
      "label_in (ss_label sas) [''ACCEPTED'']" "passengerFilter u t"
    by (auto simp: acceptedShippingAskExists_def sql_eq_def)
  moreover obtain v where "tp_user t = Some v" using assms a(3) by (auto simp: keys_ok_def)
  ultimately show "\<exists>v. accepted_by db sp v \<and> \<not> (0 < u \<and> v = u)"
    using passengerFilter_user unfolding accepted_by_def by metis
next
  assume "\<exists>v. accepted_by db sp v \<and> \<not> (0 < u \<and> v = u)"
  then obtain v sa sas t where a: "sa \<in> set (lv_asks db)" "sas \<in> set (lv_ask_statuses db)" "t \<in> set (lv_trips db)"
      "sa_status sa = Some (ss_id sas)" "sa_trip sa = Some (tp_id t)" "sa_shipment sa = Some (sm_id sp)"
      "label_in (ss_label sas) [''ACCEPTED'']" "tp_user t = Some v" "\<not> (0 < u \<and> v = u)"
    unfolding accepted_by_def by blast
  moreover from a(8,9) have "passengerFilter u t" using passengerFilter_user by blast
  ultimately show "acceptedShippingAskExists db u sp" unfolding acceptedShippingAskExists_def sql_eq_def by (metis option.discI)
qed

lemma nearby_filters_iff:
  assumes "keys_ok db"
  shows "nearby_filters env db u sp \<longleftrightarrow> on_map_for db (ne_now env) u sp"
proof -
  have own: "own_shipping db u sp \<longleftrightarrow> claimed_by db sp u" by (auto simp: own_shipping_def claimed_by_def sql_eq_def)
  have made: "nearbyOwnCreatedExcludeFilter u sp \<longleftrightarrow> (0 < u \<longrightarrow> (\<exists>v. sm_user sp = Some v \<and> v \<noteq> u))"
    by (auto simp: nearbyOwnCreatedExcludeFilter_def sql_ne_def)
  have rel: "nearbyReleaseTimeFilter (ne_now env) sp \<longleftrightarrow> (\<forall>t. sm_release sp = Some t \<longrightarrow> t \<le> ne_now env)"
    by (auto simp: nearbyReleaseTimeFilter_def split: option.split)
  show ?thesis
    unfolding nearby_filters_def nearbyStatusEligibilityFilter_def nearbyMapVisibilityFilter_def nearbyMapExcludeFilters_def
      activeShippingExists_iff [OF assms] acceptedShippingAskExists_iff [OF assms] made rel own on_map_for_def
    by (auto simp: not_less)
qed

lemma buildNearbyQuery_eq:
  "buildNearbyQuery s env db lat lng radiusKm limit u =
     nearest_first limit (List.map_filter (near_row s env lat lng radiusKm) (filter (nearby_filters env db u) (lv_shipments db)))"
proof -
  have "near_row s env lat lng radiusKm = (if sd_locationColumn s \<noteq> [] then postgis_row env lat lng radiusKm else haversine_row lat lng radiusKm)"
    by (auto simp: near_row_def fun_eq_iff)
  then show ?thesis by (simp add: buildNearbyQuery_def buildNearbyQueryPostGIS_def buildNearbyQueryHaversine_def)
qed

lemma map_filter_set: "set (List.map_filter f xs) = {y. \<exists>x\<in>set xs. f x = Some y}"
  by (induction xs) (auto simp: List.map_filter_simps split: option.splits)

lemma near_row_fst: "near_row s env lat lng radiusKm sp = Some r \<Longrightarrow> fst r = sp"
  by (auto simp: near_row_def postgis_row_def haversine_row_def split: if_splits option.splits)

lemma nearby_rows:
  assumes "keys_ok db" and rows: "rows = buildNearbyQuery s env db lat lng radiusKm limit u" and "0 < limit"
  shows "sorted (map distance_km rows)" "int (length rows) \<le> limit"
    "\<forall>r\<in>set rows. fst r \<in> set (lv_shipments db) \<and> on_map_for db (ne_now env) u (fst r)
        \<and> near_row s env lat lng radiusKm (fst r) = Some r"
    "int (length rows) < limit \<Longrightarrow> sp \<in> set (lv_shipments db) \<Longrightarrow> on_map_for db (ne_now env) u sp
        \<Longrightarrow> near_row s env lat lng radiusKm sp \<noteq> None \<Longrightarrow> sp \<in> fst ` set rows"
proof -
  define all where "all = List.map_filter (near_row s env lat lng radiusKm) (filter (nearby_filters env db u) (lv_shipments db))"
  have r: "rows = take (nat limit) (sort_key distance_km all)"
    by (simp add: rows buildNearbyQuery_eq nearest_first_def all_def)
  have all: "q \<in> set all \<longleftrightarrow> (\<exists>sp\<in>set (lv_shipments db). on_map_for db (ne_now env) u sp \<and> near_row s env lat lng radiusKm sp = Some q)" for q
    by (auto simp: all_def map_filter_set nearby_filters_iff [OF assms(1)])
  show "sorted (map distance_km rows)" using sorted_sort_key [of distance_km all] by (simp add: r take_map [symmetric] sorted_wrt_take)
  show "int (length rows) \<le> limit" using assms(3) by (simp add: r)
  show "\<forall>r\<in>set rows. fst r \<in> set (lv_shipments db) \<and> on_map_for db (ne_now env) u (fst r)
        \<and> near_row s env lat lng radiusKm (fst r) = Some r"
  proof
    fix q assume "q \<in> set rows"
    then have "q \<in> set all" unfolding r by (metis in_set_takeD set_sort)
    then show "fst q \<in> set (lv_shipments db) \<and> on_map_for db (ne_now env) u (fst q) \<and> near_row s env lat lng radiusKm (fst q) = Some q"
      unfolding all using near_row_fst by blast
  qed
  show "sp \<in> fst ` set rows" if h: "int (length rows) < limit" "sp \<in> set (lv_shipments db)" "on_map_for db (ne_now env) u sp"
      "near_row s env lat lng radiusKm sp \<noteq> None"
  proof -
    have "set rows = set all" using h(1) by (simp add: r)
    moreover obtain q where "near_row s env lat lng radiusKm sp = Some q" using h(4) by blast
    ultimately show ?thesis using all [of q] h(2,3) near_row_fst [of s env lat lng radiusKm sp q] by force
  qed
qed

lemma resolve_item_other:
  assumes "k \<noteq> ''content_image''" "k \<noteq> ''images''"
  shows "resolve_item x base item k = item k"
proof -
  have *: "(case v of Some (AStrings ps) \<Rightarrow> it(''images'' \<mapsto> f ps) | _ \<Rightarrow> it) k = it k" for v f and it :: row
    using assms(2) by (cases v rule: option.exhaust; cases "the v") auto
  show ?thesis unfolding resolve_item_def Let_def * using assms(1) by (simp split: option.split)
qed

lemma nearby_item_id: "toInt64 (column (nearby_item x s (sp, la, lo, d)) ''id'') = Some (sm_id sp)"
proof -
  have "nearby_item x s (sp, la, lo, d) ''id'' = Some (AInt KInt64 (sm_id sp))"
    unfolding nearby_item_def by (subst resolve_item_other) (simp_all add: item_of_def nearby_columns_def nearby_value_def)
  then show ?thesis by (simp add: column_def to_int64_def)
qed

lemma nearby_item_no_shipping: "nearby_item x s r ''shipping'' = None"
  unfolding nearby_item_def by (subst resolve_item_other) (simp_all add: item_of_def nearby_columns_def detail_columns_def)

text \<open>The service asks again who delivers a shipment; of those that the query found, it hides none.\<close>

lemma nearby_free_or_own:
  assumes "keys_ok db" "on_map_for db now u (fst r)"
  shows "free_or_own (active_item x db) u (nearby_item x s r)"
proof (cases "shipping_of (active_item x db) (nearby_item x s r)")
  case (Some y)
  obtain sp la lo d where r: "r = (sp, la, lo, d)" by (metis prod_cases4)
  from Some have "active_item x db (sm_id sp) = Some y"
    by (auto simp: shipping_of_def r nearby_item_id split: if_splits)
  then obtain q where q: "find (is_latest db (sm_id sp)) (active_shippings db) = Some q" "y = item_of x shipping_columns (shipping_value q)"
    by (auto simp: active_item_def split: if_splits)
  then have a: "q \<in> set (active_shippings db)" "sh_shipment (fst q) = Some (sm_id sp)"
    by (auto simp: find_Some_iff is_latest_def)
  obtain sh ss t where e: "q = (sh, ss, t)" by (metis prod_cases3)
  obtain v where v: "tp_user t = Some v" using assms(1) active_trip [of sh ss t db] a(1) by (auto simp: keys_ok_def e)
  then have "claimed_by db sp v" using a by (auto simp: claimed_by_def e)
  then have "0 < u" "v = u" using assms(2) by (auto simp: on_map_for_def r)
  then have "delivers u y"
    using v by (simp add: delivers_def q(2) column_def item_of_def shipping_columns_def shipping_value_def e sql_int_def to_int64_def)
  with Some show ?thesis by (simp add: free_or_own_def)
qed (simp add: free_or_own_def)

lemma FindNearby_ok:
  assumes "FindNearbyShipments x (Some s) None env db lat lng radiusKm limit u = Inr items"
  shows "0 < radiusKm \<and> 0 < limit \<and> items = map (nearby_item x s) (buildNearbyQuery s env db lat lng radiusKm limit u)"
  using assms by (auto simp: FindNearbyShipments_def with_db_def query_rows_ok resolveNearbyMediaURLs_def nearby_item_def split: if_splits)

text \<open>
  C26. What a passenger sees, from the tables to the answer, for both kinds of location columns and
  both dialects.  When a search succeeds, its shipments are those of a list that is sorted by
  distance and no longer than the limit, without those that allow no wanted vehicle, and none of
  them is lost to the second look at who delivers it.  A shipment is in that list only if it is
  near, visible on the map, published, made by somebody else, carried or accepted by nobody else,
  and either open or the passenger's own job; and unless the limit was reached, all of these are.
\<close>

theorem passenger_sees:
  assumes "keys_ok db" and "sp_repo svc = Some (shipment_repo_of x s env db)"
    and "shipment_SearchNearby js print svc now req userID c = (Inr resp, c')"
  shows "\<exists>rows. list_all2 (\<lambda>r. shown js print (active_item x db) (nearby_item x s r))
        (filter (\<lambda>r. wanted js (nr_Filter req) (nearby_item x s r)) rows) (np_Shipments resp)
    \<and> sorted (map distance_km rows) \<and> int (length rows) \<le> np_Limit resp
    \<and> (\<forall>r\<in>set rows. fst r \<in> set (lv_shipments db) \<and> on_map_for db (ne_now env) userID (fst r)
         \<and> near_row s env (nr_Lat req) (nr_Lng req) (np_RadiusKm resp) (fst r) = Some r)
    \<and> (int (length rows) < np_Limit resp \<longrightarrow> (\<forall>sp\<in>set (lv_shipments db). on_map_for db (ne_now env) userID sp
         \<and> near_row s env (nr_Lat req) (nr_Lng req) (np_RadiusKm resp) sp \<noteq> None \<longrightarrow> sp \<in> fst ` set rows))"
proof -
  let ?rows = "buildNearbyQuery s env db (nr_Lat req) (nr_Lng req) (np_RadiusKm resp) (np_Limit resp) userID"
  let ?repo = "shipment_repo_of x s env db"
  obtain items where items: "rp_find ?repo (nr_Lat req) (nr_Lng req) (np_RadiusKm resp) (np_Limit resp) userID = Inr items"
    using SearchNearby_rows [OF assms(3,2)] by blast
  then have f: "0 < np_Limit resp" "items = map (nearby_item x s) ?rows"
    using FindNearby_ok by (simp_all add: shipment_repo_of_def)
  note n = nearby_rows [OF assms(1) refl f(1), of s env "nr_Lat req" "nr_Lng req" "np_RadiusKm resp" userID]
  have none: "\<forall>r\<in>set items. r ''shipping'' = None" by (simp add: f(2) nearby_item_no_shipping)
  have ships: "rp_shippings ?repo = Some (LoadShippingsByShipmentIDs x (Some s) None db)" by (simp add: shipment_repo_of_def)
  have "list_all2 (shown js print (active_item x db))
      (filter (\<lambda>r. wanted js (nr_Filter req) r \<and> free_or_own (active_item x db) userID r) items) (np_Shipments resp)"
    using nearby_shipments [OF assms(3,2) ships LoadShippings_answers [OF assms(1)] items none] by simp
  moreover have "filter (\<lambda>r. wanted js (nr_Filter req) r \<and> free_or_own (active_item x db) userID r) items
      = map (nearby_item x s) (filter (\<lambda>r. wanted js (nr_Filter req) (nearby_item x s r)) ?rows)"
    unfolding f(2) filter_map comp_def using n(3) nearby_free_or_own [OF assms(1)] by (auto intro!: arg_cong [of _ _ "map (nearby_item x s)"] filter_cong)
  ultimately have "list_all2 (\<lambda>r. shown js print (active_item x db) (nearby_item x s r))
        (filter (\<lambda>r. wanted js (nr_Filter req) (nearby_item x s r)) ?rows) (np_Shipments resp)"
    by (simp add: list_all2_map1)
  with n show ?thesis by (intro exI [of _ ?rows]) blast
qed

section \<open>The box of a search\<close>

text \<open>
  The query for plain columns first looks into a box of 111.32 km to a degree; with the radius of
  6371 km a degree is shorter, so a shipment due north may be within reach and outside the box.
\<close>

lemma arctan_upper:
  fixes a :: real
  assumes "0 \<le> a"
  shows "arctan a \<le> a - a ^ 3 / 3 + a ^ 5 / 5"
proof -
  let ?f = "\<lambda>t::real. t - t ^ 3 / 3 + t ^ 5 / 5 - arctan t"
  have "\<exists>y. (?f has_real_derivative y) (at t) \<and> 0 \<le> y" for t :: real
  proof (intro exI conjI)
    show "(?f has_real_derivative 1 - t ^ 2 + t ^ 4 - 1 / (1 + t\<^sup>2)) (at t)"
      by (auto intro!: derivative_eq_intros simp: inverse_eq_divide)
    have "1 - t ^ 2 + t ^ 4 - 1 / (1 + t\<^sup>2) = t ^ 6 / (1 + t\<^sup>2)"
      by (simp add: divide_simps add_pos_nonneg add_nonneg_eq_0_iff) (simp add: algebra_simps power_numeral_reduce)
    also have "\<dots> \<ge> 0" by simp
    finally show "0 \<le> 1 - t ^ 2 + t ^ 4 - 1 / (1 + t\<^sup>2)" .
  qed
  then have "?f 0 \<le> ?f a" by (rule DERIV_nonneg_imp_nondecreasing [OF assms])
  then show ?thesis by simp
qed

lemma pi_upper: "pi < 3142 / 1000"
proof -
  have "pi = 4 * (5 * arctan (1 / 7) + 2 * arctan (3 / 79))" using machin_Euler by simp
  also have "\<dots> \<le> 4 * (5 * (1 / 7 - (1 / 7) ^ 3 / 3 + (1 / 7) ^ 5 / 5) + 2 * (3 / 79 - (3 / 79) ^ 3 / 3 + (3 / 79) ^ 5 / 5))"
    using arctan_upper [of "1 / 7"] arctan_upper [of "3 / 79"] by simp
  also have "\<dots> < 3142 / 1000" by (simp add: power_divide)
  finally show ?thesis .
qed

lemma box_misses_north:
  assumes "0 < R" "R \<le> 50" "\<bar>lat\<bar> \<le> 80" "sm_lat sp = Some (lat + R * 10 / 1113)" "sm_lng sp = Some lng"
  shows "distanceExpr (lat + R * 10 / 1113) lng lat lng \<le> R \<and> haversine_row lat lng R sp = None"
proof -
  let ?a = "R * 10 / 1113 / 2 * pi / 180"
  have p: "0 < pi" "pi < 3142 / 1000" using pi_upper by simp_all
  have a: "0 \<le> ?a" "?a \<le> pi / 2" using assms(1,2) p(1) by (simp_all add: field_simps)
  have s: "sin ?a \<ge> 0" using a p by (intro sin_ge_zero) auto
  have "distanceExpr (lat + R * 10 / 1113) lng lat lng = 6371 * 2 * arcsin (min 1 (sin ?a))"
    using s by (simp add: distanceExpr_def sql_radians_def shipmentEarthRadiusKm_def)
  also have "\<dots> = 6371 * 2 * ?a"
  proof -
    have "min 1 (sin ?a) = sin ?a" by (rule min_absorb2) simp
    moreover have "arcsin (sin ?a) = ?a" using a p(1) by (intro arcsin_sin) linarith+
    ultimately show ?thesis by simp
  qed
  also have "\<dots> = R * (pi * 6371 * 10 / (1113 * 180))" by simp
  also have "\<dots> \<le> R * 1" using p assms(1) by (intro mult_left_mono) simp_all
  finally have "distanceExpr (lat + R * 10 / 1113) lng lat lng \<le> R" by simp
  moreover have "\<not> in_box (shipmentBoundingBox lat lng R) (lat + R * 10 / 1113) lng"
    using assms(1) by (simp add: in_box_def shipmentBoundingBox_def Let_def)
  ultimately show ?thesis using assms(4,5) by (simp add: haversine_row_def)
qed

section \<open>Who follows a user\<close>

text \<open>The check as the handler uses it; an error is no answer.\<close>

definition location_acl :: "ShipmentDB \<Rightarrow> string option \<Rightarrow> laravel_db \<Rightarrow> int \<Rightarrow> int \<Rightarrow> bool option" where
  "location_acl s failed db viewer target =
     (case UsersShareActiveShipping (Some s) failed db viewer target of Inl e \<Rightarrow> None | Inr b \<Rightarrow> Some b)"

lemma location_acl_true:
  "location_acl s failed db v t = Some True \<Longrightarrow> v = t \<or> carries_for db t v \<or> carries_for db v t"
  by (auto simp: location_acl_def UsersShareActiveShipping_def with_db_def ExistsQuery_def Let_def split: if_splits sum.splits option.splits prod.splits)

lemma location_acl_statuses:
  "location_acl s failed (db\<lparr>lv_shipping_statuses := sts\<rparr>) = location_acl s failed db"
proof -
  have c: "carries_for (db\<lparr>lv_shipping_statuses := sts\<rparr>) = carries_for db" by (simp add: fun_eq_iff carries_for_def)
  show ?thesis unfolding fun_eq_iff location_acl_def UsersShareActiveShipping_def c by simp
qed

text \<open>
  C27. Who may read the live position of a user, with the check against the tables: the API key,
  the user, and the two sides of a shipping, the driver of its trip and the sender or receiver of
  its shipment, in both directions.  Whether the shipping is still active does not matter: the
  answer is the same whatever the statuses are, so a former customer goes on seeing the driver.
\<close>

theorem live_location_readers:
  assumes "geo_ok gr view" and "usable svc = Some gr"
    and "driver_GetUserLocation (Some svc) c (Some (location_acl s failed db)) param st = Sent l"
  shows "(\<exists>target>0. ParseInt (TrimSpace param) = Some target \<and> do_ID l = FormatInt target
      \<and> (AuthenticatedWithAPIKey c \<or> (\<exists>viewer. AuthenticatedUserID c = Some viewer
           \<and> (viewer = target \<or> carries_for db target viewer \<or> carries_for db viewer target))))
    \<and> driver_GetUserLocation (Some svc) c (Some (location_acl s failed (db\<lparr>lv_shipping_statuses := sts\<rparr>))) param st = Sent l"
proof -
  from user_location_private [OF assms] obtain target where t: "0 < target" "ParseInt (TrimSpace param) = Some target" "do_ID l = FormatInt target"
      "AuthenticatedWithAPIKey c \<or> AuthenticatedUserID c = Some target
       \<or> (\<exists>viewer. AuthenticatedUserID c = Some viewer \<and> location_acl s failed db viewer target = Some True)"
    by blast
  then have "AuthenticatedWithAPIKey c \<or> (\<exists>viewer. AuthenticatedUserID c = Some viewer
           \<and> (viewer = target \<or> carries_for db target viewer \<or> carries_for db viewer target))"
    using location_acl_true by blast
  with t assms(3) show ?thesis unfolding location_acl_statuses by blast
qed

section \<open>A job without a destination\<close>

text \<open>
  A driver whose latest active shipping has no destination to name is taken for one without a
  shipping: the entry is skipped, and the search then shows the driver's latest trip, not as a job.
\<close>

lemma job_items_skipped:
  assumes "\<forall>item\<in>set items. anyToInt64 (column item ''user_id'') = u \<longrightarrow> trimmed_column x item ''destination'' = []" and "m u = None"
  shows "foldl (\<lambda>out item.
           let userID = anyToInt64 (column item ''user_id''); tripID = anyToInt64 (column item ''trip_id'');
               name = trimmed_column x item ''destination'' in
           if userID \<le> 0 \<or> tripID \<le> 0 \<or> name = [] then out else out(userID \<mapsto> f item tripID name)) m items u = None"
  using assms by (induction items arbitrary: m) (auto simp: Let_def)

definition names_place :: "shipment_row \<Rightarrow> laravel_db \<Rightarrow> bool" where
  "names_place sm db \<longleftrightarrow> not_blank (sm_end_address sm) \<noteq> None
     \<or> (\<exists>c\<in>set (lv_cities db). sm_end_city sm = Some (cy_id c) \<and> not_blank (cy_title c) \<noteq> None)"

lemma left_join_in: "Some m \<in> set (left_join on ms) \<Longrightarrow> m \<in> set ms \<and> on m"
  by (auto simp: left_join_def Let_def split: if_splits)

lemma nameless_job_skipped:
  assumes "\<forall>sm\<in>set (lv_shipments db). \<not> names_place sm db"
    and "FindLatestActiveShippingDestinationsByUserIDs x (Some s) None db ids = Inr jobs"
  shows "jobs u = None"
proof (cases "ids = []")
  case False
  have none: "trimmed_column x (item_of x job_columns (job_value r)) ''destination'' = []" if r: "r \<in> set (job_rows db)" for r
  proof -
    obtain sh ss t sm ci vt where e: "r = ((sh, ss, t), sm, ci, vt)" by (metis prod_cases3 prod.exhaust)
    have sm: "sm \<in> set (lv_shipments db)" "ci \<in> set (left_join (\<lambda>c. sql_eq (Some (cy_id c)) (sm_end_city sm)) (lv_cities db))"
      using r by (auto simp: job_rows_def e)
    have "not_blank (case ci of None \<Rightarrow> None | Some c \<Rightarrow> cy_title c) = None"
    proof (cases ci)
      case (Some c)
      then have "c \<in> set (lv_cities db)" "sm_end_city sm = Some (cy_id c)"
        using left_join_in sm(2) by (fastforce simp: sql_eq_def)+
      with assms(1) sm(1) Some show ?thesis by (auto simp: names_place_def)
    qed (simp add: not_blank_def)
    moreover have "not_blank (sm_end_address sm) = None" using assms(1) sm(1) by (auto simp: names_place_def)
    ultimately have "destination_text ci (sm_end_address sm) = []" by (simp add: destination_text_def)
    then show ?thesis by (simp add: trimmed_column_def column_def item_of_def job_columns_def job_value_def e float_columns_def TrimSpace_def)
  qed
  have sub: "set (latest_jobs d db ids) \<subseteq> set (job_rows db)" for d
    using distinct_on_sub by (cases d) (fastforce simp: latest_jobs_def latest_def)+
  have skipped: "\<forall>item\<in>set (map (\<lambda>r. item_of x job_columns (job_value r)) (latest_jobs (sd_dialect s) db ids)).
      anyToInt64 (column item ''user_id'') = u \<longrightarrow> trimmed_column x item ''destination'' = []"
    using none sub [of "sd_dialect s"] by (simp only: list.set_map ball_simps) blast
  show ?thesis
    using assms(2) job_items_skipped [OF skipped, of Map.empty] False
    unfolding FindLatestActiveShippingDestinationsByUserIDs_def with_db_def query_rows_ok option.case sum.case by auto
qed (use assms(2) in \<open>auto simp: FindLatestActiveShippingDestinationsByUserIDs_def with_db_def\<close>)

section \<open>Examples\<close>

definition sample_sdb :: ShipmentDB where
  "sample_sdb =
     \<lparr>sd_dialect = Postgres, sd_table = ''t'', sd_idColumn = [], sd_vehicleAllowedCol = [], sd_visibleOnMapCol = [], sd_shipmentCodeCol = [],
      sd_shippingTypeIDCol = [], sd_locationColumn = ''l'', sd_endLocationColumn = [], sd_latColumn = [], sd_lngColumn = [],
      sd_vehicleBoxSizesTable = [], sd_vehicleIDColumn = [], sd_vehicleWeightColumn = [], sd_vehicleTypesTable = [],
      sd_vehicleTypeLabelColumn = [], sd_vehicleTypeTitleColumn = [], sd_contentJoin = [], sd_contentImageSelect = [],
      sd_shipmentImagesSelect = [], sd_packageDetailSelect = [], sd_packageDetailJoins = [], sd_mediaPublicBaseURL = []\<rparr>"

text \<open>User 5 drives trip 10, which delivered shipment 2 of user 8; shipment 1 of user 7 is open.\<close>

definition sample_shipment :: "int \<Rightarrow> int \<Rightarrow> shipment_row" where
  "sample_shipment i u =
     \<lparr>sm_id = i, sm_user = Some u, sm_receiver = None, sm_visible = Some True, sm_status = Some 4, sm_release = None,
      sm_location = Some (35, 51), sm_end_location = None, sm_lat = None, sm_lng = None, sm_end_city = None, sm_end_address = None,
      sm_cols = (\<lambda>_. SNull)\<rparr>"

definition sample_db :: laravel_db where
  "sample_db =
     \<lparr>lv_trips = [\<lparr>tp_id = 10, tp_user = Some 5, tp_vehicle_type = None, tp_end_city = None, tp_end_address = None, tp_cols = (\<lambda>_. SNull)\<rparr>],
      lv_shippings = [\<lparr>sh_id = 70, sh_trip = Some 10, sh_shipment = Some 2, sh_status = Some 9, sh_cols = (\<lambda>_. SNull)\<rparr>],
      lv_shipping_statuses = [\<lparr>ss_id = 9, ss_label = Some ''delivered'', ss_title = None\<rparr>],
      lv_shipments = [sample_shipment 1 7, sample_shipment 2 8],
      lv_shipment_statuses = [\<lparr>ss_id = 4, ss_label = Some ''ACCEPTED'', ss_title = None\<rparr>],
      lv_asks = [], lv_ask_statuses = [], lv_profiles = [], lv_cities = [], lv_vehicle_types = [], lv_box_sizes = [], lv_vehicles = []\<rparr>"

definition sample_env :: nearby_env where
  "sample_env = \<lparr>ne_now = 0, ne_distance = (\<lambda>_ _ _ _. 0)\<rparr>"

definition sample_text :: sql_text where
  "sample_text = \<lparr>xt_float = (\<lambda>_. None), xt_strings = (\<lambda>_. None), xt_any = (\<lambda>_. None), xt_print = (\<lambda>_. [])\<rparr>"

definition sample_svc :: "UserVehicle shipment_service" where
  "sample_svc = NewShipmentService (Some (shipment_repo_of sample_text sample_sdb sample_env sample_db)) 0 0"

lemma sample_keys: "keys_ok sample_db"
  by (simp add: keys_ok_def sample_db_def sample_shipment_def)

lemma sample_repo: "sp_repo sample_svc = Some (shipment_repo_of sample_text sample_sdb sample_env sample_db)"
  by (simp add: sample_svc_def NewShipmentService_def)

lemma sample_open: "on_map_for sample_db (ne_now sample_env) 6 (sample_shipment 1 7)"
proof -
  have "\<not> claimed_by sample_db (sample_shipment 1 7) v" for v
    by (auto simp: claimed_by_def active_shippings_set active_statuses_set sample_db_def sample_shipment_def)
  moreover have "\<not> accepted_by sample_db (sample_shipment 1 7) v" for v by (simp add: accepted_by_def sample_db_def)
  moreover have "ToUpper ''ACCEPTED'' = ''ACCEPTED''" by code_simp
  then have "map_eligible sample_db (sample_shipment 1 7)"
    by (simp add: map_eligible_def sample_db_def sample_shipment_def sql_eq_def label_in_def eligible_labels_def)
  ultimately show ?thesis by (simp add: on_map_for_def sample_shipment_def)
qed

lemma sample_answer:
  obtains resp c' where
    "shipment_SearchNearby no_json (\<lambda>_. []) sample_svc 9 example_search 6 empty_cache = (Inr resp, c')"
    "np_Limit resp = 100" "np_RadiusKm resp = 2"
proof -
  have d: "search_radius (sp_defaultRadiusKm sample_svc) (nr_RadiusKm example_search) = 2"
      "search_limit (sp_defaultLimit sample_svc) (nr_Limit example_search) = 100"
    by (simp_all add: search_radius_def search_limit_def sample_svc_def NewShipmentService_def example_search_def
        defaultShipmentRadiusKm_def maxNearbySearchRadiusKm_def clamp_default_def defaultShipmentLimit_def maxShipmentLimit_def)
  have "rp_find (shipment_repo_of sample_text sample_sdb sample_env sample_db) lat lng 2 100 6
      = Inr (map (nearby_item sample_text sample_sdb) (buildNearbyQuery sample_sdb sample_env sample_db lat lng 2 100 6))" for lat lng
    by (simp add: shipment_repo_of_def FindNearbyShipments_def with_db_def query_rows_ok resolveNearbyMediaURLs_def nearby_item_def)
  then have "\<exists>resp c'. shipment_SearchNearby no_json (\<lambda>_. []) sample_svc 9 example_search 6 empty_cache = (Inr resp, c')
     \<and> np_Limit resp = 100 \<and> np_RadiusKm resp = 2"
    unfolding shipment_SearchNearby_def sample_repo option.case d Let_def by (simp split: prod.split)
  then show ?thesis using that by blast
qed

theorem passenger_sees_witness:
  "\<exists>resp c'. shipment_SearchNearby no_json (\<lambda>_. []) sample_svc 9 example_search 6 empty_cache = (Inr resp, c') \<and> np_Shipments resp \<noteq> []"
proof -
  obtain resp c' where r: "shipment_SearchNearby no_json (\<lambda>_. []) sample_svc 9 example_search 6 empty_cache = (Inr resp, c')"
    and l: "np_Limit resp = 100" "np_RadiusKm resp = 2" by (rule sample_answer)
  obtain rows where rows: "list_all2 (\<lambda>r. shown no_json (\<lambda>_. []) (active_item sample_text sample_db) (nearby_item sample_text sample_sdb r))
        (filter (\<lambda>r. wanted no_json (nr_Filter example_search) (nearby_item sample_text sample_sdb r)) rows) (np_Shipments resp)"
    and all: "int (length rows) < np_Limit resp \<Longrightarrow> sample_shipment 1 7 \<in> set (lv_shipments sample_db)
      \<Longrightarrow> on_map_for sample_db (ne_now sample_env) 6 (sample_shipment 1 7)
      \<Longrightarrow> near_row sample_sdb sample_env (nr_Lat example_search) (nr_Lng example_search) (np_RadiusKm resp) (sample_shipment 1 7) \<noteq> None
      \<Longrightarrow> sample_shipment 1 7 \<in> fst ` set rows"
    using passenger_sees [OF sample_keys sample_repo r] by blast
  have near: "near_row sample_sdb sample_env (nr_Lat example_search) (nr_Lng example_search) (np_RadiusKm resp) (sample_shipment 1 7) \<noteq> None"
    by (simp add: near_row_def sample_sdb_def postgis_row_def sample_shipment_def sample_env_def l)
  have "rows \<noteq> []"
  proof
    assume "rows = []"
    then show False using all [OF _ _ sample_open near] by (simp add: l sample_db_def)
  qed
  moreover have "filter (\<lambda>r. wanted no_json (nr_Filter example_search) (nearby_item sample_text sample_sdb r)) rows = rows"
    by (simp add: wanted_def example_search_def)
  ultimately have "np_Shipments resp \<noteq> []" using rows by auto
  with r show ?thesis by blast
qed

text \<open>User 8, whose shipment was delivered, still reads where user 7, the driver of its trip, is.\<close>

definition past_db :: laravel_db where
  "past_db = sample_db\<lparr>lv_trips := map (tp_user_update (\<lambda>_. Some 7)) (lv_trips sample_db)\<rparr>"

theorem live_location_readers_witness:
  "\<exists>l. driver_GetUserLocation (Some example_svc) (as_user 8) (Some (location_acl sample_sdb None past_db)) ''7'' example_state = Sent l \<and> do_ID l = ''7''"
proof -
  have seven: "FormatInt 7 = ''7''" by code_simp
  have acl: "location_acl sample_sdb None past_db 8 7 = Some True"
    by (simp add: location_acl_def UsersShareActiveShipping_def with_db_def sample_sdb_def ExistsQuery_def Let_def carries_for_def past_db_def
        sample_db_def sample_shipment_def sql_eq_def party_of_def split: prod.split)
  obtain l where l: "driver_GetUserLocation (Some example_svc) (as_user 8) (Some (location_acl sample_sdb None past_db)) ''7'' example_state = Sent l"
    by (simp add: driver_GetUserLocation_def authorizeUserLocationRead_def as_user_def AuthenticatedWithAPIKey_def
        AuthenticatedUserID_def seven GetPresence_def example_svc_fields GetDriverLocation_def example_live acl)
  from live_location_readers [OF mem_geo_ok example_svc_fields(1) l] l show ?thesis by (auto simp: seven)
qed

end
