(* ===== verification/LocationHistory.thy ===== *)
theory LocationHistory
  imports GpsService "HOL-Library.Sublist"
begin

text \<open>
  \<open>internal/events\<close> and \<open>internal/storage/location_batch.go\<close>: the event bus over Redis Pub/Sub, and
  the writer that keeps the history of positions.  The goroutine of \<open>SubscribeAll\<close> moves messages from
  the connection into a bounded channel, \<open>Run\<close> takes them out, collects positions and inserts
  them in batches.  One step is one turn of a \<open>select\<close>, in any order that is possible; Redis may
  lose a message, and an insert may fail.
\<close>

section \<open>Events and channels\<close>

datatype event_payload = PLocation LocationState | POther string

record Event =
  ev_Type :: string
  ev_TripID :: int
  ev_Timestamp :: int
  ev_Payload :: event_payload

definition LocationUpdatedType :: string where "LocationUpdatedType = ''location.updated''"
definition TripStartedType :: string where "TripStartedType = ''trip.started''"
definition TripEndedType :: string where "TripEndedType = ''trip.ended''"
definition RouteCalculatedType :: string where "RouteCalculatedType = ''route.calculated''"
definition DeviationDetectedType :: string where "DeviationDetectedType = ''deviation.detected''"

definition events_New :: "int \<Rightarrow> string \<Rightarrow> int \<Rightarrow> event_payload \<Rightarrow> Event" where
  "events_New now t tripID payload = \<lparr>ev_Type = t, ev_TripID = tripID, ev_Timestamp = now, ev_Payload = payload\<rparr>"

definition channelPrefix :: string where "channelPrefix = ''geo:events:trip:''"

definition channelForTrip :: "int \<Rightarrow> string" where
  "channelForTrip tripID = channelPrefix @ FormatInt tripID"

text \<open>A subscription gets the messages of its channel, or of all channels that its pattern matches.\<close>

datatype subscription = SubscribeTrip int | SubscribeAll

definition subscribed :: "subscription \<Rightarrow> string \<Rightarrow> bool" where
  "subscribed s chan = (case s of SubscribeTrip t \<Rightarrow> chan = channelForTrip t | SubscribeAll \<Rightarrow> has_prefix channelPrefix chan)"

definition out_capacity :: "subscription \<Rightarrow> nat" where
  "out_capacity s = (case s of SubscribeTrip t \<Rightarrow> 512 | SubscribeAll \<Rightarrow> 2048)"

text \<open>The non-blocking send of the goroutine: a message that finds the channel full is dropped.\<close>

definition bus_send :: "subscription \<Rightarrow> Event \<Rightarrow> Event list \<Rightarrow> Event list" where
  "bus_send s e out = (if length out < out_capacity s then out @ [e] else out)"

text \<open>What the service of trips publishes.\<close>

definition gps_bus_event :: "int \<Rightarrow> gps_event \<Rightarrow> Event" where
  "gps_bus_event now e =
     (case e of
        LocationUpdated l \<Rightarrow> events_New now LocationUpdatedType (ls_TripID l) (PLocation l)
      | DeviationDetected l \<Rightarrow> events_New now DeviationDetectedType (ls_TripID l) (PLocation l))"

section \<open>The batch writer\<close>

record LocationBatchWriter =
  bw_batchSize :: nat
  bw_flushEvery :: int

definition NewLocationBatchWriter :: "int \<Rightarrow> int \<Rightarrow> LocationBatchWriter" where
  "NewLocationBatchWriter batchSize flushSec =
     \<lparr>bw_batchSize = (if batchSize \<le> 0 then 500 else nat batchSize), bw_flushEvery = (if flushSec \<le> 0 then 5 else flushSec)\<rparr>"

record trip_location =
  tl_trip_id :: int
  tl_lng :: float64
  tl_lat :: float64
  tl_speed_kmh :: float64
  tl_timestamp :: int

text \<open>\<open>unnest\<close> of five arrays, row by row; \<open>ST_MakePoint\<close> takes the longitude first.\<close>

fun unnest_rows :: "int list \<Rightarrow> float64 list \<Rightarrow> float64 list \<Rightarrow> float64 list \<Rightarrow> int list \<Rightarrow> trip_location list" where
  "unnest_rows (t # ts) (la # las) (lo # los) (v # vs) (s # ss) =
     \<lparr>tl_trip_id = t, tl_lng = lo, tl_lat = la, tl_speed_kmh = v, tl_timestamp = s\<rparr> # unnest_rows ts las los vs ss"
| "unnest_rows _ _ _ _ _ = []"

definition insertBatch :: "LocationState list \<Rightarrow> trip_location list" where
  "insertBatch locs =
     unnest_rows (map ls_TripID locs) (map ls_Lat locs) (map ls_Lng locs) (map ls_SpeedKmH locs) (map ls_Timestamp locs)"

text \<open>
  The world: everything published, the messages on the connection, the channel between the two
  goroutines, which is closed when the first ends, the batch, the table, whether the context is
  cancelled, and whether \<open>Run\<close> is still running.
\<close>

record history =
  hi_published :: "Event list"
  hi_wire :: "Event list"
  hi_out :: "Event list"
  hi_bus :: bool
  hi_batch :: "LocationState list"
  hi_table :: "trip_location list"
  hi_cancelled :: bool
  hi_running :: bool

definition history_start :: history where
  "history_start = \<lparr>hi_published = [], hi_wire = [], hi_out = [], hi_bus = True, hi_batch = [], hi_table = [],
     hi_cancelled = False, hi_running = True\<rparr>"

text \<open>\<open>flush\<close>: an insert with a cancelled context fails, and the batch is emptied whatever happens.\<close>

definition flush :: "bool \<Rightarrow> history \<Rightarrow> history" where
  "flush ok w =
     (if hi_batch w = [] then w
      else if ok \<and> \<not> hi_cancelled w then w\<lparr>hi_table := hi_table w @ insertBatch (hi_batch w), hi_batch := []\<rparr>
      else w\<lparr>hi_batch := []\<rparr>)"

definition take_event :: "LocationBatchWriter \<Rightarrow> bool \<Rightarrow> Event \<Rightarrow> history \<Rightarrow> history" where
  "take_event bw ok e w =
     (if ev_Type e \<noteq> LocationUpdatedType then w
      else case ev_Payload e of
        POther s \<Rightarrow> w
      | PLocation l \<Rightarrow>
          let w = w\<lparr>hi_batch := hi_batch w @ [l]\<rparr> in
          if length (hi_batch w) \<ge> bw_batchSize bw then flush ok w else w)"

text \<open>A turn of one of the goroutines; \<open>ok\<close> tells whether the insert it may make succeeds.\<close>

datatype turn = Publish Event | Lose | Pump | BusEnd | Recv bool | RecvClosed bool | Tick bool | Drain bool | Cancel | Exit

definition history_step :: "LocationBatchWriter \<Rightarrow> turn \<Rightarrow> history \<Rightarrow> history option" where
  "history_step bw a w =
     (case a of
        Publish e \<Rightarrow> Some (w\<lparr>hi_published := hi_published w @ [e],
            hi_wire := (if subscribed SubscribeAll (channelForTrip (ev_TripID e)) then hi_wire w @ [e] else hi_wire w)\<rparr>)
      | Lose \<Rightarrow> (case hi_wire w of [] \<Rightarrow> None | e # es \<Rightarrow> Some (w\<lparr>hi_wire := es\<rparr>))
      | Pump \<Rightarrow> (case hi_wire w of
            [] \<Rightarrow> None
          | e # es \<Rightarrow> if hi_bus w then Some (w\<lparr>hi_wire := es, hi_out := bus_send SubscribeAll e (hi_out w)\<rparr>) else None)
      | BusEnd \<Rightarrow> if hi_cancelled w \<and> hi_bus w then Some (w\<lparr>hi_bus := False\<rparr>) else None
      | Recv ok \<Rightarrow> (case hi_out w of
            [] \<Rightarrow> None
          | e # es \<Rightarrow> if hi_running w then Some (take_event bw ok e (w\<lparr>hi_out := es\<rparr>)) else None)
      | RecvClosed ok \<Rightarrow> if hi_running w \<and> hi_out w = [] \<and> \<not> hi_bus w then Some ((flush ok w)\<lparr>hi_running := False\<rparr>) else None
      | Tick ok \<Rightarrow> if hi_running w then Some (flush ok w) else None
      | Drain ok \<Rightarrow> if hi_running w \<and> hi_cancelled w
            then Some (w\<lparr>hi_table := (if ok then hi_table w @ insertBatch (hi_batch w) else hi_table w), hi_batch := [], hi_running := False\<rparr>)
            else None
      | Cancel \<Rightarrow> Some (w\<lparr>hi_cancelled := True\<rparr>)
      | Exit \<Rightarrow> if hi_cancelled w then Some (w\<lparr>hi_batch := [], hi_bus := False, hi_running := False\<rparr>) else None)"

text \<open>The process ends when \<open>main\<close> does, which does not wait for the writer.\<close>

fun history_run :: "LocationBatchWriter \<Rightarrow> turn list \<Rightarrow> history \<Rightarrow> history option" where
  "history_run bw [] w = Some w"
| "history_run bw (a # as) w = (case history_step bw a w of None \<Rightarrow> None | Some w \<Rightarrow> history_run bw as w)"

section \<open>Channels\<close>

lemma subscribed_trip:
  "subscribed SubscribeAll (channelForTrip t) \<and> (subscribed (SubscribeTrip u) (channelForTrip t) \<longleftrightarrow> t = u)"
  by (auto simp: subscribed_def channelForTrip_def channelPrefix_def FormatInt_inj)

section \<open>Rows\<close>

definition location_row :: "LocationState \<Rightarrow> trip_location" where
  "location_row l = \<lparr>tl_trip_id = ls_TripID l, tl_lng = ls_Lng l, tl_lat = ls_Lat l, tl_speed_kmh = ls_SpeedKmH l, tl_timestamp = ls_Timestamp l\<rparr>"

lemma insertBatch_rows: "insertBatch locs = map location_row locs"
  by (induction locs) (simp_all add: insertBatch_def location_row_def)

definition positions :: "Event list \<Rightarrow> LocationState list" where
  "positions es = List.map_filter (\<lambda>e. if ev_Type e \<noteq> LocationUpdatedType then None
     else case ev_Payload e of PLocation l \<Rightarrow> Some l | POther s \<Rightarrow> None) es"

lemma positions_simps [simp]:
  "positions [] = []" "positions (es @ fs) = positions es @ positions fs"
  by (simp_all add: positions_def List.map_filter_def)

lemma take_event_cases:
  "positions [e] = [] \<and> take_event bw ok e w = w
   \<or> (\<exists>l. positions [e] = [l] \<and> take_event bw ok e w =
        (let w = w\<lparr>hi_batch := hi_batch w @ [l]\<rparr> in if length (hi_batch w) \<ge> bw_batchSize bw then flush ok w else w))"
  by (simp add: take_event_def positions_def List.map_filter_def split: event_payload.split)

section \<open>The history is a part of what was published\<close>

text \<open>Rows, then what is on its way to become one, in order.\<close>

definition on_the_way :: "history \<Rightarrow> trip_location list" where
  "on_the_way w = hi_table w @ map location_row (hi_batch w @ positions (hi_out w) @ positions (hi_wire w))"

definition history_inv :: "LocationBatchWriter \<Rightarrow> history \<Rightarrow> bool" where
  "history_inv bw w \<longleftrightarrow> subseq (on_the_way w) (map location_row (positions (hi_published w)))
     \<and> length (hi_batch w) < bw_batchSize bw \<and> length (hi_out w) \<le> out_capacity SubscribeAll"

lemma subseq_drop_middle: "subseq (xs @ zs) (xs @ ys @ zs)"
  by (intro list_emb_append_mono list_emb_append2 subseq_order.order_refl)

lemma flush_rows:
  "subseq (hi_table (flush ok w) @ map location_row (hi_batch (flush ok w)) @ rest) (hi_table w @ map location_row (hi_batch w) @ rest)"
  by (simp add: flush_def insertBatch_rows subseq_drop_middle)

lemma flush_simps [simp]:
  "hi_published (flush ok w) = hi_published w" "hi_wire (flush ok w) = hi_wire w" "hi_out (flush ok w) = hi_out w"
  "hi_bus (flush ok w) = hi_bus w" "hi_cancelled (flush ok w) = hi_cancelled w" "hi_running (flush ok w) = hi_running w"
  "hi_batch (flush ok w) = []"
  by (simp_all add: flush_def)

lemma on_the_way_flush: "subseq (on_the_way (flush ok w)) (on_the_way w)"
  using flush_rows [of ok w "map location_row (positions (hi_out w) @ positions (hi_wire w))"] by (simp add: on_the_way_def)

lemma on_the_way_take:
  assumes "hi_out w = e # es"
  shows "subseq (on_the_way (take_event bw ok e (w\<lparr>hi_out := es\<rparr>))) (on_the_way w)"
proof -
  have p: "positions (e # es) = positions [e] @ positions es" using positions_simps(2) [of "[e]" es] by simp
  consider "positions [e] = []" "take_event bw ok e (w\<lparr>hi_out := es\<rparr>) = w\<lparr>hi_out := es\<rparr>"
    | l w' where "positions [e] = [l]" "w' = w\<lparr>hi_out := es, hi_batch := hi_batch w @ [l]\<rparr>"
        "take_event bw ok e (w\<lparr>hi_out := es\<rparr>) = w' \<or> take_event bw ok e (w\<lparr>hi_out := es\<rparr>) = flush ok w'"
    using take_event_cases [of e bw ok "w\<lparr>hi_out := es\<rparr>"] by (auto simp: Let_def split: if_splits)
  then show ?thesis
  proof cases
    case 1
    then show ?thesis by (simp add: on_the_way_def assms p)
  next
    case 2
    then have "on_the_way w' = on_the_way w" by (simp add: on_the_way_def assms p)
    with 2(3) on_the_way_flush [of ok w'] show ?thesis by auto
  qed
qed

lemma history_inv_step:
  assumes "history_inv bw w" and "history_step bw a w = Some w'" and "0 < bw_batchSize bw"
  shows "history_inv bw w'"
proof -
  have one: "positions (e # es) = positions [e] @ positions es" for e es using positions_simps(2) [of "[e]" es] by simp
  have trans: "history_inv bw w'" if "hi_published w' = hi_published w" "subseq (on_the_way w') (on_the_way w)"
      "length (hi_batch w') < bw_batchSize bw" "length (hi_out w') \<le> out_capacity SubscribeAll"
    using that assms(1) unfolding history_inv_def by (metis subseq_order.trans)
  show ?thesis
  proof (cases a)
    case (Publish e)
    then have w: "w' = w\<lparr>hi_published := hi_published w @ [e], hi_wire := hi_wire w @ [e]\<rparr>"
      using assms(2) by (simp add: history_step_def subscribed_trip)
    have "subseq (on_the_way w @ map location_row (positions [e])) (map location_row (positions (hi_published w)) @ map location_row (positions [e]))"
      using assms(1) by (intro list_emb_append_mono subseq_order.order_refl) (simp add: history_inv_def)
    then show ?thesis using assms(1) by (simp add: w history_inv_def on_the_way_def)
  next
    case Lose
    then obtain e es where w: "hi_wire w = e # es" "w' = w\<lparr>hi_wire := es\<rparr>" using assms(2) by (auto simp: history_step_def split: list.splits)
    have "subseq (on_the_way w') (on_the_way w)"
      using subseq_drop_middle [of "hi_table w @ map location_row (hi_batch w @ positions (hi_out w))" "map location_row (positions es)" "map location_row (positions [e])"]
      by (simp add: w on_the_way_def one [of e es])
    then show ?thesis by (rule trans [rotated]) (use assms(1) in \<open>simp_all add: w history_inv_def\<close>)
  next
    case Pump
    then obtain e es where w: "hi_wire w = e # es" "w' = w\<lparr>hi_wire := es, hi_out := bus_send SubscribeAll e (hi_out w)\<rparr>"
      using assms(2) by (auto simp: history_step_def split: list.splits if_splits)
    have "subseq (on_the_way w') (on_the_way w)"
      using subseq_drop_middle [of "hi_table w @ map location_row (hi_batch w @ positions (hi_out w))" "map location_row (positions es)" "map location_row (positions [e])"]
      by (simp add: w on_the_way_def one [of e es] bus_send_def)
    then show ?thesis by (rule trans [rotated]) (use assms(1) in \<open>simp_all add: w history_inv_def bus_send_def\<close>)
  next
    case (Recv ok)
    then obtain e es where w: "hi_out w = e # es" "w' = take_event bw ok e (w\<lparr>hi_out := es\<rparr>)"
      using assms(2) by (auto simp: history_step_def split: list.splits if_splits)
    have b: "length (hi_batch w') < bw_batchSize bw" "hi_published w' = hi_published w" "hi_out w' = es"
      using assms(1,3) take_event_cases [of e bw ok "w\<lparr>hi_out := es\<rparr>"] by (auto simp: w history_inv_def Let_def)
    show ?thesis using on_the_way_take [OF w(1)] b assms(1) by (intro trans) (auto simp: w history_inv_def)
  next
    case (RecvClosed ok)
    then show ?thesis using assms on_the_way_flush [of ok w]
      by (intro trans) (auto simp: history_step_def history_inv_def on_the_way_def split: if_splits)
  next
    case (Tick ok)
    then show ?thesis using assms on_the_way_flush [of ok w]
      by (intro trans) (auto simp: history_step_def history_inv_def split: if_splits)
  next
    case (Drain ok)
    have "subseq (hi_table w @ r) (hi_table w @ map location_row (hi_batch w) @ r)" for r by (rule subseq_drop_middle)
    with Drain show ?thesis using assms
      by (intro trans) (auto simp: history_step_def history_inv_def on_the_way_def insertBatch_rows split: if_splits)
  next
    case Exit
    have "subseq (hi_table w @ r) (hi_table w @ map location_row (hi_batch w) @ r)" for r by (rule subseq_drop_middle)
    with Exit show ?thesis using assms
      by (intro trans) (auto simp: history_step_def history_inv_def on_the_way_def split: if_splits)
  qed (use assms in \<open>auto simp: history_step_def history_inv_def on_the_way_def split: if_splits\<close>)
qed

lemma history_inv_run:
  "history_run bw as w = Some w' \<Longrightarrow> history_inv bw w \<Longrightarrow> 0 < bw_batchSize bw \<Longrightarrow> history_inv bw w'"
  by (induction as arbitrary: w) (auto split: option.splits intro: history_inv_step)

lemma NewLocationBatchWriter_pos: "0 < bw_batchSize (NewLocationBatchWriter n s)"
  by (simp add: NewLocationBatchWriter_def)

lemma history_inv_start: "0 < bw_batchSize bw \<Longrightarrow> history_inv bw history_start"
  by (simp add: history_inv_def history_start_def on_the_way_def)

lemma gps_events_ok:
  assumes "(gps_step rd cfg requireAuth)\<^sup>*\<^sup>* \<lparr>gw_redis = st, gw_jobs = [], gw_events = [], gw_replies = []\<rparr> g"
    and "redis_ok rd" and "stored_ok rd st"
  shows "list_all (event_ok cfg) (gw_events g)"
proof -
  from assms(1) have "gps_inv rd cfg g"
  proof (induction rule: rtranclp_induct)
    case base
    show ?case using assms(3) by (simp add: gps_inv_def)
  next
    case (step w w')
    then show ?case using gps_inv_step assms(2) by blast
  qed
  then show ?thesis by (simp add: gps_inv_def)
qed

lemma positions_set: "l \<in> set (positions es) \<longleftrightarrow> (\<exists>e\<in>set es. ev_Type e = LocationUpdatedType \<and> ev_Payload e = PLocation l)"
proof (induction es)
  case (Cons e es)
  have "positions (e # es) = positions [e] @ positions es" using positions_simps(2) [of "[e]" es] by simp
  moreover have "l \<in> set (positions [e]) \<longleftrightarrow> ev_Type e = LocationUpdatedType \<and> ev_Payload e = PLocation l"
    by (auto simp: positions_def List.map_filter_def split: event_payload.split)
  ultimately show ?case using Cons by auto
qed simp

text \<open>
  C28. From the requests of the drivers to the history: whatever the order in which the service,
  the bus and the writer run, and whatever is lost, refused or cancelled on the way, the table
  holds positions that were published, each no more often and in the order of publication, and
  every row is a valid coordinate of a trip at a positive time with a speed that is not negative;
  less than a batch ever waits.
\<close>

theorem history_of_trips:
  assumes "(gps_step rd cfg requireAuth)\<^sup>*\<^sup>* \<lparr>gw_redis = st, gw_jobs = [], gw_events = [], gw_replies = []\<rparr> g"
    and "redis_ok rd" and "stored_ok rd st"
    and "history_run (NewLocationBatchWriter batchSize flushSec) as history_start = Some w"
    and "\<forall>e\<in>set (hi_published w). ev_Type e = LocationUpdatedType \<longrightarrow> (\<exists>now. \<exists>ev\<in>set (gw_events g). e = gps_bus_event now ev)"
  shows "subseq (hi_table w) (map location_row (positions (hi_published w)))
    \<and> length (hi_batch w) < bw_batchSize (NewLocationBatchWriter batchSize flushSec)
    \<and> (\<forall>r\<in>set (hi_table w). 0 < tl_trip_id r \<and> ValidCoords (tl_lat r) (tl_lng r) \<and> 0 \<le> tl_speed_kmh r \<and> 0 < tl_timestamp r)"
proof -
  let ?bw = "NewLocationBatchWriter batchSize flushSec"
  have inv: "history_inv ?bw w"
    using history_inv_run [OF assms(4) history_inv_start [OF NewLocationBatchWriter_pos] NewLocationBatchWriter_pos] .
  have "subseq (hi_table w) (on_the_way w)" unfolding on_the_way_def by (rule list_emb_prefix) (rule subseq_order.order_refl)
  with inv have sub: "subseq (hi_table w) (map location_row (positions (hi_published w)))"
    unfolding history_inv_def by (metis subseq_order.trans)
  have ok: "location_ok l" if h: "l \<in> set (positions (hi_published w))" for l
  proof -
    obtain e where e: "e \<in> set (hi_published w)" "ev_Type e = LocationUpdatedType" "ev_Payload e = PLocation l"
      using h by (auto simp: positions_set)
    then obtain now ev where ev: "ev \<in> set (gw_events g)" "e = gps_bus_event now ev" using assms(5) by blast
    have "ev = LocationUpdated l"
      using e ev(2) by (cases ev) (auto simp: gps_bus_event_def events_New_def LocationUpdatedType_def DeviationDetectedType_def)
    then show ?thesis using ev(1) gps_events_ok [OF assms(1-3)] by (auto simp: list_all_iff event_ok_def)
  qed
  have "0 < tl_trip_id r \<and> ValidCoords (tl_lat r) (tl_lng r) \<and> 0 \<le> tl_speed_kmh r \<and> 0 < tl_timestamp r" if h: "r \<in> set (hi_table w)" for r
  proof -
    obtain l where "l \<in> set (positions (hi_published w))" "r = location_row l"
      using list_emb_set [OF sub h] by auto
    then show ?thesis using ok [of l] by (simp add: location_ok_def location_row_def)
  qed
  with sub inv show ?thesis by (simp add: history_inv_def)
qed

section \<open>A healthy writer stores everything it is handed\<close>

text \<open>
  An endless run of a writer that is not cancelled and whose inserts succeed: the ticker goes on,
  and a channel that holds an event is read again.
\<close>

definition healthy_run :: "LocationBatchWriter \<Rightarrow> (nat \<Rightarrow> turn) \<Rightarrow> (nat \<Rightarrow> history) \<Rightarrow> bool" where
  "healthy_run bw turns run \<longleftrightarrow>
     (\<forall>n. history_step bw (turns n) (run n) = Some (run (Suc n)) \<and> \<not> hi_cancelled (run n) \<and> hi_running (run n)
        \<and> (\<forall>ok. turns n = Recv ok \<or> turns n = Tick ok \<longrightarrow> ok))
     \<and> (\<forall>n. \<exists>m\<ge>n. turns m = Tick True)
     \<and> (\<forall>n. hi_out (run n) \<noteq> [] \<longrightarrow> (\<exists>m\<ge>n. turns m = Recv True))"

lemma first_from:
  fixes n :: nat
  assumes "\<exists>m\<ge>n. P m"
  shows "\<exists>m\<ge>n. P m \<and> (\<forall>k. n \<le> k \<and> k < m \<longrightarrow> \<not> P k)"
  using assms exists_least_iff [of "\<lambda>m. n \<le> m \<and> P m"] by blast

definition held :: "LocationState \<Rightarrow> history \<Rightarrow> bool" where
  "held l w \<longleftrightarrow> l \<in> set (hi_batch w) \<or> location_row l \<in> set (hi_table w)"

lemma held_flush: "\<not> hi_cancelled w \<Longrightarrow> held l w \<Longrightarrow> location_row l \<in> set (hi_table (flush True w))"
  by (auto simp: held_def flush_def insertBatch_rows)

lemma held_take:
  assumes "\<not> hi_cancelled w" and "held l w \<or> ev_Type e = LocationUpdatedType \<and> ev_Payload e = PLocation l"
  shows "held l (take_event bw True e w)"
proof (cases "ev_Type e = LocationUpdatedType")
  case True
  then show ?thesis
    using assms by (cases "ev_Payload e") (auto simp: take_event_def held_def Let_def flush_def insertBatch_rows)
qed (use assms in \<open>simp add: take_event_def\<close>)

lemma held_turn:
  assumes "history_step bw a w = Some w'" "\<not> hi_cancelled w" "hi_running w" "hi_running w'" "\<And>ok. a = Recv ok \<or> a = Tick ok \<Longrightarrow> ok"
    and "held l w"
  shows "held l w' \<and> (a = Tick True \<longrightarrow> location_row l \<in> set (hi_table w'))"
proof (cases a)
  case (Recv b)
  then obtain e es where "hi_out w = e # es" "w' = take_event bw True e (w\<lparr>hi_out := es\<rparr>)"
    using assms(1,5) by (auto simp: history_step_def split: list.splits if_splits)
  moreover have "held l (w\<lparr>hi_out := es\<rparr>)" for es using assms(6) by (simp add: held_def)
  ultimately show ?thesis using held_take assms(2) Recv by simp
next
  case (Tick b)
  then have "w' = flush True w" using assms(1,3,5) by (simp add: history_step_def)
  then show ?thesis using held_flush [OF assms(2,6)] by (simp add: held_def)
qed (use assms in \<open>auto simp: history_step_def held_def split: list.splits if_splits\<close>)

lemma out_turn:
  assumes "history_step bw a w = Some w'" "\<And>ok. a \<noteq> Recv ok" "hi_out w ! k = e" "k < length (hi_out w)"
  shows "hi_out w' ! k = e \<and> k < length (hi_out w')"
  using assms by (cases a) (auto simp: history_step_def bus_send_def nth_append split: list.splits if_splits)

lemma table_turn:
  assumes "history_step bw a w = Some w'"
  shows "set (hi_table w) \<subseteq> set (hi_table w')"
  using assms by (cases a) (auto simp: history_step_def flush_def take_event_def Let_def split: list.splits if_splits event_payload.splits)

lemma healthy_turn:
  assumes "healthy_run bw turns run"
  shows "history_step bw (turns n) (run n) = Some (run (Suc n))" "\<not> hi_cancelled (run n)" "hi_running (run n)"
    "turns n = Recv ok \<or> turns n = Tick ok \<Longrightarrow> ok"
  using assms unfolding healthy_run_def by blast+

lemma held_step:
  assumes "healthy_run bw turns run" and "held l (run n)"
  shows "held l (run (Suc n)) \<and> (turns n = Tick True \<longrightarrow> location_row l \<in> set (hi_table (run (Suc n))))"
  using held_turn [OF healthy_turn(1) [OF assms(1)] healthy_turn(2,3) [OF assms(1)] healthy_turn(3) [OF assms(1)] _ assms(2)]
    healthy_turn(4) [OF assms(1)] by blast

lemma held_stored:
  assumes "healthy_run bw turns run" and "held l (run n)"
  shows "\<exists>m\<ge>n. location_row l \<in> set (hi_table (run m))"
proof -
  have keep: "held l (run (n + k))" for k
    using assms(2) held_step [OF assms(1)] by (induction k) auto
  obtain m where "n \<le> m" "turns m = Tick True" using assms(1) unfolding healthy_run_def by blast
  moreover from this have "held l (run m)" using keep [of "m - n"] by simp
  ultimately show ?thesis using held_step [OF assms(1), of l m] by (intro exI [of _ "Suc m"]) simp
qed

lemma out_step:
  assumes "healthy_run bw turns run" and "hi_out (run n) ! k = e" "k < length (hi_out (run n))" "turns n \<noteq> Recv True"
  shows "hi_out (run (Suc n)) ! k = e \<and> k < length (hi_out (run (Suc n)))"
  using out_turn [OF healthy_turn(1) [OF assms(1)] _ assms(2,3)] assms(4) healthy_turn(4) [OF assms(1), of n] by metis

lemma out_held:
  assumes "healthy_run bw turns run"
    and "k < length (hi_out (run n))" "hi_out (run n) ! k = e" "ev_Type e = LocationUpdatedType" "ev_Payload e = PLocation l"
  shows "\<exists>m\<ge>n. held l (run m)"
  using assms(2,3)
proof (induction k arbitrary: n)
  case (0 n)
  then have ne: "hi_out (run n) \<noteq> []" by auto
  then have "\<exists>m\<ge>n. turns m = Recv True" using assms(1) unfolding healthy_run_def by blast
  from first_from [OF this] obtain m where m: "n \<le> m" "turns m = Recv True" "\<And>j. n \<le> j \<Longrightarrow> j < m \<Longrightarrow> turns j \<noteq> Recv True" by blast
  have "j \<le> m - n \<Longrightarrow> hi_out (run (n + j)) ! 0 = e \<and> 0 < length (hi_out (run (n + j)))" for j
    using 0 out_step [OF assms(1), of _ 0 e] m(3) by (induction j) auto
  from this [of "m - n"] m(1) obtain es where es: "hi_out (run m) = e # es" by (cases "hi_out (run m)") auto
  have s: "history_step bw (turns m) (run m) = Some (run (Suc m))" "\<not> hi_cancelled (run m)" using assms(1) unfolding healthy_run_def by blast+
  then have "run (Suc m) = take_event bw True e ((run m)\<lparr>hi_out := es\<rparr>)" using m(2) es by (auto simp: history_step_def split: if_splits)
  then have "held l (run (Suc m))" using held_take [of "(run m)\<lparr>hi_out := es\<rparr>" l e bw] assms(4,5) s(2) by simp
  with m(1) show ?case by (intro exI [of _ "Suc m"]) simp
next
  case (Suc k n)
  then have "hi_out (run n) \<noteq> []" by auto
  then have "\<exists>m\<ge>n. turns m = Recv True" using assms(1) unfolding healthy_run_def by blast
  from first_from [OF this] obtain m where m: "n \<le> m" "turns m = Recv True" "\<And>j. n \<le> j \<Longrightarrow> j < m \<Longrightarrow> turns j \<noteq> Recv True" by blast
  have "j \<le> m - n \<Longrightarrow> hi_out (run (n + j)) ! Suc k = e \<and> Suc k < length (hi_out (run (n + j)))" for j
    using Suc.prems out_step [OF assms(1), of _ "Suc k" e] m(3) by (induction j) auto
  from this [of "m - n"] m(1) obtain f es where es: "hi_out (run m) = f # es" "es ! k = e" "k < length es" by (cases "hi_out (run m)") auto
  have "history_step bw (turns m) (run m) = Some (run (Suc m))" using assms(1) unfolding healthy_run_def by blast
  then have "run (Suc m) = take_event bw True f ((run m)\<lparr>hi_out := es\<rparr>)" using m(2) es by (auto simp: history_step_def split: if_splits)
  then have "hi_out (run (Suc m)) = es" using take_event_cases [of f bw True "(run m)\<lparr>hi_out := es\<rparr>"] by (auto simp: Let_def)
  with Suc.IH [of "Suc m"] es have "\<exists>i\<ge>Suc m. held l (run i)" by simp
  with m(1) show ?case by (meson Suc_leD le_trans)
qed

text \<open>
  C29. A healthy writer stores everything: as long as it runs, its ticker ticks, it reads its channel
  and its inserts succeed, each position that has reached the channel is in the table at some
  later time, and stays there.
\<close>

theorem history_complete:
  assumes "healthy_run bw turns run"
    and "e \<in> set (hi_out (run n))" "ev_Type e = LocationUpdatedType" "ev_Payload e = PLocation l"
  shows "\<exists>m\<ge>n. \<forall>k\<ge>m. location_row l \<in> set (hi_table (run k))"
proof -
  obtain i where "i < length (hi_out (run n))" "hi_out (run n) ! i = e" using assms(2) by (auto simp: in_set_conv_nth)
  then obtain j where j: "n \<le> j" "held l (run j)" using out_held [OF assms(1) _ _ assms(3,4)] by blast
  then obtain m where m: "j \<le> m" "location_row l \<in> set (hi_table (run m))" using held_stored [OF assms(1)] by blast
  have grows: "set (hi_table (run k)) \<subseteq> set (hi_table (run (Suc k)))" for k
    using table_turn [OF healthy_turn(1) [OF assms(1)]] .
  have "location_row l \<in> set (hi_table (run (m + k)))" for k
    using m(2) grows by (induction k) auto
  then have "\<forall>k\<ge>m. location_row l \<in> set (hi_table (run k))" by (metis le_add_diff_inverse)
  with j m show ?thesis by (meson le_trans)
qed

section \<open>Shutting down\<close>

text \<open>
  C39. What happens to the last positions at shutdown depends on chance.  With a position in the
  batch and nothing lost or refused by the database, the writer that sees the cancelled context
  first stores it; but the same context ends the bus, and the writer that sees the closed channel
  first inserts with the cancelled context and loses it, as does a process that is gone before.
\<close>

theorem shutdown_race:
  assumes "1 < bw_batchSize bw" and "e = gps_bus_event now (LocationUpdated l)"
  shows "\<exists>w1 w2 w3. history_run bw [Publish e, Pump, Recv True, Cancel, Drain True] history_start = Some w1
      \<and> hi_table w1 = [location_row l]
    \<and> history_run bw [Publish e, Pump, Recv True, Cancel, BusEnd, RecvClosed True] history_start = Some w2
      \<and> hi_table w2 = [] \<and> hi_batch w2 = [] \<and> \<not> hi_running w2
    \<and> history_run bw [Publish e, Pump, Recv True, Cancel, Exit] history_start = Some w3 \<and> hi_table w3 = []"
proof -
  have e: "ev_Type e = LocationUpdatedType" "ev_Payload e = PLocation l"
    by (simp_all add: assms(2) gps_bus_event_def events_New_def)
  show ?thesis using assms(1)
    by (simp add: history_step_def history_start_def subscribed_trip bus_send_def out_capacity_def take_event_def e Let_def
        insertBatch_rows flush_def)
qed

section \<open>Examples\<close>

definition sample_location :: LocationState where
  "sample_location = \<lparr>ls_TripID = 7, ls_Lat = 35, ls_Lng = 51, ls_SpeedKmH = 0, ls_Timestamp = 9, ls_DeviationKm = 0\<rparr>"

definition sample_event :: Event where
  "sample_event = gps_bus_event 9 (LocationUpdated sample_location)"

lemma sample_event_simps:
  "ev_Type sample_event = LocationUpdatedType" "ev_Payload sample_event = PLocation sample_location"
  by (simp_all add: sample_event_def gps_bus_event_def events_New_def)

theorem history_of_trips_witness:
  "\<exists>g l w. (gps_step map_redis example_gps False)\<^sup>*\<^sup>* \<lparr>gw_redis = Map.empty, gw_jobs = [], gw_events = [], gw_replies = []\<rparr> g
     \<and> history_run (NewLocationBatchWriter 0 0) [Publish (gps_bus_event 9 (LocationUpdated l)), Pump, Recv True, Tick True] history_start = Some w
     \<and> hi_table w = [location_row l] \<and> ValidCoords (ls_Lat l) (ls_Lng l)"
proof -
  let ?w0 = "\<lparr>gw_redis = Map.empty, gw_jobs = [], gw_events = [], gw_replies = []\<rparr>"
  obtain l dev st1 where h: "gps_update_handler map_redis example_gps False no_auth None (gw_redis ?w0) example_update = (Sent l, st1, Some (l, dev))"
    by (simp add: gps_update_handler_def gps_authorize_def example_update_def ValidCoords_def ProcessUpdate_def
        AcquireRateLimit_def map_redis_def update_state_def GetLocation_def Let_def)
  have t: "0 < gu_TripID example_update" by (simp add: example_update_def)
  from gps_step.request [OF h t] obtain w1 where
    w1: "gps_step map_redis example_gps False ?w0 w1" "gw_jobs w1 = [(l, dev)]" "gw_events w1 = []" by fastforce
  obtain st2 evs where p: "persistAndPublish map_redis example_gps (gw_jobs w1 ! 0) (gw_redis w1) = (st2, evs)" by fastforce
  have evs: "LocationUpdated l \<in> set evs" using p w1(2) by (auto simp: persistAndPublish_def)
  from gps_step.job [OF _ p] w1(2,3) obtain g where g: "gps_step map_redis example_gps False w1 g" "gw_events g = evs" by fastforce
  have run: "(gps_step map_redis example_gps False)\<^sup>*\<^sup>* ?w0 g" using w1(1) g(1) by (meson converse_rtranclp_into_rtranclp r_into_rtranclp)
  have ok: "stored_ok map_redis Map.empty" by (simp add: stored_ok_def GetLocation_def map_redis_def)
  let ?e = "gps_bus_event 9 (LocationUpdated l)"
  have e: "ev_Type ?e = LocationUpdatedType" "ev_Payload ?e = PLocation l" by (simp_all add: gps_bus_event_def events_New_def)
  obtain w where w: "history_run (NewLocationBatchWriter 0 0) [Publish ?e, Pump, Recv True, Tick True] history_start = Some w"
      "hi_table w = [location_row l]" "hi_published w = [?e]"
    by (simp add: history_step_def history_start_def subscribed_trip bus_send_def out_capacity_def take_event_def e Let_def
        insertBatch_rows flush_def NewLocationBatchWriter_def)
  have pub: "\<forall>f\<in>set (hi_published w). ev_Type f = LocationUpdatedType \<longrightarrow> (\<exists>now. \<exists>ev\<in>set (gw_events g). f = gps_bus_event now ev)"
    using evs g(2) w(3) by auto
  from history_of_trips [OF run map_redis_ok ok w(1) pub] w(2) have "ValidCoords (ls_Lat l) (ls_Lng l)" by (simp add: location_row_def)
  with run w show ?thesis by blast
qed

definition sample_turns :: "nat \<Rightarrow> turn" where
  "sample_turns n = (if n = 0 then Publish sample_event else if n = 1 then Pump else if n = 2 then Recv True else Tick True)"

definition sample_run :: "nat \<Rightarrow> history" where
  "sample_run n =
     (let w1 = history_start\<lparr>hi_published := [sample_event], hi_wire := [sample_event]\<rparr>; w2 = w1\<lparr>hi_wire := [], hi_out := [sample_event]\<rparr>;
          w3 = w2\<lparr>hi_out := [], hi_batch := [sample_location]\<rparr> in
      if n = 0 then history_start else if n = 1 then w1 else if n = 2 then w2 else if n = 3 then w3
      else w3\<lparr>hi_batch := [], hi_table := [location_row sample_location]\<rparr>)"

lemma sample_healthy: "healthy_run (NewLocationBatchWriter 0 0) sample_turns sample_run"
proof -
  have "history_step (NewLocationBatchWriter 0 0) (sample_turns n) (sample_run n) = Some (sample_run (Suc n))" for n
    by (simp add: history_step_def sample_turns_def sample_run_def history_start_def subscribed_trip bus_send_def out_capacity_def
        take_event_def sample_event_simps Let_def insertBatch_rows flush_def NewLocationBatchWriter_def)
  moreover have "\<exists>m\<ge>n. sample_turns m = Tick True" for n by (rule exI [of _ "n + 3"]) (simp add: sample_turns_def)
  moreover have "\<exists>m\<ge>n. sample_turns m = Recv True" if "hi_out (sample_run n) \<noteq> []" for n
  proof -
    have "n = 2" using that by (simp add: sample_run_def history_start_def Let_def split: if_splits)
    then show ?thesis by (intro exI [of _ 2]) (simp add: sample_turns_def)
  qed
  ultimately show ?thesis
    by (simp add: healthy_run_def) (simp add: sample_run_def sample_turns_def history_start_def Let_def)
qed

theorem history_complete_witness:
  "\<exists>m\<ge>2. \<forall>k\<ge>m. location_row sample_location \<in> set (hi_table (sample_run k))"
proof -
  have e: "sample_event \<in> set (hi_out (sample_run 2))" by (simp add: sample_run_def Let_def)
  show ?thesis by (rule history_complete [OF sample_healthy e sample_event_simps])
qed

theorem shutdown_race_witness:
  "\<exists>w. history_run (NewLocationBatchWriter 0 0) [Publish sample_event, Pump, Recv True, Cancel, BusEnd, RecvClosed True] history_start = Some w
     \<and> hi_table w = []"
proof -
  have "1 < bw_batchSize (NewLocationBatchWriter 0 0)" by (simp add: NewLocationBatchWriter_def)
  from shutdown_race [OF this sample_event_def] show ?thesis by blast
qed

end
