(* ===== verification/EdgeLimits.thy ===== *)
theory EdgeLimits
  imports RouteModel Auth
begin

text \<open>
  \<open>internal/middleware/security.go\<close>, \<open>cors.go\<close> and \<open>internal/handler/health.go\<close>: the limits that
  every request passes before it reaches a handler, the allowed origins and the health check.
  Times are nanoseconds; the clock and the reachability of Redis are inputs.
\<close>

section \<open>Request bodies, origins, health\<close>

definition defaultBodyLimitBytes :: int where
  "defaultBodyLimitBytes = 1048576"

text \<open>What a handler reads of a body behind \<open>http.MaxBytesReader\<close>.\<close>

definition RequestBodyLimit :: "int \<Rightarrow> string \<Rightarrow> string + string" where
  "RequestBodyLimit limitBytes body =
     (let n = if limitBytes \<le> 0 then defaultBodyLimitBytes else limitBytes in
      if int (length body) > n then Inl ''http: request body too large'' else Inr body)"

definition cors_origins :: "string list \<Rightarrow> string list" where
  "cors_origins allowed = (if allowed = [] then [''*''] else allowed)"

definition health_Check :: "string option \<Rightarrow> http_failure option" where
  "health_Check ping_error = (if ping_error = None then None else Some (503, ''DEGRADED'', ''redis unreachable''))"

section \<open>Requests per client\<close>

definition minute :: int where
  "minute = 60000000000"

record bucket =
  bk_windowStart :: int
  bk_count :: int

record ip_limiter =
  il_buckets :: "string \<Rightarrow> bucket option"
  il_lastCleanup :: int

definition new_limiter :: "int \<Rightarrow> ip_limiter" where
  "new_limiter now = \<lparr>il_buckets = (\<lambda>_. None), il_lastCleanup = now\<rparr>"

definition drop_stale :: "int \<Rightarrow> (string \<Rightarrow> bucket option) \<Rightarrow> string \<Rightarrow> bucket option" where
  "drop_stale now bs k =
     (case bs k of None \<Rightarrow> None | Some b \<Rightarrow> if now - bk_windowStart b > 2 * minute then None else Some b)"

definition current_bucket :: "int \<Rightarrow> bucket option \<Rightarrow> bucket" where
  "current_bucket now b =
     (case b of None \<Rightarrow> \<lparr>bk_windowStart = now, bk_count = 0\<rparr>
      | Some b \<Rightarrow> if now - bk_windowStart b \<ge> minute then \<lparr>bk_windowStart = now, bk_count = 0\<rparr> else b)"

text \<open>One request: whether it may pass, and the limiter after it.\<close>

definition IPRateLimit :: "int \<Rightarrow> int \<Rightarrow> string \<Rightarrow> ip_limiter \<Rightarrow> bool \<times> ip_limiter" where
  "IPRateLimit limitPerMinute now ip l =
     (if limitPerMinute \<le> 0 then (True, l)
      else let stale = now - il_lastCleanup l > minute;
               buckets = if stale then drop_stale now (il_buckets l) else il_buckets l;
               b = current_bucket now (buckets ip);
               b' = b\<lparr>bk_count := bk_count b + 1\<rparr>
           in (bk_count b' \<le> limitPerMinute,
               \<lparr>il_buckets = buckets(ip \<mapsto> b'), il_lastCleanup = (if stale then now else il_lastCleanup l)\<rparr>))"

definition rate_limited :: http_failure where
  "rate_limited = (429, ''RATE_LIMITED'', ''too many requests; please retry later'')"

text \<open>The answers to a sequence of requests, each with its time and its address.\<close>

fun rate_run :: "int \<Rightarrow> ip_limiter \<Rightarrow> (int \<times> string) list \<Rightarrow> bool list" where
  "rate_run limit l [] = []"
| "rate_run limit l ((now, ip) # rest) =
     (case IPRateLimit limit now ip l of (ok, l') \<Rightarrow> ok # rate_run limit l' rest)"

lemma length_rate_run [simp]: "length (rate_run limit l reqs) = length reqs"
  by (induction reqs arbitrary: l) (auto split: prod.splits)

section \<open>One client alone\<close>

text \<open>The specification: a fixed window for one client, without a table and without cleaning.\<close>

fun window_run :: "int \<Rightarrow> bucket option \<Rightarrow> int list \<Rightarrow> bool list" where
  "window_run limit b [] = []"
| "window_run limit b (t # ts) =
     (let c = current_bucket t b in
      (bk_count c + 1 \<le> limit) # window_run limit (Some (c\<lparr>bk_count := bk_count c + 1\<rparr>)) ts)"

lemma length_window_run [simp]: "length (window_run limit b ts) = length ts"
  by (induction ts arbitrary: b) (auto simp: Let_def)

definition asked_by :: "string \<Rightarrow> (int \<times> string) list \<Rightarrow> int list" where
  "asked_by ip reqs = map fst (filter (\<lambda>r. snd r = ip) reqs)"

definition answers_to :: "string \<Rightarrow> (int \<times> string) list \<Rightarrow> bool list \<Rightarrow> bool list" where
  "answers_to ip reqs oks = map snd (filter (\<lambda>r. snd (fst r) = ip) (zip reqs oks))"

lemma answers_to_Cons: "answers_to ip (r # reqs) (ok # oks) = (if snd r = ip then [ok] else []) @ answers_to ip reqs oks"
  by (simp add: answers_to_def)

lemma asked_by_Cons: "asked_by ip (r # reqs) = (if snd r = ip then [fst r] else []) @ asked_by ip reqs"
  by (simp add: asked_by_def)

text \<open>What the table holds for a client is what it did last, or it has been dropped as too old.\<close>

definition bucket_rel :: "int \<Rightarrow> bucket option \<Rightarrow> bucket option \<Rightarrow> bool" where
  "bucket_rel \<tau> table b \<longleftrightarrow> table = b \<or> (table = None \<and> (\<exists>c. b = Some c \<and> bk_windowStart c + minute \<le> \<tau>))"

lemma bucket_rel_current: "bucket_rel \<tau> table b \<Longrightarrow> \<tau> \<le> t \<Longrightarrow> current_bucket t table = current_bucket t b"
  by (auto simp: bucket_rel_def current_bucket_def)

lemma bucket_rel_drop: "bucket_rel \<tau> (bs k) b \<Longrightarrow> \<tau> \<le> t \<Longrightarrow> bucket_rel t (drop_stale t bs k) b"
  by (auto simp: bucket_rel_def drop_stale_def minute_def split: option.splits)

lemma bucket_rel_later: "bucket_rel \<tau> table b \<Longrightarrow> \<tau> \<le> t \<Longrightarrow> bucket_rel t table b"
  by (auto simp: bucket_rel_def)

lemma IPRateLimit_table:
  assumes "0 < limit" "\<tau> \<le> t" "\<And>k. bucket_rel \<tau> (il_buckets l k) (bs k)" "IPRateLimit limit t ip l = (ok, l')"
  defines "c \<equiv> current_bucket t (bs ip)"
  shows "ok = (bk_count c + 1 \<le> limit)"
    and "bucket_rel t (il_buckets l' k) ((bs(ip \<mapsto> c\<lparr>bk_count := bk_count c + 1\<rparr>)) k)"
proof -
  let ?B = "if t - il_lastCleanup l > minute then drop_stale t (il_buckets l) else il_buckets l"
  have B: "bucket_rel t (?B j) (bs j)" for j
    using bucket_rel_drop[of \<tau> "il_buckets l" j "bs j" t] bucket_rel_later[of \<tau> "il_buckets l j" "bs j" t] assms(2,3) by auto
  then have cur: "current_bucket t (?B ip) = c"
    unfolding c_def using bucket_rel_current by blast
  have eq: "IPRateLimit limit t ip l = (bk_count c + 1 \<le> limit,
      \<lparr>il_buckets = ?B(ip \<mapsto> c\<lparr>bk_count := bk_count c + 1\<rparr>), il_lastCleanup = (if t - il_lastCleanup l > minute then t else il_lastCleanup l)\<rparr>)"
    using assms(1) unfolding IPRateLimit_def Let_def cur by simp
  with assms(4) show "ok = (bk_count c + 1 \<le> limit)" by simp
  from eq assms(4) have "il_buckets l' = ?B(ip \<mapsto> c\<lparr>bk_count := bk_count c + 1\<rparr>)" by auto
  then show "bucket_rel t (il_buckets l' k) ((bs(ip \<mapsto> c\<lparr>bk_count := bk_count c + 1\<rparr>)) k)"
    using B[of k] by (simp add: bucket_rel_def)
qed

text \<open>
  Requests of others and the cleaning of the table do not matter to a client: it is answered
  as if it were alone.
\<close>

lemma rate_run_alone:
  assumes "0 < limit" "sorted (map fst reqs)" "\<forall>r\<in>set reqs. \<tau> \<le> fst r" "\<And>k. bucket_rel \<tau> (il_buckets l k) (bs k)"
  shows "answers_to ip reqs (rate_run limit l reqs) = window_run limit (bs ip) (asked_by ip reqs)"
  using assms(2-)
proof (induction reqs arbitrary: l \<tau> bs)
  case Nil
  then show ?case by (simp add: answers_to_def asked_by_def)
next
  case (Cons r reqs)
  obtain t j where r: "r = (t, j)" by (cases r)
  obtain ok l' where step: "IPRateLimit limit t j l = (ok, l')" by fastforce
  let ?c = "current_bucket t (bs j)"
  let ?bs = "bs(j \<mapsto> ?c\<lparr>bk_count := bk_count ?c + 1\<rparr>)"
  have le: "\<tau> \<le> t" using Cons.prems(2) r by simp
  note table = IPRateLimit_table[OF assms(1) le Cons.prems(3) step]
  have "answers_to ip reqs (rate_run limit l' reqs) = window_run limit (?bs ip) (asked_by ip reqs)"
    by (rule Cons.IH[of t]) (use Cons.prems(1) r table(2) in auto)
  then show ?case using table(1) by (simp add: r step answers_to_Cons asked_by_Cons Let_def)
qed

section \<open>How many requests a client can get through\<close>

definition in_minute :: "int \<Rightarrow> int \<Rightarrow> bool" where
  "in_minute a t \<longleftrightarrow> a \<le> t \<and> t < a + minute"

definition let_through :: "int \<Rightarrow> int list \<Rightarrow> bool list \<Rightarrow> nat" where
  "let_through a ts oks = length (filter (\<lambda>r. in_minute a (fst r) \<and> snd r) (zip ts oks))"

lemma let_through_Nil [simp]: "let_through a [] oks = 0"
  by (simp add: let_through_def)

lemma let_through_Cons: "let_through a (t # ts) (ok # oks) = (if in_minute a t \<and> ok then 1 else 0) + let_through a ts oks"
  by (simp add: let_through_def)

text \<open>What a client in a given state can still get through in the minute that starts at \<open>a\<close>.\<close>

fun allowance :: "int \<Rightarrow> int \<Rightarrow> bucket option \<Rightarrow> int" where
  "allowance limit a None = 2 * limit - 1"
| "allowance limit a (Some b) =
     (if bk_windowStart b \<ge> a + minute then 0
      else if bk_windowStart b \<ge> a then max 0 (limit - bk_count b)
      else if bk_windowStart b + minute > a then max 0 (limit - bk_count b) + limit
      else 2 * limit - 1)"

lemma window_run_allowance:
  assumes "1 \<le> limit" "sorted ts" "\<And>c. b = Some c \<Longrightarrow> 1 \<le> bk_count c \<and> (\<forall>t\<in>set ts. bk_windowStart c \<le> t)"
  shows "int (let_through a ts (window_run limit b ts)) \<le> allowance limit a b"
  using assms(2,3)
proof (induction ts arbitrary: b)
  case Nil
  then show ?case using assms(1) by (cases b) auto
next
  case (Cons t ts)
  let ?c = "current_bucket t b"
  let ?b = "?c\<lparr>bk_count := bk_count ?c + 1\<rparr>"
  have start: "bk_windowStart ?c \<le> t" and count: "0 \<le> bk_count ?c"
    using Cons.prems(2) by (auto simp: current_bucket_def split: option.splits)
  have IH: "int (let_through a ts (window_run limit (Some ?b) ts)) \<le> allowance limit a (Some ?b)"
    by (rule Cons.IH) (use Cons.prems(1) start count in auto)
  have "(if in_minute a t \<and> bk_count ?c + 1 \<le> limit then 1 else 0) + allowance limit a (Some ?b) \<le> allowance limit a b"
  proof (cases b)
    case None
    then show ?thesis using assms(1) by (auto simp: current_bucket_def in_minute_def minute_def)
  next
    case (Some c)
    then show ?thesis using assms(1) Cons.prems(2)[OF Some]
      by (auto simp: current_bucket_def in_minute_def minute_def)
  qed
  moreover have "let_through a (t # ts) (window_run limit b (t # ts)) =
      (if in_minute a t \<and> bk_count ?c + 1 \<le> limit then 1 else 0) + let_through a ts (window_run limit (Some ?b) ts)"
    by (simp add: Let_def let_through_Cons)
  ultimately show ?case using IH by (auto simp del: allowance.simps window_run.simps split: if_split_asm)
qed

lemma refused_overdrew:
  assumes "sorted (pre @ ts)" "(t, False) \<in> set (zip ts (window_run limit b ts))" "0 < limit"
    "\<And>c. b = Some c \<Longrightarrow> bk_count c \<le> int (length (filter (\<lambda>u. bk_windowStart c \<le> u) pre)) \<and> (\<forall>u\<in>set ts. bk_windowStart c \<le> u)"
  shows "\<exists>a. in_minute a t \<and> limit < int (length (filter (in_minute a) (pre @ ts)))"
  using assms(1,2,4)
proof (induction ts arbitrary: b pre)
  case Nil
  then show ?case by simp
next
  case (Cons u ts)
  let ?c = "current_bucket u b"
  let ?b = "?c\<lparr>bk_count := bk_count ?c + 1\<rparr>"
  let ?s = "bk_windowStart ?c"
  have s: "?s \<le> u" "u < ?s + minute"
    using Cons.prems(3) by (auto simp: current_bucket_def minute_def split: option.splits)
  have cnt: "bk_count ?c \<le> int (length (filter (\<lambda>v. ?s \<le> v) pre))"
    using Cons.prems(3) by (auto simp: current_bucket_def split: option.splits)
  show ?case
  proof (cases "t = u \<and> limit < bk_count ?c + 1")
    case True
    have "filter (in_minute ?s) pre = filter (\<lambda>v. ?s \<le> v) pre"
      using Cons.prems(1) s(2) by (intro filter_cong) (auto simp: in_minute_def sorted_append)
    moreover have here: "in_minute ?s u" using s by (simp add: in_minute_def)
    ultimately have "bk_count ?c + 1 \<le> int (length (filter (in_minute ?s) (pre @ u # ts)))"
      using cnt by simp
    then show ?thesis using True here by (intro exI[of _ ?s]) simp
  next
    case False
    then have later: "(t, False) \<in> set (zip ts (window_run limit (Some ?b) ts))"
      using Cons.prems(2) by (auto simp: Let_def)
    have "\<exists>a. in_minute a t \<and> limit < int (length (filter (in_minute a) ((pre @ [u]) @ ts)))"
    proof (rule Cons.IH[OF _ later])
      show "sorted ((pre @ [u]) @ ts)" using Cons.prems(1) by simp
      fix c assume "Some ?b = Some c"
      then show "bk_count c \<le> int (length (filter (\<lambda>v. bk_windowStart c \<le> v) (pre @ [u]))) \<and> (\<forall>v\<in>set ts. bk_windowStart c \<le> v)"
        using cnt s Cons.prems(1) by (auto simp: sorted_append)
    qed
    then show ?thesis by simp
  qed
qed

text \<open>
  C30. The limit of requests per client, when requests take the lock in the order in which they read
  the clock: a client's answers do not depend on the requests of
  others; in no minute, wherever it starts, does a client get through twice the limit (the
  fixed windows let up to one less than that pass across a boundary); and a client is refused
  only if more than the limit of its requests fell into one minute around the refused one.
\<close>

theorem ip_rate_limit:
  assumes "0 < limit" "sorted (map fst reqs)"
  shows "answers_to ip reqs (rate_run limit (new_limiter start) reqs) = window_run limit None (asked_by ip reqs)
    \<and> int (let_through a (asked_by ip reqs) (answers_to ip reqs (rate_run limit (new_limiter start) reqs))) \<le> 2 * limit - 1
    \<and> ((t, False) \<in> set (zip (asked_by ip reqs) (answers_to ip reqs (rate_run limit (new_limiter start) reqs)))
      \<longrightarrow> (\<exists>b. in_minute b t \<and> limit < int (length (filter (in_minute b) (asked_by ip reqs)))))"
proof (intro conjI impI)
  have ordered: "sorted (asked_by ip reqs)"
    unfolding asked_by_def using assms(2) by (rule sorted_filter)
  obtain \<tau> where \<tau>: "\<forall>r\<in>set reqs. \<tau> \<le> fst r"
    using assms(2) by (cases reqs) (auto intro: order.refl)
  show alone: "answers_to ip reqs (rate_run limit (new_limiter start) reqs) = window_run limit None (asked_by ip reqs)"
    using rate_run_alone[OF assms(1,2) \<tau>, of "new_limiter start" "\<lambda>_. None"]
    by (simp add: new_limiter_def bucket_rel_def)
  show "int (let_through a (asked_by ip reqs) (answers_to ip reqs (rate_run limit (new_limiter start) reqs))) \<le> 2 * limit - 1"
    using window_run_allowance[OF _ ordered, of limit None a] assms(1) by (simp add: alone)
  show "\<exists>b. in_minute b t \<and> limit < int (length (filter (in_minute b) (asked_by ip reqs)))"
    if "(t, False) \<in> set (zip (asked_by ip reqs) (answers_to ip reqs (rate_run limit (new_limiter start) reqs)))"
    using refused_overdrew[of "[]" "asked_by ip reqs" t limit None] ordered assms(1) that by (simp add: alone)
qed

definition seconds :: "int \<Rightarrow> int" where
  "seconds s = s * 1000000000"

definition example_requests :: "(int \<times> string) list" where
  "example_requests =
     [(seconds 0, ''a''), (seconds 59, ''a''), (seconds 59, ''b''), (seconds 60, ''a''), (seconds 60, ''a''), (seconds 60, ''a'')]"

text \<open>Two a minute: the client \<open>a\<close> gets three through in_minute two seconds, and is then refused.\<close>

theorem ip_rate_limit_witness:
  "rate_run 2 (new_limiter 0) example_requests = [True, True, True, True, True, False]
    \<and> let_through (seconds 59) (asked_by ''a'' example_requests)
        (answers_to ''a'' example_requests (rate_run 2 (new_limiter 0) example_requests)) = 3
    \<and> int (let_through (seconds 59) (asked_by ''a'' example_requests)
        (answers_to ''a'' example_requests (rate_run 2 (new_limiter 0) example_requests))) \<le> 2 * 2 - 1
    \<and> (\<exists>b. in_minute b (seconds 60) \<and> 2 < int (length (filter (in_minute b) (asked_by ''a'' example_requests))))"
proof -
  note defs = example_requests_def seconds_def
  have run: "rate_run 2 (new_limiter 0) example_requests = [True, True, True, True, True, False]"
    by (simp add: defs IPRateLimit_def new_limiter_def drop_stale_def current_bucket_def minute_def)
  have ordered: "sorted (map fst example_requests)" by (simp add: defs)
  have "(seconds 60, False) \<in> set (zip (asked_by ''a'' example_requests)
      (answers_to ''a'' example_requests (rate_run 2 (new_limiter 0) example_requests)))"
    unfolding run by (simp add: asked_by_def answers_to_def defs)
  note refused = ip_rate_limit[THEN conjunct2, THEN conjunct2, rule_format, OF _ ordered this]
  have three: "let_through (seconds 59) (asked_by ''a'' example_requests)
      (answers_to ''a'' example_requests (rate_run 2 (new_limiter 0) example_requests)) = 3"
    unfolding run by (simp add: let_through_def asked_by_def answers_to_def defs in_minute_def minute_def)
  show ?thesis
    using run three refused ip_rate_limit[THEN conjunct2, THEN conjunct1, of 2 example_requests "seconds 59" "''a''" 0] ordered by simp
qed

end
