(* ===== verification/ServerStart.thy ===== *)
theory ServerStart
  imports ShipmentDb WsNearby TransitLoader RouteApi GpsService EdgeLimits
begin

text \<open>
  \<open>config/config.go\<close>, \<open>internal/middleware/security.go\<close> and \<open>cmd/server/main.go\<close>: the configuration
  read from the environment, the limit on requests per client, how the server connects to the
  shipments, what makes it refuse to start, and what stands between a request and its handler.
  \<open>ParseFloat\<close>, the number of processors and the outcome of connections are parameters.
\<close>

section \<open>The environment\<close>

text \<open>An unset variable reads as the empty text.\<close>

type_synonym environ = "string \<Rightarrow> string"

definition getEnv :: "environ \<Rightarrow> string \<Rightarrow> string \<Rightarrow> string" where
  "getEnv env key fallback = (let v = env key in if v \<noteq> [] then v else fallback)"

definition getEnvInt :: "environ \<Rightarrow> string \<Rightarrow> int \<Rightarrow> int" where
  "getEnvInt env key fallback =
     (let v = env key in if v \<noteq> [] then (case ParseInt v of Some n \<Rightarrow> n | None \<Rightarrow> fallback) else fallback)"

definition getEnvInt64 :: "environ \<Rightarrow> string \<Rightarrow> int \<Rightarrow> int" where
  "getEnvInt64 env key fallback =
     (let v = env key in if v \<noteq> [] then (case ParseInt v of Some n \<Rightarrow> n | None \<Rightarrow> fallback) else fallback)"

definition getEnvFloat :: "(string \<Rightarrow> float64 option) \<Rightarrow> environ \<Rightarrow> string \<Rightarrow> float64 \<Rightarrow> float64" where
  "getEnvFloat parse env key fallback =
     (let v = env key in if v \<noteq> [] then (case parse v of Some f \<Rightarrow> f | None \<Rightarrow> fallback) else fallback)"

definition ParseBool :: "string \<Rightarrow> bool option" where
  "ParseBool s =
     (if s \<in> set [''1'', ''t'', ''T'', ''true'', ''TRUE'', ''True''] then Some True
      else if s \<in> set [''0'', ''f'', ''F'', ''false'', ''FALSE'', ''False''] then Some False else None)"

definition getEnvBool :: "environ \<Rightarrow> string \<Rightarrow> bool \<Rightarrow> bool" where
  "getEnvBool env key fallback =
     (let v = env key in if v \<noteq> [] then (case ParseBool v of Some b \<Rightarrow> b | None \<Rightarrow> fallback) else fallback)"

definition splitCSV :: "string \<Rightarrow> string list" where
  "splitCSV v = filter (\<lambda>p. p \<noteq> []) (map TrimSpace (Split (CHR '','') v))"

definition defaultInternalRoutingLimit :: "int \<Rightarrow> int" where
  "defaultInternalRoutingLimit cpus = (if cpus \<le> 0 then 1 else if cpus > 4 then 4 else cpus)"

text \<open>The fields of \<open>config.Config\<close>, in four parts.\<close>

record ServiceConfig =
  cg_Port :: string
  cg_RedisAddr :: string
  cg_RedisPassword :: string
  cg_RedisDB :: int
  cg_AvgSpeedKmH :: float64
  cg_GPSRateLimitMs :: int
  cg_PostgresDSN :: string
  cg_RoadGraphRegions :: "string list"
  cg_RoadGraphLoadSec :: int
  cg_DeviationThreshKm :: float64
  cg_BatchSize :: int
  cg_BatchFlushSec :: int
  cg_CORSAllowedOrigins :: "string list"
  cg_APIKeyEnabled :: bool
  cg_APIKey :: string
  cg_JWTAuthEnabled :: bool
  cg_JWTSecret :: string
  cg_JWTAlgorithm :: string
  cg_RateLimitPerMin :: int
  cg_RequestBodyLimit :: int

record RoutingConfig =
  cg_RoutingBackend :: string
  cg_OSRMBaseURL :: string
  cg_RoutingTimeoutMs :: int
  cg_RoutingMaxInFlight :: int
  cg_InternalMaxInFlight :: int
  cg_OSRMMaxInFlight :: int
  cg_RoutingQueueTimeoutMs :: int
  cg_RoutingYenSpurCap :: int
  cg_RoutingMaxAlternatives :: int
  cg_RouteCachePrecision :: int
  cg_InternalGraphEnabled :: bool
  cg_InternalGraphLazyLoad :: bool
  cg_InternalGraphRequired :: bool

record ShipmentsConfig =
  cg_ShipmentDBDriver :: string
  cg_ShipmentDBDSN :: string
  cg_ShipmentTable :: string
  cg_ShipmentOriginLocationColumn :: string
  cg_ShipmentEndLocationColumn :: string
  cg_ShipmentSearchRadiusKm :: float64
  cg_ShipmentSearchLimit :: int
  cg_ShipmentWeightColumn :: string
  cg_VehicleBoxSizesTable :: string
  cg_VehicleIDColumn :: string
  cg_VehicleWeightColumn :: string
  cg_VehicleTypesTable :: string
  cg_VehicleTypeLabelColumn :: string
  cg_VehicleTypeTitleColumn :: string
  cg_ContentTypesTable :: string
  cg_ContentTypeIDColumn :: string
  cg_ContentTypeImageColumn :: string
  cg_ShipmentImagesTable :: string
  cg_ShipmentImageShipmentIDColumn :: string
  cg_ShipmentImageColumn :: string
  cg_MediaPublicBaseURL :: string
  cg_DriverGeoKey :: string
  cg_DriverLocationStreamKey :: string
  cg_DriverSearchRadiusKm :: float64

record SocketConfig =
  cg_WebSocketTripAuthEnabled :: bool
  cg_WSShipmentRequireTLS :: bool
  cg_WSShipmentAuthRequired :: bool
  cg_WSShipmentLegacyFormat :: bool
  cg_WSShipmentMaxPayloadBytes :: int
  cg_WSShipmentMaxConnections :: int
  cg_WSShipmentMaxPerIP :: int
  cg_WSShipmentMessagesPerSec :: float64
  cg_WSShipmentMessageBurst :: int
  cg_WSShipmentIdleTimeoutSec :: int
  cg_WSShipmentPingIntervalSec :: int

record ServerConfig =
  cg_service :: ServiceConfig
  cg_routing :: RoutingConfig
  cg_shipments :: ShipmentsConfig
  cg_sockets :: SocketConfig

definition load_service :: "(string \<Rightarrow> float64 option) \<Rightarrow> environ \<Rightarrow> ServiceConfig" where
  "load_service parse env =
     \<lparr>cg_Port = getEnv env ''PORT'' ''8080'',
      cg_RedisAddr = getEnv env ''REDIS_ADDR'' ''localhost:6379'',
      cg_RedisPassword = getEnv env ''REDIS_PASSWORD'' [],
      cg_RedisDB = getEnvInt env ''REDIS_DB'' 0,
      cg_AvgSpeedKmH = getEnvFloat parse env ''AVG_SPEED_KMH'' 40,
      cg_GPSRateLimitMs = getEnvInt64 env ''GPS_RATE_LIMIT_MS'' 3000,
      cg_PostgresDSN = getEnv env ''POSTGRES_DSN'' [],
      cg_RoadGraphRegions = splitCSV (getEnv env ''ROAD_GRAPH_REGIONS'' []),
      cg_RoadGraphLoadSec = getEnvInt64 env ''ROAD_GRAPH_LOAD_TIMEOUT_SEC'' 180,
      cg_DeviationThreshKm = getEnvFloat parse env ''DEVIATION_THRESH_KM'' (5 / 100),
      cg_BatchSize = getEnvInt env ''BATCH_SIZE'' 500,
      cg_BatchFlushSec = getEnvInt64 env ''BATCH_FLUSH_SEC'' 2,
      cg_CORSAllowedOrigins = (let origins = splitCSV (getEnv env ''CORS_ALLOWED_ORIGINS'' ''*'') in if origins = [] then [''*''] else origins),
      cg_APIKeyEnabled = getEnvBool env ''API_KEY_ENABLED'' False,
      cg_APIKey = getEnv env ''API_KEY'' [],
      cg_JWTAuthEnabled = getEnvBool env ''JWT_AUTH_ENABLED'' True,
      cg_JWTSecret = getEnv env ''JWT_SECRET'' [],
      cg_JWTAlgorithm = getEnv env ''JWT_ALGO'' ''HS256'',
      cg_RateLimitPerMin = getEnvInt env ''RATE_LIMIT_PER_MINUTE'' 300,
      cg_RequestBodyLimit = getEnvInt64 env ''REQUEST_BODY_LIMIT_BYTES'' 1048576\<rparr>"

definition load_routing :: "environ \<Rightarrow> int \<Rightarrow> RoutingConfig" where
  "load_routing env cpus =
     \<lparr>cg_RoutingBackend = getEnv env ''ROUTING_BACKEND'' ''internal'',
      cg_OSRMBaseURL = getEnv env ''OSRM_BASE_URL'' ''http://osrm:5000'',
      cg_RoutingTimeoutMs = getEnvInt64 env ''ROUTING_TIMEOUT_MS'' 30000,
      cg_RoutingMaxInFlight = getEnvInt env ''ROUTING_MAX_IN_FLIGHT'' 100,
      cg_InternalMaxInFlight = getEnvInt env ''INTERNAL_ROUTING_MAX_IN_FLIGHT'' (defaultInternalRoutingLimit cpus),
      cg_OSRMMaxInFlight = getEnvInt env ''OSRM_ROUTING_MAX_IN_FLIGHT'' 100,
      cg_RoutingQueueTimeoutMs = getEnvInt64 env ''ROUTING_QUEUE_TIMEOUT_MS'' 1000,
      cg_RoutingYenSpurCap = getEnvInt env ''ROUTING_YEN_SPUR_CAP'' 60,
      cg_RoutingMaxAlternatives = getEnvInt env ''ROUTING_MAX_ALTERNATIVES'' 1,
      cg_RouteCachePrecision = getEnvInt env ''ROUTE_CACHE_PRECISION'' 5,
      cg_InternalGraphEnabled = getEnvBool env ''INTERNAL_GRAPH_ENABLED'' True,
      cg_InternalGraphLazyLoad = getEnvBool env ''INTERNAL_GRAPH_LAZY_LOAD'' False,
      cg_InternalGraphRequired = getEnvBool env ''INTERNAL_GRAPH_REQUIRED'' True\<rparr>"

definition load_shipments :: "(string \<Rightarrow> float64 option) \<Rightarrow> environ \<Rightarrow> ShipmentsConfig" where
  "load_shipments parse env =
     \<lparr>cg_ShipmentDBDriver = getEnv env ''SHIPMENT_DB_DRIVER'' ''postgres'',
      cg_ShipmentDBDSN = getEnv env ''SHIPMENT_DB_DSN'' [],
      cg_ShipmentTable = getEnv env ''SHIPMENT_TABLE'' ''shipments'',
      cg_ShipmentOriginLocationColumn = getEnv env ''SHIPMENT_ORIGIN_LOCATION_COLUMN'' ''start_location'',
      cg_ShipmentEndLocationColumn = getEnv env ''SHIPMENT_END_LOCATION_COLUMN'' ''end_location'',
      cg_ShipmentSearchRadiusKm = getEnvFloat parse env ''SHIPMENT_SEARCH_RADIUS_KM'' 2,
      cg_ShipmentSearchLimit = getEnvInt env ''SHIPMENT_SEARCH_LIMIT'' 100,
      cg_ShipmentWeightColumn = getEnv env ''SHIPMENT_WEIGHT_COLUMN'' ''package_length'',
      cg_VehicleBoxSizesTable = getEnv env ''VEHICLE_BOX_SIZES_TABLE'' ''vehicle_box_sizes'',
      cg_VehicleIDColumn = getEnv env ''VEHICLE_ID_COLUMN'' ''vehicle_id'',
      cg_VehicleWeightColumn = getEnv env ''VEHICLE_WEIGHT_COLUMN'' ''standard_length'',
      cg_VehicleTypesTable = getEnv env ''VEHICLE_TYPES_TABLE'' ''vehicle_types'',
      cg_VehicleTypeLabelColumn = getEnv env ''VEHICLE_TYPE_LABEL_COLUMN'' ''label'',
      cg_VehicleTypeTitleColumn = getEnv env ''VEHICLE_TYPE_TITLE_COLUMN'' ''title'',
      cg_ContentTypesTable = getEnv env ''CONTENT_TYPES_TABLE'' [],
      cg_ContentTypeIDColumn = getEnv env ''CONTENT_TYPE_ID_COLUMN'' ''content_type_id'',
      cg_ContentTypeImageColumn = getEnv env ''CONTENT_TYPE_IMAGE_COLUMN'' ''image'',
      cg_ShipmentImagesTable = getEnv env ''SHIPMENT_IMAGES_TABLE'' [],
      cg_ShipmentImageShipmentIDColumn = getEnv env ''SHIPMENT_IMAGE_SHIPMENT_ID_COLUMN'' ''shipment_id'',
      cg_ShipmentImageColumn = getEnv env ''SHIPMENT_IMAGE_COLUMN'' ''image'',
      cg_MediaPublicBaseURL = getEnv env ''MEDIA_PUBLIC_BASE_URL'' [],
      cg_DriverGeoKey = getEnv env ''DRIVER_GEO_KEY'' ''drivers:geo'',
      cg_DriverLocationStreamKey = getEnv env ''DRIVER_LOCATION_STREAM_KEY'' ''driver:locations:stream'',
      cg_DriverSearchRadiusKm = getEnvFloat parse env ''DRIVER_SEARCH_RADIUS_KM'' 20\<rparr>"

definition load_sockets :: "(string \<Rightarrow> float64 option) \<Rightarrow> environ \<Rightarrow> SocketConfig" where
  "load_sockets parse env =
     \<lparr>cg_WebSocketTripAuthEnabled = getEnvBool env ''WEBSOCKET_AUTH_ENABLED'' False,
      cg_WSShipmentRequireTLS = getEnvBool env ''WS_SHIPMENT_REQUIRE_TLS'' False,
      cg_WSShipmentAuthRequired = getEnvBool env ''WS_SHIPMENT_AUTH_REQUIRED'' True,
      cg_WSShipmentLegacyFormat = getEnvBool env ''WS_SHIPMENT_LEGACY_FORMAT'' True,
      cg_WSShipmentMaxPayloadBytes = getEnvInt64 env ''WS_SHIPMENT_MAX_PAYLOAD_BYTES'' 4096,
      cg_WSShipmentMaxConnections = getEnvInt env ''WS_SHIPMENT_MAX_CONNECTIONS'' 2000,
      cg_WSShipmentMaxPerIP = getEnvInt env ''WS_SHIPMENT_MAX_PER_IP'' 10,
      cg_WSShipmentMessagesPerSec = getEnvFloat parse env ''WS_SHIPMENT_MESSAGES_PER_SEC'' 2,
      cg_WSShipmentMessageBurst = getEnvInt env ''WS_SHIPMENT_MESSAGE_BURST'' 5,
      cg_WSShipmentIdleTimeoutSec = getEnvInt64 env ''WS_SHIPMENT_IDLE_TIMEOUT_SEC'' 90,
      cg_WSShipmentPingIntervalSec = getEnvInt64 env ''WS_SHIPMENT_PING_INTERVAL_SEC'' 30\<rparr>"

definition Load :: "(string \<Rightarrow> float64 option) \<Rightarrow> environ \<Rightarrow> int \<Rightarrow> ServerConfig" where
  "Load parse env cpus =
     \<lparr>cg_service = load_service parse env, cg_routing = load_routing env cpus, cg_shipments = load_shipments parse env,
      cg_sockets = load_sockets parse env\<rparr>"

section \<open>The database of shipments\<close>

text \<open>What \<open>connectShipmentDBWithRetry\<close> hands to \<open>NewShipmentDB\<close>; the other fields stay empty.\<close>

definition shipment_db_config :: "ShipmentsConfig \<Rightarrow> ShipmentDBConfig" where
  "shipment_db_config c =
     \<lparr>sc_Driver = cg_ShipmentDBDriver c, sc_DSN = cg_ShipmentDBDSN c, sc_Table = cg_ShipmentTable c,
      sc_LocationColumn = cg_ShipmentOriginLocationColumn c, sc_EndLocationColumn = cg_ShipmentEndLocationColumn c,
      sc_LatColumn = [], sc_LngColumn = [], sc_VehicleAllowedColumn = [],
      sc_VehicleBoxSizesTable = cg_VehicleBoxSizesTable c, sc_VehicleIDColumn = cg_VehicleIDColumn c,
      sc_VehicleWeightColumn = cg_VehicleWeightColumn c, sc_VehicleTypesTable = cg_VehicleTypesTable c,
      sc_VehicleTypeLabelColumn = cg_VehicleTypeLabelColumn c, sc_VehicleTypeTitleColumn = cg_VehicleTypeTitleColumn c,
      sc_ContentTypesTable = cg_ContentTypesTable c, sc_ContentTypeIDColumn = cg_ContentTypeIDColumn c,
      sc_ContentTypeImageColumn = cg_ContentTypeImageColumn c, sc_ShipmentImagesTable = cg_ShipmentImagesTable c,
      sc_ShipmentImageShipmentIDColumn = cg_ShipmentImageShipmentIDColumn c, sc_ShipmentImageColumn = cg_ShipmentImageColumn c,
      sc_MediaPublicBaseURL = cg_MediaPublicBaseURL c\<rparr>"

definition shipmentDBConnectAttemptTimeout :: int where "shipmentDBConnectAttemptTimeout = seconds 10"
definition shipmentDBConnectRetryWindow :: int where "shipmentDBConnectRetryWindow = seconds 90"
definition shipmentDBConnectRetryDelay :: int where "shipmentDBConnectRetryDelay = seconds 3"

text \<open>
  What happens around the loop: attempt \<open>n\<close> with the time it is given ends after a while with a
  result; the wait after it ends by the timer, some time late, or by the end of the context.
\<close>

record 'db dialing =
  dl_attempt :: "nat \<Rightarrow> int \<Rightarrow> (string + 'db) \<times> nat"
  dl_wait :: "nat \<Rightarrow> string + nat"

datatype 'db connected = Connected_to 'db | Not_connected "string option"

text \<open>The loop from attempt \<open>n\<close> at time \<open>now\<close>: its result, the time it returns, the attempts made.\<close>

function connect_loop :: "'db dialing \<Rightarrow> int \<Rightarrow> int \<Rightarrow> int \<Rightarrow> nat \<Rightarrow> string option \<Rightarrow> int \<Rightarrow> 'db connected \<times> int \<times> nat" where
  "connect_loop dl window delay deadline n lastErr now =
     (let attemptTimeout =
        (if window > 0 \<and> deadline - now < shipmentDBConnectAttemptTimeout then deadline - now else shipmentDBConnectAttemptTimeout) in
      if attemptTimeout \<le> 0 then (Not_connected lastErr, now, n)
      else case dl_attempt dl n attemptTimeout of
        (Inr db, d) \<Rightarrow> (Connected_to db, now + int d, Suc n)
      | (Inl e, d) \<Rightarrow>
          if window \<le> 0 \<or> delay \<le> 0 \<or> now + int d + delay > deadline then (Not_connected (Some e), now + int d, Suc n)
          else case dl_wait dl n of
            Inl cancelled \<Rightarrow> (Not_connected (Some cancelled), now + int d, Suc n)
          | Inr late \<Rightarrow> connect_loop dl window delay deadline (Suc n) (Some e) (now + int d + delay + int late))"
  by auto

termination
  by (relation "measure (\<lambda>(dl, window, delay, deadline, n, lastErr, now). nat (deadline - now))") auto

declare connect_loop.simps [simp del]

definition connectShipmentDBWithRetry ::
  "'db dialing \<Rightarrow> ShipmentsConfig \<Rightarrow> int \<Rightarrow> int \<Rightarrow> int \<Rightarrow> ('db connected \<times> int \<times> nat) option" where
  "connectShipmentDBWithRetry dl cfg retryWindow retryDelay now =
     (if TrimSpace (cg_ShipmentDBDSN cfg) = [] then None
      else Some (connect_loop dl retryWindow retryDelay (now + retryWindow) 0 None now))"

text \<open>\<open>connectShipmentDB\<close>; each attempt opens the database, or fails to, and builds the repository.\<close>

definition shipment_dialing :: "ShipmentsConfig \<Rightarrow> (nat \<Rightarrow> int \<Rightarrow> string option \<times> nat) \<Rightarrow> (nat \<Rightarrow> string + nat) \<Rightarrow> ShipmentDB option dialing" where
  "shipment_dialing cfg opened wait =
     \<lparr>dl_attempt = (\<lambda>n t. case opened n t of (e, d) \<Rightarrow> (NewShipmentDB e (shipment_db_config cfg), d)), dl_wait = wait\<rparr>"

definition connectShipmentDB ::
  "ShipmentsConfig \<Rightarrow> (nat \<Rightarrow> int \<Rightarrow> string option \<times> nat) \<Rightarrow> (nat \<Rightarrow> string + nat) \<Rightarrow> int
   \<Rightarrow> (ShipmentDB option connected \<times> int \<times> nat) option" where
  "connectShipmentDB cfg opened wait now =
     connectShipmentDBWithRetry (shipment_dialing cfg opened wait) cfg shipmentDBConnectRetryWindow shipmentDBConnectRetryDelay now"

section \<open>Start-up\<close>

text \<open>What the outside answers while the server starts.\<close>

record outcomes =
  oc_redis :: "string option"
  oc_postgres :: "string + postgres"
  oc_opened :: "nat \<Rightarrow> int \<Rightarrow> string option \<times> nat"
  oc_wait :: "nat \<Rightarrow> string + nat"
  oc_order :: "stop_map \<Rightarrow> transitStop list"
  oc_now :: int

definition NewPostgres :: "string \<Rightarrow> string + postgres \<Rightarrow> string + postgres option" where
  "NewPostgres dsn opened =
     (if dsn = [] then Inr None else case opened of Inl e \<Rightarrow> Inl e | Inr p \<Rightarrow> Inr (Some p))"

definition prepareInternalRouting :: "ServiceConfig \<Rightarrow> RoutingConfig \<Rightarrow> outcomes \<Rightarrow> postgres option \<Rightarrow> string + Engine option" where
  "prepareInternalRouting c r oc pg =
     (if \<not> shouldLoadInternalGraphAtStartup (cg_InternalGraphEnabled r) (cg_InternalGraphLazyLoad r) (cg_RoutingBackend r) then Inr None
      else case newRoutingEngine (oc_order oc) (cg_AvgSpeedKmH c) (cg_RoadGraphRegions c) (cg_RoutingYenSpurCap r) pg of
        Inl e \<Rightarrow> if cg_InternalGraphRequired r then Inl (''[routing] failed to load required road graph from PostGIS: '' @ e) else Inr None
      | Inr engine \<Rightarrow> Inr (Some engine))"

definition graphLoadTimeout :: "int \<Rightarrow> int" where
  "graphLoadTimeout s = (if s \<le> 0 then seconds 180 else seconds s)"

definition shipmentWSConfig :: "SocketConfig \<Rightarrow> Config" where
  "shipmentWSConfig c =
     \<lparr>cf_RequireTLS = cg_WSShipmentRequireTLS c, cf_AllowLegacy = cg_WSShipmentLegacyFormat c,
      cf_MaxPayloadBytes = cg_WSShipmentMaxPayloadBytes c, cf_MessagesPerSec = cg_WSShipmentMessagesPerSec c,
      cf_MessageBurst = cg_WSShipmentMessageBurst c\<rparr>"

definition socket_auth :: "bool \<Rightarrow> ServiceConfig \<Rightarrow> WSAuthOptions" where
  "socket_auth require c =
     \<lparr>wo_RequireAuth = require, wo_APIKey = cg_APIKey c, wo_JWTSecret = cg_JWTSecret c, wo_JWTAlgorithm = cg_JWTAlgorithm c\<rparr>"

definition auth_options :: "ServiceConfig \<Rightarrow> AuthOptions" where
  "auth_options c = \<lparr>ao_APIKey = cg_APIKey c, ao_JWTSecret = cg_JWTSecret c, ao_JWTAlgorithm = cg_JWTAlgorithm c\<rparr>"

text \<open>What \<open>main\<close> has put together when it starts to listen.\<close>

record server =
  gs_backend :: backend
  gs_shipmentDB :: "ShipmentDB option"
  gs_gpsRequireAuth :: bool
  gs_tripRequireAuth :: bool
  gs_tripAuth :: WSAuthOptions
  gs_shipmentAuth :: WSAuthOptions
  gs_socket :: Config
  gs_connections :: ConnLimiter
  gs_batch :: "(int \<times> int) option"
  gs_bodyLimit :: int
  gs_rateLimit :: int
  gs_auth :: "AuthOptions option"

definition connected_db :: "(ShipmentDB option connected \<times> int \<times> nat) option \<Rightarrow> ShipmentDB option" where
  "connected_db r = (case r of Some (Connected_to db, _, _) \<Rightarrow> db | _ \<Rightarrow> None)"

definition assemble :: "ServerConfig \<Rightarrow> postgres option \<Rightarrow> ShipmentDB option \<Rightarrow> Engine option \<Rightarrow> server" where
  "assemble cfg pg shipmentDB engine =
     (let c = cg_service cfg; r = cg_routing cfg; k = cg_sockets cfg in
      \<lparr>gs_backend = buildRouteBackend (cg_RoutingBackend r) (cg_OSRMBaseURL r) (cg_OSRMMaxInFlight r) (cg_InternalMaxInFlight r)
          (cg_RoutingQueueTimeoutMs r)
          (NewInternalBackendWithConfig engine (cg_AvgSpeedKmH c) (cg_InternalGraphEnabled r) (cg_InternalGraphLazyLoad r) True),
       gs_shipmentDB = shipmentDB,
       gs_gpsRequireAuth = (cg_JWTAuthEnabled c \<or> cg_APIKeyEnabled c),
       gs_tripRequireAuth = cg_WebSocketTripAuthEnabled k,
       gs_tripAuth = socket_auth (cg_WebSocketTripAuthEnabled k) c,
       gs_shipmentAuth = socket_auth (cg_WSShipmentAuthRequired k) c,
       gs_socket = shipmentWSConfig k,
       gs_connections = NewConnLimiter (cg_WSShipmentMaxPerIP k) (cg_WSShipmentMaxConnections k),
       gs_batch = (if pg = None then None else Some (cg_BatchSize c, cg_BatchFlushSec c)),
       gs_bodyLimit = cg_RequestBodyLimit c, gs_rateLimit = cg_RateLimitPerMin c,
       gs_auth = (if cg_APIKeyEnabled c \<or> cg_JWTAuthEnabled c then Some (auth_options c) else None)\<rparr>)"

text \<open>\<open>main\<close> up to \<open>ListenAndServe\<close>; \<open>log.Fatal\<close> is a left injection.\<close>

definition server_start :: "ServerConfig \<Rightarrow> outcomes \<Rightarrow> string + server" where
  "server_start cfg oc =
     (let c = cg_service cfg; r = cg_routing cfg in
      case oc_redis oc of Some e \<Rightarrow> Inl (''redis: '' @ e) | None \<Rightarrow>
      case NewPostgres (cg_PostgresDSN c) (oc_postgres oc) of Inl e \<Rightarrow> Inl (''postgres: '' @ e) | Inr pg \<Rightarrow>
      let shipmentDB = connected_db (connectShipmentDB (cg_shipments cfg) (oc_opened oc) (oc_wait oc) (oc_now oc)) in
      case prepareInternalRouting c r oc pg of Inl e \<Rightarrow> Inl e | Inr engine \<Rightarrow>
      if cg_APIKeyEnabled c \<and> TrimSpace (cg_APIKey c) = [] then Inl ''API_KEY_ENABLED=true requires API_KEY''
      else if cg_JWTAuthEnabled c \<and> TrimSpace (cg_JWTSecret c) = [] then Inl ''JWT_AUTH_ENABLED=true requires JWT_SECRET''
      else Inr (assemble cfg pg shipmentDB engine))"

section \<open>A request on its way to a handler\<close>

definition unauthorized :: http_failure where
  "unauthorized = (401, ''UNAUTHORIZED'', ''invalid or missing credentials'')"

definition serve_request ::
  "jwt_parser \<Rightarrow> server \<Rightarrow> int \<Rightarrow> string \<Rightarrow> http_request \<Rightarrow> (auth_context \<Rightarrow> 'a reply) \<Rightarrow> ip_limiter \<Rightarrow> 'a reply \<times> ip_limiter" where
  "serve_request parse srv now ip req handle l =
     (case IPRateLimit (gs_rateLimit srv) now ip l of
        (False, l') \<Rightarrow> (Failed rate_limited, l')
      | (True, l') \<Rightarrow>
          (case gs_auth srv of
             None \<Rightarrow> handle no_auth
           | Some opts \<Rightarrow> (case Auth parse opts req of None \<Rightarrow> Failed unauthorized | Some c \<Rightarrow> handle c), l'))"

text \<open>
  The handlers of trip positions, with what \<open>main\<close> gives them: the repository of shipments
  decides on trips when it is connected.
\<close>

definition trip_access :: "(ShipmentDB \<Rightarrow> int \<Rightarrow> int \<Rightarrow> bool option) \<Rightarrow> server \<Rightarrow> trip_owners" where
  "trip_access may srv = map_option may (gs_shipmentDB srv)"

definition server_trip_location ::
  "'s redis \<Rightarrow> (ShipmentDB \<Rightarrow> int \<Rightarrow> int \<Rightarrow> bool option) \<Rightarrow> server \<Rightarrow> 's \<Rightarrow> string \<Rightarrow> auth_context \<Rightarrow> LocationState reply" where
  "server_trip_location rd may srv st param c = gps_location_handler rd (gs_gpsRequireAuth srv) c (trip_access may srv) st param"

definition trip_socket ::
  "jwt_parser \<Rightarrow> (ShipmentDB \<Rightarrow> int \<Rightarrow> int \<Rightarrow> bool option) \<Rightarrow> server \<Rightarrow> string \<Rightarrow> ws_request \<Rightarrow> http_failure option" where
  "trip_socket parse may srv tripID r =
     ws_trip_admit parse (gs_tripAuth srv) (gs_tripRequireAuth srv) (trip_access may srv) tripID r"

text \<open>The service of drivers always exists, so the endpoint counts as configured without a database.\<close>

definition shipment_socket :: "jwt_parser \<Rightarrow> server \<Rightarrow> string \<Rightarrow> ws_request \<Rightarrow> ws_setup \<times> ConnLimiter" where
  "shipment_socket parse srv ip r =
     ws_admit parse (gs_socket srv) (gs_shipmentAuth srv) True ip r (gs_connections srv)"

section \<open>Connecting to the shipments\<close>

text \<open>The driver gives up when the context of an attempt ends, and a timer fires at most \<open>L\<close> late.\<close>

definition prompt :: "int \<Rightarrow> 'db dialing \<Rightarrow> bool" where
  "prompt L dl \<longleftrightarrow> 0 \<le> L \<and> (\<forall>n t. int (snd (dl_attempt dl n t)) \<le> max 0 t) \<and> (\<forall>n late. dl_wait dl n = Inr late \<longrightarrow> int late \<le> L)"

lemma connect_loop_bounded:
  assumes "connect_loop dl window delay deadline n lastErr now = (res, t, k)" "0 < window" "0 < delay" "prompt L dl"
  shows "n \<le> k \<and> int k * delay \<le> int n * delay + max 0 (deadline - now + delay) \<and> t \<le> max now (deadline + L)
    \<and> (now < deadline \<or> lastErr \<noteq> None \<longrightarrow> res \<noteq> Not_connected None)
    \<and> (\<forall>db. res = Connected_to db \<longrightarrow> n < k \<and> (\<exists>\<tau>>0. fst (dl_attempt dl (k - 1) \<tau>) = Inr db))"
  using assms
proof (induction dl window delay deadline n lastErr now arbitrary: res t k rule: connect_loop.induct)
  case (1 dl window delay deadline n lastErr now)
  let ?T = "if window > 0 \<and> deadline - now < shipmentDBConnectAttemptTimeout then deadline - now else shipmentDBConnectAttemptTimeout"
  obtain r d where a: "dl_attempt dl n ?T = (r, d)" by fastforce
  have d: "int d \<le> max 0 ?T" using 1(5) a by (auto simp: prompt_def dest!: spec[of _ n] spec[of _ ?T])
  have L: "0 \<le> L" using 1(5) by (simp add: prompt_def)
  show ?case
  proof (cases "?T \<le> 0")
    case True
    then have "res = Not_connected lastErr" "t = now" "k = n"
      using 1(2) by (simp_all add: connect_loop.simps Let_def)
    moreover have "deadline \<le> now" using True 1(3) by (auto simp: shipmentDBConnectAttemptTimeout_def seconds_def split: if_splits)
    ultimately show ?thesis by auto
  next
    case alive: False
    then have soon: "now < deadline" "?T \<le> deadline - now" using 1(3)
      by (auto simp: shipmentDBConnectAttemptTimeout_def seconds_def split: if_splits)
    show ?thesis
    proof (cases "\<exists>db. r = Inr db")
      case True
      then obtain db where "r = Inr db" by blast
      with 1(2) a alive have "res = Connected_to db" "t = now + int d" "k = Suc n"
        by (simp_all add: connect_loop.simps[of dl window] Let_def)
      moreover have "fst (dl_attempt dl n ?T) = Inr db" using a \<open>r = Inr db\<close> by simp
      ultimately show ?thesis using soon d L alive 1(4) by (auto simp: algebra_simps intro!: exI[of _ ?T])
    next
      case False
      then obtain e where e: "r = Inl e" by (cases r) auto
      show ?thesis
      proof (cases "now + int d + delay > deadline \<or> (\<exists>c. dl_wait dl n = Inl c)")
        case True
        with 1(2-4) a e alive have "\<exists>err. res = Not_connected (Some err)" "t = now + int d" "k = Suc n"
          by (auto simp: connect_loop.simps[of dl window] Let_def split: if_splits)
        then show ?thesis using soon d L 1(4) by (auto simp: algebra_simps)
      next
        case again: False
        then obtain late where late: "dl_wait dl n = Inr late" by (cases "dl_wait dl n") auto
        let ?now = "now + int d + delay + int late"
        have rec: "connect_loop dl window delay deadline (Suc n) (Some e) ?now = (res, t, k)"
          using 1(2-4) a e alive again late by (simp add: connect_loop.simps[of dl window delay deadline n] Let_def)
        have "Suc n \<le> k \<and> int k * delay \<le> int (Suc n) * delay + max 0 (deadline - ?now + delay) \<and> t \<le> max ?now (deadline + L)
            \<and> (?now < deadline \<or> Some e \<noteq> None \<longrightarrow> res \<noteq> Not_connected None)
            \<and> (\<forall>db. res = Connected_to db \<longrightarrow> Suc n < k \<and> (\<exists>\<tau>>0. fst (dl_attempt dl (k - 1) \<tau>) = Inr db))"
          by (rule 1(1)[OF refl _ a[symmetric] e _ late rec 1(3-5)]) (use alive again 1(3,4) in auto)
        moreover have "int late \<le> L" using 1(5) late by (simp add: prompt_def)
        ultimately show ?thesis using again soon 1(4) by (auto simp: algebra_simps)
      qed
    qed
  qed
qed

text \<open>
  C32. Connecting to the database of shipments ends: after at most 31 attempts, and, when the driver
  honours the timeout it is given and a timer fires at most \<open>L\<close> late, no more than \<open>L\<close> after the
  window of 90 seconds.  The result is the repository that an attempt built, or the error of
  an attempt; a failure is never reported as a database that is not configured.
\<close>

theorem connect_shipments_ends:
  assumes "connectShipmentDB cfg opened wait now = Some (res, t, k)" and "prompt L (shipment_dialing cfg opened wait)"
  shows "k \<le> 31 \<and> t \<le> now + seconds 90 + L \<and> res \<noteq> Not_connected None
    \<and> (\<forall>db. res = Connected_to db \<longrightarrow> (\<exists>opened. NewShipmentDB opened (shipment_db_config cfg) = Inr db))"
proof -
  from assms(1) have "connect_loop (shipment_dialing cfg opened wait) (seconds 90) (seconds 3) (now + seconds 90) 0 None now = (res, t, k)"
    by (auto simp: connectShipmentDB_def connectShipmentDBWithRetry_def shipmentDBConnectRetryWindow_def shipmentDBConnectRetryDelay_def
        split: if_splits)
  from connect_loop_bounded[OF this _ _ assms(2)]
  have b: "int k * seconds 3 \<le> max 0 (seconds 90 + seconds 3)" "t \<le> max now (now + seconds 90 + L)"
      "0 < seconds 90 \<Longrightarrow> res \<noteq> Not_connected None"
    and r: "\<forall>db. res = Connected_to db \<longrightarrow> (\<exists>\<tau>>0. fst (dl_attempt (shipment_dialing cfg opened wait) (k - 1) \<tau>) = Inr db)"
    by (simp_all add: seconds_def)
  have "\<exists>opened. NewShipmentDB opened (shipment_db_config cfg) = Inr db" if "res = Connected_to db" for db
  proof -
    from r that obtain \<tau> where "fst (dl_attempt (shipment_dialing cfg opened wait) (k - 1) \<tau>) = Inr db" by blast
    then show ?thesis by (cases "opened (k - 1) \<tau>") (auto simp: shipment_dialing_def)
  qed
  moreover have "0 \<le> L" using assms(2) by (simp add: prompt_def)
  ultimately show ?thesis using b by (auto simp: seconds_def)
qed

text \<open>A database that refuses the first attempt and takes the second.\<close>

definition second_time :: "nat \<Rightarrow> int \<Rightarrow> string option \<times> nat" where
  "second_time n t = (if n = 0 then Some ''connection refused'' else None, 0)"

section \<open>What a started server lets through\<close>

lemma server_start_ok:
  assumes "server_start cfg oc = Inr srv"
  obtains pg engine where
    "srv = assemble cfg pg (connected_db (connectShipmentDB (cg_shipments cfg) (oc_opened oc) (oc_wait oc) (oc_now oc))) engine"
    "cg_APIKeyEnabled (cg_service cfg) \<longrightarrow> TrimSpace (cg_APIKey (cg_service cfg)) \<noteq> []"
    "cg_JWTAuthEnabled (cg_service cfg) \<longrightarrow> TrimSpace (cg_JWTSecret (cg_service cfg)) \<noteq> []"
  using assms by (auto simp: server_start_def Let_def split: option.splits sum.splits if_splits)

lemma assemble_auth [simp]:
  "gs_auth (assemble cfg pg db engine) = (if cg_APIKeyEnabled (cg_service cfg) \<or> cg_JWTAuthEnabled (cg_service cfg) then Some (auth_options (cg_service cfg)) else None)"
  "gs_gpsRequireAuth (assemble cfg pg db engine) \<longleftrightarrow> cg_JWTAuthEnabled (cg_service cfg) \<or> cg_APIKeyEnabled (cg_service cfg)"
  "gs_tripRequireAuth (assemble cfg pg db engine) \<longleftrightarrow> cg_WebSocketTripAuthEnabled (cg_sockets cfg)"
  "gs_tripAuth (assemble cfg pg db engine) = socket_auth (cg_WebSocketTripAuthEnabled (cg_sockets cfg)) (cg_service cfg)"
  "gs_shipmentDB (assemble cfg pg db engine) = db"
  by (simp_all add: assemble_def Let_def)

lemma Load_switches:
  "cg_JWTAuthEnabled (cg_service (Load num env cpus)) = getEnvBool env ''JWT_AUTH_ENABLED'' True"
  "cg_JWTSecret (cg_service (Load num env cpus)) = getEnv env ''JWT_SECRET'' []"
  "cg_WebSocketTripAuthEnabled (cg_sockets (Load num env cpus)) = getEnvBool env ''WEBSOCKET_AUTH_ENABLED'' False"
  by (simp_all add: Load_def load_service_def load_sockets_def)

lemma getEnv_unset: "env name = [] \<Longrightarrow> getEnv env name d = d" "env name = [] \<Longrightarrow> getEnvBool env name b = b"
  by (simp_all add: getEnv_def getEnvBool_def)

text \<open>A reply of the handler itself, and not of what stands before it.\<close>

lemma serve_request_sent:
  assumes "serve_request parse srv now ip req handle l = (Sent x, l')"
  shows "(case gs_auth srv of None \<Rightarrow> handle no_auth = Sent x | Some opts \<Rightarrow> \<exists>c. Auth parse opts req = Some c \<and> handle c = Sent x)"
  using assms by (auto simp: serve_request_def split: prod.splits bool.splits option.splits)

lemma gps_location_sent:
  assumes "gps_location_handler rd True c authz st param = Sent pos"
  shows "\<exists>trip>0. ParseInt param = Some trip \<and> gps_GetLocation rd st trip = Some pos
    \<and> (AuthenticatedWithAPIKey c \<or> (\<exists>u may. AuthenticatedUserID c = Some u \<and> authz = Some may \<and> may u trip = Some True))"
proof -
  from assms obtain trip where t: "ParseInt param = Some trip" "0 < trip" "gps_authorize True c authz trip = None"
      "gps_GetLocation rd st trip = Some pos"
    by (auto simp: gps_location_handler_def split: option.splits if_splits)
  from t(3) have "AuthenticatedWithAPIKey c \<or> (\<exists>u may. AuthenticatedUserID c = Some u \<and> authz = Some may \<and> may u trip = Some True)"
    by (auto simp: gps_authorize_def split: option.splits if_splits)
  with t show ?thesis by blast
qed

lemma trip_location_reader:
  assumes "server_start cfg oc = Inr srv" and on: "cg_JWTAuthEnabled (cg_service cfg) \<or> cg_APIKeyEnabled (cg_service cfg)"
    and path: "\<not> public_path (ht_Path req)"
    and "serve_request parse srv now ip req (server_trip_location rd may srv st param) l = (Sent pos, l')"
  shows "TrimSpace (cg_APIKey (cg_service cfg)) \<noteq> [] \<and> ht_APIKey req = TrimSpace (cg_APIKey (cg_service cfg))
    \<or> TrimSpace (cg_JWTSecret (cg_service cfg)) \<noteq> []
      \<and> (\<exists>u trip db. accepted parse (auth_options (cg_service cfg)) (bearerToken req) u \<and> ParseInt param = Some trip \<and> 0 < trip
          \<and> gs_shipmentDB srv = Some db \<and> may db u trip = Some True)"
proof -
  from assms(1) obtain pg engine where srv:
    "srv = assemble cfg pg (connected_db (connectShipmentDB (cg_shipments cfg) (oc_opened oc) (oc_wait oc) (oc_now oc))) engine"
    by (rule server_start_ok)
  let ?o = "auth_options (cg_service cfg)"
  from serve_request_sent[OF assms(4)] on obtain c where c: "Auth parse ?o req = Some c" "server_trip_location rd may srv st param c = Sent pos"
    by (auto simp: srv)
  from c(2) have sent: "gps_location_handler rd True c (trip_access may srv) st param = Sent pos"
    using on by (auto simp: server_trip_location_def srv)
  note p = gps_location_sent[OF sent]
  show "TrimSpace (cg_APIKey (cg_service cfg)) \<noteq> [] \<and> ht_APIKey req = TrimSpace (cg_APIKey (cg_service cfg))
    \<or> TrimSpace (cg_JWTSecret (cg_service cfg)) \<noteq> []
      \<and> (\<exists>u trip db. accepted parse ?o (bearerToken req) u \<and> ParseInt param = Some trip \<and> 0 < trip
          \<and> gs_shipmentDB srv = Some db \<and> may db u trip = Some True)"
    using Auth_cases[OF c(1) path]
  proof
    assume "\<exists>userID. c = SetAuthenticatedJWT no_auth userID \<and> TrimSpace (ao_JWTSecret ?o) \<noteq> []
        \<and> bearerToken req \<noteq> [] \<and> accepted parse ?o (bearerToken req) userID"
    then obtain u where u: "c = SetAuthenticatedJWT no_auth u" "TrimSpace (ao_JWTSecret ?o) \<noteq> []" "accepted parse ?o (bearerToken req) u"
      by blast
    then have "\<not> AuthenticatedWithAPIKey c" by (simp add: AuthenticatedWithAPIKey_def SetAuthenticatedJWT_def)
    with p obtain trip v m where "ParseInt param = Some trip" "0 < trip" "AuthenticatedUserID c = Some v"
        "trip_access may srv = Some m" "m v trip = Some True" by blast
    moreover from this u(1) have "v = u" by (auto simp: AuthenticatedUserID_def SetAuthenticatedJWT_def split: if_splits)
    ultimately show ?thesis using u by (auto simp: trip_access_def auth_options_def)
  qed (simp add: auth_options_def)
qed

text \<open>When nothing else stops the server, a switch that is on without its key or secret does.\<close>

lemma switch_without_secret:
  assumes "oc_redis oc = None" "NewPostgres (cg_PostgresDSN (cg_service cfg)) (oc_postgres oc) = Inr pg"
    and "prepareInternalRouting (cg_service cfg) (cg_routing cfg) oc pg = Inr engine"
  shows "server_start cfg oc =
    (if cg_APIKeyEnabled (cg_service cfg) \<and> TrimSpace (cg_APIKey (cg_service cfg)) = [] then Inl ''API_KEY_ENABLED=true requires API_KEY''
     else if cg_JWTAuthEnabled (cg_service cfg) \<and> TrimSpace (cg_JWTSecret (cg_service cfg)) = [] then Inl ''JWT_AUTH_ENABLED=true requires JWT_SECRET''
     else Inr (assemble cfg pg (connected_db (connectShipmentDB (cg_shipments cfg) (oc_opened oc) (oc_wait oc) (oc_now oc))) engine))"
  using assms by (simp add: server_start_def Let_def)

lemma secret_needed:
  assumes "server_start (Load num env cpus) oc = Inr srv" "env ''JWT_AUTH_ENABLED'' = []"
  shows "TrimSpace (env ''JWT_SECRET'') \<noteq> []"
proof
  assume none: "TrimSpace (env ''JWT_SECRET'') = []"
  have "getEnv env ''JWT_SECRET'' [] = env ''JWT_SECRET''" by (simp add: getEnv_def Let_def)
  moreover have "cg_JWTAuthEnabled (cg_service (Load num env cpus)) \<longrightarrow> TrimSpace (cg_JWTSecret (cg_service (Load num env cpus))) \<noteq> []"
    using assms(1) by (rule server_start_ok)
  ultimately show False using assms(2) none by (simp only: Load_switches getEnv_unset simp_thms)
qed

lemma trip_socket_open:
  assumes "server_start cfg oc = Inr srv" "cfg = Load num env cpus" "env ''WEBSOCKET_AUTH_ENABLED'' = []"
    and "ParseInt tripID = Some trip" "0 < trip"
  shows "trip_socket parse may srv tripID r = None"
proof -
  from assms(1) obtain pg engine where srv:
    "srv = assemble cfg pg (connected_db (connectShipmentDB (cg_shipments cfg) (oc_opened oc) (oc_wait oc) (oc_now oc))) engine"
    by (rule server_start_ok)
  have off: "\<not> gs_tripRequireAuth srv" unfolding srv assemble_auth assms(2) Load_switches getEnv_unset(2)[of env "''WEBSOCKET_AUTH_ENABLED''", OF assms(3)] by simp
  have "AuthenticateWebSocketUpgrade parse r ((gs_tripAuth srv)\<lparr>wo_RequireAuth := False\<rparr>) \<noteq> None"
    by (simp add: AuthenticateWebSocketUpgrade_def split: option.split)
  then obtain a where "AuthenticateWebSocketUpgrade parse r ((gs_tripAuth srv)\<lparr>wo_RequireAuth := False\<rparr>) = Some a" by blast
  moreover have "tripID \<noteq> []" using assms(4) by (auto simp: ParseInt_def)
  ultimately show ?thesis using off assms(4,5) by (simp add: trip_socket_def ws_trip_admit_def gps_authorize_def)
qed

text \<open>
  C31. Who reads the position of a trip from a server that has started.  With either way of
  authentication switched on, \<open>GET /gps/trip/:id/location\<close> answers only a caller that sent the
  configured API key, or a token of a user who may see the trip according to the database of
  shipments; so nobody with a token gets through when that database is not connected.  A
  server that has started has a key that is not blank if the key is switched on, and a secret
  that is not blank if tokens are: a switch that is on without its key or secret keeps the
  server from starting, whatever Redis and the databases answer.  The switch of tokens is on
  unless it is set, so without a secret the default configuration never starts.
  The socket of a trip has a switch of its own: as long as it is off, which is the default, the
  socket is open to everybody, whatever authentication the rest of the server demands.
\<close>

theorem server_guards:
  assumes "server_start cfg oc = Inr srv"
  shows "((cg_JWTAuthEnabled (cg_service cfg) \<or> cg_APIKeyEnabled (cg_service cfg)) \<and> \<not> public_path (ht_Path req)
      \<and> serve_request parse srv now ip req (server_trip_location rd may srv st param) l = (Sent pos, l')
      \<longrightarrow> TrimSpace (cg_APIKey (cg_service cfg)) \<noteq> [] \<and> ht_APIKey req = TrimSpace (cg_APIKey (cg_service cfg))
        \<or> TrimSpace (cg_JWTSecret (cg_service cfg)) \<noteq> []
          \<and> (\<exists>u trip db. accepted parse (auth_options (cg_service cfg)) (bearerToken req) u \<and> ParseInt param = Some trip \<and> 0 < trip
              \<and> gs_shipmentDB srv = Some db \<and> may db u trip = Some True))
    \<and> (cg_APIKeyEnabled (cg_service cfg) \<longrightarrow> TrimSpace (cg_APIKey (cg_service cfg)) \<noteq> [])
    \<and> (cg_JWTAuthEnabled (cg_service cfg) \<longrightarrow> TrimSpace (cg_JWTSecret (cg_service cfg)) \<noteq> [])
    \<and> (cfg = Load num env cpus \<and> env ''JWT_AUTH_ENABLED'' = [] \<longrightarrow> TrimSpace (env ''JWT_SECRET'') \<noteq> [])
    \<and> (cfg = Load num env cpus \<and> env ''WEBSOCKET_AUTH_ENABLED'' = [] \<and> ParseInt tripID = Some trip \<and> 0 < trip
      \<longrightarrow> trip_socket parse may srv tripID r = None)"
proof (intro conjI impI; (elim conjE)?)
  show "TrimSpace (cg_APIKey (cg_service cfg)) \<noteq> []" if "cg_APIKeyEnabled (cg_service cfg)"
    using server_start_ok[OF assms] that by metis
  show "TrimSpace (cg_JWTSecret (cg_service cfg)) \<noteq> []" if "cg_JWTAuthEnabled (cg_service cfg)"
    using server_start_ok[OF assms] that by metis
next
  assume "cfg = Load num env cpus" "env ''JWT_AUTH_ENABLED'' = []"
  then show "TrimSpace (env ''JWT_SECRET'') \<noteq> []" using secret_needed assms by simp
next
  assume "cfg = Load num env cpus" "env ''WEBSOCKET_AUTH_ENABLED'' = []" "ParseInt tripID = Some trip" "0 < trip"
  then show "trip_socket parse may srv tripID r = None" by (rule trip_socket_open[OF assms])
qed (rule trip_location_reader[OF assms])

text \<open>The key is accepted whenever one is set, also with \<open>API_KEY_ENABLED=false\<close>.\<close>

lemma api_key_without_switch:
  assumes "server_start cfg oc = Inr srv" "cg_JWTAuthEnabled (cg_service cfg)" "\<not> cg_APIKeyEnabled (cg_service cfg)"
    and "TrimSpace (cg_APIKey (cg_service cfg)) \<noteq> []" "ht_APIKey req = TrimSpace (cg_APIKey (cg_service cfg))"
    and "\<not> public_path (ht_Path req)" "IPRateLimit (gs_rateLimit srv) now ip l = (True, l')"
  shows "serve_request parse srv now ip req handle l = (handle (SetAuthenticatedAPIKey no_auth), l')"
proof -
  from assms(1) obtain pg db engine where "srv = assemble cfg pg db engine" by (rule server_start_ok)
  then have "gs_auth srv = Some (auth_options (cg_service cfg))" using assms(2) by simp
  then show ?thesis using assms(4-7) by (simp add: serve_request_def Auth_def auth_options_def Let_def)
qed

text \<open>Repositories that \<open>main\<close> builds have a column of locations, and none of allowed vehicles.\<close>

lemma server_shipmentDB:
  assumes "NewShipmentDB opened (shipment_db_config c) = Inr (Some s)"
  shows "sd_vehicleAllowedCol s = []" "sd_locationColumn s \<noteq> []"
proof -
  have loc: "locationColumn \<noteq> []" if "location_columns d (shipment_db_config c) = Inr (locationColumn, e, la, lo)" for d locationColumn e la lo
  proof -
    have "quoteIdentifier d [] = Inl e" if "\<not> identifierPattern []" "e = ''invalid identifier '' @ Quote []" for e
      using that by (simp add: quoteIdentifier_def)
    moreover have "\<not> identifierPattern []" by (simp add: identifierPattern_def)
    ultimately show ?thesis using that
      by (auto simp: location_columns_def shipment_db_config_def check_def optional_def quoteIdentifier_def quoted_def Let_def
          split: if_splits sum.splits)
  qed
  from assms show "sd_vehicleAllowedCol s = []" "sd_locationColumn s \<noteq> []"
    unfolding NewShipmentDB_def check_def
    by (auto simp: optional_def shipment_db_config_def dest!: loc[unfolded shipment_db_config_def] split: if_splits sum.splits option.splits)
qed

lemma nearby_item_vehicles:
  assumes "sd_vehicleAllowedCol s = []"
  shows "column (nearby_item x s r) ''vehicle_allowed'' = ANil"
proof -
  have "nearby_item x s r ''vehicle_allowed'' = Some (normalizeSQLValue x ''vehicle_allowed'' SNull)"
    unfolding nearby_item_def using assms
    by (subst resolve_item_other) (simp_all add: item_of_def nearby_columns_def nearby_value_def split: prod.split)
  then show ?thesis by (simp add: column_def)
qed

lemma connect_loop_built:
  "fst (connect_loop dl window delay deadline n lastErr now) = Connected_to db \<Longrightarrow> \<exists>m \<tau>. fst (dl_attempt dl m \<tau>) = Inr db"
proof (induction dl window delay deadline n lastErr now rule: connect_loop.induct)
  case (1 dl window delay deadline n lastErr now)
  let ?T = "if window > 0 \<and> deadline - now < shipmentDBConnectAttemptTimeout then deadline - now else shipmentDBConnectAttemptTimeout"
  obtain r d where a: "dl_attempt dl n ?T = (r, d)" by fastforce
  show ?case
  proof (cases r)
    case (Inr db')
    then have "db' = db" using 1(2) a by (auto simp: connect_loop.simps[of dl window] Let_def split: if_splits)
    then show ?thesis using a Inr by (intro exI[of _ n] exI[of _ ?T]) simp
  next
    case (Inl e)
    show ?thesis
      using 1 a Inl by (auto simp: connect_loop.simps[of dl window delay deadline n] Let_def split: if_splits sum.splits)
  qed
qed

lemma server_built_db:
  assumes "server_start cfg oc = Inr srv" "gs_shipmentDB srv = Some s"
  obtains opened where "NewShipmentDB opened (shipment_db_config (cg_shipments cfg)) = Inr (Some s)"
proof -
  from assms obtain pg engine where
    "srv = assemble cfg pg (connected_db (connectShipmentDB (cg_shipments cfg) (oc_opened oc) (oc_wait oc) (oc_now oc))) engine"
    using server_start_ok by metis
  with assms(2) have "connected_db (connectShipmentDB (cg_shipments cfg) (oc_opened oc) (oc_wait oc) (oc_now oc)) = Some s" by simp
  then obtain r where "connectShipmentDB (cg_shipments cfg) (oc_opened oc) (oc_wait oc) (oc_now oc) = Some r" "fst r = Connected_to (Some s)"
    by (auto simp: connected_db_def split: option.splits prod.splits connected.splits)
  then obtain m \<tau> where
    "fst (dl_attempt (shipment_dialing (cg_shipments cfg) (oc_opened oc) (oc_wait oc)) m \<tau>) = Inr (Some s)"
    using connect_loop_built by (fastforce simp: connectShipmentDB_def connectShipmentDBWithRetry_def split: if_splits)
  then show ?thesis using that by (cases "oc_opened oc m \<tau>") (auto simp: shipment_dialing_def)
qed

text \<open>
  C40. Looking for shipments by type of vehicle finds nothing on a server that \<open>main\<close> has started,
  whatever the tables hold: \<open>main\<close> names no column of allowed vehicles, so every row reads NULL
  there and allows none.  Positions of shipments are always read from a geographic column.
\<close>

theorem server_vehicle_filter:
  assumes "server_start cfg oc = Inr srv" "gs_shipmentDB srv = Some s" "sp_repo svc = Some (shipment_repo_of x s env db)"
    and "shipment_SearchNearby js print svc now req userID c = (Inr resp, c')" "nr_Filter req \<noteq> []"
  shows "np_Shipments resp = [] \<and> np_Count resp = 0 \<and> sd_locationColumn s \<noteq> []"
proof -
  obtain opened where "NewShipmentDB opened (shipment_db_config (cg_shipments cfg)) = Inr (Some s)"
    using assms(1,2) by (rule server_built_db)
  note s = server_shipmentDB[OF this]
  obtain rows vts where rows: "rp_find (shipment_repo_of x s env db) (nr_Lat req) (nr_Lng req) (np_RadiusKm resp) (np_Limit resp) userID = Inr rows"
    and out: "np_Shipments resp = List.map_filter (visible_row userID)
       (attachShippings (shipment_repo_of x s env db) (map (enrich js print vts) (filter (wanted js (nr_Filter req)) rows)))"
    and count: "np_Count resp = int (length (np_Shipments resp))"
    using SearchNearby_rows[OF assms(4,3)] by metis
  obtain near where "rows = map (nearby_item x s) near" using rows FindNearby_ok by (fastforce simp: shipment_repo_of_def)
  then have "filter (wanted js (nr_Filter req)) rows = []"
    using assms(5) by (auto simp: filter_empty_conv wanted_def hasAnyVehicleType_def nearby_item_vehicles[OF s(1)])
  then have "np_Shipments resp = []" by (simp add: out attachShippings_def List.map_filter_simps split: option.split sum.split)
  then show ?thesis using count s(2) by simp
qed

section \<open>Examples\<close>

definition example_env :: environ where
  "example_env v =
     (if v = ''JWT_SECRET'' then ''k'' else if v = ''INTERNAL_GRAPH_ENABLED'' then ''false''
      else if v = ''SHIPMENT_DB_DSN'' then ''postgres://db/app'' else [])"

definition example_server_cfg :: ServerConfig where
  "example_server_cfg = Load (\<lambda>_. None) example_env 4"

definition example_outcomes :: outcomes where
  "example_outcomes = \<lparr>oc_redis = None, oc_postgres = Inl ''not asked'', oc_opened = second_time, oc_wait = (\<lambda>_. Inr 0),
     oc_order = (\<lambda>_. []), oc_now = 0\<rparr>"

lemma example_connected:
  obtains s where "connectShipmentDB (cg_shipments example_server_cfg) second_time (\<lambda>_. Inr 0) 0 = Some (Connected_to (Some s), seconds 3, 2)"
proof -
  have "case connectShipmentDB (cg_shipments example_server_cfg) second_time (\<lambda>_. Inr 0) 0 of
      Some (Connected_to (Some s), t, k) \<Rightarrow> t = seconds 3 \<and> k = 2 | _ \<Rightarrow> False" by code_simp
  then show ?thesis using that by (auto split: option.splits prod.splits connected.splits)
qed

lemma example_prompt: "prompt 0 (shipment_dialing c second_time (\<lambda>_. Inr 0))"
  by (simp add: prompt_def shipment_dialing_def second_time_def)

theorem connect_shipments_ends_witness:
  "\<exists>s. connectShipmentDB (cg_shipments example_server_cfg) second_time (\<lambda>_. Inr 0) 0 = Some (Connected_to (Some s), seconds 3, 2)
    \<and> (2 :: nat) \<le> 31 \<and> seconds 3 \<le> 0 + seconds 90 + 0
    \<and> (\<exists>opened. NewShipmentDB opened (shipment_db_config (cg_shipments example_server_cfg)) = Inr (Some s))"
proof -
  obtain s where s: "connectShipmentDB (cg_shipments example_server_cfg) second_time (\<lambda>_. Inr 0) 0 = Some (Connected_to (Some s), seconds 3, 2)"
    by (rule example_connected)
  with connect_shipments_ends[OF s example_prompt] show ?thesis by blast
qed

lemma example_started:
  obtains srv s where "server_start example_server_cfg example_outcomes = Inr srv" "gs_shipmentDB srv = Some s"
    "gs_rateLimit srv = 300"
proof -
  let ?c = "cg_service example_server_cfg" and ?r = "cg_routing example_server_cfg"
  have c: "cg_PostgresDSN ?c = []" "cg_APIKeyEnabled ?c = False" "cg_JWTAuthEnabled ?c = True" "cg_JWTSecret ?c = ''k''"
      "cg_RateLimitPerMin ?c = 300" "cg_InternalGraphEnabled ?r = False" by code_simp+
  obtain s where s: "connectShipmentDB (cg_shipments example_server_cfg) second_time (\<lambda>_. Inr 0) 0 = Some (Connected_to (Some s), seconds 3, 2)"
    by (rule example_connected)
  have "server_start example_server_cfg example_outcomes = Inr (assemble example_server_cfg None (Some s) None)"
    using s by (simp add: server_start_def Let_def example_outcomes_def c NewPostgres_def prepareInternalRouting_def
        shouldLoadInternalGraphAtStartup_def connected_db_def TrimSpace_def is_space_def)
  moreover have "gs_rateLimit (assemble example_server_cfg None (Some s) None) = 300" by (simp add: assemble_def Let_def c)
  ultimately show ?thesis using that by simp
qed

text \<open>The user of the token may see trip 9.\<close>

definition example_may :: "ShipmentDB \<Rightarrow> int \<Rightarrow> int \<Rightarrow> bool option" where
  "example_may s u t = Some (u = 7 \<and> t = 9)"

definition example_position :: LocationState where
  "example_position = \<lparr>ls_TripID = 9, ls_Lat = 35, ls_Lng = 51, ls_SpeedKmH = 0, ls_Timestamp = 1000, ls_DeviationKm = 0\<rparr>"

definition example_get :: http_request where
  "example_get = \<lparr>ht_Path = ''/gps/trip/9/location'', ht_APIKey = [], ht_Authorization = ''Bearer t'', ht_Protocol = []\<rparr>"

theorem server_guards_witness:
  "\<exists>srv l'. server_start example_server_cfg example_outcomes = Inr srv
    \<and> serve_request example_parser srv 5 ''10.0.0.1'' example_get
        (server_trip_location map_redis example_may srv (SetLocation map_redis Map.empty 9 example_position) ''9'') (new_limiter 0)
      = (Sent example_position, l')
    \<and> (\<exists>u trip db. accepted example_parser (auth_options (cg_service example_server_cfg)) (bearerToken example_get) u
        \<and> ParseInt ''9'' = Some trip \<and> gs_shipmentDB srv = Some db \<and> example_may db u trip = Some True)
    \<and> TrimSpace (cg_JWTSecret (cg_service example_server_cfg)) \<noteq> [] \<and> TrimSpace (example_env ''JWT_SECRET'') \<noteq> []
    \<and> trip_socket example_parser example_may srv ''9'' example_ws = None"
proof -
  obtain srv s where srv: "server_start example_server_cfg example_outcomes = Inr srv" "gs_shipmentDB srv = Some s" "gs_rateLimit srv = 300"
    by (rule example_started)
  then obtain pg db engine where a: "srv = assemble example_server_cfg pg db engine"
    using server_start_ok by metis
  have sw: "cg_APIKeyEnabled (cg_service example_server_cfg) = False" "cg_JWTAuthEnabled (cg_service example_server_cfg) = True"
      "cg_APIKey (cg_service example_server_cfg) = []"
    by code_simp+
  have auth: "Auth example_parser (auth_options (cg_service example_server_cfg)) example_get = Some (SetAuthenticatedJWT no_auth 7)"
    by code_simp
  have nine: "ParseInt ''9'' = Some 9" by code_simp
  have "server_trip_location map_redis example_may srv (SetLocation map_redis Map.empty 9 example_position) ''9'' (SetAuthenticatedJWT no_auth 7)
      = Sent example_position"
    using srv(2) by (simp add: server_trip_location_def gps_location_handler_def nine gps_authorize_def AuthenticatedWithAPIKey_def
        SetAuthenticatedJWT_def AuthenticatedUserID_def no_auth_def trip_access_def example_may_def gps_GetLocation_def
        SetLocation_def GetLocation_def map_redis_def)
  then obtain l' where sent: "serve_request example_parser srv 5 ''10.0.0.1'' example_get
        (server_trip_location map_redis example_may srv (SetLocation map_redis Map.empty 9 example_position) ''9'') (new_limiter 0)
      = (Sent example_position, l')"
    using srv(3) by (simp add: serve_request_def IPRateLimit_def new_limiter_def current_bucket_def minute_def a sw auth)
  have path: "\<not> public_path (ht_Path example_get)" by (simp add: public_path_def example_get_def)
  have e: "example_server_cfg = Load (\<lambda>_. None) example_env 4" by (simp add: example_server_cfg_def)
  from server_guards[OF srv(1), THEN conjunct1, rule_format, OF conjI[OF _ conjI[OF path sent]]] sw
  have "\<exists>u trip db. accepted example_parser (auth_options (cg_service example_server_cfg)) (bearerToken example_get) u
        \<and> ParseInt ''9'' = Some trip \<and> gs_shipmentDB srv = Some db \<and> example_may db u trip = Some True" by auto
  moreover have "TrimSpace (cg_JWTSecret (cg_service example_server_cfg)) \<noteq> []"
    using server_guards[OF srv(1), THEN conjunct2, THEN conjunct2, THEN conjunct1] sw(2) by simp
  moreover have "TrimSpace (example_env ''JWT_SECRET'') \<noteq> []"
    using server_guards[OF srv(1), THEN conjunct2, THEN conjunct2, THEN conjunct2, THEN conjunct1, rule_format, OF conjI[OF e]]
    by (simp add: example_env_def)
  moreover have "trip_socket example_parser example_may srv ''9'' example_ws = None"
    using server_guards[OF srv(1), THEN conjunct2, THEN conjunct2, THEN conjunct2, THEN conjunct2, rule_format, OF conjI[OF e conjI[OF _ conjI[OF nine]]]]
    by (simp add: example_env_def)
  ultimately show ?thesis using srv(1) sent by blast
qed

text \<open>Shipments of \<open>sample_db\<close> near a passenger: one without a filter, none that take a vehicle of type 3.\<close>

definition filtered_search :: NearbyShipmentRequest where
  "filtered_search = example_search\<lparr>nr_Filter := [3]\<rparr>"

theorem server_vehicle_filter_witness:
  "\<exists>srv s items resp c'. server_start example_server_cfg example_outcomes = Inr srv \<and> gs_shipmentDB srv = Some s
    \<and> rp_find (shipment_repo_of sample_text s sample_env sample_db) 35 51 2 100 6 = Inr items \<and> items \<noteq> []
    \<and> shipment_SearchNearby no_json (\<lambda>_. []) (NewShipmentService (Some (shipment_repo_of sample_text s sample_env sample_db)) 0 0)
        9 filtered_search 6 empty_cache = (Inr resp, c') \<and> np_Shipments resp = []"
proof -
  obtain srv s where srv: "server_start example_server_cfg example_outcomes = Inr srv" "gs_shipmentDB srv = Some s"
    by (rule example_started)
  let ?repo = "shipment_repo_of sample_text s sample_env sample_db"
  let ?svc = "NewShipmentService (Some ?repo) 0 0" and ?rows = "buildNearbyQuery s sample_env sample_db 35 51 2 100 6"
  have repo: "sp_repo ?svc = Some ?repo" by (simp add: NewShipmentService_def)
  have d: "search_radius (sp_defaultRadiusKm ?svc) (nr_RadiusKm filtered_search) = 2"
      "search_limit (sp_defaultLimit ?svc) (nr_Limit filtered_search) = 100"
    by (simp_all add: search_radius_def search_limit_def NewShipmentService_def filtered_search_def example_search_def
        defaultShipmentRadiusKm_def maxNearbySearchRadiusKm_def clamp_default_def defaultShipmentLimit_def maxShipmentLimit_def)
  have find: "rp_find ?repo lat lng 2 100 6
      = Inr (map (nearby_item sample_text s) (buildNearbyQuery s sample_env sample_db lat lng 2 100 6))" for lat lng
    by (simp add: shipment_repo_of_def FindNearbyShipments_def with_db_def query_rows_ok resolveNearbyMediaURLs_def nearby_item_def)
  then obtain resp c' where answer: "shipment_SearchNearby no_json (\<lambda>_. []) ?svc 9 filtered_search 6 empty_cache = (Inr resp, c')"
    unfolding shipment_SearchNearby_def repo option.case d Let_def by (fastforce split: prod.split)
  have "nr_Filter filtered_search \<noteq> []" by (simp add: filtered_search_def)
  note none = server_vehicle_filter[OF srv repo answer this]
  have near: "near_row s sample_env 35 51 2 (sample_shipment 1 7) \<noteq> None"
    using none by (simp add: near_row_def postgis_row_def sample_shipment_def sample_env_def)
  have "?rows \<noteq> []"
    using nearby_rows(4)[OF sample_keys refl, of 100 s sample_env 35 51 2 6 "sample_shipment 1 7"] near sample_open
    by (auto simp: sample_db_def)
  with srv find[of 35 51] answer none show ?thesis by blast
qed

end
