(* ===== verification/Spec2Isabelle.thy ===== *)
theory Spec2Isabelle
  imports Highway HeapQ GeoMath RoadGraph LabelSearch AStar BiAStar Yen Polyline Profiles Instructions Engine Multimodal RouteApi GpsService WsHub TransitLoader OsmImport DriverPresence ShipmentSvc WsNearby TransitImport ShipmentSql ShipmentDb LocationHistory EdgeLimits ServerStart
begin

text \<open>
  A verification development for geo-service, a Go service that computes routes for freight,
  follows trips and finds drivers and shipments near a position.

  \<^bold>\<open>The program.\<close>  Two importers (\<open>cmd/osm2postgis\<close>, \<open>cmd/osm2transit\<close>) turn an OpenStreetMap
  export into tables.  At start-up (\<open>cmd/server/main.go\<close>) the server reads the tables into
  three graphs (roads, railways, public transport) and wraps them in an engine
  (\<open>internal/routing\<close>), which is one of the backends of the route service (\<open>internal/route\<close>;
  the other is an OSRM server reached over HTTP).  Live positions of trips (\<open>internal/gps\<close>) and
  of users (\<open>internal/service/driver.go\<close>) go through Redis (\<open>internal/cache\<close>) and an event bus to
  WebSocket clients (\<open>internal/ws\<close>, \<open>internal/wsnearby\<close>, \<open>internal/handler\<close>); shipments near a
  passenger come from an external database (\<open>internal/storage\<close>, \<open>internal/service/shipment.go\<close>).

  \<^bold>\<open>Theories, in the order they build on each other.\<close>  Names of definitions are those of the Go
  functions and types; a name that clashes has a prefix for its package.

  \<^item> \<open>Geo_Prelude\<close>, \<open>GoStd\<close>, \<open>GoText\<close>: the value model and what the code uses of Go's standard
    library (rounding, trimming, \<open>sort.Slice\<close>, decimal and fixed-point text, \<open>%q\<close>).
  \<^item> \<open>GeoMath\<close> (\<open>utils/geo.go\<close>, \<open>smoother.go\<close>): distances, bearings, distance to a polyline.
  \<^item> \<open>Polyline\<close>: the two encoders and decoders of the polyline format on 64-bit words.
  \<^item> \<open>Highway\<close>, \<open>Profiles\<close>: road classes with their speeds, access flags, transport modes.
  \<^item> \<open>RoadGraph\<close> (\<open>routing/graph.go\<close>): the graph, its grid index, snapping, the name pool;
    invariant \<open>graph_ok\<close>.
  \<^item> \<open>HeapQ\<close> (\<open>container/heap\<close> on \<open>routing/astar.go\<close>'s queue): a binary heap refines the
    interface of a minimum-first queue, a locale that \<open>LabelSearch\<close> builds on.
  \<^item> \<open>LabelSearch\<close>, \<open>AStar\<close>, \<open>BiAStar\<close>, \<open>Yen\<close>: label-correcting search, shared by the
    unidirectional and the bidirectional search and by the alternatives; a search returns (loops
    are partial functions whose termination is proved) and what it returns is a path of the
    graph with its true cost, and an optimal one where the code's stopping rule permits.
  \<^item> \<open>Instructions\<close>, \<open>Engine\<close>, \<open>Multimodal\<close>: turn-by-turn instructions that cover the path; the
    routes of each mode; train and public-transport journeys; the warm pool as a state machine.
  \<^item> \<open>RouteModel\<close>, \<open>OsrmClient\<close>, \<open>Slots\<close>, \<open>RouteBackend\<close>: errors and their classification, the
    OSRM client, the counting semaphore, and the tree of backends (limits, lazy loading,
    fallback) refining one specification of an answer.
  \<^item> \<open>Cache\<close>, \<open>RouteService\<close>, \<open>Auth\<close>, \<open>RouteApi\<close>: keys and cached values, the route service with
    its cache, single flight and concurrency limit, who may do what, and the HTTP endpoints.
  \<^item> \<open>GpsService\<close>, \<open>WsHub\<close>: trip positions and the hub, as interleaved steps of requests and
    background goroutines.
  \<^item> \<open>GraphLoader\<close>, \<open>TransitLoader\<close>, \<open>OsmImport\<close>, \<open>TransitImport\<close>: from the map file to the
    tables and from the tables to the graphs; the end-to-end statements are
    \<open>import_to_graph\<close> and \<open>import_transit_network\<close>.
  \<^item> \<open>DriverPresence\<close>, \<open>ShipmentSvc\<close>, \<open>WsNearby\<close>: live positions of users in Redis, the
    shipments near a passenger, and the socket that serves both.
  \<^item> \<open>ShipmentSql\<close>, \<open>ShipmentDb\<close>: the repository of shipments (\<open>internal/storage\<close>): the names that get
    into SQL text, placeholders, values of rows and media addresses; then the queries, translated
    over tables for both dialects, up to what a passenger sees and who may follow whom.
  \<^item> \<open>LocationHistory\<close> (\<open>internal/events\<close>, \<open>internal/storage/location_batch.go\<close>): the event bus with
    its buffered channels, and the writer that stores the positions of trips in batches.
  \<^item> \<open>EdgeLimits\<close>, \<open>ServerStart\<close> (\<open>internal/middleware/security.go\<close>, \<open>config\<close>, \<open>cmd/server/main.go\<close>): the limit
    of requests per client; the configuration, the retries of the connection to the shipments,
    what makes the server refuse to start, and what a request passes on its way to a handler.

  \<^bold>\<open>How values are modelled.\<close>  A \<open>float64\<close> is a real number (no rounding, NaN or infinity);
  \<open>int64\<close> identifiers are integers; flags, name indices and the polyline's numbers keep their
  width as words.  A Go map is a function to an option, or a parameter gives the order in which
  it is walked; results that do not depend on that order are proved for every order.  A nil
  pointer or function is \<open>None\<close>, a returned error a left injection or an optional text, a panic or
  an endless loop \<open>None\<close>.  A context is a function from the number of the poll to the error it
  would report.  Goroutines are steps of an inductive relation, and what is proved of them holds
  for every interleaving.

  \<^bold>\<open>Idealisations.\<close>  Case folding and trimming know the white space and letters of ASCII only, where
  Go's \<open>strings\<close> follow Unicode; conversions to \<open>float32\<close> keep the value; where a theorem assumes
  \<open>redis_ok\<close>, writes succeed and keys do not expire; the polylines that a public-transport
  answer computes for its edges are not carried over to later calls; an import of roads that
  cannot create its stage table is not followed; and the bound in time on the connection to
  the shipments assumes (\<open>prompt\<close>) that an attempt ends when its context does.

  \<^bold>\<open>What is a parameter.\<close>  Redis, the JSON decoder and encoder where their text does not matter,
  the JWT library, the HTTP exchange with OSRM, the decoding of XML and PBF files, single
  flight, and the databases: the rows a query returns, or which statement is refused.  SQL that
  decides something is translated where a theorem depends on it.  The laws assumed of a
  parameter (\<open>sort_law\<close>, \<open>geo_ok\<close>, \<open>flat_json\<close> and the like) are named definitions, and every
  theorem that has one is applied to a concrete instance in its witness.

  \<^bold>\<open>Bounds and fuel.\<close>  No definition takes fuel.  The searches and the pool are partial
  functions with proofs that they return on every well-formed graph, and never run out: the
  measure is the number of unsettled nodes and the length of the queue.

  \<^bold>\<open>Properties.\<close>  The text before a theorem that carries its number C1, C2, \<dots> states it in
  words; the theorem named after it with the suffix \<open>_witness\<close> applies it to a concrete input.
  Lemmas without a number are the library of the component.

  \<^bold>\<open>Not modelled.\<close>  Generated API documentation (\<open>docs\<close>); the load and traffic generators
  (\<open>cmd/sim-drivers\<close>, \<open>cmd/sim-passenger\<close>, \<open>cmd/loadtest\<close>), which are clients and not part of
  the service; metrics, tracing and logging, which only observe; the headers of CORS; the HTTP
  listener and the order of shutdown; the connection pool and the migrations, which hand SQL to
  the database; \<open>FindTripsByUserIDs\<close>, which nothing calls; the import of railway stations
  (\<open>cmd/osm2stations\<close>), a table that is never read; the history of computed routes
  (\<open>route_repository.go\<close>), which is written and never read; \<open>internal/wsplatform\<close>, which the server
  does not construct.
\<close>

end
